(* ===== verification/Otlp_Prelude.thy ===== *)
theory Otlp_Prelude
  imports Main "HOL-Library.Word" "HOL-Library.Sublist"
begin

text \<open>
  Shared vocabulary of the development: the machine integers of the C code, the status
  codes of \<^verbatim>\<open>include/otlp-c/status.h\<close> with the messages of \<^verbatim>\<open>src/common.c\<close>, the
  allocator that every heap request goes through, the "check the status, return early"
  sequencing of the C code, C strings, and the generic lemmas the components share.
\<close>

unbundle bit_operations_syntax

section \<open>Machine integers\<close>

type_synonym u8 = "8 word"
type_synonym u16 = "16 word"
type_synonym u32 = "32 word"
type_synonym u64 = "64 word"

text \<open>
  A \<^verbatim>\<open>size_t\<close> is a natural number; the places where the code tests for overflow compare
  against \<open>SIZE_MAX\<close> of an LP64 target, as the code does.
\<close>

definition SIZE_MAX :: nat where
  "SIZE_MAX = 18446744073709551615"


section \<open>Status codes\<close>

datatype status =
    OTLP_OK
  | OTLP_ERR_INVALID_ARGUMENT
  | OTLP_ERR_NOMEM
  | OTLP_ERR_NULL
  | OTLP_ERR_OVERFLOW
  | OTLP_ERR_UTF8
  | OTLP_ERR_NETWORK
  | OTLP_ERR_TIMEOUT
  | OTLP_ERR_DNS
  | OTLP_ERR_CONNECT
  | OTLP_ERR_WRITE
  | OTLP_ERR_READ
  | OTLP_ERR_PROTOCOL
  | OTLP_ERR_INVALID_RESPONSE
  | OTLP_ERR_HTTP_STATUS
  | OTLP_ERR_THROTTLED
  | OTLP_ERR_SERVER
  | OTLP_ERR_BUFFER_FULL
  | OTLP_ERR_SHUTDOWN
  | OTLP_ERR_WOULDBLOCK
  | OTLP_ERR_NOT_IMPLEMENTED

fun status_code :: "status \<Rightarrow> int" where
  "status_code OTLP_OK = 0"
| "status_code OTLP_ERR_INVALID_ARGUMENT = -1"
| "status_code OTLP_ERR_NOMEM = -2"
| "status_code OTLP_ERR_NULL = -3"
| "status_code OTLP_ERR_OVERFLOW = -4"
| "status_code OTLP_ERR_UTF8 = -5"
| "status_code OTLP_ERR_NETWORK = -10"
| "status_code OTLP_ERR_TIMEOUT = -11"
| "status_code OTLP_ERR_DNS = -12"
| "status_code OTLP_ERR_CONNECT = -13"
| "status_code OTLP_ERR_WRITE = -14"
| "status_code OTLP_ERR_READ = -15"
| "status_code OTLP_ERR_PROTOCOL = -20"
| "status_code OTLP_ERR_INVALID_RESPONSE = -21"
| "status_code OTLP_ERR_HTTP_STATUS = -22"
| "status_code OTLP_ERR_THROTTLED = -23"
| "status_code OTLP_ERR_SERVER = -24"
| "status_code OTLP_ERR_BUFFER_FULL = -30"
| "status_code OTLP_ERR_SHUTDOWN = -31"
| "status_code OTLP_ERR_WOULDBLOCK = -32"
| "status_code OTLP_ERR_NOT_IMPLEMENTED = -100"

text \<open>\<open>otlp_strerror\<close> takes any C enum value, so it is a function of the code.\<close>

definition otlp_strerror :: "int \<Rightarrow> string" where
  "otlp_strerror c =
    (if c = 0 then ''OK''
     else if c = -1 then ''invalid argument''
     else if c = -2 then ''out of memory''
     else if c = -3 then ''NULL argument''
     else if c = -4 then ''overflow''
     else if c = -5 then ''UTF-8 encoding error''
     else if c = -10 then ''network error''
     else if c = -11 then ''timeout''
     else if c = -12 then ''DNS resolution failed''
     else if c = -13 then ''connection failed''
     else if c = -14 then ''write failed''
     else if c = -15 then ''read failed''
     else if c = -20 then ''protocol error''
     else if c = -21 then ''invalid response''
     else if c = -22 then ''unexpected HTTP status''
     else if c = -23 then ''throttled by server''
     else if c = -24 then ''server error''
     else if c = -30 then ''internal buffer full''
     else if c = -31 then ''exporter has been shut down''
     else if c = -32 then ''operation would block''
     else if c = -100 then ''not implemented yet''
     else ''unknown status'')"

lemma status_code_inj: "status_code a = status_code b \<Longrightarrow> a = b"
  by (cases a; cases b) simp_all

lemma status_code_eq_iff [simp]: "status_code a = status_code b \<longleftrightarrow> a = b"
  using status_code_inj by blast

lemma status_code_nonpos: "status_code s \<le> 0"
  by (cases s) simp_all

text \<open>C compares enum values by their integer codes; the order below is that comparison.\<close>

instantiation status :: linorder
begin

definition less_eq_status :: "status \<Rightarrow> status \<Rightarrow> bool" where
  "less_eq_status a b \<longleftrightarrow> status_code a \<le> status_code b"

definition less_status :: "status \<Rightarrow> status \<Rightarrow> bool" where
  "less_status a b \<longleftrightarrow> status_code a < status_code b"

instance
  by standard (auto simp: less_eq_status_def less_status_def intro: status_code_inj)

end

section \<open>The allocator\<close>

text \<open>
  Every heap request goes through the function pointers installed with
  \<^verbatim>\<open>otlp_set_allocator\<close> (libc by default): code the library does not own. It is a parameter:
  given a request size and its own state \<open>'m\<close> it answers whether the request succeeds.
  Any history-dependent failure pattern is such a function, so a statement that holds for
  every allocator holds under every out-of-memory schedule.
\<close>

record 'm allocator =
  a_alloc :: "nat \<Rightarrow> 'm \<Rightarrow> bool \<times> 'm"
  a_realloc :: "nat \<Rightarrow> 'm \<Rightarrow> bool \<times> 'm"

definition always_alloc :: "unit allocator" where
  "always_alloc = \<lparr>a_alloc = (\<lambda>n m. (True, m)), a_realloc = (\<lambda>n m. (True, m))\<rparr>"

text \<open>An allocator with a budget of requests left, as the fault-injection tests install.\<close>

definition budget_alloc :: "nat allocator" where
  "budget_alloc =
     \<lparr>a_alloc = (\<lambda>n k. (0 < k, k - 1)), a_realloc = (\<lambda>n k. (0 < k, k - 1))\<rparr>"

section \<open>Early-return sequencing\<close>

text \<open>
  \<^verbatim>\<open>st = f(...); if (st != OTLP_OK) return st; return g(...);\<close> over a threaded state.
\<close>

definition then_ok :: "('s \<Rightarrow> status \<times> 's) \<Rightarrow> ('s \<Rightarrow> status \<times> 's) \<Rightarrow> 's \<Rightarrow> status \<times> 's" where
  "then_ok f g s = (case f s of (st, s') \<Rightarrow> if st \<noteq> OTLP_OK then (st, s') else g s')"

definition ret_ok :: "'s \<Rightarrow> status \<times> 's" where
  "ret_ok s = (OTLP_OK, s)"

lemma ret_ok_simp [simp]: "ret_ok s = (OTLP_OK, s)"
  by (simp add: ret_ok_def)

lemma then_ok_OK:
  "then_ok f g s = (OTLP_OK, s') \<longleftrightarrow> (\<exists>t. f s = (OTLP_OK, t) \<and> g t = (OTLP_OK, s'))"
  by (auto simp: then_ok_def split: prod.splits if_splits)

lemma then_ok_eq [simp]: "f s = (OTLP_OK, t) \<Longrightarrow> then_ok f g s = g t"
  by (simp add: then_ok_def)

lemma then_ok_err [simp]: "f s = (st, t) \<Longrightarrow> st \<noteq> OTLP_OK \<Longrightarrow> then_ok f g s = (st, t)"
  by (simp add: then_ok_def)

lemma then_ok_cases:
  assumes "then_ok f g s = (st, s')"
  obtains "f s = (st, s')" "st \<noteq> OTLP_OK" | t where "f s = (OTLP_OK, t)" "g t = (st, s')"
  using assms by (auto simp: then_ok_def split: prod.splits if_splits)

section \<open>C strings\<close>

text \<open>
  A C string is the list of its bytes before the terminating NUL, a \<^verbatim>\<open>char *\<close> that may be
  NULL an option of it. \<open>cstr_at\<close> reads the character at an offset: the byte, the NUL at the
  end, and nothing past it, where a C read would leave the object.
\<close>

type_synonym cstr = "u8 list"

definition cstr_at :: "cstr \<Rightarrow> nat \<Rightarrow> u8 option" where
  "cstr_at s i =
     (if i < length s then Some (s ! i) else if i = length s then Some 0 else None)"

text \<open>A list of bytes is a C string when it holds no NUL.\<close>

definition is_cstr :: "cstr \<Rightarrow> bool" where
  "is_cstr s \<longleftrightarrow> 0 \<notin> set s"

text \<open>String literals of the source, as bytes.\<close>

definition ascii :: "string \<Rightarrow> cstr" where
  "ascii s = map (\<lambda>c. word_of_nat (of_char c)) s"

section \<open>Append-only byte sinks\<close>

text \<open>
  \<open>emits I C K op xs\<close> is the contract of an encoder step \<open>op\<close> over a state whose bytes so far
  are \<open>C s\<close>: under the invariant \<open>I\<close>, which it keeps, it appends exactly \<open>xs\<close> when it returns
  OK; when it fails, what it appended is a prefix of \<open>xs\<close>; and it cannot fail when \<open>K\<close>
  accepts the resulting length.
\<close>

definition emits ::
  "('s \<Rightarrow> bool) \<Rightarrow> ('s \<Rightarrow> u8 list) \<Rightarrow> (nat \<Rightarrow> bool) \<Rightarrow> ('s \<Rightarrow> status \<times> 's) \<Rightarrow> u8 list \<Rightarrow> bool"
where
  "emits I C K op xs \<longleftrightarrow>
     (\<forall>s st s'. I s \<longrightarrow> op s = (st, s') \<longrightarrow>
        I s' \<and> (\<exists>ys. C s' = C s @ ys \<and> prefix ys xs \<and> (st = OTLP_OK \<longrightarrow> ys = xs)) \<and>
        (K (length (C s) + length xs) \<longrightarrow> st = OTLP_OK))"

lemma emitsI:
  assumes "\<And>s st s'. I s \<Longrightarrow> op s = (st, s') \<Longrightarrow> I s'"
    and "\<And>s st s'. I s \<Longrightarrow> op s = (st, s') \<Longrightarrow>
      \<exists>ys. C s' = C s @ ys \<and> prefix ys xs \<and> (st = OTLP_OK \<longrightarrow> ys = xs)"
    and "\<And>s st s'. I s \<Longrightarrow> op s = (st, s') \<Longrightarrow> K (length (C s) + length xs) \<Longrightarrow> st = OTLP_OK"
  shows "emits I C K op xs"
  using assms unfolding emits_def by blast

lemma emits_inv: "emits I C K op xs \<Longrightarrow> I s \<Longrightarrow> op s = (st, s') \<Longrightarrow> I s'"
  unfolding emits_def by blast

lemma emits_OK: "emits I C K op xs \<Longrightarrow> I s \<Longrightarrow> op s = (OTLP_OK, s') \<Longrightarrow> C s' = C s @ xs"
  unfolding emits_def by blast

lemma emits_prefix:
  "emits I C K op xs \<Longrightarrow> I s \<Longrightarrow> op s = (st, s') \<Longrightarrow> \<exists>ys. C s' = C s @ ys \<and> prefix ys xs"
  unfolding emits_def by blast

lemma emits_total:
  "emits I C K op xs \<Longrightarrow> I s \<Longrightarrow> op s = (st, s') \<Longrightarrow> K (length (C s) + length xs) \<Longrightarrow> st = OTLP_OK"
  unfolding emits_def by blast

text \<open>
  The interface the encoders are written against: one primitive \<open>put\<close> that appends a chunk,
  and a resource predicate that is closed downwards.
\<close>

locale byte_sink =
  fixes put :: "u8 list \<Rightarrow> 's \<Rightarrow> status \<times> 's"
    and content :: "'s \<Rightarrow> u8 list"
    and inv :: "'s \<Rightarrow> bool"
    and fits :: "nat \<Rightarrow> bool"
  assumes put_emits: "emits inv content fits (put xs) xs"
    and fits_mono: "fits n \<Longrightarrow> m \<le> n \<Longrightarrow> fits m"
begin

lemma emits_ret_ok: "emits inv content fits ret_ok []"
  by (rule emitsI) auto

lemma emits_then_ok:
  assumes f: "emits inv content fits f xs" and g: "emits inv content fits g ys"
  shows "emits inv content fits (then_ok f g) (xs @ ys)"
proof (rule emitsI)
  fix s st s' assume s: "inv s" and eq: "then_ok f g s = (st, s')"
  show "inv s'"
    using eq by (rule then_ok_cases) (blast intro: emits_inv [OF f s] emits_inv [OF g emits_inv [OF f s]])+
  show "\<exists>zs. content s' = content s @ zs \<and> prefix zs (xs @ ys) \<and> (st = OTLP_OK \<longrightarrow> zs = xs @ ys)"
    using eq
  proof (rule then_ok_cases)
    assume "f s = (st, s')" "st \<noteq> OTLP_OK"
    with emits_prefix [OF f s] show ?thesis by (meson prefix_prefix)
  next
    fix t assume ft: "f s = (OTLP_OK, t)" and gt: "g t = (st, s')"
    from g emits_inv [OF f s ft] gt obtain zs where
      "content s' = content t @ zs" "prefix zs ys" "st = OTLP_OK \<longrightarrow> zs = ys"
      unfolding emits_def by blast
    with emits_OK [OF f s ft] show ?thesis by (intro exI [of _ "xs @ zs"]) auto
  qed
  assume fit: "fits (length (content s) + length (xs @ ys))"
  show "st = OTLP_OK"
    using eq
  proof (rule then_ok_cases)
    assume "f s = (st, s')"
    then show ?thesis by (rule emits_total [OF f s]) (rule fits_mono [OF fit], simp)
  next
    fix t assume ft: "f s = (OTLP_OK, t)" and gt: "g t = (st, s')"
    from fit emits_OK [OF f s ft] have "fits (length (content t) + length ys)"
      by (simp add: add.assoc)
    with gt show ?thesis by (rule emits_total [OF g emits_inv [OF f s ft]])
  qed
qed

lemma emits_put2: "emits inv content fits (then_ok (put xs) (put ys)) (xs @ ys)"
  by (rule emits_then_ok [OF put_emits put_emits])

end

section \<open>Generic lemmas\<close>

lemma nth_append_at [simp]: "(xs @ y # ys) ! length xs = y"
  by simp

lemma unat_of_nat_u64: "n < 2 ^ 64 \<Longrightarrow> unat (word_of_nat n :: u64) = n"
  by (simp add: unat_of_nat take_bit_nat_eq_self)

lemma unat_u64_lt: "unat (x :: u64) < 18446744073709551616"
  using unsigned_less [of x, where 'a = nat] by simp

lemma unat_u32_lt: "unat (x :: u32) < 4294967296"
  using unsigned_less [of x, where 'a = nat] by simp

lemma unat_u8_lt: "unat (x :: u8) < 256"
  using unsigned_less [of x, where 'a = nat] by simp

lemma unat_take_bit: "unat (take_bit n (v :: 'a::len word)) = unat v mod 2 ^ n"
  by (simp only: unsigned_take_bit_eq) (simp add: take_bit_eq_mod)

lemma unat_drop_bit: "unat (drop_bit k v :: u64) = unat v div 2 ^ k"
  by (simp only: unat_drop_bit_eq) (simp only: drop_bit_eq_div)

lemma and_0x7F: "(v AND 0x7F :: 'a::len word) = take_bit 7 v"
  by (simp add: take_bit_eq_mask mask_eq_exp_minus_1)

lemma bit_u64_128: "bit (0x80 :: u64) n \<longleftrightarrow> n = 7"
proof -
  have p: "(0x80 :: u64) = 2 ^ 7" by simp
  show ?thesis unfolding p bit_exp_iff by auto
qed

lemma unat_low7_or_128: "unat ((v AND 0x7F) OR 0x80 :: u64) = unat v mod 128 + 128"
proof -
  have "(v AND 0x7F) OR 0x80 = (v AND 0x7F) + (0x80::u64)"
    unfolding and_0x7F
    by (rule disjunctive_add [symmetric]) (use bit_u64_128 in \<open>auto simp: bit_take_bit_iff\<close>)
  moreover have "unat (take_bit 7 v) = unat v mod 128" by (simp add: unat_take_bit)
  ultimately show ?thesis by (simp add: and_0x7F unat_word_ariths)
qed

lemma ucast_word_of_nat: "(ucast (v :: 'a::len word) :: 'b::len word) = word_of_nat (unat v)"
  by (simp add: unsigned_of_nat)

lemma byte_cont: "ucast ((v AND 0x7F) OR 0x80 :: u64) = (word_of_nat (unat v mod 128 + 128) :: u8)"
  by (simp only: ucast_word_of_nat unat_low7_or_128)

lemma byte_clear_cont: "(word_of_nat (n mod 128 + 128) :: u8) AND 0x7F = word_of_nat (n mod 128)"
  by (rule word_unat_eq_iff [THEN iffD2]) (simp only: and_0x7F unat_take_bit unat_of_nat, simp)

end
