(* ===== verification/Utf8.thy ===== *)
theory Utf8
  imports Otlp_Prelude
begin

text \<open>
  The UTF-8 gate of \<^verbatim>\<open>otlp_str_is_utf8\<close> (\<^verbatim>\<open>src/internal_util.c\<close>), which every string that reaches
  the wire passes, against the definition of UTF-8: a string is accepted exactly when it is the
  encoding of a sequence of Unicode scalar values.
\<close>

section \<open>The code\<close>

text \<open>
  The continuation bytes of one sequence. Past the end of the string the code reads the
  terminating NUL, which fails the test, so it never reads further.
\<close>

fun utf8_cont :: "nat \<Rightarrow> u32 \<Rightarrow> u8 list \<Rightarrow> (u32 \<times> u8 list) option" where
  "utf8_cont 0 cp p = Some (cp, p)"
| "utf8_cont (Suc need) cp p =
     (let cc = (case p of [] \<Rightarrow> 0 | b # _ \<Rightarrow> b) in
      if cc AND 0xc0 \<noteq> 0x80 then None
      else utf8_cont need (push_bit 6 cp OR ucast (cc AND 0x3f)) (tl p))"

lemma utf8_cont_length: "utf8_cont need cp p = Some (cp', p') \<Longrightarrow> length p' \<le> length p"
  by (induction need cp p rule: utf8_cont.induct)
     (auto simp: Let_def split: if_splits list.splits intro: le_SucI)

text \<open>The lead byte: how many continuation bytes, the bits it carries, the least value allowed.\<close>

definition utf8_lead :: "u8 \<Rightarrow> (nat \<times> u32 \<times> u32) option" where
  "utf8_lead c =
     (if c AND 0xe0 = 0xc0 then Some (1, ucast (c AND 0x1f), 0x80)
      else if c AND 0xf0 = 0xe0 then Some (2, ucast (c AND 0x0f), 0x800)
      else if c AND 0xf8 = 0xf0 then Some (3, ucast (c AND 0x07), 0x10000)
      else None)"

function utf8_scan :: "u8 list \<Rightarrow> bool" where
  "utf8_scan [] = True"
| "utf8_scan (c # p) =
     (if c < 0x80 then utf8_scan p
      else case utf8_lead c of
        None \<Rightarrow> False
      | Some (need, cp0, cp_min) \<Rightarrow>
          (case utf8_cont need cp0 p of
             None \<Rightarrow> False
           | Some (cp, p') \<Rightarrow>
               if cp < cp_min then False
               else if cp \<ge> 0xd800 \<and> cp \<le> 0xdfff then False
               else if cp > 0x10ffff then False
               else utf8_scan p'))"
  by pat_completeness auto
termination
  by (relation "measure length") (auto dest!: sym [of "Some _" "utf8_cont _ _ _"] dest: utf8_cont_length)

declare utf8_scan.simps [simp del]

definition otlp_str_is_utf8 :: "cstr option \<Rightarrow> bool" where
  "otlp_str_is_utf8 s = (case s of None \<Rightarrow> True | Some p \<Rightarrow> utf8_scan p)"

section \<open>UTF-8\<close>

definition is_scalar :: "nat \<Rightarrow> bool" where
  "is_scalar cp \<longleftrightarrow> cp < 0xD800 \<or> 0xE000 \<le> cp \<and> cp < 0x110000"

definition utf8_encode :: "nat \<Rightarrow> u8 list" where
  "utf8_encode cp = map word_of_nat
     (if cp < 0x80 then [cp]
      else if cp < 0x800 then [0xC0 + cp div 64, 0x80 + cp mod 64]
      else if cp < 0x10000 then [0xE0 + cp div 4096, 0x80 + cp div 64 mod 64, 0x80 + cp mod 64]
      else [0xF0 + cp div 262144, 0x80 + cp div 4096 mod 64, 0x80 + cp div 64 mod 64, 0x80 + cp mod 64])"

definition valid_utf8 :: "u8 list \<Rightarrow> bool" where
  "valid_utf8 p \<longleftrightarrow> (\<exists>cps. (\<forall>cp\<in>set cps. is_scalar cp) \<and> p = concat (map utf8_encode cps))"

section \<open>Bytes as numbers\<close>

lemma and_high_u8:
  assumes "m = NOT (mask k)" "k \<le> 8"
  shows "unat ((c :: u8) AND m) = unat c div 2 ^ k * 2 ^ k"
proof -
  have "c AND m = push_bit k (drop_bit k c)"
    unfolding assms(1) by (rule bit_word_eqI) (auto simp: bit_simps)
  then have "unat (c AND m) = take_bit 8 (push_bit k (drop_bit k (unat c)))"
    by (simp add: unsigned_push_bit_eq unsigned_drop_bit_eq take_bit_nat_eq_self unat_u8_lt [simplified])
  also have "push_bit k (drop_bit k (unat c)) = unat c div 2 ^ k * 2 ^ k"
    by (simp add: push_bit_eq_mult drop_bit_eq_div)
  also have "take_bit 8 (unat c div 2 ^ k * 2 ^ k) = unat c div 2 ^ k * 2 ^ k"
  proof (rule take_bit_nat_eq_self)
    have "unat c div 2 ^ k * 2 ^ k \<le> unat c" by simp
    also have "unat c < 2 ^ 8" using unat_u8_lt [of c] by simp
    finally show "unat c div 2 ^ k * 2 ^ k < 2 ^ 8" .
  qed
  finally show ?thesis .
qed

lemma unat_high:
  "unat ((c :: u8) AND 0xc0) = unat c div 64 * 64" "unat (c AND 0xe0) = unat c div 32 * 32"
  "unat (c AND 0xf0) = unat c div 16 * 16" "unat (c AND 0xf8) = unat c div 8 * 8"
  using and_high_u8 [of "0xc0" 6 c] and_high_u8 [of "0xe0" 5 c] and_high_u8 [of "0xf0" 4 c]
    and_high_u8 [of "0xf8" 3 c] by (simp_all add: mask_eq_exp_minus_1)

lemma unat_low:
  "unat ((c :: u8) AND 0x3f) = unat c mod 64" "unat (c AND 0x1f) = unat c mod 32"
  "unat (c AND 0x0f) = unat c mod 16" "unat (c AND 0x07) = unat c mod 8"
  using unat_take_bit [of 6 c] unat_take_bit [of 5 c] unat_take_bit [of 4 c] unat_take_bit [of 3 c]
  by (simp_all add: take_bit_eq_mask mask_eq_exp_minus_1)

lemma eq_u8_iff: "(c :: u8) = d \<longleftrightarrow> unat c = unat d"
  by (simp add: word_unat_eq_iff)

lemma is_cont: "(c :: u8) AND 0xc0 = 0x80 \<longleftrightarrow> unat c div 64 = 2"
  unfolding eq_u8_iff unat_high by simp

lemma lead_iff:
  "(c :: u8) AND 0xe0 = 0xc0 \<longleftrightarrow> unat c div 32 = 6" "c AND 0xf0 = 0xe0 \<longleftrightarrow> unat c div 16 = 14"
  "c AND 0xf8 = 0xf0 \<longleftrightarrow> unat c div 8 = 30"
  unfolding eq_u8_iff unat_high by simp_all

lemma unat_ucast_8_32: "unat (ucast (c :: u8) :: u32) = unat c"
  using unat_u8_lt [of c] by (simp add: unsigned_ucast_eq take_bit_nat_eq_self)

lemma cont_step:
  assumes "unat (cp :: u32) < 2 ^ 26"
  shows "unat (push_bit 6 cp OR ucast ((c :: u8) AND 0x3f) :: u32) = unat cp * 64 + unat c mod 64"
proof -
  have m: "c AND 0x3f = take_bit 6 c" by (simp add: take_bit_eq_mask mask_eq_exp_minus_1)
  have "push_bit 6 cp OR ucast (c AND 0x3f) = push_bit 6 cp + (ucast (c AND 0x3f) :: u32)"
    unfolding m by (rule disjunctive_add [symmetric]) (auto simp: bit_simps)
  moreover have "unat (push_bit 6 cp) = unat cp * 64"
    using assms by (simp only: unsigned_push_bit_eq) (simp add: push_bit_eq_mult take_bit_nat_eq_self)
  moreover have "unat (ucast (c AND 0x3f) :: u32) = unat c mod 64"
    unfolding unat_ucast_8_32 unat_low ..
  moreover have "unat cp * 64 + unat c mod 64 < 2 ^ 32"
    using assms mod_less_divisor [of 64 "unat c"] by simp
  ultimately show ?thesis by (simp add: unat_word_ariths)
qed

lemma unat_of_nat_u8_id: "unat b = n \<Longrightarrow> (b :: u8) = word_of_nat n"
  by auto

definition is_cont_byte :: "u8 \<Rightarrow> bool" where
  "is_cont_byte b \<longleftrightarrow> unat b div 64 = 2"

lemma utf8_cont_Suc:
  "utf8_cont (Suc n) cp p = Some r \<longleftrightarrow>
     (\<exists>b q. p = b # q \<and> is_cont_byte b \<and> utf8_cont n (push_bit 6 cp OR ucast (b AND 0x3f)) q = Some r)"
  by (cases p) (auto simp: Let_def is_cont is_cont_byte_def)

lemma cont_value:
  assumes "is_cont_byte b"
  shows "b = word_of_nat (0x80 + unat b mod 64)"
proof -
  have "unat b = unat b div 64 * 64 + unat b mod 64" by simp
  with assms have "unat b = 0x80 + unat b mod 64" by (simp add: is_cont_byte_def)
  then show ?thesis by (metis unat_of_nat_u8_id)
qed

lemma encode2:
  "x < 32 \<Longrightarrow> y < 64 \<Longrightarrow> 0x80 \<le> x * 64 + y \<Longrightarrow>
   utf8_encode (x * 64 + y) = [word_of_nat (0xC0 + x), word_of_nat (0x80 + y)]"
  by (simp add: utf8_encode_def del: of_nat_add)

lemma div_mod_64: "(y :: nat) < 64 \<Longrightarrow> (x * 64 + y) div 64 = x" "y < 64 \<Longrightarrow> (x * 64 + y) mod 64 = y"
  by simp_all

lemma encode3:
  assumes "x < 16" "y < 64" "z < 64" "0x800 \<le> (x * 64 + y) * 64 + z"
  shows "utf8_encode ((x * 64 + y) * 64 + z) =
    [word_of_nat (0xE0 + x), word_of_nat (0x80 + y), word_of_nat (0x80 + z)]"
proof -
  define n where "n = (x * 64 + y) * 64 + z"
  have "n < 0x10000" using assms by (simp add: n_def)
  moreover have d: "n div 64 = x * 64 + y" "n mod 64 = z" unfolding n_def by (rule div_mod_64 [OF assms(3)])+
  moreover have "n div 4096 = x" "n div 64 mod 64 = y"
    unfolding d div_mult2_eq [of n 64 64, simplified] by (rule div_mod_64 [OF assms(2)])+
  ultimately show ?thesis
    using assms(4) unfolding n_def [symmetric] by (simp add: utf8_encode_def del: of_nat_add)
qed

lemma encode4:
  assumes "x < 8" "y < 64" "z < 64" "w < 64" "0x10000 \<le> ((x * 64 + y) * 64 + z) * 64 + w"
  shows "utf8_encode (((x * 64 + y) * 64 + z) * 64 + w) =
    [word_of_nat (0xF0 + x), word_of_nat (0x80 + y), word_of_nat (0x80 + z), word_of_nat (0x80 + w)]"
proof -
  define n where "n = ((x * 64 + y) * 64 + z) * 64 + w"
  have a: "n div 64 = (x * 64 + y) * 64 + z" "n mod 64 = w" unfolding n_def by (rule div_mod_64 [OF assms(4)])+
  have b: "n div 4096 = x * 64 + y" "n div 64 mod 64 = z"
    unfolding a div_mult2_eq [of n 64 64, simplified] by (rule div_mod_64 [OF assms(3)])+
  have "n div 262144 = x" "n div 4096 mod 64 = y"
    unfolding b div_mult2_eq [of n 4096 64, simplified] by (rule div_mod_64 [OF assms(2)])+
  with a b show ?thesis
    using assms(5) unfolding n_def [symmetric] by (simp add: utf8_encode_def del: of_nat_add)
qed

lemma unat_lead_bits:
  "unat (ucast ((c :: u8) AND 0x1f) :: u32) = unat c mod 32"
  "unat (ucast (c AND 0x0f) :: u32) = unat c mod 16"
  "unat (ucast (c AND 0x07) :: u32) = unat c mod 8"
  by (simp_all only: unat_ucast_8_32 unat_low)

lemma utf8_cont_value:
  "unat cp < 2 ^ 26 \<Longrightarrow> utf8_cont (Suc n) cp p = Some (v, r) \<longleftrightarrow>
     (\<exists>b q cp'. p = b # q \<and> is_cont_byte b \<and> unat cp' = unat cp * 64 + unat b mod 64 \<and>
        utf8_cont n cp' q = Some (v, r))"
proof -
  assume "unat cp < 2 ^ 26"
  then have "unat cp' = unat cp * 64 + unat b mod 64 \<longleftrightarrow> cp' = push_bit 6 cp OR ucast (b AND 0x3f)"
    for b :: u8 and cp'
    using cont_step [of cp b] by (auto simp: word_unat_eq_iff)
  then show ?thesis unfolding utf8_cont_Suc by auto
qed

lemma utf8_lead_cases:
  assumes "utf8_lead c = Some (need, cp, m)"
  obtains "need = Suc 0" "unat c = 0xC0 + unat c mod 32" "unat cp = unat c mod 32" "unat m = 0x80"
  | "need = Suc (Suc 0)" "unat c = 0xE0 + unat c mod 16" "unat cp = unat c mod 16" "unat m = 0x800"
  | "need = Suc (Suc (Suc 0))" "unat c = 0xF0 + unat c mod 8" "unat cp = unat c mod 8" "unat m = 0x10000"
proof -
  have d: "unat c = unat c div 32 * 32 + unat c mod 32" "unat c = unat c div 16 * 16 + unat c mod 16"
    "unat c = unat c div 8 * 8 + unat c mod 8" by simp_all
  from assms consider "c AND 0xe0 = 0xc0" "need = 1" "cp = ucast (c AND 0x1f)" "m = 0x80"
    | "c AND 0xf0 = 0xe0" "need = 2" "cp = ucast (c AND 0x0f)" "m = 0x800"
    | "c AND 0xf8 = 0xf0" "need = 3" "cp = ucast (c AND 0x07)" "m = 0x10000"
    by (auto simp: utf8_lead_def split: if_splits)
  then show ?thesis
  proof cases
    case 1
    with d(1) show ?thesis by (intro that(1)) (simp_all only: lead_iff unat_lead_bits, simp_all)
  next
    case 2
    with d(2) show ?thesis by (intro that(2)) (simp_all only: lead_iff unat_lead_bits, simp_all)
  next
    case 3
    with d(3) show ?thesis by (intro that(3)) (simp_all only: lead_iff unat_lead_bits, simp_all)
  qed
qed

lemma if_chain:
  "(if a then False else if b then False else if c then False else d) \<Longrightarrow> \<not> a \<and> \<not> b \<and> \<not> c \<and> d"
  by (simp split: if_splits)

lemma small2: "x < 32 \<Longrightarrow> y < 64 \<Longrightarrow> x * 64 + y < (2 :: nat) ^ 26"
  and small3: "x < 32 \<Longrightarrow> y < 64 \<Longrightarrow> x * 64 + y < (2 :: nat) ^ 18"
  by simp_all

lemma small4: "x < 2 ^ 18 \<Longrightarrow> x * 64 + n mod 64 < (2 :: nat) ^ 26"
  using mod_less_divisor [of 64 n] by simp

lemma scan_sequence:
  assumes "utf8_scan (c # p)" "\<not> c < 0x80"
  obtains cp q where "is_scalar cp" "c # p = utf8_encode cp @ q" "utf8_scan q"
proof -
  from assms obtain need cp0 m where l: "utf8_lead c = Some (need, cp0, m)"
    by (subst (asm) utf8_scan.simps) (auto split: option.splits)
  from assms l obtain v q where k: "utf8_cont need cp0 p = Some (v, q)"
    by (subst (asm) utf8_scan.simps) (auto split: option.splits)
  have "utf8_scan (c # p) = (if v < m then False else if v \<ge> 0xd800 \<and> v \<le> 0xdfff then False
      else if v > 0x10ffff then False else utf8_scan q)"
    using assms(2) l k by (subst utf8_scan.simps) (simp only: if_False option.case prod.case)
  from if_chain [OF this [symmetric, THEN iffD2, OF assms(1)]]
  have "\<not> v < m" "\<not> (0xd800 \<le> v \<and> v \<le> 0xdfff)" "\<not> 0x10ffff < v" and rest: "utf8_scan q"
    by blast+
  then have b: "unat m \<le> unat v" "\<not> (0xd800 \<le> unat v \<and> unat v \<le> 0xdfff)" "unat v \<le> 0x10ffff"
    by (simp_all add: word_less_nat_alt word_le_nat_alt)
  have sc: "is_scalar (unat v)" using b by (auto simp: is_scalar_def)
  from l show ?thesis
  proof (cases rule: utf8_lead_cases)
    case 1
    have "unat cp0 < 2 ^ 26" unfolding 1(3) by (rule less_trans [of _ 32]) simp_all
    from utf8_cont_value [OF this, THEN iffD1, OF k [unfolded 1(1)]]
    obtain b1 where p: "p = b1 # q" "is_cont_byte b1" "unat v = unat c mod 32 * 64 + unat b1 mod 64"
      unfolding 1(3) by auto
    have "c # [b1] = utf8_encode (unat v)"
      using encode2 [of "unat c mod 32" "unat b1 mod 64"] b(1) 1 p(3) cont_value [OF p(2)]
        unat_of_nat_u8_id [OF 1(2)] by simp
    with sc rest p(1) that show ?thesis by (metis append_Cons append_Nil)
  next
    case 2
    have "unat cp0 < 2 ^ 26" unfolding 2(3) by (rule less_trans [of _ 16]) simp_all
    from utf8_cont_value [OF this, THEN iffD1, OF k [unfolded 2(1)]]
    obtain b1 p1 cp1 where p1: "p = b1 # p1" "is_cont_byte b1" and k1: "utf8_cont (Suc 0) cp1 p1 = Some (v, q)"
      and cp1: "unat cp1 = unat c mod 16 * 64 + unat b1 mod 64" unfolding 2(3) by auto
    have "unat cp1 < 2 ^ 26" unfolding cp1 by (rule small2) (auto intro: less_trans [OF mod_less_divisor])
    from utf8_cont_value [OF this, THEN iffD1, OF k1] p1
    obtain b2 where p: "p = b1 # b2 # q" "is_cont_byte b1" "is_cont_byte b2"
      and v: "unat v = unat cp1 * 64 + unat b2 mod 64" by auto
    have "c # [b1, b2] = utf8_encode (unat v)"
      using encode3 [of "unat c mod 16" "unat b1 mod 64" "unat b2 mod 64"] b(1) 2 v cp1 cont_value [OF p(2)]
        cont_value [OF p(3)] unat_of_nat_u8_id [OF 2(2)] by simp
    with sc rest p(1) that show ?thesis by (metis append_Cons append_Nil)
  next
    case 3
    have "unat cp0 < 2 ^ 26" unfolding 3(3) by (rule less_trans [of _ 8]) simp_all
    from utf8_cont_value [OF this, THEN iffD1, OF k [unfolded 3(1)]]
    obtain b1 p1 cp1 where p1: "p = b1 # p1" "is_cont_byte b1" and k1: "utf8_cont (Suc (Suc 0)) cp1 p1 = Some (v, q)"
      and cp1: "unat cp1 = unat c mod 8 * 64 + unat b1 mod 64" unfolding 3(3) by auto
    have "unat cp1 < 2 ^ 26" unfolding cp1 by (rule small2) (auto intro: less_trans [OF mod_less_divisor])
    from utf8_cont_value [OF this, THEN iffD1, OF k1]
    obtain b2 p2 cp2 where p2: "p1 = b2 # p2" "is_cont_byte b2" and k2: "utf8_cont (Suc 0) cp2 p2 = Some (v, q)"
      and cp2: "unat cp2 = unat cp1 * 64 + unat b2 mod 64" by auto
    have "unat cp1 < 2 ^ 18" unfolding cp1 by (rule small3) (auto intro: less_trans [OF mod_less_divisor])
    then have "unat cp2 < 2 ^ 26" unfolding cp2 by (rule small4)
    from utf8_cont_value [OF this, THEN iffD1, OF k2] p1 p2
    obtain b3 where p: "p = b1 # b2 # b3 # q" "is_cont_byte b1" "is_cont_byte b2" "is_cont_byte b3"
      and v: "unat v = unat cp2 * 64 + unat b3 mod 64" by auto
    note cp = cp1 cp2
    have "c # [b1, b2, b3] = utf8_encode (unat v)"
      using encode4 [of "unat c mod 8" "unat b1 mod 64" "unat b2 mod 64" "unat b3 mod 64"] b(1) 3 v cp
        cont_value [OF p(2)] cont_value [OF p(3)] cont_value [OF p(4)] unat_of_nat_u8_id [OF 3(2)] by simp
    with sc rest p(1) that show ?thesis by (metis append_Cons append_Nil)
  qed
qed

section \<open>Every encoding is accepted\<close>

lemma scan_value:
  assumes "utf8_lead c = Some (need, cp0, m)" "utf8_cont need cp0 p = Some (v, q)" "\<not> c < 0x80"
    and "is_scalar (unat v)" "unat m \<le> unat v"
  shows "utf8_scan (c # p) = utf8_scan q"
proof -
  have "\<not> v < m" "\<not> (v \<ge> 0xd800 \<and> v \<le> 0xdfff)" "\<not> v > 0x10ffff"
    using assms(4,5) by (auto simp: word_less_nat_alt word_le_nat_alt is_scalar_def)
  with assms(1-3) show ?thesis
    by (subst utf8_scan.simps) (simp only: if_False option.case prod.case)
qed

lemma unat_u8_num: "n < 256 \<Longrightarrow> unat (word_of_nat n :: u8) = n"
  by (simp add: unsigned_of_nat take_bit_nat_eq_self)

lemma unat_u32_num: "n < 0x110000 \<Longrightarrow> unat (word_of_nat n :: u32) = n"
  by (simp add: unsigned_of_nat take_bit_nat_eq_self)

lemma div_mod_at:
  "x < m \<Longrightarrow> n = k * m + x \<Longrightarrow> n div m = (k :: nat)" "x < m \<Longrightarrow> n = k * m + x \<Longrightarrow> n mod m = x"
  by simp_all

lemma lead_arith0: "x < 32 \<Longrightarrow> (0xC0 + x) div 32 = (6 :: nat)" "x < 32 \<Longrightarrow> (0xC0 + x) mod 32 = x"
  by (rule div_mod_at [of x _ _ 6]; simp)+

lemma lead_arith1: "x < 16 \<Longrightarrow> (0xE0 + x) div 32 = (7 :: nat)"
  by (rule div_mod_at(1) [of "x"]; simp)

lemma lead_arith2: "x < 16 \<Longrightarrow> (0xE0 + x) div 16 = (14 :: nat)" "x < 16 \<Longrightarrow> (0xE0 + x) mod 16 = x"
  by (rule div_mod_at [of x _ _ 14]; simp)+

lemma lead_arith3: "x < 8 \<Longrightarrow> (0xF0 + x) div 32 = (7 :: nat)"
  by (rule div_mod_at(1) [of "0x10 + x"]; simp)

lemma lead_arith4: "x < 8 \<Longrightarrow> (0xF0 + x) div 16 = (15 :: nat)"
  by (rule div_mod_at(1) [of "x"]; simp)

lemma lead_arith5: "x < 8 \<Longrightarrow> (0xF0 + x) div 8 = (30 :: nat)" "x < 8 \<Longrightarrow> (0xF0 + x) mod 8 = x"
  by (rule div_mod_at [of x _ _ 30]; simp)+

lemma lead_arith6: "x < 64 \<Longrightarrow> (0x80 + x) div 64 = (2 :: nat)" "x < 64 \<Longrightarrow> (0x80 + x) mod 64 = x"
  by (rule div_mod_at [of x _ _ 2]; simp)+

lemmas lead_arith = lead_arith0 lead_arith1 lead_arith2 lead_arith3 lead_arith4 lead_arith5 lead_arith6

lemma cont_word: "y < 64 \<Longrightarrow> is_cont_byte (word_of_nat (0x80 + y)) \<and> unat (word_of_nat (0x80 + y) :: u8) mod 64 = y"
  by (simp add: is_cont_byte_def unat_u8_num lead_arith del: of_nat_add of_nat_numeral)

lemma cont_one:
  assumes "unat cp < 2 ^ 26" "y < 64" "unat cp * 64 + y < 0x110000"
  shows "utf8_cont (Suc n) cp (word_of_nat (0x80 + y) # q) = utf8_cont n (word_of_nat (unat cp * 64 + y)) q"
proof -
  let ?b = "word_of_nat (0x80 + y) :: u8"
  have b: "?b AND 0xc0 = 0x80" "unat ?b mod 64 = y"
    using cont_word [OF assms(2)] by (simp_all only: is_cont is_cont_byte_def)
  have "unat (push_bit 6 cp OR ucast (?b AND 0x3f) :: u32) = unat cp * 64 + y"
    using cont_step [OF assms(1), of ?b] b(2) by simp
  then have "push_bit 6 cp OR ucast (?b AND 0x3f) = (word_of_nat (unat cp * 64 + y) :: u32)"
    using unat_u32_num [OF assms(3)] by (simp only: word_unat_eq_iff)
  then show ?thesis using b(1) by (simp only: utf8_cont.simps list.case Let_def list.sel simp_thms if_False)
qed

lemma not_less_80: "0x80 \<le> unat c \<Longrightarrow> \<not> (c :: u8) < 0x80"
  by (simp add: word_less_nat_alt)

lemma scan_encode:
  assumes "is_scalar cp"
  shows "utf8_scan (utf8_encode cp @ q) = utf8_scan q"
proof -
  have lim: "cp < 0x110000" using assms by (auto simp: is_scalar_def)
  have vcp: "unat (word_of_nat cp :: u32) = cp" by (rule unat_u32_num [OF lim])
  let ?y = "\<lambda>n. word_of_nat (0x80 + n) :: u8"
  have m64: "n mod 64 < 64" for n :: nat by simp
  consider "cp < 0x80" | "0x80 \<le> cp" "cp < 0x800" | "0x800 \<le> cp" "cp < 0x10000" | "0x10000 \<le> cp" by linarith
  then show ?thesis
  proof cases
    case 1
    then have "(word_of_nat cp :: u8) < 0x80" by (simp add: word_less_nat_alt unat_u8_num)
    with 1 show ?thesis by (simp add: utf8_encode_def utf8_scan.simps(2))
  next
    case 2
    let ?c = "word_of_nat (0xC0 + cp div 64) :: u8"
    have x: "cp div 64 < 32" "2 \<le> cp div 64" using 2 by auto
    then have c: "unat ?c = 0xC0 + cp div 64" by (intro unat_u8_num) simp
    have e: "utf8_encode cp @ q = ?c # ?y (cp mod 64) # q" using 2 by (simp add: utf8_encode_def)
    have l: "utf8_lead ?c = Some (1, ucast (?c AND 0x1f), 0x80)"
      unfolding utf8_lead_def lead_iff c using x by (simp add: lead_arith)
    have u: "unat (ucast (?c AND 0x1f) :: u32) = cp div 64" unfolding unat_lead_bits c using x by (simp add: lead_arith)
    have k: "utf8_cont 1 (ucast (?c AND 0x1f)) (?y (cp mod 64) # q) = Some (word_of_nat cp, q)"
      unfolding One_nat_def
      by (subst cont_one [OF _ m64], simp_all only: u div_mult_mod_eq) (use x lim in simp_all)
    show ?thesis unfolding e
      by (rule scan_value [OF l k]) (use c assms 2 vcp in \<open>simp_all add: not_less_80\<close>)
  next
    case 3
    let ?c = "word_of_nat (0xE0 + cp div 4096) :: u8"
    have x: "cp div 4096 < 16" using 3 by auto
    then have c: "unat ?c = 0xE0 + cp div 4096" by (intro unat_u8_num) simp
    have e: "utf8_encode cp @ q = ?c # ?y (cp div 64 mod 64) # ?y (cp mod 64) # q"
      using 3 by (simp add: utf8_encode_def)
    have l: "utf8_lead ?c = Some (2, ucast (?c AND 0x0f), 0x800)"
      unfolding utf8_lead_def lead_iff c using x by (simp add: lead_arith)
    have u: "unat (ucast (?c AND 0x0f) :: u32) = cp div 4096" unfolding unat_lead_bits c using x by (simp add: lead_arith)
    have d: "cp div 4096 * 64 + cp div 64 mod 64 = cp div 64"
      using div_mult_mod_eq [of "cp div 64" 64] by (simp add: div_mult2_eq [of cp 64 64, simplified])
    have v: "unat (word_of_nat (cp div 64) :: u32) = cp div 64" by (rule unat_u32_num) (use lim in simp)
    have k: "utf8_cont 2 (ucast (?c AND 0x0f)) (?y (cp div 64 mod 64) # ?y (cp mod 64) # q) = Some (word_of_nat cp, q)"
    proof -
      have "utf8_cont (Suc (Suc 0)) (ucast (?c AND 0x0f)) (?y (cp div 64 mod 64) # ?y (cp mod 64) # q) =
          utf8_cont (Suc 0) (word_of_nat (cp div 64)) (?y (cp mod 64) # q)"
        by (subst cont_one [OF _ m64], simp_all only: u d) (use x 3 in simp_all)
      also have "\<dots> = utf8_cont 0 (word_of_nat cp) q"
        by (subst cont_one [OF _ m64], simp_all only: v div_mult_mod_eq) (use 3 in simp_all)
      finally show ?thesis by (simp only: numeral_2_eq_2 utf8_cont.simps)
    qed
    show ?thesis unfolding e
      by (rule scan_value [OF l k]) (use c assms 3 vcp in \<open>simp_all add: not_less_80\<close>)
  next
    case 4
    let ?c = "word_of_nat (0xF0 + cp div 262144) :: u8"
    have x: "cp div 262144 < 8" using lim by auto
    then have c: "unat ?c = 0xF0 + cp div 262144" by (intro unat_u8_num) simp
    have e: "utf8_encode cp @ q = ?c # ?y (cp div 4096 mod 64) # ?y (cp div 64 mod 64) # ?y (cp mod 64) # q"
      using 4 by (simp add: utf8_encode_def)
    have l: "utf8_lead ?c = Some (3, ucast (?c AND 0x07), 0x10000)"
      unfolding utf8_lead_def lead_iff c using x by (simp add: lead_arith)
    have u: "unat (ucast (?c AND 0x07) :: u32) = cp div 262144" unfolding unat_lead_bits c using x by (simp add: lead_arith)
    have d: "cp div 262144 * 64 + cp div 4096 mod 64 = cp div 4096" "cp div 4096 * 64 + cp div 64 mod 64 = cp div 64"
      using div_mult_mod_eq [of "cp div 64" 64] div_mult_mod_eq [of "cp div 4096" 64]
      by (simp_all add: div_mult2_eq [of cp 64 64, simplified] div_mult2_eq [of cp 4096 64, simplified])
    have v: "unat (word_of_nat (cp div 64) :: u32) = cp div 64" "unat (word_of_nat (cp div 4096) :: u32) = cp div 4096"
      by (rule unat_u32_num, use lim in simp)+
    have k: "utf8_cont 3 (ucast (?c AND 0x07)) (?y (cp div 4096 mod 64) # ?y (cp div 64 mod 64) # ?y (cp mod 64) # q)
        = Some (word_of_nat cp, q)"
    proof -
      have "utf8_cont (Suc (Suc (Suc 0))) (ucast (?c AND 0x07))
            (?y (cp div 4096 mod 64) # ?y (cp div 64 mod 64) # ?y (cp mod 64) # q) =
          utf8_cont (Suc (Suc 0)) (word_of_nat (cp div 4096)) (?y (cp div 64 mod 64) # ?y (cp mod 64) # q)"
        by (subst cont_one [OF _ m64], simp_all only: u d) (use x lim in simp_all)
      also have "\<dots> = utf8_cont (Suc 0) (word_of_nat (cp div 64)) (?y (cp mod 64) # q)"
        by (subst cont_one [OF _ m64], simp_all only: v d) (use lim in simp_all)
      also have "\<dots> = utf8_cont 0 (word_of_nat cp) q"
        by (subst cont_one [OF _ m64], simp_all only: v div_mult_mod_eq) (use lim in simp_all)
      finally show ?thesis by (simp only: numeral_3_eq_3 utf8_cont.simps)
    qed
    show ?thesis unfolding e
      by (rule scan_value [OF l k]) (use c assms 4 vcp in \<open>simp_all add: not_less_80\<close>)
  qed
qed

section \<open>Property\<close>

text \<open>
  C40. The UTF-8 gate is exact: a string passes if and only if it is the UTF-8 encoding of a
  sequence of Unicode scalar values, so overlong forms, surrogates, values above U+10FFFF,
  stray continuation bytes and truncated sequences are refused and nothing else is.
\<close>

theorem utf8_gate_exact: "otlp_str_is_utf8 (Some p) \<longleftrightarrow> valid_utf8 p"
proof
  assume "otlp_str_is_utf8 (Some p)"
  then have "utf8_scan p" by (simp add: otlp_str_is_utf8_def)
  then show "valid_utf8 p"
  proof (induction "length p" arbitrary: p rule: less_induct)
    case less
    show ?case
    proof (cases p)
      case Nil
      then show ?thesis unfolding valid_utf8_def by (intro exI [of _ "[]"]) simp
    next
      case (Cons c r)
      have "\<exists>cp q. is_scalar cp \<and> p = utf8_encode cp @ q \<and> utf8_scan q \<and> length q < length p"
      proof (cases "c < 0x80")
        case True
        then have "is_scalar (unat c)" "[c] = utf8_encode (unat c)"
          by (auto simp: is_scalar_def utf8_encode_def word_less_nat_alt)
        with True less.prems Cons show ?thesis
          by (intro exI [of _ "unat c"] exI [of _ r]) (simp add: utf8_scan.simps(2))
      next
        case False
        with less.prems Cons obtain cp q where "is_scalar cp" "p = utf8_encode cp @ q" "utf8_scan q"
          using scan_sequence by metis
        moreover have "utf8_encode cp \<noteq> []" by (simp add: utf8_encode_def)
        ultimately show ?thesis by auto
      qed
      then obtain cp q where q: "is_scalar cp" "p = utf8_encode cp @ q" "utf8_scan q" "length q < length p" by blast
      from less.hyps [OF q(4,3)] obtain cps where "\<forall>cp\<in>set cps. is_scalar cp" "q = concat (map utf8_encode cps)"
        by (auto simp: valid_utf8_def)
      with q(1,2) show ?thesis unfolding valid_utf8_def by (intro exI [of _ "cp # cps"]) simp
    qed
  qed
next
  have "\<forall>cp\<in>set cps. is_scalar cp \<Longrightarrow> utf8_scan (concat (map utf8_encode cps))" for cps
    by (induction cps) (simp_all add: scan_encode utf8_scan.simps(1))
  then show "valid_utf8 p \<Longrightarrow> otlp_str_is_utf8 (Some p)"
    by (auto simp: valid_utf8_def otlp_str_is_utf8_def)
qed

end
