(* ===== verification/Attr.thy ===== *)
theory Attr
  imports Utf8
begin

text \<open>
  Attributes (\<^verbatim>\<open>src/internal_util.c\<close>, \<^verbatim>\<open>src/span_internal.h\<close>, \<^verbatim>\<open>include/otlp-c/value.h\<close>): the value
  tree with its nested arrays and key-value lists, deep copy, the builders from public values,
  and the grow-on-demand vector whose "set" operations are an upsert. Every allocation asks the
  allocator parameter; what a failing call has built is freed by the code and is not part of
  the result. Pointers own their targets, so values are trees. A \<^verbatim>\<open>double\<close> is its 64-bit pattern.
\<close>

section \<open>Data\<close>

datatype attr_value =
    AV_String "cstr option"
  | AV_Bool bool
  | AV_Int64 u64
  | AV_Double u64
  | AV_Array "attribute list option"
  | AV_Kvlist "(cstr option \<times> attribute) list option"
  | AV_Bytes "u8 list"
and attribute = Attribute (attr_key: "cstr option") (attr_val: attr_value)

text \<open>
  A public scalar. The bytes variant has its pointer and length; \<open>OV_Invalid\<close> is a type tag
  outside the enum.
\<close>

datatype otlp_value =
    OV_String "cstr option"
  | OV_Bool bool
  | OV_Int64 u64
  | OV_Double u64
  | OV_Bytes "u8 list option" nat
  | OV_Invalid

type_synonym otlp_kv = "cstr option \<times> otlp_value"

definition SIZEOF_ATTRIBUTE :: nat where "SIZEOF_ATTRIBUTE = 32"
definition SIZEOF_ATTR_ARRAY :: nat where "SIZEOF_ATTR_ARRAY = 16"
definition SIZEOF_KVLIST_ENTRY :: nat where "SIZEOF_KVLIST_ENTRY = 40"

section \<open>Allocation helpers\<close>

definition otlp_calloc :: "'m allocator \<Rightarrow> nat \<Rightarrow> nat \<Rightarrow> 'm \<Rightarrow> bool \<times> 'm" where
  "otlp_calloc A count sz m = a_alloc A (count * sz mod (SIZE_MAX + 1)) m"

definition otlp_dup_str :: "'m allocator \<Rightarrow> cstr option \<Rightarrow> 'm \<Rightarrow> cstr option \<times> 'm" where
  "otlp_dup_str A s m =
     (case s of None \<Rightarrow> (None, m)
      | Some str \<Rightarrow>
          if length str = SIZE_MAX then (None, m)
          else (case a_alloc A (length str + 1) m of (ok, m') \<Rightarrow> (if ok then Some str else None, m')))"

definition otlp_dup_bytes :: "'m allocator \<Rightarrow> u8 list option \<Rightarrow> nat \<Rightarrow> 'm \<Rightarrow> u8 list option \<times> 'm" where
  "otlp_dup_bytes A src len m =
     (if len = 0 then (None, m)
      else case src of None \<Rightarrow> (None, m)
      | Some bs \<Rightarrow> (case a_alloc A len m of (ok, m') \<Rightarrow> (if ok then Some (take len bs) else None, m')))"

text \<open>\<^verbatim>\<open>if (src) { dst = otlp_dup_str(src); if (!dst) fail; }\<close>: \<open>None\<close> is the failure.\<close>

definition dup_present :: "'m allocator \<Rightarrow> cstr option \<Rightarrow> 'm \<Rightarrow> cstr option option \<times> 'm" where
  "dup_present A s m =
     (case s of None \<Rightarrow> (Some None, m)
      | Some str \<Rightarrow> (case otlp_dup_str A (Some str) m of
            (None, m') \<Rightarrow> (None, m') | (Some c, m') \<Rightarrow> (Some (Some c), m')))"

section \<open>Deep copy\<close>

text \<open>\<open>None\<close> is \<^verbatim>\<open>OTLP_ERR_NOMEM\<close>, with what was built freed.\<close>

fun attr_copy_one :: "'m allocator \<Rightarrow> attribute \<Rightarrow> 'm \<Rightarrow> attribute option \<times> 'm"
and copy_value :: "'m allocator \<Rightarrow> attr_value \<Rightarrow> 'm \<Rightarrow> attr_value option \<times> 'm"
and copy_items :: "'m allocator \<Rightarrow> attribute list \<Rightarrow> 'm \<Rightarrow> attribute list option \<times> 'm"
and copy_entries :: "'m allocator \<Rightarrow> (cstr option \<times> attribute) list \<Rightarrow> 'm \<Rightarrow>
    (cstr option \<times> attribute) list option \<times> 'm"
where
  "attr_copy_one A (Attribute k v) m =
     (case dup_present A k m of
        (None, m1) \<Rightarrow> (None, m1)
      | (Some k', m1) \<Rightarrow> (case copy_value A v m1 of
          (None, m2) \<Rightarrow> (None, m2) | (Some v', m2) \<Rightarrow> (Some (Attribute k' v'), m2)))"
| "copy_value A (AV_String s) m =
     (case dup_present A s m of (None, m1) \<Rightarrow> (None, m1) | (Some s', m1) \<Rightarrow> (Some (AV_String s'), m1))"
| "copy_value A (AV_Int64 i) m = (Some (AV_Int64 i), m)"
| "copy_value A (AV_Double d) m = (Some (AV_Double d), m)"
| "copy_value A (AV_Bool b) m = (Some (AV_Bool b), m)"
| "copy_value A (AV_Bytes bs) m =
     (if length bs > 0
      then (case a_alloc A (length bs) m of (ok, m1) \<Rightarrow> (if ok then Some (AV_Bytes bs) else None, m1))
      else (Some (AV_Bytes []), m))"
| "copy_value A (AV_Array None) m = (Some (AV_Array None), m)"
| "copy_value A (AV_Array (Some items)) m =
     (case otlp_calloc A 1 SIZEOF_ATTR_ARRAY m of
        (False, m1) \<Rightarrow> (None, m1)
      | (True, m1) \<Rightarrow>
          if length items > SIZE_MAX div SIZEOF_ATTRIBUTE then (None, m1)
          else (case otlp_calloc A (length items) SIZEOF_ATTRIBUTE m1 of
            (False, m2) \<Rightarrow> (None, m2)
          | (True, m2) \<Rightarrow> (case copy_items A items m2 of
              (None, m3) \<Rightarrow> (None, m3) | (Some items', m3) \<Rightarrow> (Some (AV_Array (Some items')), m3))))"
| "copy_value A (AV_Kvlist None) m = (Some (AV_Kvlist None), m)"
| "copy_value A (AV_Kvlist (Some entries)) m =
     (case otlp_calloc A 1 SIZEOF_ATTR_ARRAY m of
        (False, m1) \<Rightarrow> (None, m1)
      | (True, m1) \<Rightarrow>
          if length entries > SIZE_MAX div SIZEOF_KVLIST_ENTRY then (None, m1)
          else (case otlp_calloc A (length entries) SIZEOF_KVLIST_ENTRY m1 of
            (False, m2) \<Rightarrow> (None, m2)
          | (True, m2) \<Rightarrow> (case copy_entries A entries m2 of
              (None, m3) \<Rightarrow> (None, m3) | (Some es, m3) \<Rightarrow> (Some (AV_Kvlist (Some es)), m3))))"
| "copy_items A [] m = (Some [], m)"
| "copy_items A (a # as) m =
     (case attr_copy_one A a m of
        (None, m1) \<Rightarrow> (None, m1)
      | (Some a', m1) \<Rightarrow> (case copy_items A as m1 of
          (None, m2) \<Rightarrow> (None, m2) | (Some as', m2) \<Rightarrow> (Some (a' # as'), m2)))"
| "copy_entries A [] m = (Some [], m)"
| "copy_entries A ((k, a) # es) m =
     (case dup_present A k m of
        (None, m1) \<Rightarrow> (None, m1)
      | (Some k', m1) \<Rightarrow> (case attr_copy_one A a m1 of
          (None, m2) \<Rightarrow> (None, m2)
        | (Some a', m2) \<Rightarrow> (case copy_entries A es m2 of
            (None, m3) \<Rightarrow> (None, m3) | (Some es', m3) \<Rightarrow> (Some ((k', a') # es'), m3))))"

definition otlp_attribute_copy_all ::
  "'m allocator \<Rightarrow> attribute list \<Rightarrow> 'm \<Rightarrow> status \<times> attribute list \<times> 'm" where
  "otlp_attribute_copy_all A src m =
     (case copy_items A src m of
        (None, m') \<Rightarrow> (OTLP_ERR_NOMEM, [], m') | (Some dst, m') \<Rightarrow> (OTLP_OK, dst, m'))"

section \<open>Builders from public values\<close>

definition value_fill :: "'m allocator \<Rightarrow> otlp_value \<Rightarrow> 'm \<Rightarrow> status \<times> attribute \<times> 'm" where
  "value_fill A v m =
     (let empty = Attribute None (AV_String None) in
      case v of
        OV_String s \<Rightarrow>
          if \<not> otlp_str_is_utf8 s then (OTLP_ERR_UTF8, empty, m)
          else (case otlp_dup_str A (Some (case s of None \<Rightarrow> [] | Some str \<Rightarrow> str)) m of
            (None, m') \<Rightarrow> (OTLP_ERR_NOMEM, empty, m')
          | (Some c, m') \<Rightarrow> (OTLP_OK, Attribute None (AV_String (Some c)), m'))
      | OV_Bool b \<Rightarrow> (OTLP_OK, Attribute None (AV_Bool b), m)
      | OV_Int64 i \<Rightarrow> (OTLP_OK, Attribute None (AV_Int64 i), m)
      | OV_Double d \<Rightarrow> (OTLP_OK, Attribute None (AV_Double d), m)
      | OV_Bytes src len \<Rightarrow>
          if len > 0 then (case otlp_dup_bytes A src len m of
              (None, m') \<Rightarrow> (OTLP_ERR_NOMEM, empty, m')
            | (Some bs, m') \<Rightarrow> (OTLP_OK, Attribute None (AV_Bytes bs), m'))
          else (OTLP_OK, Attribute None (AV_Bytes []), m)
      | OV_Invalid \<Rightarrow> (OTLP_ERR_INVALID_ARGUMENT, empty, m))"

fun fill_items :: "'m allocator \<Rightarrow> otlp_value list \<Rightarrow> 'm \<Rightarrow> status \<times> attribute list \<times> 'm" where
  "fill_items A [] m = (OTLP_OK, [], m)"
| "fill_items A (v # vs) m =
     (case value_fill A v m of (st, a, m1) \<Rightarrow>
        if st \<noteq> OTLP_OK then (st, [], m1)
        else (case fill_items A vs m1 of (st', as, m2) \<Rightarrow>
          if st' \<noteq> OTLP_OK then (st', [], m2) else (OTLP_OK, a # as, m2)))"

definition otlp_attr_array_build ::
  "'m allocator \<Rightarrow> otlp_value list option \<Rightarrow> nat \<Rightarrow> 'm \<Rightarrow> status \<times> attribute list \<times> 'm" where
  "otlp_attr_array_build A items n m =
     (if n > 0 \<and> items = None then (OTLP_ERR_NULL, [], m)
      else if n > SIZE_MAX div SIZEOF_ATTRIBUTE then (OTLP_ERR_INVALID_ARGUMENT, [], m)
      else (case otlp_calloc A 1 SIZEOF_ATTR_ARRAY m of
        (False, m1) \<Rightarrow> (OTLP_ERR_NOMEM, [], m1)
      | (True, m1) \<Rightarrow>
          if n > 0 then (case otlp_calloc A n SIZEOF_ATTRIBUTE m1 of
              (False, m2) \<Rightarrow> (OTLP_ERR_NOMEM, [], m2)
            | (True, m2) \<Rightarrow> fill_items A (take n (the items)) m2)
          else (OTLP_OK, [], m1)))"

fun fill_entries :: "'m allocator \<Rightarrow> otlp_kv list \<Rightarrow> 'm \<Rightarrow> status \<times> (cstr option \<times> attribute) list \<times> 'm" where
  "fill_entries A [] m = (OTLP_OK, [], m)"
| "fill_entries A ((key, v) # kvs) m =
     (case (if key = None then (OTLP_ERR_NULL, Attribute None (AV_String None), m)
            else if \<not> otlp_str_is_utf8 key then (OTLP_ERR_UTF8, Attribute None (AV_String None), m)
            else value_fill A v m) of (st, a, m1) \<Rightarrow>
        if st \<noteq> OTLP_OK then (st, [], m1)
        else (case otlp_dup_str A key m1 of
          (None, m2) \<Rightarrow> (OTLP_ERR_NOMEM, [], m2)
        | (Some k, m2) \<Rightarrow> (case fill_entries A kvs m2 of (st', es, m3) \<Rightarrow>
            if st' \<noteq> OTLP_OK then (st', [], m3) else (OTLP_OK, (Some k, a) # es, m3))))"

definition otlp_attr_kvlist_build ::
  "'m allocator \<Rightarrow> otlp_kv list option \<Rightarrow> nat \<Rightarrow> 'm \<Rightarrow> status \<times> (cstr option \<times> attribute) list \<times> 'm" where
  "otlp_attr_kvlist_build A entries n m =
     (if n > 0 \<and> entries = None then (OTLP_ERR_NULL, [], m)
      else if n > SIZE_MAX div SIZEOF_KVLIST_ENTRY then (OTLP_ERR_INVALID_ARGUMENT, [], m)
      else (case otlp_calloc A 1 SIZEOF_ATTR_ARRAY m of
        (False, m1) \<Rightarrow> (OTLP_ERR_NOMEM, [], m1)
      | (True, m1) \<Rightarrow>
          if n > 0 then (case otlp_calloc A n SIZEOF_KVLIST_ENTRY m1 of
              (False, m2) \<Rightarrow> (OTLP_ERR_NOMEM, [], m2)
            | (True, m2) \<Rightarrow> fill_entries A (take n (the entries)) m2)
          else (OTLP_OK, [], m1)))"

section \<open>Attribute vectors\<close>

text \<open>
  \<open>av_items\<close> are the \<^verbatim>\<open>n\<close> attributes in use; the slots between \<^verbatim>\<open>n\<close> and \<^verbatim>\<open>cap\<close> are zeroed.
  \<^verbatim>\<open>items\<close> is NULL exactly while \<open>av_cap\<close> is 0.
\<close>

record attr_vec =
  av_items :: "attribute list"
  av_cap :: nat

definition vec_empty :: attr_vec where
  "vec_empty = \<lparr>av_items = [], av_cap = 0\<rparr>"

fun otlp_attr_list_find :: "attribute list \<Rightarrow> cstr \<Rightarrow> nat option" where
  "otlp_attr_list_find [] key = None"
| "otlp_attr_list_find (a # as) key =
     (if attr_key a = Some key then Some 0 else map_option Suc (otlp_attr_list_find as key))"

text \<open>The result: the status, the vector, and the index of the slot handed out.\<close>

definition otlp_attr_vec_reserve ::
  "'m allocator \<Rightarrow> attr_vec \<Rightarrow> nat \<Rightarrow> cstr option \<Rightarrow> 'm \<Rightarrow> status \<times> attr_vec \<times> nat \<times> 'm" where
  "otlp_attr_vec_reserve A vec max_n key_ptr m =
     (case key_ptr of None \<Rightarrow> (OTLP_ERR_NULL, vec, 0, m)
      | Some key \<Rightarrow>
         (case otlp_attr_list_find (av_items vec) key of
            Some idx \<Rightarrow>
              (OTLP_OK, vec\<lparr>av_items := (av_items vec)[idx := Attribute (Some key) (AV_String None)]\<rparr>, idx, m)
          | None \<Rightarrow>
              if length (av_items vec) \<ge> max_n then (OTLP_ERR_OVERFLOW, vec, 0, m)
              else (case (if length (av_items vec) = av_cap vec
                      then let new_cap0 = (if av_cap vec \<noteq> 0 then av_cap vec * 2 else if 4 < max_n then 4 else max_n);
                               new_cap = (if new_cap0 > max_n then max_n else new_cap0)
                           in (case a_realloc A (new_cap * SIZEOF_ATTRIBUTE mod (SIZE_MAX + 1)) m of
                                (ok, m1) \<Rightarrow> (ok, if ok then vec\<lparr>av_cap := new_cap\<rparr> else vec, m1))
                      else (True, vec, m)) of
                  (False, vec1, m1) \<Rightarrow> (OTLP_ERR_NOMEM, vec1, 0, m1)
                | (True, vec1, m1) \<Rightarrow>
                    if \<not> otlp_str_is_utf8 (Some key) then (OTLP_ERR_UTF8, vec1, 0, m1)
                    else (case otlp_dup_str A (Some key) m1 of
                        (None, m2) \<Rightarrow> (OTLP_ERR_NOMEM, vec1, 0, m2)
                      | (Some kc, m2) \<Rightarrow>
                          (OTLP_OK, vec1\<lparr>av_items := av_items vec1 @ [Attribute (Some kc) (AV_String None)]\<rparr>,
                           length (av_items vec1), m2)))))"

text \<open>Filling the slot: \<^verbatim>\<open>a->type = ...; a->v = ...\<close>.\<close>

definition slot_fill :: "attr_vec \<Rightarrow> nat \<Rightarrow> attr_value \<Rightarrow> attr_vec" where
  "slot_fill vec idx v =
     vec\<lparr>av_items := (av_items vec)[idx := Attribute (attr_key (av_items vec ! idx)) v]\<rparr>"

text \<open>The duplication that precedes the reserve: the value the slot will get.\<close>

definition dup_payload :: "'m allocator \<Rightarrow> otlp_value \<Rightarrow> 'm \<Rightarrow> status \<times> attr_value \<times> 'm" where
  "dup_payload A v m =
     (case v of
        OV_String s \<Rightarrow>
          if \<not> otlp_str_is_utf8 s then (OTLP_ERR_UTF8, AV_String None, m)
          else (case otlp_dup_str A (Some (case s of None \<Rightarrow> [] | Some str \<Rightarrow> str)) m of
            (None, m') \<Rightarrow> (OTLP_ERR_NOMEM, AV_String None, m')
          | (Some c, m') \<Rightarrow> (OTLP_OK, AV_String (Some c), m'))
      | OV_Bytes src len \<Rightarrow>
          if len > 0 \<and> src = None then (OTLP_ERR_NULL, AV_String None, m)
          else if len > 0 then (case otlp_dup_bytes A src len m of
              (None, m') \<Rightarrow> (OTLP_ERR_NOMEM, AV_String None, m')
            | (Some bs, m') \<Rightarrow> (OTLP_OK, AV_Bytes bs, m'))
          else (OTLP_OK, AV_Bytes [], m)
      | OV_Bool b \<Rightarrow> (OTLP_OK, AV_Bool b, m)
      | OV_Int64 i \<Rightarrow> (OTLP_OK, AV_Int64 i, m)
      | OV_Double d \<Rightarrow> (OTLP_OK, AV_Double d, m)
      | OV_Invalid \<Rightarrow> (OTLP_ERR_INVALID_ARGUMENT, AV_String None, m))"

text \<open>\<^verbatim>\<open>st = reserve(...); if (st != OTLP_OK) { free; return st; } fill;\<close>\<close>

definition reserve_and_fill ::
  "'m allocator \<Rightarrow> attr_vec \<Rightarrow> nat \<Rightarrow> cstr option \<Rightarrow> attr_value \<Rightarrow> 'm \<Rightarrow> status \<times> attr_vec \<times> 'm" where
  "reserve_and_fill A vec max_n key v m =
     (case otlp_attr_vec_reserve A vec max_n key m of (st, vec1, idx, m1) \<Rightarrow>
        if st \<noteq> OTLP_OK then (st, vec1, m1) else (OTLP_OK, slot_fill vec1 idx v, m1))"

definition otlp_attr_vec_set ::
  "'m allocator \<Rightarrow> attr_vec \<Rightarrow> nat \<Rightarrow> cstr option \<Rightarrow> otlp_value option \<Rightarrow> 'm \<Rightarrow> status \<times> attr_vec \<times> 'm" where
  "otlp_attr_vec_set A vec max_n key v_ptr m =
     (if key = None then (OTLP_ERR_NULL, vec, m)
      else case v_ptr of None \<Rightarrow> (OTLP_ERR_NULL, vec, m)
      | Some v \<Rightarrow>
         (case dup_payload A v m of (st, payload, m1) \<Rightarrow>
            if st \<noteq> OTLP_OK then (st, vec, m1) else reserve_and_fill A vec max_n key payload m1))"

definition otlp_attr_vec_set_array ::
  "'m allocator \<Rightarrow> attr_vec \<Rightarrow> nat \<Rightarrow> cstr option \<Rightarrow> otlp_value list option \<Rightarrow> nat \<Rightarrow> 'm \<Rightarrow>
     status \<times> attr_vec \<times> 'm" where
  "otlp_attr_vec_set_array A vec max_n key items n m =
     (if key = None then (OTLP_ERR_NULL, vec, m)
      else case otlp_attr_array_build A items n m of (st, arr, m1) \<Rightarrow>
        if st \<noteq> OTLP_OK then (st, vec, m1)
        else reserve_and_fill A vec max_n key (AV_Array (Some arr)) m1)"

definition otlp_attr_vec_set_kvlist ::
  "'m allocator \<Rightarrow> attr_vec \<Rightarrow> nat \<Rightarrow> cstr option \<Rightarrow> otlp_kv list option \<Rightarrow> nat \<Rightarrow> 'm \<Rightarrow>
     status \<times> attr_vec \<times> 'm" where
  "otlp_attr_vec_set_kvlist A vec max_n key entries n m =
     (if key = None then (OTLP_ERR_NULL, vec, m)
      else case otlp_attr_kvlist_build A entries n m of (st, kvl, m1) \<Rightarrow>
        if st \<noteq> OTLP_OK then (st, vec, m1)
        else reserve_and_fill A vec max_n key (AV_Kvlist (Some kvl)) m1)"

text \<open>Copy into an empty vector; \<open>None\<close> when it fails.\<close>

definition otlp_attr_vec_copy :: "'m allocator \<Rightarrow> attr_vec \<Rightarrow> attr_vec \<Rightarrow> 'm \<Rightarrow> status \<times> attr_vec \<times> 'm" where
  "otlp_attr_vec_copy A dst src m =
     (let n = length (av_items src) in
      if n = 0 then (OTLP_OK, dst, m)
      else if n > SIZE_MAX div SIZEOF_ATTRIBUTE then (OTLP_ERR_NOMEM, dst, m)
      else (case otlp_calloc A n SIZEOF_ATTRIBUTE m of
        (False, m1) \<Rightarrow> (OTLP_ERR_NOMEM, dst, m1)
      | (True, m1) \<Rightarrow> (case otlp_attribute_copy_all A (av_items src) m1 of (st, items, m2) \<Rightarrow>
          if st \<noteq> OTLP_OK then (OTLP_ERR_NOMEM, dst\<lparr>av_items := []\<rparr>, m2)
          else (OTLP_OK, dst\<lparr>av_items := items, av_cap := n\<rparr>, m2))))"

definition otlp_attr_vec_free :: "attr_vec \<Rightarrow> attr_vec" where
  "otlp_attr_vec_free vec = (if av_cap vec = 0 then vec\<lparr>av_items := []\<rparr> else vec_empty)"

definition otlp_id_is_all_zero :: "u8 list \<Rightarrow> bool" where
  "otlp_id_is_all_zero id_bytes = list_all (\<lambda>b. b = 0) id_bytes"

section \<open>Copies are faithful\<close>

lemma dup_str_Some: "otlp_dup_str A s m = (Some c, m') \<Longrightarrow> s = Some c"
  by (auto simp: otlp_dup_str_def split: option.splits if_splits prod.splits)

lemma dup_present_Some: "dup_present A s m = (Some s', m') \<Longrightarrow> s' = s"
  by (auto simp: dup_present_def dest: dup_str_Some split: option.splits prod.splits)

lemma copy_faithful:
  "attr_copy_one A a m = (Some a', m') \<Longrightarrow> a' = a"
  "copy_value A v m = (Some v', m') \<Longrightarrow> v' = v"
  "copy_items A as m = (Some as', m') \<Longrightarrow> as' = as"
  "copy_entries A es m = (Some es', m') \<Longrightarrow> es' = es"
proof (induction A a m and A v m and A as m and A es m arbitrary: a' m' and v' m' and as' m' and es' m'
    rule: attr_copy_one_copy_value_copy_items_copy_entries.induct)
qed (auto dest!: dup_present_Some split: option.splits prod.splits bool.splits if_splits)

section \<open>The vector as a map\<close>

definition vec_keys :: "attr_vec \<Rightarrow> cstr list" where
  "vec_keys vec = map (the \<circ> attr_key) (av_items vec)"

definition vec_lookup :: "attr_vec \<Rightarrow> cstr \<Rightarrow> attr_value option" where
  "vec_lookup vec = map_of (map (\<lambda>a. (the (attr_key a), attr_val a)) (av_items vec))"

definition vec_inv :: "nat \<Rightarrow> attr_vec \<Rightarrow> bool" where
  "vec_inv max_n vec \<longleftrightarrow>
     distinct (map attr_key (av_items vec)) \<and>
     (\<forall>a\<in>set (av_items vec). \<exists>k. attr_key a = Some k \<and> otlp_str_is_utf8 (Some k)) \<and>
     length (av_items vec) \<le> av_cap vec \<and> av_cap vec \<le> max_n"

lemma vec_empty_inv [simp]: "vec_inv n vec_empty" "vec_keys vec_empty = []" "vec_lookup vec_empty = Map.empty"
  by (simp_all add: vec_inv_def vec_empty_def vec_keys_def vec_lookup_def)

lemma find_Some:
  "otlp_attr_list_find as key = Some i \<Longrightarrow> i < length as \<and> attr_key (as ! i) = Some key"
  by (induction as arbitrary: i) (auto split: if_splits)

lemma find_None: "otlp_attr_list_find as key = None \<longleftrightarrow> (\<forall>a\<in>set as. attr_key a \<noteq> Some key)"
  by (induction as) auto

lemma map_of_update_nth:
  "i < length as \<Longrightarrow> attr_key (as ! i) = Some k \<Longrightarrow> distinct (map attr_key as) \<Longrightarrow>
   \<forall>a\<in>set as. attr_key a \<noteq> None \<Longrightarrow>
   map_of (map (\<lambda>a. (the (attr_key a), attr_val a)) (as[i := Attribute (Some k) v])) =
     (map_of (map (\<lambda>a. (the (attr_key a), attr_val a)) as))(k \<mapsto> v)"
proof (induction as arbitrary: i)
  case (Cons a as)
  show ?case
  proof (cases i)
    case 0
    then show ?thesis using Cons.prems by (simp add: fun_eq_iff)
  next
    case (Suc j)
    then have "attr_key (as ! j) = Some k" "as ! j \<in> set as" using Cons.prems by auto
    then have "the (attr_key a) \<noteq> k" using Cons.prems by (auto simp: image_iff)
    then show ?thesis using Suc Cons by (auto simp: fun_eq_iff)
  qed
qed simp

lemma map_of_append_new:
  "\<forall>a\<in>set as. attr_key a \<noteq> Some k \<Longrightarrow> \<forall>a\<in>set as. attr_key a \<noteq> None \<Longrightarrow>
   map_of (map (\<lambda>a. (the (attr_key a), attr_val a)) (as @ [Attribute (Some k) v])) =
     (map_of (map (\<lambda>a. (the (attr_key a), attr_val a)) as))(k \<mapsto> v)"
  by (induction as) (auto simp: fun_upd_twist)

lemma length_vec_keys: "length (vec_keys vec) = length (av_items vec)"
  by (simp add: vec_keys_def)

lemma vec_keys_iff: "vec_inv n vec \<Longrightarrow> k \<in> set (vec_keys vec) \<longleftrightarrow> (\<exists>a\<in>set (av_items vec). attr_key a = Some k)"
  by (force simp: vec_inv_def vec_keys_def image_iff)

lemma vec_keys_distinct:
  assumes "vec_inv n vec"
  shows "distinct (vec_keys vec)"
proof -
  have "inj_on the (set (map attr_key (av_items vec)))"
  proof (rule inj_onI)
    fix x y assume "x \<in> set (map attr_key (av_items vec))" "y \<in> set (map attr_key (av_items vec))" "the x = the y"
    moreover have "\<exists>k. z = Some k" if "z \<in> set (map attr_key (av_items vec))" for z
      using that assms by (auto simp: vec_inv_def)
    ultimately show "x = y" by (metis option.sel)
  qed
  then have "distinct (map the (map attr_key (av_items vec)))"
    using assms by (simp add: vec_inv_def distinct_map comp_inj_on_iff del: map_map)
  then show ?thesis by (simp add: vec_keys_def)
qed

text \<open>The upsert step that every setter ends in.\<close>

lemma reserve_and_fill_spec:
  assumes inv: "vec_inv max_n vec" and eq: "reserve_and_fill A vec max_n (Some key) v m = (st, vec', m')"
  shows "vec_inv max_n vec'"
    and "st = OTLP_OK \<Longrightarrow> vec_lookup vec' = (vec_lookup vec)(key \<mapsto> v)"
    and "st = OTLP_OK \<Longrightarrow> vec_keys vec' = (if key \<in> set (vec_keys vec) then vec_keys vec else vec_keys vec @ [key])"
    and "st \<noteq> OTLP_OK \<Longrightarrow> av_items vec' = av_items vec"
    and "key \<in> set (vec_keys vec) \<Longrightarrow> st = OTLP_OK"
    and "st = OTLP_ERR_OVERFLOW \<longleftrightarrow> key \<notin> set (vec_keys vec) \<and> length (av_items vec) \<ge> max_n"
proof -
  let ?as = "av_items vec"
  have keys: "\<forall>a\<in>set ?as. attr_key a \<noteq> None" using inv by (auto simp: vec_inv_def)
  have all: "vec_inv max_n vec' \<and>
    (st = OTLP_OK \<longrightarrow> vec_lookup vec' = (vec_lookup vec)(key \<mapsto> v) \<and>
       vec_keys vec' = (if key \<in> set (vec_keys vec) then vec_keys vec else vec_keys vec @ [key])) \<and>
    (st \<noteq> OTLP_OK \<longrightarrow> av_items vec' = ?as) \<and> (key \<in> set (vec_keys vec) \<longrightarrow> st = OTLP_OK) \<and>
    (st = OTLP_ERR_OVERFLOW \<longleftrightarrow> key \<notin> set (vec_keys vec) \<and> length ?as \<ge> max_n)"
  proof (cases "otlp_attr_list_find ?as key")
    case (Some i)
    note f = find_Some [OF Some]
    have mem: "key \<in> set (vec_keys vec)"
      unfolding vec_keys_iff [OF inv] using f nth_mem by blast
    have vec': "vec' = vec\<lparr>av_items := ?as[i := Attribute (Some key) v]\<rparr>" "st = OTLP_OK"
      using eq Some f by (simp_all add: reserve_and_fill_def otlp_attr_vec_reserve_def slot_fill_def)
    have "map attr_key (?as[i := Attribute (Some key) v]) = map attr_key ?as"
      using f by (simp add: map_update list_update_same_conv)
    moreover have "map (the \<circ> attr_key) (?as[i := Attribute (Some key) v]) = map (the \<circ> attr_key) ?as"
      using f by (simp add: map_update list_update_same_conv)
    moreover have "\<forall>a\<in>set (?as[i := Attribute (Some key) v]). \<exists>k. attr_key a = Some k \<and> otlp_str_is_utf8 (Some k)"
    proof -
      have "?as ! i \<in> set ?as" using f by simp
      then obtain k where "attr_key (?as ! i) = Some k" "otlp_str_is_utf8 (Some k)"
        using inv unfolding vec_inv_def by blast
      with f have "otlp_str_is_utf8 (Some key)" by simp
      then show ?thesis
        using inv set_update_subset_insert [of ?as i "Attribute (Some key) v"] unfolding vec_inv_def by fastforce
    qed
    moreover have "vec_lookup vec' = (vec_lookup vec)(key \<mapsto> v)"
      using map_of_update_nth [of i ?as key v] f inv keys by (simp add: vec' vec_lookup_def vec_inv_def)
    ultimately show ?thesis using inv mem vec' by (simp add: vec_inv_def vec_keys_def)
  next
    case None
    then have new: "\<forall>a\<in>set ?as. attr_key a \<noteq> Some key" by (simp add: find_None)
    have mem: "key \<notin> set (vec_keys vec)" unfolding vec_keys_iff [OF inv] using new by blast
    show ?thesis
    proof (cases "length ?as \<ge> max_n")
      case True
      with eq None mem inv show ?thesis
        by (simp add: reserve_and_fill_def otlp_attr_vec_reserve_def)
    next
      case room: False
      have grow: "av_items vec1 = ?as \<and> vec_inv max_n vec1 \<and> (ok \<longrightarrow> length ?as < av_cap vec1)"
        if "(if length ?as = av_cap vec
             then let new_cap0 = (if av_cap vec \<noteq> 0 then av_cap vec * 2 else if 4 < max_n then 4 else max_n);
                      new_cap = (if new_cap0 > max_n then max_n else new_cap0)
                  in (case a_realloc A (new_cap * SIZEOF_ATTRIBUTE mod (SIZE_MAX + 1)) m of
                       (ok, m1) \<Rightarrow> (ok, if ok then vec\<lparr>av_cap := new_cap\<rparr> else vec, m1))
             else (True, vec, m)) = (ok, vec1, m1)" for ok vec1 m1
        using that room inv by (auto simp: Let_def vec_inv_def split: if_splits prod.splits)
      obtain ok vec1 m1 where g: "(if length ?as = av_cap vec
             then let new_cap0 = (if av_cap vec \<noteq> 0 then av_cap vec * 2 else if 4 < max_n then 4 else max_n);
                      new_cap = (if new_cap0 > max_n then max_n else new_cap0)
                  in (case a_realloc A (new_cap * SIZEOF_ATTRIBUTE mod (SIZE_MAX + 1)) m of
                       (ok, m1) \<Rightarrow> (ok, if ok then vec\<lparr>av_cap := new_cap\<rparr> else vec, m1))
             else (True, vec, m)) = (ok, vec1, m1)" by (rule prod_cases3)
      note gr = grow [OF g]
      have res: "otlp_attr_vec_reserve A vec max_n (Some key) m =
        (if \<not> ok then (OTLP_ERR_NOMEM, vec1, 0, m1)
         else if \<not> otlp_str_is_utf8 (Some key) then (OTLP_ERR_UTF8, vec1, 0, m1)
         else (case otlp_dup_str A (Some key) m1 of
            (None, m2) \<Rightarrow> (OTLP_ERR_NOMEM, vec1, 0, m2)
          | (Some kc, m2) \<Rightarrow> (OTLP_OK, vec1\<lparr>av_items := av_items vec1 @ [Attribute (Some kc) (AV_String None)]\<rparr>,
                             length (av_items vec1), m2)))"
        using room None unfolding otlp_attr_vec_reserve_def option.case g by (simp split: bool.split)
      show ?thesis
      proof (cases "ok \<and> otlp_str_is_utf8 (Some key) \<and> fst (otlp_dup_str A (Some key) m1) \<noteq> None")
        case False
        then have "st = OTLP_ERR_NOMEM \<or> st = OTLP_ERR_UTF8" "vec' = vec1"
          using eq unfolding reserve_and_fill_def res by (auto split: if_splits prod.splits option.splits)
        then show ?thesis using gr mem room by auto
      next
        case True
        then obtain m2 where d: "otlp_dup_str A (Some key) m1 = (Some key, m2)"
          by (metis dup_str_Some option.exhaust option.inject prod.collapse)
        have vec': "st = OTLP_OK" "vec' = vec1\<lparr>av_items := ?as @ [Attribute (Some key) v]\<rparr>"
          using eq True gr unfolding reserve_and_fill_def res d by (auto simp: slot_fill_def)
        have "vec_inv max_n vec'"
          using True gr new by (auto simp: vec' vec_inv_def)
        moreover have "vec_lookup vec' = (vec_lookup vec)(key \<mapsto> v)"
          using map_of_append_new [OF new keys] by (simp add: vec' vec_lookup_def)
        ultimately show ?thesis using mem room by (simp add: vec' vec_keys_def)
      qed
    qed
  qed
  then show "vec_inv max_n vec'"
    and "st = OTLP_OK \<Longrightarrow> vec_lookup vec' = (vec_lookup vec)(key \<mapsto> v)"
    and "st = OTLP_OK \<Longrightarrow> vec_keys vec' = (if key \<in> set (vec_keys vec) then vec_keys vec else vec_keys vec @ [key])"
    and "st \<noteq> OTLP_OK \<Longrightarrow> av_items vec' = av_items vec"
    and "key \<in> set (vec_keys vec) \<Longrightarrow> st = OTLP_OK"
    and "st = OTLP_ERR_OVERFLOW \<longleftrightarrow> key \<notin> set (vec_keys vec) \<and> length (av_items vec) \<ge> max_n"
    by blast+
qed

text \<open>
  The interface of a keyed store: what every setter promises about the keys in order, the
  values they map to and the capacity limit, whether it succeeds or fails.
\<close>

fun run_puts :: "('s \<Rightarrow> 'k \<Rightarrow> 'v \<Rightarrow> status \<times> 's) \<Rightarrow> 's \<Rightarrow> ('k \<times> 'v) list \<Rightarrow> status list \<times> 's" where
  "run_puts put s [] = ([], s)"
| "run_puts put s ((k, v) # kvs) =
     (case put s k v of (st, s1) \<Rightarrow> (case run_puts put s1 kvs of (sts, s2) \<Rightarrow> (st # sts, s2)))"

text \<open>The assignments that were acknowledged with OK.\<close>

definition accepted :: "('k \<times> 'v) list \<Rightarrow> status list \<Rightarrow> ('k \<times> 'v) list" where
  "accepted kvs sts = map fst (filter (\<lambda>(kv, st). st = OTLP_OK) (zip kvs sts))"

locale keyed_store =
  fixes put :: "'s \<Rightarrow> 'k \<Rightarrow> 'v \<Rightarrow> status \<times> 's"
    and inv :: "'s \<Rightarrow> bool"
    and lookup :: "'s \<Rightarrow> 'k \<Rightarrow> 'w option"
    and keys :: "'s \<Rightarrow> 'k list"
    and stored :: "'v \<Rightarrow> 'w"
    and limit :: nat
  assumes put_inv: "inv s \<Longrightarrow> put s k v = (st, s') \<Longrightarrow> inv s'"
    and put_ok: "inv s \<Longrightarrow> put s k v = (OTLP_OK, s') \<Longrightarrow>
      lookup s' = (lookup s)(k \<mapsto> stored v) \<and>
      keys s' = (if k \<in> set (keys s) then keys s else keys s @ [k])"
    and put_err: "inv s \<Longrightarrow> put s k v = (st, s') \<Longrightarrow> st \<noteq> OTLP_OK \<Longrightarrow>
      lookup s' = lookup s \<and> keys s' = keys s"
    and keys_distinct: "inv s \<Longrightarrow> distinct (keys s)"
    and keys_limit: "inv s \<Longrightarrow> length (keys s) \<le> limit"
begin

lemma put_cases:
  assumes "inv s" "put s k v = (st, s')"
  shows "inv s' \<and> lookup s' = (if st = OTLP_OK then (lookup s)(k \<mapsto> stored v) else lookup s) \<and>
    keys s' = (if st = OTLP_OK \<and> k \<notin> set (keys s) then keys s @ [k] else keys s)"
  using put_inv [OF assms] put_ok [of s k v s'] put_err [OF assms] assms by (cases "st = OTLP_OK") auto

text \<open>Last write wins, over any sequence of calls, failed ones included.\<close>

lemma puts_last_write_wins:
  "inv s \<Longrightarrow> run_puts put s kvs = (sts, s') \<Longrightarrow>
   inv s' \<and> lookup s' = lookup s ++ map_of (rev (map (\<lambda>(k, v). (k, stored v)) (accepted kvs sts))) \<and>
   prefix (keys s) (keys s') \<and> set (keys s') = set (keys s) \<union> fst ` set (accepted kvs sts)"
proof (induction kvs arbitrary: s sts)
  case Nil
  then show ?case by (simp add: accepted_def)
next
  case (Cons kv kvs)
  obtain k v where kv: "kv = (k, v)" by (cases kv)
  obtain st s1 where p: "put s k v = (st, s1)" by (cases "put s k v")
  obtain sts' where r: "run_puts put s1 kvs = (sts', s')" "sts = st # sts'"
    using Cons.prems(2) p by (auto simp: kv split: prod.splits)
  note step = put_cases [OF Cons.prems(1) p]
  note ih = Cons.IH [OF step [THEN conjunct1] r(1)]
  have acc: "accepted ((k, v) # kvs) (st # sts') =
    (if st = OTLP_OK then [(k, v)] else []) @ accepted kvs sts'"
    by (simp add: accepted_def)
  have "prefix (keys s) (keys s1)" using step by (simp add: prefix_def split: if_splits)
  then have "prefix (keys s) (keys s')" using ih prefix_order.order_trans by blast
  moreover have "set (keys s') = set (keys s) \<union> fst ` set (accepted ((k, v) # kvs) (st # sts'))"
    using ih step unfolding acc by (auto split: if_splits)
  moreover have "lookup s' = lookup s ++ map_of (rev (map (\<lambda>(k, v). (k, stored v)) (accepted ((k, v) # kvs) (st # sts'))))"
  proof -
    have "lookup s' = lookup s1 ++ map_of (rev (map (\<lambda>(k, v). (k, stored v)) (accepted kvs sts')))"
      using ih by blast
    moreover have "lookup s1 = (if st = OTLP_OK then (lookup s)(k \<mapsto> stored v) else lookup s)"
      using step by blast
    ultimately show ?thesis unfolding acc by (cases "st = OTLP_OK") (simp_all only: if_True if_False, simp_all)
  qed
  ultimately show ?case using ih r(2) kv by simp
qed

end

section \<open>The setters are keyed stores\<close>

text \<open>The attribute value a public scalar stands for.\<close>

fun stored_value :: "otlp_value \<Rightarrow> attr_value" where
  "stored_value (OV_String s) = AV_String (Some (case s of None \<Rightarrow> [] | Some c \<Rightarrow> c))"
| "stored_value (OV_Bool b) = AV_Bool b"
| "stored_value (OV_Int64 i) = AV_Int64 i"
| "stored_value (OV_Double d) = AV_Double d"
| "stored_value (OV_Bytes src len) = AV_Bytes (case src of None \<Rightarrow> [] | Some bs \<Rightarrow> take len bs)"
| "stored_value OV_Invalid = AV_String None"

lemma dup_bytes_Some: "otlp_dup_bytes A src len m = (Some bs, m') \<Longrightarrow> \<exists>x. src = Some x \<and> bs = take len x"
  by (auto simp: otlp_dup_bytes_def split: if_splits option.splits prod.splits)

lemma dup_payload_stored: "dup_payload A v m = (OTLP_OK, x, m') \<Longrightarrow> x = stored_value v"
  by (cases v) (auto simp: dup_payload_def dest!: dup_str_Some dup_bytes_Some
      split: if_splits option.splits prod.splits)

lemma value_fill_stored: "value_fill A v m = (OTLP_OK, a, m') \<Longrightarrow> a = Attribute None (stored_value v)"
  by (cases v) (auto simp: value_fill_def Let_def dest!: dup_str_Some dup_bytes_Some
      split: if_splits option.splits prod.splits)

lemma fill_items_stored:
  "fill_items A vs m = (OTLP_OK, as, m') \<Longrightarrow> as = map (\<lambda>v. Attribute None (stored_value v)) vs"
  by (induction vs arbitrary: m as) (auto dest!: value_fill_stored split: if_splits prod.splits)

lemma fill_entries_stored:
  "fill_entries A kvs m = (OTLP_OK, es, m') \<Longrightarrow>
   es = map (\<lambda>(k, v). (k, Attribute None (stored_value v))) kvs"
  by (induction kvs arbitrary: m es)
     (auto dest!: value_fill_stored dup_str_Some split: if_splits prod.splits option.splits)

definition stored_array :: "otlp_value list option \<times> nat \<Rightarrow> attr_value" where
  "stored_array p = AV_Array (Some (map (\<lambda>v. Attribute None (stored_value v))
     (take (snd p) (case fst p of None \<Rightarrow> [] | Some vs \<Rightarrow> vs))))"

definition stored_kvlist :: "otlp_kv list option \<times> nat \<Rightarrow> attr_value" where
  "stored_kvlist p = AV_Kvlist (Some (map (\<lambda>(k, v). (k, Attribute None (stored_value v)))
     (take (snd p) (case fst p of None \<Rightarrow> [] | Some kvs \<Rightarrow> kvs))))"

lemma array_build_stored:
  "otlp_attr_array_build A items n m = (OTLP_OK, arr, m') \<Longrightarrow> AV_Array (Some arr) = stored_array (items, n)"
  by (auto simp: otlp_attr_array_build_def stored_array_def dest!: fill_items_stored
      split: if_splits prod.splits bool.splits)

lemma kvlist_build_stored:
  "otlp_attr_kvlist_build A es n m = (OTLP_OK, kvl, m') \<Longrightarrow> AV_Kvlist (Some kvl) = stored_kvlist (es, n)"
  by (auto simp: otlp_attr_kvlist_build_def stored_kvlist_def dest!: fill_entries_stored
      split: if_splits prod.splits bool.splits)

text \<open>
  A setter over the vector and the allocator state together: it either stops before the
  vector is touched or ends in the upsert step with the value it stands for.
\<close>

definition upserts :: "nat \<Rightarrow> 'm allocator \<Rightarrow> (attr_vec \<Rightarrow> 'm \<Rightarrow> status \<times> attr_vec \<times> 'm) \<Rightarrow> cstr \<Rightarrow> attr_value \<Rightarrow> bool" where
  "upserts max_n A op key x \<longleftrightarrow>
     (\<forall>vec m. (\<exists>st m1. op vec m = (st, vec, m1) \<and> st \<noteq> OTLP_OK) \<or>
        (\<exists>m1. op vec m = reserve_and_fill A vec max_n (Some key) x m1))"

lemma set_upserts:
  "upserts max_n A (\<lambda>vec. otlp_attr_vec_set A vec max_n (Some key) (Some v)) key (stored_value v)"
  unfolding upserts_def otlp_attr_vec_set_def
  by (auto split: prod.splits dest: dup_payload_stored)

lemma set_array_upserts:
  "upserts max_n A (\<lambda>vec. otlp_attr_vec_set_array A vec max_n (Some key) (fst p) (snd p)) key (stored_array p)"
  unfolding upserts_def
proof (intro allI)
  fix vec m
  obtain st arr m1 where b: "otlp_attr_array_build A (fst p) (snd p) m = (st, arr, m1)"
    by (cases "otlp_attr_array_build A (fst p) (snd p) m")
  then show "(\<exists>st m1. otlp_attr_vec_set_array A vec max_n (Some key) (fst p) (snd p) m = (st, vec, m1) \<and> st \<noteq> OTLP_OK) \<or>
    (\<exists>m1. otlp_attr_vec_set_array A vec max_n (Some key) (fst p) (snd p) m =
      reserve_and_fill A vec max_n (Some key) (stored_array p) m1)"
    using array_build_stored [of A "fst p" "snd p" m arr m1]
    by (cases "st = OTLP_OK") (auto simp: otlp_attr_vec_set_array_def)
qed

lemma set_kvlist_upserts:
  "upserts max_n A (\<lambda>vec. otlp_attr_vec_set_kvlist A vec max_n (Some key) (fst p) (snd p)) key (stored_kvlist p)"
  unfolding upserts_def
proof (intro allI)
  fix vec m
  obtain st kvl m1 where b: "otlp_attr_kvlist_build A (fst p) (snd p) m = (st, kvl, m1)"
    by (cases "otlp_attr_kvlist_build A (fst p) (snd p) m")
  then show "(\<exists>st m1. otlp_attr_vec_set_kvlist A vec max_n (Some key) (fst p) (snd p) m = (st, vec, m1) \<and> st \<noteq> OTLP_OK) \<or>
    (\<exists>m1. otlp_attr_vec_set_kvlist A vec max_n (Some key) (fst p) (snd p) m =
      reserve_and_fill A vec max_n (Some key) (stored_kvlist p) m1)"
    using kvlist_build_stored [of A "fst p" "snd p" m kvl m1]
    by (cases "st = OTLP_OK") (auto simp: otlp_attr_vec_set_kvlist_def)
qed

lemma upserts_spec:
  assumes "upserts max_n A op key x" "vec_inv max_n vec" "op vec m = (st, vec', m')"
  shows "vec_inv max_n vec'"
    and "st = OTLP_OK \<Longrightarrow> vec_lookup vec' = (vec_lookup vec)(key \<mapsto> x)"
    and "st = OTLP_OK \<Longrightarrow> vec_keys vec' = (if key \<in> set (vec_keys vec) then vec_keys vec else vec_keys vec @ [key])"
    and "st \<noteq> OTLP_OK \<Longrightarrow> av_items vec' = av_items vec"
  using assms(1) [unfolded upserts_def, rule_format, of vec m] assms(3)
    reserve_and_fill_spec(1-4) [OF assms(2), of A key x _ st vec' m'] assms(2) by auto

lemma upserts_store:
  assumes "\<And>key v. upserts max_n A (\<lambda>vec. op vec key v) key (stored v)"
  shows "keyed_store (\<lambda>(vec, m) key v. case op vec key v m of (st, vec', m') \<Rightarrow> (st, vec', m'))
    (\<lambda>(vec, m). vec_inv max_n vec) (\<lambda>(vec, m). vec_lookup vec) (\<lambda>(vec, m). vec_keys vec) stored max_n"
proof (unfold_locales, goal_cases)
  case (1 s k v st s')
  then show ?case using upserts_spec(1) [OF assms] by (auto split: prod.splits)
next
  case (2 s k v s')
  then show ?case using upserts_spec(2,3) [OF assms] by (fastforce split: prod.splits)
next
  case (3 s k v st s')
  then show ?case using upserts_spec(4) [OF assms]
    by (fastforce simp: vec_lookup_def vec_keys_def split: prod.splits)
next
  case (4 s)
  then show ?case using vec_keys_distinct by (auto split: prod.splits)
next
  case (5 s)
  then show ?case by (auto simp: vec_inv_def vec_keys_def split: prod.splits)
qed

definition put_scalar :: "nat \<Rightarrow> 'm allocator \<Rightarrow> attr_vec \<times> 'm \<Rightarrow> cstr \<Rightarrow> otlp_value \<Rightarrow> status \<times> attr_vec \<times> 'm" where
  "put_scalar max_n A = (\<lambda>(vec, m) key v. case otlp_attr_vec_set A vec max_n (Some key) (Some v) m of
     (st, vec', m') \<Rightarrow> (st, vec', m'))"

definition put_array ::
  "nat \<Rightarrow> 'm allocator \<Rightarrow> attr_vec \<times> 'm \<Rightarrow> cstr \<Rightarrow> otlp_value list option \<times> nat \<Rightarrow> status \<times> attr_vec \<times> 'm" where
  "put_array max_n A = (\<lambda>(vec, m) key p. case otlp_attr_vec_set_array A vec max_n (Some key) (fst p) (snd p) m of
     (st, vec', m') \<Rightarrow> (st, vec', m'))"

definition put_kvlist ::
  "nat \<Rightarrow> 'm allocator \<Rightarrow> attr_vec \<times> 'm \<Rightarrow> cstr \<Rightarrow> otlp_kv list option \<times> nat \<Rightarrow> status \<times> attr_vec \<times> 'm" where
  "put_kvlist max_n A = (\<lambda>(vec, m) key p. case otlp_attr_vec_set_kvlist A vec max_n (Some key) (fst p) (snd p) m of
     (st, vec', m') \<Rightarrow> (st, vec', m'))"

interpretation scalar: keyed_store "put_scalar max_n A" "\<lambda>(vec, m). vec_inv max_n vec"
    "\<lambda>(vec, m). vec_lookup vec" "\<lambda>(vec, m). vec_keys vec" stored_value max_n for max_n A
  unfolding put_scalar_def by (rule upserts_store) (rule set_upserts)

interpretation array: keyed_store "put_array max_n A" "\<lambda>(vec, m). vec_inv max_n vec"
    "\<lambda>(vec, m). vec_lookup vec" "\<lambda>(vec, m). vec_keys vec" stored_array max_n for max_n A
  unfolding put_array_def
  by (rule upserts_store) (rule set_array_upserts)

interpretation kvlist: keyed_store "put_kvlist max_n A" "\<lambda>(vec, m). vec_inv max_n vec"
    "\<lambda>(vec, m). vec_lookup vec" "\<lambda>(vec, m). vec_keys vec" stored_kvlist max_n for max_n A
  unfolding put_kvlist_def
  by (rule upserts_store) (rule set_kvlist_upserts)

section \<open>Properties\<close>

text \<open>
  Setting an attribute is an upsert on every branch: with OK the key maps to the stored
  value, an existing key keeps its place and a new one is appended; on any error the attributes
  are untouched; OVERFLOW is returned for a new key in a full vector only, overwriting succeeds
  even then; and keys stay distinct, valid UTF-8 and within the limit.
\<close>

theorem attr_set_upserts:
  assumes "vec_inv max_n vec" "otlp_attr_vec_set A vec max_n (Some key) (Some v) m = (st, vec', m')"
  shows "vec_inv max_n vec' \<and>
    (if st = OTLP_OK
     then vec_lookup vec' = (vec_lookup vec)(key \<mapsto> stored_value v) \<and>
       vec_keys vec' = (if key \<in> set (vec_keys vec) then vec_keys vec else vec_keys vec @ [key])
     else av_items vec' = av_items vec) \<and>
    (st = OTLP_ERR_OVERFLOW \<longrightarrow> key \<notin> set (vec_keys vec) \<and> length (av_items vec) \<ge> max_n)"
proof -
  have "st = OTLP_ERR_OVERFLOW \<longrightarrow> key \<notin> set (vec_keys vec) \<and> length (av_items vec) \<ge> max_n"
  proof
    assume ov: "st = OTLP_ERR_OVERFLOW"
    obtain s1 x m1 where d: "dup_payload A v m = (s1, x, m1)" by (rule prod_cases3)
    have "s1 \<noteq> OTLP_ERR_OVERFLOW"
      using d by (auto simp: dup_payload_def split: otlp_value.splits if_splits option.splits prod.splits)
    with assms(2) ov d have "reserve_and_fill A vec max_n (Some key) x m1 = (OTLP_ERR_OVERFLOW, vec', m')"
      by (auto simp: otlp_attr_vec_set_def split: if_splits)
    from reserve_and_fill_spec(6) [OF assms(1) this]
    show "key \<notin> set (vec_keys vec) \<and> length (av_items vec) \<ge> max_n" by simp
  qed
  with upserts_spec [OF set_upserts assms] show ?thesis by auto
qed

theorem attr_set_upserts_witness:
  "\<exists>vec' m'. otlp_attr_vec_set always_alloc \<lparr>av_items = [Attribute (Some (ascii ''k'')) (AV_Bool True)], av_cap = 1\<rparr> 1
      (Some (ascii ''k'')) (Some (OV_Int64 7)) () = (OTLP_OK, vec', m') \<and>
    vec_lookup vec' (ascii ''k'') = Some (AV_Int64 7) \<and> vec_keys vec' = [ascii ''k'']"
proof -
  let ?v = "\<lparr>av_items = [Attribute (Some (ascii ''k'')) (AV_Bool True)], av_cap = 1\<rparr>"
  have utf8: "otlp_str_is_utf8 (Some (ascii ''k''))"
    by (simp add: otlp_str_is_utf8_def ascii_def utf8_scan.simps)
  then have inv: "vec_inv 1 ?v" by (simp add: vec_inv_def)
  have eq: "otlp_attr_vec_set always_alloc ?v 1 (Some (ascii ''k'')) (Some (OV_Int64 7)) () =
    (OTLP_OK, \<lparr>av_items = [Attribute (Some (ascii ''k'')) (AV_Int64 7)], av_cap = 1\<rparr>, ())"
    by (simp add: otlp_attr_vec_set_def dup_payload_def reserve_and_fill_def otlp_attr_vec_reserve_def slot_fill_def)
  from attr_set_upserts [OF inv eq] eq show ?thesis by (simp add: vec_keys_def)
qed

text \<open>
  Last write wins: after any sequence of scalar sets on a fresh vector, failed ones
  included, the attributes are exactly the last acknowledged value of every key, each key once,
  never more than the limit.
\<close>

theorem attr_last_write_wins:
  assumes "run_puts (put_scalar max_n A) (vec_empty, m) kvs = (sts, (vec, m'))"
  shows "vec_lookup vec = map_of (rev (map (\<lambda>(k, v). (k, stored_value v)) (accepted kvs sts))) \<and>
    set (vec_keys vec) = fst ` set (accepted kvs sts) \<and> distinct (vec_keys vec) \<and>
    length (av_items vec) \<le> max_n"
  using scalar.puts_last_write_wins [OF _ assms] scalar.keys_distinct [of max_n "(vec, m')"]
    scalar.keys_limit [of max_n "(vec, m')"]
  by (simp add: length_vec_keys)

theorem attr_last_write_wins_witness:
  "\<exists>vec. run_puts (put_scalar 1 always_alloc) (vec_empty, ())
      [(ascii ''a'', OV_Bool True), (ascii ''b'', OV_Bool True), (ascii ''a'', OV_Int64 3)] =
      ([OTLP_OK, OTLP_ERR_OVERFLOW, OTLP_OK], (vec, ())) \<and>
    vec_lookup vec = [ascii ''a'' \<mapsto> AV_Int64 3]"
proof -
  let ?vec = "\<lparr>av_items = [Attribute (Some (ascii ''a'')) (AV_Int64 3)], av_cap = 1\<rparr>"
  have "run_puts (put_scalar 1 always_alloc) (vec_empty, ())
      [(ascii ''a'', OV_Bool True), (ascii ''b'', OV_Bool True), (ascii ''a'', OV_Int64 3)] =
      ([OTLP_OK, OTLP_ERR_OVERFLOW, OTLP_OK], (?vec, ()))"
    by (simp add: put_scalar_def otlp_attr_vec_set_def dup_payload_def reserve_and_fill_def
        otlp_attr_vec_reserve_def slot_fill_def vec_empty_def always_alloc_def otlp_dup_str_def SIZE_MAX_def
        SIZEOF_ATTRIBUTE_def otlp_str_is_utf8_def ascii_def utf8_scan.simps)
  note eq = this
  from attr_last_write_wins [OF eq] eq show ?thesis by (simp add: accepted_def fun_eq_iff)
qed

text \<open>
  A clone is faithful: when the deep copy of a vector into an empty one reports OK, the copy
  has the same keys, types and values, nested arrays and lists included, and is well formed
  when the source was.
\<close>

theorem attr_copy_faithful:
  assumes "otlp_attr_vec_copy A vec_empty src m = (OTLP_OK, dst, m')" "vec_inv max_n src"
  shows "av_items dst = av_items src \<and> vec_inv max_n dst"
proof -
  have "av_items dst = av_items src \<and> av_cap dst = length (av_items src)"
    using assms(1) by (auto simp: otlp_attr_vec_copy_def otlp_attribute_copy_all_def Let_def vec_empty_def
        dest: copy_faithful(3) split: if_splits prod.splits bool.splits option.splits)
  with assms(2) show ?thesis by (auto simp: vec_inv_def)
qed

theorem attr_copy_faithful_witness:
  "\<exists>dst. otlp_attr_vec_copy always_alloc vec_empty
      \<lparr>av_items = [Attribute (Some (ascii ''k'')) (AV_Array (Some [Attribute None (AV_Bool True)]))], av_cap = 4\<rparr> ()
      = (OTLP_OK, dst, ()) \<and>
    av_items dst = [Attribute (Some (ascii ''k'')) (AV_Array (Some [Attribute None (AV_Bool True)]))]"
proof -
  let ?src = "\<lparr>av_items = [Attribute (Some (ascii ''k'')) (AV_Array (Some [Attribute None (AV_Bool True)]))], av_cap = 4\<rparr>"
  obtain dst where eq: "otlp_attr_vec_copy always_alloc vec_empty ?src () = (OTLP_OK, dst, ())"
    by (simp add: otlp_attr_vec_copy_def otlp_attribute_copy_all_def always_alloc_def otlp_calloc_def
        dup_present_def otlp_dup_str_def SIZE_MAX_def SIZEOF_ATTRIBUTE_def ascii_def)
  have "vec_inv 4 ?src" by (simp add: vec_inv_def otlp_str_is_utf8_def ascii_def utf8_scan.simps)
  from attr_copy_faithful [OF eq this] eq show ?thesis by auto
qed

text \<open>
  An empty array attribute can be set but not cloned under an allocator that answers a
  request for zero bytes with NULL, as the C standard lets \<^verbatim>\<open>malloc\<close> do: the builder skips the
  item array when there are no items, the copy does not, and takes the NULL for out of memory.
\<close>

theorem empty_array_clone_fails:
  fixes A :: "'m allocator"
  assumes "\<And>n m. a_alloc A n m = (n \<noteq> 0, m)"
  shows "otlp_attr_array_build A None 0 m = (OTLP_OK, [], m) \<and>
    attr_copy_one A (Attribute None (AV_Array (Some []))) m = (None, m)"
  using assms
  by (simp add: otlp_attr_array_build_def otlp_calloc_def SIZEOF_ATTR_ARRAY_def SIZE_MAX_def dup_present_def)

theorem empty_array_clone_fails_witness:
  "attr_copy_one \<lparr>a_alloc = (\<lambda>n m. (n \<noteq> 0, m)), a_realloc = (\<lambda>n m. (True, m))\<rparr>
     (Attribute None (AV_Array (Some []))) () = (None, ())"
  using empty_array_clone_fails [of "\<lparr>a_alloc = (\<lambda>n m. (n \<noteq> 0, m)), a_realloc = (\<lambda>n m. (True, m))\<rparr>" "()"]
  by simp

end
