(* ===== verification/W3c.thy ===== *)
theory W3c
  imports Otlp_Prelude
begin

text \<open>
  The W3C traceparent formatter and parser of \<^verbatim>\<open>src/w3c.c\<close>. Every character the parser loads
  goes through \<open>cstr_at\<close>, so a load outside the string and its terminator makes the result
  \<open>None\<close>; the parser's output arrays are threaded through, partial writes included.
\<close>

section \<open>Hex digits\<close>

definition OTLP_TRACEPARENT_LEN :: nat where "OTLP_TRACEPARENT_LEN = 55"
definition OTLP_TRACEPARENT_BUF_SIZE :: nat where
  "OTLP_TRACEPARENT_BUF_SIZE = OTLP_TRACEPARENT_LEN + 1"

definition hex_digit :: "u8 \<Rightarrow> u8" where
  "hex_digit nibble = (if nibble < 10 then 0x30 + nibble else 0x61 + nibble - 10)"

definition hex_value :: "u8 \<Rightarrow> int" where
  "hex_value c =
     (if 0x30 \<le> c \<and> c \<le> 0x39 then uint c - 0x30
      else if 0x61 \<le> c \<and> c \<le> 0x66 then uint c - 0x61 + 10
      else if 0x41 \<le> c \<and> c \<le> 0x46 then uint c - 0x41 + 10
      else - 1)"

definition hex_byte :: "int \<Rightarrow> int \<Rightarrow> u8" where
  "hex_byte hi lo = word_of_int (push_bit 4 hi OR lo)"

section \<open>Formatting\<close>

text \<open>
  The buffer after the call, without the terminator the code stores at 55; the ids are arrays
  of 16 and 8 bytes.
\<close>

definition hex_pairs :: "u8 list \<Rightarrow> u8 list" where
  "hex_pairs bs = concat (map (\<lambda>b. [hex_digit (drop_bit 4 b), hex_digit (b AND 0x0F)]) bs)"

definition otlp_traceparent_format_raw ::
  "u8 list option \<Rightarrow> u8 list option \<Rightarrow> bool \<Rightarrow> nat \<Rightarrow> status \<times> cstr option" where
  "otlp_traceparent_format_raw trace_id span_id sampled cap =
     (case (trace_id, span_id) of
        (Some t, Some s) \<Rightarrow>
          if cap < OTLP_TRACEPARENT_BUF_SIZE then (OTLP_ERR_OVERFLOW, None)
          else (OTLP_OK, Some (ascii ''00-'' @ hex_pairs (take 16 t) @ ascii ''-'' @
            hex_pairs (take 8 s) @ ascii ''-'' @ ascii ''0'' @ ascii (if sampled then ''1'' else ''0'')))
      | _ \<Rightarrow> (OTLP_ERR_NULL, None))"

section \<open>Parsing\<close>

text \<open>
  One id: \<open>n\<close> pairs of hex characters from offset \<open>base\<close> on, stored into \<open>out\<close>. Both
  characters of a pair are loaded before either is tested. The result: whether all pairs were
  hex, the array, and whether some byte was nonzero.
\<close>

function parse_hex_id :: "cstr \<Rightarrow> nat \<Rightarrow> nat \<Rightarrow> nat \<Rightarrow> u8 list \<Rightarrow> bool \<Rightarrow> (bool \<times> u8 list \<times> bool) option" where
  "parse_hex_id header base i n out nz =
     (if i \<ge> n then Some (True, out, nz)
      else case cstr_at header (base + i * 2) of
        None \<Rightarrow> None
      | Some c \<Rightarrow> (case cstr_at header (base + 1 + i * 2) of
          None \<Rightarrow> None
        | Some d \<Rightarrow>
            if hex_value c < 0 \<or> hex_value d < 0 then Some (False, out, nz)
            else let b = hex_byte (hex_value c) (hex_value d)
                 in parse_hex_id header base (i + 1) n (out[i := b]) (nz \<or> b \<noteq> 0)))"
  by pat_completeness auto
termination
  by (relation "measure (\<lambda>(header, base, i, n, out, nz). n - i)") auto

declare parse_hex_id.simps [simp del]

record tp_out =
  tp_trace :: "u8 list"
  tp_span :: "u8 list"
  tp_flags :: u8

text \<open>\<open>if (header[i] != c) return ...; rest\<close>, with the load checked.\<close>

definition expect :: "cstr \<Rightarrow> nat \<Rightarrow> u8 \<Rightarrow> 'a \<Rightarrow> 'a option \<Rightarrow> 'a option" where
  "expect header i c err rest =
     (case cstr_at header i of None \<Rightarrow> None | Some d \<Rightarrow> if d \<noteq> c then Some err else rest)"

definition parse_flags_and_version :: "cstr \<Rightarrow> bool \<Rightarrow> tp_out \<Rightarrow> (status \<times> tp_out) option" where
  "parse_flags_and_version header nz out =
     (case (cstr_at header 53, cstr_at header 54) of
        (Some c, Some d) \<Rightarrow>
          if hex_value c < 0 \<or> hex_value d < 0 then Some (OTLP_ERR_INVALID_ARGUMENT, out)
          else let out = out\<lparr>tp_flags := hex_byte (hex_value c) (hex_value d)\<rparr> in
            if \<not> nz then Some (OTLP_ERR_INVALID_ARGUMENT, out)
            else (case (cstr_at header 0, cstr_at header 1) of
                (Some v0, Some v1) \<Rightarrow>
                  let version = hex_value v0 * 16 + hex_value v1 in
                  if version = 0xff then Some (OTLP_ERR_INVALID_ARGUMENT, out)
                  else if version = 0 then expect header 55 0 (OTLP_ERR_INVALID_ARGUMENT, out) (Some (OTLP_OK, out))
                  else Some (OTLP_OK, out)
              | _ \<Rightarrow> None)
      | _ \<Rightarrow> None)"

definition parse_span_part :: "cstr \<Rightarrow> bool \<Rightarrow> tp_out \<Rightarrow> (status \<times> tp_out) option" where
  "parse_span_part header trace_nz out =
     (case parse_hex_id header 36 0 8 (tp_span out) False of
        None \<Rightarrow> None
      | Some (ok, sp, span_nz) \<Rightarrow>
          let out = out\<lparr>tp_span := sp\<rparr> in
          if \<not> ok then Some (OTLP_ERR_INVALID_ARGUMENT, out)
          else expect header 52 0x2D (OTLP_ERR_INVALID_ARGUMENT, out)
            (parse_flags_and_version header (trace_nz \<and> span_nz) out))"

definition parse_trace_part :: "cstr \<Rightarrow> tp_out \<Rightarrow> (status \<times> tp_out) option" where
  "parse_trace_part header out =
     (case parse_hex_id header 3 0 16 (tp_trace out) False of
        None \<Rightarrow> None
      | Some (ok, t, trace_nz) \<Rightarrow>
          let out = out\<lparr>tp_trace := t\<rparr> in
          if \<not> ok then Some (OTLP_ERR_INVALID_ARGUMENT, out)
          else expect header 35 0x2D (OTLP_ERR_INVALID_ARGUMENT, out) (parse_span_part header trace_nz out))"

definition otlp_traceparent_parse :: "cstr option \<Rightarrow> tp_out \<Rightarrow> (status \<times> tp_out) option" where
  "otlp_traceparent_parse header_ptr out =
     (case header_ptr of None \<Rightarrow> Some (OTLP_ERR_NULL, out)
      | Some header \<Rightarrow>
         (case cstr_at header 0 of None \<Rightarrow> None
          | Some v0 \<Rightarrow>
              if hex_value v0 < 0 then Some (OTLP_ERR_INVALID_ARGUMENT, out)
              else (case cstr_at header 1 of None \<Rightarrow> None
                | Some v1 \<Rightarrow>
                    if hex_value v1 < 0 then Some (OTLP_ERR_INVALID_ARGUMENT, out)
                    else expect header 2 0x2D (OTLP_ERR_INVALID_ARGUMENT, out) (parse_trace_part header out))))"

section \<open>Hex round trip\<close>

lemma hex_value_bounds: "- 1 \<le> hex_value c" "hex_value c < 16"
proof -
  have "0x30 \<le> c \<longleftrightarrow> 0x30 \<le> uint c" "c \<le> 0x39 \<longleftrightarrow> uint c \<le> 0x39" "0x61 \<le> c \<longleftrightarrow> 0x61 \<le> uint c"
    "c \<le> 0x66 \<longleftrightarrow> uint c \<le> 0x66" "0x41 \<le> c \<longleftrightarrow> 0x41 \<le> uint c" "c \<le> 0x46 \<longleftrightarrow> uint c \<le> 0x46"
    by (simp_all add: word_le_def)
  then show "- 1 \<le> hex_value c" "hex_value c < 16" by (auto simp: hex_value_def)
qed

lemma hex_value_zero: "hex_value 0 = - 1"
  by (simp add: hex_value_def)

lemma hex_value_digit:
  assumes "unat d < 16"
  shows "hex_value (hex_digit d) = int (unat d)"
proof -
  have all: "list_all (\<lambda>n. hex_value (hex_digit (word_of_nat n)) = int n) [0..<16]"
    by (simp add: upt_rec hex_digit_def hex_value_def)
  have "unat d \<in> set [0..<16]" using assms by simp
  with all have "hex_value (hex_digit (word_of_nat (unat d))) = int (unat d)"
    by (simp only: list_all_iff)
  then show ?thesis by simp
qed

lemma hex_byte_nibbles: "hex_byte (int (unat (drop_bit 4 b))) (int (unat (b AND 0x0F))) = (b :: u8)"
proof -
  have m: "b AND 0x0F = take_bit 4 b" by (simp add: take_bit_eq_mask mask_eq_exp_minus_1)
  have "(push_bit 4 (drop_bit 4 (uint b)) OR take_bit 4 (uint b)) = uint b"
    by (rule bit_eqI) (auto simp: bit_or_iff bit_push_bit_iff bit_drop_bit_eq bit_take_bit_iff)
  moreover have "take_bit 8 (uint b) = uint b"
    using unsigned_less [of b, where 'a = int] by (simp add: take_bit_int_eq_self)
  ultimately show ?thesis
    unfolding hex_byte_def m
    by (simp only: of_nat_unat unsigned_drop_bit_eq unsigned_take_bit_eq)
       (simp add: of_nat_drop_bit of_nat_take_bit)
qed

lemma hex_pairs_length [simp]: "length (hex_pairs bs) = 2 * length bs"
  by (induction bs) (simp_all add: hex_pairs_def)

lemma hex_pairs_nth:
  "i < length bs \<Longrightarrow> hex_pairs bs ! (i * 2) = hex_digit (drop_bit 4 (bs ! i)) \<and>
    hex_pairs bs ! (1 + i * 2) = hex_digit (bs ! i AND 0x0F)"
proof (induction bs arbitrary: i)
  case (Cons b bs)
  then show ?case by (cases i) (simp_all add: hex_pairs_def)
qed simp

lemma nibble_bounds: "unat (drop_bit 4 (b :: u8)) < 16" "unat (b AND 0x0F :: u8) < 16"
proof -
  have "b AND 0x0F = take_bit 4 b" by (simp add: take_bit_eq_mask mask_eq_exp_minus_1)
  then show "unat (b AND 0x0F :: u8) < 16" by (simp only: unat_take_bit) simp
  have "unat (drop_bit 4 b) = unat b div 16"
    by (simp only: unat_drop_bit_eq) (simp add: drop_bit_eq_div)
  then show "unat (drop_bit 4 (b :: u8)) < 16" using unat_u8_lt [of b] by simp
qed

text \<open>Reading back \<open>hex_pairs\<close> from any place in a string.\<close>

lemma parse_hex_pairs:
  assumes "length pre = base" "length out = length bs" "i \<le> length bs" "take i out = take i bs"
  shows "parse_hex_id (pre @ hex_pairs bs @ post) base i (length bs) out nz =
    Some (True, bs, nz \<or> (\<exists>b\<in>set (drop i bs). b \<noteq> 0))"
  using assms(2-)
proof (induction "length bs - i" arbitrary: i out nz)
  case 0
  then show ?case by (subst parse_hex_id.simps) simp
next
  case (Suc k)
  then have i: "i < length bs" by simp
  let ?h = "pre @ hex_pairs bs @ post"
  have c: "cstr_at ?h (base + i * 2) = Some (hex_digit (drop_bit 4 (bs ! i)))"
    and d: "cstr_at ?h (base + 1 + i * 2) = Some (hex_digit (bs ! i AND 0x0F))"
    using i hex_pairs_nth [OF i] assms(1) by (simp_all add: cstr_at_def nth_append)
  have v: "hex_value (hex_digit (drop_bit 4 (bs ! i))) = int (unat (drop_bit 4 (bs ! i)))"
    "hex_value (hex_digit (bs ! i AND 0x0F)) = int (unat (bs ! i AND 0x0F))"
    by (simp_all only: hex_value_digit nibble_bounds)
  have t: "take (i + 1) (out[i := bs ! i]) = take (i + 1) bs"
    using Suc.prems i by (simp add: take_Suc_conv_app_nth take_update_cancel)
  have dr: "drop i bs = bs ! i # drop (i + 1) bs" using i by (simp add: Cons_nth_drop_Suc)
  have "parse_hex_id ?h base i (length bs) out nz =
    parse_hex_id ?h base (i + 1) (length bs) (out[i := bs ! i]) (nz \<or> bs ! i \<noteq> 0)"
    using i by (subst parse_hex_id.simps) (simp only: c d v hex_byte_nibbles option.case Let_def, simp)
  also have "\<dots> = Some (True, bs, (nz \<or> bs ! i \<noteq> 0) \<or> (\<exists>b\<in>set (drop (i + 1) bs). b \<noteq> 0))"
    by (rule Suc.hyps(1)) (use Suc.hyps(2) Suc.prems i t in simp_all)
  finally show ?case unfolding dr by auto
qed

lemma parse_hex_id_length:
  "parse_hex_id h base i n out nz = Some (ok, out', nz') \<Longrightarrow> length out' = length out"
proof (induction h base i n out nz rule: parse_hex_id.induct)
  case (1 h base i n out nz)
  then show ?case
    by (subst (asm) (2) parse_hex_id.simps) (auto simp: Let_def split: if_splits option.splits)
qed

text \<open>A string long enough for the fields is never read out of bounds.\<close>

lemma parse_hex_id_in_bounds:
  "base + 2 * n \<le> length h \<Longrightarrow> parse_hex_id h base i n out nz \<noteq> None"
proof (induction h base i n out nz rule: parse_hex_id.induct)
  case (1 h base i n out nz)
  show ?case
  proof (cases "i < n")
    case True
    then have "base + i * 2 < length h" "base + 1 + i * 2 < length h" using "1.prems" by auto
    then obtain c d where "cstr_at h (base + i * 2) = Some c" "cstr_at h (base + 1 + i * 2) = Some d"
      by (simp add: cstr_at_def)
    then show ?thesis using True "1.IH" "1.prems" by (subst parse_hex_id.simps) (auto simp: Let_def)
  qed (subst parse_hex_id.simps, simp)
qed

lemma parse_hex_id_True:
  "parse_hex_id h base i n out nz = Some (True, out', nz') \<Longrightarrow> i < n \<Longrightarrow> is_cstr h \<Longrightarrow> base + 2 * n \<le> length h"
proof (induction h base i n out nz rule: parse_hex_id.induct)
  case (1 h base i n out nz)
  from "1.prems"(1,2) obtain c d where cd: "cstr_at h (base + i * 2) = Some c"
    "cstr_at h (base + 1 + i * 2) = Some d" "\<not> (hex_value c < 0 \<or> hex_value d < 0)"
    and rec: "parse_hex_id h base (i + 1) n (out[i := hex_byte (hex_value c) (hex_value d)])
      (nz \<or> hex_byte (hex_value c) (hex_value d) \<noteq> 0) = Some (True, out', nz')"
    by (subst (asm) parse_hex_id.simps) (auto simp: Let_def split: option.splits if_splits)
  have "d \<noteq> 0" using cd(3) hex_value_zero by auto
  then have "base + 1 + i * 2 < length h" using cd(2) by (auto simp: cstr_at_def split: if_splits)
  then show ?case
    using "1.IH" [OF _ cd(1,2,3) refl rec] "1.prems"(2,3) by (cases "i + 1 < n") auto
qed

section \<open>Properties\<close>

lemma cstr_at_in [simp]: "i < length s \<Longrightarrow> cstr_at s i = Some (s ! i)"
  and cstr_at_end [simp]: "cstr_at s (length s) = Some 0"
  and cstr_at_out [simp]: "length s < i \<Longrightarrow> cstr_at s i = None"
  by (simp_all add: cstr_at_def)

lemma expect_simp: "cstr_at h i = Some c \<Longrightarrow> expect h i c e rest = rest"
  by (simp add: expect_def)

lemma format_parse:
  assumes "length t = 16" "length s = 8" "\<exists>b\<in>set t. b \<noteq> 0" "\<exists>b\<in>set s. b \<noteq> 0"
    and "OTLP_TRACEPARENT_BUF_SIZE \<le> cap" "length (tp_trace out) = 16" "length (tp_span out) = 8"
  shows "\<exists>h. otlp_traceparent_format_raw (Some t) (Some s) sampled cap = (OTLP_OK, Some h) \<and>
    length h = OTLP_TRACEPARENT_LEN \<and>
    otlp_traceparent_parse (Some h) out =
      Some (OTLP_OK, \<lparr>tp_trace = t, tp_span = s, tp_flags = (if sampled then 1 else 0)\<rparr>)"
proof -
  let ?f = "if sampled then 0x31 else 0x30 :: u8"
  define h where "h = [0x30, 0x30, 0x2D] @ hex_pairs t @ [0x2D] @ hex_pairs s @ [0x2D, 0x30, ?f]"
  have fmt: "otlp_traceparent_format_raw (Some t) (Some s) sampled cap = (OTLP_OK, Some h)"
    using assms(1,2,5) by (simp add: otlp_traceparent_format_raw_def h_def ascii_def)
  have len: "length h = 55" using assms(1,2) by (simp add: h_def)
  have at: "cstr_at h 0 = Some 0x30" "cstr_at h 1 = Some 0x30" "cstr_at h 2 = Some 0x2D"
    "cstr_at h 35 = Some 0x2D" "cstr_at h 52 = Some 0x2D" "cstr_at h 53 = Some 0x30"
    "cstr_at h 54 = Some ?f"
    using assms(1,2) by (simp_all add: h_def cstr_at_def nth_append)
  have at55: "cstr_at h 55 = Some 0" using len by (metis cstr_at_end)
  have h1: "h = [0x30, 0x30, 0x2D] @ hex_pairs t @ ([0x2D] @ hex_pairs s @ [0x2D, 0x30, ?f])"
    and h2: "h = ([0x30, 0x30, 0x2D] @ hex_pairs t @ [0x2D]) @ hex_pairs s @ [0x2D, 0x30, ?f]"
    by (simp_all add: h_def)
  have p1: "parse_hex_id h 3 0 16 (tp_trace out) False = Some (True, t, True)"
    using parse_hex_pairs [of "[0x30, 0x30, 0x2D]" 3 "tp_trace out" t 0 _ False] assms(1,3,6)
    unfolding h1 by simp
  have p2: "parse_hex_id h 36 0 8 (tp_span out) False = Some (True, s, True)"
    using parse_hex_pairs [of "[0x30, 0x30, 0x2D] @ hex_pairs t @ [0x2D]" 36 "tp_span out" s 0 _ False] assms(1,2,4,7)
    unfolding h2 by simp
  have v: "hex_value 0x30 = 0" "hex_value ?f = (if sampled then 1 else 0)" "hex_byte 0 1 = 1" "hex_byte 0 0 = 0"
    by (simp_all add: hex_value_def hex_byte_def)
  have "otlp_traceparent_parse (Some h) out =
      Some (OTLP_OK, \<lparr>tp_trace = t, tp_span = s, tp_flags = (if sampled then 1 else 0)\<rparr>)"
    by (simp add: otlp_traceparent_parse_def parse_trace_part_def parse_span_part_def
        parse_flags_and_version_def expect_simp at at55 p1 p2 v Let_def del: One_nat_def)
  with fmt len show ?thesis by (simp add: OTLP_TRACEPARENT_LEN_def)
qed

text \<open>
  Round trip: a traceparent formatted from a 16-byte trace id and an 8-byte span id, both
  not all zero, is 55 characters long and parses back to the same ids and flag, whatever was
  in the output arrays; and formatting fails only for a NULL id or a short buffer.
\<close>

theorem traceparent_roundtrip:
  assumes "length t = 16" "length s = 8" "\<exists>b\<in>set t. b \<noteq> 0" "\<exists>b\<in>set s. b \<noteq> 0"
    and "OTLP_TRACEPARENT_BUF_SIZE \<le> cap" "length (tp_trace out) = 16" "length (tp_span out) = 8"
  shows "\<exists>h. otlp_traceparent_format_raw (Some t) (Some s) sampled cap = (OTLP_OK, Some h) \<and>
    length h = OTLP_TRACEPARENT_LEN \<and>
    otlp_traceparent_parse (Some h) out =
      Some (OTLP_OK, \<lparr>tp_trace = t, tp_span = s, tp_flags = (if sampled then 1 else 0)\<rparr>)"
  using assms by (rule format_parse)

theorem traceparent_roundtrip_witness:
  "\<exists>h. otlp_traceparent_format_raw (Some (replicate 16 0xAB)) (Some (replicate 8 7)) True 64 = (OTLP_OK, Some h) \<and>
    length h = OTLP_TRACEPARENT_LEN \<and>
    otlp_traceparent_parse (Some h) \<lparr>tp_trace = replicate 16 0, tp_span = replicate 8 0, tp_flags = 0\<rparr> =
      Some (OTLP_OK, \<lparr>tp_trace = replicate 16 0xAB, tp_span = replicate 8 7, tp_flags = 1\<rparr>)"
  using traceparent_roundtrip [of "replicate 16 0xAB" "replicate 8 7" 64
      "\<lparr>tp_trace = replicate 16 0, tp_span = replicate 8 0, tp_flags = 0\<rparr>" True]
  by (simp add: OTLP_TRACEPARENT_BUF_SIZE_def OTLP_TRACEPARENT_LEN_def)

lemma parse_hex_id_nz:
  "parse_hex_id h base i n out nz = Some (ok, out', nz') \<Longrightarrow> length out = n \<Longrightarrow> nz' \<Longrightarrow>
   nz \<longrightarrow> (\<exists>b\<in>set (take i out). b \<noteq> 0) \<Longrightarrow> \<exists>b\<in>set out'. b \<noteq> 0"
proof (induction h base i n out nz rule: parse_hex_id.induct)
  case (1 h base i n out nz)
  show ?case
  proof (cases "i < n")
    case False
    with 1 show ?thesis by (subst (asm) (2) parse_hex_id.simps) (auto dest: in_set_takeD)
  next
    case True
    then obtain c d where cd: "cstr_at h (base + i * 2) = Some c" "cstr_at h (base + 1 + i * 2) = Some d"
      using "1.prems"(1) by (subst (asm) parse_hex_id.simps) (auto split: option.splits)
    show ?thesis
    proof (cases "hex_value c < 0 \<or> hex_value d < 0")
      case True
      with \<open>i < n\<close> cd 1 show ?thesis by (subst (asm) (2) parse_hex_id.simps) (auto dest: in_set_takeD)
    next
      case False
      let ?b = "hex_byte (hex_value c) (hex_value d)"
      have rec: "parse_hex_id h base (i + 1) n (out[i := ?b]) (nz \<or> ?b \<noteq> 0) = Some (ok, out', nz')"
        using "1.prems"(1) \<open>i < n\<close> cd False by (subst (asm) parse_hex_id.simps) (simp add: Let_def)
      have "take (i + 1) (out[i := ?b]) = take i out @ [?b]"
        using \<open>i < n\<close> "1.prems"(2) by (simp add: take_Suc_conv_app_nth take_update_cancel)
      then show ?thesis
        using "1.IH" [OF _ cd False refl rec] \<open>i < n\<close> "1.prems"(2-4) by auto
    qed
  qed
qed

lemma expect_some:
  "expect h i c (OTLP_ERR_INVALID_ARGUMENT, o1) rest = Some (OTLP_OK, o2) \<Longrightarrow>
   cstr_at h i = Some c \<and> rest = Some (OTLP_OK, o2)"
  by (auto simp: expect_def split: option.splits if_splits)

lemma parse_okE:
  assumes "otlp_traceparent_parse (Some h) out = Some (OTLP_OK, out')"
  obtains t s tz sz v0 v1 where "parse_hex_id h 3 0 16 (tp_trace out) False = Some (True, t, tz)"
    "parse_hex_id h 36 0 8 (tp_span out) False = Some (True, s, sz)" "tz" "sz"
    "tp_trace out' = t" "tp_span out' = s"
    "cstr_at h 0 = Some v0" "cstr_at h 1 = Some v1" "hex_value v0 * 16 + hex_value v1 \<noteq> 0xff"
    "\<exists>d. cstr_at h 54 = Some d \<and> hex_value d \<ge> 0"
    "hex_value v0 * 16 + hex_value v1 = 0 \<Longrightarrow> cstr_at h 55 = Some 0"
proof -
  from assms obtain v0 v1 where v: "cstr_at h 0 = Some v0" "cstr_at h 1 = Some v1"
    and tr: "parse_trace_part h out = Some (OTLP_OK, out')"
    by (auto simp: otlp_traceparent_parse_def split: option.splits if_splits dest!: expect_some)
  from tr obtain t tz where t: "parse_hex_id h 3 0 16 (tp_trace out) False = Some (True, t, tz)"
    and sp: "parse_span_part h tz (out\<lparr>tp_trace := t\<rparr>) = Some (OTLP_OK, out')"
    by (auto simp: parse_trace_part_def Let_def split: option.splits if_splits dest!: expect_some)
  from sp obtain s sz where s: "parse_hex_id h 36 0 8 (tp_span out) False = Some (True, s, sz)"
    and fl: "parse_flags_and_version h (tz \<and> sz) (out\<lparr>tp_trace := t, tp_span := s\<rparr>) = Some (OTLP_OK, out')"
    by (auto simp: parse_span_part_def Let_def split: option.splits if_splits dest!: expect_some)
  from fl v have "tz \<and> sz" "\<exists>d. cstr_at h 54 = Some d \<and> hex_value d \<ge> 0"
    "hex_value v0 * 16 + hex_value v1 \<noteq> 0xff" "tp_trace out' = t" "tp_span out' = s"
    "hex_value v0 * 16 + hex_value v1 = 0 \<Longrightarrow> cstr_at h 55 = Some 0"
    by (auto simp: parse_flags_and_version_def Let_def split: option.splits if_splits dest!: expect_some)
  with that t s v show ?thesis by blast
qed

text \<open>
  Soundness of the parser: what it accepts is at least 55 characters, exactly 55 for
  version 00, is not version ff, and yields a 16-byte trace id and an 8-byte span id that are
  not all zero.
\<close>

theorem traceparent_parse_sound:
  assumes "is_cstr h" "length (tp_trace out) = 16" "length (tp_span out) = 8"
    and "otlp_traceparent_parse (Some h) out = Some (OTLP_OK, out')"
  shows "55 \<le> length h \<and>
    (hex_value (h ! 0) * 16 + hex_value (h ! 1) = 0 \<longrightarrow> length h = 55) \<and>
    hex_value (h ! 0) * 16 + hex_value (h ! 1) \<noteq> 0xff \<and>
    length (tp_trace out') = 16 \<and> (\<exists>b\<in>set (tp_trace out'). b \<noteq> 0) \<and>
    length (tp_span out') = 8 \<and> (\<exists>b\<in>set (tp_span out'). b \<noteq> 0)"
  using assms(4)
proof (rule parse_okE)
  fix t s tz sz v0 v1
  assume t: "parse_hex_id h 3 0 16 (tp_trace out) False = Some (True, t, tz)" "tz" "tp_trace out' = t"
    and s: "parse_hex_id h 36 0 8 (tp_span out) False = Some (True, s, sz)" "sz" "tp_span out' = s"
    and v: "cstr_at h 0 = Some v0" "cstr_at h 1 = Some v1" "hex_value v0 * 16 + hex_value v1 \<noteq> 0xff"
    and fl: "\<exists>d. cstr_at h 54 = Some d \<and> hex_value d \<ge> 0"
    and v55: "hex_value v0 * 16 + hex_value v1 = 0 \<Longrightarrow> cstr_at h 55 = Some 0"
  from fl obtain d where d: "cstr_at h 54 = Some d" "hex_value d \<ge> 0" by blast
  then have "d \<noteq> 0" by (auto simp: hex_value_zero)
  then have len: "55 \<le> length h" using d(1) by (auto simp: cstr_at_def split: if_splits)
  then have at: "v0 = h ! 0" "v1 = h ! 1" using v by (auto simp: cstr_at_def split: if_splits)
  have "length h = 55" if "cstr_at h 55 = Some 0"
  proof (rule ccontr)
    assume "length h \<noteq> 55"
    then have "55 < length h" using len by simp
    then show False using that assms(1) nth_mem [of 55 h] by (auto simp: is_cstr_def cstr_at_def)
  qed
  moreover have "\<exists>b\<in>set t. b \<noteq> 0" using parse_hex_id_nz [OF t(1)] t(2) assms(2) by simp
  moreover have "\<exists>b\<in>set s. b \<noteq> 0" using parse_hex_id_nz [OF s(1)] s(2) assms(3) by simp
  ultimately show ?thesis
    using parse_hex_id_length [OF t(1)] parse_hex_id_length [OF s(1)] assms(2,3)
    unfolding t(3) s(3) at [symmetric] by (intro conjI impI len v(3)) (simp_all add: v55)
qed

theorem traceparent_parse_sound_witness:
  "\<exists>h out'. is_cstr h \<and>
     otlp_traceparent_parse (Some h) \<lparr>tp_trace = replicate 16 0, tp_span = replicate 8 0, tp_flags = 0\<rparr> =
       Some (OTLP_OK, out') \<and> length h = 55 \<and> length (tp_trace out') = 16"
proof -
  define h where "h = ascii ''00-0af7651916cd43dd8448eb211c80319c-b7ad6b7169203331-01''"
  let ?o = "\<lparr>tp_trace = replicate 16 0, tp_span = replicate 8 0, tp_flags = 0\<rparr>"
  let ?out = "\<lparr>tp_trace = [0x0a, 0xf7, 0x65, 0x19, 0x16, 0xcd, 0x43, 0xdd, 0x84, 0x48, 0xeb, 0x21, 0x1c, 0x80, 0x31, 0x9c],
    tp_span = [0xb7, 0xad, 0x6b, 0x71, 0x69, 0x20, 0x33, 0x31], tp_flags = 1\<rparr>"
  have "otlp_traceparent_format_raw (Some (tp_trace ?out)) (Some (tp_span ?out)) True 56 = (OTLP_OK, Some h)"
    by (simp add: otlp_traceparent_format_raw_def OTLP_TRACEPARENT_BUF_SIZE_def OTLP_TRACEPARENT_LEN_def
        hex_pairs_def hex_digit_def h_def ascii_def)
  with format_parse [of "tp_trace ?out" "tp_span ?out" 56 ?o True]
  have eq: "otlp_traceparent_parse (Some h) ?o = Some (OTLP_OK, ?out)"
    by (simp add: OTLP_TRACEPARENT_BUF_SIZE_def OTLP_TRACEPARENT_LEN_def)
  have c: "is_cstr h" by (simp add: is_cstr_def h_def ascii_def)
  have "length h = 55" by (simp add: h_def ascii_def)
  with traceparent_parse_sound [OF c _ _ eq] eq c show ?thesis by auto
qed

text \<open>
  Memory safety of the parser and its limit. A header of 55 characters or more is only ever
  read within the string and its terminator. A shorter one need not be: both characters of a
  hex pair are loaded before the first is tested, so on a header that ends where a pair begins,
  such as "00-", the parser reads one byte past the terminator.
\<close>

theorem traceparent_parse_bounds:
  assumes len: "55 \<le> length h"
  shows "otlp_traceparent_parse (Some h) out \<noteq> None \<and>
    otlp_traceparent_parse (Some (ascii ''00-'')) out = None"
proof
  have at: "\<exists>c. cstr_at h i = Some c" if "i \<le> 55" for i
    using that len by (cases "i = length h") (auto simp: cstr_at_def)
  have ex: "expect h i c e rest \<noteq> None" if "i \<le> 55" "rest \<noteq> None" for i c and e :: "status \<times> tp_out" and rest
    using at [OF that(1)] that(2) by (auto simp: expect_def)
  have fl: "parse_flags_and_version h nz o1 \<noteq> None" for nz o1
    using at [of 53] at [of 54] at [of 0] at [of 1] ex [of 55]
    by (auto simp: parse_flags_and_version_def Let_def)
  have sp: "parse_span_part h nz o1 \<noteq> None" for nz o1
    using parse_hex_id_in_bounds [of 36 8 h 0 "tp_span o1" False] len ex [of 52, OF _ fl]
    by (auto simp: parse_span_part_def Let_def)
  have tr: "parse_trace_part h o1 \<noteq> None" for o1
    using parse_hex_id_in_bounds [of 3 16 h 0 "tp_trace o1" False] len ex [of 35, OF _ sp]
    by (auto simp: parse_trace_part_def Let_def)
  show "otlp_traceparent_parse (Some h) out \<noteq> None"
    using at [of 0] at [of 1] ex [of 2, OF _ tr] by (auto simp: otlp_traceparent_parse_def)
next
  have "parse_hex_id [0x30, 0x30, 0x2D] 3 0 16 t False = None" for t
    by (subst parse_hex_id.simps) (simp add: cstr_at_def)
  then show "otlp_traceparent_parse (Some (ascii ''00-'')) out = None"
    by (simp add: otlp_traceparent_parse_def parse_trace_part_def expect_def cstr_at_def hex_value_def ascii_def)
qed

theorem traceparent_parse_bounds_witness:
  "otlp_traceparent_parse (Some (replicate 55 0x30)) \<lparr>tp_trace = [], tp_span = [], tp_flags = 0\<rparr> \<noteq> None \<and>
    otlp_traceparent_parse (Some (ascii ''00-'')) \<lparr>tp_trace = [], tp_span = [], tp_flags = 0\<rparr> = None"
  by (rule traceparent_parse_bounds) simp

end
