(* ===== verification/Context.thy ===== *)
theory Context
  imports W3c
begin

text \<open>
  Context propagation (\<^verbatim>\<open>src/context.c\<close>): injecting a span context into a carrier and extracting
  it again. The carrier is the caller's: its \<^verbatim>\<open>set\<close> and \<^verbatim>\<open>get\<close> callbacks are parameters, over a
  carrier state of any type. The \<^verbatim>\<open>char\<close> arrays of the context are the C strings they hold.
\<close>

section \<open>The code\<close>

definition OTLP_CONTEXT_TRACEPARENT_HEADER :: cstr where
  "OTLP_CONTEXT_TRACEPARENT_HEADER = ascii ''traceparent''"
definition OTLP_CONTEXT_TRACESTATE_HEADER :: cstr where
  "OTLP_CONTEXT_TRACESTATE_HEADER = ascii ''tracestate''"
definition OTLP_CONTEXT_BAGGAGE_HEADER :: cstr where
  "OTLP_CONTEXT_BAGGAGE_HEADER = ascii ''baggage''"

definition OTLP_CONTEXT_TRACESTATE_MAX :: nat where "OTLP_CONTEXT_TRACESTATE_MAX = 512"
definition OTLP_CONTEXT_BAGGAGE_MAX :: nat where "OTLP_CONTEXT_BAGGAGE_MAX = 2048"

lemmas context_consts = OTLP_CONTEXT_TRACEPARENT_HEADER_def OTLP_CONTEXT_TRACESTATE_HEADER_def
  OTLP_CONTEXT_BAGGAGE_HEADER_def OTLP_CONTEXT_TRACESTATE_MAX_def OTLP_CONTEXT_BAGGAGE_MAX_def

record otlp_context =
  ctx_trace_id :: "u8 list"
  ctx_span_id :: "u8 list"
  ctx_has_context :: bool
  ctx_sampled :: bool
  ctx_tracestate :: cstr
  ctx_baggage :: cstr

definition ctx_zero :: otlp_context where
  "ctx_zero = \<lparr>ctx_trace_id = replicate 16 0, ctx_span_id = replicate 8 0, ctx_has_context = False,
     ctx_sampled = False, ctx_tracestate = [], ctx_baggage = []\<rparr>"

fun contains_control :: "cstr \<Rightarrow> bool" where
  "contains_control [] = False"
| "contains_control (c # s) = (if c < 0x20 \<or> c = 0x7f then True else contains_control s)"

definition otlp_context_inject ::
  "otlp_context \<Rightarrow> ('c \<Rightarrow> cstr \<Rightarrow> cstr \<Rightarrow> status \<times> 'c) option \<Rightarrow> 'c \<Rightarrow> status \<times> 'c" where
  "otlp_context_inject ctx set_fn carrier =
     (case set_fn of None \<Rightarrow> (OTLP_ERR_NULL, carrier)
      | Some put \<Rightarrow>
         if \<not> ctx_has_context ctx then (OTLP_ERR_INVALID_ARGUMENT, carrier)
         else (case otlp_traceparent_format_raw (Some (ctx_trace_id ctx)) (Some (ctx_span_id ctx))
                      (ctx_sampled ctx) OTLP_TRACEPARENT_BUF_SIZE of
             (OTLP_OK, Some buf) \<Rightarrow>
               then_ok (\<lambda>c. if ctx_tracestate ctx \<noteq> [] then put c OTLP_CONTEXT_TRACESTATE_HEADER (ctx_tracestate ctx)
                            else ret_ok c)
               (then_ok (\<lambda>c. if ctx_baggage ctx \<noteq> [] then put c OTLP_CONTEXT_BAGGAGE_HEADER (ctx_baggage ctx)
                             else ret_ok c)
                 (\<lambda>c. put c OTLP_CONTEXT_TRACEPARENT_HEADER buf)) carrier
           | (st, _) \<Rightarrow> (st, carrier)))"

text \<open>The optional headers: copied, cut to the array, unless empty or unclean.\<close>

definition take_header :: "cstr option \<Rightarrow> nat \<Rightarrow> cstr \<Rightarrow> cstr" where
  "take_header value limit old =
     (case value of None \<Rightarrow> old
      | Some ts \<Rightarrow>
          if ts \<noteq> [] \<and> \<not> contains_control ts
          then take (if length ts \<ge> limit then limit - 1 else length ts) ts
          else old)"

definition otlp_context_extract :: "('c \<Rightarrow> cstr \<Rightarrow> cstr option) option \<Rightarrow> 'c \<Rightarrow> otlp_context option" where
  "otlp_context_extract get_fn carrier =
     (case get_fn of None \<Rightarrow> Some ctx_zero
      | Some get \<Rightarrow>
         (case get carrier OTLP_CONTEXT_TRACEPARENT_HEADER of None \<Rightarrow> Some ctx_zero
          | Some header \<Rightarrow>
             (case otlp_traceparent_parse (Some header)
                 \<lparr>tp_trace = ctx_trace_id ctx_zero, tp_span = ctx_span_id ctx_zero, tp_flags = 0\<rparr> of
                None \<Rightarrow> None
              | Some (st, out) \<Rightarrow>
                  let ctx = ctx_zero\<lparr>ctx_trace_id := tp_trace out, ctx_span_id := tp_span out\<rparr> in
                  if st \<noteq> OTLP_OK then Some (ctx\<lparr>ctx_has_context := False\<rparr>)
                  else Some (ctx\<lparr>ctx_sampled := (tp_flags out AND 0x01 \<noteq> 0), ctx_has_context := True,
                    ctx_tracestate := take_header (get carrier OTLP_CONTEXT_TRACESTATE_HEADER)
                      OTLP_CONTEXT_TRACESTATE_MAX (ctx_tracestate ctx),
                    ctx_baggage := take_header (get carrier OTLP_CONTEXT_BAGGAGE_HEADER)
                      OTLP_CONTEXT_BAGGAGE_MAX (ctx_baggage ctx)\<rparr>))))"

section \<open>Clean header values\<close>

definition clean :: "cstr \<Rightarrow> bool" where
  "clean s \<longleftrightarrow> (\<forall>b\<in>set s. 0x20 \<le> b \<and> b \<noteq> 0x7f)"

lemma contains_control_clean: "contains_control s \<longleftrightarrow> \<not> clean s"
  by (induction s) (auto simp: clean_def not_less)

lemma clean_take: "clean s \<Longrightarrow> clean (take n s)"
  by (auto simp: clean_def dest: in_set_takeD)

lemma take_header_clean: "clean old \<Longrightarrow> clean (take_header v n old)"
  by (auto simp: take_header_def contains_control_clean clean_take split: option.splits)

lemma take_header_length: "length old < n \<Longrightarrow> length (take_header v n old) < n"
  by (auto simp: take_header_def split: option.splits)

lemma clean_hex_digit: "unat d < 16 \<Longrightarrow> 0x20 \<le> hex_digit d \<and> hex_digit d \<noteq> 0x7f"
proof -
  assume "unat d < 16"
  then have "0 \<le> hex_value (hex_digit d)" by (simp only: hex_value_digit of_nat_0_le_iff)
  then have "0x30 \<le> hex_digit d \<and> hex_digit d \<le> 0x66"
    by (auto simp: hex_value_def word_le_nat_alt split: if_splits)
  then show ?thesis by (auto simp: word_le_nat_alt)
qed

lemma clean_hex_pairs: "clean (hex_pairs bs)"
  using clean_hex_digit nibble_bounds by (auto simp: clean_def hex_pairs_def)

lemma clean_append: "clean (xs @ ys) \<longleftrightarrow> clean xs \<and> clean ys"
  by (auto simp: clean_def)

lemma clean_ascii: "clean (ascii ''00-'')" "clean (ascii ''-'')" "clean (ascii ''0'')" "clean (ascii ''1'')"
  by (simp_all add: clean_def ascii_def)

lemma clean_traceparent:
  "otlp_traceparent_format_raw t s f cap = (st, Some h) \<Longrightarrow> clean h"
  using clean_hex_pairs
  by (auto simp: otlp_traceparent_format_raw_def clean_append clean_ascii split: option.splits if_splits)

section \<open>Properties\<close>

text \<open>The documented behaviour of a carrier: a header that was set is read back, others stay.\<close>

definition carrier_ok :: "('c \<Rightarrow> cstr \<Rightarrow> cstr \<Rightarrow> status \<times> 'c) \<Rightarrow> ('c \<Rightarrow> cstr \<Rightarrow> cstr option) \<Rightarrow> bool" where
  "carrier_ok put get \<longleftrightarrow>
     (\<forall>c k v c'. put c k v = (OTLP_OK, c') \<longrightarrow>
        get c' k = Some v \<and> (\<forall>k'. k' \<noteq> k \<longrightarrow> get c' k' = get c k'))"

definition ctx_wf :: "otlp_context \<Rightarrow> bool" where
  "ctx_wf ctx \<longleftrightarrow> ctx_has_context ctx \<and>
     length (ctx_trace_id ctx) = 16 \<and> (\<exists>b\<in>set (ctx_trace_id ctx). b \<noteq> 0) \<and>
     length (ctx_span_id ctx) = 8 \<and> (\<exists>b\<in>set (ctx_span_id ctx). b \<noteq> 0) \<and>
     clean (ctx_tracestate ctx) \<and> length (ctx_tracestate ctx) < OTLP_CONTEXT_TRACESTATE_MAX \<and>
     clean (ctx_baggage ctx) \<and> length (ctx_baggage ctx) < OTLP_CONTEXT_BAGGAGE_MAX"

lemma header_names_differ:
  "OTLP_CONTEXT_TRACEPARENT_HEADER \<noteq> OTLP_CONTEXT_TRACESTATE_HEADER"
  "OTLP_CONTEXT_TRACEPARENT_HEADER \<noteq> OTLP_CONTEXT_BAGGAGE_HEADER"
  "OTLP_CONTEXT_TRACESTATE_HEADER \<noteq> OTLP_CONTEXT_BAGGAGE_HEADER"
  by (simp_all add: context_consts ascii_def)

lemma take_header_whole: "clean s \<Longrightarrow> length s < n \<Longrightarrow> take_header (Some s) n [] = s"
  by (simp add: take_header_def contains_control_clean)

lemma inject_extract:
  assumes "carrier_ok put get" "ctx_wf ctx"
    and "otlp_context_inject ctx (Some put) c = (OTLP_OK, c')"
    and "ctx_tracestate ctx = [] \<longrightarrow> get c OTLP_CONTEXT_TRACESTATE_HEADER = None"
    and "ctx_baggage ctx = [] \<longrightarrow> get c OTLP_CONTEXT_BAGGAGE_HEADER = None"
  shows "otlp_context_extract (Some get) c' = Some ctx"
proof -
  let ?o = "\<lparr>tp_trace = ctx_trace_id ctx_zero, tp_span = ctx_span_id ctx_zero, tp_flags = 0\<rparr>"
  obtain h where h: "otlp_traceparent_format_raw (Some (ctx_trace_id ctx)) (Some (ctx_span_id ctx))
      (ctx_sampled ctx) OTLP_TRACEPARENT_BUF_SIZE = (OTLP_OK, Some h)"
    and p: "otlp_traceparent_parse (Some h) ?o = Some (OTLP_OK, \<lparr>tp_trace = ctx_trace_id ctx,
      tp_span = ctx_span_id ctx, tp_flags = (if ctx_sampled ctx then 1 else 0)\<rparr>)"
    using format_parse [of "ctx_trace_id ctx" "ctx_span_id ctx" OTLP_TRACEPARENT_BUF_SIZE ?o "ctx_sampled ctx"]
      assms(2) by (auto simp: ctx_wf_def ctx_zero_def)
  have has: "ctx_has_context ctx" using assms(2) by (simp add: ctx_wf_def)
  obtain c1 c2 where
    c1: "(if ctx_tracestate ctx \<noteq> [] then put c OTLP_CONTEXT_TRACESTATE_HEADER (ctx_tracestate ctx) else (OTLP_OK, c)) = (OTLP_OK, c1)"
    and c2: "(if ctx_baggage ctx \<noteq> [] then put c1 OTLP_CONTEXT_BAGGAGE_HEADER (ctx_baggage ctx) else (OTLP_OK, c1)) = (OTLP_OK, c2)"
    and c3: "put c2 OTLP_CONTEXT_TRACEPARENT_HEADER h = (OTLP_OK, c')"
    using assms(3) unfolding otlp_context_inject_def h
    by (simp only: option.case prod.case status.case has not_True_eq_False if_False then_ok_OK ret_ok_simp) blast
  have law: "put d k v = (OTLP_OK, d') \<Longrightarrow> get d' k = Some v" "put d k v = (OTLP_OK, d') \<Longrightarrow> k' \<noteq> k \<Longrightarrow> get d' k' = get d k'"
    for d k v d' k'
    using assms(1) unfolding carrier_ok_def by blast+
  have tp: "get c' OTLP_CONTEXT_TRACEPARENT_HEADER = Some h" using law(1) [OF c3] .
  have bg: "get c' OTLP_CONTEXT_BAGGAGE_HEADER = (if ctx_baggage ctx = [] then None else Some (ctx_baggage ctx))"
    using law(2) [OF c3, of OTLP_CONTEXT_BAGGAGE_HEADER] c1 c2 assms(5) header_names_differ
      law(1) [of c1 _ "ctx_baggage ctx" c2] law(2) [of c _ _ c1 OTLP_CONTEXT_BAGGAGE_HEADER]
    by (auto split: if_splits)
  have ts: "get c' OTLP_CONTEXT_TRACESTATE_HEADER = (if ctx_tracestate ctx = [] then None else Some (ctx_tracestate ctx))"
    using law(2) [OF c3, of OTLP_CONTEXT_TRACESTATE_HEADER] c1 c2 assms(4) header_names_differ
      law(1) [of c _ "ctx_tracestate ctx" c1] law(2) [of c1 _ _ c2 OTLP_CONTEXT_TRACESTATE_HEADER]
    by (auto split: if_splits)
  have th: "take_header (if s = [] then None else Some s) n [] = s" if "clean s" "length s < n" for s n
    using that by (auto simp: take_header_def contains_control_clean)
  show ?thesis
    using assms(2) unfolding otlp_context_extract_def
    by (simp add: tp p [unfolded ctx_zero_def, simplified] bg ts th ctx_wf_def ctx_zero_def Let_def)
qed


definition map_put :: "(cstr \<Rightarrow> cstr option) \<Rightarrow> cstr \<Rightarrow> cstr \<Rightarrow> status \<times> (cstr \<Rightarrow> cstr option)" where
  "map_put c k v = (OTLP_OK, c(k \<mapsto> v))"


lemma extract_clean:
  assumes "otlp_context_extract (Some get) c = Some ctx"
  shows "clean (ctx_tracestate ctx) \<and> clean (ctx_baggage ctx) \<and>
    length (ctx_tracestate ctx) < OTLP_CONTEXT_TRACESTATE_MAX \<and> length (ctx_baggage ctx) < OTLP_CONTEXT_BAGGAGE_MAX"
proof -
  have "clean []" by (simp add: clean_def)
  then show ?thesis
    using assms take_header_clean [OF \<open>clean []\<close>] take_header_length [of "[]"]
    by (auto simp: otlp_context_extract_def ctx_zero_def Let_def context_consts split: option.splits if_splits)
qed

definition record_put :: "(cstr \<times> cstr) list \<Rightarrow> cstr \<Rightarrow> cstr \<Rightarrow> status \<times> (cstr \<times> cstr) list" where
  "record_put hs k v = (OTLP_OK, hs @ [(k, v)])"

lemma inject_record:
  assumes "otlp_context_inject ctx (Some record_put) hs = (st, hs')" "clean (ctx_tracestate ctx)" "clean (ctx_baggage ctx)"
    and "\<forall>(k, v)\<in>set hs. clean v"
  shows "\<forall>(k, v)\<in>set hs'. clean v"
  using assms clean_traceparent
  by (auto simp: otlp_context_inject_def then_ok_def record_put_def split: option.splits if_splits prod.splits status.splits)

text \<open>
  No header injection through propagated context: whatever a carrier answers, an extracted
  context holds no control byte (so no CR or LF) and stays within its arrays, and every header
  value that injecting it hands to the next carrier is free of control bytes.
\<close>

theorem no_header_injection:
  assumes "otlp_context_extract (Some get) c = Some ctx"
    and "otlp_context_inject ctx (Some record_put) [] = (st, hs)"
  shows "length (ctx_tracestate ctx) < OTLP_CONTEXT_TRACESTATE_MAX \<and>
    length (ctx_baggage ctx) < OTLP_CONTEXT_BAGGAGE_MAX \<and>
    (\<forall>(k, v)\<in>set hs. \<forall>b\<in>set v. 0x20 \<le> b \<and> b \<noteq> 0x7f)"
  using extract_clean [OF assms(1)] inject_record [OF assms(2)] by (auto simp: clean_def)

text \<open>The attacker's tracestate carries CR LF and a header of its own; it is dropped.\<close>

theorem no_header_injection_witness:
  "let get = (\<lambda>c k. if k = OTLP_CONTEXT_TRACEPARENT_HEADER
              then Some (ascii ''00-0af7651916cd43dd8448eb211c80319c-b7ad6b7169203331-01'')
              else if k = OTLP_CONTEXT_TRACESTATE_HEADER then Some (ascii ''a=b'' @ [0x0D, 0x0A] @ ascii ''X: y'')
              else c k)
   in \<exists>ctx hs. otlp_context_extract (Some get) Map.empty = Some ctx \<and>
     otlp_context_inject ctx (Some record_put) [] = (OTLP_OK, hs) \<and> length hs = 1 \<and>
     (\<forall>(k, v)\<in>set hs. \<forall>b\<in>set v. 0x20 \<le> b \<and> b \<noteq> 0x7f)"
proof -
  let ?get = "\<lambda>c k. if k = OTLP_CONTEXT_TRACEPARENT_HEADER
              then Some (ascii ''00-0af7651916cd43dd8448eb211c80319c-b7ad6b7169203331-01'')
              else if k = OTLP_CONTEXT_TRACESTATE_HEADER then Some (ascii ''a=b'' @ [0x0D, 0x0A] @ ascii ''X: y'')
              else c k"
  let ?t = "[0x0a, 0xf7, 0x65, 0x19, 0x16, 0xcd, 0x43, 0xdd, 0x84, 0x48, 0xeb, 0x21, 0x1c, 0x80, 0x31, 0x9c] :: u8 list"
  let ?s = "[0xb7, 0xad, 0x6b, 0x71, 0x69, 0x20, 0x33, 0x31] :: u8 list"
  let ?ctx = "ctx_zero\<lparr>ctx_trace_id := ?t, ctx_span_id := ?s, ctx_sampled := True, ctx_has_context := True\<rparr>"
  have fmt: "otlp_traceparent_format_raw (Some ?t) (Some ?s) True 56 =
      (OTLP_OK, Some (ascii ''00-0af7651916cd43dd8448eb211c80319c-b7ad6b7169203331-01''))"
    by (simp add: otlp_traceparent_format_raw_def OTLP_TRACEPARENT_BUF_SIZE_def OTLP_TRACEPARENT_LEN_def
        hex_pairs_def hex_digit_def ascii_def)
  have parse: "otlp_traceparent_parse (Some (ascii ''00-0af7651916cd43dd8448eb211c80319c-b7ad6b7169203331-01''))
      \<lparr>tp_trace = replicate 16 0, tp_span = replicate 8 0, tp_flags = 0\<rparr> =
      Some (OTLP_OK, \<lparr>tp_trace = ?t, tp_span = ?s, tp_flags = 1\<rparr>)"
    using format_parse [of ?t ?s 56 "\<lparr>tp_trace = replicate 16 0, tp_span = replicate 8 0, tp_flags = 0\<rparr>" True] fmt
    by (simp add: OTLP_TRACEPARENT_BUF_SIZE_def OTLP_TRACEPARENT_LEN_def)
  have "contains_control (ascii ''a=b'' @ [0x0D, 0x0A] @ ascii ''X: y'')"
    by (simp add: contains_control_clean clean_def ascii_def)
  then have ex: "otlp_context_extract (Some ?get) Map.empty = Some ?ctx"
    using parse header_names_differ
    by (simp add: otlp_context_extract_def ctx_zero_def Let_def take_header_def)
  obtain hs where inj: "otlp_context_inject ?ctx (Some record_put) [] = (OTLP_OK, hs)" "length hs = 1"
    using fmt by (simp add: otlp_context_inject_def then_ok_def record_put_def ctx_zero_def
        OTLP_TRACEPARENT_BUF_SIZE_def OTLP_TRACEPARENT_LEN_def)
  from no_header_injection [OF ex inj(1)] ex inj show ?thesis unfolding Let_def by blast
qed

end
