(* ===== verification/Http_Resp.thy ===== *)
theory Http_Resp
  imports Otlp_Prelude
begin

text \<open>
  The HTTP/1.1 response parser of \<^verbatim>\<open>src/http_response_parser.c\<close>: status line, line-aligned
  header scan with the request-smuggling rejections, Content-Length framing and the in-place
  decoding of chunked bodies. The caller's buffer is a list of bytes that the parser may
  change; pointers into it are offsets.
\<close>

definition OTLP_HTTP_RESP_MAX :: nat where "OTLP_HTTP_RESP_MAX = 65536"
definition OTLP_RETRY_AFTER_MAX_S :: nat where "OTLP_RETRY_AFTER_MAX_S = 4294967"

section \<open>Helpers\<close>

text \<open>First occurrence of the needle; \<open>None\<close> is \<^verbatim>\<open>-1\<close>.\<close>

fun find_substring :: "u8 list \<Rightarrow> u8 list \<Rightarrow> nat option" where
  "find_substring [] needle = (if needle = [] then Some 0 else None)"
| "find_substring (b # hay) needle =
     (if take (length needle) (b # hay) = needle then Some 0
      else map_option Suc (find_substring hay needle))"

definition CRLF :: "u8 list" where "CRLF = [13, 10]"

definition is_digit :: "u8 \<Rightarrow> bool" where
  "is_digit c \<longleftrightarrow> 0x30 \<le> c \<and> c \<le> 0x39"

definition digit_value :: "u8 \<Rightarrow> nat" where
  "digit_value c = unat c - 0x30"

definition hex_digit_value :: "u8 \<Rightarrow> nat option" where
  "hex_digit_value c =
     (if 0x30 \<le> c \<and> c \<le> 0x39 then Some (unat c - 0x30)
      else if 0x61 \<le> c \<and> c \<le> 0x66 then Some (unat c - 0x61 + 10)
      else if 0x41 \<le> c \<and> c \<le> 0x46 then Some (unat c - 0x41 + 10)
      else None)"

definition ascii_lower :: "u8 \<Rightarrow> u8" where
  "ascii_lower c = (if 0x41 \<le> c \<and> c \<le> 0x5A then c + 0x20 else c)"

text \<open>\<^verbatim>\<open>strncasecmp(s, needle, strlen(needle)) == 0\<close>, with \<open>s\<close> the bytes from the pointer on.\<close>

definition has_prefix_ci :: "u8 list \<Rightarrow> u8 list \<Rightarrow> bool" where
  "has_prefix_ci needle s \<longleftrightarrow> map ascii_lower (take (length needle) s) = map ascii_lower needle"

section \<open>Chunked bodies\<close>

function scan_size :: "u8 list \<Rightarrow> nat \<Rightarrow> nat \<Rightarrow> nat \<Rightarrow> (nat \<times> nat \<times> nat) option" where
  "scan_size buf i sz digits =
     (if i < length buf \<and> buf ! i \<noteq> 13 \<and> buf ! i \<noteq> 0x3B
      then (case hex_digit_value (buf ! i) of
          None \<Rightarrow> None
        | Some d \<Rightarrow>
            if sz * 16 + d > OTLP_HTTP_RESP_MAX then None
            else scan_size buf (i + 1) (sz * 16 + d) (digits + 1))
      else Some (i, sz, digits))"
  by pat_completeness auto
termination by (relation "measure (\<lambda>(buf, i, _). length buf - i)") auto

declare scan_size.simps [simp del]

function skip_to_cr :: "u8 list \<Rightarrow> nat \<Rightarrow> nat" where
  "skip_to_cr buf i = (if i < length buf \<and> buf ! i \<noteq> 13 then skip_to_cr buf (i + 1) else i)"
  by pat_completeness auto
termination by (relation "measure (\<lambda>(buf, i). length buf - i)") auto

declare skip_to_cr.simps [simp del]

lemma scan_size_mono: "scan_size buf i sz digits = Some (j, sz', digits') \<Longrightarrow> i \<le> j"
proof (induction buf i sz digits rule: scan_size.induct)
  case (1 buf i sz digits)
  then show ?case
    by (subst (asm) (2) scan_size.simps) (fastforce split: if_splits option.splits)
qed

lemma skip_to_cr_mono: "i \<le> skip_to_cr buf i"
proof (induction buf i rule: skip_to_cr.induct)
  case (1 buf i)
  then show ?case by (subst skip_to_cr.simps) auto
qed

definition memmove :: "u8 list \<Rightarrow> nat \<Rightarrow> nat \<Rightarrow> nat \<Rightarrow> u8 list" where
  "memmove buf d s n = map (\<lambda>i. if d \<le> i \<and> i < d + n then buf ! (s + (i - d)) else buf ! i) [0..<length buf]"

lemma length_memmove [simp]: "length (memmove buf d s n) = length buf"
  by (simp add: memmove_def)

text \<open>
  The verdicts 1, 0 and -1, the decoded length, and the buffer, which the loop has compacted
  over the framing of the chunks it got through.
\<close>

function decode_chunked_from :: "u8 list \<Rightarrow> nat \<Rightarrow> nat \<Rightarrow> int \<times> nat \<times> u8 list" where
  "decode_chunked_from buf src dst =
     (case scan_size buf src 0 0 of
        None \<Rightarrow> (- 1, 0, buf)
      | Some (line_end0, sz, digits) \<Rightarrow>
          if digits = 0 \<or> line_end0 \<ge> length buf then (0, 0, buf)
          else let line_end = skip_to_cr buf line_end0 in
          if line_end + 1 \<ge> length buf then (0, 0, buf)
          else if buf ! (line_end + 1) \<noteq> 10 then (- 1, 0, buf)
          else if sz = 0 then
            (let t = drop (line_end + 2) buf in
             if length t < 2 then (0, 0, buf)
             else if t ! 0 = 13 \<and> t ! 1 = 10 then (1, dst, buf)
             else (case find_substring t (CRLF @ CRLF) of
                None \<Rightarrow> (0, 0, buf) | Some off \<Rightarrow> (1, dst, buf)))
          else if line_end + 2 + sz + 2 > length buf then (0, 0, buf)
          else if buf ! (line_end + 2 + sz) \<noteq> 13 \<or> buf ! (line_end + 2 + sz + 1) \<noteq> 10 then (- 1, 0, buf)
          else decode_chunked_from (memmove buf dst (line_end + 2) sz) (line_end + 2 + sz + 2) (dst + sz))"
  by pat_completeness auto
termination
proof (relation "measure (\<lambda>(buf, src, dst). length buf - src)", goal_cases)
  case 1
  then show ?case by simp
next
  case prems: (2 buf src dst r line_end0 rest sz digits line_end)
  then have "src \<le> line_end0" using scan_size_mono [of buf src 0 0 line_end0 sz digits] by simp
  also have "line_end0 \<le> line_end" using prems skip_to_cr_mono by simp
  finally show ?case using prems by simp
qed

declare decode_chunked_from.simps [simp del]

definition decode_chunked_in_place :: "u8 list \<Rightarrow> int \<times> nat \<times> u8 list" where
  "decode_chunked_in_place buf = decode_chunked_from buf 0 0"

section \<open>Headers\<close>

record hdr_state =
  hs_content_length :: int
  hs_cl_seen :: bool
  hs_te_seen :: bool
  hs_te_chunked :: bool
  hs_retry_after_ms :: nat
  hs_keepalive :: bool

fun skip_spaces :: "u8 list \<Rightarrow> u8 list" where
  "skip_spaces (c # v) = (if c = 0x20 then skip_spaces v else c # v)"
| "skip_spaces [] = []"

text \<open>The digits of a Content-Length, refused above the response cap.\<close>

fun cl_value :: "u8 list \<Rightarrow> nat \<Rightarrow> nat option" where
  "cl_value [] val = Some val"
| "cl_value (c # v) val =
     (if is_digit c then
        (let val' = val * 10 + digit_value c in
         if val' > OTLP_HTTP_RESP_MAX then None else cl_value v val')
      else Some val)"

fun retry_value :: "u8 list \<Rightarrow> nat \<Rightarrow> nat \<Rightarrow> nat" where
  "retry_value [] sec digits = sec"
| "retry_value (c # v) sec digits =
     (if is_digit c \<and> digits < 10 then retry_value v (sec * 10 + digit_value c) (digits + 1) else sec)"

text \<open>
  One header line: \<open>s\<close> are the bytes from the line's start on, \<open>n\<close> the distance to its CR; the
  loads stop at the CR at the latest, which no header name or value compared with contains.
\<close>

definition header_line :: "u8 list \<Rightarrow> nat \<Rightarrow> hdr_state \<Rightarrow> hdr_state option" where
  "header_line s n hs =
     (if has_prefix_ci (ascii ''Content-Length:'') s then
        (case cl_value (skip_spaces (drop 15 (take n s))) 0 of
           None \<Rightarrow> None
         | Some val \<Rightarrow>
             if hs_cl_seen hs \<and> int val \<noteq> hs_content_length hs then None
             else Some (hs\<lparr>hs_content_length := int val, hs_cl_seen := True\<rparr>))
      else if has_prefix_ci (ascii ''Transfer-Encoding:'') s then
        (let v = skip_spaces (drop 18 (take n s)) in
         Some (hs\<lparr>hs_te_seen := True,
           hs_te_chunked := (if length v = 7 \<and> has_prefix_ci (ascii ''chunked'') v then True else hs_te_chunked hs)\<rparr>))
      else if has_prefix_ci (ascii ''Retry-After:'') s then
        (let sec0 = retry_value (skip_spaces (drop 12 (take n s))) 0 0;
             sec = (if sec0 > OTLP_RETRY_AFTER_MAX_S then OTLP_RETRY_AFTER_MAX_S else sec0)
         in Some (hs\<lparr>hs_retry_after_ms := sec * 1000\<rparr>))
      else if has_prefix_ci (ascii ''Connection:'') s then
        (let v = skip_spaces (drop 11 (take n s)) in
         if has_prefix_ci (ascii ''close'') v then Some (hs\<lparr>hs_keepalive := False\<rparr>)
         else if length v \<ge> 10 \<and> has_prefix_ci (ascii ''keep-alive'') v then Some (hs\<lparr>hs_keepalive := True\<rparr>)
         else Some hs)
      else Some hs)"

function header_loop :: "u8 list \<Rightarrow> nat \<Rightarrow> nat \<Rightarrow> hdr_state \<Rightarrow> hdr_state option" where
  "header_loop buf hdr hdr_end hs =
     (if hdr < hdr_end then
        (let eol = skip_to_cr (take hdr_end buf) hdr in
         if eol \<ge> hdr_end then None
         else (case header_line (drop hdr buf) (eol - hdr) hs of
             None \<Rightarrow> None
           | Some hs' \<Rightarrow> header_loop buf (eol + 2) hdr_end hs'))
      else Some hs)"
  by pat_completeness auto
termination
proof (relation "measure (\<lambda>(buf, hdr, hdr_end, hs). hdr_end - hdr)", goal_cases)
  case (2 buf hdr hdr_end hs eol x2)
  then show ?case using skip_to_cr_mono [of hdr "take hdr_end buf"] by simp
qed simp

declare header_loop.simps [simp del]

section \<open>The parser\<close>

record http_resp =
  hr_status :: nat
  hr_retry_after_ms :: nat
  hr_keepalive :: bool
  hr_body_off :: nat
  hr_body_len :: nat

fun find_byte :: "u8 \<Rightarrow> u8 list \<Rightarrow> nat" where
  "find_byte c [] = 0"
| "find_byte c (b # s) = (if b = c then 0 else Suc (find_byte c s))"

definition resp_headers :: "u8 list \<Rightarrow> nat \<Rightarrow> (nat \<times> hdr_state) option" where
  "resp_headers buf body_off =
     (if length buf < 12 \<or> take 5 buf \<noteq> ascii ''HTTP/'' then None
      else let sp = 5 + find_byte 0x20 (take (body_off - 5) (drop 5 buf)) in
      if sp \<ge> body_off then None
      else let p = sp + 1 in
      if p + 3 > body_off \<or> \<not> is_digit (buf ! p) \<or> \<not> is_digit (buf ! (p + 1)) \<or> \<not> is_digit (buf ! (p + 2))
      then None
      else let http_status = digit_value (buf ! p) * 100 + digit_value (buf ! (p + 1)) * 10 + digit_value (buf ! (p + 2));
               keepalive = (buf ! 5 = 0x31 \<and> buf ! 6 = 0x2E \<and> buf ! 7 \<ge> 0x31);
               nl = find_byte 10 (take body_off buf) in
      if nl \<ge> body_off then None
      else (case header_loop buf (nl + 1) body_off
              \<lparr>hs_content_length = - 1, hs_cl_seen = False, hs_te_seen = False, hs_te_chunked = False,
               hs_retry_after_ms = 0, hs_keepalive = keepalive\<rparr> of
          None \<Rightarrow> None | Some hs \<Rightarrow> Some (http_status, hs)))"

definition otlp_http_resp_parse :: "u8 list \<Rightarrow> bool \<Rightarrow> int \<times> http_resp option \<times> u8 list" where
  "otlp_http_resp_parse buf at_eof =
     (case find_substring buf (CRLF @ CRLF) of
        None \<Rightarrow> (0, None, buf)
      | Some hdr_end_off \<Rightarrow>
         (let body_off = hdr_end_off + 4 in
          case resp_headers buf body_off of
            None \<Rightarrow> (- 1, None, buf)
          | Some (http_status, hs) \<Rightarrow>
              if hs_te_seen hs then
                (if hs_cl_seen hs \<or> \<not> hs_te_chunked hs then (- 1, None, buf)
                 else (case decode_chunked_in_place (drop body_off buf) of (rc, decoded, body) \<Rightarrow>
                   let buf' = take body_off buf @ body in
                   if rc = 0 then (0, None, buf')
                   else if rc < 0 then (- 1, None, buf')
                   else (1, Some \<lparr>hr_status = http_status, hr_retry_after_ms = hs_retry_after_ms hs,
                      hr_keepalive = hs_keepalive hs, hr_body_off = body_off, hr_body_len = decoded\<rparr>, buf')))
              else if hs_content_length hs \<ge> 0 then
                (if length buf - body_off < nat (hs_content_length hs) then (0, None, buf)
                 else (1, Some \<lparr>hr_status = http_status, hr_retry_after_ms = hs_retry_after_ms hs,
                    hr_keepalive = hs_keepalive hs, hr_body_off = body_off,
                    hr_body_len = nat (hs_content_length hs)\<rparr>, buf))
              else if \<not> at_eof then (0, None, buf)
              else (1, Some \<lparr>hr_status = http_status, hr_retry_after_ms = hs_retry_after_ms hs,
                 hr_keepalive = False, hr_body_off = body_off, hr_body_len = length buf - body_off\<rparr>, buf)))"

section \<open>Bounds\<close>

lemma scan_size_bounds:
  "scan_size buf i sz digits = Some (j, sz', digits') \<Longrightarrow> sz \<le> OTLP_HTTP_RESP_MAX \<Longrightarrow>
     sz' \<le> OTLP_HTTP_RESP_MAX"
proof (induction buf i sz digits rule: scan_size.induct)
  case (1 buf i sz digits)
  then show ?case
    by (subst (asm) (2) scan_size.simps) (fastforce split: if_splits option.splits)
qed

lemma skip_to_cr_spec:
  "skip_to_cr buf i < length buf \<Longrightarrow> buf ! skip_to_cr buf i = 13"
proof (induction buf i rule: skip_to_cr.induct)
  case (1 buf i)
  then show ?case
    by (cases "i < length buf \<and> buf ! i \<noteq> 13") (simp_all add: skip_to_cr.simps [of buf i] split: if_splits)
qed

text \<open>
  One round of the loop, as cases: what each verdict says of the bytes at the read position.
\<close>

lemma decode_chunked_bounds:
  assumes "decode_chunked_from buf src dst = (rc, n, buf')" and "dst \<le> src" and "src \<le> length buf"
  shows "rc \<in> {- 1, 0, 1} \<and> length buf' = length buf \<and> take dst buf' = take dst buf
    \<and> (rc = 1 \<longrightarrow> dst \<le> n \<and> n \<le> length buf)"
  using assms
proof (induction buf src dst rule: decode_chunked_from.induct)
  case (1 buf src dst)
  show ?case
  proof (cases "scan_size buf src 0 0")
    case None
    then show ?thesis using 1(2) by (auto simp: decode_chunked_from.simps [of buf src dst])
  next
    case (Some r)
    obtain le0 sz digits where r: "r = (le0, sz, digits)" by (rule prod_cases3)
    define le where "le = skip_to_cr buf le0"
    have mono: "src \<le> le0" "le0 \<le> le" using Some r scan_size_mono skip_to_cr_mono by (auto simp: le_def)
    note body = 1(2) [unfolded decode_chunked_from.simps [of buf src dst] Some r option.case prod.case Let_def,
        folded le_def]
    show ?thesis
    proof (cases "digits = 0 \<or> le0 \<ge> length buf \<or> le + 1 \<ge> length buf \<or> buf ! (le + 1) \<noteq> 10 \<or> sz = 0
        \<or> le + 2 + sz + 2 > length buf \<or> buf ! (le + 2 + sz) \<noteq> 13 \<or> buf ! (le + 2 + sz + 1) \<noteq> 10")
      case True
      then show ?thesis using body 1(3,4) by (auto split: if_splits option.splits)
    next
      case False
      let ?b = "memmove buf dst (le + 2) sz"
      have rec: "decode_chunked_from ?b (le + 2 + sz + 2) (dst + sz) = (rc, n, buf')"
        using body False by simp
      have ih: "rc \<in> {- 1, 0, 1} \<and> length buf' = length ?b \<and> take (dst + sz) buf' = take (dst + sz) ?b
          \<and> (rc = 1 \<longrightarrow> dst + sz \<le> n \<and> n \<le> length ?b)"
        using 1(1) [OF Some r [symmetric] refl _ le_def] rec False 1(3,4) mono by (simp add: r)
      have "take dst ?b = take dst buf"
        using 1(3,4) by (intro nth_equalityI) (auto simp: memmove_def)
      moreover have "take dst buf' = take dst (take (dst + sz) buf')" by simp
      ultimately show ?thesis using ih by (elim conjE) (intro conjI; auto)
    qed
  qed
qed

section \<open>The chunked grammar\<close>

text \<open>
  The reference grammar: a size line is one or more hexadecimal digits, an optional extension
  and CRLF; a chunk is a size line, that many bytes and CRLF; the body ends with a zero-size
  line and a trailer section.
\<close>

fun hex_digits_value :: "nat \<Rightarrow> u8 list \<Rightarrow> nat option" where
  "hex_digits_value acc [] = Some acc"
| "hex_digits_value acc (c # s) =
     (case hex_digit_value c of
        None \<Rightarrow> None
      | Some d \<Rightarrow> if acc * 16 + d > OTLP_HTTP_RESP_MAX then None else hex_digits_value (acc * 16 + d) s)"

definition size_line :: "u8 list \<Rightarrow> nat \<Rightarrow> bool" where
  "size_line l n \<longleftrightarrow> (\<exists>ds ext. l = ds @ ext @ CRLF \<and> ds \<noteq> [] \<and> hex_digits_value 0 ds = Some n
     \<and> 13 \<notin> set ext \<and> (ext \<noteq> [] \<longrightarrow> hd ext = 0x3B))"

definition trailer_section :: "u8 list \<Rightarrow> bool" where
  "trailer_section t \<longleftrightarrow> take 2 t = CRLF \<or> (2 \<le> length t \<and> find_substring t (CRLF @ CRLF) \<noteq> None)"

inductive chunked_body :: "u8 list \<Rightarrow> u8 list \<Rightarrow> bool" where
  last_chunk: "size_line l 0 \<Longrightarrow> trailer_section t \<Longrightarrow> chunked_body (l @ t) []"
| chunk: "size_line l (length d) \<Longrightarrow> d \<noteq> [] \<Longrightarrow> chunked_body rest body \<Longrightarrow>
    chunked_body (l @ d @ CRLF @ rest) (d @ body)"

lemma hex_digit_value_not_delim [simp]:
  "hex_digit_value 13 = None" "hex_digit_value 0x3B = None"
  by (simp_all add: hex_digit_value_def)

lemma scan_size_digits:
  assumes "hex_digits_value acc ds = Some n" and "drop i buf = ds @ rest"
    and "rest \<noteq> []" and "hd rest = 13 \<or> hd rest = 0x3B" and "i \<le> length buf"
  shows "scan_size buf i acc k = Some (i + length ds, n, k + length ds)"
  using assms
proof (induction ds arbitrary: acc i k)
  case Nil
  then have "i < length buf" by (metis append_Nil drop_all leI)
  moreover from this have "buf ! i = hd rest" using Nil by (metis append_Nil hd_drop_conv_nth)
  ultimately show ?case using Nil by (subst scan_size.simps) auto
next
  case (Cons c ds)
  have i: "i < length buf" using Cons.prems(2) by (metis append_Cons drop_all leI list.distinct(1))
  have c: "buf ! i = c" using Cons.prems(2) i by (metis append_Cons hd_drop_conv_nth list.sel(1))
  have d: "drop (Suc i) buf = ds @ rest"
    using Cons.prems(2) by (metis append_Cons drop_Suc list.sel(3) tl_drop)
  obtain v where v: "hex_digit_value c = Some v" "\<not> acc * 16 + v > OTLP_HTTP_RESP_MAX"
      "hex_digits_value (acc * 16 + v) ds = Some n"
    using Cons.prems(1) by (auto split: option.splits if_splits)
  have ne: "c \<noteq> 13" "c \<noteq> 0x3B" using v(1) by auto
  have "scan_size buf i acc k = scan_size buf (Suc i) (acc * 16 + v) (Suc k)"
    using i c v(1,2) ne by (subst scan_size.simps) simp
  then show ?case using Cons.IH [OF v(3) d Cons.prems(3,4)] i by simp
qed

lemma scan_size_sound:
  "scan_size buf i acc k = Some (j, n, k') \<Longrightarrow> i \<le> length buf \<Longrightarrow>
     \<exists>ds. drop i buf = ds @ drop j buf \<and> j = i + length ds \<and> j \<le> length buf \<and> k' = k + length ds
       \<and> hex_digits_value acc ds = Some n \<and> (j < length buf \<longrightarrow> buf ! j = 13 \<or> buf ! j = 0x3B)"
proof (induction buf i acc k rule: scan_size.induct)
  case (1 buf i acc k)
  show ?case
  proof (cases "i < length buf \<and> buf ! i \<noteq> 13 \<and> buf ! i \<noteq> 0x3B")
    case False
    then have "j = i" "n = acc" "k' = k" using 1(2) by (auto simp: scan_size.simps [of buf i])
    then show ?thesis using False 1(3) by (intro exI [of _ "[]"]) auto
  next
    case True
    then obtain v where v: "hex_digit_value (buf ! i) = Some v" "\<not> acc * 16 + v > OTLP_HTTP_RESP_MAX"
        "scan_size buf (i + 1) (acc * 16 + v) (k + 1) = Some (j, n, k')"
      using 1(2) by (subst (asm) scan_size.simps) (auto split: option.splits if_splits)
    obtain ds where ds: "drop (i + 1) buf = ds @ drop j buf" "j = i + 1 + length ds" "j \<le> length buf"
        "k' = k + 1 + length ds" "hex_digits_value (acc * 16 + v) ds = Some n"
        "j < length buf \<longrightarrow> buf ! j = 13 \<or> buf ! j = 0x3B"
      using 1(1) [OF True v(1,2,3)] True by auto
    have "drop i buf = (buf ! i # ds) @ drop j buf"
      using ds(1) True by (simp add: Cons_nth_drop_Suc [symmetric])
    then show ?thesis using ds v(1,2) by (intro exI [of _ "buf ! i # ds"]) auto
  qed
qed

lemma skip_to_cr_run:
  "drop i buf = ext @ 13 # rest \<Longrightarrow> 13 \<notin> set ext \<Longrightarrow> i \<le> length buf \<Longrightarrow> skip_to_cr buf i = i + length ext"
proof (induction ext arbitrary: i)
  case Nil
  then have "i < length buf \<and> buf ! i = 13"
    by (metis append_Nil drop_all hd_drop_conv_nth leI list.distinct(1) list.sel(1))
  then show ?case by (subst skip_to_cr.simps) simp
next
  case (Cons c ext)
  have i: "i < length buf" using Cons.prems(1) by (metis append_Cons drop_all leI list.distinct(1))
  have c: "buf ! i = c" using Cons.prems(1) i by (metis append_Cons hd_drop_conv_nth list.sel(1))
  have d: "drop (Suc i) buf = ext @ 13 # rest"
    using Cons.prems(1) by (metis append_Cons drop_Suc list.sel(3) tl_drop)
  show ?case using Cons.IH [OF d] Cons.prems i c by (subst skip_to_cr.simps) auto
qed

lemma skip_to_cr_sound:
  "i \<le> length buf \<Longrightarrow> \<exists>ext. drop i buf = ext @ drop (skip_to_cr buf i) buf \<and> 13 \<notin> set ext
     \<and> skip_to_cr buf i = i + length ext \<and> skip_to_cr buf i \<le> length buf"
proof (induction buf i rule: skip_to_cr.induct)
  case (1 buf i)
  show ?case
  proof (cases "i < length buf \<and> buf ! i \<noteq> 13")
    case True
    then obtain ext where "drop (i + 1) buf = ext @ drop (skip_to_cr buf (i + 1)) buf" "13 \<notin> set ext"
        "skip_to_cr buf (i + 1) = i + 1 + length ext" "skip_to_cr buf (i + 1) \<le> length buf"
      using 1 by auto
    then show ?thesis using True
      by (intro exI [of _ "buf ! i # ext"])
        (auto simp: skip_to_cr.simps [of buf i] Cons_nth_drop_Suc [symmetric])
  next
    case False
    then show ?thesis using 1 by (intro exI [of _ "[]"]) (auto simp: skip_to_cr.simps [of buf i])
  qed
qed

lemma size_line_run:
  assumes l: "size_line l n" and d: "drop src buf = l @ x" and src: "src \<le> length buf"
  obtains le0 digits where
    "scan_size buf src 0 0 = Some (le0, n, digits)" "digits \<noteq> 0" "le0 < length buf"
    "skip_to_cr buf le0 + 2 = src + length l" "skip_to_cr buf le0 + 1 < length buf"
    "buf ! (skip_to_cr buf le0 + 1) = 10" "drop (skip_to_cr buf le0 + 2) buf = x"
proof -
  obtain ds ext where e: "l = ds @ ext @ CRLF" "ds \<noteq> []" "hex_digits_value 0 ds = Some n" "13 \<notin> set ext"
      "ext \<noteq> [] \<longrightarrow> hd ext = 0x3B" using l by (auto simp: size_line_def)
  let ?z = "src + length ds" and ?le = "src + length ds + length ext"
  have len: "length buf = src + length l + length x" using d src by (metis add.assoc drop_all
        length_append length_drop le_add_diff_inverse)
  have scan: "scan_size buf src 0 0 = Some (src + length ds, n, 0 + length ds)"
  proof (rule scan_size_digits [OF e(3), of src buf "ext @ CRLF @ x"])
    show "hd (ext @ CRLF @ x) = 13 \<or> hd (ext @ CRLF @ x) = 0x3B"
      using e(5) by (cases "ext = []") (simp_all add: CRLF_def)
  qed (simp_all add: d src e(1) CRLF_def)
  have "drop ?z buf = drop (length ds) (drop src buf)" by (simp add: add.commute)
  then have d0: "drop ?z buf = ext @ 13 # 10 # x" unfolding d by (simp add: e(1) CRLF_def)
  have d1: "drop ?le buf = 13 # 10 # x"
    using d0 by (metis append_eq_conv_conj add.commute drop_drop)
  have skip: "skip_to_cr buf ?z = ?le"
    using skip_to_cr_run [OF d0 e(4)] len by (simp add: e(1))
  have d2: "drop (?le + 1) buf = 10 # x" using d1 by (metis Suc_eq_plus1 drop_Suc list.sel(3) tl_drop)
  have d3: "drop (?le + 2) buf = x" using d2 by (metis add_2_eq_Suc' Suc_eq_plus1 drop_Suc list.sel(3) tl_drop)
  have lt: "?le + 1 < length buf" using d2 by (metis drop_all leI list.distinct(1))
  have "buf ! (?le + 1) = 10" using d2 lt by (metis hd_drop_conv_nth list.sel(1))
  then show thesis using that [OF scan] skip d3 lt e(1,2) by (simp add: CRLF_def)
qed

lemma drop_memmove:
  "d + n \<le> k \<Longrightarrow> drop k (memmove buf d s n) = drop k buf"
  by (rule nth_equalityI) (auto simp: memmove_def)

lemma take_memmove:
  "d \<le> s \<Longrightarrow> s + n \<le> length buf \<Longrightarrow> take (d + n) (memmove buf d s n) = take d buf @ take n (drop s buf)"
  by (rule nth_equalityI) (auto simp: memmove_def nth_append)

lemma decode_last:
  assumes "size_line l 0" and "trailer_section t" and "drop src buf = l @ t" and "src \<le> length buf"
  shows "decode_chunked_from buf src dst = (1, dst, buf)"
proof -
  obtain le0 digits where r: "scan_size buf src 0 0 = Some (le0, 0, digits)" "digits \<noteq> 0" "le0 < length buf"
    "skip_to_cr buf le0 + 1 < length buf" "buf ! (skip_to_cr buf le0 + 1) = 10"
    "drop (skip_to_cr buf le0 + 2) buf = t"
    using size_line_run [OF assms(1,3,4)] by metis
  have "\<not> length t < 2 \<and> (t ! 0 = 13 \<and> t ! 1 = 10 \<or> find_substring t (CRLF @ CRLF) \<noteq> None)"
    using assms(2) by (cases t rule: list.exhaust; cases "tl t") (auto simp: trailer_section_def CRLF_def)
  then show ?thesis using r
    by (auto simp: decode_chunked_from.simps [of buf src dst] Let_def simp del: One_nat_def split: option.splits)
qed

lemma decode_round:
  assumes "size_line l (length d)" and "d \<noteq> []" and "drop src buf = l @ d @ CRLF @ rest" and "src \<le> length buf"
  shows "decode_chunked_from buf src dst
     = decode_chunked_from (memmove buf dst (src + length l) (length d)) (src + length l + length d + 2) (dst + length d)"
proof -
  obtain le0 digits where r: "scan_size buf src 0 0 = Some (le0, length d, digits)" "digits \<noteq> 0" "le0 < length buf"
    "skip_to_cr buf le0 + 2 = src + length l"
    "skip_to_cr buf le0 + 1 < length buf" "buf ! (skip_to_cr buf le0 + 1) = 10"
    "drop (skip_to_cr buf le0 + 2) buf = d @ CRLF @ rest"
    using size_line_run [OF assms(1,3,4)] by metis
  let ?p = "skip_to_cr buf le0 + 2"
  have d0: "drop (?p + length d) buf = 13 # 10 # rest"
    using r(7) by (metis CRLF_def append_Cons append_Nil append_eq_conv_conj add.commute drop_drop)
  have d1: "drop (?p + length d + 1) buf = 10 # rest"
    using d0 by (metis Suc_eq_plus1 drop_Suc list.sel(3) tl_drop)
  have lt: "?p + length d + 1 < length buf" using d1 by (metis drop_all leI list.distinct(1))
  have cr: "buf ! (?p + length d) = 13" using d0 lt by (metis add_lessD1 hd_drop_conv_nth list.sel(1))
  have lf: "buf ! (?p + length d + 1) = 10" using d1 lt by (metis hd_drop_conv_nth list.sel(1))
  show ?thesis
    using r(1-3,5,6) lt cr lf assms(2)
    by (simp add: decode_chunked_from.simps [of buf src dst] Let_def r(4) [symmetric] del: One_nat_def)
qed

lemma decode_complete:
  assumes "chunked_body s body"
  shows "drop src buf = s \<Longrightarrow> dst \<le> src \<Longrightarrow> src \<le> length buf \<Longrightarrow>
    \<exists>b'. decode_chunked_from buf src dst = (1, dst + length body, b')
      \<and> take (dst + length body) b' = take dst buf @ body"
  using assms
proof (induction s body arbitrary: buf src dst rule: chunked_body.induct)
  case (last_chunk l t)
  then show ?case using decode_last [of l t src buf dst] by auto
next
  case (chunk l d rest body)
  let ?b = "memmove buf dst (src + length l) (length d)" and ?s = "src + length l + length d + 2"
  have len: "length buf = src + length l + length d + 2 + length rest"
    using chunk.prems(1,3) by (metis (no_types, lifting) CRLF_def add.assoc add_2_eq_Suc' append_Cons
      append_Nil length_Cons length_append length_drop le_add_diff_inverse add_Suc_right Suc_eq_plus1 one_add_one)
  have d1: "drop (src + length l) buf = d @ CRLF @ rest"
    using chunk.prems(1) by (metis append_eq_conv_conj add.commute drop_drop)
  have "drop ?s buf = drop 2 (drop (length d) (drop (src + length l) buf))"
    by (simp add: add.commute add.left_commute)
  also have "\<dots> = rest" unfolding d1 by (simp add: CRLF_def)
  finally have "drop ?s buf = rest" .
  then have dr: "drop ?s ?b = rest" using chunk.prems(2) by (simp add: drop_memmove)
  have tk: "take (dst + length d) ?b = take dst buf @ d"
    using chunk.prems(2) len d1 by (subst take_memmove) auto
  have bs: "dst + length d \<le> ?s" "?s \<le> length ?b" using chunk.prems(2) len by simp_all
  obtain b' where "decode_chunked_from ?b ?s (dst + length d) = (1, dst + length d + length body, b')"
      "take (dst + length d + length body) b' = take (dst + length d) ?b @ body"
    using chunk.IH [OF dr bs] by blast
  then show ?case using decode_round [OF chunk.hyps(1,2) chunk.prems(1,3), of dst] tk
    by (simp add: add.assoc)
qed

text \<open>The converse: a verdict 1 comes from a last chunk or from a chunk and a further round.\<close>

lemma size_line_sound:
  assumes "scan_size buf src 0 0 = Some (le0, n, digits)" and "digits \<noteq> 0" and "le0 < length buf"
    and "skip_to_cr buf le0 + 1 < length buf" and "buf ! (skip_to_cr buf le0 + 1) = 10" and "src \<le> length buf"
  obtains l where "drop src buf = l @ drop (skip_to_cr buf le0 + 2) buf" "size_line l n"
    "skip_to_cr buf le0 + 2 = src + length l"
proof -
  let ?e = "skip_to_cr buf le0"
  obtain ds where ds: "drop src buf = ds @ drop le0 buf" "le0 = src + length ds" "digits = 0 + length ds"
      "hex_digits_value 0 ds = Some n" "buf ! le0 = 13 \<or> buf ! le0 = 0x3B"
    using scan_size_sound [OF assms(1,6)] assms(3) by blast
  obtain ext where ext: "drop le0 buf = ext @ drop ?e buf" "13 \<notin> set ext" "?e = le0 + length ext"
    using skip_to_cr_sound [of le0 buf] assms(3) by auto
  have cr: "buf ! ?e = 13" using assms(4) by (intro skip_to_cr_spec) simp
  have "drop ?e buf = [buf ! ?e, buf ! (?e + 1)] @ drop (?e + 2) buf"
    using assms(4) by (simp add: Cons_nth_drop_Suc)
  then have e: "drop ?e buf = CRLF @ drop (?e + 2) buf" using cr assms(5) by (simp add: CRLF_def)
  have hd: "ext \<noteq> [] \<longrightarrow> hd ext = 0x3B"
  proof
    assume ne: "ext \<noteq> []"
    then have "hd ext = buf ! le0" using ext(1) assms(3) by (metis hd_append2 hd_drop_conv_nth)
    moreover have "hd ext \<noteq> 13" using ext(2) ne by (metis hd_in_set)
    ultimately show "hd ext = 0x3B" using ds(5) by simp
  qed
  have ne: "ds \<noteq> []" using ds(3) assms(2) by auto
  have "drop src buf = (ds @ ext @ CRLF) @ drop (?e + 2) buf" using ds(1) ext(1) e by simp
  then show thesis
    by (rule that) (use ds ext hd ne in \<open>auto simp: size_line_def CRLF_def\<close>)
qed

lemma trailer_section_alt:
  "trailer_section t \<longleftrightarrow> \<not> length t < 2 \<and> (t ! 0 = 13 \<and> t ! 1 = 10 \<or> find_substring t (CRLF @ CRLF) \<noteq> None)"
  by (cases t; cases "tl t") (auto simp: trailer_section_def CRLF_def)

lemma decode_inv:
  assumes "decode_chunked_from buf src dst = (1, n, b')" and src: "src \<le> length buf"
  obtains (last) l t where "drop src buf = l @ t" "size_line l 0" "trailer_section t" "n = dst" "b' = buf"
  | (more) l d rest where "drop src buf = l @ d @ CRLF @ rest" "size_line l (length d)" "d \<noteq> []"
proof (cases "scan_size buf src 0 0")
  case None
  then show thesis using assms by (simp add: decode_chunked_from.simps [of buf src dst])
next
  case (Some r)
  obtain le0 sz digits where r: "r = (le0, sz, digits)" by (rule prod_cases3)
  let ?e = "skip_to_cr buf le0"
  note eq = assms(1) [unfolded decode_chunked_from.simps [of buf src dst] Some r option.case prod.case Let_def]
  have g: "digits \<noteq> 0" "le0 < length buf" "?e + 1 < length buf" "buf ! (?e + 1) = 10"
    using eq by (auto split: if_splits)
  obtain l where l: "drop src buf = l @ drop (?e + 2) buf" "size_line l sz" "?e + 2 = src + length l"
    using size_line_sound [OF Some [unfolded r] g src] by blast
  show thesis
  proof (cases "sz = 0")
    case True
    then have "trailer_section (drop (?e + 2) buf)" "n = dst" "b' = buf"
      using eq g by (auto simp: trailer_section_alt split: if_splits option.splits)
    then show thesis using last l True by simp
  next
    case False
    let ?d = "take sz (drop (?e + 2) buf)"
    have h: "?e + 2 + sz + 2 \<le> length buf" "buf ! (?e + 2 + sz) = 13" "buf ! (?e + 2 + sz + 1) = 10"
      using eq g False by (auto split: if_splits)
    have "drop (?e + 2 + sz) buf = [buf ! (?e + 2 + sz), buf ! (?e + 2 + sz + 1)] @ drop (?e + 2 + sz + 2) buf"
      using h(1) by (simp add: Cons_nth_drop_Suc)
    then have c: "drop (?e + 2 + sz) buf = CRLF @ drop (?e + 2 + sz + 2) buf"
      unfolding h(2,3) by (simp add: CRLF_def)
    have "drop (?e + 2) buf = ?d @ drop (?e + 2 + sz) buf"
      by (metis append_take_drop_id add.commute drop_drop)
    then have "drop src buf = l @ ?d @ CRLF @ drop (?e + 2 + sz + 2) buf" using l(1) c by simp
    moreover have "length ?d = sz" using h(1) by simp
    ultimately show thesis using more l(2) False by (metis length_0_conv)
  qed
qed

lemma drop_append_add: "drop s buf = xs @ ys \<Longrightarrow> drop (s + length xs) buf = ys"
  by (metis append_eq_conv_conj add.commute drop_drop)

lemma decode_sound:
  "decode_chunked_from buf src dst = (1, n, b') \<Longrightarrow> dst \<le> src \<Longrightarrow> src \<le> length buf \<Longrightarrow>
     \<exists>body. chunked_body (drop src buf) body"
proof (induction "length buf - src" arbitrary: buf src dst rule: less_induct)
  case less
  from less.prems(1,3) show ?case
  proof (cases rule: decode_inv)
    case (last l t)
    then show ?thesis using chunked_body.last_chunk by metis
  next
    case (more l d rest)
    let ?b = "memmove buf dst (src + length l) (length d)" and ?s = "src + length l + length d + 2"
    have dr: "drop ?s buf = rest"
      using drop_append_add [of src buf "l @ d @ CRLF" rest] more(1) by (simp add: CRLF_def add.assoc)
    have "length (drop src buf) \<ge> length l + length d + 2" unfolding more(1) by (simp add: CRLF_def)
    then have len: "?s \<le> length buf" using less.prems(3) by simp
    have lt: "length ?b - ?s < length buf - src" using len by simp
    have "decode_chunked_from ?b ?s (dst + length d) = (1, n, b')"
      using less.prems(1) decode_round [OF more(2,3,1) less.prems(3)] by simp
    moreover have "dst + length d \<le> ?s" "?s \<le> length ?b" using less.prems(2) len by simp_all
    ultimately obtain body where "chunked_body (drop ?s ?b) body"
      using less.hyps [OF lt] by blast
    moreover have "drop ?s ?b = rest" using dr less.prems(2) by (simp add: drop_memmove)
    ultimately show ?thesis using chunked_body.chunk [OF more(2,3)] more(1) by metis
  qed
qed

text \<open>
  C23. The in-place decoder accepts exactly the bodies of the chunked grammar: it answers 1 on
  a buffer if and only if the buffer is a sequence of chunks ended by a zero chunk and a
  trailer section, and then it leaves the concatenation of the chunk data at the front of the
  buffer and returns its length, although it moves data within the buffer it still reads.\<close>

theorem chunked_decoder_correct:
  "chunked_body buf body \<longleftrightarrow>
     (\<exists>n buf'. decode_chunked_in_place buf = (1, n, buf') \<and> n = length body \<and> take n buf' = body)"
  (is "_ \<longleftrightarrow> ?decodes body")
proof
  have complete: "?decodes b" if "chunked_body buf b" for b
    using decode_complete [OF that, of 0 buf 0] by (auto simp: decode_chunked_in_place_def)
  then show "chunked_body buf body \<Longrightarrow> ?decodes body" .
  assume "?decodes body"
  moreover from this obtain b where "chunked_body buf b"
    using decode_sound [of buf 0 0] by (auto simp: decode_chunked_in_place_def)
  ultimately show "chunked_body buf body" using complete by force
qed

section \<open>Framing of whole responses\<close>

text \<open>
  A response as the grammar of HTTP has it: a status line and header lines without line
  breaks, an empty line, and the body.
\<close>

definition message_head :: "u8 list \<Rightarrow> u8 list list \<Rightarrow> u8 list" where
  "message_head sl ls = sl @ CRLF @ concat (map (\<lambda>l. l @ CRLF) ls) @ CRLF"

definition line_ok :: "u8 list \<Rightarrow> bool" where
  "line_ok l \<longleftrightarrow> l \<noteq> [] \<and> 13 \<notin> set l \<and> 10 \<notin> set l"

definition status_line :: "u8 \<Rightarrow> u8 list \<Rightarrow> u8 list \<Rightarrow> u8 list" where
  "status_line v code reason = ascii ''HTTP/1.'' @ [v, 0x20] @ code @ reason"

definition status_ok :: "u8 \<Rightarrow> u8 list \<Rightarrow> u8 list \<Rightarrow> bool" where
  "status_ok v code reason \<longleftrightarrow> v \<notin> {13, 10, 0x20} \<and> length code = 3 \<and> (\<forall>c\<in>set code. is_digit c)
     \<and> 13 \<notin> set reason \<and> 10 \<notin> set reason"

definition code_value :: "u8 list \<Rightarrow> nat" where
  "code_value code = digit_value (code ! 0) * 100 + digit_value (code ! 1) * 10 + digit_value (code ! 2)"

text \<open>The header fields one after the other, each seen on its own.\<close>

fun fold_headers :: "u8 list list \<Rightarrow> hdr_state \<Rightarrow> hdr_state option" where
  "fold_headers [] hs = Some hs"
| "fold_headers (l # ls) hs =
     (case header_line l (length l) hs of None \<Rightarrow> None | Some hs' \<Rightarrow> fold_headers ls hs')"

definition hdr_init :: "bool \<Rightarrow> hdr_state" where
  "hdr_init keepalive = \<lparr>hs_content_length = - 1, hs_cl_seen = False, hs_te_seen = False,
     hs_te_chunked = False, hs_retry_after_ms = 0, hs_keepalive = keepalive\<rparr>"

lemma has_prefix_ci_line:
  assumes "13 \<notin> set (map ascii_lower needle)"
  shows "has_prefix_ci needle (l @ 13 # r) \<longleftrightarrow> has_prefix_ci needle l"
proof (cases "length needle \<le> length l")
  case True
  then show ?thesis by (simp add: has_prefix_ci_def)
next
  case False
  have "\<not> has_prefix_ci needle (l @ 13 # r)"
  proof
    assume "has_prefix_ci needle (l @ 13 # r)"
    then have e: "map ascii_lower (take (length needle) (l @ 13 # r)) = map ascii_lower needle"
      by (simp add: has_prefix_ci_def)
    have "map ascii_lower (take (length needle) (l @ 13 # r)) ! length l = 13"
      using False by (simp add: nth_append take_Cons' ascii_lower_def)
    then have "map ascii_lower needle ! length l = 13" using e by simp
    then show False using assms False by (metis length_map linorder_not_le nth_mem)
  qed
  moreover have "\<not> has_prefix_ci needle l"
    using False by (auto simp: has_prefix_ci_def dest: arg_cong [where f = length])
  ultimately show ?thesis by simp
qed

lemma header_line_own:
  "header_line (l @ 13 # r) (length l) hs = header_line l (length l) hs"
proof -
  have "13 \<notin> set (map ascii_lower (ascii ''Content-Length:''))"
    "13 \<notin> set (map ascii_lower (ascii ''Transfer-Encoding:''))"
    "13 \<notin> set (map ascii_lower (ascii ''Retry-After:''))"
    "13 \<notin> set (map ascii_lower (ascii ''Connection:''))"
    by (simp_all add: ascii_def ascii_lower_def)
  note n = this [THEN has_prefix_ci_line]
  show ?thesis by (simp add: header_line_def n)
qed

lemma header_loop_step:
  assumes "drop h buf = l @ 13 # r" and "13 \<notin> set l" and "h + length l < e" and "e \<le> length buf"
  shows "header_loop buf h e hs =
    (case header_line l (length l) hs of None \<Rightarrow> None | Some hs' \<Rightarrow> header_loop buf (h + length l + 2) e hs')"
proof -
  have "drop h (take e buf) = l @ 13 # take (e - h - length l - 1) r"
    using assms by (simp add: drop_take take_append take_Cons')
  then have "skip_to_cr (take e buf) h = h + length l"
    using skip_to_cr_run [of h "take e buf" l] assms by simp
  then show ?thesis
    using assms by (simp add: header_loop.simps [of buf h] Let_def header_line_own cong: option.case_cong)
qed

lemma header_line_empty [simp]: "header_line [] 0 hs = Some hs"
  by (simp add: header_line_def has_prefix_ci_def ascii_def)

lemma header_loop_lines:
  assumes "\<forall>l\<in>set ls. line_ok l" and "drop h buf = concat (map (\<lambda>l. l @ CRLF) ls) @ CRLF @ body"
    and "e = length buf - length body" and "h \<le> length buf"
  shows "header_loop buf h e hs = fold_headers ls hs"
  using assms
proof (induction ls arbitrary: h hs)
  case Nil
  have len: "length buf = h + 2 + length body"
    using arg_cong [OF Nil(2), of length] Nil(4) by (simp add: CRLF_def)
  have "header_loop buf h e hs = header_loop buf (h + 2) e hs"
    using header_loop_step [of h buf "[]" "10 # body" e hs] Nil(2,3) len by (simp add: CRLF_def)
  moreover have "header_loop buf (h + 2) e hs = Some hs"
    by (subst header_loop.simps) (use Nil(3) len in simp)
  ultimately show ?case by simp
next
  case (Cons l ls)
  let ?rest = "concat (map (\<lambda>l. l @ CRLF) ls) @ CRLF @ body"
  have len: "length buf = h + length l + 2 + length ?rest"
    using arg_cong [OF Cons.prems(2), of length] Cons.prems(4) by (simp add: CRLF_def)
  have "drop (h + length l + 2) buf = ?rest"
    using drop_append_add [of h buf "l @ CRLF" ?rest] Cons.prems(2) by (simp add: CRLF_def add.assoc)
  then have "header_loop buf (h + length l + 2) e hs' = fold_headers ls hs'" for hs'
    using Cons.IH Cons.prems(1,3) len by simp
  moreover have "header_loop buf h e hs =
    (case header_line l (length l) hs of None \<Rightarrow> None | Some hs' \<Rightarrow> header_loop buf (h + length l + 2) e hs')"
    by (rule header_loop_step [of h buf l "10 # ?rest"])
      (use Cons.prems len in \<open>simp_all add: CRLF_def line_ok_def\<close>)
  ultimately show ?case by (simp cong: option.case_cong)
qed

lemma find_skip:
  "13 \<notin> set l \<Longrightarrow> find_substring (l @ X) (CRLF @ CRLF) = map_option ((+) (length l)) (find_substring X (CRLF @ CRLF))"
proof (induction l)
  case (Cons c l)
  then show ?case by (simp add: CRLF_def option.map_comp comp_def)
qed (cases "find_substring X (CRLF @ CRLF)"; simp)

lemma find_skip_crlf:
  "X \<noteq> [] \<Longrightarrow> hd X \<noteq> 13 \<Longrightarrow>
     find_substring (CRLF @ X) (CRLF @ CRLF) = map_option ((+) 2) (find_substring X (CRLF @ CRLF))"
  by (cases X) (auto simp: CRLF_def option.map_comp comp_def)

lemma find_here: "find_substring (CRLF @ CRLF @ X) (CRLF @ CRLF) = Some 0"
  by (simp add: CRLF_def)

lemma find_head_end:
  assumes "13 \<notin> set sl" and "\<forall>l\<in>set ls. line_ok l"
  shows "find_substring (message_head sl ls @ body) (CRLF @ CRLF) = Some (length (message_head sl ls) - 4)"
  using assms
proof (induction ls arbitrary: sl)
  case Nil
  then show ?case by (simp add: message_head_def find_skip find_here) (simp add: CRLF_def)
next
  case (Cons l ls)
  have h: "message_head sl (l # ls) = sl @ CRLF @ message_head l ls" by (simp add: message_head_def)
  have l: "13 \<notin> set l" "l \<noteq> []" using Cons.prems(2) by (auto simp: line_ok_def)
  then have "hd (message_head l ls @ body) \<noteq> 13" "message_head l ls @ body \<noteq> []"
    by (auto simp: message_head_def hd_append) (metis hd_in_set)
  then have "find_substring (message_head sl (l # ls) @ body) (CRLF @ CRLF)
      = map_option ((+) (length sl + 2)) (find_substring (message_head l ls @ body) (CRLF @ CRLF))"
    by (cases "find_substring (message_head l ls @ body) (CRLF @ CRLF)")
      (simp_all add: h find_skip Cons.prems(1) find_skip_crlf)
  also have "\<dots> = Some (length sl + 2 + (length (message_head l ls) - 4))"
    using Cons.IH [OF l(1)] Cons.prems(2) by simp
  also have "length sl + 2 + (length (message_head l ls) - 4) = length (message_head sl (l # ls)) - 4"
    by (simp add: h) (simp add: message_head_def CRLF_def)
  finally show ?case .
qed

lemma find_byte_at: "c \<notin> set xs \<Longrightarrow> find_byte c (xs @ c # ys) = length xs"
  by (induction xs) auto

lemma resp_headers_message:
  assumes ok: "status_ok v code reason" and ls: "\<forall>l\<in>set ls. line_ok l"
  defines "sl \<equiv> status_line v code reason"
  shows "resp_headers (message_head sl ls @ body) (length (message_head sl ls))
     = map_option (Pair (code_value code)) (fold_headers ls (hdr_init (v \<ge> 0x31)))"
proof -
  let ?buf = "message_head sl ls @ body" and ?n = "length (message_head sl ls)"
  obtain a b c where code: "code = [a, b, c]" and d: "is_digit a" "is_digit b" "is_digit c"
    using ok unfolding status_ok_def by (auto simp: length_Suc_conv numeral_3_eq_3)
  define tl where "tl = reason @ CRLF @ concat (map (\<lambda>l. l @ CRLF) ls) @ CRLF"
  have head: "message_head sl ls = [0x48, 0x54, 0x54, 0x50, 0x2F, 0x31, 0x2E, v, 0x20, a, b, c] @ tl"
    by (simp add: sl_def status_line_def message_head_def tl_def ascii_def code)
  have vn: "v \<noteq> 0x20" "v \<noteq> 10" using ok by (auto simp: status_ok_def)
  have n: "?n = 12 + length tl" by (simp add: head)
  have sp: "find_byte 0x20 (drop 5 (message_head sl ls)) = 3"
    using vn by (simp add: head)
  have dig: "x \<noteq> 10" if "is_digit x" for x using that by (auto simp: is_digit_def)
  have sl10: "10 \<notin> set (sl @ [13])" using ok d dig
    by (auto simp: sl_def status_line_def status_ok_def code ascii_def)
  have "message_head sl ls = (sl @ [13]) @ 10 # concat (map (\<lambda>l. l @ CRLF) ls) @ CRLF"
    by (simp add: message_head_def CRLF_def)
  then have nl: "find_byte 10 (message_head sl ls) = length sl + 1" using find_byte_at [OF sl10] by simp
  have len: "?n > length sl + 1" "length sl + 2 \<le> length ?buf" by (simp_all add: message_head_def CRLF_def)
  have loop: "header_loop ?buf (length sl + 1 + 1) ?n hs = fold_headers ls hs" for hs
    by (rule header_loop_lines [OF ls, of _ _ body]) (simp_all add: message_head_def CRLF_def)
  have v8: "?buf ! 5 = 0x31 \<and> ?buf ! 6 = 0x2E \<and> ?buf ! 7 \<ge> 0x31 \<longleftrightarrow> v \<ge> 0x31"
    "?buf ! 9 = a" "?buf ! 10 = b" "?buf ! 11 = c" "take 5 (message_head sl ls) = ascii ''HTTP/''"
    by (simp_all add: head ascii_def)
  show ?thesis
    using d len n loop
    by (simp add: resp_headers_def sp nl v8 Let_def hdr_init_def code_value_def code split: option.split)
qed

text \<open>
  The parser on a response, with the verdict of its header fields: what the framing rules do
  with the bytes received so far.
\<close>

definition framed :: "u8 list \<Rightarrow> u8 list \<Rightarrow> bool \<Rightarrow> nat \<Rightarrow> hdr_state \<Rightarrow> int \<times> http_resp option \<times> u8 list" where
  "framed head body at_eof st hs =
     (if hs_te_seen hs then
        (if hs_cl_seen hs \<or> \<not> hs_te_chunked hs then (- 1, None, head @ body)
         else (case decode_chunked_in_place body of (rc, decoded, body') \<Rightarrow>
           (rc, if rc = 1 then Some \<lparr>hr_status = st, hr_retry_after_ms = hs_retry_after_ms hs,
                  hr_keepalive = hs_keepalive hs, hr_body_off = length head, hr_body_len = decoded\<rparr> else None,
            head @ body')))
      else if hs_content_length hs \<ge> 0 then
        (if length body < nat (hs_content_length hs) then (0, None, head @ body)
         else (1, Some \<lparr>hr_status = st, hr_retry_after_ms = hs_retry_after_ms hs, hr_keepalive = hs_keepalive hs,
            hr_body_off = length head, hr_body_len = nat (hs_content_length hs)\<rparr>, head @ body))
      else if \<not> at_eof then (0, None, head @ body)
      else (1, Some \<lparr>hr_status = st, hr_retry_after_ms = hs_retry_after_ms hs, hr_keepalive = False,
         hr_body_off = length head, hr_body_len = length body\<rparr>, head @ body))"

lemma parse_message:
  assumes ok: "status_ok v code reason" and ls: "\<forall>l\<in>set ls. line_ok l"
  defines "head \<equiv> message_head (status_line v code reason) ls"
  shows "otlp_http_resp_parse (head @ body) at_eof =
    (case fold_headers ls (hdr_init (v \<ge> 0x31)) of
       None \<Rightarrow> (- 1, None, head @ body)
     | Some hs \<Rightarrow> framed head body at_eof (code_value code) hs)"
proof -
  have sl: "13 \<notin> set (status_line v code reason)"
    using ok by (auto simp: status_line_def status_ok_def ascii_def is_digit_def)
  have f: "find_substring (head @ body) (CRLF @ CRLF) = Some (length head - 4)"
    unfolding head_def by (rule find_head_end [OF sl ls])
  have n: "length head - 4 + 4 = length head" by (simp add: head_def message_head_def CRLF_def)
  have r: "resp_headers (head @ body) (length head)
      = map_option (Pair (code_value code)) (fold_headers ls (hdr_init (v \<ge> 0x31)))"
    unfolding head_def by (rule resp_headers_message [OF ok ls])
  obtain rc k b' where d: "decode_chunked_in_place body = (rc, k, b')" by (rule prod_cases3)
  have rc: "rc \<in> {- 1, 0, 1}"
    using decode_chunked_bounds [of body 0 0 rc k b'] d by (simp add: decode_chunked_in_place_def)
  show ?thesis
    using rc by (auto simp: otlp_http_resp_parse_def f n r framed_def d Let_def split: option.split)
qed

text \<open>A field of the framing, once seen, stays seen.\<close>

lemma header_line_mono:
  "header_line s n hs = Some hs' \<Longrightarrow> (hs_cl_seen hs \<longrightarrow> hs_cl_seen hs') \<and> (hs_te_seen hs \<longrightarrow> hs_te_seen hs')"
  by (auto simp: header_line_def Let_def split: if_splits option.splits)

lemma header_line_sets:
  "header_line s n hs = Some hs' \<Longrightarrow> has_prefix_ci (ascii ''Content-Length:'') s \<Longrightarrow> hs_cl_seen hs'"
  "header_line s n hs = Some hs' \<Longrightarrow> has_prefix_ci (ascii ''Transfer-Encoding:'') s
     \<Longrightarrow> \<not> has_prefix_ci (ascii ''Content-Length:'') s \<Longrightarrow> hs_te_seen hs'"
  by (auto simp: header_line_def Let_def split: if_splits option.splits)

lemma fold_headers_mono:
  "fold_headers ls hs = Some hs' \<Longrightarrow> (hs_cl_seen hs \<longrightarrow> hs_cl_seen hs') \<and> (hs_te_seen hs \<longrightarrow> hs_te_seen hs')"
  by (induction ls arbitrary: hs) (auto split: option.splits dest: header_line_mono)

lemma te_not_cl:
  "has_prefix_ci (ascii ''Transfer-Encoding:'') s \<Longrightarrow> \<not> has_prefix_ci (ascii ''Content-Length:'') s"
  by (cases s) (auto simp: has_prefix_ci_def ascii_def ascii_lower_def)

lemma fold_headers_sets:
  "fold_headers ls hs = Some hs' \<Longrightarrow> l \<in> set ls \<Longrightarrow>
     (has_prefix_ci (ascii ''Content-Length:'') l \<longrightarrow> hs_cl_seen hs')
     \<and> (has_prefix_ci (ascii ''Transfer-Encoding:'') l \<longrightarrow> hs_te_seen hs')"
proof (induction ls arbitrary: hs)
  case (Cons k ls)
  then obtain h1 where h1: "header_line k (length k) hs = Some h1" "fold_headers ls h1 = Some hs'"
    by (auto split: option.splits)
  show ?case
  proof (cases "l = k")
    case True
    then show ?thesis using header_line_sets [OF h1(1)] fold_headers_mono [OF h1(2)] te_not_cl by blast
  next
    case False
    then show ?thesis using Cons.IH [OF h1(2)] Cons.prems(2) by simp
  qed
qed simp

text \<open>
  C37. A response whose header fields carry both a Content-Length and a Transfer-Encoding, in
  any order, in any letter case, any number of times and beside any other fields, is rejected
  before a byte of its body is looked at: the request-smuggling ambiguity never reaches a
  body.\<close>

theorem http_smuggling_rejected:
  assumes "status_ok v code reason" and "\<forall>l\<in>set ls. line_ok l"
    and "l1 \<in> set ls" and "has_prefix_ci (ascii ''Content-Length:'') l1"
    and "l2 \<in> set ls" and "has_prefix_ci (ascii ''Transfer-Encoding:'') l2"
  shows "otlp_http_resp_parse (message_head (status_line v code reason) ls @ body) at_eof
    = (- 1, None, message_head (status_line v code reason) ls @ body)"
  using parse_message [OF assms(1,2)] fold_headers_sets [OF _ assms(3)] fold_headers_sets [OF _ assms(5)] assms(4,6)
  by (auto simp: framed_def split: option.split)

theorem http_smuggling_rejected_witness:
  "otlp_http_resp_parse (message_head (status_line 0x31 [0x32, 0x30, 0x30] [])
      [ascii ''content-length: 0'', ascii ''Transfer-Encoding: chunked''] @ []) False
    = (- 1, None, message_head (status_line 0x31 [0x32, 0x30, 0x30] [])
      [ascii ''content-length: 0'', ascii ''Transfer-Encoding: chunked''] @ [])"
  by (rule http_smuggling_rejected [of _ _ _ _ "ascii ''content-length: 0''" "ascii ''Transfer-Encoding: chunked''"])
    (simp_all add: status_ok_def line_ok_def has_prefix_ci_def is_digit_def ascii_def ascii_lower_def)

text \<open>
  A response framed by Content-Length is accepted exactly when all its body bytes are in
  the buffer: with the header fields read, every shorter prefix asks for more and leaves the
  buffer alone, and from then on the parser hands out the status, the retry hint and precisely
  the announced bytes after the empty line, however many bytes follow and whether or not the
  peer closed.\<close>

theorem http_content_length_framing:
  assumes "status_ok v code reason" and "\<forall>l\<in>set ls. line_ok l"
    and "fold_headers ls (hdr_init (v \<ge> 0x31)) = Some hs" and "\<not> hs_te_seen hs" and "hs_content_length hs = int n"
  shows "otlp_http_resp_parse (message_head (status_line v code reason) ls @ received) at_eof =
    (if length received < n then (0, None, message_head (status_line v code reason) ls @ received)
     else (1, Some \<lparr>hr_status = code_value code, hr_retry_after_ms = hs_retry_after_ms hs, hr_keepalive = hs_keepalive hs,
         hr_body_off = length (message_head (status_line v code reason) ls), hr_body_len = n\<rparr>,
       message_head (status_line v code reason) ls @ received))"
  using parse_message [OF assms(1,2)] assms(3-5) by (simp add: framed_def)

theorem http_content_length_framing_witness:
  "otlp_http_resp_parse (message_head (status_line 0x31 [0x35, 0x30, 0x33] (ascii '' Busy''))
      [ascii ''Retry-After: 2'', ascii ''CONTENT-LENGTH: 3''] @ ascii ''abc'') False =
    (1, Some \<lparr>hr_status = 503, hr_retry_after_ms = 2000, hr_keepalive = True, hr_body_off = 56, hr_body_len = 3\<rparr>,
     message_head (status_line 0x31 [0x35, 0x30, 0x33] (ascii '' Busy''))
      [ascii ''Retry-After: 2'', ascii ''CONTENT-LENGTH: 3''] @ ascii ''abc'')"
proof -
  let ?ls = "[ascii ''Retry-After: 2'', ascii ''CONTENT-LENGTH: 3'']"
  have fold: "fold_headers ?ls (hdr_init ((0x31::u8) \<ge> 0x31)) = Some \<lparr>hs_content_length = int 3, hs_cl_seen = True,
      hs_te_seen = False, hs_te_chunked = False, hs_retry_after_ms = 2000, hs_keepalive = True\<rparr>"
    by (simp add: hdr_init_def header_line_def has_prefix_ci_def ascii_def ascii_lower_def is_digit_def
        digit_value_def OTLP_HTTP_RESP_MAX_def OTLP_RETRY_AFTER_MAX_S_def)
  show ?thesis
    by (subst http_content_length_framing [OF _ _ fold, where n = 3])
      (simp_all add: status_ok_def line_ok_def is_digit_def ascii_def code_value_def digit_value_def
        message_head_def status_line_def CRLF_def)
qed

lemma find_substring_bound:
  "find_substring hay needle = Some k \<Longrightarrow> k + length needle \<le> length hay"
proof (induction hay arbitrary: k)
  case (Cons b hay)
  show ?case
  proof (cases "take (length needle) (b # hay) = needle")
    case True
    then have "length needle \<le> length (b # hay)"
      by (metis length_take min.cobounded1)
    then show ?thesis using Cons.prems True by simp
  next
    case False
    then show ?thesis using Cons.prems Cons.IH by auto
  qed
qed (simp split: if_splits)

definition hdr_ok :: "hdr_state \<Rightarrow> bool" where
  "hdr_ok hs \<longleftrightarrow> hs_retry_after_ms hs \<le> 4294967000 \<and> hs_content_length hs \<le> int OTLP_HTTP_RESP_MAX"

lemma cl_value_bound: "cl_value s a = Some val \<Longrightarrow> a \<le> OTLP_HTTP_RESP_MAX \<Longrightarrow> val \<le> OTLP_HTTP_RESP_MAX"
  by (induction s arbitrary: a) (auto simp: Let_def split: if_splits)

lemma header_line_ok: "header_line s n hs = Some hs' \<Longrightarrow> hdr_ok hs \<Longrightarrow> hdr_ok hs'"
  by (auto simp: header_line_def hdr_ok_def Let_def OTLP_RETRY_AFTER_MAX_S_def dest: cl_value_bound
      split: if_splits option.splits)

lemma header_loop_ok: "header_loop buf h e hs = Some hs' \<Longrightarrow> hdr_ok hs \<Longrightarrow> hdr_ok hs'"
proof (induction buf h e hs rule: header_loop.induct)
  case (1 buf h e hs)
  show ?case
  proof (cases "h < e")
    case True
    let ?eol = "skip_to_cr (take e buf) h"
    obtain h1 where h1: "\<not> ?eol \<ge> e" "header_line (drop h buf) (?eol - h) hs = Some h1"
        "header_loop buf (?eol + 2) e h1 = Some hs'"
      using 1(2) True by (subst (asm) header_loop.simps) (auto simp: Let_def split: if_splits option.splits)
    then show ?thesis using 1(1) [OF True refl h1(1,2)] header_line_ok 1(3) by blast
  next
    case False
    then show ?thesis using 1(2,3) by (subst (asm) header_loop.simps) simp
  qed
qed

lemma resp_headers_ok:
  assumes "resp_headers buf off = Some (st, hs)"
  shows "st \<le> 999 \<and> hdr_ok hs"
proof -
  have dig: "digit_value c \<le> 9" if "is_digit c" for c
    using that by (simp add: is_digit_def digit_value_def word_le_nat_alt) arith
  obtain a b c h ka where "is_digit a" "is_digit b" "is_digit c"
      "st = digit_value a * 100 + digit_value b * 10 + digit_value c"
      and loop: "header_loop buf h off (hdr_init ka) = Some hs"
    using assms by (auto simp: resp_headers_def Let_def hdr_init_def split: if_splits option.splits)
  then have "st \<le> 999" using dig [of a] dig [of b] dig [of c] by simp
  moreover have "hdr_ok (hdr_init ka)" by (simp add: hdr_ok_def hdr_init_def OTLP_HTTP_RESP_MAX_def)
  ultimately show ?thesis using header_loop_ok [OF loop] by simp
qed

text \<open>
  Whatever the bytes received, the parser keeps the length of the buffer and the whole
  header block, hands out a result exactly with verdict 1, and what it hands out is inside the
  buffer: the body lies between the header block and the end, the status has three digits, and
  the retry hint in milliseconds fits 32 bits.\<close>

theorem http_parse_stays_in_bounds:
  "case otlp_http_resp_parse buf at_eof of (rc, out, buf') \<Rightarrow>
     length buf' = length buf \<and>
     (case out of
        None \<Rightarrow> rc \<in> {- 1, 0}
      | Some r \<Rightarrow> rc = 1 \<and> 4 \<le> hr_body_off r \<and> hr_body_off r + hr_body_len r \<le> length buf
          \<and> take (hr_body_off r) buf' = take (hr_body_off r) buf
          \<and> hr_status r \<le> 999 \<and> hr_retry_after_ms r < 2 ^ 32)"
proof (cases "find_substring buf (CRLF @ CRLF)")
  case None
  then show ?thesis by (simp add: otlp_http_resp_parse_def)
next
  case (Some k)
  have k: "k + 4 \<le> length buf" using find_substring_bound [OF Some] by (simp add: CRLF_def)
  show ?thesis
  proof (cases "resp_headers buf (k + 4)")
    case None
    then show ?thesis by (simp add: otlp_http_resp_parse_def Some Let_def)
  next
    case sh: (Some r)
    obtain st hs where r: "r = (st, hs)" by (cases r)
    have st: "st \<le> 999" "hs_retry_after_ms hs < 2 ^ 32"
      using resp_headers_ok [OF sh [unfolded r]] by (simp_all add: hdr_ok_def)
    obtain rc n b' where d: "decode_chunked_in_place (drop (k + 4) buf) = (rc, n, b')" by (rule prod_cases3)
    have b: "rc \<in> {- 1, 0, 1}" "length b' = length buf - (k + 4)" "rc = 1 \<longrightarrow> n \<le> length buf - (k + 4)"
      using decode_chunked_bounds [of "drop (k + 4) buf" 0 0 rc n b'] d by (auto simp: decode_chunked_in_place_def)
    show ?thesis
      using k b st by (auto simp: otlp_http_resp_parse_def Some sh r d Let_def)
  qed
qed

text \<open>
  Reading a chunked response in two pieces can destroy it. With the first chunk and a part
  of the second in the buffer, the parser asks for more bytes, but it has already moved the
  first chunk's data over that chunk's framing; parsing the same buffer again when the rest has
  arrived starts at the moved data and reports a malformed response, while the very same bytes
  received in one piece are accepted.\<close>

theorem http_chunked_reread_corrupts:
  "\<exists>head first rest buf'.
     length (head @ first @ rest) \<le> 4096 \<and>
     otlp_http_resp_parse (head @ first) False = (0, None, buf') \<and>
     fst (otlp_http_resp_parse (buf' @ rest) False) = - 1 \<and>
     fst (otlp_http_resp_parse (head @ first @ rest) False) = 1"
proof -
  let ?first = "ascii ''1'' @ CRLF @ ascii ''x'' @ CRLF" and ?rest = "ascii ''0'' @ CRLF @ CRLF"
  let ?moved = "ascii ''x'' @ CRLF @ ascii ''x'' @ CRLF"
  let ?ls = "[ascii ''Transfer-Encoding: chunked'']" and ?sl = "status_line 0x31 [0x32, 0x30, 0x30] []"
  have ok: "status_ok 0x31 [0x32, 0x30, 0x30] []" "\<forall>l\<in>set ?ls. line_ok l"
    by (simp_all add: status_ok_def line_ok_def is_digit_def ascii_def)
  have fold: "fold_headers ?ls (hdr_init ((0x31::u8) \<ge> 0x31)) = Some \<lparr>hs_content_length = - 1, hs_cl_seen = False,
      hs_te_seen = True, hs_te_chunked = True, hs_retry_after_ms = 0, hs_keepalive = True\<rparr>"
    by (simp add: hdr_init_def header_line_def has_prefix_ci_def ascii_def ascii_lower_def)
  note parse = parse_message [OF ok, unfolded fold option.case]
  note ev = decode_chunked_in_place_def decode_chunked_from.simps scan_size.simps skip_to_cr.simps CRLF_def
    ascii_def OTLP_HTTP_RESP_MAX_def hex_digit_value_def memmove_def Let_def upt_rec
  have "decode_chunked_in_place ?first = (0, 0, ?moved)" by (simp add: ev)
  moreover have "fst (decode_chunked_in_place (?moved @ ?rest)) = - 1" by (simp add: ev)
  moreover have "fst (decode_chunked_in_place (?first @ ?rest)) = 1" by (simp add: ev)
  ultimately have "otlp_http_resp_parse (message_head ?sl ?ls @ ?first) False = (0, None, message_head ?sl ?ls @ ?moved)"
    "fst (otlp_http_resp_parse ((message_head ?sl ?ls @ ?moved) @ ?rest) False) = - 1"
    "fst (otlp_http_resp_parse (message_head ?sl ?ls @ ?first @ ?rest) False) = 1"
    unfolding append_assoc parse by (simp_all add: framed_def split_beta)
  moreover have "length (message_head ?sl ?ls @ ?first @ ?rest) \<le> 4096"
    by (simp add: message_head_def status_line_def ascii_def CRLF_def)
  ultimately show ?thesis by blast
qed

end
