(* ===== verification/Mpsc_Queue.thy ===== *)
theory Mpsc_Queue
  imports Otlp_Prelude
begin

text \<open>
  The lock-free bounded multi-producer single-consumer ring of \<^verbatim>\<open>src/mpsc_queue.c\<close>, twice:
  as the functions a single thread sees (init, push, pop, size), and as a step relation in
  which any number of producers and the consumer interleave between any two atomic accesses.
  The first is shown to be a bounded FIFO (the locale \<open>bounded_fifo\<close> is the interface the
  exporter relies on); the second never loses, duplicates or reorders an item.

  Atomic accesses are interleaved one at a time (sequential consistency); the acquire and
  release orders of the code are what makes its plain accesses to \<^verbatim>\<open>slot->data\<close> fit this
  picture. Turn numbers are 64-bit words; the statements hold for the first \<open>2^62\<close> turns,
  because the signed comparison \<^verbatim>\<open>(int64_t) seq - (int64_t) h\<close> overflows past \<open>2^63\<close>.
\<close>

section \<open>The queue\<close>

record 'a mpsc_slot =
  sl_seq :: u64
  sl_data :: "'a option"

record 'a mpsc_queue =
  q_slots :: "'a mpsc_slot list"
  q_mask :: u64
  q_head :: u64
  q_tail :: u64

definition is_pow2 :: "u64 \<Rightarrow> bool" where
  "is_pow2 n \<longleftrightarrow> n > 0 \<and> n AND (n - 1) = 0"

definition SIZEOF_SLOT :: nat where "SIZEOF_SLOT = 16"

definition mpsc_queue_init ::
  "'m allocator \<Rightarrow> u64 \<Rightarrow> 'm \<Rightarrow> status \<times> 'a mpsc_queue option \<times> 'm" where
  "mpsc_queue_init A capacity m =
     (if \<not> is_pow2 capacity then (OTLP_ERR_INVALID_ARGUMENT, None, m)
      else if unat capacity > SIZE_MAX div SIZEOF_SLOT then (OTLP_ERR_INVALID_ARGUMENT, None, m)
      else (case a_alloc A (unat capacity * SIZEOF_SLOT) m of
        (False, m') \<Rightarrow> (OTLP_ERR_NOMEM, None, m')
      | (True, m') \<Rightarrow>
          (OTLP_OK,
           Some \<lparr>q_slots = map (\<lambda>i. \<lparr>sl_seq = word_of_nat i, sl_data = None\<rparr>) [0..<unat capacity],
                 q_mask = capacity - 1, q_head = 0, q_tail = 0\<rparr>, m')))"

definition slot_idx :: "'a mpsc_queue \<Rightarrow> u64 \<Rightarrow> nat" where
  "slot_idx q h = unat (h AND q_mask q)"

definition slot_of :: "'a mpsc_queue \<Rightarrow> u64 \<Rightarrow> 'a mpsc_slot" where
  "slot_of q h = q_slots q ! slot_idx q h"

text \<open>\<^verbatim>\<open>(int64_t) seq - (int64_t) h\<close>\<close>

definition seq_diff :: "u64 \<Rightarrow> u64 \<Rightarrow> int" where
  "seq_diff seq h = sint seq - sint h"

definition set_slot :: "'a mpsc_queue \<Rightarrow> u64 \<Rightarrow> ('a mpsc_slot \<Rightarrow> 'a mpsc_slot) \<Rightarrow> 'a mpsc_queue" where
  "set_slot q h f = q\<lparr>q_slots := (q_slots q)[slot_idx q h := f (slot_of q h)]\<rparr>"

text \<open>
  One thread alone: the compare-and-swap then always succeeds, and the branch that reloads
  \<^verbatim>\<open>head\<close> would read the value it already has, so the loop would not end (\<open>None\<close>).
\<close>

definition mpsc_queue_push :: "'a mpsc_queue \<Rightarrow> 'a \<Rightarrow> (status \<times> 'a mpsc_queue) option" where
  "mpsc_queue_push q item =
     (let h = q_head q; diff = seq_diff (sl_seq (slot_of q h)) h in
      if diff = 0 then
        (let q1 = q\<lparr>q_head := h + 1\<rparr>;
             q2 = set_slot q1 h (\<lambda>sl. sl\<lparr>sl_data := Some item\<rparr>);
             q3 = set_slot q2 h (\<lambda>sl. sl\<lparr>sl_seq := h + 1\<rparr>)
         in Some (OTLP_OK, q3))
      else if diff < 0 then Some (OTLP_ERR_BUFFER_FULL, q)
      else None)"

definition mpsc_queue_pop :: "'a mpsc_queue \<Rightarrow> 'a option \<times> 'a mpsc_queue" where
  "mpsc_queue_pop q =
     (let t = q_tail q; diff = seq_diff (sl_seq (slot_of q t)) (t + 1) in
      if diff \<noteq> 0 then (None, q)
      else
        (let data = sl_data (slot_of q t);
             q1 = set_slot q t (\<lambda>sl. sl\<lparr>sl_seq := t + q_mask q + 1\<rparr>);
             q2 = q1\<lparr>q_tail := t + 1\<rparr>
         in (data, q2)))"

definition mpsc_queue_size :: "'a mpsc_queue \<Rightarrow> nat" where
  "mpsc_queue_size q = (if q_head q \<ge> q_tail q then unat (q_head q - q_tail q) else 0)"

section \<open>Interleaved threads\<close>

text \<open>
  Where a producer is in \<open>mpsc_queue_push\<close>: before loading \<^verbatim>\<open>head\<close>, before loading the slot's
  sequence, before the compare-and-swap, before the store of the data, before the release of
  the sequence, about to return.
\<close>

datatype 'a prod_pc =
    PIdle
  | PLoad 'a
  | PSeq 'a u64
  | PCas 'a u64
  | PWrite 'a u64
  | PPub 'a u64
  | PRet 'a status

text \<open>Where the consumer is in \<open>mpsc_queue_pop\<close>.\<close>

datatype 'a cons_pc =
    CIdle
  | CSeq u64
  | CRead u64
  | CRel u64 "'a option"
  | CAdv u64 "'a option"
  | CRet "'a option"

text \<open>
  \<open>tickets\<close> and \<open>taken\<close> are ghost fields: the items in the order in which their producers won
  the compare-and-swap, and what the consumer has taken, in order. No step reads them.
\<close>

record 'a mpsc_sys =
  s_queue :: "'a mpsc_queue"
  s_prods :: "nat \<Rightarrow> 'a prod_pc"
  s_cons :: "'a cons_pc"
  s_tickets :: "'a list"
  s_taken :: "'a option list"

definition prod_to :: "nat \<Rightarrow> 'a prod_pc \<Rightarrow> 'a mpsc_sys \<Rightarrow> 'a mpsc_sys" where
  "prod_to p pc s = s\<lparr>s_prods := (s_prods s)(p := pc)\<rparr>"

inductive mpsc_step :: "'a mpsc_sys \<Rightarrow> 'a mpsc_sys \<Rightarrow> bool" where
  call: "s_prods s p = PIdle \<Longrightarrow> mpsc_step s (prod_to p (PLoad x) s)"
| load_head: "s_prods s p = PLoad x \<Longrightarrow>
    mpsc_step s (prod_to p (PSeq x (q_head (s_queue s))) s)"
| seq_free: "s_prods s p = PSeq x h \<Longrightarrow>
    seq_diff (sl_seq (slot_of (s_queue s) h)) h = 0 \<Longrightarrow>
    mpsc_step s (prod_to p (PCas x h) s)"
| seq_full: "s_prods s p = PSeq x h \<Longrightarrow>
    seq_diff (sl_seq (slot_of (s_queue s) h)) h < 0 \<Longrightarrow>
    mpsc_step s (prod_to p (PRet x OTLP_ERR_BUFFER_FULL) s)"
| seq_stale: "s_prods s p = PSeq x h \<Longrightarrow>
    seq_diff (sl_seq (slot_of (s_queue s) h)) h > 0 \<Longrightarrow>
    mpsc_step s (prod_to p (PLoad x) s)"
| cas_ok: "s_prods s p = PCas x h \<Longrightarrow> q_head (s_queue s) = h \<Longrightarrow>
    mpsc_step s (prod_to p (PWrite x h)
      (s\<lparr>s_queue := (s_queue s)\<lparr>q_head := h + 1\<rparr>, s_tickets := s_tickets s @ [x]\<rparr>))"
| cas_fail: "s_prods s p = PCas x h \<Longrightarrow>
    mpsc_step s (prod_to p (PSeq x (q_head (s_queue s))) s)"
| store_data: "s_prods s p = PWrite x h \<Longrightarrow>
    mpsc_step s (prod_to p (PPub x h)
      (s\<lparr>s_queue := set_slot (s_queue s) h (\<lambda>sl. sl\<lparr>sl_data := Some x\<rparr>)\<rparr>))"
| publish: "s_prods s p = PPub x h \<Longrightarrow>
    mpsc_step s (prod_to p (PRet x OTLP_OK)
      (s\<lparr>s_queue := set_slot (s_queue s) h (\<lambda>sl. sl\<lparr>sl_seq := h + 1\<rparr>)\<rparr>))"
| return: "s_prods s p = PRet x st \<Longrightarrow> mpsc_step s (prod_to p PIdle s)"
| c_load: "s_cons s = CIdle \<Longrightarrow> mpsc_step s (s\<lparr>s_cons := CSeq (q_tail (s_queue s))\<rparr>)"
| c_empty: "s_cons s = CSeq t \<Longrightarrow>
    seq_diff (sl_seq (slot_of (s_queue s) t)) (t + 1) \<noteq> 0 \<Longrightarrow>
    mpsc_step s (s\<lparr>s_cons := CRet None\<rparr>)"
| c_ready: "s_cons s = CSeq t \<Longrightarrow>
    seq_diff (sl_seq (slot_of (s_queue s) t)) (t + 1) = 0 \<Longrightarrow>
    mpsc_step s (s\<lparr>s_cons := CRead t\<rparr>)"
| c_read: "s_cons s = CRead t \<Longrightarrow>
    mpsc_step s (s\<lparr>s_cons := CRel t (sl_data (slot_of (s_queue s) t))\<rparr>)"
| c_release: "s_cons s = CRel t d \<Longrightarrow>
    mpsc_step s (s\<lparr>s_cons := CAdv t d, s_taken := s_taken s @ [d],
      s_queue := set_slot (s_queue s) t
        (\<lambda>sl. sl\<lparr>sl_seq := t + q_mask (s_queue s) + 1\<rparr>)\<rparr>)"
| c_advance: "s_cons s = CAdv t d \<Longrightarrow>
    mpsc_step s (s\<lparr>s_cons := CRet d, s_queue := (s_queue s)\<lparr>q_tail := t + 1\<rparr>\<rparr>)"
| c_return: "s_cons s = CRet d \<Longrightarrow> mpsc_step s (s\<lparr>s_cons := CIdle\<rparr>)"

definition mpsc_start :: "'a mpsc_queue \<Rightarrow> 'a mpsc_sys" where
  "mpsc_start q = \<lparr>s_queue = q, s_prods = (\<lambda>_. PIdle), s_cons = CIdle, s_tickets = [], s_taken = []\<rparr>"

text \<open>A freshly initialised ring of \<open>2^k\<close> slots.\<close>

definition fresh_queue :: "nat \<Rightarrow> 'a mpsc_queue" where
  "fresh_queue k =
     \<lparr>q_slots = map (\<lambda>i. \<lparr>sl_seq = word_of_nat i, sl_data = None\<rparr>) [0..<2 ^ k],
      q_mask = word_of_nat (2 ^ k - 1), q_head = 0, q_tail = 0\<rparr>"

inductive mpsc_reach :: "nat \<Rightarrow> 'a mpsc_sys \<Rightarrow> bool" for k where
  start: "mpsc_reach k (mpsc_start (fresh_queue k))"
| step: "mpsc_reach k s \<Longrightarrow> mpsc_step s t \<Longrightarrow> mpsc_reach k t"

text \<open>The turn a producer has claimed and not yet published.\<close>

fun claim :: "'a prod_pc \<Rightarrow> u64 option" where
  "claim (PWrite x h) = Some h"
| "claim (PPub x h) = Some h"
| "claim _ = None"

definition pending :: "'a mpsc_sys \<Rightarrow> nat \<Rightarrow> bool" where
  "pending s j \<longleftrightarrow> (\<exists>p. claim (s_prods s p) = Some (word_of_nat j))"

definition mpsc_ready :: "'a mpsc_sys \<Rightarrow> bool" where
  "mpsc_ready s \<longleftrightarrow> length (s_taken s) < length (s_tickets s) \<and> \<not> pending s (length (s_taken s))"

definition TURN_LIMIT :: nat where "TURN_LIMIT = 4611686018427387904"

text \<open>
  The invariant. With \<open>e\<close> the turn the consumer has released up to and \<open>h\<close> the next turn to
  claim, slot \<open>j mod 2^k\<close> belongs to turn \<open>j\<close> for each \<open>j\<close> of the window \<open>[e, e + 2^k)\<close>: its
  sequence is \<open>j + 1\<close> once turn \<open>j\<close> is published, and \<open>j\<close> before.
\<close>

definition ring_inv :: "nat \<Rightarrow> 'a mpsc_sys \<Rightarrow> bool" where
  "ring_inv k s \<longleftrightarrow>
     (let q = s_queue s; e = length (s_taken s); h = length (s_tickets s) in
      length (q_slots q) = 2 ^ k \<and> q_mask q = word_of_nat (2 ^ k - 1) \<and>
      q_head q = word_of_nat h \<and> e \<le> h \<and> h \<le> e + 2 ^ k \<and>
      s_taken s = map Some (take e (s_tickets s)) \<and>
      (\<forall>j. e \<le> j \<and> j < e + 2 ^ k \<longrightarrow>
         sl_seq (q_slots q ! (j mod 2 ^ k)) =
           word_of_nat (if j < h \<and> \<not> pending s j then j + 1 else j)) \<and>
      (\<forall>j. e \<le> j \<and> j < h \<and> \<not> pending s j \<longrightarrow>
         sl_data (q_slots q ! (j mod 2 ^ k)) = Some (s_tickets s ! j)))"

fun prod_ok :: "nat \<Rightarrow> 'a mpsc_sys \<Rightarrow> 'a prod_pc \<Rightarrow> bool" where
  "prod_ok k s (PSeq x h) = (unat h \<le> length (s_tickets s))"
| "prod_ok k s (PCas x h) =
     (unat h \<le> length (s_tickets s) \<and> unat h < length (s_taken s) + 2 ^ k)"
| "prod_ok k s (PWrite x h) =
     (length (s_taken s) \<le> unat h \<and> unat h < length (s_tickets s) \<and> s_tickets s ! unat h = x)"
| "prod_ok k s (PPub x h) =
     (length (s_taken s) \<le> unat h \<and> unat h < length (s_tickets s) \<and> s_tickets s ! unat h = x \<and>
      sl_data (q_slots (s_queue s) ! (unat h mod 2 ^ k)) = Some x)"
| "prod_ok k s (PRet x st) =
     (st = OTLP_OK \<and> x \<in> set (s_tickets s) \<or> st = OTLP_ERR_BUFFER_FULL)"
| "prod_ok k s _ = True"

definition cons_turn :: "'a mpsc_sys \<Rightarrow> nat" where
  "cons_turn s = (case s_cons s of CAdv t d \<Rightarrow> length (s_taken s) - 1 | _ \<Rightarrow> length (s_taken s))"

fun cons_ok :: "'a mpsc_sys \<Rightarrow> 'a cons_pc \<Rightarrow> bool" where
  "cons_ok s (CSeq t) = (t = q_tail (s_queue s))"
| "cons_ok s (CRead t) = (t = q_tail (s_queue s) \<and> mpsc_ready s)"
| "cons_ok s (CRel t d) =
     (t = q_tail (s_queue s) \<and> mpsc_ready s \<and> d = Some (s_tickets s ! length (s_taken s)))"
| "cons_ok s (CAdv t d) = (t = q_tail (s_queue s) \<and> 0 < length (s_taken s))"
| "cons_ok s _ = True"

definition mpsc_inv :: "nat \<Rightarrow> 'a mpsc_sys \<Rightarrow> bool" where
  "mpsc_inv k s \<longleftrightarrow>
     ring_inv k s \<and> q_tail (s_queue s) = word_of_nat (cons_turn s) \<and>
     (\<forall>p. prod_ok k s (s_prods s p)) \<and> cons_ok s (s_cons s) \<and>
     (\<forall>p p' h. claim (s_prods s p) = Some h \<longrightarrow> claim (s_prods s p') = Some h \<longrightarrow> p = p')"

section \<open>Turn arithmetic\<close>

lemma sint_turn: "n < 2 ^ 63 \<Longrightarrow> sint (word_of_nat n :: u64) = int n"
  by (subst sint_uint) (simp add: signed_take_bit_int_eq_self uint_word_of_int of_nat_take_bit
      [symmetric] unsigned_of_nat take_bit_nat_eq_self)

lemma unat_turn: "n < 2 ^ 63 \<Longrightarrow> unat (word_of_nat n :: u64) = n"
  by (rule unat_of_nat_u64) simp

lemma unat_word_of_nat_le: "unat (word_of_nat n :: u64) \<le> n"
  by (simp add: unsigned_of_nat take_bit_nat_less_eq_self)

lemma turn_eq_iff: "a < 2 ^ 63 \<Longrightarrow> b < 2 ^ 63 \<Longrightarrow> (word_of_nat a :: u64) = word_of_nat b \<longleftrightarrow> a = b"
  by (metis unat_turn)

lemma seq_diff_turn:
  "a < 2 ^ 63 \<Longrightarrow> b < 2 ^ 63 \<Longrightarrow> seq_diff (word_of_nat a) (word_of_nat b) = int a - int b"
  by (simp add: seq_diff_def sint_turn)

lemma mask_turn:
  assumes "k \<le> 60"
  shows "unat ((w :: u64) AND word_of_nat (2 ^ k - 1)) = unat w mod 2 ^ k"
proof -
  have "(word_of_nat (2 ^ k - 1) :: u64) = mask k"
    by (simp add: mask_eq_exp_minus_1 of_nat_diff)
  then show ?thesis by (simp only: take_bit_eq_mask [symmetric] unat_take_bit)
qed

lemma slot_idx_turn:
  "q_mask q = word_of_nat (2 ^ k - 1) \<Longrightarrow> k \<le> 60 \<Longrightarrow> slot_idx q w = unat w mod 2 ^ k"
  by (simp only: slot_idx_def mask_turn)

lemma window_inj:
  assumes "e \<le> i" "i < e + n" "e \<le> j" "j < e + n" "i mod n = j mod (n :: nat)"
  shows "i = j"
proof -
  have "n dvd nat \<bar>int i - int j\<bar>"
    using assms(5) by (metis mod_eq_dvd_iff_nat nat_abs_int_diff nat_le_linear)
  moreover have "nat \<bar>int i - int j\<bar> < n" using assms by linarith
  ultimately show ?thesis by (metis abs_eq_0 dvd_imp_le eq_iff_diff_eq_0 nat_0_iff
      not_le of_nat_eq_iff abs_le_zero_iff zero_less_iff_neq_zero)
qed

lemma window_ex:
  assumes "0 < (n :: nat)"
  obtains j where "e \<le> j" "j < e + n" "j mod n = i mod n"
proof (rule that [of "e + (i + (n - e mod n)) mod n"])
  have "(e + (i + (n - e mod n)) mod n) mod n = (e mod n + (i + (n - e mod n))) mod n"
    by (simp add: mod_simps)
  also have "e mod n + (i + (n - e mod n)) = i + n"
    using mod_less_divisor [OF assms, of e] by simp
  finally show "(e + (i + (n - e mod n)) mod n) mod n = i mod n" by simp
qed (use assms in auto)

section \<open>The invariant is inductive\<close>

lemma pending_prod_to [simp]:
  "claim pc = claim (s_prods s p) \<Longrightarrow> pending (prod_to p pc s) = pending s"
  by (rule ext) (auto simp: pending_def prod_to_def)

lemma prod_to_simps [simp]:
  "s_queue (prod_to p pc s) = s_queue s" "s_cons (prod_to p pc s) = s_cons s"
  "s_tickets (prod_to p pc s) = s_tickets s" "s_taken (prod_to p pc s) = s_taken s"
  "s_prods (prod_to p pc s) = (s_prods s)(p := pc)"
  by (simp_all add: prod_to_def)

lemma prod_ok_cong:
  "s_tickets s' = s_tickets s \<Longrightarrow> s_taken s' = s_taken s \<Longrightarrow> s_queue s' = s_queue s \<Longrightarrow>
   prod_ok k s' pc = prod_ok k s pc"
  by (cases pc) simp_all

lemma mpsc_ready_cong:
  "s_tickets s' = s_tickets s \<Longrightarrow> s_taken s' = s_taken s \<Longrightarrow> pending s' = pending s \<Longrightarrow>
   mpsc_ready s' = mpsc_ready s"
  by (simp add: mpsc_ready_def)

lemma cons_ok_cong:
  "s_tickets s' = s_tickets s \<Longrightarrow> s_taken s' = s_taken s \<Longrightarrow> pending s' = pending s \<Longrightarrow>
   q_tail (s_queue s') = q_tail (s_queue s) \<Longrightarrow> cons_ok s' pc = cons_ok s pc"
  using mpsc_ready_cong [of s' s] by (cases pc) simp_all

lemma ring_inv_cong:
  "s_tickets s' = s_tickets s \<Longrightarrow> s_taken s' = s_taken s \<Longrightarrow> pending s' = pending s \<Longrightarrow>
   s_queue s' = s_queue s \<Longrightarrow> ring_inv k s' = ring_inv k s"
  by (simp add: ring_inv_def)

text \<open>A producer step that changes nothing but its own program counter and claims nothing.\<close>

lemma inv_pc:
  assumes inv: "mpsc_inv k s" and c: "claim pc = claim (s_prods s p)" and ok: "prod_ok k s pc"
  shows "mpsc_inv k (prod_to p pc s)"
proof -
  have "cons_turn (prod_to p pc s) = cons_turn s" by (simp add: cons_turn_def split: cons_pc.split)
  moreover have "prod_ok k (prod_to p pc s) x = prod_ok k s x" for x by (rule prod_ok_cong) simp_all
  moreover have "cons_ok (prod_to p pc s) x = cons_ok s x" for x by (rule cons_ok_cong) (simp_all add: c)
  moreover have "ring_inv k (prod_to p pc s) = ring_inv k s" by (rule ring_inv_cong) (simp_all add: c)
  ultimately show ?thesis using inv c ok by (auto simp: mpsc_inv_def)
qed

text \<open>A consumer step that changes nothing but its program counter.\<close>

lemma inv_cpc:
  assumes inv: "mpsc_inv k s" and ok: "cons_ok s pc"
    and "\<forall>t d. s_cons s \<noteq> CAdv t d" "\<forall>t d. pc \<noteq> CAdv t d"
  shows "mpsc_inv k (s\<lparr>s_cons := pc\<rparr>)"
proof -
  have pend: "pending (s\<lparr>s_cons := pc\<rparr>) = pending s" by (rule ext) (simp add: pending_def)
  have "cons_turn (s\<lparr>s_cons := pc\<rparr>) = cons_turn s"
    using assms(3,4) by (cases "s_cons s"; cases pc) (simp_all add: cons_turn_def)
  moreover have "prod_ok k (s\<lparr>s_cons := pc\<rparr>) x = prod_ok k s x" for x by (rule prod_ok_cong) simp_all
  moreover have "cons_ok (s\<lparr>s_cons := pc\<rparr>) x = cons_ok s x" for x
    by (rule cons_ok_cong) (simp_all add: pend)
  moreover have "ring_inv k (s\<lparr>s_cons := pc\<rparr>) = ring_inv k s"
    by (rule ring_inv_cong) (simp_all add: pend)
  ultimately show ?thesis using inv ok by (auto simp: mpsc_inv_def)
qed

text \<open>What the invariant says about the sequence of the slot a turn maps to.\<close>

lemma turn_bounds:
  assumes "k \<le> 60" "h \<le> TURN_LIMIT" "j \<le> h + 2 ^ k"
  shows "j + 1 < 2 ^ 63"
proof -
  have "(2::nat) ^ k \<le> 2 ^ 60" using assms(1) by (intro power_increasing) auto
  then show ?thesis using assms(2,3) by (simp add: TURN_LIMIT_def)
qed

lemma slot_seq:
  assumes inv: "ring_inv k s" and k: "k \<le> 60" and lim: "length (s_tickets s) \<le> TURN_LIMIT"
    and j: "length (s_taken s) \<le> j" "j < length (s_taken s) + 2 ^ k" "j mod 2 ^ k = unat w mod 2 ^ k"
    and b: "b < 2 ^ 63"
  shows "seq_diff (sl_seq (slot_of (s_queue s) w)) (word_of_nat b) =
    (if j < length (s_tickets s) \<and> \<not> pending s j then int j + 1 else int j) - int b"
proof -
  let ?v = "if j < length (s_tickets s) \<and> \<not> pending s j then j + 1 else j"
  have el: "length (s_taken s) \<le> length (s_tickets s)" using inv by (simp add: ring_inv_def Let_def)
  have "j + 1 < 2 ^ 63"
    by (rule turn_bounds [OF k lim]) (use el j in linarith)
  then have lt: "?v < 2 ^ 63" by simp
  have "sl_seq (slot_of (s_queue s) w) = word_of_nat ?v"
    using inv j k unfolding ring_inv_def Let_def slot_of_def
    by (metis slot_idx_turn)
  then show ?thesis by (simp only: seq_diff_turn [OF lt b]) simp
qed

lemma ring_counts:
  assumes "ring_inv k s"
  shows "length (s_taken s) \<le> length (s_tickets s)"
    and "length (s_tickets s) \<le> length (s_taken s) + 2 ^ k"
    and "s_taken s = map Some (take (length (s_taken s)) (s_tickets s))"
  using assms by (simp_all add: ring_inv_def Let_def)

lemma word_turn: "(h :: u64) = word_of_nat (unat h)"
  by simp

text \<open>The three outcomes of the producer's comparison, for a turn that has been handed out or is next.\<close>

lemma producer_diff:
  assumes inv: "ring_inv k s" and k: "1 \<le> k" "k \<le> 60" and lim: "length (s_tickets s) \<le> TURN_LIMIT"
    and h: "unat h \<le> length (s_tickets s)"
  shows "seq_diff (sl_seq (slot_of (s_queue s) h)) h = 0 \<Longrightarrow> unat h < length (s_taken s) + 2 ^ k"
    and "seq_diff (sl_seq (slot_of (s_queue s) h)) h < 0 \<Longrightarrow>
      length (s_tickets s) = length (s_taken s) + 2 ^ k"
    and "unat h = length (s_tickets s) \<Longrightarrow>
      seq_diff (sl_seq (slot_of (s_queue s) h)) h \<le> 0"
    and "unat h = length (s_tickets s) \<Longrightarrow> unat h < length (s_taken s) + 2 ^ k \<Longrightarrow>
      seq_diff (sl_seq (slot_of (s_queue s) h)) h = 0"
proof -
  let ?e = "length (s_taken s)" and ?H = "length (s_tickets s)"
  obtain j where j: "?e \<le> j" "j < ?e + 2 ^ k" "j mod 2 ^ k = unat h mod 2 ^ k"
    by (rule window_ex [of "2 ^ k" ?e "unat h"]) simp_all
  have N: "(2::nat) \<le> 2 ^ k" "(2::int) \<le> 2 ^ k"
    using power_increasing [OF k(1), of "2::nat"] power_increasing [OF k(1), of "2::int"] by simp_all
  have hb: "unat h < 2 ^ 63"
    using turn_bounds [OF k(2) lim, of "unat h"] h by simp
  obtain n where n: "unat h = n" by simp
  then have hw: "word_of_nat n = h" by (metis word_turn)
  have d: "seq_diff (sl_seq (slot_of (s_queue s) h)) h =
    (if j < ?H \<and> \<not> pending s j then int j + 1 else int j) - int n"
    using slot_seq [OF inv k(2) lim j hb] by (simp only: hw n)
  note h = h [unfolded n] and j = j [unfolded n]
  have full: "n = ?e + 2 ^ k \<and> j = ?e" if "\<not> n < ?e + 2 ^ k"
  proof -
    have "n = ?e + 2 ^ k" using that h ring_counts(2) [OF inv] by linarith
    moreover have "j = ?e"
      by (rule window_inj [of ?e _ "2 ^ k"]) (use j calculation in simp_all)
    ultimately show ?thesis by simp
  qed
  have same: "j = n" if "?e \<le> n" "n < ?e + 2 ^ k"
    by (rule window_inj [of ?e _ "2 ^ k"]) (use j that in simp_all)
  show "unat h < ?e + 2 ^ k" if "seq_diff (sl_seq (slot_of (s_queue s) h)) h = 0"
    using that full N unfolding d n by (cases "n < ?e + 2 ^ k") (auto split: if_splits)
  show "?H = ?e + 2 ^ k" if "seq_diff (sl_seq (slot_of (s_queue s) h)) h < 0"
    using that [unfolded n] full same N h j ring_counts(2) [OF inv] unfolding d n
    by (cases "n < ?e + 2 ^ k"; cases "?e \<le> n") (auto split: if_splits)
  show "seq_diff (sl_seq (slot_of (s_queue s) h)) h \<le> 0" if "unat h = ?H"
    using that [unfolded n] full same N h j ring_counts(1,2) [OF inv] unfolding d n
    by (cases "n < ?e + 2 ^ k") (auto split: if_splits)
  show "seq_diff (sl_seq (slot_of (s_queue s) h)) h = 0" if "unat h = ?H" "unat h < ?e + 2 ^ k"
    using that [unfolded n] same ring_counts(1) [OF inv] unfolding d n by simp
qed

text \<open>The consumer's comparison succeeds exactly when the next turn is published.\<close>

lemma consumer_diff:
  assumes inv: "ring_inv k s" and k: "k \<le> 60" and lim: "length (s_tickets s) \<le> TURN_LIMIT"
    and t: "t = word_of_nat (length (s_taken s))"
  shows "seq_diff (sl_seq (slot_of (s_queue s) t)) (t + 1) = 0 \<longleftrightarrow> mpsc_ready s"
proof -
  let ?e = "length (s_taken s)"
  have b: "?e + 1 < 2 ^ 63"
    by (rule turn_bounds [OF k lim]) (use ring_counts(1) [OF inv] in linarith)
  have u: "unat t = ?e" unfolding t by (rule unat_turn) (use b in linarith)
  have t1: "t + 1 = word_of_nat (?e + 1)" by (simp add: t)
  have "seq_diff (sl_seq (slot_of (s_queue s) t)) (t + 1) =
    (if ?e < length (s_tickets s) \<and> \<not> pending s ?e then int ?e + 1 else int ?e) - int (?e + 1)"
    unfolding t1 by (rule slot_seq [OF inv k lim]) (use u b in auto)
  then show ?thesis by (simp add: mpsc_ready_def)
qed

lemma ring_invD:
  assumes "ring_inv k s"
  shows "length (q_slots (s_queue s)) = 2 ^ k" "q_mask (s_queue s) = word_of_nat (2 ^ k - 1)"
    and "q_head (s_queue s) = word_of_nat (length (s_tickets s))"
    and "\<And>j. length (s_taken s) \<le> j \<Longrightarrow> j < length (s_taken s) + 2 ^ k \<Longrightarrow>
      sl_seq (q_slots (s_queue s) ! (j mod 2 ^ k)) =
        word_of_nat (if j < length (s_tickets s) \<and> \<not> pending s j then j + 1 else j)"
    and "\<And>j. length (s_taken s) \<le> j \<Longrightarrow> j < length (s_tickets s) \<Longrightarrow> \<not> pending s j \<Longrightarrow>
      sl_data (q_slots (s_queue s) ! (j mod 2 ^ k)) = Some (s_tickets s ! j)"
  using assms unfolding ring_inv_def Let_def by blast+

lemma ring_invI:
  assumes "length (q_slots (s_queue s)) = 2 ^ k" "q_mask (s_queue s) = word_of_nat (2 ^ k - 1)"
    and "q_head (s_queue s) = word_of_nat (length (s_tickets s))"
    and "length (s_taken s) \<le> length (s_tickets s)"
    and "length (s_tickets s) \<le> length (s_taken s) + 2 ^ k"
    and "s_taken s = map Some (take (length (s_taken s)) (s_tickets s))"
    and "\<And>j. length (s_taken s) \<le> j \<Longrightarrow> j < length (s_taken s) + 2 ^ k \<Longrightarrow>
      sl_seq (q_slots (s_queue s) ! (j mod 2 ^ k)) =
        word_of_nat (if j < length (s_tickets s) \<and> \<not> pending s j then j + 1 else j)"
    and "\<And>j. length (s_taken s) \<le> j \<Longrightarrow> j < length (s_tickets s) \<Longrightarrow> \<not> pending s j \<Longrightarrow>
      sl_data (q_slots (s_queue s) ! (j mod 2 ^ k)) = Some (s_tickets s ! j)"
  shows "ring_inv k s"
  using assms unfolding ring_inv_def Let_def by blast

lemma mpsc_invD:
  assumes "mpsc_inv k s"
  shows "ring_inv k s" "q_tail (s_queue s) = word_of_nat (cons_turn s)"
    and "\<And>p. prod_ok k s (s_prods s p)" "cons_ok s (s_cons s)"
    and "\<And>p p' h. claim (s_prods s p) = Some h \<Longrightarrow> claim (s_prods s p') = Some h \<Longrightarrow> p = p'"
  using assms unfolding mpsc_inv_def by blast+

lemma mpsc_invI:
  assumes "ring_inv k s" "q_tail (s_queue s) = word_of_nat (cons_turn s)"
    and "\<And>p. prod_ok k s (s_prods s p)" "cons_ok s (s_cons s)"
    and "\<And>p p' h. claim (s_prods s p) = Some h \<Longrightarrow> claim (s_prods s p') = Some h \<Longrightarrow> p = p'"
  shows "mpsc_inv k s"
  using assms unfolding mpsc_inv_def by blast

text \<open>A claimed turn is in the window, and no two producers claim turns of one slot.\<close>

lemma claim_window:
  assumes "mpsc_inv k s" "claim (s_prods s p) = Some h"
  shows "length (s_taken s) \<le> unat h" "unat h < length (s_tickets s)"
    "unat h < length (s_taken s) + 2 ^ k" "pending s (unat h)"
proof -
  show le: "length (s_taken s) \<le> unat h" "unat h < length (s_tickets s)"
    using mpsc_invD(3) [OF assms(1), of p] assms(2) by (cases "s_prods s p"; simp)+
  then show "unat h < length (s_taken s) + 2 ^ k"
    using ring_counts(2) [OF mpsc_invD(1) [OF assms(1)]] by linarith
  show "pending s (unat h)" using assms(2) by (auto simp: pending_def)
qed

lemma claim_slots_differ:
  assumes inv: "mpsc_inv k s" and c: "claim (s_prods s p) = Some h" and "j \<noteq> unat h"
    and "length (s_taken s) \<le> j" "j < length (s_taken s) + 2 ^ k"
  shows "j mod 2 ^ k \<noteq> unat h mod 2 ^ k"
  using window_inj [of "length (s_taken s)" j "2 ^ k" "unat h"] claim_window [OF inv c] assms(3-5)
  by blast

lemma set_slot_fields [simp]:
  "q_mask (set_slot q h f) = q_mask q" "q_head (set_slot q h f) = q_head q"
  "q_tail (set_slot q h f) = q_tail q"
  "length (q_slots (set_slot q h f)) = length (q_slots q)"
  by (simp_all add: set_slot_def)

lemma set_slot_nth:
  assumes "ring_inv k s" "k \<le> 60"
  shows "q_slots (set_slot (s_queue s) h f) ! (j mod 2 ^ k) =
    (if j mod 2 ^ k = unat h mod 2 ^ k then f (q_slots (s_queue s) ! (j mod 2 ^ k))
     else q_slots (s_queue s) ! (j mod 2 ^ k))"
  using ring_invD(1,2) [OF assms(1)] assms(2)
  by (simp add: set_slot_def slot_of_def slot_idx_turn)

lemma pending_claimed:
  "claim (s_prods s p) = None \<Longrightarrow> s_prods s' = s_prods s \<Longrightarrow>
   pending (prod_to p pc s') j \<longleftrightarrow> pending s j \<or> claim pc = Some (word_of_nat j)"
  unfolding pending_def by (auto simp: fun_upd_apply) (metis option.distinct(1))

lemma inv_cas_ok:
  assumes inv: "mpsc_inv k s" and k: "k \<le> 60" and lim: "length (s_tickets s) < TURN_LIMIT"
    and pc: "s_prods s p = PCas x h" and head: "q_head (s_queue s) = h"
  shows "mpsc_inv k (prod_to p (PWrite x h)
      (s\<lparr>s_queue := (s_queue s)\<lparr>q_head := h + 1\<rparr>, s_tickets := s_tickets s @ [x]\<rparr>))"
    (is "mpsc_inv k ?s")
proof -
  let ?e = "length (s_taken s)" and ?H = "length (s_tickets s)"
  note ring = mpsc_invD(1) [OF inv]
  have hw: "h = word_of_nat ?H" using ring_invD(3) [OF ring] head by simp
  have Hb: "?H < 2 ^ 63" using lim by (simp add: TURN_LIMIT_def)
  have hH: "unat h = ?H" unfolding hw by (rule unat_turn [OF Hb])
  have room: "?H < ?e + 2 ^ k" using mpsc_invD(3) [OF inv, of p] pc hH by simp
  have pend: "pending ?s j \<longleftrightarrow> pending s j \<or> j = ?H" if "j < 2 ^ 63" for j
  proof -
    have "word_of_nat j = h \<longleftrightarrow> j = ?H" unfolding hw by (rule turn_eq_iff [OF that Hb])
    then show ?thesis using pending_claimed [of s p] pc by auto
  qed
  have wb: "j < 2 ^ 63" if "j < ?e + 2 ^ k" for j
    using turn_bounds [OF k, of ?H j] ring_counts(1) [OF ring] that lim by linarith
  show ?thesis
  proof (rule mpsc_invI)
    show "ring_inv k ?s"
    proof (rule ring_invI)
      show "s_taken ?s = map Some (take (length (s_taken ?s)) (s_tickets ?s))"
        using ring_counts(1,3) [OF ring] by simp
      show "sl_seq (q_slots (s_queue ?s) ! (j mod 2 ^ k)) =
        word_of_nat (if j < length (s_tickets ?s) \<and> \<not> pending ?s j then j + 1 else j)"
        if "length (s_taken ?s) \<le> j" "j < length (s_taken ?s) + 2 ^ k" for j
        using ring_invD(4) [OF ring, of j] that pend [of j] wb [of j] by (auto simp: less_Suc_eq)
      show "sl_data (q_slots (s_queue ?s) ! (j mod 2 ^ k)) = Some (s_tickets ?s ! j)"
        if "length (s_taken ?s) \<le> j" "j < length (s_tickets ?s)" "\<not> pending ?s j" for j
      proof -
        have "j < ?e + 2 ^ k" using that(2) room by simp
        then have "j < ?H" "\<not> pending s j" using that(2,3) pend [OF wb] by (auto simp: less_Suc_eq)
        then show ?thesis using ring_invD(5) [OF ring, of j] that(1) by (simp add: nth_append)
      qed
    qed (use ring_invD [OF ring] ring_counts [OF ring] room in \<open>simp_all add: hw\<close>)
    show "q_tail (s_queue ?s) = word_of_nat (cons_turn ?s)"
      using mpsc_invD(2) [OF inv] by (simp add: cons_turn_def split: cons_pc.splits)
    show "prod_ok k ?s (s_prods ?s p')" for p'
      using mpsc_invD(3) [OF inv, of p'] hH ring_counts(1) [OF ring]
      by (cases "s_prods s p'") (auto simp: nth_append)
    show "cons_ok ?s (s_cons ?s)"
      using mpsc_invD(4) [OF inv] pend [of ?e] wb [of ?e]
      by (cases "s_cons s") (auto simp: mpsc_ready_def nth_append)
    show "p1 = p2" if "claim (s_prods ?s p1) = Some h'" "claim (s_prods ?s p2) = Some h'" for p1 p2 h'
      using that claim_window(2) [OF inv] hH mpsc_invD(5) [OF inv, of p1 h' p2]
      by (fastforce split: if_splits)
  qed
qed

lemma inv_store_data:
  assumes inv: "mpsc_inv k s" and k: "k \<le> 60" and pc: "s_prods s p = PWrite x h"
  shows "mpsc_inv k (prod_to p (PPub x h)
      (s\<lparr>s_queue := set_slot (s_queue s) h (\<lambda>sl. sl\<lparr>sl_data := Some x\<rparr>)\<rparr>))"
    (is "mpsc_inv k ?s")
proof -
  note ring = mpsc_invD(1) [OF inv]
  have c: "claim (s_prods s p) = Some h" using pc by simp
  note win = claim_window [OF inv c] and sl = set_slot_nth [OF ring k]
  have pend: "pending ?s = pending s" using pc by (auto simp: pending_def fun_eq_iff)
  show ?thesis
  proof (rule mpsc_invI)
    show "ring_inv k ?s"
    proof (rule ring_invI)
      show "sl_data (q_slots (s_queue ?s) ! (j mod 2 ^ k)) = Some (s_tickets ?s ! j)"
        if "length (s_taken ?s) \<le> j" "j < length (s_tickets ?s)" "\<not> pending ?s j" for j
        using that ring_invD(5) [OF ring, of j] claim_slots_differ [OF inv c, of j] win(4)
          ring_counts(2) [OF ring] by (auto simp: pend sl)
      show "sl_seq (q_slots (s_queue ?s) ! (j mod 2 ^ k)) =
        word_of_nat (if j < length (s_tickets ?s) \<and> \<not> pending ?s j then j + 1 else j)"
        if "length (s_taken ?s) \<le> j" "j < length (s_taken ?s) + 2 ^ k" for j
        using ring_invD(4) [OF ring, of j] that by (auto simp: pend sl)
    qed (use ring_invD(1-3) [OF ring] ring_counts [OF ring] in simp_all)
    show "q_tail (s_queue ?s) = word_of_nat (cons_turn ?s)"
      using mpsc_invD(2) [OF inv] by (simp add: cons_turn_def split: cons_pc.splits)
    show "prod_ok k ?s (s_prods ?s p')" for p'
    proof (cases "p' = p")
      case True
      then show ?thesis using mpsc_invD(3) [OF inv, of p] pc by (simp add: sl)
    next
      case False
      then have "claim (s_prods s p') = Some h' \<Longrightarrow> unat h' mod 2 ^ k \<noteq> unat h mod 2 ^ k" for h'
        using claim_slots_differ [OF inv c, of "unat h'"] claim_window(1,3) [OF inv, of p' h']
          mpsc_invD(5) [OF inv, of p' h' p] c by (metis word_unat_eq_iff)
      then show ?thesis using False mpsc_invD(3) [OF inv, of p']
        by (cases "s_prods s p'") (auto simp: sl)
    qed
    show "cons_ok ?s (s_cons ?s)"
      using mpsc_invD(4) [OF inv] by (cases "s_cons s") (simp_all add: mpsc_ready_def pend)
    show "p1 = p2" if "claim (s_prods ?s p1) = Some h'" "claim (s_prods ?s p2) = Some h'" for p1 p2 h'
      using that pc mpsc_invD(5) [OF inv, of p1 h' p2] by (auto split: if_splits)
  qed
qed

lemma inv_publish:
  assumes inv: "mpsc_inv k s" and k: "k \<le> 60" and lim: "length (s_tickets s) \<le> TURN_LIMIT"
    and pc: "s_prods s p = PPub x h"
  shows "mpsc_inv k (prod_to p (PRet x OTLP_OK)
      (s\<lparr>s_queue := set_slot (s_queue s) h (\<lambda>sl. sl\<lparr>sl_seq := h + 1\<rparr>)\<rparr>))"
    (is "mpsc_inv k ?s")
proof -
  note ring = mpsc_invD(1) [OF inv]
  have c: "claim (s_prods s p) = Some h" using pc by simp
  note win = claim_window [OF inv c] and sl = set_slot_nth [OF ring k]
  have pend: "pending ?s j \<longleftrightarrow> pending s j \<and> j \<noteq> unat h" if "j < 2 ^ 63" for j
  proof
    assume "pending ?s j"
    then obtain p' where p': "p' \<noteq> p" "claim (s_prods s p') = Some (word_of_nat j)"
      by (auto simp: pending_def split: if_splits)
    then have "(word_of_nat j :: u64) \<noteq> h" using mpsc_invD(5) [OF inv, of p' _ p] c by blast
    then show "pending s j \<and> j \<noteq> unat h" using p' by (auto simp: pending_def)
  next
    assume j: "pending s j \<and> j \<noteq> unat h"
    then obtain p' where p': "claim (s_prods s p') = Some (word_of_nat j)" by (auto simp: pending_def)
    moreover have "(word_of_nat j :: u64) \<noteq> h" using j unat_turn [OF that] by auto
    ultimately have "p' \<noteq> p" using c by auto
    with p' show "pending ?s j" by (auto simp: pending_def)
  qed
  have wb: "j < 2 ^ 63" if "j < length (s_taken s) + 2 ^ k" for j
    using turn_bounds [OF k lim, of j] ring_counts(1) [OF ring] that by linarith
  show ?thesis
  proof (rule mpsc_invI)
    show "ring_inv k ?s"
    proof (rule ring_invI)
      show "sl_seq (q_slots (s_queue ?s) ! (j mod 2 ^ k)) =
        word_of_nat (if j < length (s_tickets ?s) \<and> \<not> pending ?s j then j + 1 else j)"
        if "length (s_taken ?s) \<le> j" "j < length (s_taken ?s) + 2 ^ k" for j
      proof (cases "j = unat h")
        case True
        have "\<not> pending ?s (unat h)" using pend [OF wb [OF win(3)]] by blast
        with True win(2) show ?thesis by (simp add: sl add.commute)
      next
        case False
        then show ?thesis using that claim_slots_differ [OF inv c False] ring_invD(4) [OF ring, of j]
          pend [OF wb] by (simp add: sl)
      qed
      show "sl_data (q_slots (s_queue ?s) ! (j mod 2 ^ k)) = Some (s_tickets ?s ! j)"
        if "length (s_taken ?s) \<le> j" "j < length (s_tickets ?s)" "\<not> pending ?s j" for j
      proof -
        have "j < 2 ^ 63" by (rule wb) (use that(2) ring_counts(2) [OF ring] in simp)
        then show ?thesis
          using that ring_invD(5) [OF ring, of j] mpsc_invD(3) [OF inv, of p] pc pend [of j]
          by (cases "j = unat h") (auto simp: sl)
      qed
    qed (use ring_invD [OF ring] ring_counts [OF ring] in simp_all)
    show "q_tail (s_queue ?s) = word_of_nat (cons_turn ?s)"
      using mpsc_invD(2) [OF inv] by (simp add: cons_turn_def split: cons_pc.splits)
    show "prod_ok k ?s (s_prods ?s p')" for p'
      using mpsc_invD(3) [OF inv, of p'] mpsc_invD(3) [OF inv, of p] pc
      by (cases "s_prods s p'") (auto simp: sl intro: nth_mem)
    show "cons_ok ?s (s_cons ?s)"
      using mpsc_invD(4) [OF inv] pend [OF wb, of "length (s_taken s)"]
      by (cases "s_cons s") (auto simp: mpsc_ready_def)
    show "p1 = p2" if "claim (s_prods ?s p1) = Some h'" "claim (s_prods ?s p2) = Some h'" for p1 p2 h'
      using that mpsc_invD(5) [OF inv, of p1 h' p2] by (auto split: if_splits)
  qed
qed

lemma inv_c_release:
  assumes inv: "mpsc_inv k s" and k: "k \<le> 60" and lim: "length (s_tickets s) \<le> TURN_LIMIT"
    and pc: "s_cons s = CRel t d"
  shows "mpsc_inv k (s\<lparr>s_cons := CAdv t d, s_taken := s_taken s @ [d],
      s_queue := set_slot (s_queue s) t
        (\<lambda>sl. sl\<lparr>sl_seq := t + q_mask (s_queue s) + 1\<rparr>)\<rparr>)"
    (is "mpsc_inv k ?s")
proof -
  let ?e = "length (s_taken s)"
  note ring = mpsc_invD(1) [OF inv] and sl = set_slot_nth [OF mpsc_invD(1) [OF inv] k]
  have t: "t = word_of_nat ?e" using mpsc_invD(2,4) [OF inv] pc by (simp add: cons_turn_def)
  have rdy: "?e < length (s_tickets s)" "\<not> pending s ?e" "d = Some (s_tickets s ! ?e)"
    using mpsc_invD(4) [OF inv] pc by (simp_all add: mpsc_ready_def)
  have b: "?e + 1 < 2 ^ 63"
    by (rule turn_bounds [OF k lim]) (use ring_counts(1) [OF ring] in linarith)
  then have ut: "unat t = ?e" unfolding t by (intro unat_turn) simp
  have new: "t + q_mask (s_queue s) + 1 = word_of_nat (?e + 2 ^ k)"
    by (simp add: t ring_invD(2) [OF ring])
  have pend: "pending ?s = pending s" by (rule ext) (simp add: pending_def)
  have other: "j mod 2 ^ k \<noteq> ?e mod 2 ^ k" if "?e < j" "j < ?e + 2 ^ k" for j
    using window_inj [of ?e j "2 ^ k" ?e] that by auto
  show ?thesis
  proof (rule mpsc_invI)
    show "ring_inv k ?s"
    proof (rule ring_invI)
      show "s_taken ?s = map Some (take (length (s_taken ?s)) (s_tickets ?s))"
        using ring_counts(3) [OF ring] rdy by (simp add: take_Suc_conv_app_nth)
      show "sl_seq (q_slots (s_queue ?s) ! (j mod 2 ^ k)) =
        word_of_nat (if j < length (s_tickets ?s) \<and> \<not> pending ?s j then j + 1 else j)"
        if "length (s_taken ?s) \<le> j" "j < length (s_taken ?s) + 2 ^ k" for j
      proof (cases "j = ?e + 2 ^ k")
        case True
        then show ?thesis using ring_counts(2) [OF ring] new by (simp add: sl ut)
      next
        case False
        then show ?thesis using that ring_invD(4) [OF ring, of j] other [of j]
          by (simp add: sl ut pend)
      qed
      show "sl_data (q_slots (s_queue ?s) ! (j mod 2 ^ k)) = Some (s_tickets ?s ! j)"
        if "length (s_taken ?s) \<le> j" "j < length (s_tickets ?s)" "\<not> pending ?s j" for j
        using that ring_invD(5) [OF ring, of j] by (auto simp: sl ut pend)
    qed (use ring_invD(1-3) [OF ring] ring_counts(2) [OF ring] rdy in simp_all)
    show "q_tail (s_queue ?s) = word_of_nat (cons_turn ?s)"
      using mpsc_invD(2) [OF inv] pc by (simp add: cons_turn_def)
    show "prod_ok k ?s (s_prods ?s p)" for p
    proof -
      have "h \<noteq> t" if "claim (s_prods s p) = Some h" for h
        using that rdy(2) t by (auto simp: pending_def)
      then have "unat h \<noteq> ?e" if "claim (s_prods s p) = Some h" for h
        using that ut by (metis word_unat_eq_iff)
      then show ?thesis using mpsc_invD(3) [OF inv, of p]
        by (cases "s_prods s p") (auto simp: sl Suc_le_eq order_less_le)
    qed
    show "cons_ok ?s (s_cons ?s)"
      using mpsc_invD(4) [OF inv] pc by simp
    show "p1 = p2" if "claim (s_prods ?s p1) = Some h'" "claim (s_prods ?s p2) = Some h'" for p1 p2 h'
      using that mpsc_invD(5) [OF inv, of p1 h' p2] by simp
  qed
qed

lemma inv_c_advance:
  assumes inv: "mpsc_inv k s" and pc: "s_cons s = CAdv t d"
  shows "mpsc_inv k (s\<lparr>s_cons := CRet d, s_queue := (s_queue s)\<lparr>q_tail := t + 1\<rparr>\<rparr>)"
    (is "mpsc_inv k ?s")
proof (rule mpsc_invI)
  have pend: "pending ?s = pending s" by (rule ext) (simp add: pending_def)
  show "ring_inv k ?s"
    using mpsc_invD(1) [OF inv] by (simp add: ring_inv_def pend Let_def)
  have pos: "0 < length (s_taken s)" and tail: "t = word_of_nat (length (s_taken s) - 1)"
    using mpsc_invD(2,4) [OF inv] pc by (simp_all add: cons_turn_def)
  have "t + 1 = word_of_nat (length (s_taken s) - 1 + 1)" unfolding tail by simp
  with pos show "q_tail (s_queue ?s) = word_of_nat (cons_turn ?s)"
    by (simp add: cons_turn_def del: of_nat_add of_nat_Suc of_nat_diff)
  show "prod_ok k ?s (s_prods ?s p)" for p
    using mpsc_invD(3) [OF inv, of p] by (cases "s_prods s p") simp_all
  show "p1 = p2" if "claim (s_prods ?s p1) = Some h'" "claim (s_prods ?s p2) = Some h'" for p1 p2 h'
    using that mpsc_invD(5) [OF inv, of p1 h' p2] by simp
qed simp

lemma mpsc_step_inv:
  assumes "mpsc_step s t" "mpsc_inv k s" "1 \<le> k" "k \<le> 60" "length (s_tickets t) \<le> TURN_LIMIT"
  shows "mpsc_inv k t"
  using assms
proof (cases rule: mpsc_step.cases)
  case (load_head p x)
  have ring: "ring_inv k s" by (rule mpsc_invD(1) [OF assms(2)])
  have "unat (q_head (s_queue s)) \<le> length (s_tickets s)"
    unfolding ring_invD(3) [OF ring] by (rule unat_word_of_nat_le)
  with load_head show ?thesis using assms(2) by (auto intro: inv_pc)
next
  case (seq_free p x h)
  have "unat h \<le> length (s_tickets s)" using mpsc_invD(3) [OF assms(2), of p] seq_free by simp
  moreover have "unat h < length (s_taken s) + 2 ^ k"
    by (rule producer_diff(1) [OF mpsc_invD(1) [OF assms(2)] assms(3,4)])
       (use assms(5) seq_free calculation in simp_all)
  ultimately show ?thesis using seq_free assms(2) by (auto intro: inv_pc)
next
  case (cas_fail p x h)
  have ring: "ring_inv k s" by (rule mpsc_invD(1) [OF assms(2)])
  have "unat (q_head (s_queue s)) \<le> length (s_tickets s)"
    unfolding ring_invD(3) [OF ring] by (rule unat_word_of_nat_le)
  with cas_fail show ?thesis using assms(2) by (auto intro: inv_pc)
next
  case (cas_ok p x h)
  then show ?thesis using assms inv_cas_ok [of k s p x h] by simp
next
  case (store_data p x h)
  then show ?thesis using assms inv_store_data [of k s p x h] by simp
next
  case (publish p x h)
  then show ?thesis using assms inv_publish [of k s p x h] by simp
next
  case c_load
  have "cons_turn s = length (s_taken s)" using c_load by (simp add: cons_turn_def)
  with c_load show ?thesis using assms(2) by (auto intro: inv_cpc)
next
  case (c_ready t')
  have t': "t' = word_of_nat (length (s_taken s))" "t' = q_tail (s_queue s)"
    using mpsc_invD(2,4) [OF assms(2)] c_ready by (simp_all add: cons_turn_def)
  then have "mpsc_ready s"
    using consumer_diff [OF mpsc_invD(1) [OF assms(2)] assms(4) _ t'(1)] c_ready assms(5) by simp
  with c_ready t' show ?thesis using assms(2) by (auto intro: inv_cpc)
next
  case (c_read t')
  have t': "t' = word_of_nat (length (s_taken s))" "t' = q_tail (s_queue s)" "mpsc_ready s"
    using mpsc_invD(2,4) [OF assms(2)] c_read by (simp_all add: cons_turn_def)
  note ring = mpsc_invD(1) [OF assms(2)]
  have "length (s_taken s) < 2 ^ 63"
    using turn_bounds [OF assms(4), of "length (s_tickets s)" "length (s_taken s)"] assms(5) c_read
      ring_counts(1) [OF ring] by simp
  then have "slot_of (s_queue s) t' = q_slots (s_queue s) ! (length (s_taken s) mod 2 ^ k)"
    using ring_invD(2) [OF ring] assms(4) unfolding slot_of_def by (metis slot_idx_turn t'(1) unat_turn)
  then have "sl_data (slot_of (s_queue s) t') = Some (s_tickets s ! length (s_taken s))"
    using ring_invD(5) [OF ring, of "length (s_taken s)"] t'(3) by (simp add: mpsc_ready_def)
  with c_read t' show ?thesis using assms(2) by (auto intro: inv_cpc)
next
  case (c_release t' d)
  then show ?thesis using assms inv_c_release [of k s t' d] by simp
next
  case (c_advance t' d)
  then show ?thesis using assms inv_c_advance [of k s t' d] by simp
next
  case (return p x st)
  then show ?thesis using assms(2) by (auto intro: inv_pc)
next
  case (c_return d)
  then show ?thesis using assms(2) by (auto intro: inv_cpc)
qed (auto intro: inv_pc inv_cpc)

lemma mpsc_step_tickets: "mpsc_step s t \<Longrightarrow> prefix (s_tickets s) (s_tickets t)"
  by (cases rule: mpsc_step.cases) auto

lemma fresh_inv:
  assumes "k \<le> 60"
  shows "mpsc_inv k (mpsc_start (fresh_queue k))"
proof (rule mpsc_invI)
  show "ring_inv k (mpsc_start (fresh_queue k))"
    by (rule ring_invI) (simp_all add: mpsc_start_def fresh_queue_def)
qed (simp_all add: mpsc_start_def fresh_queue_def cons_turn_def)

lemma reach_inv:
  assumes "mpsc_reach k s" "1 \<le> k" "k \<le> 60" "length (s_tickets s) \<le> TURN_LIMIT"
  shows "mpsc_inv k s"
  using assms
proof induction
  case start
  then show ?case by (simp add: fresh_inv)
next
  case (step s t)
  then have "length (s_tickets s) \<le> TURN_LIMIT"
    using prefix_length_le [OF mpsc_step_tickets] by (meson order_trans)
  with step show ?case using mpsc_step_inv by blast
qed

section \<open>One thread: a bounded FIFO\<close>

text \<open>
  The interface of a bounded queue with one user. \<open>rep q n xs\<close> says that \<open>q\<close> holds the items
  \<open>xs\<close>, oldest first, after \<open>n\<close> items have ever entered it; the promises hold for the first
  \<open>limit\<close> items. \<open>push\<close> may fail to return (\<open>None\<close>); the contract says it does return.
\<close>

datatype 'a qop = QPush 'a | QPop
datatype 'a qres = Pushed status | Popped "'a option"

fun run_ops :: "('q \<Rightarrow> 'a \<Rightarrow> (status \<times> 'q) option) \<Rightarrow> ('q \<Rightarrow> 'a option \<times> 'q) \<Rightarrow> 'q \<Rightarrow>
    'a qop list \<Rightarrow> 'a qres list option" where
  "run_ops push pop q [] = Some []"
| "run_ops push pop q (QPush x # ops) =
     (case push q x of None \<Rightarrow> None
      | Some (st, q') \<Rightarrow> map_option ((#) (Pushed st)) (run_ops push pop q' ops))"
| "run_ops push pop q (QPop # ops) =
     (case pop q of (r, q') \<Rightarrow> map_option ((#) (Popped r)) (run_ops push pop q' ops))"

text \<open>What the same operations do to a list of at most \<open>cap\<close> items.\<close>

fun fifo_run :: "nat \<Rightarrow> 'a list \<Rightarrow> 'a qop list \<Rightarrow> 'a qres list" where
  "fifo_run cap xs [] = []"
| "fifo_run cap xs (QPush x # ops) =
     (if length xs < cap then Pushed OTLP_OK # fifo_run cap (xs @ [x]) ops
      else Pushed OTLP_ERR_BUFFER_FULL # fifo_run cap xs ops)"
| "fifo_run cap [] (QPop # ops) = Popped None # fifo_run cap [] ops"
| "fifo_run cap (x # xs) (QPop # ops) = Popped (Some x) # fifo_run cap xs ops"

text \<open>Popping until the queue is empty or \<open>n\<close> items are out.\<close>

fun pop_upto :: "('q \<Rightarrow> 'a option \<times> 'q) \<Rightarrow> nat \<Rightarrow> 'q \<Rightarrow> 'a list \<times> 'q" where
  "pop_upto pop 0 q = ([], q)"
| "pop_upto pop (Suc n) q =
     (case pop q of (None, q') \<Rightarrow> ([], q')
      | (Some x, q') \<Rightarrow> (case pop_upto pop n q' of (xs, q'') \<Rightarrow> (x # xs, q'')))"

locale bounded_fifo =
  fixes push :: "'q \<Rightarrow> 'a \<Rightarrow> (status \<times> 'q) option"
    and pop :: "'q \<Rightarrow> 'a option \<times> 'q"
    and rep :: "'q \<Rightarrow> nat \<Rightarrow> 'a list \<Rightarrow> bool"
    and cap limit :: nat
  assumes rep_cap: "rep q n xs \<Longrightarrow> length xs \<le> cap"
    and push_room: "rep q n xs \<Longrightarrow> n < limit \<Longrightarrow> length xs < cap \<Longrightarrow>
      \<exists>q'. push q x = Some (OTLP_OK, q') \<and> rep q' (Suc n) (xs @ [x])"
    and push_full: "rep q n xs \<Longrightarrow> n < limit \<Longrightarrow> length xs = cap \<Longrightarrow>
      push q x = Some (OTLP_ERR_BUFFER_FULL, q)"
    and pop_empty: "rep q n [] \<Longrightarrow> pop q = (None, q)"
    and pop_head: "rep q n (x # xs) \<Longrightarrow> \<exists>q'. pop q = (Some x, q') \<and> rep q' n xs"
begin

lemma run_refines:
  "rep q n xs \<Longrightarrow> n + length ops \<le> limit \<Longrightarrow> run_ops push pop q ops = Some (fifo_run cap xs ops)"
proof (induction ops arbitrary: q n xs)
  case (Cons op ops)
  show ?case
  proof (cases op)
    case (QPush x)
    show ?thesis
    proof (cases "length xs < cap")
      case True
      then obtain q' where "push q x = Some (OTLP_OK, q')" "rep q' (Suc n) (xs @ [x])"
        using push_room [of q n xs x] Cons.prems by auto
      then show ?thesis using True QPush Cons.IH [of q' "Suc n" "xs @ [x]"] Cons.prems by simp
    next
      case False
      then have "push q x = Some (OTLP_ERR_BUFFER_FULL, q)"
        using push_full [of q n xs x] rep_cap [of q n xs] Cons.prems by simp
      then show ?thesis using False QPush Cons.IH [of q n xs] Cons.prems by simp
    qed
  next
    case QPop
    show ?thesis
    proof (cases xs)
      case Nil
      then show ?thesis using QPop pop_empty [of q n] Cons.IH [of q n xs] Cons.prems by simp
    next
      case (Cons y ys)
      then obtain q' where "pop q = (Some y, q')" "rep q' n ys"
        using pop_head [of q n y ys] Cons.prems by auto
      then show ?thesis using QPop Cons Cons.IH [of q' n ys] Cons.prems by simp
    qed
  qed
qed simp

lemma pop_upto_spec:
  "rep q n xs \<Longrightarrow> \<exists>q'. pop_upto pop m q = (take m xs, q') \<and> rep q' n (drop m xs)"
proof (induction m arbitrary: q xs)
  case (Suc m)
  show ?case
  proof (cases xs)
    case Nil
    then show ?thesis using Suc.prems pop_empty [of q n] by simp
  next
    case (Cons y ys)
    then obtain q' where q': "pop q = (Some y, q')" "rep q' n ys"
      using pop_head [of q n y ys] Suc.prems by auto
    then show ?thesis using Suc.IH [OF q'(2)] Cons by auto
  qed
qed simp

end

text \<open>A state in which no thread is inside the queue, and what it holds.\<close>

definition quiescent :: "'a mpsc_sys \<Rightarrow> bool" where
  "quiescent s \<longleftrightarrow> s_prods s = (\<lambda>_. PIdle) \<and> s_cons s = CIdle"

definition mpsc_rep :: "nat \<Rightarrow> 'a mpsc_queue \<Rightarrow> nat \<Rightarrow> 'a list \<Rightarrow> bool" where
  "mpsc_rep k q n xs \<longleftrightarrow>
     (\<exists>s. mpsc_inv k s \<and> quiescent s \<and> s_queue s = q \<and> length (s_tickets s) = n \<and>
        n \<le> TURN_LIMIT \<and> xs = drop (length (s_taken s)) (s_tickets s))"

lemma quiescent_pending: "quiescent s \<Longrightarrow> \<not> pending s j"
  by (simp add: quiescent_def pending_def)

lemma mpsc_push_room:
  assumes rep: "mpsc_rep k q n xs" and k: "1 \<le> k" "k \<le> 60" and n: "n < TURN_LIMIT"
    and room: "length xs < 2 ^ k"
  shows "\<exists>q'. mpsc_queue_push q x = Some (OTLP_OK, q') \<and> mpsc_rep k q' (Suc n) (xs @ [x])"
proof -
  from rep obtain s where s: "mpsc_inv k s" "quiescent s" "s_queue s = q"
    "length (s_tickets s) = n" "xs = drop (length (s_taken s)) (s_tickets s)"
    unfolding mpsc_rep_def by blast
  note ring = mpsc_invD(1) [OF s(1)]
  let ?h = "q_head q"
  have "n < 2 ^ 63" using n by (simp add: TURN_LIMIT_def)
  then have h: "unat ?h = n" using ring_invD(3) [OF ring] s(3,4) unat_turn by metis
  have hr: "unat ?h < length (s_taken s) + 2 ^ k" using room s(4,5) ring_counts(1) [OF ring] h by simp
  have d: "seq_diff (sl_seq (slot_of q ?h)) ?h = 0"
    using producer_diff(4) [OF ring k _ _ _ hr] h s(3,4) n by simp
  let ?s1 = "prod_to 0 (PCas x ?h) s"
  let ?s2 = "prod_to 0 (PWrite x ?h)
    (?s1\<lparr>s_queue := (s_queue ?s1)\<lparr>q_head := ?h + 1\<rparr>, s_tickets := s_tickets ?s1 @ [x]\<rparr>)"
  let ?s3 = "prod_to 0 (PPub x ?h)
    (?s2\<lparr>s_queue := set_slot (s_queue ?s2) ?h (\<lambda>sl. sl\<lparr>sl_data := Some x\<rparr>)\<rparr>)"
  let ?s4 = "prod_to 0 (PRet x OTLP_OK)
    (?s3\<lparr>s_queue := set_slot (s_queue ?s3) ?h (\<lambda>sl. sl\<lparr>sl_seq := ?h + 1\<rparr>)\<rparr>)"
  have "mpsc_inv k ?s1"
    by (rule inv_pc [OF s(1)]) (use s(2,4) h hr in \<open>simp_all add: quiescent_def\<close>)
  then have "mpsc_inv k ?s2"
    by (rule inv_cas_ok [OF _ k(2), where h = ?h]) (use s(3,4) n in simp_all)
  then have "mpsc_inv k ?s3"
    by (rule inv_store_data [OF _ k(2)]) simp
  then have "mpsc_inv k ?s4"
    by (rule inv_publish [OF _ k(2)]) (use s(4) n in simp_all)
  then have inv: "mpsc_inv k (prod_to 0 PIdle ?s4)"
    by (rule inv_pc) simp_all
  have "mpsc_queue_push q x = Some (OTLP_OK, s_queue (prod_to 0 PIdle ?s4))"
    by (simp add: mpsc_queue_push_def Let_def d s(3))
  moreover have "mpsc_rep k (s_queue (prod_to 0 PIdle ?s4)) (Suc n) (xs @ [x])"
    unfolding mpsc_rep_def
    by (rule exI [of _ "prod_to 0 PIdle ?s4"], intro conjI inv)
       (use s n ring_counts(1) [OF ring] in \<open>simp_all add: quiescent_def fun_eq_iff\<close>)
  ultimately show ?thesis by blast
qed

lemma mpsc_push_full:
  assumes rep: "mpsc_rep k q n xs" and k: "1 \<le> k" "k \<le> 60" and n: "n < TURN_LIMIT"
    and full: "length xs = 2 ^ k"
  shows "mpsc_queue_push q x = Some (OTLP_ERR_BUFFER_FULL, q)"
proof -
  from rep obtain s where s: "mpsc_inv k s" "quiescent s" "s_queue s = q"
    "length (s_tickets s) = n" "xs = drop (length (s_taken s)) (s_tickets s)"
    unfolding mpsc_rep_def by blast
  note ring = mpsc_invD(1) [OF s(1)]
  have "n < 2 ^ 63" using n by (simp add: TURN_LIMIT_def)
  then have h: "unat (q_head q) = n" using ring_invD(3) [OF ring] s(3,4) unat_turn by metis
  have "n = length (s_taken s) + 2 ^ k" using full s(4,5) ring_counts(1) [OF ring] by simp
  then have "seq_diff (sl_seq (slot_of q (q_head q))) (q_head q) < 0"
    using producer_diff(1,3) [OF ring k, of "q_head q"] h s(3,4) n by fastforce
  then show ?thesis by (simp add: mpsc_queue_push_def Let_def)
qed

lemma mpsc_pop_spec:
  assumes rep: "mpsc_rep k q n xs" and k: "k \<le> 60"
  shows "xs = [] \<Longrightarrow> mpsc_queue_pop q = (None, q)"
    and "xs = y # ys \<Longrightarrow> \<exists>q'. mpsc_queue_pop q = (Some y, q') \<and> mpsc_rep k q' n ys"
proof -
  from rep obtain s where s: "mpsc_inv k s" "quiescent s" "s_queue s = q"
    "length (s_tickets s) = n" "n \<le> TURN_LIMIT" "xs = drop (length (s_taken s)) (s_tickets s)"
    unfolding mpsc_rep_def by blast
  note ring = mpsc_invD(1) [OF s(1)]
  let ?t = "q_tail q" and ?e = "length (s_taken s)"
  have t: "?t = word_of_nat ?e" using mpsc_invD(2) [OF s(1)] s(2,3)
    by (simp add: cons_turn_def quiescent_def)
  have rdy: "seq_diff (sl_seq (slot_of q ?t)) (?t + 1) = 0 \<longleftrightarrow> xs \<noteq> []"
    using consumer_diff [OF ring k _ t] s quiescent_pending [OF s(2)]
    by (simp add: mpsc_ready_def not_le)
  show "mpsc_queue_pop q = (None, q)" if "xs = []"
    using rdy that by (simp add: mpsc_queue_pop_def Let_def)
  show "\<exists>q'. mpsc_queue_pop q = (Some y, q') \<and> mpsc_rep k q' n ys" if xs: "xs = y # ys"
  proof -
    have lt: "?e < n" using xs s(4,6) by (metis drop_all not_le_imp_less list.distinct(1))
    have y: "y = s_tickets s ! ?e" "ys = drop (Suc ?e) (s_tickets s)"
      using xs s(4,6) lt by (metis Cons_nth_drop_Suc list.inject)+
    have "?e < 2 ^ 63" using lt s(5) by (simp add: TURN_LIMIT_def)
    then have "slot_of q ?t = q_slots q ! (?e mod 2 ^ k)"
      using ring_invD(2) [OF ring] k t s(3) unfolding slot_of_def by (metis slot_idx_turn unat_turn)
    then have data: "sl_data (slot_of q ?t) = Some y"
      using ring_invD(5) [OF ring, of ?e] quiescent_pending [OF s(2)] lt y(1) s(3,4) by simp
    let ?s1 = "s\<lparr>s_cons := CRel ?t (Some y)\<rparr>"
    let ?s2 = "?s1\<lparr>s_cons := CAdv ?t (Some y), s_taken := s_taken ?s1 @ [Some y],
      s_queue := set_slot (s_queue ?s1) ?t (\<lambda>sl. sl\<lparr>sl_seq := ?t + q_mask (s_queue ?s1) + 1\<rparr>)\<rparr>"
    let ?s3 = "?s2\<lparr>s_cons := CRet (Some y), s_queue := (s_queue ?s2)\<lparr>q_tail := ?t + 1\<rparr>\<rparr>"
    have "mpsc_inv k ?s1"
      by (rule inv_cpc [OF s(1)])
         (use s lt y quiescent_pending [OF s(2)] in \<open>simp_all add: mpsc_ready_def quiescent_def\<close>)
    then have "mpsc_inv k ?s2"
      by (rule inv_c_release [OF _ k]) (use s in simp_all)
    then have "mpsc_inv k ?s3"
      by (rule inv_c_advance) simp
    then have inv: "mpsc_inv k (?s3\<lparr>s_cons := CIdle\<rparr>)"
      by (rule inv_cpc) simp_all
    have "mpsc_queue_pop q = (Some y, s_queue (?s3\<lparr>s_cons := CIdle\<rparr>))"
      using rdy xs by (simp add: mpsc_queue_pop_def Let_def data s(3))
    moreover have "mpsc_rep k (s_queue (?s3\<lparr>s_cons := CIdle\<rparr>)) n ys"
      unfolding mpsc_rep_def
      by (rule exI [of _ "?s3\<lparr>s_cons := CIdle\<rparr>"], intro conjI inv)
         (use s y in \<open>simp_all add: quiescent_def\<close>)
    ultimately show ?thesis by blast
  qed
qed

lemma mpsc_rep_fresh: "k \<le> 60 \<Longrightarrow> mpsc_rep k (fresh_queue k) 0 []"
  unfolding mpsc_rep_def
  by (rule exI [of _ "mpsc_start (fresh_queue k)"])
     (use fresh_inv in \<open>simp_all add: mpsc_start_def quiescent_def\<close>)

lemma mpsc_rep_length: "mpsc_rep k q n xs \<Longrightarrow> length xs \<le> 2 ^ k"
  unfolding mpsc_rep_def using ring_counts(2) [OF mpsc_invD(1)] by fastforce

text \<open>
  The ring of \<open>2^(Suc k)\<close> slots provides the interface; \<open>k\<close> is capped so that one statement
  covers every capacity from 2 to \<open>2^60\<close>.
\<close>

definition ring_exp :: "nat \<Rightarrow> nat" where
  "ring_exp k = Suc (min k 59)"

interpretation ring: bounded_fifo mpsc_queue_push mpsc_queue_pop "mpsc_rep (ring_exp k)"
    "2 ^ ring_exp k" TURN_LIMIT for k
proof
  fix q :: "'a mpsc_queue" and n xs x
  have k: "1 \<le> ring_exp k" "ring_exp k \<le> 60" by (simp_all add: ring_exp_def)
  show "mpsc_rep (ring_exp k) q n xs \<Longrightarrow> length xs \<le> 2 ^ ring_exp k"
    by (rule mpsc_rep_length)
  show "\<exists>q'. mpsc_queue_push q x = Some (OTLP_OK, q') \<and> mpsc_rep (ring_exp k) q' (Suc n) (xs @ [x])"
    if "mpsc_rep (ring_exp k) q n xs" "n < TURN_LIMIT" "length xs < 2 ^ ring_exp k"
    by (rule mpsc_push_room [OF that(1) k that(2,3)])
  show "mpsc_queue_push q x = Some (OTLP_ERR_BUFFER_FULL, q)"
    if "mpsc_rep (ring_exp k) q n xs" "n < TURN_LIMIT" "length xs = 2 ^ ring_exp k"
    by (rule mpsc_push_full [OF that(1) k that(2,3)])
  show "mpsc_queue_pop q = (None, q)" if "mpsc_rep (ring_exp k) q n []"
    by (rule mpsc_pop_spec(1) [OF that k(2) refl])
  show "\<exists>q'. mpsc_queue_pop q = (Some x, q') \<and> mpsc_rep (ring_exp k) q' n xs"
    if "mpsc_rep (ring_exp k) q n (x # xs)"
    by (rule mpsc_pop_spec(2) [OF that k(2) refl])
qed

lemma init_fresh:
  assumes "k \<le> 59"
  shows "mpsc_queue_init always_alloc (2 ^ k) () = (OTLP_OK, Some (fresh_queue k), ())"
proof -
  have lt: "(2::nat) ^ k \<le> 2 ^ 59" using assms by (intro power_increasing) auto
  have u: "unat (2 ^ k :: u64) = 2 ^ k"
    using unat_of_nat_u64 [of "2 ^ k"] lt by simp
  have m: "(2 ^ k - 1 :: u64) = mask k" by (simp add: mask_eq_exp_minus_1)
  have "(2 ^ k :: u64) AND mask k = 0"
    by (rule bit_word_eqI) (simp add: bit_simps)
  moreover have "(2 ^ k :: u64) > 0"
    by (rule word_neq_0_conv [THEN iffD1]) (metis u power_not_zero unat_0 zero_neq_numeral)
  moreover have "unat (2 ^ k :: u64) \<le> SIZE_MAX div SIZEOF_SLOT"
    using lt by (simp add: u SIZE_MAX_def SIZEOF_SLOT_def)
  ultimately show ?thesis
    by (simp add: mpsc_queue_init_def is_pow2_def m u always_alloc_def fresh_queue_def not_less)
qed

lemma mpsc_size_rep:
  assumes "mpsc_rep k q n xs"
  shows "mpsc_queue_size q = length xs"
proof -
  from assms obtain s where s: "mpsc_inv k s" "quiescent s" "s_queue s = q"
    "length (s_tickets s) = n" "n \<le> TURN_LIMIT" "xs = drop (length (s_taken s)) (s_tickets s)"
    unfolding mpsc_rep_def by blast
  let ?e = "length (s_taken s)"
  note ring = mpsc_invD(1) [OF s(1)]
  have le: "?e \<le> n" using ring_counts(1) [OF ring] s(4) by simp
  have b: "n < 2 ^ 64" "?e < 2 ^ 64" using le s(5) by (simp_all add: TURN_LIMIT_def)
  have h: "q_head q = word_of_nat n" using ring_invD(3) [OF ring] s(3,4) by simp
  have t: "q_tail q = word_of_nat ?e" using mpsc_invD(2) [OF s(1)] s(2,3)
    by (simp add: cons_turn_def quiescent_def)
  have ht: "q_tail q \<le> q_head q" unfolding h t word_le_nat_alt
    using le b by (simp only: unat_of_nat_u64)
  have "unat (q_head q - q_tail q) = n - ?e"
    using ht unfolding unat_sub [OF ht] by (simp only: h t unat_of_nat_u64 b)
  then show ?thesis using ht s(4,6) by (simp add: mpsc_queue_size_def)
qed

text \<open>
  The single-threaded push is one of the interleavings: a producer that runs without
  interference takes the steps that \<open>mpsc_queue_push\<close> describes.
\<close>

lemma push_is_run:
  assumes reach: "mpsc_reach k s" and idle: "s_prods s p = PIdle"
    and push: "mpsc_queue_push (s_queue s) x = Some (OTLP_OK, q')"
  shows "mpsc_reach k (prod_to p (PRet x OTLP_OK)
    (s\<lparr>s_tickets := s_tickets s @ [x], s_queue := q'\<rparr>))"
proof -
  let ?h = "q_head (s_queue s)"
  have d: "seq_diff (sl_seq (slot_of (s_queue s) ?h)) ?h = 0"
    and q': "q' = set_slot (set_slot ((s_queue s)\<lparr>q_head := ?h + 1\<rparr>) ?h (\<lambda>sl. sl\<lparr>sl_data := Some x\<rparr>))
      ?h (\<lambda>sl. sl\<lparr>sl_seq := ?h + 1\<rparr>)"
    using push by (auto simp: mpsc_queue_push_def Let_def split: if_splits)
  note r = mpsc_reach.step [OF _ mpsc_step.call [of _ p x]]
    mpsc_reach.step [OF _ mpsc_step.load_head [of _ p x]]
    mpsc_reach.step [OF _ mpsc_step.seq_free [of _ p x ?h]]
    mpsc_reach.step [OF _ mpsc_step.cas_ok [of _ p x ?h]]
    mpsc_reach.step [OF _ mpsc_step.store_data [of _ p x ?h]]
    mpsc_reach.step [OF _ mpsc_step.publish [of _ p x ?h]]
  have "mpsc_reach k (prod_to p (PSeq x ?h) s)"
    using r(2) [OF r(1) [OF reach idle]] by (simp add: prod_to_def)
  from r(3) [OF this] d have "mpsc_reach k (prod_to p (PCas x ?h) s)" by (simp add: prod_to_def)
  from r(6) [OF r(5) [OF r(4) [OF this]]] show ?thesis by (simp add: prod_to_def q')
qed

text \<open>A run used below: two producers fill a ring of two slots.\<close>

lemma full_run:
  obtains s where "mpsc_reach 1 s" "s_prods s = (\<lambda>_. PIdle)(0 := PRet CHR ''a'' OTLP_OK, 1 := PRet CHR ''b'' OTLP_OK)"
    "s_cons s = CIdle" "s_tickets s = ''ab''" "s_taken s = []"
    "s_queue s = \<lparr>q_slots = [\<lparr>sl_seq = 1, sl_data = Some CHR ''a''\<rparr>, \<lparr>sl_seq = 2, sl_data = Some CHR ''b''\<rparr>],
      q_mask = 1, q_head = 2, q_tail = 0\<rparr>"
proof -
  let ?q0 = "fresh_queue 1 :: char mpsc_queue"
  let ?q1 = "\<lparr>q_slots = [\<lparr>sl_seq = 1, sl_data = Some CHR ''a''\<rparr>, \<lparr>sl_seq = 1, sl_data = None\<rparr>],
    q_mask = 1, q_head = 1, q_tail = 0\<rparr>"
  let ?q2 = "\<lparr>q_slots = [\<lparr>sl_seq = 1, sl_data = Some CHR ''a''\<rparr>, \<lparr>sl_seq = 2, sl_data = Some CHR ''b''\<rparr>],
    q_mask = 1, q_head = 2, q_tail = 0\<rparr>"
  have p1: "mpsc_queue_push ?q0 CHR ''a'' = Some (OTLP_OK, ?q1)"
    by (simp add: fresh_queue_def mpsc_queue_push_def slot_of_def slot_idx_def set_slot_def
        seq_diff_def upt_rec)
  have p2: "mpsc_queue_push ?q1 CHR ''b'' = Some (OTLP_OK, ?q2)"
    by (simp add: mpsc_queue_push_def slot_of_def slot_idx_def set_slot_def seq_diff_def)
  have "mpsc_reach 1 (mpsc_start ?q0)" by (rule mpsc_reach.start)
  from push_is_run [OF this, of 0 "CHR ''a''" ?q1] p1
  have "mpsc_reach 1 (prod_to 0 (PRet CHR ''a'' OTLP_OK)
    ((mpsc_start ?q0)\<lparr>s_tickets := ''a'', s_queue := ?q1\<rparr>))" by (simp add: mpsc_start_def)
  from push_is_run [OF this, of 1 "CHR ''b''" ?q2] p2 show ?thesis
    by (intro that) (auto simp: mpsc_start_def prod_to_def)
qed

section \<open>Properties of the queue\<close>



text \<open>
  BUFFER_FULL is honest: when a producer's comparison sends it to return BUFFER_FULL, all
  \<open>2^k\<close> slots are claimed and not yet released by the consumer.
\<close>

theorem mpsc_full_is_honest:
  assumes "mpsc_reach k s" "1 \<le> k" "k \<le> 60" "length (s_tickets s) \<le> TURN_LIMIT"
    and "mpsc_step s t" "s_prods s p = PSeq x h" "s_prods t p = PRet x OTLP_ERR_BUFFER_FULL"
  shows "length (s_tickets s) = length (s_taken s) + 2 ^ k"
proof -
  note inv = reach_inv [OF assms(1-4)]
  have "seq_diff (sl_seq (slot_of (s_queue s) h)) h < 0"
    using assms(5-7) by (cases rule: mpsc_step.cases) (auto split: if_splits)
  moreover have "unat h \<le> length (s_tickets s)" using mpsc_invD(3) [OF inv, of p] assms(6) by simp
  ultimately show ?thesis
    using producer_diff(2) [OF mpsc_invD(1) [OF inv] assms(2-4)] by blast
qed

theorem mpsc_full_is_honest_witness:
  "\<exists>s t. s_prods s 2 = PSeq CHR ''c'' 2 \<and> mpsc_step s t \<and>
    s_prods t 2 = PRet CHR ''c'' OTLP_ERR_BUFFER_FULL \<and> length (s_tickets s) = length (s_taken s) + 2"
proof (rule full_run)
  fix s :: "char mpsc_sys"
  assume s: "mpsc_reach 1 s" "s_prods s = (\<lambda>_. PIdle)(0 := PRet CHR ''a'' OTLP_OK, 1 := PRet CHR ''b'' OTLP_OK)"
    "s_tickets s = ''ab''" and q: "s_queue s = \<lparr>q_slots = [\<lparr>sl_seq = 1, sl_data = Some CHR ''a''\<rparr>,
      \<lparr>sl_seq = 2, sl_data = Some CHR ''b''\<rparr>], q_mask = 1, q_head = 2, q_tail = 0\<rparr>"
  let ?s = "prod_to 2 (PSeq CHR ''c'' 2) s"
  have "mpsc_reach 1 (prod_to 2 (PLoad CHR ''c'') s)"
    by (rule mpsc_reach.step [OF s(1) mpsc_step.call]) (simp add: s)
  from mpsc_reach.step [OF this mpsc_step.load_head [of _ 2 "CHR ''c''"]]
  have r: "mpsc_reach 1 ?s" by (simp add: q prod_to_def)
  have step: "mpsc_step ?s (prod_to 2 (PRet CHR ''c'' OTLP_ERR_BUFFER_FULL) ?s)"
    by (rule mpsc_step.seq_full [where h = 2])
       (simp_all add: q slot_of_def slot_idx_def seq_diff_def)
  have "length (s_tickets ?s) = length (s_taken ?s) + 2 ^ 1"
    by (rule mpsc_full_is_honest [OF r _ _ _ step, of 2 "CHR ''c''" 2])
       (simp_all add: s TURN_LIMIT_def)
  with step show ?thesis
    by (intro exI [of _ ?s] exI [of _ "prod_to 2 (PRet CHR ''c'' OTLP_ERR_BUFFER_FULL) ?s"]) simp
qed

text \<open>
  The consumer goes on to read the slot exactly when the next item in line has been
  published, and reports an empty queue exactly when it has not: when nothing is in the ring,
  or when the producer whose turn it is has claimed its slot and not finished.
\<close>

theorem mpsc_pop_finds_ready:
  assumes "mpsc_reach k s" "1 \<le> k" "k \<le> 60" "length (s_tickets s) \<le> TURN_LIMIT"
    and "s_cons s = CSeq u" "mpsc_step s t" "s_cons t \<noteq> CSeq u"
  shows "(s_cons t = CRead u \<longleftrightarrow> mpsc_ready s) \<and> (s_cons t = CRet None \<longleftrightarrow> \<not> mpsc_ready s)"
proof -
  note inv = reach_inv [OF assms(1-4)]
  have "u = word_of_nat (length (s_taken s))"
    using mpsc_invD(2,4) [OF inv] assms(5) by (simp add: cons_turn_def)
  note ready = consumer_diff [OF mpsc_invD(1) [OF inv] assms(3,4) this]
  from assms(6,5,7) ready show ?thesis by (cases rule: mpsc_step.cases) auto
qed

theorem mpsc_pop_finds_ready_witness:
  "\<exists>s t. s_cons s = CSeq 0 \<and> mpsc_step s t \<and> s_cons t = CRead 0 \<and> mpsc_ready (s :: char mpsc_sys)"
proof (rule full_run)
  fix s :: "char mpsc_sys"
  assume s: "mpsc_reach 1 s" "s_cons s = CIdle" "s_tickets s = ''ab''"
    and q: "s_queue s = \<lparr>q_slots = [\<lparr>sl_seq = 1, sl_data = Some CHR ''a''\<rparr>,
      \<lparr>sl_seq = 2, sl_data = Some CHR ''b''\<rparr>], q_mask = 1, q_head = 2, q_tail = 0\<rparr>"
  let ?s = "s\<lparr>s_cons := CSeq 0\<rparr>"
  have r: "mpsc_reach 1 ?s"
    using mpsc_reach.step [OF s(1) mpsc_step.c_load [OF s(2)]] by (simp add: q)
  have step: "mpsc_step ?s (?s\<lparr>s_cons := CRead 0\<rparr>)"
    by (rule mpsc_step.c_ready) (simp_all add: q slot_of_def slot_idx_def seq_diff_def)
  have "(s_cons (?s\<lparr>s_cons := CRead 0\<rparr>) = CRead 0 \<longleftrightarrow> mpsc_ready ?s) \<and>
    (s_cons (?s\<lparr>s_cons := CRead 0\<rparr>) = CRet None \<longleftrightarrow> \<not> mpsc_ready ?s)"
    by (rule mpsc_pop_finds_ready [OF r _ _ _ _ step]) (simp_all add: s TURN_LIMIT_def)
  with step show ?thesis by (intro exI [of _ ?s] exI [of _ "?s\<lparr>s_cons := CRead 0\<rparr>"]) simp
qed



text \<open>
  Capacity 1 passes the power-of-two check and is broken: the second push overwrites the
  first item instead of reporting BUFFER_FULL, and the consumer then finds the queue empty
  although both pushes returned OK.
\<close>

theorem mpsc_capacity_one_loses_items:
  "\<exists>q q1 q2. mpsc_queue_init always_alloc 1 () = (OTLP_OK, Some q, ()) \<and>
    mpsc_queue_push q a = Some (OTLP_OK, q1) \<and> mpsc_queue_push q1 b = Some (OTLP_OK, q2) \<and>
    mpsc_queue_size q2 = 2 \<and> mpsc_queue_pop q2 = (None, q2)"
proof -
  let ?q = "\<lambda>h d. \<lparr>q_slots = [\<lparr>sl_seq = h, sl_data = d\<rparr>], q_mask = 0, q_head = h, q_tail = 0\<rparr>"
  have "mpsc_queue_init always_alloc 1 () = (OTLP_OK, Some (?q 0 None), ())"
    using init_fresh [of 0] by (simp add: fresh_queue_def)
  moreover have "mpsc_queue_push (?q 0 None) a = Some (OTLP_OK, ?q 1 (Some a))"
    by (simp add: mpsc_queue_push_def slot_of_def slot_idx_def set_slot_def seq_diff_def)
  moreover have "mpsc_queue_push (?q 1 (Some a)) b = Some (OTLP_OK, ?q 2 (Some b))"
    by (simp add: mpsc_queue_push_def slot_of_def slot_idx_def set_slot_def seq_diff_def)
  moreover have "mpsc_queue_size (?q 2 (Some b)) = 2" by (simp add: mpsc_queue_size_def)
  moreover have "mpsc_queue_pop (?q 2 (Some b)) = (None, ?q 2 (Some b))"
    by (simp add: mpsc_queue_pop_def slot_of_def slot_idx_def seq_diff_def)
  ultimately show ?thesis by blast
qed

end
