(* ===== verification/Pb_Encode.thy ===== *)
theory Pb_Encode
  imports Otlp_Prelude
begin

text \<open>
  The protobuf wire encoder, \<^verbatim>\<open>src/protobuf_encode.c\<close> and \<^verbatim>\<open>src/protobuf_encode.h\<close>: the
  growable buffer with its inline small buffer, the four wire types, the tag and the typed
  field helpers. The reference encoding is \<open>leb128\<close>; every primitive is shown to emit it,
  with the buffer's capacity invariant.
\<close>

section \<open>The buffer\<close>

definition OTLP_PB_SBO_SIZE :: nat where "OTLP_PB_SBO_SIZE = 192"

definition OTLP_PB_WIRE_VARINT :: int where "OTLP_PB_WIRE_VARINT = 0"
definition OTLP_PB_WIRE_FIXED64 :: int where "OTLP_PB_WIRE_FIXED64 = 1"
definition OTLP_PB_WIRE_LEN :: int where "OTLP_PB_WIRE_LEN = 2"
definition OTLP_PB_WIRE_FIXED32 :: int where "OTLP_PB_WIRE_FIXED32 = 5"

lemmas wire_defs = OTLP_PB_WIRE_VARINT_def OTLP_PB_WIRE_FIXED64_def OTLP_PB_WIRE_LEN_def
  OTLP_PB_WIRE_FIXED32_def

text \<open>
  \<open>pb_data\<close> holds the first \<^verbatim>\<open>len\<close> bytes of the storage, so \<^verbatim>\<open>len\<close> is its length. Where
  \<^verbatim>\<open>data\<close> points is told by the other two fields: the heap when \<open>pb_owns_heap\<close>, the inline
  buffer when not and \<open>pb_cap\<close> is positive, NULL when \<open>pb_cap\<close> is 0.
\<close>

record pb_buf =
  pb_data :: "u8 list"
  pb_cap :: nat
  pb_owns_heap :: bool

type_synonym 'm pbst = "pb_buf \<times> 'm"

definition pb_zero :: pb_buf where
  "pb_zero = \<lparr>pb_data = [], pb_cap = 0, pb_owns_heap = False\<rparr>"

text \<open>
  The doubling loop of \<open>buf_reserve\<close>; \<open>None\<close> is the overflow return. Its caller never starts
  it at 0, where the C loop would not advance.
\<close>

function grow_cap :: "nat \<Rightarrow> nat \<Rightarrow> nat option" where
  "grow_cap new_cap need =
     (if new_cap < need
      then (if new_cap = 0 \<or> new_cap > SIZE_MAX div 2 then None
            else grow_cap (new_cap * 2) need)
      else Some new_cap)"
  by pat_completeness auto
termination
  by (relation "measure (\<lambda>(c, need). need - c)") auto

declare grow_cap.simps [simp del]

definition buf_reserve :: "'m allocator \<Rightarrow> nat \<Rightarrow> 'm pbst \<Rightarrow> status \<times> 'm pbst" where
  "buf_reserve A additional s =
     (case s of (b, m) \<Rightarrow>
       if additional > SIZE_MAX - length (pb_data b) then (OTLP_ERR_OVERFLOW, b, m)
       else let need = length (pb_data b) + additional in
       if need \<le> pb_cap b then (OTLP_OK, b, m)
       else case grow_cap (if pb_cap b \<noteq> 0 then pb_cap b else OTLP_PB_SBO_SIZE) need of
         None \<Rightarrow> (OTLP_ERR_OVERFLOW, b, m)
       | Some new_cap \<Rightarrow>
           (case (if \<not> pb_owns_heap b \<and> pb_cap b > 0 then a_alloc A new_cap m
                  else a_realloc A new_cap m) of
             (False, m') \<Rightarrow> (OTLP_ERR_NOMEM, b, m')
           | (True, m') \<Rightarrow> (OTLP_OK, b\<lparr>pb_cap := new_cap, pb_owns_heap := True\<rparr>, m')))"

text \<open>A \<^verbatim>\<open>const uint8_t *\<close> with its length: \<open>None\<close> is NULL.\<close>

definition buf_append ::
  "'m allocator \<Rightarrow> u8 list option \<Rightarrow> nat \<Rightarrow> 'm pbst \<Rightarrow> status \<times> 'm pbst" where
  "buf_append A data len s =
     (if len = 0 then (OTLP_OK, s)
      else case data of None \<Rightarrow> (OTLP_ERR_NULL, s)
      | Some d \<Rightarrow>
          (case buf_reserve A len s of (st, s') \<Rightarrow>
            if st \<noteq> OTLP_OK then (st, s')
            else (case s' of (b, m) \<Rightarrow>
              (OTLP_OK, b\<lparr>pb_data := pb_data b @ take len d\<rparr>, m))))"

definition otlp_pb_buf_init :: "'m allocator \<Rightarrow> nat \<Rightarrow> 'm pbst \<Rightarrow> status \<times> 'm pbst" where
  "otlp_pb_buf_init A initial_cap s =
     (case s of (b, m) \<Rightarrow>
       let b0 = \<lparr>pb_data = [], pb_cap = OTLP_PB_SBO_SIZE, pb_owns_heap = False\<rparr> in
       if initial_cap > OTLP_PB_SBO_SIZE then
         (case a_alloc A initial_cap m of
           (False, m') \<Rightarrow> (OTLP_ERR_NOMEM, b0, m')
         | (True, m') \<Rightarrow> (OTLP_OK, b0\<lparr>pb_cap := initial_cap, pb_owns_heap := True\<rparr>, m'))
       else (OTLP_OK, b0, m))"

text \<open>Freeing returns the state and whether the heap block was handed to \<^verbatim>\<open>otlp_free\<close>.\<close>

definition otlp_pb_buf_free :: "'m pbst \<Rightarrow> bool \<times> 'm pbst" where
  "otlp_pb_buf_free s =
     (case s of (b, m) \<Rightarrow>
       (pb_owns_heap b, \<lparr>pb_data = [], pb_cap = 0, pb_owns_heap = False\<rparr>, m))"

definition otlp_pb_buf_reset :: "'m pbst \<Rightarrow> 'm pbst" where
  "otlp_pb_buf_reset s = (case s of (b, m) \<Rightarrow> (b\<lparr>pb_data := []\<rparr>, m))"

section \<open>Wire encoders\<close>

text \<open>
  The do-while loop of \<open>otlp_pb_varint\<close>: the bytes stored in \<^verbatim>\<open>tmp\<close> from index \<open>n\<close> on, all
  with the continuation bit; the bit of the last one is cleared after the loop.
\<close>

function varint_loop :: "u64 \<Rightarrow> nat \<Rightarrow> u8 list" where
  "varint_loop v n =
     (let b = (ucast ((v AND 0x7F) OR 0x80) :: u8); v' = drop_bit 7 v
      in b # (if v' \<noteq> 0 \<and> n + 1 < 10 then varint_loop v' (n + 1) else []))"
  by pat_completeness auto
termination
  by (relation "measure (\<lambda>(v, n). 10 - n)") auto

declare varint_loop.simps [simp del]

definition varint_bytes :: "u64 \<Rightarrow> u8 list" where
  "varint_bytes v = (let tmp = varint_loop v 0 in tmp[length tmp - 1 := last tmp AND 0x7F])"

definition otlp_pb_varint :: "'m allocator \<Rightarrow> u64 \<Rightarrow> 'm pbst \<Rightarrow> status \<times> 'm pbst" where
  "otlp_pb_varint A v =
     (let tmp = varint_bytes v in buf_append A (Some tmp) (length tmp))"

definition fixed64_bytes :: "u64 \<Rightarrow> u8 list" where
  "fixed64_bytes v = map (\<lambda>i. ucast (drop_bit (i * 8) v)) [0..<8]"

definition otlp_pb_fixed64 :: "'m allocator \<Rightarrow> u64 \<Rightarrow> 'm pbst \<Rightarrow> status \<times> 'm pbst" where
  "otlp_pb_fixed64 A v = buf_append A (Some (fixed64_bytes v)) 8"

definition fixed32_bytes :: "u32 \<Rightarrow> u8 list" where
  "fixed32_bytes v = map (\<lambda>i. ucast (drop_bit (i * 8) v)) [0..<4]"

definition otlp_pb_fixed32 :: "'m allocator \<Rightarrow> u32 \<Rightarrow> 'm pbst \<Rightarrow> status \<times> 'm pbst" where
  "otlp_pb_fixed32 A v = buf_append A (Some (fixed32_bytes v)) 4"

definition otlp_pb_bytes ::
  "'m allocator \<Rightarrow> u8 list option \<Rightarrow> nat \<Rightarrow> 'm pbst \<Rightarrow> status \<times> 'm pbst" where
  "otlp_pb_bytes A data len =
     then_ok (otlp_pb_varint A (word_of_nat len))
       (if len = 0 then ret_ok else buf_append A data len)"

definition otlp_pb_string :: "'m allocator \<Rightarrow> cstr option \<Rightarrow> 'm pbst \<Rightarrow> status \<times> 'm pbst" where
  "otlp_pb_string A str =
     (let len = (case str of None \<Rightarrow> 0 | Some s \<Rightarrow> length s) in otlp_pb_bytes A str len)"

definition otlp_pb_tag :: "'m allocator \<Rightarrow> u32 \<Rightarrow> int \<Rightarrow> 'm pbst \<Rightarrow> status \<times> 'm pbst" where
  "otlp_pb_tag A field_number wire_type s =
     (if field_number = 0 then (OTLP_ERR_INVALID_ARGUMENT, s)
      else if wire_type \<noteq> OTLP_PB_WIRE_VARINT \<and> wire_type \<noteq> OTLP_PB_WIRE_FIXED64 \<and>
              wire_type \<noteq> OTLP_PB_WIRE_LEN \<and> wire_type \<noteq> OTLP_PB_WIRE_FIXED32
      then (OTLP_ERR_INVALID_ARGUMENT, s)
      else let key = push_bit 3 (ucast field_number :: u64)
                     OR ucast (word_of_int wire_type :: u32)
           in otlp_pb_varint A key s)"

section \<open>Typed field helpers\<close>

definition otlp_pb_field_varint ::
  "'m allocator \<Rightarrow> u32 \<Rightarrow> u64 \<Rightarrow> 'm pbst \<Rightarrow> status \<times> 'm pbst" where
  "otlp_pb_field_varint A field_num value =
     (if value = 0 then ret_ok
      else then_ok (otlp_pb_tag A field_num OTLP_PB_WIRE_VARINT) (otlp_pb_varint A value))"

definition otlp_pb_field_fixed64 ::
  "'m allocator \<Rightarrow> u32 \<Rightarrow> u64 \<Rightarrow> 'm pbst \<Rightarrow> status \<times> 'm pbst" where
  "otlp_pb_field_fixed64 A field_num value =
     (if value = 0 then ret_ok
      else then_ok (otlp_pb_tag A field_num OTLP_PB_WIRE_FIXED64) (otlp_pb_fixed64 A value))"

definition otlp_pb_field_fixed32 ::
  "'m allocator \<Rightarrow> u32 \<Rightarrow> u32 \<Rightarrow> 'm pbst \<Rightarrow> status \<times> 'm pbst" where
  "otlp_pb_field_fixed32 A field_num value =
     (if value = 0 then ret_ok
      else then_ok (otlp_pb_tag A field_num OTLP_PB_WIRE_FIXED32) (otlp_pb_fixed32 A value))"

definition otlp_pb_field_string ::
  "'m allocator \<Rightarrow> u32 \<Rightarrow> cstr option \<Rightarrow> 'm pbst \<Rightarrow> status \<times> 'm pbst" where
  "otlp_pb_field_string A field_num str =
     (case str of None \<Rightarrow> ret_ok
      | Some s \<Rightarrow>
          if cstr_at s 0 = Some 0 then ret_ok
          else then_ok (otlp_pb_tag A field_num OTLP_PB_WIRE_LEN)
                 (otlp_pb_bytes A (Some s) (length s)))"

definition otlp_pb_field_bytes ::
  "'m allocator \<Rightarrow> u32 \<Rightarrow> u8 list option \<Rightarrow> nat \<Rightarrow> 'm pbst \<Rightarrow> status \<times> 'm pbst" where
  "otlp_pb_field_bytes A field_num data len =
     (if len = 0 then ret_ok
      else then_ok (otlp_pb_tag A field_num OTLP_PB_WIRE_LEN) (otlp_pb_bytes A data len))"

definition otlp_pb_field_message ::
  "'m allocator \<Rightarrow> u32 \<Rightarrow> u8 list option \<Rightarrow> nat \<Rightarrow> 'm pbst \<Rightarrow> status \<times> 'm pbst" where
  "otlp_pb_field_message A field_num data len =
     (if len = 0 then ret_ok
      else then_ok (otlp_pb_tag A field_num OTLP_PB_WIRE_LEN)
             (then_ok (otlp_pb_varint A (word_of_nat len)) (buf_append A data len)))"

section \<open>Reference encoding\<close>

function leb128 :: "nat \<Rightarrow> u8 list" where
  "leb128 n = (if n < 128 then [word_of_nat n]
               else word_of_nat (n mod 128 + 128) # leb128 (n div 128))"
  by pat_completeness auto
termination
  by (relation "measure id") auto

declare leb128.simps [simp del]

definition tag_bytes :: "u32 \<Rightarrow> int \<Rightarrow> u8 list" where
  "tag_bytes f wt = leb128 (unat f * 8 + nat wt)"

definition len_delim :: "u8 list \<Rightarrow> u8 list" where
  "len_delim xs = leb128 (length xs) @ xs"

definition varint_field :: "u32 \<Rightarrow> u64 \<Rightarrow> u8 list" where
  "varint_field f v = (if v = 0 then [] else tag_bytes f OTLP_PB_WIRE_VARINT @ leb128 (unat v))"

definition fixed64_field :: "u32 \<Rightarrow> u64 \<Rightarrow> u8 list" where
  "fixed64_field f v = (if v = 0 then [] else tag_bytes f OTLP_PB_WIRE_FIXED64 @ fixed64_bytes v)"

definition fixed32_field :: "u32 \<Rightarrow> u32 \<Rightarrow> u8 list" where
  "fixed32_field f v = (if v = 0 then [] else tag_bytes f OTLP_PB_WIRE_FIXED32 @ fixed32_bytes v)"

definition len_field :: "u32 \<Rightarrow> u8 list \<Rightarrow> u8 list" where
  "len_field f xs = (if xs = [] then [] else tag_bytes f OTLP_PB_WIRE_LEN @ len_delim xs)"

definition valid_wire :: "int \<Rightarrow> bool" where
  "valid_wire wt \<longleftrightarrow> wt \<in> {OTLP_PB_WIRE_VARINT, OTLP_PB_WIRE_FIXED64, OTLP_PB_WIRE_LEN,
     OTLP_PB_WIRE_FIXED32}"

text \<open>The capacity invariant and the resources under which an encoder cannot fail.\<close>

definition pb_inv :: "'m pbst \<Rightarrow> bool" where
  "pb_inv s \<longleftrightarrow> length (pb_data (fst s)) \<le> pb_cap (fst s) \<and> pb_cap (fst s) \<le> SIZE_MAX \<and>
     (if pb_owns_heap (fst s) then pb_cap (fst s) > 0
      else pb_cap (fst s) = 0 \<or> pb_cap (fst s) = OTLP_PB_SBO_SIZE)"

definition pb_content :: "'m pbst \<Rightarrow> u8 list" where
  "pb_content s = pb_data (fst s)"

definition alloc_total :: "'m allocator \<Rightarrow> bool" where
  "alloc_total A \<longleftrightarrow> (\<forall>n m. fst (a_alloc A n m) \<and> fst (a_realloc A n m))"

definition pb_fits :: "'m allocator \<Rightarrow> nat \<Rightarrow> bool" where
  "pb_fits A n \<longleftrightarrow> alloc_total A \<and> n \<le> SIZE_MAX div 2"

abbreviation pb_emits ::
  "'m allocator \<Rightarrow> ('m pbst \<Rightarrow> status \<times> 'm pbst) \<Rightarrow> u8 list \<Rightarrow> bool" where
  "pb_emits A \<equiv> emits pb_inv pb_content (pb_fits A)"

section \<open>The varint loop is LEB128\<close>

lemma leb128_nonempty [simp]: "leb128 n \<noteq> []"
  by (subst leb128.simps) simp

lemma length_leb128_pos [simp]: "0 < length (leb128 n)"
  by simp

lemma length_leb128_le: "n < 2 ^ (7 * k) \<Longrightarrow> 0 < k \<Longrightarrow> length (leb128 n) \<le> k"
proof (induction n arbitrary: k rule: leb128.induct)
  case (1 n)
  show ?case
  proof (cases "n < 128")
    case True
    then show ?thesis using 1 by (subst leb128.simps) simp
  next
    case False
    then obtain j where k: "k = Suc j" "0 < j"
      using 1 by (cases k; cases "k - 1") auto
    then have "2 ^ (7 * k) = 2 ^ (7 * j) * (128::nat)" by (simp add: power_add)
    with 1 have "n div 128 < 2 ^ (7 * j)" by (simp add: less_mult_imp_div_less)
    with False 1 k have "length (leb128 (n div 128)) \<le> j" by blast
    with False k show ?thesis by (subst leb128.simps) simp
  qed
qed

lemma length_leb128_u64: "n \<le> SIZE_MAX \<Longrightarrow> length (leb128 n) \<le> 10"
  by (rule length_leb128_le) (auto simp: SIZE_MAX_def)

lemma varint_loop_nonempty [simp]: "varint_loop v n \<noteq> []"
  by (subst varint_loop.simps) (simp add: Let_def)

lemma varint_loop_leb128:
  "n < 10 \<Longrightarrow> unat v < 2 ^ (7 * (10 - n)) \<Longrightarrow>
   butlast (varint_loop v n) @ [last (varint_loop v n) AND 0x7F] = leb128 (unat v)"
proof (induction v n rule: varint_loop.induct)
  case (1 v n)
  let ?v' = "drop_bit 7 v"
  have v': "unat ?v' = unat v div 128" by (simp add: unat_drop_bit)
  have b0: "?v' = 0 \<longleftrightarrow> unat v < 128"
    by (metis v' div_eq_0_iff unat_eq_zero zero_neq_numeral)
  have hd: "varint_loop v n = word_of_nat (unat v mod 128 + 128) #
      (if ?v' \<noteq> 0 \<and> n + 1 < 10 then varint_loop ?v' (n + 1) else [])"
    by (subst varint_loop.simps) (simp only: Let_def byte_cont)
  show ?case
  proof (cases "?v' \<noteq> 0 \<and> n + 1 < 10")
    case True
    obtain k where k: "10 - n = Suc k" "10 - (n + 1) = k" using True by (cases "10 - n") auto
    with 1 v' have "unat ?v' < 2 ^ (7 * (10 - (n + 1)))"
      by (simp add: power_add less_mult_imp_div_less mult.commute)
    with 1 True have "butlast (varint_loop ?v' (n + 1)) @ [last (varint_loop ?v' (n + 1)) AND 0x7F]
        = leb128 (unat v div 128)"
      by (simp add: v')
    moreover have "128 \<le> unat v" using True b0 by simp
    ultimately show ?thesis
      using True by (subst leb128.simps) (simp add: hd)
  next
    case False
    have "unat v < 128"
    proof (cases "n + 1 < 10")
      case True with False b0 show ?thesis by simp
    next
      case ge: False
      with 1 have "n = 9" by simp
      with 1 show ?thesis by simp
    qed
    moreover from False have "varint_loop v n = [word_of_nat (unat v mod 128 + 128)]"
      by (simp only: hd if_False)
    moreover note byte_clear_cont [of "unat v"]
    ultimately show ?thesis
      by (subst leb128.simps) (simp only: if_True last.simps butlast.simps append_Nil mod_less simp_thms)
  qed
qed

lemma list_update_last: "xs \<noteq> [] \<Longrightarrow> xs[length xs - 1 := y] = butlast xs @ [y]"
  by (metis append_butlast_last_id length_append_singleton diff_Suc_1 list_update_length
      length_butlast)

lemma varint_bytes_leb128: "varint_bytes v = leb128 (unat v)"
proof -
  have "unat v < 2 ^ (7 * (10 - 0))" using unat_u64_lt [of v] by simp
  then have "butlast (varint_loop v 0) @ [last (varint_loop v 0) AND 0x7F] = leb128 (unat v)"
    by (rule varint_loop_leb128 [rotated]) simp
  then show ?thesis
    by (simp only: varint_bytes_def Let_def list_update_last varint_loop_nonempty not_False_eq_True)
qed

lemma length_fixed64_bytes [simp]: "length (fixed64_bytes v) = 8"
  by (simp add: fixed64_bytes_def)

lemma length_fixed32_bytes [simp]: "length (fixed32_bytes v) = 4"
  by (simp add: fixed32_bytes_def)

section \<open>Buffer invariant and the append primitive\<close>

lemma grow_cap_bounds:
  "grow_cap c need = Some c' \<Longrightarrow> c \<le> SIZE_MAX \<Longrightarrow> need \<le> c' \<and> c \<le> c' \<and> c' \<le> SIZE_MAX"
proof (induction c need rule: grow_cap.induct)
  case (1 c need)
  show ?case
  proof (cases "c < need \<and> c \<noteq> 0 \<and> c \<le> SIZE_MAX div 2")
    case True
    moreover from True have "c * 2 \<le> SIZE_MAX" by auto
    ultimately have "need \<le> c' \<and> c * 2 \<le> c' \<and> c' \<le> SIZE_MAX"
      using 1 by (simp add: grow_cap.simps [of c need])
    then show ?thesis by simp
  next
    case False
    with 1 show ?thesis by (auto simp: grow_cap.simps [of c need] split: if_splits)
  qed
qed

lemma grow_cap_Some:
  "0 < c \<Longrightarrow> need \<le> SIZE_MAX div 2 \<Longrightarrow> \<exists>c'. grow_cap c need = Some c'"
proof (induction c need rule: grow_cap.induct)
  case (1 c need)
  then show ?case by (cases "c < need") (auto simp: grow_cap.simps [of c need])
qed

lemma buf_reserve_spec:
  assumes inv: "pb_inv s" and eq: "buf_reserve A n s = (st, s')"
  shows "pb_inv s'" "pb_content s' = pb_content s"
    "st = OTLP_OK \<Longrightarrow> length (pb_content s) + n \<le> pb_cap (fst s')"
    "pb_fits A (length (pb_content s) + n) \<Longrightarrow> st = OTLP_OK"
proof -
  obtain b m where s: "s = (b, m)" by (cases s)
  let ?c = "if pb_cap b \<noteq> 0 then pb_cap b else OTLP_PB_SBO_SIZE"
  let ?need = "length (pb_data b) + n"
  have c: "0 < ?c" "?c \<le> SIZE_MAX" "pb_cap b \<le> ?c"
    using inv by (auto simp: s pb_inv_def OTLP_PB_SBO_SIZE_def SIZE_MAX_def)
  note d = buf_reserve_def Let_def s pb_inv_def pb_content_def
  show "pb_inv s'" "pb_content s' = pb_content s"
    "st = OTLP_OK \<Longrightarrow> length (pb_content s) + n \<le> pb_cap (fst s')"
    using inv eq c
    by (auto simp: d dest!: grow_cap_bounds split: if_splits option.splits prod.splits bool.splits)
  assume fits: "pb_fits A (length (pb_content s) + n)"
  then have "?need \<le> SIZE_MAX div 2" "\<not> n > SIZE_MAX - length (pb_data b)"
    by (auto simp: pb_fits_def d SIZE_MAX_def)
  moreover from this c grow_cap_Some [of ?c ?need] obtain c' where "grow_cap ?c ?need = Some c'"
    by blast
  ultimately show "st = OTLP_OK"
    using eq fits
    by (auto simp: d pb_fits_def alloc_total_def split: if_splits prod.splits bool.splits)
       (metis fst_conv)+
qed

lemma buf_append_emits: "pb_emits A (buf_append A (Some d) (length d)) d"
proof (rule emitsI)
  fix s st s'
  let ?n = "length d"
  assume inv: "pb_inv s" and eq: "buf_append A (Some d) ?n s = (st, s')"
  obtain st1 b m where r: "buf_reserve A ?n s = (st1, b, m)" by (cases "buf_reserve A ?n s") auto
  note R = buf_reserve_spec [OF inv r]
  have "pb_inv s' \<and> (\<exists>ys. pb_content s' = pb_content s @ ys \<and> prefix ys d \<and> (st = OTLP_OK \<longrightarrow> ys = d))"
  proof (cases "?n = 0 \<or> st1 \<noteq> OTLP_OK")
    case True
    then show ?thesis using inv eq R(1,2) by (auto simp: buf_append_def r split: if_splits)
  next
    case False
    then have s': "s' = (b\<lparr>pb_data := pb_data b @ d\<rparr>, m)" and "st1 = OTLP_OK" and pos: "0 < ?n"
      using eq by (auto simp: buf_append_def r split: if_splits)
    moreover have "pb_inv s'"
      using R(1) R(3) [OF \<open>st1 = OTLP_OK\<close>] R(2) pos unfolding s'
      by (simp add: pb_inv_def pb_content_def split: if_splits)
    ultimately show ?thesis using R(2) by (auto simp: pb_content_def)
  qed
  then show "pb_inv s'" "\<exists>ys. pb_content s' = pb_content s @ ys \<and> prefix ys d \<and> (st = OTLP_OK \<longrightarrow> ys = d)"
    by blast+
  assume "pb_fits A (length (pb_content s) + length d)"
  then show "st = OTLP_OK"
    using eq R(4) by (auto simp: buf_append_def r split: if_splits)
qed

lemma pb_fits_mono: "pb_fits A n \<Longrightarrow> m \<le> n \<Longrightarrow> pb_fits A m"
  by (auto simp: pb_fits_def)

interpretation pb: byte_sink "\<lambda>xs. buf_append A (Some xs) (length xs)" pb_content pb_inv "pb_fits A"
  for A :: "'m allocator"
  by unfold_locales (auto intro: buf_append_emits pb_fits_mono)

lemma varint_emits: "pb_emits A (otlp_pb_varint A v) (leb128 (unat v))"
  by (simp add: otlp_pb_varint_def varint_bytes_leb128 pb.put_emits Let_def)

lemma fixed64_emits: "pb_emits A (otlp_pb_fixed64 A v) (fixed64_bytes v)"
  using pb.put_emits [of A "fixed64_bytes v"] by (simp add: otlp_pb_fixed64_def [abs_def])

lemma fixed32_emits: "pb_emits A (otlp_pb_fixed32 A v) (fixed32_bytes v)"
  using pb.put_emits [of A "fixed32_bytes v"] by (simp add: otlp_pb_fixed32_def [abs_def])

lemma bytes_emits:
  assumes "length d = n" "n \<le> SIZE_MAX"
  shows "pb_emits A (otlp_pb_bytes A (Some d) n) (len_delim d)"
proof -
  have u: "unat (word_of_nat n :: u64) = n"
    using assms(2) by (intro unat_of_nat_u64) (simp add: SIZE_MAX_def)
  have "pb_emits A (if n = 0 then ret_ok else buf_append A (Some d) n) d"
    using assms buf_append_emits [of A d] pb.emits_ret_ok [of A] by auto
  from pb.emits_then_ok [OF varint_emits [of A "word_of_nat n"] this]
  show ?thesis using assms by (simp add: otlp_pb_bytes_def len_delim_def u)
qed

lemma string_emits:
  "length s \<le> SIZE_MAX \<Longrightarrow> pb_emits A (otlp_pb_string A (Some s)) (len_delim s)"
  by (simp add: otlp_pb_string_def bytes_emits)

lemma tag_key:
  assumes "valid_wire wt"
  shows "unat (push_bit 3 (ucast f :: u64) OR ucast (word_of_int wt :: u32)) = unat (f :: u32) * 8 + nat wt"
proof -
  let ?w = "ucast (word_of_int wt :: u32) :: u64"
  have w: "?w = take_bit 3 ?w" "unat ?w = nat wt"
    using assms by (auto simp: valid_wire_def wire_defs)
  have "unat (ucast f :: u64) = unat f"
    using unat_u32_lt [of f] by (simp add: unsigned_ucast_eq take_bit_nat_eq_self)
  then have p: "unat (push_bit 3 (ucast f :: u64)) = unat f * 8"
    using unat_u32_lt [of f]
    by (simp add: push_bit_eq_mult unat_word_ariths)
  have "push_bit 3 (ucast f :: u64) OR ?w = push_bit 3 (ucast f) + ?w"
    by (subst w(1), subst (2) w(1), rule disjunctive_add [symmetric])
       (auto simp: bit_simps)
  moreover have "nat wt < 8" using assms by (auto simp: valid_wire_def wire_defs)
  ultimately show ?thesis
    using unat_u32_lt [of f] by (simp add: unat_word_ariths p w(2))
qed

lemma tag_emits:
  assumes "f \<noteq> 0" "valid_wire wt"
  shows "pb_emits A (otlp_pb_tag A f wt) (tag_bytes f wt)"
proof -
  have "otlp_pb_tag A f wt =
      otlp_pb_varint A (push_bit 3 (ucast f) OR ucast (word_of_int wt :: u32))"
    using assms by (auto simp: otlp_pb_tag_def fun_eq_iff valid_wire_def Let_def)
  then show ?thesis
    using varint_emits [of A "push_bit 3 (ucast f) OR ucast (word_of_int wt :: u32)"]
    by (simp only: tag_bytes_def tag_key [OF assms(2)])
qed

section \<open>Field helpers\<close>

lemma valid_wire_consts [simp, intro!]:
  "valid_wire OTLP_PB_WIRE_VARINT" "valid_wire OTLP_PB_WIRE_FIXED64"
  "valid_wire OTLP_PB_WIRE_LEN" "valid_wire OTLP_PB_WIRE_FIXED32"
  by (simp_all add: valid_wire_def)

lemmas primitive_emits = varint_emits fixed64_emits fixed32_emits tag_emits bytes_emits
  string_emits pb.emits_ret_ok pb.emits_then_ok

lemma field_varint_emits: "f \<noteq> 0 \<Longrightarrow> pb_emits A (otlp_pb_field_varint A f v) (varint_field f v)"
  by (auto simp: otlp_pb_field_varint_def varint_field_def intro!: primitive_emits)

lemma field_fixed64_emits: "f \<noteq> 0 \<Longrightarrow> pb_emits A (otlp_pb_field_fixed64 A f v) (fixed64_field f v)"
  by (auto simp: otlp_pb_field_fixed64_def fixed64_field_def intro!: primitive_emits)

lemma field_fixed32_emits: "f \<noteq> 0 \<Longrightarrow> pb_emits A (otlp_pb_field_fixed32 A f v) (fixed32_field f v)"
  by (auto simp: otlp_pb_field_fixed32_def fixed32_field_def intro!: primitive_emits)

lemma cstr_at_0: "is_cstr s \<Longrightarrow> cstr_at s 0 = Some 0 \<longleftrightarrow> s = []"
  by (cases s) (auto simp: cstr_at_def is_cstr_def)

lemma field_string_emits:
  "f \<noteq> 0 \<Longrightarrow> is_cstr s \<Longrightarrow> length s \<le> SIZE_MAX \<Longrightarrow>
   pb_emits A (otlp_pb_field_string A f (Some s)) (len_field f s)"
  by (auto simp: otlp_pb_field_string_def len_field_def cstr_at_0 intro!: primitive_emits)

lemma field_string_null_emits: "pb_emits A (otlp_pb_field_string A f None) []"
  by (simp add: otlp_pb_field_string_def primitive_emits)

lemma field_bytes_emits:
  "f \<noteq> 0 \<Longrightarrow> length d \<le> SIZE_MAX \<Longrightarrow>
   pb_emits A (otlp_pb_field_bytes A f (Some d) (length d)) (len_field f d)"
  by (auto simp: otlp_pb_field_bytes_def len_field_def intro!: primitive_emits)

lemma field_message_emits:
  assumes "f \<noteq> 0" "length d \<le> SIZE_MAX"
  shows "pb_emits A (otlp_pb_field_message A f (Some d) (length d)) (len_field f d)"
proof -
  have u: "unat (word_of_nat (length d) :: u64) = length d"
    using assms(2) by (intro unat_of_nat_u64) (simp add: SIZE_MAX_def)
  have "pb_emits A (then_ok (otlp_pb_varint A (word_of_nat (length d)))
      (buf_append A (Some d) (length d))) (len_delim d)"
    using pb.emits_then_ok [OF varint_emits [of A "word_of_nat (length d)"] pb.put_emits [of A d]]
    by (simp add: len_delim_def u)
  with assms show ?thesis
    by (auto simp: otlp_pb_field_message_def len_field_def intro!: primitive_emits)
qed

lemmas field_emits = field_varint_emits field_fixed64_emits field_fixed32_emits
  field_string_emits field_bytes_emits field_message_emits

text \<open>A fresh buffer is empty and within the invariant, whatever it held before.\<close>

lemma buf_init_spec:
  assumes "otlp_pb_buf_init A n s = (st, s')" and "n \<le> SIZE_MAX"
  shows "pb_inv s' \<and> pb_content s' = [] \<and> (alloc_total A \<longrightarrow> st = OTLP_OK)"
  using assms
  by (cases s; cases "a_alloc A n (snd s)")
     (auto simp: otlp_pb_buf_init_def pb_inv_def pb_content_def Let_def OTLP_PB_SBO_SIZE_def
       SIZE_MAX_def alloc_total_def split: if_splits bool.splits prod.splits; metis fst_conv)

lemma buf_free_spec:
  "otlp_pb_buf_free s = (h, s') \<Longrightarrow>
   pb_inv s' \<and> pb_content s' = [] \<and> (h \<longleftrightarrow> pb_owns_heap (fst s)) \<and> \<not> pb_owns_heap (fst s')"
  by (cases s) (auto simp: otlp_pb_buf_free_def pb_inv_def pb_content_def)

lemma buf_reset_spec:
  "pb_inv s \<Longrightarrow> pb_inv (otlp_pb_buf_reset s) \<and> pb_content (otlp_pb_buf_reset s) = []"
  by (cases s) (auto simp: otlp_pb_buf_reset_def pb_inv_def pb_content_def)

text \<open>Evaluation of the encoder on concrete states.\<close>

lemmas pb_eval = otlp_pb_varint_def buf_append_def buf_reserve_def Let_def always_alloc_def
  budget_alloc_def varint_bytes_def varint_loop.simps SIZE_MAX_def OTLP_PB_SBO_SIZE_def
  otlp_pb_bytes_def then_ok_def grow_cap.simps pb_zero_def otlp_pb_tag_def wire_defs
  otlp_pb_field_message_def

section \<open>Properties\<close>

text \<open>
  \<open>otlp_pb_varint\<close> writes the canonical LEB128 encoding: the C loop with its ten-byte
  scratch array yields exactly \<open>leb128\<close> of the value, between one and ten bytes; on any
  failure nothing is written, the buffer invariant is kept, and it cannot fail when the
  allocator serves requests and the buffer stays within half the address space.
\<close>

theorem varint_is_leb128:
  assumes "pb_inv s" and "otlp_pb_varint A v s = (st, s')"
  shows "varint_bytes v = leb128 (unat v) \<and>
    1 \<le> length (varint_bytes v) \<and> length (varint_bytes v) \<le> 10 \<and>
    pb_inv s' \<and>
    pb_content s' = (if st = OTLP_OK then pb_content s @ leb128 (unat v) else pb_content s) \<and>
    (pb_fits A (length (pb_content s) + length (varint_bytes v)) \<longrightarrow> st = OTLP_OK)"
proof -
  have eq: "varint_bytes v = leb128 (unat v)" by (rule varint_bytes_leb128)
  have len: "1 \<le> length (varint_bytes v)" "length (varint_bytes v) \<le> 10"
    using unat_u64_lt [of v] length_leb128_u64 [of "unat v"]
    by (simp_all add: eq Suc_le_eq SIZE_MAX_def)
  have "st \<noteq> OTLP_OK \<Longrightarrow> pb_content s' = pb_content s"
    using assms buf_reserve_spec(2) [of s A "length (varint_bytes v)"]
    by (auto simp: otlp_pb_varint_def buf_append_def Let_def split: if_splits prod.splits)
  then have "pb_content s' = (if st = OTLP_OK then pb_content s @ leb128 (unat v) else pb_content s)"
    using emits_OK [OF varint_emits assms(1), of A v s'] assms(2) by auto
  moreover have "pb_fits A (length (pb_content s) + length (varint_bytes v)) \<longrightarrow> st = OTLP_OK"
    unfolding eq by (intro impI) (rule emits_total [OF varint_emits assms])
  ultimately show ?thesis
    using eq len emits_inv [OF varint_emits assms] by blast
qed

theorem varint_is_leb128_witness:
  "otlp_pb_varint always_alloc 300
     (\<lparr>pb_data = [1], pb_cap = 192, pb_owns_heap = False\<rparr>, ()) =
     (OTLP_OK, \<lparr>pb_data = [1, 172, 2], pb_cap = 192, pb_owns_heap = False\<rparr>, ()) \<and>
   varint_bytes 300 = leb128 300"
proof -
  let ?b = "\<lparr>pb_data = [1], pb_cap = 192, pb_owns_heap = False\<rparr> :: pb_buf"
  let ?b' = "\<lparr>pb_data = [1, 172, 2], pb_cap = 192, pb_owns_heap = False\<rparr> :: pb_buf"
  have inv: "pb_inv (?b, ())" by (simp add: pb_inv_def SIZE_MAX_def OTLP_PB_SBO_SIZE_def)
  have run: "otlp_pb_varint always_alloc 300 (?b, ()) = (OTLP_OK, ?b', ())"
    by (simp add: pb_eval)
  from varint_is_leb128 [OF inv run] run show ?thesis by simp
qed

text \<open>
  \<open>otlp_pb_field_message\<close> embeds a sub-message as tag, length and payload: it only ever
  appends, what a failing call leaves behind is a prefix of the field, the capacity invariant
  holds after every outcome (no write past the allocated bytes), and without allocation
  failure it succeeds.
\<close>

theorem field_message_append_only:
  assumes "pb_inv s" and "f \<noteq> 0" and "length d \<le> SIZE_MAX"
    and "otlp_pb_field_message A f (Some d) (length d) s = (st, s')"
  shows "pb_inv s' \<and>
    (\<exists>ys. pb_content s' = pb_content s @ ys \<and> prefix ys (len_field f d) \<and>
          (st = OTLP_OK \<longrightarrow> ys = len_field f d)) \<and>
    (pb_fits A (length (pb_content s) + length (len_field f d)) \<longrightarrow> st = OTLP_OK)"
  using field_message_emits [OF assms(2,3), of A] assms(1,4) unfolding emits_def by blast

theorem field_message_append_only_witness:
  "otlp_pb_field_message always_alloc 2 (Some [8, 1]) (length [8, 1 :: u8])
     (\<lparr>pb_data = [7], pb_cap = 192, pb_owns_heap = False\<rparr>, ()) =
     (OTLP_OK, \<lparr>pb_data = [7, 18, 2, 8, 1], pb_cap = 192, pb_owns_heap = False\<rparr>, ()) \<and>
   prefix [18, 2, 8, 1] (len_field 2 [8, 1])"
proof -
  let ?b = "\<lparr>pb_data = [7], pb_cap = 192, pb_owns_heap = False\<rparr> :: pb_buf"
  let ?b' = "\<lparr>pb_data = [7, 18, 2, 8, 1], pb_cap = 192, pb_owns_heap = False\<rparr> :: pb_buf"
  have inv: "pb_inv (?b, ())" by (simp add: pb_inv_def SIZE_MAX_def OTLP_PB_SBO_SIZE_def)
  have run: "otlp_pb_field_message always_alloc 2 (Some [8, 1]) (length [8, 1 :: u8]) (?b, ()) =
      (OTLP_OK, ?b', ())"
    by (simp add: pb_eval)
  have "length [8, 1 :: u8] \<le> SIZE_MAX" by (simp add: SIZE_MAX_def)
  from field_message_append_only [OF inv _ this run] run show ?thesis
    by (auto simp: pb_content_def)
qed

text \<open>
  \<open>otlp_pb_bytes\<close> is not atomic on failure, against the header comment of
  \<^verbatim>\<open>protobuf_encode.c\<close> ("atomic on failure: a partial write leaves the buf unchanged"): with
  the inline buffer one byte short of full and the allocator out of memory, the length
  prefix stays in the buffer although the call returns \<open>OTLP_ERR_NOMEM\<close>.
\<close>

theorem pb_bytes_not_atomic:
  "otlp_pb_bytes budget_alloc (Some [1, 2, 3]) 3
     (\<lparr>pb_data = replicate 191 0, pb_cap = OTLP_PB_SBO_SIZE, pb_owns_heap = False\<rparr>, 0) =
   (OTLP_ERR_NOMEM,
     \<lparr>pb_data = replicate 191 0 @ [3], pb_cap = OTLP_PB_SBO_SIZE, pb_owns_heap = False\<rparr>, 0)"
  by (simp add: pb_eval)

end
