(* ===== verification/Otlp_Schema.thy ===== *)
theory Otlp_Schema
  imports Pb_Encode
begin

text \<open>
  The field tables of \<^verbatim>\<open>src/otlp_schema.h\<close>: for every OTLP message the number, wire type,
  presence and repetition of its fields. The enum that indexes a table is a datatype, the
  designated-initializer array a function on it, so that
  \<open>fs_number (OTLP_SPAN_FIELDS OTLP_SPAN_FI_NAME)\<close> reads as the C expression does.
\<close>

datatype field_presence = OTLP_PRESENCE_DEFAULT_OMITTED | OTLP_PRESENCE_ALWAYS_EMIT

record field_spec =
  fs_name :: string
  fs_number :: u32
  fs_wire :: int
  fs_presence :: field_presence
  fs_repeated :: bool

abbreviation fspec :: "string \<Rightarrow> u32 \<Rightarrow> int \<Rightarrow> field_presence \<Rightarrow> bool \<Rightarrow> field_spec" where
  "fspec nm num wt pr rep \<equiv>
     \<lparr>fs_name = nm, fs_number = num, fs_wire = wt, fs_presence = pr, fs_repeated = rep\<rparr>"

datatype otlp_etsr_fi =
    OTLP_ETSR_FI_RESOURCE_SPANS

fun OTLP_ETSR_FIELDS :: "otlp_etsr_fi \<Rightarrow> field_spec" where
  "OTLP_ETSR_FIELDS OTLP_ETSR_FI_RESOURCE_SPANS =
     fspec ''resource_spans'' 1 OTLP_PB_WIRE_LEN
       OTLP_PRESENCE_DEFAULT_OMITTED True"

datatype otlp_rs_fi =
    OTLP_RS_FI_RESOURCE
  | OTLP_RS_FI_SCOPE_SPANS
  | OTLP_RS_FI_SCHEMA_URL

fun OTLP_RS_FIELDS :: "otlp_rs_fi \<Rightarrow> field_spec" where
  "OTLP_RS_FIELDS OTLP_RS_FI_RESOURCE =
     fspec ''resource'' 1 OTLP_PB_WIRE_LEN
       OTLP_PRESENCE_DEFAULT_OMITTED False"
| "OTLP_RS_FIELDS OTLP_RS_FI_SCOPE_SPANS =
     fspec ''scope_spans'' 2 OTLP_PB_WIRE_LEN
       OTLP_PRESENCE_DEFAULT_OMITTED True"
| "OTLP_RS_FIELDS OTLP_RS_FI_SCHEMA_URL =
     fspec ''schema_url'' 3 OTLP_PB_WIRE_LEN
       OTLP_PRESENCE_DEFAULT_OMITTED False"

datatype otlp_r_fi =
    OTLP_R_FI_ATTRIBUTES
  | OTLP_R_FI_DROPPED_ATTRS

fun OTLP_R_FIELDS :: "otlp_r_fi \<Rightarrow> field_spec" where
  "OTLP_R_FIELDS OTLP_R_FI_ATTRIBUTES =
     fspec ''attributes'' 1 OTLP_PB_WIRE_LEN
       OTLP_PRESENCE_DEFAULT_OMITTED True"
| "OTLP_R_FIELDS OTLP_R_FI_DROPPED_ATTRS =
     fspec ''dropped_attributes_count'' 2 OTLP_PB_WIRE_VARINT
       OTLP_PRESENCE_DEFAULT_OMITTED False"

datatype otlp_ss_fi =
    OTLP_SS_FI_SCOPE
  | OTLP_SS_FI_SPANS
  | OTLP_SS_FI_SCHEMA_URL

fun OTLP_SS_FIELDS :: "otlp_ss_fi \<Rightarrow> field_spec" where
  "OTLP_SS_FIELDS OTLP_SS_FI_SCOPE =
     fspec ''scope'' 1 OTLP_PB_WIRE_LEN
       OTLP_PRESENCE_DEFAULT_OMITTED False"
| "OTLP_SS_FIELDS OTLP_SS_FI_SPANS =
     fspec ''spans'' 2 OTLP_PB_WIRE_LEN
       OTLP_PRESENCE_DEFAULT_OMITTED True"
| "OTLP_SS_FIELDS OTLP_SS_FI_SCHEMA_URL =
     fspec ''schema_url'' 3 OTLP_PB_WIRE_LEN
       OTLP_PRESENCE_DEFAULT_OMITTED False"

datatype otlp_is_fi =
    OTLP_IS_FI_NAME
  | OTLP_IS_FI_VERSION
  | OTLP_IS_FI_ATTRIBUTES
  | OTLP_IS_FI_DROPPED_ATTRS

fun OTLP_IS_FIELDS :: "otlp_is_fi \<Rightarrow> field_spec" where
  "OTLP_IS_FIELDS OTLP_IS_FI_NAME =
     fspec ''name'' 1 OTLP_PB_WIRE_LEN
       OTLP_PRESENCE_DEFAULT_OMITTED False"
| "OTLP_IS_FIELDS OTLP_IS_FI_VERSION =
     fspec ''version'' 2 OTLP_PB_WIRE_LEN
       OTLP_PRESENCE_DEFAULT_OMITTED False"
| "OTLP_IS_FIELDS OTLP_IS_FI_ATTRIBUTES =
     fspec ''attributes'' 3 OTLP_PB_WIRE_LEN
       OTLP_PRESENCE_DEFAULT_OMITTED True"
| "OTLP_IS_FIELDS OTLP_IS_FI_DROPPED_ATTRS =
     fspec ''dropped_attributes_count'' 4 OTLP_PB_WIRE_VARINT
       OTLP_PRESENCE_DEFAULT_OMITTED False"

datatype otlp_span_fi =
    OTLP_SPAN_FI_TRACE_ID
  | OTLP_SPAN_FI_SPAN_ID
  | OTLP_SPAN_FI_TRACE_STATE
  | OTLP_SPAN_FI_PARENT_SPAN_ID
  | OTLP_SPAN_FI_NAME
  | OTLP_SPAN_FI_KIND
  | OTLP_SPAN_FI_START_TIME
  | OTLP_SPAN_FI_END_TIME
  | OTLP_SPAN_FI_ATTRIBUTES
  | OTLP_SPAN_FI_DROPPED_ATTRS
  | OTLP_SPAN_FI_EVENTS
  | OTLP_SPAN_FI_DROPPED_EVENTS
  | OTLP_SPAN_FI_LINKS
  | OTLP_SPAN_FI_DROPPED_LINKS
  | OTLP_SPAN_FI_STATUS
  | OTLP_SPAN_FI_FLAGS

fun OTLP_SPAN_FIELDS :: "otlp_span_fi \<Rightarrow> field_spec" where
  "OTLP_SPAN_FIELDS OTLP_SPAN_FI_TRACE_ID =
     fspec ''trace_id'' 1 OTLP_PB_WIRE_LEN
       OTLP_PRESENCE_ALWAYS_EMIT False"
| "OTLP_SPAN_FIELDS OTLP_SPAN_FI_SPAN_ID =
     fspec ''span_id'' 2 OTLP_PB_WIRE_LEN
       OTLP_PRESENCE_ALWAYS_EMIT False"
| "OTLP_SPAN_FIELDS OTLP_SPAN_FI_TRACE_STATE =
     fspec ''trace_state'' 3 OTLP_PB_WIRE_LEN
       OTLP_PRESENCE_DEFAULT_OMITTED False"
| "OTLP_SPAN_FIELDS OTLP_SPAN_FI_PARENT_SPAN_ID =
     fspec ''parent_span_id'' 4 OTLP_PB_WIRE_LEN
       OTLP_PRESENCE_DEFAULT_OMITTED False"
| "OTLP_SPAN_FIELDS OTLP_SPAN_FI_NAME =
     fspec ''name'' 5 OTLP_PB_WIRE_LEN
       OTLP_PRESENCE_DEFAULT_OMITTED False"
| "OTLP_SPAN_FIELDS OTLP_SPAN_FI_KIND =
     fspec ''kind'' 6 OTLP_PB_WIRE_VARINT
       OTLP_PRESENCE_DEFAULT_OMITTED False"
| "OTLP_SPAN_FIELDS OTLP_SPAN_FI_START_TIME =
     fspec ''start_time_unix_nano'' 7 OTLP_PB_WIRE_FIXED64
       OTLP_PRESENCE_ALWAYS_EMIT False"
| "OTLP_SPAN_FIELDS OTLP_SPAN_FI_END_TIME =
     fspec ''end_time_unix_nano'' 8 OTLP_PB_WIRE_FIXED64
       OTLP_PRESENCE_ALWAYS_EMIT False"
| "OTLP_SPAN_FIELDS OTLP_SPAN_FI_ATTRIBUTES =
     fspec ''attributes'' 9 OTLP_PB_WIRE_LEN
       OTLP_PRESENCE_DEFAULT_OMITTED True"
| "OTLP_SPAN_FIELDS OTLP_SPAN_FI_DROPPED_ATTRS =
     fspec ''dropped_attributes_count'' 10 OTLP_PB_WIRE_VARINT
       OTLP_PRESENCE_DEFAULT_OMITTED False"
| "OTLP_SPAN_FIELDS OTLP_SPAN_FI_EVENTS =
     fspec ''events'' 11 OTLP_PB_WIRE_LEN
       OTLP_PRESENCE_DEFAULT_OMITTED True"
| "OTLP_SPAN_FIELDS OTLP_SPAN_FI_DROPPED_EVENTS =
     fspec ''dropped_events_count'' 12 OTLP_PB_WIRE_VARINT
       OTLP_PRESENCE_DEFAULT_OMITTED False"
| "OTLP_SPAN_FIELDS OTLP_SPAN_FI_LINKS =
     fspec ''links'' 13 OTLP_PB_WIRE_LEN
       OTLP_PRESENCE_DEFAULT_OMITTED True"
| "OTLP_SPAN_FIELDS OTLP_SPAN_FI_DROPPED_LINKS =
     fspec ''dropped_links_count'' 14 OTLP_PB_WIRE_VARINT
       OTLP_PRESENCE_DEFAULT_OMITTED False"
| "OTLP_SPAN_FIELDS OTLP_SPAN_FI_STATUS =
     fspec ''status'' 15 OTLP_PB_WIRE_LEN
       OTLP_PRESENCE_DEFAULT_OMITTED False"
| "OTLP_SPAN_FIELDS OTLP_SPAN_FI_FLAGS =
     fspec ''flags'' 16 OTLP_PB_WIRE_FIXED32
       OTLP_PRESENCE_DEFAULT_OMITTED False"

datatype otlp_status_fi =
    OTLP_STATUS_FI_MESSAGE
  | OTLP_STATUS_FI_CODE

fun OTLP_STATUS_FIELDS :: "otlp_status_fi \<Rightarrow> field_spec" where
  "OTLP_STATUS_FIELDS OTLP_STATUS_FI_MESSAGE =
     fspec ''message'' 2 OTLP_PB_WIRE_LEN
       OTLP_PRESENCE_DEFAULT_OMITTED False"
| "OTLP_STATUS_FIELDS OTLP_STATUS_FI_CODE =
     fspec ''code'' 3 OTLP_PB_WIRE_VARINT
       OTLP_PRESENCE_DEFAULT_OMITTED False"

datatype otlp_kv_fi =
    OTLP_KV_FI_KEY
  | OTLP_KV_FI_VALUE

fun OTLP_KV_FIELDS :: "otlp_kv_fi \<Rightarrow> field_spec" where
  "OTLP_KV_FIELDS OTLP_KV_FI_KEY =
     fspec ''key'' 1 OTLP_PB_WIRE_LEN
       OTLP_PRESENCE_ALWAYS_EMIT False"
| "OTLP_KV_FIELDS OTLP_KV_FI_VALUE =
     fspec ''value'' 2 OTLP_PB_WIRE_LEN
       OTLP_PRESENCE_ALWAYS_EMIT False"

datatype otlp_av_fi =
    OTLP_AV_FI_STRING
  | OTLP_AV_FI_BOOL
  | OTLP_AV_FI_INT64
  | OTLP_AV_FI_DOUBLE
  | OTLP_AV_FI_ARRAY_VALUE
  | OTLP_AV_FI_KVLIST_VALUE
  | OTLP_AV_FI_BYTES

fun OTLP_AV_FIELDS :: "otlp_av_fi \<Rightarrow> field_spec" where
  "OTLP_AV_FIELDS OTLP_AV_FI_STRING =
     fspec ''string_value'' 1 OTLP_PB_WIRE_LEN
       OTLP_PRESENCE_ALWAYS_EMIT False"
| "OTLP_AV_FIELDS OTLP_AV_FI_BOOL =
     fspec ''bool_value'' 2 OTLP_PB_WIRE_VARINT
       OTLP_PRESENCE_ALWAYS_EMIT False"
| "OTLP_AV_FIELDS OTLP_AV_FI_INT64 =
     fspec ''int_value'' 3 OTLP_PB_WIRE_VARINT
       OTLP_PRESENCE_ALWAYS_EMIT False"
| "OTLP_AV_FIELDS OTLP_AV_FI_DOUBLE =
     fspec ''double_value'' 4 OTLP_PB_WIRE_FIXED64
       OTLP_PRESENCE_ALWAYS_EMIT False"
| "OTLP_AV_FIELDS OTLP_AV_FI_ARRAY_VALUE =
     fspec ''array_value'' 5 OTLP_PB_WIRE_LEN
       OTLP_PRESENCE_ALWAYS_EMIT False"
| "OTLP_AV_FIELDS OTLP_AV_FI_KVLIST_VALUE =
     fspec ''kvlist_value'' 6 OTLP_PB_WIRE_LEN
       OTLP_PRESENCE_ALWAYS_EMIT False"
| "OTLP_AV_FIELDS OTLP_AV_FI_BYTES =
     fspec ''bytes_value'' 7 OTLP_PB_WIRE_LEN
       OTLP_PRESENCE_ALWAYS_EMIT False"

datatype otlp_av_array_fi =
    OTLP_AV_ARRAY_FI_VALUES

fun OTLP_AV_ARRAY_FIELDS :: "otlp_av_array_fi \<Rightarrow> field_spec" where
  "OTLP_AV_ARRAY_FIELDS OTLP_AV_ARRAY_FI_VALUES =
     fspec ''values'' 1 OTLP_PB_WIRE_LEN
       OTLP_PRESENCE_DEFAULT_OMITTED True"

datatype otlp_kvlist_fi =
    OTLP_KVLIST_FI_VALUES

fun OTLP_KVLIST_FIELDS :: "otlp_kvlist_fi \<Rightarrow> field_spec" where
  "OTLP_KVLIST_FIELDS OTLP_KVLIST_FI_VALUES =
     fspec ''values'' 1 OTLP_PB_WIRE_LEN
       OTLP_PRESENCE_DEFAULT_OMITTED True"

datatype otlp_event_fi =
    OTLP_EVENT_FI_TIME
  | OTLP_EVENT_FI_NAME
  | OTLP_EVENT_FI_ATTRIBUTES
  | OTLP_EVENT_FI_DROPPED_ATTRS

fun OTLP_EVENT_FIELDS :: "otlp_event_fi \<Rightarrow> field_spec" where
  "OTLP_EVENT_FIELDS OTLP_EVENT_FI_TIME =
     fspec ''time_unix_nano'' 1 OTLP_PB_WIRE_FIXED64
       OTLP_PRESENCE_DEFAULT_OMITTED False"
| "OTLP_EVENT_FIELDS OTLP_EVENT_FI_NAME =
     fspec ''name'' 2 OTLP_PB_WIRE_LEN
       OTLP_PRESENCE_DEFAULT_OMITTED False"
| "OTLP_EVENT_FIELDS OTLP_EVENT_FI_ATTRIBUTES =
     fspec ''attributes'' 3 OTLP_PB_WIRE_LEN
       OTLP_PRESENCE_DEFAULT_OMITTED True"
| "OTLP_EVENT_FIELDS OTLP_EVENT_FI_DROPPED_ATTRS =
     fspec ''dropped_attributes_count'' 4 OTLP_PB_WIRE_VARINT
       OTLP_PRESENCE_DEFAULT_OMITTED False"

datatype otlp_link_fi =
    OTLP_LINK_FI_TRACE_ID
  | OTLP_LINK_FI_SPAN_ID
  | OTLP_LINK_FI_TRACE_STATE
  | OTLP_LINK_FI_ATTRIBUTES
  | OTLP_LINK_FI_DROPPED_ATTRS
  | OTLP_LINK_FI_FLAGS

fun OTLP_LINK_FIELDS :: "otlp_link_fi \<Rightarrow> field_spec" where
  "OTLP_LINK_FIELDS OTLP_LINK_FI_TRACE_ID =
     fspec ''trace_id'' 1 OTLP_PB_WIRE_LEN
       OTLP_PRESENCE_DEFAULT_OMITTED False"
| "OTLP_LINK_FIELDS OTLP_LINK_FI_SPAN_ID =
     fspec ''span_id'' 2 OTLP_PB_WIRE_LEN
       OTLP_PRESENCE_DEFAULT_OMITTED False"
| "OTLP_LINK_FIELDS OTLP_LINK_FI_TRACE_STATE =
     fspec ''trace_state'' 3 OTLP_PB_WIRE_LEN
       OTLP_PRESENCE_DEFAULT_OMITTED False"
| "OTLP_LINK_FIELDS OTLP_LINK_FI_ATTRIBUTES =
     fspec ''attributes'' 4 OTLP_PB_WIRE_LEN
       OTLP_PRESENCE_DEFAULT_OMITTED True"
| "OTLP_LINK_FIELDS OTLP_LINK_FI_DROPPED_ATTRS =
     fspec ''dropped_attributes_count'' 5 OTLP_PB_WIRE_VARINT
       OTLP_PRESENCE_DEFAULT_OMITTED False"
| "OTLP_LINK_FIELDS OTLP_LINK_FI_FLAGS =
     fspec ''flags'' 6 OTLP_PB_WIRE_FIXED32
       OTLP_PRESENCE_DEFAULT_OMITTED False"

datatype otlp_emsr_fi =
    OTLP_EMSR_FI_RESOURCE_METRICS

fun OTLP_EMSR_FIELDS :: "otlp_emsr_fi \<Rightarrow> field_spec" where
  "OTLP_EMSR_FIELDS OTLP_EMSR_FI_RESOURCE_METRICS =
     fspec ''resource_metrics'' 1 OTLP_PB_WIRE_LEN
       OTLP_PRESENCE_DEFAULT_OMITTED True"

datatype otlp_rm_fi =
    OTLP_RM_FI_RESOURCE
  | OTLP_RM_FI_SCOPE_METRICS
  | OTLP_RM_FI_SCHEMA_URL

fun OTLP_RM_FIELDS :: "otlp_rm_fi \<Rightarrow> field_spec" where
  "OTLP_RM_FIELDS OTLP_RM_FI_RESOURCE =
     fspec ''resource'' 1 OTLP_PB_WIRE_LEN
       OTLP_PRESENCE_DEFAULT_OMITTED False"
| "OTLP_RM_FIELDS OTLP_RM_FI_SCOPE_METRICS =
     fspec ''scope_metrics'' 2 OTLP_PB_WIRE_LEN
       OTLP_PRESENCE_DEFAULT_OMITTED True"
| "OTLP_RM_FIELDS OTLP_RM_FI_SCHEMA_URL =
     fspec ''schema_url'' 3 OTLP_PB_WIRE_LEN
       OTLP_PRESENCE_DEFAULT_OMITTED False"

datatype otlp_sm_fi =
    OTLP_SM_FI_SCOPE
  | OTLP_SM_FI_METRICS
  | OTLP_SM_FI_SCHEMA_URL

fun OTLP_SM_FIELDS :: "otlp_sm_fi \<Rightarrow> field_spec" where
  "OTLP_SM_FIELDS OTLP_SM_FI_SCOPE =
     fspec ''scope'' 1 OTLP_PB_WIRE_LEN
       OTLP_PRESENCE_DEFAULT_OMITTED False"
| "OTLP_SM_FIELDS OTLP_SM_FI_METRICS =
     fspec ''metrics'' 2 OTLP_PB_WIRE_LEN
       OTLP_PRESENCE_DEFAULT_OMITTED True"
| "OTLP_SM_FIELDS OTLP_SM_FI_SCHEMA_URL =
     fspec ''schema_url'' 3 OTLP_PB_WIRE_LEN
       OTLP_PRESENCE_DEFAULT_OMITTED False"

datatype otlp_metric_fi =
    OTLP_METRIC_FI_NAME
  | OTLP_METRIC_FI_DESCRIPTION
  | OTLP_METRIC_FI_UNIT
  | OTLP_METRIC_FI_GAUGE
  | OTLP_METRIC_FI_SUM
  | OTLP_METRIC_FI_HISTOGRAM
  | OTLP_METRIC_FI_EXP_HISTOGRAM

fun OTLP_METRIC_FIELDS :: "otlp_metric_fi \<Rightarrow> field_spec" where
  "OTLP_METRIC_FIELDS OTLP_METRIC_FI_NAME =
     fspec ''name'' 1 OTLP_PB_WIRE_LEN
       OTLP_PRESENCE_DEFAULT_OMITTED False"
| "OTLP_METRIC_FIELDS OTLP_METRIC_FI_DESCRIPTION =
     fspec ''description'' 2 OTLP_PB_WIRE_LEN
       OTLP_PRESENCE_DEFAULT_OMITTED False"
| "OTLP_METRIC_FIELDS OTLP_METRIC_FI_UNIT =
     fspec ''unit'' 3 OTLP_PB_WIRE_LEN
       OTLP_PRESENCE_DEFAULT_OMITTED False"
| "OTLP_METRIC_FIELDS OTLP_METRIC_FI_GAUGE =
     fspec ''gauge'' 5 OTLP_PB_WIRE_LEN
       OTLP_PRESENCE_DEFAULT_OMITTED False"
| "OTLP_METRIC_FIELDS OTLP_METRIC_FI_SUM =
     fspec ''sum'' 7 OTLP_PB_WIRE_LEN
       OTLP_PRESENCE_DEFAULT_OMITTED False"
| "OTLP_METRIC_FIELDS OTLP_METRIC_FI_HISTOGRAM =
     fspec ''histogram'' 9 OTLP_PB_WIRE_LEN
       OTLP_PRESENCE_DEFAULT_OMITTED False"
| "OTLP_METRIC_FIELDS OTLP_METRIC_FI_EXP_HISTOGRAM =
     fspec ''exponential_histogram'' 10 OTLP_PB_WIRE_LEN
       OTLP_PRESENCE_DEFAULT_OMITTED False"

datatype otlp_sum_fi =
    OTLP_SUM_FI_DATA_POINTS
  | OTLP_SUM_FI_AGG_TEMP
  | OTLP_SUM_FI_IS_MONOTONIC

fun OTLP_SUM_FIELDS :: "otlp_sum_fi \<Rightarrow> field_spec" where
  "OTLP_SUM_FIELDS OTLP_SUM_FI_DATA_POINTS =
     fspec ''data_points'' 1 OTLP_PB_WIRE_LEN
       OTLP_PRESENCE_DEFAULT_OMITTED True"
| "OTLP_SUM_FIELDS OTLP_SUM_FI_AGG_TEMP =
     fspec ''aggregation_temporality'' 2 OTLP_PB_WIRE_VARINT
       OTLP_PRESENCE_DEFAULT_OMITTED False"
| "OTLP_SUM_FIELDS OTLP_SUM_FI_IS_MONOTONIC =
     fspec ''is_monotonic'' 3 OTLP_PB_WIRE_VARINT
       OTLP_PRESENCE_DEFAULT_OMITTED False"

datatype otlp_gauge_fi =
    OTLP_GAUGE_FI_DATA_POINTS

fun OTLP_GAUGE_FIELDS :: "otlp_gauge_fi \<Rightarrow> field_spec" where
  "OTLP_GAUGE_FIELDS OTLP_GAUGE_FI_DATA_POINTS =
     fspec ''data_points'' 1 OTLP_PB_WIRE_LEN
       OTLP_PRESENCE_DEFAULT_OMITTED True"

datatype otlp_hist_fi =
    OTLP_HIST_FI_DATA_POINTS
  | OTLP_HIST_FI_AGG_TEMP

fun OTLP_HIST_FIELDS :: "otlp_hist_fi \<Rightarrow> field_spec" where
  "OTLP_HIST_FIELDS OTLP_HIST_FI_DATA_POINTS =
     fspec ''data_points'' 1 OTLP_PB_WIRE_LEN
       OTLP_PRESENCE_DEFAULT_OMITTED True"
| "OTLP_HIST_FIELDS OTLP_HIST_FI_AGG_TEMP =
     fspec ''aggregation_temporality'' 2 OTLP_PB_WIRE_VARINT
       OTLP_PRESENCE_DEFAULT_OMITTED False"

datatype otlp_eh_fi =
    OTLP_EH_FI_DATA_POINTS
  | OTLP_EH_FI_AGG_TEMP

fun OTLP_EH_FIELDS :: "otlp_eh_fi \<Rightarrow> field_spec" where
  "OTLP_EH_FIELDS OTLP_EH_FI_DATA_POINTS =
     fspec ''data_points'' 1 OTLP_PB_WIRE_LEN
       OTLP_PRESENCE_DEFAULT_OMITTED True"
| "OTLP_EH_FIELDS OTLP_EH_FI_AGG_TEMP =
     fspec ''aggregation_temporality'' 2 OTLP_PB_WIRE_VARINT
       OTLP_PRESENCE_DEFAULT_OMITTED False"

datatype otlp_ex_fi =
    OTLP_EX_FI_FILTERED_ATTRIBUTES
  | OTLP_EX_FI_DOUBLE_VALUE
  | OTLP_EX_FI_INT_VALUE
  | OTLP_EX_FI_TRACE_ID
  | OTLP_EX_FI_SPAN_ID
  | OTLP_EX_FI_TIME

fun OTLP_EX_FIELDS :: "otlp_ex_fi \<Rightarrow> field_spec" where
  "OTLP_EX_FIELDS OTLP_EX_FI_TIME =
     fspec ''time_unix_nano'' 2 OTLP_PB_WIRE_FIXED64
       OTLP_PRESENCE_DEFAULT_OMITTED False"
| "OTLP_EX_FIELDS OTLP_EX_FI_DOUBLE_VALUE =
     fspec ''as_double'' 3 OTLP_PB_WIRE_FIXED64
       OTLP_PRESENCE_DEFAULT_OMITTED False"
| "OTLP_EX_FIELDS OTLP_EX_FI_SPAN_ID =
     fspec ''span_id'' 4 OTLP_PB_WIRE_LEN
       OTLP_PRESENCE_DEFAULT_OMITTED False"
| "OTLP_EX_FIELDS OTLP_EX_FI_TRACE_ID =
     fspec ''trace_id'' 5 OTLP_PB_WIRE_LEN
       OTLP_PRESENCE_DEFAULT_OMITTED False"
| "OTLP_EX_FIELDS OTLP_EX_FI_INT_VALUE =
     fspec ''as_int'' 6 OTLP_PB_WIRE_FIXED64
       OTLP_PRESENCE_DEFAULT_OMITTED False"
| "OTLP_EX_FIELDS OTLP_EX_FI_FILTERED_ATTRIBUTES =
     fspec ''filtered_attributes'' 7 OTLP_PB_WIRE_LEN
       OTLP_PRESENCE_DEFAULT_OMITTED True"

datatype otlp_ndp_fi =
    OTLP_NDP_FI_START_TIME
  | OTLP_NDP_FI_TIME
  | OTLP_NDP_FI_AS_DOUBLE
  | OTLP_NDP_FI_ATTRIBUTES
  | OTLP_NDP_FI_EXEMPLARS

fun OTLP_NDP_FIELDS :: "otlp_ndp_fi \<Rightarrow> field_spec" where
  "OTLP_NDP_FIELDS OTLP_NDP_FI_START_TIME =
     fspec ''start_time_unix_nano'' 2 OTLP_PB_WIRE_FIXED64
       OTLP_PRESENCE_DEFAULT_OMITTED False"
| "OTLP_NDP_FIELDS OTLP_NDP_FI_TIME =
     fspec ''time_unix_nano'' 3 OTLP_PB_WIRE_FIXED64
       OTLP_PRESENCE_DEFAULT_OMITTED False"
| "OTLP_NDP_FIELDS OTLP_NDP_FI_AS_DOUBLE =
     fspec ''as_double'' 4 OTLP_PB_WIRE_FIXED64
       OTLP_PRESENCE_DEFAULT_OMITTED False"
| "OTLP_NDP_FIELDS OTLP_NDP_FI_ATTRIBUTES =
     fspec ''attributes'' 7 OTLP_PB_WIRE_LEN
       OTLP_PRESENCE_DEFAULT_OMITTED True"
| "OTLP_NDP_FIELDS OTLP_NDP_FI_EXEMPLARS =
     fspec ''exemplars'' 5 OTLP_PB_WIRE_LEN
       OTLP_PRESENCE_DEFAULT_OMITTED True"

datatype otlp_hdp_fi =
    OTLP_HDP_FI_START_TIME
  | OTLP_HDP_FI_TIME
  | OTLP_HDP_FI_COUNT
  | OTLP_HDP_FI_SUM
  | OTLP_HDP_FI_BUCKET_COUNTS
  | OTLP_HDP_FI_EXPLICIT_BOUNDS
  | OTLP_HDP_FI_EXEMPLARS
  | OTLP_HDP_FI_ATTRIBUTES
  | OTLP_HDP_FI_MIN
  | OTLP_HDP_FI_MAX

fun OTLP_HDP_FIELDS :: "otlp_hdp_fi \<Rightarrow> field_spec" where
  "OTLP_HDP_FIELDS OTLP_HDP_FI_START_TIME =
     fspec ''start_time_unix_nano'' 2 OTLP_PB_WIRE_FIXED64
       OTLP_PRESENCE_DEFAULT_OMITTED False"
| "OTLP_HDP_FIELDS OTLP_HDP_FI_TIME =
     fspec ''time_unix_nano'' 3 OTLP_PB_WIRE_FIXED64
       OTLP_PRESENCE_DEFAULT_OMITTED False"
| "OTLP_HDP_FIELDS OTLP_HDP_FI_COUNT =
     fspec ''count'' 4 OTLP_PB_WIRE_FIXED64
       OTLP_PRESENCE_ALWAYS_EMIT False"
| "OTLP_HDP_FIELDS OTLP_HDP_FI_SUM =
     fspec ''sum'' 5 OTLP_PB_WIRE_FIXED64
       OTLP_PRESENCE_DEFAULT_OMITTED False"
| "OTLP_HDP_FIELDS OTLP_HDP_FI_BUCKET_COUNTS =
     fspec ''bucket_counts'' 6 OTLP_PB_WIRE_LEN
       OTLP_PRESENCE_DEFAULT_OMITTED True"
| "OTLP_HDP_FIELDS OTLP_HDP_FI_EXPLICIT_BOUNDS =
     fspec ''explicit_bounds'' 7 OTLP_PB_WIRE_LEN
       OTLP_PRESENCE_DEFAULT_OMITTED True"
| "OTLP_HDP_FIELDS OTLP_HDP_FI_EXEMPLARS =
     fspec ''exemplars'' 8 OTLP_PB_WIRE_LEN
       OTLP_PRESENCE_DEFAULT_OMITTED True"
| "OTLP_HDP_FIELDS OTLP_HDP_FI_ATTRIBUTES =
     fspec ''attributes'' 9 OTLP_PB_WIRE_LEN
       OTLP_PRESENCE_DEFAULT_OMITTED True"
| "OTLP_HDP_FIELDS OTLP_HDP_FI_MIN =
     fspec ''min'' 11 OTLP_PB_WIRE_FIXED64
       OTLP_PRESENCE_DEFAULT_OMITTED False"
| "OTLP_HDP_FIELDS OTLP_HDP_FI_MAX =
     fspec ''max'' 12 OTLP_PB_WIRE_FIXED64
       OTLP_PRESENCE_DEFAULT_OMITTED False"

datatype otlp_ehdp_fi =
    OTLP_EHDP_FI_ATTRIBUTES
  | OTLP_EHDP_FI_START_TIME
  | OTLP_EHDP_FI_TIME
  | OTLP_EHDP_FI_COUNT
  | OTLP_EHDP_FI_SUM
  | OTLP_EHDP_FI_SCALE
  | OTLP_EHDP_FI_ZERO_COUNT
  | OTLP_EHDP_FI_POSITIVE
  | OTLP_EHDP_FI_NEGATIVE
  | OTLP_EHDP_FI_FLAGS

fun OTLP_EHDP_FIELDS :: "otlp_ehdp_fi \<Rightarrow> field_spec" where
  "OTLP_EHDP_FIELDS OTLP_EHDP_FI_ATTRIBUTES =
     fspec ''attributes'' 1 OTLP_PB_WIRE_LEN
       OTLP_PRESENCE_DEFAULT_OMITTED True"
| "OTLP_EHDP_FIELDS OTLP_EHDP_FI_START_TIME =
     fspec ''start_time_unix_nano'' 2 OTLP_PB_WIRE_FIXED64
       OTLP_PRESENCE_DEFAULT_OMITTED False"
| "OTLP_EHDP_FIELDS OTLP_EHDP_FI_TIME =
     fspec ''time_unix_nano'' 3 OTLP_PB_WIRE_FIXED64
       OTLP_PRESENCE_DEFAULT_OMITTED False"
| "OTLP_EHDP_FIELDS OTLP_EHDP_FI_COUNT =
     fspec ''count'' 4 OTLP_PB_WIRE_FIXED64
       OTLP_PRESENCE_ALWAYS_EMIT False"
| "OTLP_EHDP_FIELDS OTLP_EHDP_FI_SUM =
     fspec ''sum'' 5 OTLP_PB_WIRE_FIXED64
       OTLP_PRESENCE_DEFAULT_OMITTED False"
| "OTLP_EHDP_FIELDS OTLP_EHDP_FI_SCALE =
     fspec ''scale'' 6 OTLP_PB_WIRE_VARINT
       OTLP_PRESENCE_DEFAULT_OMITTED False"
| "OTLP_EHDP_FIELDS OTLP_EHDP_FI_ZERO_COUNT =
     fspec ''zero_count'' 7 OTLP_PB_WIRE_FIXED64
       OTLP_PRESENCE_DEFAULT_OMITTED False"
| "OTLP_EHDP_FIELDS OTLP_EHDP_FI_POSITIVE =
     fspec ''positive'' 8 OTLP_PB_WIRE_LEN
       OTLP_PRESENCE_DEFAULT_OMITTED False"
| "OTLP_EHDP_FIELDS OTLP_EHDP_FI_NEGATIVE =
     fspec ''negative'' 9 OTLP_PB_WIRE_LEN
       OTLP_PRESENCE_DEFAULT_OMITTED False"
| "OTLP_EHDP_FIELDS OTLP_EHDP_FI_FLAGS =
     fspec ''flags'' 10 OTLP_PB_WIRE_VARINT
       OTLP_PRESENCE_DEFAULT_OMITTED False"

datatype otlp_ehb_fi =
    OTLP_EHB_FI_OFFSET
  | OTLP_EHB_FI_BUCKET_COUNTS

fun OTLP_EHB_FIELDS :: "otlp_ehb_fi \<Rightarrow> field_spec" where
  "OTLP_EHB_FIELDS OTLP_EHB_FI_OFFSET =
     fspec ''offset'' 1 OTLP_PB_WIRE_VARINT
       OTLP_PRESENCE_DEFAULT_OMITTED False"
| "OTLP_EHB_FIELDS OTLP_EHB_FI_BUCKET_COUNTS =
     fspec ''bucket_counts'' 2 OTLP_PB_WIRE_LEN
       OTLP_PRESENCE_DEFAULT_OMITTED True"

datatype otlp_elsr_fi =
    OTLP_ELSR_FI_RESOURCE_LOGS

fun OTLP_ELSR_FIELDS :: "otlp_elsr_fi \<Rightarrow> field_spec" where
  "OTLP_ELSR_FIELDS OTLP_ELSR_FI_RESOURCE_LOGS =
     fspec ''resource_logs'' 1 OTLP_PB_WIRE_LEN
       OTLP_PRESENCE_DEFAULT_OMITTED True"

datatype otlp_rl_fi =
    OTLP_RL_FI_RESOURCE
  | OTLP_RL_FI_SCOPE_LOGS
  | OTLP_RL_FI_SCHEMA_URL

fun OTLP_RL_FIELDS :: "otlp_rl_fi \<Rightarrow> field_spec" where
  "OTLP_RL_FIELDS OTLP_RL_FI_RESOURCE =
     fspec ''resource'' 1 OTLP_PB_WIRE_LEN
       OTLP_PRESENCE_DEFAULT_OMITTED False"
| "OTLP_RL_FIELDS OTLP_RL_FI_SCOPE_LOGS =
     fspec ''scope_logs'' 2 OTLP_PB_WIRE_LEN
       OTLP_PRESENCE_DEFAULT_OMITTED True"
| "OTLP_RL_FIELDS OTLP_RL_FI_SCHEMA_URL =
     fspec ''schema_url'' 3 OTLP_PB_WIRE_LEN
       OTLP_PRESENCE_DEFAULT_OMITTED False"

datatype otlp_sl_fi =
    OTLP_SL_FI_SCOPE
  | OTLP_SL_FI_LOG_RECORDS
  | OTLP_SL_FI_SCHEMA_URL

fun OTLP_SL_FIELDS :: "otlp_sl_fi \<Rightarrow> field_spec" where
  "OTLP_SL_FIELDS OTLP_SL_FI_SCOPE =
     fspec ''scope'' 1 OTLP_PB_WIRE_LEN
       OTLP_PRESENCE_DEFAULT_OMITTED False"
| "OTLP_SL_FIELDS OTLP_SL_FI_LOG_RECORDS =
     fspec ''log_records'' 2 OTLP_PB_WIRE_LEN
       OTLP_PRESENCE_DEFAULT_OMITTED True"
| "OTLP_SL_FIELDS OTLP_SL_FI_SCHEMA_URL =
     fspec ''schema_url'' 3 OTLP_PB_WIRE_LEN
       OTLP_PRESENCE_DEFAULT_OMITTED False"

datatype otlp_log_fi =
    OTLP_LOG_FI_TIME
  | OTLP_LOG_FI_SEVERITY_NUMBER
  | OTLP_LOG_FI_SEVERITY_TEXT
  | OTLP_LOG_FI_BODY
  | OTLP_LOG_FI_ATTRIBUTES
  | OTLP_LOG_FI_DROPPED_ATTRS
  | OTLP_LOG_FI_FLAGS
  | OTLP_LOG_FI_TRACE_ID
  | OTLP_LOG_FI_SPAN_ID

fun OTLP_LOG_FIELDS :: "otlp_log_fi \<Rightarrow> field_spec" where
  "OTLP_LOG_FIELDS OTLP_LOG_FI_TIME =
     fspec ''time_unix_nano'' 1 OTLP_PB_WIRE_FIXED64
       OTLP_PRESENCE_DEFAULT_OMITTED False"
| "OTLP_LOG_FIELDS OTLP_LOG_FI_SEVERITY_NUMBER =
     fspec ''severity_number'' 2 OTLP_PB_WIRE_VARINT
       OTLP_PRESENCE_DEFAULT_OMITTED False"
| "OTLP_LOG_FIELDS OTLP_LOG_FI_SEVERITY_TEXT =
     fspec ''severity_text'' 3 OTLP_PB_WIRE_LEN
       OTLP_PRESENCE_DEFAULT_OMITTED False"
| "OTLP_LOG_FIELDS OTLP_LOG_FI_BODY =
     fspec ''body'' 5 OTLP_PB_WIRE_LEN
       OTLP_PRESENCE_DEFAULT_OMITTED False"
| "OTLP_LOG_FIELDS OTLP_LOG_FI_ATTRIBUTES =
     fspec ''attributes'' 6 OTLP_PB_WIRE_LEN
       OTLP_PRESENCE_DEFAULT_OMITTED True"
| "OTLP_LOG_FIELDS OTLP_LOG_FI_DROPPED_ATTRS =
     fspec ''dropped_attributes_count'' 7 OTLP_PB_WIRE_VARINT
       OTLP_PRESENCE_DEFAULT_OMITTED False"
| "OTLP_LOG_FIELDS OTLP_LOG_FI_FLAGS =
     fspec ''flags'' 8 OTLP_PB_WIRE_FIXED32
       OTLP_PRESENCE_DEFAULT_OMITTED False"
| "OTLP_LOG_FIELDS OTLP_LOG_FI_TRACE_ID =
     fspec ''trace_id'' 9 OTLP_PB_WIRE_LEN
       OTLP_PRESENCE_DEFAULT_OMITTED False"
| "OTLP_LOG_FIELDS OTLP_LOG_FI_SPAN_ID =
     fspec ''span_id'' 10 OTLP_PB_WIRE_LEN
       OTLP_PRESENCE_DEFAULT_OMITTED False"

datatype otlp_expsr_fi =
    OTLP_EXPSR_FI_PARTIAL_SUCCESS

fun OTLP_EXPSR_FIELDS :: "otlp_expsr_fi \<Rightarrow> field_spec" where
  "OTLP_EXPSR_FIELDS OTLP_EXPSR_FI_PARTIAL_SUCCESS =
     fspec ''partial_success'' 1 OTLP_PB_WIRE_LEN
       OTLP_PRESENCE_DEFAULT_OMITTED False"

datatype otlp_eps_fi =
    OTLP_EPS_FI_REJECTED
  | OTLP_EPS_FI_ERROR_MESSAGE

fun OTLP_EPS_FIELDS :: "otlp_eps_fi \<Rightarrow> field_spec" where
  "OTLP_EPS_FIELDS OTLP_EPS_FI_REJECTED =
     fspec ''rejected_spans'' 1 OTLP_PB_WIRE_VARINT
       OTLP_PRESENCE_DEFAULT_OMITTED False"
| "OTLP_EPS_FIELDS OTLP_EPS_FI_ERROR_MESSAGE =
     fspec ''error_message'' 2 OTLP_PB_WIRE_LEN
       OTLP_PRESENCE_DEFAULT_OMITTED False"

section \<open>Well-formed tables\<close>

text \<open>
  A table is well formed when its numbers are legal protobuf field numbers, its wire types are
  the ones the encoder emits, no two of its fields share a number, and repeated fields are
  length-delimited (embedded messages or packed scalars).
\<close>

definition schema_ok :: "('i \<Rightarrow> field_spec) \<Rightarrow> bool" where
  "schema_ok T \<longleftrightarrow>
     (\<forall>i. 0 < fs_number (T i) \<and> fs_number (T i) < 2 ^ 29 \<and> valid_wire (fs_wire (T i)) \<and>
        (fs_repeated (T i) \<longrightarrow> fs_wire (T i) = OTLP_PB_WIRE_LEN)) \<and>
     (\<forall>i j. fs_number (T i) = fs_number (T j) \<longrightarrow> i = j)"

lemma schema_okI:
  assumes "\<And>i. 0 < fs_number (T i) \<and> fs_number (T i) < 2 ^ 29 \<and> valid_wire (fs_wire (T i)) \<and>
      (fs_repeated (T i) \<longrightarrow> fs_wire (T i) = OTLP_PB_WIRE_LEN)"
    and "\<And>i j. fs_number (T i) = fs_number (T j) \<Longrightarrow> i = j"
  shows "schema_ok T"
  using assms unfolding schema_ok_def by blast

named_theorems schema_tables \<open>every field table is well formed\<close>

lemma otlp_etsr_fi_ok [schema_tables]: "schema_ok OTLP_ETSR_FIELDS"
proof (rule schema_okI)
  fix i j :: otlp_etsr_fi
  show "0 < fs_number (OTLP_ETSR_FIELDS i) \<and> fs_number (OTLP_ETSR_FIELDS i) < 2 ^ 29 \<and> valid_wire (fs_wire (OTLP_ETSR_FIELDS i)) \<and>
    (fs_repeated (OTLP_ETSR_FIELDS i) \<longrightarrow> fs_wire (OTLP_ETSR_FIELDS i) = OTLP_PB_WIRE_LEN)"
    by (cases i) (simp_all add: valid_wire_def wire_defs)
  show "fs_number (OTLP_ETSR_FIELDS i) = fs_number (OTLP_ETSR_FIELDS j) \<Longrightarrow> i = j"
    by (cases i; cases j) simp_all
qed

lemma otlp_rs_fi_ok [schema_tables]: "schema_ok OTLP_RS_FIELDS"
proof (rule schema_okI)
  fix i j :: otlp_rs_fi
  show "0 < fs_number (OTLP_RS_FIELDS i) \<and> fs_number (OTLP_RS_FIELDS i) < 2 ^ 29 \<and> valid_wire (fs_wire (OTLP_RS_FIELDS i)) \<and>
    (fs_repeated (OTLP_RS_FIELDS i) \<longrightarrow> fs_wire (OTLP_RS_FIELDS i) = OTLP_PB_WIRE_LEN)"
    by (cases i) (simp_all add: valid_wire_def wire_defs)
  show "fs_number (OTLP_RS_FIELDS i) = fs_number (OTLP_RS_FIELDS j) \<Longrightarrow> i = j"
    by (cases i; cases j) simp_all
qed

lemma otlp_r_fi_ok [schema_tables]: "schema_ok OTLP_R_FIELDS"
proof (rule schema_okI)
  fix i j :: otlp_r_fi
  show "0 < fs_number (OTLP_R_FIELDS i) \<and> fs_number (OTLP_R_FIELDS i) < 2 ^ 29 \<and> valid_wire (fs_wire (OTLP_R_FIELDS i)) \<and>
    (fs_repeated (OTLP_R_FIELDS i) \<longrightarrow> fs_wire (OTLP_R_FIELDS i) = OTLP_PB_WIRE_LEN)"
    by (cases i) (simp_all add: valid_wire_def wire_defs)
  show "fs_number (OTLP_R_FIELDS i) = fs_number (OTLP_R_FIELDS j) \<Longrightarrow> i = j"
    by (cases i; cases j) simp_all
qed

lemma otlp_ss_fi_ok [schema_tables]: "schema_ok OTLP_SS_FIELDS"
proof (rule schema_okI)
  fix i j :: otlp_ss_fi
  show "0 < fs_number (OTLP_SS_FIELDS i) \<and> fs_number (OTLP_SS_FIELDS i) < 2 ^ 29 \<and> valid_wire (fs_wire (OTLP_SS_FIELDS i)) \<and>
    (fs_repeated (OTLP_SS_FIELDS i) \<longrightarrow> fs_wire (OTLP_SS_FIELDS i) = OTLP_PB_WIRE_LEN)"
    by (cases i) (simp_all add: valid_wire_def wire_defs)
  show "fs_number (OTLP_SS_FIELDS i) = fs_number (OTLP_SS_FIELDS j) \<Longrightarrow> i = j"
    by (cases i; cases j) simp_all
qed

lemma otlp_is_fi_ok [schema_tables]: "schema_ok OTLP_IS_FIELDS"
proof (rule schema_okI)
  fix i j :: otlp_is_fi
  show "0 < fs_number (OTLP_IS_FIELDS i) \<and> fs_number (OTLP_IS_FIELDS i) < 2 ^ 29 \<and> valid_wire (fs_wire (OTLP_IS_FIELDS i)) \<and>
    (fs_repeated (OTLP_IS_FIELDS i) \<longrightarrow> fs_wire (OTLP_IS_FIELDS i) = OTLP_PB_WIRE_LEN)"
    by (cases i) (simp_all add: valid_wire_def wire_defs)
  show "fs_number (OTLP_IS_FIELDS i) = fs_number (OTLP_IS_FIELDS j) \<Longrightarrow> i = j"
    by (cases i; cases j) simp_all
qed

lemma otlp_span_fi_ok [schema_tables]: "schema_ok OTLP_SPAN_FIELDS"
proof (rule schema_okI)
  fix i j :: otlp_span_fi
  show "0 < fs_number (OTLP_SPAN_FIELDS i) \<and> fs_number (OTLP_SPAN_FIELDS i) < 2 ^ 29 \<and> valid_wire (fs_wire (OTLP_SPAN_FIELDS i)) \<and>
    (fs_repeated (OTLP_SPAN_FIELDS i) \<longrightarrow> fs_wire (OTLP_SPAN_FIELDS i) = OTLP_PB_WIRE_LEN)"
    by (cases i) (simp_all add: valid_wire_def wire_defs)
  show "fs_number (OTLP_SPAN_FIELDS i) = fs_number (OTLP_SPAN_FIELDS j) \<Longrightarrow> i = j"
    by (cases i; cases j) simp_all
qed

lemma otlp_status_fi_ok [schema_tables]: "schema_ok OTLP_STATUS_FIELDS"
proof (rule schema_okI)
  fix i j :: otlp_status_fi
  show "0 < fs_number (OTLP_STATUS_FIELDS i) \<and> fs_number (OTLP_STATUS_FIELDS i) < 2 ^ 29 \<and> valid_wire (fs_wire (OTLP_STATUS_FIELDS i)) \<and>
    (fs_repeated (OTLP_STATUS_FIELDS i) \<longrightarrow> fs_wire (OTLP_STATUS_FIELDS i) = OTLP_PB_WIRE_LEN)"
    by (cases i) (simp_all add: valid_wire_def wire_defs)
  show "fs_number (OTLP_STATUS_FIELDS i) = fs_number (OTLP_STATUS_FIELDS j) \<Longrightarrow> i = j"
    by (cases i; cases j) simp_all
qed

lemma otlp_kv_fi_ok [schema_tables]: "schema_ok OTLP_KV_FIELDS"
proof (rule schema_okI)
  fix i j :: otlp_kv_fi
  show "0 < fs_number (OTLP_KV_FIELDS i) \<and> fs_number (OTLP_KV_FIELDS i) < 2 ^ 29 \<and> valid_wire (fs_wire (OTLP_KV_FIELDS i)) \<and>
    (fs_repeated (OTLP_KV_FIELDS i) \<longrightarrow> fs_wire (OTLP_KV_FIELDS i) = OTLP_PB_WIRE_LEN)"
    by (cases i) (simp_all add: valid_wire_def wire_defs)
  show "fs_number (OTLP_KV_FIELDS i) = fs_number (OTLP_KV_FIELDS j) \<Longrightarrow> i = j"
    by (cases i; cases j) simp_all
qed

lemma otlp_av_fi_ok [schema_tables]: "schema_ok OTLP_AV_FIELDS"
proof (rule schema_okI)
  fix i j :: otlp_av_fi
  show "0 < fs_number (OTLP_AV_FIELDS i) \<and> fs_number (OTLP_AV_FIELDS i) < 2 ^ 29 \<and> valid_wire (fs_wire (OTLP_AV_FIELDS i)) \<and>
    (fs_repeated (OTLP_AV_FIELDS i) \<longrightarrow> fs_wire (OTLP_AV_FIELDS i) = OTLP_PB_WIRE_LEN)"
    by (cases i) (simp_all add: valid_wire_def wire_defs)
  show "fs_number (OTLP_AV_FIELDS i) = fs_number (OTLP_AV_FIELDS j) \<Longrightarrow> i = j"
    by (cases i; cases j) simp_all
qed

lemma otlp_av_array_fi_ok [schema_tables]: "schema_ok OTLP_AV_ARRAY_FIELDS"
proof (rule schema_okI)
  fix i j :: otlp_av_array_fi
  show "0 < fs_number (OTLP_AV_ARRAY_FIELDS i) \<and> fs_number (OTLP_AV_ARRAY_FIELDS i) < 2 ^ 29 \<and> valid_wire (fs_wire (OTLP_AV_ARRAY_FIELDS i)) \<and>
    (fs_repeated (OTLP_AV_ARRAY_FIELDS i) \<longrightarrow> fs_wire (OTLP_AV_ARRAY_FIELDS i) = OTLP_PB_WIRE_LEN)"
    by (cases i) (simp_all add: valid_wire_def wire_defs)
  show "fs_number (OTLP_AV_ARRAY_FIELDS i) = fs_number (OTLP_AV_ARRAY_FIELDS j) \<Longrightarrow> i = j"
    by (cases i; cases j) simp_all
qed

lemma otlp_kvlist_fi_ok [schema_tables]: "schema_ok OTLP_KVLIST_FIELDS"
proof (rule schema_okI)
  fix i j :: otlp_kvlist_fi
  show "0 < fs_number (OTLP_KVLIST_FIELDS i) \<and> fs_number (OTLP_KVLIST_FIELDS i) < 2 ^ 29 \<and> valid_wire (fs_wire (OTLP_KVLIST_FIELDS i)) \<and>
    (fs_repeated (OTLP_KVLIST_FIELDS i) \<longrightarrow> fs_wire (OTLP_KVLIST_FIELDS i) = OTLP_PB_WIRE_LEN)"
    by (cases i) (simp_all add: valid_wire_def wire_defs)
  show "fs_number (OTLP_KVLIST_FIELDS i) = fs_number (OTLP_KVLIST_FIELDS j) \<Longrightarrow> i = j"
    by (cases i; cases j) simp_all
qed

lemma otlp_event_fi_ok [schema_tables]: "schema_ok OTLP_EVENT_FIELDS"
proof (rule schema_okI)
  fix i j :: otlp_event_fi
  show "0 < fs_number (OTLP_EVENT_FIELDS i) \<and> fs_number (OTLP_EVENT_FIELDS i) < 2 ^ 29 \<and> valid_wire (fs_wire (OTLP_EVENT_FIELDS i)) \<and>
    (fs_repeated (OTLP_EVENT_FIELDS i) \<longrightarrow> fs_wire (OTLP_EVENT_FIELDS i) = OTLP_PB_WIRE_LEN)"
    by (cases i) (simp_all add: valid_wire_def wire_defs)
  show "fs_number (OTLP_EVENT_FIELDS i) = fs_number (OTLP_EVENT_FIELDS j) \<Longrightarrow> i = j"
    by (cases i; cases j) simp_all
qed

lemma otlp_link_fi_ok [schema_tables]: "schema_ok OTLP_LINK_FIELDS"
proof (rule schema_okI)
  fix i j :: otlp_link_fi
  show "0 < fs_number (OTLP_LINK_FIELDS i) \<and> fs_number (OTLP_LINK_FIELDS i) < 2 ^ 29 \<and> valid_wire (fs_wire (OTLP_LINK_FIELDS i)) \<and>
    (fs_repeated (OTLP_LINK_FIELDS i) \<longrightarrow> fs_wire (OTLP_LINK_FIELDS i) = OTLP_PB_WIRE_LEN)"
    by (cases i) (simp_all add: valid_wire_def wire_defs)
  show "fs_number (OTLP_LINK_FIELDS i) = fs_number (OTLP_LINK_FIELDS j) \<Longrightarrow> i = j"
    by (cases i; cases j) simp_all
qed

lemma otlp_emsr_fi_ok [schema_tables]: "schema_ok OTLP_EMSR_FIELDS"
proof (rule schema_okI)
  fix i j :: otlp_emsr_fi
  show "0 < fs_number (OTLP_EMSR_FIELDS i) \<and> fs_number (OTLP_EMSR_FIELDS i) < 2 ^ 29 \<and> valid_wire (fs_wire (OTLP_EMSR_FIELDS i)) \<and>
    (fs_repeated (OTLP_EMSR_FIELDS i) \<longrightarrow> fs_wire (OTLP_EMSR_FIELDS i) = OTLP_PB_WIRE_LEN)"
    by (cases i) (simp_all add: valid_wire_def wire_defs)
  show "fs_number (OTLP_EMSR_FIELDS i) = fs_number (OTLP_EMSR_FIELDS j) \<Longrightarrow> i = j"
    by (cases i; cases j) simp_all
qed

lemma otlp_rm_fi_ok [schema_tables]: "schema_ok OTLP_RM_FIELDS"
proof (rule schema_okI)
  fix i j :: otlp_rm_fi
  show "0 < fs_number (OTLP_RM_FIELDS i) \<and> fs_number (OTLP_RM_FIELDS i) < 2 ^ 29 \<and> valid_wire (fs_wire (OTLP_RM_FIELDS i)) \<and>
    (fs_repeated (OTLP_RM_FIELDS i) \<longrightarrow> fs_wire (OTLP_RM_FIELDS i) = OTLP_PB_WIRE_LEN)"
    by (cases i) (simp_all add: valid_wire_def wire_defs)
  show "fs_number (OTLP_RM_FIELDS i) = fs_number (OTLP_RM_FIELDS j) \<Longrightarrow> i = j"
    by (cases i; cases j) simp_all
qed

lemma otlp_sm_fi_ok [schema_tables]: "schema_ok OTLP_SM_FIELDS"
proof (rule schema_okI)
  fix i j :: otlp_sm_fi
  show "0 < fs_number (OTLP_SM_FIELDS i) \<and> fs_number (OTLP_SM_FIELDS i) < 2 ^ 29 \<and> valid_wire (fs_wire (OTLP_SM_FIELDS i)) \<and>
    (fs_repeated (OTLP_SM_FIELDS i) \<longrightarrow> fs_wire (OTLP_SM_FIELDS i) = OTLP_PB_WIRE_LEN)"
    by (cases i) (simp_all add: valid_wire_def wire_defs)
  show "fs_number (OTLP_SM_FIELDS i) = fs_number (OTLP_SM_FIELDS j) \<Longrightarrow> i = j"
    by (cases i; cases j) simp_all
qed

lemma otlp_metric_fi_ok [schema_tables]: "schema_ok OTLP_METRIC_FIELDS"
proof (rule schema_okI)
  fix i j :: otlp_metric_fi
  show "0 < fs_number (OTLP_METRIC_FIELDS i) \<and> fs_number (OTLP_METRIC_FIELDS i) < 2 ^ 29 \<and> valid_wire (fs_wire (OTLP_METRIC_FIELDS i)) \<and>
    (fs_repeated (OTLP_METRIC_FIELDS i) \<longrightarrow> fs_wire (OTLP_METRIC_FIELDS i) = OTLP_PB_WIRE_LEN)"
    by (cases i) (simp_all add: valid_wire_def wire_defs)
  show "fs_number (OTLP_METRIC_FIELDS i) = fs_number (OTLP_METRIC_FIELDS j) \<Longrightarrow> i = j"
    by (cases i; cases j) simp_all
qed

lemma otlp_sum_fi_ok [schema_tables]: "schema_ok OTLP_SUM_FIELDS"
proof (rule schema_okI)
  fix i j :: otlp_sum_fi
  show "0 < fs_number (OTLP_SUM_FIELDS i) \<and> fs_number (OTLP_SUM_FIELDS i) < 2 ^ 29 \<and> valid_wire (fs_wire (OTLP_SUM_FIELDS i)) \<and>
    (fs_repeated (OTLP_SUM_FIELDS i) \<longrightarrow> fs_wire (OTLP_SUM_FIELDS i) = OTLP_PB_WIRE_LEN)"
    by (cases i) (simp_all add: valid_wire_def wire_defs)
  show "fs_number (OTLP_SUM_FIELDS i) = fs_number (OTLP_SUM_FIELDS j) \<Longrightarrow> i = j"
    by (cases i; cases j) simp_all
qed

lemma otlp_gauge_fi_ok [schema_tables]: "schema_ok OTLP_GAUGE_FIELDS"
proof (rule schema_okI)
  fix i j :: otlp_gauge_fi
  show "0 < fs_number (OTLP_GAUGE_FIELDS i) \<and> fs_number (OTLP_GAUGE_FIELDS i) < 2 ^ 29 \<and> valid_wire (fs_wire (OTLP_GAUGE_FIELDS i)) \<and>
    (fs_repeated (OTLP_GAUGE_FIELDS i) \<longrightarrow> fs_wire (OTLP_GAUGE_FIELDS i) = OTLP_PB_WIRE_LEN)"
    by (cases i) (simp_all add: valid_wire_def wire_defs)
  show "fs_number (OTLP_GAUGE_FIELDS i) = fs_number (OTLP_GAUGE_FIELDS j) \<Longrightarrow> i = j"
    by (cases i; cases j) simp_all
qed

lemma otlp_hist_fi_ok [schema_tables]: "schema_ok OTLP_HIST_FIELDS"
proof (rule schema_okI)
  fix i j :: otlp_hist_fi
  show "0 < fs_number (OTLP_HIST_FIELDS i) \<and> fs_number (OTLP_HIST_FIELDS i) < 2 ^ 29 \<and> valid_wire (fs_wire (OTLP_HIST_FIELDS i)) \<and>
    (fs_repeated (OTLP_HIST_FIELDS i) \<longrightarrow> fs_wire (OTLP_HIST_FIELDS i) = OTLP_PB_WIRE_LEN)"
    by (cases i) (simp_all add: valid_wire_def wire_defs)
  show "fs_number (OTLP_HIST_FIELDS i) = fs_number (OTLP_HIST_FIELDS j) \<Longrightarrow> i = j"
    by (cases i; cases j) simp_all
qed

lemma otlp_eh_fi_ok [schema_tables]: "schema_ok OTLP_EH_FIELDS"
proof (rule schema_okI)
  fix i j :: otlp_eh_fi
  show "0 < fs_number (OTLP_EH_FIELDS i) \<and> fs_number (OTLP_EH_FIELDS i) < 2 ^ 29 \<and> valid_wire (fs_wire (OTLP_EH_FIELDS i)) \<and>
    (fs_repeated (OTLP_EH_FIELDS i) \<longrightarrow> fs_wire (OTLP_EH_FIELDS i) = OTLP_PB_WIRE_LEN)"
    by (cases i) (simp_all add: valid_wire_def wire_defs)
  show "fs_number (OTLP_EH_FIELDS i) = fs_number (OTLP_EH_FIELDS j) \<Longrightarrow> i = j"
    by (cases i; cases j) simp_all
qed

lemma otlp_ex_fi_ok [schema_tables]: "schema_ok OTLP_EX_FIELDS"
proof (rule schema_okI)
  fix i j :: otlp_ex_fi
  show "0 < fs_number (OTLP_EX_FIELDS i) \<and> fs_number (OTLP_EX_FIELDS i) < 2 ^ 29 \<and> valid_wire (fs_wire (OTLP_EX_FIELDS i)) \<and>
    (fs_repeated (OTLP_EX_FIELDS i) \<longrightarrow> fs_wire (OTLP_EX_FIELDS i) = OTLP_PB_WIRE_LEN)"
    by (cases i) (simp_all add: valid_wire_def wire_defs)
  show "fs_number (OTLP_EX_FIELDS i) = fs_number (OTLP_EX_FIELDS j) \<Longrightarrow> i = j"
    by (cases i; cases j) simp_all
qed

lemma otlp_ndp_fi_ok [schema_tables]: "schema_ok OTLP_NDP_FIELDS"
proof (rule schema_okI)
  fix i j :: otlp_ndp_fi
  show "0 < fs_number (OTLP_NDP_FIELDS i) \<and> fs_number (OTLP_NDP_FIELDS i) < 2 ^ 29 \<and> valid_wire (fs_wire (OTLP_NDP_FIELDS i)) \<and>
    (fs_repeated (OTLP_NDP_FIELDS i) \<longrightarrow> fs_wire (OTLP_NDP_FIELDS i) = OTLP_PB_WIRE_LEN)"
    by (cases i) (simp_all add: valid_wire_def wire_defs)
  show "fs_number (OTLP_NDP_FIELDS i) = fs_number (OTLP_NDP_FIELDS j) \<Longrightarrow> i = j"
    by (cases i; cases j) simp_all
qed

lemma otlp_hdp_fi_ok [schema_tables]: "schema_ok OTLP_HDP_FIELDS"
proof (rule schema_okI)
  fix i j :: otlp_hdp_fi
  show "0 < fs_number (OTLP_HDP_FIELDS i) \<and> fs_number (OTLP_HDP_FIELDS i) < 2 ^ 29 \<and> valid_wire (fs_wire (OTLP_HDP_FIELDS i)) \<and>
    (fs_repeated (OTLP_HDP_FIELDS i) \<longrightarrow> fs_wire (OTLP_HDP_FIELDS i) = OTLP_PB_WIRE_LEN)"
    by (cases i) (simp_all add: valid_wire_def wire_defs)
  show "fs_number (OTLP_HDP_FIELDS i) = fs_number (OTLP_HDP_FIELDS j) \<Longrightarrow> i = j"
    by (cases i; cases j) simp_all
qed

lemma otlp_ehdp_fi_ok [schema_tables]: "schema_ok OTLP_EHDP_FIELDS"
proof (rule schema_okI)
  fix i j :: otlp_ehdp_fi
  show "0 < fs_number (OTLP_EHDP_FIELDS i) \<and> fs_number (OTLP_EHDP_FIELDS i) < 2 ^ 29 \<and> valid_wire (fs_wire (OTLP_EHDP_FIELDS i)) \<and>
    (fs_repeated (OTLP_EHDP_FIELDS i) \<longrightarrow> fs_wire (OTLP_EHDP_FIELDS i) = OTLP_PB_WIRE_LEN)"
    by (cases i) (simp_all add: valid_wire_def wire_defs)
  show "fs_number (OTLP_EHDP_FIELDS i) = fs_number (OTLP_EHDP_FIELDS j) \<Longrightarrow> i = j"
    by (cases i; cases j) simp_all
qed

lemma otlp_ehb_fi_ok [schema_tables]: "schema_ok OTLP_EHB_FIELDS"
proof (rule schema_okI)
  fix i j :: otlp_ehb_fi
  show "0 < fs_number (OTLP_EHB_FIELDS i) \<and> fs_number (OTLP_EHB_FIELDS i) < 2 ^ 29 \<and> valid_wire (fs_wire (OTLP_EHB_FIELDS i)) \<and>
    (fs_repeated (OTLP_EHB_FIELDS i) \<longrightarrow> fs_wire (OTLP_EHB_FIELDS i) = OTLP_PB_WIRE_LEN)"
    by (cases i) (simp_all add: valid_wire_def wire_defs)
  show "fs_number (OTLP_EHB_FIELDS i) = fs_number (OTLP_EHB_FIELDS j) \<Longrightarrow> i = j"
    by (cases i; cases j) simp_all
qed

lemma otlp_elsr_fi_ok [schema_tables]: "schema_ok OTLP_ELSR_FIELDS"
proof (rule schema_okI)
  fix i j :: otlp_elsr_fi
  show "0 < fs_number (OTLP_ELSR_FIELDS i) \<and> fs_number (OTLP_ELSR_FIELDS i) < 2 ^ 29 \<and> valid_wire (fs_wire (OTLP_ELSR_FIELDS i)) \<and>
    (fs_repeated (OTLP_ELSR_FIELDS i) \<longrightarrow> fs_wire (OTLP_ELSR_FIELDS i) = OTLP_PB_WIRE_LEN)"
    by (cases i) (simp_all add: valid_wire_def wire_defs)
  show "fs_number (OTLP_ELSR_FIELDS i) = fs_number (OTLP_ELSR_FIELDS j) \<Longrightarrow> i = j"
    by (cases i; cases j) simp_all
qed

lemma otlp_rl_fi_ok [schema_tables]: "schema_ok OTLP_RL_FIELDS"
proof (rule schema_okI)
  fix i j :: otlp_rl_fi
  show "0 < fs_number (OTLP_RL_FIELDS i) \<and> fs_number (OTLP_RL_FIELDS i) < 2 ^ 29 \<and> valid_wire (fs_wire (OTLP_RL_FIELDS i)) \<and>
    (fs_repeated (OTLP_RL_FIELDS i) \<longrightarrow> fs_wire (OTLP_RL_FIELDS i) = OTLP_PB_WIRE_LEN)"
    by (cases i) (simp_all add: valid_wire_def wire_defs)
  show "fs_number (OTLP_RL_FIELDS i) = fs_number (OTLP_RL_FIELDS j) \<Longrightarrow> i = j"
    by (cases i; cases j) simp_all
qed

lemma otlp_sl_fi_ok [schema_tables]: "schema_ok OTLP_SL_FIELDS"
proof (rule schema_okI)
  fix i j :: otlp_sl_fi
  show "0 < fs_number (OTLP_SL_FIELDS i) \<and> fs_number (OTLP_SL_FIELDS i) < 2 ^ 29 \<and> valid_wire (fs_wire (OTLP_SL_FIELDS i)) \<and>
    (fs_repeated (OTLP_SL_FIELDS i) \<longrightarrow> fs_wire (OTLP_SL_FIELDS i) = OTLP_PB_WIRE_LEN)"
    by (cases i) (simp_all add: valid_wire_def wire_defs)
  show "fs_number (OTLP_SL_FIELDS i) = fs_number (OTLP_SL_FIELDS j) \<Longrightarrow> i = j"
    by (cases i; cases j) simp_all
qed

lemma otlp_log_fi_ok [schema_tables]: "schema_ok OTLP_LOG_FIELDS"
proof (rule schema_okI)
  fix i j :: otlp_log_fi
  show "0 < fs_number (OTLP_LOG_FIELDS i) \<and> fs_number (OTLP_LOG_FIELDS i) < 2 ^ 29 \<and> valid_wire (fs_wire (OTLP_LOG_FIELDS i)) \<and>
    (fs_repeated (OTLP_LOG_FIELDS i) \<longrightarrow> fs_wire (OTLP_LOG_FIELDS i) = OTLP_PB_WIRE_LEN)"
    by (cases i) (simp_all add: valid_wire_def wire_defs)
  show "fs_number (OTLP_LOG_FIELDS i) = fs_number (OTLP_LOG_FIELDS j) \<Longrightarrow> i = j"
    by (cases i; cases j) simp_all
qed

lemma otlp_expsr_fi_ok [schema_tables]: "schema_ok OTLP_EXPSR_FIELDS"
proof (rule schema_okI)
  fix i j :: otlp_expsr_fi
  show "0 < fs_number (OTLP_EXPSR_FIELDS i) \<and> fs_number (OTLP_EXPSR_FIELDS i) < 2 ^ 29 \<and> valid_wire (fs_wire (OTLP_EXPSR_FIELDS i)) \<and>
    (fs_repeated (OTLP_EXPSR_FIELDS i) \<longrightarrow> fs_wire (OTLP_EXPSR_FIELDS i) = OTLP_PB_WIRE_LEN)"
    by (cases i) (simp_all add: valid_wire_def wire_defs)
  show "fs_number (OTLP_EXPSR_FIELDS i) = fs_number (OTLP_EXPSR_FIELDS j) \<Longrightarrow> i = j"
    by (cases i; cases j) simp_all
qed

lemma otlp_eps_fi_ok [schema_tables]: "schema_ok OTLP_EPS_FIELDS"
proof (rule schema_okI)
  fix i j :: otlp_eps_fi
  show "0 < fs_number (OTLP_EPS_FIELDS i) \<and> fs_number (OTLP_EPS_FIELDS i) < 2 ^ 29 \<and> valid_wire (fs_wire (OTLP_EPS_FIELDS i)) \<and>
    (fs_repeated (OTLP_EPS_FIELDS i) \<longrightarrow> fs_wire (OTLP_EPS_FIELDS i) = OTLP_PB_WIRE_LEN)"
    by (cases i) (simp_all add: valid_wire_def wire_defs)
  show "fs_number (OTLP_EPS_FIELDS i) = fs_number (OTLP_EPS_FIELDS j) \<Longrightarrow> i = j"
    by (cases i; cases j) simp_all
qed

section \<open>Property\<close>

text \<open>
  Every table of the schema is well formed: all field numbers are legal and distinct within
  their message, all wire types are ones the encoder can emit, and every repeated field is
  length-delimited, so no two fields of a message can be confused on the wire.
\<close>

theorem schema_tables_well_formed:
  "schema_ok OTLP_ETSR_FIELDS \<and>
   schema_ok OTLP_RS_FIELDS \<and>
   schema_ok OTLP_R_FIELDS \<and>
   schema_ok OTLP_SS_FIELDS \<and>
   schema_ok OTLP_IS_FIELDS \<and>
   schema_ok OTLP_SPAN_FIELDS \<and>
   schema_ok OTLP_STATUS_FIELDS \<and>
   schema_ok OTLP_KV_FIELDS \<and>
   schema_ok OTLP_AV_FIELDS \<and>
   schema_ok OTLP_AV_ARRAY_FIELDS \<and>
   schema_ok OTLP_KVLIST_FIELDS \<and>
   schema_ok OTLP_EVENT_FIELDS \<and>
   schema_ok OTLP_LINK_FIELDS \<and>
   schema_ok OTLP_EMSR_FIELDS \<and>
   schema_ok OTLP_RM_FIELDS \<and>
   schema_ok OTLP_SM_FIELDS \<and>
   schema_ok OTLP_METRIC_FIELDS \<and>
   schema_ok OTLP_SUM_FIELDS \<and>
   schema_ok OTLP_GAUGE_FIELDS \<and>
   schema_ok OTLP_HIST_FIELDS \<and>
   schema_ok OTLP_EH_FIELDS \<and>
   schema_ok OTLP_EX_FIELDS \<and>
   schema_ok OTLP_NDP_FIELDS \<and>
   schema_ok OTLP_HDP_FIELDS \<and>
   schema_ok OTLP_EHDP_FIELDS \<and>
   schema_ok OTLP_EHB_FIELDS \<and>
   schema_ok OTLP_ELSR_FIELDS \<and>
   schema_ok OTLP_RL_FIELDS \<and>
   schema_ok OTLP_SL_FIELDS \<and>
   schema_ok OTLP_LOG_FIELDS \<and>
   schema_ok OTLP_EXPSR_FIELDS \<and>
   schema_ok OTLP_EPS_FIELDS"
  by (intro conjI schema_tables)

end
