(* ===== verification/Pb_Decode.thy ===== *)
theory Pb_Decode
  imports Pb_Encode
begin

text \<open>
  The bounds-checked protobuf reader, \<^verbatim>\<open>src/protobuf_decode.c\<close> and \<^verbatim>\<open>src/protobuf_decode.h\<close>:
  cursor, key, varint, length-delimited, fixed-width reads and skip. Every call returns its
  value (\<open>None\<close> for the C \<^verbatim>\<open>false\<close>) and the reader with the cursor where the C code leaves it,
  also after a failure: a caller looks at the cursor then. The lemmas show that the cursor
  never passes the end, and that each read inverts the encoder of \<^verbatim>\<open>protobuf_encode.c\<close>.
\<close>

section \<open>The reader\<close>

record pb_reader =
  rd_buf :: "u8 list"
  rd_pos :: nat

definition otlp_pb_reader_init :: "u8 list \<Rightarrow> pb_reader" where
  "otlp_pb_reader_init buf = \<lparr>rd_buf = buf, rd_pos = 0\<rparr>"

text \<open>\<^verbatim>\<open>r->len - r->pos\<close>; the subtraction is on \<^verbatim>\<open>size_t\<close>, exact because the cursor is in bounds.\<close>

definition rd_left :: "pb_reader \<Rightarrow> nat" where
  "rd_left r = length (rd_buf r) - rd_pos r"

text \<open>
  The byte loop shared verbatim by \<open>otlp_pb_read_key\<close> and \<open>otlp_pb_read_varint\<close>: accumulator
  and shift are the C locals. The third \<open>if\<close> is the "longer than 10 bytes" exit.
\<close>

function varint_scan :: "u8 list \<Rightarrow> nat \<Rightarrow> u64 \<Rightarrow> nat \<Rightarrow> u64 option \<times> nat" where
  "varint_scan buf pos v shift =
     (if pos < length buf then
        (let b = buf ! pos; v' = v OR push_bit shift (ucast (b AND 0x7F)) in
         if b AND 0x80 = 0 then (Some v', pos + 1)
         else if shift + 7 \<ge> 64 then (None, pos + 1)
         else varint_scan buf (pos + 1) v' (shift + 7))
      else (None, pos))"
  by pat_completeness auto
termination
  by (relation "measure (\<lambda>(buf, pos, v, shift). length buf - pos)") auto

declare varint_scan.simps [simp del]

definition otlp_pb_read_varint :: "pb_reader \<Rightarrow> u64 option \<times> pb_reader" where
  "otlp_pb_read_varint r =
     (case varint_scan (rd_buf r) (rd_pos r) 0 0 of
       (res, pos) \<Rightarrow> (res, r\<lparr>rd_pos := pos\<rparr>))"

definition otlp_pb_read_key :: "pb_reader \<Rightarrow> (u32 \<times> nat) option \<times> pb_reader" where
  "otlp_pb_read_key r =
     (case varint_scan (rd_buf r) (rd_pos r) 0 0 of
       (None, pos) \<Rightarrow> (None, r\<lparr>rd_pos := pos\<rparr>)
     | (Some key, pos) \<Rightarrow>
         (let field = (ucast (drop_bit 3 key) :: u32); wire_type = unat (key AND 7) in
          (if field \<noteq> 0 then Some (field, wire_type) else None, r\<lparr>rd_pos := pos\<rparr>)))"

definition otlp_pb_read_len :: "pb_reader \<Rightarrow> u8 list option \<times> pb_reader" where
  "otlp_pb_read_len r =
     (case otlp_pb_read_varint r of
       (None, r') \<Rightarrow> (None, r')
     | (Some v, r') \<Rightarrow>
         if unat v > rd_left r' then (None, r')
         else (Some (take (unat v) (drop (rd_pos r') (rd_buf r'))),
               r'\<lparr>rd_pos := rd_pos r' + unat v\<rparr>))"

definition otlp_pb_skip :: "pb_reader \<Rightarrow> nat \<Rightarrow> bool \<times> pb_reader" where
  "otlp_pb_skip r wire_type =
     (if int wire_type = OTLP_PB_WIRE_VARINT then
        (case otlp_pb_read_varint r of (res, r') \<Rightarrow> (res \<noteq> None, r'))
      else if int wire_type = OTLP_PB_WIRE_FIXED64 then
        (if rd_left r < 8 then (False, r) else (True, r\<lparr>rd_pos := rd_pos r + 8\<rparr>))
      else if int wire_type = OTLP_PB_WIRE_LEN then
        (case otlp_pb_read_len r of (res, r') \<Rightarrow> (res \<noteq> None, r'))
      else if int wire_type = OTLP_PB_WIRE_FIXED32 then
        (if rd_left r < 4 then (False, r) else (True, r\<lparr>rd_pos := rd_pos r + 4\<rparr>))
      else (False, r))"

text \<open>
  The fixed-width reads copy raw bytes into an integer (\<^verbatim>\<open>memcpy\<close>), so what they return
  depends on the byte order of the host, a parameter here.
\<close>

datatype endian = Little | Big

definition word_of_le :: "u8 list \<Rightarrow> 'a::len word" where
  "word_of_le bs = word_of_nat (foldr (\<lambda>b acc. unat b + 256 * acc) bs 0)"

definition memcpy_word :: "endian \<Rightarrow> u8 list \<Rightarrow> 'a::len word" where
  "memcpy_word e bs = word_of_le (case e of Little \<Rightarrow> bs | Big \<Rightarrow> rev bs)"

definition otlp_pb_read_fixed32 :: "endian \<Rightarrow> pb_reader \<Rightarrow> u32 option \<times> pb_reader" where
  "otlp_pb_read_fixed32 e r =
     (if rd_left r < 4 then (None, r)
      else (Some (memcpy_word e (take 4 (drop (rd_pos r) (rd_buf r)))),
            r\<lparr>rd_pos := rd_pos r + 4\<rparr>))"

definition otlp_pb_read_fixed64 :: "endian \<Rightarrow> pb_reader \<Rightarrow> u64 option \<times> pb_reader" where
  "otlp_pb_read_fixed64 e r =
     (if rd_left r < 8 then (None, r)
      else (Some (memcpy_word e (take 8 (drop (rd_pos r) (rd_buf r)))),
            r\<lparr>rd_pos := rd_pos r + 8\<rparr>))"

definition rd_ok :: "pb_reader \<Rightarrow> bool" where
  "rd_ok r \<longleftrightarrow> rd_pos r \<le> length (rd_buf r)"

text \<open>The unread bytes.\<close>

definition rd_rest :: "pb_reader \<Rightarrow> u8 list" where
  "rd_rest r = drop (rd_pos r) (rd_buf r)"

definition rd_advance :: "nat \<Rightarrow> pb_reader \<Rightarrow> pb_reader" where
  "rd_advance n r = r\<lparr>rd_pos := rd_pos r + n\<rparr>"

section \<open>Bounds and progress\<close>

lemma varint_scan_bounds:
  "varint_scan buf pos v shift = (res, pos') \<Longrightarrow> pos \<le> length buf \<Longrightarrow>
   pos \<le> pos' \<and> pos' \<le> length buf \<and> (pos < length buf \<longrightarrow> pos < pos')"
proof (induction buf pos v shift rule: varint_scan.induct)
  case (1 buf pos v shift)
  then show ?case
    by (cases "pos < length buf")
       (fastforce simp: varint_scan.simps [of buf pos v shift] Let_def split: if_splits)+
qed

lemma varint_scan_some_lt:
  "varint_scan buf pos v shift = (Some w, pos') \<Longrightarrow> pos < length buf"
  by (subst (asm) varint_scan.simps) (auto split: if_splits)

lemma scan_spec:
  assumes "varint_scan (rd_buf r) (rd_pos r) 0 0 = (res, pos')" "rd_ok r"
  shows "rd_pos r \<le> pos'" "pos' \<le> length (rd_buf r)" "res \<noteq> None \<Longrightarrow> rd_pos r < pos'"
  using varint_scan_bounds [OF assms(1)] assms varint_scan_some_lt
  by (auto simp: rd_ok_def)

lemma read_varint_spec:
  assumes "otlp_pb_read_varint r = (res, r')" "rd_ok r"
  shows "rd_buf r' = rd_buf r" "rd_pos r \<le> rd_pos r'" "rd_ok r'"
    "res \<noteq> None \<Longrightarrow> rd_pos r < rd_pos r'"
proof -
  obtain w p where sc: "varint_scan (rd_buf r) (rd_pos r) 0 0 = (w, p)"
    by (cases "varint_scan (rd_buf r) (rd_pos r) 0 0")
  with assms(1) have "res = w" "r' = r\<lparr>rd_pos := p\<rparr>"
    by (simp_all add: otlp_pb_read_varint_def)
  with scan_spec [OF sc assms(2)]
  show "rd_buf r' = rd_buf r" "rd_pos r \<le> rd_pos r'" "rd_ok r'"
    "res \<noteq> None \<Longrightarrow> rd_pos r < rd_pos r'"
    by (simp_all add: rd_ok_def)
qed

lemma read_key_spec:
  assumes "otlp_pb_read_key r = (res, r')" "rd_ok r"
  shows "rd_buf r' = rd_buf r" "rd_pos r \<le> rd_pos r'" "rd_ok r'"
    "res \<noteq> None \<Longrightarrow> rd_pos r < rd_pos r'"
proof -
  obtain w p where sc: "varint_scan (rd_buf r) (rd_pos r) 0 0 = (w, p)"
    by (cases "varint_scan (rd_buf r) (rd_pos r) 0 0")
  with assms(1) have "res \<noteq> None \<Longrightarrow> w \<noteq> None" "r' = r\<lparr>rd_pos := p\<rparr>"
    by (auto simp: otlp_pb_read_key_def Let_def split: option.splits)
  with scan_spec [OF sc assms(2)]
  show "rd_buf r' = rd_buf r" "rd_pos r \<le> rd_pos r'" "rd_ok r'"
    "res \<noteq> None \<Longrightarrow> rd_pos r < rd_pos r'"
    by (simp_all add: rd_ok_def)
qed

lemma read_len_spec:
  assumes "otlp_pb_read_len r = (res, r')" "rd_ok r"
  shows "rd_buf r' = rd_buf r" "rd_pos r \<le> rd_pos r'" "rd_ok r'"
    "res = Some d \<Longrightarrow> rd_pos r + length d < rd_pos r'"
proof -
  obtain w r1 where rv: "otlp_pb_read_varint r = (w, r1)"
    by (cases "otlp_pb_read_varint r")
  show "rd_buf r' = rd_buf r" "rd_pos r \<le> rd_pos r'" "rd_ok r'"
    "res = Some d \<Longrightarrow> rd_pos r + length d < rd_pos r'"
    using assms(1) read_varint_spec [OF rv assms(2)]
    by (auto simp: otlp_pb_read_len_def rv rd_ok_def rd_left_def split: option.splits if_splits)
qed

lemma skip_spec:
  assumes "otlp_pb_skip r wt = (ok, r')" "rd_ok r"
  shows "rd_buf r' = rd_buf r" "rd_pos r \<le> rd_pos r'" "rd_ok r'"
proof -
  obtain w r1 x r2 where rv: "otlp_pb_read_varint r = (w, r1)" and rl: "otlp_pb_read_len r = (x, r2)"
    by (cases "otlp_pb_read_varint r", cases "otlp_pb_read_len r")
  show "rd_buf r' = rd_buf r" "rd_pos r \<le> rd_pos r'" "rd_ok r'"
    using assms read_varint_spec [OF rv assms(2)] read_len_spec [OF rl assms(2)]
    by (auto simp: otlp_pb_skip_def rv rl rd_ok_def rd_left_def split: if_splits)
qed

lemma read_fixed_spec:
  assumes "rd_ok r"
  shows "otlp_pb_read_fixed32 e r = (x32, r1) \<Longrightarrow> rd_ok r1 \<and> rd_buf r1 = rd_buf r \<and> rd_pos r \<le> rd_pos r1"
    and "otlp_pb_read_fixed64 e r = (x64, r2) \<Longrightarrow> rd_ok r2 \<and> rd_buf r2 = rd_buf r \<and> rd_pos r \<le> rd_pos r2"
  using assms
  by (auto simp: otlp_pb_read_fixed32_def otlp_pb_read_fixed64_def rd_ok_def rd_left_def split: if_splits)

section \<open>Reads invert the encoder\<close>

lemma unat_or_push_bit:
  fixes v c :: u64
  assumes v: "unat v < 2 ^ s" and fit: "unat v + unat c * 2 ^ s < 2 ^ 64"
  shows "unat (v OR push_bit s c) = unat v + unat c * 2 ^ s"
proof -
  have tv: "v = take_bit s v"
    by (rule word_unat_eq_iff [THEN iffD2]) (simp only: unat_take_bit mod_less [OF v])
  have "v OR push_bit s c = v + push_bit s c"
    by (subst (1 2) tv, rule disjunctive_add [symmetric]) (auto simp: bit_simps)
  moreover have "unat (push_bit s c) = unat c * 2 ^ s"
    using fit by (simp only: unsigned_push_bit_eq) (simp add: push_bit_eq_mult take_bit_nat_eq_self)
  ultimately show ?thesis using fit by (simp add: unat_word_ariths)
qed

lemma bit_u8_128: "bit (0x80 :: u8) n \<longleftrightarrow> n = 7"
proof -
  have p: "(0x80 :: u8) = 2 ^ 7" by simp
  show ?thesis unfolding p bit_exp_iff by auto
qed

lemma and_0x80: "(b :: u8) AND 0x80 = 0 \<longleftrightarrow> unat b < 128"
proof -
  have "bit (b AND 0x80) n \<longleftrightarrow> n = 7 \<and> bit b 7" for n
    using bit_u8_128 by (auto simp: bit_and_iff)
  then have "(b AND 0x80 = 0) \<longleftrightarrow> \<not> bit b 7"
    by (metis bit_0_eq bot_apply bot_bool_def bit_eqI bit_0)
  also have "\<dots> \<longleftrightarrow> even (unat b div 128)"
  proof -
    have "bit b 7 = bit (unat b) 7" by (simp add: bit_unsigned_iff)
    then show ?thesis by (simp add: bit_iff_odd [of "unat b" 7])
  qed
  also have "\<dots> \<longleftrightarrow> unat b < 128"
  proof -
    have "unat b div 128 < 2" using unat_u8_lt [of b] by (simp add: less_mult_imp_div_less)
    then have "unat b div 128 = 0 \<or> unat b div 128 = 1" by auto
    then show ?thesis by auto
  qed
  finally show ?thesis .
qed

lemma unat_low7: "unat (ucast ((b :: u8) AND 0x7F) :: u64) = unat b mod 128"
proof -
  have "unat (b AND 0x7F) = unat b mod 128" by (simp only: and_0x7F unat_take_bit) simp
  then show ?thesis by (simp add: unsigned_ucast_eq take_bit_nat_eq_self)
qed

lemma unat_u8_of_nat: "n < 256 \<Longrightarrow> unat (word_of_nat n :: u8) = n"
  by (simp add: unat_of_nat)

lemma varint_scan_leb128:
  "unat v < 2 ^ shift \<Longrightarrow> unat v + n * 2 ^ shift < 2 ^ 64 \<Longrightarrow> n < 2 ^ (64 - shift) \<Longrightarrow> shift \<le> 63 \<Longrightarrow>
   varint_scan (pre @ leb128 n @ post) (length pre) v shift =
     (Some (word_of_nat (unat v + n * 2 ^ shift)), length pre + length (leb128 n))"
proof (induction n arbitrary: pre v shift rule: leb128.induct)
  case (1 n)
  show ?case
  proof (cases "n < 128")
    case True
    let ?b = "word_of_nat n :: u8"
    have b: "unat ?b = n" using True by (simp add: unat_u8_of_nat)
    have "unat (v OR push_bit shift (ucast (?b AND 0x7F))) = unat v + n * 2 ^ shift"
      using 1 True by (subst unat_or_push_bit) (simp_all add: unat_low7 b)
    then have "v OR push_bit shift (ucast (?b AND 0x7F)) = word_of_nat (unat v + n * 2 ^ shift)"
      by (metis of_nat_unat ucast_id)
    moreover have "leb128 n = [?b]" using True by (simp add: leb128.simps)
    ultimately show ?thesis
      using True by (subst varint_scan.simps) (simp add: Let_def and_0x80 b)
  next
    case False
    let ?b = "word_of_nat (n mod 128 + 128) :: u8"
    let ?v' = "v OR push_bit shift (ucast (?b AND 0x7F))"
    have b: "unat ?b = n mod 128 + 128"
      by (rule unat_u8_of_nat) (simp add: add_less_le_mono [of "n mod 128" 128 128 128, simplified])
    have alg: "(x + 128 * y) * p = x * p + y * (p * 128)" for x y p :: nat
      by (simp add: algebra_simps)
    have split: "n * 2 ^ shift = (n mod 128) * 2 ^ shift + (n div 128) * 2 ^ (shift + 7)"
      using alg [of "n mod 128" "n div 128" "2 ^ shift"] by (simp add: power_add)
    have s7: "shift + 7 < 64"
    proof (rule ccontr)
      assume "\<not> shift + 7 < 64"
      then have "(2::nat) ^ (64 - shift) \<le> 2 ^ 7" by (intro power_increasing) auto
      with 1 False show False by simp
    qed
    have c: "unat (ucast (?b AND 0x7F) :: u64) = n mod 128"
      by (simp only: unat_low7 b) simp
    have "unat v + (n mod 128) * 2 ^ shift < 2 ^ 64"
      using "1.prems"(2) split by linarith
    then have v': "unat ?v' = unat v + (n mod 128) * 2 ^ shift"
      using unat_or_push_bit [OF "1.prems"(1), of "ucast (?b AND 0x7F)"] by (simp only: c)
    have "(n mod 128) * 2 ^ shift \<le> 127 * 2 ^ shift" by (intro mult_right_mono) auto
    moreover have "(2::nat) ^ (shift + 7) = 2 ^ shift * 128" by (simp add: power_add)
    ultimately have v'_lt: "unat ?v' < 2 ^ (shift + 7)"
      unfolding v' using "1.prems"(1) by linarith
    have sum: "unat ?v' + (n div 128) * 2 ^ (shift + 7) = unat v + n * 2 ^ shift"
      unfolding v' split by simp
    have n'_lt: "n div 128 < 2 ^ (64 - (shift + 7))"
    proof -
      have "(2::nat) ^ (64 - shift) = 2 ^ (64 - (shift + 7)) * 128"
        using s7 power_add [of "2::nat" "64 - (shift + 7)" 7] by simp
      with 1 show ?thesis by (simp add: less_mult_imp_div_less)
    qed
    have "varint_scan ((pre @ [?b]) @ leb128 (n div 128) @ post) (length (pre @ [?b])) ?v' (shift + 7) =
        (Some (word_of_nat (unat v + n * 2 ^ shift)), length (pre @ [?b]) + length (leb128 (n div 128)))"
      using "1.IH" [OF False v'_lt _ n'_lt, of "pre @ [?b]"] "1.prems"(2) s7 unfolding sum by linarith
    moreover have "leb128 n = ?b # leb128 (n div 128)" using False by (subst leb128.simps) simp
    moreover have "\<not> ?b AND 0x80 = 0" by (simp only: and_0x80 b)
    ultimately show ?thesis
      using s7 by (subst varint_scan.simps) (simp add: Let_def del: of_nat_add)
  qed
qed

text \<open>
  The cursor after a successful read of an encoded value, whatever precedes and follows it.
\<close>

lemma reader_at:
  assumes "rd_ok r" and "rd_rest r = xs @ post"
  obtains pre where "rd_buf r = pre @ xs @ post" "rd_pos r = length pre"
proof (rule that [of "take (rd_pos r) (rd_buf r)"])
  show "rd_buf r = take (rd_pos r) (rd_buf r) @ xs @ post"
    using assms(2) by (metis rd_rest_def append_take_drop_id)
  show "rd_pos r = length (take (rd_pos r) (rd_buf r))"
    using assms(1) by (simp add: rd_ok_def min_def)
qed

lemma rd_rest_advance [simp]:
  "rd_rest r = xs @ post \<Longrightarrow> rd_rest (rd_advance (length xs) r) = post"
  by (simp add: rd_rest_def rd_advance_def flip: drop_drop add: add.commute [of _ "length xs"])

lemma scan_rest:
  assumes "rd_ok r" "rd_rest r = leb128 n @ post" "n < 2 ^ 64"
  shows "varint_scan (rd_buf r) (rd_pos r) 0 0 =
    (Some (word_of_nat n), rd_pos r + length (leb128 n))"
  using varint_scan_leb128 [of 0 0 n] assms(3)
  by (rule_tac reader_at [OF assms(1,2)]) simp

lemma read_varint_leb128:
  assumes "rd_ok r" "rd_rest r = leb128 n @ post" "n < 2 ^ 64"
  shows "otlp_pb_read_varint r = (Some (word_of_nat n), rd_advance (length (leb128 n)) r)"
  by (simp add: otlp_pb_read_varint_def scan_rest [OF assms] rd_advance_def)

lemma unat_and_7: "unat (w AND 7 :: u64) = unat w mod 8"
proof -
  have "w AND 7 = take_bit 3 w" by (simp add: take_bit_eq_mask mask_eq_exp_minus_1)
  then show ?thesis by (simp only: unat_take_bit) simp
qed

lemma read_key_tag:
  assumes "rd_ok r" "rd_rest r = tag_bytes f wt @ post" "f \<noteq> 0" "valid_wire wt"
  shows "otlp_pb_read_key r = (Some (f, nat wt), rd_advance (length (tag_bytes f wt)) r)"
proof -
  let ?k = "unat f * 8 + nat wt"
  have wt: "nat wt < 8" using assms(4) by (auto simp: valid_wire_def wire_defs)
  have k: "?k < 2 ^ 64" using unat_u32_lt [of f] wt by simp
  then have uk: "unat (word_of_nat ?k :: u64) = ?k" by (rule unat_of_nat_u64)
  have "unat (drop_bit 3 (word_of_nat ?k) :: u64) = unat f"
    unfolding unat_drop_bit uk using wt by simp
  then have f: "(ucast (drop_bit 3 (word_of_nat ?k :: u64)) :: u32) = f"
    by (simp only: ucast_word_of_nat) simp
  have w: "unat ((word_of_nat ?k :: u64) AND 7) = nat wt"
    unfolding unat_and_7 uk using wt by simp
  have r: "rd_rest r = leb128 ?k @ post" using assms(2) by (simp add: tag_bytes_def)
  show ?thesis
    unfolding otlp_pb_read_key_def scan_rest [OF assms(1) r k]
    by (simp only: prod.case option.case Let_def f w assms(3) if_True rd_advance_def tag_bytes_def
        simp_thms)
qed

lemma rd_ok_advance:
  "rd_ok r \<Longrightarrow> rd_rest r = xs @ post \<Longrightarrow> rd_ok (rd_advance (length xs) r)"
  by (auto simp: rd_ok_def rd_rest_def rd_advance_def dest: arg_cong [of _ _ length])

lemma read_len_delim:
  assumes "rd_ok r" "rd_rest r = len_delim xs @ post" "length xs \<le> SIZE_MAX"
  shows "otlp_pb_read_len r = (Some xs, rd_advance (length (len_delim xs)) r)"
proof -
  have n: "length xs < 2 ^ 64" using assms(3) by (simp add: SIZE_MAX_def)
  let ?r = "rd_advance (length (leb128 (length xs))) r"
  have r: "rd_rest r = leb128 (length xs) @ (xs @ post)"
    using assms(2) by (simp add: len_delim_def)
  have rest: "rd_rest ?r = xs @ post" using r by (rule rd_rest_advance)
  have "length xs \<le> rd_left ?r"
    using arg_cong [OF rest, of length] by (simp add: rd_rest_def rd_left_def)
  moreover have "take (length xs) (drop (rd_pos ?r) (rd_buf ?r)) = xs"
    using rest by (simp add: rd_rest_def)
  ultimately show ?thesis
    using read_varint_leb128 [OF assms(1) r n] unat_of_nat_u64 [OF n]
    by (simp add: otlp_pb_read_len_def len_delim_def) (simp add: rd_advance_def add.assoc)
qed

lemma foldr_le_bytes:
  "foldr (\<lambda>b acc. unat b + 256 * acc) (map (\<lambda>i. ucast (drop_bit (i * 8) v) :: u8) [0..<k]) 0
    = unat (v :: 'a::len word) mod 256 ^ k"
proof (induction k arbitrary: v)
  case 0
  then show ?case by simp
next
  case (Suc k)
  have up: "[0..<Suc k] = 0 # map Suc [0..<k]" by (simp add: map_Suc_upt upt_conv_Cons)
  have d: "unat (drop_bit 8 v) = unat v div 256"
    by (simp only: unat_drop_bit_eq) (simp add: drop_bit_eq_div)
  have m: "map (\<lambda>i. ucast (drop_bit (i * 8) v) :: u8) [0..<Suc k] =
      ucast v # map (\<lambda>i. ucast (drop_bit (i * 8) (drop_bit 8 v))) [0..<k]"
    unfolding up by (simp add: comp_def add.commute)
  have "foldr (\<lambda>b acc. unat b + 256 * acc)
      (map (\<lambda>i. ucast (drop_bit (i * 8) v) :: u8) [0..<Suc k]) 0 =
      unat (ucast v :: u8) + 256 * (unat (drop_bit 8 v) mod 256 ^ k)"
    unfolding m foldr.simps comp_apply Suc.IH ..
  also have "\<dots> = unat v mod 256 + 256 * ((unat v div 256) mod 256 ^ k)"
    by (simp add: d unsigned_ucast_eq take_bit_eq_mod)
  also have "\<dots> = unat v mod 256 ^ Suc k" by (simp add: mod_mult2_eq)
  finally show ?case .
qed

lemma word_of_le_fixed64: "word_of_le (fixed64_bytes v) = v"
  unfolding word_of_le_def fixed64_bytes_def foldr_le_bytes
  using unat_u64_lt [of v] by simp

lemma word_of_le_fixed32: "word_of_le (fixed32_bytes v) = v"
  unfolding word_of_le_def fixed32_bytes_def foldr_le_bytes
  using unat_u32_lt [of v] by simp

lemma rd_rest_take:
  "rd_rest r = xs @ post \<Longrightarrow> length xs \<le> rd_left r \<and> take (length xs) (drop (rd_pos r) (rd_buf r)) = xs"
  by (simp add: rd_rest_def rd_left_def) (metis append_eq_conv_conj length_append length_drop le_add1)

lemma read_fixed64_bytes:
  "rd_rest r = fixed64_bytes v @ post \<Longrightarrow> otlp_pb_read_fixed64 Little r = (Some v, rd_advance 8 r)"
  using rd_rest_take [of r "fixed64_bytes v" post]
  by (auto simp: otlp_pb_read_fixed64_def rd_advance_def memcpy_word_def word_of_le_fixed64)

lemma read_fixed32_bytes:
  "rd_rest r = fixed32_bytes v @ post \<Longrightarrow> otlp_pb_read_fixed32 Little r = (Some v, rd_advance 4 r)"
  using rd_rest_take [of r "fixed32_bytes v" post]
  by (auto simp: otlp_pb_read_fixed32_def rd_advance_def memcpy_word_def word_of_le_fixed32)

section \<open>Messages\<close>

text \<open>
  A message as the list of its fields in wire order, its serialization, and the parser that
  walks a buffer with the reader's own primitives.
\<close>

datatype pb_value = PVarint u64 | PFixed64 u64 | PFixed32 u32 | PLen "u8 list"

type_synonym pb_msg = "(u32 \<times> pb_value) list"

fun pb_wire :: "pb_value \<Rightarrow> int" where
  "pb_wire (PVarint _) = OTLP_PB_WIRE_VARINT"
| "pb_wire (PFixed64 _) = OTLP_PB_WIRE_FIXED64"
| "pb_wire (PFixed32 _) = OTLP_PB_WIRE_FIXED32"
| "pb_wire (PLen _) = OTLP_PB_WIRE_LEN"

fun value_bytes :: "pb_value \<Rightarrow> u8 list" where
  "value_bytes (PVarint v) = leb128 (unat v)"
| "value_bytes (PFixed64 v) = fixed64_bytes v"
| "value_bytes (PFixed32 v) = fixed32_bytes v"
| "value_bytes (PLen xs) = len_delim xs"

fun field_enc :: "u32 \<times> pb_value \<Rightarrow> u8 list" where
  "field_enc (f, v) = tag_bytes f (pb_wire v) @ value_bytes v"

definition ser_msg :: "pb_msg \<Rightarrow> u8 list" where
  "ser_msg fs = concat (map field_enc fs)"

fun wf_field :: "u32 \<times> pb_value \<Rightarrow> bool" where
  "wf_field (f, PLen xs) = (f \<noteq> 0 \<and> length xs \<le> SIZE_MAX)"
| "wf_field (f, _) = (f \<noteq> 0)"

text \<open>Reading one value of a known wire type.\<close>

definition read_value :: "pb_reader \<Rightarrow> nat \<Rightarrow> pb_value option \<times> pb_reader" where
  "read_value r wt =
     (if int wt = OTLP_PB_WIRE_VARINT then
        (case otlp_pb_read_varint r of (v, r') \<Rightarrow> (map_option PVarint v, r'))
      else if int wt = OTLP_PB_WIRE_FIXED64 then
        (case otlp_pb_read_fixed64 Little r of (v, r') \<Rightarrow> (map_option PFixed64 v, r'))
      else if int wt = OTLP_PB_WIRE_LEN then
        (case otlp_pb_read_len r of (v, r') \<Rightarrow> (map_option PLen v, r'))
      else if int wt = OTLP_PB_WIRE_FIXED32 then
        (case otlp_pb_read_fixed32 Little r of (v, r') \<Rightarrow> (map_option PFixed32 v, r'))
      else (None, r))"

lemma varint_scan_mono: "varint_scan buf pos v shift = (res, pos') \<Longrightarrow> pos \<le> pos'"
proof (induction buf pos v shift rule: varint_scan.induct)
  case (1 buf pos v shift)
  then show ?case
    by (cases "pos < length buf")
       (fastforce simp: varint_scan.simps [of buf pos v shift] Let_def split: if_splits)+
qed

lemma read_varint_mono:
  "otlp_pb_read_varint r = (res, r') \<Longrightarrow> rd_buf r' = rd_buf r \<and> rd_pos r \<le> rd_pos r'"
  by (auto simp: otlp_pb_read_varint_def dest: varint_scan_mono split: prod.splits)

lemma read_len_mono:
  "otlp_pb_read_len r = (res, r') \<Longrightarrow> rd_buf r' = rd_buf r \<and> rd_pos r \<le> rd_pos r'"
  by (cases "otlp_pb_read_varint r")
     (auto simp: otlp_pb_read_len_def dest!: read_varint_mono split: option.splits if_splits)

lemma skip_mono:
  "otlp_pb_skip r wt = (ok, r') \<Longrightarrow> rd_buf r' = rd_buf r \<and> rd_pos r \<le> rd_pos r'"
  by (cases "otlp_pb_read_varint r"; cases "otlp_pb_read_len r")
     (auto simp: otlp_pb_skip_def dest!: read_varint_mono read_len_mono split: if_splits)

lemma read_value_mono:
  "read_value r wt = (v, r') \<Longrightarrow> rd_buf r' = rd_buf r \<and> rd_pos r \<le> rd_pos r'"
  by (cases "otlp_pb_read_varint r"; cases "otlp_pb_read_len r")
     (auto simp: read_value_def otlp_pb_read_fixed64_def otlp_pb_read_fixed32_def
       dest!: read_varint_mono read_len_mono split: if_splits)

lemma read_key_progress:
  assumes "otlp_pb_read_key r = (Some k, r')"
  shows "rd_buf r' = rd_buf r" "rd_left r' < rd_left r" "rd_pos r < length (rd_buf r)"
proof -
  obtain w p where sc: "varint_scan (rd_buf r) (rd_pos r) 0 0 = (w, p)"
    by (cases "varint_scan (rd_buf r) (rd_pos r) 0 0")
  with assms obtain x where w: "w = Some x" and r': "r' = r\<lparr>rd_pos := p\<rparr>"
    by (auto simp: otlp_pb_read_key_def Let_def split: option.splits if_splits)
  from sc w have lt: "rd_pos r < length (rd_buf r)" by (auto dest: varint_scan_some_lt)
  with varint_scan_bounds [OF sc] show "rd_buf r' = rd_buf r" "rd_left r' < rd_left r"
    "rd_pos r < length (rd_buf r)"
    by (auto simp: r' rd_left_def)
qed

lemma read_progress:
  assumes "otlp_pb_read_key r = (Some k, r')" "rd_buf r'' = rd_buf r' \<and> rd_pos r' \<le> rd_pos r''"
  shows "rd_left r'' < rd_left r"
  using read_key_progress [OF assms(1)] assms(2) by (auto simp: rd_left_def)

lemmas read_progress' = read_progress [OF sym]

function parse_msg :: "pb_reader \<Rightarrow> pb_msg option" where
  "parse_msg r =
     (if rd_pos r \<ge> length (rd_buf r) then Some []
      else (case otlp_pb_read_key r of
        (None, r') \<Rightarrow> None
      | (Some (f, wt), r') \<Rightarrow>
          (case read_value r' wt of
            (None, r'') \<Rightarrow> None
          | (Some v, r'') \<Rightarrow> map_option (Cons (f, v)) (parse_msg r''))))"
  by pat_completeness auto
termination
  by (relation "measure rd_left") (auto dest!: read_value_mono [OF sym] intro: read_progress')

declare parse_msg.simps [simp del]

lemma read_value_bytes:
  assumes "rd_ok r" "rd_rest r = value_bytes v @ post" "wf_field (f, v)"
  shows "read_value r (nat (pb_wire v)) = (Some v, rd_advance (length (value_bytes v)) r)"
proof (cases v)
  case (PVarint x)
  with read_varint_leb128 [OF assms(1), of "unat x" post] assms(2) unat_u64_lt [of x]
  show ?thesis by (simp add: read_value_def wire_defs)
next
  case (PFixed64 x)
  with read_fixed64_bytes assms(2) show ?thesis by (simp add: read_value_def wire_defs)
next
  case (PFixed32 x)
  with read_fixed32_bytes assms(2) show ?thesis by (simp add: read_value_def wire_defs)
next
  case (PLen xs)
  with read_len_delim [OF assms(1), of xs post] assms show ?thesis
    by (simp add: read_value_def wire_defs)
qed

lemma valid_wire_pb_wire [simp]: "valid_wire (pb_wire v)"
  by (cases v) (auto simp: valid_wire_def)

lemma wf_field_nonzero: "wf_field (f, v) \<Longrightarrow> f \<noteq> 0"
  by (cases v) auto

lemma parse_ser_rest:
  "rd_ok r \<Longrightarrow> rd_rest r = ser_msg fs \<Longrightarrow> list_all wf_field fs \<Longrightarrow> parse_msg r = Some fs"
proof (induction fs arbitrary: r)
  case Nil
  then show ?case by (subst parse_msg.simps) (simp add: ser_msg_def rd_rest_def)
next
  case (Cons fv fs)
  obtain f v where fv: "fv = (f, v)" by (cases fv)
  from Cons.prems have wf: "wf_field (f, v)" "list_all wf_field fs" by (simp_all add: fv)
  let ?t = "tag_bytes f (pb_wire v)"
  let ?r1 = "rd_advance (length ?t) r"
  let ?r2 = "rd_advance (length (value_bytes v)) ?r1"
  have rest: "rd_rest r = ?t @ (value_bytes v @ ser_msg fs)"
    using Cons.prems(2) by (simp add: ser_msg_def fv)
  have key: "otlp_pb_read_key r = (Some (f, nat (pb_wire v)), ?r1)"
    by (rule read_key_tag [OF Cons.prems(1) rest wf_field_nonzero [OF wf(1)]]) simp
  have r1: "rd_ok ?r1" "rd_rest ?r1 = value_bytes v @ ser_msg fs"
    using rest by (auto intro: rd_ok_advance [OF Cons.prems(1)])
  have r2: "rd_ok ?r2" "rd_rest ?r2 = ser_msg fs"
    using r1 rd_rest_advance [OF r1(2)] by (auto intro: rd_ok_advance)
  have "\<not> rd_pos r \<ge> length (rd_buf r)"
    using read_key_progress(3) [OF key] by simp
  then show ?case
    using key read_value_bytes [OF r1 wf(1)] Cons.IH [OF r2 wf(2)]
    by (subst parse_msg.simps) (simp add: fv)
qed

section \<open>Properties\<close>

text \<open>
  C24. Round trip: parsing the serialization of any message with the reader's own primitives
  gives the fields back, in order and with their values, and consumes every byte.
\<close>

theorem message_roundtrip:
  assumes "list_all wf_field fs"
  shows "parse_msg (otlp_pb_reader_init (ser_msg fs)) = Some fs"
  using assms by (intro parse_ser_rest) (simp_all add: otlp_pb_reader_init_def rd_ok_def rd_rest_def)

theorem message_roundtrip_witness:
  "parse_msg (otlp_pb_reader_init
     (ser_msg [(1, PVarint 300), (2, PLen [104, 105]), (16, PFixed32 1), (7, PFixed64 5)])) =
   Some [(1, PVarint 300), (2, PLen [104, 105]), (16, PFixed32 1), (7, PFixed64 5)]"
  by (rule message_roundtrip) (simp add: SIZE_MAX_def)



text \<open>
  \<open>otlp_pb_read_key\<close> truncates the field number to 32 bits, so an over-long key aliases a
  real field: for every \<open>k\<close> the key of "field" \<open>f + k * 2^32\<close> is read as field \<open>f\<close>. Only a
  number that truncates to 0 is rejected, although the comment at the check says garbage keys
  are kept from aliasing a real field.
\<close>

theorem read_key_aliases_field:
  assumes "f \<noteq> 0" and "wt < 8" and "(unat f + k * 2 ^ 32) * 8 + wt < 2 ^ 64"
  shows "fst (otlp_pb_read_key (otlp_pb_reader_init
           (leb128 ((unat (f :: u32) + k * 2 ^ 32) * 8 + wt) @ post))) = Some (f, wt)"
proof -
  let ?n = "(unat f + k * 2 ^ 32) * 8 + wt"
  let ?r = "otlp_pb_reader_init (leb128 ?n @ post)"
  have ok: "rd_ok ?r" and rest: "rd_rest ?r = leb128 ?n @ post"
    by (simp_all add: rd_ok_def rd_rest_def otlp_pb_reader_init_def)
  have n: "unat (word_of_nat ?n :: u64) = ?n" using assms(3) by (rule unat_of_nat_u64)
  have u: "unat (drop_bit 3 (word_of_nat ?n) :: u64) = unat f + k * 2 ^ 32"
    unfolding unat_drop_bit n using assms(2) by simp
  have f: "(ucast (drop_bit 3 (word_of_nat ?n :: u64)) :: u32) = f"
    unfolding ucast_word_of_nat u
    by (rule word_unat_eq_iff [THEN iffD2]) (use unat_u32_lt [of f] in \<open>simp only: unat_of_nat, simp\<close>)
  have w: "unat ((word_of_nat ?n :: u64) AND 7) = wt"
    unfolding unat_and_7 n using assms(2) by (simp only: mod_mult_self3 mod_less)
  show ?thesis
    unfolding otlp_pb_read_key_def scan_rest [OF ok rest assms(3)]
    by (simp only: prod.case option.case Let_def f w assms(1) if_True simp_thms fst_conv)
qed

theorem read_key_aliases_field_witness:
  "fst (otlp_pb_read_key (otlp_pb_reader_init [136, 128, 128, 128, 128, 1, 0])) = Some (1, 0)"
proof -
  have "leb128 ((unat (1 :: u32) + 1 * 2 ^ 32) * 8 + 0) @ [0] = [136, 128, 128, 128, 128, 1, 0]"
    by (simp add: leb128.simps)
  with read_key_aliases_field [of 1 0 1 "[0]"] show ?thesis by simp
qed

text \<open>
  Fixed-width fields survive encode and decode on a little-endian host. On a big-endian
  host the decoder's \<^verbatim>\<open>memcpy\<close> returns the bytes of the encoder in reverse order, although
  the header promises a little-endian value and the encoder avoids any platform dependency.
\<close>

theorem fixed64_roundtrip_little_only:
  "fst (otlp_pb_read_fixed64 Little (otlp_pb_reader_init (fixed64_bytes v @ post))) = Some v \<and>
   fst (otlp_pb_read_fixed64 Big (otlp_pb_reader_init (fixed64_bytes 1 @ post))) = Some (2 ^ 56)"
proof
  show "fst (otlp_pb_read_fixed64 Little (otlp_pb_reader_init (fixed64_bytes v @ post))) = Some v"
    by (subst read_fixed64_bytes) (simp_all add: rd_rest_def otlp_pb_reader_init_def)
  have "fixed64_bytes 1 = [1, 0, 0, 0, 0, 0, 0, 0]"
    by (simp add: fixed64_bytes_def upt_rec)
  then show "fst (otlp_pb_read_fixed64 Big (otlp_pb_reader_init (fixed64_bytes 1 @ post))) = Some (2 ^ 56)"
    by (simp add: otlp_pb_read_fixed64_def otlp_pb_reader_init_def rd_left_def memcpy_word_def
        word_of_le_def)
qed

end
