(* ===== verification/Partial_Success.thy ===== *)
theory Partial_Success
  imports Pb_Decode Otlp_Schema
begin

text \<open>
  The decoder of the collector's \<^verbatim>\<open>Export*ServiceResponse\<close>
  (\<^verbatim>\<open>otlp_exporter_otel_decode_partial_success\<close> in \<^verbatim>\<open>src/exporter_otel.c\<close>), written against the
  bounds-checked reader. It is compared with the generic parser \<open>parse_msg\<close>: on every body that
  is a protobuf message it computes the last-one-wins fold over the fields.
\<close>

section \<open>The decoder\<close>

text \<open>
  The two outputs. \<open>ps_rejected\<close> is the \<^verbatim>\<open>int64_t\<close> with its bit pattern, \<open>ps_message\<close> the
  bytes \<^verbatim>\<open>error_message\<close> points to within the body.
\<close>

record ps_out =
  ps_rejected :: u64
  ps_message :: "u8 list option"

definition ps_none :: ps_out where
  "ps_none = \<lparr>ps_rejected = 0, ps_message = None\<rparr>"

function decode_partial_success_sub :: "pb_reader \<Rightarrow> ps_out \<Rightarrow> bool \<times> ps_out" where
  "decode_partial_success_sub r out =
     (case otlp_pb_read_key r of
        (None, r1) \<Rightarrow> (rd_pos r1 \<ge> length (rd_buf r1), out)
      | (Some (field, wt), r1) \<Rightarrow>
          if field = fs_number (OTLP_EPS_FIELDS OTLP_EPS_FI_REJECTED) \<and> int wt = OTLP_PB_WIRE_VARINT
          then (case otlp_pb_read_varint r1 of
              (None, r2) \<Rightarrow> (False, out)
            | (Some v, r2) \<Rightarrow> decode_partial_success_sub r2 (out\<lparr>ps_rejected := v\<rparr>))
          else if field = fs_number (OTLP_EPS_FIELDS OTLP_EPS_FI_ERROR_MESSAGE) \<and> int wt = OTLP_PB_WIRE_LEN
          then (case otlp_pb_read_len r1 of
              (None, r2) \<Rightarrow> (False, out)
            | (Some d, r2) \<Rightarrow> decode_partial_success_sub r2 (out\<lparr>ps_message := Some d\<rparr>))
          else (case otlp_pb_skip r1 wt of
              (False, r2) \<Rightarrow> (False, out)
            | (True, r2) \<Rightarrow> decode_partial_success_sub r2 out))"
  by pat_completeness auto
termination
  by (relation "measure (\<lambda>(r, _). rd_left r)")
     (auto dest!: sym [of "(_, _)" "otlp_pb_read_varint _"] sym [of "(_, _)" "otlp_pb_read_len _"]
       sym [of "(_, _)" "otlp_pb_skip _ _"] intro: read_progress' dest: read_varint_mono read_len_mono skip_mono)

declare decode_partial_success_sub.simps [simp del]

function decode_response_loop :: "pb_reader \<Rightarrow> bool \<Rightarrow> ps_out \<Rightarrow> bool \<times> ps_out" where
  "decode_response_loop r found out =
     (case otlp_pb_read_key r of
        (None, r1) \<Rightarrow> (rd_pos r1 \<ge> length (rd_buf r1) \<and> found, out)
      | (Some (field, wt), r1) \<Rightarrow>
          if field = fs_number (OTLP_EXPSR_FIELDS OTLP_EXPSR_FI_PARTIAL_SUCCESS) \<and> int wt = OTLP_PB_WIRE_LEN
          then (case otlp_pb_read_len r1 of
              (None, r2) \<Rightarrow> (False, out)
            | (Some sub, r2) \<Rightarrow>
                (case decode_partial_success_sub (otlp_pb_reader_init sub) out of
                   (False, out') \<Rightarrow> (False, out')
                 | (True, out') \<Rightarrow> decode_response_loop r2 True out'))
          else (case otlp_pb_skip r1 wt of
              (False, r2) \<Rightarrow> (False, out)
            | (True, r2) \<Rightarrow> decode_response_loop r2 found out))"
  by pat_completeness auto
termination
  by (relation "measure (\<lambda>(r, _). rd_left r)")
     (auto dest!: sym [of "(_, _)" "otlp_pb_read_len _"]
       sym [of "(_, _)" "otlp_pb_skip _ _"] intro: read_progress' dest: read_len_mono skip_mono)

declare decode_response_loop.simps [simp del]

text \<open>A NULL body with a positive length is refused before the outputs are written.\<close>

definition otlp_exporter_otel_decode_partial_success ::
  "u8 list option \<Rightarrow> nat \<Rightarrow> ps_out \<Rightarrow> bool \<times> ps_out" where
  "otlp_exporter_otel_decode_partial_success body len out =
     (if body = None \<and> len > 0 then (False, out)
      else decode_response_loop
        (otlp_pb_reader_init (case body of None \<Rightarrow> [] | Some b \<Rightarrow> take len b)) False ps_none)"

section \<open>The specification\<close>

text \<open>Last one wins, field by field; unknown fields and wrong wire types are ignored.\<close>

fun ps_field :: "u32 \<times> pb_value \<Rightarrow> ps_out \<Rightarrow> ps_out" where
  "ps_field (f, PVarint v) out = (if f = 1 then out\<lparr>ps_rejected := v\<rparr> else out)"
| "ps_field (f, PLen d) out = (if f = 2 then out\<lparr>ps_message := Some d\<rparr> else out)"
| "ps_field _ out = out"

text \<open>The partial_success submessages of a response.\<close>

fun ps_subs :: "pb_msg \<Rightarrow> u8 list list" where
  "ps_subs [] = []"
| "ps_subs ((f, PLen d) # fs) = (if f = 1 then d # ps_subs fs else ps_subs fs)"
| "ps_subs (_ # fs) = ps_subs fs"

definition ps_merge :: "u8 list \<Rightarrow> ps_out \<Rightarrow> ps_out" where
  "ps_merge d out = fold ps_field (the (parse_msg (otlp_pb_reader_init d))) out"

section \<open>The decoder computes the specification\<close>

lemma read_key_at_end:
  assumes "rd_pos r \<ge> length (rd_buf r)"
  shows "otlp_pb_read_key r = (None, r)"
proof -
  have "varint_scan (rd_buf r) (rd_pos r) 0 0 = (None, rd_pos r)"
    using assms by (subst varint_scan.simps) simp
  then show ?thesis by (simp add: otlp_pb_read_key_def)
qed

lemma read_value_skip: "read_value r wt = (Some v, r') \<Longrightarrow> otlp_pb_skip r wt = (True, r')"
  by (auto simp: read_value_def otlp_pb_skip_def otlp_pb_read_fixed64_def otlp_pb_read_fixed32_def
      wire_defs split: if_splits prod.splits)

lemma read_value_varint:
  "read_value r wt = (Some v, r') \<Longrightarrow> int wt = OTLP_PB_WIRE_VARINT \<Longrightarrow>
   \<exists>x. v = PVarint x \<and> otlp_pb_read_varint r = (Some x, r')"
  by (auto simp: read_value_def split: prod.splits)

lemma read_value_len:
  "read_value r wt = (Some v, r') \<Longrightarrow> int wt = OTLP_PB_WIRE_LEN \<Longrightarrow>
   \<exists>x. v = PLen x \<and> otlp_pb_read_len r = (Some x, r')"
  by (auto simp: read_value_def wire_defs split: prod.splits)

lemma read_value_other:
  "read_value r wt = (Some v, r') \<Longrightarrow> int wt \<noteq> OTLP_PB_WIRE_VARINT \<Longrightarrow> \<forall>x. v \<noteq> PVarint x"
  "read_value r wt = (Some v, r') \<Longrightarrow> int wt \<noteq> OTLP_PB_WIRE_LEN \<Longrightarrow> \<forall>x. v \<noteq> PLen x"
  by (auto simp: read_value_def wire_defs split: prod.splits if_splits)

lemma parse_msg_cases:
  assumes "parse_msg r = Some fs"
  obtains "otlp_pb_read_key r = (None, r)" "rd_pos r \<ge> length (rd_buf r)" "fs = []"
  | f wt r1 v r2 fs' where "otlp_pb_read_key r = (Some (f, wt), r1)" "read_value r1 wt = (Some v, r2)"
    "parse_msg r2 = Some fs'" "fs = (f, v) # fs'" "rd_left r2 < rd_left r"
proof (cases "rd_pos r \<ge> length (rd_buf r)")
  case True
  then show ?thesis using assms read_key_at_end that(1) by (subst (asm) parse_msg.simps) simp
next
  case False
  then obtain f wt r1 v r2 fs' where *: "otlp_pb_read_key r = (Some (f, wt), r1)"
    "read_value r1 wt = (Some v, r2)" "parse_msg r2 = Some fs'" "fs = (f, v) # fs'"
    using assms by (subst (asm) parse_msg.simps) (auto split: prod.splits option.splits)
  with that(2) read_progress [OF *(1) read_value_mono [OF *(2)]] show ?thesis by blast
qed

lemma sub_refines:
  "parse_msg r = Some fs \<Longrightarrow> decode_partial_success_sub r out = (True, fold ps_field fs out)"
proof (induction "rd_left r" arbitrary: r fs out rule: less_induct)
  case less
  from less.prems show ?case
  proof (cases rule: parse_msg_cases)
    case 1
    then show ?thesis by (simp add: decode_partial_success_sub.simps)
  next
    case (2 f wt r1 v r2 fs')
    note IH = less.hyps [OF 2(5,3)]
    consider x where "int wt = OTLP_PB_WIRE_VARINT" "v = PVarint x" "otlp_pb_read_varint r1 = (Some x, r2)"
      | x where "int wt = OTLP_PB_WIRE_LEN" "v = PLen x" "otlp_pb_read_len r1 = (Some x, r2)"
      | "int wt \<noteq> OTLP_PB_WIRE_VARINT" "int wt \<noteq> OTLP_PB_WIRE_LEN" "\<forall>x. v \<noteq> PVarint x" "\<forall>x. v \<noteq> PLen x"
      using read_value_varint [OF 2(2)] read_value_len [OF 2(2)] read_value_other [OF 2(2)] by blast
    then show ?thesis
    proof cases
      case 1
      with 2 IH read_value_skip [OF 2(2)] show ?thesis
        by (subst decode_partial_success_sub.simps) (simp add: wire_defs)
    next
      case 2
      with \<open>otlp_pb_read_key r = _\<close> \<open>fs = _\<close> IH read_value_skip [OF \<open>read_value r1 wt = _\<close>] show ?thesis
        by (subst decode_partial_success_sub.simps) (simp add: wire_defs)
    next
      case 3
      then have "ps_field (f, v) out = out" by (cases v) auto
      with 3 2 IH read_value_skip [OF 2(2)] show ?thesis
        by (subst decode_partial_success_sub.simps) simp
    qed
  qed
qed

lemma response_refines:
  "parse_msg r = Some fs \<Longrightarrow> \<forall>d\<in>set (ps_subs fs). parse_msg (otlp_pb_reader_init d) \<noteq> None \<Longrightarrow>
   decode_response_loop r found out = (found \<or> ps_subs fs \<noteq> [], fold ps_merge (ps_subs fs) out)"
proof (induction "rd_left r" arbitrary: r fs out found rule: less_induct)
  case less
  from less.prems(1) show ?case
  proof (cases rule: parse_msg_cases)
    case 1
    then show ?thesis by (simp add: decode_response_loop.simps)
  next
    case (2 f wt r1 v r2 fs')
    have sub: "\<forall>d\<in>set (ps_subs fs'). parse_msg (otlp_pb_reader_init d) \<noteq> None"
      using less.prems(2) 2(4) by (cases v) (auto split: if_splits)
    note IH = less.hyps [OF 2(5,3) sub]
    show ?thesis
    proof (cases "f = 1 \<and> int wt = OTLP_PB_WIRE_LEN")
      case True
      then obtain x where x: "v = PLen x" "otlp_pb_read_len r1 = (Some x, r2)"
        using read_value_len [OF 2(2)] by blast
      then obtain gs where gs: "parse_msg (otlp_pb_reader_init x) = Some gs"
        using less.prems(2) 2(4) True by auto
      show ?thesis
        using True 2(1,4) x gs IH by (subst decode_response_loop.simps) (simp add: sub_refines [OF gs] ps_merge_def)
    next
      case False
      then have "ps_subs fs = ps_subs fs'" using read_value_other(2) [OF 2(2)] 2(4) by (cases v) auto
      then show ?thesis
        using False 2(1) IH read_value_skip [OF 2(2)] by (subst decode_response_loop.simps) auto
    qed
  qed
qed

section \<open>What the outputs point to\<close>

lemma read_len_sublist:
  assumes "otlp_pb_read_len r = (Some d, r')"
  shows "sublist d (rd_buf r)"
proof -
  obtain w r1 where rv: "otlp_pb_read_varint r = (w, r1)" by (cases "otlp_pb_read_varint r")
  then have "rd_buf r1 = rd_buf r" using read_varint_mono by blast
  moreover have "\<exists>n. d = take n (drop (rd_pos r1) (rd_buf r1))"
    using assms rv by (auto simp: otlp_pb_read_len_def split: option.splits if_splits)
  ultimately show ?thesis
    by (metis sublist_drop sublist_order.order_trans sublist_take)
qed

lemma sub_slice:
  "decode_partial_success_sub r out = (ok, out') \<Longrightarrow> ps_message out' = Some m \<Longrightarrow>
   ps_message out = Some m \<or> sublist m (rd_buf r)"
proof (induction "rd_left r" arbitrary: r out rule: less_induct)
  case less
  obtain k r1 where rk: "otlp_pb_read_key r = (k, r1)" by (cases "otlp_pb_read_key r")
  show ?case
  proof (cases k)
    case None
    with less.prems rk show ?thesis by (subst (asm) decode_partial_success_sub.simps) auto
  next
    case (Some fw)
    obtain f wt where fw: "fw = (f, wt)" by (cases fw)
    note rk' = rk [unfolded Some fw]
    have b: "rd_buf r1 = rd_buf r" using read_key_progress(1) [OF rk'] .
    obtain v rv where v: "otlp_pb_read_varint r1 = (v, rv)" by (cases "otlp_pb_read_varint r1")
    obtain l rl where l: "otlp_pb_read_len r1 = (l, rl)" by (cases "otlp_pb_read_len r1")
    obtain s rs where s: "otlp_pb_skip r1 wt = (s, rs)" by (cases "otlp_pb_skip r1 wt")
    note mono = read_varint_mono [OF v] read_len_mono [OF l] skip_mono [OF s]
    note less = less.hyps [OF read_progress [OF rk' mono(1)]] less.hyps [OF read_progress [OF rk' mono(2)]]
      less.hyps [OF read_progress [OF rk' mono(3)]]
    show ?thesis
      using less.prems rk' v l s less mono b read_len_sublist [of r1 _ rl]
      by (subst (asm) decode_partial_success_sub.simps) (fastforce split: if_splits option.splits bool.splits)
  qed
qed

lemma response_slice:
  "decode_response_loop r found out = (ok, out') \<Longrightarrow> ps_message out' = Some m \<Longrightarrow>
   ps_message out = Some m \<or> sublist m (rd_buf r)"
proof (induction "rd_left r" arbitrary: r found out rule: less_induct)
  case less
  obtain k r1 where rk: "otlp_pb_read_key r = (k, r1)" by (cases "otlp_pb_read_key r")
  show ?case
  proof (cases k)
    case None
    with less.prems rk show ?thesis by (subst (asm) decode_response_loop.simps) auto
  next
    case (Some fw)
    obtain f wt where fw: "fw = (f, wt)" by (cases fw)
    note rk' = rk [unfolded Some fw]
    have b: "rd_buf r1 = rd_buf r" using read_key_progress(1) [OF rk'] .
    obtain l rl where l: "otlp_pb_read_len r1 = (l, rl)" by (cases "otlp_pb_read_len r1")
    obtain s rs where s: "otlp_pb_skip r1 wt = (s, rs)" by (cases "otlp_pb_skip r1 wt")
    note mono = read_len_mono [OF l] skip_mono [OF s]
    note IH = less.hyps [OF read_progress [OF rk' mono(1)]] less.hyps [OF read_progress [OF rk' mono(2)]]
    have sub: "ps_message o1 = Some m \<Longrightarrow> ps_message out = Some m \<or> sublist m (rd_buf r)"
      if "l = Some d" "decode_partial_success_sub (otlp_pb_reader_init d) out = (x, o1)" for d x o1
      using sub_slice [OF that(2), of m] read_len_sublist [of r1 d rl] l that(1) b
      by (auto simp: otlp_pb_reader_init_def intro: sublist_order.order_trans)
    show ?thesis
    proof (cases "f = 1 \<and> int wt = OTLP_PB_WIRE_LEN")
      case True
      show ?thesis
      proof (cases l)
        case None
        with True less.prems rk' l show ?thesis by (subst (asm) decode_response_loop.simps) auto
      next
        case (Some d)
        obtain x o1 where x: "decode_partial_success_sub (otlp_pb_reader_init d) out = (x, o1)"
          by (cases "decode_partial_success_sub (otlp_pb_reader_init d) out")
        have "decode_response_loop r found out = (if x then decode_response_loop rl True o1 else (False, o1))"
          using True rk' l Some x by (subst decode_response_loop.simps) simp
        then show ?thesis
          using less.prems IH(1) [of True o1] sub [OF Some x] mono(1) b by (auto split: if_splits)
      qed
    next
      case False
      then have "decode_response_loop r found out = (if s then decode_response_loop rs found out else (False, out))"
        using rk' s by (subst decode_response_loop.simps) auto
      then show ?thesis using less.prems IH(2) [of found out] mono(2) b by (auto split: if_splits)
    qed
  qed
qed

section \<open>Properties\<close>

text \<open>
  On every body that is a well-formed protobuf message whose partial_success submessages
  are well formed too, the decoder reports a partial success exactly when one is present, and
  its outputs are the last rejected count and error message, with unknown fields and foreign
  wire types skipped.
\<close>

theorem partial_success_decodes:
  assumes "parse_msg (otlp_pb_reader_init body) = Some fs"
    and "\<forall>d\<in>set (ps_subs fs). parse_msg (otlp_pb_reader_init d) \<noteq> None"
  shows "otlp_exporter_otel_decode_partial_success (Some body) (length body) out =
    (ps_subs fs \<noteq> [], fold ps_merge (ps_subs fs) ps_none)"
  using response_refines [OF assms, of False ps_none]
  by (simp add: otlp_exporter_otel_decode_partial_success_def)

lemma parse_ser_msg: "list_all wf_field fs \<Longrightarrow> parse_msg (otlp_pb_reader_init (ser_msg fs)) = Some fs"
  by (intro parse_ser_rest) (simp_all add: otlp_pb_reader_init_def rd_ok_def rd_rest_def)

text \<open>
  The witness is a response with an unknown field 7 and a partial_success that rejects 5 items,
  says "no" and carries an unknown field of its own.
\<close>

theorem partial_success_decodes_witness:
  "let sub = ser_msg [(1, PVarint 5), (2, PLen (ascii ''no'')), (9, PFixed32 3)];
       body = ser_msg [(7, PVarint 1), (1, PLen sub)]
   in otlp_exporter_otel_decode_partial_success (Some body) (length body) ps_none =
     (True, \<lparr>ps_rejected = 5, ps_message = Some (ascii ''no'')\<rparr>)"
proof -
  let ?subf = "[(1, PVarint 5), (2, PLen (ascii ''no'')), (9, PFixed32 3)]"
  let ?fs = "[(7, PVarint 1), (1, PLen (ser_msg ?subf))]"
  have sub: "parse_msg (otlp_pb_reader_init (ser_msg ?subf)) = Some ?subf"
    by (rule parse_ser_msg) (simp add: ascii_def SIZE_MAX_def)
  have "length (ser_msg ?subf) \<le> SIZE_MAX"
    by (simp add: ser_msg_def tag_bytes_def len_delim_def fixed32_bytes_def ascii_def SIZE_MAX_def
        wire_defs leb128.simps)
  then have "parse_msg (otlp_pb_reader_init (ser_msg ?fs)) = Some ?fs"
    by (intro parse_ser_msg) simp
  from partial_success_decodes [OF this, of ps_none] sub show ?thesis
    by (simp add: ps_merge_def ps_none_def)
qed

text \<open>
  On any bytes at all the decoder is memory safe in what it hands out: an error message it
  reports is a contiguous piece of the body it was given.
\<close>

theorem partial_success_message_within_body:
  assumes "otlp_exporter_otel_decode_partial_success (Some body) (length body) out = (True, out')"
    and "ps_message out' = Some m"
  shows "sublist m body"
  using response_slice [of "otlp_pb_reader_init body" False ps_none True out' m] assms
  by (simp add: otlp_exporter_otel_decode_partial_success_def otlp_pb_reader_init_def ps_none_def)

theorem partial_success_message_within_body_witness:
  "\<exists>out'. otlp_exporter_otel_decode_partial_success (Some [0x0A, 4, 0x12, 2, 0x6E, 0x6F]) 6 ps_none = (True, out') \<and>
    ps_message out' = Some [0x6E, 0x6F] \<and> sublist [0x6E, 0x6F] [0x0A, 4, 0x12, 2, 0x6E, (0x6F :: u8)]"
proof -
  let ?body = "[0x0A, 4, 0x12, 2, 0x6E, 0x6F :: u8]"
  have "otlp_exporter_otel_decode_partial_success (Some ?body) (length ?body) ps_none =
    (True, \<lparr>ps_rejected = 0, ps_message = Some [0x6E, 0x6F]\<rparr>)"
    by (simp add: otlp_exporter_otel_decode_partial_success_def decode_response_loop.simps
        decode_partial_success_sub.simps otlp_pb_reader_init_def otlp_pb_read_key_def otlp_pb_read_len_def
        otlp_pb_read_varint_def varint_scan.simps wire_defs ps_none_def rd_left_def)
  note eq = this
  have n: "length ?body = 6" by simp
  have "sublist [0x6E, 0x6F] ?body" by (rule partial_success_message_within_body [OF eq]) simp
  with eq [unfolded n] show ?thesis by auto
qed

text \<open>
  A body cut off in the middle of a key is malformed, but \<open>otlp_pb_read_key\<close> stops at the
  end of the buffer, which both loops take for a clean end: the response below, a
  partial_success followed by the first byte of a two-byte key, is accepted.
\<close>

theorem partial_success_accepts_truncated_key:
  "otlp_exporter_otel_decode_partial_success (Some [0x0A, 0, 0x80]) 3 out = (True, ps_none) \<and>
   parse_msg (otlp_pb_reader_init [0x0A, 0, 0x80]) = None"
proof
  show "otlp_exporter_otel_decode_partial_success (Some [0x0A, 0, 0x80]) 3 out = (True, ps_none)"
    by (simp add: otlp_exporter_otel_decode_partial_success_def decode_response_loop.simps
        decode_partial_success_sub.simps otlp_pb_reader_init_def otlp_pb_read_key_def otlp_pb_read_len_def
        otlp_pb_read_varint_def varint_scan.simps wire_defs ps_none_def rd_left_def)
  show "parse_msg (otlp_pb_reader_init [0x0A, 0, 0x80]) = None"
    by (simp add: parse_msg.simps otlp_pb_reader_init_def otlp_pb_read_key_def read_value_def otlp_pb_read_len_def
        otlp_pb_read_varint_def varint_scan.simps wire_defs rd_left_def)
qed

end
