(* ===== verification/Retry_Policy.thy ===== *)
theory Retry_Policy
  imports Otlp_Prelude
begin

text \<open>
  The retry timing of \<^verbatim>\<open>src/retry_policy.c\<close>: the xorshift generator behind the jitter, the
  exponential base delay and the jittered delay with the server's floor. Delays are \<^verbatim>\<open>uint32_t\<close>
  milliseconds, the intermediate products \<^verbatim>\<open>uint64_t\<close>, both kept at their width.
\<close>

section \<open>The code\<close>

definition otlp_jitter_next :: "u64 \<Rightarrow> u64 \<times> u64" where
  "otlp_jitter_next s =
     (let v1 = s XOR push_bit 13 s;
          v2 = v1 XOR drop_bit 7 v1;
          v3 = v2 XOR push_bit 17 v2
      in (v3 * 0x2545F4914F6CDD1D, v3))"

record retry_cfg =
  initial_ms :: u32
  max_ms :: u32

definition otlp_retry_base_delay_ms :: "u32 \<Rightarrow> retry_cfg \<Rightarrow> u32" where
  "otlp_retry_base_delay_ms attempt cfg =
     (let shift0 = attempt - 1;
          shift = (if shift0 > 31 then 31 else shift0);
          exp = push_bit (unat shift) (ucast (initial_ms cfg) :: u64);
          delay = (if exp > ucast (max_ms cfg) then ucast (max_ms cfg) else exp)
      in ucast delay)"

text \<open>
  The delay, the state of the generator afterwards, and the \<^verbatim>\<open>server_driven\<close> output.
\<close>

definition otlp_retry_delay_ms :: "u64 \<Rightarrow> u32 \<Rightarrow> u32 \<Rightarrow> retry_cfg \<Rightarrow> u32 \<times> u64 \<times> bool" where
  "otlp_retry_delay_ms prng attempt server_floor_ms cfg =
     (let base = otlp_retry_base_delay_ms attempt cfg in
      if base = 0 then (0, prng, False)
      else case otlp_jitter_next prng of (r, prng') \<Rightarrow>
        let drawn = (ucast (r mod (ucast base + 1)) :: u32);
            delay0 = drawn;
            delay1 = (if server_floor_ms > delay0 then server_floor_ms else delay0);
            delay2 = (if delay1 > max_ms cfg then max_ms cfg else delay1)
        in (delay2, prng', server_floor_ms > drawn))"

section \<open>The generator is a permutation\<close>

lemma xor_push_bit_inj:
  fixes v w :: "'a::len word"
  assumes "0 < k" "v XOR push_bit k v = w XOR push_bit k w"
  shows "v = w"
proof (rule bit_word_eqI)
  fix n assume "n < LENGTH('a)"
  then show "bit v n \<longleftrightarrow> bit w n"
  proof (induction n rule: less_induct)
    case (less n)
    have "bit (v XOR push_bit k v) n = bit (w XOR push_bit k w) n" using assms(2) by simp
    then show ?case
      using less.IH [of "n - k"] less.prems assms(1) by (auto simp: bit_xor_iff bit_push_bit_iff)
  qed
qed

lemma xor_drop_bit_inj:
  fixes v w :: "'a::len word"
  assumes "0 < k" "v XOR drop_bit k v = w XOR drop_bit k w"
  shows "v = w"
proof (rule bit_word_eqI)
  fix n assume "n < LENGTH('a)"
  then show "bit v n \<longleftrightarrow> bit w n"
  proof (induction "LENGTH('a) - n" arbitrary: n rule: less_induct)
    case less
    have eq: "bit (v XOR drop_bit k v) n = bit (w XOR drop_bit k w) n" using assms(2) by simp
    show ?case
    proof (cases "k + n < LENGTH('a)")
      case True
      then have "bit v (k + n) = bit w (k + n)" using less.hyps [of "k + n"] less.prems assms(1) by simp
      with eq show ?thesis by (auto simp: bit_xor_iff bit_drop_bit_eq)
    next
      case False
      then show ?thesis using eq bit_imp_le_length [of v "k + n"] bit_imp_le_length [of w "k + n"]
        by (auto simp: bit_xor_iff bit_drop_bit_eq)
    qed
  qed
qed

lemma jitter_state_inj: "snd (otlp_jitter_next s) = snd (otlp_jitter_next t) \<Longrightarrow> s = t"
  unfolding otlp_jitter_next_def Let_def snd_conv
  by (drule xor_push_bit_inj [rotated], simp, drule xor_drop_bit_inj [rotated], simp,
      drule xor_push_bit_inj [rotated], simp_all)

lemma jitter_zero: "otlp_jitter_next 0 = (0, 0)"
  by (simp add: otlp_jitter_next_def)

lemma jitter_nonzero: "s \<noteq> 0 \<Longrightarrow> snd (otlp_jitter_next s) \<noteq> 0"
  using jitter_state_inj [of s 0] by (auto simp: jitter_zero)

section \<open>The base delay\<close>

lemma unat_push_bit_u64:
  "unat v * 2 ^ k < 2 ^ 64 \<Longrightarrow> unat (push_bit k v :: u64) = unat v * 2 ^ k"
  by (simp only: unsigned_push_bit_eq) (simp add: push_bit_eq_mult take_bit_nat_eq_self)

lemma unat_ucast_u32: "unat (ucast (x :: u32) :: u64) = unat x"
  using unat_u32_lt [of x] by (simp add: unsigned_ucast_eq take_bit_nat_eq_self)

lemma unat_ucast_u64: "unat (ucast (x :: u64) :: u32) = unat x mod 2 ^ 32"
  by (simp only: unsigned_ucast_eq) (simp add: take_bit_eq_mod)

definition backoff :: "nat \<Rightarrow> nat \<Rightarrow> nat \<Rightarrow> nat" where
  "backoff k ini mx = min mx (ini * 2 ^ min k 31)"

lemma base_delay_backoff:
  "unat (otlp_retry_base_delay_ms attempt cfg) =
     backoff (unat (attempt - 1)) (unat (initial_ms cfg)) (unat (max_ms cfg))"
proof -
  let ?k = "min (unat (attempt - 1)) 31"
  define shift :: u32 where "shift = (if attempt - 1 > 31 then 31 else attempt - 1)"
  have sh: "unat shift = ?k" by (auto simp: shift_def word_less_nat_alt min_def)
  define e :: u64 where "e = push_bit (unat shift) (ucast (initial_ms cfg))"
  have p: "(2::nat) ^ ?k \<le> 2 ^ 31" by (rule power_increasing) simp_all
  have "unat (initial_ms cfg) * 2 ^ ?k < 2 ^ 32 * 2 ^ 31"
    using unat_u32_lt [of "initial_ms cfg"] p by (intro mult_less_le_imp_less) simp_all
  then have e: "unat e = unat (initial_ms cfg) * 2 ^ ?k"
    unfolding e_def sh by (subst unat_push_bit_u64) (simp_all only: unat_ucast_u32, simp)
  have "otlp_retry_base_delay_ms attempt cfg =
    ucast (if e > ucast (max_ms cfg) then ucast (max_ms cfg) else e :: u64)"
    by (simp only: otlp_retry_base_delay_ms_def Let_def shift_def [symmetric] e_def)
  then have "unat (otlp_retry_base_delay_ms attempt cfg) =
    (if unat e > unat (max_ms cfg) then unat (max_ms cfg) else unat e) mod 2 ^ 32"
    by (simp only: unat_ucast_u64 word_less_nat_alt unat_ucast_u32 if_distrib [of unat] if_distrib [of "\<lambda>x. x mod _"])
  then show ?thesis
    using unat_u32_lt [of "max_ms cfg"] by (simp add: backoff_def e min_def)
qed

lemma base_delay_le_max: "otlp_retry_base_delay_ms attempt cfg \<le> max_ms cfg"
  by (simp add: word_le_nat_alt base_delay_backoff backoff_def)

lemma mod_Suc_base:
  "unat (ucast ((r :: u64) mod (ucast (b :: u32) + 1)) :: u32) \<le> unat b"
proof -
  have s: "unat (ucast b + 1 :: u64) = unat b + 1"
    using unat_u32_lt [of b] by (simp add: unat_word_ariths unat_ucast_u32)
  have "unat (r mod (ucast b + 1)) \<le> unat b"
    unfolding unat_mod_distrib s using mod_less_divisor [of "unat b + 1" "unat r"] by linarith
  moreover have "unat (ucast (r mod (ucast b + 1)) :: u32) \<le> unat (r mod (ucast b + 1))"
    unfolding unat_ucast_u64 by simp
  ultimately show ?thesis by (rule order_trans [rotated])
qed

section \<open>Properties\<close>

text \<open>
  The delay before a retry stays within its limits for every state of the generator, every
  attempt number and every configuration: it never exceeds the configured maximum, it is at
  least the server's floor where the maximum allows, without a floor it is at most the
  exponential base, and it is server-driven exactly when the floor is above the jitter drawn.
  The base is \<open>min max (initial * 2^(attempt - 1))\<close> with the exponent capped at 31, computed
  without overflow although the code shifts fixed-width words.
\<close>

theorem retry_delay_bounds:
  assumes "otlp_retry_delay_ms prng attempt floor_ms cfg = (delay, prng', driven)"
  shows "delay \<le> max_ms cfg \<and>
    (otlp_retry_base_delay_ms attempt cfg \<noteq> 0 \<longrightarrow> min floor_ms (max_ms cfg) \<le> delay) \<and>
    (\<not> driven \<longrightarrow> delay \<le> otlp_retry_base_delay_ms attempt cfg) \<and>
    (driven \<longrightarrow> delay = min floor_ms (max_ms cfg)) \<and>
    unat (otlp_retry_base_delay_ms attempt cfg) =
      backoff (unat (attempt - 1)) (unat (initial_ms cfg)) (unat (max_ms cfg))"
proof -
  let ?b = "otlp_retry_base_delay_ms attempt cfg"
  obtain r p where j: "otlp_jitter_next prng = (r, p)" by (cases "otlp_jitter_next prng")
  let ?d = "ucast (r mod (ucast ?b + 1)) :: u32"
  have d: "?d \<le> ?b" using mod_Suc_base [of r ?b] by (simp only: word_le_nat_alt)
  have m: "?b \<le> max_ms cfg" by (rule base_delay_le_max)
  show ?thesis
  proof (cases "?b = 0")
    case True
    with assms have "delay = 0" "\<not> driven" by (simp_all add: otlp_retry_delay_ms_def)
    with True m show ?thesis by (simp flip: base_delay_backoff)
  next
    case False
    define d where "d = ?d"
    have db: "d \<le> ?b" using d by (simp only: d_def)
    have "otlp_retry_delay_ms prng attempt floor_ms cfg =
      ((if (if floor_ms > d then floor_ms else d) > max_ms cfg then max_ms cfg
        else if floor_ms > d then floor_ms else d), p, floor_ms > d)"
      by (simp only: otlp_retry_delay_ms_def Let_def j prod.case d_def False if_False)
    with assms have "driven \<longleftrightarrow> floor_ms > d"
      and "delay = (if (if floor_ms > d then floor_ms else d) > max_ms cfg then max_ms cfg
        else if floor_ms > d then floor_ms else d)"
      by auto
    with db m show ?thesis
      by (auto simp: base_delay_backoff Let_def min_def not_less)
  qed
qed

theorem retry_delay_bounds_witness:
  "\<exists>delay prng' driven.
     otlp_retry_delay_ms 1 3 500 \<lparr>initial_ms = 100, max_ms = 450\<rparr> = (delay, prng', driven) \<and>
     delay \<le> 450 \<and> 450 \<le> delay"
proof -
  let ?c = "\<lparr>initial_ms = 100, max_ms = 450\<rparr>"
  obtain d p v where eq: "otlp_retry_delay_ms 1 3 500 ?c = (d, p, v)"
    by (cases "otlp_retry_delay_ms 1 3 500 ?c")
  have "unat (otlp_retry_base_delay_ms 3 ?c) = 400"
    by (simp only: base_delay_backoff) (simp add: backoff_def)
  then have "otlp_retry_base_delay_ms 3 ?c \<noteq> 0" by auto
  with retry_delay_bounds [OF eq] have "d \<le> 450" "min 500 450 \<le> d" by simp_all
  with eq show ?thesis by (auto simp: min_def split: if_splits)
qed

text \<open>
  The jitter generator never gets stuck: its state transition is injective, hence a
  permutation of the 64-bit words, with 0 as a fixed point; a nonzero state leads to a
  nonzero state and to a nonzero output.
\<close>

theorem jitter_permutation:
  "inj (\<lambda>s. snd (otlp_jitter_next s)) \<and>
   (\<forall>s. snd (otlp_jitter_next s) = 0 \<longleftrightarrow> s = 0) \<and> (\<forall>s. fst (otlp_jitter_next s) = 0 \<longleftrightarrow> s = 0)"
proof (intro conjI allI)
  show "inj (\<lambda>s. snd (otlp_jitter_next s))" by (rule injI) (rule jitter_state_inj)
  show z: "snd (otlp_jitter_next s) = 0 \<longleftrightarrow> s = 0" for s
    using jitter_nonzero [of s] by (auto simp: jitter_zero)
  show "fst (otlp_jitter_next s) = 0 \<longleftrightarrow> s = 0" for s
  proof
    assume out: "fst (otlp_jitter_next s) = 0"
    define v where "v = snd (otlp_jitter_next s)"
    let ?m = "2685821657736338717 :: nat"
    have "fst (otlp_jitter_next s) = v * word_of_nat ?m"
      by (simp add: v_def otlp_jitter_next_def Let_def)
    with out have "unat (v * word_of_nat ?m) = 0" by (simp only: unat_0)
    then have "(unat v * unat (word_of_nat ?m :: u64)) mod 2 ^ 64 = 0"
      by (simp only: unat_word_ariths(2)) simp
    then have "(unat v * ?m) mod 2 ^ 64 = 0"
      by (subst (asm) unat_of_nat_u64) simp_all
    then have "2 ^ 64 dvd unat v * ?m" by auto
    moreover have "coprime (2 ^ 64) ?m" by (simp del: power_numeral)
    ultimately have "2 ^ 64 dvd unat v" by (simp add: coprime_dvd_mult_left_iff)
    then have "unat v = 0" using unat_u64_lt [of v] by (auto dest: nat_dvd_not_less [rotated])
    then have "v = 0" by (simp only: unat_eq_0)
    then show "s = 0" using z [of s] by (simp add: v_def)
  qed (simp add: jitter_zero)
qed

end
