(* ===== verification/Span.thy ===== *)
theory Span
  imports Attr Context
begin

text \<open>
  Spans (\<^verbatim>\<open>src/span.c\<close>): the record, every setter with its guards in the order of the code,
  the grow-on-demand event and link arrays, the deep clone the exporter queues, and the two
  wrappers that read a span's identifiers (\<^verbatim>\<open>src/context.c\<close>, \<^verbatim>\<open>src/w3c.c\<close>). A \<^verbatim>\<open>otlp_span_t *\<close> is
  a \<open>span option\<close> with \<open>None\<close> for NULL; the setters of event and link attributes read through
  the pointer before they test it, which is the result \<open>None\<close> of their model.
\<close>

section \<open>Data\<close>

definition OTLP_SPAN_MAX_ATTRIBUTES :: nat where "OTLP_SPAN_MAX_ATTRIBUTES = 128"
definition OTLP_SPAN_MAX_EVENTS :: nat where "OTLP_SPAN_MAX_EVENTS = 64"
definition OTLP_SPAN_MAX_LINKS :: nat where "OTLP_SPAN_MAX_LINKS = 64"
definition OTLP_EVENT_MAX_ATTRS :: nat where "OTLP_EVENT_MAX_ATTRS = 32"
definition OTLP_LINK_MAX_ATTRS :: nat where "OTLP_LINK_MAX_ATTRS = 32"
definition OTLP_TRACE_ID_LEN :: nat where "OTLP_TRACE_ID_LEN = 16"
definition OTLP_SPAN_ID_LEN :: nat where "OTLP_SPAN_ID_LEN = 8"
definition SIZEOF_EVENT :: nat where "SIZEOF_EVENT = 40"
definition SIZEOF_LINK :: nat where "SIZEOF_LINK = 48"
definition SIZEOF_SPAN :: nat where "SIZEOF_SPAN = 184"

datatype span_kind = KIND_UNSPECIFIED | KIND_INTERNAL | KIND_SERVER | KIND_CLIENT | KIND_PRODUCER | KIND_CONSUMER

datatype span_status = STATUS_CODE_UNSET | STATUS_CODE_OK | STATUS_CODE_ERROR

record otlp_event =
  ev_name :: "cstr option"
  ev_time :: u64
  ev_attrs :: attr_vec

record otlp_link =
  lk_trace_id :: "u8 list"
  lk_span_id :: "u8 list"
  lk_attrs :: attr_vec

record span =
  sp_name :: "cstr option"
  sp_trace_id :: "u8 list"
  sp_span_id :: "u8 list"
  sp_parent_span_id :: "u8 list"
  sp_has_parent :: bool
  sp_start_time :: u64
  sp_end_time :: u64
  sp_has_start_time :: bool
  sp_has_end_time :: bool
  sp_kind :: span_kind
  sp_attrs :: attr_vec
  sp_status_code :: span_status
  sp_status_message :: "cstr option"
  sp_sampled :: bool
  sp_trace_state :: "cstr option"
  sp_events :: "otlp_event list"
  sp_cap_events :: nat
  sp_links :: "otlp_link list"
  sp_cap_links :: nat

section \<open>Lifecycle and identity\<close>

definition span_zero :: span where
  "span_zero = \<lparr>sp_name = None, sp_trace_id = replicate OTLP_TRACE_ID_LEN 0,
     sp_span_id = replicate OTLP_SPAN_ID_LEN 0, sp_parent_span_id = replicate OTLP_SPAN_ID_LEN 0,
     sp_has_parent = False, sp_start_time = 0, sp_end_time = 0, sp_has_start_time = False,
     sp_has_end_time = False, sp_kind = KIND_UNSPECIFIED, sp_attrs = vec_empty,
     sp_status_code = STATUS_CODE_UNSET, sp_status_message = None, sp_sampled = False,
     sp_trace_state = None, sp_events = [], sp_cap_events = 0, sp_links = [], sp_cap_links = 0\<rparr>"

definition or_empty :: "cstr option \<Rightarrow> cstr" where
  "or_empty s = (case s of None \<Rightarrow> [] | Some str \<Rightarrow> str)"

definition otlp_span_create :: "'m allocator \<Rightarrow> cstr option \<Rightarrow> 'm \<Rightarrow> span option \<times> 'm" where
  "otlp_span_create A name m =
     (case a_alloc A SIZEOF_SPAN m of
        (False, m1) \<Rightarrow> (None, m1)
      | (True, m1) \<Rightarrow>
          if name \<noteq> None \<and> \<not> otlp_str_is_utf8 name then (None, m1)
          else (case otlp_dup_str A (Some (or_empty name)) m1 of
              (None, m2) \<Rightarrow> (None, m2)
            | (Some c, m2) \<Rightarrow>
                (Some (span_zero\<lparr>sp_name := Some c, sp_kind := KIND_INTERNAL,
                   sp_status_code := STATUS_CODE_UNSET, sp_sampled := True\<rparr>), m2)))"

definition otlp_span_set_trace_id :: "span option \<Rightarrow> u8 list option \<Rightarrow> status \<times> span option" where
  "otlp_span_set_trace_id span tid =
     (case span of None \<Rightarrow> (OTLP_ERR_NULL, None)
      | Some s \<Rightarrow> (case tid of None \<Rightarrow> (OTLP_ERR_NULL, Some s)
        | Some t \<Rightarrow>
            if otlp_id_is_all_zero (take OTLP_TRACE_ID_LEN t) then (OTLP_ERR_INVALID_ARGUMENT, Some s)
            else (OTLP_OK, Some (s\<lparr>sp_trace_id := take OTLP_TRACE_ID_LEN t\<rparr>))))"

definition otlp_span_set_span_id :: "span option \<Rightarrow> u8 list option \<Rightarrow> status \<times> span option" where
  "otlp_span_set_span_id span sid =
     (case (span, sid) of
        (Some s, Some t) \<Rightarrow>
          if otlp_id_is_all_zero (take OTLP_SPAN_ID_LEN t) then (OTLP_ERR_INVALID_ARGUMENT, Some s)
          else (OTLP_OK, Some (s\<lparr>sp_span_id := take OTLP_SPAN_ID_LEN t\<rparr>))
      | _ \<Rightarrow> (OTLP_ERR_NULL, span))"

definition otlp_span_set_parent_span_id :: "span option \<Rightarrow> u8 list option \<Rightarrow> status \<times> span option" where
  "otlp_span_set_parent_span_id span parent =
     (case span of None \<Rightarrow> (OTLP_ERR_NULL, None)
      | Some s \<Rightarrow> (case parent of
          None \<Rightarrow> (OTLP_OK, Some (s\<lparr>sp_parent_span_id := replicate OTLP_SPAN_ID_LEN 0, sp_has_parent := False\<rparr>))
        | Some t \<Rightarrow>
            if otlp_id_is_all_zero (take OTLP_SPAN_ID_LEN t) then (OTLP_ERR_INVALID_ARGUMENT, Some s)
            else (OTLP_OK, Some (s\<lparr>sp_parent_span_id := take OTLP_SPAN_ID_LEN t, sp_has_parent := True\<rparr>))))"

section \<open>Timing and metadata\<close>

definition otlp_span_set_start_time :: "span option \<Rightarrow> u64 \<Rightarrow> status \<times> span option" where
  "otlp_span_set_start_time span t =
     (case span of None \<Rightarrow> (OTLP_ERR_NULL, None)
      | Some s \<Rightarrow> (OTLP_OK, Some (s\<lparr>sp_start_time := t, sp_has_start_time := True\<rparr>)))"

definition otlp_span_set_end_time :: "span option \<Rightarrow> u64 \<Rightarrow> status \<times> span option" where
  "otlp_span_set_end_time span t =
     (case span of None \<Rightarrow> (OTLP_ERR_NULL, None)
      | Some s \<Rightarrow> (OTLP_OK, Some (s\<lparr>sp_end_time := t, sp_has_end_time := True\<rparr>)))"

text \<open>
  \<^verbatim>\<open>otlp_platform_now_unix_nano\<close> over what \<^verbatim>\<open>clock_gettime\<close> reports: seconds and nanoseconds, or a
  failure that leaves the output alone.
\<close>

definition otlp_platform_now_unix_nano :: "(u64 \<times> u64) option \<Rightarrow> u64 \<Rightarrow> status \<times> u64" where
  "otlp_platform_now_unix_nano ts out =
     (case ts of None \<Rightarrow> (OTLP_ERR_NETWORK, out)
      | Some (sec, nsec) \<Rightarrow> (OTLP_OK, sec * 1000000000 + nsec))"

definition otlp_span_mark_start :: "span option \<Rightarrow> (u64 \<times> u64) option \<Rightarrow> status \<times> span option" where
  "otlp_span_mark_start span ts =
     (case span of None \<Rightarrow> (OTLP_ERR_NULL, None)
      | Some s \<Rightarrow> (case otlp_platform_now_unix_nano ts (sp_start_time s) of (st, t) \<Rightarrow>
          if st = OTLP_OK then (OTLP_OK, Some (s\<lparr>sp_start_time := t, sp_has_start_time := True\<rparr>))
          else (OTLP_ERR_NETWORK, Some (s\<lparr>sp_start_time := t\<rparr>))))"

definition otlp_span_mark_end :: "span option \<Rightarrow> (u64 \<times> u64) option \<Rightarrow> status \<times> span option" where
  "otlp_span_mark_end span ts =
     (case span of None \<Rightarrow> (OTLP_ERR_NULL, None)
      | Some s \<Rightarrow> (case otlp_platform_now_unix_nano ts (sp_end_time s) of (st, t) \<Rightarrow>
          if st = OTLP_OK then (OTLP_OK, Some (s\<lparr>sp_end_time := t, sp_has_end_time := True\<rparr>))
          else (OTLP_ERR_NETWORK, Some (s\<lparr>sp_end_time := t\<rparr>))))"

definition otlp_span_set_kind :: "span option \<Rightarrow> span_kind \<Rightarrow> status \<times> span option" where
  "otlp_span_set_kind span k =
     (case span of None \<Rightarrow> (OTLP_ERR_NULL, None) | Some s \<Rightarrow> (OTLP_OK, Some (s\<lparr>sp_kind := k\<rparr>)))"

definition otlp_span_set_name ::
  "'m allocator \<Rightarrow> span option \<Rightarrow> cstr option \<Rightarrow> 'm \<Rightarrow> status \<times> span option \<times> 'm" where
  "otlp_span_set_name A span name m =
     (case span of None \<Rightarrow> (OTLP_ERR_NULL, None, m)
      | Some s \<Rightarrow>
          if name \<noteq> None \<and> \<not> otlp_str_is_utf8 name then (OTLP_ERR_UTF8, Some s, m)
          else (case otlp_dup_str A (Some (or_empty name)) m of
              (None, m1) \<Rightarrow> (OTLP_ERR_NOMEM, Some s, m1)
            | (Some c, m1) \<Rightarrow> (OTLP_OK, Some (s\<lparr>sp_name := Some c\<rparr>), m1)))"

definition otlp_span_set_status ::
  "'m allocator \<Rightarrow> span option \<Rightarrow> span_status \<Rightarrow> cstr option \<Rightarrow> 'm \<Rightarrow> status \<times> span option \<times> 'm" where
  "otlp_span_set_status A span code description m =
     (case span of None \<Rightarrow> (OTLP_ERR_NULL, None, m)
      | Some s \<Rightarrow>
          if description \<noteq> None \<and> \<not> otlp_str_is_utf8 description then (OTLP_ERR_UTF8, Some s, m)
          else (case dup_present A description m of
              (None, m1) \<Rightarrow> (OTLP_ERR_NOMEM, Some s, m1)
            | (Some c, m1) \<Rightarrow> (OTLP_OK, Some (s\<lparr>sp_status_message := c, sp_status_code := code\<rparr>), m1)))"

definition otlp_span_set_sampled :: "span option \<Rightarrow> bool \<Rightarrow> status \<times> span option" where
  "otlp_span_set_sampled span b =
     (case span of None \<Rightarrow> (OTLP_ERR_NULL, None) | Some s \<Rightarrow> (OTLP_OK, Some (s\<lparr>sp_sampled := b\<rparr>)))"

definition otlp_span_set_trace_state ::
  "'m allocator \<Rightarrow> span option \<Rightarrow> cstr option \<Rightarrow> 'm \<Rightarrow> status \<times> span option \<times> 'm" where
  "otlp_span_set_trace_state A span ts m =
     (case span of None \<Rightarrow> (OTLP_ERR_NULL, None, m)
      | Some s \<Rightarrow>
          if ts \<noteq> None \<and> \<not> otlp_str_is_utf8 ts then (OTLP_ERR_UTF8, Some s, m)
          else (case dup_present A ts m of
              (None, m1) \<Rightarrow> (OTLP_ERR_NOMEM, Some s, m1)
            | (Some c, m1) \<Rightarrow> (OTLP_OK, Some (s\<lparr>sp_trace_state := c\<rparr>), m1)))"

section \<open>Events and links\<close>

text \<open>
  The capacity after the call and whether it succeeded; the new slot is \<open>sp_events ! n\<close>, zeroed,
  and only becomes part of the list when the caller counts it.
\<close>

definition event_grow :: "'m allocator \<Rightarrow> span \<Rightarrow> 'm \<Rightarrow> bool \<times> span \<times> 'm" where
  "event_grow A s m =
     (if length (sp_events s) = sp_cap_events s
      then let new_cap0 = (if sp_cap_events s \<noteq> 0 then sp_cap_events s * 2
                           else if 4 < OTLP_SPAN_MAX_EVENTS then 4 else OTLP_SPAN_MAX_EVENTS);
               new_cap = (if new_cap0 > OTLP_SPAN_MAX_EVENTS then OTLP_SPAN_MAX_EVENTS else new_cap0)
           in (case a_realloc A (new_cap * SIZEOF_EVENT) m of (ok, m1) \<Rightarrow>
                 if ok then (True, s\<lparr>sp_cap_events := new_cap\<rparr>, m1) else (False, s, m1))
      else (True, s, m))"

definition link_grow :: "'m allocator \<Rightarrow> span \<Rightarrow> 'm \<Rightarrow> bool \<times> span \<times> 'm" where
  "link_grow A s m =
     (if length (sp_links s) = sp_cap_links s
      then let new_cap0 = (if sp_cap_links s \<noteq> 0 then sp_cap_links s * 2
                           else if 4 < OTLP_SPAN_MAX_LINKS then 4 else OTLP_SPAN_MAX_LINKS);
               new_cap = (if new_cap0 > OTLP_SPAN_MAX_LINKS then OTLP_SPAN_MAX_LINKS else new_cap0)
           in (case a_realloc A (new_cap * SIZEOF_LINK) m of (ok, m1) \<Rightarrow>
                 if ok then (True, s\<lparr>sp_cap_links := new_cap\<rparr>, m1) else (False, s, m1))
      else (True, s, m))"

definition otlp_span_add_event ::
  "'m allocator \<Rightarrow> span option \<Rightarrow> cstr option \<Rightarrow> u64 \<Rightarrow> 'm \<Rightarrow> status \<times> span option \<times> 'm" where
  "otlp_span_add_event A span name t m =
     (case (span, name) of
        (Some s, Some nm) \<Rightarrow>
          if length (sp_events s) \<ge> OTLP_SPAN_MAX_EVENTS then (OTLP_ERR_OVERFLOW, Some s, m)
          else if \<not> otlp_str_is_utf8 (Some nm) then (OTLP_ERR_UTF8, Some s, m)
          else (case otlp_dup_str A (Some nm) m of
              (None, m1) \<Rightarrow> (OTLP_ERR_NOMEM, Some s, m1)
            | (Some c, m1) \<Rightarrow> (case event_grow A s m1 of
                (False, s1, m2) \<Rightarrow> (OTLP_ERR_NOMEM, Some s1, m2)
              | (True, s1, m2) \<Rightarrow>
                  (OTLP_OK, Some (s1\<lparr>sp_events := sp_events s1 @
                     [\<lparr>ev_name = Some c, ev_time = t, ev_attrs = vec_empty\<rparr>]\<rparr>), m2)))
      | _ \<Rightarrow> (OTLP_ERR_NULL, span, m))"

definition otlp_span_add_link ::
  "'m allocator \<Rightarrow> span option \<Rightarrow> u8 list option \<Rightarrow> u8 list option \<Rightarrow> 'm \<Rightarrow> status \<times> span option \<times> 'm" where
  "otlp_span_add_link A span tid sid m =
     (case (span, tid, sid) of
        (Some s, Some t, Some i) \<Rightarrow>
          if length (sp_links s) \<ge> OTLP_SPAN_MAX_LINKS then (OTLP_ERR_OVERFLOW, Some s, m)
          else (case link_grow A s m of
              (False, s1, m1) \<Rightarrow> (OTLP_ERR_NOMEM, Some s1, m1)
            | (True, s1, m1) \<Rightarrow>
                (OTLP_OK, Some (s1\<lparr>sp_links := sp_links s1 @
                   [\<lparr>lk_trace_id = take OTLP_TRACE_ID_LEN t, lk_span_id = take OTLP_SPAN_ID_LEN i,
                     lk_attrs = vec_empty\<rparr>]\<rparr>), m1))
      | _ \<Rightarrow> (OTLP_ERR_NULL, span, m))"

section \<open>Attributes\<close>

text \<open>
  The typed setters are wrappers of the vector's entry points. What they share is the guard and
  the place: the span's own attributes, those of the last event, those of the last link.
\<close>

definition on_span_attrs ::
  "span option \<Rightarrow> cstr option \<Rightarrow> (attr_vec \<Rightarrow> 'm \<Rightarrow> status \<times> attr_vec \<times> 'm) \<Rightarrow> 'm \<Rightarrow> status \<times> span option \<times> 'm" where
  "on_span_attrs span key f m =
     (case span of None \<Rightarrow> (OTLP_ERR_NULL, None, m)
      | Some s \<Rightarrow> if key = None then (OTLP_ERR_NULL, Some s, m)
          else (case f (sp_attrs s) m of (st, vec, m1) \<Rightarrow> (st, Some (s\<lparr>sp_attrs := vec\<rparr>), m1)))"

definition on_event_attrs ::
  "span option \<Rightarrow> cstr option \<Rightarrow> (attr_vec \<Rightarrow> 'm \<Rightarrow> status \<times> attr_vec \<times> 'm) \<Rightarrow> 'm \<Rightarrow> (status \<times> span option \<times> 'm) option" where
  "on_event_attrs span key f m =
     (case span of None \<Rightarrow> None
      | Some s \<Rightarrow> Some (
          if length (sp_events s) = 0 then (OTLP_ERR_INVALID_ARGUMENT, Some s, m)
          else if key = None then (OTLP_ERR_NULL, Some s, m)
          else let i = length (sp_events s) - 1 in
            (case f (ev_attrs (sp_events s ! i)) m of (st, vec, m1) \<Rightarrow>
               (st, Some (s\<lparr>sp_events := (sp_events s)[i := (sp_events s ! i)\<lparr>ev_attrs := vec\<rparr>]\<rparr>), m1))))"

definition on_link_attrs ::
  "span option \<Rightarrow> cstr option \<Rightarrow> (attr_vec \<Rightarrow> 'm \<Rightarrow> status \<times> attr_vec \<times> 'm) \<Rightarrow> 'm \<Rightarrow> (status \<times> span option \<times> 'm) option" where
  "on_link_attrs span key f m =
     (case span of None \<Rightarrow> None
      | Some s \<Rightarrow> Some (
          if length (sp_links s) = 0 then (OTLP_ERR_INVALID_ARGUMENT, Some s, m)
          else if key = None then (OTLP_ERR_NULL, Some s, m)
          else let i = length (sp_links s) - 1 in
            (case f (lk_attrs (sp_links s ! i)) m of (st, vec, m1) \<Rightarrow>
               (st, Some (s\<lparr>sp_links := (sp_links s)[i := (sp_links s ! i)\<lparr>lk_attrs := vec\<rparr>]\<rparr>), m1))))"

definition otlp_span_set_attribute_string ::
  "'m allocator \<Rightarrow> span option \<Rightarrow> cstr option \<Rightarrow> cstr option \<Rightarrow> 'm \<Rightarrow> status \<times> span option \<times> 'm" where
  "otlp_span_set_attribute_string A span key value m =
     on_span_attrs span key (\<lambda>vec. otlp_attr_vec_set A vec OTLP_SPAN_MAX_ATTRIBUTES key (Some (OV_String (Some (or_empty value))))) m"

definition otlp_span_set_attribute_int ::
  "'m allocator \<Rightarrow> span option \<Rightarrow> cstr option \<Rightarrow> u64 \<Rightarrow> 'm \<Rightarrow> status \<times> span option \<times> 'm" where
  "otlp_span_set_attribute_int A span key value m =
     on_span_attrs span key (\<lambda>vec. otlp_attr_vec_set A vec OTLP_SPAN_MAX_ATTRIBUTES key (Some (OV_Int64 value))) m"

definition otlp_span_set_attribute_double ::
  "'m allocator \<Rightarrow> span option \<Rightarrow> cstr option \<Rightarrow> u64 \<Rightarrow> 'm \<Rightarrow> status \<times> span option \<times> 'm" where
  "otlp_span_set_attribute_double A span key value m =
     on_span_attrs span key (\<lambda>vec. otlp_attr_vec_set A vec OTLP_SPAN_MAX_ATTRIBUTES key (Some (OV_Double value))) m"

definition otlp_span_set_attribute_bool ::
  "'m allocator \<Rightarrow> span option \<Rightarrow> cstr option \<Rightarrow> bool \<Rightarrow> 'm \<Rightarrow> status \<times> span option \<times> 'm" where
  "otlp_span_set_attribute_bool A span key value m =
     on_span_attrs span key (\<lambda>vec. otlp_attr_vec_set A vec OTLP_SPAN_MAX_ATTRIBUTES key (Some (OV_Bool value))) m"

definition otlp_span_set_attribute_bytes ::
  "'m allocator \<Rightarrow> span option \<Rightarrow> cstr option \<Rightarrow> u8 list option \<Rightarrow> nat \<Rightarrow> 'm \<Rightarrow> status \<times> span option \<times> 'm" where
  "otlp_span_set_attribute_bytes A span key bytes len m =
     on_span_attrs span key (\<lambda>vec. otlp_attr_vec_set A vec OTLP_SPAN_MAX_ATTRIBUTES key (Some (OV_Bytes bytes len))) m"

definition otlp_span_set_attribute_array ::
  "'m allocator \<Rightarrow> span option \<Rightarrow> cstr option \<Rightarrow> otlp_value list option \<Rightarrow> nat \<Rightarrow> 'm \<Rightarrow> status \<times> span option \<times> 'm" where
  "otlp_span_set_attribute_array A span key items n m =
     on_span_attrs span key (\<lambda>vec. otlp_attr_vec_set_array A vec OTLP_SPAN_MAX_ATTRIBUTES key items n) m"

definition otlp_span_set_attribute_kvlist ::
  "'m allocator \<Rightarrow> span option \<Rightarrow> cstr option \<Rightarrow> otlp_kv list option \<Rightarrow> nat \<Rightarrow> 'm \<Rightarrow> status \<times> span option \<times> 'm" where
  "otlp_span_set_attribute_kvlist A span key entries n m =
     on_span_attrs span key (\<lambda>vec. otlp_attr_vec_set_kvlist A vec OTLP_SPAN_MAX_ATTRIBUTES key entries n) m"

definition otlp_span_set_event_attribute_string ::
  "'m allocator \<Rightarrow> span option \<Rightarrow> cstr option \<Rightarrow> cstr option \<Rightarrow> 'm \<Rightarrow> (status \<times> span option \<times> 'm) option" where
  "otlp_span_set_event_attribute_string A span key value m =
     on_event_attrs span key (\<lambda>vec. otlp_attr_vec_set A vec OTLP_EVENT_MAX_ATTRS key (Some (OV_String (Some (or_empty value))))) m"

definition otlp_span_set_event_attribute_int ::
  "'m allocator \<Rightarrow> span option \<Rightarrow> cstr option \<Rightarrow> u64 \<Rightarrow> 'm \<Rightarrow> (status \<times> span option \<times> 'm) option" where
  "otlp_span_set_event_attribute_int A span key value m =
     on_event_attrs span key (\<lambda>vec. otlp_attr_vec_set A vec OTLP_EVENT_MAX_ATTRS key (Some (OV_Int64 value))) m"

definition otlp_span_set_event_attribute_double ::
  "'m allocator \<Rightarrow> span option \<Rightarrow> cstr option \<Rightarrow> u64 \<Rightarrow> 'm \<Rightarrow> (status \<times> span option \<times> 'm) option" where
  "otlp_span_set_event_attribute_double A span key value m =
     on_event_attrs span key (\<lambda>vec. otlp_attr_vec_set A vec OTLP_EVENT_MAX_ATTRS key (Some (OV_Double value))) m"

definition otlp_span_set_event_attribute_bool ::
  "'m allocator \<Rightarrow> span option \<Rightarrow> cstr option \<Rightarrow> bool \<Rightarrow> 'm \<Rightarrow> (status \<times> span option \<times> 'm) option" where
  "otlp_span_set_event_attribute_bool A span key value m =
     on_event_attrs span key (\<lambda>vec. otlp_attr_vec_set A vec OTLP_EVENT_MAX_ATTRS key (Some (OV_Bool value))) m"

definition otlp_span_set_event_attribute_bytes ::
  "'m allocator \<Rightarrow> span option \<Rightarrow> cstr option \<Rightarrow> u8 list option \<Rightarrow> nat \<Rightarrow> 'm \<Rightarrow> (status \<times> span option \<times> 'm) option" where
  "otlp_span_set_event_attribute_bytes A span key bytes len m =
     on_event_attrs span key (\<lambda>vec. otlp_attr_vec_set A vec OTLP_EVENT_MAX_ATTRS key (Some (OV_Bytes bytes len))) m"

definition otlp_span_set_event_attribute_array ::
  "'m allocator \<Rightarrow> span option \<Rightarrow> cstr option \<Rightarrow> otlp_value list option \<Rightarrow> nat \<Rightarrow> 'm \<Rightarrow> (status \<times> span option \<times> 'm) option" where
  "otlp_span_set_event_attribute_array A span key items n m =
     on_event_attrs span key (\<lambda>vec. otlp_attr_vec_set_array A vec OTLP_EVENT_MAX_ATTRS key items n) m"

definition otlp_span_set_event_attribute_kvlist ::
  "'m allocator \<Rightarrow> span option \<Rightarrow> cstr option \<Rightarrow> otlp_kv list option \<Rightarrow> nat \<Rightarrow> 'm \<Rightarrow> (status \<times> span option \<times> 'm) option" where
  "otlp_span_set_event_attribute_kvlist A span key entries n m =
     on_event_attrs span key (\<lambda>vec. otlp_attr_vec_set_kvlist A vec OTLP_EVENT_MAX_ATTRS key entries n) m"

definition otlp_span_set_link_attribute_string ::
  "'m allocator \<Rightarrow> span option \<Rightarrow> cstr option \<Rightarrow> cstr option \<Rightarrow> 'm \<Rightarrow> (status \<times> span option \<times> 'm) option" where
  "otlp_span_set_link_attribute_string A span key value m =
     on_link_attrs span key (\<lambda>vec. otlp_attr_vec_set A vec OTLP_LINK_MAX_ATTRS key (Some (OV_String (Some (or_empty value))))) m"

definition otlp_span_set_link_attribute_int ::
  "'m allocator \<Rightarrow> span option \<Rightarrow> cstr option \<Rightarrow> u64 \<Rightarrow> 'm \<Rightarrow> (status \<times> span option \<times> 'm) option" where
  "otlp_span_set_link_attribute_int A span key value m =
     on_link_attrs span key (\<lambda>vec. otlp_attr_vec_set A vec OTLP_LINK_MAX_ATTRS key (Some (OV_Int64 value))) m"

definition otlp_span_set_link_attribute_double ::
  "'m allocator \<Rightarrow> span option \<Rightarrow> cstr option \<Rightarrow> u64 \<Rightarrow> 'm \<Rightarrow> (status \<times> span option \<times> 'm) option" where
  "otlp_span_set_link_attribute_double A span key value m =
     on_link_attrs span key (\<lambda>vec. otlp_attr_vec_set A vec OTLP_LINK_MAX_ATTRS key (Some (OV_Double value))) m"

definition otlp_span_set_link_attribute_bool ::
  "'m allocator \<Rightarrow> span option \<Rightarrow> cstr option \<Rightarrow> bool \<Rightarrow> 'm \<Rightarrow> (status \<times> span option \<times> 'm) option" where
  "otlp_span_set_link_attribute_bool A span key value m =
     on_link_attrs span key (\<lambda>vec. otlp_attr_vec_set A vec OTLP_LINK_MAX_ATTRS key (Some (OV_Bool value))) m"

definition otlp_span_set_link_attribute_bytes ::
  "'m allocator \<Rightarrow> span option \<Rightarrow> cstr option \<Rightarrow> u8 list option \<Rightarrow> nat \<Rightarrow> 'm \<Rightarrow> (status \<times> span option \<times> 'm) option" where
  "otlp_span_set_link_attribute_bytes A span key bytes len m =
     on_link_attrs span key (\<lambda>vec. otlp_attr_vec_set A vec OTLP_LINK_MAX_ATTRS key (Some (OV_Bytes bytes len))) m"

definition otlp_span_set_link_attribute_array ::
  "'m allocator \<Rightarrow> span option \<Rightarrow> cstr option \<Rightarrow> otlp_value list option \<Rightarrow> nat \<Rightarrow> 'm \<Rightarrow> (status \<times> span option \<times> 'm) option" where
  "otlp_span_set_link_attribute_array A span key items n m =
     on_link_attrs span key (\<lambda>vec. otlp_attr_vec_set_array A vec OTLP_LINK_MAX_ATTRS key items n) m"

definition otlp_span_set_link_attribute_kvlist ::
  "'m allocator \<Rightarrow> span option \<Rightarrow> cstr option \<Rightarrow> otlp_kv list option \<Rightarrow> nat \<Rightarrow> 'm \<Rightarrow> (status \<times> span option \<times> 'm) option" where
  "otlp_span_set_link_attribute_kvlist A span key entries n m =
     on_link_attrs span key (\<lambda>vec. otlp_attr_vec_set_kvlist A vec OTLP_LINK_MAX_ATTRS key entries n) m"

section \<open>Accessors\<close>

definition otlp_span_get_name :: "span option \<Rightarrow> cstr option" where
  "otlp_span_get_name span = (case span of None \<Rightarrow> None | Some s \<Rightarrow> sp_name s)"
definition otlp_span_get_trace_id :: "span option \<Rightarrow> u8 list option" where
  "otlp_span_get_trace_id span = map_option sp_trace_id span"
definition otlp_span_get_span_id :: "span option \<Rightarrow> u8 list option" where
  "otlp_span_get_span_id span = map_option sp_span_id span"
definition otlp_span_has_parent :: "span option \<Rightarrow> bool" where
  "otlp_span_has_parent span = (case span of None \<Rightarrow> False | Some s \<Rightarrow> sp_has_parent s)"
definition otlp_span_get_parent_span_id :: "span option \<Rightarrow> u8 list option" where
  "otlp_span_get_parent_span_id span = map_option sp_parent_span_id span"
definition otlp_span_get_kind :: "span option \<Rightarrow> span_kind" where
  "otlp_span_get_kind span = (case span of None \<Rightarrow> KIND_UNSPECIFIED | Some s \<Rightarrow> sp_kind s)"
definition otlp_span_has_start_time :: "span option \<Rightarrow> bool" where
  "otlp_span_has_start_time span = (case span of None \<Rightarrow> False | Some s \<Rightarrow> sp_has_start_time s)"
definition otlp_span_get_start_time :: "span option \<Rightarrow> u64" where
  "otlp_span_get_start_time span = (case span of None \<Rightarrow> 0 | Some s \<Rightarrow> sp_start_time s)"
definition otlp_span_has_end_time :: "span option \<Rightarrow> bool" where
  "otlp_span_has_end_time span = (case span of None \<Rightarrow> False | Some s \<Rightarrow> sp_has_end_time s)"
definition otlp_span_get_end_time :: "span option \<Rightarrow> u64" where
  "otlp_span_get_end_time span = (case span of None \<Rightarrow> 0 | Some s \<Rightarrow> sp_end_time s)"
definition otlp_span_get_status_code :: "span option \<Rightarrow> span_status" where
  "otlp_span_get_status_code span = (case span of None \<Rightarrow> STATUS_CODE_UNSET | Some s \<Rightarrow> sp_status_code s)"
definition otlp_span_get_status_message :: "span option \<Rightarrow> cstr option" where
  "otlp_span_get_status_message span = (case span of None \<Rightarrow> None | Some s \<Rightarrow> sp_status_message s)"
definition otlp_span_is_sampled :: "span option \<Rightarrow> bool" where
  "otlp_span_is_sampled span = (case span of None \<Rightarrow> False | Some s \<Rightarrow> sp_sampled s)"
definition otlp_span_get_trace_state :: "span option \<Rightarrow> cstr option" where
  "otlp_span_get_trace_state span = (case span of None \<Rightarrow> None | Some s \<Rightarrow> sp_trace_state s)"
definition otlp_span_get_attrs :: "span option \<Rightarrow> attribute list" where
  "otlp_span_get_attrs span = (case span of None \<Rightarrow> [] | Some s \<Rightarrow> av_items (sp_attrs s))"
definition otlp_span_get_events :: "span option \<Rightarrow> otlp_event list" where
  "otlp_span_get_events span = (case span of None \<Rightarrow> [] | Some s \<Rightarrow> sp_events s)"
definition otlp_span_get_links :: "span option \<Rightarrow> otlp_link list" where
  "otlp_span_get_links span = (case span of None \<Rightarrow> [] | Some s \<Rightarrow> sp_links s)"

section \<open>Deep clone\<close>

fun clone_events :: "'m allocator \<Rightarrow> otlp_event list \<Rightarrow> span \<Rightarrow> 'm \<Rightarrow> span option \<times> 'm" where
  "clone_events A [] dst m = (Some dst, m)"
| "clone_events A (e # es) dst m =
     (case otlp_span_add_event A (Some dst) (ev_name e) (ev_time e) m of
        (OTLP_OK, Some d1, m1) \<Rightarrow>
          if length (av_items (ev_attrs e)) > 0
          then let i = length (sp_events d1) - 1 in
            (case otlp_attr_vec_copy A (ev_attrs (sp_events d1 ! i)) (ev_attrs e) m1 of (st, vec, m2) \<Rightarrow>
               if st \<noteq> OTLP_OK then (None, m2)
               else clone_events A es (d1\<lparr>sp_events := (sp_events d1)[i := (sp_events d1 ! i)\<lparr>ev_attrs := vec\<rparr>]\<rparr>) m2)
          else clone_events A es d1 m1
      | (_, _, m1) \<Rightarrow> (None, m1))"

fun clone_links :: "'m allocator \<Rightarrow> otlp_link list \<Rightarrow> span \<Rightarrow> 'm \<Rightarrow> span option \<times> 'm" where
  "clone_links A [] dst m = (Some dst, m)"
| "clone_links A (l # ls) dst m =
     (case otlp_span_add_link A (Some dst) (Some (lk_trace_id l)) (Some (lk_span_id l)) m of
        (OTLP_OK, Some d1, m1) \<Rightarrow>
          if length (av_items (lk_attrs l)) > 0
          then let i = length (sp_links d1) - 1 in
            (case otlp_attr_vec_copy A (lk_attrs (sp_links d1 ! i)) (lk_attrs l) m1 of (st, vec, m2) \<Rightarrow>
               if st \<noteq> OTLP_OK then (None, m2)
               else clone_links A ls (d1\<lparr>sp_links := (sp_links d1)[i := (sp_links d1 ! i)\<lparr>lk_attrs := vec\<rparr>]\<rparr>) m2)
          else clone_links A ls d1 m1
      | (_, _, m1) \<Rightarrow> (None, m1))"

text \<open>The scalar fields copied first, between the creation and the owned strings.\<close>

definition clone_fields :: "span \<Rightarrow> span \<Rightarrow> span" where
  "clone_fields src dst =
     dst\<lparr>sp_trace_id := sp_trace_id src, sp_span_id := sp_span_id src, sp_has_parent := sp_has_parent src,
       sp_parent_span_id := (if sp_has_parent src then sp_parent_span_id src else sp_parent_span_id dst),
       sp_has_start_time := sp_has_start_time src, sp_start_time := sp_start_time src,
       sp_has_end_time := sp_has_end_time src, sp_end_time := sp_end_time src,
       sp_kind := sp_kind src, sp_status_code := sp_status_code src, sp_sampled := sp_sampled src\<rparr>"

definition otlp_span_clone :: "'m allocator \<Rightarrow> span option \<Rightarrow> 'm \<Rightarrow> span option \<times> 'm" where
  "otlp_span_clone A src_ptr m =
     (case src_ptr of None \<Rightarrow> (None, m)
      | Some src \<Rightarrow> (case otlp_span_create A (otlp_span_get_name (Some src)) m of
          (None, m1) \<Rightarrow> (None, m1)
        | (Some dst0, m1) \<Rightarrow>
            (let dst = clone_fields src dst0 in
             case dup_present A (sp_status_message src) m1 of
               (None, m2) \<Rightarrow> (None, m2)
             | (Some msg, m2) \<Rightarrow> (case dup_present A (sp_trace_state src) m2 of
                 (None, m3) \<Rightarrow> (None, m3)
               | (Some ts, m3) \<Rightarrow> (case otlp_attr_vec_copy A (sp_attrs dst) (sp_attrs src) m3 of (st, vec, m4) \<Rightarrow>
                   if st \<noteq> OTLP_OK then (None, m4)
                   else (case clone_events A (otlp_span_get_events (Some src))
                       (dst\<lparr>sp_status_message := msg, sp_trace_state := ts, sp_attrs := vec\<rparr>) m4 of
                       (None, m5) \<Rightarrow> (None, m5)
                     | (Some d1, m5) \<Rightarrow> clone_links A (otlp_span_get_links (Some src)) d1 m5))))))"

section \<open>Propagation from a span\<close>

definition otlp_context_from_span :: "span option \<Rightarrow> otlp_context" where
  "otlp_context_from_span span =
     (case (otlp_span_get_trace_id span, otlp_span_get_span_id span) of
        (Some tid, Some sid) \<Rightarrow>
          ctx_zero\<lparr>ctx_trace_id := take OTLP_TRACE_ID_LEN tid, ctx_span_id := take OTLP_SPAN_ID_LEN sid,
            ctx_sampled := otlp_span_is_sampled span, ctx_has_context := True\<rparr>
      | _ \<Rightarrow> ctx_zero\<lparr>ctx_has_context := False\<rparr>)"

definition otlp_traceparent_format :: "span option \<Rightarrow> bool \<Rightarrow> nat \<Rightarrow> status \<times> cstr option" where
  "otlp_traceparent_format span sampled cap =
     (case span of None \<Rightarrow> (OTLP_ERR_NULL, None)
      | Some s \<Rightarrow> otlp_traceparent_format_raw (otlp_span_get_trace_id span) (otlp_span_get_span_id span) sampled cap)"

section \<open>Well-formed spans\<close>

fun value_utf8 :: "attr_value \<Rightarrow> bool" and attr_utf8 :: "attribute \<Rightarrow> bool" where
  "value_utf8 (AV_String s) = otlp_str_is_utf8 s"
| "value_utf8 (AV_Array (Some as)) = (\<forall>a\<in>set as. attr_utf8 a)"
| "value_utf8 (AV_Kvlist (Some es)) = (\<forall>e\<in>set es. otlp_str_is_utf8 (fst e) \<and> attr_utf8 (snd e))"
| "value_utf8 _ = True"
| "attr_utf8 (Attribute k v) = (otlp_str_is_utf8 k \<and> value_utf8 v)"

definition vec_ok :: "nat \<Rightarrow> attr_vec \<Rightarrow> bool" where
  "vec_ok n vec \<longleftrightarrow> vec_inv n vec \<and> (\<forall>v\<in>ran (vec_lookup vec). value_utf8 v)"

definition event_ok :: "otlp_event \<Rightarrow> bool" where
  "event_ok e \<longleftrightarrow> ev_name e \<noteq> None \<and> otlp_str_is_utf8 (ev_name e) \<and> vec_ok OTLP_EVENT_MAX_ATTRS (ev_attrs e)"

definition link_ok :: "otlp_link \<Rightarrow> bool" where
  "link_ok l \<longleftrightarrow> length (lk_trace_id l) = 16 \<and> length (lk_span_id l) = 8 \<and> vec_ok OTLP_LINK_MAX_ATTRS (lk_attrs l)"

text \<open>
  What every span built through the interface is: identifiers of their length, the parent
  cleared unless present, every string valid UTF-8, nested ones included, attributes keyed
  uniquely, and all collections within their limits.
\<close>

definition span_ok :: "span \<Rightarrow> bool" where
  "span_ok s \<longleftrightarrow>
     sp_name s \<noteq> None \<and> otlp_str_is_utf8 (sp_name s) \<and>
     otlp_str_is_utf8 (sp_status_message s) \<and> otlp_str_is_utf8 (sp_trace_state s) \<and>
     length (sp_trace_id s) = 16 \<and> length (sp_span_id s) = 8 \<and> length (sp_parent_span_id s) = 8 \<and>
     (sp_has_parent s \<or> sp_parent_span_id s = replicate 8 0) \<and>
     vec_ok OTLP_SPAN_MAX_ATTRIBUTES (sp_attrs s) \<and>
     (\<forall>e\<in>set (sp_events s). event_ok e) \<and>
     length (sp_events s) \<le> sp_cap_events s \<and> sp_cap_events s \<le> OTLP_SPAN_MAX_EVENTS \<and>
     (\<forall>l\<in>set (sp_links s). link_ok l) \<and>
     length (sp_links s) \<le> sp_cap_links s \<and> sp_cap_links s \<le> OTLP_SPAN_MAX_LINKS"

text \<open>The content of a span: everything but the capacities of its arrays.\<close>

definition vec_view :: "attr_vec \<Rightarrow> attr_vec" where
  "vec_view vec = vec\<lparr>av_cap := 0\<rparr>"

definition event_view :: "otlp_event \<Rightarrow> otlp_event" where
  "event_view e = e\<lparr>ev_attrs := vec_view (ev_attrs e)\<rparr>"

definition link_view :: "otlp_link \<Rightarrow> otlp_link" where
  "link_view l = l\<lparr>lk_attrs := vec_view (lk_attrs l)\<rparr>"

definition span_view :: "span \<Rightarrow> span" where
  "span_view s = s\<lparr>sp_attrs := vec_view (sp_attrs s), sp_events := map event_view (sp_events s), sp_cap_events := 0,
     sp_links := map link_view (sp_links s), sp_cap_links := 0\<rparr>"

lemmas span_views = span_view_def vec_view_def event_view_def link_view_def
lemmas span_consts = OTLP_SPAN_MAX_ATTRIBUTES_def OTLP_SPAN_MAX_EVENTS_def OTLP_SPAN_MAX_LINKS_def
  OTLP_EVENT_MAX_ATTRS_def OTLP_LINK_MAX_ATTRS_def OTLP_TRACE_ID_LEN_def OTLP_SPAN_ID_LEN_def

lemma vec_view_eq: "vec_view u = vec_view v \<longleftrightarrow> av_items u = av_items v"
  by (cases u; cases v) (simp add: vec_view_def)

lemma vec_ok_empty [simp]: "vec_ok n vec_empty"
  by (simp add: vec_ok_def)

subsection \<open>The entry points of the vector\<close>

definition vec_setter :: "nat \<Rightarrow> (attr_vec \<Rightarrow> 'm \<Rightarrow> status \<times> attr_vec \<times> 'm) \<Rightarrow> bool" where
  "vec_setter n f \<longleftrightarrow> (\<forall>vec m st vec' m'. vec_ok n vec \<longrightarrow> f vec m = (st, vec', m') \<longrightarrow>
     vec_ok n vec' \<and> (st = OTLP_OK \<or> vec_view vec' = vec_view vec))"

lemma upserts_setter:
  assumes up: "upserts n A f key x"
    and utf8: "\<And>vec m vec' m'. f vec m = (OTLP_OK, vec', m') \<Longrightarrow> value_utf8 x"
  shows "vec_setter n f"
  unfolding vec_setter_def
proof (intro allI impI)
  fix vec m st vec' m'
  assume ok: "vec_ok n vec" and run: "f vec m = (st, vec', m')"
  have inv: "vec_inv n vec" and old: "\<forall>v\<in>ran (vec_lookup vec). value_utf8 v"
    using ok by (simp_all add: vec_ok_def)
  note spec = upserts_spec [OF up inv run]
  show "vec_ok n vec' \<and> (st = OTLP_OK \<or> vec_view vec' = vec_view vec)"
  proof (cases "st = OTLP_OK")
    case True
    have "ran (vec_lookup vec') \<subseteq> insert x (ran (vec_lookup vec))"
      unfolding spec(2) [OF True] by (auto simp: ran_def)
    then show ?thesis using spec(1) old utf8 run True by (auto simp: vec_ok_def)
  next
    case False
    then have "av_items vec' = av_items vec" by (rule spec(4))
    then show ?thesis using spec(1) old by (simp add: vec_ok_def vec_view_eq vec_lookup_def)
  qed
qed

lemma value_fill_utf8: "value_fill A v m = (OTLP_OK, a, m') \<Longrightarrow> attr_utf8 a"
  by (cases v) (auto simp: value_fill_def Let_def otlp_str_is_utf8_def utf8_scan.simps dest!: dup_str_Some
      split: if_splits option.splits prod.splits)

lemma fill_items_utf8: "fill_items A vs m = (OTLP_OK, as, m') \<Longrightarrow> \<forall>a\<in>set as. attr_utf8 a"
proof (induction vs arbitrary: m as m')
  case (Cons v vs)
  then show ?case by (fastforce dest: value_fill_utf8 split: prod.splits if_splits)
qed simp

lemma fill_entries_utf8:
  "fill_entries A es m = (OTLP_OK, xs, m') \<Longrightarrow> \<forall>e\<in>set xs. otlp_str_is_utf8 (fst e) \<and> attr_utf8 (snd e)"
proof (induction es arbitrary: m xs m')
  case (Cons e es)
  obtain k v where e: "e = (k, v)" by (cases e)
  obtain a m1 kc m2 rest where step: "value_fill A v m = (OTLP_OK, a, m1)" "otlp_str_is_utf8 k"
      "otlp_dup_str A k m1 = (Some kc, m2)" "fill_entries A es m2 = (OTLP_OK, rest, m')" "xs = (Some kc, a) # rest"
    using Cons.prems by (auto simp: e split: prod.splits if_splits option.splits)
  then show ?case using Cons.IH [OF step(4)] value_fill_utf8 [OF step(1)] dup_str_Some [OF step(3)] by simp
qed simp

lemma set_setter: "vec_setter n (\<lambda>vec. otlp_attr_vec_set A vec n (Some key) (Some v))"
  by (rule upserts_setter [OF set_upserts])
    (auto simp: otlp_attr_vec_set_def dup_payload_def otlp_str_is_utf8_def utf8_scan.simps
      split: otlp_value.splits if_splits option.splits prod.splits)

lemma array_build_utf8: "otlp_attr_array_build A items n m = (OTLP_OK, as, m') \<Longrightarrow> value_utf8 (AV_Array (Some as))"
  by (auto simp: otlp_attr_array_build_def dest!: fill_items_utf8 split: if_splits prod.splits bool.splits)

lemma kvlist_build_utf8: "otlp_attr_kvlist_build A es n m = (OTLP_OK, xs, m') \<Longrightarrow> value_utf8 (AV_Kvlist (Some xs))"
  by (auto simp: otlp_attr_kvlist_build_def dest!: fill_entries_utf8 split: if_splits prod.splits bool.splits)

lemma set_array_setter: "vec_setter n (\<lambda>vec. otlp_attr_vec_set_array A vec n (Some key) items k)"
proof (rule upserts_setter [OF set_array_upserts [of n A key "(items, k)", simplified]])
  fix vec m vec' m'
  assume set: "otlp_attr_vec_set_array A vec n (Some key) items k m = (OTLP_OK, vec', m')"
  obtain st xs m1 where b: "otlp_attr_array_build A items k m = (st, xs, m1)" by (rule prod_cases3)
  with set have "st = OTLP_OK" by (auto simp: otlp_attr_vec_set_array_def split: if_splits)
  with b show "value_utf8 (stored_array (items, k))"
    using array_build_utf8 [of A items k m xs m1] array_build_stored [of A items k m xs m1] by simp
qed

lemma set_kvlist_setter: "vec_setter n (\<lambda>vec. otlp_attr_vec_set_kvlist A vec n (Some key) es k)"
proof (rule upserts_setter [OF set_kvlist_upserts [of n A key "(es, k)", simplified]])
  fix vec m vec' m'
  assume set: "otlp_attr_vec_set_kvlist A vec n (Some key) es k m = (OTLP_OK, vec', m')"
  obtain st xs m1 where b: "otlp_attr_kvlist_build A es k m = (st, xs, m1)" by (rule prod_cases3)
  with set have "st = OTLP_OK" by (auto simp: otlp_attr_vec_set_kvlist_def split: if_splits)
  with b show "value_utf8 (stored_kvlist (es, k))"
    using kvlist_build_utf8 [of A es k m xs m1] kvlist_build_stored [of A es k m xs m1] by simp
qed

lemmas setters = set_setter set_array_setter set_kvlist_setter

subsection \<open>The setters as one step\<close>

datatype attr_arg =
    Arg_String "cstr option" | Arg_Int u64 | Arg_Double u64 | Arg_Bool bool
  | Arg_Bytes "u8 list option" nat | Arg_Array "otlp_value list option" nat | Arg_Kvlist "otlp_kv list option" nat

datatype span_op =
    Set_Trace_Id "u8 list option" | Set_Span_Id "u8 list option" | Set_Parent "u8 list option"
  | Set_Start u64 | Set_End u64 | Mark_Start "(u64 \<times> u64) option" | Mark_End "(u64 \<times> u64) option"
  | Set_Kind span_kind | Set_Name "cstr option" | Set_Status span_status "cstr option" | Set_Sampled bool
  | Set_Trace_State "cstr option" | Add_Event "cstr option" u64 | Add_Link "u8 list option" "u8 list option"
  | Set_Attr "cstr option" attr_arg | Set_Event_Attr "cstr option" attr_arg | Set_Link_Attr "cstr option" attr_arg

fun attr_call :: "'m allocator \<Rightarrow> span option \<Rightarrow> cstr option \<Rightarrow> attr_arg \<Rightarrow> 'm \<Rightarrow> status \<times> span option \<times> 'm" where
  "attr_call A s k (Arg_String v) = otlp_span_set_attribute_string A s k v"
| "attr_call A s k (Arg_Int v) = otlp_span_set_attribute_int A s k v"
| "attr_call A s k (Arg_Double v) = otlp_span_set_attribute_double A s k v"
| "attr_call A s k (Arg_Bool v) = otlp_span_set_attribute_bool A s k v"
| "attr_call A s k (Arg_Bytes v n) = otlp_span_set_attribute_bytes A s k v n"
| "attr_call A s k (Arg_Array v n) = otlp_span_set_attribute_array A s k v n"
| "attr_call A s k (Arg_Kvlist v n) = otlp_span_set_attribute_kvlist A s k v n"

fun event_attr_call ::
  "'m allocator \<Rightarrow> span option \<Rightarrow> cstr option \<Rightarrow> attr_arg \<Rightarrow> 'm \<Rightarrow> (status \<times> span option \<times> 'm) option" where
  "event_attr_call A s k (Arg_String v) = otlp_span_set_event_attribute_string A s k v"
| "event_attr_call A s k (Arg_Int v) = otlp_span_set_event_attribute_int A s k v"
| "event_attr_call A s k (Arg_Double v) = otlp_span_set_event_attribute_double A s k v"
| "event_attr_call A s k (Arg_Bool v) = otlp_span_set_event_attribute_bool A s k v"
| "event_attr_call A s k (Arg_Bytes v n) = otlp_span_set_event_attribute_bytes A s k v n"
| "event_attr_call A s k (Arg_Array v n) = otlp_span_set_event_attribute_array A s k v n"
| "event_attr_call A s k (Arg_Kvlist v n) = otlp_span_set_event_attribute_kvlist A s k v n"

fun link_attr_call ::
  "'m allocator \<Rightarrow> span option \<Rightarrow> cstr option \<Rightarrow> attr_arg \<Rightarrow> 'm \<Rightarrow> (status \<times> span option \<times> 'm) option" where
  "link_attr_call A s k (Arg_String v) = otlp_span_set_link_attribute_string A s k v"
| "link_attr_call A s k (Arg_Int v) = otlp_span_set_link_attribute_int A s k v"
| "link_attr_call A s k (Arg_Double v) = otlp_span_set_link_attribute_double A s k v"
| "link_attr_call A s k (Arg_Bool v) = otlp_span_set_link_attribute_bool A s k v"
| "link_attr_call A s k (Arg_Bytes v n) = otlp_span_set_link_attribute_bytes A s k v n"
| "link_attr_call A s k (Arg_Array v n) = otlp_span_set_link_attribute_array A s k v n"
| "link_attr_call A s k (Arg_Kvlist v n) = otlp_span_set_link_attribute_kvlist A s k v n"

definition no_alloc :: "status \<times> span option \<Rightarrow> 'm \<Rightarrow> (status \<times> span option \<times> 'm) option" where
  "no_alloc r m = Some (fst r, snd r, m)"

fun span_step :: "'m allocator \<Rightarrow> span option \<Rightarrow> span_op \<Rightarrow> 'm \<Rightarrow> (status \<times> span option \<times> 'm) option" where
  "span_step A s (Set_Trace_Id t) m = no_alloc (otlp_span_set_trace_id s t) m"
| "span_step A s (Set_Span_Id t) m = no_alloc (otlp_span_set_span_id s t) m"
| "span_step A s (Set_Parent t) m = no_alloc (otlp_span_set_parent_span_id s t) m"
| "span_step A s (Set_Start t) m = no_alloc (otlp_span_set_start_time s t) m"
| "span_step A s (Set_End t) m = no_alloc (otlp_span_set_end_time s t) m"
| "span_step A s (Mark_Start ts) m = no_alloc (otlp_span_mark_start s ts) m"
| "span_step A s (Mark_End ts) m = no_alloc (otlp_span_mark_end s ts) m"
| "span_step A s (Set_Kind k) m = no_alloc (otlp_span_set_kind s k) m"
| "span_step A s (Set_Name n) m = Some (otlp_span_set_name A s n m)"
| "span_step A s (Set_Status c d) m = Some (otlp_span_set_status A s c d m)"
| "span_step A s (Set_Sampled b) m = no_alloc (otlp_span_set_sampled s b) m"
| "span_step A s (Set_Trace_State t) m = Some (otlp_span_set_trace_state A s t m)"
| "span_step A s (Add_Event n t) m = Some (otlp_span_add_event A s n t m)"
| "span_step A s (Add_Link t i) m = Some (otlp_span_add_link A s t i m)"
| "span_step A s (Set_Attr k v) m = Some (attr_call A s k v m)"
| "span_step A s (Set_Event_Attr k v) m = event_attr_call A s k v m"
| "span_step A s (Set_Link_Attr k v) m = link_attr_call A s k v m"

text \<open>What the interface requires of its arguments: identifier pointers to enough bytes.\<close>

fun op_args_ok :: "span_op \<Rightarrow> bool" where
  "op_args_ok (Set_Trace_Id (Some t)) = (length t \<ge> 16)"
| "op_args_ok (Set_Span_Id (Some t)) = (length t \<ge> 8)"
| "op_args_ok (Set_Parent (Some t)) = (length t \<ge> 8)"
| "op_args_ok (Add_Link (Some t) (Some i)) = (length t \<ge> 16 \<and> length i \<ge> 8)"
| "op_args_ok _ = True"

definition keeps :: "span \<Rightarrow> status \<Rightarrow> span option \<Rightarrow> bool" where
  "keeps s st s' \<longleftrightarrow> (\<exists>s1. s' = Some s1 \<and> span_ok s1 \<and> (st = OTLP_OK \<or> span_view s1 = span_view s))"

lemma vec_setterD:
  "vec_setter n f \<Longrightarrow> vec_ok n vec \<Longrightarrow> f vec m = (st, vec', m') \<Longrightarrow>
     vec_ok n vec' \<and> (st = OTLP_OK \<or> vec_view vec' = vec_view vec)"
  unfolding vec_setter_def by blast

lemma keeps_same: "span_ok s \<Longrightarrow> keeps s st (Some s)"
  by (simp add: keeps_def)

lemma on_span_attrs_keeps:
  assumes "span_ok s" and f: "\<And>k. key = Some k \<Longrightarrow> vec_setter OTLP_SPAN_MAX_ATTRIBUTES f"
    and run: "on_span_attrs (Some s) key f m = (st, s', m')"
  shows "keeps s st s'"
proof (cases key)
  case None
  then show ?thesis using assms by (auto simp: on_span_attrs_def intro: keeps_same)
next
  case (Some k)
  obtain vec where v: "f (sp_attrs s) m = (st, vec, m')" "s' = Some (s\<lparr>sp_attrs := vec\<rparr>)"
    using run Some by (auto simp: on_span_attrs_def split: prod.splits)
  then have "vec_ok OTLP_SPAN_MAX_ATTRIBUTES vec" "st = OTLP_OK \<or> vec_view vec = vec_view (sp_attrs s)"
    using vec_setterD [OF f [OF Some]] assms(1) by (auto simp: span_ok_def)
  then show ?thesis using assms(1) v(2) by (auto simp: keeps_def span_ok_def span_view_def)
qed

lemma list_update_all:
  "\<forall>x\<in>set xs. P x \<Longrightarrow> P y \<Longrightarrow> \<forall>x\<in>set (xs[i := y]). P x"
  by (metis insertE set_update_subset_insert subsetD)

lemma map_update_same: "i < length xs \<Longrightarrow> g y = g (xs ! i) \<Longrightarrow> map g (xs[i := y]) = map g xs"
  by (metis list_update_id map_update)

lemma on_event_attrs_keeps:
  assumes "span_ok s" and f: "\<And>k. key = Some k \<Longrightarrow> vec_setter OTLP_EVENT_MAX_ATTRS f"
    and run: "on_event_attrs (Some s) key f m = Some (st, s', m')"
  shows "keeps s st s'"
proof (cases "sp_events s = [] \<or> key = None")
  case True
  then show ?thesis using assms by (auto simp: on_event_attrs_def intro: keeps_same split: if_splits)
next
  case False
  let ?i = "length (sp_events s) - 1"
  let ?e = "sp_events s ! ?i"
  obtain k where k: "key = Some k" using False by auto
  have i: "?i < length (sp_events s)" using False by simp
  have e: "event_ok ?e" using assms(1) i nth_mem by (fastforce simp: span_ok_def)
  obtain vec where v: "f (ev_attrs ?e) m = (st, vec, m')"
      "s' = Some (s\<lparr>sp_events := (sp_events s)[?i := ?e\<lparr>ev_attrs := vec\<rparr>]\<rparr>)"
    using run k False by (auto simp: on_event_attrs_def Let_def split: prod.splits)
  then have vec: "vec_ok OTLP_EVENT_MAX_ATTRS vec" "st = OTLP_OK \<or> vec_view vec = vec_view (ev_attrs ?e)"
    using vec_setterD [OF f [OF k]] e by (auto simp: event_ok_def)
  have "event_ok (?e\<lparr>ev_attrs := vec\<rparr>)" using e vec(1) by (simp add: event_ok_def)
  moreover have "st = OTLP_OK \<or> map event_view ((sp_events s)[?i := ?e\<lparr>ev_attrs := vec\<rparr>]) = map event_view (sp_events s)"
    using vec(2) i by (auto intro!: map_update_same simp: event_view_def)
  ultimately show ?thesis using assms(1) v(2)
    by (auto simp: keeps_def span_ok_def span_view_def intro: list_update_all [rule_format, rotated 2])
qed

lemma on_link_attrs_keeps:
  assumes "span_ok s" and f: "\<And>k. key = Some k \<Longrightarrow> vec_setter OTLP_LINK_MAX_ATTRS f"
    and run: "on_link_attrs (Some s) key f m = Some (st, s', m')"
  shows "keeps s st s'"
proof (cases "sp_links s = [] \<or> key = None")
  case True
  then show ?thesis using assms by (auto simp: on_link_attrs_def intro: keeps_same split: if_splits)
next
  case False
  let ?i = "length (sp_links s) - 1"
  let ?l = "sp_links s ! ?i"
  obtain k where k: "key = Some k" using False by auto
  have i: "?i < length (sp_links s)" using False by simp
  have l: "link_ok ?l" using assms(1) i nth_mem by (fastforce simp: span_ok_def)
  obtain vec where v: "f (lk_attrs ?l) m = (st, vec, m')"
      "s' = Some (s\<lparr>sp_links := (sp_links s)[?i := ?l\<lparr>lk_attrs := vec\<rparr>]\<rparr>)"
    using run k False by (auto simp: on_link_attrs_def Let_def split: prod.splits)
  then have vec: "vec_ok OTLP_LINK_MAX_ATTRS vec" "st = OTLP_OK \<or> vec_view vec = vec_view (lk_attrs ?l)"
    using vec_setterD [OF f [OF k]] l by (auto simp: link_ok_def)
  have "link_ok (?l\<lparr>lk_attrs := vec\<rparr>)" using l vec(1) by (simp add: link_ok_def)
  moreover have "st = OTLP_OK \<or> map link_view ((sp_links s)[?i := ?l\<lparr>lk_attrs := vec\<rparr>]) = map link_view (sp_links s)"
    using vec(2) i by (auto intro!: map_update_same simp: link_view_def)
  ultimately show ?thesis using assms(1) v(2)
    by (auto simp: keeps_def span_ok_def span_view_def intro: list_update_all [rule_format, rotated 2])
qed

lemma attr_call_keeps:
  "span_ok s \<Longrightarrow> attr_call A (Some s) key v m = (st, s', m') \<Longrightarrow> keeps s st s'"
  by (cases v)
    (simp_all only: attr_call.simps otlp_span_set_attribute_string_def otlp_span_set_attribute_int_def otlp_span_set_attribute_double_def otlp_span_set_attribute_bool_def otlp_span_set_attribute_bytes_def otlp_span_set_attribute_array_def otlp_span_set_attribute_kvlist_def,
      (rule on_span_attrs_keeps [rotated 2], assumption, assumption, simp add: setters)+)

lemma event_attr_call_keeps:
  "span_ok s \<Longrightarrow> event_attr_call A (Some s) key v m = Some (st, s', m') \<Longrightarrow> keeps s st s'"
  by (cases v)
    (simp_all only: event_attr_call.simps otlp_span_set_event_attribute_string_def otlp_span_set_event_attribute_int_def otlp_span_set_event_attribute_double_def otlp_span_set_event_attribute_bool_def otlp_span_set_event_attribute_bytes_def otlp_span_set_event_attribute_array_def otlp_span_set_event_attribute_kvlist_def,
      (rule on_event_attrs_keeps [rotated 2], assumption, assumption, simp add: setters)+)

lemma link_attr_call_keeps:
  "span_ok s \<Longrightarrow> link_attr_call A (Some s) key v m = Some (st, s', m') \<Longrightarrow> keeps s st s'"
  by (cases v)
    (simp_all only: link_attr_call.simps otlp_span_set_link_attribute_string_def otlp_span_set_link_attribute_int_def otlp_span_set_link_attribute_double_def otlp_span_set_link_attribute_bool_def otlp_span_set_link_attribute_bytes_def otlp_span_set_link_attribute_array_def otlp_span_set_link_attribute_kvlist_def,
      (rule on_link_attrs_keeps [rotated 2], assumption, assumption, simp add: setters)+)

lemma event_grow_spec:
  assumes run: "event_grow A s m = (ok, s1, m1)" and "length (sp_events s) < OTLP_SPAN_MAX_EVENTS"
    and "length (sp_events s) \<le> sp_cap_events s" and "sp_cap_events s \<le> OTLP_SPAN_MAX_EVENTS"
  obtains c where "s1 = s\<lparr>sp_cap_events := c\<rparr>" "length (sp_events s) \<le> c" "c \<le> OTLP_SPAN_MAX_EVENTS"
    "ok \<Longrightarrow> length (sp_events s) < c"
proof (cases "length (sp_events s) = sp_cap_events s")
  case True
  define c where "c = (let c0 = (if sp_cap_events s \<noteq> 0 then sp_cap_events s * 2
      else if 4 < OTLP_SPAN_MAX_EVENTS then 4 else OTLP_SPAN_MAX_EVENTS)
    in if c0 > OTLP_SPAN_MAX_EVENTS then OTLP_SPAN_MAX_EVENTS else c0)"
  have c: "sp_cap_events s < c" "c \<le> OTLP_SPAN_MAX_EVENTS"
    using assms(2-4) True unfolding c_def Let_def OTLP_SPAN_MAX_EVENTS_def by (auto split: if_splits)
  have "event_grow A s m = (case a_realloc A (c * SIZEOF_EVENT) m of (ok, m1) \<Rightarrow>
      if ok then (True, s\<lparr>sp_cap_events := c\<rparr>, m1) else (False, s, m1))"
    by (simp only: event_grow_def c_def Let_def True refl if_True)
  then have eq: "(ok, s1, m1) = (case a_realloc A (c * SIZEOF_EVENT) m of (ok, m1) \<Rightarrow>
      if ok then (True, s\<lparr>sp_cap_events := c\<rparr>, m1) else (False, s, m1))" using run by simp
  show thesis
  proof (cases "fst (a_realloc A (c * SIZEOF_EVENT) m)")
    case t: True
    have "s1 = s\<lparr>sp_cap_events := c\<rparr>" using eq t by (simp split: prod.splits)
    then show thesis by (rule that) (use c assms(3) True in simp_all)
  next
    case False
    have "s1 = s" "\<not> ok" using eq False by (simp_all split: prod.splits)
    then show thesis by (intro that [of "sp_cap_events s"]) (use assms(3,4) in simp_all)
  qed
next
  case False
  then show thesis using that [of "sp_cap_events s"] run assms(3,4) by (simp add: event_grow_def)
qed

lemma link_grow_spec:
  assumes run: "link_grow A s m = (ok, s1, m1)" and "length (sp_links s) < OTLP_SPAN_MAX_LINKS"
    and "length (sp_links s) \<le> sp_cap_links s" and "sp_cap_links s \<le> OTLP_SPAN_MAX_LINKS"
  obtains c where "s1 = s\<lparr>sp_cap_links := c\<rparr>" "length (sp_links s) \<le> c" "c \<le> OTLP_SPAN_MAX_LINKS"
    "ok \<Longrightarrow> length (sp_links s) < c"
proof (cases "length (sp_links s) = sp_cap_links s")
  case True
  define c where "c = (let c0 = (if sp_cap_links s \<noteq> 0 then sp_cap_links s * 2
      else if 4 < OTLP_SPAN_MAX_LINKS then 4 else OTLP_SPAN_MAX_LINKS)
    in if c0 > OTLP_SPAN_MAX_LINKS then OTLP_SPAN_MAX_LINKS else c0)"
  have c: "sp_cap_links s < c" "c \<le> OTLP_SPAN_MAX_LINKS"
    using assms(2-4) True unfolding c_def Let_def OTLP_SPAN_MAX_LINKS_def by (auto split: if_splits)
  have "link_grow A s m = (case a_realloc A (c * SIZEOF_LINK) m of (ok, m1) \<Rightarrow>
      if ok then (True, s\<lparr>sp_cap_links := c\<rparr>, m1) else (False, s, m1))"
    by (simp only: link_grow_def c_def Let_def True refl if_True)
  then have eq: "(ok, s1, m1) = (case a_realloc A (c * SIZEOF_LINK) m of (ok, m1) \<Rightarrow>
      if ok then (True, s\<lparr>sp_cap_links := c\<rparr>, m1) else (False, s, m1))" using run by simp
  show thesis
  proof (cases "fst (a_realloc A (c * SIZEOF_LINK) m)")
    case t: True
    have "s1 = s\<lparr>sp_cap_links := c\<rparr>" using eq t by (simp split: prod.splits)
    then show thesis by (rule that) (use c assms(3) True in simp_all)
  next
    case False
    have "s1 = s" "\<not> ok" using eq False by (simp_all split: prod.splits)
    then show thesis by (intro that [of "sp_cap_links s"]) (use assms(3,4) in simp_all)
  qed
next
  case False
  then show thesis using that [of "sp_cap_links s"] run assms(3,4) by (simp add: link_grow_def)
qed

text \<open>Adding an event or a link: what is appended, and how the other fields fare.\<close>

lemma add_event_spec:
  assumes ok: "span_ok s" and run: "otlp_span_add_event A (Some s) name t m = (st, s', m')"
  obtains (failed) c where "st \<noteq> OTLP_OK" "s' = Some (s\<lparr>sp_cap_events := c\<rparr>)"
      "length (sp_events s) \<le> c" "c \<le> OTLP_SPAN_MAX_EVENTS"
  | (added) nm c where "st = OTLP_OK" "name = Some nm" "otlp_str_is_utf8 (Some nm)"
      "s' = Some (s\<lparr>sp_cap_events := c, sp_events := sp_events s @ [\<lparr>ev_name = Some nm, ev_time = t, ev_attrs = vec_empty\<rparr>]\<rparr>)"
      "length (sp_events s) < c" "c \<le> OTLP_SPAN_MAX_EVENTS"
proof -
  have caps: "length (sp_events s) \<le> sp_cap_events s" "sp_cap_events s \<le> OTLP_SPAN_MAX_EVENTS"
    using ok by (auto simp: span_ok_def)
  have same: thesis if "st \<noteq> OTLP_OK" "s' = Some s"
    using failed [of "sp_cap_events s"] that caps by simp
  show thesis
  proof (cases "\<exists>nm c m1. name = Some nm \<and> length (sp_events s) < OTLP_SPAN_MAX_EVENTS \<and>
      otlp_str_is_utf8 (Some nm) \<and> otlp_dup_str A (Some nm) m = (Some c, m1)")
    case False
    then show ?thesis using run same
      by (auto simp: otlp_span_add_event_def not_le split: option.splits if_splits prod.splits)
  next
    case True
    then obtain nm c m1 where n: "name = Some nm" "length (sp_events s) < OTLP_SPAN_MAX_EVENTS"
        "otlp_str_is_utf8 (Some nm)" "otlp_dup_str A (Some nm) m = (Some c, m1)" by blast
    have c: "c = nm" using dup_str_Some [OF n(4)] by simp
    obtain g s1 m2 where grow: "event_grow A s m1 = (g, s1, m2)" by (rule prod_cases3)
    obtain k where k: "s1 = s\<lparr>sp_cap_events := k\<rparr>" "length (sp_events s) \<le> k" "k \<le> OTLP_SPAN_MAX_EVENTS"
        "g \<Longrightarrow> length (sp_events s) < k"
      using event_grow_spec [OF grow n(2) caps] by blast
    show ?thesis
      using run failed [of k] added [of nm k] n k by (cases g) (auto simp: otlp_span_add_event_def grow c)
  qed
qed

lemma add_link_spec:
  assumes ok: "span_ok s" and run: "otlp_span_add_link A (Some s) tid sid m = (st, s', m')"
  obtains (failed) c where "st \<noteq> OTLP_OK" "s' = Some (s\<lparr>sp_cap_links := c\<rparr>)"
      "length (sp_links s) \<le> c" "c \<le> OTLP_SPAN_MAX_LINKS"
  | (added) t i c where "st = OTLP_OK" "tid = Some t" "sid = Some i"
      "s' = Some (s\<lparr>sp_cap_links := c, sp_links := sp_links s @
         [\<lparr>lk_trace_id = take 16 t, lk_span_id = take 8 i, lk_attrs = vec_empty\<rparr>]\<rparr>)"
      "length (sp_links s) < c" "c \<le> OTLP_SPAN_MAX_LINKS"
proof -
  have caps: "length (sp_links s) \<le> sp_cap_links s" "sp_cap_links s \<le> OTLP_SPAN_MAX_LINKS"
    using ok by (auto simp: span_ok_def)
  have same: thesis if "st \<noteq> OTLP_OK" "s' = Some s"
    using failed [of "sp_cap_links s"] that caps by simp
  show thesis
  proof (cases "\<exists>t i. tid = Some t \<and> sid = Some i \<and> length (sp_links s) < OTLP_SPAN_MAX_LINKS")
    case False
    then show ?thesis using run same
      by (auto simp: otlp_span_add_link_def not_le split: option.splits if_splits prod.splits)
  next
    case True
    then obtain t i where n: "tid = Some t" "sid = Some i" "length (sp_links s) < OTLP_SPAN_MAX_LINKS" by blast
    obtain g s1 m2 where grow: "link_grow A s m = (g, s1, m2)" by (rule prod_cases3)
    obtain k where k: "s1 = s\<lparr>sp_cap_links := k\<rparr>" "length (sp_links s) \<le> k" "k \<le> OTLP_SPAN_MAX_LINKS"
        "g \<Longrightarrow> length (sp_links s) < k"
      using link_grow_spec [OF grow n(3) caps] by blast
    show ?thesis
      using run failed [of k] added [of t i k] n k
      by (cases g) (auto simp: otlp_span_add_link_def grow OTLP_TRACE_ID_LEN_def OTLP_SPAN_ID_LEN_def)
  qed
qed

lemma add_event_OK:
  assumes "span_ok s" and "otlp_span_add_event A (Some s) name t m = (OTLP_OK, s', m')"
  shows "\<exists>nm c. name = Some nm \<and> length (sp_events s) < c \<and> c \<le> OTLP_SPAN_MAX_EVENTS \<and>
    s' = Some (s\<lparr>sp_cap_events := c, sp_events := sp_events s @ [\<lparr>ev_name = Some nm, ev_time = t, ev_attrs = vec_empty\<rparr>]\<rparr>)"
  using assms
proof (cases rule: add_event_spec)
  case (added nm c)
  then show ?thesis by (intro exI [of _ nm] exI [of _ c]) simp
qed simp

lemma add_link_OK:
  assumes "span_ok s" and "otlp_span_add_link A (Some s) (Some t) (Some i) m = (OTLP_OK, s', m')"
  shows "\<exists>c. length (sp_links s) < c \<and> c \<le> OTLP_SPAN_MAX_LINKS \<and>
    s' = Some (s\<lparr>sp_cap_links := c, sp_links := sp_links s @
      [\<lparr>lk_trace_id = take 16 t, lk_span_id = take 8 i, lk_attrs = vec_empty\<rparr>]\<rparr>)"
  using assms
proof (cases rule: add_link_spec)
  case (added t' i' c)
  then show ?thesis by (intro exI [of _ c]) simp
qed simp

lemma add_event_keeps:
  assumes ok: "span_ok s" and run: "otlp_span_add_event A (Some s) name t m = (st, s', m')"
  shows "keeps s st s'"
  using ok run
proof (cases rule: add_event_spec)
  case failed
  then show ?thesis using ok by (simp add: keeps_def span_ok_def span_view_def)
next
  case added
  then show ?thesis using ok by (simp add: keeps_def span_ok_def event_ok_def)
qed

lemma add_link_keeps:
  assumes ok: "span_ok s" and run: "otlp_span_add_link A (Some s) tid sid m = (st, s', m')"
    and args: "op_args_ok (Add_Link tid sid)"
  shows "keeps s st s'"
  using ok run
proof (cases rule: add_link_spec)
  case failed
  then show ?thesis using ok by (simp add: keeps_def span_ok_def span_view_def)
next
  case added
  then show ?thesis using ok args by (simp add: keeps_def span_ok_def link_ok_def)
qed

lemma utf8_empty [simp]: "otlp_str_is_utf8 (Some [])" "otlp_str_is_utf8 None"
  by (simp_all add: otlp_str_is_utf8_def utf8_scan.simps)

lemma string_setters_keep:
  assumes "span_ok s"
  shows "otlp_span_set_name A (Some s) n m = (st, s', m') \<Longrightarrow> keeps s st s'"
    and "otlp_span_set_status A (Some s) c n m = (st, s', m') \<Longrightarrow> keeps s st s'"
    and "otlp_span_set_trace_state A (Some s) n m = (st, s', m') \<Longrightarrow> keeps s st s'"
  using assms
  by (auto simp: otlp_span_set_name_def otlp_span_set_status_def otlp_span_set_trace_state_def keeps_def
      span_ok_def or_empty_def dest!: dup_str_Some dup_present_Some split: if_splits option.splits prod.splits)

lemma plain_setters_keep:
  assumes "span_ok s"
  shows "op_args_ok (Set_Trace_Id t) \<Longrightarrow> otlp_span_set_trace_id (Some s) t = (st, s') \<Longrightarrow> keeps s st s'"
    and "op_args_ok (Set_Span_Id t) \<Longrightarrow> otlp_span_set_span_id (Some s) t = (st, s') \<Longrightarrow> keeps s st s'"
    and "op_args_ok (Set_Parent t) \<Longrightarrow> otlp_span_set_parent_span_id (Some s) t = (st, s') \<Longrightarrow> keeps s st s'"
    and "otlp_span_set_start_time (Some s) n = (st, s') \<Longrightarrow> keeps s st s'"
    and "otlp_span_set_end_time (Some s) n = (st, s') \<Longrightarrow> keeps s st s'"
    and "otlp_span_mark_start (Some s) ts = (st, s') \<Longrightarrow> keeps s st s'"
    and "otlp_span_mark_end (Some s) ts = (st, s') \<Longrightarrow> keeps s st s'"
    and "otlp_span_set_kind (Some s) k = (st, s') \<Longrightarrow> keeps s st s'"
    and "otlp_span_set_sampled (Some s) b = (st, s') \<Longrightarrow> keeps s st s'"
  using assms
  by (auto simp: keeps_def span_ok_def otlp_span_set_trace_id_def
      otlp_span_set_span_id_def otlp_span_set_parent_span_id_def otlp_span_set_start_time_def
      otlp_span_set_end_time_def otlp_span_mark_start_def otlp_span_mark_end_def otlp_platform_now_unix_nano_def
      otlp_span_set_kind_def otlp_span_set_sampled_def OTLP_TRACE_ID_LEN_def OTLP_SPAN_ID_LEN_def
      split: option.splits if_splits)

lemma no_alloc_eq: "no_alloc r m = Some (st, s', m') \<longleftrightarrow> r = (st, s') \<and> m' = m"
  by (cases r) (auto simp: no_alloc_def)

lemma span_step_keeps:
  assumes ok: "span_ok s" and args: "op_args_ok op" and run: "span_step A (Some s) op m = Some (st, s', m')"
  shows "keeps s st s'"
  using args run
  by (cases op)
    (simp_all only: span_step.simps no_alloc_eq option.inject,
     (blast intro: plain_setters_keep [OF ok] string_setters_keep [OF ok] attr_call_keeps [OF ok]
        event_attr_call_keeps [OF ok] link_attr_call_keeps [OF ok] add_event_keeps [OF ok] add_link_keeps [OF ok])+)

lemma span_step_not_stuck: "span_step A (Some s) op m \<noteq> None"
proof -
  have "event_attr_call A (Some s) k v m \<noteq> None \<and> link_attr_call A (Some s) k v m \<noteq> None" for k v
    by (cases v)
      (simp_all add: otlp_span_set_event_attribute_string_def otlp_span_set_event_attribute_int_def
      otlp_span_set_event_attribute_double_def otlp_span_set_event_attribute_bool_def
      otlp_span_set_event_attribute_bytes_def otlp_span_set_event_attribute_array_def
      otlp_span_set_event_attribute_kvlist_def on_event_attrs_def otlp_span_set_link_attribute_string_def
      otlp_span_set_link_attribute_int_def otlp_span_set_link_attribute_double_def
      otlp_span_set_link_attribute_bool_def otlp_span_set_link_attribute_bytes_def
      otlp_span_set_link_attribute_array_def otlp_span_set_link_attribute_kvlist_def on_link_attrs_def)
  then show ?thesis by (cases op) (simp_all add: no_alloc_def)
qed

text \<open>A client's calls one after the other on one span.\<close>

fun span_run :: "'m allocator \<Rightarrow> span option \<Rightarrow> span_op list \<Rightarrow> 'm \<Rightarrow> (status list \<times> span option \<times> 'm) option" where
  "span_run A s [] m = Some ([], s, m)"
| "span_run A s (op # ops) m =
     (case span_step A s op m of None \<Rightarrow> None
      | Some (st, s1, m1) \<Rightarrow> (case span_run A s1 ops m1 of None \<Rightarrow> None
          | Some (sts, s2, m2) \<Rightarrow> Some (st # sts, s2, m2)))"

lemma span_run_ok:
  "span_ok s \<Longrightarrow> \<forall>op\<in>set ops. op_args_ok op \<Longrightarrow>
     \<exists>sts s' m'. span_run A (Some s) ops m = Some (sts, Some s', m') \<and> span_ok s'"
proof (induction ops arbitrary: s m)
  case (Cons op ops)
  obtain st s1 m1 where step: "span_step A (Some s) op m = Some (st, s1, m1)"
    using span_step_not_stuck [of A s op m] by auto
  obtain t where t: "s1 = Some t" "span_ok t"
    using span_step_keeps [OF Cons.prems(1) _ step] Cons.prems(2) by (auto simp: keeps_def)
  show ?case using Cons.IH [OF t(2), of m1] Cons.prems(2) step t(1) by auto
qed simp

lemma span_create_ok:
  "otlp_span_create A name m = (Some s, m') \<Longrightarrow> span_ok s"
  by (auto simp: otlp_span_create_def span_ok_def span_zero_def or_empty_def span_consts
      dest!: dup_str_Some split: prod.splits bool.splits if_splits option.splits)

section \<open>The clone\<close>

lemma copy_vec:
  assumes "otlp_attr_vec_copy A vec_empty src m = (OTLP_OK, dst, m')" and "vec_ok n src"
  shows "av_items dst = av_items src \<and> vec_ok n dst"
proof -
  have "av_items dst = av_items src \<and> av_cap dst = length (av_items src)"
    using assms(1) by (auto simp: otlp_attr_vec_copy_def otlp_attribute_copy_all_def Let_def vec_empty_def
        dest: copy_faithful(3) split: if_splits prod.splits bool.splits option.splits)
  with assms(2) show ?thesis by (auto simp: vec_ok_def vec_inv_def vec_lookup_def)
qed

lemma clone_events_spec:
  "clone_events A es dst m = (Some d, m') \<Longrightarrow> span_ok dst \<Longrightarrow> \<forall>e\<in>set es. event_ok e \<Longrightarrow>
     \<exists>c evs. d = dst\<lparr>sp_cap_events := c, sp_events := evs\<rparr> \<and> span_ok d
       \<and> map event_view evs = map event_view (sp_events dst) @ map event_view es"
proof (induction es arbitrary: dst m)
  case Nil
  then show ?case by (intro exI [of _ "sp_cap_events dst"] exI [of _ "sp_events dst"]) simp
next
  case (Cons e es)
  obtain st s' m1 where add: "otlp_span_add_event A (Some dst) (ev_name e) (ev_time e) m = (st, s', m1)"
    by (rule prod_cases3)
  have st: "st = OTLP_OK" "\<exists>x. s' = Some x"
    using Cons.prems(1) add by (auto split: status.splits option.splits prod.splits)
  obtain nm c where ev: "ev_name e = Some nm"
      "s' = Some (dst\<lparr>sp_cap_events := c, sp_events := sp_events dst @ [\<lparr>ev_name = Some nm, ev_time = ev_time e, ev_attrs = vec_empty\<rparr>]\<rparr>)"
      "length (sp_events dst) < c" "c \<le> OTLP_SPAN_MAX_EVENTS"
    using add_event_OK [OF Cons.prems(2) add [unfolded st(1)]] by blast
  have e: "event_ok e" using Cons.prems(3) by simp
  obtain vec m2 where vec: "av_items vec = av_items (ev_attrs e)" "vec_ok OTLP_EVENT_MAX_ATTRS vec"
      and rest: "clone_events A es (dst\<lparr>sp_cap_events := c, sp_events := sp_events dst @
         [\<lparr>ev_name = Some nm, ev_time = ev_time e, ev_attrs = vec\<rparr>]\<rparr>) m2 = (Some d, m')"
  proof (cases "av_items (ev_attrs e) = []")
    case True
    then show ?thesis using that [of vec_empty m1] Cons.prems(1) add st ev(2)
      by (simp add: vec_empty_def vec_ok_empty [unfolded vec_empty_def])
  next
    case False
    obtain st2 v m2 where copy: "otlp_attr_vec_copy A vec_empty (ev_attrs e) m1 = (st2, v, m2)" by (rule prod_cases3)
    have "st2 = OTLP_OK" using Cons.prems(1) add st ev(2) False copy by (simp add: Let_def split: if_splits)
    moreover have "vec_ok OTLP_EVENT_MAX_ATTRS (ev_attrs e)" using e by (simp add: event_ok_def)
    ultimately show ?thesis
      using that [of v m2] Cons.prems(1) add st ev(2) False copy copy_vec [of A "ev_attrs e" m1 v m2 OTLP_EVENT_MAX_ATTRS]
      by (simp add: Let_def)
  qed
  let ?d = "dst\<lparr>sp_cap_events := c, sp_events := sp_events dst @ [\<lparr>ev_name = Some nm, ev_time = ev_time e, ev_attrs = vec\<rparr>]\<rparr>"
  have "span_ok ?d" using Cons.prems(2) e vec(2) ev by (auto simp: span_ok_def event_ok_def)
  moreover have "event_view \<lparr>ev_name = Some nm, ev_time = ev_time e, ev_attrs = vec\<rparr> = event_view e"
    using vec(1) ev(1) by (cases e) (simp add: event_view_def vec_view_def)
  ultimately show ?case using Cons.IH [OF rest] Cons.prems(3) by auto
qed

lemma clone_links_spec:
  "clone_links A ls dst m = (Some d, m') \<Longrightarrow> span_ok dst \<Longrightarrow> \<forall>l\<in>set ls. link_ok l \<Longrightarrow>
     \<exists>c lks. d = dst\<lparr>sp_cap_links := c, sp_links := lks\<rparr> \<and> span_ok d
       \<and> map link_view lks = map link_view (sp_links dst) @ map link_view ls"
proof (induction ls arbitrary: dst m)
  case Nil
  then show ?case by (intro exI [of _ "sp_cap_links dst"] exI [of _ "sp_links dst"]) simp
next
  case (Cons l ls)
  obtain st s' m1 where add: "otlp_span_add_link A (Some dst) (Some (lk_trace_id l)) (Some (lk_span_id l)) m = (st, s', m1)"
    by (rule prod_cases3)
  have st: "st = OTLP_OK" "\<exists>x. s' = Some x"
    using Cons.prems(1) add by (auto split: status.splits option.splits prod.splits)
  have l: "link_ok l" using Cons.prems(3) by simp
  obtain c where lk:
      "s' = Some (dst\<lparr>sp_cap_links := c, sp_links := sp_links dst @ [\<lparr>lk_trace_id = lk_trace_id l, lk_span_id = lk_span_id l, lk_attrs = vec_empty\<rparr>]\<rparr>)"
      "length (sp_links dst) < c" "c \<le> OTLP_SPAN_MAX_LINKS"
    using add_link_OK [OF Cons.prems(2) add [unfolded st(1)]] l by (auto simp: link_ok_def)
  obtain vec m2 where vec: "av_items vec = av_items (lk_attrs l)" "vec_ok OTLP_LINK_MAX_ATTRS vec"
      and rest: "clone_links A ls (dst\<lparr>sp_cap_links := c, sp_links := sp_links dst @
         [\<lparr>lk_trace_id = lk_trace_id l, lk_span_id = lk_span_id l, lk_attrs = vec\<rparr>]\<rparr>) m2 = (Some d, m')"
  proof (cases "av_items (lk_attrs l) = []")
    case True
    then show ?thesis using that [of vec_empty m1] Cons.prems(1) add st lk(1)
      by (simp add: vec_empty_def vec_ok_empty [unfolded vec_empty_def])
  next
    case False
    obtain st2 v m2 where copy: "otlp_attr_vec_copy A vec_empty (lk_attrs l) m1 = (st2, v, m2)" by (rule prod_cases3)
    have "st2 = OTLP_OK" using Cons.prems(1) add st lk(1) False copy by (simp add: Let_def split: if_splits)
    moreover have "vec_ok OTLP_LINK_MAX_ATTRS (lk_attrs l)" using l by (simp add: link_ok_def)
    ultimately show ?thesis
      using that [of v m2] Cons.prems(1) add st lk(1) False copy copy_vec [of A "lk_attrs l" m1 v m2 OTLP_LINK_MAX_ATTRS]
      by (simp add: Let_def)
  qed
  let ?d = "dst\<lparr>sp_cap_links := c, sp_links := sp_links dst @ [\<lparr>lk_trace_id = lk_trace_id l, lk_span_id = lk_span_id l, lk_attrs = vec\<rparr>]\<rparr>"
  have "span_ok ?d" using Cons.prems(2) l vec(2) lk by (auto simp: span_ok_def link_ok_def)
  moreover have "link_view \<lparr>lk_trace_id = lk_trace_id l, lk_span_id = lk_span_id l, lk_attrs = vec\<rparr> = link_view l"
    using vec(1) by (cases l) (simp add: link_view_def vec_view_def)
  ultimately show ?case using Cons.IH [OF rest] Cons.prems(3) by auto
qed

lemma create_fields:
  "otlp_span_create A n m = (Some dst, m') \<Longrightarrow> dst = span_zero\<lparr>sp_name := Some (or_empty n), sp_kind := KIND_INTERNAL,
     sp_status_code := STATUS_CODE_UNSET, sp_sampled := True\<rparr>"
  by (auto simp: otlp_span_create_def dest!: dup_str_Some split: prod.splits bool.splits if_splits option.splits)

lemma clone_fields_ok:
  assumes src: "span_ok src" and create: "otlp_span_create A n m = (Some dst, m')"
    and vec: "vec_ok OTLP_SPAN_MAX_ATTRIBUTES vec"
  shows "span_ok ((clone_fields src dst)\<lparr>sp_status_message := sp_status_message src,
    sp_trace_state := sp_trace_state src, sp_attrs := vec\<rparr>)"
  using src vec span_create_ok [OF create] create_fields [OF create]
  by (auto simp: span_ok_def clone_fields_def span_zero_def OTLP_SPAN_ID_LEN_def)

lemma clone_ok:
  assumes src: "span_ok src" and clone: "otlp_span_clone A (Some src) m = (Some d, m')"
  shows "span_ok d \<and> span_view d = span_view src"
proof -
  obtain dst m1 where create: "otlp_span_create A (sp_name src) m = (Some dst, m1)"
    using clone by (auto simp: otlp_span_clone_def otlp_span_get_name_def split: prod.splits option.splits)
  obtain msg m2 where msg: "dup_present A (sp_status_message src) m1 = (Some msg, m2)"
    using clone create
    by (auto simp: otlp_span_clone_def otlp_span_get_name_def Let_def split: prod.splits option.splits)
  obtain ts m3 where ts: "dup_present A (sp_trace_state src) m2 = (Some ts, m3)"
    using clone create msg
    by (auto simp: otlp_span_clone_def otlp_span_get_name_def Let_def split: prod.splits option.splits)
  have attrs0: "sp_attrs (clone_fields src dst) = vec_empty" "sp_events (clone_fields src dst) = []"
    "sp_links (clone_fields src dst) = []"
    using create_fields [OF create] by (simp_all add: clone_fields_def span_zero_def)
  obtain st vec m4 where vec: "otlp_attr_vec_copy A vec_empty (sp_attrs src) m3 = (st, vec, m4)" by (rule prod_cases3)
  have st: "st = OTLP_OK" using clone create msg ts vec attrs0(1)
    by (auto simp: otlp_span_clone_def otlp_span_get_name_def Let_def split: if_splits)
  let ?d0 = "(clone_fields src dst)\<lparr>sp_status_message := sp_status_message src, sp_trace_state := sp_trace_state src, sp_attrs := vec\<rparr>"
  have same: "msg = sp_status_message src" "ts = sp_trace_state src"
    using dup_present_Some [OF msg] dup_present_Some [OF ts] by simp_all
  obtain d1 m5 where ev: "clone_events A (sp_events src) ?d0 m4 = (Some d1, m5)"
    and lk: "clone_links A (sp_links src) d1 m5 = (Some d, m')"
    using clone create msg ts vec st attrs0(1) same
    by (auto simp: otlp_span_clone_def otlp_span_get_name_def otlp_span_get_events_def otlp_span_get_links_def Let_def
        split: prod.splits option.splits)
  have sv: "vec_ok OTLP_SPAN_MAX_ATTRIBUTES (sp_attrs src)" "\<forall>e\<in>set (sp_events src). event_ok e"
    "\<forall>l\<in>set (sp_links src). link_ok l" using src by (auto simp: span_ok_def)
  have vec_ok: "av_items vec = av_items (sp_attrs src)" "vec_ok OTLP_SPAN_MAX_ATTRIBUTES vec"
    using copy_vec [OF vec [unfolded st] sv(1)] by simp_all
  obtain c1 evs where d1: "d1 = ?d0\<lparr>sp_cap_events := c1, sp_events := evs\<rparr>" "span_ok d1"
      "map event_view evs = map event_view (sp_events src)"
    using clone_events_spec [OF ev clone_fields_ok [OF src create vec_ok(2)] sv(2)] attrs0 by auto
  obtain c2 lks where d: "d = d1\<lparr>sp_cap_links := c2, sp_links := lks\<rparr>" "span_ok d"
      "map link_view lks = map link_view (sp_links src)"
    using clone_links_spec [OF lk d1(2) sv(3)] attrs0 d1(1) by auto
  have parent: "sp_has_parent src \<or> sp_parent_span_id src = replicate 8 0" "\<exists>n. sp_name src = Some n"
    using src by (auto simp: span_ok_def)
  have "span_view d = span_view src"
    using d(3) d1(3) vec_ok(1) parent
    by (auto intro!: span.equality attr_vec.equality simp: d(1) d1(1) span_view_def clone_fields_def vec_view_def create_fields [OF create] span_zero_def or_empty_def
        OTLP_SPAN_ID_LEN_def)
  with d(2) show ?thesis by simp
qed

section \<open>Properties\<close>

text \<open>
  C35. Whatever a client does with a span through its setters, in any order and with any
  failures in between, the span stays well formed: every string in it, those nested in
  attribute values of events and links included, is valid UTF-8, attribute keys are unique,
  every collection is within its limit, and identifiers have their length. No sequence of calls
  on a span from the constructor dereferences NULL.\<close>

theorem span_api_invariant:
  assumes "otlp_span_create A name m = (Some s, m1)" and "\<forall>op\<in>set ops. op_args_ok op"
  shows "\<exists>sts s' m'. span_run A (Some s) ops m1 = Some (sts, Some s', m') \<and> span_ok s'"
  using span_run_ok [OF span_create_ok [OF assms(1)] assms(2)] .

theorem span_api_invariant_witness:
  "\<exists>s sts s' m'. otlp_span_create always_alloc None () = (Some s, ()) \<and>
    span_run always_alloc (Some s) [Set_Event_Attr None (Arg_Int 1), Add_Event (Some (ascii ''e'')) 5,
      Set_Parent (Some (replicate 8 1))] () = Some (sts, Some s', m') \<and> span_ok s'"
proof -
  obtain s where s: "otlp_span_create always_alloc None () = (Some s, ())"
    by (simp add: otlp_span_create_def always_alloc_def otlp_dup_str_def or_empty_def SIZE_MAX_def)
  from span_api_invariant [OF s, of "[Set_Event_Attr None (Arg_Int 1), Add_Event (Some (ascii ''e'')) 5,
      Set_Parent (Some (replicate 8 1))]"] s show ?thesis by auto
qed

text \<open>
  Setters are atomic: a setter that reports an error, whether of its arguments, of UTF-8, of
  a limit or of memory at any of its allocations, leaves the whole content of the span as it
  was; only spare capacity may have grown.\<close>

theorem span_setter_error_atomic:
  assumes "span_ok s" and "op_args_ok op" and "span_step A (Some s) op m = Some (st, s', m')" and "st \<noteq> OTLP_OK"
  shows "\<exists>s1. s' = Some s1 \<and> span_view s1 = span_view s"
  using span_step_keeps [OF assms(1-3)] assms(4) by (auto simp: keeps_def)

theorem span_setter_error_atomic_witness:
  "\<exists>s s1. otlp_span_create always_alloc None () = (Some s, ()) \<and>
    span_step always_alloc (Some s) (Set_Name (Some [0xff])) () = Some (OTLP_ERR_UTF8, Some s1, ()) \<and>
    span_view s1 = span_view s"
proof -
  obtain s where s: "otlp_span_create always_alloc None () = (Some s, ())"
    by (simp add: otlp_span_create_def always_alloc_def otlp_dup_str_def or_empty_def SIZE_MAX_def)
  have run: "span_step always_alloc (Some s) (Set_Name (Some [0xff])) () = Some (OTLP_ERR_UTF8, Some s, ())"
    by (simp add: otlp_span_set_name_def otlp_str_is_utf8_def utf8_scan.simps utf8_lead_def)
  from span_setter_error_atomic [OF span_create_ok [OF s] _ run] run s show ?thesis by auto
qed

text \<open>
  C31. The deep clone that the exporter queues is faithful: when it succeeds it carries the same
  content as its source in every field, attributes, events and links with their attributes
  included, and is well formed itself.\<close>

theorem span_clone_faithful:
  assumes "span_ok src" and "otlp_span_clone A (Some src) m = (Some d, m')"
  shows "span_view d = span_view src \<and> span_ok d"
  using clone_ok [OF assms] by simp

theorem span_clone_faithful_witness:
  "\<exists>s d. otlp_span_create always_alloc None () = (Some s, ()) \<and>
    otlp_span_clone always_alloc (Some s) () = (Some d, ()) \<and> span_view d = span_view s"
proof -
  obtain s where s: "otlp_span_create always_alloc None () = (Some s, ())"
    by (simp add: otlp_span_create_def always_alloc_def otlp_dup_str_def or_empty_def SIZE_MAX_def)
  obtain d where d: "otlp_span_clone always_alloc (Some s) () = (Some d, ())"
    using create_fields [OF s]
    by (simp add: otlp_span_clone_def otlp_span_get_name_def otlp_span_get_events_def otlp_span_get_links_def
        otlp_span_create_def always_alloc_def otlp_dup_str_def dup_present_def or_empty_def SIZE_MAX_def span_zero_def
        clone_fields_def otlp_attr_vec_copy_def vec_empty_def)
  from span_clone_faithful [OF span_create_ok [OF s] d] s d show ?thesis by auto
qed

end
