(* ===== verification/Platform.thy ===== *)
theory Platform
  imports Otlp_Prelude
begin

text \<open>
  The POSIX socket layer (\<^verbatim>\<open>src/platform_unix.c\<close>) and the monotonic clock (\<^verbatim>\<open>src/platform.c\<close>).
  The system calls are a parameter: \<open>posix\<close> holds one function per call over an arbitrary state
  \<open>'w\<close> of the world, with the errors a caller distinguishes. The allocator works on the same
  state. Addresses \<open>'a\<close> are opaque. What this layer offers the HTTP client is the record \<open>net\<close>,
  the functions of \<^verbatim>\<open>platform.h\<close>; the locale \<open>socket_layer\<close> states the contract of that header.
\<close>

section \<open>The system calls\<close>

text \<open>
  The errors the code tells apart; \<open>EAGAIN\<close> stands for \<^verbatim>\<open>EWOULDBLOCK\<close> as well. \<open>px_send\<close> answers
  with the room the kernel has, of which \<^verbatim>\<open>send\<close> uses at most the length asked for; \<open>px_recv\<close> with
  the bytes it holds, of which \<^verbatim>\<open>recv\<close> hands out at most the capacity.
\<close>

datatype errno = EINTR | EAGAIN | EINPROGRESS | EOTHER

record ('a, 'w) posix =
  px_getaddrinfo :: "cstr \<Rightarrow> cstr \<Rightarrow> 'w \<Rightarrow> 'a list option \<times> 'w"
  px_socket :: "'a \<Rightarrow> 'w \<Rightarrow> int \<times> 'w"
  px_nonblock :: "int \<Rightarrow> 'w \<Rightarrow> 'w"
  px_connect :: "int \<Rightarrow> 'a \<Rightarrow> 'w \<Rightarrow> errno option \<times> 'w"
  px_poll_out :: "int \<Rightarrow> 'w \<Rightarrow> int \<times> 'w"
  px_so_error :: "int \<Rightarrow> 'w \<Rightarrow> int option \<times> 'w"
  px_send :: "int \<Rightarrow> u8 list \<Rightarrow> 'w \<Rightarrow> (errno + nat) \<times> 'w"
  px_recv :: "int \<Rightarrow> nat \<Rightarrow> 'w \<Rightarrow> (errno + u8 list) \<times> 'w"
  px_close :: "int \<Rightarrow> 'w \<Rightarrow> 'w"
  px_monotonic :: "'w \<Rightarrow> (u64 \<times> u64) option \<times> 'w"

section \<open>Clocks\<close>

definition otlp_platform_now_mono_nano :: "('a, 'w) posix \<Rightarrow> u64 \<Rightarrow> 'w \<Rightarrow> status \<times> u64 \<times> 'w" where
  "otlp_platform_now_mono_nano P out w =
     (case px_monotonic P w of
        (None, w1) \<Rightarrow> (OTLP_ERR_NETWORK, out, w1)
      | (Some (sec, nsec), w1) \<Rightarrow> (OTLP_OK, sec * 1000000000 + nsec, w1))"

definition otlp_platform_now_mono_ms :: "('a, 'w) posix \<Rightarrow> 'w \<Rightarrow> u64 \<times> 'w" where
  "otlp_platform_now_mono_ms P w =
     (case otlp_platform_now_mono_nano P 0 w of (st, n, w1) \<Rightarrow> (if st = OTLP_OK then n div 1000000 else 0, w1))"

section \<open>Decimal text\<close>

text \<open>The text \<^verbatim>\<open>printf\<close> gives for an unsigned number.\<close>

fun decimal :: "nat \<Rightarrow> cstr" where
  "decimal n = (if n < 10 then [word_of_nat (48 + n)] else decimal (n div 10) @ [word_of_nat (48 + n mod 10)])"

declare decimal.simps [simp del]

fun decimal_value :: "cstr \<Rightarrow> nat \<Rightarrow> nat" where
  "decimal_value [] v = v"
| "decimal_value (c # s) v = decimal_value s (v * 10 + unat (c - 48))"

lemma decimal_digit: "d < 10 \<Longrightarrow> 48 \<le> (word_of_nat (48 + d) :: u8) \<and> (word_of_nat (48 + d) :: u8) \<le> 57 \<and>
    unat ((word_of_nat (48 + d) :: u8) - 48) = d"
proof -
  assume d: "d < 10"
  define x :: u8 where "x = word_of_nat (48 + d)"
  have x: "unat x = 48 + d" unfolding x_def unat_of_nat using d by (intro mod_less) simp
  moreover have "unat (x - 48) = unat x - 48" using x by (subst unat_sub) (simp_all add: word_le_nat_alt)
  ultimately have "48 \<le> x \<and> x \<le> 57 \<and> unat (x - 48) = d" using d by (simp add: word_le_nat_alt)
  then show ?thesis by (simp only: x_def)
qed

lemma decimal_nonempty [simp]: "decimal n \<noteq> []"
  by (subst decimal.simps) simp

lemma decimal_digits: "c \<in> set (decimal n) \<Longrightarrow> 48 \<le> c \<and> c \<le> 57"
proof (induction n rule: decimal.induct)
  case (1 n)
  then show ?case using decimal_digit [of n] decimal_digit [of "n mod 10"]
    by (subst (asm) (2) decimal.simps) (auto split: if_splits)
qed

lemma decimal_value_append: "decimal_value (s @ t) v = decimal_value t (decimal_value s v)"
  by (induction s arbitrary: v) simp_all

lemma decimal_value_decimal: "decimal_value (decimal n) 0 = n"
proof (induction n rule: decimal.induct)
  case (1 n)
  then show ?case using decimal_digit [of n] decimal_digit [of "n mod 10"]
    by (subst decimal.simps) (auto simp: decimal_value_append)
qed

section \<open>Sockets\<close>

record otlp_socket =
  so_fd :: int
  so_eof :: bool
  so_connecting :: bool

definition SIZEOF_SOCKET :: nat where "SIZEOF_SOCKET = 8"

text \<open>The addresses in turn, until a connect succeeds or is under way: the descriptor, or none.\<close>

fun connect_addrs :: "('a, 'w) posix \<Rightarrow> 'a list \<Rightarrow> 'w \<Rightarrow> (int \<times> bool) option \<times> 'w" where
  "connect_addrs P [] w = (None, w)"
| "connect_addrs P (rp # rps) w =
     (case px_socket P rp w of (fd, w1) \<Rightarrow>
       if fd < 0 then connect_addrs P rps w1
       else (case px_connect P fd rp (px_nonblock P fd w1) of (err, w2) \<Rightarrow>
         if err = None then (Some (fd, False), w2)
         else if err = Some EINPROGRESS \<or> err = Some EAGAIN then (Some (fd, True), w2)
         else connect_addrs P rps (px_close P fd w2)))"

definition otlp_socket_connect ::
  "'w allocator \<Rightarrow> ('a, 'w) posix \<Rightarrow> cstr \<Rightarrow> u16 \<Rightarrow> 'w \<Rightarrow> (status + otlp_socket) \<times> 'w" where
  "otlp_socket_connect A P host port w =
     (case px_getaddrinfo P host (decimal (unat port)) w of
        (None, w1) \<Rightarrow> (Inl OTLP_ERR_DNS, w1)
      | (Some result, w1) \<Rightarrow> (case connect_addrs P result w1 of
            (None, w2) \<Rightarrow> (Inl OTLP_ERR_CONNECT, w2)
          | (Some (fd, connecting), w2) \<Rightarrow> (case a_alloc A SIZEOF_SOCKET w2 of
                (False, w3) \<Rightarrow> (Inl OTLP_ERR_NOMEM, px_close P fd w3)
              | (True, w3) \<Rightarrow> (Inr \<lparr>so_fd = fd, so_eof = False, so_connecting = connecting\<rparr>, w3))))"

definition otlp_socket_finish_connect :: "('a, 'w) posix \<Rightarrow> otlp_socket \<Rightarrow> 'w \<Rightarrow> status \<times> otlp_socket \<times> 'w" where
  "otlp_socket_finish_connect P s w =
     (if so_fd s < 0 then (OTLP_ERR_NULL, s, w)
      else if \<not> so_connecting s then (OTLP_OK, s, w)
      else case px_poll_out P (so_fd s) w of (rc, w1) \<Rightarrow>
        if rc < 0 then (OTLP_ERR_CONNECT, s, w1)
        else if rc = 0 then (OTLP_ERR_WOULDBLOCK, s, w1)
        else case px_so_error P (so_fd s) w1 of (err, w2) \<Rightarrow>
          if err \<noteq> Some 0 then (OTLP_ERR_CONNECT, s, w2)
          else (OTLP_OK, s\<lparr>so_connecting := False\<rparr>, w2))"

text \<open>The calls are repeated while a signal interrupts them; \<open>None\<close> when that never ends.\<close>

partial_function (option) send_retry :: "('a, 'w) posix \<Rightarrow> int \<Rightarrow> u8 list \<Rightarrow> 'w \<Rightarrow> ((errno + nat) \<times> 'w) option" where
  "send_retry P fd data w =
     (case px_send P fd data w of (r, w1) \<Rightarrow> if r = Inl EINTR then send_retry P fd data w1 else Some (r, w1))"

partial_function (option) recv_retry :: "('a, 'w) posix \<Rightarrow> int \<Rightarrow> nat \<Rightarrow> 'w \<Rightarrow> ((errno + u8 list) \<times> 'w) option" where
  "recv_retry P fd cap w =
     (case px_recv P fd cap w of (r, w1) \<Rightarrow> if r = Inl EINTR then recv_retry P fd cap w1 else Some (r, w1))"

definition otlp_socket_write ::
  "('a, 'w) posix \<Rightarrow> otlp_socket \<Rightarrow> u8 list \<Rightarrow> 'w \<Rightarrow> (status \<times> nat \<times> 'w) option" where
  "otlp_socket_write P s data w =
     (if so_fd s < 0 then Some (OTLP_ERR_WRITE, 0, w)
      else if length data = 0 then Some (OTLP_OK, 0, w)
      else (case send_retry P (so_fd s) data w of
          None \<Rightarrow> None
        | Some (Inl e, w1) \<Rightarrow> Some (if e = EAGAIN then OTLP_ERR_WOULDBLOCK else OTLP_ERR_WRITE, 0, w1)
        | Some (Inr room, w1) \<Rightarrow> Some (OTLP_OK, min room (length data), w1)))"

definition otlp_socket_read ::
  "('a, 'w) posix \<Rightarrow> otlp_socket \<Rightarrow> nat \<Rightarrow> 'w \<Rightarrow> (status \<times> u8 list \<times> otlp_socket \<times> 'w) option" where
  "otlp_socket_read P s cap w =
     (if so_fd s < 0 then Some (OTLP_ERR_READ, [], s, w)
      else if cap = 0 then Some (OTLP_OK, [], s, w)
      else (case recv_retry P (so_fd s) cap w of
          None \<Rightarrow> None
        | Some (Inl e, w1) \<Rightarrow> Some (if e = EAGAIN then OTLP_ERR_WOULDBLOCK else OTLP_ERR_READ, [], s, w1)
        | Some (Inr bytes, w1) \<Rightarrow>
            if take cap bytes = [] then Some (OTLP_OK, [], s\<lparr>so_eof := True\<rparr>, w1)
            else Some (OTLP_OK, take cap bytes, s, w1)))"

definition otlp_socket_eof :: "otlp_socket \<Rightarrow> bool" where
  "otlp_socket_eof s = so_eof s"

definition otlp_socket_close :: "('a, 'w) posix \<Rightarrow> otlp_socket \<Rightarrow> 'w \<Rightarrow> 'w" where
  "otlp_socket_close P s w = (if so_fd s \<ge> 0 then px_close P (so_fd s) w else w)"

definition otlp_socket_fd :: "otlp_socket \<Rightarrow> int" where
  "otlp_socket_fd s = so_fd s"

section \<open>The interface of \<^verbatim>\<open>platform.h\<close>\<close>

record ('s, 'w) net =
  nt_connect :: "cstr \<Rightarrow> u16 \<Rightarrow> 'w \<Rightarrow> (status + 's) \<times> 'w"
  nt_finish :: "'s \<Rightarrow> 'w \<Rightarrow> status \<times> 's \<times> 'w"
  nt_write :: "'s \<Rightarrow> u8 list \<Rightarrow> 'w \<Rightarrow> (status \<times> nat \<times> 'w) option"
  nt_read :: "'s \<Rightarrow> nat \<Rightarrow> 'w \<Rightarrow> (status \<times> u8 list \<times> 's \<times> 'w) option"
  nt_eof :: "'s \<Rightarrow> bool"
  nt_close :: "'s \<Rightarrow> 'w \<Rightarrow> 'w"
  nt_fd :: "'s \<Rightarrow> int"
  nt_now :: "'w \<Rightarrow> u64 \<times> 'w"

definition posix_net :: "'w allocator \<Rightarrow> ('a, 'w) posix \<Rightarrow> (otlp_socket, 'w) net" where
  "posix_net A P = \<lparr>nt_connect = otlp_socket_connect A P, nt_finish = otlp_socket_finish_connect P,
     nt_write = otlp_socket_write P, nt_read = otlp_socket_read P, nt_eof = otlp_socket_eof,
     nt_close = otlp_socket_close P, nt_fd = otlp_socket_fd, nt_now = otlp_platform_now_mono_ms P\<rparr>"

text \<open>
  The contract: a failed connect reports an error; a connected or connecting socket answers only with
  the documented statuses; no call accepts or returns more bytes than it was given room for; an empty
  successful read is the end of the stream.
\<close>

locale socket_layer =
  fixes N :: "('s, 'w) net"
  assumes connect_error: "nt_connect N host port w = (Inl st, w') \<Longrightarrow> st \<noteq> OTLP_OK \<and> st \<noteq> OTLP_ERR_WOULDBLOCK"
    and write_le: "nt_write N s data w = Some (st, n, w') \<Longrightarrow> n \<le> length data"
    and write_status: "nt_write N s data w = Some (st, n, w') \<Longrightarrow> st \<in> {OTLP_OK, OTLP_ERR_WOULDBLOCK, OTLP_ERR_WRITE}"
    and read_le: "nt_read N s cap w = Some (st, bytes, s', w') \<Longrightarrow> length bytes \<le> cap"
    and read_status: "nt_read N s cap w = Some (st, bytes, s', w') \<Longrightarrow> st \<in> {OTLP_OK, OTLP_ERR_WOULDBLOCK, OTLP_ERR_READ}"
    and read_eof: "nt_read N s cap w = Some (OTLP_OK, [], s', w') \<Longrightarrow> 0 < cap \<Longrightarrow> nt_eof N s'"

interpretation posix: socket_layer "posix_net A P" for A P
proof
  show "nt_connect (posix_net A P) host port w = (Inl st, w') \<Longrightarrow> st \<noteq> OTLP_OK \<and> st \<noteq> OTLP_ERR_WOULDBLOCK" for host port w st w'
    by (auto simp: posix_net_def otlp_socket_connect_def split: prod.splits option.splits bool.splits)
  show "nt_write (posix_net A P) s data w = Some (st, n, w') \<Longrightarrow> n \<le> length data"
    "nt_write (posix_net A P) s data w = Some (st, n, w') \<Longrightarrow> st \<in> {OTLP_OK, OTLP_ERR_WOULDBLOCK, OTLP_ERR_WRITE}" for s data w st n w'
    by (auto simp: posix_net_def otlp_socket_write_def split: option.splits sum.splits if_splits)
  show "nt_read (posix_net A P) s cap w = Some (st, bytes, s', w') \<Longrightarrow> length bytes \<le> cap"
    "nt_read (posix_net A P) s cap w = Some (st, bytes, s', w') \<Longrightarrow> st \<in> {OTLP_OK, OTLP_ERR_WOULDBLOCK, OTLP_ERR_READ}"
    "nt_read (posix_net A P) s cap w = Some (OTLP_OK, [], s', w') \<Longrightarrow> 0 < cap \<Longrightarrow> nt_eof (posix_net A P) s'" for s cap w st bytes s' w'
    by (auto simp: posix_net_def otlp_socket_read_def otlp_socket_eof_def split: option.splits sum.splits if_splits)
qed

end
