(* ===== verification/Http_Client.thy ===== *)
theory Http_Client
  imports Attr Http_Resp Platform
begin

text \<open>
  The HTTP POST client (\<^verbatim>\<open>src/http_client.c\<close>, \<^verbatim>\<open>src/http_client.h\<close>): the URL parser, the request
  builder, and the non-blocking state machine connect, send, read, done over the socket layer of
  theory \<open>Platform\<close> and the response parser of theory \<open>Http_Resp\<close>. Output pointers are results
  and never NULL; a step is \<open>None\<close> when a system call is interrupted for ever.
\<close>

section \<open>URLs\<close>

definition OTLP_HTTP_HOST_MAX :: nat where "OTLP_HTTP_HOST_MAX = 256"
definition OTLP_HTTP_PATH_MAX :: nat where "OTLP_HTTP_PATH_MAX = 256"

record http_url =
  url_host :: cstr
  url_port :: u16
  url_path :: cstr

fun port_value :: "cstr \<Rightarrow> nat \<Rightarrow> nat option" where
  "port_value [] v = Some v"
| "port_value (c # s) v =
     (if \<not> is_digit c then None
      else let v' = v * 10 + digit_value c in if v' > 65535 then None else port_value s v')"

definition parse_uint16 :: "cstr \<Rightarrow> u16 option" where
  "parse_uint16 s =
     (case port_value s 0 of None \<Rightarrow> None | Some v \<Rightarrow> if length s = 0 then None else Some (word_of_nat v))"

definition has_crlf :: "cstr \<Rightarrow> bool" where
  "has_crlf s \<longleftrightarrow> list_ex (\<lambda>c. c = 13 \<or> c = 10) s"

definition parse_path :: "cstr \<Rightarrow> http_url \<Rightarrow> status \<times> http_url" where
  "parse_path p out =
     (if p = [] then (OTLP_OK, out\<lparr>url_path := ascii ''/''\<rparr>)
      else if length p \<ge> OTLP_HTTP_PATH_MAX then (OTLP_ERR_INVALID_ARGUMENT, out)
      else (OTLP_OK, out\<lparr>url_path := p\<rparr>))"

definition otlp_http_parse_url :: "cstr option \<Rightarrow> http_url \<Rightarrow> status \<times> http_url" where
  "otlp_http_parse_url url_ptr out =
     (case url_ptr of
        None \<Rightarrow> (OTLP_ERR_NULL, out)
      | Some url \<Rightarrow>
          if has_crlf url then (OTLP_ERR_INVALID_ARGUMENT, out)
          else if take 7 url \<noteq> ascii ''http://'' then (OTLP_ERR_INVALID_ARGUMENT, out)
          else
            let rest = drop 7 url in
            if rest = [] \<or> hd rest = 0x2F then (OTLP_ERR_INVALID_ARGUMENT, out)
            else
              let host = takeWhile (\<lambda>c. c \<noteq> 0x3A \<and> c \<noteq> 0x2F) rest;
                  host_end = dropWhile (\<lambda>c. c \<noteq> 0x3A \<and> c \<noteq> 0x2F) rest
              in
              if length host = 0 \<or> length host \<ge> OTLP_HTTP_HOST_MAX then (OTLP_ERR_INVALID_ARGUMENT, out)
              else
                let out1 = out\<lparr>url_host := host\<rparr> in
                if host_end \<noteq> [] \<and> hd host_end = 0x3A then
                  (case parse_uint16 (takeWhile (\<lambda>c. c \<noteq> 0x2F) (tl host_end)) of
                     None \<Rightarrow> (OTLP_ERR_INVALID_ARGUMENT, out1)
                   | Some port \<Rightarrow> parse_path (dropWhile (\<lambda>c. c \<noteq> 0x2F) (tl host_end)) (out1\<lparr>url_port := port\<rparr>))
                else parse_path host_end (out1\<lparr>url_port := 80\<rparr>))"

section \<open>The request\<close>

datatype http_req_state =
    OTLP_HTTP_REQ_CONNECTING | OTLP_HTTP_REQ_SENDING | OTLP_HTTP_REQ_READING
  | OTLP_HTTP_REQ_DONE | OTLP_HTTP_REQ_FAILED

text \<open>
  \<open>rq_resp_buf\<close> holds the first \<^verbatim>\<open>resp_len\<close> bytes of the buffer, \<open>rq_body_ptr\<close> an offset into it.
  The last field is no memory of the program: the bytes the sockets have accepted so far.
\<close>

record 's http_request =
  rq_state :: http_req_state
  rq_sock :: "'s option"
  rq_req_buf :: "u8 list"
  rq_req_sent :: nat
  rq_resp_buf :: "u8 list"
  rq_resp_cap :: nat
  rq_http_status :: nat
  rq_retry_after_ms :: nat
  rq_body_ptr :: "nat option"
  rq_body_len :: nat
  rq_keepalive :: bool
  rq_connect_timeout_ms :: u32
  rq_read_timeout_ms :: u32
  rq_start_ms :: u64
  rq_last_io_ms :: u64
  rq_wire :: "u8 list"

definition SIZEOF_REQUEST :: nat where "SIZEOF_REQUEST = 120"

definition request_zero :: "'s http_request" where
  "request_zero = \<lparr>rq_state = OTLP_HTTP_REQ_CONNECTING, rq_sock = None, rq_req_buf = [], rq_req_sent = 0,
     rq_resp_buf = [], rq_resp_cap = 0, rq_http_status = 0, rq_retry_after_ms = 0, rq_body_ptr = None,
     rq_body_len = 0, rq_keepalive = False, rq_connect_timeout_ms = 0, rq_read_timeout_ms = 0,
     rq_start_ms = 0, rq_last_io_ms = 0, rq_wire = []\<rparr>"

text \<open>A header is its name and value, both pointers.\<close>

type_synonym http_header = "cstr option \<times> cstr option"

fun header_clean :: "http_header \<Rightarrow> bool" where
  "header_clean (name, val) \<longleftrightarrow>
     (case name of None \<Rightarrow> False | Some n \<Rightarrow> length n \<noteq> 0 \<and> \<not> has_crlf n)
     \<and> (case val of None \<Rightarrow> True | Some v \<Rightarrow> \<not> has_crlf v)"

definition str_or_empty :: "cstr option \<Rightarrow> cstr" where
  "str_or_empty s = (case s of None \<Rightarrow> [] | Some v \<Rightarrow> v)"

definition HEAD_CAP :: nat where "HEAD_CAP = 1024"

text \<open>\<^verbatim>\<open>snprintf\<close> at the end of the head block: refused when the text and its NUL do not fit.\<close>

definition head_append :: "cstr \<Rightarrow> cstr \<Rightarrow> cstr option" where
  "head_append txt head = (if length txt \<ge> HEAD_CAP - length head then None else Some (head @ txt))"

fun append_headers :: "http_header list \<Rightarrow> cstr \<Rightarrow> cstr option" where
  "append_headers [] head = Some head"
| "append_headers ((name, val) # hs) head =
     (case head_append (str_or_empty name @ ascii '': '' @ str_or_empty val @ CRLF) head of
        None \<Rightarrow> None | Some head1 \<Rightarrow> append_headers hs head1)"

definition build_head :: "http_url \<Rightarrow> cstr \<Rightarrow> http_header list \<Rightarrow> nat \<Rightarrow> cstr option" where
  "build_head url ua headers body_len =
     (case head_append (ascii ''POST '' @ url_path url @ ascii '' HTTP/1.1'' @ CRLF @
          ascii ''Host: '' @ url_host url @ CRLF @ ascii ''User-Agent: '' @ ua @ CRLF) [] of
        None \<Rightarrow> None
      | Some head1 \<Rightarrow> (case append_headers headers head1 of
            None \<Rightarrow> None
          | Some head2 \<Rightarrow> head_append (ascii ''Content-Type: application/x-protobuf'' @ CRLF @
              ascii ''Content-Length: '' @ decimal body_len @ CRLF @
              ascii ''Connection: keep-alive'' @ CRLF @ CRLF) head2))"

definition build_request ::
  "'w allocator \<Rightarrow> 's http_request \<Rightarrow> http_url \<Rightarrow> cstr option \<Rightarrow> http_header list option \<Rightarrow> nat \<Rightarrow>
     u8 list option \<Rightarrow> nat \<Rightarrow> 'w \<Rightarrow> status \<times> 's http_request \<times> 'w" where
  "build_request A r url user_agent headers n_headers body body_len w =
     (let ua = (case user_agent of None \<Rightarrow> ascii ''otlp-c'' | Some s \<Rightarrow> s) in
      if has_crlf ua then (OTLP_ERR_INVALID_ARGUMENT, r, w)
      else if n_headers > 0 \<and> headers = None then (OTLP_ERR_NULL, r, w)
      else
        let hs = (case headers of None \<Rightarrow> [] | Some hs \<Rightarrow> take n_headers hs) in
        if \<not> list_all header_clean hs then (OTLP_ERR_INVALID_ARGUMENT, r, w)
        else (case build_head url ua hs body_len of
            None \<Rightarrow> (OTLP_ERR_OVERFLOW, r, w)
          | Some head \<Rightarrow>
              let total = (length head + body_len) mod (SIZE_MAX + 1) in
              if total < body_len then (OTLP_ERR_OVERFLOW, r, w)
              else (case a_alloc A total w of
                  (False, w1) \<Rightarrow> (OTLP_ERR_NOMEM, r, w1)
                | (True, w1) \<Rightarrow> (OTLP_OK,
                    r\<lparr>rq_req_buf := head @ (if body_len > 0 then take body_len (the body) else []), rq_req_sent := 0\<rparr>,
                    w1))))"

text \<open>The failure exit of the two start functions.\<close>

definition start_fail :: "('s, 'w) net \<Rightarrow> 's http_request \<Rightarrow> 'w \<Rightarrow> 'w" where
  "start_fail N r w = (case rq_sock r of None \<Rightarrow> w | Some s \<Rightarrow> nt_close N s w)"

definition otlp_http_request_start_with_socket ::
  "('s, 'w) net \<Rightarrow> 'w allocator \<Rightarrow> http_url option \<Rightarrow> cstr option \<Rightarrow> http_header list option \<Rightarrow> nat \<Rightarrow>
     u8 list option \<Rightarrow> nat \<Rightarrow> u32 \<Rightarrow> u32 \<Rightarrow> 's option \<Rightarrow> 'w \<Rightarrow> status \<times> 's http_request option \<times> 'w" where
  "otlp_http_request_start_with_socket N A url_ptr user_agent headers n_headers body body_len
       connect_timeout_ms read_timeout_ms donated_socket w =
     (case url_ptr of
        None \<Rightarrow> (OTLP_ERR_NULL, None, w)
      | Some url \<Rightarrow>
          if body_len > 0 \<and> body = None then (OTLP_ERR_NULL, None, w)
          else (case donated_socket of
              None \<Rightarrow> (OTLP_ERR_NULL, None, w)
            | Some sock \<Rightarrow> (case otlp_calloc A 1 SIZEOF_REQUEST w of
                  (False, w1) \<Rightarrow> (OTLP_ERR_NOMEM, None, w1)
                | (True, w1) \<Rightarrow> (case nt_now N w1 of (now, w2) \<Rightarrow>
                    let r0 = request_zero\<lparr>rq_state := OTLP_HTTP_REQ_SENDING, rq_sock := Some sock,
                          rq_connect_timeout_ms := connect_timeout_ms, rq_read_timeout_ms := read_timeout_ms,
                          rq_start_ms := now, rq_last_io_ms := now\<rparr>
                    in case build_request A r0 url user_agent headers n_headers body body_len w2 of (st, r1, w3) \<Rightarrow>
                      if st \<noteq> OTLP_OK then (st, None, start_fail N r1 w3) else (OTLP_OK, Some r1, w3)))))"

definition otlp_http_request_start ::
  "('s, 'w) net \<Rightarrow> 'w allocator \<Rightarrow> http_url option \<Rightarrow> cstr option \<Rightarrow> http_header list option \<Rightarrow> nat \<Rightarrow>
     u8 list option \<Rightarrow> nat \<Rightarrow> u32 \<Rightarrow> u32 \<Rightarrow> 'w \<Rightarrow> status \<times> 's http_request option \<times> 'w" where
  "otlp_http_request_start N A url_ptr user_agent headers n_headers body body_len
       connect_timeout_ms read_timeout_ms w =
     (case url_ptr of
        None \<Rightarrow> (OTLP_ERR_NULL, None, w)
      | Some url \<Rightarrow>
          if body_len > 0 \<and> body = None then (OTLP_ERR_NULL, None, w)
          else (case otlp_calloc A 1 SIZEOF_REQUEST w of
              (False, w1) \<Rightarrow> (OTLP_ERR_NOMEM, None, w1)
            | (True, w1) \<Rightarrow>
                let r0 = request_zero\<lparr>rq_state := OTLP_HTTP_REQ_CONNECTING,
                      rq_connect_timeout_ms := connect_timeout_ms, rq_read_timeout_ms := read_timeout_ms\<rparr>
                in case build_request A r0 url user_agent headers n_headers body body_len w1 of (st, r1, w2) \<Rightarrow>
                  if st \<noteq> OTLP_OK then (st, None, start_fail N r1 w2)
                  else (case nt_connect N (url_host url) (url_port url) w2 of
                      (Inl st, w3) \<Rightarrow> (st, None, start_fail N r1 w3)
                    | (Inr sock, w3) \<Rightarrow> (case nt_now N w3 of (now, w4) \<Rightarrow>
                        (case nt_finish N sock w4 of (st, sock', w5) \<Rightarrow>
                          let r2 = r1\<lparr>rq_sock := Some sock', rq_start_ms := now, rq_last_io_ms := now\<rparr> in
                          if st = OTLP_OK then (OTLP_OK, Some (r2\<lparr>rq_state := OTLP_HTTP_REQ_SENDING\<rparr>), w5)
                          else if st = OTLP_ERR_WOULDBLOCK then (OTLP_OK, Some r2, w5)
                          else (st, None, start_fail N r2 w5))))))"

definition otlp_http_request_detach_socket :: "'s http_request option \<Rightarrow> 's option \<times> 's http_request option" where
  "otlp_http_request_detach_socket r_ptr =
     (case r_ptr of
        None \<Rightarrow> (None, None)
      | Some r \<Rightarrow>
          if rq_state r \<noteq> OTLP_HTTP_REQ_DONE \<or> \<not> rq_keepalive r then (None, Some r)
          else (rq_sock r, Some (r\<lparr>rq_sock := None\<rparr>)))"

section \<open>Steps\<close>

definition try_parse_response :: "'s http_request \<Rightarrow> bool \<Rightarrow> int \<times> 's http_request" where
  "try_parse_response r at_eof =
     (case otlp_http_resp_parse (rq_resp_buf r) at_eof of
        (rc, resp, buf) \<Rightarrow>
          let r1 = r\<lparr>rq_resp_buf := buf\<rparr> in
          (rc, case resp of None \<Rightarrow> r1
             | Some p \<Rightarrow> if rc = 1 then r1\<lparr>rq_http_status := hr_status p, rq_retry_after_ms := hr_retry_after_ms p,
                 rq_keepalive := hr_keepalive p, rq_body_ptr := Some (hr_body_off p), rq_body_len := hr_body_len p\<rparr> else r1))"

text \<open>The deadline test of the three steps; 0 means none.\<close>

definition elapsed :: "u64 \<Rightarrow> u64 \<Rightarrow> u32 \<Rightarrow> bool" where
  "elapsed now since timeout_ms \<longleftrightarrow> now - since \<ge> ucast timeout_ms"

definition blocked ::
  "('s, 'w) net \<Rightarrow> 's http_request \<Rightarrow> u64 \<Rightarrow> u32 \<Rightarrow> 'w \<Rightarrow> status \<times> 's http_request \<times> 'w" where
  "blocked N r since timeout_ms w =
     (if timeout_ms \<noteq> 0 then (case nt_now N w of (now, w1) \<Rightarrow>
        if elapsed now since timeout_ms then (OTLP_ERR_TIMEOUT, r\<lparr>rq_state := OTLP_HTTP_REQ_FAILED\<rparr>, w1)
        else (OTLP_ERR_WOULDBLOCK, r, w1))
      else (OTLP_ERR_WOULDBLOCK, r, w))"

text \<open>Without a socket, which no live request lacks, the calls of the socket layer report NULL.\<close>

definition step_connecting :: "('s, 'w) net \<Rightarrow> 's http_request \<Rightarrow> 'w \<Rightarrow> status \<times> 's http_request \<times> 'w" where
  "step_connecting N r w =
     (case rq_sock r of
        None \<Rightarrow> (OTLP_ERR_NULL, r, w)
      | Some sock \<Rightarrow> (case nt_finish N sock w of (st, sock', w1) \<Rightarrow>
          let r1 = r\<lparr>rq_sock := Some sock'\<rparr> in
          if st = OTLP_OK then (case nt_now N w1 of (now, w2) \<Rightarrow>
            (OTLP_OK, r1\<lparr>rq_state := OTLP_HTTP_REQ_SENDING, rq_last_io_ms := now\<rparr>, w2))
          else if st = OTLP_ERR_WOULDBLOCK then blocked N r1 (rq_start_ms r1) (rq_connect_timeout_ms r1) w1
          else (st, r1, w1)))"

definition step_sending ::
  "('s, 'w) net \<Rightarrow> 'w allocator \<Rightarrow> 's http_request \<Rightarrow> 'w \<Rightarrow> (status \<times> 's http_request \<times> 'w) option" where
  "step_sending N A r w =
     (case rq_sock r of
        None \<Rightarrow> Some (OTLP_ERR_NULL, r, w)
      | Some sock \<Rightarrow>
          let data = drop (rq_req_sent r) (rq_req_buf r) in
          (case nt_write N sock data w of
             None \<Rightarrow> None
           | Some (st, n, w1) \<Rightarrow>
               if st = OTLP_ERR_WOULDBLOCK then Some (blocked N r (rq_last_io_ms r) (rq_read_timeout_ms r) w1)
               else if st \<noteq> OTLP_OK then Some (st, r, w1)
               else (case (if n > 0 then (case nt_now N w1 of (now, w2) \<Rightarrow> (r\<lparr>rq_last_io_ms := now\<rparr>, w2)) else (r, w1)) of
                 (r1, w2) \<Rightarrow>
                   let r2 = r1\<lparr>rq_req_sent := rq_req_sent r1 + n, rq_wire := rq_wire r1 @ take n data\<rparr> in
                   if rq_req_sent r2 = length (rq_req_buf r2) then
                     (case a_alloc A 4096 w2 of (ok, w3) \<Rightarrow>
                       let r3 = r2\<lparr>rq_state := OTLP_HTTP_REQ_READING, rq_resp_cap := 4096\<rparr> in
                       if \<not> ok then Some (OTLP_ERR_NOMEM, r3, w3)
                       else Some (OTLP_OK, r3\<lparr>rq_resp_buf := []\<rparr>, w3))
                   else Some (OTLP_OK, r2, w2))))"

text \<open>The capacity for \<open>need\<close> bytes; a capacity of 0, which never occurs, would loop.\<close>

function grow_resp :: "nat \<Rightarrow> nat \<Rightarrow> nat option" where
  "grow_resp cap need =
     (if 0 < cap \<and> cap < need then (if cap > OTLP_HTTP_RESP_MAX then None else grow_resp (cap * 2) need)
      else Some cap)"
  by pat_completeness auto
termination by (relation "measure (\<lambda>(cap, need). need - cap)") auto

declare grow_resp.simps [simp del]

text \<open>Room for what was read, then the copy and the timer.\<close>

definition store_read ::
  "('s, 'w) net \<Rightarrow> 'w allocator \<Rightarrow> 's http_request \<Rightarrow> u8 list \<Rightarrow> 'w \<Rightarrow> status \<times> 's http_request \<times> 'w" where
  "store_read N A r bytes w =
     (if length bytes = 0 then (OTLP_OK, r, w)
      else
        let need = length (rq_resp_buf r) + length bytes in
        case (if need > rq_resp_cap r then
                (case grow_resp (rq_resp_cap r) need of
                   None \<Rightarrow> (OTLP_ERR_OVERFLOW, r, w)
                 | Some new_cap \<Rightarrow> (case a_realloc A new_cap w of
                     (False, w1) \<Rightarrow> (OTLP_ERR_NOMEM, r, w1) | (True, w1) \<Rightarrow> (OTLP_OK, r\<lparr>rq_resp_cap := new_cap\<rparr>, w1)))
              else (OTLP_OK, r, w)) of
          (st, r1, w1) \<Rightarrow>
            if st \<noteq> OTLP_OK then (st, r1, w1)
            else (case nt_now N w1 of (now, w2) \<Rightarrow>
              (OTLP_OK, r1\<lparr>rq_resp_buf := rq_resp_buf r1 @ bytes, rq_last_io_ms := now\<rparr>, w2)))"

definition step_reading ::
  "('s, 'w) net \<Rightarrow> 'w allocator \<Rightarrow> 's http_request \<Rightarrow> 'w \<Rightarrow> (status \<times> 's http_request \<times> 'w) option" where
  "step_reading N A r w =
     (case rq_sock r of
        None \<Rightarrow> Some (OTLP_ERR_NULL, r, w)
      | Some sock \<Rightarrow> (case nt_read N sock 4096 w of
          None \<Rightarrow> None
        | Some (st, bytes, sock', w1) \<Rightarrow>
            let r1 = r\<lparr>rq_sock := Some sock'\<rparr> in
            if st = OTLP_ERR_WOULDBLOCK then Some (blocked N r1 (rq_last_io_ms r1) (rq_read_timeout_ms r1) w1)
            else if st \<noteq> OTLP_OK then Some (st, r1, w1)
            else (case store_read N A r1 bytes w1 of (st, r2, w2) \<Rightarrow>
              if st \<noteq> OTLP_OK then Some (st, r2, w2)
              else (case try_parse_response r2 False of (rc, r3) \<Rightarrow>
                if rc < 0 then Some (OTLP_ERR_INVALID_RESPONSE, r3, w2)
                else if rc = 1 then Some (OTLP_OK, r3\<lparr>rq_state := OTLP_HTTP_REQ_DONE\<rparr>, w2)
                else if nt_eof N sock' then
                  (case try_parse_response r3 True of (rc, r4) \<Rightarrow>
                    if rc = 1 then Some (OTLP_OK, r4\<lparr>rq_state := OTLP_HTTP_REQ_DONE\<rparr>, w2)
                    else Some (OTLP_ERR_INVALID_RESPONSE, r4, w2))
                else Some (OTLP_OK, r3, w2)))))"

text \<open>One step of a request, and the entry point over a pointer to it.\<close>

definition http_step ::
  "('s, 'w) net \<Rightarrow> 'w allocator \<Rightarrow> 's http_request \<Rightarrow> 'w \<Rightarrow> (status \<times> 's http_request \<times> 'w) option" where
  "http_step N A r w =
     (let settle = map_option (\<lambda>(st, r1, w1).
        (st, if st \<noteq> OTLP_OK \<and> st \<noteq> OTLP_ERR_WOULDBLOCK then r1\<lparr>rq_state := OTLP_HTTP_REQ_FAILED\<rparr> else r1, w1))
      in case rq_state r of
        OTLP_HTTP_REQ_CONNECTING \<Rightarrow> settle (Some (step_connecting N r w))
      | OTLP_HTTP_REQ_SENDING \<Rightarrow> settle (step_sending N A r w)
      | OTLP_HTTP_REQ_READING \<Rightarrow> settle (step_reading N A r w)
      | _ \<Rightarrow> Some (OTLP_OK, r, w))"

definition otlp_http_request_step ::
  "('s, 'w) net \<Rightarrow> 'w allocator \<Rightarrow> 's http_request option \<Rightarrow> 'w \<Rightarrow> (status \<times> 's http_request option \<times> 'w) option" where
  "otlp_http_request_step N A r_ptr w =
     (case r_ptr of
        None \<Rightarrow> Some (OTLP_ERR_NULL, None, w)
      | Some r \<Rightarrow> map_option (\<lambda>(st, r1, w1). (st, Some r1, w1)) (http_step N A r w))"

section \<open>Queries\<close>

definition otlp_http_request_state :: "'s http_request option \<Rightarrow> http_req_state" where
  "otlp_http_request_state r = (case r of None \<Rightarrow> OTLP_HTTP_REQ_FAILED | Some r \<Rightarrow> rq_state r)"

definition otlp_http_request_fd :: "('s, 'w) net \<Rightarrow> 's http_request option \<Rightarrow> int" where
  "otlp_http_request_fd N r =
     (case r of None \<Rightarrow> - 1 | Some r \<Rightarrow> (case rq_sock r of None \<Rightarrow> - 1 | Some s \<Rightarrow> nt_fd N s))"

definition otlp_http_request_events :: "'s http_request option \<Rightarrow> int" where
  "otlp_http_request_events r =
     (case r of None \<Rightarrow> 0
      | Some r \<Rightarrow> (case rq_state r of
            OTLP_HTTP_REQ_CONNECTING \<Rightarrow> 2 | OTLP_HTTP_REQ_SENDING \<Rightarrow> 2 | OTLP_HTTP_REQ_READING \<Rightarrow> 1 | _ \<Rightarrow> 0))"

definition otlp_http_request_http_status :: "'s http_request option \<Rightarrow> nat" where
  "otlp_http_request_http_status r = (case r of None \<Rightarrow> 0 | Some r \<Rightarrow> rq_http_status r)"

definition otlp_http_request_retry_after_ms :: "'s http_request option \<Rightarrow> nat" where
  "otlp_http_request_retry_after_ms r = (case r of None \<Rightarrow> 0 | Some r \<Rightarrow> rq_retry_after_ms r)"

definition otlp_http_request_body :: "'s http_request option \<Rightarrow> u8 list option" where
  "otlp_http_request_body r =
     (case r of None \<Rightarrow> None
      | Some r \<Rightarrow> map_option (\<lambda>off. take (rq_body_len r) (drop off (rq_resp_buf r))) (rq_body_ptr r))"

definition otlp_http_request_free :: "('s, 'w) net \<Rightarrow> 's http_request option \<Rightarrow> 'w \<Rightarrow> 'w" where
  "otlp_http_request_free N r w =
     (case r of None \<Rightarrow> w | Some r \<Rightarrow> (case rq_sock r of None \<Rightarrow> w | Some s \<Rightarrow> nt_close N s w))"

end
