(* ===== verification/Exporter.thy ===== *)
theory Exporter
  imports Http_Client Mpsc_Queue Partial_Success Retry_Policy
begin

text \<open>
  The batching exporter (\<^verbatim>\<open>src/exporter.c\<close>, \<^verbatim>\<open>src/exporter_internal.h\<close>): emit, the tick state
  machine with its drain, start, step, outcome and backoff phases, flush, shutdown and the
  counters. The signal kinds share one code path, as in the code; the table of adapters is a
  parameter. So are the clock and the HTTP request object: \<open>env\<close> holds the functions the
  exporter calls on them, over an arbitrary state \<open>'w\<close> of the world. The queue is the ring of
  theory \<open>Mpsc_Queue\<close>; calls are atomic with respect to each other.
\<close>

section \<open>State\<close>

datatype signal = SIGNAL_SPAN | SIGNAL_METRIC | SIGNAL_LOG

definition SIGNALS :: "signal list" where
  "SIGNALS = [SIGNAL_SPAN, SIGNAL_METRIC, SIGNAL_LOG]"

datatype log_level = OTLP_LOG_DEBUG | OTLP_LOG_INFO | OTLP_LOG_WARN | OTLP_LOG_ERROR

datatype drop_reason = OTLP_DROP_NONE | OTLP_DROP_MAX_RETRIES | OTLP_DROP_HTTP_STATUS | OTLP_DROP_QUEUE_FULL

datatype event_code =
    OTLP_EVT_QUEUE_FULL | OTLP_EVT_BATCH_SENT | OTLP_EVT_RETRY_ARMED | OTLP_EVT_ITEMS_DROPPED
  | OTLP_EVT_PARTIAL_SUCCESS | OTLP_EVT_SYNC_FLUSH_FAILED

record evt =
  evt_code :: event_code
  evt_level :: log_level
  evt_signal :: signal
  evt_count :: u64
  evt_rejected :: u64
  evt_http_status :: int
  evt_attempt :: u32
  evt_max_retries :: u32
  evt_delay_ms :: u32
  evt_timeout_ms :: u32
  evt_status :: status
  evt_drop_reason :: drop_reason
  evt_server_driven :: bool
  evt_detail :: "u8 list option"

text \<open>A designated initialiser zeroes what it does not name.\<close>

definition evt_init :: "event_code \<Rightarrow> log_level \<Rightarrow> signal \<Rightarrow> evt" where
  "evt_init c l s = \<lparr>evt_code = c, evt_level = l, evt_signal = s, evt_count = 0, evt_rejected = 0,
     evt_http_status = 0, evt_attempt = 0, evt_max_retries = 0, evt_delay_ms = 0, evt_timeout_ms = 0,
     evt_status = OTLP_OK, evt_drop_reason = OTLP_DROP_NONE, evt_server_driven = False, evt_detail = None\<rparr>"

text \<open>
  One signal. The last two fields are no memory of the program: they record which items the
  queue accepted and which items the exporter has given to \<^verbatim>\<open>free_item\<close> out of the batch.
\<close>

record 'i signal_state =
  sg_queue :: "'i mpsc_queue"
  sg_pending :: "'i list"
  sg_pending_cap :: nat
  sg_first_set :: bool
  sg_first_mono :: u64
  sg_emitted :: u64
  sg_dropped_full :: u64
  sg_dropped_err :: u64
  sg_sent :: u64
  sg_rejected :: u64
  sg_accepted :: "'i list"
  sg_freed :: "'i list"

text \<open>\<open>ex_events\<close> records the diagnostics dispatched, \<open>ex_posts\<close> the payload of every request built.\<close>

record ('i, 'r) exporter =
  ex_batch_size :: nat
  ex_batch_ms :: u32
  ex_max_retries :: u32
  ex_backoff_initial_ms :: u32
  ex_backoff_max_ms :: u32
  ex_flush_timeout_ms :: u32
  ex_sig :: "signal \<Rightarrow> 'i signal_state"
  ex_http_2xx :: u64
  ex_http_4xx :: u64
  ex_http_5xx :: u64
  ex_network_err :: u64
  ex_shutdown :: bool
  ex_in_flight :: "'r option"
  ex_in_flight_signal :: signal
  ex_in_flight_count :: nat
  ex_attempt :: u32
  ex_backoff_deadline :: u64
  ex_backoff_armed :: bool
  ex_keepalive :: bool
  ex_null_transport :: bool
  ex_jitter :: u64
  ex_events :: "evt list"
  ex_posts :: "(signal \<times> 'i list) list"

text \<open>What the exporter calls outside itself.\<close>

record ('i, 'r, 'w) env =
  env_now :: "'w \<Rightarrow> u64 \<times> 'w"
  env_sleep :: "'w \<Rightarrow> 'w"
  env_build :: "signal \<Rightarrow> 'i list \<Rightarrow> bool \<Rightarrow> 'w \<Rightarrow> status \<times> 'r option \<times> 'w"
  env_step :: "'r \<Rightarrow> 'w \<Rightarrow> 'r \<times> 'w"
  env_state :: "'r \<Rightarrow> http_req_state"
  env_http_status :: "'r \<Rightarrow> int"
  env_retry_after :: "'r \<Rightarrow> u32"
  env_body :: "'r \<Rightarrow> u8 list option"
  env_detach :: "'r \<Rightarrow> bool"
  env_null_status :: "('w \<Rightarrow> int \<times> 'w) option"

definition upd_sig ::
  "signal \<Rightarrow> ('i signal_state \<Rightarrow> 'i signal_state) \<Rightarrow> ('i, 'r) exporter \<Rightarrow> ('i, 'r) exporter" where
  "upd_sig k f e = e\<lparr>ex_sig := (ex_sig e)(k := f (ex_sig e k))\<rparr>"

definition otlp_exporter_event_log :: "('i, 'r) exporter \<Rightarrow> evt \<Rightarrow> ('i, 'r) exporter" where
  "otlp_exporter_event_log e ev = e\<lparr>ex_events := ex_events e @ [ev]\<rparr>"

section \<open>Options\<close>

function round_up_pow2_loop :: "nat \<Rightarrow> nat \<Rightarrow> nat" where
  "round_up_pow2_loop r v =
     (if 0 < r \<and> r < v then (if r > SIZE_MAX div 2 then r else round_up_pow2_loop (r * 2) v) else r)"
  by pat_completeness auto
termination by (relation "measure (\<lambda>(r, v). v - r)") auto

declare round_up_pow2_loop.simps [simp del]

definition round_up_pow2 :: "nat \<Rightarrow> nat" where
  "round_up_pow2 v = round_up_pow2_loop 1 v"

record exporter_opts =
  o_batch_size :: nat
  o_batch_ms :: u32
  o_max_retries :: u32
  o_backoff_initial_ms :: u32
  o_backoff_max_ms :: u32
  o_connect_timeout_ms :: u32
  o_read_timeout_ms :: u32
  o_flush_timeout_ms :: u32
  o_queue_capacity :: nat
  o_endpoint :: "cstr option"
  o_service_name :: "cstr option"
  o_user_agent :: "cstr option"

definition OTLP_DEFAULT_ENDPOINT :: cstr where
  "OTLP_DEFAULT_ENDPOINT = ascii ''http://localhost:4318/v1/traces''"
definition OTLP_MAX_BATCH_SIZE :: nat where "OTLP_MAX_BATCH_SIZE = 1048576"

text \<open>The version string comes from a generated header.\<close>

definition normalize_opts :: "cstr \<Rightarrow> 'o exporter_opts_scheme \<Rightarrow> 'o exporter_opts_scheme" where
  "normalize_opts version o0 =
     (let o1 = o0\<lparr>o_endpoint := (case o_endpoint o0 of None \<Rightarrow> Some OTLP_DEFAULT_ENDPOINT | s \<Rightarrow> s)\<rparr>;
          o2 = o1\<lparr>o_service_name := (case o_service_name o1 of None \<Rightarrow> Some [] | s \<Rightarrow> s)\<rparr>;
          o3 = o2\<lparr>o_batch_size := (if o_batch_size o2 = 0 then 512 else o_batch_size o2)\<rparr>;
          o4 = o3\<lparr>o_batch_size := (if o_batch_size o3 > OTLP_MAX_BATCH_SIZE then OTLP_MAX_BATCH_SIZE else o_batch_size o3)\<rparr>;
          o5 = o4\<lparr>o_batch_ms := (if o_batch_ms o4 = 0 then 100 else o_batch_ms o4)\<rparr>;
          o6 = o5\<lparr>o_max_retries := (if o_max_retries o5 = 0 then 5 else o_max_retries o5)\<rparr>;
          o7 = o6\<lparr>o_backoff_initial_ms := (if o_backoff_initial_ms o6 = 0 then 1000 else o_backoff_initial_ms o6)\<rparr>;
          o8 = o7\<lparr>o_backoff_max_ms := (if o_backoff_max_ms o7 = 0 then 30000 else o_backoff_max_ms o7)\<rparr>;
          o9 = o8\<lparr>o_connect_timeout_ms := (if o_connect_timeout_ms o8 = 0 then 5000 else o_connect_timeout_ms o8)\<rparr>;
          o10 = o9\<lparr>o_read_timeout_ms := (if o_read_timeout_ms o9 = 0 then 10000 else o_read_timeout_ms o9)\<rparr>;
          o11 = o10\<lparr>o_flush_timeout_ms := (if o_flush_timeout_ms o10 = 0 then 30000 else o_flush_timeout_ms o10)\<rparr>;
          o12 = o11\<lparr>o_user_agent := (case o_user_agent o11 of None \<Rightarrow> Some (ascii ''otlp-c/'' @ version) | s \<Rightarrow> s)\<rparr>;
          o13 = o12\<lparr>o_queue_capacity := (if o_queue_capacity o12 = 0 then 4096 else o_queue_capacity o12)\<rparr>
      in o13\<lparr>o_queue_capacity := round_up_pow2 (o_queue_capacity o13)\<rparr>)"

text \<open>
  The state that \<^verbatim>\<open>otlp_exporter_create\<close> ends in: the batch size and timings of the
  normalised options, three empty queues, and a batch of twice the batch size for each signal.
\<close>

definition signal_start :: "nat \<Rightarrow> 'i mpsc_queue \<Rightarrow> 'i signal_state" where
  "signal_start batch_size q = \<lparr>sg_queue = q, sg_pending = [], sg_pending_cap = batch_size * 2,
     sg_first_set = False, sg_first_mono = 0, sg_emitted = 0, sg_dropped_full = 0, sg_dropped_err = 0,
     sg_sent = 0, sg_rejected = 0, sg_accepted = [], sg_freed = []\<rparr>"

definition exporter_start :: "'o exporter_opts_scheme \<Rightarrow> 'i mpsc_queue \<Rightarrow> u64 \<Rightarrow> ('i, 'r) exporter" where
  "exporter_start opt q seed = \<lparr>ex_batch_size = o_batch_size opt, ex_batch_ms = o_batch_ms opt,
     ex_max_retries = o_max_retries opt, ex_backoff_initial_ms = o_backoff_initial_ms opt,
     ex_backoff_max_ms = o_backoff_max_ms opt, ex_flush_timeout_ms = o_flush_timeout_ms opt,
     ex_sig = (\<lambda>_. signal_start (o_batch_size opt) q),
     ex_http_2xx = 0, ex_http_4xx = 0, ex_http_5xx = 0, ex_network_err = 0, ex_shutdown = False,
     ex_in_flight = None, ex_in_flight_signal = SIGNAL_SPAN, ex_in_flight_count = 0, ex_attempt = 0,
     ex_backoff_deadline = 0, ex_backoff_armed = False, ex_keepalive = False, ex_null_transport = False,
     ex_jitter = (if seed = 0 then 11400714819323198485 else seed), ex_events = [], ex_posts = []\<rparr>"

section \<open>Emit\<close>

text \<open>\<open>None\<close>: the push would not return, which the ring excludes for a single caller.\<close>

definition emit_move_common ::
  "('i, 'r) exporter option \<Rightarrow> signal \<Rightarrow> 'i option \<Rightarrow> (status \<times> ('i, 'r) exporter option) option" where
  "emit_move_common e_ptr kind item_ptr =
     (case (e_ptr, item_ptr) of
        (Some e, Some item) \<Rightarrow>
          if ex_shutdown e then Some (OTLP_ERR_SHUTDOWN, Some e)
          else (case mpsc_queue_push (sg_queue (ex_sig e kind)) item of
              None \<Rightarrow> None
            | Some (st, q) \<Rightarrow>
                let e1 = upd_sig kind (\<lambda>sg. sg\<lparr>sg_queue := q\<rparr>) e in
                if st \<noteq> OTLP_OK then
                  Some (st, Some (otlp_exporter_event_log
                    (upd_sig kind (\<lambda>sg. sg\<lparr>sg_dropped_full := sg_dropped_full sg + 1\<rparr>) e1)
                    ((evt_init OTLP_EVT_QUEUE_FULL OTLP_LOG_WARN kind)\<lparr>evt_count := 1,
                       evt_drop_reason := OTLP_DROP_QUEUE_FULL\<rparr>)))
                else
                  Some (OTLP_OK, Some (upd_sig kind (\<lambda>sg. sg\<lparr>sg_emitted := sg_emitted sg + 1,
                    sg_accepted := sg_accepted sg @ [item]\<rparr>) e1)))
      | _ \<Rightarrow> Some (OTLP_ERR_NULL, e_ptr))"

definition emit_clone_common ::
  "('i \<Rightarrow> 'w \<Rightarrow> 'i option \<times> 'w) \<Rightarrow> ('i, 'r) exporter option \<Rightarrow> signal \<Rightarrow> 'i option \<Rightarrow> 'w \<Rightarrow>
     (status \<times> ('i, 'r) exporter option \<times> 'w) option" where
  "emit_clone_common clone_item e_ptr kind item_ptr w =
     (case (e_ptr, item_ptr) of
        (Some e, Some item) \<Rightarrow>
          if ex_shutdown e then Some (OTLP_ERR_SHUTDOWN, Some e, w)
          else (case clone_item item w of
              (None, w1) \<Rightarrow> Some (OTLP_ERR_NOMEM, Some e, w1)
            | (Some clone, w1) \<Rightarrow> (case emit_move_common e_ptr kind (Some clone) of
                None \<Rightarrow> None | Some (st, e1) \<Rightarrow> Some (st, e1, w1)))
      | _ \<Rightarrow> Some (OTLP_ERR_NULL, e_ptr, w))"

definition otlp_exporter_emit_move where
  "otlp_exporter_emit_move e item = emit_move_common e SIGNAL_SPAN item"
definition otlp_exporter_emit_metric_move where
  "otlp_exporter_emit_metric_move e item = emit_move_common e SIGNAL_METRIC item"
definition otlp_exporter_emit_log_move where
  "otlp_exporter_emit_log_move e item = emit_move_common e SIGNAL_LOG item"
definition otlp_exporter_emit where
  "otlp_exporter_emit clone_item e item w = emit_clone_common clone_item e SIGNAL_SPAN item w"
definition otlp_exporter_emit_metric where
  "otlp_exporter_emit_metric clone_item e item w = emit_clone_common clone_item e SIGNAL_METRIC item w"
definition otlp_exporter_emit_log where
  "otlp_exporter_emit_log clone_item e item w = emit_clone_common clone_item e SIGNAL_LOG item w"

section \<open>Outcome of a request\<close>

definition clear_in_flight_batch :: "('i, 'r) exporter \<Rightarrow> signal \<Rightarrow> ('i, 'r) exporter" where
  "clear_in_flight_batch e k =
     (upd_sig k (\<lambda>sg. sg\<lparr>sg_freed := sg_freed sg @ sg_pending sg, sg_pending := [], sg_first_set := False\<rparr>) e)
       \<lparr>ex_attempt := 0, ex_backoff_armed := False\<rparr>"

definition try_start_post ::
  "('i, 'r, 'w) env \<Rightarrow> ('i, 'r) exporter \<Rightarrow> signal \<Rightarrow> 'w \<Rightarrow> status \<times> ('i, 'r) exporter \<times> 'w" where
  "try_start_post E e s w =
     (let sg = ex_sig e s in
      if ex_in_flight e \<noteq> None \<or> length (sg_pending sg) = 0 then (OTLP_OK, e, w)
      else (case env_build E s (sg_pending sg) (ex_keepalive e) w of (st, req, w1) \<Rightarrow>
        if st \<noteq> OTLP_OK then (st, e\<lparr>ex_keepalive := False\<rparr>, w1)
        else (OTLP_OK,
          (upd_sig s (\<lambda>sg. sg\<lparr>sg_first_set := False\<rparr>) e)\<lparr>ex_in_flight := req, ex_keepalive := False,
             ex_in_flight_signal := s, ex_in_flight_count := length (sg_pending sg),
             ex_posts := ex_posts e @ [(s, sg_pending sg)]\<rparr>,
          w1)))"

record http_outcome =
  ho_status :: int
  ho_retry_after_ms :: u32
  ho_body :: "u8 list option"

text \<open>The counter is the per-signal one, or none on the synchronous path.\<close>

definition otlp_exporter_report_partial_success ::
  "('i, 'r) exporter \<Rightarrow> signal \<Rightarrow> bool \<Rightarrow> u64 \<Rightarrow> u8 list \<Rightarrow> ('i, 'r) exporter" where
  "otlp_exporter_report_partial_success e k has_counter count body =
     (case otlp_exporter_otel_decode_partial_success (Some body) (length body) ps_none of
        (False, _) \<Rightarrow> e
      | (True, out) \<Rightarrow>
          let msg_len = (case ps_message out of None \<Rightarrow> 0 | Some d \<Rightarrow> length d) in
          if sint (ps_rejected out) \<le> 0 \<and> msg_len = 0 then e
          else
            let ev0 = (evt_init OTLP_EVT_PARTIAL_SUCCESS OTLP_LOG_WARN k)\<lparr>evt_count := count\<rparr>;
                ev1 = (if sint (ps_rejected out) > 0 then ev0\<lparr>evt_rejected := ps_rejected out\<rparr> else ev0);
                e1 = (if sint (ps_rejected out) > 0 \<and> has_counter
                      then upd_sig k (\<lambda>sg. sg\<lparr>sg_rejected := sg_rejected sg + ps_rejected out\<rparr>) e else e);
                ev2 = (if msg_len > 0 then ev1\<lparr>evt_detail := ps_message out\<rparr> else ev1)
            in otlp_exporter_event_log e1 ev2)"

text \<open>Arming the backoff, shared by the two retryable outcomes.\<close>

definition arm_backoff ::
  "('i, 'r, 'w) env \<Rightarrow> ('i, 'r) exporter \<Rightarrow> signal \<Rightarrow> int \<Rightarrow> u32 \<Rightarrow> 'w \<Rightarrow> ('i, 'r) exporter \<times> 'w" where
  "arm_backoff E e k http_status floor_ms w =
     (case otlp_retry_delay_ms (ex_jitter e) (ex_attempt e) floor_ms
         \<lparr>initial_ms = ex_backoff_initial_ms e, max_ms = ex_backoff_max_ms e\<rparr> of (delay, prng, driven) \<Rightarrow>
      (case env_now E w of (now, w1) \<Rightarrow>
        (otlp_exporter_event_log
          (e\<lparr>ex_jitter := prng, ex_backoff_deadline := now + ucast delay, ex_backoff_armed := True\<rparr>)
          ((evt_init OTLP_EVT_RETRY_ARMED OTLP_LOG_WARN k)\<lparr>evt_http_status := http_status,
             evt_attempt := ex_attempt e, evt_max_retries := ex_max_retries e, evt_delay_ms := delay,
             evt_server_driven := (http_status \<noteq> 0 \<and> driven)\<rparr>), w1)))"

text \<open>The batch given up after the last retry.\<close>

definition drop_batch :: "('i, 'r) exporter \<Rightarrow> signal \<Rightarrow> u64 \<Rightarrow> evt \<Rightarrow> ('i, 'r) exporter" where
  "drop_batch e k count ev =
     clear_in_flight_batch (otlp_exporter_event_log
       (upd_sig k (\<lambda>sg. sg\<lparr>sg_dropped_err := sg_dropped_err sg + count\<rparr>) e) ev) k"

definition record_outcome ::
  "('i, 'r, 'w) env \<Rightarrow> ('i, 'r) exporter \<Rightarrow> http_outcome \<Rightarrow> 'w \<Rightarrow> ('i, 'r) exporter \<times> 'w" where
  "record_outcome E e ho w =
     (let k = ex_in_flight_signal e;
          count = (word_of_nat (ex_in_flight_count e) :: u64);
          http_status = ho_status ho
      in
      if http_status = 0 then
        (let e1 = e\<lparr>ex_network_err := ex_network_err e + 1, ex_attempt := ex_attempt e + 1\<rparr> in
         if ex_attempt e1 > ex_max_retries e1 then
           (drop_batch e1 k count ((evt_init OTLP_EVT_ITEMS_DROPPED OTLP_LOG_ERROR k)\<lparr>evt_count := count,
              evt_max_retries := ex_max_retries e1, evt_drop_reason := OTLP_DROP_MAX_RETRIES\<rparr>), w)
         else arm_backoff E e1 k 0 0 w)
      else if http_status \<ge> 200 \<and> http_status < 300 then
        (let e1 = upd_sig k (\<lambda>sg. sg\<lparr>sg_sent := sg_sent sg + count\<rparr>) (e\<lparr>ex_http_2xx := ex_http_2xx e + 1\<rparr>);
             e2 = otlp_exporter_event_log e1 ((evt_init OTLP_EVT_BATCH_SENT OTLP_LOG_DEBUG k)\<lparr>evt_count := count,
                    evt_http_status := http_status\<rparr>);
             e3 = (case ho_body ho of
                     Some body \<Rightarrow> if length body > 0 then otlp_exporter_report_partial_success e2 k True count body else e2
                   | None \<Rightarrow> e2)
         in (clear_in_flight_batch e3 k, w))
      else if http_status = 429 \<or> (http_status \<ge> 500 \<and> http_status < 600) then
        (let e1 = (if http_status = 429 then e\<lparr>ex_http_4xx := ex_http_4xx e + 1\<rparr> else e\<lparr>ex_http_5xx := ex_http_5xx e + 1\<rparr>);
             e2 = e1\<lparr>ex_attempt := ex_attempt e1 + 1\<rparr>
         in
         if ex_attempt e2 > ex_max_retries e2 then
           (drop_batch e2 k count ((evt_init OTLP_EVT_ITEMS_DROPPED OTLP_LOG_ERROR k)\<lparr>evt_count := count,
              evt_http_status := http_status, evt_max_retries := ex_max_retries e2,
              evt_drop_reason := OTLP_DROP_MAX_RETRIES\<rparr>), w)
         else arm_backoff E e2 k http_status (ho_retry_after_ms ho) w)
      else
        (drop_batch (e\<lparr>ex_http_4xx := ex_http_4xx e + 1\<rparr>) k count
          ((evt_init OTLP_EVT_ITEMS_DROPPED OTLP_LOG_ERROR k)\<lparr>evt_count := count, evt_http_status := http_status,
             evt_drop_reason := OTLP_DROP_HTTP_STATUS\<rparr>), w))"

section \<open>Tick\<close>

text \<open>Phase 1, one signal: pop into the batch while it has room; the first item starts its timer.\<close>

function drain_queue :: "('i, 'r, 'w) env \<Rightarrow> 'i signal_state \<Rightarrow> bool \<Rightarrow> 'w \<Rightarrow> 'i signal_state \<times> bool \<times> 'w" where
  "drain_queue E sg work w =
     (if length (sg_pending sg) < sg_pending_cap sg then
        (case mpsc_queue_pop (sg_queue sg) of
           (None, q) \<Rightarrow> (sg\<lparr>sg_queue := q\<rparr>, work, w)
         | (Some item, q) \<Rightarrow>
             (let sg1 = sg\<lparr>sg_queue := q, sg_pending := sg_pending sg @ [item]\<rparr> in
              if sg_first_set sg1 then drain_queue E sg1 True w
              else (case env_now E w of (now, w1) \<Rightarrow>
                drain_queue E (sg1\<lparr>sg_first_mono := now, sg_first_set := True\<rparr>) True w1)))
      else (sg, work, w))"
  by pat_completeness auto
termination by (relation "measure (\<lambda>(E, sg, _). sg_pending_cap sg - length (sg_pending sg))") auto

declare drain_queue.simps [simp del]

fun drain_signals ::
  "('i, 'r, 'w) env \<Rightarrow> signal list \<Rightarrow> ('i, 'r) exporter \<Rightarrow> bool \<Rightarrow> 'w \<Rightarrow> ('i, 'r) exporter \<times> bool \<times> 'w" where
  "drain_signals E [] e work w = (e, work, w)"
| "drain_signals E (k # ks) e work w =
     (case drain_queue E (ex_sig e k) work w of (sg, work1, w1) \<Rightarrow>
        drain_signals E ks (upd_sig k (\<lambda>_. sg) e) work1 w1)"

text \<open>Phase 2: the null transport takes the first signal with a batch; \<open>None\<close> when none has.\<close>

fun null_transport_post ::
  "('i, 'r, 'w) env \<Rightarrow> signal list \<Rightarrow> ('i, 'r) exporter \<Rightarrow> 'w \<Rightarrow> (('i, 'r) exporter \<times> 'w) option" where
  "null_transport_post E [] e w = None"
| "null_transport_post E (k # ks) e w =
     (if length (sg_pending (ex_sig e k)) > 0 then
        (let e1 = e\<lparr>ex_in_flight_signal := k, ex_in_flight_count := length (sg_pending (ex_sig e k))\<rparr> in
         case (case env_null_status E of None \<Rightarrow> (200, w) | Some f \<Rightarrow> f w) of (http_status, w1) \<Rightarrow>
           Some (record_outcome E e1 \<lparr>ho_status = http_status, ho_retry_after_ms = 0, ho_body = None\<rparr> w1))
      else null_transport_post E ks e w)"

text \<open>Phase 3: start a request for the first ready batch.\<close>

fun start_posts ::
  "('i, 'r, 'w) env \<Rightarrow> bool \<Rightarrow> u64 \<Rightarrow> signal list \<Rightarrow> ('i, 'r) exporter \<Rightarrow> bool \<Rightarrow> 'w \<Rightarrow> ('i, 'r) exporter \<times> bool \<times> 'w" where
  "start_posts E shutdown now_ms [] e work w = (e, work, w)"
| "start_posts E shutdown now_ms (k # ks) e work w =
     (if ex_in_flight e \<noteq> None \<or> ex_backoff_armed e then (e, work, w)
      else let sg = ex_sig e k in
        if length (sg_pending sg) \<ge> ex_batch_size e
          \<or> (sg_first_set sg \<and> now_ms - sg_first_mono sg \<ge> ucast (ex_batch_ms e))
          \<or> (shutdown \<and> length (sg_pending sg) > 0)
        then (case try_start_post E e k w of (st, e1, w1) \<Rightarrow>
            start_posts E shutdown now_ms ks e1 (if st = OTLP_OK then True else work) w1)
        else start_posts E shutdown now_ms ks e work w)"

text \<open>Phase 4: step the request in flight and settle a terminal one.\<close>

definition step_in_flight ::
  "('i, 'r, 'w) env \<Rightarrow> ('i, 'r) exporter \<Rightarrow> bool \<Rightarrow> 'w \<Rightarrow> ('i, 'r) exporter \<times> bool \<times> 'w" where
  "step_in_flight E e work w =
     (case ex_in_flight e of
        None \<Rightarrow> (e, work, w)
      | Some r0 \<Rightarrow>
          (case env_step E r0 w of (r, w1) \<Rightarrow>
            let e1 = e\<lparr>ex_in_flight := Some r\<rparr> in
            if env_state E r = OTLP_HTTP_REQ_DONE \<or> env_state E r = OTLP_HTTP_REQ_FAILED then
              (let ho = (if env_state E r = OTLP_HTTP_REQ_DONE
                         then \<lparr>ho_status = env_http_status E r, ho_retry_after_ms = env_retry_after E r, ho_body = env_body E r\<rparr>
                         else \<lparr>ho_status = 0, ho_retry_after_ms = 0, ho_body = None\<rparr>);
                   e2 = (if env_state E r = OTLP_HTTP_REQ_DONE then e1\<lparr>ex_keepalive := env_detach E r\<rparr> else e1)
               in case record_outcome E e2 ho w1 of (e3, w2) \<Rightarrow>
                 let e4 = e3\<lparr>ex_in_flight := None, ex_in_flight_count := 0\<rparr>;
                     e5 = (if ho_status ho \<noteq> 0 \<and> (ho_status ho < 200 \<or> ho_status ho \<ge> 300) \<and> ex_keepalive e4
                           then e4\<lparr>ex_keepalive := False\<rparr> else e4)
                 in (e5, True, w2))
            else (e1, True, w1)))"

text \<open>Phases 5 and 6: retry after the backoff, or sleep while it lasts.\<close>

definition backoff_retry ::
  "('i, 'r, 'w) env \<Rightarrow> ('i, 'r) exporter \<Rightarrow> bool \<Rightarrow> 'w \<Rightarrow> ('i, 'r) exporter \<times> bool \<times> 'w" where
  "backoff_retry E e work w =
     (if ex_backoff_armed e \<and> ex_in_flight e = None then
        (case env_now E w of (now, w1) \<Rightarrow>
          if now \<ge> ex_backoff_deadline e then
            (let e1 = e\<lparr>ex_backoff_armed := False\<rparr> in
             case (if \<not> ex_null_transport e1 then (case try_start_post E e1 (ex_in_flight_signal e1) w1 of (_, e2, w2) \<Rightarrow> (e2, w2))
                   else (e1, w1)) of (e2, w2) \<Rightarrow>
               (e2, (if ex_in_flight e2 \<noteq> None then True else work), w2))
          else (e, work, w1))
      else (e, work, w))"

definition backoff_sleep :: "('i, 'r, 'w) env \<Rightarrow> ('i, 'r) exporter \<Rightarrow> bool \<Rightarrow> 'w \<Rightarrow> 'w" where
  "backoff_sleep E e work w = (if \<not> work \<and> ex_backoff_armed e \<and> ex_in_flight e = None then env_sleep E w else w)"

text \<open>One round of the loop: the state and whether work was done.\<close>

definition tick_round :: "('i, 'r, 'w) env \<Rightarrow> ('i, 'r) exporter \<Rightarrow> 'w \<Rightarrow> ('i, 'r) exporter \<times> bool \<times> 'w" where
  "tick_round E e w =
     (case drain_signals E SIGNALS e False w of (e1, work1, w1) \<Rightarrow>
      case (if ex_null_transport e1 \<and> \<not> ex_backoff_armed e1 then null_transport_post E SIGNALS e1 w1 else None) of
        Some (e2, w2) \<Rightarrow> (e2, True, w2)
      | None \<Rightarrow>
         (case (if ex_in_flight e1 = None \<and> \<not> ex_backoff_armed e1
                then (case env_now E w1 of (now_ms, w2) \<Rightarrow> start_posts E (ex_shutdown e1) now_ms SIGNALS e1 work1 w2)
                else (e1, work1, w1)) of (e3, work3, w3) \<Rightarrow>
          (case step_in_flight E e3 work3 w3 of (e4, work4, w4) \<Rightarrow>
           (case backoff_retry E e4 work4 w4 of (e5, work5, w5) \<Rightarrow>
              (e5, work5, backoff_sleep E e5 work5 w5)))))"

text \<open>The loop ends when a round did no work or the clock passed the deadline; \<open>None\<close>: out of fuel.\<close>

fun tick_loop :: "nat \<Rightarrow> ('i, 'r, 'w) env \<Rightarrow> u64 \<Rightarrow> ('i, 'r) exporter \<Rightarrow> 'w \<Rightarrow> (('i, 'r) exporter \<times> 'w) option" where
  "tick_loop 0 E deadline e w = None"
| "tick_loop (Suc fuel) E deadline e w =
     (case tick_round E e w of (e1, work, w1) \<Rightarrow>
        if \<not> work then Some (e1, w1)
        else (case env_now E w1 of (now, w2) \<Rightarrow>
          if now < deadline then tick_loop fuel E deadline e1 w2 else Some (e1, w2)))"

definition otlp_exporter_tick ::
  "nat \<Rightarrow> ('i, 'r, 'w) env \<Rightarrow> ('i, 'r) exporter \<Rightarrow> u32 \<Rightarrow> 'w \<Rightarrow> (status \<times> ('i, 'r) exporter \<times> 'w) option" where
  "otlp_exporter_tick fuel E e max_wait_ms w =
     (case env_now E w of (now, w1) \<Rightarrow>
        map_option (Pair OTLP_OK) (tick_loop fuel E (now + ucast max_wait_ms) e w1))"

section \<open>Flush, shutdown and the small entry points\<close>

definition signal_left :: "('i, 'r) exporter \<Rightarrow> signal \<Rightarrow> bool" where
  "signal_left e k \<longleftrightarrow> length (sg_pending (ex_sig e k)) > 0 \<or> mpsc_queue_size (sg_queue (ex_sig e k)) > 0"

definition work_left :: "('i, 'r) exporter \<Rightarrow> bool" where
  "work_left e \<longleftrightarrow> ex_in_flight e \<noteq> None \<or> list_ex (signal_left e) SIGNALS"

fun flush_loop ::
  "nat \<Rightarrow> ('i, 'r, 'w) env \<Rightarrow> u64 \<Rightarrow> ('i, 'r) exporter \<Rightarrow> 'w \<Rightarrow> (('i, 'r) exporter \<times> 'w) option" where
  "flush_loop 0 E deadline e w = None"
| "flush_loop (Suc fuel) E deadline e w =
     (case otlp_exporter_tick fuel E e 100 w of
        None \<Rightarrow> None
      | Some (_, e1, w1) \<Rightarrow>
          (case env_now E w1 of (now, w2) \<Rightarrow>
             if work_left e1 \<and> now < deadline then flush_loop fuel E deadline e1 w2 else Some (e1, w2)))"

definition otlp_exporter_flush ::
  "nat \<Rightarrow> ('i, 'r, 'w) env \<Rightarrow> ('i, 'r) exporter option \<Rightarrow> 'w \<Rightarrow> (status \<times> ('i, 'r) exporter option \<times> 'w) option" where
  "otlp_exporter_flush fuel E e_ptr w =
     (case e_ptr of
        None \<Rightarrow> Some (OTLP_ERR_NULL, None, w)
      | Some e \<Rightarrow> (case env_now E w of (now, w1) \<Rightarrow>
          (case flush_loop fuel E (now + ucast (ex_flush_timeout_ms e)) e w1 of
             None \<Rightarrow> None
           | Some (e1, w2) \<Rightarrow> Some (if work_left e1 then OTLP_ERR_NETWORK else OTLP_OK, Some e1, w2))))"

definition otlp_exporter_shutdown :: "('i, 'r) exporter option \<Rightarrow> status \<times> ('i, 'r) exporter option" where
  "otlp_exporter_shutdown e_ptr =
     (case e_ptr of None \<Rightarrow> (OTLP_ERR_NULL, None) | Some e \<Rightarrow> (OTLP_OK, Some (e\<lparr>ex_shutdown := True\<rparr>)))"

definition otlp_exporter_set_null_transport :: "('i, 'r) exporter option \<Rightarrow> bool \<Rightarrow> ('i, 'r) exporter option" where
  "otlp_exporter_set_null_transport e_ptr enabled = map_option (\<lambda>e. e\<lparr>ex_null_transport := enabled\<rparr>) e_ptr"

record exporter_stats =
  st_signal :: "signal \<Rightarrow> u64 \<times> u64 \<times> u64 \<times> u64 \<times> u64"
  st_http_2xx :: u64
  st_http_4xx :: u64
  st_http_5xx :: u64
  st_network_err :: u64

definition otlp_exporter_get_stats :: "('i, 'r) exporter option \<Rightarrow> bool \<Rightarrow> status \<times> exporter_stats option" where
  "otlp_exporter_get_stats e_ptr out =
     (case e_ptr of
        None \<Rightarrow> (OTLP_ERR_NULL, None)
      | Some e \<Rightarrow> if \<not> out then (OTLP_ERR_NULL, None) else
          (OTLP_OK, Some \<lparr>st_signal = (\<lambda>k. let sg = ex_sig e k in
             (sg_emitted sg, sg_dropped_full sg, sg_dropped_err sg, sg_sent sg, sg_rejected sg)),
            st_http_2xx = ex_http_2xx e, st_http_4xx = ex_http_4xx e, st_http_5xx = ex_http_5xx e,
            st_network_err = ex_network_err e\<rparr>))"

text \<open>The descriptor to poll, of the request in flight; the request's own two queries are arguments.\<close>

definition otlp_exporter_poll_fds ::
  "('r \<Rightarrow> int) \<Rightarrow> ('r \<Rightarrow> int) \<Rightarrow> ('i, 'r) exporter option \<Rightarrow> bool \<Rightarrow> nat \<Rightarrow> status \<times> (int \<times> int) list" where
  "otlp_exporter_poll_fds req_fd req_events e_ptr out cap =
     (case e_ptr of
        None \<Rightarrow> (OTLP_ERR_NULL, [])
      | Some e \<Rightarrow>
          if \<not> out \<and> cap > 0 then (OTLP_ERR_NULL, [])
          else (case ex_in_flight e of
              None \<Rightarrow> (OTLP_OK, [])
            | Some r \<Rightarrow> if cap = 0 then (OTLP_OK, []) else (OTLP_OK, [(req_fd r, req_events r)])))"

text \<open>Draining a signal at the end of the exporter's life: what is handed to \<^verbatim>\<open>free_item\<close>, in order.\<close>

definition drain_signal :: "'i signal_state \<Rightarrow> nat \<Rightarrow> 'i list" where
  "drain_signal sg fuel = fst (pop_upto mpsc_queue_pop fuel (sg_queue sg)) @ sg_pending sg"

end
