(* ===== verification/Exporter_Inv.thy ===== *)
theory Exporter_Inv
  imports Exporter "HOL-Library.Sublist"
begin

text \<open>
  The exporter's accounting: an invariant of the signals and of the request in flight, kept by
  emit, tick, flush and shutdown, and what it says of the items and of the counters.
\<close>

section \<open>Where the items are\<close>

text \<open>
  The invariant of one signal: what the queue accepted, in order, is what has been freed, then
  the batch, then the queue; the counters agree with it. \<open>k\<close> fixes the capacity of the ring.
\<close>

definition sg_inv :: "nat \<Rightarrow> 'i signal_state \<Rightarrow> bool" where
  "sg_inv k sg \<longleftrightarrow>
     (\<exists>xs. mpsc_rep (ring_exp k) (sg_queue sg) (length (sg_accepted sg)) xs \<and>
        sg_accepted sg = sg_freed sg @ sg_pending sg @ xs) \<and>
     length (sg_pending sg) \<le> sg_pending_cap sg \<and> 0 < sg_pending_cap sg \<and>
     (sg_first_set sg \<longrightarrow> sg_pending sg \<noteq> []) \<and>
     sg_emitted sg = word_of_nat (length (sg_accepted sg)) \<and>
     unat (sg_sent sg) + unat (sg_dropped_err sg) \<le> length (sg_freed sg)"

text \<open>
  The invariant of the exporter: its signals, the part of the batch the request in flight
  carries, and that the null transport never has one and counts every item it frees.
\<close>

definition ex_core :: "nat \<Rightarrow> ('i, 'r) exporter \<Rightarrow> bool" where
  "ex_core k e \<longleftrightarrow>
     (\<forall>s. sg_inv k (ex_sig e s)) \<and> ex_attempt e \<le> ex_max_retries e \<and> 0 < ex_batch_size e"

definition ex_exact :: "('i, 'r) exporter \<Rightarrow> bool" where
  "ex_exact e \<longleftrightarrow> (\<forall>s. sg_sent (ex_sig e s) + sg_dropped_err (ex_sig e s) = word_of_nat (length (sg_freed (ex_sig e s))))"

definition ex_inv :: "nat \<Rightarrow> ('i, 'r) exporter \<Rightarrow> bool" where
  "ex_inv k e \<longleftrightarrow>
     ex_core k e \<and>
     (case ex_in_flight e of None \<Rightarrow> True
      | Some r \<Rightarrow> ex_in_flight_count e \<le> length (sg_pending (ex_sig e (ex_in_flight_signal e)))) \<and>
     (ex_null_transport e \<longrightarrow> ex_in_flight e = None \<and> ex_exact e)"

text \<open>What the queue of each signal has accepted.\<close>

definition ex_accepted :: "('i, 'r) exporter \<Rightarrow> signal \<Rightarrow> 'i list" where
  "ex_accepted e s = sg_accepted (ex_sig e s)"

lemma sg_invE:
  assumes "sg_inv k sg"
  obtains xs where "mpsc_rep (ring_exp k) (sg_queue sg) (length (sg_accepted sg)) xs"
    "sg_accepted sg = sg_freed sg @ sg_pending sg @ xs"
  using assms by (auto simp: sg_inv_def)

lemma sg_inv_limit: "sg_inv k sg \<Longrightarrow> length (sg_accepted sg) \<le> TURN_LIMIT"
  by (auto simp: sg_inv_def mpsc_rep_def)

lemma ex_sig_upd [simp]: "ex_sig (upd_sig k f e) = (ex_sig e)(k := f (ex_sig e k))"
  by (simp add: upd_sig_def)

lemma ex_sig_log [simp]: "ex_sig (otlp_exporter_event_log e ev) = ex_sig e"
  by (simp add: otlp_exporter_event_log_def)

lemma upd_sig_other [simp]:
  "ex_batch_size (upd_sig k f e) = ex_batch_size e"
  "ex_max_retries (upd_sig k f e) = ex_max_retries e"
  "ex_shutdown (upd_sig k f e) = ex_shutdown e"
  "ex_in_flight (upd_sig k f e) = ex_in_flight e"
  "ex_in_flight_signal (upd_sig k f e) = ex_in_flight_signal e"
  "ex_in_flight_count (upd_sig k f e) = ex_in_flight_count e"
  "ex_attempt (upd_sig k f e) = ex_attempt e"
  "ex_backoff_armed (upd_sig k f e) = ex_backoff_armed e"
  "ex_null_transport (upd_sig k f e) = ex_null_transport e"
  "ex_posts (upd_sig k f e) = ex_posts e"
  "ex_keepalive (upd_sig k f e) = ex_keepalive e"
  "ex_jitter (upd_sig k f e) = ex_jitter e"
  "ex_backoff_initial_ms (upd_sig k f e) = ex_backoff_initial_ms e"
  "ex_backoff_max_ms (upd_sig k f e) = ex_backoff_max_ms e"
  "ex_backoff_deadline (upd_sig k f e) = ex_backoff_deadline e"
  "ex_flush_timeout_ms (upd_sig k f e) = ex_flush_timeout_ms e"
  "ex_batch_ms (upd_sig k f e) = ex_batch_ms e"
  by (simp_all add: upd_sig_def)

lemma event_log_other [simp]:
  "ex_batch_size (otlp_exporter_event_log e ev) = ex_batch_size e"
  "ex_max_retries (otlp_exporter_event_log e ev) = ex_max_retries e"
  "ex_shutdown (otlp_exporter_event_log e ev) = ex_shutdown e"
  "ex_in_flight (otlp_exporter_event_log e ev) = ex_in_flight e"
  "ex_in_flight_signal (otlp_exporter_event_log e ev) = ex_in_flight_signal e"
  "ex_in_flight_count (otlp_exporter_event_log e ev) = ex_in_flight_count e"
  "ex_attempt (otlp_exporter_event_log e ev) = ex_attempt e"
  "ex_backoff_armed (otlp_exporter_event_log e ev) = ex_backoff_armed e"
  "ex_null_transport (otlp_exporter_event_log e ev) = ex_null_transport e"
  "ex_posts (otlp_exporter_event_log e ev) = ex_posts e"
  "ex_keepalive (otlp_exporter_event_log e ev) = ex_keepalive e"
  "ex_jitter (otlp_exporter_event_log e ev) = ex_jitter e"
  "ex_backoff_initial_ms (otlp_exporter_event_log e ev) = ex_backoff_initial_ms e"
  "ex_backoff_max_ms (otlp_exporter_event_log e ev) = ex_backoff_max_ms e"
  "ex_backoff_deadline (otlp_exporter_event_log e ev) = ex_backoff_deadline e"
  "ex_flush_timeout_ms (otlp_exporter_event_log e ev) = ex_flush_timeout_ms e"
  "ex_batch_ms (otlp_exporter_event_log e ev) = ex_batch_ms e"
  by (simp_all add: otlp_exporter_event_log_def)

subsection \<open>Emit\<close>

lemma emit_move_inv:
  assumes inv: "ex_inv k e" and lim: "length (ex_accepted e s) < TURN_LIMIT"
    and run: "emit_move_common (Some e) s (Some x) = r"
  shows "\<exists>st e'. r = Some (st, Some e') \<and> ex_inv k e' \<and>
    ex_accepted e' = (ex_accepted e)(s := ex_accepted e s @ (if st = OTLP_OK then [x] else []))"
proof -
  let ?sg = "ex_sig e s"
  obtain xs where rep: "mpsc_rep (ring_exp k) (sg_queue ?sg) (length (sg_accepted ?sg)) xs"
      and acc: "sg_accepted ?sg = sg_freed ?sg @ sg_pending ?sg @ xs"
    using inv sg_invE [of k ?sg] unfolding ex_inv_def ex_core_def by blast
  have lt: "length (sg_accepted ?sg) < TURN_LIMIT" using lim by (simp add: ex_accepted_def)
  consider (down) "ex_shutdown e" | (room) "\<not> ex_shutdown e" "length xs < 2 ^ ring_exp k"
    | (full) "\<not> ex_shutdown e" "length xs = 2 ^ ring_exp k"
    using ring.rep_cap [OF rep] by linarith
  then show ?thesis
  proof cases
    case down
    then show ?thesis using inv run by (auto simp: emit_move_common_def fun_eq_iff)
  next
    case room
    obtain q where q: "mpsc_queue_push (sg_queue ?sg) x = Some (OTLP_OK, q)"
        "mpsc_rep (ring_exp k) q (Suc (length (sg_accepted ?sg))) (xs @ [x])"
      using ring.push_room [OF rep lt room(2)] by blast
    let ?e' = "upd_sig s (\<lambda>sg. sg\<lparr>sg_queue := q, sg_emitted := sg_emitted sg + 1, sg_accepted := sg_accepted sg @ [x]\<rparr>) e"
    have r: "r = Some (OTLP_OK, Some ?e')"
      using run q(1) room(1) by (simp add: emit_move_common_def upd_sig_def Let_def)
    have "sg_inv k (ex_sig ?e' s)"
      using inv q(2) acc by (auto simp: ex_inv_def ex_core_def sg_inv_def)
    then have "ex_inv k ?e'" using inv by (auto simp: ex_inv_def ex_core_def ex_exact_def split: option.splits)
    moreover have "ex_accepted ?e' = (ex_accepted e)(s := ex_accepted e s @ [x])"
      by (rule ext) (simp add: ex_accepted_def)
    ultimately show ?thesis using r by simp
  next
    case full
    have q: "mpsc_queue_push (sg_queue ?sg) x = Some (OTLP_ERR_BUFFER_FULL, sg_queue ?sg)"
      by (rule ring.push_full [OF rep lt full(2)])
    let ?e' = "otlp_exporter_event_log (upd_sig s (\<lambda>sg. sg\<lparr>sg_dropped_full := sg_dropped_full sg + 1\<rparr>) e)
      ((evt_init OTLP_EVT_QUEUE_FULL OTLP_LOG_WARN s)\<lparr>evt_count := 1, evt_drop_reason := OTLP_DROP_QUEUE_FULL\<rparr>)"
    have r: "r = Some (OTLP_ERR_BUFFER_FULL, Some ?e')"
      using run q full(1) by (simp add: emit_move_common_def upd_sig_def Let_def)
    have "ex_inv k ?e'" using inv by (auto simp: ex_inv_def ex_core_def ex_exact_def sg_inv_def split: option.splits)
    moreover have "ex_accepted ?e' = (ex_accepted e)(s := ex_accepted e s @ [])"
      by (rule ext) (simp add: ex_accepted_def)
    ultimately show ?thesis using r by simp
  qed
qed

subsection \<open>Outcomes\<close>

text \<open>
  Settling a request frees the whole batch of its signal, or nothing, and adds at most the
  request's count to the counters.
\<close>

lemma clear_sig:
  "ex_sig (clear_in_flight_batch e k) = (ex_sig e)(k := (ex_sig e k)\<lparr>sg_freed := sg_freed (ex_sig e k) @ sg_pending (ex_sig e k),
     sg_pending := [], sg_first_set := False\<rparr>)"
  "ex_attempt (clear_in_flight_batch e k) = 0" "ex_max_retries (clear_in_flight_batch e k) = ex_max_retries e"
  by (simp_all add: clear_in_flight_batch_def)

lemma unat_add_le: "unat (a + b :: u64) \<le> unat a + unat b"
  by (simp add: unat_word_ariths)

lemma sg_inv_clear:
  assumes "sg_inv k sg" and "unat count \<le> length (sg_pending sg)"
  shows "sg_inv k (sg\<lparr>sg_sent := sg_sent sg + count, sg_rejected := r, sg_freed := sg_freed sg @ sg_pending sg,
      sg_pending := [], sg_first_set := False\<rparr>)"
    and "sg_inv k (sg\<lparr>sg_dropped_err := sg_dropped_err sg + count, sg_freed := sg_freed sg @ sg_pending sg,
      sg_pending := [], sg_first_set := False\<rparr>)"
  using assms unat_add_le [of "sg_sent sg" count] unat_add_le [of "sg_dropped_err sg" count]
  by (auto simp: sg_inv_def)

text \<open>What every step keeps: the configuration and the record of what was accepted.\<close>

definition same_frame :: "('i, 'r) exporter \<Rightarrow> ('i, 'r) exporter \<Rightarrow> bool" where
  "same_frame e e' \<longleftrightarrow> ex_max_retries e' = ex_max_retries e \<and> ex_batch_size e' = ex_batch_size e \<and> ex_accepted e' = ex_accepted e \<and>
     ex_null_transport e' = ex_null_transport e \<and> ex_shutdown e' = ex_shutdown e \<and>
     (\<forall>s. sg_pending_cap (ex_sig e' s) = sg_pending_cap (ex_sig e s))"

lemma same_frame_refl [simp]: "same_frame e e"
  by (simp add: same_frame_def)

lemma same_frame_trans: "same_frame e e1 \<Longrightarrow> same_frame e1 e2 \<Longrightarrow> same_frame e e2"
  by (simp add: same_frame_def)

lemma report_partial_success_effect:
  "\<exists>r. ex_sig (otlp_exporter_report_partial_success e k c n body) =
        (ex_sig e)(k := (ex_sig e k)\<lparr>sg_rejected := r\<rparr>) \<and>
     same_frame e (otlp_exporter_report_partial_success e k c n body) \<and>
     ex_in_flight (otlp_exporter_report_partial_success e k c n body) = ex_in_flight e \<and>
     ex_posts (otlp_exporter_report_partial_success e k c n body) = ex_posts e"
proof -
  obtain b out where d: "otlp_exporter_otel_decode_partial_success (Some body) (length body) ps_none = (b, out)"
    by (cases "otlp_exporter_otel_decode_partial_success (Some body) (length body) ps_none")
  have same: "ex_sig e = (ex_sig e)(k := (ex_sig e k)\<lparr>sg_rejected := sg_rejected (ex_sig e k)\<rparr>)" by simp
  show ?thesis
  proof (cases "b \<and> sint (ps_rejected out) > 0 \<and> c")
    case True
    then show ?thesis
      by (intro exI [of _ "sg_rejected (ex_sig e k) + ps_rejected out"])
        (simp add: otlp_exporter_report_partial_success_def d Let_def same_frame_def ex_accepted_def fun_eq_iff)
  next
    case False
    then show ?thesis
      by (intro exI [of _ "sg_rejected (ex_sig e k)"])
        (auto simp: otlp_exporter_report_partial_success_def d Let_def same_frame_def ex_accepted_def fun_eq_iff
          split: bool.splits)
  qed
qed

lemma arm_backoff_effect:
  assumes "arm_backoff E e k st fl w = (e', w')"
  shows "ex_sig e' = ex_sig e \<and> same_frame e e' \<and> ex_attempt e' = ex_attempt e \<and>
    ex_in_flight e' = ex_in_flight e \<and> ex_in_flight_signal e' = ex_in_flight_signal e \<and>
    ex_in_flight_count e' = ex_in_flight_count e \<and> ex_posts e' = ex_posts e \<and> ex_backoff_armed e'"
  using assms
  by (auto simp: arm_backoff_def same_frame_def ex_accepted_def fun_eq_iff split: prod.splits)

text \<open>
  The two shapes an outcome can have: the batch kept with the backoff armed, or the batch freed
  and counted as sent or as dropped.
\<close>

lemma record_outcome_cases:
  assumes run: "record_outcome E e ho w = (e', w')" and att: "ex_attempt e \<le> ex_max_retries e"
  defines "k \<equiv> ex_in_flight_signal e" and "count \<equiv> (word_of_nat (ex_in_flight_count e) :: u64)"
  shows "same_frame e e' \<and> ex_attempt e' \<le> ex_max_retries e' \<and> ex_in_flight e' = ex_in_flight e \<and> ex_posts e' = ex_posts e \<and>
    (ex_sig e' = ex_sig e \<and> ex_backoff_armed e' \<and> ex_attempt e' = ex_attempt e + 1 \<and>
        ex_in_flight_signal e' = ex_in_flight_signal e \<and> ex_in_flight_count e' = ex_in_flight_count e
     \<or> ex_attempt e' = 0 \<and> \<not> ex_backoff_armed e' \<and>
       (\<exists>r. ex_sig e' = (ex_sig e)(k := (ex_sig e k)\<lparr>sg_sent := sg_sent (ex_sig e k) + count, sg_rejected := r,
          sg_freed := sg_freed (ex_sig e k) @ sg_pending (ex_sig e k), sg_pending := [], sg_first_set := False\<rparr>))
     \<or> ex_attempt e' = 0 \<and> \<not> ex_backoff_armed e' \<and>
       ex_sig e' = (ex_sig e)(k := (ex_sig e k)\<lparr>sg_dropped_err := sg_dropped_err (ex_sig e k) + count,
          sg_freed := sg_freed (ex_sig e k) @ sg_pending (ex_sig e k), sg_pending := [], sg_first_set := False\<rparr>))"
proof -
  have drop: ?thesis if "e' = drop_batch e1 k count ev" "ex_sig e1 = ex_sig e" "same_frame e e1"
      "ex_in_flight e1 = ex_in_flight e" "ex_posts e1 = ex_posts e" for e1 ev
    using that by (auto simp: drop_batch_def clear_in_flight_batch_def same_frame_def ex_accepted_def fun_eq_iff)
  have arm: ?thesis if "arm_backoff E e1 k st fl w = (e', w')" "ex_sig e1 = ex_sig e" "same_frame e e1"
      "ex_in_flight e1 = ex_in_flight e" "ex_posts e1 = ex_posts e" "ex_attempt e1 = ex_attempt e + 1"
      "ex_in_flight_signal e1 = ex_in_flight_signal e" "ex_in_flight_count e1 = ex_in_flight_count e"
      "\<not> ex_attempt e1 > ex_max_retries e1" for e1 st fl
    using arm_backoff_effect [OF that(1)] that(2-) by (auto simp: same_frame_def)
  consider (net) "ho_status ho = 0" | (ok) "ho_status ho \<ge> 200 \<and> ho_status ho < 300"
    | (busy) "ho_status ho \<noteq> 0" "\<not> (ho_status ho \<ge> 200 \<and> ho_status ho < 300)"
        "ho_status ho = 429 \<or> (ho_status ho \<ge> 500 \<and> ho_status ho < 600)"
    | (perm) "ho_status ho \<noteq> 0" "\<not> (ho_status ho \<ge> 200 \<and> ho_status ho < 300)"
        "\<not> (ho_status ho = 429 \<or> (ho_status ho \<ge> 500 \<and> ho_status ho < 600))" by blast
  then show ?thesis
  proof cases
    case net
    let ?e1 = "e\<lparr>ex_network_err := ex_network_err e + 1, ex_attempt := ex_attempt e + 1\<rparr>"
    have f: "same_frame e ?e1" by (simp add: same_frame_def ex_accepted_def fun_eq_iff)
    show ?thesis
    proof (cases "ex_attempt ?e1 > ex_max_retries ?e1")
      case True
      then show ?thesis using run net by (intro drop [OF _ _ f]) (auto simp: record_outcome_def Let_def k_def count_def)
    next
      case False
      then show ?thesis using run net by (intro arm [OF _ _ f]) (auto simp: record_outcome_def Let_def k_def)
    qed
  next
    case busy
    define e1 where "e1 = (if ho_status ho = 429 then e\<lparr>ex_http_4xx := ex_http_4xx e + 1\<rparr>
      else e\<lparr>ex_http_5xx := ex_http_5xx e + 1\<rparr>)"
    let ?e2 = "e1\<lparr>ex_attempt := ex_attempt e1 + 1\<rparr>"
    have f: "same_frame e ?e2" by (simp add: e1_def same_frame_def ex_accepted_def fun_eq_iff)
    have run': "(e', w') = (if ex_attempt ?e2 > ex_max_retries ?e2 then
        (drop_batch ?e2 k count ((evt_init OTLP_EVT_ITEMS_DROPPED OTLP_LOG_ERROR k)\<lparr>evt_count := count,
           evt_http_status := ho_status ho, evt_max_retries := ex_max_retries ?e2,
           evt_drop_reason := OTLP_DROP_MAX_RETRIES\<rparr>), w)
        else arm_backoff E ?e2 k (ho_status ho) (ho_retry_after_ms ho) w)"
      using run busy unfolding record_outcome_def Let_def e1_def k_def count_def by argo
    show ?thesis
    proof (cases "ex_attempt ?e2 > ex_max_retries ?e2")
      case True
      then show ?thesis using run' by (intro drop [OF _ _ f]) (auto simp: e1_def)
    next
      case False
      then show ?thesis using run' by (intro arm [OF _ _ f]) (auto simp: e1_def)
    qed
  next
    case perm
    let ?e1 = "e\<lparr>ex_http_4xx := ex_http_4xx e + 1\<rparr>"
    have f: "same_frame e ?e1" by (simp add: same_frame_def ex_accepted_def fun_eq_iff)
    have "e' = drop_batch ?e1 k count ((evt_init OTLP_EVT_ITEMS_DROPPED OTLP_LOG_ERROR k)\<lparr>evt_count := count,
        evt_http_status := ho_status ho, evt_drop_reason := OTLP_DROP_HTTP_STATUS\<rparr>)"
      using run perm unfolding record_outcome_def Let_def k_def count_def by (auto split: if_splits)
    then show ?thesis by (rule drop [OF _ _ f]) simp_all
  next
    case ok
    let ?e1 = "upd_sig k (\<lambda>sg. sg\<lparr>sg_sent := sg_sent sg + count\<rparr>) (e\<lparr>ex_http_2xx := ex_http_2xx e + 1\<rparr>)"
    let ?e2 = "otlp_exporter_event_log ?e1 ((evt_init OTLP_EVT_BATCH_SENT OTLP_LOG_DEBUG k)\<lparr>evt_count := count,
        evt_http_status := ho_status ho\<rparr>)"
    obtain e3 r where e': "e' = clear_in_flight_batch e3 k" and
      e3: "ex_sig e3 = (ex_sig ?e2)(k := (ex_sig ?e2 k)\<lparr>sg_rejected := r\<rparr>)" "same_frame ?e2 e3"
        "ex_in_flight e3 = ex_in_flight ?e2" "ex_posts e3 = ex_posts ?e2"
    proof (cases "\<exists>body. ho_body ho = Some body \<and> length body > 0")
      case True
      then obtain body where b: "ho_body ho = Some body" "length body > 0" by blast
      let ?e3 = "otlp_exporter_report_partial_success ?e2 k True count body"
      obtain r where "ex_sig ?e3 = (ex_sig ?e2)(k := (ex_sig ?e2 k)\<lparr>sg_rejected := r\<rparr>)" "same_frame ?e2 ?e3"
          "ex_in_flight ?e3 = ex_in_flight ?e2" "ex_posts ?e3 = ex_posts ?e2"
        using report_partial_success_effect by blast
      then show ?thesis using that [of ?e3 r] run ok b by (auto simp: record_outcome_def Let_def k_def count_def)
    next
      case False
      then have "e' = clear_in_flight_batch ?e2 k"
        using run ok by (auto simp: record_outcome_def Let_def k_def count_def split: option.splits)
      then show ?thesis using that [of ?e2 "sg_rejected (ex_sig ?e2 k)"] by simp
    qed
    have "same_frame e e'" using e3 by (simp add: e' same_frame_def clear_in_flight_batch_def ex_accepted_def fun_eq_iff)
    then show ?thesis using e3 by (auto simp: e' clear_in_flight_batch_def fun_eq_iff)
  qed
qed

subsection \<open>The phases of a round\<close>

text \<open>Draining moves items from the head of the queue to the end of the batch.\<close>

definition drained :: "'i signal_state \<Rightarrow> 'i signal_state \<Rightarrow> bool" where
  "drained sg sg' \<longleftrightarrow> sg_accepted sg' = sg_accepted sg \<and> sg_freed sg' = sg_freed sg \<and>
     sg_pending_cap sg' = sg_pending_cap sg \<and> sg_sent sg' = sg_sent sg \<and>
     sg_dropped_err sg' = sg_dropped_err sg \<and> prefix (sg_pending sg) (sg_pending sg')"

lemma drained_trans: "drained sg sg1 \<Longrightarrow> drained sg1 sg2 \<Longrightarrow> drained sg sg2"
  unfolding drained_def by (auto intro: prefix_order.trans)

lemma drained_length: "drained sg sg' \<Longrightarrow> length (sg_pending sg) \<le> length (sg_pending sg')"
  by (auto simp: drained_def prefix_length_le)

lemma drain_one:
  assumes inv: "sg_inv k sg" and room: "length (sg_pending sg) < sg_pending_cap sg"
  shows "mpsc_queue_pop (sg_queue sg) = (Some x, q) \<Longrightarrow>
      sg_inv k (sg\<lparr>sg_queue := q, sg_pending := sg_pending sg @ [x]\<rparr>)"
    and "mpsc_queue_pop (sg_queue sg) = (None, q) \<Longrightarrow> sg\<lparr>sg_queue := q\<rparr> = sg"
proof -
  obtain xs where rep: "mpsc_rep (ring_exp k) (sg_queue sg) (length (sg_accepted sg)) xs"
      and acc: "sg_accepted sg = sg_freed sg @ sg_pending sg @ xs"
    using sg_invE [OF inv] .
  { assume pop: "mpsc_queue_pop (sg_queue sg) = (Some x, q)"
    then obtain y ys where xs: "xs = y # ys" using ring.pop_empty rep by (cases xs) fastforce+
    with pop ring.pop_head [of k "sg_queue sg" _ y ys] rep
    have "y = x" "mpsc_rep (ring_exp k) q (length (sg_accepted sg)) ys" by auto
    then show "sg_inv k (sg\<lparr>sg_queue := q, sg_pending := sg_pending sg @ [x]\<rparr>)"
      using inv room acc by (simp add: sg_inv_def xs) }
  { assume pop: "mpsc_queue_pop (sg_queue sg) = (None, q)"
    then have "xs = []" using ring.pop_head rep by (cases xs) fastforce+
    with pop ring.pop_empty rep have "q = sg_queue sg" by fastforce
    then show "sg\<lparr>sg_queue := q\<rparr> = sg" by simp }
qed

lemma drain_queue_inv:
  "sg_inv k sg \<Longrightarrow> drain_queue E sg work w = (sg', work', w') \<Longrightarrow> sg_inv k sg' \<and> drained sg sg'"
proof (induction E sg work w rule: drain_queue.induct)
  case (1 E sg work w)
  note run = 1(4)[unfolded drain_queue.simps [of E sg work w]]
  show ?case
  proof (cases "length (sg_pending sg) < sg_pending_cap sg")
    case False
    then show ?thesis using run 1(3) by (simp add: drained_def)
  next
    case room: True
    obtain item q where pop: "mpsc_queue_pop (sg_queue sg) = (item, q)" by fastforce
    show ?thesis
    proof (cases item)
      case None
      then show ?thesis using run room pop drain_one(2) [OF 1(3) room] 1(3) by (simp add: drained_def)
    next
      case (Some x)
      let ?sg1 = "sg\<lparr>sg_queue := q, sg_pending := sg_pending sg @ [x]\<rparr>"
      have i1: "sg_inv k ?sg1" and d1: "drained sg ?sg1"
        using drain_one(1) [OF 1(3) room] pop Some by (simp_all add: drained_def)
      show ?thesis
      proof (cases "sg_first_set ?sg1")
        case True
        have "drain_queue E ?sg1 True w = (sg', work', w')"
          using run room pop Some True by simp
        from 1(1) [OF room pop [symmetric] Some refl True i1 this] d1
        show ?thesis by (blast intro: drained_trans)
      next
        case False
        obtain now w1 where now: "env_now E w = (now, w1)" by fastforce
        let ?sg2 = "?sg1\<lparr>sg_first_mono := now, sg_first_set := True\<rparr>"
        have i2: "sg_inv k ?sg2" using i1 by (simp add: sg_inv_def)
        have d2: "drained sg ?sg2" using d1 by (simp add: drained_def)
        have "drain_queue E ?sg2 True w1 = (sg', work', w')"
          using run room pop Some False now by simp
        from 1(2) [OF room pop [symmetric] Some refl False now [symmetric] i2 this] d2
        show ?thesis by (blast intro: drained_trans)
      qed
    qed
  qed
qed

lemma upd_sig_ex_inv:
  assumes inv: "ex_inv k e" and sg: "sg_inv k sg" "drained (ex_sig e s) sg"
  shows "ex_inv k (upd_sig s (\<lambda>_. sg) e)" and "same_frame e (upd_sig s (\<lambda>_. sg) e)"
proof -
  show "same_frame e (upd_sig s (\<lambda>_. sg) e)"
    using sg(2) by (auto simp: same_frame_def drained_def ex_accepted_def)
  show "ex_inv k (upd_sig s (\<lambda>_. sg) e)"
    using inv sg drained_length [OF sg(2)]
    by (auto simp: ex_inv_def ex_core_def ex_exact_def drained_def split: option.splits)
qed

lemma drain_signals_inv:
  "ex_inv k e \<Longrightarrow> drain_signals E ks e work w = (e', work', w') \<Longrightarrow> ex_inv k e' \<and> same_frame e e'"
proof (induction E ks e work w rule: drain_signals.induct)
  case (2 E s ks e work w)
  obtain sg work1 w1 where d: "drain_queue E (ex_sig e s) work w = (sg, work1, w1)"
    by (rule prod_cases3)
  have "sg_inv k (ex_sig e s)" using 2(2) by (simp add: ex_inv_def ex_core_def ex_exact_def)
  note sg = drain_queue_inv [OF this d]
  have "ex_inv k (upd_sig s (\<lambda>_. sg) e)" "same_frame e (upd_sig s (\<lambda>_. sg) e)"
    using upd_sig_ex_inv 2(2) sg by blast+
  with 2(1) [OF d [symmetric] refl] 2(3) d show ?case by (auto intro: same_frame_trans)
qed simp

lemma record_outcome_core:
  assumes core: "ex_core k e" and run: "record_outcome E e ho w = (e', w')"
    and n: "ex_in_flight_count e \<le> length (sg_pending (ex_sig e (ex_in_flight_signal e)))"
  shows "ex_core k e' \<and> same_frame e e' \<and> ex_in_flight e' = ex_in_flight e"
proof -
  have att: "ex_attempt e \<le> ex_max_retries e" using core by (simp add: ex_core_def)
  have c: "unat (word_of_nat (ex_in_flight_count e) :: u64) \<le> length (sg_pending (ex_sig e (ex_in_flight_signal e)))"
    using unat_word_of_nat_le [of "ex_in_flight_count e"] n by (rule order_trans)
  have sg: "sg_inv k (ex_sig e (ex_in_flight_signal e))" using core by (simp add: ex_core_def)
  note eff = record_outcome_cases [OF run att]
  have "\<forall>s. sg_inv k (ex_sig e' s)"
    using eff core sg_inv_clear [OF sg c] by (fastforce simp: ex_core_def)
  moreover from eff have "same_frame e e'" "ex_attempt e' \<le> ex_max_retries e'" "ex_in_flight e' = ex_in_flight e" by blast+
  ultimately show ?thesis using core by (simp add: ex_core_def same_frame_def)
qed

lemma null_transport_post_inv:
  "ex_inv k e \<Longrightarrow> ex_null_transport e \<Longrightarrow> null_transport_post E ks e w = Some (e', w') \<Longrightarrow>
     ex_inv k e' \<and> same_frame e e'"
proof (induction E ks e w rule: null_transport_post.induct)
  case (2 E s ks e w)
  show ?case
  proof (cases "length (sg_pending (ex_sig e s)) > 0")
    case False
    then show ?thesis using 2 by simp
  next
    case True
    let ?e1 = "e\<lparr>ex_in_flight_signal := s, ex_in_flight_count := length (sg_pending (ex_sig e s))\<rparr>"
    obtain http w1 where run: "record_outcome E ?e1 \<lparr>ho_status = http, ho_retry_after_ms = 0, ho_body = None\<rparr> w1 = (e', w')"
      using 2(4) True by (auto split: prod.splits)
    have core: "ex_core k ?e1" and f: "same_frame e ?e1"
      using 2(2) by (simp_all add: ex_inv_def ex_core_def ex_exact_def same_frame_def ex_accepted_def fun_eq_iff)
    have "ex_attempt ?e1 \<le> ex_max_retries ?e1" using core by (simp add: ex_core_def)
    from record_outcome_cases [OF run this] have "ex_exact e'"
      using 2(2,3) by (fastforce simp: ex_inv_def ex_exact_def)
    with record_outcome_core [OF core run] 2(2,3) f show ?thesis
      by (auto simp: ex_inv_def same_frame_def)
  qed
qed simp

lemma null_transport_idle:
  "null_transport_post E ks e w = None \<Longrightarrow> s \<in> set ks \<Longrightarrow> sg_pending (ex_sig e s) = []"
  by (induction E ks e w rule: null_transport_post.induct) (auto split: if_splits prod.splits)

lemma set_SIGNALS [simp]: "set SIGNALS = UNIV"
proof -
  have "s \<in> set SIGNALS" for s by (cases s) (simp_all add: SIGNALS_def)
  then show ?thesis by blast
qed

text \<open>A request carries the whole batch at the moment it is started.\<close>

lemma try_start_post_inv:
  assumes inv: "ex_inv k e" and run: "try_start_post E e s w = (st, e', w')"
    and null: "ex_null_transport e \<longrightarrow> sg_pending (ex_sig e s) = []"
  shows "ex_inv k e' \<and> same_frame e e' \<and> (\<forall>s. sg_pending (ex_sig e' s) = sg_pending (ex_sig e s))"
proof (cases "ex_in_flight e \<noteq> None \<or> length (sg_pending (ex_sig e s)) = 0")
  case True
  then show ?thesis using run inv by (auto simp: try_start_post_def)
next
  case False
  then have nn: "\<not> ex_null_transport e" using null by auto
  obtain st1 req w1 where b: "env_build E s (sg_pending (ex_sig e s)) (ex_keepalive e) w = (st1, req, w1)"
    by (rule prod_cases3)
  show ?thesis
  proof (cases "st1 = OTLP_OK")
    case False
    then have e': "e' = e\<lparr>ex_keepalive := False\<rparr>"
      using run b \<open>\<not> (ex_in_flight e \<noteq> None \<or> _)\<close> by (auto simp: try_start_post_def)
    show ?thesis using inv unfolding e'
      by (simp add: ex_inv_def ex_core_def ex_exact_def same_frame_def ex_accepted_def fun_eq_iff split: option.splits)
  next
    case True
    then have e': "e' = (upd_sig s (\<lambda>sg. sg\<lparr>sg_first_set := False\<rparr>) e)\<lparr>ex_in_flight := req, ex_keepalive := False,
             ex_in_flight_signal := s, ex_in_flight_count := length (sg_pending (ex_sig e s)),
             ex_posts := ex_posts e @ [(s, sg_pending (ex_sig e s))]\<rparr>"
      using run b \<open>\<not> (ex_in_flight e \<noteq> None \<or> _)\<close> by (auto simp: try_start_post_def Let_def)
    show ?thesis using inv nn unfolding e'
      by (auto simp: ex_inv_def ex_core_def ex_exact_def sg_inv_def same_frame_def ex_accepted_def fun_eq_iff split: option.splits)
  qed
qed

lemma start_posts_inv:
  "ex_inv k e \<Longrightarrow> (ex_null_transport e \<longrightarrow> (\<forall>s. sg_pending (ex_sig e s) = [])) \<Longrightarrow>
     start_posts E sd now ks e work w = (e', work', w') \<Longrightarrow> ex_inv k e' \<and> same_frame e e'"
proof (induction E sd now ks e work w rule: start_posts.induct)
  case (2 E sd now s ks e work w)
  let ?ready = "length (sg_pending (ex_sig e s)) \<ge> ex_batch_size e
          \<or> (sg_first_set (ex_sig e s) \<and> now - sg_first_mono (ex_sig e s) \<ge> ucast (ex_batch_ms e))
          \<or> (sd \<and> length (sg_pending (ex_sig e s)) > 0)"
  show ?case
  proof (cases "ex_in_flight e \<noteq> None \<or> ex_backoff_armed e")
    case True
    then show ?thesis using 2(3,5) by simp
  next
    case go: False
    show ?thesis
    proof (cases ?ready)
      case False
      from go False 2(5) have "start_posts E sd now ks e work w = (e', work', w')"
        by (simp only: start_posts.simps Let_def if_False)
      from 2(2) [OF go refl False 2(3,4) this] show ?thesis .
    next
      case True
      obtain st e1 w1 where t: "try_start_post E e s w = (st, e1, w1)" by (rule prod_cases3)
      from try_start_post_inv [OF 2(3) t] 2(4)
      have i: "ex_inv k e1" "same_frame e e1" "\<forall>s. sg_pending (ex_sig e1 s) = sg_pending (ex_sig e s)" by blast+
      from go True 2(5) t have r: "start_posts E sd now ks e1 (if st = OTLP_OK then True else work) w1 = (e', work', w')"
        by (simp only: start_posts.simps Let_def if_False if_True prod.case)
      have "ex_null_transport e1 \<longrightarrow> (\<forall>s. sg_pending (ex_sig e1 s) = [])"
        using 2(4) i(2,3) by (simp add: same_frame_def)
      from 2(1) [OF go refl True t [symmetric] refl i(1) this r] i(2) show ?thesis
        by (blast intro: same_frame_trans)
    qed
  qed
qed simp

lemma step_in_flight_inv:
  assumes inv: "ex_inv k e" and run: "step_in_flight E e work w = (e', work', w')"
  shows "ex_inv k e' \<and> same_frame e e'"
proof (cases "ex_in_flight e")
  case None
  then show ?thesis using run inv by (simp add: step_in_flight_def)
next
  case (Some r0)
  obtain r w1 where st: "env_step E r0 w = (r, w1)" by fastforce
  let ?e1 = "e\<lparr>ex_in_flight := Some r\<rparr>"
  show ?thesis
  proof (cases "env_state E r = OTLP_HTTP_REQ_DONE \<or> env_state E r = OTLP_HTTP_REQ_FAILED")
    case False
    then have "e' = ?e1" using run Some st by (auto simp: step_in_flight_def)
    then show ?thesis using inv Some by (auto simp: ex_inv_def ex_core_def ex_exact_def same_frame_def ex_accepted_def fun_eq_iff)
  next
    case True
    define e2 where "e2 = (if env_state E r = OTLP_HTTP_REQ_DONE then ?e1\<lparr>ex_keepalive := env_detach E r\<rparr> else ?e1)"
    define ho where "ho = (if env_state E r = OTLP_HTTP_REQ_DONE
      then \<lparr>ho_status = env_http_status E r, ho_retry_after_ms = env_retry_after E r, ho_body = env_body E r\<rparr>
      else \<lparr>ho_status = 0, ho_retry_after_ms = 0, ho_body = None\<rparr>)"
    obtain e3 w2 where ro: "record_outcome E e2 ho w1 = (e3, w2)" by fastforce
    let ?e4 = "e3\<lparr>ex_in_flight := None, ex_in_flight_count := 0\<rparr>"
    have e': "e' = ?e4 \<or> e' = ?e4\<lparr>ex_keepalive := False\<rparr>"
      using run Some st True ro by (auto simp: step_in_flight_def Let_def e2_def ho_def split: if_splits)
    have core: "ex_core k e2" and f: "same_frame e e2"
      and n: "ex_in_flight_count e2 \<le> length (sg_pending (ex_sig e2 (ex_in_flight_signal e2)))"
      using inv Some by (simp_all add: e2_def ex_inv_def ex_core_def same_frame_def ex_accepted_def fun_eq_iff)
    from record_outcome_core [OF core ro n] f
    have "ex_core k e3" "same_frame e e3" by (blast intro: same_frame_trans)+
    moreover have "\<not> ex_null_transport e" using inv Some by (auto simp: ex_inv_def)
    ultimately show ?thesis using e'
      by (auto simp: ex_inv_def ex_core_def ex_exact_def same_frame_def ex_accepted_def fun_eq_iff)
  qed
qed

lemma backoff_retry_inv:
  assumes inv: "ex_inv k e" and run: "backoff_retry E e work w = (e', work', w')"
  shows "ex_inv k e' \<and> same_frame e e'"
proof (cases "ex_backoff_armed e \<and> ex_in_flight e = None")
  case False
  then have "e' = e" using run unfolding backoff_retry_def by (simp only: if_False prod.inject)
  then show ?thesis using inv by simp
next
  case True
  obtain now w1 where now: "env_now E w = (now, w1)" by fastforce
  let ?e1 = "e\<lparr>ex_backoff_armed := False\<rparr>"
  have i1: "ex_inv k ?e1" and f1: "same_frame e ?e1"
    using inv True by (simp_all add: ex_inv_def ex_core_def ex_exact_def same_frame_def ex_accepted_def fun_eq_iff)
  obtain st e2 w2 where t: "try_start_post E ?e1 (ex_in_flight_signal ?e1) w1 = (st, e2, w2)"
    by (rule prod_cases3)
  have e': "e' = (if now \<ge> ex_backoff_deadline e then if \<not> ex_null_transport ?e1 then e2 else ?e1 else e)"
    using run unfolding backoff_retry_def Let_def now t
    by (simp only: True if_True simp_thms now prod.case t split: if_splits) (simp_all only: prod.case prod.inject simp_thms)
  have "ex_inv k e2 \<and> same_frame ?e1 e2" if "\<not> ex_null_transport e"
    using try_start_post_inv [OF i1 t] that by simp
  with inv i1 f1 show ?thesis unfolding e' by (auto intro: same_frame_trans)
qed

lemma tick_round_inv:
  assumes inv: "ex_inv k e" and run: "tick_round E e w = (e', work', w')"
  shows "ex_inv k e' \<and> same_frame e e'"
proof -
  obtain e1 work1 w1 where d: "drain_signals E SIGNALS e False w = (e1, work1, w1)" by (rule prod_cases3)
  from drain_signals_inv [OF inv d] have i1: "ex_inv k e1" "same_frame e e1" by blast+
  define nt where "nt = (if ex_null_transport e1 \<and> \<not> ex_backoff_armed e1
    then null_transport_post E SIGNALS e1 w1 else None)"
  show ?thesis
  proof (cases nt)
    case (Some p)
    then obtain w2 where n: "ex_null_transport e1" "null_transport_post E SIGNALS e1 w1 = Some (e', w2)"
      using run d by (cases p) (auto simp: tick_round_def nt_def split: if_splits)
    from null_transport_post_inv [OF i1(1) n] i1(2) show ?thesis by (blast intro: same_frame_trans)
  next
    case None
    obtain e3 work3 w3 where s: "(if ex_in_flight e1 = None \<and> \<not> ex_backoff_armed e1
        then (case env_now E w1 of (now_ms, w2) \<Rightarrow> start_posts E (ex_shutdown e1) now_ms SIGNALS e1 work1 w2)
        else (e1, work1, w1)) = (e3, work3, w3)" by (rule prod_cases3)
    obtain e4 work4 w4 where st: "step_in_flight E e3 work3 w3 = (e4, work4, w4)" by (rule prod_cases3)
    obtain e5 work5 w5 where b: "backoff_retry E e4 work4 w4 = (e5, work5, w5)" by (rule prod_cases3)
    have e': "e' = e5"
      using run None d s st b by (simp add: tick_round_def nt_def [symmetric])
    have i3: "ex_inv k e3 \<and> same_frame e1 e3"
    proof (cases "ex_in_flight e1 = None \<and> \<not> ex_backoff_armed e1")
      case False
      then show ?thesis using s i1 by (auto split: if_splits)
    next
      case True
      then obtain now w2 where "start_posts E (ex_shutdown e1) now SIGNALS e1 work1 w2 = (e3, work3, w3)"
        using s by (auto split: prod.splits)
      moreover have "ex_null_transport e1 \<longrightarrow> (\<forall>s. sg_pending (ex_sig e1 s) = [])"
        using None True null_transport_idle [of E SIGNALS e1 w1] by (auto simp: nt_def)
      ultimately show ?thesis by - (rule start_posts_inv [OF i1(1)])
    qed
    from step_in_flight_inv [OF _ st] i3 have i4: "ex_inv k e4 \<and> same_frame e3 e4" by blast
    from backoff_retry_inv [OF _ b] i4 have "ex_inv k e5 \<and> same_frame e4 e5" by blast
    with i1 i3 i4 e' show ?thesis by (blast intro: same_frame_trans)
  qed
qed

subsection \<open>Whole calls\<close>

lemma tick_loop_inv:
  "ex_inv k e \<Longrightarrow> tick_loop fuel E dl e w = Some (e', w') \<Longrightarrow> ex_inv k e' \<and> same_frame e e'"
proof (induction fuel E dl e w rule: tick_loop.induct)
  case (2 fuel E dl e w)
  obtain e1 work w1 where r: "tick_round E e w = (e1, work, w1)" by (rule prod_cases3)
  from tick_round_inv [OF 2(2) r] have i: "ex_inv k e1" "same_frame e e1" by blast+
  obtain now w2 where now: "env_now E w1 = (now, w2)" by fastforce
  show ?case
  proof (cases "work \<and> now < dl")
    case True
    with 2(3) r now have "tick_loop fuel E dl e1 w2 = Some (e', w')" by simp
    with 2(1) [OF r [symmetric] refl _ now [symmetric] _ i(1)] True i(2) show ?thesis
      by (auto intro: same_frame_trans)
  next
    case False
    with 2(3) r now have "e' = e1" by (auto split: if_splits)
    then show ?thesis using i by simp
  qed
qed simp

lemma tick_inv:
  "ex_inv k e \<Longrightarrow> otlp_exporter_tick fuel E e ms w = Some (st, e', w') \<Longrightarrow> ex_inv k e' \<and> same_frame e e'"
  by (auto simp: otlp_exporter_tick_def split: prod.splits dest: tick_loop_inv)

lemma flush_loop_inv:
  "ex_inv k e \<Longrightarrow> flush_loop fuel E dl e w = Some (e', w') \<Longrightarrow> ex_inv k e' \<and> same_frame e e'"
proof (induction fuel E dl e w rule: flush_loop.induct)
  case (2 fuel E dl e w)
  obtain st e1 w1 where t: "otlp_exporter_tick fuel E e 100 w = Some (st, e1, w1)"
    using 2(3) by (auto split: option.splits)
  from tick_inv [OF 2(2) t] have i: "ex_inv k e1" "same_frame e e1" by blast+
  obtain now w2 where now: "env_now E w1 = (now, w2)" by fastforce
  show ?case
  proof (cases "work_left e1 \<and> now < dl")
    case True
    with 2(3) t now have "flush_loop fuel E dl e1 w2 = Some (e', w')" by simp
    with 2(1) [OF t refl refl now [symmetric] _ i(1)] True i(2) show ?thesis
      by (auto intro: same_frame_trans)
  next
    case False
    with 2(3) t now have "e' = e1" by (auto split: if_splits)
    then show ?thesis using i by simp
  qed
qed simp

lemma flush_inv:
  assumes "ex_inv k e" "otlp_exporter_flush fuel E (Some e) w = Some (st, Some e', w')"
  shows "ex_inv k e' \<and> same_frame e e'"
proof -
  obtain now w1 where now: "env_now E w = (now, w1)" by fastforce
  obtain w2 where "flush_loop fuel E (now + ucast (ex_flush_timeout_ms e)) e w1 = Some (e', w2)"
    using assms(2) now by (auto simp: otlp_exporter_flush_def split: option.splits)
  then show ?thesis by (rule flush_loop_inv [OF assms(1)])
qed

subsection \<open>The calls an application makes\<close>

text \<open>
  A run of the exporter: emits in any order and from any thread, ticks, flushes and the shutdown
  request, each call whole, with the world changing in between. \<open>nb\<close> says whether the null
  transport was switched on before the first call. The bound on the emits is that of the ring.
\<close>

inductive ex_reach ::
  "nat \<Rightarrow> ('i, 'r, 'w) env \<Rightarrow> exporter_opts \<Rightarrow> bool \<Rightarrow> ('i, 'r) exporter \<Rightarrow> bool"
  for k :: nat and E :: "('i, 'r, 'w) env" and opt :: exporter_opts and nb :: bool where
  created: "ex_reach k E opt nb
     ((exporter_start opt (fresh_queue (ring_exp k)) seed)\<lparr>ex_null_transport := nb\<rparr>)"
| emit: "ex_reach k E opt nb e \<Longrightarrow> length (ex_accepted e s) < TURN_LIMIT \<Longrightarrow>
     emit_move_common (Some e) s (Some x) = Some (st, Some e') \<Longrightarrow> ex_reach k E opt nb e'"
| tick: "ex_reach k E opt nb e \<Longrightarrow> otlp_exporter_tick fuel E e ms w = Some (st, e', w') \<Longrightarrow>
     ex_reach k E opt nb e'"
| flush: "ex_reach k E opt nb e \<Longrightarrow> otlp_exporter_flush fuel E (Some e) w = Some (st, Some e', w') \<Longrightarrow>
     ex_reach k E opt nb e'"
| shutdown: "ex_reach k E opt nb e \<Longrightarrow> otlp_exporter_shutdown (Some e) = (st, Some e') \<Longrightarrow>
     ex_reach k E opt nb e'"

lemma start_inv:
  assumes "0 < o_batch_size opt"
  shows "ex_inv k ((exporter_start opt (fresh_queue (ring_exp k)) seed)\<lparr>ex_null_transport := nb\<rparr>)"
proof -
  have "mpsc_rep (ring_exp k) (fresh_queue (ring_exp k)) 0 []"
    by (rule mpsc_rep_fresh) (simp add: ring_exp_def)
  then show ?thesis using assms
    by (simp add: exporter_start_def signal_start_def ex_inv_def ex_core_def ex_exact_def sg_inv_def)
qed

lemma ex_reach_inv:
  assumes "ex_reach k E opt nb e" and pos: "0 < o_batch_size opt"
  shows "ex_inv k e \<and> ex_null_transport e = nb"
  using assms(1)
proof (induction rule: ex_reach.induct)
  case (created seed)
  show ?case using start_inv [OF pos] by simp
next
  case (emit e s x st e')
  then have "ex_null_transport e' = ex_null_transport e"
    by (auto simp: emit_move_common_def Let_def split: if_splits option.splits prod.splits)
  with emit_move_inv [OF _ emit(2) emit(3)] emit show ?case by auto
next
  case (tick e fuel ms w st e' w')
  then show ?case using tick_inv [of k e fuel E ms w st e' w'] by (simp add: same_frame_def)
next
  case (flush e fuel w st e' w')
  then show ?case using flush_inv [of k e fuel E w st e' w'] by (simp add: same_frame_def)
next
  case (shutdown e st e')
  then have "e' = e\<lparr>ex_shutdown := True\<rparr>" by (simp add: otlp_exporter_shutdown_def)
  then show ?case using shutdown(3)
    by (simp add: ex_inv_def ex_core_def ex_exact_def split: option.splits)
qed

text \<open>What is in the queue of an idle exporter, in the order in which it would be taken.\<close>

definition queued :: "'i signal_state \<Rightarrow> 'i list" where
  "queued sg = fst (pop_upto mpsc_queue_pop (length (sg_accepted sg)) (sg_queue sg))"

lemma sg_inv_queued:
  assumes "sg_inv k sg"
  shows "sg_accepted sg = sg_freed sg @ sg_pending sg @ queued sg" and "mpsc_queue_size (sg_queue sg) = length (queued sg)"
proof -
  obtain xs where rep: "mpsc_rep (ring_exp k) (sg_queue sg) (length (sg_accepted sg)) xs"
      and acc: "sg_accepted sg = sg_freed sg @ sg_pending sg @ xs"
    using sg_invE [OF assms] .
  have "length xs \<le> length (sg_accepted sg)" by (simp add: acc)
  with ring.pop_upto_spec [OF rep, of "length (sg_accepted sg)"] have q: "queued sg = xs"
    by (auto simp: queued_def)
  show "sg_accepted sg = sg_freed sg @ sg_pending sg @ queued sg" using acc q by simp
  show "mpsc_queue_size (sg_queue sg) = length (queued sg)" using mpsc_size_rep [OF rep] q by simp
qed

lemma sg_inv_counters:
  assumes "sg_inv k sg"
  shows "unat (sg_emitted sg) = length (sg_accepted sg)" and
    "sg_sent sg + sg_dropped_err sg = word_of_nat (length (sg_freed sg)) \<Longrightarrow>
      unat (sg_sent sg) + unat (sg_dropped_err sg) = length (sg_freed sg)"
proof -
  have lim: "length (sg_accepted sg) < 2 ^ 64" using sg_inv_limit [OF assms] by (simp add: TURN_LIMIT_def)
  then show "unat (sg_emitted sg) = length (sg_accepted sg)"
    using assms unat_of_nat_u64 by (simp add: sg_inv_def)
  assume e: "sg_sent sg + sg_dropped_err sg = word_of_nat (length (sg_freed sg))"
  have f: "length (sg_freed sg) < 2 ^ 64" using lim assms by (auto simp: sg_inv_def)
  then have "unat (sg_sent sg) + unat (sg_dropped_err sg) < 2 ^ 64" using assms by (auto simp: sg_inv_def)
  then have "unat (sg_sent sg + sg_dropped_err sg) = unat (sg_sent sg) + unat (sg_dropped_err sg)"
    by (simp add: unat_add_lem [THEN iffD1])
  with e f show "unat (sg_sent sg) + unat (sg_dropped_err sg) = length (sg_freed sg)"
    by (simp only: unat_of_nat_u64)
qed

subsection \<open>Progress with the null transport\<close>

text \<open>
  A bound on the rounds a tick can make: an item weighs three in the queue and one in the batch,
  and the right to arm the backoff weighs one.
\<close>

definition item_weight :: "'i signal_state \<Rightarrow> nat" where
  "item_weight sg = 3 * length (queued sg) + length (sg_pending sg)"

definition weight :: "('i, 'r) exporter \<Rightarrow> nat" where
  "weight e = sum_list (map (\<lambda>s. item_weight (ex_sig e s)) SIGNALS) + (if ex_backoff_armed e then 0 else 1)"

definition backlog :: "('i, 'r) exporter \<Rightarrow> nat" where
  "backlog e = sum_list (map (\<lambda>s. length (queued (ex_sig e s)) + length (sg_pending (ex_sig e s))) SIGNALS)"

lemma weight_backlog: "weight e \<le> 3 * backlog e + 1"
  by (simp add: weight_def backlog_def item_weight_def SIGNALS_def)

lemma weight_upd:
  "weight (upd_sig s (\<lambda>_. sg) e) + item_weight (ex_sig e s) = weight e + item_weight sg"
  by (cases s) (simp_all add: weight_def SIGNALS_def)

lemma queued_cong [simp]:
  "queued (sg\<lparr>sg_pending := a\<rparr>) = queued sg" "queued (sg\<lparr>sg_first_set := b\<rparr>) = queued sg"
  "queued (sg\<lparr>sg_freed := c\<rparr>) = queued sg" "queued (sg\<lparr>sg_sent := n\<rparr>) = queued sg"
  "queued (sg\<lparr>sg_dropped_err := n\<rparr>) = queued sg" "queued (sg\<lparr>sg_rejected := n\<rparr>) = queued sg"
  by (simp_all add: queued_def)

lemma pop_none_queued:
  "mpsc_queue_pop (sg_queue sg) = (None, q) \<Longrightarrow> queued sg = []"
  by (cases "length (sg_accepted sg)") (simp_all add: queued_def)

text \<open>Draining either did nothing, and then there was nothing to do, or made the weight smaller.\<close>

lemma drain_queue_work:
  "sg_inv k sg \<Longrightarrow> drain_queue E sg work w = (sg', work', w') \<Longrightarrow>
     (if sg_pending sg' = sg_pending sg
      then sg' = sg \<and> work' = work \<and> (sg_pending_cap sg \<le> length (sg_pending sg) \<or> queued sg = [])
      else work')"
proof (induction E sg work w rule: drain_queue.induct)
  case (1 E sg work w)
  note run = 1(4)[unfolded drain_queue.simps [of E sg work w]]
  show ?case
  proof (cases "length (sg_pending sg) < sg_pending_cap sg")
    case False
    then show ?thesis using run by auto
  next
    case room: True
    obtain item q where pop: "mpsc_queue_pop (sg_queue sg) = (item, q)" by fastforce
    show ?thesis
    proof (cases item)
      case None
      then show ?thesis using run room pop drain_one(2) [OF 1(3) room, of q] pop_none_queued [of sg q] by simp
    next
      case (Some x)
      let ?sg1 = "sg\<lparr>sg_queue := q, sg_pending := sg_pending sg @ [x]\<rparr>"
      have i1: "sg_inv k ?sg1" using drain_one(1) [OF 1(3) room] pop Some by simp
      have grow: "sg_pending sg' \<noteq> sg_pending sg" if "drained ?sg1 sg'"
        using drained_length [OF that] by auto
      show ?thesis
      proof (cases "sg_first_set ?sg1")
        case True
        have r: "drain_queue E ?sg1 True w = (sg', work', w')" using run room pop Some True by simp
        from 1(1) [OF room pop [symmetric] Some refl True i1 r] have "work'" by (auto split: if_splits)
        with grow drain_queue_inv [OF i1 r] show ?thesis by auto
      next
        case False
        obtain now w1 where now: "env_now E w = (now, w1)" by fastforce
        let ?sg2 = "?sg1\<lparr>sg_first_mono := now, sg_first_set := True\<rparr>"
        have i2: "sg_inv k ?sg2" using i1 by (simp add: sg_inv_def)
        have r: "drain_queue E ?sg2 True w1 = (sg', work', w')" using run room pop Some False now by simp
        from 1(2) [OF room pop [symmetric] Some refl False now [symmetric] i2 r] have "work'" by (auto split: if_splits)
        moreover have "drained ?sg1 ?sg2" by (simp add: drained_def)
        ultimately show ?thesis using grow drain_queue_inv [OF i2 r] by (auto dest: drained_trans)
      qed
    qed
  qed
qed

lemma drained_weight:
  assumes "sg_inv k sg" "sg_inv k sg'" "drained sg sg'" "sg_pending sg' \<noteq> sg_pending sg"
  shows "item_weight sg' + 2 \<le> item_weight sg"
proof -
  obtain ys where ys: "sg_pending sg' = sg_pending sg @ ys" "ys \<noteq> []"
    using assms(3,4) by (auto simp: drained_def prefix_def)
  have "sg_freed sg @ sg_pending sg @ queued sg = sg_freed sg @ sg_pending sg @ ys @ queued sg'"
    using sg_inv_queued(1) [OF assms(1)] sg_inv_queued(1) [OF assms(2)] assms(3) ys
    unfolding drained_def by (metis append_assoc)
  then have "queued sg = ys @ queued sg'" by simp
  with ys show ?thesis by (cases ys) (simp_all add: item_weight_def)
qed

lemma drain_signals_work:
  "ex_inv k e \<Longrightarrow> drain_signals E ks e work w = (e', work', w') \<Longrightarrow>
     e' = e \<and> work' = work \<and> (\<forall>s \<in> set ks. sg_pending (ex_sig e s) \<noteq> [] \<or> queued (ex_sig e s) = [])
     \<or> work' \<and> weight e' + 2 \<le> weight e"
proof (induction E ks e work w rule: drain_signals.induct)
  case (2 E s ks e work w)
  obtain sg work1 w1 where d: "drain_queue E (ex_sig e s) work w = (sg, work1, w1)"
    by (rule prod_cases3)
  let ?e1 = "upd_sig s (\<lambda>_. sg) e"
  have si: "sg_inv k (ex_sig e s)" using 2(2) by (simp add: ex_inv_def ex_core_def)
  note sg = drain_queue_inv [OF si d]
  have i1: "ex_inv k ?e1" using upd_sig_ex_inv 2(2) sg by blast
  have run: "drain_signals E ks ?e1 work1 w1 = (e', work', w')" using 2(3) d by simp
  note ih = 2(1) [OF d [symmetric] refl i1 run]
  show ?case
  proof (cases "sg_pending sg = sg_pending (ex_sig e s)")
    case True
    with drain_queue_work [OF si d] have w: "sg = ex_sig e s" "work1 = work"
      "sg_pending_cap sg \<le> length (sg_pending sg) \<or> queued sg = []" by auto
    have "sg_pending sg \<noteq> [] \<or> queued sg = []" using w(1,3) si by (auto simp: sg_inv_def)
    moreover have "?e1 = e" by (simp add: upd_sig_def w(1))
    ultimately show ?thesis using ih w by auto
  next
    case False
    with drain_queue_work [OF si d] have "work1" by simp
    moreover have "item_weight sg + 2 \<le> item_weight (ex_sig e s)"
      using drained_weight [OF si _ _ False] sg by blast
    then have "weight ?e1 + 2 \<le> weight e" using weight_upd [of s sg e] by linarith
    ultimately show ?thesis using ih by auto
  qed
qed simp

lemma start_posts_idle:
  "0 < ex_batch_size e \<Longrightarrow> \<forall>s. sg_pending (ex_sig e s) = [] \<and> \<not> sg_first_set (ex_sig e s) \<Longrightarrow>
     start_posts E sd now ks e work w = (e, work, w)"
  by (induction ks) (simp_all add: Let_def)

lemma sum_SIGNALS_clear:
  "sum_list (map (\<lambda>s. f (if s = k then b else g s)) SIGNALS) + f (g k) =
     sum_list (map (\<lambda>s. f (g s)) SIGNALS) + (f b :: nat)"
  by (cases k) (simp_all add: SIGNALS_def)

lemma null_post_weight:
  "ex_inv k e \<Longrightarrow> \<not> ex_backoff_armed e \<Longrightarrow> null_transport_post E ks e w = Some (e', w') \<Longrightarrow> weight e' < weight e"
proof (induction E ks e w rule: null_transport_post.induct)
  case (2 E s ks e w)
  show ?case
  proof (cases "length (sg_pending (ex_sig e s)) > 0")
    case False
    then show ?thesis using 2 by simp
  next
    case True
    let ?e1 = "e\<lparr>ex_in_flight_signal := s, ex_in_flight_count := length (sg_pending (ex_sig e s))\<rparr>"
    obtain http w1 where run: "record_outcome E ?e1 \<lparr>ho_status = http, ho_retry_after_ms = 0, ho_body = None\<rparr> w1 = (e', w')"
      using 2(4) True by (auto split: prod.splits)
    have att: "ex_attempt ?e1 \<le> ex_max_retries ?e1" using 2(2) by (simp add: ex_inv_def ex_core_def)
    let ?sig = "\<lambda>sg'. (\<lambda>t. if t = s then sg' else ex_sig e t)"
    consider "ex_sig e' = ex_sig e" "ex_backoff_armed e'"
      | sg' where "ex_sig e' = (ex_sig e)(s := sg')" "\<not> ex_backoff_armed e'"
          "queued sg' = queued (ex_sig e s)" "sg_pending sg' = []"
      using record_outcome_cases [OF run att] by auto
    then show ?thesis
    proof cases
      case 1
      then show ?thesis using 2(3) by (simp add: weight_def)
    next
      case (2 sg')
      have "item_weight sg' < item_weight (ex_sig e s)"
        using 2 True unfolding item_weight_def by (simp only: list.size)
      with sum_SIGNALS_clear [of item_weight s sg' "ex_sig e"] 2 show ?thesis
        using \<open>\<not> ex_backoff_armed e\<close> by (simp add: weight_def fun_upd_def)
    qed
  qed
qed simp

lemma backoff_retry_null:
  assumes "ex_null_transport e" "ex_in_flight e = None"
  shows "\<exists>e' w'. backoff_retry E e work w = (e', work, w') \<and>
    (e' = e \<or> ex_backoff_armed e \<and> e' = e\<lparr>ex_backoff_armed := False\<rparr>)"
proof -
  obtain now w1 where now: "env_now E w = (now, w1)" by fastforce
  consider "\<not> ex_backoff_armed e" | "ex_backoff_armed e" "now \<ge> ex_backoff_deadline e"
    | "ex_backoff_armed e" "\<not> now \<ge> ex_backoff_deadline e" by blast
  then show ?thesis using assms now by cases (simp_all add: backoff_retry_def)
qed

lemma null_round:
  assumes inv: "ex_inv k e" and null: "ex_null_transport e" and run: "tick_round E e w = (e', work', w')"
  shows "if work' then weight e' < weight e
    else (ex_backoff_armed e \<or> backlog e = 0) \<and> (e' = e \<or> ex_backoff_armed e \<and> e' = e\<lparr>ex_backoff_armed := False\<rparr>)"
proof -
  obtain e1 work1 w1 where d: "drain_signals E SIGNALS e False w = (e1, work1, w1)" by (rule prod_cases3)
  from drain_signals_inv [OF inv d] have i1: "ex_inv k e1" "same_frame e e1" by blast+
  have n1: "ex_null_transport e1" "ex_in_flight e1 = None" using i1 null by (auto simp: same_frame_def ex_inv_def)
  note dw = drain_signals_work [OF inv d]
  define nt where "nt = (if ex_null_transport e1 \<and> \<not> ex_backoff_armed e1
    then null_transport_post E SIGNALS e1 w1 else None)"
  show ?thesis
  proof (cases nt)
    case (Some p)
    then have "null_transport_post E SIGNALS e1 w1 = Some (e', snd p)" "\<not> ex_backoff_armed e1" "work'"
      using run d by (cases p, auto simp: tick_round_def nt_def split: if_splits)+
    with null_post_weight [OF i1(1)] dw show ?thesis by fastforce
  next
    case None
    obtain w3 where s: "(if ex_in_flight e1 = None \<and> \<not> ex_backoff_armed e1
        then (case env_now E w1 of (now_ms, w2) \<Rightarrow> start_posts E (ex_shutdown e1) now_ms SIGNALS e1 work1 w2)
        else (e1, work1, w1)) = (e1, work1, w3)"
    proof (cases "ex_backoff_armed e1")
      case False
      with None n1 have "\<forall>s. sg_pending (ex_sig e1 s) = []"
        using null_transport_idle [of E SIGNALS e1 w1] by (auto simp: nt_def)
      then have "\<forall>s. sg_pending (ex_sig e1 s) = [] \<and> \<not> sg_first_set (ex_sig e1 s)"
        using i1(1) by (auto simp: ex_inv_def ex_core_def sg_inv_def)
      moreover have "0 < ex_batch_size e1" using i1(1) by (simp add: ex_inv_def ex_core_def)
      moreover obtain now w2 where "env_now E w1 = (now, w2)" by fastforce
      ultimately show ?thesis using False n1 by (intro that [of w2]) (simp add: start_posts_idle)
    qed (use that in simp)
    have st: "step_in_flight E e1 work1 w3 = (e1, work1, w3)" using n1 by (simp add: step_in_flight_def)
    obtain e5 w5 where b: "backoff_retry E e1 work1 w3 = (e5, work1, w5)"
      and e5: "e5 = e1 \<or> ex_backoff_armed e1 \<and> e5 = e1\<lparr>ex_backoff_armed := False\<rparr>"
      using backoff_retry_null [OF n1, of E work1 w3] by (elim exE conjE) (rule that)
    have out: "e' = e5" "work' = work1"
      using run None d s st b by (simp_all add: tick_round_def nt_def [symmetric])
    have w5: "weight e5 \<le> weight e1 + 1" using e5 by (auto simp: weight_def)
    show ?thesis
    proof (cases work1)
      case True
      then show ?thesis using dw w5 out by auto
    next
      case False
      with dw have e1: "e1 = e" and dr: "\<forall>s. sg_pending (ex_sig e s) \<noteq> [] \<or> queued (ex_sig e s) = []" by auto
      have "ex_backoff_armed e \<or> backlog e = 0"
        using None n1 dr null_transport_idle [of E SIGNALS e w1]
        by (cases "ex_backoff_armed e") (auto simp: nt_def e1 backlog_def)
      with False e5 out e1 show ?thesis by simp
    qed
  qed
qed

lemma null_tick_loop_returns:
  "ex_inv k e \<Longrightarrow> ex_null_transport e \<Longrightarrow> weight e < fuel \<Longrightarrow> \<exists>r. tick_loop fuel E dl e w = Some r"
proof (induction fuel E dl e w rule: tick_loop.induct)
  case (2 fuel E dl e w)
  obtain e1 work w1 where r: "tick_round E e w = (e1, work, w1)" by (rule prod_cases3)
  obtain now w2 where now: "env_now E w1 = (now, w2)" by fastforce
  from tick_round_inv [OF 2(2) r] 2(3) have i: "ex_inv k e1" "ex_null_transport e1" by (auto simp: same_frame_def)
  show ?case
  proof (cases "work \<and> now < dl")
    case True
    then have "weight e1 < fuel" using null_round [OF 2(2,3) r] 2(4) by auto
    with 2(1) [OF r [symmetric] refl _ now [symmetric] _ i] True r now show ?thesis by auto
  next
    case False
    then show ?thesis using r now by auto
  qed
qed simp

text \<open>A null transport that always answers 200 never arms the backoff and drops nothing.\<close>

definition quiet_step :: "('i, 'r) exporter \<Rightarrow> ('i, 'r) exporter \<Rightarrow> bool" where
  "quiet_step e e' \<longleftrightarrow> \<not> ex_backoff_armed e' \<and>
     (\<forall>s. sg_dropped_err (ex_sig e' s) = sg_dropped_err (ex_sig e s))"

lemma drain_signals_quiet:
  "ex_inv k e \<Longrightarrow> \<not> ex_backoff_armed e \<Longrightarrow> drain_signals E ks e work w = (e', work', w') \<Longrightarrow> quiet_step e e'"
proof (induction E ks e work w rule: drain_signals.induct)
  case (2 E s ks e work w)
  obtain sg work1 w1 where d: "drain_queue E (ex_sig e s) work w = (sg, work1, w1)"
    by (rule prod_cases3)
  have si: "sg_inv k (ex_sig e s)" using 2(2) by (simp add: ex_inv_def ex_core_def)
  note sg = drain_queue_inv [OF si d]
  have i: "ex_inv k (upd_sig s (\<lambda>_. sg) e)" using upd_sig_ex_inv 2(2) sg by blast
  have "quiet_step (upd_sig s (\<lambda>_. sg) e) e'"
    using 2(1) [OF d [symmetric] refl i] 2(3,4) d by simp
  with sg show ?case by (auto simp: quiet_step_def drained_def split: if_splits)
qed (simp add: quiet_step_def)

lemma null_post_quiet:
  "env_null_status E = None \<Longrightarrow> null_transport_post E ks e w = Some (e', w') \<Longrightarrow> quiet_step e e'"
  by (induction E ks e w rule: null_transport_post.induct)
    (auto simp: quiet_step_def record_outcome_def Let_def clear_in_flight_batch_def split: if_splits)

lemma null_quiet_round:
  assumes inv: "ex_inv k e" and null: "ex_null_transport e" "env_null_status E = None"
    and armed: "\<not> ex_backoff_armed e" and run: "tick_round E e w = (e', work', w')"
  shows "quiet_step e e'"
proof -
  obtain e1 work1 w1 where d: "drain_signals E SIGNALS e False w = (e1, work1, w1)" by (rule prod_cases3)
  note q = drain_signals_quiet [OF inv armed d]
  have n1: "ex_null_transport e1" "\<not> ex_backoff_armed e1"
    using drain_signals_inv [OF inv d] null q by (simp_all add: same_frame_def quiet_step_def)
  show ?thesis
  proof (cases "null_transport_post E SIGNALS e1 w1")
    case (Some p)
    then have p: "null_transport_post E SIGNALS e1 w1 = Some (e', snd p)"
      using run d n1 by (cases p) (auto simp: tick_round_def)
    from null_post_quiet [OF null(2) p] q show ?thesis by (simp add: quiet_step_def)
  next
    case None
    have "e' = e1"
    proof -
      have i1: "ex_inv k e1" using drain_signals_inv [OF inv d] by blast
      then have fl: "ex_in_flight e1 = None" using n1 by (simp add: ex_inv_def)
      have "\<forall>s. sg_pending (ex_sig e1 s) = [] \<and> \<not> sg_first_set (ex_sig e1 s)"
        using i1 null_transport_idle [OF None] by (auto simp: ex_inv_def ex_core_def sg_inv_def)
      moreover have "0 < ex_batch_size e1" using i1 by (simp add: ex_inv_def ex_core_def)
      moreover obtain now w2 where "env_now E w1 = (now, w2)" by fastforce
      ultimately show ?thesis using run d n1 fl None
        by (simp add: tick_round_def start_posts_idle step_in_flight_def backoff_retry_def)
    qed
    with q show ?thesis by simp
  qed
qed

lemma null_quiet_loop:
  assumes clock: "\<And>w. fst (env_now E w) = c" "c < dl" and ok: "env_null_status E = None"
  shows "ex_inv k e \<Longrightarrow> ex_null_transport e \<Longrightarrow> \<not> ex_backoff_armed e \<Longrightarrow>
    tick_loop fuel E dl e w = Some (e', w') \<Longrightarrow> quiet_step e e' \<and> backlog e' = 0"
proof (induction fuel arbitrary: e w)
  case (Suc fuel)
  obtain e1 work w1 where r: "tick_round E e w = (e1, work, w1)" by (rule prod_cases3)
  obtain w2 where now: "env_now E w1 = (c, w2)" using clock(1) [of w1] by (cases "env_now E w1") simp
  note q = null_quiet_round [OF Suc.prems(1,2) ok Suc.prems(3) r]
  from tick_round_inv [OF Suc.prems(1) r] Suc.prems(2)
  have i: "ex_inv k e1" "ex_null_transport e1" "\<not> ex_backoff_armed e1"
    using q by (auto simp: same_frame_def quiet_step_def)
  show ?case
  proof (cases work)
    case True
    with Suc.prems(4) r now clock(2) have "tick_loop fuel E dl e1 w2 = Some (e', w')" by simp
    from Suc.IH [OF i this] q show ?thesis by (simp add: quiet_step_def)
  next
    case False
    with Suc.prems(3,4) r q null_round [OF Suc.prems(1,2) r] show ?thesis by auto
  qed
qed simp

lemma work_left_iff:
  assumes "ex_inv k e"
  shows "work_left e \<longleftrightarrow> ex_in_flight e \<noteq> None \<or> backlog e \<noteq> 0"
proof -
  have "signal_left e s \<longleftrightarrow> length (queued (ex_sig e s)) + length (sg_pending (ex_sig e s)) \<noteq> 0" for s
    using assms sg_inv_queued(2) [of k "ex_sig e s"] by (auto simp: signal_left_def ex_inv_def ex_core_def)
  then show ?thesis by (simp add: work_left_def backlog_def list_ex_iff)
qed

lemma null_flush_ok:
  assumes clock: "\<And>w. fst (env_now E w) = c" "c < c + 100"
    and ok: "env_null_status E = None" and inv: "ex_inv k e" and null: "ex_null_transport e"
    and armed: "\<not> ex_backoff_armed e" and fuel: "3 * backlog e + 2 < fuel"
  shows "\<exists>e' w'. otlp_exporter_flush fuel E (Some e) w = Some (OTLP_OK, Some e', w') \<and>
    ex_inv k e' \<and> same_frame e e' \<and> quiet_step e e' \<and> backlog e' = 0"
proof -
  have now: "\<exists>w'. env_now E w = (c, w')" for w using clock(1) [of w] by (cases "env_now E w") simp
  obtain f where f: "fuel = Suc f" using fuel by (cases fuel) simp_all
  obtain w1 where w1: "env_now E w = (c, w1)" using now by blast
  obtain w2 where w2: "env_now E w1 = (c, w2)" using now by blast
  have "weight e < f" using weight_backlog [of e] fuel f by linarith
  then obtain e' w3 where t: "tick_loop f E (c + 100) e w2 = Some (e', w3)"
    using null_tick_loop_returns [OF inv null] by (metis surj_pair)
  have i: "ex_inv k e'" "same_frame e e'" using tick_loop_inv [OF inv t] by blast+
  have q: "quiet_step e e'" "backlog e' = 0" using null_quiet_loop [OF clock(1,2) ok inv null armed t] by blast+
  obtain w4 where w4: "env_now E w3 = (c, w4)" using now by blast
  have "\<not> work_left e'" using i null q by (simp add: work_left_iff [OF i(1)]) (simp add: ex_inv_def same_frame_def)
  then have "otlp_exporter_flush fuel E (Some e) w = Some (OTLP_OK, Some e', w4)"
    using w1 w2 w4 t by (simp add: otlp_exporter_flush_def f otlp_exporter_tick_def)
  with i q show ?thesis by blast
qed

section \<open>Options\<close>

lemma round_up_loop_spec:
  "\<exists>j. r = 2 ^ j \<Longrightarrow> r \<le> SIZE_MAX \<Longrightarrow>
    (\<exists>j. round_up_pow2_loop r v = 2 ^ j) \<and> r \<le> round_up_pow2_loop r v \<and>
    (r \<le> v \<longrightarrow> v \<le> 2 ^ 63 \<longrightarrow> v \<le> round_up_pow2_loop r v \<and> round_up_pow2_loop r v < 2 * v \<or> round_up_pow2_loop r v = v)"
proof (induction r v rule: round_up_pow2_loop.induct)
  case (1 r v)
  have pos: "0 < r" using 1(2) by auto
  show ?case
  proof (cases "r < v \<and> r \<le> SIZE_MAX div 2")
    case False
    then have "round_up_pow2_loop r v = r" by (subst round_up_pow2_loop.simps) auto
    moreover have "r < v \<Longrightarrow> v \<le> 2 ^ 63 \<Longrightarrow> False"
      using False by (simp add: SIZE_MAX_def)
    ultimately show ?thesis using 1(2) by fastforce
  next
    case True
    then have eq: "round_up_pow2_loop r v = round_up_pow2_loop (r * 2) v"
      using pos by (simp add: round_up_pow2_loop.simps [of r])
    obtain j where "r = 2 ^ j" using 1(2) by blast
    then have e: "\<exists>j. r * 2 = 2 ^ j" by (intro exI [of _ "Suc j"]) simp
    have le: "r * 2 \<le> SIZE_MAX" using True by linarith
    have ih: "(\<exists>j. round_up_pow2_loop (r * 2) v = 2 ^ j) \<and> r * 2 \<le> round_up_pow2_loop (r * 2) v \<and>
        (r * 2 \<le> v \<longrightarrow> v \<le> 2 ^ 63 \<longrightarrow> v \<le> round_up_pow2_loop (r * 2) v \<and> round_up_pow2_loop (r * 2) v < 2 * v
          \<or> round_up_pow2_loop (r * 2) v = v)"
      using 1(1) [OF _ _ e le] True pos by auto
    show ?thesis
    proof (cases "r * 2 \<le> v")
      case True
      then show ?thesis using ih unfolding eq by auto
    next
      case False
      then have "round_up_pow2_loop (r * 2) v = r * 2" by (simp add: round_up_pow2_loop.simps [of "r * 2"])
      with False \<open>r < v \<and> _\<close> e show ?thesis unfolding eq by auto
    qed
  qed
qed

lemma round_up_pow2_spec:
  "(\<exists>j. round_up_pow2 v = 2 ^ j) \<and>
    (0 < v \<longrightarrow> v \<le> 2 ^ 63 \<longrightarrow> v \<le> round_up_pow2 v \<and> round_up_pow2 v < 2 * v)"
proof -
  have "\<exists>j. (1::nat) = 2 ^ j" by (rule exI [of _ 0]) simp
  from round_up_loop_spec [OF this, of v] show ?thesis
    by (auto simp: round_up_pow2_def SIZE_MAX_def)
qed

lemma normalize_batch: "0 < o_batch_size (normalize_opts v opt)"
  by (simp add: normalize_opts_def Let_def OTLP_MAX_BATCH_SIZE_def)

end
