(* ===== verification/Exporter_Props.thy ===== *)
theory Exporter_Props
  imports Exporter_Inv
begin

text \<open>
  What the exporter promises its caller, stated over all runs of theory \<open>Exporter_Inv\<close>, and the
  concrete world in which the hypotheses are met.
\<close>

section \<open>A concrete world\<close>

text \<open>
  A clock that stands still, requests that take two steps and are answered 200, and a null
  transport without a status function.
\<close>

definition demo_env :: "(char, nat, unit) env" where
  "demo_env = \<lparr>env_now = (\<lambda>t. (0, t)), env_sleep = (\<lambda>t. t), env_build = (\<lambda>s items ka t. (OTLP_OK, Some 0, t)),
     env_step = (\<lambda>r t. (Suc r, t)), env_state = (\<lambda>r. if r < 2 then OTLP_HTTP_REQ_READING else OTLP_HTTP_REQ_DONE),
     env_http_status = (\<lambda>_. 200), env_retry_after = (\<lambda>_. 0), env_body = (\<lambda>_. None), env_detach = (\<lambda>_. False),
     env_null_status = None\<rparr>"

text \<open>Options that the defaults leave as they are, with a batch of one item and a ring of two.\<close>

definition demo_opts :: exporter_opts where
  "demo_opts = \<lparr>o_batch_size = 1, o_batch_ms = 100, o_max_retries = 5, o_backoff_initial_ms = 1000,
     o_backoff_max_ms = 30000, o_connect_timeout_ms = 5000, o_read_timeout_ms = 10000, o_flush_timeout_ms = 30000,
     o_queue_capacity = 2, o_endpoint = Some OTLP_DEFAULT_ENDPOINT, o_service_name = Some [], o_user_agent = Some []\<rparr>"

lemma demo_opts_normal: "normalize_opts v demo_opts = demo_opts"
  by (simp add: normalize_opts_def demo_opts_def OTLP_MAX_BATCH_SIZE_def round_up_pow2_def
      round_up_pow2_loop.simps SIZE_MAX_def)

definition demo_start :: "bool \<Rightarrow> (char, nat) exporter" where
  "demo_start nb = (exporter_start demo_opts (fresh_queue (ring_exp 0)) 1)\<lparr>ex_null_transport := nb\<rparr>"

lemmas demo_defs = demo_env_def demo_opts_def exporter_start_def signal_start_def demo_start_def
  fresh_queue_def ring_exp_def upd_sig_def otlp_exporter_event_log_def evt_init_def Let_def SIGNALS_def

lemmas demo_queue = mpsc_queue_push_def mpsc_queue_pop_def mpsc_queue_size_def slot_of_def slot_idx_def
  set_slot_def seq_diff_def



lemma drain_idle:
  assumes "mpsc_queue_pop (sg_queue (ex_sig e k)) = (None, sg_queue (ex_sig e k))"
  shows "drain_signals E (k # ks) e work w = drain_signals E ks e work w"
proof -
  have "drain_queue E (ex_sig e k) work w = (ex_sig e k, work, w)"
    using assms by (simp add: drain_queue.simps)
  moreover have "upd_sig k (\<lambda>_. ex_sig e k) e = e" by (simp add: upd_sig_def)
  ultimately show ?thesis by simp
qed

text \<open>The states of the run: the span signal, the request in flight, what was posted and logged.\<close>

definition demo_at :: "char signal_state \<Rightarrow> nat option \<Rightarrow> (signal \<times> char list) list \<Rightarrow> (char, nat) exporter" where
  "demo_at sg fl posts = (demo_start False)\<lparr>ex_sig := (\<lambda>s. if s = SIGNAL_SPAN then sg else signal_start 1 (fresh_queue 1)),
     ex_in_flight := fl, ex_in_flight_count := (if fl = None then 0 else 1), ex_posts := posts\<rparr>"

definition demo_sg :: "char option \<Rightarrow> char option \<Rightarrow> u64 \<Rightarrow> u64 \<Rightarrow> u64 \<Rightarrow> u64 \<Rightarrow> char list \<Rightarrow> bool \<Rightarrow> u64 \<Rightarrow>
    char list \<Rightarrow> char list \<Rightarrow> u64 \<Rightarrow> char signal_state" where
  "demo_sg d0 d1 s0 s1 h t pend fs n acc freed sent = (signal_start 1 \<lparr>q_slots = [\<lparr>sl_seq = s0, sl_data = d0\<rparr>, \<lparr>sl_seq = s1, sl_data = d1\<rparr>],
     q_mask = 1, q_head = h, q_tail = t\<rparr>)\<lparr>sg_pending := pend, sg_first_set := fs, sg_emitted := n,
     sg_accepted := acc, sg_freed := freed, sg_sent := sent\<rparr>"


lemma demo_emit_first:
  "emit_move_common (Some (demo_start False)) SIGNAL_SPAN (Some CHR ''a'') =
    Some (OTLP_OK, Some (demo_at (demo_sg (Some CHR ''a'') None 1 1 1 0 [] False 1 ''a'' [] 0) None []))"
  by (simp add: emit_move_common_def demo_at_def demo_sg_def demo_defs demo_queue upt_rec fun_eq_iff)

lemma demo_drain_span:
  "drain_queue demo_env (demo_sg (Some CHR ''a'') None 1 1 1 0 [] False 1 ''a'' [] 0) False () =
    (demo_sg (Some CHR ''a'') None 2 1 1 1 ''a'' True 1 ''a'' [] 0, True, ())"
  "drain_queue demo_env (demo_sg (Some CHR ''a'') (Some CHR ''b'') 2 2 2 1 ''a'' False 2 ''ab'' [] 0) False () =
    (demo_sg (Some CHR ''a'') (Some CHR ''b'') 2 3 2 2 ''ab'' True 2 ''ab'' [] 0, True, ())"
  by (simp_all add: drain_queue.simps demo_sg_def demo_defs demo_queue)

lemma demo_at_sel: "ex_sig (demo_at sg fl ps) SIGNAL_SPAN = sg"
  by (simp add: demo_at_def)

lemma demo_env_sel [simp]:
  "env_now demo_env = (\<lambda>t. (0, t))" "env_build demo_env = (\<lambda>s items ka t. (OTLP_OK, Some 0, t))"
  "env_step demo_env = (\<lambda>r t. (Suc r, t))" "env_state demo_env = (\<lambda>r. if r < 2 then OTLP_HTTP_REQ_READING else OTLP_HTTP_REQ_DONE)"
  "env_http_status demo_env = (\<lambda>_. 200)" "env_retry_after demo_env = (\<lambda>_. 0)" "env_body demo_env = (\<lambda>_. None)"
  "env_detach demo_env = (\<lambda>_. False)" "env_null_status demo_env = None"
  by (simp_all add: demo_env_def)

lemma demo_drain:
  assumes "drain_queue demo_env sg False () = (sg', work', ())"
  shows "drain_signals demo_env SIGNALS (demo_at sg fl ps) False () = (demo_at sg' fl ps, work', ())"
proof -
  have "upd_sig SIGNAL_SPAN (\<lambda>_. sg') (demo_at sg fl ps) = demo_at sg' fl ps"
    by (simp add: upd_sig_def demo_at_def fun_eq_iff)
  moreover have "drain_signals demo_env [SIGNAL_METRIC, SIGNAL_LOG] (demo_at sg' fl ps) work' () = (demo_at sg' fl ps, work', ())"
    by (simp add: drain_idle demo_at_def signal_start_def demo_queue fresh_queue_def upt_rec del: drain_signals.simps(2))
  ultimately show ?thesis unfolding SIGNALS_def
    by (subst drain_signals.simps(2)) (simp add: assms demo_at_sel del: drain_signals.simps(2))
qed

lemmas demo_round = otlp_exporter_tick_def tick_round_def step_in_flight_def try_start_post_def
  backoff_retry_def backoff_sleep_def demo_at_def demo_sg_def demo_start_def exporter_start_def demo_opts_def
  signal_start_def upd_sig_def

lemma demo_tick_starts:
  "otlp_exporter_tick 1 demo_env (demo_at (demo_sg (Some CHR ''a'') None 1 1 1 0 [] False 1 ''a'' [] 0) None []) 0 () =
    Some (OTLP_OK, demo_at (demo_sg (Some CHR ''a'') None 2 1 1 1 ''a'' False 1 ''a'' [] 0) (Some 1) [(SIGNAL_SPAN, ''a'')], ())"
  by (simp add: otlp_exporter_tick_def tick_round_def demo_drain [OF demo_drain_span(1)])
     (simp add: demo_round SIGNALS_def fun_eq_iff)

lemma demo_emit_second:
  "emit_move_common (Some (demo_at (demo_sg (Some CHR ''a'') None 2 1 1 1 ''a'' False 1 ''a'' [] 0) (Some 1) [(SIGNAL_SPAN, ''a'')]))
     SIGNAL_SPAN (Some CHR ''b'') =
    Some (OTLP_OK, Some (demo_at (demo_sg (Some CHR ''a'') (Some CHR ''b'') 2 2 2 1 ''a'' False 2 ''ab'' [] 0) (Some 1) [(SIGNAL_SPAN, ''a'')]))"
  by (simp add: emit_move_common_def demo_at_def demo_sg_def demo_defs demo_queue upt_rec fun_eq_iff)

text \<open>What the second tick leaves.\<close>

definition demo_end :: "(char, nat) exporter" where
  "demo_end = (demo_at (demo_sg (Some CHR ''a'') (Some CHR ''b'') 2 3 2 2 [] False 2 ''ab'' ''ab'' 1) None [(SIGNAL_SPAN, ''a'')])
     \<lparr>ex_http_2xx := 1, ex_events := [(evt_init OTLP_EVT_BATCH_SENT OTLP_LOG_DEBUG SIGNAL_SPAN)\<lparr>evt_count := 1, evt_http_status := 200\<rparr>]\<rparr>"

lemma demo_tick_completes:
  "otlp_exporter_tick 1 demo_env (demo_at (demo_sg (Some CHR ''a'') (Some CHR ''b'') 2 2 2 1 ''a'' False 2 ''ab'' [] 0) (Some 1) [(SIGNAL_SPAN, ''a'')]) 0 () =
    Some (OTLP_OK, demo_end, ())"
  by (simp add: otlp_exporter_tick_def tick_round_def demo_drain [OF demo_drain_span(2)])
     (simp add: demo_round demo_end_def record_outcome_def clear_in_flight_batch_def otlp_exporter_event_log_def evt_init_def Let_def
    fun_eq_iff)

lemma demo_flush:
  "otlp_exporter_flush 2 demo_env (Some demo_end) () = Some (OTLP_OK, Some demo_end, ())"
proof -
  have d: "drain_signals demo_env SIGNALS demo_end False () = (demo_end, False, ())"
    by (simp add: SIGNALS_def drain_idle demo_end_def demo_at_def demo_sg_def signal_start_def demo_queue fresh_queue_def
        upt_rec del: drain_signals.simps(2))
  have s: "start_posts demo_env False 0 SIGNALS demo_end False () = (demo_end, False, ())"
    by (rule start_posts_idle) (simp_all add: demo_end_def demo_round)
  have f: "ex_null_transport demo_end = False" "ex_in_flight demo_end = None" "ex_backoff_armed demo_end = False"
      "ex_shutdown demo_end = False"
    by (simp_all add: demo_end_def demo_round)
  have w: "\<not> work_left demo_end"
    by (auto simp: work_left_def signal_left_def SIGNALS_def demo_end_def demo_at_def demo_sg_def signal_start_def
        demo_queue fresh_queue_def demo_start_def exporter_start_def)
  have "tick_round demo_env demo_end () = (demo_end, False, ())"
    by (simp add: tick_round_def d s f step_in_flight_def backoff_retry_def backoff_sleep_def)
  then have "otlp_exporter_tick 1 demo_env demo_end 100 () = Some (OTLP_OK, demo_end, ())"
    by (simp add: otlp_exporter_tick_def)
  then show ?thesis using w by (simp add: otlp_exporter_flush_def numeral_2_eq_2)
qed

lemma demo_reach:
  "ex_reach 0 demo_env (normalize_opts [] demo_opts) nb (demo_start nb)"
  unfolding demo_opts_normal demo_start_def by (rule ex_reach.created)

lemma demo_reach_end: "ex_reach 0 demo_env (normalize_opts [] demo_opts) False demo_end"
  by (rule ex_reach.tick [OF ex_reach.emit [OF ex_reach.tick [OF ex_reach.emit [OF demo_reach _ demo_emit_first]
        demo_tick_starts] _ demo_emit_second] demo_tick_completes])
     (simp_all add: ex_accepted_def demo_start_def exporter_start_def signal_start_def demo_at_def demo_sg_def TURN_LIMIT_def)

text \<open>A run with the null transport that has one item waiting.\<close>

lemma demo_null_run:
  obtains e where "ex_reach 0 demo_env (normalize_opts [] demo_opts) True e"
    "ex_accepted e SIGNAL_SPAN = ''a''" "ex_inv 0 e" "\<not> ex_backoff_armed e" "backlog e = 1"
proof -
  let ?e = "(demo_at (demo_sg (Some CHR ''a'') None 1 1 1 0 [] False 1 ''a'' [] 0) None [])\<lparr>ex_null_transport := True\<rparr>"
  have e: "emit_move_common (Some (demo_start True)) SIGNAL_SPAN (Some CHR ''a'') = Some (OTLP_OK, Some ?e)"
    by (simp add: emit_move_common_def demo_at_def demo_sg_def demo_defs demo_queue upt_rec fun_eq_iff)
  have r: "ex_reach 0 demo_env (normalize_opts [] demo_opts) True ?e"
    by (rule ex_reach.emit [OF demo_reach _ e])
       (simp add: ex_accepted_def demo_start_def exporter_start_def signal_start_def TURN_LIMIT_def)
  have b: "backlog ?e = 1" by (simp add: backlog_def SIGNALS_def queued_def demo_at_def demo_sg_def signal_start_def demo_queue)
  from ex_reach_inv [OF r normalize_batch] have "ex_inv 0 ?e" by blast
  with r b show ?thesis
    by (intro that [of ?e]) (simp_all add: ex_accepted_def demo_at_def demo_sg_def demo_start_def exporter_start_def)
qed

section \<open>What the options are normalised to\<close>

lemma normalized:
  "o_batch_size (normalize_opts v opt) =
     (if o_batch_size opt = 0 then 512 else min (o_batch_size opt) OTLP_MAX_BATCH_SIZE)"
  "o_batch_ms (normalize_opts v opt) = (if o_batch_ms opt = 0 then 100 else o_batch_ms opt)"
  "o_max_retries (normalize_opts v opt) = (if o_max_retries opt = 0 then 5 else o_max_retries opt)"
  "o_backoff_initial_ms (normalize_opts v opt) = (if o_backoff_initial_ms opt = 0 then 1000 else o_backoff_initial_ms opt)"
  "o_backoff_max_ms (normalize_opts v opt) = (if o_backoff_max_ms opt = 0 then 30000 else o_backoff_max_ms opt)"
  "o_flush_timeout_ms (normalize_opts v opt) = (if o_flush_timeout_ms opt = 0 then 30000 else o_flush_timeout_ms opt)"
  "o_queue_capacity (normalize_opts v opt) =
     round_up_pow2 (if o_queue_capacity opt = 0 then 4096 else o_queue_capacity opt)"
  by (simp_all add: normalize_opts_def Let_def OTLP_MAX_BATCH_SIZE_def)

section \<open>The retry budget\<close>

definition retryable :: "http_outcome \<Rightarrow> bool" where
  "retryable ho \<longleftrightarrow> ho_status ho = 0 \<or> ho_status ho = 429 \<or> (ho_status ho \<ge> 500 \<and> ho_status ho < 600)"

text \<open>The outcomes of the successive requests for one batch.\<close>

fun outcomes ::
  "('i, 'r, 'w) env \<Rightarrow> ('i, 'r) exporter \<Rightarrow> http_outcome list \<Rightarrow> 'w \<Rightarrow> ('i, 'r) exporter \<times> 'w" where
  "outcomes E e [] w = (e, w)"
| "outcomes E e (ho # hos) w = (case record_outcome E e ho w of (e1, w1) \<Rightarrow> outcomes E e1 hos w1)"

lemma record_retryable:
  assumes "retryable ho" and run: "record_outcome E e ho w = (e', w')"
  shows "if ex_attempt e + 1 > ex_max_retries e
    then ex_sig e' = (ex_sig e)(ex_in_flight_signal e := (ex_sig e (ex_in_flight_signal e))\<lparr>
        sg_dropped_err := sg_dropped_err (ex_sig e (ex_in_flight_signal e)) + word_of_nat (ex_in_flight_count e),
        sg_freed := sg_freed (ex_sig e (ex_in_flight_signal e)) @ sg_pending (ex_sig e (ex_in_flight_signal e)),
        sg_pending := [], sg_first_set := False\<rparr>) \<and> ex_attempt e' = 0 \<and> \<not> ex_backoff_armed e'
    else ex_sig e' = ex_sig e \<and> ex_attempt e' = ex_attempt e + 1 \<and> ex_backoff_armed e' \<and>
      ex_max_retries e' = ex_max_retries e \<and> ex_in_flight_signal e' = ex_in_flight_signal e \<and>
      ex_in_flight_count e' = ex_in_flight_count e"
proof -
  have no_ok: "\<not> (ho_status ho \<ge> 200 \<and> ho_status ho < 300)" using assms(1) by (auto simp: retryable_def)
  obtain e1 where e1: "ex_sig e1 = ex_sig e" "ex_attempt e1 = ex_attempt e + 1" "ex_max_retries e1 = ex_max_retries e"
      "ex_in_flight_signal e1 = ex_in_flight_signal e" "ex_in_flight_count e1 = ex_in_flight_count e"
    and out: "\<exists>ev st fl. (e', w') = (if ex_attempt e1 > ex_max_retries e1
      then (drop_batch e1 (ex_in_flight_signal e) (word_of_nat (ex_in_flight_count e)) ev, w)
      else arm_backoff E e1 (ex_in_flight_signal e) st fl w)"
  proof (cases "ho_status ho = 0")
    case True
    let ?e1 = "e\<lparr>ex_network_err := ex_network_err e + 1, ex_attempt := ex_attempt e + 1\<rparr>"
    have run': "(e', w') = (if ex_attempt ?e1 > ex_max_retries ?e1 then
        (drop_batch ?e1 (ex_in_flight_signal e) (word_of_nat (ex_in_flight_count e))
          ((evt_init OTLP_EVT_ITEMS_DROPPED OTLP_LOG_ERROR (ex_in_flight_signal e))\<lparr>
           evt_count := word_of_nat (ex_in_flight_count e), evt_max_retries := ex_max_retries ?e1,
           evt_drop_reason := OTLP_DROP_MAX_RETRIES\<rparr>), w)
        else arm_backoff E ?e1 (ex_in_flight_signal e) 0 0 w)"
      using run True unfolding record_outcome_def Let_def by argo
    show ?thesis by (rule that [of ?e1]) (simp_all, use run' in auto)
  next
    case False
    define e0 where "e0 = (if ho_status ho = 429 then e\<lparr>ex_http_4xx := ex_http_4xx e + 1\<rparr>
      else e\<lparr>ex_http_5xx := ex_http_5xx e + 1\<rparr>)"
    have busy: "ho_status ho = 429 \<or> (ho_status ho \<ge> 500 \<and> ho_status ho < 600)"
      using assms(1) False by (auto simp: retryable_def)
    let ?e1 = "e0\<lparr>ex_attempt := ex_attempt e0 + 1\<rparr>"
    have run': "(e', w') = (if ex_attempt ?e1 > ex_max_retries ?e1 then
        (drop_batch ?e1 (ex_in_flight_signal e) (word_of_nat (ex_in_flight_count e))
          ((evt_init OTLP_EVT_ITEMS_DROPPED OTLP_LOG_ERROR (ex_in_flight_signal e))\<lparr>
           evt_count := word_of_nat (ex_in_flight_count e),
           evt_http_status := ho_status ho, evt_max_retries := ex_max_retries ?e1,
           evt_drop_reason := OTLP_DROP_MAX_RETRIES\<rparr>), w)
        else arm_backoff E ?e1 (ex_in_flight_signal e) (ho_status ho) (ho_retry_after_ms ho) w)"
      using run busy no_ok False unfolding record_outcome_def Let_def e0_def by argo
    show ?thesis by (rule that [of ?e1]) (simp_all add: e0_def, use run' in \<open>auto simp: e0_def\<close>)
  qed
  show ?thesis
  proof (cases "ex_attempt e1 > ex_max_retries e1")
    case True
    with out obtain ev where "e' = drop_batch e1 (ex_in_flight_signal e) (word_of_nat (ex_in_flight_count e)) ev" by auto
    then show ?thesis using True e1 by (simp add: drop_batch_def clear_in_flight_batch_def)
  next
    case False
    with out obtain st fl where "arm_backoff E e1 (ex_in_flight_signal e) st fl w = (e', w')" by auto
    from arm_backoff_effect [OF this] False e1 show ?thesis by (auto simp: same_frame_def)
  qed
qed

lemma outcomes_budget:
  "\<forall>ho \<in> set hos. retryable ho \<Longrightarrow> hos \<noteq> [] \<Longrightarrow> unat (ex_max_retries e) < 2 ^ 32 - 1 \<Longrightarrow>
   unat (ex_attempt e) + length hos \<le> unat (ex_max_retries e) + 1 \<Longrightarrow> outcomes E e hos w = (e', w') \<Longrightarrow>
   (if unat (ex_attempt e) + length hos \<le> unat (ex_max_retries e)
    then ex_sig e' = ex_sig e \<and> ex_backoff_armed e' \<and> unat (ex_attempt e') = unat (ex_attempt e) + length hos
    else ex_sig e' = (ex_sig e)(ex_in_flight_signal e := (ex_sig e (ex_in_flight_signal e))\<lparr>
        sg_dropped_err := sg_dropped_err (ex_sig e (ex_in_flight_signal e)) + word_of_nat (ex_in_flight_count e),
        sg_freed := sg_freed (ex_sig e (ex_in_flight_signal e)) @ sg_pending (ex_sig e (ex_in_flight_signal e)),
        sg_pending := [], sg_first_set := False\<rparr>) \<and> ex_attempt e' = 0 \<and> \<not> ex_backoff_armed e')"
proof (induction hos arbitrary: e w)
  case (Cons ho hos)
  obtain e1 w1 where r: "record_outcome E e ho w = (e1, w1)" by fastforce
  have o: "outcomes E e1 hos w1 = (e', w')" using Cons.prems(5) r by simp
  have le: "unat (ex_attempt e) \<le> unat (ex_max_retries e)" using Cons.prems(4) by simp
  have suc: "unat (ex_attempt e + 1) = Suc (unat (ex_attempt e))"
    using le Cons.prems(3) by (simp add: unat_word_ariths)
  have ret: "retryable ho" using Cons.prems(1) by simp
  have gt: "ex_attempt e + 1 > ex_max_retries e \<longleftrightarrow> unat (ex_attempt e) = unat (ex_max_retries e)"
    using le by (simp add: word_less_nat_alt suc less_Suc_eq_le le_antisym) linarith
  show ?case
  proof (cases "unat (ex_attempt e) = unat (ex_max_retries e)")
    case True
    then have "hos = []" using Cons.prems(4) by (cases hos) simp_all
    with record_retryable [OF ret r] o gt True show ?thesis by simp
  next
    case False
    with record_retryable [OF ret r] gt
    have s: "ex_sig e1 = ex_sig e" "ex_attempt e1 = ex_attempt e + 1" "ex_backoff_armed e1"
      "ex_max_retries e1 = ex_max_retries e" "ex_in_flight_signal e1 = ex_in_flight_signal e"
      "ex_in_flight_count e1 = ex_in_flight_count e" by simp_all
    show ?thesis
    proof (cases "hos = []")
      case True
      then show ?thesis using o s False le suc by simp
    next
      case ne: False
      have "\<forall>ho \<in> set hos. retryable ho" "unat (ex_max_retries e1) < 2 ^ 32 - 1"
        "unat (ex_attempt e1) + length hos \<le> unat (ex_max_retries e1) + 1"
        using Cons.prems s suc by simp_all
      from Cons.IH [OF this(1) ne this(2,3) o] show ?thesis by (simp add: s suc)
    qed
  qed
qed simp

section \<open>Emit\<close>

lemma emit_outcomes:
  assumes inv: "ex_inv k e" and lim: "length (ex_accepted e s) < TURN_LIMIT"
  shows "case emit_move_common (Some e) s (Some x) of
      Some (st, Some e') \<Rightarrow>
        if ex_shutdown e then st = OTLP_ERR_SHUTDOWN \<and> e' = e
        else if length (queued (ex_sig e s)) = 2 ^ ring_exp k
        then st = OTLP_ERR_BUFFER_FULL \<and> queued (ex_sig e' s) = queued (ex_sig e s) \<and>
          sg_dropped_full (ex_sig e' s) = sg_dropped_full (ex_sig e s) + 1
        else st = OTLP_OK \<and> queued (ex_sig e' s) = queued (ex_sig e s) @ [x] \<and>
          sg_emitted (ex_sig e' s) = sg_emitted (ex_sig e s) + 1
    | _ \<Rightarrow> False"
proof (cases "ex_shutdown e")
  case True
  then show ?thesis by (simp add: emit_move_common_def)
next
  case up: False
  let ?sg = "ex_sig e s"
  have si: "sg_inv k ?sg" using inv by (simp add: ex_inv_def ex_core_def)
  obtain xs where rep: "mpsc_rep (ring_exp k) (sg_queue ?sg) (length (sg_accepted ?sg)) xs"
      and acc: "sg_accepted ?sg = sg_freed ?sg @ sg_pending ?sg @ xs"
    using sg_invE [OF si] .
  have q: "queued ?sg = xs" using sg_inv_queued(1) [OF si] acc by simp
  have lt: "length (sg_accepted ?sg) < TURN_LIMIT" using lim by (simp add: ex_accepted_def)
  obtain st e' where em: "emit_move_common (Some e) s (Some x) = Some (st, Some e')" and i': "ex_inv k e'"
    and a': "ex_accepted e' = (ex_accepted e)(s := ex_accepted e s @ (if st = OTLP_OK then [x] else []))"
    using emit_move_inv [OF inv lim refl, of x] by blast
  show ?thesis
  proof (cases "length xs = 2 ^ ring_exp k")
    case True
    from ring.push_full [OF rep lt True] up True q em show ?thesis
      by (auto simp: emit_move_common_def queued_def)
  next
    case False
    then have "length xs < 2 ^ ring_exp k" using ring.rep_cap [OF rep] by linarith
    from ring.push_room [OF rep lt this] obtain r where r: "mpsc_queue_push (sg_queue ?sg) x = Some (OTLP_OK, r)" by blast
    then have e': "st = OTLP_OK" "ex_sig e' s = ?sg\<lparr>sg_queue := r, sg_emitted := sg_emitted ?sg + 1,
        sg_accepted := sg_accepted ?sg @ [x]\<rparr>"
      using em up by (auto simp: emit_move_common_def Let_def)
    have "sg_inv k (ex_sig e' s)" using i' by (simp add: ex_inv_def ex_core_def)
    from sg_inv_queued(1) [OF this] have "queued (ex_sig e' s) = xs @ [x]" using acc by (simp add: e'(2))
    then show ?thesis using em e' up False q by simp
  qed
qed

section \<open>Properties of the exporter\<close>



text \<open>
  With the null transport the accounting is exact: every item ever accepted is sent, counted
  as dropped, in the batch or in the queue.
\<close>

theorem exporter_null_accounting:
  assumes "ex_reach k E (normalize_opts v opt) True e"
  shows "unat (sg_emitted (ex_sig e s)) = unat (sg_sent (ex_sig e s)) + unat (sg_dropped_err (ex_sig e s)) +
    length (sg_pending (ex_sig e s)) + length (queued (ex_sig e s))"
proof -
  have inv: "ex_inv k e" "ex_null_transport e" using ex_reach_inv [OF assms normalize_batch] by auto
  then have sg: "sg_inv k (ex_sig e s)"
    and x: "sg_sent (ex_sig e s) + sg_dropped_err (ex_sig e s) = word_of_nat (length (sg_freed (ex_sig e s)))"
    by (simp_all add: ex_inv_def ex_core_def ex_exact_def)
  have "length (sg_accepted (ex_sig e s)) = length (sg_freed (ex_sig e s)) + length (sg_pending (ex_sig e s)) + length (queued (ex_sig e s))"
    using arg_cong [OF sg_inv_queued(1) [OF sg], of length] by simp
  with sg_inv_counters(1) [OF sg] sg_inv_counters(2) [OF sg x] show ?thesis by simp
qed

theorem exporter_null_accounting_witness:
  "\<exists>e. ex_reach 0 demo_env (normalize_opts [] demo_opts) True e \<and> sg_accepted (ex_sig e SIGNAL_SPAN) = ''a'' \<and>
    unat (sg_emitted (ex_sig e SIGNAL_SPAN)) = unat (sg_sent (ex_sig e SIGNAL_SPAN)) +
      unat (sg_dropped_err (ex_sig e SIGNAL_SPAN)) + length (sg_pending (ex_sig e SIGNAL_SPAN)) +
      length (queued (ex_sig e SIGNAL_SPAN))"
proof (rule demo_null_run)
  fix e :: "(char, nat) exporter"
  assume e: "ex_reach 0 demo_env (normalize_opts [] demo_opts) True e" "ex_accepted e SIGNAL_SPAN = ''a''"
  from exporter_null_accounting [OF e(1), of SIGNAL_SPAN] e show ?thesis by (auto simp: ex_accepted_def)
qed

text \<open>
  A tick with the null transport returns, whatever the clock and the statuses: the number of
  rounds is bounded by three times the items waiting.
\<close>

theorem exporter_null_tick_terminates:
  assumes "ex_reach k E (normalize_opts v opt) True e" and "3 * backlog e + 1 < fuel"
  shows "\<exists>e' w'. otlp_exporter_tick fuel E e ms w = Some (OTLP_OK, e', w')"
proof -
  have inv: "ex_inv k e" "ex_null_transport e" using ex_reach_inv [OF assms(1) normalize_batch] by auto
  have "weight e < fuel" using weight_backlog [of e] assms(2) by linarith
  with null_tick_loop_returns [OF inv] show ?thesis
    by (fastforce simp: otlp_exporter_tick_def split: prod.splits)
qed

theorem exporter_null_tick_terminates_witness:
  "\<exists>e e' w'. ex_reach 0 demo_env (normalize_opts [] demo_opts) True e \<and> sg_accepted (ex_sig e SIGNAL_SPAN) = ''a'' \<and>
    otlp_exporter_tick 5 demo_env e 0 () = Some (OTLP_OK, e', w')"
proof (rule demo_null_run)
  fix e :: "(char, nat) exporter"
  assume e: "ex_reach 0 demo_env (normalize_opts [] demo_opts) True e" "ex_accepted e SIGNAL_SPAN = ''a''" "backlog e = 1"
  from exporter_null_tick_terminates [OF e(1), of 5 0 "()"] e show ?thesis by (auto simp: ex_accepted_def)
qed

text \<open>
  A flush that returns OK has left nothing behind: no request is in flight, every batch and
  every queue is empty, and so every accepted item has been given back.
\<close>

theorem exporter_flush_ok_means_empty:
  assumes "ex_reach k E (normalize_opts v opt) nb e"
    and "otlp_exporter_flush fuel E (Some e) w = Some (OTLP_OK, Some e', w')"
  shows "ex_in_flight e' = None \<and> sg_pending (ex_sig e' s) = [] \<and> queued (ex_sig e' s) = [] \<and>
    sg_freed (ex_sig e' s) = sg_accepted (ex_sig e s)"
proof -
  have "ex_reach k E (normalize_opts v opt) nb e'" by (rule ex_reach.flush [OF assms])
  from ex_reach_inv [OF this normalize_batch] have inv: "ex_inv k e'" by blast
  have f: "same_frame e e'" using flush_inv [OF _ assms(2)] ex_reach_inv [OF assms(1) normalize_batch] by blast
  have "\<not> work_left e'"
    using assms(2) by (auto simp: otlp_exporter_flush_def split: option.splits prod.splits if_splits)
  then have "ex_in_flight e' = None" and b: "backlog e' = 0" using work_left_iff [OF inv] by auto
  moreover have p: "sg_pending (ex_sig e' s) = []" "queued (ex_sig e' s) = []"
    using b by (cases s; simp add: backlog_def SIGNALS_def)+
  moreover have "sg_inv k (ex_sig e' s)" using inv by (simp add: ex_inv_def ex_core_def)
  from sg_inv_queued(1) [OF this] p have "sg_freed (ex_sig e' s) = sg_accepted (ex_sig e' s)" by simp
  moreover have "sg_accepted (ex_sig e' s) = sg_accepted (ex_sig e s)"
    using f by (auto simp: same_frame_def ex_accepted_def dest: fun_cong)
  ultimately show ?thesis by simp
qed

theorem exporter_flush_ok_means_empty_witness:
  "otlp_exporter_flush 2 demo_env (Some demo_end) () = Some (OTLP_OK, Some demo_end, ()) \<and>
    queued (ex_sig demo_end SIGNAL_SPAN) = []"
  using exporter_flush_ok_means_empty [OF demo_reach_end demo_flush, of SIGNAL_SPAN] demo_flush by simp






text \<open>
  The options the exporter runs with are usable whatever the caller gave: the batch size lies
  between 1 and its maximum, no timing is zero, and the queue capacity is a power of two, the
  least one not below the request as long as one fits.
\<close>

theorem normalize_opts_usable:
  "let o' = normalize_opts v opt in
     0 < o_batch_size o' \<and> o_batch_size o' \<le> OTLP_MAX_BATCH_SIZE \<and> 0 < o_batch_ms o' \<and> 0 < o_max_retries o' \<and>
     0 < o_backoff_initial_ms o' \<and> 0 < o_backoff_max_ms o' \<and> 0 < o_flush_timeout_ms o' \<and>
     (\<exists>j. o_queue_capacity o' = 2 ^ j) \<and>
     (if o_queue_capacity opt \<in> {1..2 ^ 63}
      then o_queue_capacity opt \<le> o_queue_capacity o' \<and> o_queue_capacity o' < 2 * o_queue_capacity opt else True)"
  using round_up_pow2_spec [of "o_queue_capacity opt"] round_up_pow2_spec [of 4096]
  by (cases "o_queue_capacity opt = 0")
     (simp_all add: Let_def normalized OTLP_MAX_BATCH_SIZE_def word_gt_0 min_def)

text \<open>
  Emit is honest: it refuses after shutdown without touching anything; it reports BUFFER_FULL,
  counts the item as dropped and keeps the queue exactly when the ring is full; otherwise it
  appends the item at the end of the queue, counts it and returns OK. It always returns.
\<close>

theorem exporter_emit_outcomes:
  assumes "ex_reach k E (normalize_opts v opt) nb e" and "length (ex_accepted e s) < TURN_LIMIT"
  shows "case emit_move_common (Some e) s (Some x) of
      Some (st, Some e') \<Rightarrow>
        if ex_shutdown e then st = OTLP_ERR_SHUTDOWN \<and> e' = e
        else if length (queued (ex_sig e s)) = 2 ^ ring_exp k
        then st = OTLP_ERR_BUFFER_FULL \<and> queued (ex_sig e' s) = queued (ex_sig e s) \<and>
          sg_dropped_full (ex_sig e' s) = sg_dropped_full (ex_sig e s) + 1
        else st = OTLP_OK \<and> queued (ex_sig e' s) = queued (ex_sig e s) @ [x] \<and>
          sg_emitted (ex_sig e' s) = sg_emitted (ex_sig e s) + 1
    | _ \<Rightarrow> False"
  using emit_outcomes [OF _ assms(2)] ex_reach_inv [OF assms(1) normalize_batch] by blast

theorem exporter_emit_outcomes_witness:
  "case emit_move_common (Some (demo_start False)) SIGNAL_SPAN (Some CHR ''a'') of
      Some (st, Some e') \<Rightarrow> queued (ex_sig e' SIGNAL_SPAN) = ''a''
    | _ \<Rightarrow> False"
proof -
  have "length (queued (ex_sig (demo_start False) SIGNAL_SPAN)) = 0" "\<not> ex_shutdown (demo_start False)"
    by (simp_all add: queued_def demo_start_def exporter_start_def signal_start_def)
  moreover have "length (ex_accepted (demo_start False) SIGNAL_SPAN) < TURN_LIMIT"
    by (simp add: ex_accepted_def demo_start_def exporter_start_def signal_start_def TURN_LIMIT_def)
  ultimately show ?thesis
    using exporter_emit_outcomes [OF demo_reach, of False SIGNAL_SPAN "CHR ''a''"]
    by (auto simp: demo_emit_first split: if_splits)
qed

end
