(* ===== verification/Msg_Build.thy ===== *)
theory Msg_Build
  imports Pb_Decode Otlp_Schema Attr
begin

text \<open>
  The shape every message encoder of the program has, and how it is reasoned about. An encoder
  builds each sub-message in a zeroed local buffer, embeds the buffer in its parent and frees
  it: \<open>with_sub\<close>. What an encoder means is an abstract message, the list of its fields:
  \<open>msg_emits A op m\<close> says that \<open>op\<close> appends the serialization of \<open>m\<close>.
\<close>

section \<open>Local buffers\<close>

text \<open>
  \<^verbatim>\<open>struct otlp_pb_buf sub = { 0 }; st = otlp_pb_buf_init(&sub, 0); st = body(&sub); if (st == OTLP_OK)
  st = use(parent, sub.data, sub.len); otlp_pb_buf_free(&sub);\<close>
\<close>

definition with_sub ::
  "'m allocator \<Rightarrow> ('m pbst \<Rightarrow> status \<times> 'm pbst) \<Rightarrow> (u8 list \<Rightarrow> 'm pbst \<Rightarrow> status \<times> 'm pbst) \<Rightarrow>
     'm pbst \<Rightarrow> status \<times> 'm pbst" where
  "with_sub A body use parent =
     (case parent of (b, m) \<Rightarrow>
      (case otlp_pb_buf_init A 0 (pb_zero, m) of (st, sub, m1) \<Rightarrow>
        if st \<noteq> OTLP_OK then (st, b, m1)
        else (case body (sub, m1) of (st, sub1, m2) \<Rightarrow>
          if st \<noteq> OTLP_OK then (st, b, m2) else use (pb_data sub1) (b, m2))))"

text \<open>The usual \<^verbatim>\<open>use\<close>: a length-delimited field of the parent.\<close>

definition field_sub ::
  "'m allocator \<Rightarrow> u32 \<Rightarrow> ('m pbst \<Rightarrow> status \<times> 'm pbst) \<Rightarrow> 'm pbst \<Rightarrow> status \<times> 'm pbst" where
  "field_sub A f body = with_sub A body (\<lambda>d. otlp_pb_field_message A f (Some d) (length d))"

text \<open>A loop that stops at the first failure.\<close>

fun each_ok :: "('a \<Rightarrow> 's \<Rightarrow> status \<times> 's) \<Rightarrow> 'a list \<Rightarrow> 's \<Rightarrow> status \<times> 's" where
  "each_ok f [] = ret_ok"
| "each_ok f (x # xs) = then_ok (f x) (each_ok f xs)"

text \<open>\<^verbatim>\<open>if (c) { st = op; if (st != OTLP_OK) ...; }\<close>\<close>

definition when_ok :: "bool \<Rightarrow> ('s \<Rightarrow> status \<times> 's) \<Rightarrow> 's \<Rightarrow> status \<times> 's" where
  "when_ok c op = (if c then op else ret_ok)"

text \<open>The test \<^verbatim>\<open>s && s[0]\<close>, and \<^verbatim>\<open>s ? s : ""\<close>.\<close>

definition str_set :: "cstr option \<Rightarrow> bool" where
  "str_set s = (case s of None \<Rightarrow> False | Some t \<Rightarrow> cstr_at t 0 \<noteq> Some 0)"

definition or_nil :: "cstr option \<Rightarrow> cstr" where
  "or_nil s = (case s of None \<Rightarrow> [] | Some t \<Rightarrow> t)"

section \<open>Abstract messages\<close>

text \<open>A sub-message field is left out when it is empty.\<close>

definition sub_msg :: "u32 \<Rightarrow> pb_msg \<Rightarrow> pb_msg" where
  "sub_msg f m = (if m = [] then [] else [(f, PLen (ser_msg m))])"

definition varint_msg :: "u32 \<Rightarrow> u64 \<Rightarrow> pb_msg" where
  "varint_msg f v = (if v = 0 then [] else [(f, PVarint v)])"

definition fixed64_msg :: "u32 \<Rightarrow> u64 \<Rightarrow> pb_msg" where
  "fixed64_msg f v = (if v = 0 then [] else [(f, PFixed64 v)])"

definition string_msg :: "u32 \<Rightarrow> cstr option \<Rightarrow> pb_msg" where
  "string_msg f s = (if str_set s then [(f, PLen (or_nil s))] else [])"

definition bytes_msg :: "u32 \<Rightarrow> u8 list \<Rightarrow> pb_msg" where
  "bytes_msg f d = (if d = [] then [] else [(f, PLen d)])"

definition when_msg :: "bool \<Rightarrow> pb_msg \<Rightarrow> pb_msg" where
  "when_msg c m = (if c then m else [])"

lemma ser_msg_Nil [simp]: "ser_msg [] = []"
  and ser_msg_append: "ser_msg (a @ b) = ser_msg a @ ser_msg b"
  and ser_msg_Cons: "ser_msg (x # a) = field_enc x @ ser_msg a"
  by (simp_all add: ser_msg_def)

lemma tag_bytes_nonempty [simp]: "tag_bytes f w \<noteq> []"
  by (simp add: tag_bytes_def)

lemma ser_msg_eq_Nil [simp]: "ser_msg m = [] \<longleftrightarrow> m = []"
  by (cases m) (auto simp: ser_msg_Cons)

lemma length_len_delim: "length xs < length (len_delim xs)"
  by (simp add: len_delim_def)

lemma length_sub_msg: "length (ser_msg m) \<le> length (ser_msg (sub_msg f m))"
  using length_len_delim [of "ser_msg m"] by (auto simp: sub_msg_def ser_msg_Cons)

lemma payload_le: "(f, PLen d) \<in> set m \<Longrightarrow> length d \<le> length (ser_msg m)"
proof (induction m)
  case (Cons x m)
  then show ?case using length_len_delim [of d] by (auto simp: ser_msg_Cons)
qed simp

text \<open>Every message that fits in memory parses back, when no field has number 0.\<close>

lemma wf_msg:
  assumes "length (ser_msg m) \<le> SIZE_MAX" "\<forall>(f, v) \<in> set m. f \<noteq> 0"
  shows "list_all wf_field m"
  unfolding list_all_iff
proof
  fix x assume x: "x \<in> set m"
  obtain f v where fv: "x = (f, v)" by (cases x)
  with x assms show "wf_field x" using payload_le [of f _ m] by (cases v) (auto intro: order_trans)
qed

section \<open>Emission of messages\<close>

definition val_emits :: "'m allocator \<Rightarrow> ('m pbst \<Rightarrow> status \<times> 'm pbst) \<Rightarrow> pb_value \<Rightarrow> bool" where
  "val_emits A op v \<longleftrightarrow> (length (value_bytes v) \<le> SIZE_MAX \<longrightarrow> pb_emits A op (value_bytes v))"

definition msg_emits :: "'m allocator \<Rightarrow> ('m pbst \<Rightarrow> status \<times> 'm pbst) \<Rightarrow> pb_msg \<Rightarrow> bool" where
  "msg_emits A op m \<longleftrightarrow> (length (ser_msg m) \<le> SIZE_MAX \<longrightarrow> pb_emits A op (ser_msg m))"

lemma buf_init_0: "otlp_pb_buf_init A 0 (b, m) = (OTLP_OK, \<lparr>pb_data = [], pb_cap = OTLP_PB_SBO_SIZE, pb_owns_heap = False\<rparr>, m)"
  by (simp add: otlp_pb_buf_init_def)

lemma fresh_sub_inv: "pb_inv (\<lparr>pb_data = [], pb_cap = OTLP_PB_SBO_SIZE, pb_owns_heap = False\<rparr>, m)"
  by (simp add: pb_inv_def OTLP_PB_SBO_SIZE_def SIZE_MAX_def)

text \<open>
  A local buffer that receives \<open>d\<close> and whose use appends \<open>e\<close>: together they append \<open>e\<close>. A
  failure in the body leaves the parent alone. The body succeeds whenever the result fits,
  because \<open>d\<close> is no longer than \<open>e\<close>.
\<close>

lemma with_sub_emits:
  assumes body: "pb_emits A body d" and use_e: "length d \<le> SIZE_MAX \<Longrightarrow> pb_emits A (use d) e"
    and le: "length d \<le> length e"
  shows "pb_emits A (with_sub A body use) e"
proof (rule emitsI)
  fix s st s' assume inv: "pb_inv s" and eq: "with_sub A body use s = (st, s')"
  obtain b m where s: "s = (b, m)" by (cases s)
  let ?sub = "\<lparr>pb_data = [], pb_cap = OTLP_PB_SBO_SIZE, pb_owns_heap = False\<rparr> :: pb_buf"
  obtain st1 sub1 m2 where run: "body (?sub, m) = (st1, sub1, m2)" by (rule prod_cases3)
  have inv1: "pb_inv (sub1, m2)" by (rule emits_inv [OF body fresh_sub_inv run])
  have e: "with_sub A body use s = (if st1 \<noteq> OTLP_OK then (st1, b, m2) else use (pb_data sub1) (b, m2))"
    by (simp add: with_sub_def s buf_init_0 run)
  have pb: "pb_inv (b, m2)" "pb_content (b, m2) = pb_content s" using inv by (simp_all add: s pb_inv_def pb_content_def split: if_splits)
  have ok: "pb_data sub1 = d \<and> length d \<le> SIZE_MAX" if "st1 = OTLP_OK"
    using emits_OK [OF body fresh_sub_inv, of m "(sub1, m2)"] run that inv1
    by (simp add: pb_content_def pb_inv_def)
  { assume bad: "st1 \<noteq> OTLP_OK"
    then have r: "st = st1" "s' = (b, m2)" using eq e by simp_all
    have "\<not> pb_fits A (length (pb_content s) + length e)"
    proof
      assume "pb_fits A (length (pb_content s) + length e)"
      then have "pb_fits A (length d)" by (rule pb_fits_mono) (use le in simp)
      then have "pb_fits A (length (pb_content (?sub, m)) + length d)" by (simp add: pb_content_def)
      from emits_total [OF body fresh_sub_inv run this] bad show False by simp
    qed
    with r pb bad have "pb_inv s' \<and> (\<exists>ys. pb_content s' = pb_content s @ ys \<and> prefix ys e \<and> (st = OTLP_OK \<longrightarrow> ys = e)) \<and>
      (pb_fits A (length (pb_content s) + length e) \<longrightarrow> st = OTLP_OK)" by auto }
  moreover
  { assume good: "st1 = OTLP_OK"
    with eq e ok have u: "use d (b, m2) = (st, s')" by simp
    note ue = use_e [OF ok [OF good, THEN conjunct2]]
    have "pb_inv s' \<and> (\<exists>ys. pb_content s' = pb_content s @ ys \<and> prefix ys e \<and> (st = OTLP_OK \<longrightarrow> ys = e)) \<and>
      (pb_fits A (length (pb_content s) + length e) \<longrightarrow> st = OTLP_OK)"
      using ue u pb unfolding emits_def by metis }
  ultimately have all: "pb_inv s' \<and> (\<exists>ys. pb_content s' = pb_content s @ ys \<and> prefix ys e \<and> (st = OTLP_OK \<longrightarrow> ys = e)) \<and>
      (pb_fits A (length (pb_content s) + length e) \<longrightarrow> st = OTLP_OK)" by blast
  then show "pb_inv s'" "\<exists>ys. pb_content s' = pb_content s @ ys \<and> prefix ys e \<and> (st = OTLP_OK \<longrightarrow> ys = e)"
    by blast+
  show "pb_fits A (length (pb_content s) + length e) \<Longrightarrow> st = OTLP_OK" using all by blast
qed

lemma len_field_sub_msg: "f \<noteq> 0 \<Longrightarrow> len_field f (ser_msg m) = ser_msg (sub_msg f m)"
  by (simp add: len_field_def sub_msg_def ser_msg_Cons)

text \<open>The rules the encoders are proved with, one per construct.\<close>

lemma msg_ret: "msg_emits A ret_ok []" and msg_ret': "msg_emits A (Pair OTLP_OK) []"
  using pb.emits_ret_ok [of A] by (simp_all add: msg_emits_def ret_ok_def [abs_def])

lemma msg_then: "msg_emits A f a \<Longrightarrow> msg_emits A g b \<Longrightarrow> msg_emits A (then_ok f g) (a @ b)"
  unfolding msg_emits_def ser_msg_append by (auto intro: pb.emits_then_ok)

lemma msg_when: "(c \<Longrightarrow> msg_emits A op m) \<Longrightarrow> msg_emits A (when_ok c op) (when_msg c m)"
  by (simp add: when_ok_def when_msg_def msg_ret)

lemma msg_each: "(\<And>x. x \<in> set xs \<Longrightarrow> msg_emits A (f x) (g x)) \<Longrightarrow> msg_emits A (each_ok f xs) (concat (map g xs))"
  by (induction xs) (auto simp: msg_ret intro: msg_then)

lemma msg_with_sub:
  assumes "msg_emits A body m" and "msg_emits A (use (ser_msg m)) e" and "length (ser_msg m) \<le> length (ser_msg e)"
  shows "msg_emits A (with_sub A body use) e"
  unfolding msg_emits_def
proof
  assume "length (ser_msg e) \<le> SIZE_MAX"
  with assms show "pb_emits A (with_sub A body use) (ser_msg e)"
    by (intro with_sub_emits [where d = "ser_msg m"]) (auto simp: msg_emits_def)
qed

lemma msg_message: "f \<noteq> 0 \<Longrightarrow> msg_emits A (otlp_pb_field_message A f (Some (ser_msg m)) (length (ser_msg m))) (sub_msg f m)"
  unfolding msg_emits_def
  using field_message_emits [of f "ser_msg m" A] length_sub_msg [of m f] by (auto simp: len_field_sub_msg)

lemma msg_sub: "msg_emits A body m \<Longrightarrow> f \<noteq> 0 \<Longrightarrow> msg_emits A (field_sub A f body) (sub_msg f m)"
  unfolding field_sub_def by (rule msg_with_sub) (auto intro: msg_message length_sub_msg)

lemma msg_field: "val_emits A op v \<Longrightarrow> f \<noteq> 0 \<Longrightarrow> w = pb_wire v \<Longrightarrow> msg_emits A (then_ok (otlp_pb_tag A f w) op) [(f, v)]"
  unfolding msg_emits_def val_emits_def
  by (cases v) (auto simp: ser_msg_Cons intro!: pb.emits_then_ok tag_emits)

lemma val_prims:
  "val_emits A (otlp_pb_varint A x) (PVarint x)" "val_emits A (otlp_pb_fixed64 A x) (PFixed64 x)"
  "val_emits A (otlp_pb_fixed32 A y) (PFixed32 y)" "val_emits A (otlp_pb_string A (Some s)) (PLen s)"
  "length s = n \<Longrightarrow> val_emits A (otlp_pb_bytes A (Some s) n) (PLen s)"
  using length_len_delim [of s]
  by (auto simp: val_emits_def intro!: primitive_emits)

lemma val_sub:
  assumes "msg_emits A body m"
  shows "val_emits A (with_sub A body (\<lambda>d. otlp_pb_bytes A (Some d) (length d))) (PLen (ser_msg m))"
  unfolding val_emits_def
proof
  let ?d = "ser_msg m"
  assume "length (value_bytes (PLen ?d)) \<le> SIZE_MAX"
  then have le: "length ?d \<le> SIZE_MAX" using length_len_delim [of ?d] by simp
  with assms show "pb_emits A (with_sub A body (\<lambda>d. otlp_pb_bytes A (Some d) (length d))) (value_bytes (PLen ?d))"
    using length_len_delim [of ?d] by (intro with_sub_emits [where d = ?d]) (auto simp: msg_emits_def intro: bytes_emits)
qed

lemma msg_varint: "f \<noteq> 0 \<Longrightarrow> msg_emits A (otlp_pb_field_varint A f v) (varint_msg f v)"
  using field_varint_emits [of f A v] by (cases "v = 0") (simp_all add: msg_emits_def varint_msg_def varint_field_def ser_msg_Cons)

lemma msg_fixed64: "f \<noteq> 0 \<Longrightarrow> msg_emits A (otlp_pb_field_fixed64 A f v) (fixed64_msg f v)"
  using field_fixed64_emits [of f A v] by (cases "v = 0") (simp_all add: msg_emits_def fixed64_msg_def fixed64_field_def ser_msg_Cons)

lemma msg_bytes: "f \<noteq> 0 \<Longrightarrow> length d = n \<Longrightarrow> msg_emits A (otlp_pb_field_bytes A f (Some d) n) (bytes_msg f d)"
  using field_bytes_emits [of f d A] length_len_delim [of d]
  by (auto simp: msg_emits_def bytes_msg_def len_field_def ser_msg_Cons)

lemma msg_string: "f \<noteq> 0 \<Longrightarrow> msg_emits A (when_ok (str_set s) (otlp_pb_field_string A f s)) (string_msg f s)"
proof (cases "str_set s")
  case True
  assume f: "f \<noteq> 0"
  obtain t where t: "s = Some t" "cstr_at t 0 \<noteq> Some 0" using True by (auto simp: str_set_def split: option.splits)
  have "msg_emits A (then_ok (otlp_pb_tag A f OTLP_PB_WIRE_LEN) (otlp_pb_bytes A (Some t) (length t))) [(f, PLen t)]"
    by (rule msg_field [OF val_prims(5) f]) simp_all
  with True t show ?thesis by (simp add: when_ok_def string_msg_def otlp_pb_field_string_def or_nil_def str_set_def)
qed (simp add: when_ok_def string_msg_def msg_ret)

lemma msg_cong: "msg_emits A op m \<Longrightarrow> m = m' \<Longrightarrow> msg_emits A op m'"
  by simp

lemmas msg_rules = msg_ret msg_then msg_when msg_each msg_sub msg_field msg_varint msg_fixed64 msg_bytes msg_string

text \<open>No field of a message built from nonzero numbers has number 0.\<close>

definition nz :: "pb_msg \<Rightarrow> bool" where
  "nz m \<longleftrightarrow> (\<forall>(f, v) \<in> set m. f \<noteq> 0)"

lemma nz_simps [simp]:
  "nz []" "nz (a @ b) \<longleftrightarrow> nz a \<and> nz b" "nz ((f, v) # a) \<longleftrightarrow> f \<noteq> 0 \<and> nz a"
  "nz (concat (map g xs)) \<longleftrightarrow> (\<forall>x \<in> set xs. nz (g x))"
  by (auto simp: nz_def)

lemma nz_fields [simp]:
  "f \<noteq> 0 \<Longrightarrow> nz (sub_msg f m)" "f \<noteq> 0 \<Longrightarrow> nz (varint_msg f v)" "f \<noteq> 0 \<Longrightarrow> nz (fixed64_msg f v)"
  "f \<noteq> 0 \<Longrightarrow> nz (string_msg f s)" "f \<noteq> 0 \<Longrightarrow> nz (bytes_msg f d)" "nz m \<Longrightarrow> nz (when_msg c m)"
  by (simp_all add: sub_msg_def varint_msg_def fixed64_msg_def string_msg_def bytes_msg_def when_msg_def)

text \<open>
  What the encoders' theorems say: the bytes appended are those of the message, and the
  program's own reader gives the message back from them.
\<close>

lemma msg_emits_run:
  assumes "msg_emits A op m" and "nz m" and "length (ser_msg m) \<le> SIZE_MAX"
    and "pb_inv s" and "op s = (st, s')"
  shows "pb_inv s' \<and> (\<exists>ys. pb_content s' = pb_content s @ ys \<and> prefix ys (ser_msg m) \<and>
      (st = OTLP_OK \<longrightarrow> ys = ser_msg m)) \<and>
    (pb_fits A (length (pb_content s) + length (ser_msg m)) \<longrightarrow> st = OTLP_OK) \<and>
    parse_msg (otlp_pb_reader_init (ser_msg m)) = Some m"
proof -
  have "parse_msg (otlp_pb_reader_init (ser_msg m)) = Some m"
    by (rule parse_ser_rest) (use wf_msg [OF assms(3)] assms(2) in
      \<open>simp_all add: otlp_pb_reader_init_def rd_ok_def rd_rest_def nz_def\<close>)
  with assms show ?thesis unfolding msg_emits_def emits_def by blast
qed

section \<open>Conformance to a field table\<close>

text \<open>
  A message conforms to a table when each of its fields is a row with that number and wire
  type, and no field that is not repeated occurs twice.
\<close>

definition has_row :: "('i \<Rightarrow> field_spec) \<Rightarrow> u32 \<Rightarrow> int \<Rightarrow> bool" where
  "has_row T f w \<longleftrightarrow> (\<exists>i. fs_number (T i) = f \<and> fs_wire (T i) = w)"

definition typed :: "('i \<Rightarrow> field_spec) \<Rightarrow> pb_msg \<Rightarrow> bool" where
  "typed T m \<longleftrightarrow> (\<forall>(f, v) \<in> set m. has_row T f (pb_wire v))"

definition field_count :: "u32 \<Rightarrow> pb_msg \<Rightarrow> nat" where
  "field_count f m = length (filter (\<lambda>x. fst x = f) m)"

definition conforms :: "('i \<Rightarrow> field_spec) \<Rightarrow> pb_msg \<Rightarrow> bool" where
  "conforms T m \<longleftrightarrow> typed T m \<and> (\<forall>i. \<not> fs_repeated (T i) \<longrightarrow> field_count (fs_number (T i)) m \<le> 1)"

lemma has_row_of: "has_row T (fs_number (T i)) (fs_wire (T i))"
  by (auto simp: has_row_def)

lemma typed_simps [simp]:
  "typed T []" "typed T (a @ b) \<longleftrightarrow> typed T a \<and> typed T b"
  "typed T ((f, v) # a) \<longleftrightarrow> has_row T f (pb_wire v) \<and> typed T a"
  "typed T (concat (map g xs)) \<longleftrightarrow> (\<forall>x \<in> set xs. typed T (g x))"
  by (auto simp: typed_def)

lemma typed_fields [simp]:
  "has_row T f OTLP_PB_WIRE_LEN \<Longrightarrow> typed T (sub_msg f m)"
  "has_row T f OTLP_PB_WIRE_VARINT \<Longrightarrow> typed T (varint_msg f x)"
  "has_row T f OTLP_PB_WIRE_FIXED64 \<Longrightarrow> typed T (fixed64_msg f x)"
  "has_row T f OTLP_PB_WIRE_LEN \<Longrightarrow> typed T (string_msg f s)"
  "has_row T f OTLP_PB_WIRE_LEN \<Longrightarrow> typed T (bytes_msg f d)"
  "typed T m \<Longrightarrow> typed T (when_msg c m)"
  by (simp_all add: sub_msg_def varint_msg_def fixed64_msg_def string_msg_def bytes_msg_def when_msg_def)

lemma field_count_simps [simp]:
  "field_count f [] = 0" "field_count f (a @ b) = field_count f a + field_count f b"
  "field_count f ((g, v) # a) = (if g = f then 1 else 0) + field_count f a"
  "field_count f (sub_msg g m) = (if g = f \<and> m \<noteq> [] then 1 else 0)"
  "field_count f (varint_msg g x) = (if g = f \<and> x \<noteq> 0 then 1 else 0)"
  "field_count f (fixed64_msg g x) = (if g = f \<and> x \<noteq> 0 then 1 else 0)"
  "field_count f (string_msg g s) = (if g = f \<and> str_set s then 1 else 0)"
  "field_count f (bytes_msg g d) = (if g = f \<and> d \<noteq> [] then 1 else 0)"
  "field_count f (when_msg c m) = (if c then field_count f m else 0)"
  by (auto simp: field_count_def sub_msg_def varint_msg_def fixed64_msg_def string_msg_def bytes_msg_def when_msg_def)

lemma field_count_concat [simp]:
  "(\<And>x. x \<in> set xs \<Longrightarrow> field_count f (g x) = 0) \<Longrightarrow> field_count f (concat (map g xs)) = 0"
  by (induction xs) auto

end
