(* ===== verification/Trace_Encode.thy ===== *)
theory Trace_Encode
  imports Msg_Build Span
begin

text \<open>
  The trace encoder (\<^verbatim>\<open>src/otlp_messages.c\<close>): attribute values with their nested arrays and
  key-value lists, the span body, resource, scope and the export request. Field numbers are
  read from the tables of \<open>Otlp_Schema\<close>, as in the code. A span pointer is a \<open>span option\<close>; the
  output pointer is not NULL. A \<^verbatim>\<open>double\<close> is its bit pattern.
\<close>

section \<open>Field numbers\<close>

abbreviation "ETSR_F_RESOURCE_SPANS \<equiv> fs_number (OTLP_ETSR_FIELDS OTLP_ETSR_FI_RESOURCE_SPANS)"
abbreviation "RS_F_RESOURCE \<equiv> fs_number (OTLP_RS_FIELDS OTLP_RS_FI_RESOURCE)"
abbreviation "RS_F_SCHEMA_URL \<equiv> fs_number (OTLP_RS_FIELDS OTLP_RS_FI_SCHEMA_URL)"
abbreviation "RS_F_SCOPE_SPANS \<equiv> fs_number (OTLP_RS_FIELDS OTLP_RS_FI_SCOPE_SPANS)"
abbreviation "R_F_ATTRIBUTES \<equiv> fs_number (OTLP_R_FIELDS OTLP_R_FI_ATTRIBUTES)"
abbreviation "SS_F_SCOPE \<equiv> fs_number (OTLP_SS_FIELDS OTLP_SS_FI_SCOPE)"
abbreviation "SS_F_SPANS \<equiv> fs_number (OTLP_SS_FIELDS OTLP_SS_FI_SPANS)"
abbreviation "IS_F_NAME \<equiv> fs_number (OTLP_IS_FIELDS OTLP_IS_FI_NAME)"
abbreviation "IS_F_VERSION \<equiv> fs_number (OTLP_IS_FIELDS OTLP_IS_FI_VERSION)"
abbreviation "SPAN_F i \<equiv> fs_number (OTLP_SPAN_FIELDS i)"
abbreviation "STATUS_F_CODE \<equiv> fs_number (OTLP_STATUS_FIELDS OTLP_STATUS_FI_CODE)"
abbreviation "STATUS_F_MESSAGE \<equiv> fs_number (OTLP_STATUS_FIELDS OTLP_STATUS_FI_MESSAGE)"
abbreviation "KV_F_KEY \<equiv> fs_number (OTLP_KV_FIELDS OTLP_KV_FI_KEY)"
abbreviation "KV_F_VALUE \<equiv> fs_number (OTLP_KV_FIELDS OTLP_KV_FI_VALUE)"
abbreviation "EVENT_F i \<equiv> fs_number (OTLP_EVENT_FIELDS i)"
abbreviation "LINK_F i \<equiv> fs_number (OTLP_LINK_FIELDS i)"
abbreviation "AV_ARRAY_F_VALUES \<equiv> fs_number (OTLP_AV_ARRAY_FIELDS OTLP_AV_ARRAY_FI_VALUES)"
abbreviation "KVLIST_F_VALUES \<equiv> fs_number (OTLP_KVLIST_FIELDS OTLP_KVLIST_FI_VALUES)"

section \<open>Attribute values\<close>

text \<open>The row of the AnyValue table a value's type selects.\<close>

fun av_index :: "attr_value \<Rightarrow> otlp_av_fi" where
  "av_index (AV_String _) = OTLP_AV_FI_STRING"
| "av_index (AV_Bool _) = OTLP_AV_FI_BOOL"
| "av_index (AV_Int64 _) = OTLP_AV_FI_INT64"
| "av_index (AV_Double _) = OTLP_AV_FI_DOUBLE"
| "av_index (AV_Array _) = OTLP_AV_FI_ARRAY_VALUE"
| "av_index (AV_Kvlist _) = OTLP_AV_FI_KVLIST_VALUE"
| "av_index (AV_Bytes _) = OTLP_AV_FI_BYTES"

definition encode_attr_string :: "'m allocator \<Rightarrow> cstr option \<Rightarrow> 'm pbst \<Rightarrow> status \<times> 'm pbst" where
  "encode_attr_string A s = otlp_pb_string A (Some (or_nil s))"

definition encode_attr_bool :: "'m allocator \<Rightarrow> bool \<Rightarrow> 'm pbst \<Rightarrow> status \<times> 'm pbst" where
  "encode_attr_bool A b = otlp_pb_varint A (if b then 1 else 0)"

definition encode_attr_int64 :: "'m allocator \<Rightarrow> u64 \<Rightarrow> 'm pbst \<Rightarrow> status \<times> 'm pbst" where
  "encode_attr_int64 A i = otlp_pb_varint A i"

definition encode_attr_double :: "'m allocator \<Rightarrow> u64 \<Rightarrow> 'm pbst \<Rightarrow> status \<times> 'm pbst" where
  "encode_attr_double A d = otlp_pb_fixed64 A d"

definition encode_attr_bytes :: "'m allocator \<Rightarrow> u8 list \<Rightarrow> 'm pbst \<Rightarrow> status \<times> 'm pbst" where
  "encode_attr_bytes A bs = otlp_pb_bytes A (Some bs) (length bs)"

text \<open>The two recursive encoders, over the encoder of their elements.\<close>

definition encode_attr_array ::
  "'m allocator \<Rightarrow> nat \<Rightarrow> ('m pbst \<Rightarrow> status \<times> 'm pbst) \<Rightarrow> 'm pbst \<Rightarrow> status \<times> 'm pbst" where
  "encode_attr_array A n items =
     (if n = 0 then otlp_pb_bytes A (Some []) 0
      else with_sub A items (\<lambda>d. otlp_pb_bytes A (Some d) (length d)))"

definition encode_attr_kvlist ::
  "'m allocator \<Rightarrow> nat \<Rightarrow> ('m pbst \<Rightarrow> status \<times> 'm pbst) \<Rightarrow> 'm pbst \<Rightarrow> status \<times> 'm pbst" where
  "encode_attr_kvlist A n entries =
     (if n = 0 then otlp_pb_bytes A (Some []) 0
      else with_sub A entries (\<lambda>d. otlp_pb_bytes A (Some d) (length d)))"

text \<open>
  \<open>otlp_encode_key_value\<close> over the encoder of its value: the value is encoded first, into a
  buffer of its own, then key and value are appended.
\<close>

definition encode_kv ::
  "'m allocator \<Rightarrow> cstr option \<Rightarrow> ('m pbst \<Rightarrow> status \<times> 'm pbst) \<Rightarrow> 'm pbst \<Rightarrow> status \<times> 'm pbst" where
  "encode_kv A key val =
     with_sub A val (\<lambda>d.
       then_ok (then_ok (otlp_pb_tag A KV_F_KEY OTLP_PB_WIRE_LEN) (otlp_pb_string A (Some (or_nil key))))
         (otlp_pb_field_message A KV_F_VALUE (Some d) (length d)))"

fun otlp_encode_any_value :: "'m allocator \<Rightarrow> attr_value \<Rightarrow> 'm pbst \<Rightarrow> status \<times> 'm pbst"
and attr_encode :: "'m allocator \<Rightarrow> attr_value \<Rightarrow> 'm pbst \<Rightarrow> status \<times> 'm pbst"
and encode_items :: "'m allocator \<Rightarrow> attribute list \<Rightarrow> 'm pbst \<Rightarrow> status \<times> 'm pbst"
and encode_entries :: "'m allocator \<Rightarrow> (cstr option \<times> attribute) list \<Rightarrow> 'm pbst \<Rightarrow> status \<times> 'm pbst"
where
  "otlp_encode_any_value A v =
     then_ok (otlp_pb_tag A (fs_number (OTLP_AV_FIELDS (av_index v))) (fs_wire (OTLP_AV_FIELDS (av_index v))))
       (attr_encode A v)"
| "attr_encode A (AV_String s) = encode_attr_string A s"
| "attr_encode A (AV_Bool b) = encode_attr_bool A b"
| "attr_encode A (AV_Int64 i) = encode_attr_int64 A i"
| "attr_encode A (AV_Double d) = encode_attr_double A d"
| "attr_encode A (AV_Array None) = encode_attr_array A 0 ret_ok"
| "attr_encode A (AV_Array (Some items)) = encode_attr_array A (length items) (encode_items A items)"
| "attr_encode A (AV_Kvlist None) = encode_attr_kvlist A 0 ret_ok"
| "attr_encode A (AV_Kvlist (Some entries)) = encode_attr_kvlist A (length entries) (encode_entries A entries)"
| "attr_encode A (AV_Bytes bs) = encode_attr_bytes A bs"
| "encode_items A [] = ret_ok"
| "encode_items A (Attribute k v # items) =
     then_ok (field_sub A AV_ARRAY_F_VALUES (otlp_encode_any_value A v)) (encode_items A items)"
| "encode_entries A [] = ret_ok"
| "encode_entries A ((key, Attribute k v) # entries) =
     then_ok (field_sub A KVLIST_F_VALUES (encode_kv A key (otlp_encode_any_value A v))) (encode_entries A entries)"

definition otlp_encode_key_value ::
  "'m allocator \<Rightarrow> cstr option \<Rightarrow> attr_value option \<Rightarrow> 'm pbst \<Rightarrow> status \<times> 'm pbst" where
  "otlp_encode_key_value A key attr s =
     (case attr of None \<Rightarrow> (OTLP_ERR_NULL, s) | Some v \<Rightarrow> encode_kv A key (otlp_encode_any_value A v) s)"

section \<open>Attributes, status, span body\<close>

definition otlp_emit_attributes ::
  "'m allocator \<Rightarrow> u32 \<Rightarrow> attribute list \<Rightarrow> 'm pbst \<Rightarrow> status \<times> 'm pbst" where
  "otlp_emit_attributes A f attrs =
     each_ok (\<lambda>a. field_sub A f (otlp_encode_key_value A (attr_key a) (Some (attr_val a)))) attrs"

fun status_number :: "span_status \<Rightarrow> u64" where
  "status_number STATUS_CODE_UNSET = 0"
| "status_number STATUS_CODE_OK = 1"
| "status_number STATUS_CODE_ERROR = 2"

fun kind_number :: "span_kind \<Rightarrow> u64" where
  "kind_number KIND_UNSPECIFIED = 0"
| "kind_number KIND_INTERNAL = 1"
| "kind_number KIND_SERVER = 2"
| "kind_number KIND_CLIENT = 3"
| "kind_number KIND_PRODUCER = 4"
| "kind_number KIND_CONSUMER = 5"

definition emit_status ::
  "'m allocator \<Rightarrow> u32 \<Rightarrow> span_status \<Rightarrow> cstr option \<Rightarrow> 'm pbst \<Rightarrow> status \<times> 'm pbst" where
  "emit_status A f code message =
     (if code = STATUS_CODE_UNSET \<and> \<not> str_set message then ret_ok
      else field_sub A f
        (then_ok
          (when_ok (code \<noteq> STATUS_CODE_UNSET)
            (then_ok (otlp_pb_tag A STATUS_F_CODE OTLP_PB_WIRE_VARINT) (otlp_pb_varint A (status_number code))))
          (when_ok (str_set message)
            (then_ok (otlp_pb_tag A STATUS_F_MESSAGE OTLP_PB_WIRE_LEN) (otlp_pb_string A message)))))"

definition encode_event :: "'m allocator \<Rightarrow> otlp_event \<Rightarrow> 'm pbst \<Rightarrow> status \<times> 'm pbst" where
  "encode_event A ev =
     then_ok (when_ok (str_set (ev_name ev)) (otlp_pb_field_string A (EVENT_F OTLP_EVENT_FI_NAME) (ev_name ev)))
    (then_ok (otlp_pb_field_fixed64 A (EVENT_F OTLP_EVENT_FI_TIME) (ev_time ev))
       (otlp_emit_attributes A (EVENT_F OTLP_EVENT_FI_ATTRIBUTES) (av_items (ev_attrs ev))))"

definition encode_link :: "'m allocator \<Rightarrow> otlp_link \<Rightarrow> 'm pbst \<Rightarrow> status \<times> 'm pbst" where
  "encode_link A lk =
     then_ok (otlp_pb_field_bytes A (LINK_F OTLP_LINK_FI_TRACE_ID) (Some (lk_trace_id lk)) OTLP_TRACE_ID_LEN)
    (then_ok (otlp_pb_field_bytes A (LINK_F OTLP_LINK_FI_SPAN_ID) (Some (lk_span_id lk)) OTLP_SPAN_ID_LEN)
       (otlp_emit_attributes A (LINK_F OTLP_LINK_FI_ATTRIBUTES) (av_items (lk_attrs lk))))"

definition encode_span_fields :: "'m allocator \<Rightarrow> span option \<Rightarrow> 'm pbst \<Rightarrow> status \<times> 'm pbst" where
  "encode_span_fields A sp =
     then_ok (then_ok (otlp_pb_tag A (SPAN_F OTLP_SPAN_FI_TRACE_ID) OTLP_PB_WIRE_LEN)
        (otlp_pb_bytes A (otlp_span_get_trace_id sp) OTLP_TRACE_ID_LEN))
    (then_ok (then_ok (otlp_pb_tag A (SPAN_F OTLP_SPAN_FI_SPAN_ID) OTLP_PB_WIRE_LEN)
        (otlp_pb_bytes A (otlp_span_get_span_id sp) OTLP_SPAN_ID_LEN))
    (then_ok (when_ok (otlp_span_has_parent sp)
       (then_ok (otlp_pb_tag A (SPAN_F OTLP_SPAN_FI_PARENT_SPAN_ID) OTLP_PB_WIRE_LEN)
          (otlp_pb_bytes A (otlp_span_get_parent_span_id sp) OTLP_SPAN_ID_LEN)))
    (then_ok (when_ok (str_set (otlp_span_get_trace_state sp))
       (otlp_pb_field_string A (SPAN_F OTLP_SPAN_FI_TRACE_STATE) (otlp_span_get_trace_state sp)))
    (then_ok (when_ok (str_set (otlp_span_get_name sp))
       (otlp_pb_field_string A (SPAN_F OTLP_SPAN_FI_NAME) (otlp_span_get_name sp)))
    (then_ok (when_ok (otlp_span_get_kind sp \<noteq> KIND_UNSPECIFIED)
       (otlp_pb_field_varint A (SPAN_F OTLP_SPAN_FI_KIND) (kind_number (otlp_span_get_kind sp))))
    (then_ok (when_ok (otlp_span_has_start_time sp)
       (then_ok (otlp_pb_tag A (SPAN_F OTLP_SPAN_FI_START_TIME) OTLP_PB_WIRE_FIXED64)
          (otlp_pb_fixed64 A (otlp_span_get_start_time sp))))
    (then_ok (when_ok (otlp_span_has_end_time sp)
       (then_ok (otlp_pb_tag A (SPAN_F OTLP_SPAN_FI_END_TIME) OTLP_PB_WIRE_FIXED64)
          (otlp_pb_fixed64 A (otlp_span_get_end_time sp))))
    (then_ok (each_ok (\<lambda>a. field_sub A (SPAN_F OTLP_SPAN_FI_ATTRIBUTES)
          (otlp_encode_key_value A (attr_key a) (Some (attr_val a)))) (otlp_span_get_attrs sp))
    (then_ok (each_ok (\<lambda>ev. field_sub A (SPAN_F OTLP_SPAN_FI_EVENTS) (encode_event A ev)) (otlp_span_get_events sp))
    (then_ok (each_ok (\<lambda>lk. field_sub A (SPAN_F OTLP_SPAN_FI_LINKS) (encode_link A lk)) (otlp_span_get_links sp))
    (then_ok (emit_status A (SPAN_F OTLP_SPAN_FI_STATUS) (otlp_span_get_status_code sp) (otlp_span_get_status_message sp))
       (when_ok (otlp_span_is_sampled sp)
         (then_ok (otlp_pb_tag A (SPAN_F OTLP_SPAN_FI_FLAGS) OTLP_PB_WIRE_FIXED32) (otlp_pb_fixed32 A 1))))))))))))))"

definition otlp_encode_span_body :: "'m allocator \<Rightarrow> span option \<Rightarrow> 'm pbst \<Rightarrow> status \<times> 'm pbst" where
  "otlp_encode_span_body A sp s = (if sp = None then (OTLP_ERR_NULL, s) else encode_span_fields A sp s)"

section \<open>Resource, scope and the request\<close>

definition otlp_emit_resource ::
  "'m allocator \<Rightarrow> u32 \<Rightarrow> cstr option \<Rightarrow> attribute list \<Rightarrow> 'm pbst \<Rightarrow> status \<times> 'm pbst" where
  "otlp_emit_resource A f service_name attrs =
     (if \<not> str_set service_name \<and> \<not> length attrs > 0 then ret_ok
      else field_sub A f
        (then_ok
          (when_ok (str_set service_name)
            (field_sub A R_F_ATTRIBUTES
              (otlp_encode_key_value A (Some (ascii ''service.name'')) (Some (AV_String service_name)))))
          (each_ok (\<lambda>a. when_ok (str_set (attr_key a))
              (field_sub A R_F_ATTRIBUTES (otlp_encode_key_value A (attr_key a) (Some (attr_val a))))) attrs)))"

definition otlp_emit_instrumentation_scope ::
  "'m allocator \<Rightarrow> u32 \<Rightarrow> cstr option \<Rightarrow> cstr option \<Rightarrow> 'm pbst \<Rightarrow> status \<times> 'm pbst" where
  "otlp_emit_instrumentation_scope A f name version =
     (if \<not> str_set name \<and> \<not> str_set version then ret_ok
      else field_sub A f
        (then_ok (when_ok (str_set name) (otlp_pb_field_string A IS_F_NAME name))
          (when_ok (str_set version) (otlp_pb_field_string A IS_F_VERSION version))))"

definition emit_scope_spans ::
  "'m allocator \<Rightarrow> u32 \<Rightarrow> cstr option \<Rightarrow> cstr option \<Rightarrow> span option list \<Rightarrow> 'm pbst \<Rightarrow> status \<times> 'm pbst" where
  "emit_scope_spans A f scope_name scope_version spans =
     with_sub A
       (then_ok (otlp_emit_instrumentation_scope A SS_F_SCOPE scope_name scope_version)
         (each_ok (\<lambda>sp. field_sub A SS_F_SPANS (otlp_encode_span_body A sp)) spans))
       (\<lambda>d. if length d > 0 then otlp_pb_field_message A f (Some d) (length d) else ret_ok)"

definition emit_resource_spans ::
  "'m allocator \<Rightarrow> u32 \<Rightarrow> cstr option \<Rightarrow> cstr option \<Rightarrow> attribute list \<Rightarrow> cstr option \<Rightarrow> cstr option \<Rightarrow>
     span option list \<Rightarrow> 'm pbst \<Rightarrow> status \<times> 'm pbst" where
  "emit_resource_spans A f service_name schema_url attrs scope_name scope_version spans =
     with_sub A
       (then_ok (otlp_emit_resource A RS_F_RESOURCE service_name attrs)
       (then_ok (emit_scope_spans A RS_F_SCOPE_SPANS scope_name scope_version spans)
         (when_ok (str_set schema_url) (otlp_pb_field_string A RS_F_SCHEMA_URL schema_url))))
       (\<lambda>d. if length d > 0 then otlp_pb_field_message A f (Some d) (length d) else ret_ok)"

definition otlp_encode_export_trace_service_request ::
  "'m allocator \<Rightarrow> cstr option \<Rightarrow> cstr option \<Rightarrow> attribute list \<Rightarrow> cstr option \<Rightarrow> cstr option \<Rightarrow>
     span option list \<Rightarrow> 'm pbst \<Rightarrow> status \<times> 'm pbst" where
  "otlp_encode_export_trace_service_request A service_name schema_url attrs scope_name scope_version spans =
     (if length spans = 0 \<and> \<not> str_set service_name \<and> \<not> length attrs > 0 then ret_ok
      else emit_resource_spans A ETSR_F_RESOURCE_SPANS service_name schema_url attrs scope_name scope_version spans)"

section \<open>The messages these encoders mean\<close>

fun any_msg :: "attr_value \<Rightarrow> pb_msg" and items_msg :: "attribute list \<Rightarrow> pb_msg"
and entries_msg :: "(cstr option \<times> attribute) list \<Rightarrow> pb_msg"
where
  "any_msg (AV_String s) = [(1, PLen (or_nil s))]"
| "any_msg (AV_Bool b) = [(2, PVarint (if b then 1 else 0))]"
| "any_msg (AV_Int64 i) = [(3, PVarint i)]"
| "any_msg (AV_Double d) = [(4, PFixed64 d)]"
| "any_msg (AV_Array None) = [(5, PLen [])]"
| "any_msg (AV_Array (Some items)) = [(5, PLen (ser_msg (items_msg items)))]"
| "any_msg (AV_Kvlist None) = [(6, PLen [])]"
| "any_msg (AV_Kvlist (Some entries)) = [(6, PLen (ser_msg (entries_msg entries)))]"
| "any_msg (AV_Bytes bs) = [(7, PLen bs)]"
| "items_msg [] = []"
| "items_msg (Attribute k v # items) = sub_msg 1 (any_msg v) @ items_msg items"
| "entries_msg [] = []"
| "entries_msg ((key, Attribute k v) # entries) =
     sub_msg 1 ([(1, PLen (or_nil key))] @ sub_msg 2 (any_msg v)) @ entries_msg entries"

definition kv_msg :: "cstr option \<Rightarrow> attr_value \<Rightarrow> pb_msg" where
  "kv_msg key v = [(1, PLen (or_nil key))] @ sub_msg 2 (any_msg v)"

definition attrs_msg :: "u32 \<Rightarrow> attribute list \<Rightarrow> pb_msg" where
  "attrs_msg f attrs = concat (map (\<lambda>a. sub_msg f (kv_msg (attr_key a) (attr_val a))) attrs)"

definition status_msg :: "span_status \<Rightarrow> cstr option \<Rightarrow> pb_msg" where
  "status_msg code message = when_msg (code \<noteq> STATUS_CODE_UNSET) [(3, PVarint (status_number code))] @ string_msg 2 message"

definition event_msg :: "otlp_event \<Rightarrow> pb_msg" where
  "event_msg ev = string_msg 2 (ev_name ev) @ fixed64_msg 1 (ev_time ev) @ attrs_msg 3 (av_items (ev_attrs ev))"

definition link_msg :: "otlp_link \<Rightarrow> pb_msg" where
  "link_msg lk = bytes_msg 1 (lk_trace_id lk) @ bytes_msg 2 (lk_span_id lk) @ attrs_msg 4 (av_items (lk_attrs lk))"

definition span_msg :: "span \<Rightarrow> pb_msg" where
  "span_msg s =
     [(1, PLen (sp_trace_id s))] @ [(2, PLen (sp_span_id s))] @
     when_msg (sp_has_parent s) [(4, PLen (sp_parent_span_id s))] @
     string_msg 3 (sp_trace_state s) @ string_msg 5 (sp_name s) @
     when_msg (sp_kind s \<noteq> KIND_UNSPECIFIED) (varint_msg 6 (kind_number (sp_kind s))) @
     when_msg (sp_has_start_time s) [(7, PFixed64 (sp_start_time s))] @
     when_msg (sp_has_end_time s) [(8, PFixed64 (sp_end_time s))] @
     attrs_msg 9 (av_items (sp_attrs s)) @
     concat (map (\<lambda>ev. sub_msg 11 (event_msg ev)) (sp_events s)) @
     concat (map (\<lambda>lk. sub_msg 13 (link_msg lk)) (sp_links s)) @
     sub_msg 15 (status_msg (sp_status_code s) (sp_status_message s)) @
     when_msg (sp_sampled s) [(16, PFixed32 1)]"

definition resource_msg :: "cstr option \<Rightarrow> attribute list \<Rightarrow> pb_msg" where
  "resource_msg service_name attrs =
     when_msg (str_set service_name) (sub_msg 1 (kv_msg (Some (ascii ''service.name'')) (AV_String service_name))) @
     concat (map (\<lambda>a. when_msg (str_set (attr_key a)) (sub_msg 1 (kv_msg (attr_key a) (attr_val a)))) attrs)"

definition scope_msg :: "cstr option \<Rightarrow> cstr option \<Rightarrow> pb_msg" where
  "scope_msg name version = string_msg 1 name @ string_msg 2 version"

definition scope_spans_msg :: "cstr option \<Rightarrow> cstr option \<Rightarrow> span list \<Rightarrow> pb_msg" where
  "scope_spans_msg name version spans =
     sub_msg 1 (scope_msg name version) @ concat (map (\<lambda>s. sub_msg 2 (span_msg s)) spans)"

definition resource_spans_msg ::
  "cstr option \<Rightarrow> cstr option \<Rightarrow> attribute list \<Rightarrow> cstr option \<Rightarrow> cstr option \<Rightarrow> span list \<Rightarrow> pb_msg" where
  "resource_spans_msg service_name schema_url attrs scope_name scope_version spans =
     sub_msg 1 (resource_msg service_name attrs) @
     sub_msg 2 (scope_spans_msg scope_name scope_version spans) @ string_msg 3 schema_url"

definition trace_request_msg ::
  "cstr option \<Rightarrow> cstr option \<Rightarrow> attribute list \<Rightarrow> cstr option \<Rightarrow> cstr option \<Rightarrow> span list \<Rightarrow> pb_msg" where
  "trace_request_msg service_name schema_url attrs scope_name scope_version spans =
     when_msg (spans \<noteq> [] \<or> str_set service_name \<or> attrs \<noteq> [])
       (sub_msg 1 (resource_spans_msg service_name schema_url attrs scope_name scope_version spans))"

section \<open>Each encoder emits its message\<close>

lemmas trace_rows = OTLP_ETSR_FIELDS.simps OTLP_RS_FIELDS.simps OTLP_R_FIELDS.simps OTLP_SS_FIELDS.simps
  OTLP_IS_FIELDS.simps OTLP_SPAN_FIELDS.simps OTLP_STATUS_FIELDS.simps OTLP_KV_FIELDS.simps OTLP_EVENT_FIELDS.simps
  OTLP_LINK_FIELDS.simps OTLP_AV_ARRAY_FIELDS.simps OTLP_KVLIST_FIELDS.simps field_spec.select_convs

lemma av_row:
  "fs_number (OTLP_AV_FIELDS (av_index v)) \<noteq> 0"
  "any_msg v = [(fs_number (OTLP_AV_FIELDS (av_index v)), snd (hd (any_msg v)))]"
  "fs_wire (OTLP_AV_FIELDS (av_index v)) = pb_wire (snd (hd (any_msg v)))"
  by (cases v rule: any_msg.cases; simp)+

lemma kv_emits:
  assumes "msg_emits A val m"
  shows "msg_emits A (encode_kv A key val) ([(1, PLen (or_nil key))] @ sub_msg 2 m)"
  unfolding encode_kv_def
proof (rule msg_with_sub [OF assms])
  show "msg_emits A (then_ok (then_ok (otlp_pb_tag A KV_F_KEY OTLP_PB_WIRE_LEN) (otlp_pb_string A (Some (or_nil key))))
      (otlp_pb_field_message A KV_F_VALUE (Some (ser_msg m)) (length (ser_msg m)))) ([(1, PLen (or_nil key))] @ sub_msg 2 m)"
    unfolding trace_rows by (intro msg_then msg_field msg_message val_prims) simp_all
  show "length (ser_msg m) \<le> length (ser_msg ([(1, PLen (or_nil key))] @ sub_msg 2 m))"
    using length_sub_msg [of m 2] by (simp add: ser_msg_Cons)
qed

lemma any_value_emits:
  "msg_emits A (otlp_encode_any_value A v) (any_msg v)"
  "val_emits A (attr_encode A v) (snd (hd (any_msg v)))"
  "msg_emits A (encode_items A items) (items_msg items)"
  "msg_emits A (encode_entries A entries) (entries_msg entries)"
proof (induction A v and A v and A items and A entries
    rule: otlp_encode_any_value_attr_encode_encode_items_encode_entries.induct)
  case (1 A v)
  show ?case unfolding otlp_encode_any_value.simps
    by (subst av_row(2)) (rule msg_field [OF 1 av_row(1,3)])
next
  case (7 A items)
  then show ?case using val_sub [OF 7]
    by (cases items) (simp_all add: encode_attr_array_def val_prims)
next
  case (9 A entries)
  then show ?case using val_sub [OF 9]
    by (cases entries) (simp_all add: encode_attr_kvlist_def val_prims)
next
  case (12 A k v items)
  then show ?case by (auto intro!: msg_then msg_sub)
next
  case (14 A key k v entries)
  then show ?case by (auto intro!: msg_then msg_sub kv_emits [simplified])
qed (simp_all add: encode_attr_string_def encode_attr_bool_def encode_attr_int64_def encode_attr_double_def
    encode_attr_bytes_def encode_attr_array_def encode_attr_kvlist_def val_prims msg_ret msg_ret')

lemma key_value_emits: "msg_emits A (otlp_encode_key_value A key (Some v)) (kv_msg key v)"
proof -
  have "otlp_encode_key_value A key (Some v) = encode_kv A key (otlp_encode_any_value A v)"
    by (simp add: otlp_encode_key_value_def fun_eq_iff)
  then show ?thesis using kv_emits [OF any_value_emits(1)] by (simp add: kv_msg_def)
qed

lemma attributes_emits: "f \<noteq> 0 \<Longrightarrow> msg_emits A (otlp_emit_attributes A f attrs) (attrs_msg f attrs)"
  unfolding otlp_emit_attributes_def attrs_msg_def by (intro msg_each msg_sub key_value_emits)

lemma status_emits:
  assumes "f \<noteq> 0"
  shows "msg_emits A (emit_status A f code message) (sub_msg f (status_msg code message))"
proof (cases "code = STATUS_CODE_UNSET \<and> \<not> str_set message")
  case True
  then show ?thesis
    by (simp add: emit_status_def status_msg_def when_msg_def string_msg_def sub_msg_def msg_ret)
next
  case False
  have m: "msg_emits A (when_ok (str_set message) (then_ok (otlp_pb_tag A STATUS_F_MESSAGE OTLP_PB_WIRE_LEN)
      (otlp_pb_string A message))) (string_msg 2 message)"
  proof (cases message)
    case None
    then show ?thesis by (simp add: string_msg_def str_set_def when_ok_def msg_ret)
  next
    case (Some t)
    then have "string_msg 2 message = when_msg (str_set message) [(2, PLen t)]"
      by (simp add: string_msg_def when_msg_def or_nil_def)
    then show ?thesis unfolding Some trace_rows by (simp only:) (intro msg_when msg_field val_prims; simp)
  qed
  show ?thesis unfolding emit_status_def status_msg_def if_not_P [OF False] trace_rows
    by (intro msg_sub msg_then msg_when msg_field val_prims m [unfolded trace_rows] assms) simp_all
qed

lemma event_emits: "msg_emits A (encode_event A ev) (event_msg ev)"
  unfolding encode_event_def event_msg_def
  using msg_string [of 2 A "ev_name ev"] msg_fixed64 [of 1 A "ev_time ev"] attributes_emits [of 3 A]
  by (auto intro!: msg_then)

lemma link_emits:
  "length (lk_trace_id lk) = 16 \<Longrightarrow> length (lk_span_id lk) = 8 \<Longrightarrow> msg_emits A (encode_link A lk) (link_msg lk)"
  unfolding encode_link_def link_msg_def
  using msg_bytes [of 1 "lk_trace_id lk" 16 A] msg_bytes [of 2 "lk_span_id lk" 8 A] attributes_emits [of 4 A]
  by (auto intro!: msg_then simp: OTLP_TRACE_ID_LEN_def OTLP_SPAN_ID_LEN_def)

text \<open>The identifiers of a span are arrays of fixed size.\<close>

definition ids_sized :: "span \<Rightarrow> bool" where
  "ids_sized s \<longleftrightarrow> length (sp_trace_id s) = OTLP_TRACE_ID_LEN \<and> length (sp_span_id s) = OTLP_SPAN_ID_LEN \<and>
     length (sp_parent_span_id s) = OTLP_SPAN_ID_LEN \<and>
     (\<forall>lk \<in> set (sp_links s). length (lk_trace_id lk) = OTLP_TRACE_ID_LEN \<and> length (lk_span_id lk) = OTLP_SPAN_ID_LEN)"

lemma span_getters:
  "otlp_span_get_trace_id (Some s) = Some (sp_trace_id s)" "otlp_span_get_span_id (Some s) = Some (sp_span_id s)"
  "otlp_span_has_parent (Some s) = sp_has_parent s" "otlp_span_get_parent_span_id (Some s) = Some (sp_parent_span_id s)"
  "otlp_span_get_trace_state (Some s) = sp_trace_state s" "otlp_span_get_name (Some s) = sp_name s"
  "otlp_span_get_kind (Some s) = sp_kind s" "otlp_span_has_start_time (Some s) = sp_has_start_time s"
  "otlp_span_get_start_time (Some s) = sp_start_time s" "otlp_span_has_end_time (Some s) = sp_has_end_time s"
  "otlp_span_get_end_time (Some s) = sp_end_time s" "otlp_span_get_attrs (Some s) = av_items (sp_attrs s)"
  "otlp_span_get_events (Some s) = sp_events s" "otlp_span_get_links (Some s) = sp_links s"
  "otlp_span_get_status_code (Some s) = sp_status_code s" "otlp_span_get_status_message (Some s) = sp_status_message s"
  "otlp_span_is_sampled (Some s) = sp_sampled s"
  by (simp_all add: otlp_span_get_trace_id_def otlp_span_get_span_id_def otlp_span_has_parent_def
      otlp_span_get_parent_span_id_def otlp_span_get_trace_state_def otlp_span_get_name_def otlp_span_get_kind_def
      otlp_span_has_start_time_def otlp_span_get_start_time_def otlp_span_has_end_time_def otlp_span_get_end_time_def
      otlp_span_get_attrs_def otlp_span_get_events_def otlp_span_get_links_def otlp_span_get_status_code_def
      otlp_span_get_status_message_def otlp_span_is_sampled_def)

lemma span_emits:
  assumes "ids_sized s"
  shows "msg_emits A (otlp_encode_span_body A (Some s)) (span_msg s)"
proof -
  have lk: "msg_emits A (each_ok (\<lambda>lk. field_sub A (SPAN_F OTLP_SPAN_FI_LINKS) (encode_link A lk)) (sp_links s))
      (concat (map (\<lambda>lk. sub_msg 13 (link_msg lk)) (sp_links s)))"
    using assms by (intro msg_each) (auto simp: ids_sized_def OTLP_TRACE_ID_LEN_def OTLP_SPAN_ID_LEN_def intro!: msg_sub link_emits)
  have ev: "msg_emits A (each_ok (\<lambda>ev. field_sub A (SPAN_F OTLP_SPAN_FI_EVENTS) (encode_event A ev)) (sp_events s))
      (concat (map (\<lambda>ev. sub_msg 11 (event_msg ev)) (sp_events s)))"
    by (intro msg_each) (auto intro!: msg_sub event_emits)
  have at: "msg_emits A (each_ok (\<lambda>a. field_sub A (SPAN_F OTLP_SPAN_FI_ATTRIBUTES)
      (otlp_encode_key_value A (attr_key a) (Some (attr_val a)))) (av_items (sp_attrs s))) (attrs_msg 9 (av_items (sp_attrs s)))"
    using attributes_emits [of 9 A "av_items (sp_attrs s)"] by (simp add: otlp_emit_attributes_def)
  have str: "msg_emits A (when_ok (str_set (sp_trace_state s)) (otlp_pb_field_string A (SPAN_F OTLP_SPAN_FI_TRACE_STATE) (sp_trace_state s)))
      (string_msg 3 (sp_trace_state s))"
    "msg_emits A (when_ok (str_set (sp_name s)) (otlp_pb_field_string A (SPAN_F OTLP_SPAN_FI_NAME) (sp_name s)))
      (string_msg 5 (sp_name s))"
    by (simp_all add: msg_string)
  have st: "msg_emits A (emit_status A (SPAN_F OTLP_SPAN_FI_STATUS) (sp_status_code s) (sp_status_message s))
      (sub_msg 15 (status_msg (sp_status_code s) (sp_status_message s)))"
    by (simp add: status_emits)
  have kd: "msg_emits A (otlp_pb_field_varint A (SPAN_F OTLP_SPAN_FI_KIND) (kind_number (sp_kind s))) (varint_msg 6 (kind_number (sp_kind s)))"
    by (simp add: msg_varint)
  note rules = lk ev at str st kd
  have "msg_emits A (encode_span_fields A (Some s)) (span_msg s)"
    unfolding encode_span_fields_def span_msg_def span_getters trace_rows
    using assms unfolding ids_sized_def
    by (intro msg_then rules [unfolded trace_rows] msg_when msg_field val_prims) simp_all
  moreover have "otlp_encode_span_body A (Some s) = encode_span_fields A (Some s)"
    by (simp add: otlp_encode_span_body_def fun_eq_iff)
  ultimately show ?thesis by simp
qed

lemma resource_emits:
  assumes "f \<noteq> 0"
  shows "msg_emits A (otlp_emit_resource A f service_name attrs) (sub_msg f (resource_msg service_name attrs))"
proof (cases "\<not> str_set service_name \<and> \<not> length attrs > 0")
  case True
  then show ?thesis by (simp add: otlp_emit_resource_def resource_msg_def when_msg_def sub_msg_def msg_ret)
next
  case False
  show ?thesis unfolding otlp_emit_resource_def resource_msg_def if_not_P [OF False] trace_rows
    by (intro msg_sub msg_then msg_when msg_each key_value_emits assms) simp_all
qed

lemma scope_emits:
  assumes "f \<noteq> 0"
  shows "msg_emits A (otlp_emit_instrumentation_scope A f name version) (sub_msg f (scope_msg name version))"
proof (cases "\<not> str_set name \<and> \<not> str_set version")
  case True
  then show ?thesis by (simp add: otlp_emit_instrumentation_scope_def scope_msg_def string_msg_def sub_msg_def msg_ret)
next
  case False
  have "msg_emits A (when_ok (str_set name) (otlp_pb_field_string A IS_F_NAME name)) (string_msg 1 name)"
    "msg_emits A (when_ok (str_set version) (otlp_pb_field_string A IS_F_VERSION version)) (string_msg 2 version)"
    by (simp_all add: msg_string)
  then show ?thesis unfolding otlp_emit_instrumentation_scope_def scope_msg_def if_not_P [OF False] trace_rows
    by (intro msg_sub msg_then assms)
qed

text \<open>The guard against an empty wrapper agrees with what an empty field does.\<close>

lemma msg_sub_guarded:
  assumes "msg_emits A body m" "f \<noteq> 0"
  shows "msg_emits A (with_sub A body (\<lambda>d. if length d > 0 then otlp_pb_field_message A f (Some d) (length d) else ret_ok))
    (sub_msg f m)"
proof -
  have "(\<lambda>d. if length d > 0 then otlp_pb_field_message A f (Some d) (length d) else ret_ok) =
      (\<lambda>d. otlp_pb_field_message A f (Some d) (length d))"
    by (auto simp: fun_eq_iff otlp_pb_field_message_def)
  with msg_sub [OF assms] show ?thesis by (simp add: field_sub_def)
qed

lemma scope_spans_emits:
  assumes "f \<noteq> 0" "\<forall>s \<in> set spans. ids_sized s"
  shows "msg_emits A (emit_scope_spans A f name version (map Some spans)) (sub_msg f (scope_spans_msg name version spans))"
proof -
  have "msg_emits A (each_ok (\<lambda>sp. field_sub A SS_F_SPANS (otlp_encode_span_body A sp)) (map Some spans))
      (concat (map (\<lambda>s. sub_msg 2 (span_msg s)) spans))"
    using assms(2)
  proof (induction spans)
    case (Cons s spans)
    then show ?case by (auto intro!: msg_then msg_sub span_emits)
  qed (simp add: msg_ret)
  then show ?thesis unfolding emit_scope_spans_def scope_spans_msg_def trace_rows
    by (intro msg_sub_guarded msg_then scope_emits assms) simp_all
qed

lemma trace_request_emits:
  assumes "\<forall>s \<in> set spans. ids_sized s"
  shows "msg_emits A (otlp_encode_export_trace_service_request A svc url attrs name version (map Some spans))
    (trace_request_msg svc url attrs name version spans)"
proof -
  have url: "msg_emits A (when_ok (str_set url) (otlp_pb_field_string A RS_F_SCHEMA_URL url)) (string_msg 3 url)"
    by (simp add: msg_string)
  have "msg_emits A (emit_resource_spans A ETSR_F_RESOURCE_SPANS svc url attrs name version (map Some spans))
      (sub_msg 1 (resource_spans_msg svc url attrs name version spans))"
    using resource_emits [of 1 A svc attrs] scope_spans_emits [OF _ assms, of 2 A name version] url
    unfolding emit_resource_spans_def resource_spans_msg_def trace_rows
    by (intro msg_sub_guarded msg_then) simp_all
  then show ?thesis
    by (auto simp: otlp_encode_export_trace_service_request_def trace_request_msg_def when_msg_def msg_ret)
qed

section \<open>No field number is 0, and the tables are followed\<close>

lemma any_msg_nonempty [simp]: "any_msg v \<noteq> []"
  by (subst av_row(2)) simp

lemma kv_msg_nonempty [simp]: "kv_msg k v \<noteq> []"
  by (simp add: kv_msg_def)

lemma nz_attrs [simp]: "f \<noteq> 0 \<Longrightarrow> nz (attrs_msg f attrs)"
  by (simp add: attrs_msg_def)

lemma field_count_attrs [simp]: "field_count f (attrs_msg g attrs) = (if f = g then length attrs else 0)"
  by (induction attrs) (auto simp: attrs_msg_def)

lemma nz_trace_msgs:
  "nz (span_msg s)" "nz (resource_msg svc attrs)" "nz (scope_msg name version)"
  "nz (scope_spans_msg name version spans)" "nz (resource_spans_msg svc url attrs name version spans)"
  "nz (trace_request_msg svc url attrs name version spans)"
  by (simp_all add: span_msg_def resource_msg_def scope_msg_def scope_spans_msg_def resource_spans_msg_def
      trace_request_msg_def)

lemma typed_attrs [simp]: "has_row T f OTLP_PB_WIRE_LEN \<Longrightarrow> typed T (attrs_msg f attrs)"
  by (simp add: attrs_msg_def)

lemmas span_rows = has_row_of [of OTLP_SPAN_FIELDS OTLP_SPAN_FI_TRACE_ID, simplified]
  has_row_of [of OTLP_SPAN_FIELDS OTLP_SPAN_FI_SPAN_ID, simplified] has_row_of [of OTLP_SPAN_FIELDS OTLP_SPAN_FI_TRACE_STATE, simplified]
  has_row_of [of OTLP_SPAN_FIELDS OTLP_SPAN_FI_PARENT_SPAN_ID, simplified] has_row_of [of OTLP_SPAN_FIELDS OTLP_SPAN_FI_NAME, simplified]
  has_row_of [of OTLP_SPAN_FIELDS OTLP_SPAN_FI_KIND, simplified] has_row_of [of OTLP_SPAN_FIELDS OTLP_SPAN_FI_START_TIME, simplified]
  has_row_of [of OTLP_SPAN_FIELDS OTLP_SPAN_FI_END_TIME, simplified] has_row_of [of OTLP_SPAN_FIELDS OTLP_SPAN_FI_ATTRIBUTES, simplified]
  has_row_of [of OTLP_SPAN_FIELDS OTLP_SPAN_FI_EVENTS, simplified] has_row_of [of OTLP_SPAN_FIELDS OTLP_SPAN_FI_LINKS, simplified]
  has_row_of [of OTLP_SPAN_FIELDS OTLP_SPAN_FI_STATUS, simplified] has_row_of [of OTLP_SPAN_FIELDS OTLP_SPAN_FI_FLAGS, simplified]

lemma span_msg_typed: "typed OTLP_SPAN_FIELDS (span_msg s)"
  by (simp add: span_msg_def span_rows)

lemma span_msg_once:
  "\<not> fs_repeated (OTLP_SPAN_FIELDS i) \<Longrightarrow> field_count (fs_number (OTLP_SPAN_FIELDS i)) (span_msg s) \<le> 1"
  by (cases i) (simp_all add: span_msg_def)

section \<open>Properties\<close>

text \<open>
  C25. The trace encoder writes the message it means to, and the program's own reader gets it
  back. On a valid buffer and any allocator, encoding a batch of spans appends the serialization
  of the abstract request (on failure: a prefix of it), it cannot fail when memory is available,
  and parsing what was written gives the fields of the request.
\<close>

theorem trace_request_wire:
  assumes "\<forall>sp \<in> set spans. ids_sized sp"
    and "length (ser_msg (trace_request_msg svc url attrs name version spans)) \<le> SIZE_MAX"
    and "pb_inv s"
    and "otlp_encode_export_trace_service_request A svc url attrs name version (map Some spans) s = (st, s')"
  shows "let m = trace_request_msg svc url attrs name version spans in
    pb_inv s' \<and> (\<exists>ys. pb_content s' = pb_content s @ ys \<and> prefix ys (ser_msg m) \<and> (st = OTLP_OK \<longrightarrow> ys = ser_msg m)) \<and>
    (pb_fits A (length (pb_content s) + length (ser_msg m)) \<longrightarrow> st = OTLP_OK) \<and>
    parse_msg (otlp_pb_reader_init (ser_msg m)) = Some m"
  using msg_emits_run [OF trace_request_emits [OF assms(1)] nz_trace_msgs(6) assms(2-4)] by (simp add: Let_def)

text \<open>A small request, evaluated: a span with all defaults under a resource that names a service.\<close>

definition demo_request :: pb_msg where
  "demo_request = trace_request_msg (Some (ascii ''svc'')) None [] None None [span_zero\<lparr>sp_sampled := True\<rparr>]"

lemma demo_request_length: "length (ser_msg demo_request) = 65"
  by (simp add: demo_request_def trace_request_msg_def resource_spans_msg_def scope_spans_msg_def resource_msg_def
      scope_msg_def span_msg_def span_zero_def kv_msg_def attrs_msg_def status_msg_def when_msg_def string_msg_def
      str_set_def or_nil_def cstr_at_def sub_msg_def ser_msg_def ascii_def tag_bytes_def len_delim_def leb128.simps
      wire_defs vec_empty_def OTLP_TRACE_ID_LEN_def OTLP_SPAN_ID_LEN_def)

lemma pb_zero_inv: "pb_inv (pb_zero, m)" and pb_zero_content: "pb_content (pb_zero, m) = []"
  by (simp_all add: pb_inv_def pb_zero_def pb_content_def)

lemma always_fits: "n \<le> SIZE_MAX div 2 \<Longrightarrow> pb_fits always_alloc n"
  by (simp add: pb_fits_def alloc_total_def always_alloc_def)

theorem trace_request_wire_witness:
  "\<exists>s'. otlp_encode_export_trace_service_request always_alloc (Some (ascii ''svc'')) None [] None None
      [Some (span_zero\<lparr>sp_sampled := True\<rparr>)] (pb_zero, ()) = (OTLP_OK, s') \<and>
    pb_content s' = ser_msg demo_request \<and> length (pb_content s') = 65 \<and>
    parse_msg (otlp_pb_reader_init (ser_msg demo_request)) = Some demo_request"
proof -
  let ?sp = "span_zero\<lparr>sp_sampled := True\<rparr>"
  obtain st s' where run: "otlp_encode_export_trace_service_request always_alloc (Some (ascii ''svc'')) None [] None None
      (map Some [?sp]) (pb_zero, ()) = (st, s')" by (rule prod.exhaust)
  have ids: "\<forall>sp \<in> set [?sp]. ids_sized sp" by (simp add: ids_sized_def span_zero_def)
  have len: "length (ser_msg (trace_request_msg (Some (ascii ''svc'')) None [] None None [?sp])) \<le> SIZE_MAX"
    using demo_request_length by (simp add: demo_request_def SIZE_MAX_def)
  from trace_request_wire [OF ids len pb_zero_inv run] always_fits [of 65] demo_request_length run show ?thesis
    by (auto simp: Let_def demo_request_def [symmetric] pb_zero_content SIZE_MAX_def)
qed

text \<open>
  C30. An encoded span follows the schema: the fields written are rows of the span table with the
  wire types the table gives, no field that the table does not call repeated is written twice,
  and the trace and span identifiers come first, whole.
\<close>

theorem span_body_follows_schema:
  assumes "ids_sized sp" and "length (ser_msg (span_msg sp)) \<le> SIZE_MAX" and "pb_inv s"
    and "otlp_encode_span_body A (Some sp) s = (OTLP_OK, s')"
  shows "\<exists>m. pb_content s' = pb_content s @ ser_msg m \<and> parse_msg (otlp_pb_reader_init (ser_msg m)) = Some m \<and>
    conforms OTLP_SPAN_FIELDS m \<and> take 2 m = [(1, PLen (sp_trace_id sp)), (2, PLen (sp_span_id sp))]"
proof (intro exI conjI)
  note r = msg_emits_run [OF span_emits [OF assms(1)] nz_trace_msgs(1) assms(2-4)]
  show "pb_content s' = pb_content s @ ser_msg (span_msg sp)" using r by auto
  show "parse_msg (otlp_pb_reader_init (ser_msg (span_msg sp))) = Some (span_msg sp)" using r by blast
  show "conforms OTLP_SPAN_FIELDS (span_msg sp)" using span_msg_typed span_msg_once by (simp add: conforms_def)
  show "take 2 (span_msg sp) = [(1, PLen (sp_trace_id sp)), (2, PLen (sp_span_id sp))]"
    by (simp add: span_msg_def)
qed

lemma demo_span_length: "length (ser_msg (span_msg span_zero)) = 28"
  by (simp add: span_msg_def span_zero_def attrs_msg_def status_msg_def when_msg_def string_msg_def
      str_set_def sub_msg_def ser_msg_def tag_bytes_def len_delim_def leb128.simps
      wire_defs vec_empty_def OTLP_TRACE_ID_LEN_def OTLP_SPAN_ID_LEN_def)

theorem span_body_follows_schema_witness:
  "\<exists>s' m. otlp_encode_span_body always_alloc (Some span_zero) (pb_zero, ()) = (OTLP_OK, s') \<and>
    pb_content s' = ser_msg m \<and> length (pb_content s') = 28 \<and> conforms OTLP_SPAN_FIELDS m"
proof -
  obtain st s' where run: "otlp_encode_span_body always_alloc (Some span_zero) (pb_zero, ()) = (st, s')" by (rule prod.exhaust)
  have ids: "ids_sized span_zero" by (simp add: ids_sized_def span_zero_def)
  have len: "length (ser_msg (span_msg span_zero)) \<le> SIZE_MAX" by (simp add: demo_span_length SIZE_MAX_def)
  note r = msg_emits_run [OF span_emits [OF ids] nz_trace_msgs(1) len pb_zero_inv run]
  have ok: "st = OTLP_OK" using r always_fits [of 28] by (simp add: pb_zero_content demo_span_length SIZE_MAX_def)
  then have c: "pb_content s' = ser_msg (span_msg span_zero)" using r by (auto simp: pb_zero_content)
  from span_body_follows_schema [OF ids len pb_zero_inv run [unfolded ok]] c show ?thesis
    using run ok by (auto simp: pb_zero_content demo_span_length)
qed

end
