(* ===== verification/Log.thy ===== *)
theory Log
  imports Span
begin

text \<open>
  Log records (\<^verbatim>\<open>src/log.c\<close>): the record, its setters with their guards in the order of the code,
  the accessors the encoder uses and the deep clone. A \<^verbatim>\<open>otlp_log_record_t *\<close> is a \<open>log_record option\<close>.
  The setters of attributes wrap the vector of \<open>Attr\<close>; the clock is what \<^verbatim>\<open>clock_gettime\<close> reports.
\<close>

section \<open>Data\<close>

definition OTLP_LOG_MAX_ATTRS :: nat where "OTLP_LOG_MAX_ATTRS = 128"
definition SIZEOF_LOG_RECORD :: nat where "SIZEOF_LOG_RECORD = 88"

datatype severity =
    SEVERITY_UNSPECIFIED
  | SEVERITY_TRACE | SEVERITY_TRACE2 | SEVERITY_TRACE3 | SEVERITY_TRACE4
  | SEVERITY_DEBUG | SEVERITY_DEBUG2 | SEVERITY_DEBUG3 | SEVERITY_DEBUG4
  | SEVERITY_INFO | SEVERITY_INFO2 | SEVERITY_INFO3 | SEVERITY_INFO4
  | SEVERITY_WARN | SEVERITY_WARN2 | SEVERITY_WARN3 | SEVERITY_WARN4
  | SEVERITY_ERROR | SEVERITY_ERROR2 | SEVERITY_ERROR3 | SEVERITY_ERROR4
  | SEVERITY_FATAL | SEVERITY_FATAL2 | SEVERITY_FATAL3 | SEVERITY_FATAL4

primrec severity_number :: "severity \<Rightarrow> u64" where
  "severity_number SEVERITY_UNSPECIFIED = 0"
| "severity_number SEVERITY_TRACE = 1" | "severity_number SEVERITY_TRACE2 = 2"
| "severity_number SEVERITY_TRACE3 = 3" | "severity_number SEVERITY_TRACE4 = 4"
| "severity_number SEVERITY_DEBUG = 5" | "severity_number SEVERITY_DEBUG2 = 6"
| "severity_number SEVERITY_DEBUG3 = 7" | "severity_number SEVERITY_DEBUG4 = 8"
| "severity_number SEVERITY_INFO = 9" | "severity_number SEVERITY_INFO2 = 10"
| "severity_number SEVERITY_INFO3 = 11" | "severity_number SEVERITY_INFO4 = 12"
| "severity_number SEVERITY_WARN = 13" | "severity_number SEVERITY_WARN2 = 14"
| "severity_number SEVERITY_WARN3 = 15" | "severity_number SEVERITY_WARN4 = 16"
| "severity_number SEVERITY_ERROR = 17" | "severity_number SEVERITY_ERROR2 = 18"
| "severity_number SEVERITY_ERROR3 = 19" | "severity_number SEVERITY_ERROR4 = 20"
| "severity_number SEVERITY_FATAL = 21" | "severity_number SEVERITY_FATAL2 = 22"
| "severity_number SEVERITY_FATAL3 = 23" | "severity_number SEVERITY_FATAL4 = 24"

record log_record =
  lr_severity :: severity
  lr_severity_text :: "cstr option"
  lr_body :: "cstr option"
  lr_timestamp :: u64
  lr_has_timestamp :: bool
  lr_trace_id :: "u8 list"
  lr_span_id :: "u8 list"
  lr_has_trace_id :: bool
  lr_has_span_id :: bool
  lr_attrs :: attr_vec

section \<open>Lifecycle\<close>

definition log_zero :: log_record where
  "log_zero = \<lparr>lr_severity = SEVERITY_UNSPECIFIED, lr_severity_text = None, lr_body = None, lr_timestamp = 0,
     lr_has_timestamp = False, lr_trace_id = replicate OTLP_TRACE_ID_LEN 0,
     lr_span_id = replicate OTLP_SPAN_ID_LEN 0, lr_has_trace_id = False, lr_has_span_id = False,
     lr_attrs = vec_empty\<rparr>"

definition otlp_log_record_create ::
  "'m allocator \<Rightarrow> severity \<Rightarrow> cstr option \<Rightarrow> 'm \<Rightarrow> log_record option \<times> 'm" where
  "otlp_log_record_create A sev body m =
     (case a_alloc A SIZEOF_LOG_RECORD m of
        (False, m1) \<Rightarrow> (None, m1)
      | (True, m1) \<Rightarrow>
          if body \<noteq> None \<and> \<not> otlp_str_is_utf8 body then (None, m1)
          else (case otlp_dup_str A (Some (or_empty body)) m1 of
              (None, m2) \<Rightarrow> (None, m2)
            | (Some c, m2) \<Rightarrow> (Some (log_zero\<lparr>lr_severity := sev, lr_body := Some c\<rparr>), m2)))"

section \<open>Setters\<close>

definition otlp_log_record_set_timestamp :: "log_record option \<Rightarrow> u64 \<Rightarrow> status \<times> log_record option" where
  "otlp_log_record_set_timestamp lr t =
     (case lr of None \<Rightarrow> (OTLP_ERR_NULL, None)
      | Some l \<Rightarrow> (OTLP_OK, Some (l\<lparr>lr_timestamp := t, lr_has_timestamp := True\<rparr>)))"

text \<open>The code reads the clock into a local variable, so a failing clock leaves the record alone.\<close>

definition otlp_log_record_mark_timestamp ::
  "log_record option \<Rightarrow> (u64 \<times> u64) option \<Rightarrow> status \<times> log_record option" where
  "otlp_log_record_mark_timestamp lr ts =
     (case lr of None \<Rightarrow> (OTLP_ERR_NULL, None)
      | Some l \<Rightarrow> (case otlp_platform_now_unix_nano ts 0 of (st, now) \<Rightarrow>
          if st \<noteq> OTLP_OK then (OTLP_ERR_NETWORK, Some l)
          else (OTLP_OK, Some (l\<lparr>lr_timestamp := now, lr_has_timestamp := True\<rparr>))))"

definition otlp_log_record_set_trace_id :: "log_record option \<Rightarrow> u8 list option \<Rightarrow> status \<times> log_record option" where
  "otlp_log_record_set_trace_id lr tid =
     (case (lr, tid) of
        (Some l, Some t) \<Rightarrow>
          if otlp_id_is_all_zero (take OTLP_TRACE_ID_LEN t) then (OTLP_ERR_INVALID_ARGUMENT, Some l)
          else (OTLP_OK, Some (l\<lparr>lr_trace_id := take OTLP_TRACE_ID_LEN t, lr_has_trace_id := True\<rparr>))
      | _ \<Rightarrow> (OTLP_ERR_NULL, lr))"

definition otlp_log_record_set_span_id :: "log_record option \<Rightarrow> u8 list option \<Rightarrow> status \<times> log_record option" where
  "otlp_log_record_set_span_id lr sid =
     (case (lr, sid) of
        (Some l, Some t) \<Rightarrow>
          if otlp_id_is_all_zero (take OTLP_SPAN_ID_LEN t) then (OTLP_ERR_INVALID_ARGUMENT, Some l)
          else (OTLP_OK, Some (l\<lparr>lr_span_id := take OTLP_SPAN_ID_LEN t, lr_has_span_id := True\<rparr>))
      | _ \<Rightarrow> (OTLP_ERR_NULL, lr))"

text \<open>The old text is freed before the new one is duplicated; without memory the field is NULL.\<close>

definition otlp_log_record_set_severity_text ::
  "'m allocator \<Rightarrow> log_record option \<Rightarrow> cstr option \<Rightarrow> 'm \<Rightarrow> status \<times> log_record option \<times> 'm" where
  "otlp_log_record_set_severity_text A lr txt m =
     (case lr of None \<Rightarrow> (OTLP_ERR_NULL, None, m)
      | Some l \<Rightarrow>
          if txt \<noteq> None \<and> \<not> otlp_str_is_utf8 txt then (OTLP_ERR_UTF8, Some l, m)
          else (case otlp_dup_str A (Some (or_empty txt)) m of (c, m1) \<Rightarrow>
              if txt \<noteq> None \<and> c = None then (OTLP_ERR_NOMEM, Some (l\<lparr>lr_severity_text := c\<rparr>), m1)
              else (OTLP_OK, Some (l\<lparr>lr_severity_text := c\<rparr>), m1)))"

definition on_log_attrs ::
  "log_record option \<Rightarrow> cstr option \<Rightarrow> (attr_vec \<Rightarrow> 'm \<Rightarrow> status \<times> attr_vec \<times> 'm) \<Rightarrow> 'm \<Rightarrow>
     status \<times> log_record option \<times> 'm" where
  "on_log_attrs lr key f m =
     (case lr of None \<Rightarrow> (OTLP_ERR_NULL, None, m)
      | Some l \<Rightarrow> if key = None then (OTLP_ERR_NULL, Some l, m)
          else (case f (lr_attrs l) m of (st, vec, m1) \<Rightarrow> (st, Some (l\<lparr>lr_attrs := vec\<rparr>), m1)))"

definition otlp_log_record_set_attribute_string ::
  "'m allocator \<Rightarrow> log_record option \<Rightarrow> cstr option \<Rightarrow> cstr option \<Rightarrow> 'm \<Rightarrow> status \<times> log_record option \<times> 'm" where
  "otlp_log_record_set_attribute_string A lr key val m =
     on_log_attrs lr key (\<lambda>vec. otlp_attr_vec_set A vec OTLP_LOG_MAX_ATTRS key (Some (OV_String (Some (or_empty val))))) m"

definition otlp_log_record_set_attribute_int ::
  "'m allocator \<Rightarrow> log_record option \<Rightarrow> cstr option \<Rightarrow> u64 \<Rightarrow> 'm \<Rightarrow> status \<times> log_record option \<times> 'm" where
  "otlp_log_record_set_attribute_int A lr key val m =
     on_log_attrs lr key (\<lambda>vec. otlp_attr_vec_set A vec OTLP_LOG_MAX_ATTRS key (Some (OV_Int64 val))) m"

definition otlp_log_record_set_attribute_double ::
  "'m allocator \<Rightarrow> log_record option \<Rightarrow> cstr option \<Rightarrow> u64 \<Rightarrow> 'm \<Rightarrow> status \<times> log_record option \<times> 'm" where
  "otlp_log_record_set_attribute_double A lr key val m =
     on_log_attrs lr key (\<lambda>vec. otlp_attr_vec_set A vec OTLP_LOG_MAX_ATTRS key (Some (OV_Double val))) m"

definition otlp_log_record_set_attribute_bool ::
  "'m allocator \<Rightarrow> log_record option \<Rightarrow> cstr option \<Rightarrow> bool \<Rightarrow> 'm \<Rightarrow> status \<times> log_record option \<times> 'm" where
  "otlp_log_record_set_attribute_bool A lr key val m =
     on_log_attrs lr key (\<lambda>vec. otlp_attr_vec_set A vec OTLP_LOG_MAX_ATTRS key (Some (OV_Bool val))) m"

definition otlp_log_record_set_attribute_bytes ::
  "'m allocator \<Rightarrow> log_record option \<Rightarrow> cstr option \<Rightarrow> u8 list option \<Rightarrow> nat \<Rightarrow> 'm \<Rightarrow> status \<times> log_record option \<times> 'm" where
  "otlp_log_record_set_attribute_bytes A lr key bytes len m =
     on_log_attrs lr key (\<lambda>vec. otlp_attr_vec_set A vec OTLP_LOG_MAX_ATTRS key (Some (OV_Bytes bytes len))) m"

definition otlp_log_record_set_attribute_array ::
  "'m allocator \<Rightarrow> log_record option \<Rightarrow> cstr option \<Rightarrow> otlp_value list option \<Rightarrow> nat \<Rightarrow> 'm \<Rightarrow>
     status \<times> log_record option \<times> 'm" where
  "otlp_log_record_set_attribute_array A lr key items n m =
     on_log_attrs lr key (\<lambda>vec. otlp_attr_vec_set_array A vec OTLP_LOG_MAX_ATTRS key items n) m"

definition otlp_log_record_set_attribute_kvlist ::
  "'m allocator \<Rightarrow> log_record option \<Rightarrow> cstr option \<Rightarrow> otlp_kv list option \<Rightarrow> nat \<Rightarrow> 'm \<Rightarrow>
     status \<times> log_record option \<times> 'm" where
  "otlp_log_record_set_attribute_kvlist A lr key entries n m =
     on_log_attrs lr key (\<lambda>vec. otlp_attr_vec_set_kvlist A vec OTLP_LOG_MAX_ATTRS key entries n) m"

section \<open>Accessors\<close>

definition otlp_log_get_severity :: "log_record option \<Rightarrow> severity" where
  "otlp_log_get_severity lr = (case lr of None \<Rightarrow> SEVERITY_UNSPECIFIED | Some l \<Rightarrow> lr_severity l)"
definition otlp_log_get_severity_text :: "log_record option \<Rightarrow> cstr option" where
  "otlp_log_get_severity_text lr = (case lr of None \<Rightarrow> None | Some l \<Rightarrow> lr_severity_text l)"
definition otlp_log_get_body :: "log_record option \<Rightarrow> cstr option" where
  "otlp_log_get_body lr = (case lr of None \<Rightarrow> None | Some l \<Rightarrow> lr_body l)"
definition otlp_log_get_timestamp :: "log_record option \<Rightarrow> u64" where
  "otlp_log_get_timestamp lr = (case lr of None \<Rightarrow> 0 | Some l \<Rightarrow> lr_timestamp l)"
definition otlp_log_has_timestamp :: "log_record option \<Rightarrow> bool" where
  "otlp_log_has_timestamp lr = (case lr of None \<Rightarrow> False | Some l \<Rightarrow> lr_has_timestamp l)"
definition otlp_log_get_trace_id :: "log_record option \<Rightarrow> u8 list option" where
  "otlp_log_get_trace_id lr = (case lr of None \<Rightarrow> None | Some l \<Rightarrow> Some (lr_trace_id l))"
definition otlp_log_get_span_id :: "log_record option \<Rightarrow> u8 list option" where
  "otlp_log_get_span_id lr = (case lr of None \<Rightarrow> None | Some l \<Rightarrow> Some (lr_span_id l))"
definition otlp_log_has_trace :: "log_record option \<Rightarrow> bool" where
  "otlp_log_has_trace lr = (case lr of None \<Rightarrow> False | Some l \<Rightarrow> lr_has_trace_id l \<or> lr_has_span_id l)"
definition otlp_log_has_trace_id :: "log_record option \<Rightarrow> bool" where
  "otlp_log_has_trace_id lr = (case lr of None \<Rightarrow> False | Some l \<Rightarrow> lr_has_trace_id l)"
definition otlp_log_has_span_id :: "log_record option \<Rightarrow> bool" where
  "otlp_log_has_span_id lr = (case lr of None \<Rightarrow> False | Some l \<Rightarrow> lr_has_span_id l)"
definition otlp_log_get_attrs :: "log_record option \<Rightarrow> attribute list" where
  "otlp_log_get_attrs lr = (case lr of None \<Rightarrow> [] | Some l \<Rightarrow> av_items (lr_attrs l))"

section \<open>Deep clone\<close>

definition otlp_log_record_clone :: "'m allocator \<Rightarrow> log_record option \<Rightarrow> 'm \<Rightarrow> log_record option \<times> 'm" where
  "otlp_log_record_clone A src_ptr m =
     (case src_ptr of None \<Rightarrow> (None, m)
      | Some src \<Rightarrow> (case a_alloc A SIZEOF_LOG_RECORD m of
          (False, m1) \<Rightarrow> (None, m1)
        | (True, m1) \<Rightarrow>
            (case otlp_dup_str A (lr_severity_text src) m1 of (txt, m2) \<Rightarrow>
            (case otlp_dup_str A (lr_body src) m2 of (body, m3) \<Rightarrow>
              if (lr_severity_text src \<noteq> None \<and> txt = None) \<or> (lr_body src \<noteq> None \<and> body = None) then (None, m3)
              else
                let dst = log_zero\<lparr>lr_severity := lr_severity src, lr_severity_text := txt, lr_body := body,
                      lr_timestamp := lr_timestamp src, lr_has_timestamp := lr_has_timestamp src,
                      lr_trace_id := lr_trace_id src, lr_span_id := lr_span_id src,
                      lr_has_trace_id := lr_has_trace_id src, lr_has_span_id := lr_has_span_id src\<rparr>
                in (case otlp_attr_vec_copy A (lr_attrs dst) (lr_attrs src) m3 of (st, vec, m4) \<Rightarrow>
                    if st \<noteq> OTLP_OK then (None, m4) else (Some (dst\<lparr>lr_attrs := vec\<rparr>), m4))))))"

section \<open>Well-formed records\<close>

text \<open>
  What every record built through the interface is: strings valid UTF-8, those nested in
  attribute values included; identifiers of their length and never all zero once set.
\<close>

definition log_ok :: "log_record \<Rightarrow> bool" where
  "log_ok l \<longleftrightarrow>
     lr_body l \<noteq> None \<and> otlp_str_is_utf8 (lr_body l) \<and> otlp_str_is_utf8 (lr_severity_text l) \<and>
     length (lr_trace_id l) = OTLP_TRACE_ID_LEN \<and> length (lr_span_id l) = OTLP_SPAN_ID_LEN \<and>
     (lr_has_trace_id l \<longrightarrow> \<not> otlp_id_is_all_zero (lr_trace_id l)) \<and>
     (lr_has_span_id l \<longrightarrow> \<not> otlp_id_is_all_zero (lr_span_id l)) \<and>
     vec_ok OTLP_LOG_MAX_ATTRS (lr_attrs l)"

definition log_view :: "log_record \<Rightarrow> log_record" where
  "log_view l = l\<lparr>lr_attrs := vec_view (lr_attrs l)\<rparr>"

datatype log_op =
    Log_Timestamp u64 | Log_Mark "(u64 \<times> u64) option" | Log_Trace_Id "u8 list option" | Log_Span_Id "u8 list option"
  | Log_Severity_Text "cstr option" | Log_Attr "cstr option" attr_arg

fun log_attr_call ::
  "'m allocator \<Rightarrow> log_record option \<Rightarrow> cstr option \<Rightarrow> attr_arg \<Rightarrow> 'm \<Rightarrow> status \<times> log_record option \<times> 'm" where
  "log_attr_call A l k (Arg_String v) = otlp_log_record_set_attribute_string A l k v"
| "log_attr_call A l k (Arg_Int v) = otlp_log_record_set_attribute_int A l k v"
| "log_attr_call A l k (Arg_Double v) = otlp_log_record_set_attribute_double A l k v"
| "log_attr_call A l k (Arg_Bool v) = otlp_log_record_set_attribute_bool A l k v"
| "log_attr_call A l k (Arg_Bytes v n) = otlp_log_record_set_attribute_bytes A l k v n"
| "log_attr_call A l k (Arg_Array v n) = otlp_log_record_set_attribute_array A l k v n"
| "log_attr_call A l k (Arg_Kvlist v n) = otlp_log_record_set_attribute_kvlist A l k v n"

fun log_step :: "'m allocator \<Rightarrow> log_record option \<Rightarrow> log_op \<Rightarrow> 'm \<Rightarrow> status \<times> log_record option \<times> 'm" where
  "log_step A l (Log_Timestamp t) m = (case otlp_log_record_set_timestamp l t of (st, l') \<Rightarrow> (st, l', m))"
| "log_step A l (Log_Mark ts) m = (case otlp_log_record_mark_timestamp l ts of (st, l') \<Rightarrow> (st, l', m))"
| "log_step A l (Log_Trace_Id t) m = (case otlp_log_record_set_trace_id l t of (st, l') \<Rightarrow> (st, l', m))"
| "log_step A l (Log_Span_Id t) m = (case otlp_log_record_set_span_id l t of (st, l') \<Rightarrow> (st, l', m))"
| "log_step A l (Log_Severity_Text t) m = otlp_log_record_set_severity_text A l t m"
| "log_step A l (Log_Attr k v) m = log_attr_call A l k v m"

fun log_run :: "'m allocator \<Rightarrow> log_record option \<Rightarrow> log_op list \<Rightarrow> 'm \<Rightarrow> status list \<times> log_record option \<times> 'm" where
  "log_run A l [] m = ([], l, m)"
| "log_run A l (op # ops) m =
     (case log_step A l op m of (st, l1, m1) \<Rightarrow> (case log_run A l1 ops m1 of (sts, l2, m2) \<Rightarrow> (st # sts, l2, m2)))"

fun log_args_ok :: "log_op \<Rightarrow> bool" where
  "log_args_ok (Log_Trace_Id (Some t)) = (length t \<ge> OTLP_TRACE_ID_LEN)"
| "log_args_ok (Log_Span_Id (Some t)) = (length t \<ge> OTLP_SPAN_ID_LEN)"
| "log_args_ok _ = True"

text \<open>What a setter may do: keep the record well formed, and change it only when it succeeds.\<close>

definition log_keeps :: "log_record \<Rightarrow> status \<Rightarrow> log_record option \<Rightarrow> bool" where
  "log_keeps l st l' \<longleftrightarrow> (\<exists>l1. l' = Some l1 \<and> log_ok l1 \<and> (st = OTLP_OK \<or> log_view l1 = log_view l))"

lemma on_log_attrs_keeps:
  assumes "log_ok l" and f: "\<And>k. key = Some k \<Longrightarrow> vec_setter OTLP_LOG_MAX_ATTRS f"
    and run: "on_log_attrs (Some l) key f m = (st, l', m')"
  shows "log_keeps l st l'"
proof (cases key)
  case None
  then show ?thesis using assms by (auto simp: on_log_attrs_def log_keeps_def)
next
  case (Some k)
  obtain vec where v: "f (lr_attrs l) m = (st, vec, m')" "l' = Some (l\<lparr>lr_attrs := vec\<rparr>)"
    using run Some by (auto simp: on_log_attrs_def split: prod.splits)
  then have "vec_ok OTLP_LOG_MAX_ATTRS vec" "st = OTLP_OK \<or> vec_view vec = vec_view (lr_attrs l)"
    using vec_setterD [OF f [OF Some]] assms(1) by (auto simp: log_ok_def)
  then show ?thesis using assms(1) v(2) by (auto simp: log_keeps_def log_ok_def log_view_def)
qed

lemma log_attr_keeps:
  assumes "log_ok l" and "log_attr_call A (Some l) key v m = (st, l', m')"
  shows "log_keeps l st l'"
  using assms
  by (cases v)
    (auto simp: otlp_log_record_set_attribute_string_def otlp_log_record_set_attribute_int_def
      otlp_log_record_set_attribute_double_def otlp_log_record_set_attribute_bool_def
      otlp_log_record_set_attribute_bytes_def otlp_log_record_set_attribute_array_def
      otlp_log_record_set_attribute_kvlist_def elim!: on_log_attrs_keeps [rotated 2] intro: setters)

lemma dup_str_value: "otlp_dup_str A (Some t) m = (c, m') \<Longrightarrow> c = None \<or> c = Some t"
  by (auto simp: otlp_dup_str_def split: if_splits prod.splits)

text \<open>
  Every setter keeps the record well formed. All but one are atomic; the severity text is the
  exception, and only when memory runs out.
\<close>

lemma log_step_keeps:
  assumes ok: "log_ok l" and args: "log_args_ok op" and run: "log_step A (Some l) op m = (st, l', m')"
  shows "(\<exists>l1. l' = Some l1 \<and> log_ok l1) \<and>
    (st = OTLP_OK \<or> (\<exists>l1. l' = Some l1 \<and> log_view l1 = log_view l) \<or>
     (st = OTLP_ERR_NOMEM \<and> (\<exists>t. op = Log_Severity_Text (Some t)) \<and> l' = Some (l\<lparr>lr_severity_text := None\<rparr>)))"
proof (cases op)
  case (Log_Attr k v)
  with run have "log_keeps l st l'" using log_attr_keeps [OF ok] by simp
  then show ?thesis by (auto simp: log_keeps_def)
next
  case (Log_Severity_Text t)
  with run ok show ?thesis
    by (auto simp: otlp_log_record_set_severity_text_def log_ok_def or_empty_def
        dest: dup_str_value split: if_splits option.splits prod.splits)
qed (use ok args run in \<open>auto simp: log_ok_def otlp_log_record_set_timestamp_def
      otlp_log_record_mark_timestamp_def otlp_log_record_set_trace_id_def otlp_log_record_set_span_id_def
      split: if_splits option.splits prod.splits\<close>)

lemma log_create_ok: "otlp_log_record_create A sev body m = (Some l, m') \<Longrightarrow> log_ok l"
  by (auto simp: otlp_log_record_create_def log_ok_def log_zero_def or_empty_def
      dest!: dup_str_Some split: prod.splits bool.splits if_splits option.splits)

lemma log_run_ok:
  "log_ok l \<Longrightarrow> \<forall>op\<in>set ops. log_args_ok op \<Longrightarrow>
     \<exists>sts l' m'. log_run A (Some l) ops m = (sts, Some l', m') \<and> log_ok l'"
proof (induction ops arbitrary: l m)
  case (Cons op ops)
  obtain st l1 m1 where step: "log_step A (Some l) op m = (st, l1, m1)" by (rule prod_cases3)
  obtain l2 where l2: "l1 = Some l2" "log_ok l2" using log_step_keeps [OF Cons.prems(1) _ step] Cons.prems(2) by auto
  show ?case using Cons.IH [OF l2(2), of m1] Cons.prems(2) step l2(1) by auto
qed simp

lemma log_clone_ok:
  assumes src: "log_ok l" and clone: "otlp_log_record_clone A (Some l) m = (Some d, m')"
  shows "log_ok d \<and> log_view d = log_view l"
proof -
  obtain m1 where al: "a_alloc A SIZEOF_LOG_RECORD m = (True, m1)"
    using clone by (auto simp: otlp_log_record_clone_def split: prod.splits bool.splits)
  obtain tx m2 where tx: "otlp_dup_str A (lr_severity_text l) m1 = (tx, m2)" by (rule prod.exhaust)
  obtain body m3 where body: "otlp_dup_str A (lr_body l) m2 = (body, m3)" by (rule prod.exhaust)
  obtain st vec m4 where vec: "otlp_attr_vec_copy A vec_empty (lr_attrs l) m3 = (st, vec, m4)" by (rule prod_cases3)
  have same: "tx = lr_severity_text l" "body = lr_body l"
    using clone al tx body dup_str_Some [of A "lr_severity_text l" m1] dup_str_Some [of A "lr_body l" m2]
    by (cases tx; cases body; auto simp: otlp_log_record_clone_def Let_def split: if_splits)+
  have st: "st = OTLP_OK" and d: "d = l\<lparr>lr_attrs := vec\<rparr>"
    using clone al tx body vec same
    by (auto simp: otlp_log_record_clone_def Let_def log_zero_def split: if_splits)
  have "av_items vec = av_items (lr_attrs l)" "vec_ok OTLP_LOG_MAX_ATTRS vec"
    using copy_vec [OF vec [unfolded st]] src by (auto simp: log_ok_def)
  with src d show ?thesis by (simp add: log_ok_def log_view_def vec_view_eq)
qed

section \<open>Properties\<close>

text \<open>
  A log record stays well formed under every sequence of setter calls, failing ones included:
  its strings, nested ones too, are valid UTF-8, identifiers keep their length and one that is
  marked present is never all zero, attribute keys are unique and within the limit. Its clone
  has the same content.
\<close>

theorem log_api_invariant:
  assumes "otlp_log_record_create A sev body m = (Some l, m1)" and "\<forall>op\<in>set ops. log_args_ok op"
  shows "\<exists>sts l' m2. log_run A (Some l) ops m1 = (sts, Some l', m2) \<and> log_ok l' \<and>
    (\<forall>d m3. otlp_log_record_clone A (Some l') m2 = (Some d, m3) \<longrightarrow> log_view d = log_view l' \<and> log_ok d)"
proof -
  obtain sts l' m2 where "log_run A (Some l) ops m1 = (sts, Some l', m2)" "log_ok l'"
    using log_run_ok [OF log_create_ok [OF assms(1)] assms(2), of A m1] by blast
  then show ?thesis using log_clone_ok [of l' A m2] by blast
qed

lemma demo_log: "otlp_log_record_create always_alloc SEVERITY_INFO None () =
    (Some (log_zero\<lparr>lr_severity := SEVERITY_INFO, lr_body := Some []\<rparr>), ())"
  by (simp add: otlp_log_record_create_def always_alloc_def otlp_dup_str_def or_empty_def SIZE_MAX_def)

theorem log_api_invariant_witness:
  "\<exists>l sts l' m2. otlp_log_record_create always_alloc SEVERITY_INFO None () = (Some l, ()) \<and>
    log_run always_alloc (Some l) [Log_Trace_Id (Some (replicate 16 0)), Log_Span_Id (Some (replicate 8 7)),
      Log_Severity_Text (Some [0xff])] () = (sts, Some l', m2) \<and>
    sts = [OTLP_ERR_INVALID_ARGUMENT, OTLP_OK, OTLP_ERR_UTF8] \<and> log_ok l'"
proof -
  let ?l = "log_zero\<lparr>lr_severity := SEVERITY_INFO, lr_body := Some []\<rparr>"
  let ?l1 = "?l\<lparr>lr_span_id := replicate 8 7, lr_has_span_id := True\<rparr>"
  have "otlp_id_is_all_zero (replicate 16 0)" "\<not> otlp_id_is_all_zero (replicate 8 7)"
    by (simp_all add: otlp_id_is_all_zero_def list_all_iff)
  then have "log_step always_alloc (Some ?l) (Log_Trace_Id (Some (replicate 16 0))) () = (OTLP_ERR_INVALID_ARGUMENT, Some ?l, ())"
    "log_step always_alloc (Some ?l) (Log_Span_Id (Some (replicate 8 7))) () = (OTLP_OK, Some ?l1, ())"
    by (simp_all add: otlp_log_record_set_trace_id_def otlp_log_record_set_span_id_def OTLP_TRACE_ID_LEN_def
        OTLP_SPAN_ID_LEN_def)
  moreover have "log_step always_alloc (Some ?l1) (Log_Severity_Text (Some [0xff])) () = (OTLP_ERR_UTF8, Some ?l1, ())"
    by (simp add: otlp_log_record_set_severity_text_def otlp_str_is_utf8_def utf8_scan.simps utf8_lead_def)
  ultimately have run: "log_run always_alloc (Some ?l) [Log_Trace_Id (Some (replicate 16 0)), Log_Span_Id (Some (replicate 8 7)),
      Log_Severity_Text (Some [0xff])] () = ([OTLP_ERR_INVALID_ARGUMENT, OTLP_OK, OTLP_ERR_UTF8], Some ?l1, ())"
    by simp
  then show ?thesis
    using log_api_invariant [OF demo_log, of "[Log_Trace_Id (Some (replicate 16 0)), Log_Span_Id (Some (replicate 8 7)),
      Log_Severity_Text (Some [0xff])]"] demo_log
    by (simp add: OTLP_TRACE_ID_LEN_def OTLP_SPAN_ID_LEN_def)
qed

text \<open>
  A setter of a log record that fails leaves the content as it was, with one exception: when
  memory runs out while the severity text is replaced, the old text is already gone.
\<close>

theorem log_setter_error_atomic:
  assumes "log_ok l" and "log_args_ok op" and "log_step A (Some l) op m = (st, l', m')" and "st \<noteq> OTLP_OK"
  shows "(\<exists>l1. l' = Some l1 \<and> log_view l1 = log_view l) \<or>
    (st = OTLP_ERR_NOMEM \<and> (\<exists>t. op = Log_Severity_Text (Some t)) \<and> l' = Some (l\<lparr>lr_severity_text := None\<rparr>))"
  using log_step_keeps [OF assms(1-3)] assms(4) by blast

definition never_alloc :: "unit allocator" where
  "never_alloc = \<lparr>a_alloc = (\<lambda>_ m. (False, m)), a_realloc = (\<lambda>_ m. (False, m))\<rparr>"

theorem log_setter_error_atomic_witness:
  "let l = log_zero\<lparr>lr_body := Some [], lr_severity_text := Some (ascii ''WARN'')\<rparr>;
       r = log_step never_alloc (Some l) (Log_Severity_Text (Some (ascii ''ERROR''))) () in
     log_ok l \<and> fst r = OTLP_ERR_NOMEM \<and> fst (snd r) = Some (l\<lparr>lr_severity_text := None\<rparr>) \<and> lr_severity_text l \<noteq> None"
proof -
  let ?l = "log_zero\<lparr>lr_body := Some [], lr_severity_text := Some (ascii ''WARN'')\<rparr>"
  have ok: "log_ok ?l"
    by (simp add: log_ok_def log_zero_def ascii_def otlp_str_is_utf8_def utf8_scan.simps utf8_lead_def)
  obtain l' m' where run: "log_step never_alloc (Some ?l) (Log_Severity_Text (Some (ascii ''ERROR''))) () = (OTLP_ERR_NOMEM, l', m')"
    by (simp add: otlp_log_record_set_severity_text_def never_alloc_def otlp_dup_str_def or_empty_def SIZE_MAX_def
        ascii_def otlp_str_is_utf8_def utf8_scan.simps utf8_lead_def)
  have "lr_severity_text (log_view (the l')) \<noteq> lr_severity_text (log_view ?l)" using run
    by (auto simp: otlp_log_record_set_severity_text_def never_alloc_def otlp_dup_str_def or_empty_def SIZE_MAX_def
        ascii_def otlp_str_is_utf8_def utf8_scan.simps utf8_lead_def log_view_def)
  then have "\<forall>l1. l' = Some l1 \<longrightarrow> log_view l1 \<noteq> log_view ?l" by auto
  with log_setter_error_atomic [OF ok _ run] ok run show ?thesis by (auto simp: Let_def)
qed

end
