(* ===== verification/Request_Build.thy ===== *)
theory Request_Build
  imports Trace_Encode
begin

text \<open>
  What the log and the metric request encoders share
  (\<^verbatim>\<open>src/otlp_logs_encoder.c\<close>, \<^verbatim>\<open>src/otlp_metrics_encoder.c\<close>): two sibling buffers, one for the
  resource entry and one for its scope entry, that are filled in turn and nested at the end.
\<close>

definition sibling_request ::
  "'m allocator \<Rightarrow> u32 \<Rightarrow> u32 \<Rightarrow> u32 \<Rightarrow> ('m pbst \<Rightarrow> status \<times> 'm pbst) \<Rightarrow> ('m pbst \<Rightarrow> status \<times> 'm pbst) \<Rightarrow>
     cstr option \<Rightarrow> 'm pbst \<Rightarrow> status \<times> 'm pbst" where
  "sibling_request A f_out f_scope f_url resource records schema_url =
     with_sub A
       (\<lambda>(rl, m). case otlp_pb_buf_init A 0 (pb_zero, m) of (st, sl, m1) \<Rightarrow>
          if st \<noteq> OTLP_OK then (st, rl, m1)
          else (case resource (rl, m1) of (st, rl1, m2) \<Rightarrow>
            if st \<noteq> OTLP_OK then (st, rl1, m2)
            else (case records (sl, m2) of (st, sl1, m3) \<Rightarrow>
              if st \<noteq> OTLP_OK then (st, rl1, m3)
              else then_ok (when_ok (length (pb_data sl1) > 0)
                     (otlp_pb_field_message A f_scope (Some (pb_data sl1)) (length (pb_data sl1))))
                   (when_ok (str_set schema_url) (otlp_pb_field_string A f_url schema_url)) (rl1, m3))))
       (\<lambda>d. otlp_pb_field_message A f_out (Some d) (length d))"

text \<open>Opening the second buffer early makes no difference, since an empty buffer needs no memory.\<close>

lemma sibling_nested:
  "sibling_request A f_out f_scope f_url resource records schema_url =
     field_sub A f_out (then_ok resource
       (then_ok (with_sub A records (\<lambda>d. if length d > 0 then otlp_pb_field_message A f_scope (Some d) (length d) else ret_ok))
         (when_ok (str_set schema_url) (otlp_pb_field_string A f_url schema_url))))"
  unfolding sibling_request_def field_sub_def
  by (rule arg_cong [where f = "\<lambda>body. with_sub A body (\<lambda>d. otlp_pb_field_message A f_out (Some d) (length d))"])
    (auto simp: fun_eq_iff with_sub_def buf_init_0 then_ok_def when_ok_def ret_ok_def split: prod.splits if_splits)

lemma sibling_emits:
  assumes "msg_emits A resource rm" "msg_emits A records sm" "f_out \<noteq> 0" "f_scope \<noteq> 0" "f_url \<noteq> 0"
  shows "msg_emits A (sibling_request A f_out f_scope f_url resource records schema_url)
    (sub_msg f_out (rm @ sub_msg f_scope sm @ string_msg f_url schema_url))"
  unfolding sibling_nested
  by (intro msg_sub msg_then msg_sub_guarded msg_string assms)

end
