(* ===== verification/Log_Encode.thy ===== *)
theory Log_Encode
  imports Log Request_Build
begin

text \<open>
  The log encoder (\<^verbatim>\<open>src/otlp_logs_encoder.c\<close>): one log record, and the export request around a
  batch. Field numbers come from \<open>Otlp_Schema\<close>; a record pointer is a \<open>log_record option\<close>.
\<close>

abbreviation "ELSR_F_RESOURCE_LOGS \<equiv> fs_number (OTLP_ELSR_FIELDS OTLP_ELSR_FI_RESOURCE_LOGS)"
abbreviation "RL_F_RESOURCE \<equiv> fs_number (OTLP_RL_FIELDS OTLP_RL_FI_RESOURCE)"
abbreviation "RL_F_SCOPE_LOGS \<equiv> fs_number (OTLP_RL_FIELDS OTLP_RL_FI_SCOPE_LOGS)"
abbreviation "RL_F_SCHEMA_URL \<equiv> fs_number (OTLP_RL_FIELDS OTLP_RL_FI_SCHEMA_URL)"
abbreviation "SL_F_SCOPE \<equiv> fs_number (OTLP_SL_FIELDS OTLP_SL_FI_SCOPE)"
abbreviation "SL_F_LOG_RECORDS \<equiv> fs_number (OTLP_SL_FIELDS OTLP_SL_FI_LOG_RECORDS)"
abbreviation "LOG_F i \<equiv> fs_number (OTLP_LOG_FIELDS i)"

section \<open>The encoder\<close>

definition encode_log_fields :: "'m allocator \<Rightarrow> log_record option \<Rightarrow> 'm pbst \<Rightarrow> status \<times> 'm pbst" where
  "encode_log_fields A lr =
     then_ok (when_ok (otlp_log_has_timestamp lr)
       (otlp_pb_field_fixed64 A (LOG_F OTLP_LOG_FI_TIME) (otlp_log_get_timestamp lr)))
    (then_ok (when_ok (otlp_log_get_severity lr \<noteq> SEVERITY_UNSPECIFIED)
       (otlp_pb_field_varint A (LOG_F OTLP_LOG_FI_SEVERITY_NUMBER) (severity_number (otlp_log_get_severity lr))))
    (then_ok (when_ok (str_set (otlp_log_get_severity_text lr))
       (otlp_pb_field_string A (LOG_F OTLP_LOG_FI_SEVERITY_TEXT) (otlp_log_get_severity_text lr)))
    (then_ok (when_ok (str_set (otlp_log_get_body lr))
       (field_sub A (LOG_F OTLP_LOG_FI_BODY)
         (otlp_encode_any_value A (AV_String (Some (or_nil (otlp_log_get_body lr)))))))
    (then_ok (otlp_emit_attributes A (LOG_F OTLP_LOG_FI_ATTRIBUTES) (otlp_log_get_attrs lr))
    (then_ok (when_ok (otlp_log_has_trace_id lr)
       (otlp_pb_field_bytes A (LOG_F OTLP_LOG_FI_TRACE_ID) (otlp_log_get_trace_id lr) OTLP_TRACE_ID_LEN))
      (when_ok (otlp_log_has_span_id lr)
       (otlp_pb_field_bytes A (LOG_F OTLP_LOG_FI_SPAN_ID) (otlp_log_get_span_id lr) OTLP_SPAN_ID_LEN)))))))"

definition emit_log_record ::
  "'m allocator \<Rightarrow> u32 \<Rightarrow> log_record option \<Rightarrow> 'm pbst \<Rightarrow> status \<times> 'm pbst" where
  "emit_log_record A f lr = field_sub A f (encode_log_fields A lr)"

definition otlp_encode_export_logs_service_request ::
  "'m allocator \<Rightarrow> cstr option \<Rightarrow> cstr option \<Rightarrow> attribute list \<Rightarrow> cstr option \<Rightarrow> cstr option \<Rightarrow>
     log_record option list \<Rightarrow> 'm pbst \<Rightarrow> status \<times> 'm pbst" where
  "otlp_encode_export_logs_service_request A service_name schema_url attrs scope_name scope_version logs =
     (if length logs = 0 \<and> \<not> str_set service_name \<and> \<not> length attrs > 0 then ret_ok
      else sibling_request A ELSR_F_RESOURCE_LOGS RL_F_SCOPE_LOGS RL_F_SCHEMA_URL
        (otlp_emit_resource A RL_F_RESOURCE service_name attrs)
        (then_ok (otlp_emit_instrumentation_scope A SL_F_SCOPE scope_name scope_version)
          (each_ok (emit_log_record A SL_F_LOG_RECORDS) logs))
        schema_url)"

section \<open>The messages it means\<close>

definition log_msg :: "log_record \<Rightarrow> pb_msg" where
  "log_msg l =
     when_msg (lr_has_timestamp l) (fixed64_msg 1 (lr_timestamp l)) @
     when_msg (lr_severity l \<noteq> SEVERITY_UNSPECIFIED) (varint_msg 2 (severity_number (lr_severity l))) @
     string_msg 3 (lr_severity_text l) @
     when_msg (str_set (lr_body l)) (sub_msg 5 (any_msg (AV_String (Some (or_nil (lr_body l)))))) @
     attrs_msg 6 (av_items (lr_attrs l)) @
     when_msg (lr_has_trace_id l) (bytes_msg 9 (lr_trace_id l)) @
     when_msg (lr_has_span_id l) (bytes_msg 10 (lr_span_id l))"

definition scope_logs_msg :: "cstr option \<Rightarrow> cstr option \<Rightarrow> log_record list \<Rightarrow> pb_msg" where
  "scope_logs_msg name version logs =
     sub_msg 1 (scope_msg name version) @ concat (map (\<lambda>l. sub_msg 2 (log_msg l)) logs)"

definition logs_request_msg ::
  "cstr option \<Rightarrow> cstr option \<Rightarrow> attribute list \<Rightarrow> cstr option \<Rightarrow> cstr option \<Rightarrow> log_record list \<Rightarrow> pb_msg" where
  "logs_request_msg service_name schema_url attrs scope_name scope_version logs =
     when_msg (logs \<noteq> [] \<or> str_set service_name \<or> attrs \<noteq> [])
       (sub_msg 1 (sub_msg 1 (resource_msg service_name attrs) @
          sub_msg 2 (scope_logs_msg scope_name scope_version logs) @ string_msg 3 schema_url))"

section \<open>The encoder emits its message\<close>

lemmas log_rows = OTLP_ELSR_FIELDS.simps OTLP_RL_FIELDS.simps OTLP_SL_FIELDS.simps OTLP_LOG_FIELDS.simps
  field_spec.select_convs

lemma log_getters:
  "otlp_log_get_severity (Some l) = lr_severity l" "otlp_log_get_severity_text (Some l) = lr_severity_text l"
  "otlp_log_get_body (Some l) = lr_body l" "otlp_log_get_timestamp (Some l) = lr_timestamp l"
  "otlp_log_has_timestamp (Some l) = lr_has_timestamp l" "otlp_log_get_trace_id (Some l) = Some (lr_trace_id l)"
  "otlp_log_get_span_id (Some l) = Some (lr_span_id l)" "otlp_log_has_trace_id (Some l) = lr_has_trace_id l"
  "otlp_log_has_span_id (Some l) = lr_has_span_id l" "otlp_log_get_attrs (Some l) = av_items (lr_attrs l)"
  by (simp_all add: otlp_log_get_severity_def otlp_log_get_severity_text_def otlp_log_get_body_def
      otlp_log_get_timestamp_def otlp_log_has_timestamp_def otlp_log_get_trace_id_def otlp_log_get_span_id_def
      otlp_log_has_trace_id_def otlp_log_has_span_id_def otlp_log_get_attrs_def)

definition log_ids_sized :: "log_record \<Rightarrow> bool" where
  "log_ids_sized l \<longleftrightarrow> length (lr_trace_id l) = OTLP_TRACE_ID_LEN \<and> length (lr_span_id l) = OTLP_SPAN_ID_LEN"

lemma log_fields_emit:
  assumes "log_ids_sized l"
  shows "msg_emits A (encode_log_fields A (Some l)) (log_msg l)"
  unfolding encode_log_fields_def log_msg_def log_getters log_rows
  by (intro msg_then msg_when msg_fixed64 msg_varint msg_string msg_sub any_value_emits attributes_emits msg_bytes)
    (use assms in \<open>simp_all add: log_ids_sized_def\<close>)

lemma logs_request_emits:
  assumes "\<forall>l \<in> set logs. log_ids_sized l"
  shows "msg_emits A (otlp_encode_export_logs_service_request A svc url attrs name version (map Some logs))
    (logs_request_msg svc url attrs name version logs)"
proof -
  have rec: "msg_emits A (each_ok (emit_log_record A 2) (map Some logs)) (concat (map (\<lambda>l. sub_msg 2 (log_msg l)) logs))"
    using assms
  proof (induction logs)
    case (Cons l logs)
    then show ?case by (auto simp: emit_log_record_def intro!: msg_then msg_sub log_fields_emit)
  qed (simp add: msg_ret)
  have "msg_emits A (sibling_request A 1 2 3 (otlp_emit_resource A 1 svc attrs)
      (then_ok (otlp_emit_instrumentation_scope A 1 name version) (each_ok (emit_log_record A 2) (map Some logs))) url)
    (sub_msg 1 (sub_msg 1 (resource_msg svc attrs) @ sub_msg 2 (scope_logs_msg name version logs) @ string_msg 3 url))"
    unfolding scope_logs_msg_def by (intro sibling_emits resource_emits msg_then scope_emits rec) simp_all
  then show ?thesis
    by (auto simp: otlp_encode_export_logs_service_request_def logs_request_msg_def when_msg_def msg_ret)
qed

lemma nz_log_msgs:
  "nz (log_msg l)" "nz (scope_logs_msg name version logs)" "nz (logs_request_msg svc url attrs name version logs)"
  by (simp_all add: log_msg_def scope_logs_msg_def logs_request_msg_def)

lemmas log_field_rows = has_row_of [of OTLP_LOG_FIELDS OTLP_LOG_FI_TIME, simplified]
  has_row_of [of OTLP_LOG_FIELDS OTLP_LOG_FI_SEVERITY_NUMBER, simplified]
  has_row_of [of OTLP_LOG_FIELDS OTLP_LOG_FI_SEVERITY_TEXT, simplified]
  has_row_of [of OTLP_LOG_FIELDS OTLP_LOG_FI_BODY, simplified]
  has_row_of [of OTLP_LOG_FIELDS OTLP_LOG_FI_ATTRIBUTES, simplified]
  has_row_of [of OTLP_LOG_FIELDS OTLP_LOG_FI_TRACE_ID, simplified]
  has_row_of [of OTLP_LOG_FIELDS OTLP_LOG_FI_SPAN_ID, simplified]

lemma log_msg_conforms: "conforms OTLP_LOG_FIELDS (log_msg l)"
proof -
  have "\<not> fs_repeated (OTLP_LOG_FIELDS i) \<Longrightarrow> field_count (fs_number (OTLP_LOG_FIELDS i)) (log_msg l) \<le> 1" for i
    by (cases i) (simp_all add: log_msg_def)
  then show ?thesis by (simp add: conforms_def log_msg_def log_field_rows)
qed

section \<open>Properties\<close>

text \<open>
  C26. The log encoder writes the message it means to, and the program's own reader gets it back:
  encoding a batch of records built through the interface appends the serialization of the
  abstract request (on failure a prefix of it), cannot fail when memory is available, and every
  record in it follows the LogRecord table.
\<close>

theorem logs_request_wire:
  assumes "\<forall>l \<in> set logs. log_ok l"
    and "length (ser_msg (logs_request_msg svc url attrs name version logs)) \<le> SIZE_MAX"
    and "pb_inv s"
    and "otlp_encode_export_logs_service_request A svc url attrs name version (map Some logs) s = (st, s')"
  shows "let m = logs_request_msg svc url attrs name version logs in
    pb_inv s' \<and> (\<exists>ys. pb_content s' = pb_content s @ ys \<and> prefix ys (ser_msg m) \<and> (st = OTLP_OK \<longrightarrow> ys = ser_msg m)) \<and>
    (pb_fits A (length (pb_content s) + length (ser_msg m)) \<longrightarrow> st = OTLP_OK) \<and>
    parse_msg (otlp_pb_reader_init (ser_msg m)) = Some m \<and>
    (\<forall>l \<in> set logs. conforms OTLP_LOG_FIELDS (log_msg l))"
proof -
  have "\<forall>l \<in> set logs. log_ids_sized l" using assms(1) by (simp add: log_ok_def log_ids_sized_def)
  from msg_emits_run [OF logs_request_emits [OF this] nz_log_msgs(3) assms(2-4)]
  show ?thesis by (simp add: Let_def log_msg_conforms)
qed

definition demo_log_record :: log_record where
  "demo_log_record = log_zero\<lparr>lr_severity := SEVERITY_WARN, lr_body := Some (ascii ''hi''), lr_has_span_id := True,
     lr_span_id := replicate 8 7\<rparr>"

lemma demo_log_record_ok: "log_ok demo_log_record"
  by (simp add: demo_log_record_def log_ok_def log_zero_def ascii_def otlp_str_is_utf8_def utf8_scan.simps
      utf8_lead_def OTLP_TRACE_ID_LEN_def OTLP_SPAN_ID_LEN_def otlp_id_is_all_zero_def list_all_iff)

lemma demo_logs_length: "length (ser_msg (logs_request_msg None None [] None None [demo_log_record])) = 24"
  by (simp add: demo_log_record_def logs_request_msg_def scope_logs_msg_def resource_msg_def scope_msg_def log_msg_def
      log_zero_def attrs_msg_def when_msg_def string_msg_def str_set_def or_nil_def cstr_at_def sub_msg_def ser_msg_def
      bytes_msg_def varint_msg_def fixed64_msg_def ascii_def tag_bytes_def len_delim_def leb128.simps wire_defs
      vec_empty_def)

theorem logs_request_wire_witness:
  "\<exists>s'. otlp_encode_export_logs_service_request always_alloc None None [] None None [Some demo_log_record] (pb_zero, ()) =
      (OTLP_OK, s') \<and> length (pb_content s') = 24 \<and> conforms OTLP_LOG_FIELDS (log_msg demo_log_record)"
proof -
  obtain st s' where run: "otlp_encode_export_logs_service_request always_alloc None None [] None None
      (map Some [demo_log_record]) (pb_zero, ()) = (st, s')" by (rule prod.exhaust)
  have ok: "\<forall>l \<in> set [demo_log_record]. log_ok l" by (simp add: demo_log_record_ok)
  have len: "length (ser_msg (logs_request_msg None None [] None None [demo_log_record])) \<le> SIZE_MAX"
    by (simp add: demo_logs_length SIZE_MAX_def)
  from logs_request_wire [OF ok len pb_zero_inv run] always_fits [of 24] demo_logs_length run show ?thesis
    by (auto simp: Let_def pb_zero_content SIZE_MAX_def)
qed

end
