(* ===== verification/F64.thy ===== *)
theory F64
  imports Otlp_Prelude "HOL-Library.Log_Nat"
begin

text \<open>
  The C type \<^verbatim>\<open>double\<close> as the metrics code uses it: IEEE 754 binary64, kept as its 64 bits.
  Every finite value is an integer multiple of \<open>2^-1074\<close>, so comparison and addition are those of
  integers; addition rounds to nearest, ties to even. Which NaN an invalid operation returns is
  up to the platform; here it is always the canonical one.
\<close>

section \<open>Bits and values\<close>

definition f64_neg :: "u64 \<Rightarrow> bool" where "f64_neg x \<longleftrightarrow> 2 ^ 63 \<le> unat x"
definition f64_exp :: "u64 \<Rightarrow> nat" where "f64_exp x = unat x div 2 ^ 52 mod 2048"
definition f64_frac :: "u64 \<Rightarrow> nat" where "f64_frac x = unat x mod 2 ^ 52"

definition f64_nan :: "u64 \<Rightarrow> bool" where "f64_nan x \<longleftrightarrow> f64_exp x = 2047 \<and> f64_frac x \<noteq> 0"
definition f64_inf :: "u64 \<Rightarrow> bool" where "f64_inf x \<longleftrightarrow> f64_exp x = 2047 \<and> f64_frac x = 0"

definition F64_QNAN :: u64 where "F64_QNAN = 0x7ff8000000000000"

text \<open>The magnitude in units of \<open>2^-1074\<close>. Infinity comes out larger than every finite value.\<close>

definition f64_mag :: "u64 \<Rightarrow> nat" where
  "f64_mag x = (if f64_exp x = 0 then f64_frac x else (2 ^ 52 + f64_frac x) * 2 ^ (f64_exp x - 1))"

definition f64_int :: "u64 \<Rightarrow> int" where
  "f64_int x = (if f64_neg x then - int (f64_mag x) else int (f64_mag x))"

section \<open>Comparison\<close>

definition f64_le :: "u64 \<Rightarrow> u64 \<Rightarrow> bool" where
  "f64_le x y \<longleftrightarrow> \<not> f64_nan x \<and> \<not> f64_nan y \<and> f64_int x \<le> f64_int y"

definition f64_lt :: "u64 \<Rightarrow> u64 \<Rightarrow> bool" where
  "f64_lt x y \<longleftrightarrow> \<not> f64_nan x \<and> \<not> f64_nan y \<and> f64_int x < f64_int y"

definition f64_is_zero :: "u64 \<Rightarrow> bool" where
  "f64_is_zero x \<longleftrightarrow> \<not> f64_nan x \<and> f64_int x = 0"

section \<open>Addition\<close>

text \<open>
  Rounding a magnitude: below \<open>2^53\<close> the integer is its own encoding, subnormals included; above,
  the last 53 bits are kept, and a carry out of the significand moves on into the exponent.
\<close>

definition f64_round :: "nat \<Rightarrow> nat" where
  "f64_round n =
     (if n < 2 ^ 53 then n
      else let k = floorlog 2 n - 53; q = n div 2 ^ k; r = n mod 2 ^ k;
               q' = (if 2 * r > 2 ^ k \<or> (2 * r = 2 ^ k \<and> odd q) then q + 1 else q);
               b = k * 2 ^ 52 + q'
           in if b > 2047 * 2 ^ 52 then 2047 * 2 ^ 52 else b)"

definition f64_pack :: "bool \<Rightarrow> nat \<Rightarrow> u64" where
  "f64_pack neg b = word_of_nat (b + (if neg then 2 ^ 63 else 0))"

definition f64_add :: "u64 \<Rightarrow> u64 \<Rightarrow> u64" where
  "f64_add x y =
     (if f64_nan x \<or> f64_nan y then F64_QNAN
      else if f64_inf x then (if f64_inf y \<and> f64_neg x \<noteq> f64_neg y then F64_QNAN else x)
      else if f64_inf y then y
      else let s = f64_int x + f64_int y in
        if s = 0 then f64_pack (f64_neg x \<and> f64_neg y) 0
        else f64_pack (s < 0) (f64_round (nat \<bar>s\<bar>)))"

text \<open>The double of a natural number.\<close>

definition f64_of_nat :: "nat \<Rightarrow> u64" where
  "f64_of_nat n = f64_pack False (f64_round (n * 2 ^ 1074))"

section \<open>Facts\<close>

lemma f64_le_trans: "f64_le x y \<Longrightarrow> f64_le y z \<Longrightarrow> f64_le x z"
  by (auto simp: f64_le_def)

lemma f64_lt_iff: "\<not> f64_nan x \<Longrightarrow> \<not> f64_nan y \<Longrightarrow> f64_lt x y \<longleftrightarrow> \<not> f64_le y x"
  by (auto simp: f64_lt_def f64_le_def)

lemma f64_nan_compare [simp]: "f64_nan x \<Longrightarrow> \<not> f64_lt x y" "f64_nan x \<Longrightarrow> \<not> f64_lt y x"
    "f64_nan x \<Longrightarrow> \<not> f64_le x y" "f64_nan x \<Longrightarrow> \<not> f64_le y x"
  by (simp_all add: f64_lt_def f64_le_def)

lemma f64_pack_fields:
  assumes "b < 2 ^ 63"
  shows "f64_exp (f64_pack neg b) = b div 2 ^ 52" "f64_frac (f64_pack neg b) = b mod 2 ^ 52"
    "f64_neg (f64_pack neg b) = neg"
proof -
  have u: "unat (f64_pack neg b) = b + (if neg then 2 ^ 63 else 0)"
    unfolding f64_pack_def unat_of_nat by (rule mod_less) (use assms in simp)
  have d: "b div 2 ^ 52 < 2048" using assms by (simp add: div_less_iff_less_mult)
  have s: "(b + 2 ^ 63) div 2 ^ 52 = b div 2 ^ 52 + 2048" "(b + 2 ^ 63) mod 2 ^ 52 = b mod 2 ^ 52"
  proof -
    have e: "b + 2 ^ 63 = b + 2048 * 2 ^ 52" by simp
    show "(b + 2 ^ 63) div 2 ^ 52 = b div 2 ^ 52 + 2048" "(b + 2 ^ 63) mod 2 ^ 52 = b mod 2 ^ 52"
      unfolding e by (rule div_mult_self1 [THEN trans], simp, simp) (rule mod_mult_self1)
  qed
  show "f64_exp (f64_pack neg b) = b div 2 ^ 52" unfolding f64_exp_def u using d s by simp
  show "f64_frac (f64_pack neg b) = b mod 2 ^ 52" unfolding f64_frac_def u using s by simp
  show "f64_neg (f64_pack neg b) = neg" unfolding f64_neg_def u using assms by simp
qed

text \<open>Rounding is exact when the bits below the significand are zero.\<close>

lemma f64_round_exact:
  assumes dvd: "2 ^ (floorlog 2 n - 53) dvd n" and le: "floorlog 2 n \<le> 2098"
  shows "f64_round n < 2047 * 2 ^ 52" "f64_mag (f64_pack neg (f64_round n)) = n"
proof -
  have "f64_round n < 2047 * 2 ^ 52 \<and> f64_mag (f64_pack neg (f64_round n)) = n"
  proof (cases "n < 2 ^ 53")
    case True
    then have r: "f64_round n = n" "n < 2 ^ 63" by (simp_all add: f64_round_def)
    have "n div 2 ^ 52 = 0 \<or> n div 2 ^ 52 = 1" using True div_less_iff_less_mult [of "2 ^ 52" n 2] by auto
    moreover have "n = n mod 2 ^ 52" if "n div 2 ^ 52 = 0" using div_mult_mod_eq [of n "2 ^ 52"] unfolding that by simp
    moreover have "n = 2 ^ 52 + n mod 2 ^ 52" if "n div 2 ^ 52 = 1" using div_mult_mod_eq [of n "2 ^ 52"] unfolding that by simp
    ultimately have "f64_mag (f64_pack neg n) = n"
      unfolding f64_mag_def f64_pack_fields [OF r(2)] by (elim disjE) auto
    then show ?thesis using r True by simp
  next
    case False
    define k where "k = floorlog 2 n - 53"
    have fl: "floorlog 2 n \<ge> 54"
      using False floorlog_geI [of 2 54 n] by simp
    have k: "floorlog 2 n = k + 53" "k \<ge> 1" using fl by (simp_all add: k_def)
    define q where "q = n div 2 ^ k"
    have n: "n = q * 2 ^ k" using dvd by (simp add: q_def k_def)
    have "2 ^ (k + 52) \<le> n \<and> n < 2 ^ (k + 53)"
      using floorlog_bounds [of n 2] False k by (simp add: add.commute)
    then have q: "2 ^ 52 \<le> q" "q < 2 ^ 53"
      by (simp_all add: n power_add)
    have rnd: "f64_round n = k * 2 ^ 52 + q"
      using False dvd q k le
      by (auto simp: f64_round_def Let_def k_def [symmetric] q_def [symmetric])
    have qd: "q div 2 ^ 52 = 1" "q = 2 ^ 52 + q mod 2 ^ 52"
    proof -
      have "q div 2 ^ 52 < 2" using q(2) by (simp add: div_less_iff_less_mult)
      moreover have "q div 2 ^ 52 \<ge> 1" using div_le_mono [OF q(1), of "2 ^ 52"] by simp
      ultimately show d: "q div 2 ^ 52 = 1" by simp
      show "q = 2 ^ 52 + q mod 2 ^ 52" using div_mult_mod_eq [of q "2 ^ 52"] unfolding d by simp
    qed
    have kle: "k \<le> 2045" using le k by simp
    have lt: "k * 2 ^ 52 + q < 2047 * 2 ^ 52" using kle q(2) by simp
    then have lt63: "k * 2 ^ 52 + q < 2 ^ 63" by simp
    have e: "(k * 2 ^ 52 + q) div 2 ^ 52 = k + 1" "(k * 2 ^ 52 + q) mod 2 ^ 52 = q mod 2 ^ 52"
      using qd(1) by (simp_all add: add.commute)
    have "f64_mag (f64_pack neg (k * 2 ^ 52 + q)) = q * 2 ^ k"
      unfolding f64_mag_def f64_pack_fields [OF lt63] e qd(2) [symmetric] by simp
    then show ?thesis unfolding rnd using lt n by simp
  qed
  then show "f64_round n < 2047 * 2 ^ 52" "f64_mag (f64_pack neg (f64_round n)) = n" by simp_all
qed

lemma nat_exact:
  assumes "n < 2 ^ 53"
  shows "2 ^ (floorlog 2 (n * 2 ^ 1074) - 53) dvd n * 2 ^ 1074" "floorlog 2 (n * 2 ^ 1074) \<le> 2098"
proof -
  have "n * 2 ^ 1074 < 2 ^ 1127" using assms by (simp add: power_add [of 2 53 1074, simplified])
  then have le: "floorlog 2 (n * 2 ^ 1074) \<le> 1127" by (intro floorlog_leI) simp_all
  then show "floorlog 2 (n * 2 ^ 1074) \<le> 2098" by simp
  have "(2::nat) ^ (floorlog 2 (n * 2 ^ 1074) - 53) dvd 2 ^ 1074" using le by (intro le_imp_power_dvd) simp
  then show "2 ^ (floorlog 2 (n * 2 ^ 1074) - 53) dvd n * 2 ^ 1074" by (rule dvd_mult)
qed

lemma f64_of_nat_value:
  assumes "n < 2 ^ 53"
  shows "f64_int (f64_of_nat n) = int (n * 2 ^ 1074)" "\<not> f64_nan (f64_of_nat n)" "\<not> f64_inf (f64_of_nat n)"
    "\<not> f64_neg (f64_of_nat n)"
proof -
  note ex = f64_round_exact [OF nat_exact [OF assms]]
  have lt: "f64_round (n * 2 ^ 1074) < 2 ^ 63" using ex(1) by simp
  note f = f64_pack_fields [OF lt]
  have "f64_exp (f64_of_nat n) < 2047"
    unfolding f64_of_nat_def f(1) by (rule less_mult_imp_div_less) (rule ex(1))
  then show "\<not> f64_nan (f64_of_nat n)" "\<not> f64_inf (f64_of_nat n)" by (simp_all add: f64_nan_def f64_inf_def)
  show "\<not> f64_neg (f64_of_nat n)" unfolding f64_of_nat_def f(3) by simp
  then show "f64_int (f64_of_nat n) = int (n * 2 ^ 1074)"
    using ex(2) [of False] by (simp add: f64_int_def f64_of_nat_def del: of_nat_mult)
qed

lemma f64_add_nat:
  assumes "a < 2 ^ 53" "b < 2 ^ 53"
  shows "f64_add (f64_of_nat a) (f64_of_nat b) = f64_of_nat (a + b)"
proof -
  note A = f64_of_nat_value [OF assms(1)] and B = f64_of_nat_value [OF assms(2)]
  have s: "f64_int (f64_of_nat a) + f64_int (f64_of_nat b) = int ((a + b) * 2 ^ 1074)"
    by (simp add: A(1) B(1) distrib_right)
  have "f64_of_nat 0 = f64_pack False 0" by (simp add: f64_of_nat_def f64_round_def)
  then show ?thesis
    unfolding f64_add_def s Let_def using A(2-4) B(2-4)
    by (auto simp: f64_of_nat_def simp del: of_nat_mult of_nat_add)
qed

end
