(* ===== verification/Metric.thy ===== *)
theory Metric
  imports F64 Span
begin

text \<open>
  Metrics (\<^verbatim>\<open>src/metric.c\<close>): counters, gauges, explicit and exponential histograms with exemplars, their
  setters in the order of the code, recording of values, and the deep clone. A \<^verbatim>\<open>double\<close> is its bit
  pattern with the arithmetic of \<open>F64\<close>. The counts of an array are kept beside its pointer where the
  code does so, since a failed allocation leaves the one without the other.
\<close>

section \<open>Data\<close>

definition OTLP_METRIC_MAX_ATTRS :: nat where "OTLP_METRIC_MAX_ATTRS = 128"
definition OTLP_AGG_TEMP_DELTA :: u8 where "OTLP_AGG_TEMP_DELTA = 1"
definition OTLP_AGG_TEMP_CUMULATIVE :: u8 where "OTLP_AGG_TEMP_CUMULATIVE = 2"
definition SIZEOF_METRIC :: nat where "SIZEOF_METRIC = 256"
definition SIZEOF_EXEMPLAR :: nat where "SIZEOF_EXEMPLAR = 64"

datatype metric_type = METRIC_COUNTER | METRIC_GAUGE | METRIC_HISTOGRAM | METRIC_EXP_HISTOGRAM

text \<open>The enumerators start at 1; any other integer is rejected at creation.\<close>

definition metric_type_of :: "int \<Rightarrow> metric_type option" where
  "metric_type_of i = (if i = 1 then Some METRIC_COUNTER else if i = 2 then Some METRIC_GAUGE
     else if i = 3 then Some METRIC_HISTOGRAM else if i = 4 then Some METRIC_EXP_HISTOGRAM else None)"

record exemplar =
  ex_double_val :: u64
  ex_int_val :: u64
  ex_has_double :: bool
  ex_has_int :: bool
  ex_trace_id :: "u8 list"
  ex_span_id :: "u8 list"
  ex_has_trace :: bool
  ex_has_span :: bool
  ex_time :: u64
  ex_has_time :: bool

record metric =
  mt_type :: metric_type
  mt_name :: "cstr option"
  mt_unit :: "cstr option"
  mt_description :: "cstr option"
  mt_start_time :: u64
  mt_time :: u64
  mt_has_start :: bool
  mt_has_time :: bool
  mt_attrs :: attr_vec
  mt_agg_temp :: u8
  mt_is_monotonic :: bool
  mt_value :: u64
  mt_count :: u64
  mt_sum :: u64
  mt_min :: u64
  mt_max :: u64
  mt_has_minmax :: bool
  mt_bounds :: "u64 list option"
  mt_n_bounds :: nat
  mt_bucket_counts :: "u64 list option"
  mt_exp_scale :: "32 word"
  mt_exp_zero_count :: u64
  mt_exp_pos_offset :: "32 word"
  mt_exp_pos_counts :: "u64 list option"
  mt_exp_pos_n :: nat
  mt_exp_neg_offset :: "32 word"
  mt_exp_neg_counts :: "u64 list option"
  mt_exp_neg_n :: nat
  mt_has_exp_scale :: bool
  mt_exemplars :: "exemplar list"
  mt_cap_exemplars :: nat

definition metric_zero :: "metric_type \<Rightarrow> metric" where
  "metric_zero ty = \<lparr>mt_type = ty, mt_name = None, mt_unit = None, mt_description = None, mt_start_time = 0, mt_time = 0,
     mt_has_start = False, mt_has_time = False, mt_attrs = vec_empty, mt_agg_temp = 0, mt_is_monotonic = False,
     mt_value = 0, mt_count = 0, mt_sum = 0, mt_min = 0, mt_max = 0, mt_has_minmax = False, mt_bounds = None,
     mt_n_bounds = 0, mt_bucket_counts = None, mt_exp_scale = 0, mt_exp_zero_count = 0, mt_exp_pos_offset = 0,
     mt_exp_pos_counts = None, mt_exp_pos_n = 0, mt_exp_neg_offset = 0, mt_exp_neg_counts = None, mt_exp_neg_n = 0,
     mt_has_exp_scale = False, mt_exemplars = [], mt_cap_exemplars = 0\<rparr>"

section \<open>Creation\<close>

text \<open>The buckets of an explicit histogram; both arrays are requested before either is tested.\<close>

definition histogram_arrays ::
  "'m allocator \<Rightarrow> u64 list \<Rightarrow> nat \<Rightarrow> metric \<Rightarrow> 'm \<Rightarrow> metric option \<times> 'm" where
  "histogram_arrays A bounds n m mem =
     (if n > SIZE_MAX div 8 then (None, mem)
      else if n \<ge> SIZE_MAX div 8 then (None, mem)
      else (case a_alloc A (n * 8) mem of (ok1, mem1) \<Rightarrow>
        (case otlp_calloc A (n + 1) 8 mem1 of (ok2, mem2) \<Rightarrow>
          if \<not> ok1 \<or> \<not> ok2 then (None, mem2)
          else (Some (m\<lparr>mt_bounds := Some (take n bounds), mt_bucket_counts := Some (replicate (n + 1) 0),
                  mt_n_bounds := n\<rparr>), mem2))))"

definition otlp_metric_create ::
  "'m allocator \<Rightarrow> int \<Rightarrow> cstr option \<Rightarrow> cstr option \<Rightarrow> cstr option \<Rightarrow> u64 list option \<Rightarrow> nat \<Rightarrow> 'm \<Rightarrow> metric option \<times> 'm" where
  "otlp_metric_create A type_arg name unit description bounds n mem =
     (case metric_type_of type_arg of None \<Rightarrow> (None, mem)
      | Some ty \<Rightarrow> (case otlp_calloc A 1 SIZEOF_METRIC mem of
          (False, mem1) \<Rightarrow> (None, mem1)
        | (True, mem1) \<Rightarrow>
            if (name \<noteq> None \<and> \<not> otlp_str_is_utf8 name) \<or> (unit \<noteq> None \<and> \<not> otlp_str_is_utf8 unit) \<or>
               (description \<noteq> None \<and> \<not> otlp_str_is_utf8 description) then (None, mem1)
            else
              (case otlp_dup_str A (Some (or_empty name)) mem1 of (nm, mem2) \<Rightarrow>
              (case otlp_dup_str A (Some (or_empty unit)) mem2 of (un, mem3) \<Rightarrow>
              (case otlp_dup_str A (Some (or_empty description)) mem3 of (de, mem4) \<Rightarrow>
                let m = (metric_zero ty)\<lparr>mt_name := nm, mt_unit := un, mt_description := de,
                      mt_agg_temp := OTLP_AGG_TEMP_CUMULATIVE, mt_is_monotonic := True\<rparr>
                in if nm = None \<or> un = None \<or> de = None then (None, mem4)
                   else if ty = METRIC_HISTOGRAM \<and> bounds \<noteq> None \<and> n > 0
                     then histogram_arrays A (the bounds) n m mem4
                   else (Some m, mem4))))))"

section \<open>Recording\<close>

text \<open>The loop over the bounds: the first one that the value does not exceed, or their number.\<close>

fun bucket_index :: "u64 \<Rightarrow> u64 list \<Rightarrow> nat" where
  "bucket_index v [] = 0"
| "bucket_index v (b # bs) = (if f64_le v b then 0 else Suc (bucket_index v bs))"

definition bump :: "u64 list \<Rightarrow> nat \<Rightarrow> u64 list" where
  "bump counts i = counts[i := counts ! i + 1]"

text \<open>Count, sum, minimum and maximum; then the bucket.\<close>

definition record_stats :: "metric \<Rightarrow> u64 \<Rightarrow> metric" where
  "record_stats m v =
     m\<lparr>mt_count := mt_count m + 1, mt_sum := f64_add (mt_sum m) v,
       mt_min := (if \<not> mt_has_minmax m \<or> f64_lt v (mt_min m) then v else mt_min m),
       mt_max := (if \<not> mt_has_minmax m \<or> f64_lt (mt_max m) v then v else mt_max m),
       mt_has_minmax := True\<rparr>"

definition record_histogram ::
  "'m allocator \<Rightarrow> metric \<Rightarrow> u64 \<Rightarrow> 'm \<Rightarrow> status \<times> metric \<times> 'm" where
  "record_histogram A m0 v mem =
     (let m = record_stats m0 v in
      case mt_bucket_counts m of
        Some counts \<Rightarrow>
          let i = (case mt_bounds m of Some bs \<Rightarrow> bucket_index v (take (mt_n_bounds m) bs) | None \<Rightarrow> 0) in
          (OTLP_OK, m\<lparr>mt_bucket_counts := Some (bump counts i)\<rparr>, mem)
      | None \<Rightarrow> (case otlp_calloc A 1 8 mem of
            (False, mem1) \<Rightarrow> (OTLP_ERR_NOMEM, m, mem1)
          | (True, mem1) \<Rightarrow> (OTLP_OK, m\<lparr>mt_n_bounds := 0, mt_bucket_counts := Some (bump [0] 0)\<rparr>, mem1)))"

definition otlp_metric_record ::
  "'m allocator \<Rightarrow> metric option \<Rightarrow> u64 \<Rightarrow> 'm \<Rightarrow> status \<times> metric option \<times> 'm" where
  "otlp_metric_record A m_ptr v mem =
     (case m_ptr of None \<Rightarrow> (OTLP_ERR_NULL, None, mem)
      | Some m \<Rightarrow> (case mt_type m of
          METRIC_COUNTER \<Rightarrow> (OTLP_OK, Some (m\<lparr>mt_value := f64_add (mt_value m) v\<rparr>), mem)
        | METRIC_GAUGE \<Rightarrow> (OTLP_OK, Some (m\<lparr>mt_value := v\<rparr>), mem)
        | METRIC_HISTOGRAM \<Rightarrow> (case record_histogram A m v mem of (st, m', mem') \<Rightarrow> (st, Some m', mem'))
        | METRIC_EXP_HISTOGRAM \<Rightarrow>
            (let m0 = m\<lparr>mt_count := mt_count m + 1, mt_sum := f64_add (mt_sum m) v\<rparr>
             in (OTLP_OK, Some (if f64_is_zero v then m0\<lparr>mt_exp_zero_count := mt_exp_zero_count m0 + 1\<rparr> else m0), mem))))"

section \<open>Setters\<close>

definition otlp_metric_set_start_time :: "metric option \<Rightarrow> u64 \<Rightarrow> status \<times> metric option" where
  "otlp_metric_set_start_time m t =
     (case m of None \<Rightarrow> (OTLP_ERR_NULL, None)
      | Some x \<Rightarrow> (OTLP_OK, Some (x\<lparr>mt_start_time := t, mt_has_start := True\<rparr>)))"

definition otlp_metric_set_time :: "metric option \<Rightarrow> u64 \<Rightarrow> status \<times> metric option" where
  "otlp_metric_set_time m t =
     (case m of None \<Rightarrow> (OTLP_ERR_NULL, None)
      | Some x \<Rightarrow> (OTLP_OK, Some (x\<lparr>mt_time := t, mt_has_time := True\<rparr>)))"

definition otlp_metric_mark_time :: "metric option \<Rightarrow> (u64 \<times> u64) option \<Rightarrow> status \<times> metric option" where
  "otlp_metric_mark_time m ts =
     (case m of None \<Rightarrow> (OTLP_ERR_NULL, None)
      | Some x \<Rightarrow> (case otlp_platform_now_unix_nano ts 0 of (st, now) \<Rightarrow>
          if st \<noteq> OTLP_OK then (OTLP_ERR_NETWORK, Some x)
          else (OTLP_OK, Some (x\<lparr>mt_time := now, mt_has_time := True\<rparr>))))"

definition otlp_metric_set_aggregation_temporality :: "metric option \<Rightarrow> u8 \<Rightarrow> status \<times> metric option" where
  "otlp_metric_set_aggregation_temporality m temp =
     (case m of None \<Rightarrow> (OTLP_ERR_NULL, None)
      | Some x \<Rightarrow> if temp \<noteq> OTLP_AGG_TEMP_DELTA \<and> temp \<noteq> OTLP_AGG_TEMP_CUMULATIVE then (OTLP_ERR_INVALID_ARGUMENT, Some x)
          else (OTLP_OK, Some (x\<lparr>mt_agg_temp := temp\<rparr>)))"

definition otlp_metric_set_monotonic :: "metric option \<Rightarrow> bool \<Rightarrow> status \<times> metric option" where
  "otlp_metric_set_monotonic m b =
     (case m of None \<Rightarrow> (OTLP_ERR_NULL, None) | Some x \<Rightarrow> (OTLP_OK, Some (x\<lparr>mt_is_monotonic := b\<rparr>)))"

definition on_metric_attrs ::
  "metric option \<Rightarrow> cstr option \<Rightarrow> (attr_vec \<Rightarrow> 'm \<Rightarrow> status \<times> attr_vec \<times> 'm) \<Rightarrow> 'm \<Rightarrow> status \<times> metric option \<times> 'm" where
  "on_metric_attrs m key f mem =
     (case m of None \<Rightarrow> (OTLP_ERR_NULL, None, mem)
      | Some x \<Rightarrow> if key = None then (OTLP_ERR_NULL, Some x, mem)
          else (case f (mt_attrs x) mem of (st, vec, mem1) \<Rightarrow> (st, Some (x\<lparr>mt_attrs := vec\<rparr>), mem1)))"

definition otlp_metric_set_attribute_string ::
  "'m allocator \<Rightarrow> metric option \<Rightarrow> cstr option \<Rightarrow> cstr option \<Rightarrow> 'm \<Rightarrow> status \<times> metric option \<times> 'm" where
  "otlp_metric_set_attribute_string A m key val mem =
     on_metric_attrs m key (\<lambda>vec. otlp_attr_vec_set A vec OTLP_METRIC_MAX_ATTRS key (Some (OV_String (Some (or_empty val))))) mem"

definition otlp_metric_set_attribute_int ::
  "'m allocator \<Rightarrow> metric option \<Rightarrow> cstr option \<Rightarrow> u64 \<Rightarrow> 'm \<Rightarrow> status \<times> metric option \<times> 'm" where
  "otlp_metric_set_attribute_int A m key val mem =
     on_metric_attrs m key (\<lambda>vec. otlp_attr_vec_set A vec OTLP_METRIC_MAX_ATTRS key (Some (OV_Int64 val))) mem"

definition otlp_metric_set_attribute_double ::
  "'m allocator \<Rightarrow> metric option \<Rightarrow> cstr option \<Rightarrow> u64 \<Rightarrow> 'm \<Rightarrow> status \<times> metric option \<times> 'm" where
  "otlp_metric_set_attribute_double A m key val mem =
     on_metric_attrs m key (\<lambda>vec. otlp_attr_vec_set A vec OTLP_METRIC_MAX_ATTRS key (Some (OV_Double val))) mem"

definition otlp_metric_set_attribute_bool ::
  "'m allocator \<Rightarrow> metric option \<Rightarrow> cstr option \<Rightarrow> bool \<Rightarrow> 'm \<Rightarrow> status \<times> metric option \<times> 'm" where
  "otlp_metric_set_attribute_bool A m key val mem =
     on_metric_attrs m key (\<lambda>vec. otlp_attr_vec_set A vec OTLP_METRIC_MAX_ATTRS key (Some (OV_Bool val))) mem"

definition otlp_metric_set_attribute_bytes ::
  "'m allocator \<Rightarrow> metric option \<Rightarrow> cstr option \<Rightarrow> u8 list option \<Rightarrow> nat \<Rightarrow> 'm \<Rightarrow> status \<times> metric option \<times> 'm" where
  "otlp_metric_set_attribute_bytes A m key bytes len mem =
     on_metric_attrs m key (\<lambda>vec. otlp_attr_vec_set A vec OTLP_METRIC_MAX_ATTRS key (Some (OV_Bytes bytes len))) mem"

definition otlp_metric_set_attribute_array ::
  "'m allocator \<Rightarrow> metric option \<Rightarrow> cstr option \<Rightarrow> otlp_value list option \<Rightarrow> nat \<Rightarrow> 'm \<Rightarrow> status \<times> metric option \<times> 'm" where
  "otlp_metric_set_attribute_array A m key items n mem =
     on_metric_attrs m key (\<lambda>vec. otlp_attr_vec_set_array A vec OTLP_METRIC_MAX_ATTRS key items n) mem"

definition otlp_metric_set_attribute_kvlist ::
  "'m allocator \<Rightarrow> metric option \<Rightarrow> cstr option \<Rightarrow> otlp_kv list option \<Rightarrow> nat \<Rightarrow> 'm \<Rightarrow> status \<times> metric option \<times> 'm" where
  "otlp_metric_set_attribute_kvlist A m key entries n mem =
     on_metric_attrs m key (\<lambda>vec. otlp_attr_vec_set_kvlist A vec OTLP_METRIC_MAX_ATTRS key entries n) mem"

text \<open>
  The two halves of \<open>set_exp_histogram\<close>: the offset is stored and the old counts are freed before
  memory for the new ones is asked for, and their number changes only when it is granted.
\<close>

definition set_exp_pos ::
  "'m allocator \<Rightarrow> 32 word \<Rightarrow> u64 list option \<Rightarrow> nat \<Rightarrow> metric \<Rightarrow> 'm \<Rightarrow> status \<times> metric \<times> 'm" where
  "set_exp_pos A offset counts n m mem =
     (case counts of None \<Rightarrow> (OTLP_OK, m, mem)
      | Some cs \<Rightarrow>
          if n = 0 then (OTLP_OK, m, mem)
          else if n > SIZE_MAX div 8 then (OTLP_ERR_INVALID_ARGUMENT, m, mem)
          else let m1 = m\<lparr>mt_exp_pos_offset := offset, mt_exp_pos_counts := None\<rparr> in
            (case a_alloc A (n * 8) mem of
              (False, mem1) \<Rightarrow> (OTLP_ERR_NOMEM, m1, mem1)
            | (True, mem1) \<Rightarrow> (OTLP_OK, m1\<lparr>mt_exp_pos_counts := Some (take n cs), mt_exp_pos_n := n\<rparr>, mem1)))"

definition set_exp_neg ::
  "'m allocator \<Rightarrow> 32 word \<Rightarrow> u64 list option \<Rightarrow> nat \<Rightarrow> metric \<Rightarrow> 'm \<Rightarrow> status \<times> metric \<times> 'm" where
  "set_exp_neg A offset counts n m mem =
     (case counts of None \<Rightarrow> (OTLP_OK, m, mem)
      | Some cs \<Rightarrow>
          if n = 0 then (OTLP_OK, m, mem)
          else if n > SIZE_MAX div 8 then (OTLP_ERR_INVALID_ARGUMENT, m, mem)
          else let m1 = m\<lparr>mt_exp_neg_offset := offset, mt_exp_neg_counts := None\<rparr> in
            (case a_alloc A (n * 8) mem of
              (False, mem1) \<Rightarrow> (OTLP_ERR_NOMEM, m1, mem1)
            | (True, mem1) \<Rightarrow> (OTLP_OK, m1\<lparr>mt_exp_neg_counts := Some (take n cs), mt_exp_neg_n := n\<rparr>, mem1)))"

definition otlp_metric_set_exp_histogram ::
  "'m allocator \<Rightarrow> metric option \<Rightarrow> 32 word \<Rightarrow> 32 word \<Rightarrow> u64 list option \<Rightarrow> nat \<Rightarrow> 32 word \<Rightarrow> u64 list option \<Rightarrow> nat \<Rightarrow>
     'm \<Rightarrow> status \<times> metric option \<times> 'm" where
  "otlp_metric_set_exp_histogram A m_ptr scale pos_offset pos_counts pos_n neg_offset neg_counts neg_n mem =
     (case m_ptr of None \<Rightarrow> (OTLP_ERR_NULL, None, mem)
      | Some m \<Rightarrow>
          if mt_type m \<noteq> METRIC_EXP_HISTOGRAM then (OTLP_ERR_INVALID_ARGUMENT, Some m, mem)
          else (case set_exp_pos A pos_offset pos_counts pos_n
                  (m\<lparr>mt_exp_scale := scale, mt_has_exp_scale := True\<rparr>) mem of (st, m1, mem1) \<Rightarrow>
            if st \<noteq> OTLP_OK then (st, Some m1, mem1)
            else (case set_exp_neg A neg_offset neg_counts neg_n m1 mem1 of (st, m2, mem2) \<Rightarrow> (st, Some m2, mem2))))"

section \<open>Exemplars\<close>

definition exemplar_zero :: exemplar where
  "exemplar_zero = \<lparr>ex_double_val = 0, ex_int_val = 0, ex_has_double = False, ex_has_int = False,
     ex_trace_id = replicate 16 0, ex_span_id = replicate 8 0, ex_has_trace = False, ex_has_span = False,
     ex_time = 0, ex_has_time = False\<rparr>"

definition otlp_exemplar_create :: "'m allocator \<Rightarrow> 'm \<Rightarrow> exemplar option \<times> 'm" where
  "otlp_exemplar_create A mem =
     (case otlp_calloc A 1 SIZEOF_EXEMPLAR mem of (ok, mem1) \<Rightarrow> (if ok then Some exemplar_zero else None, mem1))"

definition otlp_exemplar_clone :: "'m allocator \<Rightarrow> exemplar option \<Rightarrow> 'm \<Rightarrow> exemplar option \<times> 'm" where
  "otlp_exemplar_clone A ex mem =
     (case ex of None \<Rightarrow> (None, mem)
      | Some e \<Rightarrow> (case otlp_exemplar_create A mem of
          (None, mem1) \<Rightarrow> (None, mem1) | (Some _, mem1) \<Rightarrow> (Some e, mem1)))"

definition otlp_exemplar_set_double_value :: "exemplar option \<Rightarrow> u64 \<Rightarrow> status \<times> exemplar option" where
  "otlp_exemplar_set_double_value ex v =
     (case ex of None \<Rightarrow> (OTLP_ERR_NULL, None)
      | Some e \<Rightarrow> (OTLP_OK, Some (e\<lparr>ex_double_val := v, ex_has_double := True, ex_has_int := False\<rparr>)))"

definition otlp_exemplar_set_int_value :: "exemplar option \<Rightarrow> u64 \<Rightarrow> status \<times> exemplar option" where
  "otlp_exemplar_set_int_value ex v =
     (case ex of None \<Rightarrow> (OTLP_ERR_NULL, None)
      | Some e \<Rightarrow> (OTLP_OK, Some (e\<lparr>ex_int_val := v, ex_has_int := True, ex_has_double := False\<rparr>)))"

definition otlp_exemplar_set_trace_context ::
  "exemplar option \<Rightarrow> u8 list option \<Rightarrow> u8 list option \<Rightarrow> status \<times> exemplar option" where
  "otlp_exemplar_set_trace_context ex trace_id span_id =
     (case ex of None \<Rightarrow> (OTLP_ERR_NULL, None)
      | Some e \<Rightarrow>
          if trace_id \<noteq> None \<and> otlp_id_is_all_zero (take 16 (the trace_id)) then (OTLP_ERR_INVALID_ARGUMENT, Some e)
          else let e1 = (case trace_id of None \<Rightarrow> e | Some t \<Rightarrow> e\<lparr>ex_trace_id := take 16 t, ex_has_trace := True\<rparr>) in
            if span_id \<noteq> None \<and> otlp_id_is_all_zero (take 8 (the span_id)) then (OTLP_ERR_INVALID_ARGUMENT, Some e1)
            else (OTLP_OK, Some (case span_id of None \<Rightarrow> e1 | Some s \<Rightarrow> e1\<lparr>ex_span_id := take 8 s, ex_has_span := True\<rparr>)))"

definition otlp_exemplar_mark_time :: "exemplar option \<Rightarrow> (u64 \<times> u64) option \<Rightarrow> status \<times> exemplar option" where
  "otlp_exemplar_mark_time ex ts =
     (case ex of None \<Rightarrow> (OTLP_ERR_NULL, None)
      | Some e \<Rightarrow> (case otlp_platform_now_unix_nano ts 0 of (st, now) \<Rightarrow>
          if st \<noteq> OTLP_OK then (OTLP_ERR_NETWORK, Some e)
          else (OTLP_OK, Some (e\<lparr>ex_time := now, ex_has_time := True\<rparr>))))"

definition otlp_exemplar_set_timestamp :: "exemplar option \<Rightarrow> u64 \<Rightarrow> status \<times> exemplar option" where
  "otlp_exemplar_set_timestamp ex t =
     (case ex of None \<Rightarrow> (OTLP_ERR_NULL, None)
      | Some e \<Rightarrow> (OTLP_OK, Some (e\<lparr>ex_time := t, ex_has_time := True\<rparr>)))"

text \<open>The capacity doubles; \<^verbatim>\<open>size_t\<close> arithmetic may wrap, which the code tests for.\<close>

definition next_exemplar_cap :: "nat \<Rightarrow> nat" where
  "next_exemplar_cap cap = (if cap \<noteq> 0 then cap * 2 mod (SIZE_MAX + 1) else 4)"

definition otlp_metric_add_exemplar ::
  "'m allocator \<Rightarrow> metric option \<Rightarrow> exemplar option \<Rightarrow> 'm \<Rightarrow> status \<times> metric option \<times> 'm" where
  "otlp_metric_add_exemplar A m_ptr ex_ptr mem =
     (case (m_ptr, ex_ptr) of
        (Some m, Some e) \<Rightarrow>
          if \<not> ex_has_double e \<and> \<not> ex_has_int e then (OTLP_ERR_INVALID_ARGUMENT, Some m, mem)
          else if length (mt_exemplars m) = mt_cap_exemplars m
          then let new_cap = next_exemplar_cap (mt_cap_exemplars m) in
            if new_cap < mt_cap_exemplars m then (OTLP_ERR_OVERFLOW, Some m, mem)
            else (case a_realloc A (new_cap * SIZEOF_EXEMPLAR mod (SIZE_MAX + 1)) mem of
                (False, mem1) \<Rightarrow> (OTLP_ERR_NOMEM, Some m, mem1)
              | (True, mem1) \<Rightarrow> (OTLP_OK, Some (m\<lparr>mt_cap_exemplars := new_cap, mt_exemplars := mt_exemplars m @ [e]\<rparr>), mem1))
          else (OTLP_OK, Some (m\<lparr>mt_exemplars := mt_exemplars m @ [e]\<rparr>), mem)
      | _ \<Rightarrow> (OTLP_ERR_NULL, m_ptr, mem))"

section \<open>Accessors\<close>

text \<open>A NULL metric has type 0, which is no \<open>metric_type\<close>.\<close>

definition otlp_metric_get_type :: "metric option \<Rightarrow> metric_type option" where
  "otlp_metric_get_type m = (case m of None \<Rightarrow> None | Some x \<Rightarrow> Some (mt_type x))"
definition otlp_metric_get_name :: "metric option \<Rightarrow> cstr option" where
  "otlp_metric_get_name m = (case m of None \<Rightarrow> None | Some x \<Rightarrow> mt_name x)"
definition otlp_metric_get_unit :: "metric option \<Rightarrow> cstr option" where
  "otlp_metric_get_unit m = (case m of None \<Rightarrow> None | Some x \<Rightarrow> mt_unit x)"
definition otlp_metric_get_description :: "metric option \<Rightarrow> cstr option" where
  "otlp_metric_get_description m = (case m of None \<Rightarrow> None | Some x \<Rightarrow> mt_description x)"
definition otlp_metric_get_start_time :: "metric option \<Rightarrow> u64" where
  "otlp_metric_get_start_time m = (case m of None \<Rightarrow> 0 | Some x \<Rightarrow> mt_start_time x)"
definition otlp_metric_get_time :: "metric option \<Rightarrow> u64" where
  "otlp_metric_get_time m = (case m of None \<Rightarrow> 0 | Some x \<Rightarrow> mt_time x)"
definition otlp_metric_get_value :: "metric option \<Rightarrow> u64" where
  "otlp_metric_get_value m = (case m of None \<Rightarrow> 0 | Some x \<Rightarrow> mt_value x)"
definition otlp_metric_get_count :: "metric option \<Rightarrow> u64" where
  "otlp_metric_get_count m = (case m of None \<Rightarrow> 0 | Some x \<Rightarrow> mt_count x)"
definition otlp_metric_get_sum :: "metric option \<Rightarrow> u64" where
  "otlp_metric_get_sum m = (case m of None \<Rightarrow> 0 | Some x \<Rightarrow> mt_sum x)"
definition otlp_metric_get_min :: "metric option \<Rightarrow> u64" where
  "otlp_metric_get_min m = (case m of None \<Rightarrow> 0 | Some x \<Rightarrow> mt_min x)"
definition otlp_metric_get_max :: "metric option \<Rightarrow> u64" where
  "otlp_metric_get_max m = (case m of None \<Rightarrow> 0 | Some x \<Rightarrow> mt_max x)"
definition otlp_metric_get_buckets :: "metric option \<Rightarrow> u64 list option" where
  "otlp_metric_get_buckets m = (case m of None \<Rightarrow> None | Some x \<Rightarrow> mt_bucket_counts x)"
definition otlp_metric_get_exp_scale :: "metric option \<Rightarrow> 32 word" where
  "otlp_metric_get_exp_scale m = (case m of None \<Rightarrow> 0 | Some x \<Rightarrow> mt_exp_scale x)"
definition otlp_metric_get_exp_zero_count :: "metric option \<Rightarrow> u64" where
  "otlp_metric_get_exp_zero_count m = (case m of None \<Rightarrow> 0 | Some x \<Rightarrow> mt_exp_zero_count x)"
definition otlp_metric_get_exp_pos_offset :: "metric option \<Rightarrow> 32 word" where
  "otlp_metric_get_exp_pos_offset m = (case m of None \<Rightarrow> 0 | Some x \<Rightarrow> mt_exp_pos_offset x)"
definition otlp_metric_get_exp_neg_offset :: "metric option \<Rightarrow> 32 word" where
  "otlp_metric_get_exp_neg_offset m = (case m of None \<Rightarrow> 0 | Some x \<Rightarrow> mt_exp_neg_offset x)"
definition otlp_metric_get_agg_temp :: "metric option \<Rightarrow> u8" where
  "otlp_metric_get_agg_temp m = (case m of None \<Rightarrow> OTLP_AGG_TEMP_CUMULATIVE | Some x \<Rightarrow> mt_agg_temp x)"
definition otlp_metric_get_is_monotonic :: "metric option \<Rightarrow> bool" where
  "otlp_metric_get_is_monotonic m = (case m of None \<Rightarrow> True | Some x \<Rightarrow> mt_is_monotonic x)"
definition otlp_metric_has_start :: "metric option \<Rightarrow> bool" where
  "otlp_metric_has_start m = (case m of None \<Rightarrow> False | Some x \<Rightarrow> mt_has_start x)"
definition otlp_metric_has_time :: "metric option \<Rightarrow> bool" where
  "otlp_metric_has_time m = (case m of None \<Rightarrow> False | Some x \<Rightarrow> mt_has_time x)"
definition otlp_metric_has_minmax :: "metric option \<Rightarrow> bool" where
  "otlp_metric_has_minmax m = (case m of None \<Rightarrow> False | Some x \<Rightarrow> mt_has_minmax x)"
definition otlp_metric_has_exp_scale :: "metric option \<Rightarrow> bool" where
  "otlp_metric_has_exp_scale m = (case m of None \<Rightarrow> False | Some x \<Rightarrow> mt_has_exp_scale x)"

definition otlp_metric_get_bounds :: "metric option \<Rightarrow> u64 list option \<times> nat" where
  "otlp_metric_get_bounds m = (case m of None \<Rightarrow> (None, 0) | Some x \<Rightarrow> (mt_bounds x, mt_n_bounds x))"
definition otlp_metric_get_exp_pos_counts :: "metric option \<Rightarrow> u64 list option \<times> nat" where
  "otlp_metric_get_exp_pos_counts m = (case m of None \<Rightarrow> (None, 0) | Some x \<Rightarrow> (mt_exp_pos_counts x, mt_exp_pos_n x))"
definition otlp_metric_get_exp_neg_counts :: "metric option \<Rightarrow> u64 list option \<times> nat" where
  "otlp_metric_get_exp_neg_counts m = (case m of None \<Rightarrow> (None, 0) | Some x \<Rightarrow> (mt_exp_neg_counts x, mt_exp_neg_n x))"
definition otlp_metric_get_attrs :: "metric option \<Rightarrow> attribute list" where
  "otlp_metric_get_attrs m = (case m of None \<Rightarrow> [] | Some x \<Rightarrow> av_items (mt_attrs x))"
definition otlp_metric_get_n_exemplars :: "metric option \<Rightarrow> nat" where
  "otlp_metric_get_n_exemplars m = (case m of None \<Rightarrow> 0 | Some x \<Rightarrow> length (mt_exemplars x))"
definition otlp_metric_get_exemplar :: "metric option \<Rightarrow> nat \<Rightarrow> exemplar option" where
  "otlp_metric_get_exemplar m i =
     (case m of None \<Rightarrow> None | Some x \<Rightarrow> if i \<ge> length (mt_exemplars x) then None else Some (mt_exemplars x ! i))"

section \<open>Deep clone\<close>

text \<open>
  The parts in their order: exemplars, explicit buckets, the two halves of an exponential
  histogram. The buckets of a histogram without bounds are not copied.
\<close>

definition clone_exemplars :: "'m allocator \<Rightarrow> metric \<Rightarrow> metric \<Rightarrow> 'm \<Rightarrow> metric option \<times> 'm" where
  "clone_exemplars A src dst mem =
     (let n = length (mt_exemplars src) in
      if n > 0 then
        if n > SIZE_MAX div SIZEOF_EXEMPLAR then (None, mem)
        else (case a_alloc A (n * SIZEOF_EXEMPLAR) mem of
            (False, mem1) \<Rightarrow> (None, mem1)
          | (True, mem1) \<Rightarrow> (Some (dst\<lparr>mt_exemplars := mt_exemplars src, mt_cap_exemplars := n\<rparr>), mem1))
      else (Some dst, mem))"

definition clone_buckets :: "'m allocator \<Rightarrow> metric \<Rightarrow> metric \<Rightarrow> 'm \<Rightarrow> metric option \<times> 'm" where
  "clone_buckets A src dst mem =
     (case mt_bounds src of None \<Rightarrow> (Some dst, mem)
      | Some bs \<Rightarrow>
          let n = mt_n_bounds src in
          if n = 0 then (Some dst, mem)
          else if n > SIZE_MAX div 8 \<or> n \<ge> SIZE_MAX div 8 then (None, mem)
          else (case a_alloc A (n * 8) mem of (ok1, mem1) \<Rightarrow>
            (case otlp_calloc A (n + 1) 8 mem1 of (ok2, mem2) \<Rightarrow>
              if \<not> ok1 \<or> \<not> ok2 then (None, mem2)
              else (Some (dst\<lparr>mt_bounds := Some (take n bs),
                      mt_bucket_counts := Some (take (n + 1) (the (mt_bucket_counts src))), mt_n_bounds := n\<rparr>), mem2))))"

definition clone_exp_counts :: "'m allocator \<Rightarrow> u64 list option \<Rightarrow> nat \<Rightarrow> 'm \<Rightarrow> (u64 list option \<times> nat) option \<times> 'm" where
  "clone_exp_counts A counts n mem =
     (case counts of None \<Rightarrow> (Some (None, 0), mem)
      | Some cs \<Rightarrow>
          if n = 0 then (Some (None, 0), mem)
          else if n > SIZE_MAX div 8 then (None, mem)
          else (case otlp_calloc A n 8 mem of
              (False, mem1) \<Rightarrow> (None, mem1) | (True, mem1) \<Rightarrow> (Some (Some (take n cs), n), mem1)))"

definition clone_scalars :: "metric \<Rightarrow> cstr option \<Rightarrow> cstr option \<Rightarrow> cstr option \<Rightarrow> metric" where
  "clone_scalars src nm un de =
     (metric_zero (mt_type src))\<lparr>mt_name := nm, mt_unit := un, mt_description := de, mt_start_time := mt_start_time src,
       mt_time := mt_time src, mt_has_start := mt_has_start src, mt_has_time := mt_has_time src,
       mt_agg_temp := mt_agg_temp src, mt_is_monotonic := mt_is_monotonic src, mt_value := mt_value src,
       mt_count := mt_count src, mt_sum := mt_sum src, mt_min := mt_min src, mt_max := mt_max src,
       mt_has_minmax := mt_has_minmax src\<rparr>"

definition clone_exp_scalars :: "metric \<Rightarrow> metric \<Rightarrow> metric" where
  "clone_exp_scalars src dst =
     dst\<lparr>mt_exp_scale := mt_exp_scale src, mt_exp_zero_count := mt_exp_zero_count src,
       mt_exp_pos_offset := mt_exp_pos_offset src, mt_exp_neg_offset := mt_exp_neg_offset src,
       mt_has_exp_scale := mt_has_exp_scale src\<rparr>"

definition otlp_metric_clone :: "'m allocator \<Rightarrow> metric option \<Rightarrow> 'm \<Rightarrow> metric option \<times> 'm" where
  "otlp_metric_clone A src_ptr mem =
     (case src_ptr of None \<Rightarrow> (None, mem)
      | Some src \<Rightarrow> (case otlp_calloc A 1 SIZEOF_METRIC mem of
          (False, mem1) \<Rightarrow> (None, mem1)
        | (True, mem1) \<Rightarrow>
            (case otlp_dup_str A (mt_name src) mem1 of (nm, mem2) \<Rightarrow>
            (case otlp_dup_str A (mt_unit src) mem2 of (un, mem3) \<Rightarrow>
            (case otlp_dup_str A (mt_description src) mem3 of (de, mem4) \<Rightarrow>
              if nm = None \<or> un = None \<or> de = None then (None, mem4)
              else let dst = clone_scalars src nm un de in
                (case otlp_attr_vec_copy A (mt_attrs dst) (mt_attrs src) mem4 of (st, vec, mem5) \<Rightarrow>
                  if st \<noteq> OTLP_OK then (None, mem5)
                  else (case clone_exemplars A src (dst\<lparr>mt_attrs := vec\<rparr>) mem5 of
                    (None, mem6) \<Rightarrow> (None, mem6)
                  | (Some d1, mem6) \<Rightarrow> (case clone_buckets A src d1 mem6 of
                    (None, mem7) \<Rightarrow> (None, mem7)
                  | (Some d2, mem7) \<Rightarrow>
                      (case clone_exp_counts A (mt_exp_pos_counts src) (mt_exp_pos_n src) mem7 of
                        (None, mem8) \<Rightarrow> (None, mem8)
                      | (Some (pc, pn), mem8) \<Rightarrow>
                          (case clone_exp_counts A (mt_exp_neg_counts src) (mt_exp_neg_n src) mem8 of
                            (None, mem9) \<Rightarrow> (None, mem9)
                          | (Some (nc, nn), mem9) \<Rightarrow>
                              (Some ((clone_exp_scalars src d2)\<lparr>mt_exp_pos_counts := pc, mt_exp_pos_n := pn,
                                 mt_exp_neg_counts := nc, mt_exp_neg_n := nn\<rparr>), mem9)))))))))))"

end
