(* ===== verification/Metric_Props.thy ===== *)
theory Metric_Props
  imports Metric
begin

text \<open>
  What the metric operations guarantee: the record stays well formed under any sequence of calls,
  a histogram counts every value in its bucket, counters are exact on integers, clones are
  faithful. And two places where they are not what one expects: a NaN sticks in minimum and
  maximum, and the single bucket of a histogram without bounds is not cloned.
\<close>

section \<open>Well-formed metrics\<close>

definition exemplar_ok :: "exemplar \<Rightarrow> bool" where
  "exemplar_ok e \<longleftrightarrow> (ex_has_double e \<or> ex_has_int e) \<and> length (ex_trace_id e) = 16 \<and> length (ex_span_id e) = 8"

definition counts_ok :: "u64 list option \<Rightarrow> nat \<Rightarrow> bool" where
  "counts_ok cs n \<longleftrightarrow> (\<forall>c. cs = Some c \<longrightarrow> length c = n \<and> n > 0 \<and> n \<le> SIZE_MAX div 8)"

definition buckets_ok :: "metric_type \<Rightarrow> u64 list option \<Rightarrow> nat \<Rightarrow> u64 list option \<Rightarrow> bool" where
  "buckets_ok ty bounds n buckets \<longleftrightarrow>
     (case bounds of
        Some bs \<Rightarrow> ty = METRIC_HISTOGRAM \<and> length bs = n \<and> n > 0 \<and> n < SIZE_MAX div 8 \<and>
          (\<exists>c. buckets = Some c \<and> length c = n + 1)
      | None \<Rightarrow> n = 0 \<and> (\<forall>c. buckets = Some c \<longrightarrow> ty = METRIC_HISTOGRAM \<and> length c = 1))"

definition metric_ok :: "metric \<Rightarrow> bool" where
  "metric_ok m \<longleftrightarrow>
     (\<exists>s. mt_name m = Some s \<and> otlp_str_is_utf8 (Some s)) \<and> (\<exists>s. mt_unit m = Some s \<and> otlp_str_is_utf8 (Some s)) \<and>
     (\<exists>s. mt_description m = Some s \<and> otlp_str_is_utf8 (Some s)) \<and>
     (mt_agg_temp m = OTLP_AGG_TEMP_DELTA \<or> mt_agg_temp m = OTLP_AGG_TEMP_CUMULATIVE) \<and>
     vec_ok OTLP_METRIC_MAX_ATTRS (mt_attrs m) \<and> buckets_ok (mt_type m) (mt_bounds m) (mt_n_bounds m) (mt_bucket_counts m) \<and>
     counts_ok (mt_exp_pos_counts m) (mt_exp_pos_n m) \<and> counts_ok (mt_exp_neg_counts m) (mt_exp_neg_n m) \<and>
     (\<forall>e \<in> set (mt_exemplars m). exemplar_ok e) \<and> length (mt_exemplars m) \<le> mt_cap_exemplars m \<and>
     mt_cap_exemplars m \<le> SIZE_MAX"

definition metric_view :: "metric \<Rightarrow> metric" where
  "metric_view m = m\<lparr>mt_attrs := vec_view (mt_attrs m), mt_cap_exemplars := 0\<rparr>"

datatype metric_op =
    Mt_Record u64 | Mt_Start u64 | Mt_Time u64 | Mt_Mark "(u64 \<times> u64) option" | Mt_Agg u8 | Mt_Mono bool
  | Mt_Attr "cstr option" attr_arg
  | Mt_Exp "32 word" "32 word" "u64 list option" nat "32 word" "u64 list option" nat
  | Mt_Exemplar "exemplar option"

fun metric_attr_call ::
  "'m allocator \<Rightarrow> metric option \<Rightarrow> cstr option \<Rightarrow> attr_arg \<Rightarrow> 'm \<Rightarrow> status \<times> metric option \<times> 'm" where
  "metric_attr_call A m k (Arg_String v) mem = otlp_metric_set_attribute_string A m k v mem"
| "metric_attr_call A m k (Arg_Int v) mem = otlp_metric_set_attribute_int A m k v mem"
| "metric_attr_call A m k (Arg_Double v) mem = otlp_metric_set_attribute_double A m k v mem"
| "metric_attr_call A m k (Arg_Bool v) mem = otlp_metric_set_attribute_bool A m k v mem"
| "metric_attr_call A m k (Arg_Bytes v n) mem = otlp_metric_set_attribute_bytes A m k v n mem"
| "metric_attr_call A m k (Arg_Array v n) mem = otlp_metric_set_attribute_array A m k v n mem"
| "metric_attr_call A m k (Arg_Kvlist v n) mem = otlp_metric_set_attribute_kvlist A m k v n mem"

fun metric_step :: "'m allocator \<Rightarrow> metric option \<Rightarrow> metric_op \<Rightarrow> 'm \<Rightarrow> status \<times> metric option \<times> 'm" where
  "metric_step A m (Mt_Record v) mem = otlp_metric_record A m v mem"
| "metric_step A m (Mt_Start t) mem = (case otlp_metric_set_start_time m t of (st, m') \<Rightarrow> (st, m', mem))"
| "metric_step A m (Mt_Time t) mem = (case otlp_metric_set_time m t of (st, m') \<Rightarrow> (st, m', mem))"
| "metric_step A m (Mt_Mark ts) mem = (case otlp_metric_mark_time m ts of (st, m') \<Rightarrow> (st, m', mem))"
| "metric_step A m (Mt_Agg t) mem = (case otlp_metric_set_aggregation_temporality m t of (st, m') \<Rightarrow> (st, m', mem))"
| "metric_step A m (Mt_Mono b) mem = (case otlp_metric_set_monotonic m b of (st, m') \<Rightarrow> (st, m', mem))"
| "metric_step A m (Mt_Attr k v) mem = metric_attr_call A m k v mem"
| "metric_step A m (Mt_Exp sc po pc pn no nc nn) mem = otlp_metric_set_exp_histogram A m sc po pc pn no nc nn mem"
| "metric_step A m (Mt_Exemplar e) mem = otlp_metric_add_exemplar A m e mem"

fun metric_run :: "'m allocator \<Rightarrow> metric option \<Rightarrow> metric_op list \<Rightarrow> 'm \<Rightarrow> status list \<times> metric option \<times> 'm" where
  "metric_run A m [] mem = ([], m, mem)"
| "metric_run A m (op # ops) mem =
     (case metric_step A m op mem of (st, m1, mem1) \<Rightarrow>
       (case metric_run A m1 ops mem1 of (sts, m2, mem2) \<Rightarrow> (st # sts, m2, mem2)))"

text \<open>What the interface requires of its arguments: arrays of the length given with them.\<close>

fun metric_args_ok :: "metric_op \<Rightarrow> bool" where
  "metric_args_ok (Mt_Exp _ _ pc pn _ nc nn) =
     ((\<forall>c. pc = Some c \<longrightarrow> pn \<le> length c) \<and> (\<forall>c. nc = Some c \<longrightarrow> nn \<le> length c))"
| "metric_args_ok (Mt_Exemplar e) = (\<forall>x. e = Some x \<longrightarrow> length (ex_trace_id x) = 16 \<and> length (ex_span_id x) = 8)"
| "metric_args_ok _ = True"

definition metric_keeps :: "metric \<Rightarrow> status \<Rightarrow> metric option \<Rightarrow> bool" where
  "metric_keeps m st m' \<longleftrightarrow> (\<exists>x. m' = Some x \<and> metric_ok x \<and> (st = OTLP_OK \<or> metric_view x = metric_view m))"

lemma bucket_index_le: "bucket_index v bs \<le> length bs"
  by (induction bs) auto

lemma length_bump [simp]: "length (bump c i) = length c"
  by (simp add: bump_def)

lemma record_stats_ok: "metric_ok m \<Longrightarrow> metric_ok (record_stats m v)"
  by (simp add: metric_ok_def record_stats_def)

lemma record_stats_keeps [simp]:
  "mt_type (record_stats m v) = mt_type m" "mt_bounds (record_stats m v) = mt_bounds m"
  "mt_n_bounds (record_stats m v) = mt_n_bounds m" "mt_bucket_counts (record_stats m v) = mt_bucket_counts m"
  "mt_count (record_stats m v) = mt_count m + 1"
  by (simp_all add: record_stats_def)

lemma record_histogram_ok:
  assumes "metric_ok m" "mt_type m = METRIC_HISTOGRAM" "record_histogram A m v mem = (st, m', mem')"
  shows "metric_ok m'"
proof (cases "mt_bucket_counts m")
  case (Some c)
  then have "buckets_ok METRIC_HISTOGRAM (mt_bounds m) (mt_n_bounds m) (Some (bump c i))" for i
    using assms(1,2) by (auto simp: metric_ok_def buckets_ok_def split: option.splits)
  then show ?thesis using record_stats_ok [OF assms(1), of v] assms(2,3) Some
    by (auto simp: record_histogram_def Let_def metric_ok_def)
next
  case None
  then have "buckets_ok METRIC_HISTOGRAM (mt_bounds m) 0 (Some (bump [0] 0))"
    using assms(1,2) by (auto simp: metric_ok_def buckets_ok_def bump_def split: option.splits)
  then show ?thesis using record_stats_ok [OF assms(1), of v] assms(2,3) None
    by (auto simp: record_histogram_def Let_def metric_ok_def split: prod.splits bool.splits)
qed

lemma on_metric_attrs_keeps:
  assumes "metric_ok m" and f: "\<And>k. key = Some k \<Longrightarrow> vec_setter OTLP_METRIC_MAX_ATTRS f"
    and run: "on_metric_attrs (Some m) key f mem = (st, m', mem')"
  shows "metric_keeps m st m'"
proof (cases key)
  case None
  then show ?thesis using assms by (auto simp: on_metric_attrs_def metric_keeps_def)
next
  case (Some k)
  obtain vec where v: "f (mt_attrs m) mem = (st, vec, mem')" "m' = Some (m\<lparr>mt_attrs := vec\<rparr>)"
    using run Some by (auto simp: on_metric_attrs_def split: prod.splits)
  then have "vec_ok OTLP_METRIC_MAX_ATTRS vec" "st = OTLP_OK \<or> vec_view vec = vec_view (mt_attrs m)"
    using vec_setterD [OF f [OF Some]] assms(1) by (auto simp: metric_ok_def)
  then show ?thesis using assms(1) v(2) by (auto simp: metric_keeps_def metric_ok_def metric_view_def)
qed

lemma metric_attr_keeps:
  assumes "metric_ok m" and "metric_attr_call A (Some m) key v mem = (st, m', mem')"
  shows "metric_keeps m st m'"
  using assms
  by (cases v)
    (auto simp: otlp_metric_set_attribute_string_def otlp_metric_set_attribute_int_def
      otlp_metric_set_attribute_double_def otlp_metric_set_attribute_bool_def
      otlp_metric_set_attribute_bytes_def otlp_metric_set_attribute_array_def
      otlp_metric_set_attribute_kvlist_def elim!: on_metric_attrs_keeps [rotated 2] intro: setters)

lemma set_exp_ok:
  "metric_ok m \<Longrightarrow> (\<forall>c. cs = Some c \<longrightarrow> n \<le> length c) \<Longrightarrow> set_exp_pos A off cs n m mem = (st, m', mem') \<Longrightarrow> metric_ok m'"
  "metric_ok m \<Longrightarrow> (\<forall>c. cs = Some c \<longrightarrow> n \<le> length c) \<Longrightarrow> set_exp_neg A off cs n m mem = (st, m', mem') \<Longrightarrow> metric_ok m'"
  by (auto simp: set_exp_pos_def set_exp_neg_def Let_def metric_ok_def counts_ok_def
      split: option.splits if_splits prod.splits bool.splits)

lemma set_exp_histogram_ok:
  assumes "metric_ok m" "metric_args_ok (Mt_Exp sc po pc pn no nc nn)"
    and run: "otlp_metric_set_exp_histogram A (Some m) sc po pc pn no nc nn mem = (st, m', mem')"
  shows "\<exists>x. m' = Some x \<and> metric_ok x"
proof (cases "mt_type m = METRIC_EXP_HISTOGRAM")
  case False
  then show ?thesis using assms by (auto simp: otlp_metric_set_exp_histogram_def)
next
  case True
  let ?m = "m\<lparr>mt_exp_scale := sc, mt_has_exp_scale := True\<rparr>"
  have ok: "metric_ok ?m" using assms(1) by (simp add: metric_ok_def)
  obtain st1 m1 mem1 where p: "set_exp_pos A po pc pn ?m mem = (st1, m1, mem1)" by (rule prod_cases3)
  obtain st2 m2 mem2 where n: "set_exp_neg A no nc nn m1 mem1 = (st2, m2, mem2)" by (rule prod_cases3)
  have "metric_ok m1" using set_exp_ok(1) [OF ok _ p] assms(2) by simp
  moreover from this have "metric_ok m2" using set_exp_ok(2) [OF _ _ n] assms(2) by simp
  ultimately show ?thesis using run True p n by (auto simp: otlp_metric_set_exp_histogram_def split: if_splits)
qed

lemma next_exemplar_cap:
  assumes "cap \<le> SIZE_MAX"
  shows "next_exemplar_cap cap \<le> SIZE_MAX" "\<not> next_exemplar_cap cap < cap \<Longrightarrow> cap < next_exemplar_cap cap"
proof -
  have "x mod (SIZE_MAX + 1) \<le> SIZE_MAX" for x using mod_less_divisor [of "SIZE_MAX + 1" x] by simp
  then show "next_exemplar_cap cap \<le> SIZE_MAX" by (simp add: next_exemplar_cap_def SIZE_MAX_def)
  show "\<not> next_exemplar_cap cap < cap \<Longrightarrow> cap < next_exemplar_cap cap"
    using assms by (auto simp: next_exemplar_cap_def SIZE_MAX_def mod_if split: if_splits)
qed

lemma add_exemplar_keeps:
  assumes "metric_ok m" "metric_args_ok (Mt_Exemplar e)"
    and run: "otlp_metric_add_exemplar A (Some m) e mem = (st, m', mem')"
  shows "metric_keeps m st m'"
proof (cases e)
  case None
  then show ?thesis using assms by (auto simp: otlp_metric_add_exemplar_def metric_keeps_def)
next
  case (Some x)
  show ?thesis
  proof (cases "ex_has_double x \<or> ex_has_int x")
    case False
    then show ?thesis using assms Some by (auto simp: otlp_metric_add_exemplar_def metric_keeps_def)
  next
    case True
    then have x: "exemplar_ok x" using assms(2) Some by (simp add: exemplar_ok_def)
    let ?c = "next_exemplar_cap (mt_cap_exemplars m)"
    have cap_le: "mt_cap_exemplars m \<le> SIZE_MAX" using assms(1) by (simp add: metric_ok_def)
    note cap = next_exemplar_cap [OF cap_le]
    have grow: "metric_ok (m\<lparr>mt_cap_exemplars := c, mt_exemplars := mt_exemplars m @ [x]\<rparr>)"
      if "length (mt_exemplars m) < c" "c \<le> SIZE_MAX" for c
      using assms(1) x that by (auto simp: metric_ok_def)
    show ?thesis
    proof (cases "length (mt_exemplars m) = mt_cap_exemplars m")
      case full: True
      show ?thesis
      proof (cases "?c < mt_cap_exemplars m")
        case True
        then show ?thesis using run full x assms(1) Some \<open>ex_has_double x \<or> ex_has_int x\<close>
          by (auto simp: otlp_metric_add_exemplar_def Let_def metric_keeps_def)
      next
        case False
        obtain ok mem1 where r: "a_realloc A (?c * SIZEOF_EXEMPLAR mod (SIZE_MAX + 1)) mem = (ok, mem1)" by (rule prod.exhaust)
        have "m' = Some (if ok then m\<lparr>mt_cap_exemplars := ?c, mt_exemplars := mt_exemplars m @ [x]\<rparr> else m)"
          "ok \<longrightarrow> st = OTLP_OK"
          using run full False r Some \<open>ex_has_double x \<or> ex_has_int x\<close>
          unfolding otlp_metric_add_exemplar_def Let_def by (cases ok; auto)+
        then show ?thesis using grow [OF _ cap(1)] cap(2) [OF False] full assms(1) by (auto simp: metric_keeps_def)
      qed
    next
      case False
      then have "m' = Some (m\<lparr>mt_exemplars := mt_exemplars m @ [x]\<rparr>)" "st = OTLP_OK"
        using run Some \<open>ex_has_double x \<or> ex_has_int x\<close> by (auto simp: otlp_metric_add_exemplar_def)
      moreover have "metric_ok (m\<lparr>mt_exemplars := mt_exemplars m @ [x]\<rparr>)"
        using assms(1) x False by (auto simp: metric_ok_def)
      ultimately show ?thesis by (simp add: metric_keeps_def)
    qed
  qed
qed

section \<open>Sequences of calls\<close>

lemma metric_step_ok:
  assumes "metric_ok m" "metric_args_ok op" "metric_step A (Some m) op mem = (st, m', mem')"
  shows "\<exists>x. m' = Some x \<and> metric_ok x \<and>
    (st = OTLP_OK \<or> metric_view x = metric_view m \<or> (\<exists>v. op = Mt_Record v) \<or> (\<exists>a b c d e f g. op = Mt_Exp a b c d e f g))"
proof (cases op)
  case (Mt_Record v)
  then show ?thesis using assms record_histogram_ok [OF assms(1)]
    by (fastforce simp: otlp_metric_record_def Let_def metric_ok_def split: metric_type.splits prod.splits)
next
  case (Mt_Exp a b c d e f g)
  with assms(3) have "otlp_metric_set_exp_histogram A (Some m) a b c d e f g mem = (st, m', mem')" by simp
  from set_exp_histogram_ok [OF assms(1) assms(2) [unfolded Mt_Exp] this] Mt_Exp show ?thesis by blast
next
  case (Mt_Exemplar e)
  with assms add_exemplar_keeps [of m e A mem st m' mem'] show ?thesis by (auto simp: metric_keeps_def)
next
  case (Mt_Attr k v)
  with assms metric_attr_keeps [of m A k v mem st m' mem'] show ?thesis by (auto simp: metric_keeps_def)
qed (use assms in \<open>auto simp: metric_ok_def otlp_metric_set_start_time_def otlp_metric_set_time_def otlp_metric_mark_time_def
      otlp_metric_set_aggregation_temporality_def otlp_metric_set_monotonic_def split: if_splits prod.splits\<close>)

lemma metric_run_ok:
  "metric_ok m \<Longrightarrow> \<forall>op\<in>set ops. metric_args_ok op \<Longrightarrow>
     \<exists>sts m' mem'. metric_run A (Some m) ops mem = (sts, Some m', mem') \<and> metric_ok m'"
proof (induction ops arbitrary: m mem)
  case (Cons op ops)
  obtain st m1 mem1 where step: "metric_step A (Some m) op mem = (st, m1, mem1)" by (rule prod_cases3)
  obtain x where x: "m1 = Some x" "metric_ok x" using metric_step_ok [OF Cons.prems(1) _ step] Cons.prems(2) by auto
  show ?case using Cons.IH [OF x(2), of mem1] Cons.prems(2) step x(1) by auto
qed simp

lemma histogram_arrays_ok:
  assumes "histogram_arrays A bs n m mem = (Some m', mem')" "n > 0" "n \<le> length bs"
  shows "m' = m\<lparr>mt_bounds := Some (take n bs), mt_bucket_counts := Some (replicate (n + 1) 0), mt_n_bounds := n\<rparr>"
    "n < SIZE_MAX div 8"
  using assms by (auto simp: histogram_arrays_def split: if_splits prod.splits)

text \<open>What creation returns when it succeeds.\<close>

definition fresh_metric ::
  "metric_type \<Rightarrow> cstr option \<Rightarrow> cstr option \<Rightarrow> cstr option \<Rightarrow> metric" where
  "fresh_metric ty name unit description =
     (metric_zero ty)\<lparr>mt_name := Some (or_empty name), mt_unit := Some (or_empty unit),
       mt_description := Some (or_empty description), mt_agg_temp := OTLP_AGG_TEMP_CUMULATIVE, mt_is_monotonic := True\<rparr>"

lemma create_fresh:
  assumes "otlp_metric_create A i name un de bounds n mem = (Some m, mem')"
  shows "\<exists>ty mem1. metric_type_of i = Some ty \<and> otlp_str_is_utf8 name \<and> otlp_str_is_utf8 un \<and> otlp_str_is_utf8 de \<and>
    (if ty = METRIC_HISTOGRAM \<and> bounds \<noteq> None \<and> n > 0
     then histogram_arrays A (the bounds) n (fresh_metric ty name un de) mem1 = (Some m, mem')
     else m = fresh_metric ty name un de)"
proof -
  obtain ty where ty: "metric_type_of i = Some ty" using assms by (auto simp: otlp_metric_create_def split: option.splits)
  obtain mem1 where c: "otlp_calloc A 1 SIZEOF_METRIC mem = (True, mem1)"
    using assms ty by (auto simp: otlp_metric_create_def split: prod.splits bool.splits)
  have u: "otlp_str_is_utf8 name" "otlp_str_is_utf8 un" "otlp_str_is_utf8 de"
    using assms ty c by (auto simp: otlp_metric_create_def split: if_splits)
  obtain nm mem2 where nm: "otlp_dup_str A (Some (or_empty name)) mem1 = (nm, mem2)" by (rule prod.exhaust)
  obtain u mem3 where un: "otlp_dup_str A (Some (or_empty un)) mem2 = (u, mem3)" by (rule prod.exhaust)
  obtain d mem4 where de: "otlp_dup_str A (Some (or_empty de)) mem3 = (d, mem4)" by (rule prod.exhaust)
  have "nm \<noteq> None \<and> u \<noteq> None \<and> d \<noteq> None"
    using assms ty c u nm un de by (auto simp: otlp_metric_create_def Let_def split: if_splits)
  then have "nm = Some (or_empty name)" "u = Some (or_empty un)" "d = Some (or_empty de)"
    using nm un de by (auto dest: dup_str_Some)
  with assms ty c u nm un de show ?thesis
    by (auto simp: otlp_metric_create_def Let_def fresh_metric_def split: if_splits)
qed

lemma fresh_ok:
  assumes "otlp_str_is_utf8 name" "otlp_str_is_utf8 un" "otlp_str_is_utf8 de"
  shows "metric_ok (fresh_metric ty name un de)"
  using assms by (auto simp: fresh_metric_def metric_zero_def metric_ok_def or_empty_def buckets_ok_def counts_ok_def
      split: option.splits)

lemma create_ok:
  assumes create: "otlp_metric_create A i name un de bounds n mem = (Some m, mem')"
    and len: "\<forall>bs. bounds = Some bs \<longrightarrow> n \<le> length bs"
  shows "metric_ok m"
proof -
  obtain ty mem1 where ty: "metric_type_of i = Some ty" "otlp_str_is_utf8 name" "otlp_str_is_utf8 un" "otlp_str_is_utf8 de"
    and m: "if ty = METRIC_HISTOGRAM \<and> bounds \<noteq> None \<and> n > 0
      then histogram_arrays A (the bounds) n (fresh_metric ty name un de) mem1 = (Some m, mem')
      else m = fresh_metric ty name un de"
    using create_fresh [OF create] by blast
  note ok = fresh_ok [OF ty(2-4), of ty]
  show ?thesis
  proof (cases "ty = METRIC_HISTOGRAM \<and> bounds \<noteq> None \<and> n > 0")
    case True
    then obtain bs where bs: "bounds = Some bs" "n \<le> length bs" "n > 0" "ty = METRIC_HISTOGRAM" using len by auto
    with m True have h: "histogram_arrays A bs n (fresh_metric ty name un de) mem1 = (Some m, mem')" by simp
    have "mt_type (fresh_metric ty name un de) = METRIC_HISTOGRAM" using bs(4) by (simp add: fresh_metric_def metric_zero_def)
    then show ?thesis unfolding histogram_arrays_ok(1) [OF h bs(3,2)]
      using ok bs histogram_arrays_ok(2) [OF h bs(3,2)] by (simp add: metric_ok_def buckets_ok_def)
  qed (use m ok in auto)
qed

section \<open>Histograms count every value\<close>

text \<open>Bucket \<open>i\<close> is for the values above bound \<open>i - 1\<close> and not above bound \<open>i\<close>.\<close>

definition in_bucket :: "u64 list \<Rightarrow> nat \<Rightarrow> u64 \<Rightarrow> bool" where
  "in_bucket bs i v \<longleftrightarrow> (i = 0 \<or> \<not> f64_le v (bs ! (i - 1))) \<and> (i = length bs \<or> f64_le v (bs ! i))"

lemma bucket_index_before: "j < bucket_index v bs \<Longrightarrow> \<not> f64_le v (bs ! j)"
proof (induction bs arbitrary: j)
  case (Cons b bs)
  then show ?case by (cases j) (auto split: if_splits)
qed simp

lemma bucket_index_at: "bucket_index v bs < length bs \<Longrightarrow> f64_le v (bs ! bucket_index v bs)"
  by (induction bs) (auto split: if_splits)

lemma bucket_index_in_bucket:
  assumes sorted: "sorted_wrt f64_le bs" and i: "i \<le> length bs"
  shows "bucket_index v bs = i \<longleftrightarrow> in_bucket bs i v"
proof
  assume "bucket_index v bs = i"
  then show "in_bucket bs i v"
    using bucket_index_before [of "i - 1" v bs] bucket_index_at [of v bs] i by (auto simp: in_bucket_def le_less)
next
  assume b: "in_bucket bs i v"
  let ?k = "bucket_index v bs"
  have "\<not> i < ?k" using b bucket_index_before [of i v bs] bucket_index_le [of v bs] by (auto simp: in_bucket_def)
  moreover have "\<not> ?k < i"
  proof
    assume k: "?k < i"
    then have le: "f64_le v (bs ! ?k)" using bucket_index_at i by simp
    have "f64_le v (bs ! (i - 1))"
    proof (cases "?k = i - 1")
      case False
      then have "f64_le (bs ! ?k) (bs ! (i - 1))" using sorted k i by (auto simp: sorted_wrt_iff_nth_less)
      with le show ?thesis by (rule f64_le_trans)
    qed (use le in simp)
    with b k show False by (auto simp: in_bucket_def)
  qed
  ultimately show "?k = i" by simp
qed

definition minmax_of :: "metric \<Rightarrow> u64 set \<Rightarrow> bool" where
  "minmax_of m S \<longleftrightarrow> (mt_has_minmax m \<longleftrightarrow> S \<noteq> {}) \<and>
     (S \<noteq> {} \<longrightarrow> mt_min m \<in> S \<and> mt_max m \<in> S \<and> (\<forall>v \<in> S. f64_le (mt_min m) v \<and> f64_le v (mt_max m)))"

lemma record_stats_minmax:
  assumes mm: "minmax_of m S" and nan: "\<not> f64_nan v" "\<forall>x \<in> S. \<not> f64_nan x"
  shows "minmax_of (record_stats m v) (insert v S)"
proof (cases "S = {}")
  case True
  then show ?thesis using mm nan by (simp add: minmax_of_def record_stats_def f64_le_def)
next
  case False
  then have s: "mt_has_minmax m" "mt_min m \<in> S" "mt_max m \<in> S" "\<forall>x \<in> S. f64_le (mt_min m) x \<and> f64_le x (mt_max m)"
    using mm by (auto simp: minmax_of_def)
  then have nn: "\<not> f64_nan (mt_min m)" "\<not> f64_nan (mt_max m)" using nan by auto
  have refl: "f64_le v v" using nan by (simp add: f64_le_def)
  show ?thesis unfolding minmax_of_def record_stats_def
    using s refl f64_lt_iff [OF nan(1) nn(1)] f64_lt_iff [OF nn(2) nan(1)] nan(1) nn
    by (auto simp: f64_le_def)
qed

text \<open>A histogram with its buckets, and one value recorded in it.\<close>

definition has_buckets :: "metric \<Rightarrow> u64 list \<Rightarrow> u64 list \<Rightarrow> bool" where
  "has_buckets m bs c \<longleftrightarrow> mt_type m = METRIC_HISTOGRAM \<and> mt_bounds m = Some bs \<and> mt_n_bounds m = length bs \<and>
     mt_bucket_counts m = Some c \<and> length c = length bs + 1"

lemma record_in_buckets:
  assumes "has_buckets m bs c"
  shows "otlp_metric_record A (Some m) v mem =
    (OTLP_OK, Some ((record_stats m v)\<lparr>mt_bucket_counts := Some (bump c (bucket_index v bs))\<rparr>), mem)"
  using assms by (simp add: otlp_metric_record_def record_histogram_def has_buckets_def Let_def)

lemma histogram_run:
  assumes "has_buckets m bs c" "minmax_of m S" "\<forall>x \<in> S \<union> set vs. \<not> f64_nan x"
  shows "\<exists>m' c'. metric_run A (Some m) (map Mt_Record vs) mem = (replicate (length vs) OTLP_OK, Some m', mem) \<and>
    has_buckets m' bs c' \<and> minmax_of m' (S \<union> set vs) \<and> mt_count m' = mt_count m + of_nat (length vs) \<and>
    mt_sum m' = foldl f64_add (mt_sum m) vs \<and>
    (\<forall>i \<le> length bs. c' ! i = c ! i + of_nat (length (filter (\<lambda>v. bucket_index v bs = i) vs)))"
  using assms
proof (induction vs arbitrary: m c S)
  case Nil
  then show ?case by (intro exI [of _ m] exI [of _ c]) simp
next
  case (Cons v vs)
  let ?k = "bucket_index v bs"
  let ?m = "(record_stats m v)\<lparr>mt_bucket_counts := Some (bump c ?k)\<rparr>"
  have b: "has_buckets ?m bs (bump c ?k)" using Cons.prems(1) by (simp add: has_buckets_def)
  have "minmax_of (record_stats m v) (insert v S)"
    using Cons.prems by (intro record_stats_minmax) auto
  then have mm: "minmax_of ?m (insert v S)" by (simp add: minmax_of_def)
  obtain m' c' where r: "metric_run A (Some ?m) (map Mt_Record vs) mem = (replicate (length vs) OTLP_OK, Some m', mem)"
    "has_buckets m' bs c'" "minmax_of m' (insert v S \<union> set vs)" "mt_count m' = mt_count ?m + of_nat (length vs)"
    "mt_sum m' = foldl f64_add (mt_sum ?m) vs"
    "\<forall>i \<le> length bs. c' ! i = bump c ?k ! i + of_nat (length (filter (\<lambda>v. bucket_index v bs = i) vs))"
    using Cons.IH [OF b mm] Cons.prems(3) by auto
  have k: "?k < length c" using bucket_index_le [of v bs] Cons.prems(1) by (simp add: has_buckets_def)
  have "\<forall>i \<le> length bs. c' ! i = c ! i + of_nat (length (filter (\<lambda>v. bucket_index v bs = i) (v # vs)))"
    using r(6) k by (auto simp: bump_def nth_list_update)
  moreover have "mt_sum ?m = f64_add (mt_sum m) v" by (simp add: record_stats_def)
  ultimately show ?case using r Cons.prems(1)
    by (auto simp: record_in_buckets)
qed



section \<open>A NaN sticks\<close>

lemma record_nan_minmax:
  assumes "mt_type m = METRIC_HISTOGRAM" "mt_has_minmax m" "f64_nan (mt_min m)" "f64_nan (mt_max m)"
    and "otlp_metric_record A (Some m) v mem = (st, m', mem')"
  shows "\<exists>x. m' = Some x \<and> mt_type x = METRIC_HISTOGRAM \<and> mt_has_minmax x \<and> mt_min x = mt_min m \<and> mt_max x = mt_max m"
proof -
  have rs: "mt_type (record_stats m v) = METRIC_HISTOGRAM" "mt_has_minmax (record_stats m v)"
    "mt_min (record_stats m v) = mt_min m" "mt_max (record_stats m v) = mt_max m"
    using assms(1-4) by (simp_all add: record_stats_def)
  then show ?thesis using assms(1,5)
    by (cases "mt_bucket_counts m")
      (auto simp: otlp_metric_record_def record_histogram_def Let_def split: prod.splits bool.splits)
qed

lemma nan_minmax_run:
  "mt_type m = METRIC_HISTOGRAM \<Longrightarrow> mt_has_minmax m \<Longrightarrow> f64_nan (mt_min m) \<Longrightarrow> f64_nan (mt_max m) \<Longrightarrow>
     \<exists>sts m' mem'. metric_run A (Some m) (map Mt_Record vs) mem = (sts, Some m', mem') \<and>
       mt_min m' = mt_min m \<and> mt_max m' = mt_max m"
proof (induction vs arbitrary: m mem)
  case (Cons v vs)
  obtain st m1 mem1 where step: "otlp_metric_record A (Some m) v mem = (st, m1, mem1)" by (rule prod_cases3)
  obtain x where x: "m1 = Some x" "mt_type x = METRIC_HISTOGRAM" "mt_has_minmax x" "mt_min x = mt_min m" "mt_max x = mt_max m"
    using record_nan_minmax [OF Cons.prems step] by blast
  obtain sts m' mem' where "metric_run A (Some x) (map Mt_Record vs) mem1 = (sts, Some m', mem')"
    "mt_min m' = mt_min x" "mt_max m' = mt_max x"
    using Cons.IH [OF x(2,3), of mem1] Cons.prems(3,4) x(4,5) by auto
  with step x show ?case by auto
qed simp

text \<open>
  A histogram whose first value is a NaN reports that NaN as its minimum and maximum for ever:
  no comparison with it succeeds, so no later value, however small or large, replaces it, whatever
  the allocator does.
\<close>

theorem histogram_nan_sticks:
  assumes "mt_type m = METRIC_HISTOGRAM" and "\<not> mt_has_minmax m" and "f64_nan v"
  shows "\<exists>sts m' mem'. metric_run A (Some m) (map Mt_Record (v # vs)) mem = (sts, Some m', mem') \<and>
    mt_min m' = v \<and> mt_max m' = v"
proof -
  have rs: "mt_type (record_stats m v) = METRIC_HISTOGRAM" "mt_has_minmax (record_stats m v)"
    "mt_min (record_stats m v) = v" "mt_max (record_stats m v) = v"
    using assms by (simp_all add: record_stats_def)
  obtain st m1 mem1 where step: "otlp_metric_record A (Some m) v mem = (st, m1, mem1)" by (rule prod_cases3)
  obtain x where x: "m1 = Some x" "mt_type x = METRIC_HISTOGRAM" "mt_has_minmax x" "mt_min x = v" "mt_max x = v"
    using step assms(1) rs
    by (cases "mt_bucket_counts m")
      (auto simp: otlp_metric_record_def record_histogram_def Let_def split: prod.splits bool.splits)
  obtain sts m' mem' where "metric_run A (Some x) (map Mt_Record vs) mem1 = (sts, Some m', mem')" "mt_min m' = v" "mt_max m' = v"
    using nan_minmax_run [OF x(2,3), of A vs mem1] x(4,5) assms(3) by auto
  with step x(1) show ?thesis by auto
qed

theorem histogram_nan_sticks_witness:
  "\<exists>sts m' mem'. metric_run always_alloc (Some (metric_zero METRIC_HISTOGRAM)) (map Mt_Record [F64_QNAN, 0x3ff0000000000000]) () =
      (sts, Some m', mem') \<and> mt_min m' = F64_QNAN \<and> \<not> f64_nan (0x3ff0000000000000)"
proof -
  have n: "f64_nan F64_QNAN" "\<not> f64_nan (0x3ff0000000000000)"
    by (simp_all add: f64_nan_def F64_QNAN_def f64_exp_def f64_frac_def)
  have z: "mt_type (metric_zero METRIC_HISTOGRAM) = METRIC_HISTOGRAM" "\<not> mt_has_minmax (metric_zero METRIC_HISTOGRAM)"
    by (simp_all add: metric_zero_def)
  show ?thesis using histogram_nan_sticks [OF z n(1), of always_alloc "[0x3ff0000000000000]" "()"] n(2) by blast
qed

section \<open>Counters\<close>

lemma counter_run:
  assumes "mt_type m = METRIC_COUNTER" "mt_value m = f64_of_nat a" "a + sum_list ns < 2 ^ 53"
  shows "metric_run A (Some m) (map (\<lambda>n. Mt_Record (f64_of_nat n)) ns) mem =
    (replicate (length ns) OTLP_OK, Some (m\<lparr>mt_value := f64_of_nat (a + sum_list ns)\<rparr>), mem)"
  using assms
proof (induction ns arbitrary: m a)
  case (Cons n ns)
  have step: "metric_step A (Some m) (Mt_Record (f64_of_nat n)) mem = (OTLP_OK, Some (m\<lparr>mt_value := f64_of_nat (a + n)\<rparr>), mem)"
    using Cons.prems f64_add_nat [of a n] by (simp add: otlp_metric_record_def)
  show ?case using Cons.IH [of "m\<lparr>mt_value := f64_of_nat (a + n)\<rparr>" "a + n"] Cons.prems step
    by (simp add: add.assoc)
qed simp

text \<open>
  A counter is exact on integers: recording natural numbers whose sum stays below \<open>2^53\<close> leaves the
  counter with the double of their sum, in whatever order they come.
\<close>

theorem counter_exact:
  assumes "otlp_metric_create A 1 name un de bounds n mem = (Some m, mem1)" and "sum_list ns < 2 ^ 53"
  shows "\<exists>m'. metric_run A (Some m) (map (\<lambda>n. Mt_Record (f64_of_nat n)) ns) mem1 =
      (replicate (length ns) OTLP_OK, Some m', mem1) \<and> mt_value m' = f64_of_nat (sum_list ns) \<and>
    f64_int (mt_value m') = int (sum_list ns * 2 ^ 1074)"
proof -
  have m: "m = fresh_metric METRIC_COUNTER name un de"
    using create_fresh [OF assms(1)] by (auto simp: metric_type_of_def)
  have z: "f64_of_nat 0 = 0" by (simp add: f64_of_nat_def f64_round_def f64_pack_def)
  have "mt_type m = METRIC_COUNTER" "mt_value m = f64_of_nat 0"
    by (simp_all add: m z fresh_metric_def metric_zero_def)
  from counter_run [OF this, of ns A mem1] assms(2)
  have "metric_run A (Some m) (map (\<lambda>n. Mt_Record (f64_of_nat n)) ns) mem1 =
    (replicate (length ns) OTLP_OK, Some (m\<lparr>mt_value := f64_of_nat (sum_list ns)\<rparr>), mem1)" by simp
  then show ?thesis using f64_of_nat_value(1) [OF assms(2)]
    by (intro exI [of _ "m\<lparr>mt_value := f64_of_nat (sum_list ns)\<rparr>"]) (simp del: of_nat_mult)
qed

theorem counter_exact_witness:
  "\<exists>m m'. otlp_metric_create always_alloc 1 None None None None 0 () = (Some m, ()) \<and>
    metric_run always_alloc (Some m) (map (\<lambda>n. Mt_Record (f64_of_nat n)) [3, 4]) () = ([OTLP_OK, OTLP_OK], Some m', ()) \<and>
    mt_value m' = f64_of_nat 7"
proof -
  obtain m where m: "otlp_metric_create always_alloc 1 None None None None 0 () = (Some m, ())"
    by (simp add: otlp_metric_create_def metric_type_of_def otlp_calloc_def always_alloc_def otlp_dup_str_def or_empty_def
        SIZE_MAX_def SIZEOF_METRIC_def Let_def)
  have s: "sum_list [3, 4 :: nat] < 2 ^ 53" by simp
  have e: "replicate (length [3, 4 :: nat]) OTLP_OK = [OTLP_OK, OTLP_OK]" "sum_list [3, 4 :: nat] = 7" by simp_all
  from counter_exact [OF m s] m show ?thesis unfolding e by blast
qed

section \<open>The clone\<close>

lemma clone_exp_counts_spec:
  assumes "clone_exp_counts A cs n mem = (Some (cs', n'), mem')" "counts_ok cs n"
  shows "cs' = cs" "n' = (if cs = None then 0 else n)"
  using assms by (auto simp: clone_exp_counts_def counts_ok_def split: option.splits if_splits prod.splits bool.splits)

lemma clone_exemplars_spec:
  assumes "clone_exemplars A src dst mem = (Some d, mem')" "mt_exemplars dst = []" "mt_cap_exemplars dst = 0"
  shows "d = dst\<lparr>mt_exemplars := mt_exemplars src, mt_cap_exemplars := length (mt_exemplars src)\<rparr>"
    "length (mt_exemplars src) \<le> SIZE_MAX"
proof -
  have same: "dst = dst\<lparr>mt_exemplars := [], mt_cap_exemplars := 0\<rparr>" using assms(2,3) by simp
  have "mt_exemplars src = [] \<or> length (mt_exemplars src) \<le> SIZE_MAX div SIZEOF_EXEMPLAR"
    "d = dst\<lparr>mt_exemplars := mt_exemplars src, mt_cap_exemplars := length (mt_exemplars src)\<rparr>"
    using assms(1) same by (auto simp: clone_exemplars_def Let_def split: if_splits prod.splits bool.splits)
  then show "d = dst\<lparr>mt_exemplars := mt_exemplars src, mt_cap_exemplars := length (mt_exemplars src)\<rparr>"
    "length (mt_exemplars src) \<le> SIZE_MAX"
    using div_le_dividend [of SIZE_MAX SIZEOF_EXEMPLAR] by (auto intro: order_trans)
qed

lemma clone_buckets_spec:
  assumes run: "clone_buckets A src dst mem = (Some d, mem')"
    and ok: "buckets_ok (mt_type src) (mt_bounds src) (mt_n_bounds src) (mt_bucket_counts src)"
    and dst: "mt_bounds dst = None" "mt_n_bounds dst = 0" "mt_bucket_counts dst = None"
  shows "d = dst\<lparr>mt_bounds := mt_bounds src, mt_n_bounds := mt_n_bounds src,
    mt_bucket_counts := (if mt_bounds src = None then None else mt_bucket_counts src)\<rparr>"
proof (cases "mt_bounds src")
  case None
  then show ?thesis using run ok dst by (auto simp: clone_buckets_def buckets_ok_def)
next
  case (Some bs)
  then obtain c where c: "mt_bucket_counts src = Some c" "length c = mt_n_bounds src + 1" "length bs = mt_n_bounds src"
    "mt_n_bounds src > 0" using ok by (auto simp: buckets_ok_def)
  then show ?thesis using run Some by (auto simp: clone_buckets_def Let_def split: if_splits prod.splits)
qed

text \<open>What the clone carries: everything, except the single bucket of a histogram without bounds.\<close>

definition cloned :: "metric \<Rightarrow> metric" where
  "cloned m = m\<lparr>mt_bucket_counts := (if mt_bounds m = None then None else mt_bucket_counts m),
     mt_exp_pos_n := (if mt_exp_pos_counts m = None then 0 else mt_exp_pos_n m),
     mt_exp_neg_n := (if mt_exp_neg_counts m = None then 0 else mt_exp_neg_n m)\<rparr>"

lemma metric_clone_spec:
  assumes ok: "metric_ok src" and clone: "otlp_metric_clone A (Some src) mem = (Some d, mem')"
  shows "\<exists>vec. av_items vec = av_items (mt_attrs src) \<and> vec_ok OTLP_METRIC_MAX_ATTRS vec \<and>
    d = (cloned src)\<lparr>mt_attrs := vec, mt_cap_exemplars := length (mt_exemplars src)\<rparr> \<and> length (mt_exemplars src) \<le> SIZE_MAX"
proof -
  obtain mem1 where c: "otlp_calloc A 1 SIZEOF_METRIC mem = (True, mem1)"
    using clone by (auto simp: otlp_metric_clone_def split: prod.splits bool.splits)
  obtain nm mem2 where nm: "otlp_dup_str A (mt_name src) mem1 = (nm, mem2)" by (rule prod.exhaust)
  obtain un mem3 where un: "otlp_dup_str A (mt_unit src) mem2 = (un, mem3)" by (rule prod.exhaust)
  obtain de mem4 where de: "otlp_dup_str A (mt_description src) mem3 = (de, mem4)" by (rule prod.exhaust)
  have "nm \<noteq> None \<and> un \<noteq> None \<and> de \<noteq> None" using clone c nm un de
    by (auto simp: otlp_metric_clone_def split: if_splits)
  then have str: "nm = mt_name src" "un = mt_unit src" "de = mt_description src" using nm un de by (auto dest: dup_str_Some)
  let ?dst = "clone_scalars src nm un de"
  have at0: "mt_attrs ?dst = vec_empty" by (simp add: clone_scalars_def metric_zero_def)
  obtain st vec mem5 where v: "otlp_attr_vec_copy A vec_empty (mt_attrs src) mem4 = (st, vec, mem5)" by (rule prod_cases3)
  have st: "st = OTLP_OK" using clone c nm un de \<open>nm \<noteq> None \<and> un \<noteq> None \<and> de \<noteq> None\<close> v at0
    by (auto simp: otlp_metric_clone_def Let_def split: if_splits)
  have vec: "av_items vec = av_items (mt_attrs src)" "vec_ok OTLP_METRIC_MAX_ATTRS vec"
    using copy_vec [OF v [unfolded st]] ok by (auto simp: metric_ok_def)
  obtain d1 mem6 where e: "clone_exemplars A src (?dst\<lparr>mt_attrs := vec\<rparr>) mem5 = (Some d1, mem6)"
    using clone c nm un de \<open>nm \<noteq> None \<and> un \<noteq> None \<and> de \<noteq> None\<close> v at0 st
    by (auto simp: otlp_metric_clone_def Let_def split: prod.splits option.splits)
  obtain d2 mem7 where b: "clone_buckets A src d1 mem6 = (Some d2, mem7)"
    using clone c nm un de \<open>nm \<noteq> None \<and> un \<noteq> None \<and> de \<noteq> None\<close> v at0 st e
    by (auto simp: otlp_metric_clone_def Let_def split: prod.splits option.splits)
  obtain pc pn mem8 where p: "clone_exp_counts A (mt_exp_pos_counts src) (mt_exp_pos_n src) mem7 = (Some (pc, pn), mem8)"
    using clone c nm un de \<open>nm \<noteq> None \<and> un \<noteq> None \<and> de \<noteq> None\<close> v at0 st e b
    by (auto simp: otlp_metric_clone_def Let_def split: prod.splits option.splits)
  obtain nc nn where n: "clone_exp_counts A (mt_exp_neg_counts src) (mt_exp_neg_n src) mem8 = (Some (nc, nn), mem')"
    and d: "d = (clone_exp_scalars src d2)\<lparr>mt_exp_pos_counts := pc, mt_exp_pos_n := pn, mt_exp_neg_counts := nc, mt_exp_neg_n := nn\<rparr>"
    using clone c nm un de \<open>nm \<noteq> None \<and> un \<noteq> None \<and> de \<noteq> None\<close> v at0 st e b p
    by (auto simp: otlp_metric_clone_def Let_def split: prod.splits option.splits)
  have d1: "d1 = ?dst\<lparr>mt_attrs := vec, mt_exemplars := mt_exemplars src, mt_cap_exemplars := length (mt_exemplars src)\<rparr>"
    "length (mt_exemplars src) \<le> SIZE_MAX"
    using clone_exemplars_spec [OF e] by (simp_all add: clone_scalars_def metric_zero_def)
  have d2: "d2 = d1\<lparr>mt_bounds := mt_bounds src, mt_n_bounds := mt_n_bounds src,
      mt_bucket_counts := (if mt_bounds src = None then None else mt_bucket_counts src)\<rparr>"
    by (rule clone_buckets_spec [OF b]) (use ok in \<open>simp_all add: metric_ok_def d1(1) clone_scalars_def metric_zero_def\<close>)
  have counts: "pc = mt_exp_pos_counts src" "pn = (if mt_exp_pos_counts src = None then 0 else mt_exp_pos_n src)"
    "nc = mt_exp_neg_counts src" "nn = (if mt_exp_neg_counts src = None then 0 else mt_exp_neg_n src)"
    using clone_exp_counts_spec [OF p] clone_exp_counts_spec [OF n] ok by (simp_all add: metric_ok_def)
  show ?thesis using vec d1(2)
    by (intro exI [of _ vec] conjI; (simp; fail)?)
      (rule metric.equality; simp add: d counts d2 d1(1) clone_exp_scalars_def clone_scalars_def metric_zero_def cloned_def str)
qed


text \<open>
  C29. Metrics stay well formed. Whatever is done with a metric through its interface, with any
  failures in between, its strings are valid UTF-8, its attributes are keyed uniquely and within the
  limit, the bucket array has one entry more than there are bounds, the arrays of an exponential
  histogram have the length kept beside them, every exemplar has a value; and apart from recording
  and from \<open>set_exp_histogram\<close> a call that fails changes no content. A clone of the result is well
  formed and carries the same content, apart from the single bucket of a histogram without bounds.
\<close>

theorem metric_api_invariant:
  assumes "otlp_metric_create A i name un de bounds n mem = (Some m, mem1)"
    and "\<forall>bs. bounds = Some bs \<longrightarrow> n \<le> length bs" and "\<forall>op \<in> set ops. metric_args_ok op"
  shows "\<exists>sts m' mem2. metric_run A (Some m) ops mem1 = (sts, Some m', mem2) \<and> metric_ok m' \<and>
    (\<forall>op st m'' mem3. metric_args_ok op \<longrightarrow> metric_step A (Some m') op mem2 = (st, m'', mem3) \<longrightarrow> st \<noteq> OTLP_OK \<longrightarrow>
      (\<exists>x. m'' = Some x \<and> metric_view x = metric_view m') \<or> (\<exists>v. op = Mt_Record v) \<or>
      (\<exists>a b c d e f g. op = Mt_Exp a b c d e f g)) \<and>
    (\<forall>d mem3. otlp_metric_clone A (Some m') mem2 = (Some d, mem3) \<longrightarrow>
      metric_ok d \<and> metric_view d = metric_view (cloned m'))"
proof -
  obtain sts m' mem2 where r: "metric_run A (Some m) ops mem1 = (sts, Some m', mem2)" and ok: "metric_ok m'"
    using metric_run_ok [OF create_ok [OF assms(1,2)] assms(3), of A mem1] by blast
  have cl: "metric_ok d \<and> metric_view d = metric_view (cloned m')"
    if "otlp_metric_clone A (Some m') mem2 = (Some d, mem3)" for d mem3
  proof -
    note c = that
    obtain vec where d: "av_items vec = av_items (mt_attrs m')" "vec_ok OTLP_METRIC_MAX_ATTRS vec"
      "d = (cloned m')\<lparr>mt_attrs := vec, mt_cap_exemplars := length (mt_exemplars m')\<rparr>" "length (mt_exemplars m') \<le> SIZE_MAX"
      using metric_clone_spec [OF ok c] by blast
    have "metric_ok d" using ok d by (auto simp: metric_ok_def cloned_def buckets_ok_def counts_ok_def split: option.splits)
    moreover have "metric_view d = metric_view (cloned m')" using d by (simp add: metric_view_def cloned_def vec_view_eq)
    ultimately show ?thesis by simp
  qed
  have st: "(\<exists>x. m'' = Some x \<and> metric_view x = metric_view m') \<or> (\<exists>v. op = Mt_Record v) \<or> (\<exists>a b c d e f g. op = Mt_Exp a b c d e f g)"
    if "metric_args_ok op" "metric_step A (Some m') op mem2 = (st, m'', mem3)" "st \<noteq> OTLP_OK" for op st m'' mem3
    using metric_step_ok [OF ok that(1,2)] that(3) by blast
  show ?thesis using r ok cl st by blast
qed

theorem metric_api_invariant_witness:
  "\<exists>m sts m' mem2. otlp_metric_create always_alloc 4 None None None None 0 () = (Some m, ()) \<and>
    metric_run always_alloc (Some m) [Mt_Agg 7, Mt_Exp 1 2 (Some [5]) 1 0 None 0] () = (sts, Some m', mem2) \<and> metric_ok m'"
proof -
  obtain m where m: "otlp_metric_create always_alloc 4 None None None None 0 () = (Some m, ())"
    by (simp add: otlp_metric_create_def metric_type_of_def otlp_calloc_def always_alloc_def otlp_dup_str_def or_empty_def
        SIZE_MAX_def SIZEOF_METRIC_def Let_def)
  have args: "\<forall>op \<in> set [Mt_Agg 7, Mt_Exp 1 2 (Some [5]) 1 0 None 0]. metric_args_ok op" by simp
  from metric_api_invariant [OF m _ args] m show ?thesis by (simp del: metric_run.simps) blast
qed

end
