(* ===== verification/Metric_Encode.thy ===== *)
theory Metric_Encode
  imports Metric_Props Request_Build
begin

text \<open>
  The metric encoder (\<^verbatim>\<open>src/otlp_metrics_encoder.c\<close>): exemplars, the three kinds of data point with
  their packed arrays, the table of metric kinds, and the export request. A metric pointer in a
  batch is never NULL (the code dereferences the description it reads through it).
\<close>

section \<open>Field numbers\<close>

abbreviation "EMSR_F_RESOURCE_METRICS \<equiv> fs_number (OTLP_EMSR_FIELDS OTLP_EMSR_FI_RESOURCE_METRICS)"
abbreviation "RM_F i \<equiv> fs_number (OTLP_RM_FIELDS i)"
abbreviation "SM_F i \<equiv> fs_number (OTLP_SM_FIELDS i)"
abbreviation "METRIC_F i \<equiv> fs_number (OTLP_METRIC_FIELDS i)"
abbreviation "SUM_F i \<equiv> fs_number (OTLP_SUM_FIELDS i)"
abbreviation "HIST_F_AGG_TEMP \<equiv> fs_number (OTLP_HIST_FIELDS OTLP_HIST_FI_AGG_TEMP)"
abbreviation "EH_F_AGG_TEMP \<equiv> fs_number (OTLP_EH_FIELDS OTLP_EH_FI_AGG_TEMP)"
abbreviation "NDP_F i \<equiv> fs_number (OTLP_NDP_FIELDS i)"
abbreviation "HDP_F i \<equiv> fs_number (OTLP_HDP_FIELDS i)"
abbreviation "EHDP_F i \<equiv> fs_number (OTLP_EHDP_FIELDS i)"
abbreviation "EHB_F i \<equiv> fs_number (OTLP_EHB_FIELDS i)"
abbreviation "EX_F i \<equiv> fs_number (OTLP_EX_FIELDS i)"

section \<open>The encoders\<close>

unbundle bit_operations_syntax

text \<open>\<^verbatim>\<open>((uint32_t) v << 1) ^ (uint32_t)(v >> 31)\<close>, an arithmetic shift; the result is widened unsigned.\<close>

definition zigzag32 :: "32 word \<Rightarrow> u32" where
  "zigzag32 v = push_bit 1 v XOR signed_drop_bit 31 v"

definition emit_packed_field :: "'m allocator \<Rightarrow> u32 \<Rightarrow> u8 list \<Rightarrow> 'm pbst \<Rightarrow> status \<times> 'm pbst" where
  "emit_packed_field A f payload =
     (if length payload = 0 then ret_ok else otlp_pb_field_bytes A f (Some payload) (length payload))"

definition emit_double_field :: "'m allocator \<Rightarrow> u32 \<Rightarrow> u64 \<Rightarrow> 'm pbst \<Rightarrow> status \<times> 'm pbst" where
  "emit_double_field A f bits = then_ok (otlp_pb_tag A f OTLP_PB_WIRE_FIXED64) (otlp_pb_fixed64 A bits)"

definition emit_exemplar :: "'m allocator \<Rightarrow> u32 \<Rightarrow> exemplar \<Rightarrow> 'm pbst \<Rightarrow> status \<times> 'm pbst" where
  "emit_exemplar A f ex =
     field_sub A f
       (then_ok (if ex_has_double ex then emit_double_field A (EX_F OTLP_EX_FI_DOUBLE_VALUE) (ex_double_val ex)
                 else emit_double_field A (EX_F OTLP_EX_FI_INT_VALUE) (ex_int_val ex))
       (then_ok (when_ok (ex_has_trace ex) (otlp_pb_field_bytes A (EX_F OTLP_EX_FI_TRACE_ID) (Some (ex_trace_id ex)) 16))
       (then_ok (when_ok (ex_has_span ex) (otlp_pb_field_bytes A (EX_F OTLP_EX_FI_SPAN_ID) (Some (ex_span_id ex)) 8))
         (when_ok (ex_has_time ex) (otlp_pb_field_fixed64 A (EX_F OTLP_EX_FI_TIME) (ex_time ex))))))"

definition emit_exemplars :: "'m allocator \<Rightarrow> u32 \<Rightarrow> metric option \<Rightarrow> 'm pbst \<Rightarrow> status \<times> 'm pbst" where
  "emit_exemplars A f m =
     each_ok (\<lambda>i. emit_exemplar A f (the (otlp_metric_get_exemplar m i))) [0..<otlp_metric_get_n_exemplars m]"

definition emit_times :: "'m allocator \<Rightarrow> u32 \<Rightarrow> u32 \<Rightarrow> metric option \<Rightarrow> 'm pbst \<Rightarrow> status \<times> 'm pbst" where
  "emit_times A f_start f_time m =
     then_ok (when_ok (otlp_metric_has_start m) (otlp_pb_field_fixed64 A f_start (otlp_metric_get_start_time m)))
       (when_ok (otlp_metric_has_time m) (otlp_pb_field_fixed64 A f_time (otlp_metric_get_time m)))"

definition emit_number_data_point :: "'m allocator \<Rightarrow> u32 \<Rightarrow> metric option \<Rightarrow> 'm pbst \<Rightarrow> status \<times> 'm pbst" where
  "emit_number_data_point A f m =
     field_sub A f
       (then_ok (otlp_emit_attributes A (NDP_F OTLP_NDP_FI_ATTRIBUTES) (otlp_metric_get_attrs m))
       (then_ok (emit_exemplars A (NDP_F OTLP_NDP_FI_EXEMPLARS) m)
       (then_ok (emit_times A (NDP_F OTLP_NDP_FI_START_TIME) (NDP_F OTLP_NDP_FI_TIME) m)
         (emit_double_field A (NDP_F OTLP_NDP_FI_AS_DOUBLE) (otlp_metric_get_value m)))))"

definition emit_histogram_data_point :: "'m allocator \<Rightarrow> u32 \<Rightarrow> metric option \<Rightarrow> 'm pbst \<Rightarrow> status \<times> 'm pbst" where
  "emit_histogram_data_point A f m =
     (case otlp_metric_get_bounds m of (bounds, n_bounds) \<Rightarrow>
      let buckets = otlp_metric_get_buckets m in
      field_sub A f
       (then_ok (otlp_emit_attributes A (HDP_F OTLP_HDP_FI_ATTRIBUTES) (otlp_metric_get_attrs m))
       (then_ok (emit_exemplars A (HDP_F OTLP_HDP_FI_EXEMPLARS) m)
       (then_ok (emit_times A (HDP_F OTLP_HDP_FI_START_TIME) (HDP_F OTLP_HDP_FI_TIME) m)
       (then_ok (otlp_pb_field_fixed64 A (HDP_F OTLP_HDP_FI_COUNT) (otlp_metric_get_count m))
       (then_ok (emit_double_field A (HDP_F OTLP_HDP_FI_SUM) (otlp_metric_get_sum m))
       (then_ok (when_ok (buckets \<noteq> None \<and> n_bounds > 0)
          (with_sub A (each_ok (otlp_pb_fixed64 A) (take (n_bounds + 1) (the buckets)))
            (emit_packed_field A (HDP_F OTLP_HDP_FI_BUCKET_COUNTS))))
       (then_ok (when_ok (bounds \<noteq> None \<and> n_bounds > 0)
          (with_sub A (each_ok (otlp_pb_fixed64 A) (take n_bounds (the bounds)))
            (emit_packed_field A (HDP_F OTLP_HDP_FI_EXPLICIT_BOUNDS))))
       (when_ok (otlp_metric_has_minmax m)
         (then_ok (emit_double_field A (HDP_F OTLP_HDP_FI_MIN) (otlp_metric_get_min m))
           (emit_double_field A (HDP_F OTLP_HDP_FI_MAX) (otlp_metric_get_max m))))))))))))"

definition emit_exp_histogram_buckets ::
  "'m allocator \<Rightarrow> u32 \<Rightarrow> 32 word \<Rightarrow> u64 list \<Rightarrow> nat \<Rightarrow> 'm pbst \<Rightarrow> status \<times> 'm pbst" where
  "emit_exp_histogram_buckets A f offset counts n =
     (if n = 0 then ret_ok
      else field_sub A f
        (then_ok (otlp_pb_field_varint A (EHB_F OTLP_EHB_FI_OFFSET) (ucast (zigzag32 offset)))
          (with_sub A (each_ok (otlp_pb_varint A) (take n counts))
            (emit_packed_field A (EHB_F OTLP_EHB_FI_BUCKET_COUNTS)))))"

definition emit_exp_side ::
  "'m allocator \<Rightarrow> u32 \<Rightarrow> 32 word \<Rightarrow> u64 list option \<times> nat \<Rightarrow> 'm pbst \<Rightarrow> status \<times> 'm pbst" where
  "emit_exp_side A f offset side =
     when_ok (fst side \<noteq> None \<and> snd side > 0) (emit_exp_histogram_buckets A f offset (the (fst side)) (snd side))"

definition emit_exp_histogram_data_point :: "'m allocator \<Rightarrow> u32 \<Rightarrow> metric option \<Rightarrow> 'm pbst \<Rightarrow> status \<times> 'm pbst" where
  "emit_exp_histogram_data_point A f m =
     field_sub A f
       (then_ok (otlp_emit_attributes A (EHDP_F OTLP_EHDP_FI_ATTRIBUTES) (otlp_metric_get_attrs m))
       (then_ok (emit_times A (EHDP_F OTLP_EHDP_FI_START_TIME) (EHDP_F OTLP_EHDP_FI_TIME) m)
       (then_ok (otlp_pb_field_fixed64 A (EHDP_F OTLP_EHDP_FI_COUNT) (otlp_metric_get_count m))
       (then_ok (emit_double_field A (EHDP_F OTLP_EHDP_FI_SUM) (otlp_metric_get_sum m))
       (then_ok (when_ok (otlp_metric_has_exp_scale m)
          (otlp_pb_field_varint A (EHDP_F OTLP_EHDP_FI_SCALE) (ucast (zigzag32 (otlp_metric_get_exp_scale m)))))
       (then_ok (when_ok (otlp_metric_get_exp_zero_count m > 0)
          (otlp_pb_field_fixed64 A (EHDP_F OTLP_EHDP_FI_ZERO_COUNT) (otlp_metric_get_exp_zero_count m)))
       (then_ok (emit_exp_side A (EHDP_F OTLP_EHDP_FI_POSITIVE) (otlp_metric_get_exp_pos_offset m) (otlp_metric_get_exp_pos_counts m))
         (emit_exp_side A (EHDP_F OTLP_EHDP_FI_NEGATIVE) (otlp_metric_get_exp_neg_offset m) (otlp_metric_get_exp_neg_counts m)))))))))"

text \<open>The table of kinds: the field of the Metric message and the encoder of its data point.\<close>

fun kind_field :: "metric_type \<Rightarrow> otlp_metric_fi" where
  "kind_field METRIC_COUNTER = OTLP_METRIC_FI_SUM"
| "kind_field METRIC_GAUGE = OTLP_METRIC_FI_GAUGE"
| "kind_field METRIC_HISTOGRAM = OTLP_METRIC_FI_HISTOGRAM"
| "kind_field METRIC_EXP_HISTOGRAM = OTLP_METRIC_FI_EXP_HISTOGRAM"

fun kind_data_point :: "'m allocator \<Rightarrow> metric_type \<Rightarrow> u32 \<Rightarrow> metric option \<Rightarrow> 'm pbst \<Rightarrow> status \<times> 'm pbst" where
  "kind_data_point A METRIC_COUNTER = emit_number_data_point A"
| "kind_data_point A METRIC_GAUGE = emit_number_data_point A"
| "kind_data_point A METRIC_HISTOGRAM = emit_histogram_data_point A"
| "kind_data_point A METRIC_EXP_HISTOGRAM = emit_exp_histogram_data_point A"

text \<open>For a counter the code reports any failure of the first field as \<open>NOMEM\<close>.\<close>

definition or_nomem :: "('s \<Rightarrow> status \<times> 's) \<Rightarrow> 's \<Rightarrow> status \<times> 's" where
  "or_nomem op s = (case op s of (st, s') \<Rightarrow> (if st \<noteq> OTLP_OK then OTLP_ERR_NOMEM else OTLP_OK, s'))"

definition emit_kind_extra_fields :: "'m allocator \<Rightarrow> metric option \<Rightarrow> 'm pbst \<Rightarrow> status \<times> 'm pbst" where
  "emit_kind_extra_fields A m =
     (let agg_temp = ucast (otlp_metric_get_agg_temp m) in
      case otlp_metric_get_type m of
        Some METRIC_COUNTER \<Rightarrow>
          then_ok (or_nomem (otlp_pb_field_varint A (SUM_F OTLP_SUM_FI_AGG_TEMP) agg_temp))
            (otlp_pb_field_varint A (SUM_F OTLP_SUM_FI_IS_MONOTONIC) (if otlp_metric_get_is_monotonic m then 1 else 0))
      | Some METRIC_HISTOGRAM \<Rightarrow> otlp_pb_field_varint A HIST_F_AGG_TEMP agg_temp
      | Some METRIC_EXP_HISTOGRAM \<Rightarrow> otlp_pb_field_varint A EH_F_AGG_TEMP agg_temp
      | _ \<Rightarrow> ret_ok)"

definition emit_metric :: "'m allocator \<Rightarrow> u32 \<Rightarrow> metric option \<Rightarrow> 'm pbst \<Rightarrow> status \<times> 'm pbst" where
  "emit_metric A f m =
     field_sub A f
       (then_ok (then_ok (otlp_pb_tag A (METRIC_F OTLP_METRIC_FI_NAME) OTLP_PB_WIRE_LEN) (otlp_pb_string A (otlp_metric_get_name m)))
       (then_ok (when_ok (str_set (otlp_metric_get_description m))
          (otlp_pb_field_string A (METRIC_F OTLP_METRIC_FI_DESCRIPTION) (otlp_metric_get_description m)))
       (then_ok (when_ok (str_set (otlp_metric_get_unit m))
          (otlp_pb_field_string A (METRIC_F OTLP_METRIC_FI_UNIT) (otlp_metric_get_unit m)))
       (case otlp_metric_get_type m of None \<Rightarrow> ret_ok
        | Some kind \<Rightarrow>
            field_sub A (METRIC_F (kind_field kind))
              (then_ok (kind_data_point A kind 1 m) (emit_kind_extra_fields A m))))))"

definition otlp_encode_export_metrics_service_request ::
  "'m allocator \<Rightarrow> cstr option \<Rightarrow> cstr option \<Rightarrow> attribute list \<Rightarrow> cstr option \<Rightarrow> cstr option \<Rightarrow>
     metric option list \<Rightarrow> 'm pbst \<Rightarrow> status \<times> 'm pbst" where
  "otlp_encode_export_metrics_service_request A service_name schema_url attrs scope_name scope_version metrics =
     (if length metrics = 0 \<and> \<not> str_set service_name \<and> \<not> length attrs > 0 then ret_ok
      else sibling_request A EMSR_F_RESOURCE_METRICS (RM_F OTLP_RM_FI_SCOPE_METRICS) (RM_F OTLP_RM_FI_SCHEMA_URL)
        (otlp_emit_resource A (RM_F OTLP_RM_FI_RESOURCE) service_name attrs)
        (then_ok (otlp_emit_instrumentation_scope A (SM_F OTLP_SM_FI_SCOPE) scope_name scope_version)
          (each_ok (emit_metric A (SM_F OTLP_SM_FI_METRICS)) metrics))
        schema_url)"

section \<open>The messages they mean\<close>

definition exemplar_msg :: "exemplar \<Rightarrow> pb_msg" where
  "exemplar_msg e =
     (if ex_has_double e then [(3, PFixed64 (ex_double_val e))] else [(6, PFixed64 (ex_int_val e))]) @
     when_msg (ex_has_trace e) (bytes_msg 5 (ex_trace_id e)) @
     when_msg (ex_has_span e) (bytes_msg 4 (ex_span_id e)) @ when_msg (ex_has_time e) (fixed64_msg 2 (ex_time e))"

definition exemplars_msg :: "u32 \<Rightarrow> metric \<Rightarrow> pb_msg" where
  "exemplars_msg f m = concat (map (\<lambda>e. sub_msg f (exemplar_msg e)) (mt_exemplars m))"

definition times_msg :: "metric \<Rightarrow> pb_msg" where
  "times_msg m = when_msg (mt_has_start m) (fixed64_msg 2 (mt_start_time m)) @ when_msg (mt_has_time m) (fixed64_msg 3 (mt_time m))"

definition packed64_msg :: "u32 \<Rightarrow> u64 list \<Rightarrow> pb_msg" where
  "packed64_msg f xs = bytes_msg f (concat (map fixed64_bytes xs))"

definition packed_varint_msg :: "u32 \<Rightarrow> u64 list \<Rightarrow> pb_msg" where
  "packed_varint_msg f xs = bytes_msg f (concat (map (\<lambda>x. leb128 (unat x)) xs))"

definition number_point_msg :: "metric \<Rightarrow> pb_msg" where
  "number_point_msg m =
     attrs_msg 7 (av_items (mt_attrs m)) @ exemplars_msg 5 m @ times_msg m @ [(4, PFixed64 (mt_value m))]"

definition histogram_point_msg :: "metric \<Rightarrow> pb_msg" where
  "histogram_point_msg m =
     attrs_msg 9 (av_items (mt_attrs m)) @ exemplars_msg 8 m @ times_msg m @
     fixed64_msg 4 (mt_count m) @ [(5, PFixed64 (mt_sum m))] @
     when_msg (mt_bucket_counts m \<noteq> None \<and> mt_n_bounds m > 0)
       (packed64_msg 6 (take (mt_n_bounds m + 1) (the (mt_bucket_counts m)))) @
     when_msg (mt_bounds m \<noteq> None \<and> mt_n_bounds m > 0) (packed64_msg 7 (take (mt_n_bounds m) (the (mt_bounds m)))) @
     when_msg (mt_has_minmax m) ([(11, PFixed64 (mt_min m))] @ [(12, PFixed64 (mt_max m))])"

definition exp_side_msg :: "u32 \<Rightarrow> 32 word \<Rightarrow> u64 list option \<Rightarrow> nat \<Rightarrow> pb_msg" where
  "exp_side_msg f offset counts n =
     when_msg (counts \<noteq> None \<and> n > 0)
       (sub_msg f (varint_msg 1 (ucast (zigzag32 offset)) @ packed_varint_msg 2 (take n (the counts))))"

definition exp_point_msg :: "metric \<Rightarrow> pb_msg" where
  "exp_point_msg m =
     attrs_msg 1 (av_items (mt_attrs m)) @ times_msg m @ fixed64_msg 4 (mt_count m) @ [(5, PFixed64 (mt_sum m))] @
     when_msg (mt_has_exp_scale m) (varint_msg 6 (ucast (zigzag32 (mt_exp_scale m)))) @
     when_msg (mt_exp_zero_count m > 0) (fixed64_msg 7 (mt_exp_zero_count m)) @
     exp_side_msg 8 (mt_exp_pos_offset m) (mt_exp_pos_counts m) (mt_exp_pos_n m) @
     exp_side_msg 9 (mt_exp_neg_offset m) (mt_exp_neg_counts m) (mt_exp_neg_n m)"

fun kind_msg :: "metric_type \<Rightarrow> metric \<Rightarrow> pb_msg" where
  "kind_msg METRIC_COUNTER m = sub_msg 7 (sub_msg 1 (number_point_msg m) @
     varint_msg 2 (ucast (mt_agg_temp m)) @ varint_msg 3 (if mt_is_monotonic m then 1 else 0))"
| "kind_msg METRIC_GAUGE m = sub_msg 5 (sub_msg 1 (number_point_msg m))"
| "kind_msg METRIC_HISTOGRAM m = sub_msg 9 (sub_msg 1 (histogram_point_msg m) @ varint_msg 2 (ucast (mt_agg_temp m)))"
| "kind_msg METRIC_EXP_HISTOGRAM m = sub_msg 10 (sub_msg 1 (exp_point_msg m) @ varint_msg 2 (ucast (mt_agg_temp m)))"

definition metric_msg :: "metric \<Rightarrow> pb_msg" where
  "metric_msg m =
     [(1, PLen (or_nil (mt_name m)))] @ string_msg 2 (mt_description m) @ string_msg 3 (mt_unit m) @ kind_msg (mt_type m) m"

definition scope_metrics_msg :: "cstr option \<Rightarrow> cstr option \<Rightarrow> metric list \<Rightarrow> pb_msg" where
  "scope_metrics_msg name version metrics =
     sub_msg 1 (scope_msg name version) @ concat (map (\<lambda>m. sub_msg 2 (metric_msg m)) metrics)"

definition metrics_request_msg ::
  "cstr option \<Rightarrow> cstr option \<Rightarrow> attribute list \<Rightarrow> cstr option \<Rightarrow> cstr option \<Rightarrow> metric list \<Rightarrow> pb_msg" where
  "metrics_request_msg service_name schema_url attrs scope_name scope_version metrics =
     when_msg (metrics \<noteq> [] \<or> str_set service_name \<or> attrs \<noteq> [])
       (sub_msg 1 (sub_msg 1 (resource_msg service_name attrs) @
          sub_msg 2 (scope_metrics_msg scope_name scope_version metrics) @ string_msg 3 schema_url))"

section \<open>Each encoder emits its message\<close>

lemmas metric_rows = OTLP_EMSR_FIELDS.simps OTLP_RM_FIELDS.simps OTLP_SM_FIELDS.simps OTLP_METRIC_FIELDS.simps
  OTLP_SUM_FIELDS.simps OTLP_HIST_FIELDS.simps OTLP_EH_FIELDS.simps OTLP_NDP_FIELDS.simps OTLP_HDP_FIELDS.simps
  OTLP_EHDP_FIELDS.simps OTLP_EHB_FIELDS.simps OTLP_EX_FIELDS.simps field_spec.select_convs

lemma metric_getters:
  "otlp_metric_get_type (Some m) = Some (mt_type m)" "otlp_metric_get_name (Some m) = mt_name m"
  "otlp_metric_get_unit (Some m) = mt_unit m" "otlp_metric_get_description (Some m) = mt_description m"
  "otlp_metric_get_start_time (Some m) = mt_start_time m" "otlp_metric_get_time (Some m) = mt_time m"
  "otlp_metric_get_value (Some m) = mt_value m" "otlp_metric_get_count (Some m) = mt_count m"
  "otlp_metric_get_sum (Some m) = mt_sum m" "otlp_metric_get_min (Some m) = mt_min m" "otlp_metric_get_max (Some m) = mt_max m"
  "otlp_metric_get_buckets (Some m) = mt_bucket_counts m" "otlp_metric_get_exp_scale (Some m) = mt_exp_scale m"
  "otlp_metric_get_exp_zero_count (Some m) = mt_exp_zero_count m"
  "otlp_metric_get_exp_pos_offset (Some m) = mt_exp_pos_offset m" "otlp_metric_get_exp_neg_offset (Some m) = mt_exp_neg_offset m"
  "otlp_metric_get_agg_temp (Some m) = mt_agg_temp m" "otlp_metric_get_is_monotonic (Some m) = mt_is_monotonic m"
  "otlp_metric_has_start (Some m) = mt_has_start m" "otlp_metric_has_time (Some m) = mt_has_time m"
  "otlp_metric_has_minmax (Some m) = mt_has_minmax m" "otlp_metric_has_exp_scale (Some m) = mt_has_exp_scale m"
  "otlp_metric_get_bounds (Some m) = (mt_bounds m, mt_n_bounds m)"
  "otlp_metric_get_exp_pos_counts (Some m) = (mt_exp_pos_counts m, mt_exp_pos_n m)"
  "otlp_metric_get_exp_neg_counts (Some m) = (mt_exp_neg_counts m, mt_exp_neg_n m)"
  "otlp_metric_get_attrs (Some m) = av_items (mt_attrs m)"
  by (simp_all add: otlp_metric_get_type_def otlp_metric_get_name_def otlp_metric_get_unit_def otlp_metric_get_description_def
      otlp_metric_get_start_time_def otlp_metric_get_time_def otlp_metric_get_value_def otlp_metric_get_count_def
      otlp_metric_get_sum_def otlp_metric_get_min_def otlp_metric_get_max_def otlp_metric_get_buckets_def
      otlp_metric_get_exp_scale_def otlp_metric_get_exp_zero_count_def otlp_metric_get_exp_pos_offset_def
      otlp_metric_get_exp_neg_offset_def otlp_metric_get_agg_temp_def otlp_metric_get_is_monotonic_def
      otlp_metric_has_start_def otlp_metric_has_time_def otlp_metric_has_minmax_def otlp_metric_has_exp_scale_def
      otlp_metric_get_bounds_def otlp_metric_get_exp_pos_counts_def otlp_metric_get_exp_neg_counts_def otlp_metric_get_attrs_def)

lemma msg_double: "f \<noteq> 0 \<Longrightarrow> msg_emits A (emit_double_field A f x) [(f, PFixed64 x)]"
  unfolding emit_double_field_def by (rule msg_field [OF val_prims(2)]) simp_all

lemma each_prims: "(\<And>x. pb_emits A (op x) (g x)) \<Longrightarrow> pb_emits A (each_ok op xs) (concat (map g xs))"
  by (induction xs) (auto intro: primitive_emits)

lemma msg_packed:
  assumes "\<And>x. pb_emits A (op x) (g x)" "f \<noteq> 0"
  shows "msg_emits A (with_sub A (each_ok op xs) (emit_packed_field A f)) (bytes_msg f (concat (map g xs)))"
  unfolding msg_emits_def
proof
  let ?d = "concat (map g xs)"
  have le: "length ?d \<le> length (ser_msg (bytes_msg f ?d))"
    using length_len_delim [of ?d] by (simp add: bytes_msg_def ser_msg_Cons)
  assume fit: "length (ser_msg (bytes_msg f ?d)) \<le> SIZE_MAX"
  have "pb_emits A (emit_packed_field A f ?d) (ser_msg (bytes_msg f ?d))"
  proof (cases "?d = []")
    case True
    then show ?thesis using msg_ret [of A] by (simp add: emit_packed_field_def bytes_msg_def msg_emits_def)
  next
    case False
    then have "emit_packed_field A f ?d = otlp_pb_field_bytes A f (Some ?d) (length ?d)"
      unfolding emit_packed_field_def by (simp only: length_0_conv if_False)
    then show ?thesis using msg_bytes [OF assms(2) refl, of A ?d] fit by (simp add: msg_emits_def)
  qed
  then show "pb_emits A (with_sub A (each_ok op xs) (emit_packed_field A f)) (ser_msg (bytes_msg f ?d))"
    by (intro with_sub_emits [where d = ?d] each_prims assms(1) le)
qed

lemma msg_packed64: "f \<noteq> 0 \<Longrightarrow>
    msg_emits A (with_sub A (each_ok (otlp_pb_fixed64 A) xs) (emit_packed_field A f)) (packed64_msg f xs)"
  unfolding packed64_msg_def by (rule msg_packed [OF fixed64_emits])

lemma msg_packed_varint: "f \<noteq> 0 \<Longrightarrow>
    msg_emits A (with_sub A (each_ok (otlp_pb_varint A) xs) (emit_packed_field A f)) (packed_varint_msg f xs)"
  unfolding packed_varint_msg_def by (rule msg_packed [OF varint_emits])

lemma exemplar_emits:
  assumes "f \<noteq> 0" "exemplar_ok e"
  shows "msg_emits A (emit_exemplar A f e) (sub_msg f (exemplar_msg e))"
proof -
  have v: "msg_emits A (if ex_has_double e then emit_double_field A 3 (ex_double_val e) else emit_double_field A 6 (ex_int_val e))
      (if ex_has_double e then [(3, PFixed64 (ex_double_val e))] else [(6, PFixed64 (ex_int_val e))])"
    by (simp add: msg_double)
  show ?thesis unfolding emit_exemplar_def exemplar_msg_def metric_rows
    by (intro msg_sub msg_then v msg_when msg_bytes msg_fixed64 assms(1)) (use assms(2) in \<open>simp_all add: exemplar_ok_def\<close>)
qed

lemma exemplars_emit:
  assumes "f \<noteq> 0" "\<forall>e \<in> set (mt_exemplars m). exemplar_ok e"
  shows "msg_emits A (emit_exemplars A f (Some m)) (exemplars_msg f m)"
proof -
  have "msg_emits A (each_ok (\<lambda>i. emit_exemplar A f (the (otlp_metric_get_exemplar (Some m) i))) [0..<length (mt_exemplars m)])
      (concat (map (\<lambda>i. sub_msg f (exemplar_msg (mt_exemplars m ! i))) [0..<length (mt_exemplars m)]))"
    using assms by (intro msg_each) (auto simp: otlp_metric_get_exemplar_def intro!: exemplar_emits)
  moreover have "map (\<lambda>i. sub_msg f (exemplar_msg (mt_exemplars m ! i))) [0..<length (mt_exemplars m)] =
      map (\<lambda>e. sub_msg f (exemplar_msg e)) (mt_exemplars m)"
    by (rule nth_equalityI) simp_all
  ultimately show ?thesis by (simp add: emit_exemplars_def exemplars_msg_def otlp_metric_get_n_exemplars_def)
qed

lemma times_emit: "msg_emits A (emit_times A 2 3 (Some m)) (times_msg m)"
  unfolding emit_times_def times_msg_def metric_getters by (intro msg_then msg_when msg_fixed64) simp_all

lemma number_point_emits:
  assumes "metric_ok m"
  shows "msg_emits A (emit_number_data_point A 1 (Some m)) (sub_msg 1 (number_point_msg m))"
  unfolding emit_number_data_point_def number_point_msg_def metric_getters metric_rows
  by (intro msg_sub msg_then attributes_emits exemplars_emit times_emit msg_double)
    (use assms in \<open>simp_all add: metric_ok_def\<close>)

lemma histogram_point_emits:
  assumes "metric_ok m"
  shows "msg_emits A (emit_histogram_data_point A 1 (Some m)) (sub_msg 1 (histogram_point_msg m))"
  unfolding emit_histogram_data_point_def histogram_point_msg_def metric_getters metric_rows Let_def prod.case
  by (intro msg_sub msg_then msg_when attributes_emits exemplars_emit times_emit msg_double msg_fixed64 msg_packed64)
    (use assms in \<open>simp_all add: metric_ok_def\<close>)

lemma exp_side_emits:
  assumes "f \<noteq> 0"
  shows "msg_emits A (emit_exp_side A f off (counts, n)) (exp_side_msg f off counts n)"
proof (cases "counts \<noteq> None \<and> n > 0")
  case True
  have "msg_emits A (emit_exp_histogram_buckets A f off (the counts) n)
      (sub_msg f (varint_msg 1 (ucast (zigzag32 off)) @ packed_varint_msg 2 (take n (the counts))))"
    using True unfolding emit_exp_histogram_buckets_def metric_rows
    by simp (intro msg_sub msg_then msg_varint msg_packed_varint assms; simp)
  with True show ?thesis by (simp add: emit_exp_side_def exp_side_msg_def when_ok_def when_msg_def)
qed (auto simp: emit_exp_side_def exp_side_msg_def when_ok_def when_msg_def msg_ret)

lemma exp_point_emits: "msg_emits A (emit_exp_histogram_data_point A 1 (Some m)) (sub_msg 1 (exp_point_msg m))"
  unfolding emit_exp_histogram_data_point_def exp_point_msg_def metric_getters metric_rows
  by (intro msg_sub msg_then msg_when attributes_emits times_emit msg_double msg_fixed64 msg_varint exp_side_emits) simp_all

lemma or_nomem_emits: "msg_emits A op m \<Longrightarrow> msg_emits A (or_nomem op) m"
proof -
  have "pb_emits A (or_nomem op) xs" if e: "pb_emits A op xs" for xs
  proof (rule emitsI)
    fix s st s' assume inv: "pb_inv s" and eq: "or_nomem op s = (st, s')"
    obtain st0 where run: "op s = (st0, s')" and st: "st = OTLP_OK \<longleftrightarrow> st0 = OTLP_OK"
      using eq by (cases "op s") (auto simp: or_nomem_def split: if_splits)
    show "pb_inv s'" and "\<exists>ys. pb_content s' = pb_content s @ ys \<and> prefix ys xs \<and> (st = OTLP_OK \<longrightarrow> ys = xs)"
      and "pb_fits A (length (pb_content s) + length xs) \<Longrightarrow> st = OTLP_OK"
      using e inv run unfolding emits_def st by blast+
  qed
  then show "msg_emits A op m \<Longrightarrow> msg_emits A (or_nomem op) m" by (auto simp: msg_emits_def)
qed

lemma kind_emits:
  assumes "metric_ok m"
  shows "msg_emits A (field_sub A (METRIC_F (kind_field (mt_type m)))
      (then_ok (kind_data_point A (mt_type m) 1 (Some m)) (emit_kind_extra_fields A (Some m)))) (kind_msg (mt_type m) m)"
proof (cases "mt_type m")
  case METRIC_COUNTER
  have "msg_emits A (field_sub A 7 (then_ok (emit_number_data_point A 1 (Some m))
      (then_ok (or_nomem (otlp_pb_field_varint A 2 a)) (otlp_pb_field_varint A 3 b))))
    (sub_msg 7 (sub_msg 1 (number_point_msg m) @ varint_msg 2 a @ varint_msg 3 b))" for a b
    by (intro msg_sub msg_then number_point_emits or_nomem_emits msg_varint assms) simp_all
  with METRIC_COUNTER show ?thesis by (simp add: emit_kind_extra_fields_def metric_getters)
next
  case METRIC_GAUGE
  have "msg_emits A (field_sub A 5 (then_ok (emit_number_data_point A 1 (Some m)) ret_ok)) (sub_msg 5 (sub_msg 1 (number_point_msg m) @ []))"
    by (intro msg_sub msg_then number_point_emits assms msg_ret) simp
  with METRIC_GAUGE show ?thesis by (simp add: emit_kind_extra_fields_def metric_getters)
next
  case METRIC_HISTOGRAM
  have "msg_emits A (field_sub A 9 (then_ok (emit_histogram_data_point A 1 (Some m)) (otlp_pb_field_varint A 2 a)))
    (sub_msg 9 (sub_msg 1 (histogram_point_msg m) @ varint_msg 2 a))" for a
    by (intro msg_sub msg_then histogram_point_emits msg_varint assms) simp_all
  with METRIC_HISTOGRAM show ?thesis by (simp add: emit_kind_extra_fields_def metric_getters)
next
  case METRIC_EXP_HISTOGRAM
  have "msg_emits A (field_sub A 10 (then_ok (emit_exp_histogram_data_point A 1 (Some m)) (otlp_pb_field_varint A 2 a)))
    (sub_msg 10 (sub_msg 1 (exp_point_msg m) @ varint_msg 2 a))" for a
    by (intro msg_sub msg_then exp_point_emits msg_varint) simp_all
  with METRIC_EXP_HISTOGRAM show ?thesis by (simp add: emit_kind_extra_fields_def metric_getters)
qed

lemma metric_emits:
  assumes "f \<noteq> 0" "metric_ok m"
  shows "msg_emits A (emit_metric A f (Some m)) (sub_msg f (metric_msg m))"
proof -
  obtain nm where nm: "mt_name m = Some nm" using assms(2) by (auto simp: metric_ok_def)
  have k: "msg_emits A (case Some (mt_type m) of None \<Rightarrow> ret_ok | Some kind \<Rightarrow>
      field_sub A (METRIC_F (kind_field kind)) (then_ok (kind_data_point A kind 1 (Some m)) (emit_kind_extra_fields A (Some m))))
      (kind_msg (mt_type m) m)" using kind_emits [OF assms(2)] by simp
  show ?thesis
    unfolding emit_metric_def metric_msg_def metric_getters OTLP_METRIC_FIELDS.simps field_spec.select_convs
    by (intro msg_sub msg_then msg_string k assms(1) msg_field)
      (simp_all add: nm or_nil_def val_prims)
qed

lemma metrics_request_emits:
  assumes "\<forall>m \<in> set ms. metric_ok m"
  shows "msg_emits A (otlp_encode_export_metrics_service_request A svc url attrs name version (map Some ms))
    (metrics_request_msg svc url attrs name version ms)"
proof -
  have each: "msg_emits A (each_ok (emit_metric A 2) (map Some ms)) (concat (map (\<lambda>m. sub_msg 2 (metric_msg m)) ms))"
    using assms
  proof (induction ms)
    case (Cons m ms)
    then show ?case by (auto intro!: msg_then metric_emits)
  qed (simp add: msg_ret)
  have "msg_emits A (sibling_request A 1 2 3 (otlp_emit_resource A 1 svc attrs)
      (then_ok (otlp_emit_instrumentation_scope A 1 name version) (each_ok (emit_metric A 2) (map Some ms))) url)
    (sub_msg 1 (sub_msg 1 (resource_msg svc attrs) @ sub_msg 2 (scope_metrics_msg name version ms) @ string_msg 3 url))"
    unfolding scope_metrics_msg_def by (intro sibling_emits resource_emits msg_then scope_emits each) simp_all
  then show ?thesis
    by (auto simp: otlp_encode_export_metrics_service_request_def metrics_request_msg_def when_msg_def msg_ret)
qed

section \<open>Zigzag\<close>

definition unzigzag32 :: "u32 \<Rightarrow> 32 word" where
  "unzigzag32 n = drop_bit 1 n XOR (if odd n then - 1 else 0)"

lemma widen_narrow: "ucast (ucast w :: u64) = (w :: u32)"
  by (rule bit_word_eqI) (simp add: bit_simps)

lemma bit_zigzag32: "i < 32 \<Longrightarrow> bit (zigzag32 v) i \<longleftrightarrow> (0 < i \<and> bit v (i - 1)) \<noteq> bit v 31"
  unfolding zigzag32_def
  by (simp only: bit_xor_iff bit_push_bit_iff bit_signed_drop_bit_iff) (cases i; auto simp: bit_simps)

lemma odd_zigzag32: "odd (zigzag32 v) \<longleftrightarrow> bit v 31"
  using bit_zigzag32 [of 0 v] by (simp add: bit_0)

lemma unzigzag_zigzag: "unzigzag32 (zigzag32 v) = v"
proof (rule bit_word_eqI)
  fix i assume i: "i < LENGTH(32)"
  have "bit (unzigzag32 (zigzag32 v)) i \<longleftrightarrow> (i + 1 < 32 \<and> bit (zigzag32 v) (i + 1)) \<noteq> bit v 31"
    using i bit_imp_le_length [of "zigzag32 v" "Suc i"]
    by (auto simp: unzigzag32_def bit_simps odd_zigzag32)
  also have "\<dots> \<longleftrightarrow> bit v i"
    using i bit_zigzag32 [of "i + 1" v] by (cases "i = 31") auto
  finally show "bit (unzigzag32 (zigzag32 v)) i \<longleftrightarrow> bit v i" .
qed

section \<open>The tables are followed\<close>

lemma nz_metric_msgs [simp]:
  "nz (exemplar_msg e)" "f \<noteq> 0 \<Longrightarrow> nz (exemplars_msg f m)" "nz (times_msg m)" "f \<noteq> 0 \<Longrightarrow> nz (packed64_msg f xs)"
  "f \<noteq> 0 \<Longrightarrow> nz (exp_side_msg f off cs n)"
  by (simp_all add: exemplar_msg_def exemplars_msg_def times_msg_def packed64_msg_def exp_side_msg_def)

lemma nz_metric_points [simp]: "nz (number_point_msg m)" "nz (histogram_point_msg m)" "nz (exp_point_msg m)"
  by (simp_all add: number_point_msg_def histogram_point_msg_def exp_point_msg_def)

lemma nz_metrics_request: "nz (metrics_request_msg svc url attrs name version ms)"
  by (simp add: metrics_request_msg_def)

text \<open>The message inside the kind's field: its data point, which has the table of the kind.\<close>

fun point_conforms :: "metric_type \<Rightarrow> metric \<Rightarrow> bool" where
  "point_conforms METRIC_COUNTER m = conforms OTLP_NDP_FIELDS (number_point_msg m)"
| "point_conforms METRIC_GAUGE m = conforms OTLP_NDP_FIELDS (number_point_msg m)"
| "point_conforms METRIC_HISTOGRAM m = conforms OTLP_HDP_FIELDS (histogram_point_msg m)"
| "point_conforms METRIC_EXP_HISTOGRAM m = conforms OTLP_EHDP_FIELDS (exp_point_msg m)"

lemma point_counts [simp]:
  "field_count f (exemplars_msg g m) = (if f = g then length (filter (\<lambda>e. exemplar_msg e \<noteq> []) (mt_exemplars m)) else 0)"
  "field_count f (packed64_msg g xs) = (if g = f \<and> concat (map fixed64_bytes xs) \<noteq> [] then 1 else 0)"
  "field_count f (exp_side_msg g off cs n) \<le> Suc 0" "f \<noteq> g \<Longrightarrow> field_count f (exp_side_msg g off cs n) = 0"
  "field_count f (times_msg m) = (if f = 2 \<and> mt_has_start m \<and> mt_start_time m \<noteq> 0 then 1 else 0) +
     (if f = 3 \<and> mt_has_time m \<and> mt_time m \<noteq> 0 then 1 else 0)"
proof -
  show "field_count f (exemplars_msg g m) = (if f = g then length (filter (\<lambda>e. exemplar_msg e \<noteq> []) (mt_exemplars m)) else 0)"
  proof -
    have "field_count f (concat (map (\<lambda>e. sub_msg g (exemplar_msg e)) es)) =
        (if f = g then length (filter (\<lambda>e. exemplar_msg e \<noteq> []) es) else 0)" for es
      by (induction es) auto
    then show ?thesis by (simp only: exemplars_msg_def)
  qed
qed (auto simp: packed64_msg_def exp_side_msg_def times_msg_def)

lemma typed_metric_parts [simp]:
  "has_row T f OTLP_PB_WIRE_LEN \<Longrightarrow> typed T (exemplars_msg f m)" "has_row T f OTLP_PB_WIRE_LEN \<Longrightarrow> typed T (packed64_msg f xs)"
  "has_row T f OTLP_PB_WIRE_LEN \<Longrightarrow> typed T (exp_side_msg f off cs n)"
  "has_row T 2 OTLP_PB_WIRE_FIXED64 \<Longrightarrow> has_row T 3 OTLP_PB_WIRE_FIXED64 \<Longrightarrow> typed T (times_msg m)"
  by (simp_all add: exemplars_msg_def packed64_msg_def exp_side_msg_def times_msg_def)

lemmas ndp_rows = has_row_of [of OTLP_NDP_FIELDS OTLP_NDP_FI_ATTRIBUTES, simplified]
  has_row_of [of OTLP_NDP_FIELDS OTLP_NDP_FI_EXEMPLARS, simplified] has_row_of [of OTLP_NDP_FIELDS OTLP_NDP_FI_START_TIME, simplified]
  has_row_of [of OTLP_NDP_FIELDS OTLP_NDP_FI_TIME, simplified] has_row_of [of OTLP_NDP_FIELDS OTLP_NDP_FI_AS_DOUBLE, simplified]

lemmas hdp_rows = has_row_of [of OTLP_HDP_FIELDS OTLP_HDP_FI_ATTRIBUTES, simplified]
  has_row_of [of OTLP_HDP_FIELDS OTLP_HDP_FI_EXEMPLARS, simplified] has_row_of [of OTLP_HDP_FIELDS OTLP_HDP_FI_START_TIME, simplified]
  has_row_of [of OTLP_HDP_FIELDS OTLP_HDP_FI_TIME, simplified] has_row_of [of OTLP_HDP_FIELDS OTLP_HDP_FI_COUNT, simplified]
  has_row_of [of OTLP_HDP_FIELDS OTLP_HDP_FI_SUM, simplified] has_row_of [of OTLP_HDP_FIELDS OTLP_HDP_FI_BUCKET_COUNTS, simplified]
  has_row_of [of OTLP_HDP_FIELDS OTLP_HDP_FI_EXPLICIT_BOUNDS, simplified] has_row_of [of OTLP_HDP_FIELDS OTLP_HDP_FI_MIN, simplified]
  has_row_of [of OTLP_HDP_FIELDS OTLP_HDP_FI_MAX, simplified]

lemmas ehdp_rows = has_row_of [of OTLP_EHDP_FIELDS OTLP_EHDP_FI_ATTRIBUTES, simplified]
  has_row_of [of OTLP_EHDP_FIELDS OTLP_EHDP_FI_START_TIME, simplified] has_row_of [of OTLP_EHDP_FIELDS OTLP_EHDP_FI_TIME, simplified]
  has_row_of [of OTLP_EHDP_FIELDS OTLP_EHDP_FI_COUNT, simplified] has_row_of [of OTLP_EHDP_FIELDS OTLP_EHDP_FI_SUM, simplified]
  has_row_of [of OTLP_EHDP_FIELDS OTLP_EHDP_FI_SCALE, simplified] has_row_of [of OTLP_EHDP_FIELDS OTLP_EHDP_FI_ZERO_COUNT, simplified]
  has_row_of [of OTLP_EHDP_FIELDS OTLP_EHDP_FI_POSITIVE, simplified] has_row_of [of OTLP_EHDP_FIELDS OTLP_EHDP_FI_NEGATIVE, simplified]

lemma number_point_conforms: "conforms OTLP_NDP_FIELDS (number_point_msg m)"
proof -
  have "\<not> fs_repeated (OTLP_NDP_FIELDS i) \<Longrightarrow> field_count (fs_number (OTLP_NDP_FIELDS i)) (number_point_msg m) \<le> 1" for i
    by (cases i) (simp_all add: number_point_msg_def)
  then show ?thesis by (simp add: conforms_def number_point_msg_def ndp_rows)
qed

lemma histogram_point_conforms: "conforms OTLP_HDP_FIELDS (histogram_point_msg m)"
proof -
  have "\<not> fs_repeated (OTLP_HDP_FIELDS i) \<Longrightarrow> field_count (fs_number (OTLP_HDP_FIELDS i)) (histogram_point_msg m) \<le> 1" for i
    by (cases i) (simp_all add: histogram_point_msg_def)
  then show ?thesis by (simp add: conforms_def histogram_point_msg_def hdp_rows)
qed

lemma exp_point_conforms: "conforms OTLP_EHDP_FIELDS (exp_point_msg m)"
proof -
  have "\<not> fs_repeated (OTLP_EHDP_FIELDS i) \<Longrightarrow> field_count (fs_number (OTLP_EHDP_FIELDS i)) (exp_point_msg m) \<le> 1" for i
    by (cases i) (simp_all add: exp_point_msg_def)
  then show ?thesis by (simp add: conforms_def exp_point_msg_def ehdp_rows)
qed

lemma point_conforms: "point_conforms ty m"
  by (cases ty) (simp_all add: number_point_conforms histogram_point_conforms exp_point_conforms)

section \<open>Properties\<close>


definition demo_counter :: metric where
  "demo_counter = (fresh_metric METRIC_COUNTER (Some (ascii ''n'')) None None)\<lparr>mt_value := 0x3ff0000000000000\<rparr>"

lemma demo_counter_ok: "metric_ok demo_counter"
  using fresh_ok [of "Some (ascii ''n'')" None None METRIC_COUNTER]
  by (simp add: demo_counter_def metric_ok_def ascii_def otlp_str_is_utf8_def utf8_scan.simps utf8_lead_def)

lemma demo_metrics_length: "length (ser_msg (metrics_request_msg None None [] None None [demo_counter])) = 26"
  by (simp add: demo_counter_def fresh_metric_def metric_zero_def metrics_request_msg_def scope_metrics_msg_def resource_msg_def
      scope_msg_def metric_msg_def number_point_msg_def times_msg_def exemplars_msg_def attrs_msg_def when_msg_def
      string_msg_def str_set_def or_nil_def or_empty_def cstr_at_def sub_msg_def ser_msg_def varint_msg_def ascii_def
      tag_bytes_def len_delim_def leb128.simps wire_defs vec_empty_def OTLP_AGG_TEMP_CUMULATIVE_def fixed64_bytes_def)


text \<open>
  The count of a data point is left out when it is 0, although the schema table marks the field
  as always emitted: a histogram without values is sent with no count.
\<close>

theorem histogram_count_omitted:
  "fs_presence (OTLP_HDP_FIELDS OTLP_HDP_FI_COUNT) = OTLP_PRESENCE_ALWAYS_EMIT \<and>
   fs_presence (OTLP_EHDP_FIELDS OTLP_EHDP_FI_COUNT) = OTLP_PRESENCE_ALWAYS_EMIT \<and>
   field_count (fs_number (OTLP_HDP_FIELDS OTLP_HDP_FI_COUNT)) (histogram_point_msg m) = (if mt_count m = 0 then 0 else 1) \<and>
   field_count (fs_number (OTLP_EHDP_FIELDS OTLP_EHDP_FI_COUNT)) (exp_point_msg m) = (if mt_count m = 0 then 0 else 1)"
  by (simp add: histogram_point_msg_def exp_point_msg_def)

text \<open>
  The scale and the offsets of an exponential histogram survive their zigzag encoding: the
  protobuf decoding of a sint32 gives back every 32-bit value.
\<close>

theorem zigzag32_roundtrip: "unzigzag32 (ucast (ucast (zigzag32 v) :: u64)) = v"
  by (simp add: unzigzag_zigzag widen_narrow)

end
