(* ===== verification/Http_Client_Props.thy ===== *)
theory Http_Client_Props
  imports Http_Client
begin

text \<open>
  What the HTTP client guarantees: the URLs it accepts are those of a grammar, a request is read
  back by an independent line splitter as the lines and body it was built from, and the state
  machine keeps its invariant whatever the sockets, the clock and the allocator do.
\<close>

section \<open>URLs\<close>

definition url_ok :: "http_url \<Rightarrow> bool" where
  "url_ok u \<longleftrightarrow>
     url_host u \<noteq> [] \<and> length (url_host u) < OTLP_HTTP_HOST_MAX \<and> 0x3A \<notin> set (url_host u) \<and> 0x2F \<notin> set (url_host u)
     \<and> \<not> has_crlf (url_host u)
     \<and> url_path u \<noteq> [] \<and> hd (url_path u) = 0x2F \<and> length (url_path u) < OTLP_HTTP_PATH_MAX \<and> \<not> has_crlf (url_path u)"

text \<open>The texts of a URL: the port may be left out when it is 80, the path when it is the root.\<close>

definition port_text :: "cstr \<Rightarrow> u16 \<Rightarrow> bool" where
  "port_text t p \<longleftrightarrow>
     t = [] \<and> p = 80 \<or>
     (\<exists>ds. t = 0x3A # ds \<and> ds \<noteq> [] \<and> list_all is_digit ds \<and> decimal_value ds 0 = unat p)"

definition path_text :: "cstr \<Rightarrow> cstr \<Rightarrow> bool" where
  "path_text t p \<longleftrightarrow> t = p \<or> t = [] \<and> p = ascii ''/''"

definition url_text :: "cstr \<Rightarrow> http_url \<Rightarrow> bool" where
  "url_text s u \<longleftrightarrow>
     (\<exists>pt qt. s = ascii ''http://'' @ url_host u @ pt @ qt \<and> port_text pt (url_port u) \<and> path_text qt (url_path u))"

lemma has_crlf_append [simp]: "has_crlf (s @ t) \<longleftrightarrow> has_crlf s \<or> has_crlf t"
  by (auto simp: has_crlf_def)

lemma has_crlf_simps [simp]: "\<not> has_crlf []" "has_crlf (c # s) \<longleftrightarrow> c = 13 \<or> c = 10 \<or> has_crlf s"
  by (auto simp: has_crlf_def)

lemma has_crlf_iff: "has_crlf s \<longleftrightarrow> 13 \<in> set s \<or> 10 \<in> set s"
  by (induction s) auto

lemma decimal_value_mono: "v \<le> decimal_value s v"
proof (induction s arbitrary: v)
  case (Cons c s)
  show ?case using Cons.IH [of "v * 10 + unat (c - 48)"] by simp
qed simp

lemma digit_value_sub: "is_digit c \<Longrightarrow> unat (c - 48) = digit_value c"
  by (simp add: is_digit_def digit_value_def unat_sub)

lemma port_value_iff: "v \<le> 65535 \<Longrightarrow>
    port_value s v = Some n \<longleftrightarrow> list_all is_digit s \<and> decimal_value s v = n \<and> n \<le> 65535"
proof (induction s arbitrary: v)
  case (Cons c s)
  show ?case
  proof (cases "is_digit c")
    case True
    let ?v = "v * 10 + digit_value c"
    show ?thesis
    proof (cases "?v > 65535")
      case big: True
      moreover have "?v \<le> decimal_value s ?v" by (rule decimal_value_mono)
      ultimately show ?thesis using True by (auto simp: digit_value_sub Let_def)
    next
      case False
      with True Cons.IH [of ?v] show ?thesis by (simp add: digit_value_sub Let_def)
    qed
  qed auto
qed auto

lemma parse_uint16_iff:
  "parse_uint16 s = Some p \<longleftrightarrow> s \<noteq> [] \<and> list_all is_digit s \<and> decimal_value s 0 = unat p"
proof -
  have le: "unat p \<le> 65535" using unsigned_less [of p, where 'a = nat] by simp
  have r: "unat (word_of_nat n :: u16) = n" if "n \<le> 65535" for n
    using that unfolding unat_of_nat by (intro mod_less) simp
  show ?thesis
  proof (cases "port_value s 0")
    case None
    with port_value_iff [of 0 s "decimal_value s 0"] le show ?thesis
      by (auto simp: parse_uint16_def)
  next
    case (Some n)
    with port_value_iff [of 0 s n] have "list_all is_digit s" "decimal_value s 0 = n" "n \<le> 65535" by auto
    with Some r [of n] show ?thesis by (auto simp: parse_uint16_def)
  qed
qed

lemma parse_path_iff:
  assumes "t = [] \<or> hd t = 0x2F" "\<not> has_crlf t"
  shows "parse_path t out = (OTLP_OK, u) \<longleftrightarrow>
    (\<exists>p. u = out\<lparr>url_path := p\<rparr> \<and> path_text t p \<and> p \<noteq> [] \<and> hd p = 0x2F \<and> length p < OTLP_HTTP_PATH_MAX \<and> \<not> has_crlf p)"
  using assms by (auto simp: parse_path_def path_text_def ascii_def OTLP_HTTP_PATH_MAX_def)

lemma host_split:
  assumes "c \<notin> set h" "d \<notin> set h" "t = [] \<or> hd t = c \<or> hd t = d"
  shows "takeWhile (\<lambda>x. x \<noteq> c \<and> x \<noteq> d) (h @ t) = h" "dropWhile (\<lambda>x. x \<noteq> c \<and> x \<noteq> d) (h @ t) = t"
proof -
  let ?P = "\<lambda>x. x \<noteq> c \<and> x \<noteq> d"
  have "takeWhile ?P (h @ t) = h @ takeWhile ?P t" "dropWhile ?P (h @ t) = dropWhile ?P t"
    using assms(1,2) by (auto intro!: takeWhile_append2 dropWhile_append2)
  moreover have "takeWhile ?P t = []" "dropWhile ?P t = t" using assms(3) by (cases t; auto)+
  ultimately show "takeWhile ?P (h @ t) = h" "dropWhile ?P (h @ t) = t" by simp_all
qed

lemma digits_no_slash: "list_all is_digit ds \<Longrightarrow> 0x2F \<notin> set ds \<and> \<not> has_crlf ds"
  by (auto simp: list_all_iff is_digit_def has_crlf_iff)

lemma url_textI:
  "s = ascii ''http://'' @ url_host u @ pt @ qt \<Longrightarrow> port_text pt (url_port u) \<Longrightarrow> path_text qt (url_path u) \<Longrightarrow> url_text s u"
  unfolding url_text_def by blast

lemma url_text_parses:
  assumes "url_ok u" "url_text s u"
  shows "otlp_http_parse_url (Some s) out = (OTLP_OK, u)"
proof -
  obtain pt qt where s: "s = ascii ''http://'' @ url_host u @ pt @ qt"
    and pt: "port_text pt (url_port u)" and qt: "path_text qt (url_path u)"
    using assms(2) by (auto simp: url_text_def)
  have q: "qt = [] \<or> hd qt = 0x2F" "\<not> has_crlf qt" using qt assms(1) by (auto simp: path_text_def url_ok_def)
  have h: "url_host u \<noteq> []" "length (url_host u) < OTLP_HTTP_HOST_MAX" "0x3A \<notin> set (url_host u)" "0x2F \<notin> set (url_host u)"
    "\<not> has_crlf (url_host u)" using assms(1) by (auto simp: url_ok_def)
  have p: "pt @ qt = [] \<or> hd (pt @ qt) = 0x3A \<or> hd (pt @ qt) = 0x2F" "\<not> has_crlf pt"
    using pt q digits_no_slash by (auto simp: port_text_def)
  have path: "parse_path qt v = (OTLP_OK, u)" if "url_host v = url_host u" "url_port v = url_port u" for v
    unfolding parse_path_iff [OF q] using that qt assms(1)
    by (intro exI [of _ "url_path u"]) (auto simp: url_ok_def)
  note split = host_split [OF h(3,4) p(1)]
  have hd: "hd (url_host u @ pt @ qt) \<noteq> 0x2F" using h(1,4) by (metis hd_append hd_in_set)
  have pre: "\<not> has_crlf s" "take 7 s = ascii ''http://''" "drop 7 s = url_host u @ pt @ qt"
    using h(5) p(2) q(2) by (simp_all add: s ascii_def)
  note run = otlp_http_parse_url_def option.case pre Let_def split
  show ?thesis
  proof (cases "pt = []")
    case True
    with pt have "url_port u = 80" by (simp add: port_text_def)
    moreover have "\<not> (qt \<noteq> [] \<and> hd qt = 0x3A)" using q by auto
    ultimately show ?thesis using h hd True path split pre(1) unfolding run by auto
  next
    case False
    with pt obtain ds where ds: "pt = 0x3A # ds" "ds \<noteq> []" "list_all is_digit ds" "decimal_value ds 0 = unat (url_port u)"
      by (auto simp: port_text_def)
    have nd: "0x2F \<notin> set ds" using digits_no_slash [OF ds(3)] by simp
    have "takeWhile (\<lambda>c. c \<noteq> 0x2F) (ds @ qt) = ds" "dropWhile (\<lambda>c. c \<noteq> 0x2F) (ds @ qt) = qt"
      using host_split [of "0x2F" ds "0x2F" qt] nd q(1) by simp_all
    moreover have "parse_uint16 ds = Some (url_port u)" using ds by (simp add: parse_uint16_iff)
    ultimately show ?thesis using h hd path split pre(1) unfolding run by (auto simp: ds(1))
  qed
qed

lemma parse_url_texts:
  assumes "otlp_http_parse_url (Some s) out = (OTLP_OK, u)"
  shows "url_ok u \<and> url_text s u"
proof -
  define rest where "rest = drop 7 s"
  define host where "host = takeWhile (\<lambda>c. c \<noteq> 0x3A \<and> c \<noteq> 0x2F) rest"
  define he where "he = dropWhile (\<lambda>c. c \<noteq> 0x3A \<and> c \<noteq> 0x2F) rest"
  note run = assms [unfolded otlp_http_parse_url_def option.case Let_def, folded rest_def, folded host_def he_def]
  have pre: "\<not> has_crlf s" "take 7 s = ascii ''http://''" and host: "host \<noteq> []" "length host < OTLP_HTTP_HOST_MAX"
    using run by (auto split: if_splits)
  have s: "s = ascii ''http://'' @ host @ he"
    using pre(2) append_take_drop_id [of 7 s] by (simp add: rest_def host_def he_def)
  have hs: "0x3A \<notin> set host" "0x2F \<notin> set host" by (auto simp: host_def dest: set_takeWhileD)
  have c: "\<not> has_crlf host" "\<not> has_crlf he" using pre(1) by (simp_all add: s)
  have he: "he = [] \<or> hd he = 0x3A \<or> hd he = 0x2F"
    using hd_dropWhile [of "\<lambda>c. c \<noteq> 0x3A \<and> c \<noteq> 0x2F" rest] by (auto simp: he_def)
  show ?thesis
  proof (cases "he \<noteq> [] \<and> hd he = 0x3A")
    case True
    define ds where "ds = takeWhile (\<lambda>c. c \<noteq> 0x2F) (tl he)"
    define qt where "qt = dropWhile (\<lambda>c. c \<noteq> 0x2F) (tl he)"
    have q1: "qt = [] \<or> hd qt = 0x2F" using hd_dropWhile [of "\<lambda>c. c \<noteq> 0x2F" "tl he"] by (auto simp: qt_def)
    have e: "he = 0x3A # ds @ qt" using True by (cases he) (simp_all add: ds_def qt_def)
    obtain port where port: "parse_uint16 ds = Some port" "parse_path qt (out\<lparr>url_host := host, url_port := port\<rparr>) = (OTLP_OK, u)"
      using run True by (auto simp: ds_def qt_def split: if_splits option.splits)
    have q: "qt = [] \<or> hd qt = 0x2F" "\<not> has_crlf qt"
      using q1 c(2) by (auto simp: e)
    obtain p where "u = out\<lparr>url_host := host, url_port := port, url_path := p\<rparr>" "path_text qt p" "p \<noteq> []" "hd p = 0x2F"
        "length p < OTLP_HTTP_PATH_MAX" "\<not> has_crlf p"
      using port(2) unfolding parse_path_iff [OF q] by auto
    moreover from this port(1) s e have "url_text s u"
      by (intro url_textI [of s u "0x3A # ds" qt]) (auto simp: port_text_def parse_uint16_iff)
    ultimately show ?thesis using host hs c(1) by (auto simp: url_ok_def)
  next
    case False
    then have run2: "parse_path he (out\<lparr>url_host := host, url_port := 80\<rparr>) = (OTLP_OK, u)"
      using run by (auto split: if_splits)
    have q: "he = [] \<or> hd he = 0x2F" using False he by auto
    obtain p where "u = out\<lparr>url_host := host, url_port := 80, url_path := p\<rparr>" "path_text he p" "p \<noteq> []" "hd p = 0x2F"
        "length p < OTLP_HTTP_PATH_MAX" "\<not> has_crlf p"
      using run2 unfolding parse_path_iff [OF q c(2)] by auto
    moreover from this s have "url_text s u" by (intro url_textI [of s u "[]" he]) (auto simp: port_text_def)
    ultimately show ?thesis using host hs c(1) by (auto simp: url_ok_def)
  qed
qed

text \<open>
  C9. The URL parser accepts exactly the texts of the grammar: \<^verbatim>\<open>http://\<close>, a host, an optional
  decimal port that fits 16 bits, an optional path, no line break anywhere, host and path shorter than
  their arrays; and it fills in the host, port (80 if left out) and path (the root if left out) written.
\<close>

theorem parse_url_exact:
  "otlp_http_parse_url (Some s) out = (OTLP_OK, u) \<longleftrightarrow> url_ok u \<and> url_text s u"
  using parse_url_texts url_text_parses by blast

section \<open>Requests\<close>

text \<open>A reader of its own: the lines of a text that ends each line with CRLF.\<close>

fun crlf_lines :: "u8 list \<Rightarrow> u8 list list" where
  "crlf_lines [] = [[]]"
| "crlf_lines [c] = [[c]]"
| "crlf_lines (a # b # s) =
     (if a = 13 \<and> b = 10 then [] # crlf_lines s
      else (case crlf_lines (b # s) of [] \<Rightarrow> [[a]] | l # ls \<Rightarrow> (a # l) # ls))"

lemma crlf_lines_line: "13 \<notin> set l \<Longrightarrow> crlf_lines (l @ CRLF @ s) = l # crlf_lines s"
proof (induction l rule: crlf_lines.induct)
  case (3 a b l)
  then show ?case by (auto simp: CRLF_def)
qed (auto simp: CRLF_def)

lemma crlf_lines_concat: "\<forall>l \<in> set ls. 13 \<notin> set l \<Longrightarrow> crlf_lines (concat (map (\<lambda>l. l @ CRLF) ls)) = ls @ [[]]"
  by (induction ls) (simp_all add: crlf_lines_line)

definition header_text :: "http_header \<Rightarrow> cstr" where
  "header_text h = str_or_empty (fst h) @ ascii '': '' @ str_or_empty (snd h)"

text \<open>The lines a request is meant to have.\<close>

definition request_lines :: "http_url \<Rightarrow> cstr \<Rightarrow> http_header list \<Rightarrow> nat \<Rightarrow> cstr list" where
  "request_lines url ua hs body_len =
     [ascii ''POST '' @ url_path url @ ascii '' HTTP/1.1'', ascii ''Host: '' @ url_host url, ascii ''User-Agent: '' @ ua]
     @ map header_text hs
     @ [ascii ''Content-Type: application/x-protobuf'', ascii ''Content-Length: '' @ decimal body_len,
        ascii ''Connection: keep-alive'']"

lemma head_append_Some: "head_append t h = Some h' \<longleftrightarrow> h' = h @ t \<and> length h + length t < HEAD_CAP"
  by (auto simp: head_append_def)

lemma append_headers_Some:
  "append_headers hs head = Some h \<Longrightarrow> length head < HEAD_CAP \<Longrightarrow>
     h = head @ concat (map (\<lambda>x. header_text x @ CRLF) hs) \<and> length h < HEAD_CAP"
proof (induction hs arbitrary: head)
  case (Cons x hs)
  obtain name val where x: "x = (name, val)" by (cases x)
  obtain h1 where h1: "head_append (header_text x @ CRLF) head = Some h1" "append_headers hs h1 = Some h"
    using Cons.prems(1) by (auto simp: x header_text_def split: option.splits)
  show ?case using Cons.IH [OF h1(2)] h1(1) by (auto simp: head_append_Some)
qed simp

lemma build_head_Some:
  assumes "build_head url ua hs n = Some head"
  shows "head = concat (map (\<lambda>l. l @ CRLF) (request_lines url ua hs n)) @ CRLF \<and> length head < HEAD_CAP"
proof -
  obtain h1 h2 where h1: "head_append (ascii ''POST '' @ url_path url @ ascii '' HTTP/1.1'' @ CRLF @
        ascii ''Host: '' @ url_host url @ CRLF @ ascii ''User-Agent: '' @ ua @ CRLF) [] = Some h1"
    and h2: "append_headers hs h1 = Some h2"
    and h3: "head_append (ascii ''Content-Type: application/x-protobuf'' @ CRLF @ ascii ''Content-Length: '' @ decimal n @ CRLF @
        ascii ''Connection: keep-alive'' @ CRLF @ CRLF) h2 = Some head"
    using assms by (auto simp: build_head_def split: option.splits)
  have "h2 = h1 @ concat (map (\<lambda>x. header_text x @ CRLF) hs)"
    using append_headers_Some [OF h2] h1 by (simp add: head_append_Some)
  with h1 h3 show ?thesis by (auto simp: head_append_Some request_lines_def comp_def)
qed

lemma decimal_clean: "13 \<notin> set (decimal n)" "10 \<notin> set (decimal n)"
  using decimal_digits [of 13 n] decimal_digits [of 10 n] by auto

lemma request_lines_ok:
  assumes "url_ok url" "\<not> has_crlf ua" "list_all header_clean hs"
  shows "\<forall>l \<in> set (request_lines url ua hs n). line_ok l"
proof -
  have "line_ok (header_text x)" if "header_clean x" for x
    using that by (cases x) (auto simp: header_text_def str_or_empty_def line_ok_def ascii_def has_crlf_iff split: option.splits)
  with assms show ?thesis
    by (auto simp: request_lines_def url_ok_def has_crlf_iff line_ok_def ascii_def list_all_iff decimal_clean)
qed

lemma build_request_OK:
  assumes "build_request A r url ua_ptr headers n_headers body body_len w = (OTLP_OK, r', w')"
    and "url_ok url" "length (case body of None \<Rightarrow> [] | Some b \<Rightarrow> b) = body_len" "body_len \<le> SIZE_MAX - HEAD_CAP"
  shows "\<exists>ua hs. ua = (case ua_ptr of None \<Rightarrow> ascii ''otlp-c'' | Some s \<Rightarrow> s)
      \<and> hs = (case headers of None \<Rightarrow> [] | Some hs \<Rightarrow> take n_headers hs)
      \<and> (\<forall>l \<in> set (request_lines url ua hs body_len). line_ok l)
      \<and> r' = r\<lparr>rq_req_buf := concat (map (\<lambda>l. l @ CRLF) (request_lines url ua hs body_len)) @ CRLF @
           (case body of None \<Rightarrow> [] | Some b \<Rightarrow> b), rq_req_sent := 0\<rparr>"
proof -
  define ua where "ua = (case ua_ptr of None \<Rightarrow> ascii ''otlp-c'' | Some s \<Rightarrow> s)"
  define hs where "hs = (case headers of None \<Rightarrow> [] | Some hs \<Rightarrow> take n_headers hs)"
  obtain head where c: "\<not> has_crlf ua" "list_all header_clean hs" "build_head url ua hs body_len = Some head"
    and r: "r' = r\<lparr>rq_req_buf := head @ (if body_len > 0 then take body_len (the body) else []), rq_req_sent := 0\<rparr>"
    using assms(1) by (auto simp: build_request_def Let_def ua_def [symmetric] hs_def [symmetric] split: if_splits option.splits prod.splits bool.splits)
  have "(if body_len > 0 then take body_len (the body) else []) = (case body of None \<Rightarrow> [] | Some b \<Rightarrow> b)"
    using assms(3) by (auto split: option.splits)
  with build_head_Some [OF c(3)] request_lines_ok [OF assms(2) c(1,2)] r show ?thesis
    by (intro exI [of _ ua] exI [of _ hs]) (auto simp: ua_def hs_def)
qed

text \<open>How the reader sees a request: its lines, and the body.\<close>

definition reads_as :: "u8 list \<Rightarrow> cstr list \<Rightarrow> u8 list \<Rightarrow> bool" where
  "reads_as buf ls body \<longleftrightarrow>
     (\<exists>k. find_substring buf (CRLF @ CRLF) = Some k \<and> crlf_lines (take (k + 2) buf) = ls @ [[]] \<and> drop (k + 4) buf = body)"

lemma reads_as_request:
  assumes "\<forall>l \<in> set (request_lines url ua hs n). line_ok l"
  shows "reads_as (concat (map (\<lambda>l. l @ CRLF) (request_lines url ua hs n)) @ CRLF @ body) (request_lines url ua hs n) body"
proof -
  let ?ls = "request_lines url ua hs n"
  let ?buf = "concat (map (\<lambda>l. l @ CRLF) ?ls) @ CRLF @ body"
  obtain l ls where ls: "?ls = l # ls" by (simp add: request_lines_def)
  let ?h = "concat (map (\<lambda>l. l @ CRLF) ?ls)"
  have mh: "message_head l ls = ?h @ CRLF" by (simp add: ls message_head_def)
  have l: "13 \<notin> set l" using assms by (simp add: ls line_ok_def)
  have len: "length (message_head l ls) - 4 = length ?h - 2" "2 \<le> length ?h" by (simp_all add: mh) (simp_all add: CRLF_def ls)
  have "find_substring ?buf (CRLF @ CRLF) = Some (length ?h - 2)"
    using find_head_end [OF l, of ls body] assms len by (simp add: mh ls)
  moreover have "take (length ?h - 2 + 2) ?buf = ?h" "drop (length ?h - 2 + 4) ?buf = body"
    using len(2) by simp_all (simp add: CRLF_def)
  moreover have "crlf_lines ?h = ?ls @ [[]]" using assms by (intro crlf_lines_concat) (auto simp: line_ok_def)
  ultimately show ?thesis unfolding reads_as_def by auto
qed

lemma build_request_reads_as:
  assumes "build_request A r url ua_ptr headers n_headers body body_len w = (OTLP_OK, r', w')"
    and "url_ok url" "length (case body of None \<Rightarrow> [] | Some b \<Rightarrow> b) = body_len" "body_len \<le> SIZE_MAX - HEAD_CAP"
  shows "reads_as (rq_req_buf r')
    (request_lines url (case ua_ptr of None \<Rightarrow> ascii ''otlp-c'' | Some s \<Rightarrow> s)
       (case headers of None \<Rightarrow> [] | Some hs \<Rightarrow> take n_headers hs) body_len)
    (case body of None \<Rightarrow> [] | Some b \<Rightarrow> b)"
  using build_request_OK [OF assms] reads_as_request by auto

text \<open>
  C4. A request cannot be made to hold a line the caller did not write. For a parsed URL, whatever
  user agent and header fields the caller passes, a request that is built at all reads back, with a
  reader that ends the head at the first empty line and splits it at every CRLF, as exactly the request
  line, the host, the user agent, one line per header field and the three fixed fields, followed by the
  body and nothing else; the length announced is the decimal text of the body's length.
\<close>

theorem http_request_exact:
  assumes "otlp_http_parse_url (Some s) out = (OTLP_OK, url)"
    and "build_request A r url (Some ua) (Some hs) (length hs) (Some body) (length body) w = (OTLP_OK, r', w')"
    and "length body \<le> SIZE_MAX - HEAD_CAP"
  shows "reads_as (rq_req_buf r') (request_lines url ua hs (length body)) body
     \<and> decimal_value (decimal (length body)) 0 = length body"
proof -
  have "url_ok url" using parse_url_texts [OF assms(1)] ..
  from build_request_reads_as [OF assms(2) this] assms(3) show ?thesis by (simp add: decimal_value_decimal)
qed

section \<open>The state machine\<close>

definition live :: "http_req_state \<Rightarrow> bool" where
  "live st \<longleftrightarrow> st \<in> {OTLP_HTTP_REQ_CONNECTING, OTLP_HTTP_REQ_SENDING, OTLP_HTTP_REQ_READING}"

text \<open>
  The invariant: a live request has a socket; what the sockets accepted is the part of the request
  counted as sent, a proper part until the response is read; the response fits its buffer, whose
  capacity is bounded; the body of a finished request lies inside the response.
\<close>

definition request_ok :: "'s http_request \<Rightarrow> bool" where
  "request_ok r \<longleftrightarrow>
     (live (rq_state r) \<longrightarrow> rq_sock r \<noteq> None)
     \<and> rq_req_sent r \<le> length (rq_req_buf r) \<and> rq_wire r = take (rq_req_sent r) (rq_req_buf r)
     \<and> (rq_state r \<in> {OTLP_HTTP_REQ_CONNECTING, OTLP_HTTP_REQ_SENDING} \<longrightarrow>
          rq_req_sent r < length (rq_req_buf r) \<and> rq_resp_buf r = [])
     \<and> (rq_state r \<in> {OTLP_HTTP_REQ_READING, OTLP_HTTP_REQ_DONE} \<longrightarrow> rq_req_sent r = length (rq_req_buf r))
     \<and> (rq_state r = OTLP_HTTP_REQ_READING \<longrightarrow> 4096 \<le> rq_resp_cap r)
     \<and> length (rq_resp_buf r) \<le> rq_resp_cap r \<and> rq_resp_cap r \<le> 2 * OTLP_HTTP_RESP_MAX
     \<and> (rq_state r = OTLP_HTTP_REQ_DONE \<longrightarrow>
          (\<exists>off. rq_body_ptr r = Some off \<and> off + rq_body_len r \<le> length (rq_resp_buf r)) \<and> rq_http_status r \<le> 999)"

lemma grow_resp_Some:
  "grow_resp cap need = Some c \<Longrightarrow> 0 < cap \<Longrightarrow> cap \<le> 2 * OTLP_HTTP_RESP_MAX \<Longrightarrow>
     need \<le> c \<and> cap \<le> c \<and> c \<le> 2 * OTLP_HTTP_RESP_MAX"
proof (induction cap need rule: grow_resp.induct)
  case (1 cap need)
  show ?case
  proof (cases "cap < need")
    case True
    with 1(2,3) have "\<not> cap > OTLP_HTTP_RESP_MAX" "grow_resp (cap * 2) need = Some c"
      by (auto simp: grow_resp.simps [of cap need] split: if_splits)
    with 1(1,3) True show ?thesis by auto
  next
    case False
    with 1(2,4) show ?thesis by (auto simp: grow_resp.simps [of cap need])
  qed
qed

lemma try_parse_effect:
  assumes "try_parse_response r at_eof = (rc, r')"
  shows "rc \<in> {- 1, 0, 1} \<and> length (rq_resp_buf r') = length (rq_resp_buf r)
    \<and> rq_state r' = rq_state r \<and> rq_sock r' = rq_sock r \<and> rq_req_sent r' = rq_req_sent r \<and> rq_req_buf r' = rq_req_buf r
    \<and> rq_wire r' = rq_wire r \<and> rq_resp_cap r' = rq_resp_cap r \<and> rq_last_io_ms r' = rq_last_io_ms r
    \<and> (rc = 1 \<longrightarrow> (\<exists>resp. otlp_http_resp_parse (rq_resp_buf r) at_eof = (1, Some resp, rq_resp_buf r')
         \<and> rq_body_ptr r' = Some (hr_body_off resp) \<and> rq_body_len r' = hr_body_len resp \<and> rq_http_status r' = hr_status resp
         \<and> hr_body_off resp + hr_body_len resp \<le> length (rq_resp_buf r) \<and> hr_status resp \<le> 999))"
proof -
  obtain rc' out buf where p: "otlp_http_resp_parse (rq_resp_buf r) at_eof = (rc', out, buf)" by (rule prod_cases3)
  show ?thesis
    using assms http_parse_stays_in_bounds [of "rq_resp_buf r" at_eof] p
    by (cases out) (auto simp: try_parse_response_def Let_def)
qed

lemma blocked_effect:
  assumes "blocked N r since t w = (st, r', w')"
  shows "st = OTLP_ERR_WOULDBLOCK \<and> r' = r \<or> st = OTLP_ERR_TIMEOUT \<and> r' = r\<lparr>rq_state := OTLP_HTTP_REQ_FAILED\<rparr>"
  using assms by (auto simp: blocked_def split: if_splits prod.splits)

lemma store_read_effect:
  assumes ok: "request_ok r" and st: "rq_state r = OTLP_HTTP_REQ_READING" and run: "store_read N A r bytes w = (st, r', w')"
  shows "st \<noteq> OTLP_ERR_WOULDBLOCK \<and> request_ok r' \<and> rq_state r' = OTLP_HTTP_REQ_READING \<and> rq_wire r' = rq_wire r
    \<and> rq_req_buf r' = rq_req_buf r \<and> rq_sock r' = rq_sock r
    \<and> (st = OTLP_OK \<longrightarrow> rq_resp_buf r' = rq_resp_buf r @ bytes)"
proof -
  have cap: "0 < rq_resp_cap r" "rq_resp_cap r \<le> 2 * OTLP_HTTP_RESP_MAX" using ok st by (auto simp: request_ok_def)
  show ?thesis
    using ok st run grow_resp_Some [OF _ cap, of "length (rq_resp_buf r) + length bytes"]
    by (auto simp: store_read_def Let_def request_ok_def live_def split: if_splits option.splits prod.splits bool.splits)
qed

text \<open>The response handed out is one that the parser accepted.\<close>

definition response_parsed :: "'s http_request \<Rightarrow> bool" where
  "response_parsed r \<longleftrightarrow>
     (\<exists>buf at_eof resp. otlp_http_resp_parse buf at_eof = (1, Some resp, rq_resp_buf r)
        \<and> otlp_http_request_http_status (Some r) = hr_status resp
        \<and> otlp_http_request_body (Some r) = Some (take (hr_body_len resp) (drop (hr_body_off resp) (rq_resp_buf r))))"

lemma try_parse_parsed:
  assumes "try_parse_response r at_eof = (1, r')"
  shows "response_parsed (r'\<lparr>rq_state := s\<rparr>)"
proof -
  obtain resp where "otlp_http_resp_parse (rq_resp_buf r) at_eof = (1, Some resp, rq_resp_buf r')"
    "rq_body_ptr r' = Some (hr_body_off resp)" "rq_body_len r' = hr_body_len resp" "rq_http_status r' = hr_status resp"
    using try_parse_effect [OF assms] by blast
  then show ?thesis unfolding response_parsed_def
    by (intro exI [of _ "rq_resp_buf r"] exI [of _ at_eof] exI [of _ resp])
      (simp add: otlp_http_request_body_def otlp_http_request_http_status_def)
qed

text \<open>What a step may do, as a relation between the request before and after.\<close>

definition step_outcome :: "status \<Rightarrow> 's http_request \<Rightarrow> 's http_request \<Rightarrow> bool" where
  "step_outcome st r r' \<longleftrightarrow>
     (if st = OTLP_OK then
        rq_state r' \<noteq> OTLP_HTTP_REQ_FAILED
        \<and> (rq_state r = OTLP_HTTP_REQ_CONNECTING \<longrightarrow> rq_state r' = OTLP_HTTP_REQ_SENDING)
        \<and> (rq_state r = OTLP_HTTP_REQ_SENDING \<longrightarrow> rq_state r' \<in> {OTLP_HTTP_REQ_SENDING, OTLP_HTTP_REQ_READING})
        \<and> (rq_state r = OTLP_HTTP_REQ_READING \<longrightarrow> rq_state r' \<in> {OTLP_HTTP_REQ_READING, OTLP_HTTP_REQ_DONE})
      else if st = OTLP_ERR_WOULDBLOCK then rq_state r' = rq_state r
      else rq_state r' = OTLP_HTTP_REQ_FAILED)
     \<and> prefix (rq_wire r) (rq_wire r') \<and> rq_req_buf r' = rq_req_buf r
     \<and> (rq_state r' = OTLP_HTTP_REQ_DONE \<longrightarrow> response_parsed r')"

context socket_layer
begin

lemma connecting_step:
  assumes ok: "request_ok r" and st: "rq_state r = OTLP_HTTP_REQ_CONNECTING" and run: "http_step N A r w = Some (st, r', w')"
  shows "request_ok r' \<and> step_outcome st r r'"
proof -
  obtain sock where sock: "rq_sock r = Some sock" using ok st by (auto simp: request_ok_def live_def)
  obtain fst sock' w1 where f: "nt_finish N sock w = (fst, sock', w1)" by (rule prod_cases3)
  obtain st0 r0 w0 where b: "blocked N (r\<lparr>rq_sock := Some sock'\<rparr>) (rq_start_ms r) (rq_connect_timeout_ms r) w1 = (st0, r0, w0)"
    by (rule prod_cases3)
  show ?thesis
    using ok st run f b blocked_effect [OF b]
    by (auto simp: http_step_def step_connecting_def sock Let_def request_ok_def live_def step_outcome_def
        split: if_splits prod.splits)
qed

lemma sending_step:
  assumes ok: "request_ok r" and st: "rq_state r = OTLP_HTTP_REQ_SENDING" and run: "http_step N A r w = Some (st, r', w')"
  shows "request_ok r' \<and> step_outcome st r r'"
proof -
  obtain sock where sock: "rq_sock r = Some sock" using ok st by (auto simp: request_ok_def live_def)
  define data where "data = drop (rq_req_sent r) (rq_req_buf r)"
  obtain wst n w1 where wr: "nt_write N sock data w = Some (wst, n, w1)"
    using run st by (auto simp: http_step_def step_sending_def sock Let_def data_def split: option.splits)
  have n: "n \<le> length data" by (rule write_le [OF wr])
  have sent: "take (rq_req_sent r) (rq_req_buf r) @ take n data = take (rq_req_sent r + n) (rq_req_buf r)"
    by (simp add: data_def take_add)
  obtain st0 r0 w0 where b: "blocked N r (rq_last_io_ms r) (rq_read_timeout_ms r) w1 = (st0, r0, w0)"
    by (rule prod_cases3)
  obtain l w2 where tick: "(if n > 0 then (case nt_now N w1 of (now, w2) \<Rightarrow> (r\<lparr>rq_last_io_ms := now\<rparr>, w2)) else (r, w1)) =
      (r\<lparr>rq_last_io_ms := l\<rparr>, w2)"
  proof (cases "n > 0")
    case True
    moreover obtain now w2 where "nt_now N w1 = (now, w2)" by (cases "nt_now N w1")
    ultimately show ?thesis using that by simp
  next
    case False
    then show ?thesis using that [of "rq_last_io_ms r" w1] by simp
  qed
  note eqs = http_step_def step_sending_def sock wr data_def [symmetric] tick b
  consider "wst = OTLP_ERR_WOULDBLOCK" | "wst \<noteq> OTLP_OK" "wst \<noteq> OTLP_ERR_WOULDBLOCK" | "wst = OTLP_OK" by blast
  then show ?thesis
  proof cases
    case 1
    with ok st run blocked_effect [OF b] show ?thesis
      by (auto simp: eqs Let_def request_ok_def live_def step_outcome_def)
  next
    case 2
    with ok st run show ?thesis
      by (auto simp: eqs Let_def request_ok_def live_def step_outcome_def)
  next
    case 3
    obtain al w3 where al: "a_alloc A 4096 w2 = (al, w3)" by (cases "a_alloc A 4096 w2")
    let ?r = "r\<lparr>rq_last_io_ms := l, rq_req_sent := rq_req_sent r + n, rq_wire := rq_wire r @ take n data\<rparr>"
    have full: "rq_req_sent r + n \<le> length (rq_req_buf r)" using n ok unfolding data_def request_ok_def length_drop by linarith
    have wire: "rq_wire r @ take n data = take (rq_req_sent r + n) (rq_req_buf r)" using sent ok by (simp add: request_ok_def)
    show ?thesis
    proof (cases "rq_req_sent r + n = length (rq_req_buf r)")
      case True
      with 3 run st have "st = (if al then OTLP_OK else OTLP_ERR_NOMEM)"
        "r' = ?r\<lparr>rq_state := (if al then OTLP_HTTP_REQ_READING else OTLP_HTTP_REQ_FAILED), rq_resp_cap := 4096,
           rq_resp_buf := (if al then [] else rq_resp_buf r)\<rparr>"
        by (auto simp: eqs Let_def al split: if_splits)
      with ok st wire True show ?thesis
        by (auto simp: request_ok_def live_def step_outcome_def OTLP_HTTP_RESP_MAX_def take_is_prefix)
    next
      case False
      with 3 run st have "st = OTLP_OK" "r' = ?r" by (auto simp: eqs Let_def)
      with ok st full False wire show ?thesis
        by (auto simp: take_add request_ok_def live_def step_outcome_def)
    qed
  qed
qed

lemma reading_step:
  assumes ok: "request_ok r" and st: "rq_state r = OTLP_HTTP_REQ_READING" and run: "http_step N A r w = Some (st, r', w')"
  shows "request_ok r' \<and> step_outcome st r r'"
proof -
  obtain sock where sock: "rq_sock r = Some sock" using ok st by (auto simp: request_ok_def live_def)
  obtain rst bytes sock' w1 where rd: "nt_read N sock 4096 w = Some (rst, bytes, sock', w1)"
    using run st by (auto simp: http_step_def step_reading_def sock split: option.splits)
  let ?r = "r\<lparr>rq_sock := Some sock'\<rparr>"
  obtain st0 r0 w0 where b: "blocked N ?r (rq_last_io_ms r) (rq_read_timeout_ms r) w1 = (st0, r0, w0)" by (rule prod_cases3)
  obtain sst r2 w2 where sr: "store_read N A ?r bytes w1 = (sst, r2, w2)" by (rule prod_cases3)
  obtain rc r3 where p: "try_parse_response r2 False = (rc, r3)" by (cases "try_parse_response r2 False")
  obtain rc' r4 where p': "try_parse_response r3 True = (rc', r4)" by (cases "try_parse_response r3 True")
  note eqs = http_step_def step_reading_def sock rd b sr p p'
  have base: "request_ok ?r" using ok st by (simp add: request_ok_def live_def)
  have stored: "sst \<noteq> OTLP_ERR_WOULDBLOCK" "request_ok r2" "rq_state r2 = OTLP_HTTP_REQ_READING" "rq_wire r2 = rq_wire r"
      "rq_req_buf r2 = rq_req_buf r" "rq_sock r2 = Some sock'"
    using store_read_effect [OF base _ sr] st by simp_all
  note e1 = try_parse_effect [OF p] and e2 = try_parse_effect [OF p']
  have parsed: "request_ok r3" "request_ok r4" "rq_state r3 = OTLP_HTTP_REQ_READING" "rq_state r4 = OTLP_HTTP_REQ_READING"
    using e1 e2 stored by (auto simp: request_ok_def live_def)
  have failed: "request_ok (x\<lparr>rq_state := OTLP_HTTP_REQ_FAILED\<rparr>)" if "request_ok x" for x :: "'a http_request"
    using that by (simp add: request_ok_def live_def)
  have finished: "request_ok (x\<lparr>rq_state := OTLP_HTTP_REQ_DONE\<rparr>)"
    if "request_ok x" "rq_state x = OTLP_HTTP_REQ_READING" "\<exists>off. rq_body_ptr x = Some off \<and> off + rq_body_len x \<le> length (rq_resp_buf x)"
      "rq_http_status x \<le> 999" for x :: "'a http_request"
    using that by (auto simp: request_ok_def live_def)
  consider "rst = OTLP_ERR_WOULDBLOCK" | "rst \<noteq> OTLP_OK" "rst \<noteq> OTLP_ERR_WOULDBLOCK" | "rst = OTLP_OK" by blast
  then show ?thesis
  proof cases
    case 1
    with base st run blocked_effect [OF b] show ?thesis
      by (auto simp: eqs Let_def request_ok_def live_def step_outcome_def)
  next
    case 2
    with base st run show ?thesis by (auto simp: eqs Let_def request_ok_def live_def step_outcome_def)
  next
    case 3
    show ?thesis
    proof (cases "sst = OTLP_OK")
      case False
      with 3 run st stored have "st = sst" "r' = r2\<lparr>rq_state := OTLP_HTTP_REQ_FAILED\<rparr>" by (auto simp: eqs Let_def)
      with False stored failed show ?thesis by (auto simp: step_outcome_def)
    next
      case True
      consider "rc < 0" | "rc = 1" | "rc = 0" "nt_eof N sock'" "rc' = 1" | "rc = 0" "nt_eof N sock'" "rc' \<noteq> 1"
        | "rc = 0" "\<not> nt_eof N sock'" using e1 by fastforce
      then show ?thesis
      proof cases
        case 1
        with 3 True run st have "st = OTLP_ERR_INVALID_RESPONSE" "r' = r3\<lparr>rq_state := OTLP_HTTP_REQ_FAILED\<rparr>"
          by (auto simp: eqs Let_def)
        with e1 stored parsed failed show ?thesis by (auto simp: step_outcome_def)
      next
        case 2
        with 3 True run st have r': "st = OTLP_OK" "r' = r3\<lparr>rq_state := OTLP_HTTP_REQ_DONE\<rparr>" by (auto simp: eqs Let_def)
        moreover have "response_parsed r'" using try_parse_parsed p 2 r' by blast
        ultimately show ?thesis using 2 e1 stored parsed finished [of r3] st by (auto simp: step_outcome_def)
      next
        case 3
        with \<open>rst = OTLP_OK\<close> True run st have r': "st = OTLP_OK" "r' = r4\<lparr>rq_state := OTLP_HTTP_REQ_DONE\<rparr>"
          by (auto simp: eqs Let_def)
        moreover have "response_parsed r'" using try_parse_parsed p' 3 r' by blast
        ultimately show ?thesis using 3 e1 e2 stored parsed finished [of r4] st by (auto simp: step_outcome_def)
      next
        case 4
        with 3 True run st have "st = OTLP_ERR_INVALID_RESPONSE" "r' = r4\<lparr>rq_state := OTLP_HTTP_REQ_FAILED\<rparr>"
          by (auto simp: eqs Let_def)
        with e1 e2 stored parsed failed show ?thesis by (auto simp: step_outcome_def)
      next
        case 5
        with 3 True run st have "st = OTLP_OK" "r' = r3" by (auto simp: eqs Let_def)
        with e1 stored parsed st show ?thesis by (auto simp: step_outcome_def)
      qed
    qed
  qed
qed

lemma http_step_ok:
  assumes "request_ok r" "http_step N A r w = Some (st, r', w')"
  shows "request_ok r' \<and> (if live (rq_state r) then step_outcome st r r' else st = OTLP_OK \<and> r' = r)"
proof (cases "rq_state r")
  case OTLP_HTTP_REQ_CONNECTING
  then show ?thesis using connecting_step [OF assms(1) _ assms(2)] by (simp add: live_def)
next
  case OTLP_HTTP_REQ_SENDING
  then show ?thesis using sending_step [OF assms(1) _ assms(2)] by (simp add: live_def)
next
  case OTLP_HTTP_REQ_READING
  then show ?thesis using reading_step [OF assms(1) _ assms(2)] by (simp add: live_def)
qed (use assms in \<open>simp_all add: live_def http_step_def\<close>)

end

section \<open>Runs\<close>

lemma build_request_effect:
  assumes "build_request A r url ua headers n_headers body body_len w = (OTLP_OK, r', w')"
  shows "\<exists>buf. buf \<noteq> [] \<and> r' = r\<lparr>rq_req_buf := buf, rq_req_sent := 0\<rparr>"
proof -
  define u where "u = (case ua of None \<Rightarrow> ascii ''otlp-c'' | Some s \<Rightarrow> s)"
  define hs where "hs = (case headers of None \<Rightarrow> [] | Some hs \<Rightarrow> take n_headers hs)"
  obtain head x where "build_head url u hs body_len = Some head" "x = (if body_len > 0 then take body_len (the body) else [])"
    "r' = r\<lparr>rq_req_buf := head @ x, rq_req_sent := 0\<rparr>"
    using assms by (auto simp: build_request_def Let_def u_def [symmetric] hs_def [symmetric]
        split: if_splits option.splits prod.splits bool.splits)
  moreover from calculation(1) have "head \<noteq> []" using build_head_Some [of url u hs body_len head] by (auto simp: CRLF_def)
  ultimately show ?thesis by (intro exI [of _ "head @ x"]) simp
qed

text \<open>The bytes to send are those of the request builder.\<close>

definition built_from ::
  "'w allocator \<Rightarrow> http_url option \<Rightarrow> cstr option \<Rightarrow> http_header list option \<Rightarrow> nat \<Rightarrow> u8 list option \<Rightarrow> nat \<Rightarrow> 's http_request \<Rightarrow> bool"
where
  "built_from A url ua headers n_headers body body_len r \<longleftrightarrow>
     (\<exists>u. \<exists>r0 r1 :: 's http_request. \<exists>v v'. url = Some u \<and>
        build_request A r0 u ua headers n_headers body body_len v = (OTLP_OK, r1, v') \<and> rq_req_buf r = rq_req_buf r1)"

lemma start_ok:
  fixes N :: "('s, 'w) net"
  assumes "otlp_http_request_start N A url ua headers n_headers body body_len c t w = (OTLP_OK, Some r, w')"
  shows "request_ok r \<and> live (rq_state r) \<and> built_from A url ua headers n_headers body body_len r"
proof -
  let ?r0 = "(request_zero :: 's http_request)\<lparr>rq_state := OTLP_HTTP_REQ_CONNECTING, rq_connect_timeout_ms := c, rq_read_timeout_ms := t\<rparr>"
  obtain u where u: "url = Some u" using assms by (cases url) (simp_all add: otlp_http_request_start_def)
  obtain al w1 where al: "otlp_calloc A 1 SIZEOF_REQUEST w = (al, w1)" by (cases "otlp_calloc A 1 SIZEOF_REQUEST w")
  obtain st r1 w2 where b: "build_request A ?r0 u ua headers n_headers body body_len w1 = (st, r1, w2)" by (rule prod_cases3)
  obtain conn w3 where conn: "nt_connect N (url_host u) (url_port u) w2 = (conn, w3)"
    by (cases "nt_connect N (url_host u) (url_port u) w2")
  obtain now w4 where now: "nt_now N w3 = (now, w4)" by (cases "nt_now N w3")
  have g: "\<not> (body_len > 0 \<and> body = None)" using assms by (rule_tac notI) (simp add: otlp_http_request_start_def u)
  have al: "otlp_calloc A 1 SIZEOF_REQUEST w = (True, w1)"
    using assms al by (cases al) (simp_all add: otlp_http_request_start_def u if_not_P [OF g])
  note run = assms [unfolded otlp_http_request_start_def u option.case if_not_P [OF g] al prod.case bool.case Let_def b]
  have b: "build_request A ?r0 u ua headers n_headers body body_len w1 = (OTLP_OK, r1, w2)" and st: "st = OTLP_OK"
    using run b by (auto split: if_splits)
  note run = run [unfolded st conn prod.case now]
  obtain sock where sock: "conn = Inr sock" using run by (cases conn) auto
  obtain fst sock' w5 where f: "nt_finish N sock w4 = (fst, sock', w5)" by (rule prod_cases3)
  let ?r2 = "r1\<lparr>rq_sock := Some sock', rq_start_ms := now, rq_last_io_ms := now\<rparr>"
  have r: "r = ?r2\<lparr>rq_state := OTLP_HTTP_REQ_SENDING\<rparr> \<or> r = ?r2"
    using run f by (auto simp: sock split: if_splits)
  obtain buf where "buf \<noteq> []" "r1 = ?r0\<lparr>rq_req_buf := buf, rq_req_sent := 0\<rparr>"
    using build_request_effect [OF b] by blast
  with r have "request_ok r \<and> live (rq_state r)" by (auto simp: request_ok_def request_zero_def live_def)
  moreover have "rq_req_buf r = rq_req_buf r1" using r by auto
  ultimately show ?thesis using b u unfolding built_from_def by blast
qed

lemma start_with_socket_ok:
  fixes N :: "('s, 'w) net"
  assumes "otlp_http_request_start_with_socket N A url ua headers n_headers body body_len c t sock w = (OTLP_OK, Some r, w')"
  shows "request_ok r \<and> live (rq_state r) \<and> rq_sock r = sock \<and> built_from A url ua headers n_headers body body_len r"
proof -
  obtain u s where u: "url = Some u" "sock = Some s"
    using assms by (cases url; cases sock) (auto simp: otlp_http_request_start_with_socket_def split: if_splits)
  obtain al w1 where al: "otlp_calloc A 1 SIZEOF_REQUEST w = (al, w1)" by (cases "otlp_calloc A 1 SIZEOF_REQUEST w")
  obtain now w2 where now: "nt_now N w1 = (now, w2)" by (cases "nt_now N w1")
  let ?r0 = "(request_zero :: 's http_request)\<lparr>rq_state := OTLP_HTTP_REQ_SENDING, rq_sock := Some s, rq_connect_timeout_ms := c,
    rq_read_timeout_ms := t, rq_start_ms := now, rq_last_io_ms := now\<rparr>"
  obtain st r1 w3 where b: "build_request A ?r0 u ua headers n_headers body body_len w2 = (st, r1, w3)" by (rule prod_cases3)
  have g: "\<not> (body_len > 0 \<and> body = None)"
    using assms by (rule_tac notI) (simp add: otlp_http_request_start_with_socket_def u)
  have al: "otlp_calloc A 1 SIZEOF_REQUEST w = (True, w1)"
    using assms al by (cases al) (simp_all add: otlp_http_request_start_with_socket_def u if_not_P [OF g])
  note run = assms [unfolded otlp_http_request_start_with_socket_def u option.case if_not_P [OF g] al prod.case bool.case Let_def now b]
  have st: "st = OTLP_OK" and r: "r = r1" using run by (auto split: if_splits)
  obtain buf where "buf \<noteq> []" "r1 = ?r0\<lparr>rq_req_buf := buf, rq_req_sent := 0\<rparr>"
    using build_request_effect [OF b [unfolded st]] by blast
  then have "request_ok r1 \<and> live (rq_state r1) \<and> rq_sock r1 = Some s" by (simp add: request_ok_def request_zero_def live_def)
  moreover have "built_from A url ua headers n_headers body body_len r"
    using b [unfolded st] r u(1) unfolding built_from_def by blast
  ultimately show ?thesis using r u(2) by simp
qed

text \<open>A request as one of the two start functions hands it out, and what steps at any later time make of it.\<close>

definition request_started :: "('s, 'w) net \<Rightarrow> 'w allocator \<Rightarrow> 's http_request \<Rightarrow> bool" where
  "request_started N A r \<longleftrightarrow>
     (\<exists>url ua headers n_headers body body_len c t w w'.
        otlp_http_request_start N A url ua headers n_headers body body_len c t w = (OTLP_OK, Some r, w') \<or>
        (\<exists>sock. otlp_http_request_start_with_socket N A url ua headers n_headers body body_len c t sock w = (OTLP_OK, Some r, w')))"

inductive http_reach :: "('s, 'w) net \<Rightarrow> 'w allocator \<Rightarrow> 's http_request \<Rightarrow> 's http_request \<Rightarrow> bool"
  for N A r where
  start: "http_reach N A r r"
| step: "http_reach N A r r1 \<Longrightarrow> http_step N A r1 w = Some (st, r2, w') \<Longrightarrow> http_reach N A r r2"

lemma started_ok: "request_started N A r \<Longrightarrow> request_ok r \<and> live (rq_state r)"
  unfolding request_started_def by (elim exE disjE) (drule start_ok start_with_socket_ok, simp)+

context socket_layer
begin

lemma reach_ok:
  assumes "http_reach N A r r'" "request_ok r" "live (rq_state r)"
  shows "request_ok r' \<and> rq_req_buf r' = rq_req_buf r \<and> (rq_state r' = OTLP_HTTP_REQ_DONE \<longrightarrow> response_parsed r')"
  using assms
proof (induction rule: http_reach.induct)
  case start
  then show ?case by (auto simp: live_def)
next
  case (step r1 w st r2 w')
  then have r1: "request_ok r1" "rq_req_buf r1 = rq_req_buf r" "rq_state r1 = OTLP_HTTP_REQ_DONE \<longrightarrow> response_parsed r1"
    by simp_all
  have out: "request_ok r2" "if live (rq_state r1) then step_outcome st r1 r2 else st = OTLP_OK \<and> r2 = r1"
    using http_step_ok [OF r1(1) step.hyps(2)] by simp_all
  show ?case
  proof (cases "live (rq_state r1)")
    case True
    with out(2) have "step_outcome st r1 r2" by simp
    with out(1) r1(2) show ?thesis by (simp add: step_outcome_def)
  next
    case False
    with out r1 show ?thesis by simp
  qed
qed

end

text \<open>
  C2. The client keeps its invariant, whatever the kernel, the peer, the clock and the allocator do.
  After any number of steps of a request that one of the start functions handed out: the sockets have
  accepted exactly the part of the request counted as sent, from its start and nothing twice; the
  response never outgrows its buffer nor the buffer its bound; and a request that is done has sent the
  whole request, and its status and body are those of a response that the parser accepted, the body
  inside the buffer.
\<close>

theorem http_request_invariant:
  assumes "request_started (posix_net A P) A r0" "http_reach (posix_net A P) A r0 r"
  shows "rq_wire r = take (rq_req_sent r) (rq_req_buf r0) \<and> rq_req_sent r \<le> length (rq_req_buf r0)
    \<and> length (rq_resp_buf r) \<le> rq_resp_cap r \<and> rq_resp_cap r \<le> 2 * OTLP_HTTP_RESP_MAX
    \<and> (rq_state r = OTLP_HTTP_REQ_DONE \<longrightarrow> rq_wire r = rq_req_buf r0 \<and> response_parsed r
        \<and> (\<exists>off. rq_body_ptr r = Some off \<and> off + rq_body_len r \<le> length (rq_resp_buf r)))"
proof -
  have "request_ok r" "rq_req_buf r = rq_req_buf r0" "rq_state r = OTLP_HTTP_REQ_DONE \<longrightarrow> response_parsed r"
    using posix.reach_ok [OF assms(2)] started_ok [OF assms(1)] by blast+
  then show ?thesis by (simp add: request_ok_def)
qed

text \<open>
  What one step of a live request may do: on OK it moves to the next state of connect, send, read,
  done or stays; WOULDBLOCK leaves the state alone; any other status, and only such a status, makes the
  request failed. Once done or failed, a step changes nothing and answers OK.
\<close>

theorem http_step_transitions:
  assumes "request_started (posix_net A P) A r0" "http_reach (posix_net A P) A r0 r"
    and "otlp_http_request_step (posix_net A P) A (Some r) w = Some (st, Some r', w')"
  shows "if live (rq_state r) then step_outcome st r r' else st = OTLP_OK \<and> r' = r"
  using posix.http_step_ok [of r A P A w st r' w'] posix.reach_ok [OF assms(2)] started_ok [OF assms(1)] assms(3)
  by (auto simp: otlp_http_request_step_def)

section \<open>Whole exchanges\<close>

lemma step_send_all:
  assumes "rq_state r = OTLP_HTTP_REQ_SENDING" "rq_sock r = Some sock"
    and "nt_write N sock (drop (rq_req_sent r) (rq_req_buf r)) w = Some (OTLP_OK, length (rq_req_buf r) - rq_req_sent r, w1)"
    and "rq_req_sent r < length (rq_req_buf r)" "nt_now N w1 = (now, w2)" "a_alloc A 4096 w2 = (True, w3)"
  shows "\<exists>r'. http_step N A r w = Some (OTLP_OK, r', w3) \<and> rq_state r' = OTLP_HTTP_REQ_READING \<and> rq_sock r' = Some sock
    \<and> rq_resp_buf r' = [] \<and> rq_resp_cap r' = 4096"
  using assms by (simp add: http_step_def step_sending_def Let_def)

lemma step_read:
  assumes "rq_state r = OTLP_HTTP_REQ_READING" "rq_sock r = Some sock" "nt_read N sock 4096 w = Some (OTLP_OK, bytes, sock', w1)"
    and "bytes \<noteq> []" "length (rq_resp_buf r) + length bytes \<le> rq_resp_cap r" "\<not> nt_eof N sock'"
    and "otlp_http_resp_parse (rq_resp_buf r @ bytes) False = (rc, resp, buf)" "rc = 1 \<longleftrightarrow> resp \<noteq> None"
  shows "\<exists>r'. http_step N A r w = Some (if rc < 0 then OTLP_ERR_INVALID_RESPONSE else OTLP_OK, r', snd (nt_now N w1))
    \<and> rq_state r' = (if rc < 0 then OTLP_HTTP_REQ_FAILED else if rc = 1 then OTLP_HTTP_REQ_DONE else OTLP_HTTP_REQ_READING)
    \<and> rq_sock r' = Some sock' \<and> rq_resp_buf r' = buf \<and> rq_resp_cap r' = rq_resp_cap r
    \<and> (\<forall>p. resp = Some p \<longrightarrow> otlp_http_request_http_status (Some r') = hr_status p
         \<and> otlp_http_request_body (Some r') = Some (take (hr_body_len p) (drop (hr_body_off p) buf)))"
proof -
  obtain now w2 where "nt_now N w1 = (now, w2)" by (cases "nt_now N w1")
  moreover from this have st: "store_read N A (r\<lparr>rq_sock := Some sock'\<rparr>) bytes w1 =
      (OTLP_OK, r\<lparr>rq_sock := Some sock', rq_resp_buf := rq_resp_buf r @ bytes, rq_last_io_ms := now\<rparr>, w2)"
    using assms(4,5) by (simp add: store_read_def)
  ultimately show ?thesis
    using assms(1-3,6-8)
    by (cases resp) (auto simp: http_step_def step_reading_def st try_parse_response_def Let_def
        otlp_http_request_http_status_def otlp_http_request_body_def)
qed

text \<open>A response in two pieces that the parser accepts as a whole but not read after each other.\<close>

lemma split_pieces:
  obtains first rest buf resp b resp' b' where "first \<noteq> []" "rest \<noteq> []" "length first + length rest \<le> 4096"
    "length buf = length first" "otlp_http_resp_parse first False = (0, None, buf)"
    "otlp_http_resp_parse (buf @ rest) False = (- 1, resp, b)" "- 1 = (1 :: int) \<longleftrightarrow> resp \<noteq> None"
    "otlp_http_resp_parse (first @ rest) False = (1, resp', b')" "(1 :: int) = 1 \<longleftrightarrow> resp' \<noteq> None"
proof -
  obtain head first rest buf where len: "length (head @ first @ rest) \<le> 4096"
    and p1: "otlp_http_resp_parse (head @ first) False = (0, None, buf)"
    and p2: "fst (otlp_http_resp_parse (buf @ rest) False) = - 1"
    and p3: "fst (otlp_http_resp_parse (head @ first @ rest) False) = 1"
    using http_chunked_reread_corrupts by blast
  have len': "length buf = length (head @ first)" using http_parse_stays_in_bounds [of "head @ first" False] p1 by simp
  have nz: "head @ first \<noteq> []" "rest \<noteq> []" using p1 p2 p3 len' by auto
  have verdict: "rc = 1 \<longleftrightarrow> resp \<noteq> None" if "otlp_http_resp_parse b e = (rc, resp, b')" for b e rc resp b'
    using http_parse_stays_in_bounds [of b e] that by (auto split: option.splits)
  obtain resp b where q2: "otlp_http_resp_parse (buf @ rest) False = (- 1, resp, b)"
    using p2 by (cases "otlp_http_resp_parse (buf @ rest) False") auto
  obtain resp' b' where q3: "otlp_http_resp_parse (head @ first @ rest) False = (1, resp', b')"
    using p3 by (cases "otlp_http_resp_parse (head @ first @ rest) False") auto
  show ?thesis
    using that [of "head @ first" rest buf resp b resp' b'] nz len len' p1 q2 q3 verdict [OF q2] verdict [OF q3] by simp
qed

section \<open>A kernel to run on\<close>

text \<open>Connects at once, accepts everything, and delivers the segments of the world one by one.\<close>

definition demo_posix :: "(unit, u8 list list) posix" where
  "demo_posix = \<lparr>px_getaddrinfo = (\<lambda>h p w. (Some [()], w)), px_socket = (\<lambda>a w. (3, w)), px_nonblock = (\<lambda>fd w. w),
     px_connect = (\<lambda>fd a w. (None, w)), px_poll_out = (\<lambda>fd w. (1, w)), px_so_error = (\<lambda>fd w. (Some 0, w)),
     px_send = (\<lambda>fd d w. (Inr (length d), w)),
     px_recv = (\<lambda>fd cap w. case w of [] \<Rightarrow> (Inr [], []) | s # ss \<Rightarrow> (Inr s, ss)),
     px_close = (\<lambda>fd w. w), px_monotonic = (\<lambda>w. (Some (0, 0), w))\<rparr>"

definition demo_alloc :: "'w allocator" where
  "demo_alloc = \<lparr>a_alloc = (\<lambda>n w. (True, w)), a_realloc = (\<lambda>n w. (True, w))\<rparr>"

definition demo_net :: "(otlp_socket, u8 list list) net" where
  "demo_net = posix_net demo_alloc demo_posix"

definition demo_sock :: otlp_socket where
  "demo_sock = \<lparr>so_fd = 3, so_eof = False, so_connecting = False\<rparr>"

definition demo_url :: http_url where
  "demo_url = \<lparr>url_host = ascii ''h'', url_port = 80, url_path = ascii ''/''\<rparr>"

lemma demo_calls:
  "nt_connect demo_net h p w = (Inr demo_sock, w)" "nt_finish demo_net demo_sock w = (OTLP_OK, demo_sock, w)"
  "nt_now demo_net w = (0, w)" "\<not> nt_eof demo_net demo_sock"
  "data \<noteq> [] \<Longrightarrow> nt_write demo_net demo_sock data w = Some (OTLP_OK, length data, w)"
  "take n seg \<noteq> [] \<Longrightarrow> 0 < n \<Longrightarrow> nt_read demo_net demo_sock n (seg # w) = Some (OTLP_OK, take n seg, demo_sock, w)"
  "a_alloc demo_alloc n v = (True, v)" "a_realloc demo_alloc n v = (True, v)"
  by (auto simp: demo_net_def posix_net_def demo_posix_def demo_sock_def demo_alloc_def otlp_socket_connect_def
      otlp_socket_finish_connect_def otlp_platform_now_mono_ms_def otlp_platform_now_mono_nano_def otlp_socket_eof_def
      otlp_socket_write_def otlp_socket_read_def send_retry.simps recv_retry.simps)

lemma demo_head: "\<exists>h. build_head demo_url (ascii ''u'') [] 2 = Some h"
  by (simp add: build_head_def head_append_def demo_url_def HEAD_CAP_def ascii_def CRLF_def decimal.simps)

lemma demo_start:
  "\<exists>r. otlp_http_request_start demo_net demo_alloc (Some demo_url) (Some (ascii ''u'')) None 0 (Some [1, 2]) 2 0 0 w = (OTLP_OK, Some r, w)
    \<and> rq_state r = OTLP_HTTP_REQ_SENDING \<and> rq_sock r = Some demo_sock \<and> rq_req_sent r = 0"
proof -
  obtain h where h: "build_head demo_url (ascii ''u'') [] 2 = Some h" using demo_head ..
  have len: "length h < HEAD_CAP" using build_head_Some [OF h] ..
  have clean: "\<not> has_crlf (ascii ''u'')" by (simp add: ascii_def has_crlf_def)
  have b: "build_request demo_alloc r demo_url (Some (ascii ''u'')) None 0 (Some [1, 2]) 2 w =
      (OTLP_OK, r\<lparr>rq_req_buf := h @ [1, 2], rq_req_sent := 0\<rparr>, w)" for r :: "otlp_socket http_request" and w :: "u8 list list"
    using len clean by (simp add: build_request_def h demo_calls HEAD_CAP_def SIZE_MAX_def)
  show ?thesis by (simp add: otlp_http_request_start_def otlp_calloc_def demo_calls b)
qed

text \<open>The second phase of the run: the request is sent in one step.\<close>

lemma demo_sent:
  "\<exists>r0 r. request_started demo_net demo_alloc r0 \<and> http_reach demo_net demo_alloc r0 r
    \<and> rq_state r = OTLP_HTTP_REQ_READING \<and> rq_sock r = Some demo_sock \<and> rq_resp_buf r = [] \<and> rq_resp_cap r = 4096"
proof -
  obtain r0 where r0: "otlp_http_request_start demo_net demo_alloc (Some demo_url) (Some (ascii ''u'')) None 0 (Some [1, 2]) 2 0 0 [] =
      (OTLP_OK, Some r0, [])" "rq_state r0 = OTLP_HTTP_REQ_SENDING" "rq_sock r0 = Some demo_sock" "rq_req_sent r0 = 0"
    using demo_start by blast
  have st: "request_started demo_net demo_alloc r0" using r0(1) unfolding request_started_def by blast
  have lt: "rq_req_sent r0 < length (rq_req_buf r0)" using start_ok [OF r0(1)] r0(2) by (simp add: request_ok_def)
  have wr: "nt_write demo_net demo_sock (drop (rq_req_sent r0) (rq_req_buf r0)) [] =
      Some (OTLP_OK, length (rq_req_buf r0) - rq_req_sent r0, [])"
    using lt r0(4) by (subst demo_calls) auto
  obtain r where r: "http_step demo_net demo_alloc r0 [] = Some (OTLP_OK, r, [])" "rq_state r = OTLP_HTTP_REQ_READING"
    "rq_sock r = Some demo_sock" "rq_resp_buf r = []" "rq_resp_cap r = 4096"
    using step_send_all [OF r0(2,3) wr lt demo_calls(3) demo_calls(7)] by blast
  with st http_reach.step [OF http_reach.start r(1)] show ?thesis by blast
qed

theorem http_request_invariant_witness:
  "\<exists>r0 r. http_reach (posix_net demo_alloc demo_posix) demo_alloc r0 r \<and> rq_state r = OTLP_HTTP_REQ_READING
     \<and> rq_wire r = take (rq_req_sent r) (rq_req_buf r0)"
proof -
  obtain r0 r where r: "request_started demo_net demo_alloc r0" "http_reach demo_net demo_alloc r0 r" "rq_state r = OTLP_HTTP_REQ_READING"
    using demo_sent by blast
  from http_request_invariant [OF r(1,2) [unfolded demo_net_def]] r(2,3) show ?thesis unfolding demo_net_def by blast
qed

theorem http_step_transitions_witness:
  "\<exists>r r' :: otlp_socket http_request. rq_state r = OTLP_HTTP_REQ_READING \<and> step_outcome OTLP_OK r r'"
proof -
  obtain r0 r where r: "request_started demo_net demo_alloc r0" "http_reach demo_net demo_alloc r0 r"
    "rq_state r = OTLP_HTTP_REQ_READING" "rq_sock r = Some demo_sock" "rq_resp_buf r = []" "rq_resp_cap r = 4096"
    using demo_sent by blast
  have p: "otlp_http_resp_parse (rq_resp_buf r @ [1]) False = (0, None, [1])" by (simp add: r(5) otlp_http_resp_parse_def CRLF_def)
  have rd: "nt_read demo_net demo_sock 4096 [[1]] = Some (OTLP_OK, [1], demo_sock, [])"
    using demo_calls(6) [of 4096 "[1]" "[]"] by simp
  obtain r' w' where r': "http_step demo_net demo_alloc r [[1]] = Some (OTLP_OK, r', w')"
    using step_read [OF r(3,4) rd _ _ demo_calls(4) p, where A = demo_alloc] r(5,6) by auto
  then have "otlp_http_request_step (posix_net demo_alloc demo_posix) demo_alloc (Some r) [[1]] = Some (OTLP_OK, Some r', w')"
    by (simp add: otlp_http_request_step_def demo_net_def)
  from http_step_transitions [OF r(1,2) [unfolded demo_net_def] this] r(3) show ?thesis by (auto simp: live_def)
qed

text \<open>
  A valid chunked response can be refused because of how the network splits it. There is a request
  the client started and sent and a response in two pieces such that reading the pieces one after the
  other ends in INVALID_RESPONSE, while the same bytes read in one piece complete the request: between
  the two reads the decoder has already overwritten the framing of the first chunk.
\<close>

theorem http_split_response_fails:
  "\<exists>r0 r r' r'' whole first rest v w.
     request_started demo_net demo_alloc r0 \<and> http_reach demo_net demo_alloc r0 r \<and>
     http_step demo_net demo_alloc r [first, rest] = Some (OTLP_OK, r', [rest]) \<and>
     http_step demo_net demo_alloc r' [rest] = Some (OTLP_ERR_INVALID_RESPONSE, r'', v) \<and> rq_state r'' = OTLP_HTTP_REQ_FAILED \<and>
     http_step demo_net demo_alloc r [first @ rest] = Some (OTLP_OK, whole, w) \<and> rq_state whole = OTLP_HTTP_REQ_DONE"
proof -
  obtain r0 r where st: "request_started demo_net demo_alloc r0" "http_reach demo_net demo_alloc r0 r"
    and r: "rq_state r = OTLP_HTTP_REQ_READING" "rq_sock r = Some demo_sock" "rq_resp_buf r = []" "rq_resp_cap r = 4096"
    using demo_sent by blast
  obtain first rest buf resp b resp' b' where ne: "first \<noteq> []" "rest \<noteq> []" "length first + length rest \<le> 4096" "length buf = length first"
    and p1: "otlp_http_resp_parse first False = (0, None, buf)"
    and p2: "otlp_http_resp_parse (buf @ rest) False = (- 1, resp, b)" "- 1 = (1 :: int) \<longleftrightarrow> resp \<noteq> None"
    and p3: "otlp_http_resp_parse (first @ rest) False = (1, resp', b')" "(1 :: int) = 1 \<longleftrightarrow> resp' \<noteq> None"
    by (rule split_pieces)
  have rd: "nt_read demo_net demo_sock 4096 (s # w) = Some (OTLP_OK, s, demo_sock, w)" if "s \<noteq> []" "length s \<le> 4096" for s w
    using demo_calls(6) [of 4096 s w] that by simp
  obtain r' where r': "http_step demo_net demo_alloc r [first, rest] = Some (OTLP_OK, r', [rest])" "rq_state r' = OTLP_HTTP_REQ_READING"
      "rq_sock r' = Some demo_sock" "rq_resp_buf r' = buf" "rq_resp_cap r' = 4096"
    using step_read [OF r(1,2) rd [of first "[rest]"] _ _ demo_calls(4), where rc = 0 and resp = None and buf = buf and A = demo_alloc] ne p1 r(3,4)
    by (auto simp: demo_calls)
  obtain r'' v where r'': "http_step demo_net demo_alloc r' [rest] = Some (OTLP_ERR_INVALID_RESPONSE, r'', v)" "rq_state r'' = OTLP_HTTP_REQ_FAILED"
    using step_read [OF r'(2,3) rd [of rest "[]"] _ _ demo_calls(4), where rc = "- 1" and resp = resp and buf = b and A = demo_alloc] ne p2 r'(4,5) by auto
  obtain whole w where whole: "http_step demo_net demo_alloc r [first @ rest] = Some (OTLP_OK, whole, w)" "rq_state whole = OTLP_HTTP_REQ_DONE"
    using step_read [OF r(1,2) rd [of "first @ rest" "[]"] _ _ demo_calls(4), where rc = 1 and resp = resp' and buf = b' and A = demo_alloc] ne p3 r(3,4) by auto
  from st r'(1) r'' whole show ?thesis by blast
qed

theorem http_request_exact_witness:
  "\<exists>r' :: unit http_request. reads_as (rq_req_buf r')
     (request_lines demo_url (ascii ''u'') [(Some (ascii ''a''), Some (ascii ''b''))] 2) [1, 2]"
proof -
  let ?hs = "[(Some (ascii ''a''), Some (ascii ''b''))]"
  have "url_ok demo_url" by (simp add: url_ok_def demo_url_def ascii_def has_crlf_def OTLP_HTTP_HOST_MAX_def OTLP_HTTP_PATH_MAX_def)
  moreover have "url_text (ascii ''http://h'') demo_url"
    by (rule url_textI [where pt = "[]" and qt = "[]"]) (simp_all add: demo_url_def port_text_def path_text_def ascii_def)
  ultimately have u: "otlp_http_parse_url (Some (ascii ''http://h'')) demo_url = (OTLP_OK, demo_url)" by (rule url_text_parses)
  obtain h where h: "build_head demo_url (ascii ''u'') ?hs (length [1 :: u8, 2]) = Some h"
    by (simp add: build_head_def head_append_def demo_url_def HEAD_CAP_def ascii_def CRLF_def decimal.simps str_or_empty_def)
  have len: "length h < HEAD_CAP" using build_head_Some [OF h] ..
  have clean: "\<not> has_crlf (ascii ''u'')" "list_all header_clean ?hs" by (simp_all add: ascii_def has_crlf_def)
  have b: "build_request always_alloc request_zero demo_url (Some (ascii ''u'')) (Some ?hs) (length ?hs) (Some [1, 2]) (length [1 :: u8, 2]) () =
      (OTLP_OK, (request_zero :: unit http_request)\<lparr>rq_req_buf := h @ [1, 2], rq_req_sent := 0\<rparr>, ())"
    using len clean h by (simp add: build_request_def always_alloc_def HEAD_CAP_def SIZE_MAX_def)
  have "length [1 :: u8, 2] \<le> SIZE_MAX - HEAD_CAP" by (simp add: SIZE_MAX_def HEAD_CAP_def)
  note exact = http_request_exact [OF u b this]
  have two: "length [1 :: u8, 2] = 2" by simp
  show ?thesis using exact unfolding two by blast
qed

end
