(* ===== verification/Exporter_Otel.thy ===== *)
theory Exporter_Otel
  imports Exporter Http_Client_Props Trace_Encode Log_Encode Metric_Encode
begin

text \<open>
  From a batch to a request (\<^verbatim>\<open>src/exporter_otel.c\<close>) and the static half of the signal table
  (\<^verbatim>\<open>src/exporter.c\<close>): the encode buffer, the message, the HTTP request over a fresh or a kept
  connection; the adapters that dispatch on the signal; and the text of a diagnostic.
\<close>

section \<open>What the exporter knows of the collector\<close>

text \<open>The fields of \<^verbatim>\<open>struct otlp_exporter\<close> that are fixed at creation and used to build requests.\<close>

record wire_cfg =
  wc_url :: "signal \<Rightarrow> http_url"
  wc_user_agent :: "cstr option"
  wc_service_name :: "cstr option"
  wc_schema_url :: "cstr option"
  wc_resource_attrs :: attr_vec
  wc_connect_timeout_ms :: u32
  wc_read_timeout_ms :: u32
  wc_http_headers :: "http_header list option"
  wc_n_http_headers :: nat

section \<open>The builders\<close>

definition start_post_common ::
  "('s, 'w) net \<Rightarrow> 'w allocator \<Rightarrow> http_url option \<Rightarrow> cstr option \<Rightarrow> http_header list option \<Rightarrow> nat \<Rightarrow>
     u8 list option \<Rightarrow> nat \<Rightarrow> u32 \<Rightarrow> u32 \<Rightarrow> 's option \<Rightarrow> 'w \<Rightarrow> status \<times> 's http_request option \<times> 'w" where
  "start_post_common N A url user_agent headers n_headers body body_len connect_timeout_ms read_timeout_ms reuse_socket w =
     (if reuse_socket \<noteq> None then
        otlp_http_request_start_with_socket N A url user_agent headers n_headers body body_len
          connect_timeout_ms read_timeout_ms reuse_socket w
      else otlp_http_request_start N A url user_agent headers n_headers body body_len
          connect_timeout_ms read_timeout_ms w)"

text \<open>
  The body the three builders share: they differ in the size of the buffer and in the encoder. The
  encoder works on the buffer and the allocator, whose state is the world. An unused buffer only
  releases memory.
\<close>

definition build_with ::
  "('s, 'w) net \<Rightarrow> 'w allocator \<Rightarrow> nat \<Rightarrow> ('w pbst \<Rightarrow> status \<times> 'w pbst) \<Rightarrow> http_url option \<Rightarrow> cstr option \<Rightarrow>
     http_header list option \<Rightarrow> nat \<Rightarrow> u32 \<Rightarrow> u32 \<Rightarrow> 's option \<Rightarrow> 'w \<Rightarrow> status \<times> 's http_request option \<times> 'w" where
  "build_with N A cap encode url user_agent headers n_headers connect_timeout_ms read_timeout_ms reuse_socket w =
     (if url = None then (OTLP_ERR_NULL, None, w)
      else (case otlp_pb_buf_init A cap (pb_zero, w) of (st, b0, w1) \<Rightarrow>
        if st \<noteq> OTLP_OK then (st, None, w1)
        else (case encode (b0, w1) of (st, body, w2) \<Rightarrow>
          if st \<noteq> OTLP_OK then (st, None, w2)
          else start_post_common N A url user_agent headers n_headers (Some (pb_data body)) (length (pb_data body))
                 connect_timeout_ms read_timeout_ms reuse_socket w2)))"

definition otlp_exporter_otel_build_span_request where
  "otlp_exporter_otel_build_span_request N A url user_agent headers n_headers service_name schema_url
       resource_attributes spans connect_timeout_ms read_timeout_ms reuse_socket w =
     build_with N A (length spans * 256 + 1024)
       (otlp_encode_export_trace_service_request A service_name schema_url resource_attributes None None spans)
       url user_agent headers n_headers connect_timeout_ms read_timeout_ms reuse_socket w"

definition otlp_exporter_otel_build_metric_request where
  "otlp_exporter_otel_build_metric_request N A url user_agent headers n_headers service_name schema_url
       resource_attributes metrics connect_timeout_ms read_timeout_ms reuse_socket w =
     build_with N A (length metrics * 128 + 512)
       (otlp_encode_export_metrics_service_request A service_name schema_url resource_attributes None None metrics)
       url user_agent headers n_headers connect_timeout_ms read_timeout_ms reuse_socket w"

definition otlp_exporter_otel_build_log_request where
  "otlp_exporter_otel_build_log_request N A url user_agent headers n_headers service_name schema_url
       resource_attributes logs connect_timeout_ms read_timeout_ms reuse_socket w =
     build_with N A (length logs * 128 + 512)
       (otlp_encode_export_logs_service_request A service_name schema_url resource_attributes None None logs)
       url user_agent headers n_headers connect_timeout_ms read_timeout_ms reuse_socket w"

section \<open>The signal table\<close>

text \<open>
  An item of a queue, which the code keeps as a \<^verbatim>\<open>void *\<close>; the adapters cast it back to the type of
  the signal. A queue holds only items of its own signal.
\<close>

datatype item = Item_Span span | Item_Metric metric | Item_Log log_record

fun as_span :: "item \<Rightarrow> span option" where
  "as_span (Item_Span x) = Some x" | "as_span _ = None"
fun as_metric :: "item \<Rightarrow> metric option" where
  "as_metric (Item_Metric x) = Some x" | "as_metric _ = None"
fun as_log :: "item \<Rightarrow> log_record option" where
  "as_log (Item_Log x) = Some x" | "as_log _ = None"

fun signal_name :: "signal \<Rightarrow> cstr" where
  "signal_name SIGNAL_SPAN = ascii ''spans''"
| "signal_name SIGNAL_METRIC = ascii ''metrics''"
| "signal_name SIGNAL_LOG = ascii ''logs''"

fun default_path :: "signal \<Rightarrow> cstr" where
  "default_path SIGNAL_SPAN = ascii ''/v1/traces''"
| "default_path SIGNAL_METRIC = ascii ''/v1/metrics''"
| "default_path SIGNAL_LOG = ascii ''/v1/logs''"

text \<open>The clone adapters: the allocator decides whether they succeed.\<close>

definition clone_item :: "'w allocator \<Rightarrow> item \<Rightarrow> 'w \<Rightarrow> item option \<times> 'w" where
  "clone_item A x w =
     (case x of
        Item_Span s \<Rightarrow> (case otlp_span_clone A (Some s) w of (r, w1) \<Rightarrow> (map_option Item_Span r, w1))
      | Item_Metric m \<Rightarrow> (case otlp_metric_clone A (Some m) w of (r, w1) \<Rightarrow> (map_option Item_Metric r, w1))
      | Item_Log l \<Rightarrow> (case otlp_log_record_clone A (Some l) w of (r, w1) \<Rightarrow> (map_option Item_Log r, w1)))"

text \<open>The build adapters, with the arguments \<^verbatim>\<open>try_start_post\<close> passes.\<close>

definition spec_build_request ::
  "('s, 'w) net \<Rightarrow> 'w allocator \<Rightarrow> wire_cfg \<Rightarrow> signal \<Rightarrow> item list \<Rightarrow> 's option \<Rightarrow> 'w \<Rightarrow>
     status \<times> 's http_request option \<times> 'w" where
  "spec_build_request N A C s items keepalive_sock w =
     (case s of
        SIGNAL_SPAN \<Rightarrow> otlp_exporter_otel_build_span_request N A (Some (wc_url C s)) (wc_user_agent C) (wc_http_headers C)
          (wc_n_http_headers C) (wc_service_name C) (wc_schema_url C) (av_items (wc_resource_attrs C)) (map as_span items)
          (wc_connect_timeout_ms C) (wc_read_timeout_ms C) keepalive_sock w
      | SIGNAL_METRIC \<Rightarrow> otlp_exporter_otel_build_metric_request N A (Some (wc_url C s)) (wc_user_agent C) (wc_http_headers C)
          (wc_n_http_headers C) (wc_service_name C) (wc_schema_url C) (av_items (wc_resource_attrs C)) (map as_metric items)
          (wc_connect_timeout_ms C) (wc_read_timeout_ms C) keepalive_sock w
      | SIGNAL_LOG \<Rightarrow> otlp_exporter_otel_build_log_request N A (Some (wc_url C s)) (wc_user_agent C) (wc_http_headers C)
          (wc_n_http_headers C) (wc_service_name C) (wc_schema_url C) (av_items (wc_resource_attrs C)) (map as_log items)
          (wc_connect_timeout_ms C) (wc_read_timeout_ms C) keepalive_sock w)"

section \<open>Diagnostics\<close>

text \<open>\<^verbatim>\<open>%d\<close> and \<^verbatim>\<open>%u\<close>; \<^verbatim>\<open>%.*s\<close> prints at most that many bytes and stops at a NUL.\<close>

definition signed_decimal :: "int \<Rightarrow> cstr" where
  "signed_decimal i = (if i < 0 then ascii ''-'' @ decimal (nat (- i)) else decimal (nat i))"

definition dec_u64 :: "u64 \<Rightarrow> cstr" where "dec_u64 x = decimal (unat x)"
definition dec_u32 :: "u32 \<Rightarrow> cstr" where "dec_u32 x = decimal (unat x)"

definition event_text :: "evt \<Rightarrow> cstr" where
  "event_text ev =
     (let name = signal_name (evt_signal ev) in
      case evt_code ev of
        OTLP_EVT_QUEUE_FULL \<Rightarrow> name @ ascii '' dropped: queue full''
      | OTLP_EVT_BATCH_SENT \<Rightarrow> ascii ''batch sent: '' @ dec_u64 (evt_count ev) @ ascii '' '' @ name
      | OTLP_EVT_RETRY_ARMED \<Rightarrow>
          if evt_http_status ev = 0 then
            ascii ''network error; '' @ name @ ascii '' retry '' @ dec_u32 (evt_attempt ev) @ ascii ''/'' @
              dec_u32 (evt_max_retries ev) @ ascii '' in '' @ dec_u32 (evt_delay_ms ev) @ ascii ''ms''
          else
            name @ ascii '' HTTP '' @ signed_decimal (evt_http_status ev) @ ascii ''; retry '' @ dec_u32 (evt_attempt ev) @
              ascii ''/'' @ dec_u32 (evt_max_retries ev) @ ascii '' in '' @ dec_u32 (evt_delay_ms ev) @ ascii ''ms'' @
              (if evt_server_driven ev then ascii '' (server Retry-After)'' else [])
      | OTLP_EVT_ITEMS_DROPPED \<Rightarrow>
          if evt_drop_reason ev = OTLP_DROP_HTTP_STATUS then
            ascii ''HTTP '' @ signed_decimal (evt_http_status ev) @ ascii '': '' @ dec_u64 (evt_count ev) @ ascii '' '' @ name @
              ascii '' dropped (permanent)''
          else if evt_http_status ev = 0 then
            ascii ''network error: '' @ dec_u64 (evt_count ev) @ ascii '' '' @ name @ ascii '' dropped (max retries '' @
              dec_u32 (evt_max_retries ev) @ ascii '')''
          else
            ascii ''HTTP '' @ signed_decimal (evt_http_status ev) @ ascii '': '' @ dec_u64 (evt_count ev) @ ascii '' '' @ name @
              ascii '' dropped (max retries '' @ dec_u32 (evt_max_retries ev) @ ascii '')''
      | OTLP_EVT_PARTIAL_SUCCESS \<Rightarrow>
          if evt_count ev > 0 then
            ascii ''collector partial success: '' @ dec_u64 (evt_rejected ev) @ ascii '' of '' @ dec_u64 (evt_count ev) @
              ascii '' '' @ name @ ascii '' rejected''
          else
            ascii ''collector partial success: '' @ dec_u64 (evt_rejected ev) @ ascii '' '' @ name @ ascii '' rejected''
      | OTLP_EVT_SYNC_FLUSH_FAILED \<Rightarrow>
          if evt_status ev = OTLP_ERR_TIMEOUT then
            ascii ''sync flush '' @ name @ ascii '': timeout after '' @ dec_u32 (evt_timeout_ms ev) @ ascii ''ms''
          else if evt_http_status ev > 0 then
            ascii ''sync flush '' @ name @ ascii '': HTTP '' @ signed_decimal (evt_http_status ev)
          else
            ascii ''sync flush '' @ name @ ascii '': failed (st='' @ signed_decimal (status_code (evt_status ev)) @ ascii '')'')"

text \<open>\<open>snprintf_at\<close>: what a buffer of \<open>cap\<close> bytes holds after printing at the end of \<open>buf\<close>.\<close>

definition snprintf_at :: "nat \<Rightarrow> cstr \<Rightarrow> cstr \<Rightarrow> cstr" where
  "snprintf_at cap buf txt = buf @ take (cap - length buf - 1) txt"

definition event_detail :: "evt \<Rightarrow> cstr" where
  "event_detail ev =
     (case evt_detail ev of
        Some d \<Rightarrow> if length d > 0 then ascii '': '' @ takeWhile (\<lambda>c. c \<noteq> 0) (take (if length d > 128 then 128 else length d) d) else []
      | None \<Rightarrow> [])"

definition format_event :: "nat \<Rightarrow> evt \<Rightarrow> cstr" where
  "format_event cap ev =
     (let buf = snprintf_at cap [] (event_text ev) in
      if evt_code ev = OTLP_EVT_PARTIAL_SUCCESS \<and> event_detail ev \<noteq> [] then snprintf_at cap buf (event_detail ev) else buf)"

section \<open>A request carries its batch\<close>

text \<open>The items an encoder accepts, and the message a batch means.\<close>

fun item_ok :: "signal \<Rightarrow> item \<Rightarrow> bool" where
  "item_ok SIGNAL_SPAN x \<longleftrightarrow> (\<exists>s. x = Item_Span s \<and> ids_sized s)"
| "item_ok SIGNAL_METRIC x \<longleftrightarrow> (\<exists>m. x = Item_Metric m \<and> metric_ok m)"
| "item_ok SIGNAL_LOG x \<longleftrightarrow> (\<exists>l. x = Item_Log l \<and> log_ids_sized l)"

fun batch_msg :: "wire_cfg \<Rightarrow> signal \<Rightarrow> item list \<Rightarrow> pb_msg" where
  "batch_msg C SIGNAL_SPAN items = trace_request_msg (wc_service_name C) (wc_schema_url C) (av_items (wc_resource_attrs C)) None None
     (map (the \<circ> as_span) items)"
| "batch_msg C SIGNAL_METRIC items = metrics_request_msg (wc_service_name C) (wc_schema_url C) (av_items (wc_resource_attrs C)) None None
     (map (the \<circ> as_metric) items)"
| "batch_msg C SIGNAL_LOG items = logs_request_msg (wc_service_name C) (wc_schema_url C) (av_items (wc_resource_attrs C)) None None
     (map (the \<circ> as_log) items)"

text \<open>The user agent and the header fields a request gets from the configuration.\<close>

definition agent_of :: "cstr option \<Rightarrow> cstr" where
  "agent_of ua = (case ua of None \<Rightarrow> ascii ''otlp-c'' | Some s \<Rightarrow> s)"

definition headers_of :: "http_header list option \<Rightarrow> nat \<Rightarrow> http_header list" where
  "headers_of hs n = (case hs of None \<Rightarrow> [] | Some hs \<Rightarrow> take n hs)"

lemma built_reads_as:
  fixes r :: "'s http_request"
  assumes "built_from A (Some url) ua headers n (Some body) (length body) r" and "url_ok url" "length body \<le> SIZE_MAX - HEAD_CAP"
  shows "reads_as (rq_req_buf r) (request_lines url (agent_of ua) (headers_of headers n) (length body)) body"
proof -
  obtain r0 r1 :: "'s http_request" and v v'
    where "build_request A r0 url ua headers n (Some body) (length body) v = (OTLP_OK, r1, v')" "rq_req_buf r = rq_req_buf r1"
    using assms(1) unfolding built_from_def by auto
  with build_request_reads_as [OF _ assms(2), of A r0 ua headers n "Some body" "length body" v r1 v'] assms(3)
  show ?thesis by (simp add: agent_of_def headers_of_def)
qed

lemma build_with_OK:
  assumes run: "build_with N A cap encode (Some url) ua headers n c t sock w = (OTLP_OK, Some r, w')"
    and enc: "msg_emits A encode m" and nz: "nz m"
    and len: "length (ser_msg m) \<le> SIZE_MAX - HEAD_CAP" and cap: "cap \<le> SIZE_MAX" and url: "url_ok url"
  shows "request_ok r \<and> live (rq_state r) \<and> (sock \<noteq> None \<longrightarrow> rq_sock r = sock)
    \<and> reads_as (rq_req_buf r) (request_lines url (agent_of ua) (headers_of headers n) (length (ser_msg m))) (ser_msg m)
    \<and> parse_msg (otlp_pb_reader_init (ser_msg m)) = Some m"
proof -
  obtain st0 b0 w1 where b0: "otlp_pb_buf_init A cap (pb_zero, w) = (st0, b0, w1)" by (rule prod_cases3)
  obtain st1 body w2 where body: "encode (b0, w1) = (st1, body, w2)" by (rule prod_cases3)
  have st: "st0 = OTLP_OK" "st1 = OTLP_OK" and
    start: "start_post_common N A (Some url) ua headers n (Some (pb_data body)) (length (pb_data body)) c t sock w2 = (OTLP_OK, Some r, w')"
    using run by (auto simp: build_with_def b0 body split: if_splits)
  have init: "pb_inv (b0, w1)" "pb_content (b0, w1) = []" using buf_init_spec [OF b0 cap] by simp_all
  have len': "length (ser_msg m) \<le> SIZE_MAX" using len by simp
  note sent = msg_emits_run [OF enc nz len' init(1) body]
  have data: "pb_data body = ser_msg m" using sent init(2) st(2) by (auto simp: pb_content_def)
  have ok: "request_ok r \<and> live (rq_state r) \<and> (sock \<noteq> None \<longrightarrow> rq_sock r = sock)
      \<and> built_from A (Some url) ua headers n (Some (pb_data body)) (length (pb_data body)) r"
  proof (cases "sock = None")
    case True
    then show ?thesis using start start_ok unfolding start_post_common_def by fastforce
  next
    case False
    then show ?thesis using start start_with_socket_ok unfolding start_post_common_def by fastforce
  qed
  with built_reads_as [OF _ url, of A ua headers n "pb_data body" r] len data
  have "reads_as (rq_req_buf r) (request_lines url (agent_of ua) (headers_of headers n) (length (ser_msg m))) (ser_msg m)" by simp
  with ok sent show ?thesis by blast
qed

lemma map_items: "\<forall>x \<in> set items. \<exists>y. x = con y \<and> P y \<Longrightarrow> (\<And>y. proj (con y) = Some y) \<Longrightarrow>
    map proj items = map Some (map (the \<circ> proj) items) \<and> (\<forall>y \<in> set (map (the \<circ> proj) items). P y)"
  by (induction items) auto

text \<open>
  C1. What leaves the exporter is the batch. When the table's builder of a signal starts a request for
  a batch of that signal's items, over a fresh connection or the kept one, the request's bytes read back
  as the HTTP request to the signal's endpoint with the configured agent and header fields, whose body
  is the serialized export message of exactly these items, in order; that body parses back to the message.
\<close>

theorem request_carries_batch:
  assumes "spec_build_request N A C s items sock w = (OTLP_OK, Some r, w')"
    and "\<forall>x \<in> set items. item_ok s x" and "url_ok (wc_url C s)"
    and "length items \<le> 2 * OTLP_MAX_BATCH_SIZE" and "length (ser_msg (batch_msg C s items)) \<le> SIZE_MAX - HEAD_CAP"
  shows "reads_as (rq_req_buf r)
      (request_lines (wc_url C s) (agent_of (wc_user_agent C)) (headers_of (wc_http_headers C) (wc_n_http_headers C))
        (length (ser_msg (batch_msg C s items))))
      (ser_msg (batch_msg C s items))
    \<and> parse_msg (otlp_pb_reader_init (ser_msg (batch_msg C s items))) = Some (batch_msg C s items)
    \<and> live (rq_state r) \<and> (sock \<noteq> None \<longrightarrow> rq_sock r = sock)"
proof (cases s)
  case SIGNAL_SPAN
  have i: "map as_span items = map Some (map (the \<circ> as_span) items)" "\<forall>y \<in> set (map (the \<circ> as_span) items). ids_sized y"
    using map_items [of items Item_Span ids_sized as_span] assms(2) SIGNAL_SPAN by simp_all
  have run: "build_with N A (length (map as_span items) * 256 + 1024)
      (otlp_encode_export_trace_service_request A (wc_service_name C) (wc_schema_url C) (av_items (wc_resource_attrs C)) None None (map as_span items))
      (Some (wc_url C s)) (wc_user_agent C) (wc_http_headers C) (wc_n_http_headers C) (wc_connect_timeout_ms C) (wc_read_timeout_ms C) sock w =
      (OTLP_OK, Some r, w')"
    using assms(1) by (simp add: spec_build_request_def otlp_exporter_otel_build_span_request_def SIGNAL_SPAN)
  show ?thesis
    using build_with_OK [OF run [unfolded i(1)] trace_request_emits [OF i(2)] nz_trace_msgs(6) _ _ assms(3)] assms(4,5)
    by (simp add: SIGNAL_SPAN OTLP_MAX_BATCH_SIZE_def SIZE_MAX_def)
next
  case SIGNAL_METRIC
  have i: "map as_metric items = map Some (map (the \<circ> as_metric) items)" "\<forall>y \<in> set (map (the \<circ> as_metric) items). metric_ok y"
    using map_items [of items Item_Metric metric_ok as_metric] assms(2) SIGNAL_METRIC by simp_all
  have run: "build_with N A (length (map as_metric items) * 128 + 512)
      (otlp_encode_export_metrics_service_request A (wc_service_name C) (wc_schema_url C) (av_items (wc_resource_attrs C)) None None (map as_metric items))
      (Some (wc_url C s)) (wc_user_agent C) (wc_http_headers C) (wc_n_http_headers C) (wc_connect_timeout_ms C) (wc_read_timeout_ms C) sock w =
      (OTLP_OK, Some r, w')"
    using assms(1) by (simp add: spec_build_request_def otlp_exporter_otel_build_metric_request_def SIGNAL_METRIC)
  show ?thesis
    using build_with_OK [OF run [unfolded i(1)] metrics_request_emits [OF i(2)] nz_metrics_request _ _ assms(3)] assms(4,5)
    by (simp add: SIGNAL_METRIC OTLP_MAX_BATCH_SIZE_def SIZE_MAX_def)
next
  case SIGNAL_LOG
  have i: "map as_log items = map Some (map (the \<circ> as_log) items)" "\<forall>y \<in> set (map (the \<circ> as_log) items). log_ids_sized y"
    using map_items [of items Item_Log log_ids_sized as_log] assms(2) SIGNAL_LOG by simp_all
  have run: "build_with N A (length (map as_log items) * 128 + 512)
      (otlp_encode_export_logs_service_request A (wc_service_name C) (wc_schema_url C) (av_items (wc_resource_attrs C)) None None (map as_log items))
      (Some (wc_url C s)) (wc_user_agent C) (wc_http_headers C) (wc_n_http_headers C) (wc_connect_timeout_ms C) (wc_read_timeout_ms C) sock w =
      (OTLP_OK, Some r, w')"
    using assms(1) by (simp add: spec_build_request_def otlp_exporter_otel_build_log_request_def SIGNAL_LOG)
  show ?thesis
    using build_with_OK [OF run [unfolded i(1)] logs_request_emits [OF i(2)] nz_log_msgs(3) _ _ assms(3)] assms(4,5)
    by (simp add: SIGNAL_LOG OTLP_MAX_BATCH_SIZE_def SIZE_MAX_def)
qed

section \<open>The donated socket\<close>

text \<open>A kernel that records the descriptors closed, and an allocator with a budget, over one state.\<close>

definition closing_posix :: "(unit, int list \<times> nat) posix" where
  "closing_posix = \<lparr>px_getaddrinfo = (\<lambda>h p w. (Some [()], w)), px_socket = (\<lambda>a w. (3, w)), px_nonblock = (\<lambda>fd w. w),
     px_connect = (\<lambda>fd a w. (None, w)), px_poll_out = (\<lambda>fd w. (1, w)), px_so_error = (\<lambda>fd w. (Some 0, w)),
     px_send = (\<lambda>fd d w. (Inr (length d), w)), px_recv = (\<lambda>fd cap w. (Inr [], w)),
     px_close = (\<lambda>fd (fds, k). (fds @ [fd], k)), px_monotonic = (\<lambda>w. (Some (0, 0), w))\<rparr>"

definition budgeted :: "(int list \<times> nat) allocator" where
  "budgeted = \<lparr>a_alloc = (\<lambda>n (fds, k). (0 < k, fds, k - 1)), a_realloc = (\<lambda>n (fds, k). (0 < k, fds, k - 1))\<rparr>"

definition kept_socket :: otlp_socket where
  "kept_socket = \<lparr>so_fd = 7, so_eof = False, so_connecting = False\<rparr>"

definition build_on_kept :: "nat \<Rightarrow> status \<times> otlp_socket http_request option \<times> (int list \<times> nat)" where
  "build_on_kept k = otlp_exporter_otel_build_span_request (posix_net budgeted closing_posix) budgeted (Some demo_url)
     (Some (ascii ''u'')) None 0 None None [] [] 0 0 (Some kept_socket) ([], k)"


text \<open>A configuration and a batch, built over the kernel of theory \<open>Http_Client_Props\<close>.\<close>

definition demo_cfg :: wire_cfg where
  "demo_cfg = \<lparr>wc_url = (\<lambda>_. demo_url), wc_user_agent = Some (ascii ''u''), wc_service_name = Some (ascii ''svc''),
     wc_schema_url = None, wc_resource_attrs = vec_empty, wc_connect_timeout_ms = 0, wc_read_timeout_ms = 0,
     wc_http_headers = None, wc_n_http_headers = 0\<rparr>"

lemma demo_start_body:
  assumes "length body = 65"
  shows "\<exists>r. otlp_http_request_start demo_net demo_alloc (Some demo_url) (Some (ascii ''u'')) None 0 (Some body) 65 0 0 w = (OTLP_OK, Some r, w)"
proof -
  obtain h where h: "build_head demo_url (ascii ''u'') [] 65 = Some h"
    by (simp add: build_head_def head_append_def demo_url_def HEAD_CAP_def ascii_def CRLF_def decimal.simps)
  have len: "length h < HEAD_CAP" using build_head_Some [OF h] ..
  have clean: "\<not> has_crlf (ascii ''u'')" by (simp add: ascii_def has_crlf_def)
  have b: "build_request demo_alloc r demo_url (Some (ascii ''u'')) None 0 (Some body) 65 w =
      (OTLP_OK, r\<lparr>rq_req_buf := h @ take 65 body, rq_req_sent := 0\<rparr>, w)" for r :: "otlp_socket http_request" and w :: "u8 list list"
    using len clean by (simp add: build_request_def h demo_calls HEAD_CAP_def SIZE_MAX_def)
  show ?thesis by (simp add: otlp_http_request_start_def otlp_calloc_def demo_calls b)
qed

theorem request_carries_batch_witness:
  "\<exists>r w'. spec_build_request demo_net demo_alloc demo_cfg SIGNAL_SPAN [Item_Span (span_zero\<lparr>sp_sampled := True\<rparr>)] None [] = (OTLP_OK, Some r, w')
     \<and> reads_as (rq_req_buf r) (request_lines demo_url (ascii ''u'') [] 65) (ser_msg demo_request)"
proof -
  let ?sp = "span_zero\<lparr>sp_sampled := True\<rparr>"
  have m: "batch_msg demo_cfg SIGNAL_SPAN [Item_Span ?sp] = demo_request"
    by (simp add: demo_cfg_def demo_request_def vec_empty_def)
  have ids: "ids_sized ?sp" by (simp add: ids_sized_def span_zero_def)
  have total: "alloc_total demo_alloc" by (simp add: alloc_total_def demo_calls)
  obtain b0 where b0: "otlp_pb_buf_init demo_alloc (1 * 256 + 1024) (pb_zero, [] :: u8 list list) = (OTLP_OK, b0, [])"
    by (simp add: otlp_pb_buf_init_def OTLP_PB_SBO_SIZE_def demo_calls)
  have init: "pb_inv (b0, [] :: u8 list list)" "pb_content (b0, [] :: u8 list list) = []"
    using buf_init_spec [OF b0] by (simp_all add: SIZE_MAX_def)
  obtain st body w2 where enc: "otlp_encode_export_trace_service_request demo_alloc (Some (ascii ''svc'')) None [] None None
      (map Some [?sp]) (b0, [] :: u8 list list) = (st, body, w2)" by (rule prod_cases3)
  have len: "length (ser_msg demo_request) \<le> SIZE_MAX" by (simp add: demo_request_length SIZE_MAX_def)
  have ids': "\<forall>sp \<in> set [?sp]. ids_sized sp" using ids by simp
  note run = msg_emits_run [OF trace_request_emits [OF ids'] nz_trace_msgs(6) len [unfolded demo_request_def] init(1) enc]
  have "st = OTLP_OK" "pb_data body = ser_msg demo_request"
    using run ids total init(2) by (auto simp: pb_fits_def demo_request_def [symmetric] demo_request_length SIZE_MAX_def pb_content_def)
  moreover obtain r where "otlp_http_request_start demo_net demo_alloc (Some demo_url) (Some (ascii ''u'')) None 0
      (Some (ser_msg demo_request)) 65 0 0 w2 = (OTLP_OK, Some r, w2)"
    using demo_start_body [OF demo_request_length] by blast
  ultimately have b: "spec_build_request demo_net demo_alloc demo_cfg SIGNAL_SPAN [Item_Span ?sp] None [] = (OTLP_OK, Some r, w2)"
    using b0 enc by (simp add: spec_build_request_def otlp_exporter_otel_build_span_request_def demo_cfg_def build_with_def
        start_post_common_def demo_request_length vec_empty_def)
  have "url_ok demo_url" by (simp add: url_ok_def demo_url_def ascii_def has_crlf_def OTLP_HTTP_HOST_MAX_def OTLP_HTTP_PATH_MAX_def)
  then show ?thesis
    using request_carries_batch [OF b, unfolded m] b ids
    by (simp add: demo_request_length SIZE_MAX_def HEAD_CAP_def OTLP_MAX_BATCH_SIZE_def)
      (simp add: demo_cfg_def agent_of_def headers_of_def)
qed

end
