(* ===== verification/Exporter_Sync.thy ===== *)
theory Exporter_Sync
  imports Exporter_Otel
begin

text \<open>
  The synchronous path (\<^verbatim>\<open>src/exporter_sync.c\<close>): one metric or log record is encoded, posted and
  retried while the caller waits, over the HTTP client of theory \<open>Http_Client\<close>. The loops take fuel;
  \<open>None\<close> means that it ran out or that a system call was interrupted for ever. \<open>sleep\<close> is
  \<^verbatim>\<open>nanosleep\<close> in milliseconds.
\<close>

section \<open>One attempt\<close>

definition sync_failed :: "signal \<Rightarrow> evt" where
  "sync_failed s = evt_init OTLP_EVT_SYNC_FLUSH_FAILED OTLP_LOG_ERROR s"

text \<open>The polling loop: the status, whether the server answered, and the exporter afterwards.\<close>

fun post_loop ::
  "nat \<Rightarrow> ('s, 'w) net \<Rightarrow> 'w allocator \<Rightarrow> (u32 \<Rightarrow> 'w \<Rightarrow> 'w) \<Rightarrow> signal \<Rightarrow> u64 \<Rightarrow> 's http_request \<Rightarrow>
     ('i, 'r) exporter \<Rightarrow> 'w \<Rightarrow> (status \<times> bool \<times> ('i, 'r) exporter \<times> 'w) option" where
  "post_loop 0 N A sleep signal deadline req e w = None"
| "post_loop (Suc fuel) N A sleep signal deadline req e w =
     (case otlp_http_request_step N A (Some req) w of
        Some (st, Some r, w1) \<Rightarrow>
          if otlp_http_request_state (Some r) = OTLP_HTTP_REQ_DONE then
            (let http = otlp_http_request_http_status (Some r);
                 ok = (200 \<le> http \<and> http < 300);
                 e1 = (if ok then
                         (case otlp_http_request_body (Some r) of
                            Some b \<Rightarrow> if length b > 0 then otlp_exporter_report_partial_success e signal False 0 b else e
                          | None \<Rightarrow> e)
                       else e);
                 w2 = otlp_http_request_free N (Some r) w1
             in if ok then Some (OTLP_OK, True, e1, w2)
                else Some (OTLP_ERR_NETWORK, True,
                  otlp_exporter_event_log e1 ((sync_failed signal)\<lparr>evt_http_status := int http\<rparr>), w2))
          else if otlp_http_request_state (Some r) = OTLP_HTTP_REQ_FAILED then
            Some (OTLP_ERR_NETWORK, False,
              otlp_exporter_event_log e ((sync_failed signal)\<lparr>evt_status := OTLP_ERR_NETWORK\<rparr>),
              otlp_http_request_free N (Some r) w1)
          else if st \<noteq> OTLP_OK \<and> st \<noteq> OTLP_ERR_WOULDBLOCK then
            Some (st, False, otlp_exporter_event_log e ((sync_failed signal)\<lparr>evt_status := st\<rparr>),
              otlp_http_request_free N (Some r) w1)
          else (case nt_now N w1 of (now, w2) \<Rightarrow>
            if now \<ge> deadline then
              Some (OTLP_ERR_TIMEOUT, False,
                otlp_exporter_event_log e ((sync_failed signal)\<lparr>evt_status := OTLP_ERR_TIMEOUT,
                  evt_timeout_ms := ex_flush_timeout_ms e\<rparr>),
                otlp_http_request_free N (Some r) w2)
            else post_loop fuel N A sleep signal deadline r e (sleep 1 w2))
      | _ \<Rightarrow> None)"

definition flush_post_once ::
  "nat \<Rightarrow> ('s, 'w) net \<Rightarrow> 'w allocator \<Rightarrow> (u32 \<Rightarrow> 'w \<Rightarrow> 'w) \<Rightarrow> wire_cfg \<Rightarrow> signal \<Rightarrow> u8 list option \<Rightarrow> nat \<Rightarrow>
     ('i, 'r) exporter \<Rightarrow> 'w \<Rightarrow> (status \<times> bool \<times> ('i, 'r) exporter \<times> 'w) option" where
  "flush_post_once fuel N A sleep C signal body body_len e w =
     (case otlp_http_request_start N A (Some (wc_url C signal)) (wc_user_agent C) (wc_http_headers C) (wc_n_http_headers C)
             body body_len (wc_connect_timeout_ms C) (wc_read_timeout_ms C) w of
        (OTLP_OK, Some req, w1) \<Rightarrow>
          (case nt_now N w1 of (now, w2) \<Rightarrow>
            post_loop fuel N A sleep signal (now + ucast (ex_flush_timeout_ms e)) req e w2)
      | (st, _, w1) \<Rightarrow>
          Some (st, False, otlp_exporter_event_log e ((sync_failed signal)\<lparr>evt_status := st\<rparr>), w1))"

section \<open>Attempts\<close>

text \<open>The delay before the next attempt: the async policy under a cap of 100 ms.\<close>

definition sync_retry_cfg :: "('i, 'r) exporter \<Rightarrow> retry_cfg" where
  "sync_retry_cfg e = \<lparr>initial_ms = ex_backoff_initial_ms e,
     max_ms = (if ex_backoff_max_ms e < 100 then ex_backoff_max_ms e else 100)\<rparr>"

definition sync_backoff :: "signal \<Rightarrow> u32 \<Rightarrow> ('i, 'r) exporter \<Rightarrow> u32 \<times> ('i, 'r) exporter" where
  "sync_backoff signal attempt e =
     (case otlp_retry_delay_ms (ex_jitter e) (attempt + 1) 0 (sync_retry_cfg e) of (delay, prng, _) \<Rightarrow>
        (delay, otlp_exporter_event_log (e\<lparr>ex_jitter := prng\<rparr>)
          ((evt_init OTLP_EVT_RETRY_ARMED OTLP_LOG_WARN signal)\<lparr>evt_attempt := attempt + 1,
             evt_max_retries := ex_max_retries e, evt_delay_ms := delay\<rparr>)))"

fun attempt_loop ::
  "nat \<Rightarrow> ('s, 'w) net \<Rightarrow> 'w allocator \<Rightarrow> (u32 \<Rightarrow> 'w \<Rightarrow> 'w) \<Rightarrow> wire_cfg \<Rightarrow> signal \<Rightarrow> u8 list option \<Rightarrow> nat \<Rightarrow>
     u32 \<Rightarrow> status \<Rightarrow> ('i, 'r) exporter \<Rightarrow> 'w \<Rightarrow> (status \<times> ('i, 'r) exporter \<times> 'w) option" where
  "attempt_loop 0 N A sleep C signal body body_len attempt st e w = None"
| "attempt_loop (Suc fuel) N A sleep C signal body body_len attempt st e w =
     (if attempt \<le> ex_max_retries e then
        (case flush_post_once fuel N A sleep C signal body body_len e w of
           None \<Rightarrow> None
         | Some (st1, got_response, e1, w1) \<Rightarrow>
             if st1 = OTLP_OK \<or> got_response then Some (st1, e1, w1)
             else if attempt < ex_max_retries e1 then
               (case sync_backoff signal attempt e1 of (delay, e2) \<Rightarrow>
                 attempt_loop fuel N A sleep C signal body body_len (attempt + 1) st1 e2 (sleep delay w1))
             else attempt_loop fuel N A sleep C signal body body_len (attempt + 1) st1 e1 w1)
      else Some (st, e, w))"

definition flush_sync ::
  "nat \<Rightarrow> ('s, 'w) net \<Rightarrow> 'w allocator \<Rightarrow> (u32 \<Rightarrow> 'w \<Rightarrow> 'w) \<Rightarrow> wire_cfg \<Rightarrow> signal \<Rightarrow> u8 list option \<Rightarrow> nat \<Rightarrow>
     ('i, 'r) exporter \<Rightarrow> 'w \<Rightarrow> (status \<times> ('i, 'r) exporter \<times> 'w) option" where
  "flush_sync fuel N A sleep C signal body body_len e w =
     (if body = None \<and> body_len > 0 then Some (OTLP_ERR_NULL, e, w)
      else if ex_null_transport e then Some (OTLP_OK, e, w)
      else attempt_loop fuel N A sleep C signal body body_len 0 OTLP_ERR_NETWORK e w)"

section \<open>The entry points\<close>

text \<open>
  The body of both: count the item as emitted, encode it alone, deliver, and count the outcome.
\<close>

definition count_outcome :: "signal \<Rightarrow> status \<Rightarrow> ('i, 'r) exporter \<Rightarrow> ('i, 'r) exporter" where
  "count_outcome k st e =
     (if st = OTLP_OK then upd_sig k (\<lambda>sg. sg\<lparr>sg_sent := sg_sent sg + 1\<rparr>) e
      else upd_sig k (\<lambda>sg. sg\<lparr>sg_dropped_err := sg_dropped_err sg + 1\<rparr>) e)"

definition flush_item ::
  "nat \<Rightarrow> ('s, 'w) net \<Rightarrow> 'w allocator \<Rightarrow> (u32 \<Rightarrow> 'w \<Rightarrow> 'w) \<Rightarrow> wire_cfg \<Rightarrow> signal \<Rightarrow> ('w pbst \<Rightarrow> status \<times> 'w pbst) \<Rightarrow>
     ('i, 'r) exporter \<Rightarrow> 'w \<Rightarrow> (status \<times> ('i, 'r) exporter \<times> 'w) option" where
  "flush_item fuel N A sleep C k encode e0 w =
     (let e = upd_sig k (\<lambda>sg. sg\<lparr>sg_emitted := sg_emitted sg + 1\<rparr>) e0 in
      case otlp_pb_buf_init A 0 (pb_zero, w) of (st, b, w1) \<Rightarrow>
        if st \<noteq> OTLP_OK then Some (st, upd_sig k (\<lambda>sg. sg\<lparr>sg_dropped_err := sg_dropped_err sg + 1\<rparr>) e, w1)
        else (case encode (b, w1) of (st, body, w2) \<Rightarrow>
          (case (if st = OTLP_OK then flush_sync fuel N A sleep C k (Some (pb_data body)) (length (pb_data body)) e w2
                 else Some (st, e, w2)) of
             None \<Rightarrow> None
           | Some (st1, e1, w3) \<Rightarrow> Some (st1, count_outcome k st1 e1, w3))))"

definition otlp_exporter_flush_metric ::
  "nat \<Rightarrow> ('s, 'w) net \<Rightarrow> 'w allocator \<Rightarrow> (u32 \<Rightarrow> 'w \<Rightarrow> 'w) \<Rightarrow> wire_cfg \<Rightarrow> ('i, 'r) exporter option \<Rightarrow> metric option \<Rightarrow> 'w \<Rightarrow>
     (status \<times> ('i, 'r) exporter option \<times> 'w) option" where
  "otlp_exporter_flush_metric fuel N A sleep C e_ptr m w =
     (case e_ptr of
        None \<Rightarrow> Some (OTLP_ERR_NULL, None, w)
      | Some e \<Rightarrow>
          if m = None then Some (OTLP_ERR_NULL, Some e, w)
          else map_option (\<lambda>(st, e1, w1). (st, Some e1, w1))
            (flush_item fuel N A sleep C SIGNAL_METRIC
              (otlp_encode_export_metrics_service_request A (wc_service_name C) (wc_schema_url C)
                 (av_items (wc_resource_attrs C)) None None [m]) e w))"

definition otlp_exporter_flush_log ::
  "nat \<Rightarrow> ('s, 'w) net \<Rightarrow> 'w allocator \<Rightarrow> (u32 \<Rightarrow> 'w \<Rightarrow> 'w) \<Rightarrow> wire_cfg \<Rightarrow> ('i, 'r) exporter option \<Rightarrow> log_record option \<Rightarrow> 'w \<Rightarrow>
     (status \<times> ('i, 'r) exporter option \<times> 'w) option" where
  "otlp_exporter_flush_log fuel N A sleep C e_ptr lr w =
     (case e_ptr of
        None \<Rightarrow> Some (OTLP_ERR_NULL, None, w)
      | Some e \<Rightarrow>
          if lr = None then Some (OTLP_ERR_NULL, Some e, w)
          else map_option (\<lambda>(st, e1, w1). (st, Some e1, w1))
            (flush_item fuel N A sleep C SIGNAL_LOG
              (otlp_encode_export_logs_service_request A (wc_service_name C) (wc_schema_url C)
                 (av_items (wc_resource_attrs C)) None None [lr]) e w))"

end
