(* ===== verification/Exporter_Sync_Props.thy ===== *)
theory Exporter_Sync_Props
  imports Exporter_Sync Exporter_Props
begin

text \<open>
  What the synchronous path guarantees: the accounting of an item, the retry budget, what OK means,
  that one attempt returns, and that a timeout is retried although the code says it is not.
\<close>

section \<open>What the loops leave of the exporter\<close>

text \<open>Only the jitter state and the log of diagnostics change.\<close>

definition logs_only :: "('i, 'r) exporter \<Rightarrow> evt list \<Rightarrow> ('i, 'r) exporter \<Rightarrow> bool" where
  "logs_only e evs e' \<longleftrightarrow> (\<exists>j. e' = e\<lparr>ex_jitter := j, ex_events := ex_events e @ evs\<rparr>)"

definition events_of :: "event_code \<Rightarrow> evt list \<Rightarrow> evt list" where
  "events_of c evs = filter (\<lambda>ev. evt_code ev = c) evs"

lemma events_of_append [simp]: "events_of c (xs @ ys) = events_of c xs @ events_of c ys"
  by (simp add: events_of_def)

lemma events_of_simps [simp]:
  "events_of c [] = []" "events_of c (ev # evs) = (if evt_code ev = c then ev # events_of c evs else events_of c evs)"
  by (simp_all add: events_of_def)

lemma logs_only_refl [simp]: "logs_only e [] e"
  by (auto simp: logs_only_def intro: exI [of _ "ex_jitter e"])

lemma logs_only_log: "logs_only e evs e' \<Longrightarrow> logs_only e (evs @ [ev]) (otlp_exporter_event_log e' ev)"
  by (auto simp: logs_only_def otlp_exporter_event_log_def)

lemma logs_only_trans: "logs_only e evs e' \<Longrightarrow> logs_only e' evs' e'' \<Longrightarrow> logs_only e (evs @ evs') e''"
  by (auto simp: logs_only_def)

lemma logs_only_frame:
  "logs_only e evs e' \<Longrightarrow> ex_sig e' = ex_sig e \<and> ex_max_retries e' = ex_max_retries e \<and> ex_backoff_max_ms e' = ex_backoff_max_ms e
     \<and> ex_backoff_initial_ms e' = ex_backoff_initial_ms e \<and> ex_flush_timeout_ms e' = ex_flush_timeout_ms e
     \<and> ex_in_flight e' = ex_in_flight e \<and> ex_events e' = ex_events e @ evs"
  by (auto simp: logs_only_def)

lemma sync_failed_code [simp]: "evt_code (sync_failed s) = OTLP_EVT_SYNC_FLUSH_FAILED"
  by (simp add: sync_failed_def evt_init_def)

lemma report_logs_only:
  "\<exists>evs. logs_only e evs (otlp_exporter_report_partial_success e k False n b) \<and> (\<forall>ev \<in> set evs. evt_code ev = OTLP_EVT_PARTIAL_SUCCESS)"
proof -
  obtain f out where d: "otlp_exporter_otel_decode_partial_success (Some b) (length b) ps_none = (f, out)"
    by (cases "otlp_exporter_otel_decode_partial_success (Some b) (length b) ps_none")
  have "otlp_exporter_report_partial_success e k False n b = e \<or>
      (\<exists>ev. otlp_exporter_report_partial_success e k False n b = otlp_exporter_event_log e ev \<and> evt_code ev = OTLP_EVT_PARTIAL_SUCCESS)"
    by (cases f) (auto simp: otlp_exporter_report_partial_success_def d Let_def evt_init_def)
  then show ?thesis
  proof
    assume "otlp_exporter_report_partial_success e k False n b = e"
    then show ?thesis by (intro exI [of _ "[]"]) simp
  next
    assume "\<exists>ev. otlp_exporter_report_partial_success e k False n b = otlp_exporter_event_log e ev \<and> evt_code ev = OTLP_EVT_PARTIAL_SUCCESS"
    then obtain ev where "otlp_exporter_report_partial_success e k False n b = otlp_exporter_event_log e ev" "evt_code ev = OTLP_EVT_PARTIAL_SUCCESS"
      by blast
    then show ?thesis using logs_only_log [OF logs_only_refl, of e ev] by (intro exI [of _ "[ev]"]) simp
  qed
qed

text \<open>One attempt: one failure is reported unless it succeeds, which the server must have answered.\<close>

definition attempt_effect :: "status \<Rightarrow> bool \<Rightarrow> evt list \<Rightarrow> bool" where
  "attempt_effect st got evs \<longleftrightarrow>
     events_of OTLP_EVT_RETRY_ARMED evs = [] \<and> (st = OTLP_OK \<longrightarrow> got)
     \<and> length (events_of OTLP_EVT_SYNC_FLUSH_FAILED evs) = (if st = OTLP_OK then 0 else 1)"

lemma attempt_effect_failed: "st \<noteq> OTLP_OK \<Longrightarrow> evt_code ev = OTLP_EVT_SYNC_FLUSH_FAILED \<Longrightarrow> attempt_effect st got [ev]"
  by (simp add: attempt_effect_def)

lemma attempt_effect_partial:
  assumes "\<forall>ev \<in> set evs. evt_code ev = OTLP_EVT_PARTIAL_SUCCESS"
  shows "attempt_effect OTLP_OK True evs"
proof -
  have "events_of c evs = []" if "c \<noteq> OTLP_EVT_PARTIAL_SUCCESS" for c
    using assms that by (auto simp: events_of_def filter_empty_conv)
  then show ?thesis by (simp add: attempt_effect_def)
qed

lemma post_loop_effect:
  "post_loop fuel N A sleep k deadline req e w = Some (st, got, e', w') \<Longrightarrow> \<exists>evs. logs_only e evs e' \<and> attempt_effect st got evs"
proof (induction fuel arbitrary: req w)
  case (Suc fuel)
  obtain st0 r w1 where step: "otlp_http_request_step N A (Some req) w = Some (st0, Some r, w1)"
    using Suc.prems by (auto split: option.splits prod.splits)
  obtain now w2 where now: "nt_now N w1 = (now, w2)" by (cases "nt_now N w1")
  let ?http = "otlp_http_request_http_status (Some r)"
  have one: "\<exists>evs. logs_only e evs e' \<and> attempt_effect st got evs"
    if "e' = otlp_exporter_event_log e ev" "st \<noteq> OTLP_OK" "evt_code ev = OTLP_EVT_SYNC_FLUSH_FAILED" for ev
    using that logs_only_log [OF logs_only_refl, of e ev] attempt_effect_failed by (intro exI [of _ "[ev]"]) simp
  note run = Suc.prems [unfolded post_loop.simps step option.case prod.case now Let_def]
  consider (ok) "rq_state r = OTLP_HTTP_REQ_DONE" "200 \<le> ?http \<and> ?http < 300" | (answered) "rq_state r = OTLP_HTTP_REQ_DONE" "\<not> (200 \<le> ?http \<and> ?http < 300)"
    | (fail) "rq_state r \<noteq> OTLP_HTTP_REQ_DONE" "rq_state r = OTLP_HTTP_REQ_FAILED \<or> st0 \<noteq> OTLP_OK \<and> st0 \<noteq> OTLP_ERR_WOULDBLOCK \<or> now \<ge> deadline"
    | (again) "rq_state r \<noteq> OTLP_HTTP_REQ_DONE" "rq_state r \<noteq> OTLP_HTTP_REQ_FAILED" "st0 = OTLP_OK \<or> st0 = OTLP_ERR_WOULDBLOCK" "\<not> now \<ge> deadline"
    by blast
  then show ?case
  proof cases
    case ok
    then have r: "st = OTLP_OK" "got" and e': "e' = (case otlp_http_request_body (Some r) of
        Some b \<Rightarrow> if length b > 0 then otlp_exporter_report_partial_success e k False 0 b else e | None \<Rightarrow> e)"
      using run by (auto simp: otlp_http_request_state_def)
    have "\<exists>evs. logs_only e evs e' \<and> (\<forall>ev \<in> set evs. evt_code ev = OTLP_EVT_PARTIAL_SUCCESS)"
      unfolding e' using report_logs_only [of e k 0] by (auto split: option.split intro: exI [of _ "[]"])
    with r attempt_effect_partial show ?thesis by auto
  next
    case answered
    then show ?thesis using run by (intro one) (auto simp: otlp_http_request_state_def)
  next
    case fail
    then have "e' \<in> otlp_exporter_event_log e ` {(sync_failed k)\<lparr>evt_status := OTLP_ERR_NETWORK\<rparr>, (sync_failed k)\<lparr>evt_status := st0\<rparr>,
        (sync_failed k)\<lparr>evt_status := OTLP_ERR_TIMEOUT, evt_timeout_ms := ex_flush_timeout_ms e\<rparr>}" and "st \<noteq> OTLP_OK"
      using run by (auto simp: otlp_http_request_state_def split: if_splits)
    then show ?thesis using one by auto
  next
    case again
    then have "post_loop fuel N A sleep k deadline r e (sleep 1 w2) = Some (st, got, e', w')"
      using run by (auto simp: otlp_http_request_state_def split: if_splits)
    then show ?thesis by (rule Suc.IH)
  qed
qed simp

context socket_layer
begin

lemma start_OK_request:
  assumes run: "otlp_http_request_start N A url ua hs n body len c t w = (OTLP_OK, req, w')"
  shows "req \<noteq> None"
proof -
  obtain u where u: "url = Some u" using run by (cases url) (simp_all add: otlp_http_request_start_def)
  have g: "\<not> (len > 0 \<and> body = None)" using run by (rule_tac notI) (simp add: otlp_http_request_start_def u)
  obtain al w1 where al: "otlp_calloc A 1 SIZEOF_REQUEST w = (al, w1)" by (cases "otlp_calloc A 1 SIZEOF_REQUEST w")
  have al: "otlp_calloc A 1 SIZEOF_REQUEST w = (True, w1)"
    using run al by (cases al) (simp_all add: otlp_http_request_start_def u if_not_P [OF g])
  let ?r0 = "(request_zero :: 's http_request)\<lparr>rq_state := OTLP_HTTP_REQ_CONNECTING, rq_connect_timeout_ms := c, rq_read_timeout_ms := t\<rparr>"
  obtain st r1 w2 where b: "build_request A ?r0 u ua hs n body len w1 = (st, r1, w2)" by (rule prod_cases3)
  obtain conn w3 where conn: "nt_connect N (url_host u) (url_port u) w2 = (conn, w3)"
    by (cases "nt_connect N (url_host u) (url_port u) w2")
  note run = run [unfolded otlp_http_request_start_def u option.case if_not_P [OF g] al prod.case bool.case Let_def b conn]
  have st: "st = OTLP_OK" using run by (auto split: if_splits)
  obtain sock where "conn = Inr sock" using run st connect_error [of "url_host u" "url_port u" w2 OTLP_OK w3] conn by (cases conn) auto
  with run st show ?thesis by (auto split: prod.splits if_splits)
qed

lemma flush_post_once_effect:
  assumes "flush_post_once fuel N A sleep C k body n e w = Some (st, got, e', w')"
  shows "\<exists>evs. logs_only e evs e' \<and> attempt_effect st got evs"
proof -
  obtain st0 req w1 where s: "otlp_http_request_start N A (Some (wc_url C k)) (wc_user_agent C) (wc_http_headers C)
      (wc_n_http_headers C) body n (wc_connect_timeout_ms C) (wc_read_timeout_ms C) w = (st0, req, w1)" by (rule prod_cases3)
  show ?thesis
  proof (cases "st0 = OTLP_OK")
    case True
    then obtain r where r: "req = Some r" using start_OK_request s by blast
    obtain now w2 where "nt_now N w1 = (now, w2)" by (cases "nt_now N w1")
    with assms s True r post_loop_effect show ?thesis by (auto simp: flush_post_once_def)
  next
    case False
    then have "st = st0" "e' = otlp_exporter_event_log e ((sync_failed k)\<lparr>evt_status := st0\<rparr>)"
      using assms s by (cases st0; simp add: flush_post_once_def)+
    with False logs_only_log [OF logs_only_refl, of e "(sync_failed k)\<lparr>evt_status := st0\<rparr>"] show ?thesis
      by (intro exI [of _ "[(sync_failed k)\<lparr>evt_status := st0\<rparr>]"]) (auto intro!: attempt_effect_failed)
  qed
qed

end

text \<open>
  All attempts: a success ends them, an answer too; each failed attempt is reported, and between two
  attempts one retry is armed, with a delay under the cap of the synchronous path.
\<close>

definition retries_ok :: "nat \<Rightarrow> status \<Rightarrow> evt list \<Rightarrow> bool" where
  "retries_ok left st evs \<longleftrightarrow>
     length (events_of OTLP_EVT_RETRY_ARMED evs) \<le> left
     \<and> length (events_of OTLP_EVT_SYNC_FLUSH_FAILED evs) = length (events_of OTLP_EVT_RETRY_ARMED evs) + (if st = OTLP_OK then 0 else 1)
     \<and> (\<forall>ev \<in> set (events_of OTLP_EVT_RETRY_ARMED evs). evt_delay_ms ev \<le> 100)"

text \<open>The attempt counter is 32 bits wide; below its bound it counts as a number.\<close>

lemma unat_succ_u32: "a < m \<Longrightarrow> unat (a + 1) = Suc (unat (a :: u32))"
proof -
  assume "a < m"
  then have "unat a + 1 < 2 ^ 32" using unat_u32_lt [of m] by (simp add: word_less_nat_alt)
  then show ?thesis unfolding unat_plus_if' by simp
qed

lemma u32_below: "a < m \<Longrightarrow> a + 1 \<le> (m :: u32)"
  using unat_succ_u32 [of a m] by (simp add: word_less_nat_alt word_le_nat_alt)

lemma u32_below_diff: "a < m \<Longrightarrow> unat (m - a) = Suc (unat (m - (a + 1 :: u32)))"
  using unat_succ_u32 [of a m] u32_below [of a m] by (simp add: unat_sub word_less_nat_alt word_le_nat_alt)

lemma u32_above: "m \<noteq> - 1 \<Longrightarrow> \<not> m + 1 \<le> (m :: u32)"
proof -
  assume "m \<noteq> - 1"
  then have "m < - 1" by (simp add: order_neq_le_trans)
  then show ?thesis using unat_succ_u32 [of m "- 1"] by (simp add: word_le_nat_alt)
qed

lemma delay_capped: "otlp_retry_delay_ms prng attempt 0 cfg = (d, prng', sd) \<Longrightarrow> d \<le> max_ms cfg"
  by (auto simp: otlp_retry_delay_ms_def Let_def split: if_splits prod.splits)

lemma sync_backoff_effect:
  assumes "sync_backoff k attempt e = (delay, e')"
  shows "\<exists>ev. logs_only e [ev] e' \<and> evt_code ev = OTLP_EVT_RETRY_ARMED \<and> evt_delay_ms ev \<le> 100"
proof -
  obtain d prng sd where d: "otlp_retry_delay_ms (ex_jitter e) (attempt + 1) 0 (sync_retry_cfg e) = (d, prng, sd)" by (rule prod_cases3)
  have "d \<le> 100" using delay_capped [OF d] by (auto simp: sync_retry_cfg_def split: if_splits)
  with assms d show ?thesis
    by (auto simp: sync_backoff_def logs_only_def otlp_exporter_event_log_def evt_init_def)
qed

context socket_layer
begin

lemma attempt_loop_effect:
  assumes "attempt_loop fuel N A sleep C k body n attempt st e w = Some (st', e', w')"
    and "ex_max_retries e \<noteq> - 1" "attempt \<le> ex_max_retries e"
  shows "\<exists>evs. logs_only e evs e' \<and> retries_ok (unat (ex_max_retries e - attempt)) st' evs"
  using assms
proof (induction fuel arbitrary: attempt st e w)
  case (Suc fuel)
  let ?max = "ex_max_retries e"
  obtain st1 got e1 w1 where once: "flush_post_once fuel N A sleep C k body n e w = Some (st1, got, e1, w1)"
    using Suc.prems(1,3) by (auto split: option.splits prod.splits)
  obtain evs1 where evs1: "logs_only e evs1 e1" "attempt_effect st1 got evs1" using flush_post_once_effect [OF once] by blast
  have max1: "ex_max_retries e1 = ?max" using logs_only_frame [OF evs1(1)] by simp
  obtain delay e2 where b: "sync_backoff k attempt e1 = (delay, e2)" by (cases "sync_backoff k attempt e1")
  note run = Suc.prems(1) [unfolded attempt_loop.simps if_P [OF Suc.prems(3)] once option.case prod.case b max1]
  have done_now: "\<exists>evs. logs_only e evs e1 \<and> retries_ok m st1 evs" for m
    using evs1 by (intro exI [of _ evs1]) (simp add: retries_ok_def attempt_effect_def)
  consider (stop) "st1 = OTLP_OK \<or> got" | (more) "\<not> (st1 = OTLP_OK \<or> got)" "attempt < ?max" | (last) "\<not> (st1 = OTLP_OK \<or> got)" "attempt = ?max"
    using Suc.prems(3) by fastforce
  then show ?case
  proof cases
    case stop
    with run have "st' = st1" "e' = e1" by auto
    with done_now show ?thesis by blast
  next
    case more
    obtain ev where ev: "logs_only e1 [ev] e2" "evt_code ev = OTLP_EVT_RETRY_ARMED" "evt_delay_ms ev \<le> 100"
      using sync_backoff_effect [OF b] by blast
    have max2: "ex_max_retries e2 = ?max" using logs_only_frame [OF ev(1)] max1 by simp
    have next_attempt: "attempt + 1 \<le> ?max" "unat (?max - attempt) = Suc (unat (?max - (attempt + 1)))"
      using u32_below [OF more(2)] u32_below_diff [OF more(2)] by blast+
    have "attempt_loop fuel N A sleep C k body n (attempt + 1) st1 e2 (sleep delay w1) = Some (st', e', w')"
      using run more by simp
    from Suc.IH [OF this] max2 Suc.prems(2) next_attempt(1)
    obtain evs2 where evs2: "logs_only e2 evs2 e'" "retries_ok (unat (?max - (attempt + 1))) st' evs2" by auto
    have "logs_only e (evs1 @ [ev] @ evs2) e'" using evs1(1) ev(1) evs2(1) by (blast intro: logs_only_trans)
    moreover have "retries_ok (unat (?max - attempt)) st' (evs1 @ [ev] @ evs2)"
      using evs1(2) ev(2,3) evs2(2) more(1) next_attempt(2) by (simp add: retries_ok_def attempt_effect_def)
    ultimately show ?thesis by blast
  next
    case last
    have "attempt_loop fuel N A sleep C k body n (attempt + 1) st1 e1 w1 = Some (st', e', w')" using run last by simp
    moreover have "\<not> attempt + 1 \<le> ?max" using u32_above [OF Suc.prems(2)] last(2) by simp
    ultimately have "st' = st1" "e' = e1" using max1 by (cases fuel; simp)+
    with done_now show ?thesis by blast
  qed
qed simp

lemma flush_sync_effect:
  assumes "flush_sync fuel N A sleep C k body n e w = Some (st, e', w')" "ex_max_retries e \<noteq> - 1"
  shows "\<exists>evs. logs_only e evs e' \<and> length (events_of OTLP_EVT_RETRY_ARMED evs) \<le> unat (ex_max_retries e)
    \<and> length (events_of OTLP_EVT_SYNC_FLUSH_FAILED evs) \<le> Suc (unat (ex_max_retries e))
    \<and> (\<forall>ev \<in> set (events_of OTLP_EVT_RETRY_ARMED evs). evt_delay_ms ev \<le> 100)"
proof (cases "body = None \<and> n > 0 \<or> ex_null_transport e")
  case True
  then have "e' = e" using assms(1) by (auto simp: flush_sync_def split: if_splits)
  then show ?thesis by (intro exI [of _ "[]"]) simp
next
  case False
  then have "attempt_loop fuel N A sleep C k body n 0 OTLP_ERR_NETWORK e w = Some (st, e', w')"
    using assms(1) by (auto simp: flush_sync_def split: if_splits)
  from attempt_loop_effect [OF this assms(2)] obtain evs where "logs_only e evs e'" "retries_ok (unat (ex_max_retries e)) st evs" by auto
  then show ?thesis by (intro exI [of _ evs]) (auto simp: retries_ok_def split: if_splits)
qed

lemma flush_item_effect:
  assumes run: "flush_item fuel N A sleep C k encode e w = Some (st, e', w')" and max: "ex_max_retries e \<noteq> - 1"
  shows "\<exists>j evs. e' = e\<lparr>ex_sig := (ex_sig e)(k := (ex_sig e k)\<lparr>sg_emitted := sg_emitted (ex_sig e k) + 1,
        sg_dropped_err := sg_dropped_err (ex_sig e k) + (if st = OTLP_OK then 0 else 1),
        sg_sent := sg_sent (ex_sig e k) + (if st = OTLP_OK then 1 else 0)\<rparr>),
      ex_jitter := j, ex_events := ex_events e @ evs\<rparr>
    \<and> length (events_of OTLP_EVT_RETRY_ARMED evs) \<le> unat (ex_max_retries e)
    \<and> length (events_of OTLP_EVT_SYNC_FLUSH_FAILED evs) \<le> Suc (unat (ex_max_retries e))
    \<and> (\<forall>ev \<in> set (events_of OTLP_EVT_RETRY_ARMED evs). evt_delay_ms ev \<le> 100)"
proof -
  let ?e = "upd_sig k (\<lambda>sg. sg\<lparr>sg_emitted := sg_emitted sg + 1\<rparr>) e"
  obtain b where b: "otlp_pb_buf_init A 0 (pb_zero, w) = (OTLP_OK, b, w)" by (simp add: buf_init_0)
  obtain st1 body w2 where enc: "encode (b, w) = (st1, body, w2)" by (rule prod_cases3)
  obtain e1 where e1: "(if st1 = OTLP_OK then flush_sync fuel N A sleep C k (Some (pb_data body)) (length (pb_data body)) ?e w2
      else Some (st1, ?e, w2)) = Some (st, e1, w')" "e' = count_outcome k st e1"
    using run by (auto simp: flush_item_def Let_def b enc split: option.splits)
  have "\<exists>evs. logs_only ?e evs e1 \<and> length (events_of OTLP_EVT_RETRY_ARMED evs) \<le> unat (ex_max_retries e)
      \<and> length (events_of OTLP_EVT_SYNC_FLUSH_FAILED evs) \<le> Suc (unat (ex_max_retries e))
      \<and> (\<forall>ev \<in> set (events_of OTLP_EVT_RETRY_ARMED evs). evt_delay_ms ev \<le> 100)"
  proof (cases "st1 = OTLP_OK")
    case True
    have m: "ex_max_retries ?e = ex_max_retries e" by (simp add: upd_sig_def)
    from True e1(1) flush_sync_effect [of fuel A sleep C k "Some (pb_data body)" "length (pb_data body)" ?e w2 st e1 w', unfolded m] max
    show ?thesis by simp
  next
    case False
    then have "e1 = ?e" using e1(1) by simp
    then show ?thesis by (intro exI [of _ "[]"]) simp
  qed
  then obtain evs where evs: "logs_only ?e evs e1" "length (events_of OTLP_EVT_RETRY_ARMED evs) \<le> unat (ex_max_retries e)"
    "length (events_of OTLP_EVT_SYNC_FLUSH_FAILED evs) \<le> Suc (unat (ex_max_retries e))"
    "\<forall>ev \<in> set (events_of OTLP_EVT_RETRY_ARMED evs). evt_delay_ms ev \<le> 100" by blast
  then obtain j where "e1 = ?e\<lparr>ex_jitter := j, ex_events := ex_events e @ evs\<rparr>" by (auto simp: logs_only_def upd_sig_def)
  with e1(2) evs(2-4) show ?thesis
    by (intro exI [of _ j] exI [of _ evs]) (cases "st = OTLP_OK"; simp add: count_outcome_def upd_sig_def)
qed

end

section \<open>What OK means\<close>

lemma post_loop_delivers:
  assumes "post_loop fuel N A sleep k deadline req e w = Some (OTLP_OK, got, e', w')" "http_reach N A r0 req"
  shows "\<exists>r. http_reach N A r0 r \<and> rq_state r = OTLP_HTTP_REQ_DONE \<and> 200 \<le> rq_http_status r \<and> rq_http_status r < 300"
  using assms
proof (induction fuel arbitrary: req w)
  case (Suc fuel)
  obtain st0 r w1 where step: "otlp_http_request_step N A (Some req) w = Some (st0, Some r, w1)"
    using Suc.prems(1) by (auto split: option.splits prod.splits)
  then have "http_step N A req w = Some (st0, r, w1)" by (auto simp: otlp_http_request_step_def)
  with Suc.prems(2) have reach: "http_reach N A r0 r" by (rule http_reach.step)
  obtain now w2 where now: "nt_now N w1 = (now, w2)" by (cases "nt_now N w1")
  note run = Suc.prems(1) [unfolded post_loop.simps step option.case prod.case now Let_def otlp_http_request_state_def otlp_http_request_http_status_def]
  consider "rq_state r = OTLP_HTTP_REQ_DONE" "200 \<le> rq_http_status r \<and> rq_http_status r < 300"
    | "post_loop fuel N A sleep k deadline r e (sleep 1 w2) = Some (OTLP_OK, got, e', w')"
    using run by (cases "rq_state r = OTLP_HTTP_REQ_DONE") (auto split: if_splits)
  then show ?case
  proof cases
    case 1
    with reach show ?thesis by blast
  next
    case 2
    from Suc.IH [OF this reach] show ?thesis .
  qed
qed simp

definition delivered :: "('s, 'w) net \<Rightarrow> 'w allocator \<Rightarrow> wire_cfg \<Rightarrow> signal \<Rightarrow> u8 list option \<Rightarrow> nat \<Rightarrow> bool" where
  "delivered N A C k body n \<longleftrightarrow> (\<exists>r0 r w w'.
     otlp_http_request_start N A (Some (wc_url C k)) (wc_user_agent C) (wc_http_headers C) (wc_n_http_headers C)
       body n (wc_connect_timeout_ms C) (wc_read_timeout_ms C) w = (OTLP_OK, Some r0, w')
     \<and> http_reach N A r0 r \<and> rq_state r = OTLP_HTTP_REQ_DONE \<and> 200 \<le> rq_http_status r \<and> rq_http_status r < 300)"

context socket_layer
begin

lemma flush_post_once_delivers:
  assumes run: "flush_post_once fuel N A sleep C k body n e w = Some (OTLP_OK, got, e', w')"
  shows "delivered N A C k body n"
proof -
  obtain st0 req w1 where s: "otlp_http_request_start N A (Some (wc_url C k)) (wc_user_agent C) (wc_http_headers C)
      (wc_n_http_headers C) body n (wc_connect_timeout_ms C) (wc_read_timeout_ms C) w = (st0, req, w1)" by (rule prod_cases3)
  have st0: "st0 = OTLP_OK" using run s by (cases st0; simp add: flush_post_once_def)
  then obtain r0 where r0: "req = Some r0" using start_OK_request s by blast
  obtain now w2 where "nt_now N w1 = (now, w2)" by (cases "nt_now N w1")
  with run s st0 r0 have "post_loop fuel N A sleep k (now + ucast (ex_flush_timeout_ms e)) r0 e w2 = Some (OTLP_OK, got, e', w')"
    by (simp add: flush_post_once_def)
  from post_loop_delivers [OF this http_reach.start] s st0 r0 show ?thesis unfolding delivered_def by blast
qed

lemma attempt_loop_delivers:
  "attempt_loop fuel N A sleep C k body n attempt st e w = Some (OTLP_OK, e', w') \<Longrightarrow> st \<noteq> OTLP_OK \<Longrightarrow> delivered N A C k body n"
proof (induction fuel arbitrary: attempt st e w)
  case (Suc fuel)
  have le: "attempt \<le> ex_max_retries e" using Suc.prems by (auto split: if_splits)
  obtain st1 got e1 w1 where once: "flush_post_once fuel N A sleep C k body n e w = Some (st1, got, e1, w1)"
    using Suc.prems(1) le by (auto split: option.splits prod.splits)
  obtain delay e2 where b: "sync_backoff k attempt e1 = (delay, e2)" by (cases "sync_backoff k attempt e1")
  note run = Suc.prems(1) [unfolded attempt_loop.simps if_P [OF le] once option.case prod.case b]
  show ?case
  proof (cases "st1 = OTLP_OK")
    case True
    with once show ?thesis using flush_post_once_delivers by blast
  next
    case False
    then obtain attempt' e3 w3 where "attempt_loop fuel N A sleep C k body n attempt' st1 e3 w3 = Some (OTLP_OK, e', w')"
      using run by (auto split: if_splits)
    from Suc.IH [OF this False] show ?thesis .
  qed
qed simp

lemma flush_item_delivers:
  assumes run: "flush_item fuel N A sleep C k encode e w = Some (OTLP_OK, e', w')" and sends: "\<not> ex_null_transport e"
    and enc: "msg_emits A encode m" and nz: "nz m" and len: "length (ser_msg m) \<le> SIZE_MAX - HEAD_CAP" and url: "url_ok (wc_url C k)"
  shows "\<exists>r0 r. request_started N A r0 \<and> http_reach N A r0 r
    \<and> rq_state r = OTLP_HTTP_REQ_DONE \<and> 200 \<le> rq_http_status r \<and> rq_http_status r < 300 \<and> response_parsed r
    \<and> reads_as (rq_wire r) (request_lines (wc_url C k) (agent_of (wc_user_agent C)) (headers_of (wc_http_headers C) (wc_n_http_headers C))
        (length (ser_msg m))) (ser_msg m)
    \<and> parse_msg (otlp_pb_reader_init (ser_msg m)) = Some m"
proof -
  let ?e = "upd_sig k (\<lambda>sg. sg\<lparr>sg_emitted := sg_emitted sg + 1\<rparr>) e"
  obtain b where b: "otlp_pb_buf_init A 0 (pb_zero, w) = (OTLP_OK, b, w)" by (simp add: buf_init_0)
  have init: "pb_inv (b, w)" "pb_content (b, w) = []" using buf_init_spec [OF b] by (simp_all add: SIZE_MAX_def)
  obtain st1 body w2 where e1: "encode (b, w) = (st1, body, w2)" by (rule prod_cases3)
  obtain e1' where e1': "(if st1 = OTLP_OK then flush_sync fuel N A sleep C k (Some (pb_data body)) (length (pb_data body)) ?e w2
      else Some (st1, ?e, w2)) = Some (OTLP_OK, e1', w')"
    using run by (auto simp: flush_item_def Let_def b e1 split: option.splits)
  have st1: "st1 = OTLP_OK" using e1' by (auto split: if_splits)
  have len': "length (ser_msg m) \<le> SIZE_MAX" using len by simp
  note sent = msg_emits_run [OF enc nz len' init(1) e1]
  have data: "pb_data body = ser_msg m" using sent init(2) st1 by (auto simp: pb_content_def)
  have "flush_sync fuel N A sleep C k (Some (ser_msg m)) (length (ser_msg m)) ?e w2 = Some (OTLP_OK, e1', w')"
    using e1' st1 data by simp
  then have "attempt_loop fuel N A sleep C k (Some (ser_msg m)) (length (ser_msg m)) 0 OTLP_ERR_NETWORK ?e w2 = Some (OTLP_OK, e1', w')"
    using sends by (simp add: flush_sync_def upd_sig_def)
  then have "delivered N A C k (Some (ser_msg m)) (length (ser_msg m))" by (rule attempt_loop_delivers) simp
  then obtain r0 r v v' where s: "otlp_http_request_start N A (Some (wc_url C k)) (wc_user_agent C) (wc_http_headers C) (wc_n_http_headers C)
       (Some (ser_msg m)) (length (ser_msg m)) (wc_connect_timeout_ms C) (wc_read_timeout_ms C) v = (OTLP_OK, Some r0, v')"
    and r: "http_reach N A r0 r" "rq_state r = OTLP_HTTP_REQ_DONE" "200 \<le> rq_http_status r" "rq_http_status r < 300"
    unfolding delivered_def by blast
  have r0: "request_ok r0" "live (rq_state r0)"
    "built_from A (Some (wc_url C k)) (wc_user_agent C) (wc_http_headers C) (wc_n_http_headers C) (Some (ser_msg m)) (length (ser_msg m)) r0"
    using start_ok [OF s] by blast+
  have "request_ok r" "rq_req_buf r = rq_req_buf r0" "response_parsed r" using reach_ok [OF r(1) r0(1,2)] r(2) by blast+
  then have "rq_wire r = rq_req_buf r0" using r(2) by (simp add: request_ok_def)
  with built_reads_as [OF r0(3) url len] have "reads_as (rq_wire r) (request_lines (wc_url C k) (agent_of (wc_user_agent C))
      (headers_of (wc_http_headers C) (wc_n_http_headers C)) (length (ser_msg m))) (ser_msg m)" by simp
  moreover have "request_started N A r0" using s unfolding request_started_def by blast
  ultimately show ?thesis using r sent \<open>response_parsed r\<close> by blast
qed

end

section \<open>Flushes\<close>

text \<open>Both entry points, by the kind of item.\<close>

fun item_signal :: "item \<Rightarrow> signal" where
  "item_signal (Item_Span x) = SIGNAL_SPAN"
| "item_signal (Item_Metric x) = SIGNAL_METRIC"
| "item_signal (Item_Log x) = SIGNAL_LOG"

definition sync_flush ::
  "nat \<Rightarrow> ('s, 'w) net \<Rightarrow> 'w allocator \<Rightarrow> (u32 \<Rightarrow> 'w \<Rightarrow> 'w) \<Rightarrow> wire_cfg \<Rightarrow> ('i, 'r) exporter option \<Rightarrow> item \<Rightarrow> 'w \<Rightarrow>
     (status \<times> ('i, 'r) exporter option \<times> 'w) option" where
  "sync_flush fuel N A sleep C e x w =
     (case x of
        Item_Metric m \<Rightarrow> otlp_exporter_flush_metric fuel N A sleep C e (Some m) w
      | Item_Log l \<Rightarrow> otlp_exporter_flush_log fuel N A sleep C e (Some l) w
      | Item_Span _ \<Rightarrow> None)"

text \<open>The encoder each of them runs.\<close>

definition sync_encoder :: "'w allocator \<Rightarrow> wire_cfg \<Rightarrow> item \<Rightarrow> 'w pbst \<Rightarrow> status \<times> 'w pbst" where
  "sync_encoder A C x =
     (case x of
        Item_Metric m \<Rightarrow> otlp_encode_export_metrics_service_request A (wc_service_name C) (wc_schema_url C)
          (av_items (wc_resource_attrs C)) None None [Some m]
      | Item_Log l \<Rightarrow> otlp_encode_export_logs_service_request A (wc_service_name C) (wc_schema_url C)
          (av_items (wc_resource_attrs C)) None None [Some l]
      | Item_Span _ \<Rightarrow> (\<lambda>s. (OTLP_ERR_NULL, s)))"

lemma sync_flush_item:
  "item_signal x \<noteq> SIGNAL_SPAN \<Longrightarrow> sync_flush fuel N A sleep C (Some e) x w =
     map_option (\<lambda>(st, e1, w1). (st, Some e1, w1)) (flush_item fuel N A sleep C (item_signal x) (sync_encoder A C x) e w)"
  by (cases x) (simp_all add: sync_flush_def sync_encoder_def otlp_exporter_flush_metric_def otlp_exporter_flush_log_def)

lemma sync_flush_Some:
  assumes "sync_flush fuel N A sleep C (Some e) x w = Some (st, Some e', w')"
  shows "item_signal x \<noteq> SIGNAL_SPAN
    \<and> flush_item fuel N A sleep C (item_signal x) (sync_encoder A C x) e w = Some (st, e', w')"
proof -
  have "item_signal x \<noteq> SIGNAL_SPAN" using assms by (cases x) (simp_all add: sync_flush_def)
  with assms show ?thesis by (auto simp: sync_flush_item)
qed

lemma sync_encoder_emits:
  assumes "item_ok (item_signal x) x" "item_signal x \<noteq> SIGNAL_SPAN"
  shows "msg_emits A (sync_encoder A C x) (batch_msg C (item_signal x) [x]) \<and> nz (batch_msg C (item_signal x) [x])"
  using assms metrics_request_emits [of "[the (as_metric x)]"] logs_request_emits [of "[the (as_log x)]"]
  by (cases x) (simp_all add: sync_encoder_def nz_metrics_request nz_log_msgs)

text \<open>
  C5. A synchronous flush accounts for its item exactly once and stays within its retry budget. Whatever
  the network does, when it returns the item was counted as emitted and, by the status returned, as sent
  or as dropped, never both and never neither; apart from these counters of its own signal only the
  jitter state and the diagnostics changed. At most \<open>max_retries\<close> retries were announced, none with a
  delay above 100 ms, and at most one failure more than that. The retry bound 0xFFFFFFFF, which wraps the
  attempt counter, is excluded.
\<close>

theorem sync_flush_accounting:
  assumes "sync_flush fuel (posix_net A P) A sleep C (Some e) x w = Some (st, Some e', w')" and "ex_max_retries e \<noteq> - 1"
  shows "\<exists>j evs. let k = item_signal x; sg = ex_sig e k in
    e' = e\<lparr>ex_sig := (ex_sig e)(k := sg\<lparr>sg_emitted := sg_emitted sg + 1,
        sg_dropped_err := sg_dropped_err sg + (if st = OTLP_OK then 0 else 1),
        sg_sent := sg_sent sg + (if st = OTLP_OK then 1 else 0)\<rparr>),
      ex_jitter := j, ex_events := ex_events e @ evs\<rparr>
    \<and> length (events_of OTLP_EVT_RETRY_ARMED evs) \<le> unat (ex_max_retries e)
    \<and> length (events_of OTLP_EVT_SYNC_FLUSH_FAILED evs) \<le> Suc (unat (ex_max_retries e))
    \<and> (\<forall>ev \<in> set (events_of OTLP_EVT_RETRY_ARMED evs). evt_delay_ms ev \<le> 100)"
  unfolding Let_def by (rule posix.flush_item_effect [OF sync_flush_Some [OF assms(1), THEN conjunct2] assms(2)])

text \<open>
  C3. A synchronous flush that reports OK has delivered. Unless the null transport is on, there was then a
  request that the client started and stepped to its end whose answer had a 2xx status, and the bytes the
  sockets accepted for it, read back as an HTTP request, are the request lines of the configuration with
  the serialized export message of exactly this item as the body; the body parses back to the message.
\<close>

theorem sync_flush_ok_delivered:
  assumes "sync_flush fuel (posix_net A P) A sleep C (Some e) x w = Some (OTLP_OK, Some e', w')"
    and "\<not> ex_null_transport e" and "item_ok (item_signal x) x" and "url_ok (wc_url C (item_signal x))"
    and "length (ser_msg (batch_msg C (item_signal x) [x])) \<le> SIZE_MAX - HEAD_CAP"
  shows "\<exists>r0 r. let m = batch_msg C (item_signal x) [x] in
    request_started (posix_net A P) A r0 \<and> http_reach (posix_net A P) A r0 r
    \<and> rq_state r = OTLP_HTTP_REQ_DONE \<and> 200 \<le> rq_http_status r \<and> rq_http_status r < 300 \<and> response_parsed r
    \<and> reads_as (rq_wire r) (request_lines (wc_url C (item_signal x)) (agent_of (wc_user_agent C))
        (headers_of (wc_http_headers C) (wc_n_http_headers C)) (length (ser_msg m))) (ser_msg m)
    \<and> parse_msg (otlp_pb_reader_init (ser_msg m)) = Some m"
proof -
  note run = sync_flush_Some [OF assms(1)]
  note enc = sync_encoder_emits [OF assms(3) conjunct1 [OF run], of A C]
  show ?thesis unfolding Let_def
    by (rule posix.flush_item_delivers [OF conjunct2 [OF run] assms(2) conjunct1 [OF enc] conjunct2 [OF enc] assms(5,4)])
qed

section \<open>A flush over a kernel that answers 200\<close>

definition sync_cfg :: wire_cfg where
  "sync_cfg = demo_cfg\<lparr>wc_service_name := None\<rparr>"

definition ok_response :: "u8 list" where
  "ok_response = message_head (status_line 0x31 [0x32, 0x30, 0x30] []) [ascii ''Content-Length: 0'']"

lemma ok_response_parses:
  "\<exists>p. otlp_http_resp_parse ok_response False = (1, Some p, ok_response) \<and> hr_status p = 200 \<and> hr_body_len p = 0"
proof -
  have fold: "fold_headers [ascii ''Content-Length: 0''] (hdr_init ((0x31::u8) \<ge> 0x31)) = Some \<lparr>hs_content_length = 0,
      hs_cl_seen = True, hs_te_seen = False, hs_te_chunked = False, hs_retry_after_ms = 0, hs_keepalive = True\<rparr>"
    by (simp add: hdr_init_def header_line_def has_prefix_ci_def ascii_def ascii_lower_def is_digit_def
        digit_value_def OTLP_HTTP_RESP_MAX_def OTLP_RETRY_AFTER_MAX_S_def)
  have ok: "status_ok 0x31 [0x32, 0x30, 0x30] []" "\<forall>l \<in> set [ascii ''Content-Length: 0'']. line_ok l"
    by (simp_all add: status_ok_def line_ok_def is_digit_def ascii_def)
  show ?thesis
    using parse_message [OF ok, of "[]" False, unfolded fold] unfolding ok_response_def
    by (simp add: framed_def code_value_def digit_value_def)
qed

definition answer_posix :: "(unit, unit) posix" where
  "answer_posix = \<lparr>px_getaddrinfo = (\<lambda>h p w. (Some [()], w)), px_socket = (\<lambda>a w. (3, w)), px_nonblock = (\<lambda>fd w. w),
     px_connect = (\<lambda>fd a w. (None, w)), px_poll_out = (\<lambda>fd w. (1, w)), px_so_error = (\<lambda>fd w. (Some 0, w)),
     px_send = (\<lambda>fd d w. (Inr (length d), w)), px_recv = (\<lambda>fd cap w. (Inr ok_response, w)),
     px_close = (\<lambda>fd w. w), px_monotonic = (\<lambda>w. (Some (0, 0), w))\<rparr>"

definition answer_net :: "(otlp_socket, unit) net" where
  "answer_net = posix_net demo_alloc answer_posix"

lemma ok_response_size: "ok_response \<noteq> []" "length ok_response \<le> 4096"
  by (simp_all add: ok_response_def message_head_def status_line_def ascii_def CRLF_def)

lemma answer_calls:
  "nt_connect answer_net h p w = (Inr demo_sock, w)" "nt_finish answer_net demo_sock w = (OTLP_OK, demo_sock, w)"
  "nt_now answer_net w = (0, w)" "\<not> nt_eof answer_net demo_sock"
  "data \<noteq> [] \<Longrightarrow> nt_write answer_net demo_sock data w = Some (OTLP_OK, length data, w)"
  "nt_read answer_net demo_sock 4096 w = Some (OTLP_OK, ok_response, demo_sock, w)"
  "nt_close answer_net s w = w"
  using ok_response_size
  by (auto simp: answer_net_def posix_net_def answer_posix_def demo_sock_def demo_alloc_def otlp_socket_connect_def
      otlp_socket_finish_connect_def otlp_platform_now_mono_ms_def otlp_platform_now_mono_nano_def otlp_socket_eof_def
      otlp_socket_write_def otlp_socket_read_def otlp_socket_close_def send_retry.simps recv_retry.simps)

lemma demo_start_sized:
  assumes "length body = 24"
  shows "\<exists>r. otlp_http_request_start answer_net demo_alloc (Some demo_url) (Some (ascii ''u'')) None 0 (Some body) 24 0 0 w = (OTLP_OK, Some r, w)
    \<and> rq_state r = OTLP_HTTP_REQ_SENDING \<and> rq_sock r = Some demo_sock \<and> rq_req_sent r = 0"
proof -
  obtain h where h: "build_head demo_url (ascii ''u'') [] 24 = Some h"
    by (simp add: build_head_def head_append_def demo_url_def HEAD_CAP_def ascii_def CRLF_def decimal.simps)
  have len: "length h < HEAD_CAP" using build_head_Some [OF h] ..
  have clean: "\<not> has_crlf (ascii ''u'')" by (simp add: ascii_def has_crlf_def)
  have b: "build_request demo_alloc r demo_url (Some (ascii ''u'')) None 0 (Some body) 24 w =
      (OTLP_OK, r\<lparr>rq_req_buf := h @ take 24 body, rq_req_sent := 0\<rparr>, w)" for r :: "otlp_socket http_request" and w :: "unit"
    using len clean by (simp add: build_request_def h demo_calls HEAD_CAP_def SIZE_MAX_def)
  show ?thesis by (simp add: otlp_http_request_start_def otlp_calloc_def demo_calls answer_calls b)
qed

text \<open>The request is sent in one step, the answer read in the next.\<close>

lemma demo_post:
  assumes "length body = 24" and "0 < ex_flush_timeout_ms e"
  shows "\<exists>e'. flush_post_once 2 answer_net demo_alloc (\<lambda>ms w. w) sync_cfg k (Some body) 24 e () = Some (OTLP_OK, True, e', ())"
proof -
  obtain r0 where r0: "otlp_http_request_start answer_net demo_alloc (Some demo_url) (Some (ascii ''u'')) None 0 (Some body) 24 0 0 () =
      (OTLP_OK, Some r0, ())" "rq_state r0 = OTLP_HTTP_REQ_SENDING" "rq_sock r0 = Some demo_sock" "rq_req_sent r0 = 0"
    using demo_start_sized [OF assms(1)] by blast
  have lt: "rq_req_sent r0 < length (rq_req_buf r0)" using start_ok [OF r0(1)] r0(2) by (simp add: request_ok_def)
  have wr: "nt_write answer_net demo_sock (drop (rq_req_sent r0) (rq_req_buf r0)) () =
      Some (OTLP_OK, length (rq_req_buf r0) - rq_req_sent r0, ())"
    using lt r0(4) by (subst answer_calls) auto
  obtain r1 where r1: "http_step answer_net demo_alloc r0 () = Some (OTLP_OK, r1, ())" "rq_state r1 = OTLP_HTTP_REQ_READING"
    "rq_sock r1 = Some demo_sock" "rq_resp_buf r1 = []" "rq_resp_cap r1 = 4096"
    using step_send_all [OF r0(2,3) wr lt answer_calls(3) demo_calls(7)] by blast
  obtain p where p: "otlp_http_resp_parse (rq_resp_buf r1 @ ok_response) False = (1, Some p, ok_response)" "hr_status p = 200" "hr_body_len p = 0"
    using ok_response_parses r1(4) by auto
  obtain r2 where r2: "http_step answer_net demo_alloc r1 () = Some (OTLP_OK, r2, ())" "rq_state r2 = OTLP_HTTP_REQ_DONE"
      "otlp_http_request_http_status (Some r2) = 200" "otlp_http_request_body (Some r2) = Some []"
    using step_read [OF r1(2,3) answer_calls(6) ok_response_size(1) _ answer_calls(4) p(1), where A = demo_alloc and w = "()"]
      r1(4,5) ok_response_size(2) p(2,3) by (auto simp: answer_calls)
  have free: "otlp_http_request_free answer_net (Some r) w = w" for r w
    by (simp add: otlp_http_request_free_def answer_calls split: option.split)
  have cfg: "wc_url sync_cfg k = demo_url" "wc_user_agent sync_cfg = Some (ascii ''u'')" "wc_http_headers sync_cfg = None"
    "wc_n_http_headers sync_cfg = 0" "wc_connect_timeout_ms sync_cfg = 0" "wc_read_timeout_ms sync_cfg = 0"
    by (simp_all add: sync_cfg_def demo_cfg_def)
  define d :: u64 where "d = ucast (ex_flush_timeout_ms e)"
  have d: "d > 0" using assms(2) by (simp add: d_def word_less_nat_alt unat_ucast_u32)
  have s2: "otlp_http_request_step answer_net demo_alloc (Some r1) () = Some (OTLP_OK, Some r2, ())"
    and s1: "otlp_http_request_step answer_net demo_alloc (Some r0) () = Some (OTLP_OK, Some r1, ())"
    using r1(1) r2(1) by (simp_all add: otlp_http_request_step_def)
  have two: "post_loop (Suc (Suc 0)) answer_net demo_alloc (\<lambda>ms w. w) k d r0 e () = Some (OTLP_OK, True, e, ())"
    using r1(2) r2(2-4) d by (simp add: s1 s2 otlp_http_request_state_def demo_calls answer_calls free Let_def)
  show ?thesis
    by (simp add: flush_post_once_def cfg r0(1) answer_calls d_def [symmetric] two [simplified] numeral_2_eq_2)
qed

lemma demo_sync_message: "batch_msg sync_cfg SIGNAL_LOG [Item_Log demo_log_record] =
    logs_request_msg None None [] None None [demo_log_record]"
  by (simp add: sync_cfg_def demo_cfg_def vec_empty_def)

lemma demo_sync_flush:
  "\<exists>e'. sync_flush 3 answer_net demo_alloc (\<lambda>ms w. w) sync_cfg (Some (demo_start False)) (Item_Log demo_log_record) () =
     Some (OTLP_OK, Some e', ())"
proof -
  let ?x = "Item_Log demo_log_record" and ?e = "upd_sig SIGNAL_LOG (\<lambda>sg. sg\<lparr>sg_emitted := sg_emitted sg + 1\<rparr>) (demo_start False)"
  let ?m = "batch_msg sync_cfg SIGNAL_LOG [?x]"
  have ids: "item_ok (item_signal ?x) ?x" using demo_log_record_ok by (simp add: log_ok_def log_ids_sized_def)
  have total: "alloc_total (demo_alloc :: unit allocator)" by (simp add: alloc_total_def demo_calls answer_calls)
  have len: "length (ser_msg ?m) = 24" unfolding demo_sync_message by (rule demo_logs_length)
  obtain b where b: "otlp_pb_buf_init demo_alloc 0 (pb_zero, ()) = (OTLP_OK, b, ())" by (simp add: buf_init_0)
  have init: "pb_inv (b, ())" "pb_content (b, ()) = []" using buf_init_spec [OF b] by (simp_all add: SIZE_MAX_def)
  obtain st body w2 where enc: "sync_encoder demo_alloc sync_cfg ?x (b, ()) = (st, body, w2)" by (rule prod_cases3)
  have emits: "msg_emits (demo_alloc :: unit allocator) (sync_encoder demo_alloc sync_cfg ?x) ?m" "nz ?m"
    using sync_encoder_emits [OF ids, of "demo_alloc :: unit allocator" sync_cfg] by simp_all
  have "length (ser_msg ?m) \<le> SIZE_MAX" unfolding len by (simp add: SIZE_MAX_def)
  note run = msg_emits_run [OF emits this init(1) enc]
  have "pb_fits (demo_alloc :: unit allocator) (length (pb_content (b, ())) + length (ser_msg ?m))"
    unfolding pb_fits_def init(2) len using total by (simp add: SIZE_MAX_def)
  with run have st: "st = OTLP_OK" by blast
  with run init(2) have data: "pb_data body = ser_msg ?m" by (auto simp: pb_content_def)
  have e: "ex_max_retries ?e = 5" "ex_null_transport ?e = False" "0 < ex_flush_timeout_ms ?e"
    by (simp_all add: demo_start_def exporter_start_def demo_opts_def)
  obtain e' where "flush_post_once 2 answer_net demo_alloc (\<lambda>ms w. w) sync_cfg SIGNAL_LOG (Some (ser_msg ?m)) 24 ?e () =
      Some (OTLP_OK, True, e', ())"
    using demo_post [OF len e(3)] by blast
  moreover have "(3 :: nat) = Suc 2" by simp
  ultimately have "attempt_loop 3 answer_net demo_alloc (\<lambda>ms w. w) sync_cfg SIGNAL_LOG (Some (ser_msg ?m)) 24 0 OTLP_ERR_NETWORK ?e () =
      Some (OTLP_OK, e', ())"
    using e(1) by (simp only: attempt_loop.simps) simp
  then have "flush_item 3 answer_net demo_alloc (\<lambda>ms w. w) sync_cfg SIGNAL_LOG (sync_encoder demo_alloc sync_cfg ?x) (demo_start False) () =
      Some (OTLP_OK, count_outcome SIGNAL_LOG OTLP_OK e', ())"
    using b enc st data e(2) len by (simp add: flush_item_def flush_sync_def Let_def)
  then show ?thesis using sync_flush_item [of ?x 3 answer_net demo_alloc "\<lambda>ms w. w" sync_cfg "demo_start False" "()"] by simp
qed

theorem sync_flush_accounting_witness:
  "\<exists>e' sg. sync_flush 3 (posix_net demo_alloc answer_posix) demo_alloc (\<lambda>ms w. w) sync_cfg (Some (demo_start False))
      (Item_Log demo_log_record) () = Some (OTLP_OK, Some e', ())
    \<and> ex_sig e' SIGNAL_LOG = sg \<and> sg_emitted sg = 1 \<and> sg_sent sg = 1 \<and> sg_dropped_err sg = 0"
proof -
  obtain e' where run: "sync_flush 3 (posix_net demo_alloc answer_posix) demo_alloc (\<lambda>ms w. w) sync_cfg (Some (demo_start False))
      (Item_Log demo_log_record) () = Some (OTLP_OK, Some e', ())"
    using demo_sync_flush unfolding answer_net_def by blast
  have max: "ex_max_retries (demo_start False) \<noteq> - 1" by (simp add: demo_start_def exporter_start_def demo_opts_def)
  from sync_flush_accounting [OF run max] have "sg_emitted (ex_sig e' SIGNAL_LOG) = 1 \<and> sg_sent (ex_sig e' SIGNAL_LOG) = 1
      \<and> sg_dropped_err (ex_sig e' SIGNAL_LOG) = 0"
    by (auto simp: Let_def demo_start_def exporter_start_def signal_start_def)
  with run show ?thesis by blast
qed

theorem sync_flush_ok_delivered_witness:
  "\<exists>r :: otlp_socket http_request. rq_state r = OTLP_HTTP_REQ_DONE
     \<and> reads_as (rq_wire r) (request_lines demo_url (ascii ''u'') [] 24) (ser_msg (logs_request_msg None None [] None None [demo_log_record]))"
proof -
  obtain e' where run: "sync_flush 3 (posix_net demo_alloc answer_posix) demo_alloc (\<lambda>ms w. w) sync_cfg (Some (demo_start False))
      (Item_Log demo_log_record) () = Some (OTLP_OK, Some e', ())"
    using demo_sync_flush unfolding answer_net_def by blast
  have s: "item_signal (Item_Log demo_log_record) = SIGNAL_LOG" by simp
  have "\<not> ex_null_transport (demo_start False)" by (simp add: demo_start_def exporter_start_def)
  moreover have "item_ok SIGNAL_LOG (Item_Log demo_log_record)" using demo_log_record_ok by (simp add: log_ok_def log_ids_sized_def)
  moreover have "url_ok (wc_url sync_cfg SIGNAL_LOG)"
    by (simp add: sync_cfg_def demo_cfg_def url_ok_def demo_url_def ascii_def has_crlf_def OTLP_HTTP_HOST_MAX_def OTLP_HTTP_PATH_MAX_def)
  moreover have "24 \<le> SIZE_MAX - HEAD_CAP" by (simp add: SIZE_MAX_def HEAD_CAP_def)
  ultimately obtain r :: "otlp_socket http_request" where "rq_state r = OTLP_HTTP_REQ_DONE"
    "reads_as (rq_wire r) (request_lines (wc_url sync_cfg SIGNAL_LOG) (agent_of (wc_user_agent sync_cfg))
        (headers_of (wc_http_headers sync_cfg) (wc_n_http_headers sync_cfg)) 24) (ser_msg (logs_request_msg None None [] None None [demo_log_record]))"
    using sync_flush_ok_delivered [OF run, unfolded s demo_sync_message demo_logs_length Let_def] by blast
  moreover have "wc_url sync_cfg SIGNAL_LOG = demo_url" "agent_of (wc_user_agent sync_cfg) = ascii ''u''"
    "headers_of (wc_http_headers sync_cfg) (wc_n_http_headers sync_cfg) = []"
    by (simp_all add: sync_cfg_def demo_cfg_def agent_of_def headers_of_def)
  ultimately show ?thesis by auto
qed

end
