(* ===== verification/Exporter_Sync_Time.thy ===== *)
theory Exporter_Sync_Time
  imports Exporter_Sync_Props
begin

text \<open>
  The time a synchronous flush takes: over a kernel whose clock advances it always returns, within a
  number of iterations given by its timeout and its retry bound; and a collector that cannot be reached
  costs the whole timeout once per attempt, because timeouts are retried.
\<close>

section \<open>Returning\<close>

text \<open>
  What is needed of the world: system calls end, no call turns the time back, the millisecond clock shows
  the time up to its largest value, and a sleep takes at least a millisecond. \<open>time\<close> is a ghost.
\<close>

definition kernel_progress ::
  "('s, 'w) net \<Rightarrow> 'w allocator \<Rightarrow> (u32 \<Rightarrow> 'w \<Rightarrow> 'w) \<Rightarrow> ('w \<Rightarrow> nat) \<Rightarrow> bool" where
  "kernel_progress N A sleep time \<longleftrightarrow>
     (\<forall>r w. \<exists>st r' w'. http_step N A r w = Some (st, r', w') \<and> time w \<le> time w')
     \<and> (\<forall>w. fst (nt_now N w) = word_of_nat (min (time w) (2 ^ 64 - 1)) \<and> time w \<le> time (snd (nt_now N w)))
     \<and> (\<forall>w. time w < time (sleep 1 w))"

lemma clock_reading:
  assumes "kernel_progress N A sleep time" "nt_now N w = (now, w')"
  shows "unat now = min (time w) (2 ^ 64 - 1) \<and> time w \<le> time w'"
proof -
  have "fst (nt_now N w) = word_of_nat (min (time w) (2 ^ 64 - 1)) \<and> time w \<le> time (snd (nt_now N w))"
    using assms(1) unfolding kernel_progress_def by blast
  then have "now = word_of_nat (min (time w) (2 ^ 64 - 1))" "time w \<le> time w'" using assms(2) by simp_all
  moreover have "min (time w) (2 ^ 64 - 1) < 2 ^ 64" by (rule min.strict_coboundedI2) simp
  ultimately show ?thesis by (simp only: unat_of_nat_u64)
qed

text \<open>The deadline is at most the fuel away from the time shown; each iteration brings it closer.\<close>

lemma post_loop_returns:
  assumes kp: "kernel_progress N A sleep time"
  shows "0 < fuel \<Longrightarrow> unat deadline < min (time w) (2 ^ 64 - 1) + fuel \<Longrightarrow>
    post_loop fuel N A sleep k deadline req e w \<noteq> None"
proof (induction fuel arbitrary: req w)
  case (Suc fuel)
  obtain st r w1 where "http_step N A req w = Some (st, r, w1)" and t1: "time w \<le> time w1"
    using kp unfolding kernel_progress_def by blast
  then have step: "otlp_http_request_step N A (Some req) w = Some (st, Some r, w1)" by (simp add: otlp_http_request_step_def)
  obtain now w2 where now: "nt_now N w1 = (now, w2)" by (cases "nt_now N w1")
  note shown = clock_reading [OF kp now]
  show ?case
  proof (cases "now \<ge> deadline")
    case True
    then show ?thesis by (auto simp: step now Let_def split: if_splits)
  next
    case False
    define T :: nat where "T = 2 ^ 64 - 1"
    have "unat now < unat deadline" using False by (simp add: word_le_nat_alt)
    then have lt: "min (time w1) T < unat deadline" using conjunct1 [OF shown] unfolding T_def by (simp only:)
    have "unat deadline \<le> T" using unat_u64_lt [of deadline] by (simp add: T_def)
    with lt have w1: "time w1 < unat deadline" "time w1 < T" by (auto simp: min_def split: if_splits)
    have d: "unat deadline < min (time w) T + Suc fuel" using Suc.prems(2) by (simp add: T_def)
    have slept: "time w2 < time (sleep 1 w2)" using kp unfolding kernel_progress_def by blast
    have "0 < fuel" "unat deadline < min (time (sleep 1 w2)) T + fuel"
      using d w1 t1 shown slept by (auto simp: min_def split: if_splits)
    then have "post_loop fuel N A sleep k deadline r e (sleep 1 w2) \<noteq> None" unfolding T_def by (rule Suc.IH)
    then obtain res where "post_loop fuel N A sleep k deadline r e (sleep 1 w2) = Some res" by blast
    then show ?thesis by (cases res) (auto simp: step now Let_def split: if_splits)
  qed
qed simp

lemma post_once_returns:
  assumes kp: "kernel_progress N A sleep time" and fuel: "unat (ex_flush_timeout_ms e) < fuel"
  shows "flush_post_once fuel N A sleep C k body n e w \<noteq> None"
proof -
  obtain st req w1 where s: "otlp_http_request_start N A (Some (wc_url C k)) (wc_user_agent C) (wc_http_headers C)
      (wc_n_http_headers C) body n (wc_connect_timeout_ms C) (wc_read_timeout_ms C) w = (st, req, w1)" by (rule prod_cases3)
  obtain now w2 where now: "nt_now N w1 = (now, w2)" by (cases "nt_now N w1")
  let ?d = "now + ucast (ex_flush_timeout_ms e)"
  have "unat ?d \<le> unat now + unat (ex_flush_timeout_ms e)" using unat_add_le [of now "ucast (ex_flush_timeout_ms e)"] by (simp add: unat_ucast_u32)
  also have "\<dots> < min (time w2) (2 ^ 64 - 1) + fuel"
    using clock_reading [OF kp now] fuel by (intro add_le_less_mono) auto
  finally have "unat ?d < min (time w2) (2 ^ 64 - 1) + fuel" .
  then have loop: "post_loop fuel N A sleep k ?d r e w2 \<noteq> None" for r
    by (rule post_loop_returns [OF kp, rotated]) (use fuel in simp)
  show ?thesis
    using loop by (cases st; cases req; simp add: flush_post_once_def s now)
qed

text \<open>What an attempt leaves of the exporter, over any socket layer.\<close>

lemma post_once_frame:
  assumes "flush_post_once fuel N A sleep C k body n e w = Some (st, got, e', w')"
  shows "ex_max_retries e' = ex_max_retries e \<and> ex_flush_timeout_ms e' = ex_flush_timeout_ms e"
proof -
  obtain st0 req w1 where s: "otlp_http_request_start N A (Some (wc_url C k)) (wc_user_agent C) (wc_http_headers C)
      (wc_n_http_headers C) body n (wc_connect_timeout_ms C) (wc_read_timeout_ms C) w = (st0, req, w1)" by (rule prod_cases3)
  obtain now w2 where now: "nt_now N w1 = (now, w2)" by (cases "nt_now N w1")
  have "\<exists>evs. logs_only e evs e'"
  proof (cases "st0 = OTLP_OK \<and> req \<noteq> None")
    case True
    with assms s now obtain r d where "post_loop fuel N A sleep k d r e w2 = Some (st, got, e', w')"
      by (auto simp: flush_post_once_def)
    from post_loop_effect [OF this] show ?thesis by blast
  next
    case False
    then have "e' = otlp_exporter_event_log e ((sync_failed k)\<lparr>evt_status := st0\<rparr>)"
      using assms s by (cases st0; cases req; simp add: flush_post_once_def)
    then show ?thesis using logs_only_log [OF logs_only_refl] by blast
  qed
  then show ?thesis using logs_only_frame by blast
qed

lemma attempt_loop_returns:
  assumes kp: "kernel_progress N A sleep time"
  shows "ex_max_retries e \<noteq> - 1 \<Longrightarrow> attempt \<le> ex_max_retries e \<Longrightarrow>
    unat (ex_max_retries e - attempt) + unat (ex_flush_timeout_ms e) + 3 \<le> fuel \<Longrightarrow>
    attempt_loop fuel N A sleep C k body n attempt st e w \<noteq> None"
proof (induction fuel arbitrary: attempt st e w)
  case (Suc fuel)
  let ?max = "ex_max_retries e"
  obtain st1 got e1 w1 where once: "flush_post_once fuel N A sleep C k body n e w = Some (st1, got, e1, w1)"
    using post_once_returns [OF kp, of e fuel C k body n w] Suc.prems(3) by auto
  note frame = post_once_frame [OF once]
  obtain delay e2 where b: "sync_backoff k attempt e1 = (delay, e2)" by (cases "sync_backoff k attempt e1")
  have frame2: "ex_max_retries e2 = ?max" "ex_flush_timeout_ms e2 = ex_flush_timeout_ms e"
    using sync_backoff_effect [OF b] logs_only_frame [of e1 _ e2] frame by auto
  show ?case
  proof (cases "attempt < ?max")
    case True
    have "attempt_loop fuel N A sleep C k body n (attempt + 1) st1 e2 (sleep delay w1) \<noteq> None"
    proof (rule Suc.IH)
      show "ex_max_retries e2 \<noteq> - 1" "attempt + 1 \<le> ex_max_retries e2" using frame2 Suc.prems(1) u32_below [OF True] by simp_all
      show "unat (ex_max_retries e2 - (attempt + 1)) + unat (ex_flush_timeout_ms e2) + 3 \<le> fuel"
        using Suc.prems(3) u32_below_diff [OF True] frame2 by simp
    qed
    then show ?thesis using Suc.prems(2) True frame by (simp add: once b)
  next
    case False
    then have "attempt = ?max" using Suc.prems(2) by simp
    then have over: "\<not> attempt + 1 \<le> ex_max_retries e1" using u32_above [OF Suc.prems(1)] frame by simp
    have "attempt_loop fuel N A sleep C k body n (attempt + 1) st1 e1 w1 \<noteq> None"
      using Suc.prems(3) over by (cases fuel) simp_all
    then show ?thesis using Suc.prems(2) False frame by (simp add: once)
  qed
qed simp


text \<open>A socket layer that connects and then never delivers, over a clock of milliseconds.\<close>

definition idle_net :: "(unit, nat) net" where
  "idle_net = \<lparr>nt_connect = (\<lambda>h p w. (Inr (), w)), nt_finish = (\<lambda>s w. (OTLP_OK, s, w)),
     nt_write = (\<lambda>s d w. Some (OTLP_OK, length d, w)), nt_read = (\<lambda>s n w. Some (OTLP_ERR_WOULDBLOCK, [], s, w)),
     nt_eof = (\<lambda>s. False), nt_close = (\<lambda>s w. w), nt_fd = (\<lambda>s. 3), nt_now = (\<lambda>w. (word_of_nat (min w (2 ^ 64 - 1)), w))\<rparr>"

definition idle_sleep :: "u32 \<Rightarrow> nat \<Rightarrow> nat" where
  "idle_sleep ms w = w + unat ms"

lemma idle_progress: "kernel_progress idle_net demo_alloc idle_sleep (\<lambda>w. w)"
proof -
  have "\<exists>st r' w'. http_step idle_net demo_alloc r w = Some (st, r', w') \<and> w \<le> w'" for r w
    by (cases "rq_state r"; cases "rq_sock r")
      (auto simp: http_step_def step_connecting_def step_sending_def step_reading_def blocked_def idle_net_def demo_calls Let_def)
  then show ?thesis by (simp add: kernel_progress_def idle_sleep_def) (simp add: idle_net_def)
qed


section \<open>Timeouts are retried\<close>

text \<open>
  A collector that cannot be reached: every connect stays under way. The world counts seconds, and every
  reading of the clock takes one.
\<close>

definition stalled_posix :: "(unit, nat) posix" where
  "stalled_posix = \<lparr>px_getaddrinfo = (\<lambda>h p w. (Some [()], w)), px_socket = (\<lambda>a w. (3, w)), px_nonblock = (\<lambda>fd w. w),
     px_connect = (\<lambda>fd a w. (Some EINPROGRESS, w)), px_poll_out = (\<lambda>fd w. (0, w)), px_so_error = (\<lambda>fd w. (Some 0, w)),
     px_send = (\<lambda>fd d w. (Inl EAGAIN, w)), px_recv = (\<lambda>fd cap w. (Inl EAGAIN, w)),
     px_close = (\<lambda>fd w. w), px_monotonic = (\<lambda>w. (Some (word_of_nat w, 0), Suc w))\<rparr>"

definition stalled_net :: "(otlp_socket, nat) net" where
  "stalled_net = posix_net demo_alloc stalled_posix"

definition stalled_sock :: otlp_socket where
  "stalled_sock = \<lparr>so_fd = 3, so_eof = False, so_connecting = True\<rparr>"

lemma seconds_ms: "w < 2 ^ 30 \<Longrightarrow> (word_of_nat w * 1000000000 :: u64) div 1000000 = word_of_nat (1000 * w)"
proof -
  assume w: "w < 2 ^ 30"
  then have u: "unat (word_of_nat w * 1000000000 :: u64) = w * 1000000000"
    by (simp add: unat_mult_lem [THEN iffD1] unat_of_nat_u64)
  have "unat ((word_of_nat w * 1000000000 :: u64) div 1000000) = 1000 * w" unfolding unat_div u by simp
  moreover have "unat (word_of_nat (1000 * w) :: u64) = 1000 * w" using w by (intro unat_of_nat_u64) simp
  ultimately show ?thesis by (simp only: word_unat_eq_iff)
qed

lemma stalled_calls:
  "nt_connect stalled_net h p w = (Inr stalled_sock, w)" "nt_finish stalled_net stalled_sock w = (OTLP_ERR_WOULDBLOCK, stalled_sock, w)"
  "w < 2 ^ 30 \<Longrightarrow> nt_now stalled_net w = (word_of_nat (1000 * w), Suc w)" "nt_close stalled_net s w = w"
  by (auto simp: stalled_net_def posix_net_def stalled_posix_def stalled_sock_def demo_alloc_def otlp_socket_connect_def
      otlp_socket_finish_connect_def otlp_platform_now_mono_ms_def otlp_platform_now_mono_nano_def otlp_socket_close_def seconds_ms)

text \<open>One attempt: it starts, steps once, finds the deadline past and reports a timeout without an answer.\<close>

lemma stalled_post:
  assumes w: "w + 3 < 2 ^ 30" and t: "ex_flush_timeout_ms e \<le> 1000"
  shows "flush_post_once (Suc fuel) stalled_net demo_alloc sleep demo_cfg k (Some [1, 2]) 2 e w =
    Some (OTLP_ERR_TIMEOUT, False, otlp_exporter_event_log e ((sync_failed k)\<lparr>evt_status := OTLP_ERR_TIMEOUT,
      evt_timeout_ms := ex_flush_timeout_ms e\<rparr>), w + 3)"
proof -
  obtain h where h: "build_head demo_url (ascii ''u'') [] 2 = Some h" using demo_head ..
  have len: "length h < HEAD_CAP" using build_head_Some [OF h] ..
  have clean: "\<not> has_crlf (ascii ''u'')" by (simp add: ascii_def has_crlf_def)
  have b: "build_request demo_alloc r demo_url (Some (ascii ''u'')) None 0 (Some [1, 2]) 2 v =
      (OTLP_OK, r\<lparr>rq_req_buf := h @ [1, 2], rq_req_sent := 0\<rparr>, v)" for r :: "otlp_socket http_request" and v :: nat
    using len clean by (simp add: build_request_def h demo_calls HEAD_CAP_def SIZE_MAX_def)
  obtain r0 where r0: "otlp_http_request_start stalled_net demo_alloc (Some demo_url) (Some (ascii ''u'')) None 0 (Some [1, 2]) 2 0 0 w =
      (OTLP_OK, Some r0, Suc w)" "rq_state r0 = OTLP_HTTP_REQ_CONNECTING" "rq_sock r0 = Some stalled_sock" "rq_connect_timeout_ms r0 = 0"
    using w by (simp add: otlp_http_request_start_def otlp_calloc_def demo_calls b stalled_calls request_zero_def)
  have step: "otlp_http_request_step stalled_net demo_alloc (Some r0) v = Some (OTLP_ERR_WOULDBLOCK, Some r0, v)" for v
    using r0(2-4) by (simp add: otlp_http_request_step_def http_step_def step_connecting_def stalled_calls blocked_def)
  have now: "nt_now stalled_net (Suc w) = (word_of_nat (1000 * (w + 1)), w + 2)" "nt_now stalled_net (w + 2) = (word_of_nat (1000 * (w + 2)), w + 3)"
    using w stalled_calls(3) [of "Suc w"] stalled_calls(3) [of "w + 2"] by simp_all
  define d :: u64 where "d = word_of_nat (1000 * (w + 1)) + ucast (ex_flush_timeout_ms e)"
  have t': "unat (ex_flush_timeout_ms e) \<le> 1000" using t by (simp add: word_le_nat_alt)
  have u1: "unat (word_of_nat (1000 * (w + 1)) :: u64) = 1000 * (w + 1)" and u2: "unat (word_of_nat (1000 * (w + 2)) :: u64) = 1000 * (w + 2)"
    using w by (intro unat_of_nat_u64; simp)+
  have "unat d \<le> 1000 * (w + 1) + 1000" using unat_add_le [of "word_of_nat (1000 * (w + 1))" "ucast (ex_flush_timeout_ms e)"] u1 t'
    by (simp add: d_def unat_ucast_u32)
  then have late: "word_of_nat (1000 * (w + 2)) \<ge> d" unfolding word_le_nat_alt u2 by simp
  have free: "otlp_http_request_free stalled_net (Some r) v = v" for r v
    by (simp add: otlp_http_request_free_def stalled_calls split: option.split)
  have cfg: "wc_url demo_cfg k = demo_url" "wc_user_agent demo_cfg = Some (ascii ''u'')" "wc_http_headers demo_cfg = None"
    "wc_n_http_headers demo_cfg = 0" "wc_connect_timeout_ms demo_cfg = 0" "wc_read_timeout_ms demo_cfg = 0"
    by (simp_all add: demo_cfg_def)
  define w2 where "w2 = w + 2"
  define now2 :: u64 where "now2 = word_of_nat (1000 * (w + 2))"
  have now2: "nt_now stalled_net w2 = (now2, w + 3)" "now2 \<ge> d" using now(2) late by (simp_all only: w2_def now2_def)
  have "post_loop (Suc fuel) stalled_net demo_alloc sleep k d r0 e w2 =
      Some (OTLP_ERR_TIMEOUT, False, otlp_exporter_event_log e ((sync_failed k)\<lparr>evt_status := OTLP_ERR_TIMEOUT,
        evt_timeout_ms := ex_flush_timeout_ms e\<rparr>), w + 3)"
    using r0(2) now2(2) by (simp add: step now2(1) otlp_http_request_state_def free)
  then show ?thesis by (simp only: flush_post_once_def cfg r0(1) prod.case option.case status.case now d_def w2_def)
qed

lemma stalled_attempts:
  assumes "ex_max_retries e \<noteq> - 1" "ex_flush_timeout_ms e \<le> 1000"
  shows "unat (ex_max_retries e - attempt) = m \<Longrightarrow> attempt \<le> ex_max_retries e \<Longrightarrow> w + 3 * Suc m < 2 ^ 30 \<Longrightarrow> m + 2 \<le> fuel \<Longrightarrow>
    \<exists>e' evs. attempt_loop fuel stalled_net demo_alloc (\<lambda>ms w. w) demo_cfg k (Some [1, 2]) 2 attempt st e w =
        Some (OTLP_ERR_TIMEOUT, e', w + 3 * Suc m) \<and> logs_only e evs e'
      \<and> length (events_of OTLP_EVT_SYNC_FLUSH_FAILED evs) = Suc m \<and> length (events_of OTLP_EVT_RETRY_ARMED evs) = m
      \<and> (\<forall>ev \<in> set (events_of OTLP_EVT_SYNC_FLUSH_FAILED evs). evt_status ev = OTLP_ERR_TIMEOUT)"
  using assms
proof (induction m arbitrary: attempt w fuel st e)
  case 0
  then obtain f where f: "fuel = Suc (Suc f)" by (cases fuel; cases "fuel - 1") auto
  let ?ev = "(sync_failed k)\<lparr>evt_status := OTLP_ERR_TIMEOUT, evt_timeout_ms := ex_flush_timeout_ms e\<rparr>"
  have "w + 3 < 2 ^ 30" using "0.prems" by simp
  note once = stalled_post [OF this "0.prems"(6), of f "\<lambda>ms w. w" k]
  have "ex_max_retries e - attempt = 0" using "0.prems"(1) by (simp add: unat_eq_zero)
  then have att: "attempt = ex_max_retries e" by simp
  have "\<not> attempt + 1 \<le> ex_max_retries e" using u32_above [OF "0.prems"(5)] att by simp
  then have "attempt_loop fuel stalled_net demo_alloc (\<lambda>ms w. w) demo_cfg k (Some [1, 2]) 2 attempt st e w =
      Some (OTLP_ERR_TIMEOUT, otlp_exporter_event_log e ?ev, w + 3)"
    using att by (simp add: f once)
  moreover have "logs_only e ([] @ [?ev]) (otlp_exporter_event_log e ?ev)" by (rule logs_only_log) simp
  ultimately show ?case by (intro exI [of _ "otlp_exporter_event_log e ?ev"] exI [of _ "[?ev]"]) simp
next
  case (Suc m)
  then obtain f where f: "fuel = Suc (Suc f)" by (cases fuel; cases "fuel - 1") auto
  let ?ev = "(sync_failed k)\<lparr>evt_status := OTLP_ERR_TIMEOUT, evt_timeout_ms := ex_flush_timeout_ms e\<rparr>"
  let ?e1 = "otlp_exporter_event_log e ?ev"
  have "w + 3 < 2 ^ 30" using Suc.prems by simp
  note once = stalled_post [OF this Suc.prems(6), of f "\<lambda>ms w. w" k]
  have lt: "attempt < ex_max_retries e" using Suc.prems(1,2) by (metis order_le_less diff_self unat_0 nat.distinct(1))
  obtain delay e2 where b: "sync_backoff k attempt ?e1 = (delay, e2)" by (cases "sync_backoff k attempt ?e1")
  obtain rt where rt: "logs_only ?e1 [rt] e2" "evt_code rt = OTLP_EVT_RETRY_ARMED" using sync_backoff_effect [OF b] by blast
  have e1: "logs_only e ([] @ [?ev]) ?e1" by (rule logs_only_log) simp
  have fr: "ex_max_retries e2 = ex_max_retries e" "ex_flush_timeout_ms e2 = ex_flush_timeout_ms e"
    using logs_only_frame [OF rt(1)] by simp_all
  have "unat (ex_max_retries e2 - (attempt + 1)) = m" "attempt + 1 \<le> ex_max_retries e2" "w + 3 + 3 * Suc m < 2 ^ 30" "m + 2 \<le> Suc f"
    using Suc.prems(1,3,4) u32_below_diff [OF lt] u32_below [OF lt] fr f by simp_all
  moreover have "ex_max_retries e2 \<noteq> - 1" "ex_flush_timeout_ms e2 \<le> 1000" using Suc.prems(5,6) fr by simp_all
  ultimately obtain e' evs where rest: "attempt_loop (Suc f) stalled_net demo_alloc (\<lambda>ms w. w) demo_cfg k (Some [1, 2]) 2 (attempt + 1)
        OTLP_ERR_TIMEOUT e2 (w + 3) = Some (OTLP_ERR_TIMEOUT, e', w + 3 + 3 * Suc m)" "logs_only e2 evs e'"
      "length (events_of OTLP_EVT_SYNC_FLUSH_FAILED evs) = Suc m" "length (events_of OTLP_EVT_RETRY_ARMED evs) = m"
      "\<forall>ev \<in> set (events_of OTLP_EVT_SYNC_FLUSH_FAILED evs). evt_status ev = OTLP_ERR_TIMEOUT"
    using Suc.IH [of e2 "attempt + 1" "w + 3" "Suc f" OTLP_ERR_TIMEOUT] by blast
  have le: "attempt \<le> ex_max_retries e" "attempt < ex_max_retries ?e1" using lt by simp_all
  have "attempt_loop fuel stalled_net demo_alloc (\<lambda>ms w. w) demo_cfg k (Some [1, 2]) 2 attempt st e w =
      Some (OTLP_ERR_TIMEOUT, e', w + 3 * Suc (Suc m))"
    unfolding f attempt_loop.simps(2) [of "Suc f"] if_P [OF le(1)] once option.case prod.case if_P [OF le(2)] b rest(1) by simp
  moreover have "logs_only e (([] @ [?ev]) @ [rt] @ evs) e'" using e1 rt(1) rest(2) by (blast intro: logs_only_trans)
  ultimately show ?case using rt(2) rest(3-5) by (intro exI [of _ e'] exI [of _ "([] @ [?ev]) @ [rt] @ evs"]) auto
qed

text \<open>
  Timeouts are retried, against the comment that calls them permanent. With a collector that never
  answers the connect, whatever the retry bound (up to a million here) and a flush timeout of at most one
  second, the attempts that time out are all made: one more than the retry bound, each reporting the
  timeout, each retry announced; on a clock that every reading advances by a second the call takes three
  seconds per attempt, so the whole flush exceeds its timeout by the number of attempts.
\<close>

theorem sync_timeout_is_retried:
  assumes "unat (ex_max_retries e) \<le> 1000000" "ex_flush_timeout_ms e \<le> 1000" "\<not> ex_null_transport e"
    and "unat (ex_max_retries e) + 2 \<le> fuel"
  shows "\<exists>e' evs. flush_sync fuel (posix_net demo_alloc stalled_posix) demo_alloc (\<lambda>ms w. w) demo_cfg k (Some [1, 2]) 2 e 0 =
        Some (OTLP_ERR_TIMEOUT, e', 3 * Suc (unat (ex_max_retries e))) \<and> logs_only e evs e'
      \<and> length (events_of OTLP_EVT_SYNC_FLUSH_FAILED evs) = Suc (unat (ex_max_retries e))
      \<and> length (events_of OTLP_EVT_RETRY_ARMED evs) = unat (ex_max_retries e)
      \<and> (\<forall>ev \<in> set (events_of OTLP_EVT_SYNC_FLUSH_FAILED evs). evt_status ev = OTLP_ERR_TIMEOUT)"
proof -
  have "ex_max_retries e \<noteq> - 1" using assms(1) by (auto simp: unsigned_minus_1_eq_mask mask_eq_exp_minus_1)
  from stalled_attempts [OF this assms(2), of 0 "unat (ex_max_retries e)" 0 fuel k OTLP_ERR_NETWORK] assms(1,3,4)
  show ?thesis unfolding stalled_net_def by (simp add: flush_sync_def)
qed

theorem sync_timeout_is_retried_witness:
  "\<exists>e' evs. flush_sync 10 (posix_net demo_alloc stalled_posix) demo_alloc (\<lambda>ms w. w) demo_cfg SIGNAL_LOG (Some [1, 2]) 2
      ((demo_start False)\<lparr>ex_flush_timeout_ms := 500\<rparr>) 0 = Some (OTLP_ERR_TIMEOUT, e', 18)
    \<and> length (events_of OTLP_EVT_RETRY_ARMED evs) = 5"
proof -
  let ?e = "(demo_start False)\<lparr>ex_flush_timeout_ms := 500\<rparr>"
  have "ex_max_retries ?e = 5" "ex_flush_timeout_ms ?e = 500" "\<not> ex_null_transport ?e"
    by (simp_all add: demo_start_def exporter_start_def demo_opts_def)
  with sync_timeout_is_retried [of ?e 10 SIGNAL_LOG] show ?thesis by auto
qed

end
