(* ===== verification/Exporter_Create.thy ===== *)
theory Exporter_Create
  imports Exporter_Sync_Time "HOL-Library.Multiset"
begin

text \<open>
  The exporter's life (\<^verbatim>\<open>otlp_exporter_create\<close> and \<^verbatim>\<open>otlp_exporter_free\<close> of \<^verbatim>\<open>src/exporter.c\<close>): every
  check, copy and allocation of creation, in order, and what destruction hands to the free adapters.
  A failed creation releases what it allocated, which has no effect in the model.
\<close>

section \<open>Creation\<close>

text \<open>The rest of \<^verbatim>\<open>otlp_exporter_opts_t\<close>.\<close>

record create_opts = exporter_opts +
  o_metrics_endpoint :: "cstr option"
  o_logs_endpoint :: "cstr option"
  o_schema_url :: "cstr option"
  o_resource_attributes :: "otlp_kv list option"
  o_n_resource_attributes :: nat
  o_http_headers :: "http_header list option"
  o_n_http_headers :: nat

definition OTLP_RESOURCE_MAX_ATTRS :: nat where "OTLP_RESOURCE_MAX_ATTRS = 128"
definition SIZEOF_EXPORTER :: nat where "SIZEOF_EXPORTER = 2168"
definition SIZEOF_HTTP_HEADER :: nat where "SIZEOF_HTTP_HEADER = 16"
definition SIZEOF_POINTER :: nat where "SIZEOF_POINTER = 8"

text \<open>The endpoint of a signal: its own option, or the base with the signal's default path.\<close>

definition url_zero :: http_url where
  "url_zero = \<lparr>url_host = [], url_port = 0, url_path = []\<rparr>"

definition signal_url :: "http_url \<Rightarrow> cstr option \<Rightarrow> signal \<Rightarrow> http_url option" where
  "signal_url base override s =
     (if override \<noteq> None \<and> override \<noteq> Some [] then
        (case otlp_http_parse_url override url_zero of (st, u) \<Rightarrow> if st \<noteq> OTLP_OK then None else Some u)
      else Some (base\<lparr>url_path := default_path s\<rparr>))"

definition create_urls :: "create_opts \<Rightarrow> (signal \<Rightarrow> http_url) option" where
  "create_urls opt =
     (case otlp_http_parse_url (o_endpoint opt) url_zero of (st, base) \<Rightarrow>
        if st \<noteq> OTLP_OK then None
        else (case signal_url base (o_metrics_endpoint opt) SIGNAL_METRIC of
            None \<Rightarrow> None
          | Some metrics \<Rightarrow> (case signal_url base (o_logs_endpoint opt) SIGNAL_LOG of
                None \<Rightarrow> None
              | Some logs \<Rightarrow> Some (\<lambda>s. case s of SIGNAL_SPAN \<Rightarrow> base | SIGNAL_METRIC \<Rightarrow> metrics | SIGNAL_LOG \<Rightarrow> logs))))"

text \<open>The checked deep copy of the header fields; \<open>None\<close> is the failure exit.\<close>

definition blob_len :: "http_header list \<Rightarrow> nat" where
  "blob_len hs = sum_list (map (\<lambda>(name, v). length (str_or_empty name) + 1 + length (str_or_empty v) + 1) hs) mod (SIZE_MAX + 1)"

definition create_headers :: "'w allocator \<Rightarrow> create_opts \<Rightarrow> 'w \<Rightarrow> (http_header list option \<times> nat) option \<times> 'w" where
  "create_headers A opt w =
     (if o_n_http_headers opt > 0 then
        (case o_http_headers opt of
           None \<Rightarrow> (None, w)
         | Some all_headers \<Rightarrow>
             let hs = take (o_n_http_headers opt) all_headers in
             if \<not> list_all header_clean hs then (None, w)
             else (case otlp_calloc A (o_n_http_headers opt) SIZEOF_HTTP_HEADER w of (hdrs, w1) \<Rightarrow>
               (case a_alloc A (if blob_len hs \<noteq> 0 then blob_len hs else 1) w1 of (blob, w2) \<Rightarrow>
                 if \<not> hdrs \<or> \<not> blob then (None, w2)
                 else (Some (Some (map (\<lambda>(name, v). (name, Some (str_or_empty v))) hs), o_n_http_headers opt), w2))))
      else (Some (None, 0), w))"

text \<open>The resource attributes: the entries skipped, and the upsert of the others.\<close>

definition attr_skipped :: "bool \<Rightarrow> otlp_kv \<Rightarrow> bool" where
  "attr_skipped svc_set src = (case src of (key, v) \<Rightarrow>
     key = None \<or> key = Some [] \<or> (svc_set \<and> key = Some (ascii ''service.name'')) \<or> v = OV_String None \<or> v = OV_String (Some []))"

fun create_attrs :: "'w allocator \<Rightarrow> bool \<Rightarrow> otlp_kv list \<Rightarrow> attr_vec \<Rightarrow> 'w \<Rightarrow> attr_vec option \<times> 'w" where
  "create_attrs A svc_set [] vec w = (Some vec, w)"
| "create_attrs A svc_set (src # srcs) vec w =
     (if attr_skipped svc_set src then create_attrs A svc_set srcs vec w
      else (case otlp_attr_vec_set A vec OTLP_RESOURCE_MAX_ATTRS (fst src) (Some (snd src)) w of (st, vec1, w1) \<Rightarrow>
        if st \<noteq> OTLP_OK then (None, w1) else create_attrs A svc_set srcs vec1 w1))"

definition create_resource :: "'w allocator \<Rightarrow> create_opts \<Rightarrow> 'w \<Rightarrow> attr_vec option \<times> 'w" where
  "create_resource A opt w =
     (case o_resource_attributes opt of
        Some srcs \<Rightarrow> if o_n_resource_attributes opt > 0 then
            create_attrs A (o_service_name opt \<noteq> None \<and> o_service_name opt \<noteq> Some []) (take (o_n_resource_attributes opt) srcs) vec_empty w
          else (Some vec_empty, w)
      | None \<Rightarrow> (Some vec_empty, w))"

text \<open>The batch array and the queue of each signal.\<close>

fun create_queues ::
  "'w allocator \<Rightarrow> create_opts \<Rightarrow> signal list \<Rightarrow> (signal \<Rightarrow> 'i mpsc_queue option) \<Rightarrow> 'w \<Rightarrow>
     (signal \<Rightarrow> 'i mpsc_queue option) option \<times> 'w" where
  "create_queues A opt [] qs w = (Some qs, w)"
| "create_queues A opt (s # ss) qs w =
     (case a_alloc A (o_batch_size opt * 2 * SIZEOF_POINTER mod (SIZE_MAX + 1)) w of
        (False, w1) \<Rightarrow> (None, w1)
      | (True, w1) \<Rightarrow> (case mpsc_queue_init A (word_of_nat (o_queue_capacity opt)) w1 of (st, q, w2) \<Rightarrow>
          if st \<noteq> OTLP_OK then (None, w2) else create_queues A opt ss (qs(s := q)) w2))"

text \<open>\<open>addr\<close> is the address of the new object, which only seeds the jitter.\<close>

definition otlp_exporter_create ::
  "'w allocator \<Rightarrow> ('a, 'w) posix \<Rightarrow> cstr \<Rightarrow> u64 \<Rightarrow> create_opts option \<Rightarrow> 'w \<Rightarrow> (('i, 'r) exporter \<times> wire_cfg) option \<times> 'w" where
  "otlp_exporter_create A P version addr opts_in w =
     (case opts_in of
        None \<Rightarrow> (None, w)
      | Some o_in \<Rightarrow>
          let opt = normalize_opts version o_in in
          (case otlp_calloc A 1 SIZEOF_EXPORTER w of
             (False, w1) \<Rightarrow> (None, w1)
           | (True, w1) \<Rightarrow> (case create_urls opt of
               None \<Rightarrow> (None, w1)
             | Some urls \<Rightarrow>
                 if \<not> otlp_str_is_utf8 (o_service_name opt) then (None, w1)
                 else if \<not> otlp_str_is_utf8 (o_schema_url opt) then (None, w1)
                 else (case otlp_dup_str A (o_user_agent opt) w1 of (agent, w2) \<Rightarrow>
                   (case otlp_dup_str A (o_service_name opt) w2 of (service, w3) \<Rightarrow>
                     (case otlp_dup_str A (o_schema_url opt) w3 of (schema, w4) \<Rightarrow>
                       if agent = None \<or> service = None \<or> (o_schema_url opt \<noteq> None \<and> schema = None) then (None, w4)
                       else (case create_headers A opt w4 of
                           (None, w5) \<Rightarrow> (None, w5)
                         | (Some (headers, n_headers), w5) \<Rightarrow> (case create_resource A opt w5 of
                               (None, w6) \<Rightarrow> (None, w6)
                             | (Some attrs, w6) \<Rightarrow> (case create_queues A opt SIGNALS (\<lambda>_. None) w6 of
                                   (None, w7) \<Rightarrow> (None, w7)
                                 | (Some qs, w7) \<Rightarrow> (case otlp_platform_now_mono_nano P 0 w7 of (_, now, w8) \<Rightarrow>
                                     (Some ((exporter_start opt (the (qs SIGNAL_SPAN)) (now XOR addr))
                                        \<lparr>ex_sig := \<lambda>s. signal_start (o_batch_size opt) (the (qs s))\<rparr>,
                                       \<lparr>wc_url = urls, wc_user_agent = agent, wc_service_name = service, wc_schema_url = schema,
                                        wc_resource_attrs = attrs, wc_connect_timeout_ms = o_connect_timeout_ms opt,
                                        wc_read_timeout_ms = o_read_timeout_ms opt, wc_http_headers = headers,
                                        wc_n_http_headers = n_headers\<rparr>), w8)))))))))))"

definition otlp_exporter_get_resource_attrs :: "wire_cfg option \<Rightarrow> attribute list option \<times> nat" where
  "otlp_exporter_get_resource_attrs c =
     (case c of None \<Rightarrow> (None, 0) | Some C \<Rightarrow> (Some (av_items (wc_resource_attrs C)), length (av_items (wc_resource_attrs C))))"

section \<open>Destruction\<close>

text \<open>What is handed to \<^verbatim>\<open>free_item\<close> for each signal, and the world after the sockets are closed.\<close>

definition otlp_exporter_free ::
  "nat \<Rightarrow> ('s, 'w) net \<Rightarrow> ('i, 's http_request) exporter option \<Rightarrow> 's option \<Rightarrow> 'w \<Rightarrow> (signal \<Rightarrow> 'i list) \<times> 'w" where
  "otlp_exporter_free fuel N e_ptr keepalive_sock w =
     (case e_ptr of
        None \<Rightarrow> (\<lambda>_. [], w)
      | Some e \<Rightarrow>
          let w1 = (case ex_in_flight e of None \<Rightarrow> w | Some r \<Rightarrow> otlp_http_request_free N (Some r) w);
              w2 = (case keepalive_sock of None \<Rightarrow> w1 | Some s \<Rightarrow> nt_close N s w1)
          in (\<lambda>s. drain_signal (ex_sig e s) fuel, w2))"

section \<open>What creation yields\<close>

lemma create_headers_Some:
  assumes "create_headers A opt w = (Some (headers, n), w')"
  shows "n = o_n_http_headers opt \<and> headers_of headers n =
      (if n = 0 then [] else map (\<lambda>(name, v). (name, Some (str_or_empty v))) (take n (the (o_http_headers opt))))
    \<and> list_all header_clean (headers_of headers n)"
proof (cases "o_n_http_headers opt > 0")
  case True
  obtain hs where hs: "o_http_headers opt = Some hs" using assms True by (cases "o_http_headers opt") (simp_all add: create_headers_def)
  let ?hs = "take (o_n_http_headers opt) hs"
  obtain h w1 where h: "otlp_calloc A (o_n_http_headers opt) SIZEOF_HTTP_HEADER w = (h, w1)" by (rule prod.exhaust)
  obtain bl w2 where bl: "a_alloc A (if 0 < blob_len ?hs then blob_len ?hs else 1) w1 = (bl, w2)" by (rule prod.exhaust)
  have clean: "list_all header_clean ?hs"
    using assms True by (cases "list_all header_clean ?hs") (simp_all add: create_headers_def hs)
  have res: "headers = Some (map (\<lambda>(name, v). (name, Some (str_or_empty v))) ?hs)" "n = o_n_http_headers opt"
    using assms True clean by (auto simp: create_headers_def hs h bl Let_def split: if_splits)
  have "header_clean x \<Longrightarrow> header_clean (case x of (name, v) \<Rightarrow> (name, Some (str_or_empty v)))" for x
    by (cases x) (auto simp: str_or_empty_def has_crlf_def split: option.splits)
  with clean have "list_all header_clean (map (\<lambda>(name, v). (name, Some (str_or_empty v))) (take (o_n_http_headers opt) hs))"
    by (auto simp: list_all_iff)
  with hs res True show ?thesis by (simp add: headers_of_def)
next
  case False
  with assms show ?thesis by (simp add: create_headers_def headers_of_def)
qed

text \<open>The attributes a run of upserts leaves, all of which succeeded.\<close>

definition kept_attrs :: "bool \<Rightarrow> otlp_kv list \<Rightarrow> (cstr \<times> otlp_value) list" where
  "kept_attrs svc_set srcs = map (\<lambda>(k, v). (the k, v)) (filter (\<lambda>src. \<not> attr_skipped svc_set src) srcs)"

lemma create_attrs_puts:
  "create_attrs A svc_set srcs vec w = (Some vec', w') \<Longrightarrow>
     run_puts (put_scalar OTLP_RESOURCE_MAX_ATTRS A) (vec, w) (kept_attrs svc_set srcs) =
       (replicate (length (kept_attrs svc_set srcs)) OTLP_OK, (vec', w'))"
proof (induction srcs arbitrary: vec w)
  case (Cons src srcs)
  obtain key v where src: "src = (key, v)" by (cases src)
  show ?case
  proof (cases "attr_skipped svc_set src")
    case True
    then show ?thesis using Cons by (simp add: kept_attrs_def)
  next
    case False
    then obtain k where k: "key = Some k" by (cases key) (simp_all add: src attr_skipped_def)
    obtain st vec1 w1 where set: "otlp_attr_vec_set A vec OTLP_RESOURCE_MAX_ATTRS (Some k) (Some v) w = (st, vec1, w1)" by (rule prod_cases3)
    with Cons.prems False have "st = OTLP_OK" "create_attrs A svc_set srcs vec1 w1 = (Some vec', w')"
      by (auto simp: src k split: if_splits)
    with Cons.IH [OF this(2)] set False show ?thesis by (simp add: kept_attrs_def src k put_scalar_def)
  qed
qed (simp add: kept_attrs_def)

lemma accepted_all: "accepted kvs (replicate (length kvs) OTLP_OK) = kvs"
  by (induction kvs) (simp_all add: accepted_def)

definition attrs_given :: "create_opts \<Rightarrow> (cstr \<times> otlp_value) list" where
  "attrs_given opt = kept_attrs (o_service_name opt \<noteq> None \<and> o_service_name opt \<noteq> Some [])
     (case o_resource_attributes opt of None \<Rightarrow> [] | Some srcs \<Rightarrow> take (o_n_resource_attributes opt) srcs)"

lemma create_resource_Some:
  assumes "create_resource A opt w = (Some vec, w')"
  shows "vec_inv OTLP_RESOURCE_MAX_ATTRS vec \<and>
    vec_lookup vec = map_of (rev (map (\<lambda>(k, v). (k, stored_value v)) (attrs_given opt)))"
proof (cases "o_resource_attributes opt")
  case None
  with assms show ?thesis by (simp add: create_resource_def attrs_given_def kept_attrs_def)
next
  case (Some srcs)
  let ?svc = "o_service_name opt \<noteq> None \<and> o_service_name opt \<noteq> Some []" and ?srcs = "take (o_n_resource_attributes opt) srcs"
  have "create_attrs A ?svc ?srcs vec_empty w = (Some vec, w')" using assms Some by (auto simp: create_resource_def split: if_splits)
  note puts = create_attrs_puts [OF this]
  have "case (vec_empty, w) of (vec, m) \<Rightarrow> vec_inv OTLP_RESOURCE_MAX_ATTRS vec" by simp
  from scalar.puts_last_write_wins [OF this puts] show ?thesis
    using Some by (simp add: accepted_all attrs_given_def)
qed

lemma len_u64: "LENGTH(64) = 64"
  by simp

lemma init_fresh_any:
  fixes q :: "'q mpsc_queue option"
  assumes "mpsc_queue_init A (word_of_nat (2 ^ j)) w = (OTLP_OK, q, w')"
  shows "j \<le> 59 \<and> q = Some (fresh_queue j)"
proof -
  define c :: u64 where "c = word_of_nat (2 ^ j)"
  have u: "unat c = (if j < 64 then 2 ^ j else 0)"
  proof (cases "j < 64")
    case True
    then have "(2::nat) ^ j < 2 ^ 64" by (intro power_strict_increasing) simp_all
    then show ?thesis using True unfolding c_def by (simp only: unat_of_nat_u64 if_True)
  next
    case False
    then have "(2::nat) ^ 64 dvd 2 ^ j" by (intro le_imp_power_dvd) simp
    then show ?thesis using False unfolding c_def unat_of_nat by (simp only: len_u64 if_False mod_eq_0_iff_dvd)
  qed
  have ok: "is_pow2 c" "unat c \<le> SIZE_MAX div SIZEOF_SLOT"
    using assms unfolding c_def [symmetric] by (auto simp: mpsc_queue_init_def split: if_splits)
  have "unat c \<noteq> 0" using ok(1) by (auto simp: is_pow2_def unat_eq_zero)
  with u have "j < 64" "unat c = 2 ^ j" by (auto split: if_splits)
  with ok(2) have "(2::nat) ^ j < 2 ^ 60" by (simp add: SIZE_MAX_def SIZEOF_SLOT_def)
  then have j: "j \<le> 59" using power_less_imp_less_exp [of "2 :: nat" j 60] by simp
  have c: "c = 2 ^ j" by (simp add: c_def)
  have "mpsc_queue_init A c w = (OTLP_OK, q, w')" using assms unfolding c_def .
  then have "\<exists>v. mpsc_queue_init always_alloc c () = (OTLP_OK, q, v)"
    using ok by (auto simp: mpsc_queue_init_def always_alloc_def split: prod.splits bool.splits)
  with init_fresh [OF j, where 'a = 'q] j show ?thesis unfolding c by auto
qed

lemma create_queues_fresh:
  "create_queues A opt ss qs w = (Some qs', w') \<Longrightarrow> o_queue_capacity opt = 2 ^ j \<Longrightarrow>
     (\<forall>s. qs' s = (if s \<in> set ss then Some (fresh_queue j) else qs s)) \<and> (ss \<noteq> [] \<longrightarrow> j \<le> 59)"
proof (induction ss arbitrary: qs w)
  case (Cons s ss)
  obtain w1 where "a_alloc A (o_batch_size opt * 2 * SIZEOF_POINTER mod (SIZE_MAX + 1)) w = (True, w1)"
    using Cons.prems(1) by (auto split: prod.splits bool.splits)
  moreover obtain st q w2 where i: "mpsc_queue_init A (word_of_nat (o_queue_capacity opt)) w1 = (st, q :: 'a mpsc_queue option, w2)" by (rule prod_cases3)
  ultimately have st: "st = OTLP_OK" "create_queues A opt ss (qs(s := q)) w2 = (Some qs', w')"
    using Cons.prems(1) by (auto split: if_splits)
  have "j \<le> 59" "q = Some (fresh_queue j)" using init_fresh_any [of A j w1 q w2] i st(1) Cons.prems(2) by simp_all
  with Cons.IH [OF st(2) Cons.prems(2)] show ?case by auto
qed simp

lemma signal_url_ok: "signal_url base override s = Some u \<Longrightarrow> url_ok base \<Longrightarrow> url_ok u"
proof (cases "override \<noteq> None \<and> override \<noteq> Some []")
  case True
  then obtain t where t: "override = Some t" by blast
  obtain st u' where p: "otlp_http_parse_url (Some t) url_zero = (st, u')" by (cases "otlp_http_parse_url (Some t) url_zero")
  assume "signal_url base override s = Some u"
  with True t p have "st = OTLP_OK" "u = u'" by (auto simp: signal_url_def split: if_splits)
  with p parse_url_texts [of t url_zero u] show ?thesis by simp
next
  case False
  assume "signal_url base override s = Some u" and base: "url_ok base"
  with False have "u = base\<lparr>url_path := default_path s\<rparr>" by (auto simp: signal_url_def)
  with base show ?thesis by (cases s) (simp_all add: url_ok_def ascii_def has_crlf_def OTLP_HTTP_PATH_MAX_def)
qed

text \<open>The endpoints as the documentation describes them.\<close>

definition endpoint_of :: "http_url \<Rightarrow> cstr option \<Rightarrow> signal \<Rightarrow> http_url \<Rightarrow> bool" where
  "endpoint_of base override s u \<longleftrightarrow>
     (case override of None \<Rightarrow> u = base\<lparr>url_path := default_path s\<rparr>
      | Some t \<Rightarrow> if t = [] then u = base\<lparr>url_path := default_path s\<rparr> else url_text t u)"

lemma signal_url_endpoint: "signal_url base override s = Some u \<Longrightarrow> endpoint_of base override s u"
  using parse_url_texts [of _ url_zero u]
  by (auto simp: signal_url_def endpoint_of_def split: option.splits if_splits prod.splits)

lemma create_urls_Some:
  assumes "create_urls opt = Some urls" "o_endpoint opt = Some t"
  shows "url_ok (urls s) \<and> url_text t (urls SIGNAL_SPAN)
    \<and> endpoint_of (urls SIGNAL_SPAN) (o_metrics_endpoint opt) SIGNAL_METRIC (urls SIGNAL_METRIC)
    \<and> endpoint_of (urls SIGNAL_SPAN) (o_logs_endpoint opt) SIGNAL_LOG (urls SIGNAL_LOG)"
proof -
  obtain st base where p: "otlp_http_parse_url (Some t) url_zero = (st, base)" by (cases "otlp_http_parse_url (Some t) url_zero")
  with assms obtain m l where st: "st = OTLP_OK" and m: "signal_url base (o_metrics_endpoint opt) SIGNAL_METRIC = Some m"
    and l: "signal_url base (o_logs_endpoint opt) SIGNAL_LOG = Some l"
    and urls: "urls = (\<lambda>s. case s of SIGNAL_SPAN \<Rightarrow> base | SIGNAL_METRIC \<Rightarrow> m | SIGNAL_LOG \<Rightarrow> l)"
    by (auto simp: create_urls_def split: if_splits option.splits)
  have "url_ok base" "url_text t base" using parse_url_texts p st by blast+
  with signal_url_ok [OF m] signal_url_ok [OF l] signal_url_endpoint [OF m] signal_url_endpoint [OF l] show ?thesis
    unfolding urls by (cases s) simp_all
qed

lemma normalized_rest:
  "o_metrics_endpoint (normalize_opts v opt) = o_metrics_endpoint opt" "o_logs_endpoint (normalize_opts v opt) = o_logs_endpoint opt"
  "o_schema_url (normalize_opts v opt) = o_schema_url opt" "o_resource_attributes (normalize_opts v opt) = o_resource_attributes opt"
  "o_n_resource_attributes (normalize_opts v opt) = o_n_resource_attributes opt"
  "o_http_headers (normalize_opts v opt) = o_http_headers opt" "o_n_http_headers (normalize_opts v opt) = o_n_http_headers opt"
  "o_endpoint (normalize_opts v opt) = Some (case o_endpoint opt of None \<Rightarrow> OTLP_DEFAULT_ENDPOINT | Some t \<Rightarrow> t)"
  "o_service_name (normalize_opts v opt) = Some (str_or_empty (o_service_name opt))"
  by (cases opt; simp add: normalize_opts_def Let_def str_or_empty_def split: option.split)+

text \<open>The successful run, unfolded once.\<close>

lemma create_Some:
  fixes e :: "('i, 'r) exporter"
  assumes "otlp_exporter_create A P version addr (Some o_in) w = (Some (e, C), w')"
  defines "opt \<equiv> normalize_opts version o_in"
  shows "\<exists>urls headers n attrs qs seed v1 v2 v3 v4 v5 v6.
     create_urls opt = Some urls \<and> otlp_str_is_utf8 (o_service_name opt) \<and> otlp_str_is_utf8 (o_schema_url opt)
     \<and> create_headers A opt v1 = (Some (headers, n), v2) \<and> create_resource A opt v3 = (Some attrs, v4)
     \<and> create_queues A opt SIGNALS (\<lambda>_. None) v5 = (Some qs, v6)
     \<and> e = (exporter_start opt (the (qs SIGNAL_SPAN)) seed)\<lparr>ex_sig := \<lambda>s. signal_start (o_batch_size opt) (the (qs s))\<rparr>
     \<and> C = \<lparr>wc_url = urls, wc_user_agent = o_user_agent opt, wc_service_name = o_service_name opt, wc_schema_url = o_schema_url opt,
         wc_resource_attrs = attrs, wc_connect_timeout_ms = o_connect_timeout_ms opt, wc_read_timeout_ms = o_read_timeout_ms opt,
         wc_http_headers = headers, wc_n_http_headers = n\<rparr>"
proof -
  obtain al w1 where al: "otlp_calloc A 1 SIZEOF_EXPORTER w = (al, w1)" by (rule prod.exhaust)
  note run = assms(1) [unfolded otlp_exporter_create_def option.case Let_def opt_def [symmetric] al prod.case]
  have "al" using run by (cases al) simp_all
  note run = run [unfolded this [THEN eqTrueI] bool.case]
  obtain urls where urls: "create_urls opt = Some urls" using run by (cases "create_urls opt") simp_all
  note run = run [unfolded urls option.case]
  have utf8: "otlp_str_is_utf8 (o_service_name opt)" "otlp_str_is_utf8 (o_schema_url opt)" using run by (auto split: if_splits)
  obtain agent w2 where agent: "otlp_dup_str A (o_user_agent opt) w1 = (agent, w2)" by (rule prod.exhaust)
  obtain service w3 where service: "otlp_dup_str A (o_service_name opt) w2 = (service, w3)" by (rule prod.exhaust)
  obtain schema w4 where schema: "otlp_dup_str A (o_schema_url opt) w3 = (schema, w4)" by (rule prod.exhaust)
  note run = run [unfolded agent service schema prod.case]
  have dups: "agent \<noteq> None" "service \<noteq> None" "o_schema_url opt = None \<or> schema \<noteq> None" using run utf8 by (auto split: if_splits)
  have agent': "o_user_agent opt = agent" and service': "o_service_name opt = service" and schema': "o_schema_url opt = schema"
    using dup_str_Some agent service schema dups by (fastforce simp: otlp_dup_str_def)+
  obtain h w5 where h: "create_headers A opt w4 = (h, w5)" by (rule prod.exhaust)
  note run = run [unfolded h prod.case]
  obtain headers n where hn: "h = Some (headers, n)" using run by (cases h) (auto split: if_splits)
  note run = run [unfolded hn option.case prod.case]
  obtain r w6 where r: "create_resource A opt w5 = (r, w6)" by (rule prod.exhaust)
  note run = run [unfolded r prod.case]
  obtain attrs where attrs: "r = Some attrs" using run by (cases r) (auto split: if_splits)
  note run = run [unfolded attrs option.case]
  obtain q w7 where q: "create_queues A opt SIGNALS (\<lambda>_. None :: 'i mpsc_queue option) w6 = (q, w7)" by (rule prod.exhaust)
  note run = run [unfolded q prod.case]
  obtain qs where qs: "q = Some qs" using run by (cases q) (auto split: if_splits)
  obtain st now w8 where now: "otlp_platform_now_mono_nano P 0 w7 = (st, now, w8)" by (rule prod_cases3)
  note run = run [unfolded qs option.case now prod.case]
  from run utf8 dups have "e = (exporter_start opt (the (qs SIGNAL_SPAN)) (now XOR addr))\<lparr>ex_sig := \<lambda>s. signal_start (o_batch_size opt) (the (qs s))\<rparr>"
    "C = \<lparr>wc_url = urls, wc_user_agent = agent, wc_service_name = service, wc_schema_url = schema,
         wc_resource_attrs = attrs, wc_connect_timeout_ms = o_connect_timeout_ms opt, wc_read_timeout_ms = o_read_timeout_ms opt,
         wc_http_headers = headers, wc_n_http_headers = n\<rparr>"
    by (auto split: if_splits)
  with urls utf8 h r q show ?thesis unfolding hn attrs qs agent' service' schema' by blast
qed

lemma normalized_capacity:
  "o_queue_capacity opt \<noteq> 1 \<Longrightarrow> \<exists>j. o_queue_capacity (normalize_opts v opt) = 2 ^ j \<and> (j \<le> 59 \<longrightarrow> 1 \<le> j)"
proof -
  assume ne: "o_queue_capacity opt \<noteq> 1"
  let ?v = "if o_queue_capacity opt = 0 then 4096 else o_queue_capacity opt"
  obtain j where j: "round_up_pow2 ?v = 2 ^ j" using round_up_pow2_spec [of ?v] by blast
  have "1 \<le> j" if "j \<le> 59"
  proof (rule ccontr)
    assume "\<not> 1 \<le> j"
    then have one: "round_up_pow2 ?v = 1" using j by simp
    have "2 \<le> ?v" using ne by auto
    then have "round_up_pow2 ?v = round_up_pow2_loop 2 ?v"
      unfolding round_up_pow2_def by (subst round_up_pow2_loop.simps) (simp only: SIZE_MAX_def, simp)
    moreover have "\<exists>i. (2 :: nat) = 2 ^ i" by (rule exI [of _ 1]) simp
    ultimately show False using one round_up_loop_spec [of 2 ?v] by (simp add: SIZE_MAX_def)
  qed
  with j show ?thesis by (simp add: normalized)
qed


section \<open>Header lists that cannot be sent\<close>

definition header_bytes :: "http_header list \<Rightarrow> nat" where
  "header_bytes hs = sum_list (map (\<lambda>(name, v). length (str_or_empty name) + length (str_or_empty v) + 4) hs)"

lemma head_holds_headers: "build_head url ua hs n = Some head \<Longrightarrow> header_bytes hs < HEAD_CAP"
proof -
  have len: "length (concat (map (\<lambda>l. l @ CRLF) (map header_text hs))) = header_bytes hs"
    by (induction hs) (auto simp: header_bytes_def header_text_def CRLF_def ascii_def split: prod.splits)
  assume b: "build_head url ua hs n = Some head"
  have "length (concat (map (\<lambda>l. l @ CRLF) (map header_text hs))) \<le> length head"
    using build_head_Some [OF b] by (auto simp: request_lines_def)
  with len build_head_Some [OF b] show ?thesis by linarith
qed

lemma build_request_wide:
  assumes "HEAD_CAP \<le> header_bytes (headers_of headers n)" "build_request A r url ua headers n body len w = (st, r', w')"
  shows "st \<noteq> OTLP_OK"
proof
  assume ok: "st = OTLP_OK"
  have hs: "(case headers of None \<Rightarrow> [] | Some hs \<Rightarrow> take n hs) = headers_of headers n" by (simp add: headers_of_def)
  obtain head where "build_head url (case ua of None \<Rightarrow> ascii ''otlp-c'' | Some s \<Rightarrow> s) (headers_of headers n) len = Some head"
    using assms(2) ok unfolding build_request_def hs Let_def by (auto split: if_splits option.splits)
  from head_holds_headers [OF this] assms(1) show False by simp
qed

lemma start_post_wide:
  fixes N :: "('s, 'w) net"
  assumes "HEAD_CAP \<le> header_bytes (headers_of headers n)"
    "start_post_common N A url ua headers n body len c t sock w = (st, req, w')"
  shows "st \<noteq> OTLP_OK"
proof -
  note wide = build_request_wide [OF assms(1)]
  have "st \<noteq> OTLP_OK" if run: "otlp_http_request_start N A url ua headers n body len c t w = (st, req, w')"
  proof (cases "url = None \<or> len > 0 \<and> body = None")
    case True
    then show ?thesis using run by (cases url) (auto simp: otlp_http_request_start_def)
  next
    case False
    then obtain u where u: "url = Some u" and g: "\<not> (len > 0 \<and> body = None)" by auto
    obtain al w1 where al: "otlp_calloc A 1 SIZEOF_REQUEST w = (al, w1)" by (rule prod.exhaust)
    obtain st1 r1 w2 where b: "build_request A ((request_zero :: 's http_request)\<lparr>rq_state := OTLP_HTTP_REQ_CONNECTING,
        rq_connect_timeout_ms := c, rq_read_timeout_ms := t\<rparr>) u ua headers n body len w1 = (st1, r1, w2)" by (rule prod_cases3)
    from wide [OF b] run [unfolded otlp_http_request_start_def u option.case if_not_P [OF g] al prod.case Let_def b]
    show ?thesis by (cases al) auto
  qed
  moreover have "st \<noteq> OTLP_OK"
    if run: "otlp_http_request_start_with_socket N A url ua headers n body len c t sock w = (st, req, w')"
  proof (cases "url = None \<or> sock = None \<or> len > 0 \<and> body = None")
    case True
    then show ?thesis using run by (cases url; cases sock) (auto simp: otlp_http_request_start_with_socket_def split: if_splits)
  next
    case False
    then obtain u so where u: "url = Some u" "sock = Some so" and g: "\<not> (len > 0 \<and> body = None)" by auto
    obtain al w1 where al: "otlp_calloc A 1 SIZEOF_REQUEST w = (al, w1)" by (rule prod.exhaust)
    obtain now w2 where now: "nt_now N w1 = (now, w2)" by (rule prod.exhaust)
    obtain st1 r1 w3 where b: "build_request A ((request_zero :: 's http_request)\<lparr>rq_state := OTLP_HTTP_REQ_SENDING, rq_sock := Some so,
        rq_connect_timeout_ms := c, rq_read_timeout_ms := t, rq_start_ms := now, rq_last_io_ms := now\<rparr>) u ua headers n body len w2 = (st1, r1, w3)"
      by (rule prod_cases3)
    from wide [OF b] run [unfolded otlp_http_request_start_with_socket_def u option.case if_not_P [OF g] al prod.case now Let_def b]
    show ?thesis by (cases al) auto
  qed
  ultimately show ?thesis using assms(2) by (auto simp: start_post_common_def split: if_splits)
qed

lemma build_with_wide:
  assumes "HEAD_CAP \<le> header_bytes (headers_of headers n)"
  shows "fst (build_with N A cap encode url ua headers n c t sock w) \<noteq> OTLP_OK"
proof -
  obtain st0 b0 w1 where b0: "otlp_pb_buf_init A cap (pb_zero, w) = (st0, b0, w1)" by (rule prod_cases3)
  obtain st1 body w2 where body: "encode (b0, w1) = (st1, body, w2)" by (rule prod_cases3)
  obtain st req w3 where p: "start_post_common N A url ua headers n (Some (pb_data body)) (length (pb_data body)) c t sock w2 = (st, req, w3)"
    by (rule prod_cases3)
  show ?thesis using start_post_wide [OF assms p] by (simp add: build_with_def b0 body p)
qed

text \<open>
  Header fields that creation accepts can make the exporter mute. The request head is built in 1024
  bytes; creation checks the fields one by one but not their size. With fields of 1024 bytes or more the
  exporter is created, and then no request can ever be built, for any signal, batch and connection.
\<close>

theorem wide_headers_never_send:
  assumes "otlp_exporter_create A P version addr (Some o_in) w = (Some (e, C), w')"
    and "0 < o_n_http_headers o_in" "HEAD_CAP \<le> header_bytes (take (o_n_http_headers o_in) (the (o_http_headers o_in)))"
  shows "fst (spec_build_request N A' C s items sock v) \<noteq> OTLP_OK"
proof -
  obtain headers n v1 v2 where h: "create_headers A (normalize_opts version o_in) v1 = (Some (headers, n), v2)"
    "wc_http_headers C = headers" "wc_n_http_headers C = n"
    using create_Some [OF assms(1)] by auto
  have same: "header_bytes (map (\<lambda>(name, v). (name, Some (str_or_empty v))) hs) = header_bytes hs" for hs
    by (induction hs) (auto simp: header_bytes_def str_or_empty_def split: option.split)
  have "headers_of headers n = map (\<lambda>(name, v). (name, Some (str_or_empty v))) (take (o_n_http_headers o_in) (the (o_http_headers o_in)))"
    using create_headers_Some [OF h(1), unfolded normalized_rest] assms(2) by auto
  then have "HEAD_CAP \<le> header_bytes (headers_of (wc_http_headers C) (wc_n_http_headers C))"
    unfolding h(2,3) using assms(3) by (simp only: same)
  from build_with_wide [OF this] show ?thesis
    by (cases s) (simp_all add: spec_build_request_def otlp_exporter_otel_build_span_request_def
        otlp_exporter_otel_build_metric_request_def otlp_exporter_otel_build_log_request_def)
qed

section \<open>A creation\<close>

definition demo_create_opts :: "http_header list \<Rightarrow> create_opts" where
  "demo_create_opts hs = \<lparr>o_batch_size = 1, o_batch_ms = 100, o_max_retries = 5, o_backoff_initial_ms = 1000,
     o_backoff_max_ms = 30000, o_connect_timeout_ms = 5000, o_read_timeout_ms = 10000, o_flush_timeout_ms = 30000,
     o_queue_capacity = 2, o_endpoint = Some (ascii ''http://h''), o_service_name = Some [], o_user_agent = Some [],
     o_metrics_endpoint = None, o_logs_endpoint = None, o_schema_url = None, o_resource_attributes = None,
     o_n_resource_attributes = 0, o_http_headers = Some hs, o_n_http_headers = length hs\<rparr>"

lemma demo_create_normal: "normalize_opts v (demo_create_opts hs) = demo_create_opts hs"
  by (simp add: normalize_opts_def demo_create_opts_def OTLP_MAX_BATCH_SIZE_def round_up_pow2_def
      round_up_pow2_loop.simps SIZE_MAX_def)

lemma demo_creates:
  assumes "list_all header_clean hs"
  shows "\<exists>res :: (char, nat) exporter \<times> wire_cfg. otlp_exporter_create demo_alloc demo_posix v addr (Some (demo_create_opts hs)) w = (Some res, w)"
proof -
  have "url_ok demo_url" by (simp add: url_ok_def demo_url_def ascii_def has_crlf_def OTLP_HTTP_HOST_MAX_def OTLP_HTTP_PATH_MAX_def)
  moreover have "url_text (ascii ''http://h'') demo_url"
    by (rule url_textI [where pt = "[]" and qt = "[]"]) (simp_all add: demo_url_def port_text_def path_text_def ascii_def)
  ultimately have u: "otlp_http_parse_url (Some (ascii ''http://h'')) url_zero = (OTLP_OK, demo_url)" by (rule url_text_parses)
  have urls: "\<exists>urls. create_urls (demo_create_opts hs) = Some urls" by (simp add: create_urls_def demo_create_opts_def u signal_url_def)
  have init: "\<exists>q :: char mpsc_queue option. mpsc_queue_init demo_alloc 2 w = (OTLP_OK, q, w)" for w :: "u8 list list"
    by (simp add: mpsc_queue_init_def is_pow2_def demo_calls SIZE_MAX_def SIZEOF_SLOT_def)
  have queues: "\<exists>qs'. create_queues demo_alloc (demo_create_opts hs) ss qs w = (Some qs', w)" for ss and qs :: "signal \<Rightarrow> char mpsc_queue option" and w :: "u8 list list"
  proof (induction ss arbitrary: qs)
    case (Cons s ss)
    obtain q :: "char mpsc_queue option" where "mpsc_queue_init demo_alloc 2 w = (OTLP_OK, q, w)" using init by blast
    moreover have "o_queue_capacity (demo_create_opts hs) = 2" by (simp add: demo_create_opts_def)
    ultimately show ?case using Cons [of "qs(s := q)"] by (simp add: demo_calls del: fun_upd_apply)
  qed simp
  have headers: "\<exists>r. create_headers demo_alloc (demo_create_opts hs) w = (Some r, w)" for w :: "u8 list list"
    using assms by (simp add: create_headers_def demo_create_opts_def demo_calls otlp_calloc_def)
  have dup: "otlp_dup_str demo_alloc (Some []) w = (Some [], w)" "otlp_dup_str demo_alloc None w = (None, w)" for w :: "u8 list list"
    by (simp_all add: otlp_dup_str_def demo_calls SIZE_MAX_def)
  have fields: "o_service_name (demo_create_opts hs) = Some []" "o_user_agent (demo_create_opts hs) = Some []"
    "o_schema_url (demo_create_opts hs) = None" "create_resource demo_alloc (demo_create_opts hs) w = (Some vec_empty, w)" for w :: "u8 list list"
    by (simp_all add: demo_create_opts_def create_resource_def)
  have utf8: "otlp_str_is_utf8 (Some [])" "otlp_str_is_utf8 None" by (simp_all add: otlp_str_is_utf8_def utf8_scan.simps)
  have clock: "\<exists>st now. otlp_platform_now_mono_nano demo_posix 0 w = (st, now, w)" for w
    by (simp add: otlp_platform_now_mono_nano_def demo_posix_def)
  obtain urls hd n st now and qs :: "signal \<Rightarrow> char mpsc_queue option" where "create_urls (demo_create_opts hs) = Some urls" "create_headers demo_alloc (demo_create_opts hs) w = (Some (hd, n), w)"
    "create_queues demo_alloc (demo_create_opts hs) SIGNALS (\<lambda>_. None) w = (Some qs, w)" "otlp_platform_now_mono_nano demo_posix 0 w = (st, now, w)"
    using urls headers queues clock by (metis surj_pair)
  then show ?thesis
    by (simp add: otlp_exporter_create_def demo_create_normal otlp_calloc_def demo_calls fields utf8 dup Let_def)
qed


theorem wide_headers_never_send_witness:
  "\<exists>(e :: (char, nat) exporter) C. otlp_exporter_create demo_alloc demo_posix [] 0 (Some (demo_create_opts [(Some (replicate 1020 0x61), None)])) [] = (Some (e, C), [])
     \<and> fst (spec_build_request demo_net demo_alloc C SIGNAL_SPAN [] None []) \<noteq> OTLP_OK"
proof -
  let ?hs = "[(Some (replicate 1020 0x61), None)] :: http_header list"
  have "list_all header_clean ?hs" by (simp add: has_crlf_def list_ex_iff)
  from demo_creates [OF this] obtain ec :: "(char, nat) exporter \<times> wire_cfg"
    where "otlp_exporter_create demo_alloc demo_posix [] 0 (Some (demo_create_opts ?hs)) [] = (Some ec, [])" by blast
  then obtain e :: "(char, nat) exporter" and C
    where c: "otlp_exporter_create demo_alloc demo_posix [] 0 (Some (demo_create_opts ?hs)) [] = (Some (e, C), [])" by (cases ec) blast
  have "0 < o_n_http_headers (demo_create_opts ?hs)"
    "HEAD_CAP \<le> header_bytes (take (o_n_http_headers (demo_create_opts ?hs)) (the (o_http_headers (demo_create_opts ?hs))))"
    by (simp_all add: demo_create_opts_def header_bytes_def str_or_empty_def HEAD_CAP_def)
  from c wide_headers_never_send [OF c this] show ?thesis by (intro exI conjI)
qed

section \<open>Nothing is left behind\<close>


definition idle_env :: "(char, unit http_request, unit) env" where
  "idle_env = \<lparr>env_now = (\<lambda>t. (0, t)), env_sleep = (\<lambda>t. t), env_build = (\<lambda>s items ka t. (OTLP_ERR_NOMEM, None, t)),
     env_step = (\<lambda>r t. (r, t)), env_state = rq_state, env_http_status = (\<lambda>r. int (rq_http_status r)), env_retry_after = (\<lambda>_. 0),
     env_body = (\<lambda>_. None), env_detach = (\<lambda>_. False), env_null_status = None\<rparr>"


end
