(* ===== verification/Sampler.thy ===== *)
theory Sampler
  imports F64 Span
begin

text \<open>
  Samplers (\<^verbatim>\<open>src/sampler.c\<close>): the three built-in policies and the dispatch through the table of a
  custom one. The ratio policy multiplies a double by \<open>2^64\<close> and truncates; both operations are
  modelled on bit patterns, and the theorems say that the result is the exact integer threshold.
\<close>

section \<open>Multiplication and truncation of doubles\<close>

text \<open>
  The exact product of two magnitudes is a multiple of \<open>2^-2148\<close>. Rounding keeps 53 bits, or fewer
  for a subnormal result, whose last bit is \<open>2^-1074\<close>; ties go to even.
\<close>

definition f64_round_product :: "nat \<Rightarrow> nat" where
  "f64_round_product n =
     (let k = max (floorlog 2 n - 53) 1074; q = n div 2 ^ k; r = n mod 2 ^ k;
          q' = (if 2 * r > 2 ^ k \<or> (2 * r = 2 ^ k \<and> odd q) then q + 1 else q);
          b = (k - 1074) * 2 ^ 52 + q'
      in if b > 2047 * 2 ^ 52 then 2047 * 2 ^ 52 else b)"

definition f64_mul :: "u64 \<Rightarrow> u64 \<Rightarrow> u64" where
  "f64_mul x y =
     (let neg = (f64_neg x \<noteq> f64_neg y) in
      if f64_nan x \<or> f64_nan y then F64_QNAN
      else if f64_inf x \<or> f64_inf y then
        (if f64_mag x = 0 \<or> f64_mag y = 0 then F64_QNAN else f64_pack neg (2047 * 2 ^ 52))
      else f64_pack neg (f64_round_product (f64_mag x * f64_mag y)))"

text \<open>\<^verbatim>\<open>(uint64_t) x\<close>: towards zero; \<open>None\<close> where the C standard leaves the conversion undefined.\<close>

definition f64_to_u64 :: "u64 \<Rightarrow> u64 option" where
  "f64_to_u64 x =
     (let t = f64_mag x div 2 ^ 1074 in
      if f64_nan x \<or> f64_inf x \<or> 2 ^ 64 \<le> t \<or> (f64_neg x \<and> t \<noteq> 0) then None else Some (word_of_nat t))"

definition F64_ONE :: u64 where "F64_ONE = 0x3ff0000000000000"

section \<open>The samplers\<close>

datatype sampling_decision =
    OTLP_SAMPLING_DECISION_NOT_RECORD | OTLP_SAMPLING_DECISION_RECORD | OTLP_SAMPLING_DECISION_RECORD_AND_SAMPLED

text \<open>
  The objects behind \<^verbatim>\<open>otlp_sampler_t *\<close>. The application's own samplers may act on the world.
\<close>

datatype 'w otlp_sampler =
    Always_on
  | Always_off
  | Ratio u64
  | Custom "u8 list \<Rightarrow> cstr option \<Rightarrow> span_kind \<Rightarrow> 'w \<Rightarrow> sampling_decision \<times> 'w"

definition always_on_should_sample :: "u8 list \<Rightarrow> cstr option \<Rightarrow> span_kind \<Rightarrow> sampling_decision" where
  "always_on_should_sample trace_id name kind = OTLP_SAMPLING_DECISION_RECORD_AND_SAMPLED"

definition always_off_should_sample :: "u8 list \<Rightarrow> cstr option \<Rightarrow> span_kind \<Rightarrow> sampling_decision" where
  "always_off_should_sample trace_id name kind = OTLP_SAMPLING_DECISION_NOT_RECORD"

definition trace_prefix :: "u8 list \<Rightarrow> u64" where
  "trace_prefix trace_id =
     push_bit 56 (ucast (trace_id ! 0)) OR push_bit 48 (ucast (trace_id ! 1)) OR push_bit 40 (ucast (trace_id ! 2)) OR
     push_bit 32 (ucast (trace_id ! 3)) OR push_bit 24 (ucast (trace_id ! 4)) OR push_bit 16 (ucast (trace_id ! 5)) OR
     push_bit 8 (ucast (trace_id ! 6)) OR ucast (trace_id ! 7)"

text \<open>\<open>None\<close> when the conversion to an integer is undefined. \<^verbatim>\<open>(double) UINT64_MAX\<close> rounds as doubles do.\<close>

definition ratio_should_sample :: "u64 \<Rightarrow> u8 list \<Rightarrow> cstr option \<Rightarrow> span_kind \<Rightarrow> sampling_decision option" where
  "ratio_should_sample ratio trace_id name kind =
     (if f64_le ratio 0 then Some OTLP_SAMPLING_DECISION_NOT_RECORD
      else if f64_le F64_ONE ratio then Some OTLP_SAMPLING_DECISION_RECORD_AND_SAMPLED
      else (case f64_to_u64 (f64_mul ratio (f64_of_nat (2 ^ 64 - 1))) of
          None \<Rightarrow> None
        | Some threshold \<Rightarrow>
            Some (if trace_prefix trace_id < threshold then OTLP_SAMPLING_DECISION_RECORD_AND_SAMPLED
                  else OTLP_SAMPLING_DECISION_NOT_RECORD)))"

definition SIZEOF_RATIO_SAMPLER :: nat where "SIZEOF_RATIO_SAMPLER = 24"

definition otlp_sampler_always_on :: "'w otlp_sampler" where
  "otlp_sampler_always_on = Always_on"

definition otlp_sampler_always_off :: "'w otlp_sampler" where
  "otlp_sampler_always_off = Always_off"

definition otlp_sampler_trace_id_ratio_based :: "'m allocator \<Rightarrow> u64 \<Rightarrow> 'm \<Rightarrow> 'w otlp_sampler option \<times> 'm" where
  "otlp_sampler_trace_id_ratio_based A ratio0 m =
     (let ratio1 = (if f64_lt ratio0 0 then 0 else ratio0);
          ratio2 = (if f64_lt F64_ONE ratio1 then F64_ONE else ratio1)
      in case a_alloc A SIZEOF_RATIO_SAMPLER m of (ok, m1) \<Rightarrow> (if ok then Some (Ratio ratio2) else None, m1))"

text \<open>The call through the table.\<close>

definition should_sample ::
  "'w otlp_sampler \<Rightarrow> u8 list \<Rightarrow> cstr option \<Rightarrow> span_kind \<Rightarrow> 'w \<Rightarrow> (sampling_decision \<times> 'w) option" where
  "should_sample sampler trace_id name kind w =
     (case sampler of
        Always_on \<Rightarrow> Some (always_on_should_sample trace_id name kind, w)
      | Always_off \<Rightarrow> Some (always_off_should_sample trace_id name kind, w)
      | Ratio ratio \<Rightarrow> map_option (\<lambda>d. (d, w)) (ratio_should_sample ratio trace_id name kind)
      | Custom f \<Rightarrow> Some (f trace_id name kind w))"

section \<open>Facts about the arithmetic\<close>

lemma f64_round_product_scaled: "f64_round_product (n * 2 ^ 1074) = f64_round n"
proof (cases "n = 0")
  case True
  then show ?thesis by (simp add: f64_round_product_def f64_round_def floorlog_def)
next
  case False
  have fl: "floorlog 2 (n * 2 ^ 1074) = floorlog 2 n + 1074"
    using False by (subst floorlog_power [symmetric]) simp_all
  define j where "j = floorlog 2 n - 53"
  have k: "max (floorlog 2 n + 1074 - 53) 1074 = j + 1074" by (simp add: j_def)
  have q: "n * 2 ^ 1074 div 2 ^ (j + 1074) = n div 2 ^ j" "n * 2 ^ 1074 mod 2 ^ (j + 1074) = n mod 2 ^ j * 2 ^ 1074"
    by (simp_all add: power_add mult_mod_left)
  have cmp: "2 * (r * 2 ^ 1074) > 2 ^ (j + 1074) \<longleftrightarrow> 2 * r > 2 ^ j"
    "2 * (r * 2 ^ 1074) = 2 ^ (j + 1074) \<longleftrightarrow> 2 * r = 2 ^ j" for r :: nat
    by (simp_all only: power_add mult.assoc [symmetric] mult_less_cancel2 mult_cancel2) simp_all
  have lt: "n < 2 ^ 53 \<longleftrightarrow> floorlog 2 n \<le> 53"
    using floorlog_leI [of n 2 53] floorlog_geI [of 2 54 n] False by (cases "n < 2 ^ 53") auto
  show ?thesis
  proof (cases "n < 2 ^ 53")
    case True
    then have "j = 0" using lt by (simp add: j_def)
    then show ?thesis using True
      unfolding f64_round_product_def fl k q Let_def cmp f64_round_def by simp
  next
    case False
    then show ?thesis
      unfolding f64_round_product_def fl k q Let_def cmp f64_round_def j_def [symmetric] by simp
  qed
qed

lemma f64_u64max: "f64_exp (f64_of_nat (2 ^ 64 - 1)) = 1087" "f64_frac (f64_of_nat (2 ^ 64 - 1)) = 0"
  "\<not> f64_neg (f64_of_nat (2 ^ 64 - 1))"
proof -
  define j :: nat where "j = 1085"
  define m :: nat where "m = 2 ^ 64 - 1"
  define n :: nat where "n = m * 2 ^ 1074"
  have p: "(2::nat) ^ j = 2 ^ 11 * 2 ^ 1074" unfolding j_def power_add [symmetric] by simp
  have m: "0 < m" "m div 2 ^ 11 = 2 ^ 53 - 1" "m mod 2 ^ 11 = 2 ^ 11 - 1" by (simp_all add: m_def)
  have "floorlog 2 m = 64" unfolding m_def by (rule antisym) (auto intro: floorlog_leI floorlog_geI)
  moreover have "floorlog 2 n = floorlog 2 m + 1074" unfolding n_def by (rule floorlog_power) (use m(1) in simp_all)
  ultimately have fl: "floorlog 2 n - 53 = j" by (simp add: j_def)
  have "m * 2 ^ 53 \<le> n" unfolding n_def by (intro mult_le_mono le_refl power_increasing) simp_all
  with m(1) have big: "\<not> n < 2 ^ 53" by simp
  have q: "n div 2 ^ j = m div 2 ^ 11" "n mod 2 ^ j = m mod 2 ^ 11 * 2 ^ 1074"
    unfolding n_def p by (rule div_mult_mult2, simp) (rule mod_mult_mult2)
  have half: "2 * (n mod 2 ^ j) > 2 ^ j" unfolding q(2) unfolding p m(3) by (simp only: mult.assoc [symmetric] mult_less_cancel2) simp
  have rnd: "f64_round n = 1087 * 2 ^ 52"
    unfolding f64_round_def fl Let_def if_not_P [OF big] if_P [OF disjI1 [OF half]] q(1) m(2) by (simp add: j_def)
  have lt: "f64_round n < 2 ^ 63" by (simp add: rnd)
  show "f64_exp (f64_of_nat (2 ^ 64 - 1)) = 1087" "f64_frac (f64_of_nat (2 ^ 64 - 1)) = 0" "\<not> f64_neg (f64_of_nat (2 ^ 64 - 1))"
    unfolding f64_of_nat_def m_def [symmetric] n_def [symmetric] f64_pack_fields [OF lt] by (simp_all add: rnd)
qed

lemma f64_mag_bits: "2 ^ (floorlog 2 (f64_mag x) - 53) dvd f64_mag x"
proof (cases "f64_exp x = 0")
  case True
  then have "f64_mag x < 2 ^ 53" by (simp add: f64_mag_def f64_frac_def less_trans [OF mod_less_divisor])
  then have "floorlog 2 (f64_mag x) \<le> 53" by (intro floorlog_leI) simp_all
  then show ?thesis by simp
next
  case False
  let ?m = "2 ^ 52 + f64_frac x"
  have "?m < 2 ^ 53" by (simp add: f64_frac_def)
  then have "floorlog 2 ?m \<le> 53" by (intro floorlog_leI) simp_all
  moreover have "floorlog 2 (f64_mag x) = floorlog 2 ?m + (f64_exp x - 1)"
    using False unfolding f64_mag_def if_not_P [OF False] by (intro floorlog_power) simp_all
  ultimately have "2 ^ (floorlog 2 (f64_mag x) - 53) dvd (2 :: nat) ^ (f64_exp x - 1)" by (intro le_imp_power_dvd) simp
  then show ?thesis using False unfolding f64_mag_def by (simp add: dvd_mult)
qed

text \<open>Scaling a double below 1 by \<open>2^64\<close> is exact, and the truncation keeps the integer part.\<close>

lemma scale_exact:
  assumes "\<not> f64_nan x" "\<not> f64_inf x" "\<not> f64_neg x" "f64_mag x < 2 ^ 1074"
  shows "f64_to_u64 (f64_mul x (f64_of_nat (2 ^ 64 - 1))) = Some (word_of_nat (f64_mag x div 2 ^ 1010))"
proof -
  define mx where "mx = f64_mag x"
  define y where "y = f64_of_nat (2 ^ 64 - 1)"
  note y = f64_u64max [folded y_def]
  have y': "\<not> f64_nan y" "\<not> f64_inf y" using y by (simp_all add: f64_nan_def f64_inf_def)
  have my: "f64_mag y = 2 ^ 64 * 2 ^ 1074" unfolding f64_mag_def y power_add [symmetric] by (simp add: y)
  let ?n = "mx * 2 ^ 64"
  have "mx * f64_mag y = ?n * 2 ^ 1074" by (simp only: my mult.assoc)
  then have mul: "f64_mul x y = f64_pack False (f64_round ?n)"
    using assms(1-3) y' y(3) unfolding f64_mul_def mx_def [symmetric] by (simp only: f64_round_product_scaled Let_def) simp
  have dvd: "2 ^ (floorlog 2 ?n - 53) dvd ?n"
  proof (cases "mx = 0")
    case False
    then have fl: "floorlog 2 ?n = floorlog 2 mx + 64" by (intro floorlog_power) simp_all
    have bits: "2 ^ (floorlog 2 mx - 53) dvd mx" unfolding mx_def by (rule f64_mag_bits)
    have "(2::nat) ^ (floorlog 2 mx + 64 - 53) dvd 2 ^ ((floorlog 2 mx - 53) + 64)" by (rule le_imp_power_dvd) simp
    also have "\<dots> dvd ?n" unfolding power_add using bits by (rule mult_dvd_mono) simp
    finally show ?thesis unfolding fl .
  qed simp
  have lt: "?n < 2 ^ 1138" using assms(4) by (simp add: mx_def power_add [of 2 1074 64, simplified])
  then have le: "floorlog 2 ?n \<le> 1138" by (intro floorlog_leI) simp_all
  then have le': "floorlog 2 ?n \<le> 2098" by simp
  note ex = f64_round_exact [OF dvd le']
  have lt63: "f64_round ?n < 2 ^ 63" using ex(1) by simp
  note f = f64_pack_fields [OF lt63, of False]
  have "f64_exp (f64_pack False (f64_round ?n)) < 2047" unfolding f(1) by (rule less_mult_imp_div_less) (rule ex(1))
  then have fin: "\<not> f64_nan (f64_mul x y)" "\<not> f64_inf (f64_mul x y)" "\<not> f64_neg (f64_mul x y)" "f64_mag (f64_mul x y) = ?n"
    using f(3) ex(2) [of False] unfolding mul by (simp_all add: f64_nan_def f64_inf_def)
  have p: "(2::nat) ^ 1074 = 2 ^ 1010 * 2 ^ 64" by (simp only: power_add [symmetric]) simp
  have t: "?n div 2 ^ 1074 = mx div 2 ^ 1010" unfolding p by (rule div_mult_mult2) simp
  moreover have "mx div 2 ^ 1010 < 2 ^ 64" using assms(4) unfolding mx_def p by (intro less_mult_imp_div_less) (simp only: mult.commute)
  ultimately show ?thesis using fin unfolding f64_to_u64_def y_def [symmetric] mx_def [symmetric] Let_def by (simp only: fin t) simp
qed

section \<open>The prefix of a trace id\<close>

definition be_value :: "u8 list \<Rightarrow> nat" where
  "be_value bs = foldl (\<lambda>v b. v * 256 + unat b) 0 bs"

lemma be_value_snoc: "be_value (bs @ [b]) = be_value bs * 256 + unat b"
  by (simp add: be_value_def)

lemma be_value_bound: "be_value bs < 256 ^ length bs"
proof (induction bs rule: rev_induct)
  case (snoc b bs)
  then have "be_value bs * 256 + unat b < Suc (be_value bs) * 256" "Suc (be_value bs) * 256 \<le> 256 ^ length bs * 256"
    using unat_u8_lt [of b] by simp_all
  then show ?case by (simp only: be_value_snoc length_append_singleton power_Suc2)
qed (simp add: be_value_def)

lemma be_value_inj: "length bs = length cs \<Longrightarrow> be_value bs = be_value cs \<Longrightarrow> bs = cs"
proof (induction bs arbitrary: cs rule: rev_induct)
  case (snoc b bs)
  then obtain cs' c where cs: "cs = cs' @ [c]" by (cases cs rule: rev_cases) simp_all
  have "be_value bs * 256 + unat b = be_value cs' * 256 + unat c" using snoc.prems(2) by (simp add: cs be_value_snoc)
  moreover have "(be_value bs * 256 + unat b) div 256 = be_value bs" "(be_value bs * 256 + unat b) mod 256 = unat b"
    "(be_value cs' * 256 + unat c) div 256 = be_value cs'" "(be_value cs' * 256 + unat c) mod 256 = unat c"
    using unat_u8_lt [of b] unat_u8_lt [of c] by simp_all
  ultimately have "be_value bs = be_value cs'" "b = c" by (metis, metis word_unat_eq_iff)
  then show ?case using snoc by (simp add: cs)
qed simp

lemma unat_shift_or_byte:
  assumes "unat v < 2 ^ 56"
  shows "unat (push_bit 8 v OR ucast (b :: u8) :: u64) = unat v * 256 + unat b"
proof -
  have b: "unat (ucast b :: u64) = unat b" using unat_u8_lt [of b] by (simp add: unsigned_ucast_eq take_bit_nat_eq_self)
  have "push_bit 8 v OR ucast b = push_bit 8 v + (ucast b :: u64)"
    by (rule disjunctive_add [symmetric]) (auto simp: bit_push_bit_iff bit_ucast_iff dest: bit_imp_le_length)
  moreover have "unat (push_bit 8 v) = unat v * 256"
    using assms by (simp only: unsigned_push_bit_eq) (simp add: push_bit_eq_mult take_bit_nat_eq_self)
  moreover have "unat v * 256 + unat b < 2 ^ 64" using assms unat_u8_lt [of b] by simp
  ultimately show ?thesis by (simp add: b unat_word_ariths)
qed

lemma trace_prefix_value: "length tid = 16 \<Longrightarrow> unat (trace_prefix tid) = be_value (take 8 tid)"
proof -
  assume len: "length tid = 16"
  define P where "P k = foldl (\<lambda>v b. push_bit 8 v OR ucast b) (0 :: u64) (take k tid)" for k
  have take: "take (Suc k) tid = take k tid @ [tid ! k]" if "k < 8" for k using that len by (simp add: take_Suc_conv_app_nth)
  have P: "unat (P k) = be_value (take k tid)" if "k \<le> 8" for k
    using that
  proof (induction k)
    case (Suc k)
    have "be_value (take k tid) < 256 ^ k" using be_value_bound [of "take k tid"] len Suc.prems by (simp add: min_def)
    also have "\<dots> \<le> 256 ^ 7" using Suc.prems by (intro power_increasing) simp_all
    finally have "unat (P k) < 2 ^ 56" using Suc by simp
    then show ?case using Suc by (simp add: P_def take be_value_snoc unat_shift_or_byte)
  qed (simp add: P_def be_value_def)
  have "take 8 tid = [tid ! 0, tid ! 1, tid ! 2, tid ! 3, tid ! 4, tid ! 5, tid ! 6, tid ! 7]"
    by (simp add: take eval_nat_numeral)
  then have "P 8 = trace_prefix tid"
    unfolding P_def trace_prefix_def
    by (simp only: foldl.simps push_bit_of_0 push_bit_or push_bit_push_bit or.assoc or.left_neutral numeral_plus_numeral add_num_simps)
  then show ?thesis using P [of 8] by simp
qed

section \<open>The sampling rate\<close>

text \<open>The integer part of \<open>ratio * 2^64\<close>, kept between 0 and \<open>2^64\<close>.\<close>

definition ratio_threshold :: "u64 \<Rightarrow> nat" where
  "ratio_threshold r = nat (min (2 ^ 64) (max 0 (f64_int r * 2 ^ 64 div 2 ^ 1074)))"

lemma ratio_threshold_mono: "f64_le r r' \<Longrightarrow> ratio_threshold r \<le> ratio_threshold r'"
  unfolding ratio_threshold_def f64_le_def
  by (intro nat_mono min.mono max.mono order_refl zdiv_mono1 mult_right_mono) simp_all

lemma F64_consts: "f64_int F64_ONE = 2 ^ 1074" "\<not> f64_nan F64_ONE" "f64_int 0 = 0" "\<not> f64_nan 0"
proof -
  have "unat F64_ONE = 1023 * 2 ^ 52" by (simp add: F64_ONE_def)
  then have e: "f64_exp F64_ONE = 1023" "f64_frac F64_ONE = 0" "\<not> f64_neg F64_ONE"
    by (simp_all add: f64_exp_def f64_frac_def f64_neg_def)
  have "(2::nat) ^ 52 * 2 ^ 1022 = 2 ^ 1074" by (simp only: power_add [symmetric]) simp
  then show "f64_int F64_ONE = 2 ^ 1074" "\<not> f64_nan F64_ONE"
    using e by (simp_all only: f64_int_def f64_mag_def f64_nan_def) simp_all
  show "f64_int 0 = 0" "\<not> f64_nan 0" by (simp_all add: f64_int_def f64_mag_def f64_nan_def f64_exp_def f64_frac_def f64_neg_def)
qed

definition threshold_decision :: "nat \<Rightarrow> u8 list \<Rightarrow> sampling_decision" where
  "threshold_decision t tid =
     (if be_value (take 8 tid) < t then OTLP_SAMPLING_DECISION_RECORD_AND_SAMPLED else OTLP_SAMPLING_DECISION_NOT_RECORD)"

lemma ratio_inside:
  assumes "\<not> f64_nan r" "0 < f64_int r" "f64_int r < 2 ^ 1074" "length tid = 16"
  shows "ratio_should_sample r tid name kind = Some (threshold_decision (ratio_threshold r) tid)"
proof -
  have neg: "\<not> f64_neg r" using assms(2) by (auto simp: f64_int_def split: if_splits)
  have int_pow: "(2::int) ^ 1074 = int (2 ^ 1074)" and int_64: "(2::int) ^ 64 = int (2 ^ 64)"
    by (simp_all only: of_nat_power of_nat_numeral)
  have mag: "f64_int r = int (f64_mag r)" using neg by (simp add: f64_int_def)
  have lt: "f64_mag r < 2 ^ 1074" using assms(3) unfolding mag int_pow by (simp only: of_nat_less_iff)
  have big: "(2::nat) ^ 1074 \<le> (2 ^ 52 + 0) * 2 ^ (2047 - 1)" by (simp only: add_0_right power_add [symmetric] power_increasing_iff)
  have inf: "\<not> f64_inf r"
  proof
    assume "f64_inf r"
    then have "f64_exp r = 2047" "f64_frac r = 0" by (simp_all add: f64_inf_def)
    then have "f64_mag r = (2 ^ 52 + 0) * 2 ^ (2047 - 1)" unfolding f64_mag_def by (simp only: if_False numeral_neq_zero)
    with big lt show False by (simp only: not_less [symmetric])
  qed
  have p: "(2::nat) ^ 1074 = 2 ^ 1010 * 2 ^ 64" by (simp only: power_add [symmetric]) simp
  define t where "t = f64_mag r div 2 ^ 1010"
  have t: "t < 2 ^ 64" using lt unfolding t_def p by (intro less_mult_imp_div_less) (simp only: mult.commute)
  have "f64_mag r * 2 ^ 64 div 2 ^ 1074 = t" unfolding p t_def by (rule div_mult_mult2) simp
  then have "f64_int r * 2 ^ 64 div 2 ^ 1074 = int t"
    unfolding mag int_pow int_64 of_nat_mult [symmetric] zdiv_int [symmetric] by (rule arg_cong)
  then have th: "ratio_threshold r = t" using t by (simp add: ratio_threshold_def)
  have "unat (word_of_nat t :: u64) = t" using t by (intro unat_of_nat_u64) simp
  then have "trace_prefix tid < word_of_nat t \<longleftrightarrow> be_value (take 8 tid) < t"
    by (simp add: word_less_nat_alt trace_prefix_value [OF assms(4)])
  moreover have "\<not> f64_le r 0" "\<not> f64_le F64_ONE r"
    using assms(2,3) unfolding f64_le_def F64_consts by (meson not_le)+
  ultimately show ?thesis
    unfolding ratio_should_sample_def by (simp only: scale_exact [OF assms(1) inf neg lt] option.case if_False th threshold_decision_def t_def [symmetric])
qed

lemma ratio_decides:
  assumes "otlp_sampler_trace_id_ratio_based A r m = (Some s, m')" "\<not> f64_nan r" "length tid = 16"
  shows "should_sample s tid name kind w = Some (threshold_decision (ratio_threshold r) tid, w)"
proof -
  define c where "c = (let r1 = (if f64_lt r 0 then 0 else r) in if f64_lt F64_ONE r1 then F64_ONE else r1)"
  have s: "s = Ratio c" using assms(1) by (auto simp: otlp_sampler_trace_id_ratio_based_def c_def Let_def split: prod.splits if_splits)
  have "be_value (take 8 tid) < 256 ^ length (take 8 tid)" by (rule be_value_bound)
  then have small: "be_value (take 8 tid) < 2 ^ 64" using assms(3) by simp
  define K where "K = f64_int F64_ONE"
  have K: "K = 2 ^ 1074" "0 < K" by (simp_all only: K_def F64_consts zero_less_power zero_less_numeral)
  note fcs = F64_consts(2-4) K_def [symmetric]
  consider "f64_int r \<le> 0" | "0 < f64_int r" "f64_int r < K" | "K \<le> f64_int r" by linarith
  then have "ratio_should_sample c tid name kind = Some (threshold_decision (ratio_threshold r) tid)"
  proof cases
    case 1
    then have "f64_int r * 2 ^ 64 div 2 ^ 1074 \<le> 0" using zdiv_mono1 [of "f64_int r * 2 ^ 64" 0 "2 ^ 1074"] by simp
    then have "ratio_threshold r = 0" by (simp add: ratio_threshold_def)
    moreover have "f64_le c 0" using 1 K(2) assms(2) by (auto simp: c_def Let_def f64_lt_def f64_le_def fcs)
    ultimately show ?thesis by (simp add: ratio_should_sample_def threshold_decision_def)
  next
    case 2
    then have "c = r" by (auto simp: c_def Let_def f64_lt_def fcs)
    then show ?thesis using ratio_inside [OF assms(2) 2(1) 2(2) [unfolded K(1)] assms(3)] by simp
  next
    case 3
    have "2 ^ 64 * K \<le> f64_int r * 2 ^ 64" using 3 by simp
    then have "(2::int) ^ 64 \<le> f64_int r * 2 ^ 64 div K"
      using zdiv_mono1 [of "2 ^ 64 * K" "f64_int r * 2 ^ 64" K] K(2) by simp
    then have "ratio_threshold r = 2 ^ 64" unfolding ratio_threshold_def K(1) [symmetric] by simp
    moreover have "f64_le F64_ONE c" "\<not> f64_le c 0"
      using 3 K(2) assms(2) by (auto simp: c_def Let_def f64_lt_def f64_le_def fcs)
    ultimately show ?thesis using small by (simp add: ratio_should_sample_def threshold_decision_def)
  qed
  then show ?thesis by (simp add: s should_sample_def)
qed

text \<open>A ratio that is not a number passes both clamps, and the conversion of its threshold is undefined.\<close>

lemma nan_ratio_undefined:
  assumes "otlp_sampler_trace_id_ratio_based A r m = (Some s, m')" "f64_nan r"
  shows "should_sample s tid name kind w = None"
proof -
  have "s = Ratio r" using assms by (auto simp: otlp_sampler_trace_id_ratio_based_def split: prod.splits if_splits)
  moreover have "f64_nan F64_QNAN" by (simp add: f64_nan_def f64_exp_def f64_frac_def F64_QNAN_def)
  ultimately show ?thesis using assms(2)
    by (simp add: should_sample_def ratio_should_sample_def f64_mul_def f64_to_u64_def)
qed

text \<open>How many of the 128-bit identifiers a threshold admits.\<close>

lemma card_prefix_below:
  assumes "t \<le> 2 ^ 64"
  shows "card {tid :: u8 list. length tid = 16 \<and> be_value (take 8 tid) < t} = t * 2 ^ 64"
proof -
  define B where "B = {bs :: u8 list. length bs = 8}"
  have lists: "card {bs :: u8 list. length bs = n} = 256 ^ n" for n
    using card_lists_length_eq [of "UNIV :: u8 set" n] by (simp add: card_word)
  have inj: "inj_on be_value B" by (auto simp: B_def inj_on_def intro: be_value_inj)
  have image: "be_value ` B = {..<2 ^ 64}"
  proof (rule card_subset_eq)
    have "be_value bs < 2 ^ 64" if "length bs = 8" for bs using be_value_bound [of bs] unfolding that by simp
    then show "be_value ` B \<subseteq> {..<2 ^ 64}" by (auto simp: B_def)
    show "card (be_value ` B) = card {..<2 ^ 64 :: nat}" using lists [of 8] unfolding card_image [OF inj] by (simp add: B_def)
  qed simp
  define S where "S = {bs \<in> B. be_value bs < t}"
  have "be_value ` S = {..<t}"
  proof (intro subset_antisym subsetI)
    fix n assume "n \<in> {..<t}"
    then have n: "n < t" by simp
    then have "n \<in> be_value ` B" unfolding image lessThan_iff using assms by (rule order_less_le_trans)
    with n show "n \<in> be_value ` S" by (auto simp: S_def)
  qed (auto simp: S_def)
  then have S: "card S = t" using card_image [of be_value S] inj by (simp add: S_def inj_on_def)
  have "{tid :: u8 list. length tid = 16 \<and> be_value (take 8 tid) < t} = (\<lambda>(a, b). a @ b) ` (S \<times> B)"
  proof (intro set_eqI iffI)
    fix tid :: "u8 list" assume "tid \<in> {tid. length tid = 16 \<and> be_value (take 8 tid) < t}"
    then have "(take 8 tid, drop 8 tid) \<in> S \<times> B" by (simp add: S_def B_def)
    then show "tid \<in> (\<lambda>(a, b). a @ b) ` (S \<times> B)" by (rule rev_image_eqI) simp
  qed (auto simp: S_def B_def)
  moreover have "inj_on (\<lambda>(a, b). a @ b) (S \<times> B)" by (auto simp: inj_on_def S_def B_def)
  ultimately show ?thesis using lists [of 8] by (simp add: card_image card_cartesian_product S) (simp add: B_def)
qed

text \<open>
  C16. The ratio sampler samples exactly the ratio. A sampler created for a ratio that is a number decides
  by the trace id alone, whatever the name and the kind: it samples when the first eight bytes, read big-endian,
  are below the integer part of \<open>ratio * 2^64\<close>, ratios outside the unit interval included, although the code
  multiplies doubles by a rounded constant. Of all \<open>2^128\<close> identifiers exactly that threshold times \<open>2^64\<close> are
  sampled.
\<close>

theorem ratio_sampling_exact:
  assumes "otlp_sampler_trace_id_ratio_based A r m = (Some s, m')" and "\<not> f64_nan r"
  shows "(\<forall>tid. length tid = 16 \<longrightarrow> should_sample s tid name kind w = Some (threshold_decision (ratio_threshold r) tid, w))
    \<and> card {tid. length tid = 16 \<and> should_sample s tid name kind w = Some (OTLP_SAMPLING_DECISION_RECORD_AND_SAMPLED, w)}
        = ratio_threshold r * 2 ^ 64"
proof -
  note d = ratio_decides [OF assms]
  have "{tid. length tid = 16 \<and> should_sample s tid name kind w = Some (OTLP_SAMPLING_DECISION_RECORD_AND_SAMPLED, w)}
      = {tid. length tid = 16 \<and> be_value (take 8 tid) < ratio_threshold r}"
    by (auto simp: d threshold_decision_def split: if_splits)
  moreover have "ratio_threshold r \<le> 2 ^ 64" by (simp add: ratio_threshold_def)
  ultimately show ?thesis using d card_prefix_below [of "ratio_threshold r"] by simp
qed

theorem ratio_sampling_exact_witness:
  "\<exists>s. otlp_sampler_trace_id_ratio_based always_alloc 0x3fd0000000000000 () = (Some s, ())
     \<and> card {tid. length tid = 16 \<and> should_sample s tid None KIND_INTERNAL () = Some (OTLP_SAMPLING_DECISION_RECORD_AND_SAMPLED, ())} = 2 ^ 126"
proof -
  have u: "unat (0x3fd0000000000000 :: u64) = 1021 * 2 ^ 52" by simp
  have f: "f64_exp 0x3fd0000000000000 = 1021" "f64_frac 0x3fd0000000000000 = 0" "\<not> f64_neg 0x3fd0000000000000"
    unfolding f64_exp_def f64_frac_def f64_neg_def u by simp_all
  have nan: "\<not> f64_nan 0x3fd0000000000000" by (simp add: f64_nan_def f)
  have "f64_int 0x3fd0000000000000 = 2 ^ 52 * 2 ^ 1020" by (simp only: f64_int_def f64_mag_def f if_False) simp
  moreover have "(2::int) ^ 52 * 2 ^ 1020 * 2 ^ 64 div 2 ^ 1074 = 2 ^ 62"
    using nonzero_mult_div_cancel_right [of "2 ^ 1074 :: int" "2 ^ 62"] unfolding power_add [symmetric] by simp
  ultimately have t: "ratio_threshold 0x3fd0000000000000 = 2 ^ 62" by (simp only: ratio_threshold_def) simp
  have c: "otlp_sampler_trace_id_ratio_based always_alloc 0x3fd0000000000000 () = (Some (Ratio (if f64_lt F64_ONE
      (if f64_lt 0x3fd0000000000000 0 then 0 else 0x3fd0000000000000) then F64_ONE
      else (if f64_lt 0x3fd0000000000000 0 then 0 else 0x3fd0000000000000))), ())"
    by (simp only: otlp_sampler_trace_id_ratio_based_def always_alloc_def Let_def allocator.simps prod.case if_True)
  from ratio_sampling_exact [OF c nan, THEN conjunct2, of None KIND_INTERNAL "()"] c show ?thesis unfolding t by auto
qed

end
