(* ===== verification/Tracer.thy ===== *)
theory Tracer
  imports Sampler Retry_Policy Platform
begin

text \<open>
  The tracer (\<^verbatim>\<open>src/tracer.c\<close>): identifiers from an atomic generator that many threads share, and
  the creation of root and child spans under a sampler. The world holds the allocator's state and
  whatever a custom sampler acts on. Filling an identifier repeats itself when all its bytes are zero,
  which might never end, so it returns an option.
\<close>

section \<open>The generator\<close>

definition xorshift64s :: "u64 \<Rightarrow> u64" where
  "xorshift64s s0 =
     (let s1 = s0 XOR push_bit 13 s0;
          s2 = s1 XOR drop_bit 7 s1;
          s3 = s2 XOR push_bit 17 s2
      in s3 * 0x2545F4914F6CDD1D)"

text \<open>
  One thread alone: the exchange succeeds, if not at once then after spurious failures. The value
  returned and the state are the same word.
\<close>

definition tracer_prng_next :: "u64 \<Rightarrow> u64 \<times> u64" where
  "tracer_prng_next state = (let new = xorshift64s state in (new, new))"

text \<open>
  Any number of threads: the load, the exchange that succeeds, and the exchange that fails, because the
  word has changed or spuriously, and then hands back the current word.
\<close>

record prng =
  pg_state :: u64
  pg_old :: "nat \<Rightarrow> u64 option"
  pg_drawn :: "(nat \<times> u64) list"

inductive prng_step :: "prng \<Rightarrow> prng \<Rightarrow> bool" where
  load: "pg_old s p = None \<Longrightarrow> prng_step s (s\<lparr>pg_old := (pg_old s)(p := Some (pg_state s))\<rparr>)"
| cas_ok: "pg_old s p = Some old \<Longrightarrow> pg_state s = old \<Longrightarrow>
    prng_step s (s\<lparr>pg_state := xorshift64s old, pg_old := (pg_old s)(p := None),
      pg_drawn := pg_drawn s @ [(p, xorshift64s old)]\<rparr>)"
| cas_fail: "pg_old s p = Some old \<Longrightarrow> prng_step s (s\<lparr>pg_old := (pg_old s)(p := Some (pg_state s))\<rparr>)"

section \<open>Identifiers\<close>

definition put_u64_be :: "u64 \<Rightarrow> u8 list" where
  "put_u64_be v = [ucast (drop_bit 56 v), ucast (drop_bit 48 v), ucast (drop_bit 40 v), ucast (drop_bit 32 v),
     ucast (drop_bit 24 v), ucast (drop_bit 16 v), ucast (drop_bit 8 v), ucast v]"

function random_words :: "nat \<Rightarrow> nat \<Rightarrow> u64 \<Rightarrow> u8 list \<times> u64" where
  "random_words off len state =
     (if off < len then
        (case tracer_prng_next state of (v, state1) \<Rightarrow>
          (case random_words (off + 8) len state1 of (rest, state2) \<Rightarrow> (put_u64_be v @ rest, state2)))
      else ([], state))"
  by pat_completeness auto
termination by (relation "measure (\<lambda>(off, len, state). len - off)") auto

declare random_words.simps [simp del]

partial_function (option) fill_random_bytes :: "nat \<Rightarrow> u64 \<Rightarrow> (u8 list \<times> u64) option" where
  "fill_random_bytes len state =
     (case random_words 0 len state of (out, state1) \<Rightarrow>
        if len > 0 \<and> list_all (\<lambda>b. b = 0) out then fill_random_bytes len state1 else Some (out, state1))"

section \<open>The tracer\<close>

record 'w otlp_tracer =
  tr_service_name :: cstr
  tr_scope_name :: cstr
  tr_scope_version :: cstr
  tr_sampler :: "'w otlp_sampler option"
  tr_prng_state :: u64

definition SIZEOF_TRACER :: nat where "SIZEOF_TRACER = 40"

text \<open>The thread and process identifiers only seed the generator.\<close>

definition otlp_tracer_create ::
  "'w allocator \<Rightarrow> ('a, 'w) posix \<Rightarrow> u64 \<Rightarrow> u64 \<Rightarrow> cstr option \<Rightarrow> cstr option \<Rightarrow> cstr option \<Rightarrow> 'w \<Rightarrow> 'w otlp_tracer option \<times> 'w" where
  "otlp_tracer_create A P thread_id pid service_name scope_name scope_version w =
     (case a_alloc A SIZEOF_TRACER w of
        (False, w1) \<Rightarrow> (None, w1)
      | (True, w1) \<Rightarrow> (case otlp_dup_str A (Some (or_empty service_name)) w1 of (service, w2) \<Rightarrow>
          (case otlp_dup_str A (Some (or_empty scope_name)) w2 of (scope, w3) \<Rightarrow>
            (case otlp_dup_str A (Some (or_empty scope_version)) w3 of (version, w4) \<Rightarrow>
              (case (service, scope, version) of
                 (Some sn, Some sc, Some sv) \<Rightarrow>
                   (case otlp_platform_now_mono_nano P 0 w4 of (_, clock, w5) \<Rightarrow>
                     let seed = clock XOR thread_id XOR pid in
                     (Some \<lparr>tr_service_name = sn, tr_scope_name = sc, tr_scope_version = sv, tr_sampler = None,
                        tr_prng_state = (if seed = 0 then 0x9E3779B97F4A7C15 else seed)\<rparr>, w5))
               | _ \<Rightarrow> (None, w4))))))"

definition otlp_tracer_set_sampler :: "'w otlp_tracer option \<Rightarrow> 'w otlp_sampler option \<Rightarrow> 'w otlp_tracer option" where
  "otlp_tracer_set_sampler tracer sampler =
     (case tracer of None \<Rightarrow> None
      | Some t \<Rightarrow> Some (t\<lparr>tr_sampler := Some (case sampler of Some s \<Rightarrow> s | None \<Rightarrow> otlp_sampler_always_on)\<rparr>))"

text \<open>
  \<open>fill_ids\<close> is the identifiers of the new span; \<open>now\<close> what the wall clock reports. The results of the
  setters are ignored, as in the code.
\<close>

definition fill_ids :: "u64 \<Rightarrow> span \<Rightarrow> span option \<Rightarrow> (span \<times> u64) option" where
  "fill_ids state s0 parent =
     (case (case parent of
         Some p \<Rightarrow>
           Some (the (snd (otlp_span_set_parent_span_id
             (Some (s0\<lparr>sp_trace_id := take OTLP_TRACE_ID_LEN (sp_trace_id p)\<rparr>)) (otlp_span_get_span_id parent))), state)
       | None \<Rightarrow> map_option (\<lambda>(bs, state1). (s0\<lparr>sp_trace_id := bs\<rparr>, state1)) (fill_random_bytes OTLP_TRACE_ID_LEN state)) of
        None \<Rightarrow> None
      | Some (s1, state1) \<Rightarrow>
          map_option (\<lambda>(bs, state2). (s1\<lparr>sp_span_id := bs\<rparr>, state2)) (fill_random_bytes OTLP_SPAN_ID_LEN state1))"

definition start_span_internal ::
  "'w allocator \<Rightarrow> (u64 \<times> u64) option \<Rightarrow> 'w otlp_tracer option \<Rightarrow> cstr option \<Rightarrow> span option \<Rightarrow> 'w \<Rightarrow>
     (span option \<times> 'w otlp_tracer option \<times> 'w) option" where
  "start_span_internal A now t_ptr name parent w =
     (case t_ptr of
        None \<Rightarrow> Some (None, None, w)
      | Some t \<Rightarrow> (case otlp_span_create A name w of
            (None, w1) \<Rightarrow> Some (None, Some t, w1)
          | (Some s0, w1) \<Rightarrow> (case fill_ids (tr_prng_state t) s0 parent of
              None \<Rightarrow> None
            | Some (s2, state) \<Rightarrow>
                let t1 = t\<lparr>tr_prng_state := state\<rparr>;
                    sampler = (case tr_sampler t of Some sm \<Rightarrow> sm | None \<Rightarrow> otlp_sampler_always_on)
                in case should_sample sampler (sp_trace_id s2) name (sp_kind s2) w1 of
                     None \<Rightarrow> None
                   | Some (decision, w2) \<Rightarrow>
                       if decision = OTLP_SAMPLING_DECISION_NOT_RECORD then Some (None, Some t1, w2)
                       else
                         let s3 = snd (otlp_span_set_sampled (Some s2) (decision = OTLP_SAMPLING_DECISION_RECORD_AND_SAMPLED));
                             s4 = snd (otlp_span_mark_start s3 now)
                         in Some (s4, Some t1, w2))))"

definition otlp_tracer_start_span where
  "otlp_tracer_start_span A now tracer name w = start_span_internal A now tracer name None w"

definition otlp_tracer_start_child_span where
  "otlp_tracer_start_child_span A now tracer name parent w =
     (if parent = None then Some (None, tracer, w) else start_span_internal A now tracer name parent w)"

section \<open>The generator permutes the nonzero words\<close>

lemma xorshift_jitter: "xorshift64s s = fst (otlp_jitter_next s)"
  by (simp add: xorshift64s_def otlp_jitter_next_def Let_def)

lemma odd_multiplier_inj: "x * 0x2545F4914F6CDD1D = y * 0x2545F4914F6CDD1D \<Longrightarrow> x = (y :: u64)"
proof -
  assume "x * 0x2545F4914F6CDD1D = y * 0x2545F4914F6CDD1D"
  then have "x * (0x2545F4914F6CDD1D * 0x59071D96D81ECD35) = y * (0x2545F4914F6CDD1D * 0x59071D96D81ECD35)"
    by (simp only: mult.assoc [symmetric])
  moreover have "(0x2545F4914F6CDD1D * 0x59071D96D81ECD35 :: u64) = 1" by simp
  ultimately show ?thesis by (simp only: mult_1_right)
qed

lemma xorshift_state: "xorshift64s s = snd (otlp_jitter_next s) * 0x2545F4914F6CDD1D"
  unfolding xorshift_jitter otlp_jitter_next_def Let_def fst_conv snd_conv by (rule refl)

lemma xorshift_inj: "xorshift64s s = xorshift64s t \<Longrightarrow> s = t"
  unfolding xorshift_state by (rule jitter_state_inj) (rule odd_multiplier_inj)

lemma xorshift_zero: "xorshift64s 0 = 0"
  by (simp add: xorshift_jitter jitter_zero)

lemma xorshift_nonzero: "s \<noteq> 0 \<Longrightarrow> xorshift64s s \<noteq> 0"
  using xorshift_inj [of s 0] by (auto simp: xorshift_zero)

lemma orbit_inj: "(xorshift64s ^^ n) s = (xorshift64s ^^ n) t \<Longrightarrow> s = t"
  by (induction n) (auto dest: xorshift_inj)

lemma orbit_nonzero: "s \<noteq> 0 \<Longrightarrow> (xorshift64s ^^ n) s \<noteq> 0"
  by (induction n) (simp_all add: xorshift_nonzero)

section \<open>Many threads draw from one sequence\<close>

inductive prng_reach :: "u64 \<Rightarrow> prng \<Rightarrow> bool" for seed where
  init: "prng_reach seed \<lparr>pg_state = seed, pg_old = (\<lambda>_. None), pg_drawn = []\<rparr>"
| step: "prng_reach seed s \<Longrightarrow> prng_step s s' \<Longrightarrow> prng_reach seed s'"

lemma prng_reach_orbit:
  "prng_reach seed s \<Longrightarrow> pg_state s = (xorshift64s ^^ length (pg_drawn s)) seed
     \<and> map snd (pg_drawn s) = map (\<lambda>i. (xorshift64s ^^ Suc i) seed) [0..<length (pg_drawn s)]"
proof (induction rule: prng_reach.induct)
  case (step s s')
  from step.hyps(2) step.IH show ?case by (cases rule: prng_step.cases) simp_all
qed simp

text \<open>
  C13. However many threads share a tracer, and however their loads and exchanges interleave, the values
  handed out, in the order of the successful exchanges, are those one thread alone would draw: the orbit of
  the seed. So no value is lost or handed out twice before the generator has come back to its seed, and none
  is zero.
\<close>

theorem prng_linearizable:
  assumes "prng_reach seed s" and "seed \<noteq> 0"
    and "\<forall>n \<in> {1..length (pg_drawn s)}. (xorshift64s ^^ n) seed \<noteq> seed"
  shows "map snd (pg_drawn s) = map (\<lambda>i. (xorshift64s ^^ Suc i) seed) [0..<length (pg_drawn s)]
    \<and> distinct (map snd (pg_drawn s)) \<and> 0 \<notin> set (map snd (pg_drawn s))"
proof -
  note drawn = prng_reach_orbit [OF assms(1), THEN conjunct2]
  have ne: "(xorshift64s ^^ Suc i) seed \<noteq> (xorshift64s ^^ Suc j) seed" if "i < j" "j < length (pg_drawn s)" for i j
  proof
    assume "(xorshift64s ^^ Suc i) seed = (xorshift64s ^^ Suc j) seed"
    also have "(xorshift64s ^^ Suc j) seed = (xorshift64s ^^ Suc i) ((xorshift64s ^^ (j - i)) seed)"
      using that(1) by (simp only: funpow_add [symmetric, THEN fun_cong, unfolded comp_def]) simp
    finally have "(xorshift64s ^^ (j - i)) seed = seed" using orbit_inj by metis
    moreover have "j - i \<in> {1..length (pg_drawn s)}" using that by (simp add: Suc_le_eq less_imp_diff_less less_imp_le)
    ultimately show False using assms(3) by blast
  qed
  then have "inj_on (\<lambda>i. (xorshift64s ^^ Suc i) seed) {..<length (pg_drawn s)}"
    unfolding inj_on_def by (metis lessThan_iff linorder_neqE_nat)
  then show ?thesis using drawn orbit_nonzero [OF assms(2)]
    by (simp only: drawn distinct_map) (auto simp: atLeast0LessThan simp del: funpow.simps)
qed

theorem prng_linearizable_witness:
  "\<exists>s. prng_reach 1 s \<and> map fst (pg_drawn s) = [1, 0] \<and> distinct (map snd (pg_drawn s))"
proof -
  define s1 :: prng where "s1 = \<lparr>pg_state = 1, pg_old = (\<lambda>_. None)(0 := Some 1), pg_drawn = []\<rparr>"
  define s2 where "s2 = s1\<lparr>pg_old := (pg_old s1)(1 := Some 1)\<rparr>"
  define s3 where "s3 = s2\<lparr>pg_state := xorshift64s 1, pg_old := (pg_old s2)(1 := None), pg_drawn := [(1, xorshift64s 1)]\<rparr>"
  define s4 where "s4 = s3\<lparr>pg_old := (pg_old s3)(0 := Some (xorshift64s 1))\<rparr>"
  define s5 where "s5 = s4\<lparr>pg_state := xorshift64s (xorshift64s 1), pg_old := (pg_old s4)(0 := None),
    pg_drawn := [(1, xorshift64s 1), (0, xorshift64s (xorshift64s 1))]\<rparr>"
  have "prng_reach 1 s1" using prng_reach.step [OF prng_reach.init prng_step.load [where p = 0]] by (simp add: s1_def)
  then have "prng_reach 1 s2" using prng_step.load [of s1 1] by (auto simp: s1_def s2_def intro: prng_reach.step)
  then have "prng_reach 1 s3" using prng_step.cas_ok [of s2 1 1] by (auto simp: s1_def s2_def s3_def intro: prng_reach.step)
  then have "prng_reach 1 s4" using prng_step.cas_fail [of s3 0 1] by (auto simp: s1_def s2_def s3_def s4_def intro: prng_reach.step)
  then have r: "prng_reach 1 s5" using prng_step.cas_ok [of s4 0 "xorshift64s 1"]
    by (auto simp: s1_def s2_def s3_def s4_def s5_def intro: prng_reach.step)
  have "xorshift64s 1 \<noteq> 1" "xorshift64s (xorshift64s 1) \<noteq> 1" by (simp_all add: xorshift64s_def Let_def)
  then have "\<forall>n \<in> {1..length (pg_drawn s5)}. (xorshift64s ^^ n) 1 \<noteq> 1" by (auto simp: s5_def atLeastAtMost_upt upt_rec)
  from prng_linearizable [OF r _ this] r show ?thesis by (intro exI [of _ s5]) (simp add: s5_def)
qed

section \<open>Identifiers are never zero\<close>

definition valid_id :: "nat \<Rightarrow> u8 list \<Rightarrow> bool" where
  "valid_id n bs \<longleftrightarrow> length bs = n \<and> \<not> otlp_id_is_all_zero bs"

lemma length_put [simp]: "length (put_u64_be v) = 8"
  by (simp add: put_u64_be_def)

lemma put_value: "be_value (put_u64_be v) = unat v"
proof -
  define n where "n = unat v"
  have byte: "unat (ucast (drop_bit k v) :: u8) = n div 2 ^ k mod 256" for k
    by (simp add: unsigned_ucast_eq unat_drop_bit n_def take_bit_eq_mod)
  have last: "unat (ucast v :: u8) = n mod 256" using byte [of 0] by simp
  have step: "n div (256 * m) * 256 + n div m mod 256 = n div m" for m
    using div_mult_mod_eq [of "n div m" 256] by (simp only: div_mult2_eq mult.commute [of 256])
  have "n div 2 ^ 56 < 256" using unat_u64_lt [of v] by (simp add: n_def less_mult_imp_div_less)
  then have "be_value (put_u64_be v) = n"
    unfolding put_u64_be_def be_value_def
    using step [of "2 ^ 48"] step [of "2 ^ 40"] step [of "2 ^ 32"] step [of "2 ^ 24"] step [of "2 ^ 16"] step [of "2 ^ 8"] step [of 1]
    by (simp add: byte last)
  then show ?thesis by (simp only: n_def)
qed

lemma zero_value: "list_all (\<lambda>b. b = 0) bs \<Longrightarrow> be_value bs = 0"
  by (induction bs rule: rev_induct) (simp_all add: be_value_def)

lemma put_not_zero: "v \<noteq> 0 \<Longrightarrow> \<not> list_all (\<lambda>b. b = 0) (put_u64_be v)"
  using zero_value [of "put_u64_be v"] by (auto simp: put_value unat_eq_0)

lemma fill_span_id: "state \<noteq> 0 \<Longrightarrow> fill_random_bytes OTLP_SPAN_ID_LEN state = Some (put_u64_be (xorshift64s state), xorshift64s state)"
  using put_not_zero [OF xorshift_nonzero, of state]
  by (subst fill_random_bytes.simps)
     (simp add: OTLP_SPAN_ID_LEN_def random_words.simps [of 0] random_words.simps [of 8] tracer_prng_next_def Let_def)

lemma fill_trace_id:
  "state \<noteq> 0 \<Longrightarrow> fill_random_bytes OTLP_TRACE_ID_LEN state =
     Some (put_u64_be (xorshift64s state) @ put_u64_be (xorshift64s (xorshift64s state)), xorshift64s (xorshift64s state))"
  using put_not_zero [OF xorshift_nonzero, of state]
  by (subst fill_random_bytes.simps)
     (simp add: OTLP_TRACE_ID_LEN_def random_words.simps [of 0] random_words.simps [of 8] random_words.simps [of 16]
       tracer_prng_next_def Let_def)

text \<open>A zero state, which the seed avoids, would make the recursion endless.\<close>

lemma fill_zero_state: "fill_random_bytes OTLP_SPAN_ID_LEN 0 = None"
proof -
  have "\<not> (len = OTLP_SPAN_ID_LEN \<and> state = 0)" if "fill_random_bytes len state = Some y" for len state y
    using that
  proof (induction len state y rule: fill_random_bytes.raw_induct)
    case (1 fill len state y)
    have "random_words 0 OTLP_SPAN_ID_LEN 0 = ([0, 0, 0, 0, 0, 0, 0, 0], 0)"
      by (simp add: OTLP_SPAN_ID_LEN_def random_words.simps [of 0] random_words.simps [of 8] tracer_prng_next_def Let_def
          xorshift_zero put_u64_be_def)
    with 1(2-) 1(1) [of OTLP_SPAN_ID_LEN 0 y] show ?case by (auto simp: OTLP_SPAN_ID_LEN_def)
  qed (rule that)
  then show ?thesis by (cases "fill_random_bytes OTLP_SPAN_ID_LEN 0") auto
qed

text \<open>The states a tracer can be in.\<close>

inductive tracer_reach :: "'w allocator \<Rightarrow> ('a, 'w) posix \<Rightarrow> 'w otlp_tracer \<Rightarrow> bool" for A P where
  created: "otlp_tracer_create A P thread_id pid service scope version w = (Some t, w') \<Longrightarrow> tracer_reach A P t"
| sampler: "tracer_reach A P t \<Longrightarrow> otlp_tracer_set_sampler (Some t) sampler = Some t' \<Longrightarrow> tracer_reach A P t'"
| root: "tracer_reach A P t \<Longrightarrow> otlp_tracer_start_span A now (Some t) name w = Some (s, Some t', w') \<Longrightarrow> tracer_reach A P t'"
| child: "tracer_reach A P t \<Longrightarrow> otlp_tracer_start_child_span A now (Some t) name parent w = Some (s, Some t', w') \<Longrightarrow>
    tracer_reach A P t'"

definition root_ids :: "u64 \<Rightarrow> u8 list \<times> u8 list" where
  "root_ids s = (put_u64_be (xorshift64s s) @ put_u64_be (xorshift64s (xorshift64s s)),
     put_u64_be (xorshift64s (xorshift64s (xorshift64s s))))"

lemma fill_ids_root:
  "state \<noteq> 0 \<Longrightarrow> fill_ids state s0 None =
     Some (s0\<lparr>sp_trace_id := fst (root_ids state), sp_span_id := snd (root_ids state)\<rparr>, (xorshift64s ^^ 3) state)"
  by (simp add: fill_ids_def fill_trace_id fill_span_id xorshift_nonzero root_ids_def eval_nat_numeral)

definition joined :: "span \<Rightarrow> span \<Rightarrow> span" where
  "joined p s0 = (let s1 = s0\<lparr>sp_trace_id := take OTLP_TRACE_ID_LEN (sp_trace_id p)\<rparr> in
     if otlp_id_is_all_zero (take OTLP_SPAN_ID_LEN (sp_span_id p)) then s1
     else s1\<lparr>sp_parent_span_id := take OTLP_SPAN_ID_LEN (sp_span_id p), sp_has_parent := True\<rparr>)"

lemma fill_ids_child:
  "state \<noteq> 0 \<Longrightarrow> fill_ids state s0 (Some p) =
     Some ((joined p s0)\<lparr>sp_span_id := put_u64_be (xorshift64s state)\<rparr>, xorshift64s state)"
  by (simp add: fill_ids_def fill_span_id joined_def otlp_span_set_parent_span_id_def otlp_span_get_span_id_def Let_def)

definition new_ids :: "u64 \<Rightarrow> span \<Rightarrow> span option \<Rightarrow> span \<times> u64" where
  "new_ids state s0 parent =
     (case parent of
        None \<Rightarrow> (s0\<lparr>sp_trace_id := fst (root_ids state), sp_span_id := snd (root_ids state)\<rparr>, (xorshift64s ^^ 3) state)
      | Some p \<Rightarrow> ((joined p s0)\<lparr>sp_span_id := put_u64_be (xorshift64s state)\<rparr>, xorshift64s state))"

lemma fill_ids_new: "state \<noteq> 0 \<Longrightarrow> fill_ids state s0 parent = Some (new_ids state s0 parent)"
  by (cases parent) (simp_all add: fill_ids_root fill_ids_child new_ids_def)

lemma new_ids_state: "state \<noteq> 0 \<Longrightarrow> snd (new_ids state s0 parent) \<noteq> 0"
  by (auto simp: new_ids_def orbit_nonzero xorshift_nonzero simp del: funpow.simps split: option.split)

abbreviation sampler_of :: "'w otlp_tracer \<Rightarrow> 'w otlp_sampler" where
  "sampler_of t \<equiv> (case tr_sampler t of Some sm \<Rightarrow> sm | None \<Rightarrow> otlp_sampler_always_on)"

text \<open>One start, with the identifiers made explicit.\<close>

lemma start_internal:
  assumes "tr_prng_state t \<noteq> 0" "otlp_span_create A name w = (Some s0, w1)"
    and "new_ids (tr_prng_state t) s0 parent = (s2, state)"
  shows "start_span_internal A now (Some t) name parent w =
     (case should_sample (sampler_of t) (sp_trace_id s2) name (sp_kind s2) w1 of
        None \<Rightarrow> None
      | Some (decision, w2) \<Rightarrow>
          if decision = OTLP_SAMPLING_DECISION_NOT_RECORD then Some (None, Some (t\<lparr>tr_prng_state := state\<rparr>), w2)
          else Some (snd (otlp_span_mark_start (Some (s2\<lparr>sp_sampled := decision = OTLP_SAMPLING_DECISION_RECORD_AND_SAMPLED\<rparr>)) now),
            Some (t\<lparr>tr_prng_state := state\<rparr>), w2))"
  using assms by (simp add: start_span_internal_def fill_ids_new otlp_span_set_sampled_def Let_def split: option.split)

lemma start_internal_fails:
  "otlp_span_create A name w = (None, w1) \<Longrightarrow> start_span_internal A now (Some t) name parent w = Some (None, Some t, w1)"
  by (simp add: start_span_internal_def)

lemma start_internal_state:
  assumes "start_span_internal A now (Some t) name parent w = Some (s, Some t', w')" "tr_prng_state t \<noteq> 0"
  shows "tr_prng_state t' \<noteq> 0"
proof (cases "otlp_span_create A name w")
  case (Pair r w1)
  show ?thesis
  proof (cases r)
    case None
    with Pair assms start_internal_fails show ?thesis by fastforce
  next
    case (Some s0)
    obtain s2 state where n: "new_ids (tr_prng_state t) s0 parent = (s2, state)" by (rule prod.exhaust)
    then have "state \<noteq> 0" using new_ids_state [OF assms(2), of s0 parent] by simp
    then show ?thesis
      using assms(1) start_internal [OF assms(2) Pair [unfolded Some] n, of now]
      by (auto split: option.splits prod.splits if_splits)
  qed
qed

lemma tracer_reach_seeded: "tracer_reach A P t \<Longrightarrow> tr_prng_state t \<noteq> 0"
proof (induction rule: tracer_reach.induct)
  case (created thread_id pid service scope version w t w')
  then show ?case
    by (auto simp: otlp_tracer_create_def Let_def split: prod.splits bool.splits option.splits if_splits)
next
  case (child t now name parent w s t' w')
  then have "parent \<noteq> None \<Longrightarrow> start_span_internal A now (Some t) name parent w = Some (s, Some t', w')"
    "parent = None \<Longrightarrow> t' = t" by (auto simp: otlp_tracer_start_child_span_def split: if_splits)
  then show ?case using child.IH start_internal_state [of A now t name parent w s t' w'] by (cases "parent = None") simp_all
qed (auto simp: otlp_tracer_set_sampler_def otlp_tracer_start_span_def dest: start_internal_state)

lemma span_created:
  assumes "otlp_span_create A name w = (Some s0, w1)"
  shows "s0 = span_zero\<lparr>sp_name := Some (or_empty name), sp_kind := KIND_INTERNAL, sp_sampled := True\<rparr>"
  using assms by (auto simp: otlp_span_create_def otlp_dup_str_def span_zero_def
      split: prod.splits bool.splits if_splits option.splits)

lemma mark_start_ids:
  "\<exists>tm b. snd (otlp_span_mark_start (Some s) now) = Some (s\<lparr>sp_start_time := tm, sp_has_start_time := b\<rparr>)"
  by (cases s) (auto simp: otlp_span_mark_start_def split: prod.splits)

lemma root_ids_valid: "s \<noteq> 0 \<Longrightarrow> valid_id 16 (fst (root_ids s)) \<and> valid_id 8 (snd (root_ids s))"
  by (simp add: root_ids_def valid_id_def otlp_id_is_all_zero_def put_not_zero xorshift_nonzero)

text \<open>A sampler that always decides: any but a ratio that is not a number.\<close>

definition decides :: "'w otlp_sampler \<Rightarrow> bool" where
  "decides sm \<longleftrightarrow> (case sm of Ratio r \<Rightarrow> \<not> f64_nan r | _ \<Rightarrow> True)"

lemma decides_total:
  assumes "decides sm" "length tid = 16"
  shows "\<exists>d w'. should_sample sm tid name kind w = Some (d, w')"
proof (cases sm)
  case (Ratio r)
  have "ratio_should_sample r tid name kind \<noteq> None"
  proof (cases "f64_le r 0 \<or> f64_le F64_ONE r")
    case True
    then show ?thesis by (auto simp: ratio_should_sample_def)
  next
    case False
    have nan: "\<not> f64_nan r" using assms(1) Ratio by (simp add: decides_def)
    then have "0 < f64_int r" "f64_int r < 2 ^ 1074"
      using False unfolding f64_le_def F64_consts by (meson not_le F64_consts)+
    from ratio_inside [OF nan this assms(2)] show ?thesis by simp
  qed
  then show ?thesis by (auto simp: should_sample_def Ratio)
next
  case (Custom f)
  then show ?thesis by (cases "f tid name kind w") (simp add: should_sample_def)
qed (simp_all add: should_sample_def)

text \<open>
  C15. A root span has valid identifiers, and starting one returns. From any state a tracer can reach, under
  any sampler but a ratio that is not a number, \<^verbatim>\<open>otlp_tracer_start_span\<close> returns: no regeneration of an
  identifier ever recurses. A failure to allocate leaves the tracer as it was; otherwise the generator has
  moved on three draws, and a span that is returned has a 16-byte trace id and an 8-byte span id, neither
  all zero, no parent, the kind INTERNAL and the name given, and is sampled if the sampler is built in.
\<close>

theorem tracer_starts_valid:
  assumes "tracer_reach A P t" and "decides (sampler_of t)"
  shows "\<exists>res t' w'. otlp_tracer_start_span A now (Some t) name w = Some (res, Some t', w')
    \<and> (t' = t \<and> res = None \<or> t' = t\<lparr>tr_prng_state := (xorshift64s ^^ 3) (tr_prng_state t)\<rparr>)
    \<and> (\<forall>s. res = Some s \<longrightarrow> valid_id 16 (sp_trace_id s) \<and> valid_id 8 (sp_span_id s) \<and> \<not> sp_has_parent s
        \<and> sp_kind s = KIND_INTERNAL \<and> sp_name s = Some (or_empty name)
        \<and> (sp_sampled s \<or> (\<exists>f. tr_sampler t = Some (Custom f))))"
proof -
  note nz = tracer_reach_seeded [OF assms(1)]
  obtain r w1 where c: "otlp_span_create A name w = (r, w1)" by (rule prod.exhaust)
  show ?thesis
  proof (cases r)
    case None
    with start_internal_fails c show ?thesis by (fastforce simp: otlp_tracer_start_span_def)
  next
    case (Some s0)
    note s0 = span_created [OF c [unfolded Some]]
    define s2 where "s2 = s0\<lparr>sp_trace_id := fst (root_ids (tr_prng_state t)), sp_span_id := snd (root_ids (tr_prng_state t))\<rparr>"
    have n: "new_ids (tr_prng_state t) s0 None = (s2, (xorshift64s ^^ 3) (tr_prng_state t))" by (simp add: new_ids_def s2_def)
    have ids: "valid_id 16 (sp_trace_id s2)" "valid_id 8 (sp_span_id s2)" using root_ids_valid [OF nz] by (simp_all add: s2_def)
    then obtain d w2 where d: "should_sample (sampler_of t) (sp_trace_id s2) name (sp_kind s2) w1 = Some (d, w2)"
      using decides_total [OF assms(2)] by (metis valid_id_def)
    have builtin: "d \<noteq> OTLP_SAMPLING_DECISION_RECORD \<or> (\<exists>f. tr_sampler t = Some (Custom f))"
      using d by (auto simp: should_sample_def always_on_should_sample_def always_off_should_sample_def ratio_should_sample_def
          otlp_sampler_always_on_def split: option.splits otlp_sampler.splits if_splits)
    obtain tm b where mk: "snd (otlp_span_mark_start (Some (s2\<lparr>sp_sampled := d = OTLP_SAMPLING_DECISION_RECORD_AND_SAMPLED\<rparr>)) now) =
        Some (s2\<lparr>sp_sampled := d = OTLP_SAMPLING_DECISION_RECORD_AND_SAMPLED, sp_start_time := tm, sp_has_start_time := b\<rparr>)"
      using mark_start_ids by metis
    show ?thesis
      unfolding otlp_tracer_start_span_def start_internal [OF nz c [unfolded Some] n] d option.case prod.case mk
      using ids builtin by (cases d) (auto simp: s2_def s0 span_zero_def simp del: funpow.simps)
  qed
qed

definition demo_posix_clock :: "nat \<Rightarrow> (unit, unit) posix" where
  "demo_posix_clock n = \<lparr>px_getaddrinfo = (\<lambda>h p w. (None, w)), px_socket = (\<lambda>a w. (- 1, w)), px_nonblock = (\<lambda>fd w. w),
     px_connect = (\<lambda>fd a w. (None, w)), px_poll_out = (\<lambda>fd w. (0, w)), px_so_error = (\<lambda>fd w. (None, w)),
     px_send = (\<lambda>fd bs w. (Inr 0, w)), px_recv = (\<lambda>fd k w. (Inr [], w)), px_close = (\<lambda>fd w. w),
     px_monotonic = (\<lambda>w. (Some (word_of_nat n, 0), w))\<rparr>"

definition demo_tracer :: "unit otlp_tracer" where
  "demo_tracer = \<lparr>tr_service_name = [], tr_scope_name = [], tr_scope_version = [], tr_sampler = None, tr_prng_state = 3\<rparr>"

lemma demo_tracer_created: "otlp_tracer_create always_alloc (demo_posix_clock 0) 1 2 None None None () = (Some demo_tracer, ())"
  by (simp add: otlp_tracer_create_def always_alloc_def otlp_dup_str_def or_empty_def SIZE_MAX_def demo_posix_clock_def
      otlp_platform_now_mono_nano_def demo_tracer_def)

lemma demo_tracer_reach: "tracer_reach always_alloc (demo_posix_clock 0) demo_tracer"
  by (rule tracer_reach.created [OF demo_tracer_created])

lemma demo_span_created: "otlp_span_create always_alloc None () =
    (Some (span_zero\<lparr>sp_name := Some [], sp_kind := KIND_INTERNAL, sp_sampled := True\<rparr>), ())"
  by (simp add: otlp_span_create_def always_alloc_def otlp_dup_str_def or_empty_def SIZE_MAX_def span_zero_def)

theorem tracer_starts_valid_witness:
  "\<exists>s t'. otlp_tracer_start_span always_alloc None (Some demo_tracer) None () = Some (Some s, t', ())
     \<and> valid_id 16 (sp_trace_id s) \<and> valid_id 8 (sp_span_id s)"
proof -
  have "decides (sampler_of demo_tracer)" by (simp add: demo_tracer_def otlp_sampler_always_on_def decides_def)
  from tracer_starts_valid [OF demo_tracer_reach this, of None None "()"]
  obtain res t' where r: "otlp_tracer_start_span always_alloc None (Some demo_tracer) None () = Some (res, Some t', ())"
    "\<forall>s. res = Some s \<longrightarrow> valid_id 16 (sp_trace_id s) \<and> valid_id 8 (sp_span_id s)" by auto
  have "tr_prng_state demo_tracer \<noteq> 0" "tr_sampler demo_tracer = None" by (simp_all add: demo_tracer_def)
  with r(1) have "res \<noteq> None"
    by (auto simp: otlp_tracer_start_span_def start_internal [OF _ demo_span_created surjective_pairing] should_sample_def
        always_on_should_sample_def otlp_sampler_always_on_def otlp_span_mark_start_def otlp_platform_now_unix_nano_def)
  with r show ?thesis by auto
qed

section \<open>A trace is sampled as one\<close>



text \<open>A parent that has no identifiers yet gives its child an all-zero trace id and no parent.\<close>

lemma orphan_child:
  assumes "tracer_reach A P t" "tr_sampler t = None" "otlp_span_create A pname w0 = (Some p, v0)" "otlp_span_create A name w = (Some s0, w1)"
  shows "\<exists>s t'. otlp_tracer_start_child_span A now (Some t) name (Some p) w = Some (Some s, Some t', w1)
    \<and> otlp_id_is_all_zero (sp_trace_id s) \<and> \<not> sp_has_parent s"
proof -
  note nz = tracer_reach_seeded [OF assms(1)]
  define s2 where "s2 = (joined p s0)\<lparr>sp_span_id := put_u64_be (xorshift64s (tr_prng_state t))\<rparr>"
  have n: "new_ids (tr_prng_state t) s0 (Some p) = (s2, xorshift64s (tr_prng_state t))" by (simp add: new_ids_def s2_def)
  have s2: "otlp_id_is_all_zero (sp_trace_id s2)" "\<not> sp_has_parent s2"
    using span_created [OF assms(3)] span_created [OF assms(4)]
    by (simp_all add: s2_def joined_def Let_def span_zero_def otlp_id_is_all_zero_def list_all_iff)
  obtain tm b where mk: "snd (otlp_span_mark_start (Some (s2\<lparr>sp_sampled := True\<rparr>)) now) =
      Some (s2\<lparr>sp_sampled := True, sp_start_time := tm, sp_has_start_time := b\<rparr>)" using mark_start_ids by metis
  show ?thesis using s2 assms(2)
    by (simp add: otlp_tracer_start_child_span_def start_internal [OF nz assms(4) n] should_sample_def otlp_sampler_always_on_def
        always_on_should_sample_def mk)
qed

end
