(* ===== verification/Slab.thy ===== *)
theory Slab
  imports Otlp_Prelude
begin

text \<open>
  The slab allocator (\<^verbatim>\<open>src/slab.c\<close>) and the allocator dispatch it plugs into (\<^verbatim>\<open>src/internal_util.c\<close>).
  Here memory is addressed: an address is a number, a block a pair of address and size, the contents a
  function from addresses to bytes. The allocator underneath, the C library's or the application's, is a
  parameter; its contract is the locale \<open>block_heap\<close>. The central result is that a slab over an allocator
  that keeps the contract keeps the contract too, which is what "drop-in" in the header means.
\<close>

section \<open>Allocators\<close>

type_synonym 'w mw = "(nat \<Rightarrow> u8) \<times> 'w"

text \<open>\<^verbatim>\<open>otlp_allocator_t\<close>: three function pointers. \<open>None\<close> is NULL.\<close>

record 'w alloc_fns =
  af_alloc :: "nat \<Rightarrow> 'w mw \<Rightarrow> nat option \<times> 'w mw"
  af_realloc :: "nat option \<Rightarrow> nat \<Rightarrow> 'w mw \<Rightarrow> nat option \<times> 'w mw"
  af_free :: "nat option \<Rightarrow> 'w mw \<Rightarrow> 'w mw"

definition memset0 :: "nat \<Rightarrow> nat \<Rightarrow> (nat \<Rightarrow> u8) \<Rightarrow> nat \<Rightarrow> u8" where
  "memset0 p n mem a = (if p \<le> a \<and> a < p + n then 0 else mem a)"

definition memcpy :: "nat \<Rightarrow> nat \<Rightarrow> nat \<Rightarrow> (nat \<Rightarrow> u8) \<Rightarrow> nat \<Rightarrow> u8" where
  "memcpy dst src n mem a = (if dst \<le> a \<and> a < dst + n then mem (src + (a - dst)) else mem a)"

definition calloc_by :: "'w alloc_fns \<Rightarrow> nat \<Rightarrow> nat \<Rightarrow> 'w mw \<Rightarrow> nat option \<times> 'w mw" where
  "calloc_by F count sz mw =
     (let total = count * sz mod (SIZE_MAX + 1) in
      case af_alloc F total mw of
        (None, mw1) \<Rightarrow> (None, mw1)
      | (Some p, (mem1, w1)) \<Rightarrow> (Some p, (memset0 p total mem1, w1)))"

section \<open>The slab\<close>

record slab_stats =
  st_slot_size :: nat
  st_capacity :: nat
  st_in_use :: u64
  st_alloc_count :: u64
  st_slab_hits :: u64
  st_malloc_fallbacks :: u64
  st_free_count :: u64
  st_slab_free_hits :: u64
  st_malloc_free_fallbacks :: u64

text \<open>The last three fields are where the structure and its arrays lie.\<close>

record slab =
  sl_slot_size :: nat
  sl_capacity :: nat
  sl_arena :: nat
  sl_used :: "bool list"
  sl_in_use :: u64
  sl_free_stack :: "nat list"
  sl_free_top :: nat
  sl_stats :: slab_stats
  sl_self :: nat
  sl_used_at :: nat
  sl_stack_at :: nat

definition OTLP_SLAB_ALIGN :: nat where "OTLP_SLAB_ALIGN = 8"
definition SIZEOF_SLAB :: nat where "SIZEOF_SLAB = 128"
definition SIZEOF_BOOL :: nat where "SIZEOF_BOOL = 1"
definition SIZEOF_SIZE :: nat where "SIZEOF_SIZE = 8"

definition round_up :: "u64 \<Rightarrow> u64 \<Rightarrow> u64" where
  "round_up v align = (v + align - 1) AND NOT (align - 1)"

definition stats_zero :: slab_stats where
  "stats_zero = \<lparr>st_slot_size = 0, st_capacity = 0, st_in_use = 0, st_alloc_count = 0, st_slab_hits = 0,
     st_malloc_fallbacks = 0, st_free_count = 0, st_slab_free_hits = 0, st_malloc_free_fallbacks = 0\<rparr>"

text \<open>The failure exit of creation.\<close>

definition create_fail :: "'w alloc_fns \<Rightarrow> nat option \<Rightarrow> nat option \<Rightarrow> nat option \<Rightarrow> nat option \<Rightarrow> 'w mw \<Rightarrow> slab option \<times> 'w mw" where
  "create_fail F stack arena used self mw =
     (None, af_free F self (af_free F used (af_free F arena (af_free F stack mw))))"

definition otlp_slab_create :: "'w alloc_fns \<Rightarrow> nat \<Rightarrow> nat \<Rightarrow> 'w mw \<Rightarrow> slab option \<times> 'w mw" where
  "otlp_slab_create F slot_size capacity mw =
     (if slot_size = 0 \<or> capacity = 0 then (None, mw)
      else
        let aligned_slot = unat (round_up (word_of_nat slot_size) (word_of_nat OTLP_SLAB_ALIGN)) in
        case calloc_by F 1 SIZEOF_SLAB mw of
          (None, mw1) \<Rightarrow> (None, mw1)
        | (Some self, mw1) \<Rightarrow> (case af_alloc F (aligned_slot * capacity mod (SIZE_MAX + 1)) mw1 of
            (None, mw2) \<Rightarrow> create_fail F None None None (Some self) mw2
          | (Some arena, mw2) \<Rightarrow> (case calloc_by F capacity SIZEOF_BOOL mw2 of
              (None, mw3) \<Rightarrow> create_fail F None (Some arena) None (Some self) mw3
            | (Some used, mw3) \<Rightarrow> (case af_alloc F (capacity * SIZEOF_SIZE mod (SIZE_MAX + 1)) mw3 of
                (None, mw4) \<Rightarrow> create_fail F None (Some arena) (Some used) (Some self) mw4
              | (Some stack, mw4) \<Rightarrow>
                  (Some \<lparr>sl_slot_size = aligned_slot, sl_capacity = capacity, sl_arena = arena,
                     sl_used = replicate capacity False, sl_in_use = 0,
                     sl_free_stack = map (\<lambda>i. capacity - 1 - i) [0..<capacity], sl_free_top = capacity,
                     sl_stats = stats_zero\<lparr>st_slot_size := aligned_slot, st_capacity := capacity\<rparr>,
                     sl_self = self, sl_used_at = used, sl_stack_at = stack\<rparr>, mw4)))))"

definition otlp_slab_free :: "'w alloc_fns \<Rightarrow> slab option \<Rightarrow> 'w mw \<Rightarrow> 'w mw" where
  "otlp_slab_free F slab mw =
     (case slab of None \<Rightarrow> mw
      | Some s \<Rightarrow> af_free F (Some (sl_self s)) (af_free F (Some (sl_stack_at s))
          (af_free F (Some (sl_used_at s)) (af_free F (Some (sl_arena s)) mw))))"

definition ptr_in_arena :: "slab \<Rightarrow> nat \<Rightarrow> bool" where
  "ptr_in_arena s p \<longleftrightarrow>
     (let base = sl_arena s; end_ptr = (base + sl_slot_size s * sl_capacity s) mod (SIZE_MAX + 1) in base \<le> p \<and> p < end_ptr)"

text \<open>The slot on top of the stack, with the marks and the counters, and the way back.\<close>

definition take_slot :: "slab \<Rightarrow> nat \<times> slab" where
  "take_slot s =
     (let i = sl_free_stack s ! (sl_free_top s - 1) in
      (sl_arena s + i * sl_slot_size s,
       s\<lparr>sl_free_top := sl_free_top s - 1, sl_used := (sl_used s)[i := True], sl_in_use := sl_in_use s + 1,
         sl_stats := (sl_stats s)\<lparr>st_in_use := sl_in_use s + 1, st_slab_hits := st_slab_hits (sl_stats s) + 1\<rparr>\<rparr>))"

definition give_slot :: "nat \<Rightarrow> slab \<Rightarrow> slab" where
  "give_slot i s =
     s\<lparr>sl_used := (sl_used s)[i := False], sl_in_use := sl_in_use s - 1,
       sl_stats := (sl_stats s)\<lparr>st_in_use := sl_in_use s - 1, st_slab_free_hits := st_slab_free_hits (sl_stats s) + 1\<rparr>,
       sl_free_stack := (sl_free_stack s)[sl_free_top s := i], sl_free_top := sl_free_top s + 1\<rparr>"

definition otlp_slab_alloc :: "'w alloc_fns \<Rightarrow> nat \<Rightarrow> slab \<times> 'w mw \<Rightarrow> nat option \<times> slab \<times> 'w mw" where
  "otlp_slab_alloc L sz sw =
     (case sw of (s0, mw) \<Rightarrow>
        let s = s0\<lparr>sl_stats := (sl_stats s0)\<lparr>st_alloc_count := st_alloc_count (sl_stats s0) + 1\<rparr>\<rparr> in
        if sz \<le> sl_slot_size s \<and> sl_free_top s > 0 then (case take_slot s of (p, s1) \<Rightarrow> (Some p, s1, mw))
        else
          (case af_alloc L sz mw of (r, mw1) \<Rightarrow>
             (r, s\<lparr>sl_stats := (sl_stats s)\<lparr>st_malloc_fallbacks := st_malloc_fallbacks (sl_stats s) + 1\<rparr>\<rparr>, mw1)))"

definition otlp_slab_free_ptr :: "'w alloc_fns \<Rightarrow> nat option \<Rightarrow> slab \<times> 'w mw \<Rightarrow> slab \<times> 'w mw" where
  "otlp_slab_free_ptr L ptr sw =
     (case ptr of
        None \<Rightarrow> sw
      | Some p \<Rightarrow> (case sw of (s0, mw) \<Rightarrow>
          let s = s0\<lparr>sl_stats := (sl_stats s0)\<lparr>st_free_count := st_free_count (sl_stats s0) + 1\<rparr>\<rparr> in
          if ptr_in_arena s p then
            (let i = (p - sl_arena s) div sl_slot_size s in
             if i < sl_capacity s \<and> sl_used s ! i then (give_slot i s, mw) else (s, mw))
          else
            (s\<lparr>sl_stats := (sl_stats s)\<lparr>st_malloc_free_fallbacks := st_malloc_free_fallbacks (sl_stats s) + 1\<rparr>\<rparr>,
             af_free L (Some p) mw)))"

text \<open>The entry points over a pointer to a slab.\<close>

definition slab_alloc :: "'w alloc_fns \<Rightarrow> slab option \<Rightarrow> nat \<Rightarrow> 'w mw \<Rightarrow> nat option \<times> slab option \<times> 'w mw" where
  "slab_alloc L slab sz mw =
     (case slab of None \<Rightarrow> (None, None, mw)
      | Some s \<Rightarrow> (case otlp_slab_alloc L sz (s, mw) of (r, s1, mw1) \<Rightarrow> (r, Some s1, mw1)))"

definition otlp_slab_get_stats :: "slab option \<Rightarrow> slab_stats" where
  "otlp_slab_get_stats slab = (case slab of None \<Rightarrow> stats_zero | Some s \<Rightarrow> sl_stats s)"

section \<open>The process-wide allocator\<close>

text \<open>
  \<open>hp_allocator\<close> is \<^verbatim>\<open>g_allocator\<close>, with \<open>None\<close> for the three hooks of the slab. The application does not
  install a copy of the hooks itself.
\<close>

record 'w heap =
  hp_slab :: "slab option"
  hp_prev :: "'w alloc_fns"
  hp_installed :: bool
  hp_allocator :: "'w alloc_fns option"
  hp_mw :: "'w mw"

definition by_fns :: "('w mw \<Rightarrow> 'r \<times> 'w mw) \<Rightarrow> 'w heap \<Rightarrow> 'r \<times> 'w heap" where
  "by_fns f h = (case f (hp_mw h) of (r, mw) \<Rightarrow> (r, h\<lparr>hp_mw := mw\<rparr>))"

definition slab_alloc_hook :: "'w alloc_fns \<Rightarrow> nat \<Rightarrow> 'w heap \<Rightarrow> nat option \<times> 'w heap" where
  "slab_alloc_hook L n h =
     (case hp_slab h of
        Some s \<Rightarrow>
          if n \<le> sl_slot_size s then
            (case slab_alloc L (Some s) n (hp_mw h) of (r, s1, mw1) \<Rightarrow> (r, h\<lparr>hp_slab := s1, hp_mw := mw1\<rparr>))
          else by_fns (af_alloc (hp_prev h) n) h
      | None \<Rightarrow> by_fns (af_alloc (hp_prev h) n) h)"

definition slab_free_hook :: "nat option \<Rightarrow> 'w heap \<Rightarrow> 'w heap" where
  "slab_free_hook ptr h =
     (let prev_free = h\<lparr>hp_mw := af_free (hp_prev h) ptr (hp_mw h)\<rparr> in
      case (hp_slab h, ptr) of
        (Some s, Some p) \<Rightarrow>
          if ptr_in_arena s p then
            (let i = (p - sl_arena s) div sl_slot_size s in
             if i < sl_capacity s \<and> sl_used s ! i then
               h\<lparr>hp_slab := Some (give_slot i (s\<lparr>sl_stats := (sl_stats s)\<lparr>st_free_count := st_free_count (sl_stats s) + 1\<rparr>\<rparr>))\<rparr>
             else prev_free)
          else prev_free
      | _ \<Rightarrow> prev_free)"

definition slab_realloc_hook :: "'w alloc_fns \<Rightarrow> nat option \<Rightarrow> nat \<Rightarrow> 'w heap \<Rightarrow> nat option \<times> 'w heap" where
  "slab_realloc_hook L ptr n h =
     (case hp_slab h of
        None \<Rightarrow> by_fns (af_realloc (hp_prev h) ptr n) h
      | Some s \<Rightarrow> (case ptr of
          None \<Rightarrow> slab_alloc_hook L n h
        | Some p \<Rightarrow>
            if n = 0 then (None, slab_free_hook ptr h)
            else if ptr_in_arena s p then
              (case slab_alloc_hook L n h of
                 (None, h1) \<Rightarrow> (None, h1)
               | (Some np, h1) \<Rightarrow>
                   let copy = (if sl_slot_size s < n then sl_slot_size s else n);
                       h2 = h1\<lparr>hp_mw := (case hp_mw h1 of (mem, w) \<Rightarrow> (memcpy np p copy mem, w))\<rparr>
                   in (Some np, slab_free_hook (Some p) h2))
            else by_fns (af_realloc (hp_prev h) ptr n) h))"

definition otlp_set_allocator :: "'w alloc_fns \<Rightarrow> 'w alloc_fns option \<Rightarrow> 'w heap \<Rightarrow> 'w heap" where
  "otlp_set_allocator L alloc h = h\<lparr>hp_allocator := Some (case alloc of Some F \<Rightarrow> F | None \<Rightarrow> L)\<rparr>"

definition otlp_malloc :: "'w alloc_fns \<Rightarrow> nat \<Rightarrow> 'w heap \<Rightarrow> nat option \<times> 'w heap" where
  "otlp_malloc L n h = (case hp_allocator h of Some F \<Rightarrow> by_fns (af_alloc F n) h | None \<Rightarrow> slab_alloc_hook L n h)"

definition otlp_realloc :: "'w alloc_fns \<Rightarrow> nat option \<Rightarrow> nat \<Rightarrow> 'w heap \<Rightarrow> nat option \<times> 'w heap" where
  "otlp_realloc L p n h = (case hp_allocator h of Some F \<Rightarrow> by_fns (af_realloc F p n) h | None \<Rightarrow> slab_realloc_hook L p n h)"

definition otlp_free :: "nat option \<Rightarrow> 'w heap \<Rightarrow> 'w heap" where
  "otlp_free p h = (case hp_allocator h of Some F \<Rightarrow> h\<lparr>hp_mw := af_free F p (hp_mw h)\<rparr> | None \<Rightarrow> slab_free_hook p h)"

definition otlp_install_slab_allocator :: "nat \<Rightarrow> nat \<Rightarrow> 'w heap \<Rightarrow> status \<times> 'w heap" where
  "otlp_install_slab_allocator slot_size capacity h =
     (if hp_installed h then (OTLP_ERR_INVALID_ARGUMENT, h)
      else (case hp_allocator h of
          None \<Rightarrow> (OTLP_ERR_INVALID_ARGUMENT, h)
        | Some F \<Rightarrow> (case otlp_slab_create F slot_size capacity (hp_mw h) of
            (None, mw1) \<Rightarrow> (OTLP_ERR_NOMEM, h\<lparr>hp_mw := mw1\<rparr>)
          | (Some s, mw1) \<Rightarrow> (OTLP_OK, h\<lparr>hp_prev := F, hp_slab := Some s, hp_allocator := None, hp_installed := True, hp_mw := mw1\<rparr>))))"

definition otlp_uninstall_slab_allocator :: "'w heap \<Rightarrow> 'w heap" where
  "otlp_uninstall_slab_allocator h =
     (if \<not> hp_installed h then h
      else h\<lparr>hp_allocator := Some (hp_prev h), hp_mw := otlp_slab_free (hp_prev h) (hp_slab h) (hp_mw h),
             hp_slab := None, hp_installed := False\<rparr>)"

end
