(* ===== verification/Slab_Props.thy ===== *)
theory Slab_Props
  imports Slab
begin

text \<open>
  What a caller may rely on: the contract of an allocator as a locale over any state, the proof that a slab
  keeps it when the allocator underneath does, and what follows for runs of a program.
\<close>

section \<open>The contract\<close>

text \<open>A block is an address and a size. Blocks in use do not overlap, lie below the end of memory, and are aligned.\<close>

type_synonym block = "nat \<times> nat"

definition inside :: "nat \<Rightarrow> block \<Rightarrow> bool" where
  "inside a b \<longleftrightarrow> fst b \<le> a \<and> a < fst b + snd b"

definition apart :: "block \<Rightarrow> block \<Rightarrow> bool" where
  "apart b c \<longleftrightarrow> fst b + snd b \<le> fst c \<or> fst c + snd c \<le> fst b"

definition blocks_ok :: "block set \<Rightarrow> bool" where
  "blocks_ok B \<longleftrightarrow> (\<forall>b \<in> B. \<forall>c \<in> B. b \<noteq> c \<longrightarrow> apart b c)
     \<and> (\<forall>b \<in> B. 0 < fst b \<and> 0 < snd b \<and> fst b + snd b \<le> SIZE_MAX \<and> OTLP_SLAB_ALIGN dvd fst b)"

lemma blocks_okD:
  assumes "blocks_ok B"
  shows "b \<in> B \<Longrightarrow> c \<in> B \<Longrightarrow> b \<noteq> c \<Longrightarrow> apart b c"
    and "b \<in> B \<Longrightarrow> 0 < fst b \<and> 0 < snd b \<and> fst b + snd b \<le> SIZE_MAX \<and> OTLP_SLAB_ALIGN dvd fst b"
  using assms by (auto simp: blocks_ok_def)

text \<open>
  The contract, in the terms of the C standard. A successful request yields a new block at least as large
  as asked for, and not empty; a failed one changes nothing in use; \<open>free\<close> of a block in use retires it;
  none of them touches the contents of the other blocks, and the caller may write to the blocks in use.
\<close>

locale block_heap =
  fixes alloc :: "nat \<Rightarrow> 's \<Rightarrow> nat option \<times> 's"
    and free :: "nat \<Rightarrow> 's \<Rightarrow> 's"
    and live :: "'s \<Rightarrow> block set"
    and mem :: "'s \<Rightarrow> nat \<Rightarrow> u8"
    and poke :: "(nat \<Rightarrow> u8) \<Rightarrow> 's \<Rightarrow> 's"
    and good :: "'s \<Rightarrow> bool"
  assumes live_ok: "good s \<Longrightarrow> blocks_ok (live s)"
    and alloc_some: "good s \<Longrightarrow> alloc n s = (Some p, s') \<Longrightarrow>
      good s' \<and> (\<exists>m. n \<le> m \<and> (p, m) \<notin> live s \<and> live s' = insert (p, m) (live s))"
    and alloc_none: "good s \<Longrightarrow> alloc n s = (None, s') \<Longrightarrow> good s' \<and> live s' = live s"
    and free_live: "good s \<Longrightarrow> (p, m) \<in> live s \<Longrightarrow> good (free p s) \<and> live (free p s) = live s - {(p, m)}"
    and alloc_keeps: "good s \<Longrightarrow> alloc n s = (r, s') \<Longrightarrow> b \<in> live s \<Longrightarrow> inside a b \<Longrightarrow> mem s' a = mem s a"
    and free_keeps: "good s \<Longrightarrow> (p, m) \<in> live s \<Longrightarrow> b \<in> live s \<Longrightarrow> b \<noteq> (p, m) \<Longrightarrow> inside a b \<Longrightarrow> mem (free p s) a = mem s a"
    and poke_live: "good s \<Longrightarrow> (\<And>a. (\<forall>b \<in> live s. \<not> inside a b) \<Longrightarrow> f a = mem s a) \<Longrightarrow>
      good (poke f s) \<and> live (poke f s) = live s \<and> mem (poke f s) = f"

text \<open>A program that keeps to the rules: it requests blocks, frees blocks in use, writes to blocks in use.\<close>

inductive heap_run ::
  "(nat \<Rightarrow> 's \<Rightarrow> nat option \<times> 's) \<Rightarrow> (nat \<Rightarrow> 's \<Rightarrow> 's) \<Rightarrow> ('s \<Rightarrow> block set) \<Rightarrow> ('s \<Rightarrow> nat \<Rightarrow> u8) \<Rightarrow>
     ((nat \<Rightarrow> u8) \<Rightarrow> 's \<Rightarrow> 's) \<Rightarrow> 's \<Rightarrow> 's \<Rightarrow> bool"
  for alloc free live mem poke s0 where
  start: "heap_run alloc free live mem poke s0 s0"
| request: "heap_run alloc free live mem poke s0 s \<Longrightarrow> alloc n s = (r, s') \<Longrightarrow> heap_run alloc free live mem poke s0 s'"
| release: "heap_run alloc free live mem poke s0 s \<Longrightarrow> (p, m) \<in> live s \<Longrightarrow> heap_run alloc free live mem poke s0 (free p s)"
| store: "heap_run alloc free live mem poke s0 s \<Longrightarrow> (\<forall>a. (\<forall>b \<in> live s. \<not> inside a b) \<longrightarrow> f a = mem s a) \<Longrightarrow>
    heap_run alloc free live mem poke s0 (poke f s)"

context block_heap
begin

lemma alloc_inv: "good s \<Longrightarrow> alloc n s = (r, s') \<Longrightarrow> good s'"
  using alloc_some alloc_none by (cases r) blast+

lemma alloc_mono: "good s \<Longrightarrow> alloc n s = (r, s') \<Longrightarrow> live s \<subseteq> live s'"
  using alloc_some alloc_none by (cases r) blast+

lemma run_inv: "heap_run alloc free live mem poke s0 s \<Longrightarrow> good s0 \<Longrightarrow> good s"
  by (induction rule: heap_run.induct) (auto dest: alloc_inv free_live intro: poke_live [THEN conjunct1])

lemma alloc_apart:
  assumes "good s" "alloc n s = (Some p, s')" "b \<in> live s"
  shows "\<exists>m. n \<le> m \<and> (p, m) \<in> live s' \<and> apart (p, m) b"
proof -
  obtain m where m: "good s'" "n \<le> m" "(p, m) \<notin> live s" "live s' = insert (p, m) (live s)"
    using alloc_some [OF assms(1,2)] by blast
  then have "apart (p, m) b" using blocks_okD(1) [OF live_ok [OF m(1)], of "(p, m)" b] assms(3) by blast
  with m show ?thesis by blast
qed

end

section \<open>A slab keeps the contract\<close>

definition slot_block :: "slab \<Rightarrow> nat \<Rightarrow> block" where
  "slot_block s i = (sl_arena s + i * sl_slot_size s, sl_slot_size s)"

definition slots_used :: "slab \<Rightarrow> nat set" where
  "slots_used s = {i. i < sl_capacity s \<and> sl_used s ! i}"

definition slab_ok :: "slab \<Rightarrow> bool" where
  "slab_ok s \<longleftrightarrow> 0 < sl_slot_size s \<and> OTLP_SLAB_ALIGN dvd sl_slot_size s
     \<and> sl_arena s + sl_slot_size s * sl_capacity s \<le> SIZE_MAX
     \<and> length (sl_used s) = sl_capacity s \<and> length (sl_free_stack s) = sl_capacity s \<and> sl_free_top s \<le> sl_capacity s
     \<and> distinct (take (sl_free_top s) (sl_free_stack s))
     \<and> set (take (sl_free_top s) (sl_free_stack s)) = {..<sl_capacity s} - slots_used s
     \<and> sl_in_use s = of_nat (card (slots_used s)) \<and> st_in_use (sl_stats s) = sl_in_use s
     \<and> st_alloc_count (sl_stats s) = st_slab_hits (sl_stats s) + st_malloc_fallbacks (sl_stats s)"

text \<open>\<open>own\<close> is what the slab itself holds of the allocator underneath; the caller sees the rest and the slots.\<close>

definition slab_live :: "block set \<Rightarrow> ('w mw \<Rightarrow> block set) \<Rightarrow> slab \<times> 'w mw \<Rightarrow> block set" where
  "slab_live own live sw = (live (snd sw) - own) \<union> slot_block (fst sw) ` slots_used (fst sw)"

definition slab_inv :: "block set \<Rightarrow> ('w mw \<Rightarrow> block set) \<Rightarrow> ('w mw \<Rightarrow> bool) \<Rightarrow> slab \<times> 'w mw \<Rightarrow> bool" where
  "slab_inv own live good sw \<longleftrightarrow> good (snd sw) \<and> slab_ok (fst sw) \<and> own \<subseteq> live (snd sw)
     \<and> (\<exists>n. sl_slot_size (fst sw) * sl_capacity (fst sw) \<le> n \<and> (sl_arena (fst sw), n) \<in> own)"

lemma slots_used_finite [simp]: "finite (slots_used s)"
  by (simp add: slots_used_def)

lemma slots_used_lt: "i \<in> slots_used s \<Longrightarrow> i < sl_capacity s"
  by (simp add: slots_used_def)

lemma slot_bounds:
  "i < sl_capacity s \<Longrightarrow> fst (slot_block s i) + snd (slot_block s i) \<le> sl_arena s + sl_slot_size s * sl_capacity s"
  using mult_le_mono2 [of "Suc i" "sl_capacity s" "sl_slot_size s"] by (simp add: slot_block_def algebra_simps)

lemma slot_apart: "i \<noteq> j \<Longrightarrow> apart (slot_block s i) (slot_block s j)"
proof (induction i j rule: linorder_wlog)
  case (le i j)
  then have "Suc i * sl_slot_size s \<le> j * sl_slot_size s" by (intro mult_le_mono1) simp
  then show ?case by (simp add: apart_def slot_block_def)
qed (auto simp: apart_def)

lemma slot_block_inj: "0 < sl_slot_size s \<Longrightarrow> slot_block s i = slot_block s j \<longleftrightarrow> i = j"
  by (auto simp: slot_block_def)

lemma slot_of_address: "0 < sl_slot_size s \<Longrightarrow> (fst (slot_block s i) - sl_arena s) div sl_slot_size s = i"
  by (simp add: slot_block_def)

lemma ptr_in_arena_iff:
  "slab_ok s \<Longrightarrow> ptr_in_arena s p \<longleftrightarrow> sl_arena s \<le> p \<and> p < sl_arena s + sl_slot_size s * sl_capacity s"
  by (simp add: ptr_in_arena_def slab_ok_def Let_def)

lemma slot_in_arena: "slab_ok s \<Longrightarrow> i < sl_capacity s \<Longrightarrow> ptr_in_arena s (fst (slot_block s i))"
  using slot_bounds [of i s] by (simp add: ptr_in_arena_iff) (simp add: slab_ok_def slot_block_def)

text \<open>A block of the allocator underneath other than the arena shares no byte with a slot.\<close>

lemma slot_apart_other:
  assumes "slab_inv own live good (s, mw)" "blocks_ok (live mw)" "b \<in> live mw - own"
  shows "\<not> ptr_in_arena s (fst b)" "i < sl_capacity s \<Longrightarrow> apart b (slot_block s i)"
    "i < sl_capacity s \<Longrightarrow> b \<noteq> slot_block s i"
proof -
  define E where "E = sl_arena s + sl_slot_size s * sl_capacity s"
  obtain n where n: "E \<le> sl_arena s + n" "(sl_arena s, n) \<in> own" "own \<subseteq> live mw" and ok: "slab_ok s"
    using assms(1) by (auto simp: slab_inv_def E_def)
  then have ap: "apart b (sl_arena s, n)" using blocks_okD(1) [OF assms(2)] assms(3) by blast
  have pos: "0 < snd b" "0 < sl_slot_size s" using blocks_okD(2) [OF assms(2), of b] assms(3) ok by (auto simp: slab_ok_def)
  show "\<not> ptr_in_arena s (fst b)"
    unfolding ptr_in_arena_iff [OF ok] E_def [symmetric] using ap n(1) pos(1) by (simp add: apart_def) linarith
  show ap1: "apart b (slot_block s i)" if "i < sl_capacity s"
  proof -
    have "sl_arena s \<le> fst (slot_block s i)" by (simp add: slot_block_def)
    then show ?thesis using slot_bounds [OF that] ap n(1) unfolding E_def [symmetric] by (simp add: apart_def) linarith
  qed
  show "b \<noteq> slot_block s i" if "i < sl_capacity s"
  proof
    assume "b = slot_block s i"
    with ap1 [OF that] pos(1) show False by (simp add: apart_def)
  qed
qed

lemma slab_live_ok:
  assumes "slab_inv own live good (s, mw)" "blocks_ok (live mw)"
  shows "blocks_ok (slab_live own live (s, mw))"
proof -
  obtain n where n: "(sl_arena s, n) \<in> live mw" and ok: "slab_ok s" using assms(1) by (auto simp: slab_inv_def)
  have arena: "0 < sl_arena s" "OTLP_SLAB_ALIGN dvd sl_arena s" using blocks_okD(2) [OF assms(2) n] by simp_all
  note other = slot_apart_other [OF assms]
  have sym: "apart c b" if "apart b c" for b c using that by (auto simp: apart_def)
  have slot: "0 < fst b \<and> 0 < snd b \<and> fst b + snd b \<le> SIZE_MAX \<and> OTLP_SLAB_ALIGN dvd fst b"
    if b: "b \<in> slot_block s ` slots_used s" for b
  proof -
    obtain i where i: "b = slot_block s i" "i < sl_capacity s" using b by (auto simp: slots_used_def)
    then show ?thesis using slot_bounds [OF i(2)] arena ok by (auto simp: slab_ok_def slot_block_def)
  qed
  show ?thesis
    unfolding blocks_ok_def slab_live_def fst_conv snd_conv
  proof (intro conjI ballI impI)
    fix b c assume b: "b \<in> live mw - own \<union> slot_block s ` slots_used s" and c: "c \<in> live mw - own \<union> slot_block s ` slots_used s" and "b \<noteq> c"
    consider (both) "b \<in> live mw - own" "c \<in> live mw - own" | (left) j where "b \<in> live mw - own" "c = slot_block s j" "j < sl_capacity s"
      | (right) i where "b = slot_block s i" "i < sl_capacity s" "c \<in> live mw - own"
      | (slots) i j where "b = slot_block s i" "c = slot_block s j" using b c by (auto simp: slots_used_def)
    then show "apart b c"
    proof cases
      case both
      then show ?thesis using blocks_okD(1) [OF assms(2)] \<open>b \<noteq> c\<close> by blast
    next
      case left
      then show ?thesis using other(2) [OF left(1) left(3)] by simp
    next
      case right
      then show ?thesis using sym [OF other(2) [OF right(3) right(2)]] by simp
    next
      case slots
      with \<open>b \<noteq> c\<close> show ?thesis using slot_apart [of i j s] by (cases "i = j") simp_all
    qed
  next
    fix b assume "b \<in> live mw - own \<union> slot_block s ` slots_used s"
    then show "0 < fst b" "0 < snd b" "fst b + snd b \<le> SIZE_MAX" "OTLP_SLAB_ALIGN dvd fst b"
      using slot [of b] blocks_okD(2) [OF assms(2), of b] by blast+
  qed
qed

section \<open>The two operations\<close>

lemma take_slot_ok:
  assumes "slab_ok s" "0 < sl_free_top s" "take_slot s = (p, s1)"
  obtains i where "i < sl_capacity s" "i \<notin> slots_used s" "p = fst (slot_block s i)" "slots_used s1 = insert i (slots_used s)"
    "slot_block s1 = slot_block s" "slab_ok (s1\<lparr>sl_stats := (sl_stats s1)\<lparr>st_alloc_count := st_alloc_count (sl_stats s1) + 1\<rparr>\<rparr>)"
    "sl_capacity s1 = sl_capacity s" "sl_slot_size s1 = sl_slot_size s" "sl_arena s1 = sl_arena s"
proof -
  define t where "t = sl_free_top s - 1"
  define i where "i = sl_free_stack s ! t"
  have top: "sl_free_top s = Suc t" using assms(2) by (simp add: t_def)
  have len: "t < length (sl_free_stack s)" using assms(1) top by (simp add: slab_ok_def)
  have tk: "take (sl_free_top s) (sl_free_stack s) = take t (sl_free_stack s) @ [i]"
    unfolding top i_def by (rule take_Suc_conv_app_nth [OF len])
  have st: "distinct (take t (sl_free_stack s) @ [i])" "set (take t (sl_free_stack s) @ [i]) = {..<sl_capacity s} - slots_used s"
    using assms(1) unfolding tk [symmetric] by (simp_all add: slab_ok_def)
  then have i: "i < sl_capacity s" "i \<notin> slots_used s" by auto
  have s1: "p = sl_arena s + i * sl_slot_size s"
    "s1 = s\<lparr>sl_free_top := t, sl_used := (sl_used s)[i := True], sl_in_use := sl_in_use s + 1,
       sl_stats := (sl_stats s)\<lparr>st_in_use := sl_in_use s + 1, st_slab_hits := st_slab_hits (sl_stats s) + 1\<rparr>\<rparr>"
    using assms(3) by (simp_all add: take_slot_def Let_def t_def i_def)
  have lu: "length (sl_used s) = sl_capacity s" using assms(1) by (simp add: slab_ok_def)
  have used: "slots_used s1 = insert i (slots_used s)"
    using i(1) lu by (auto simp: s1(2) slots_used_def nth_list_update)
  have rest: "set (take t (sl_free_stack s)) = {..<sl_capacity s} - insert i (slots_used s)"
    using st by auto
  show ?thesis
  proof (rule that)
    show "slab_ok (s1\<lparr>sl_stats := (sl_stats s1)\<lparr>st_alloc_count := st_alloc_count (sl_stats s1) + 1\<rparr>\<rparr>)"
      using assms(1) st(1) rest used i len top by (simp add: slab_ok_def slots_used_def s1(2))
  qed (use i used in \<open>simp_all add: s1 slot_block_def fun_eq_iff\<close>)
qed

lemma give_slot_ok:
  assumes "slab_ok s" "i \<in> slots_used s"
  shows "slots_used (give_slot i s) = slots_used s - {i}" "slot_block (give_slot i s) = slot_block s"
    "slab_ok (give_slot i s)" "sl_capacity (give_slot i s) = sl_capacity s" "sl_slot_size (give_slot i s) = sl_slot_size s"
    "sl_arena (give_slot i s) = sl_arena s"
proof -
  have i: "i < sl_capacity s" using assms(2) by (simp add: slots_used_def)
  have lu: "length (sl_used s) = sl_capacity s" "length (sl_free_stack s) = sl_capacity s" using assms(1) by (simp_all add: slab_ok_def)
  let ?free = "take (sl_free_top s) (sl_free_stack s)"
  have fr: "distinct ?free" "set ?free = {..<sl_capacity s} - slots_used s" "sl_free_top s \<le> sl_capacity s"
    using assms(1) by (simp_all add: slab_ok_def)
  have "card (set ?free) < card {..<sl_capacity s}"
    by (rule psubset_card_mono) (use fr(2) assms(2) i in auto)
  moreover have "card (set ?free) = sl_free_top s" using distinct_card [OF fr(1)] fr(3) lu(2) by (simp only: length_take)
  ultimately have top: "sl_free_top s < sl_capacity s" by simp
  have tk: "take (Suc (sl_free_top s)) ((sl_free_stack s)[sl_free_top s := i]) = ?free @ [i]"
    using top lu by (simp add: take_Suc_conv_app_nth)
  show used: "slots_used (give_slot i s) = slots_used s - {i}"
    using i lu by (auto simp: give_slot_def slots_used_def nth_list_update)
  have pos: "0 < card (slots_used s)" using assms(2) by (auto simp: card_gt_0_iff)
  show "slab_ok (give_slot i s)"
    using assms used lu top tk fr pos i
    unfolding slab_ok_def by (simp add: give_slot_def slots_used_def of_nat_diff card_Diff_singleton) auto
qed (simp_all add: give_slot_def slot_block_def fun_eq_iff)

text \<open>The counter that both operations step first plays no part in the rest.\<close>

lemma slab_ok_counters:
  "slots_used (s\<lparr>sl_stats := x\<rparr>) = slots_used s" "slot_block (s\<lparr>sl_stats := x\<rparr>) = slot_block s"
  "ptr_in_arena (s\<lparr>sl_stats := x\<rparr>) = ptr_in_arena s"
  by (simp_all add: slots_used_def slot_block_def ptr_in_arena_def fun_eq_iff)

lemma slab_alloc_cases:
  assumes "otlp_slab_alloc L n (s, mw) = (r, s1, mw1)" "slab_ok s"
  obtains i where "n \<le> sl_slot_size s" "0 < sl_free_top s" "r = Some (fst (slot_block s i))" "mw1 = mw" "i < sl_capacity s"
      "i \<notin> slots_used s" "slots_used s1 = insert i (slots_used s)" "slot_block s1 = slot_block s" "slab_ok s1"
      "sl_capacity s1 = sl_capacity s" "sl_slot_size s1 = sl_slot_size s" "sl_arena s1 = sl_arena s"
  | "n \<le> sl_slot_size s \<longrightarrow> sl_free_top s = 0" "af_alloc L n mw = (r, mw1)" "slots_used s1 = slots_used s" "slot_block s1 = slot_block s"
      "slab_ok s1" "sl_capacity s1 = sl_capacity s" "sl_slot_size s1 = sl_slot_size s" "sl_arena s1 = sl_arena s"
proof (cases "n \<le> sl_slot_size s \<and> 0 < sl_free_top s")
  case True
  obtain p t where t: "take_slot s = (p, t)" by (rule prod.exhaust)
  define c where "c = (sl_stats s)\<lparr>st_alloc_count := st_alloc_count (sl_stats s) + 1\<rparr>"
  have "take_slot (s\<lparr>sl_stats := c\<rparr>) =
      (p, t\<lparr>sl_stats := (sl_stats t)\<lparr>st_alloc_count := st_alloc_count (sl_stats t) + 1\<rparr>\<rparr>)"
    using t by (auto simp: take_slot_def Let_def c_def)
  then have e: "r = Some p" "s1 = t\<lparr>sl_stats := (sl_stats t)\<lparr>st_alloc_count := st_alloc_count (sl_stats t) + 1\<rparr>\<rparr>" "mw1 = mw"
    using assms(1) True by (simp_all add: otlp_slab_alloc_def Let_def c_def)
  from take_slot_ok [OF assms(2) _ t] True obtain i where
    "i < sl_capacity s" "i \<notin> slots_used s" "p = fst (slot_block s i)" "slots_used t = insert i (slots_used s)"
    "slot_block t = slot_block s" "slab_ok s1" "sl_capacity t = sl_capacity s" "sl_slot_size t = sl_slot_size s" "sl_arena t = sl_arena s"
    unfolding e(2) by blast
  with e True show ?thesis by (intro that(1) [of i]) (simp_all add: slab_ok_counters)
next
  case False
  then have "af_alloc L n mw = (r, mw1)"
    "s1 = s\<lparr>sl_stats := (sl_stats s)\<lparr>st_alloc_count := st_alloc_count (sl_stats s) + 1,
        st_malloc_fallbacks := st_malloc_fallbacks (sl_stats s) + 1\<rparr>\<rparr>"
    using assms(1) by (auto simp: otlp_slab_alloc_def Let_def split: prod.splits if_splits)
  with assms(2) False show ?thesis by (intro that(2)) (auto simp: slab_ok_counters slab_ok_def)
qed

lemma slab_free_cases:
  assumes "slab_ok s"
  shows "i \<in> slots_used s \<Longrightarrow> \<exists>s1. otlp_slab_free_ptr L (Some (fst (slot_block s i))) (s, mw) = (s1, mw)
      \<and> slots_used s1 = slots_used s - {i} \<and> slot_block s1 = slot_block s \<and> slab_ok s1 \<and> sl_capacity s1 = sl_capacity s
      \<and> sl_slot_size s1 = sl_slot_size s \<and> sl_arena s1 = sl_arena s"
    and "\<not> ptr_in_arena s p \<Longrightarrow> \<exists>s1. otlp_slab_free_ptr L (Some p) (s, mw) = (s1, af_free L (Some p) mw)
      \<and> slots_used s1 = slots_used s \<and> slot_block s1 = slot_block s \<and> slab_ok s1 \<and> sl_capacity s1 = sl_capacity s
      \<and> sl_slot_size s1 = sl_slot_size s \<and> sl_arena s1 = sl_arena s"
proof -
  define t where "t = s\<lparr>sl_stats := (sl_stats s)\<lparr>st_free_count := st_free_count (sl_stats s) + 1\<rparr>\<rparr>"
  have t: "slab_ok t" "slots_used t = slots_used s" "slot_block t = slot_block s" "ptr_in_arena t = ptr_in_arena s"
    "sl_capacity t = sl_capacity s" "sl_slot_size t = sl_slot_size s" "sl_arena t = sl_arena s" "sl_used t = sl_used s"
    using assms by (simp_all add: t_def slab_ok_counters slab_ok_def)
  {
    assume i: "i \<in> slots_used s"
    then have i': "i < sl_capacity s" "sl_used s ! i" by (simp_all add: slots_used_def)
    have "otlp_slab_free_ptr L (Some (fst (slot_block s i))) (s, mw) = (give_slot i t, mw)"
      using assms i' slot_in_arena [OF assms i'(1)] slot_of_address [of s i]
      by (simp add: otlp_slab_free_ptr_def t_def [symmetric] t Let_def slab_ok_def)
    then show "\<exists>s1. otlp_slab_free_ptr L (Some (fst (slot_block s i))) (s, mw) = (s1, mw)
      \<and> slots_used s1 = slots_used s - {i} \<and> slot_block s1 = slot_block s \<and> slab_ok s1 \<and> sl_capacity s1 = sl_capacity s
      \<and> sl_slot_size s1 = sl_slot_size s \<and> sl_arena s1 = sl_arena s"
      using give_slot_ok [OF t(1), of i] i t by simp
  next
    assume p: "\<not> ptr_in_arena s p"
    let ?s1 = "t\<lparr>sl_stats := (sl_stats t)\<lparr>st_malloc_free_fallbacks := st_malloc_free_fallbacks (sl_stats t) + 1\<rparr>\<rparr>"
    have "otlp_slab_free_ptr L (Some p) (s, mw) = (?s1, af_free L (Some p) mw)"
      using p by (simp add: otlp_slab_free_ptr_def t_def [symmetric] t Let_def)
    moreover have "slab_ok ?s1" using t(1) by (simp add: slab_ok_counters slab_ok_def)
    ultimately show "\<exists>s1. otlp_slab_free_ptr L (Some p) (s, mw) = (s1, af_free L (Some p) mw)
      \<and> slots_used s1 = slots_used s \<and> slot_block s1 = slot_block s \<and> slab_ok s1 \<and> sl_capacity s1 = sl_capacity s
      \<and> sl_slot_size s1 = sl_slot_size s \<and> sl_arena s1 = sl_arena s"
      using t by (simp add: slab_ok_counters)
  }
qed

text \<open>The operations of an allocator and of a slab in the shape of the contract.\<close>

definition free_by :: "'w alloc_fns \<Rightarrow> nat \<Rightarrow> 'w mw \<Rightarrow> 'w mw" where
  "free_by L p = af_free L (Some p)"

definition write_mw :: "(nat \<Rightarrow> u8) \<Rightarrow> 'w mw \<Rightarrow> 'w mw" where
  "write_mw f mw = (f, snd mw)"

definition slab_release :: "'w alloc_fns \<Rightarrow> nat \<Rightarrow> slab \<times> 'w mw \<Rightarrow> slab \<times> 'w mw" where
  "slab_release L p = otlp_slab_free_ptr L (Some p)"

definition slab_mem :: "slab \<times> 'w mw \<Rightarrow> nat \<Rightarrow> u8" where
  "slab_mem sw = fst (snd sw)"

definition slab_write :: "(nat \<Rightarrow> u8) \<Rightarrow> slab \<times> 'w mw \<Rightarrow> slab \<times> 'w mw" where
  "slab_write f sw = (fst sw, write_mw f (snd sw))"

abbreviation keeps_contract :: "'w alloc_fns \<Rightarrow> ('w mw \<Rightarrow> block set) \<Rightarrow> ('w mw \<Rightarrow> bool) \<Rightarrow> bool" where
  "keeps_contract L live good \<equiv> block_heap (af_alloc L) (free_by L) live fst write_mw good"

lemma slab_invI:
  assumes "slab_inv own live good (s, mw)" "good mw'" "slab_ok s'" "own \<subseteq> live mw'"
    and "sl_arena s' = sl_arena s" "sl_slot_size s' = sl_slot_size s" "sl_capacity s' = sl_capacity s"
  shows "slab_inv own live good (s', mw')"
  using assms by (auto simp: slab_inv_def)

text \<open>A byte of a block the caller sees is a byte of a block in use underneath.\<close>

lemma slab_live_inside:
  assumes "slab_inv own live good (s, mw)" "b \<in> slab_live own live (s, mw)" "inside a b"
  shows "\<exists>c \<in> live mw. inside a c \<and> (b = c \<or> c \<in> own)"
proof (cases "b \<in> live mw - own")
  case True
  then show ?thesis using assms(3) by blast
next
  case False
  then obtain i where i: "b = slot_block s i" "i < sl_capacity s" using assms(2) by (auto simp: slab_live_def slots_used_def)
  obtain n where n: "sl_slot_size s * sl_capacity s \<le> n" "(sl_arena s, n) \<in> own" "own \<subseteq> live mw"
    using assms(1) by (auto simp: slab_inv_def)
  have "inside a (sl_arena s, n)"
    using assms(3) slot_bounds [OF i(2)] n(1) unfolding i(1) inside_def by (simp add: slot_block_def)
  with n show ?thesis by blast
qed

lemma slab_alloc_law:
  assumes "keeps_contract L live good" "slab_inv own live good (s, mw)" "otlp_slab_alloc L n (s, mw) = (r, s1, mw1)"
  shows "slab_inv own live good (s1, mw1)"
    and "case r of None \<Rightarrow> slab_live own live (s1, mw1) = slab_live own live (s, mw)
      | Some p \<Rightarrow> \<exists>m. n \<le> m \<and> (p, m) \<notin> slab_live own live (s, mw) \<and> slab_live own live (s1, mw1) = insert (p, m) (slab_live own live (s, mw))"
    and "b \<in> slab_live own live (s, mw) \<Longrightarrow> inside a b \<Longrightarrow> fst mw1 a = fst mw a"
proof -
  have good: "good mw" and ok: "slab_ok s" and own: "own \<subseteq> live mw" using assms(2) by (auto simp: slab_inv_def)
  note live_ok = block_heap.live_ok [OF assms(1)]
  note other = slot_apart_other [OF assms(2) live_ok [OF good]]
  have pos: "0 < sl_slot_size s" using ok by (simp add: slab_ok_def)
  have "slab_inv own live good (s1, mw1) \<and> (case r of None \<Rightarrow> slab_live own live (s1, mw1) = slab_live own live (s, mw)
      | Some p \<Rightarrow> \<exists>m. n \<le> m \<and> (p, m) \<notin> slab_live own live (s, mw) \<and> slab_live own live (s1, mw1) = insert (p, m) (slab_live own live (s, mw)))
    \<and> (b \<in> slab_live own live (s, mw) \<longrightarrow> inside a b \<longrightarrow> fst mw1 a = fst mw a)"
    using slab_alloc_cases [OF assms(3) ok]
  proof cases
    case (1 i)
    have inv1: "slab_inv own live good (s1, mw1)" using slab_invI [OF assms(2) good 1(9) own 1(12) 1(11) 1(10)] by (simp add: 1(4))
    have fresh: "slot_block s i \<notin> slab_live own live (s, mw)"
    proof -
      have "slot_block s i \<notin> slot_block s ` slots_used s" using 1(6) by (auto simp: slot_block_inj [OF pos])
      then show ?thesis using other(3) [of "slot_block s i" i] 1(5) unfolding slab_live_def fst_conv snd_conv by blast
    qed
    have "slab_live own live (s1, mw1) = insert (slot_block s i) (slab_live own live (s, mw))"
      by (simp add: slab_live_def 1(4,7,8))
    moreover have "slot_block s i = (fst (slot_block s i), sl_slot_size s)" by (simp add: slot_block_def)
    ultimately show ?thesis using inv1 fresh 1(1) unfolding 1(3,4) option.case by metis
  next
    case 2
    have good1: "good mw1" and own1: "own \<subseteq> live mw1"
      using block_heap.alloc_inv [OF assms(1) good 2(2)] block_heap.alloc_mono [OF assms(1) good 2(2)] own by auto
    have inv1: "slab_inv own live good (s1, mw1)" using slab_invI [OF assms(2) good1 2(5) own1 2(8) 2(7) 2(6)] .
    have live1: "slab_live own live (s1, mw1) = (live mw1 - own) \<union> slot_block s ` slots_used s" by (simp add: slab_live_def 2(3,4))
    have keep: "fst mw1 a = fst mw a" if "b \<in> slab_live own live (s, mw)" "inside a b"
      using slab_live_inside [OF assms(2) that] block_heap.alloc_keeps [OF assms(1) good 2(2)] by blast
    show ?thesis
    proof (cases r)
      case None
      then have "live mw1 = live mw" using block_heap.alloc_none [OF assms(1) good] 2(2) by blast
      then have "slab_live own live (s1, mw1) = slab_live own live (s, mw)" by (simp add: live1) (simp add: slab_live_def)
      with inv1 keep show ?thesis unfolding None option.case by blast
    next
      case (Some p)
      then obtain m where m: "n \<le> m" "(p, m) \<notin> live mw" "live mw1 = insert (p, m) (live mw)"
        using block_heap.alloc_some [OF assms(1) good] 2(2) by blast
      then have new: "(p, m) \<in> live mw1 - own" using own by blast
      have "(p, m) \<noteq> slot_block s i" if "i < sl_capacity s" for i
        using slot_apart_other(3) [OF inv1 live_ok [OF good1] new, of i] that 2 by simp
      then have "(p, m) \<notin> slab_live own live (s, mw)"
        using m(2) unfolding slab_live_def fst_conv snd_conv by (blast dest: slots_used_lt)
      moreover have "slab_live own live (s1, mw1) = insert (p, m) (slab_live own live (s, mw))"
      proof -
        have "(p, m) \<notin> own" using m(2) own by blast
        then show ?thesis unfolding live1 m(3) by (simp add: slab_live_def insert_Diff_if)
      qed
      ultimately show ?thesis using inv1 keep m(1) unfolding Some option.case by blast
    qed
  qed
  then show "slab_inv own live good (s1, mw1)"
    "case r of None \<Rightarrow> slab_live own live (s1, mw1) = slab_live own live (s, mw)
      | Some p \<Rightarrow> \<exists>m. n \<le> m \<and> (p, m) \<notin> slab_live own live (s, mw) \<and> slab_live own live (s1, mw1) = insert (p, m) (slab_live own live (s, mw))"
    "b \<in> slab_live own live (s, mw) \<Longrightarrow> inside a b \<Longrightarrow> fst mw1 a = fst mw a" by blast+
qed

lemma slab_free_law:
  assumes "keeps_contract L live good" "slab_inv own live good (s, mw)" "(p, m) \<in> slab_live own live (s, mw)"
  shows "slab_inv own live good (slab_release L p (s, mw)) \<and> slab_live own live (slab_release L p (s, mw)) = slab_live own live (s, mw) - {(p, m)}
    \<and> (b \<in> slab_live own live (s, mw) \<longrightarrow> b \<noteq> (p, m) \<longrightarrow> inside a b \<longrightarrow> slab_mem (slab_release L p (s, mw)) a = fst mw a)"
proof -
  have good: "good mw" and ok: "slab_ok s" and own: "own \<subseteq> live mw" using assms(2) by (auto simp: slab_inv_def)
  note live_ok = block_heap.live_ok [OF assms(1) good]
  note other = slot_apart_other [OF assms(2) live_ok]
  have pos: "0 < sl_slot_size s" using ok by (simp add: slab_ok_def)
  show ?thesis
  proof (cases "(p, m) \<in> live mw - own")
    case True
    have "\<not> ptr_in_arena s p" using other(1) [OF True] by simp
    from slab_free_cases(2) [OF ok this, of L mw] obtain s1 where s1: "slab_release L p (s, mw) = (s1, free_by L p mw)"
      "slots_used s1 = slots_used s" "slot_block s1 = slot_block s" "slab_ok s1" "sl_capacity s1 = sl_capacity s"
      "sl_slot_size s1 = sl_slot_size s" "sl_arena s1 = sl_arena s" by (auto simp: slab_release_def free_by_def)
    have fr: "good (free_by L p mw)" "live (free_by L p mw) = live mw - {(p, m)}"
      using block_heap.free_live [OF assms(1) good] True by blast+
    have "slab_inv own live good (slab_release L p (s, mw))"
      unfolding s1(1) using slab_invI [OF assms(2) fr(1) s1(4) _ s1(7) s1(6) s1(5)] own True fr(2) by blast
    moreover have "slab_live own live (slab_release L p (s, mw)) = slab_live own live (s, mw) - {(p, m)}"
      using other(3) [OF True] unfolding slab_live_def s1 fr(2) fst_conv snd_conv by (blast dest: slots_used_lt)
    moreover have "slab_mem (slab_release L p (s, mw)) a = fst mw a"
      if b: "b \<in> slab_live own live (s, mw)" "b \<noteq> (p, m)" "inside a b"
    proof -
      obtain c where "c \<in> live mw" "inside a c" "b = c \<or> c \<in> own" using slab_live_inside [OF assms(2) b(1,3)] by blast
      moreover from this have "c \<noteq> (p, m)" using b(2) True by auto
      ultimately show ?thesis
        using block_heap.free_keeps [OF assms(1) good, of p m c a] True by (simp add: s1(1) slab_mem_def)
    qed
    ultimately show ?thesis by blast
  next
    case False
    then obtain i where i: "(p, m) = slot_block s i" "i \<in> slots_used s" using assms(3) by (auto simp: slab_live_def)
    from slab_free_cases(1) [OF ok i(2), of L mw] obtain s1 where s1: "slab_release L p (s, mw) = (s1, mw)"
      "slots_used s1 = slots_used s - {i}" "slot_block s1 = slot_block s" "slab_ok s1" "sl_capacity s1 = sl_capacity s"
      "sl_slot_size s1 = sl_slot_size s" "sl_arena s1 = sl_arena s" using i(1) [symmetric] by (auto simp: slab_release_def)
    have "slab_inv own live good (slab_release L p (s, mw))"
      unfolding s1(1) using slab_invI [OF assms(2) good s1(4) own s1(7) s1(6) s1(5)] .
    moreover have "slab_live own live (slab_release L p (s, mw)) = slab_live own live (s, mw) - {(p, m)}"
    proof -
      have "slot_block s ` (slots_used s - {i}) = slot_block s ` slots_used s - {(p, m)}"
        by (auto simp: i(1) slot_block_inj [OF pos])
      then show ?thesis using False unfolding slab_live_def s1 fst_conv snd_conv by blast
    qed
    moreover have "slab_mem (slab_release L p (s, mw)) a = fst mw a" by (simp add: s1(1) slab_mem_def)
    ultimately show ?thesis by blast
  qed
qed

lemma slab_block_heap:
  assumes "keeps_contract L live good"
  shows "block_heap (otlp_slab_alloc L) (slab_release L) (slab_live own live) slab_mem slab_write (slab_inv own live good)"
proof
  fix sw
  assume inv: "slab_inv own live good sw"
  obtain s mw where sw: "sw = (s, mw)" by (rule prod.exhaust)
  note inv' = inv [unfolded sw]
  have good: "good mw" using inv' by (simp add: slab_inv_def)
  show "blocks_ok (slab_live own live sw)"
    unfolding sw by (rule slab_live_ok [OF inv' block_heap.live_ok [OF assms good]])
  show "slab_inv own live good sw' \<and> (\<exists>m. n \<le> m \<and> (p, m) \<notin> slab_live own live sw \<and> slab_live own live sw' = insert (p, m) (slab_live own live sw))"
    if "otlp_slab_alloc L n sw = (Some p, sw')" for n p sw'
    using slab_alloc_law(1,2) [OF assms inv', of n "Some p" "fst sw'" "snd sw'"] that by (simp add: sw)
  show "slab_inv own live good sw' \<and> slab_live own live sw' = slab_live own live sw" if "otlp_slab_alloc L n sw = (None, sw')" for n sw'
    using slab_alloc_law(1,2) [OF assms inv', of n None "fst sw'" "snd sw'"] that by (simp add: sw)
  show "slab_inv own live good (slab_release L p sw) \<and> slab_live own live (slab_release L p sw) = slab_live own live sw - {(p, m)}"
    if "(p, m) \<in> slab_live own live sw" for p m
    using slab_free_law [OF assms inv'] that by (simp add: sw)
  show "slab_mem sw' a = slab_mem sw a" if "otlp_slab_alloc L n sw = (r, sw')" "b \<in> slab_live own live sw" "inside a b" for n r sw' b a
    using slab_alloc_law(3) [OF assms inv', of n r "fst sw'" "snd sw'" b a] that by (simp add: sw slab_mem_def)
  show "slab_mem (slab_release L p sw) a = slab_mem sw a"
    if "(p, m) \<in> slab_live own live sw" "b \<in> slab_live own live sw" "b \<noteq> (p, m)" "inside a b" for p m b a
    using slab_free_law [OF assms inv', of p m b a] that by (simp add: sw slab_mem_def)
  show "slab_inv own live good (slab_write f sw) \<and> slab_live own live (slab_write f sw) = slab_live own live sw \<and> slab_mem (slab_write f sw) = f"
    if f: "\<And>a. \<forall>b \<in> slab_live own live sw. \<not> inside a b \<Longrightarrow> f a = slab_mem sw a" for f
  proof -
    have "f a = fst mw a" if none: "\<forall>b \<in> live mw. \<not> inside a b" for a
    proof -
      have "\<forall>b \<in> slab_live own live sw. \<not> inside a b" unfolding sw using slab_live_inside [OF inv', of _ a] none by blast
      from f [OF this] show ?thesis by (simp add: sw slab_mem_def)
    qed
    from block_heap.poke_live [OF assms good this] have "good (write_mw f mw)" "live (write_mw f mw) = live mw" by blast+
    then show ?thesis using inv' by (simp add: sw slab_inv_def slab_live_def slab_write_def slab_mem_def write_mw_def)
  qed
qed

section \<open>Creation\<close>

definition aligned :: "nat \<Rightarrow> nat" where
  "aligned n = (n + (OTLP_SLAB_ALIGN - 1)) div OTLP_SLAB_ALIGN * OTLP_SLAB_ALIGN"

lemma and_not_mask3: "(x :: u64) AND NOT 7 = push_bit 3 (drop_bit 3 x)"
proof (rule bit_word_eqI)
  fix n assume n: "n < LENGTH(64)"
  have seven: "(7 :: u64) = mask 3" by (simp add: mask_eq_exp_minus_1)
  show "bit (x AND NOT 7) n \<longleftrightarrow> bit (push_bit 3 (drop_bit 3 x)) n"
    using n unfolding seven by (auto simp: bit_and_iff bit_not_iff bit_mask_iff bit_push_bit_iff bit_drop_bit_eq)
qed

lemma round_up_aligned:
  assumes "n + OTLP_SLAB_ALIGN \<le> SIZE_MAX"
  shows "unat (round_up (word_of_nat n) (word_of_nat OTLP_SLAB_ALIGN)) = aligned n"
proof -
  define m where "m = n + 7"
  have m: "m < 2 ^ 64" using assms by (simp add: m_def OTLP_SLAB_ALIGN_def SIZE_MAX_def)
  have "(word_of_nat n :: u64) + word_of_nat OTLP_SLAB_ALIGN - 1 = word_of_nat m"
    by (simp add: m_def OTLP_SLAB_ALIGN_def)
  then have r: "round_up (word_of_nat n) (word_of_nat OTLP_SLAB_ALIGN) = push_bit 3 (drop_bit 3 (word_of_nat m :: u64))"
    by (simp add: round_up_def OTLP_SLAB_ALIGN_def and_not_mask3 [symmetric])
  have d: "unat (drop_bit 3 (word_of_nat m :: u64)) = m div 8" using m by (simp add: unat_drop_bit unat_of_nat_u64)
  have "m div 8 * 2 ^ 3 < 2 ^ 64" using m by simp
  then have u: "unat (push_bit 3 (drop_bit 3 (word_of_nat m :: u64))) = m div 8 * 8"
    using d by (simp only: unsigned_push_bit_eq) (simp add: push_bit_eq_mult take_bit_nat_eq_self)
  show ?thesis unfolding r u by (simp add: aligned_def OTLP_SLAB_ALIGN_def m_def)
qed

lemma aligned_bounds: "0 < n \<Longrightarrow> n \<le> aligned n \<and> 0 < aligned n \<and> OTLP_SLAB_ALIGN dvd aligned n"
  by (auto simp: aligned_def OTLP_SLAB_ALIGN_def)

lemma calloc_law:
  assumes "keeps_contract L live good" "good mw" "calloc_by L c sz mw = (Some p, mw1)"
  shows "good mw1 \<and> (\<exists>m. (p, m) \<notin> live mw \<and> live mw1 = insert (p, m) (live mw))"
proof -
  define total where "total = c * sz mod (SIZE_MAX + 1)"
  obtain mem w where al: "af_alloc L total mw = (Some p, (mem, w))" and mw1: "mw1 = write_mw (memset0 p total mem) (mem, w)"
    using assms(3) by (auto simp: calloc_by_def total_def [symmetric] Let_def write_mw_def simp del: One_nat_def
        split: prod.splits option.splits)
  obtain m where m: "good (mem, w)" "total \<le> m" "(p, m) \<notin> live mw" "live (mem, w) = insert (p, m) (live mw)"
    using block_heap.alloc_some [OF assms(1,2) al] by blast
  have out: "memset0 p total mem a = fst (mem, w) a" if none: "\<forall>b \<in> live (mem, w). \<not> inside a b" for a
  proof -
    have "\<not> inside a (p, m)" using none m(4) by simp
    then show ?thesis using m(2) by (auto simp: memset0_def inside_def)
  qed
  have "good mw1" "live mw1 = live (mem, w)"
    using block_heap.poke_live [OF assms(1) m(1), of "memset0 p total mem"] out unfolding mw1 by blast+
  with m show ?thesis by auto
qed

lemma slab_created:
  assumes "keeps_contract L live good" "good mw" "otlp_slab_create L slot_size capacity mw = (Some s, mw1)"
    and "slot_size + OTLP_SLAB_ALIGN \<le> SIZE_MAX" "aligned slot_size * capacity \<le> SIZE_MAX"
  shows "\<exists>own. own \<inter> live mw = {} \<and> live mw1 = live mw \<union> own \<and> slab_inv own live good (s, mw1)
    \<and> sl_slot_size s = aligned slot_size \<and> sl_capacity s = capacity \<and> slots_used s = {}"
proof -
  have nz: "\<not> (slot_size = 0 \<or> capacity = 0)"
  proof
    assume z: "slot_size = 0 \<or> capacity = 0"
    from assms(3) [unfolded otlp_slab_create_def if_P [OF z]] show False by simp
  qed
  have al: "unat (round_up (word_of_nat slot_size) (word_of_nat OTLP_SLAB_ALIGN)) = aligned slot_size"
    by (rule round_up_aligned [OF assms(4)])
  have ab: "aligned slot_size * capacity mod (SIZE_MAX + 1) = aligned slot_size * capacity" using assms(5) by simp
  note c = assms(3) [unfolded otlp_slab_create_def if_not_P [OF nz] Let_def al ab]
  obtain self w1 where 1: "calloc_by L 1 SIZEOF_SLAB mw = (Some self, w1)"
    using c by (auto simp del: One_nat_def split: prod.splits option.splits)
  obtain arena w2 where 2: "af_alloc L (aligned slot_size * capacity) w1 = (Some arena, w2)"
    using c by (auto simp: 1 create_fail_def simp del: One_nat_def split: prod.splits option.splits)
  obtain used w3 where 3: "calloc_by L capacity SIZEOF_BOOL w2 = (Some used, w3)"
    using c by (auto simp: 1 2 create_fail_def simp del: One_nat_def split: prod.splits option.splits)
  obtain stack where 4: "af_alloc L (capacity * SIZEOF_SIZE mod (SIZE_MAX + 1)) w3 = (Some stack, mw1)"
    using c by (auto simp: 1 2 3 create_fail_def simp del: One_nat_def split: prod.splits option.splits)
  have s: "s = \<lparr>sl_slot_size = aligned slot_size, sl_capacity = capacity, sl_arena = arena,
      sl_used = replicate capacity False, sl_in_use = 0, sl_free_stack = map (\<lambda>i. capacity - 1 - i) [0..<capacity],
      sl_free_top = capacity, sl_stats = stats_zero\<lparr>st_slot_size := aligned slot_size, st_capacity := capacity\<rparr>,
      sl_self = self, sl_used_at = used, sl_stack_at = stack\<rparr>"
    using c unfolding 1 2 3 4 prod.case option.case prod.inject option.inject by (elim conjE) (rule sym)
  obtain m1 where l1: "good w1" "(self, m1) \<notin> live mw" "live w1 = insert (self, m1) (live mw)"
    using calloc_law [OF assms(1,2) 1] by blast
  obtain m2 where l2: "good w2" "aligned slot_size * capacity \<le> m2" "(arena, m2) \<notin> live w1" "live w2 = insert (arena, m2) (live w1)"
    using block_heap.alloc_some [OF assms(1) l1(1) 2] by blast
  obtain m3 where l3: "good w3" "(used, m3) \<notin> live w2" "live w3 = insert (used, m3) (live w2)"
    using calloc_law [OF assms(1) l2(1) 3] by blast
  obtain m4 where l4: "good mw1" "(stack, m4) \<notin> live w3" "live mw1 = insert (stack, m4) (live w3)"
    using block_heap.alloc_some [OF assms(1) l3(1) 4] by blast
  define own where "own = {(self, m1), (arena, m2), (used, m3), (stack, m4)}"
  have live1: "live mw1 = live mw \<union> own" by (simp add: l1(3) l2(4) l3(3) l4(3) own_def insert_commute)
  have disj: "own \<inter> live mw = {}" using l1(2) l2(3) l3(2) l4(2) by (simp add: l1(3) l2(4) l3(3) own_def)
  have bound: "arena + m2 \<le> SIZE_MAX"
    using blocks_okD(2) [OF block_heap.live_ok [OF assms(1) l4(1)], of "(arena, m2)"] by (simp add: live1 own_def)
  have free: "set (map (\<lambda>i. capacity - 1 - i) [0..<capacity]) = {..<capacity}"
  proof -
    have "n \<in> (\<lambda>i. capacity - 1 - i) ` {0..<capacity}" if "n < capacity" for n
      using that by (intro image_eqI [of _ _ "capacity - 1 - n"]) auto
    then show ?thesis by auto
  qed
  have none: "slots_used s = {}" by (auto simp: s slots_used_def)
  have "slab_ok s"
    unfolding slab_ok_def none using aligned_bounds [of slot_size] nz bound l2(2) free
    by (auto simp: s stats_zero_def distinct_map inj_on_def)
  then have "slab_inv own live good (s, mw1)"
    unfolding slab_inv_def using l4(1) l2(2) live1 by (auto simp: s own_def)
  with live1 disj none show ?thesis by (intro exI [of _ own]) (simp add: s)
qed

lemma slab_ok_top: "slab_ok s \<Longrightarrow> sl_free_top s = sl_capacity s - card (slots_used s)"
proof -
  assume ok: "slab_ok s"
  then have "card (set (take (sl_free_top s) (sl_free_stack s))) = sl_free_top s"
    by (subst distinct_card) (simp_all add: slab_ok_def)
  moreover have "card ({..<sl_capacity s} - slots_used s) = sl_capacity s - card (slots_used s)"
    by (subst card_Diff_subset) (auto simp: slots_used_def)
  ultimately show ?thesis using ok by (simp add: slab_ok_def)
qed

text \<open>
  C11. A slab is a drop-in for the allocator underneath. If that allocator keeps the contract, and the size
  of the arena does not overflow, then a new slab keeps it over the blocks not its own: in any
  program that frees and writes only blocks in use, the blocks handed out, slots and large blocks alike, never
  overlap, are aligned, and keep their contents until they are freed. The statistics count exactly the slots in
  use, and a request that fits a free slot is served without a call to the allocator underneath.
\<close>

theorem slab_drop_in:
  assumes "keeps_contract L live good" and "good mw" and "otlp_slab_create L slot_size capacity mw = (Some s, mw1)"
    and "slot_size + OTLP_SLAB_ALIGN \<le> SIZE_MAX" "aligned slot_size * capacity \<le> SIZE_MAX"
  shows "\<exists>own. own \<inter> live mw = {} \<and> live mw1 = live mw \<union> own \<and> slab_live own live (s, mw1) = live mw
    \<and> block_heap (otlp_slab_alloc L) (slab_release L) (slab_live own live) slab_mem slab_write (slab_inv own live good)
    \<and> (\<forall>s2 mw2. heap_run (otlp_slab_alloc L) (slab_release L) (slab_live own live) slab_mem slab_write (s, mw1) (s2, mw2) \<longrightarrow>
        slab_inv own live good (s2, mw2) \<and> blocks_ok (slab_live own live (s2, mw2))
        \<and> st_in_use (sl_stats s2) = of_nat (card (slots_used s2))
        \<and> st_alloc_count (sl_stats s2) = st_slab_hits (sl_stats s2) + st_malloc_fallbacks (sl_stats s2)
        \<and> (\<forall>n. n \<le> sl_slot_size s2 \<and> card (slots_used s2) < sl_capacity s2 \<longrightarrow>
             (\<exists>p s3. otlp_slab_alloc L n (s2, mw2) = (Some p, s3, mw2))))"
proof -
  obtain own where own: "own \<inter> live mw = {}" "live mw1 = live mw \<union> own" "slab_inv own live good (s, mw1)" "slots_used s = {}"
    using slab_created [OF assms] by blast
  note H = slab_block_heap [OF assms(1), of own]
  have start: "slab_live own live (s, mw1) = live mw" using own(1,2,4) by (auto simp: slab_live_def)
  have run: "slab_inv own live good (s2, mw2) \<and> blocks_ok (slab_live own live (s2, mw2))
        \<and> st_in_use (sl_stats s2) = of_nat (card (slots_used s2))
        \<and> st_alloc_count (sl_stats s2) = st_slab_hits (sl_stats s2) + st_malloc_fallbacks (sl_stats s2)
        \<and> (\<forall>n. n \<le> sl_slot_size s2 \<and> card (slots_used s2) < sl_capacity s2 \<longrightarrow> (\<exists>p s3. otlp_slab_alloc L n (s2, mw2) = (Some p, s3, mw2)))"
    if r: "heap_run (otlp_slab_alloc L) (slab_release L) (slab_live own live) slab_mem slab_write (s, mw1) (s2, mw2)" for s2 mw2
  proof -
    have inv2: "slab_inv own live good (s2, mw2)" by (rule block_heap.run_inv [OF H r own(3)])
    then have ok: "slab_ok s2" by (simp add: slab_inv_def)
    have "\<exists>p s3. otlp_slab_alloc L n (s2, mw2) = (Some p, s3, mw2)"
      if n: "n \<le> sl_slot_size s2 \<and> card (slots_used s2) < sl_capacity s2" for n
    proof -
      obtain r s3 mw3 where a: "otlp_slab_alloc L n (s2, mw2) = (r, s3, mw3)" by (rule prod_cases3)
      from slab_alloc_cases [OF a ok] show ?thesis using n slab_ok_top [OF ok] a by cases simp_all
    qed
    then show ?thesis using inv2 ok block_heap.live_ok [OF H inv2] by (simp add: slab_ok_def)
  qed
  show ?thesis using own(1,2) start H run by (intro exI [of _ own]) blast
qed

section \<open>An allocator to stand on\<close>

text \<open>
  The simplest allocator that keeps the contract: it hands out memory upwards and remembers the blocks in
  use. It instantiates the contract, and through it the contract of the slab.
\<close>

type_synonym bump = "nat \<times> block list"

fun bump_alloc :: "nat \<Rightarrow> bump mw \<Rightarrow> nat option \<times> bump mw" where
  "bump_alloc n (mem, (next_free, bs)) =
     (let m = aligned (n + 1) in
      if next_free + m \<le> SIZE_MAX then (Some next_free, (mem, (next_free + m, (next_free, m) # bs)))
      else (None, (mem, (next_free, bs))))"

fun bump_free :: "nat option \<Rightarrow> bump mw \<Rightarrow> bump mw" where
  "bump_free None mw = mw"
| "bump_free (Some p) (mem, (next_free, bs)) = (mem, (next_free, filter (\<lambda>b. fst b \<noteq> p) bs))"

definition bump_realloc :: "nat option \<Rightarrow> nat \<Rightarrow> bump mw \<Rightarrow> nat option \<times> bump mw" where
  "bump_realloc ptr n mw =
     (case bump_alloc n mw of
        (None, mw1) \<Rightarrow> (None, mw1)
      | (Some q, mw1) \<Rightarrow> (case ptr of
          None \<Rightarrow> (Some q, mw1)
        | Some p \<Rightarrow> (Some q, bump_free (Some p) (memcpy q p n (fst mw1), snd mw1))))"

definition bump_fns :: "bump alloc_fns" where
  "bump_fns = \<lparr>af_alloc = bump_alloc, af_realloc = bump_realloc, af_free = bump_free\<rparr>"

definition bump_live :: "bump mw \<Rightarrow> block set" where
  "bump_live mw = set (snd (snd mw))"

definition bump_good :: "bump mw \<Rightarrow> bool" where
  "bump_good mw \<longleftrightarrow> (case mw of (_, (next_free, bs)) \<Rightarrow> 0 < next_free \<and> OTLP_SLAB_ALIGN dvd next_free
     \<and> blocks_ok (set bs) \<and> (\<forall>b \<in> set bs. fst b + snd b \<le> next_free))"

definition bump_start :: "bump mw" where
  "bump_start = (\<lambda>_. 0, (8, []))"

lemma blocks_ok_insert:
  assumes "blocks_ok B" "\<forall>b \<in> B. apart b c" "0 < fst c" "0 < snd c" "fst c + snd c \<le> SIZE_MAX" "OTLP_SLAB_ALIGN dvd fst c"
  shows "blocks_ok (insert c B)"
  unfolding blocks_ok_def
proof (intro conjI ballI impI)
  fix b d assume bd: "b \<in> insert c B" "d \<in> insert c B" "b \<noteq> d"
  have sym: "apart c x" if "x \<in> B" for x using assms(2) that by (force simp: apart_def)
  consider "b = c" "d \<in> B" | "d = c" "b \<in> B" | "b \<in> B" "d \<in> B" using bd by blast
  then show "apart b d"
  proof cases
    case 1 then show ?thesis using sym by simp
  next
    case 2 then show ?thesis using assms(2) by blast
  next
    case 3 then show ?thesis using blocks_okD(1) [OF assms(1)] bd(3) by blast
  qed
qed (use assms blocks_okD(2) [OF assms(1)] in \<open>auto simp del: split_paired_All\<close>)

lemma blocks_ok_subset: "blocks_ok B \<Longrightarrow> C \<subseteq> B \<Longrightarrow> blocks_ok C"
  unfolding blocks_ok_def by blast

interpretation bump: block_heap "af_alloc bump_fns" "free_by bump_fns" bump_live fst write_mw bump_good
proof
  fix s :: "bump mw"
  assume g: "bump_good s"
  obtain mem next_free bs where s: "s = (mem, (next_free, bs))" by (metis prod.exhaust)
  have ok: "blocks_ok (set bs)" "0 < next_free" "OTLP_SLAB_ALIGN dvd next_free" "\<forall>b \<in> set bs. fst b + snd b \<le> next_free"
    using g by (simp_all add: bump_good_def s)
  show "blocks_ok (bump_live s)" by (simp add: bump_live_def s ok)
  show "bump_good s' \<and> (\<exists>m. n \<le> m \<and> (p, m) \<notin> bump_live s \<and> bump_live s' = insert (p, m) (bump_live s))"
    if "af_alloc bump_fns n s = (Some p, s')" for n p s'
  proof -
    define m where "m = aligned (n + 1)"
    have m: "n \<le> m" "0 < m" "OTLP_SLAB_ALIGN dvd m" using aligned_bounds [of "n + 1"] by (simp_all add: m_def)
    have r: "next_free + m \<le> SIZE_MAX" "p = next_free" "s' = (mem, (next_free + m, (next_free, m) # bs))"
      using that by (auto simp: bump_fns_def s m_def Let_def split: if_splits)
    have new: "(p, m) \<notin> set bs" using ok(4) m(2) r(2) by fastforce
    have "blocks_ok (insert (next_free, m) (set bs))"
      using ok m r(1) by (intro blocks_ok_insert) (auto simp: apart_def)
    moreover have "\<forall>b \<in> set bs. fst b + snd b \<le> next_free + m" using ok(4) by fastforce
    ultimately have "bump_good s'" using ok m by (simp add: bump_good_def r(3))
    then show ?thesis using new m(1) by (auto simp: bump_live_def s r)
  qed
  show "bump_good s' \<and> bump_live s' = bump_live s" if "af_alloc bump_fns n s = (None, s')" for n s'
    using that g by (auto simp: bump_fns_def s Let_def split: if_splits)
  show "bump_good (free_by bump_fns p s) \<and> bump_live (free_by bump_fns p s) = bump_live s - {(p, m)}"
    if "(p, m) \<in> bump_live s" for p m
  proof -
    have pm: "(p, m) \<in> set bs" using that by (simp add: bump_live_def s)
    have "b = (p, m)" if b: "b \<in> set bs" "fst b = p" for b
    proof (rule ccontr)
      assume "b \<noteq> (p, m)"
      then have "apart b (p, m)" by (rule blocks_okD(1) [OF ok(1) b(1) pm])
      moreover have "0 < snd b" "0 < m" using blocks_okD(2) [OF ok(1) b(1)] blocks_okD(2) [OF ok(1) pm] by simp_all
      ultimately show False using b(2) by (simp add: apart_def)
    qed
    then have "(b \<in> set bs \<and> fst b \<noteq> p) = (b \<in> set bs \<and> b \<noteq> (p, m))" for b by (metis fst_conv)
    then have "{b \<in> set bs. fst b \<noteq> p} = set bs - {(p, m)}" by (intro set_eqI) (simp only: mem_Collect_eq Diff_iff singleton_iff)
    moreover have "blocks_ok {b \<in> set bs. fst b \<noteq> p}" by (rule blocks_ok_subset [OF ok(1)]) auto
    ultimately show ?thesis using ok by (simp add: bump_fns_def free_by_def s bump_live_def bump_good_def)
  qed
  show "fst s' a = fst s a" if "af_alloc bump_fns n s = (r, s')" for n r s' a
    using that by (auto simp: bump_fns_def s Let_def split: if_splits)
  show "fst (free_by bump_fns p s) a = fst s a" for p a by (simp add: bump_fns_def free_by_def s)
  show "bump_good (write_mw f s) \<and> bump_live (write_mw f s) = bump_live s \<and> fst (write_mw f s) = f" for f
    using g by (simp add: bump_good_def bump_live_def write_mw_def s)
qed

interpretation bump_slab: block_heap "otlp_slab_alloc bump_fns" "slab_release bump_fns" "slab_live own bump_live"
  slab_mem slab_write "slab_inv own bump_live bump_good" for own :: "block set"
  by (rule slab_block_heap [OF bump.block_heap_axioms])

lemma bump_start_good: "bump_good bump_start"
  by (simp add: bump_good_def bump_start_def OTLP_SLAB_ALIGN_def blocks_ok_def)

definition demo_slab :: slab where
  "demo_slab = \<lparr>sl_slot_size = 8, sl_capacity = 2, sl_arena = 144, sl_used = [False, False], sl_in_use = 0,
     sl_free_stack = [1, 0], sl_free_top = 2, sl_stats = stats_zero\<lparr>st_slot_size := 8, st_capacity := 2\<rparr>,
     sl_self = 8, sl_used_at = 168, sl_stack_at = 176\<rparr>"

definition demo_mw :: "bump mw" where
  "demo_mw = (memset0 168 2 (memset0 8 128 (\<lambda>_. 0)), (200, [(176, 24), (168, 8), (144, 24), (8, 136)]))"

lemma demo_round: "unat (round_up 8 8) = 8"
  using round_up_aligned [of 8] by (simp add: OTLP_SLAB_ALIGN_def SIZE_MAX_def aligned_def)

lemma demo_lists: "replicate 2 False = [False, False]" "map (\<lambda>i. 2 - 1 - i) [0..<2] = [1, 0 :: nat]"
  by (simp_all add: numeral_2_eq_2 upt_rec)

lemma demo_calloc: "aligned (n + 1) + f \<le> SIZE_MAX \<Longrightarrow> c * sz = n \<Longrightarrow> n \<le> SIZE_MAX \<Longrightarrow>
    calloc_by bump_fns c sz (mem, (f, bs)) = (Some f, (memset0 f n mem, (f + aligned (n + 1), (f, aligned (n + 1)) # bs)))"
  by (simp add: calloc_by_def bump_fns_def Let_def)

lemma demo_alloc: "aligned (n + 1) + f \<le> SIZE_MAX \<Longrightarrow>
    af_alloc bump_fns n (mem, (f, bs)) = (Some f, (mem, (f + aligned (n + 1), (f, aligned (n + 1)) # bs)))"
  by (simp add: bump_fns_def Let_def)

lemma demo_sizes: "aligned 129 = 136" "aligned (16 + 1) = 24" "aligned (2 + 1) = 8" "aligned 8 = 8"
  by (simp_all add: aligned_def OTLP_SLAB_ALIGN_def)

lemma demo_slab_created: "otlp_slab_create bump_fns 8 2 bump_start = (Some demo_slab, demo_mw)"
proof -
  have m: "8 * 2 mod (SIZE_MAX + 1) = 16" "2 * SIZEOF_SIZE mod (SIZE_MAX + 1) = 16" by (simp_all add: SIZE_MAX_def SIZEOF_SIZE_def)
  have r: "unat (round_up (word_of_nat 8) (word_of_nat OTLP_SLAB_ALIGN)) = 8" using demo_round by (simp add: OTLP_SLAB_ALIGN_def)
  have self: "calloc_by bump_fns 1 SIZEOF_SLAB (\<lambda>_. 0, (8, [])) = (Some 8, (memset0 8 128 (\<lambda>_. 0), (144, [(8, 136)])))"
    by (subst demo_calloc [where n = 128]) (simp_all add: demo_sizes SIZE_MAX_def SIZEOF_SLAB_def del: One_nat_def add_One_commute)
  have arena: "af_alloc bump_fns 16 (mem, (144, bs)) = (Some 144, (mem, (168, (144, 24) # bs)))" for mem bs
    by (subst demo_alloc) (simp_all only: demo_sizes, simp_all add: SIZE_MAX_def)
  have used: "calloc_by bump_fns 2 SIZEOF_BOOL (mem, (168, bs)) = (Some 168, (memset0 168 2 mem, (176, (168, 8) # bs)))" for mem bs
    by (subst demo_calloc [where n = 2]) (simp_all only: demo_sizes, simp_all add: SIZE_MAX_def SIZEOF_BOOL_def)
  have stack: "af_alloc bump_fns 16 (mem, (176, bs)) = (Some 176, (mem, (200, (176, 24) # bs)))" for mem bs
    by (subst demo_alloc) (simp_all only: demo_sizes, simp_all add: SIZE_MAX_def)
  have nz: "\<not> (8 = (0 :: nat) \<or> 2 = (0 :: nat))" by simp
  show ?thesis
    unfolding otlp_slab_create_def bump_start_def if_not_P [OF nz] Let_def r self prod.case option.case m arena used stack
      demo_lists demo_slab_def demo_mw_def by (rule refl)
qed

theorem slab_drop_in_witness:
  "otlp_slab_create bump_fns 8 2 bump_start = (Some demo_slab, demo_mw)
     \<and> (\<exists>p s. otlp_slab_alloc bump_fns 8 (demo_slab, demo_mw) = (Some p, s, demo_mw))"
proof -
  have h: "8 + OTLP_SLAB_ALIGN \<le> SIZE_MAX" "aligned 8 * 2 \<le> SIZE_MAX" by (simp_all add: OTLP_SLAB_ALIGN_def SIZE_MAX_def aligned_def)
  have empty: "slots_used demo_slab = {}" by (auto simp: slots_used_def demo_slab_def nth_Cons' split: if_splits)
  show ?thesis
    using slab_drop_in [OF bump.block_heap_axioms bump_start_good demo_slab_created h]
    apply (elim exE conjE)
    apply (drule spec [where x = demo_slab], drule spec [where x = demo_mw], drule mp, rule heap_run.start)
    apply (elim conjE, drule spec [where x = 8])
    apply (simp only: empty demo_slab_created)
    apply (simp add: demo_slab_def)
    done
qed

end
