(* ===== verification/Slab_Install.thy ===== *)
theory Slab_Install
  imports Slab_Props
begin

text \<open>
  The slab as the allocator of the process: with the hooks of \<^verbatim>\<open>src/slab.c\<close> installed, \<^verbatim>\<open>otlp_malloc\<close>,
  \<^verbatim>\<open>otlp_realloc\<close> and \<^verbatim>\<open>otlp_free\<close> keep the contract of the allocator they replace.
\<close>

section \<open>The contract with reallocation\<close>

text \<open>
  In the terms of the C standard: a block in use is given up for one of the size asked for, with the
  bytes that fit; on failure the old block stays.
\<close>

locale block_realloc = block_heap alloc free live mem poke good
  for alloc :: "nat \<Rightarrow> 's \<Rightarrow> nat option \<times> 's" and free live mem poke good +
  fixes realloc :: "nat \<Rightarrow> nat \<Rightarrow> 's \<Rightarrow> nat option \<times> 's"
  assumes realloc_some: "good s \<Longrightarrow> (p, m) \<in> live s \<Longrightarrow> 0 < n \<Longrightarrow> realloc p n s = (Some q, s') \<Longrightarrow>
      good s' \<and> (\<exists>m'. n \<le> m' \<and> (q, m') \<notin> live s - {(p, m)} \<and> live s' = insert (q, m') (live s - {(p, m)}))"
    and realloc_none: "good s \<Longrightarrow> (p, m) \<in> live s \<Longrightarrow> 0 < n \<Longrightarrow> realloc p n s = (None, s') \<Longrightarrow> good s' \<and> live s' = live s"
    and realloc_moves: "good s \<Longrightarrow> (p, m) \<in> live s \<Longrightarrow> 0 < n \<Longrightarrow> realloc p n s = (Some q, s') \<Longrightarrow> i < min n m \<Longrightarrow>
      mem s' (q + i) = mem s (p + i)"
    and realloc_keeps: "good s \<Longrightarrow> (p, m) \<in> live s \<Longrightarrow> 0 < n \<Longrightarrow> realloc p n s = (r, s') \<Longrightarrow> b \<in> live s \<Longrightarrow> r = None \<or> b \<noteq> (p, m) \<Longrightarrow>
      inside a b \<Longrightarrow> mem s' a = mem s a"

text \<open>What a reallocation owes, in one piece.\<close>

definition moved :: "nat \<Rightarrow> nat \<Rightarrow> nat \<Rightarrow> block set \<Rightarrow> (nat \<Rightarrow> u8) \<Rightarrow> nat option \<Rightarrow> block set \<Rightarrow> (nat \<Rightarrow> u8) \<Rightarrow> bool" where
  "moved p m n B mem0 r B' mem1 \<longleftrightarrow>
     (case r of
        None \<Rightarrow> B' = B
      | Some q \<Rightarrow> (\<exists>m'. n \<le> m' \<and> (q, m') \<notin> B - {(p, m)} \<and> B' = insert (q, m') (B - {(p, m)}))
          \<and> (\<forall>i < min n m. mem1 (q + i) = mem0 (p + i)))
     \<and> (\<forall>a b. b \<in> B \<longrightarrow> r = None \<or> b \<noteq> (p, m) \<longrightarrow> inside a b \<longrightarrow> mem1 a = mem0 a)"

text \<open>A new block, a copy of what fits, and the release of the old block: this meets the contract in any heap.\<close>

context block_heap
begin

lemma move_by_copy:
  assumes g: "good s" and pm: "(p, m) \<in> live s" and a: "alloc n s = (Some q, s1)" and k: "k \<le> n" "min n m \<le> k"
  shows "good (free p (poke (memcpy q p k (mem s1)) s1)) \<and> moved p m n (live s) (mem s) (Some q)
    (live (free p (poke (memcpy q p k (mem s1)) s1))) (mem (free p (poke (memcpy q p k (mem s1)) s1)))"
proof -
  define f where "f = memcpy q p k (mem s1)"
  define s2 where "s2 = poke f s1"
  obtain m' where m': "good s1" "n \<le> m'" "(q, m') \<notin> live s" "live s1 = insert (q, m') (live s)" using alloc_some [OF g a] by blast
  have ok1: "blocks_ok (insert (q, m') (live s))" using live_ok [OF m'(1)] m'(4) by simp
  have ap: "apart (q, m') b" if "b \<in> live s" for b using blocks_okD(1) [OF ok1, of "(q, m')" b] that m'(3) by blast
  have out: "f a = mem s1 a" if "\<not> inside a (q, m')" for a
    using that m'(2) k(1) by (auto simp: f_def memcpy_def inside_def)
  have w: "good s2" "live s2 = insert (q, m') (live s)" "mem s2 = f"
    using poke_live [OF m'(1), of f] out m'(4) unfolding s2_def by auto
  have p2: "(p, m) \<in> live s2" using pm w(2) by blast
  have ne: "(q, m') \<noteq> (p, m)" using m'(3) pm by blast
  have fr: "good (free p s2)" "live (free p s2) = insert (q, m') (live s - {(p, m)})"
    using free_live [OF w(1) p2] w(2) ne by auto
  have "mem (free p s2) (q + i) = mem s (p + i)" if i: "i < min n m" for i
  proof -
    have "mem (free p s2) (q + i) = f (q + i)"
      using free_keeps [OF w(1) p2, of "(q, m')" "q + i"] w(2,3) ne i m'(2) by (simp add: inside_def)
    also have "\<dots> = mem s1 (p + i)" using less_le_trans [OF i k(2)] by (simp add: f_def memcpy_def)
    also have "\<dots> = mem s (p + i)" using alloc_keeps [OF g a pm, of "p + i"] i by (simp add: inside_def)
    finally show ?thesis .
  qed
  moreover have "mem (free p s2) x = mem s x" if b: "b \<in> live s" "b \<noteq> (p, m)" "inside x b" for x b
  proof -
    have "mem (free p s2) x = f x" using free_keeps [OF w(1) p2, of b x] w(2,3) b by simp
    also have "\<dots> = mem s1 x" using ap [OF b(1)] b(3) by (intro out) (auto simp: apart_def inside_def)
    also have "\<dots> = mem s x" by (rule alloc_keeps [OF g a b(1,3)])
    finally show ?thesis .
  qed
  ultimately show ?thesis
    unfolding f_def [symmetric] s2_def [symmetric] moved_def option.case fr(2) using fr(1) m'(2,3) by blast
qed

end

definition realloc_by :: "'w alloc_fns \<Rightarrow> nat \<Rightarrow> nat \<Rightarrow> 'w mw \<Rightarrow> nat option \<times> 'w mw" where
  "realloc_by L p = af_realloc L (Some p)"

abbreviation keeps_realloc :: "'w alloc_fns \<Rightarrow> ('w mw \<Rightarrow> block set) \<Rightarrow> ('w mw \<Rightarrow> bool) \<Rightarrow> bool" where
  "keeps_realloc L live good \<equiv> block_realloc (af_alloc L) (free_by L) live fst write_mw good (realloc_by L)"

lemma keeps_both: "keeps_realloc L live good \<Longrightarrow> keeps_contract L live good"
  by (simp add: block_realloc_def)

section \<open>The installed slab\<close>

text \<open>The state of the process with the hooks installed over the default allocator.\<close>

definition hook_state :: "'w alloc_fns \<Rightarrow> slab \<Rightarrow> 'w mw \<Rightarrow> 'w heap" where
  "hook_state L s mw = \<lparr>hp_slab = Some s, hp_prev = L, hp_installed = True, hp_allocator = None, hp_mw = mw\<rparr>"

definition hooked :: "'w alloc_fns \<Rightarrow> block set \<Rightarrow> ('w mw \<Rightarrow> block set) \<Rightarrow> ('w mw \<Rightarrow> bool) \<Rightarrow> 'w heap \<Rightarrow> bool" where
  "hooked L own live good h \<longleftrightarrow> (\<exists>s mw. h = hook_state L s mw \<and> slab_inv own live good (s, mw))"

definition heap_live :: "block set \<Rightarrow> ('w mw \<Rightarrow> block set) \<Rightarrow> 'w heap \<Rightarrow> block set" where
  "heap_live own live h = slab_live own live (the (hp_slab h), hp_mw h)"

definition heap_mem :: "'w heap \<Rightarrow> nat \<Rightarrow> u8" where
  "heap_mem h = fst (hp_mw h)"

definition heap_write :: "(nat \<Rightarrow> u8) \<Rightarrow> 'w heap \<Rightarrow> 'w heap" where
  "heap_write f h = h\<lparr>hp_mw := write_mw f (hp_mw h)\<rparr>"

definition heap_free :: "nat \<Rightarrow> 'w heap \<Rightarrow> 'w heap" where
  "heap_free p = otlp_free (Some p)"

definition heap_realloc :: "'w alloc_fns \<Rightarrow> nat \<Rightarrow> nat \<Rightarrow> 'w heap \<Rightarrow> nat option \<times> 'w heap" where
  "heap_realloc L p = otlp_realloc L (Some p)"

lemma hook_state_simps [simp]:
  "heap_live own live (hook_state L s mw) = slab_live own live (s, mw)" "heap_mem (hook_state L s mw) = fst mw"
  "heap_write f (hook_state L s mw) = hook_state L s (write_mw f mw)"
  "hooked L own live good (hook_state L s mw) \<longleftrightarrow> slab_inv own live good (s, mw)"
  by (auto simp: heap_live_def heap_mem_def heap_write_def hook_state_def hooked_def)

lemma slab_inv_frame:
  "slab_inv own live good (s', mw) \<Longrightarrow> slab_ok s \<Longrightarrow> sl_arena s' = sl_arena s \<Longrightarrow> sl_slot_size s' = sl_slot_size s \<Longrightarrow>
     sl_capacity s' = sl_capacity s \<Longrightarrow> slab_inv own live good (s, mw)"
  by (simp add: slab_inv_def)

lemma slab_live_frame:
  "slots_used s' = slots_used s \<Longrightarrow> slot_block s' = slot_block s \<Longrightarrow> slab_live own live (s', mw) = slab_live own live (s, mw)"
  by (simp add: slab_live_def)

lemma hook_alloc:
  "slab_alloc_hook L n (hook_state L s mw) =
     (case (if n \<le> sl_slot_size s then otlp_slab_alloc L n (s, mw) else (case af_alloc L n mw of (r, mw1) \<Rightarrow> (r, s, mw1))) of
        (r, s1, mw1) \<Rightarrow> (r, hook_state L s1 mw1))"
  by (auto simp: slab_alloc_hook_def hook_state_def slab_alloc_def by_fns_def split: prod.split)

lemma hook_alloc_law:
  assumes "keeps_contract L live good" "slab_inv own live good (s, mw)" "slab_alloc_hook L n (hook_state L s mw) = (r, h')"
  shows "\<exists>s1 mw1. h' = hook_state L s1 mw1 \<and> slab_inv own live good (s1, mw1)
    \<and> (case r of None \<Rightarrow> slab_live own live (s1, mw1) = slab_live own live (s, mw)
       | Some p \<Rightarrow> \<exists>m. n \<le> m \<and> (p, m) \<notin> slab_live own live (s, mw) \<and> slab_live own live (s1, mw1) = insert (p, m) (slab_live own live (s, mw)))
    \<and> (\<forall>a b. b \<in> slab_live own live (s, mw) \<longrightarrow> inside a b \<longrightarrow> fst mw1 a = fst mw a)"
proof (cases "n \<le> sl_slot_size s")
  case True
  obtain s1 mw1 where a: "otlp_slab_alloc L n (s, mw) = (r, s1, mw1)" "h' = hook_state L s1 mw1"
    using assms(3) True by (auto simp: hook_alloc split: prod.splits)
  show ?thesis
    using slab_alloc_law(1,2) [OF assms(1,2) a(1)] slab_alloc_law(3) [OF assms(1,2) a(1)] a(2)
    by (intro exI [of _ s1] exI [of _ mw1]) simp
next
  case False
  obtain mw1 where a: "af_alloc L n mw = (r, mw1)" "h' = hook_state L s mw1"
    using assms(3) False by (auto simp: hook_alloc split: prod.splits)
  define s' where "s' = s\<lparr>sl_stats := (sl_stats s)\<lparr>st_alloc_count := st_alloc_count (sl_stats s) + 1,
        st_malloc_fallbacks := st_malloc_fallbacks (sl_stats s) + 1\<rparr>\<rparr>"
  have al: "otlp_slab_alloc L n (s, mw) = (r, s', mw1)" using False a(1) by (simp add: otlp_slab_alloc_def s'_def Let_def)
  have fr: "slab_live own live (s', mw1) = slab_live own live (s, mw1)"
    by (rule slab_live_frame) (simp_all add: s'_def slab_ok_counters)
  have inv: "slab_inv own live good (s, mw1)"
    using slab_inv_frame [OF slab_alloc_law(1) [OF assms(1,2) al], of s] assms(2) by (simp add: s'_def) (simp add: slab_inv_def)
  show ?thesis
    using slab_alloc_law(2) [OF assms(1,2) al] slab_alloc_law(3) [OF assms(1,2) al] a(2) inv unfolding fr
    by (intro exI [of _ s] exI [of _ mw1]) simp
qed

lemma hook_free_law:
  assumes "keeps_contract L live good" "slab_inv own live good (s, mw)" "(p, m) \<in> slab_live own live (s, mw)"
  shows "\<exists>s1 mw1. slab_free_hook (Some p) (hook_state L s mw) = hook_state L s1 mw1 \<and> slab_inv own live good (s1, mw1)
    \<and> slab_live own live (s1, mw1) = slab_live own live (s, mw) - {(p, m)}
    \<and> (\<forall>a b. b \<in> slab_live own live (s, mw) \<longrightarrow> b \<noteq> (p, m) \<longrightarrow> inside a b \<longrightarrow> fst mw1 a = fst mw a)"
proof -
  have good: "good mw" and ok: "slab_ok s" using assms(2) by (auto simp: slab_inv_def)
  note other = slot_apart_other [OF assms(2) block_heap.live_ok [OF assms(1) good]]
  note law = slab_free_law [OF assms]
  define t where "t = s\<lparr>sl_stats := (sl_stats s)\<lparr>st_free_count := st_free_count (sl_stats s) + 1\<rparr>\<rparr>"
  show ?thesis
  proof (cases "(p, m) \<in> live mw - own")
    case True
    have na: "\<not> ptr_in_arena s p" using other(1) [OF True] by simp
    define s2 where "s2 = t\<lparr>sl_stats := (sl_stats t)\<lparr>st_malloc_free_fallbacks := st_malloc_free_fallbacks (sl_stats t) + 1\<rparr>\<rparr>"
    have rel: "slab_release L p (s, mw) = (s2, free_by L p mw)"
      using na by (simp add: slab_release_def otlp_slab_free_ptr_def t_def [symmetric] s2_def free_by_def Let_def)
        (simp add: t_def slab_ok_counters)
    have hook: "slab_free_hook (Some p) (hook_state L s mw) = hook_state L s (free_by L p mw)"
      using na by (simp add: slab_free_hook_def hook_state_def free_by_def Let_def)
    have fr: "slab_live own live (s2, free_by L p mw) = slab_live own live (s, free_by L p mw)"
      by (rule slab_live_frame) (simp_all add: s2_def t_def slab_ok_counters)
    have inv: "slab_inv own live good (s, free_by L p mw)"
      using slab_inv_frame [OF law [unfolded rel, THEN conjunct1]] ok by (simp add: s2_def t_def)
    show ?thesis
      using law inv hook unfolding rel fr slab_mem_def snd_conv
      by (intro exI [of _ s] exI [of _ "free_by L p mw"]) (use slab_free_law [OF assms, unfolded rel slab_mem_def snd_conv] in blast)
  next
    case False
    then obtain i where i: "(p, m) = slot_block s i" "i \<in> slots_used s" using assms(3) by (auto simp: slab_live_def)
    then have i': "i < sl_capacity s" "sl_used s ! i" "p = fst (slot_block s i)" by (auto simp: slots_used_def) (metis fst_conv)
    have idx: "ptr_in_arena s p" "(p - sl_arena s) div sl_slot_size s = i"
      using slot_in_arena [OF ok i'(1)] slot_of_address [of s i] ok i'(3) by (simp_all add: slab_ok_def)
    have rel: "slab_release L p (s, mw) = (give_slot i t, mw)"
      using idx i' by (simp add: slab_release_def otlp_slab_free_ptr_def t_def [symmetric] Let_def)
        (simp add: t_def slab_ok_counters)
    have hook: "slab_free_hook (Some p) (hook_state L s mw) = hook_state L (give_slot i t) mw"
      using idx i' by (simp add: slab_free_hook_def hook_state_def t_def Let_def)
    show ?thesis
      using law hook unfolding rel slab_mem_def snd_conv
      by (intro exI [of _ "give_slot i t"] exI [of _ mw]) (use slab_free_law [OF assms, unfolded rel slab_mem_def snd_conv] in blast)
  qed
qed

lemma otlp_malloc_hooked: "otlp_malloc L n (hook_state L s mw) = slab_alloc_hook L n (hook_state L s mw)"
  by (simp add: otlp_malloc_def hook_state_def)

lemma heap_free_hooked: "heap_free p (hook_state L s mw) = slab_free_hook (Some p) (hook_state L s mw)"
  by (simp add: heap_free_def otlp_free_def hook_state_def)

text \<open>Writing to blocks in use, of the caller.\<close>

lemma hook_write:
  assumes "keeps_contract L live good" "slab_inv own live good (s, mw)"
    and "\<And>a. \<forall>b \<in> slab_live own live (s, mw). \<not> inside a b \<Longrightarrow> f a = fst mw a"
  shows "slab_inv own live good (s, write_mw f mw) \<and> slab_live own live (s, write_mw f mw) = slab_live own live (s, mw)"
  using block_heap.poke_live [OF slab_block_heap [OF assms(1)] assms(2), of f] assms(3) by (simp add: slab_mem_def slab_write_def)

lemma hooked_block_heap:
  assumes "keeps_contract L live good"
  shows "block_heap (otlp_malloc L) heap_free (heap_live own live) heap_mem heap_write (hooked L own live good)"
proof
  fix h :: "'a heap"
  assume "hooked L own live good h"
  then obtain s mw where h: "h = hook_state L s mw" and inv: "slab_inv own live good (s, mw)" by (auto simp: hooked_def)
  show "blocks_ok (heap_live own live h)"
    using block_heap.live_ok [OF slab_block_heap [OF assms] inv] by (simp add: h)
  show "hooked L own live good h' \<and> (\<exists>m. n \<le> m \<and> (p, m) \<notin> heap_live own live h \<and> heap_live own live h' = insert (p, m) (heap_live own live h))"
    if "otlp_malloc L n h = (Some p, h')" for n p h'
    using hook_alloc_law [OF assms inv that [unfolded h otlp_malloc_hooked]] by (auto simp: h)
  show "hooked L own live good h' \<and> heap_live own live h' = heap_live own live h" if "otlp_malloc L n h = (None, h')" for n h'
    using hook_alloc_law [OF assms inv that [unfolded h otlp_malloc_hooked]] by (auto simp: h)
  show "hooked L own live good (heap_free p h) \<and> heap_live own live (heap_free p h) = heap_live own live h - {(p, m)}"
    if "(p, m) \<in> heap_live own live h" for p m
    using hook_free_law [OF assms inv, of p m] that unfolding h heap_free_hooked by auto
  show "heap_mem h' a = heap_mem h a" if "otlp_malloc L n h = (r, h')" "b \<in> heap_live own live h" "inside a b" for n r h' b a
    using hook_alloc_law [OF assms inv that(1) [unfolded h otlp_malloc_hooked]] that(2,3)
    unfolding h hook_state_simps(1,2) by (elim exE conjE, hypsubst, unfold hook_state_simps(2), blast)
  show "heap_mem (heap_free p h) a = heap_mem h a"
    if "(p, m) \<in> heap_live own live h" "b \<in> heap_live own live h" "b \<noteq> (p, m)" "inside a b" for p m b a
  proof -
    have pm: "(p, m) \<in> slab_live own live (s, mw)" and b: "b \<in> slab_live own live (s, mw)" using that by (simp_all add: h)
    obtain s1 mw1 where "slab_free_hook (Some p) (hook_state L s mw) = hook_state L s1 mw1"
      and "\<forall>a b. b \<in> slab_live own live (s, mw) \<longrightarrow> b \<noteq> (p, m) \<longrightarrow> inside a b \<longrightarrow> fst mw1 a = fst mw a"
      using hook_free_law [OF assms inv pm] by (elim exE conjE) (rule that; assumption)
    with b \<open>b \<noteq> (p, m)\<close> \<open>inside a b\<close> show ?thesis unfolding h heap_free_hooked by (simp only: hook_state_simps(2)) blast
  qed
  show "hooked L own live good (heap_write f h) \<and> heap_live own live (heap_write f h) = heap_live own live h \<and> heap_mem (heap_write f h) = f"
    if f: "\<And>a. \<forall>b \<in> heap_live own live h. \<not> inside a b \<Longrightarrow> f a = heap_mem h a" for f
    using hook_write [OF assms inv, of f] f by (simp add: h write_mw_def)
qed

section \<open>Moving a block\<close>

text \<open>The two branches: a slot is moved by hand, a block of the allocator underneath by its own \<^verbatim>\<open>realloc\<close>.\<close>

lemma heap_realloc_slot:
  assumes "0 < n" "ptr_in_arena s p"
  shows "heap_realloc L p n (hook_state L s mw) =
    (case slab_alloc_hook L n (hook_state L s mw) of
       (None, h1) \<Rightarrow> (None, h1)
     | (Some q, h1) \<Rightarrow> (Some q, slab_free_hook (Some p) (heap_write (memcpy q p (min n (sl_slot_size s)) (heap_mem h1)) h1)))"
  using assms by (auto simp: heap_realloc_def otlp_realloc_def slab_realloc_hook_def hook_state_def heap_write_def heap_mem_def
      write_mw_def Let_def min_def split: prod.split option.split)

lemma heap_realloc_other:
  assumes "0 < n" "\<not> ptr_in_arena s p"
  shows "heap_realloc L p n (hook_state L s mw) = (case realloc_by L p n mw of (r, mw1) \<Rightarrow> (r, hook_state L s mw1))"
  using assms by (auto simp: heap_realloc_def otlp_realloc_def slab_realloc_hook_def hook_state_def by_fns_def realloc_by_def split: prod.split)

lemma hook_moves_slot:
  assumes K: "keeps_contract L live good" and h: "hooked L own live good (hook_state L s mw)"
    and pm: "(p, m) \<in> slab_live own live (s, mw)" "m = sl_slot_size s" "ptr_in_arena s p" and n: "0 < n"
    and r: "heap_realloc L p n (hook_state L s mw) = (r, h')"
  shows "hooked L own live good h' \<and> moved p m n (slab_live own live (s, mw)) (fst mw) r (heap_live own live h') (heap_mem h')"
proof -
  note H = hooked_block_heap [OF K, of own]
  obtain q h1 where "slab_alloc_hook L n (hook_state L s mw) = (q, h1)" by (rule prod.exhaust)
  then have a: "slab_alloc_hook L n (hook_state L s mw) = (q, h1)" "otlp_malloc L n (hook_state L s mw) = (q, h1)"
    by (simp_all add: otlp_malloc_hooked)
  show ?thesis
  proof (cases q)
    case None
    then have e: "r = None" "h' = h1" using r a(1) by (simp_all add: heap_realloc_slot [OF n pm(3)])
    have "heap_mem h' x = fst mw x" if "b \<in> slab_live own live (s, mw)" "inside x b" for x b
      using block_heap.alloc_keeps [OF H h a(2), of b x] that e(2) by simp
    then show ?thesis using block_heap.alloc_none [OF H h] a(2) None e by (auto simp: moved_def)
  next
    case (Some q')
    have g1: "hooked L own live good h1" by (rule block_heap.alloc_inv [OF H h a(2)])
    have "(p, m) \<in> heap_live own live h1" using block_heap.alloc_mono [OF H h a(2)] pm(1) by auto
    then have pm0: "(p, m) \<in> heap_live own live (hook_state L s mw)" using pm(1) by simp
    define f where "f = memcpy q' p (min n m) (heap_mem h1)"
    have "\<exists>s1 mw1. h1 = hook_state L s1 mw1" using g1 by (auto simp: hooked_def)
    then have e: "r = Some q'" "h' = heap_free p (heap_write f h1)"
      using r a(1) Some by (auto simp: heap_realloc_slot [OF n pm(3)] f_def pm(2) heap_free_hooked)
    show ?thesis
      using block_heap.move_by_copy [OF H h pm0 a(2) [unfolded Some], of "min n m"] by (simp add: e f_def)
  qed
qed

lemma hook_moves_other:
  assumes K: "keeps_realloc L live good" and inv: "slab_inv own live good (s, mw)"
    and pm: "(p, m) \<in> live mw - own" and n: "0 < n" and r: "heap_realloc L p n (hook_state L s mw) = (r, h')"
  shows "\<exists>s1 mw1. h' = hook_state L s1 mw1 \<and> slab_inv own live good (s1, mw1)
    \<and> moved p m n (slab_live own live (s, mw)) (fst mw) r (slab_live own live (s1, mw1)) (fst mw1)"
proof -
  have good: "good mw" and ok: "slab_ok s" and own: "own \<subseteq> live mw" using inv by (auto simp: slab_inv_def)
  have pm': "(p, m) \<in> live mw" "(p, m) \<notin> own" using pm by blast+
  note other = slot_apart_other [OF inv block_heap.live_ok [OF keeps_both [OF K] good] pm]
  have na: "\<not> ptr_in_arena s p" using other(1) by simp
  obtain mw1 where a: "realloc_by L p n mw = (r, mw1)" "h' = hook_state L s mw1"
    using r by (auto simp: heap_realloc_other [OF n na] split: prod.splits)
  have keep: "fst mw1 a = fst mw a" if t: "b \<in> slab_live own live (s, mw)" "r = None \<or> b \<noteq> (p, m)" "inside a b" for a b
  proof -
    obtain c where c: "c \<in> live mw" "inside a c" "b = c \<or> c \<in> own" using slab_live_inside [OF inv t(1,3)] by blast
    then have "r = None \<or> c \<noteq> (p, m)" using t(2) pm'(2) by blast
    then show ?thesis using block_realloc.realloc_keeps [OF K good pm'(1) n a(1) c(1) _ c(2)] by blast
  qed
  define S where "S = slot_block s ` slots_used s"
  have lv: "slab_live own live (s, mw') = (live mw' - own) \<union> S" for mw' :: "'a mw" by (simp add: slab_live_def S_def)
  have pS: "(p, m) \<notin> S" using other(3) unfolding S_def by (blast dest: slots_used_lt)
  show ?thesis
  proof (cases r)
    case None
    with block_realloc.realloc_none [OF K good pm'(1) n] a(1) have l: "good mw1" "live mw1 = live mw" by blast+
    have "slab_inv own live good (s, mw1)" using slab_invI [OF inv l(1) ok] own l(2) by simp
    moreover have "moved p m n (slab_live own live (s, mw)) (fst mw) r (slab_live own live (s, mw1)) (fst mw1)"
      using keep None unfolding moved_def lv l(2) by simp
    ultimately show ?thesis using a(2) by blast
  next
    case (Some q)
    obtain m' where l: "good mw1" "n \<le> m'" "(q, m') \<notin> live mw - {(p, m)}" "live mw1 = insert (q, m') (live mw - {(p, m)})"
      using block_realloc.realloc_some [OF K good pm'(1) n] a(1) Some by blast
    have own1: "own \<subseteq> live mw1" "(q, m') \<notin> own" using own pm'(2) l(3,4) by blast+
    have inv1: "slab_inv own live good (s, mw1)" using slab_invI [OF inv l(1) ok own1(1)] by simp
    have new: "(q, m') \<in> live mw1 - own" using own1(2) l(4) by blast
    have qS: "(q, m') \<notin> S"
      using slot_apart_other(3) [OF inv1 block_heap.live_ok [OF keeps_both [OF K] l(1)] new] unfolding S_def by (blast dest: slots_used_lt)
    have "slab_live own live (s, mw1) = insert (q, m') (slab_live own live (s, mw) - {(p, m)})"
      unfolding lv l(4) using own1(2) pS by (simp add: insert_Diff_if Un_Diff) blast
    moreover have "(q, m') \<notin> slab_live own live (s, mw) - {(p, m)}" unfolding lv using l(3) qS by blast
    moreover have "\<forall>i < min n m. fst mw1 (q + i) = fst mw (p + i)"
      using block_realloc.realloc_moves [OF K good pm'(1) n] a(1) Some by blast
    ultimately have "moved p m n (slab_live own live (s, mw)) (fst mw) r (slab_live own live (s, mw1)) (fst mw1)"
      using l(2) keep unfolding moved_def Some option.case by blast
    then show ?thesis using inv1 a(2) by blast
  qed
qed

lemma hook_moves:
  assumes K: "keeps_realloc L live good" and inv: "slab_inv own live good (s, mw)"
    and pm: "(p, m) \<in> slab_live own live (s, mw)" and n: "0 < n" and r: "heap_realloc L p n (hook_state L s mw) = (r, h')"
  shows "hooked L own live good h' \<and> moved p m n (slab_live own live (s, mw)) (fst mw) r (heap_live own live h') (heap_mem h')"
proof (cases "(p, m) \<in> live mw - own")
  case True
  from hook_moves_other [OF K inv this n r] show ?thesis by auto
next
  case False
  then obtain i where i: "(p, m) = slot_block s i" "i < sl_capacity s" using pm by (auto simp: slab_live_def slots_used_def)
  have "ptr_in_arena s p" using slot_in_arena [OF _ i(2)] inv i(1) [symmetric] by (simp add: slab_inv_def)
  moreover have "m = sl_slot_size s" using i(1) by (simp add: slot_block_def)
  ultimately show ?thesis using hook_moves_slot [OF keeps_both [OF K] _ pm _ _ n r] inv by simp
qed

lemma hooked_block_realloc:
  assumes "keeps_realloc L live good"
  shows "block_realloc (otlp_malloc L) heap_free (heap_live own live) heap_mem heap_write (hooked L own live good) (heap_realloc L)"
proof (intro block_realloc.intro block_realloc_axioms.intro)
  show "block_heap (otlp_malloc L) heap_free (heap_live own live) heap_mem heap_write (hooked L own live good)"
    by (rule hooked_block_heap [OF keeps_both [OF assms]])
next
  have step: "hooked L own live good h' \<and> moved p m n (heap_live own live h) (heap_mem h) r (heap_live own live h') (heap_mem h')"
    if h: "hooked L own live good h" "(p, m) \<in> heap_live own live h" "0 < n" "heap_realloc L p n h = (r, h')" for h :: "'a heap" and p m n r h'
  proof -
    obtain s mw where s: "h = hook_state L s mw" "slab_inv own live good (s, mw)" using h(1) by (auto simp: hooked_def)
    have "(p, m) \<in> slab_live own live (s, mw)" using h(2) by (simp add: s(1))
    from hook_moves [OF assms s(2) this h(3) h(4) [unfolded s(1)]] show ?thesis by (simp add: s(1))
  qed
  show "hooked L own live good h' \<and> (\<exists>m'. n \<le> m' \<and> (q, m') \<notin> heap_live own live h - {(p, m)}
        \<and> heap_live own live h' = insert (q, m') (heap_live own live h - {(p, m)}))"
    if "hooked L own live good h" "(p, m) \<in> heap_live own live h" "0 < n" "heap_realloc L p n h = (Some q, h')" for h p m n q h'
    using step [OF that] by (simp add: moved_def)
  show "hooked L own live good h' \<and> heap_live own live h' = heap_live own live h"
    if "hooked L own live good h" "(p, m) \<in> heap_live own live h" "0 < n" "heap_realloc L p n h = (None, h')" for h p m n h'
    using step [OF that] by (simp add: moved_def)
  show "heap_mem h' (q + i) = heap_mem h (p + i)"
    if "hooked L own live good h" "(p, m) \<in> heap_live own live h" "0 < n" "heap_realloc L p n h = (Some q, h')" "i < min n m"
    for h p m n q h' i
    using step [OF that(1-4)] that(5) by (simp add: moved_def)
  show "heap_mem h' a = heap_mem h a"
    if "hooked L own live good h" "(p, m) \<in> heap_live own live h" "0 < n" "heap_realloc L p n h = (r, h')" "b \<in> heap_live own live h"
      "r = None \<or> b \<noteq> (p, m)" "inside a b" for h p m n r h' b a
    using step [OF that(1-4)] that(5-7) unfolding moved_def by blast
qed

section \<open>Installing\<close>

lemma install_hooks:
  assumes "otlp_install_slab_allocator slot_size capacity h = (OTLP_OK, h1)" "hp_allocator h = Some L"
  obtains s mw1 where "otlp_slab_create L slot_size capacity (hp_mw h) = (Some s, mw1)" "h1 = hook_state L s mw1"
proof -
  obtain r mw1 where c: "otlp_slab_create L slot_size capacity (hp_mw h) = (r, mw1)" by (rule prod.exhaust)
  with assms obtain s where "r = Some s" "h1 = hook_state L s mw1"
    by (cases r) (auto simp: otlp_install_slab_allocator_def hook_state_def split: if_splits)
  with c show ?thesis by (intro that) simp_all
qed

text \<open>
  C10. The slab can be installed under the whole library. If the process allocator is the default one, which keeps the
  contract of \<^verbatim>\<open>malloc\<close>, \<^verbatim>\<open>realloc\<close> and \<^verbatim>\<open>free\<close>, and the size of the arena does not overflow, then after a successful
  install \<^verbatim>\<open>otlp_malloc\<close>, \<^verbatim>\<open>otlp_realloc\<close> and \<^verbatim>\<open>otlp_free\<close> keep the same contract over the blocks that were in use and
  those to come: a slot that is reallocated moves with its contents, and no operation touches another block.
\<close>

theorem slab_serves_library:
  assumes "keeps_realloc L live good" and "good (hp_mw h)" and "hp_allocator h = Some L"
    and "otlp_install_slab_allocator slot_size capacity h = (OTLP_OK, h1)"
    and "slot_size + OTLP_SLAB_ALIGN \<le> SIZE_MAX" "aligned slot_size * capacity \<le> SIZE_MAX"
  shows "\<exists>own. own \<inter> live (hp_mw h) = {} \<and> hooked L own live good h1 \<and> heap_live own live h1 = live (hp_mw h)
    \<and> block_realloc (otlp_malloc L) heap_free (heap_live own live) heap_mem heap_write (hooked L own live good) (heap_realloc L)"
proof -
  obtain s mw1 where c: "otlp_slab_create L slot_size capacity (hp_mw h) = (Some s, mw1)" and h1: "h1 = hook_state L s mw1"
    by (rule install_hooks [OF assms(4,3)])
  obtain own where own: "own \<inter> live (hp_mw h) = {}" "live mw1 = live (hp_mw h) \<union> own" "slab_inv own live good (s, mw1)" "slots_used s = {}"
    using slab_created [OF keeps_both [OF assms(1)] assms(2) c assms(5,6)] by blast
  have "slab_live own live (s, mw1) = live (hp_mw h)" using own(1,2,4) by (auto simp: slab_live_def)
  with own hooked_block_realloc [OF assms(1), of own] show ?thesis by (intro exI [of _ own]) (simp add: h1)
qed

section \<open>An allocator to stand on\<close>

lemma bump_alloc_fns: "af_alloc bump_fns = bump_alloc"
  by (simp add: bump_fns_def)

lemma bump_realloc_moves:
  assumes g: "bump_good s" and pm: "(p, m) \<in> bump_live s" and n: "0 < n" and r: "realloc_by bump_fns p n s = (r, s')"
  shows "bump_good s' \<and> moved p m n (bump_live s) (fst s) r (bump_live s') (fst s')"
proof -
  obtain q s1 where a: "bump_alloc n s = (q, s1)" by (rule prod.exhaust)
  show ?thesis
  proof (cases q)
    case None
    then have "r = None" "s' = s1" using r a by (simp_all add: realloc_by_def bump_fns_def bump_realloc_def)
    then show ?thesis using bump.alloc_none [OF g, unfolded bump_alloc_fns] bump.alloc_keeps [OF g, unfolded bump_alloc_fns] a None
      by (auto simp: moved_def)
  next
    case (Some q')
    then have "r = Some q'" "s' = free_by bump_fns p (write_mw (memcpy q' p n (fst s1)) s1)"
      using r a by (simp_all add: realloc_by_def bump_fns_def bump_realloc_def free_by_def write_mw_def)
    then show ?thesis using bump.move_by_copy [OF g pm, unfolded bump_alloc_fns, of n q' s1 n] a Some by simp
  qed
qed

interpretation bump_realloc: block_realloc "af_alloc bump_fns" "free_by bump_fns" bump_live fst write_mw bump_good "realloc_by bump_fns"
proof
  show "bump_good s' \<and> (\<exists>m'. n \<le> m' \<and> (q, m') \<notin> bump_live s - {(p, m)} \<and> bump_live s' = insert (q, m') (bump_live s - {(p, m)}))"
    if "bump_good s" "(p, m) \<in> bump_live s" "0 < n" "realloc_by bump_fns p n s = (Some q, s')" for s p m n q s'
    using bump_realloc_moves [OF that] by (simp add: moved_def)
  show "bump_good s' \<and> bump_live s' = bump_live s"
    if "bump_good s" "(p, m) \<in> bump_live s" "0 < n" "realloc_by bump_fns p n s = (None, s')" for s p m n s'
    using bump_realloc_moves [OF that] by (simp add: moved_def)
  show "fst s' (q + i) = fst s (p + i)"
    if "bump_good s" "(p, m) \<in> bump_live s" "0 < n" "realloc_by bump_fns p n s = (Some q, s')" "i < min n m" for s p m n q s' i
    using bump_realloc_moves [OF that(1-4)] that(5) by (simp add: moved_def)
  show "fst s' a = fst s a"
    if "bump_good s" "(p, m) \<in> bump_live s" "0 < n" "realloc_by bump_fns p n s = (r, s')" "b \<in> bump_live s" "r = None \<or> b \<noteq> (p, m)" "inside a b"
    for s p m n r s' b a
    using bump_realloc_moves [OF that(1-4)] that(5-7) unfolding moved_def by blast
qed

interpretation bump_hooked: block_realloc "otlp_malloc bump_fns" heap_free "heap_live own bump_live" heap_mem heap_write
  "hooked bump_fns own bump_live bump_good" "heap_realloc bump_fns" for own :: "block set"
  by (rule hooked_block_realloc [OF bump_realloc.block_realloc_axioms])

definition demo_heap :: "bump heap" where
  "demo_heap = \<lparr>hp_slab = None, hp_prev = bump_fns, hp_installed = False, hp_allocator = Some bump_fns, hp_mw = bump_start\<rparr>"

theorem slab_serves_library_witness:
  "\<exists>own h1. otlp_install_slab_allocator 8 2 demo_heap = (OTLP_OK, h1) \<and> heap_live own bump_live h1 = {}
     \<and> hooked bump_fns own bump_live bump_good h1"
proof -
  have h: "8 + OTLP_SLAB_ALIGN \<le> SIZE_MAX" "aligned 8 * 2 \<le> SIZE_MAX" by (simp_all add: OTLP_SLAB_ALIGN_def SIZE_MAX_def aligned_def)
  have start: "bump_good (hp_mw demo_heap)" "hp_allocator demo_heap = Some bump_fns"
    using bump_start_good by (simp_all add: demo_heap_def)
  obtain h1 where i: "otlp_install_slab_allocator 8 2 demo_heap = (OTLP_OK, h1)"
    by (simp add: otlp_install_slab_allocator_def demo_heap_def demo_slab_created)
  from slab_serves_library [OF bump_realloc.block_realloc_axioms start i h] i show ?thesis
    by (auto simp: demo_heap_def bump_live_def bump_start_def)
qed

end
