(* ===== verification/Env_Config.thy ===== *)
theory Env_Config
  imports Exporter_Create
begin

text \<open>
  Configuration from the environment (\<^verbatim>\<open>src/env_config.c\<close>): the parsers of the OpenTelemetry variables, the
  driver that applies them in order, and what the options are afterwards. The options point into the
  caller's storage, so a later write to the storage changes them: \<open>env_view\<close> reads through the pointers.
\<close>

section \<open>Options and storage\<close>

definition ENV_TEXT_MAX :: nat where "ENV_TEXT_MAX = 256"
definition ENV_PAIRS_MAX :: nat where "ENV_PAIRS_MAX = 32"
definition ENV_KEY_MAX :: nat where "ENV_KEY_MAX = 128"
definition ENV_VAL_MAX :: nat where "ENV_VAL_MAX = 256"

record env_storage =
  es_endpoint :: "signal \<Rightarrow> cstr"
  es_attrs :: "otlp_kv list"
  es_n_attrs :: nat
  es_http_headers :: "http_header list"
  es_n_http_headers :: nat

text \<open>The pointers of the options that may lead into the storage: each has one place there.\<close>

datatype env_pointer = P_endpoint signal | P_attrs | P_headers

record env_config =
  en_opts :: create_opts
  en_points :: "env_pointer \<Rightarrow> bool"
  en_storage :: env_storage

definition env_view :: "env_config \<Rightarrow> create_opts" where
  "env_view e =
     (let o1 = en_opts e; st = en_storage e;
          text = (\<lambda>s old. if en_points e (P_endpoint s) then Some (es_endpoint st s) else old)
      in o1\<lparr>o_endpoint := text SIGNAL_SPAN (o_endpoint o1),
            o_metrics_endpoint := text SIGNAL_METRIC (o_metrics_endpoint o1),
            o_logs_endpoint := text SIGNAL_LOG (o_logs_endpoint o1),
            o_resource_attributes := if en_points e P_attrs then Some (es_attrs st) else o_resource_attributes o1,
            o_http_headers := if en_points e P_headers then Some (es_http_headers st) else o_http_headers o1\<rparr>)"

definition point_at :: "env_pointer \<Rightarrow> env_config \<Rightarrow> env_config" where
  "point_at p e = e\<lparr>en_points := (en_points e)(p := True)\<rparr>"

definition put_endpoint :: "signal \<Rightarrow> cstr \<Rightarrow> env_config \<Rightarrow> env_config" where
  "put_endpoint s t e = e\<lparr>en_storage := (en_storage e)\<lparr>es_endpoint := (es_endpoint (en_storage e))(s := t)\<rparr>\<rparr>"

text \<open>An unset variable and an empty one are the same.\<close>

definition env_unset :: "cstr option \<Rightarrow> bool" where
  "env_unset value \<longleftrightarrow> value = None \<or> value = Some []"

section \<open>The parsers\<close>

fun env_path :: "signal \<Rightarrow> cstr" where
  "env_path SIGNAL_SPAN = ascii ''/v1/traces''"
| "env_path SIGNAL_METRIC = ascii ''/v1/metrics''"
| "env_path SIGNAL_LOG = ascii ''/v1/logs''"

text \<open>The offset of the first \<^verbatim>\<open>://\<close>, and the text before the path.\<close>

fun scheme_end :: "cstr \<Rightarrow> nat option" where
  "scheme_end [] = None"
| "scheme_end (c # s) = (if take 3 (c # s) = ascii ''://'' then Some 0 else map_option Suc (scheme_end s))"

definition env_base :: "cstr \<Rightarrow> cstr option" where
  "env_base value =
     (case scheme_end value of None \<Rightarrow> None
      | Some k \<Rightarrow> Some (take (k + 3) value @ takeWhile (\<lambda>c. c \<noteq> 0x2F) (drop (k + 3) value)))"

fun apply_base :: "cstr \<Rightarrow> signal list \<Rightarrow> env_config \<Rightarrow> status \<times> env_config" where
  "apply_base base [] e = (OTLP_OK, e)"
| "apply_base base (s # ss) e =
     (if length base + length (env_path s) + 1 > ENV_TEXT_MAX then (OTLP_ERR_OVERFLOW, e)
      else let e1 = put_endpoint s (base @ env_path s) e in
        if fst (otlp_http_parse_url (Some (base @ env_path s)) url_zero) \<noteq> OTLP_OK then (OTLP_ERR_INVALID_ARGUMENT, e1)
        else apply_base base ss (point_at (P_endpoint s) e1))"

definition otlp_env_apply_endpoint :: "cstr option \<Rightarrow> env_config \<Rightarrow> status \<times> env_config" where
  "otlp_env_apply_endpoint value e =
     (if env_unset value then (OTLP_OK, e)
      else (case env_base (the value) of
          None \<Rightarrow> (OTLP_ERR_INVALID_ARGUMENT, e)
        | Some base \<Rightarrow> apply_base base [SIGNAL_SPAN, SIGNAL_METRIC, SIGNAL_LOG] e))"

definition otlp_env_apply_signal_endpoint :: "signal \<Rightarrow> cstr option \<Rightarrow> env_config \<Rightarrow> status \<times> env_config" where
  "otlp_env_apply_signal_endpoint s value e =
     (if env_unset value then (OTLP_OK, e)
      else if fst (otlp_http_parse_url value url_zero) \<noteq> OTLP_OK then (OTLP_ERR_INVALID_ARGUMENT, e)
      else if length (the value) + 1 > ENV_TEXT_MAX then (OTLP_ERR_OVERFLOW, e)
      else (OTLP_OK, point_at (P_endpoint s) (put_endpoint s (the value) e)))"

definition otlp_env_apply_traces_endpoint :: "cstr option \<Rightarrow> env_config \<Rightarrow> status \<times> env_config" where
  "otlp_env_apply_traces_endpoint = otlp_env_apply_signal_endpoint SIGNAL_SPAN"

text \<open>At most ten digits.\<close>

fun timeout_digits :: "cstr \<Rightarrow> nat \<Rightarrow> u64 \<Rightarrow> (nat \<times> u64) option" where
  "timeout_digits [] digits ms = Some (digits, ms)"
| "timeout_digits (c # s) digits ms =
     (if c < 0x30 \<or> c > 0x39 \<or> digits \<ge> 10 then None
      else timeout_digits s (digits + 1) (ms * 10 + (ucast c - 0x30)))"

definition otlp_env_apply_timeout :: "cstr option \<Rightarrow> env_config \<Rightarrow> status \<times> env_config" where
  "otlp_env_apply_timeout value e =
     (if env_unset value then (OTLP_OK, e)
      else (case timeout_digits (the value) 0 0 of
          None \<Rightarrow> (OTLP_ERR_INVALID_ARGUMENT, e)
        | Some (digits, ms) \<Rightarrow>
            if digits = 0 \<or> ms = 0 \<or> ms > 0xFFFFFFFF then (OTLP_ERR_INVALID_ARGUMENT, e)
            else (OTLP_OK, e\<lparr>en_opts := (en_opts e)\<lparr>o_connect_timeout_ms := ucast ms, o_read_timeout_ms := ucast ms\<rparr>\<rparr>)))"

definition otlp_env_apply_protocol :: "cstr option \<Rightarrow> env_config \<Rightarrow> status \<times> env_config" where
  "otlp_env_apply_protocol value e =
     (if env_unset value then (OTLP_OK, e)
      else if the value \<noteq> ascii ''http/protobuf'' then (OTLP_ERR_INVALID_ARGUMENT, e)
      else (OTLP_OK, e))"

definition otlp_env_apply_service_name :: "cstr option \<Rightarrow> env_config \<Rightarrow> status \<times> env_config" where
  "otlp_env_apply_service_name value e =
     (if env_unset value then (OTLP_OK, e) else (OTLP_OK, e\<lparr>en_opts := (en_opts e)\<lparr>o_service_name := value\<rparr>\<rparr>))"

section \<open>Lists of pairs\<close>

type_synonym env_pair = "cstr \<times> cstr"

text \<open>The walk over \<^verbatim>\<open>k=v,k=v\<close>: the callback sees each segment with an equals sign that is not its first byte.\<close>

function kv_foreach :: "(env_pair \<Rightarrow> 'c \<Rightarrow> status \<times> 'c) \<Rightarrow> cstr \<Rightarrow> 'c \<Rightarrow> status \<times> 'c" where
  "kv_foreach cb seg ctx =
     (if seg = [] then (OTLP_OK, ctx)
      else
        let s = takeWhile (\<lambda>c. c \<noteq> 0x2C) seg;
            rest = drop (length s + 1) seg;
            key = takeWhile (\<lambda>c. c \<noteq> 0x3D) s
        in if key \<noteq> s \<and> key \<noteq> [] then
             (case cb (key, drop (length key + 1) s) ctx of (st, ctx1) \<Rightarrow>
               if st \<noteq> OTLP_OK then (st, ctx1) else kv_foreach cb rest ctx1)
           else kv_foreach cb rest ctx)"
  by pat_completeness auto
termination by (relation "measure (\<lambda>(_, seg, _). length seg)") simp_all

declare kv_foreach.simps [simp del]

definition attrs_one :: "env_pair \<Rightarrow> env_storage \<Rightarrow> status \<times> env_storage" where
  "attrs_one pair st =
     (let i = es_n_attrs st in
      if i \<ge> ENV_PAIRS_MAX then (OTLP_ERR_OVERFLOW, st)
      else if length (fst pair) \<ge> ENV_KEY_MAX \<or> length (snd pair) \<ge> ENV_VAL_MAX then (OTLP_ERR_OVERFLOW, st)
      else (OTLP_OK, st\<lparr>es_attrs := (es_attrs st)[i := (Some (fst pair), OV_String (Some (snd pair)))], es_n_attrs := i + 1\<rparr>))"

definition otlp_env_apply_resource_attrs :: "cstr option \<Rightarrow> env_config \<Rightarrow> status \<times> env_config" where
  "otlp_env_apply_resource_attrs value e =
     (if env_unset value then (OTLP_OK, e)
      else (case kv_foreach attrs_one (the value) ((en_storage e)\<lparr>es_n_attrs := 0\<rparr>) of (st, storage) \<Rightarrow>
        if st \<noteq> OTLP_OK then (st, e\<lparr>en_storage := storage\<rparr>)
        else (OTLP_OK, point_at P_attrs (e\<lparr>en_storage := storage,
          en_opts := (en_opts e)\<lparr>o_n_resource_attributes := es_n_attrs storage\<rparr>\<rparr>))))"

definition headers_one :: "env_pair \<Rightarrow> env_storage \<Rightarrow> status \<times> env_storage" where
  "headers_one pair st =
     (let i = es_n_http_headers st in
      if i \<ge> ENV_PAIRS_MAX then (OTLP_ERR_OVERFLOW, st)
      else if length (fst pair) \<ge> ENV_KEY_MAX \<or> length (snd pair) \<ge> ENV_VAL_MAX then (OTLP_ERR_OVERFLOW, st)
      else (OTLP_OK, st\<lparr>es_http_headers := (es_http_headers st)[i := (Some (fst pair), Some (snd pair))], es_n_http_headers := i + 1\<rparr>))"

definition otlp_env_apply_otlp_headers :: "cstr option \<Rightarrow> env_config \<Rightarrow> status \<times> env_config" where
  "otlp_env_apply_otlp_headers value e =
     (if env_unset value then (OTLP_OK, e)
      else (case kv_foreach headers_one (the value) ((en_storage e)\<lparr>es_n_http_headers := 0\<rparr>) of (st, storage) \<Rightarrow>
        if st \<noteq> OTLP_OK then (st, e\<lparr>en_storage := storage\<rparr>)
        else (OTLP_OK, point_at P_headers (e\<lparr>en_storage := storage,
          en_opts := (en_opts e)\<lparr>o_n_http_headers := es_n_http_headers storage\<rparr>\<rparr>))))"

section \<open>The driver\<close>

fun run_until_error :: "('e \<Rightarrow> status \<times> 'e) list \<Rightarrow> 'e \<Rightarrow> status \<times> 'e" where
  "run_until_error [] e = (OTLP_OK, e)"
| "run_until_error (f # fs) e = (case f e of (st, e1) \<Rightarrow> if st \<noteq> OTLP_OK then (st, e1) else run_until_error fs e1)"

text \<open>Options and storage are one argument, absent when either pointer is NULL; \<open>getenv\<close> is the environment.\<close>

definition otlp_exporter_opts_apply_env :: "(string \<Rightarrow> cstr option) \<Rightarrow> env_config option \<Rightarrow> status \<times> env_config option" where
  "otlp_exporter_opts_apply_env getenv e_ptr =
     (case e_ptr of
        None \<Rightarrow> (OTLP_ERR_NULL, None)
      | Some e \<Rightarrow> map_prod id Some (run_until_error
          [otlp_env_apply_protocol (getenv ''OTEL_EXPORTER_OTLP_PROTOCOL''),
           otlp_env_apply_service_name (getenv ''OTEL_SERVICE_NAME''),
           otlp_env_apply_protocol (getenv ''OTEL_EXPORTER_OTLP_PROTOCOL''),
           otlp_env_apply_endpoint (getenv ''OTEL_EXPORTER_OTLP_ENDPOINT''),
           otlp_env_apply_traces_endpoint (getenv ''OTEL_EXPORTER_OTLP_TRACES_ENDPOINT''),
           otlp_env_apply_signal_endpoint SIGNAL_METRIC (getenv ''OTEL_EXPORTER_OTLP_METRICS_ENDPOINT''),
           otlp_env_apply_signal_endpoint SIGNAL_LOG (getenv ''OTEL_EXPORTER_OTLP_LOGS_ENDPOINT''),
           otlp_env_apply_timeout (getenv ''OTEL_EXPORTER_OTLP_TIMEOUT''),
           otlp_env_apply_resource_attrs (getenv ''OTEL_RESOURCE_ATTRIBUTES''),
           otlp_env_apply_otlp_headers (getenv ''OTEL_EXPORTER_OTLP_HEADERS'')] e))"

end
