(* ===== verification/Env_Props.thy ===== *)
theory Env_Props
  imports Env_Config
begin

text \<open>
  What the environment does to the options: the pairs of a list by a grammar of its own, and the driver as
  one update of the options that creation reads.
\<close>

section \<open>Lists of pairs\<close>

fun split_on :: "u8 \<Rightarrow> cstr \<Rightarrow> cstr list" where
  "split_on d [] = [[]]"
| "split_on d (c # s) = (if c = d then [] # split_on d s else (c # hd (split_on d s)) # tl (split_on d s))"

text \<open>A segment is a pair when it has an equals sign after a key that is not empty.\<close>

definition pair_of :: "cstr \<Rightarrow> env_pair option" where
  "pair_of seg =
     (case split_on 0x3D seg of
        key # _ # _ \<Rightarrow> if key = [] then None else Some (key, drop (length key + 1) seg)
      | _ \<Rightarrow> None)"

definition env_pairs :: "cstr \<Rightarrow> env_pair list" where
  "env_pairs text = List.map_filter pair_of (split_on 0x2C text)"

fun run_pairs :: "(env_pair \<Rightarrow> 'c \<Rightarrow> status \<times> 'c) \<Rightarrow> env_pair list \<Rightarrow> 'c \<Rightarrow> status \<times> 'c" where
  "run_pairs cb [] ctx = (OTLP_OK, ctx)"
| "run_pairs cb (p # ps) ctx = (case cb p ctx of (st, ctx1) \<Rightarrow> if st \<noteq> OTLP_OK then (st, ctx1) else run_pairs cb ps ctx1)"

lemma split_on_first:
  "split_on d s = takeWhile (\<lambda>c. c \<noteq> d) s # (if d \<in> set s then split_on d (drop (length (takeWhile (\<lambda>c. c \<noteq> d) s) + 1) s) else [])"
  by (induction s) auto

lemma takeWhile_neq_iff: "takeWhile (\<lambda>c. c \<noteq> d) s \<noteq> s \<longleftrightarrow> d \<in> set s"
  by (metis (mono_tags, lifting) set_takeWhileD takeWhile_eq_all_conv)

lemma pair_of_alt:
  "pair_of s = (let key = takeWhile (\<lambda>c. c \<noteq> 0x3D) s in
     if key \<noteq> s \<and> key \<noteq> [] then Some (key, drop (length key + 1) s) else None)"
proof (cases "0x3D \<in> set s")
  case True
  then have "split_on 0x3D s = takeWhile (\<lambda>c. c \<noteq> 0x3D) s # split_on 0x3D (drop (length (takeWhile (\<lambda>c. c \<noteq> 0x3D) s) + 1) s)"
    by (subst split_on_first) simp
  moreover obtain y ys where "split_on 0x3D (drop (length (takeWhile (\<lambda>c. c \<noteq> 0x3D) s) + 1) s) = y # ys"
    by (subst (asm) split_on_first) simp
  ultimately show ?thesis using True by (simp add: pair_of_def Let_def takeWhile_neq_iff)
next
  case False
  then have "split_on 0x3D s = [takeWhile (\<lambda>c. c \<noteq> 0x3D) s]" by (subst split_on_first) simp
  with False show ?thesis by (simp add: pair_of_def Let_def takeWhile_neq_iff)
qed

lemma env_pairs_Nil [simp]: "env_pairs [] = []"
  by (simp add: env_pairs_def pair_of_def map_filter_simps)

lemma env_pairs_first:
  "env_pairs seg = (let s = takeWhile (\<lambda>c. c \<noteq> 0x2C) seg; rest = drop (length s + 1) seg in
     (case pair_of s of None \<Rightarrow> env_pairs rest | Some p \<Rightarrow> p # env_pairs rest))"
proof (cases "0x2C \<in> set seg")
  case True
  then show ?thesis unfolding env_pairs_def by (subst split_on_first) (simp add: map_filter_simps Let_def split: option.split)
next
  case False
  then have tw: "takeWhile (\<lambda>c. c \<noteq> 0x2C) seg = seg" by (metis takeWhile_neq_iff)
  have "split_on 0x2C seg = [seg]" by (subst split_on_first) (simp only: tw False if_False)
  then have "env_pairs seg = (case pair_of seg of None \<Rightarrow> [] | Some p \<Rightarrow> [p])"
    by (simp add: env_pairs_def map_filter_simps split: option.split)
  then show ?thesis by (simp add: Let_def tw split: option.split)
qed

lemma kv_foreach_pairs: "kv_foreach cb seg ctx = run_pairs cb (env_pairs seg) ctx"
proof (induction cb seg ctx rule: kv_foreach.induct)
  case (1 cb seg ctx)
  show ?case
  proof (cases "seg = []")
    case True
    then show ?thesis by (simp add: kv_foreach.simps)
  next
    case False
    note IH = 1 [OF False refl refl refl]
    show ?thesis
      unfolding kv_foreach.simps [of cb seg ctx] env_pairs_first [of seg] pair_of_alt
      using False IH by (auto simp: Let_def split: prod.splits)
  qed
qed

text \<open>The array a callback fills: it stops at the first pair that does not fit.\<close>

definition pair_fits :: "env_pair \<Rightarrow> bool" where
  "pair_fits p \<longleftrightarrow> length (fst p) < ENV_KEY_MAX \<and> length (snd p) < ENV_VAL_MAX"

locale pair_store =
  fixes one :: "env_pair \<Rightarrow> 's \<Rightarrow> status \<times> 's" and count :: "'s \<Rightarrow> nat" and arr :: "'s \<Rightarrow> 'b list"
    and entry :: "env_pair \<Rightarrow> 'b" and upd :: "'b list \<Rightarrow> nat \<Rightarrow> 's \<Rightarrow> 's"
  assumes one_step: "one p s =
      (if count s < ENV_PAIRS_MAX \<and> pair_fits p then (OTLP_OK, upd ((arr s)[count s := entry p]) (count s + 1) s)
       else (OTLP_ERR_OVERFLOW, s))"
    and count_upd: "count (upd xs n s) = n" and arr_upd: "arr (upd xs n s) = xs"
    and upd_upd: "upd xs n (upd ys m s) = upd xs n s" and upd_same: "upd (arr s) (count s) s = s"
begin

lemma run_pairs_store:
  assumes "length (arr s) = ENV_PAIRS_MAX" "count s \<le> ENV_PAIRS_MAX"
  shows "\<exists>st xs n. run_pairs one ps s = (st, upd xs n s) \<and> length xs = ENV_PAIRS_MAX
    \<and> (st = OTLP_OK \<and> list_all pair_fits ps \<and> n = count s + length ps \<and> n \<le> ENV_PAIRS_MAX
        \<and> take n xs = take (count s) (arr s) @ map entry ps
      \<or> st = OTLP_ERR_OVERFLOW \<and> \<not> (list_all pair_fits ps \<and> count s + length ps \<le> ENV_PAIRS_MAX))"
  using assms
proof (induction ps arbitrary: s)
  case Nil
  then show ?case by (intro exI [of _ OTLP_OK] exI [of _ "arr s"] exI [of _ "count s"]) (simp add: upd_same)
next
  case (Cons p ps)
  show ?case
  proof (cases "count s < ENV_PAIRS_MAX \<and> pair_fits p")
    case True
    define s1 where "s1 = upd ((arr s)[count s := entry p]) (count s + 1) s"
    have s1: "length (arr s1) = ENV_PAIRS_MAX" "count s1 \<le> ENV_PAIRS_MAX" "count s1 = count s + 1"
      "take (count s1) (arr s1) = take (count s) (arr s) @ [entry p]"
      using True Cons.prems by (simp_all add: s1_def count_upd arr_upd take_Suc_conv_app_nth)
    obtain st xs n where r: "run_pairs one ps s1 = (st, upd xs n s1)" "length xs = ENV_PAIRS_MAX"
      and c: "st = OTLP_OK \<and> list_all pair_fits ps \<and> n = count s1 + length ps \<and> n \<le> ENV_PAIRS_MAX
            \<and> take n xs = take (count s1) (arr s1) @ map entry ps
          \<or> st = OTLP_ERR_OVERFLOW \<and> \<not> (list_all pair_fits ps \<and> count s1 + length ps \<le> ENV_PAIRS_MAX)"
      using Cons.IH [OF s1(1,2)] by blast
    have "run_pairs one (p # ps) s = (st, upd xs n s)" using True r(1) by (simp add: one_step s1_def upd_upd)
    then show ?thesis using r(2) c True s1(3,4)
      by (intro exI [of _ st] exI [of _ xs] exI [of _ n]) auto
  next
    case False
    then have "one p s = (OTLP_ERR_OVERFLOW, s)" unfolding one_step by (rule if_not_P)
    then have "run_pairs one (p # ps) s = (OTLP_ERR_OVERFLOW, upd (arr s) (count s) s)" by (simp add: upd_same)
    then show ?thesis using False Cons.prems
      by (intro exI [of _ OTLP_ERR_OVERFLOW] exI [of _ "arr s"] exI [of _ "count s"]) auto
  qed
qed

end

interpretation attrs: pair_store attrs_one es_n_attrs es_attrs "\<lambda>p. (Some (fst p), OV_String (Some (snd p)))"
  "\<lambda>xs n st. st\<lparr>es_attrs := xs, es_n_attrs := n\<rparr>"
  by unfold_locales (auto simp: attrs_one_def pair_fits_def Let_def)

interpretation headers: pair_store headers_one es_n_http_headers es_http_headers "\<lambda>p. (Some (fst p), Some (snd p))"
  "\<lambda>xs n st. st\<lparr>es_http_headers := xs, es_n_http_headers := n\<rparr>"
  by unfold_locales (auto simp: headers_one_def pair_fits_def Let_def)

section \<open>The driver\<close>

text \<open>The options creation reads: through the pointers, and no further into an array than its count.\<close>

definition used_opts :: "env_config \<Rightarrow> create_opts" where
  "used_opts e =
     (let o1 = env_view e in
      o1\<lparr>o_resource_attributes := map_option (take (o_n_resource_attributes o1)) (o_resource_attributes o1),
         o_http_headers := map_option (take (o_n_http_headers o1)) (o_http_headers o1)\<rparr>)"

definition storage_ok :: "env_config \<Rightarrow> bool" where
  "storage_ok e \<longleftrightarrow> length (es_attrs (en_storage e)) = ENV_PAIRS_MAX \<and> length (es_http_headers (en_storage e)) = ENV_PAIRS_MAX"

text \<open>One step of the driver: when it succeeds, and the update it then is.\<close>

definition env_step :: "(env_config \<Rightarrow> status \<times> env_config) \<Rightarrow> bool \<Rightarrow> (create_opts \<Rightarrow> create_opts) \<Rightarrow> bool" where
  "env_step f acceptable update \<longleftrightarrow> (\<forall>e. storage_ok e \<longrightarrow>
     (case f e of (st, e') \<Rightarrow> storage_ok e' \<and> (st = OTLP_OK \<longleftrightarrow> acceptable) \<and> (st = OTLP_OK \<longrightarrow> used_opts e' = update (used_opts e))
        \<and> st \<in> {OTLP_OK, OTLP_ERR_INVALID_ARGUMENT, OTLP_ERR_OVERFLOW}))"

lemma env_stepI:
  assumes "\<And>e st e'. storage_ok e \<Longrightarrow> f e = (st, e') \<Longrightarrow> storage_ok e' \<and> (st = OTLP_OK \<longleftrightarrow> acceptable)
    \<and> (st = OTLP_OK \<longrightarrow> used_opts e' = update (used_opts e)) \<and> st \<in> {OTLP_OK, OTLP_ERR_INVALID_ARGUMENT, OTLP_ERR_OVERFLOW}"
  shows "env_step f acceptable update"
  unfolding env_step_def using assms by (auto split: prod.split)

named_theorems env_steps \<open>the steps of the driver, one for each variable\<close>

lemma env_step_Nil: "env_step (run_until_error []) True id"
  by (simp add: env_step_def)

lemma env_step_Cons:
  assumes f: "env_step f a u" and fs: "env_step (run_until_error fs) as us"
  shows "env_step (run_until_error (f # fs)) (a \<and> as) (us \<circ> u)"
proof (rule env_stepI)
  fix e st e' assume e: "storage_ok e" and run: "run_until_error (f # fs) e = (st, e')"
  obtain st1 e1 where 1: "f e = (st1, e1)" by (cases "f e")
  from f e 1 have s1: "storage_ok e1" "st1 = OTLP_OK \<longleftrightarrow> a" "st1 = OTLP_OK \<longrightarrow> used_opts e1 = u (used_opts e)"
    "st1 \<in> {OTLP_OK, OTLP_ERR_INVALID_ARGUMENT, OTLP_ERR_OVERFLOW}" unfolding env_step_def by force+
  obtain st2 e2 where 2: "run_until_error fs e1 = (st2, e2)" by (cases "run_until_error fs e1")
  from fs s1(1) 2 have s2: "storage_ok e2" "st2 = OTLP_OK \<longleftrightarrow> as" "st2 = OTLP_OK \<longrightarrow> used_opts e2 = us (used_opts e1)"
    "st2 \<in> {OTLP_OK, OTLP_ERR_INVALID_ARGUMENT, OTLP_ERR_OVERFLOW}" unfolding env_step_def by force+
  show "storage_ok e' \<and> (st = OTLP_OK \<longleftrightarrow> a \<and> as) \<and> (st = OTLP_OK \<longrightarrow> used_opts e' = (us \<circ> u) (used_opts e))
      \<and> st \<in> {OTLP_OK, OTLP_ERR_INVALID_ARGUMENT, OTLP_ERR_OVERFLOW}"
  proof (cases "st1 = OTLP_OK")
    case True then show ?thesis using run 1 2 s1 s2 by simp
  next
    case False then show ?thesis using run 1 s1 by auto
  qed
qed

text \<open>A step that does nothing when its variable is unset.\<close>

lemma env_step_var:
  assumes "env_unset var \<Longrightarrow> \<forall>e. f e = (OTLP_OK, e)" "\<And>v. var = Some v \<Longrightarrow> v \<noteq> [] \<Longrightarrow> env_step f (a v) (u v)"
  shows "env_step f (env_unset var \<or> a (the var)) (if env_unset var then id else u (the var))"
proof (cases "env_unset var")
  case True then show ?thesis using assms(1) by (simp add: env_step_def)
next
  case False
  then obtain v where "var = Some v" "v \<noteq> []" by (cases var) (auto simp: env_unset_def)
  then show ?thesis using assms(2) [of v] False by simp
qed

lemma used_simple:
  "used_opts (e\<lparr>en_opts := (en_opts e)\<lparr>o_service_name := s\<rparr>\<rparr>) = (used_opts e)\<lparr>o_service_name := s\<rparr>"
  "used_opts (e\<lparr>en_opts := (en_opts e)\<lparr>o_connect_timeout_ms := c, o_read_timeout_ms := r\<rparr>\<rparr>) =
     (used_opts e)\<lparr>o_connect_timeout_ms := c, o_read_timeout_ms := r\<rparr>"
  by (cases "en_opts e"; simp add: used_opts_def env_view_def Let_def)+

fun set_endpoint :: "signal \<Rightarrow> cstr \<Rightarrow> create_opts \<Rightarrow> create_opts" where
  "set_endpoint SIGNAL_SPAN t o1 = o1\<lparr>o_endpoint := Some t\<rparr>"
| "set_endpoint SIGNAL_METRIC t o1 = o1\<lparr>o_metrics_endpoint := Some t\<rparr>"
| "set_endpoint SIGNAL_LOG t o1 = o1\<lparr>o_logs_endpoint := Some t\<rparr>"

lemma used_endpoint:
  "used_opts (point_at (P_endpoint s) (put_endpoint s t e)) = set_endpoint s t (used_opts e)"
  by (cases s; cases "en_opts e"; simp add: used_opts_def env_view_def Let_def point_at_def put_endpoint_def)

lemma storage_ok_simps [simp]:
  "storage_ok (point_at p e) = storage_ok e" "storage_ok (put_endpoint s t e) = storage_ok e"
  "storage_ok (e\<lparr>en_opts := o1\<rparr>) = storage_ok e"
  by (simp_all add: storage_ok_def point_at_def put_endpoint_def)

lemma protocol_step [env_steps]:
  "env_step (otlp_env_apply_protocol var) (env_unset var \<or> the var = ascii ''http/protobuf'') (if env_unset var then id else id)"
  by (rule env_step_var) (auto simp: otlp_env_apply_protocol_def env_step_def env_unset_def)

lemma service_step [env_steps]:
  "env_step (otlp_env_apply_service_name var) (env_unset var \<or> True)
     (if env_unset var then id else (\<lambda>o1. o1\<lparr>o_service_name := Some (the var)\<rparr>))"
  by (rule env_step_var) (auto simp: otlp_env_apply_service_name_def env_step_def env_unset_def used_simple)

definition url_accepted :: "cstr \<Rightarrow> bool" where
  "url_accepted t \<longleftrightarrow> fst (otlp_http_parse_url (Some t) url_zero) = OTLP_OK \<and> length t + 1 \<le> ENV_TEXT_MAX"

lemma signal_endpoint_step [env_steps]:
  "env_step (otlp_env_apply_signal_endpoint s var) (env_unset var \<or> url_accepted (the var)) (if env_unset var then id else set_endpoint s (the var))"
  by (rule env_step_var) (auto simp: otlp_env_apply_signal_endpoint_def env_step_def env_unset_def used_endpoint url_accepted_def)

text \<open>The timeout, read as a decimal number that never wraps.\<close>

definition timeout_ok :: "cstr \<Rightarrow> bool" where
  "timeout_ok v \<longleftrightarrow> list_all is_digit v \<and> length v \<le> 10 \<and> 1 \<le> decimal_value v 0 \<and> decimal_value v 0 < 2 ^ 32"

lemma timeout_digits_value:
  "digits \<le> 10 \<Longrightarrow> v < 10 ^ digits \<Longrightarrow> timeout_digits s digits (word_of_nat v) =
     (if list_all is_digit s \<and> digits + length s \<le> 10 then Some (digits + length s, word_of_nat (decimal_value s v)) else None)"
proof (induction s arbitrary: digits v)
  case (Cons c s)
  show ?case
  proof (cases "is_digit c \<and> digits < 10")
    case True
    then have c: "digit_value c \<le> 9" "\<not> (c < 0x30 \<or> c > 0x39 \<or> digits \<ge> 10)"
      by (auto simp: is_digit_def digit_value_def word_le_nat_alt not_less)
    have "(word_of_nat v :: u64) * 10 + (ucast c - 0x30) = word_of_nat (v * 10 + digit_value c)"
      using True by (simp add: digit_value_def is_digit_def word_le_nat_alt of_nat_diff)
    moreover have "v * 10 + digit_value c < 10 ^ (digits + 1)" using Cons.prems(2) c(1) by simp
    ultimately show ?thesis
      using Cons.IH [of "digits + 1" "v * 10 + digit_value c"] True c(2) by (simp add: digit_value_sub)
  next
    case False
    then have "c < 0x30 \<or> c > 0x39 \<or> digits \<ge> 10" by (auto simp: is_digit_def not_le)
    then show ?thesis using False by auto
  qed
qed simp

lemma decimal_value_bound: "list_all is_digit s \<Longrightarrow> v < 10 ^ d \<Longrightarrow> decimal_value s v < 10 ^ (d + length s)"
proof (induction s arbitrary: v d)
  case (Cons c s)
  then have "digit_value c \<le> 9" by (auto simp: is_digit_def digit_value_def word_le_nat_alt)
  with Cons.prems(2) have "v * 10 + digit_value c < 10 ^ (d + 1)" by simp
  with Cons.IH [of "v * 10 + digit_value c" "d + 1"] Cons.prems(1) show ?case by (simp add: digit_value_sub)
qed simp

lemma apply_timeout_value:
  assumes "v \<noteq> []"
  shows "otlp_env_apply_timeout (Some v) e =
    (if timeout_ok v
     then (OTLP_OK, e\<lparr>en_opts := (en_opts e)\<lparr>o_connect_timeout_ms := word_of_nat (decimal_value v 0),
                                        o_read_timeout_ms := word_of_nat (decimal_value v 0)\<rparr>\<rparr>)
     else (OTLP_ERR_INVALID_ARGUMENT, e))"
proof (cases "list_all is_digit v \<and> length v \<le> 10")
  case True
  define n where "n = decimal_value v 0"
  have "n < 10 ^ length v" using decimal_value_bound [of v 0 0] True by (simp add: n_def)
  also have "\<dots> \<le> 10 ^ 10" using True by (intro power_increasing) simp_all
  finally have n: "n < 2 ^ 64" by simp
  then have u: "unat (word_of_nat n :: u64) = n" by (simp add: unat_of_nat_u64)
  have dig: "timeout_digits v 0 0 = Some (length v, word_of_nat n)"
    using timeout_digits_value [of 0 0 v] True by (simp add: n_def)
  have cmp: "((word_of_nat n :: u64) = 0) = (n = 0)" "((word_of_nat n :: u64) > 0xFFFFFFFF) = (n \<ge> 2 ^ 32)"
    using u by (simp add: unat_eq_zero [symmetric], simp add: word_less_nat_alt, linarith)
  have uc: "(ucast (word_of_nat n :: u64) :: u32) = word_of_nat n"
    by (rule of_nat_unat [of "word_of_nat n :: u64", unfolded u, symmetric])
  show ?thesis using assms True cmp
    unfolding otlp_env_apply_timeout_def option.sel dig option.case prod.case uc timeout_ok_def n_def [symmetric]
    by (auto simp: env_unset_def)
next
  case False
  then have "timeout_digits v 0 0 = None" using timeout_digits_value [of 0 0 v] by auto
  then show ?thesis using assms False by (auto simp: otlp_env_apply_timeout_def env_unset_def timeout_ok_def)
qed

lemma timeout_step [env_steps]:
  "env_step (otlp_env_apply_timeout var) (env_unset var \<or> timeout_ok (the var))
     (if env_unset var then id
      else (\<lambda>o1. o1\<lparr>o_connect_timeout_ms := word_of_nat (decimal_value (the var) 0),
                    o_read_timeout_ms := word_of_nat (decimal_value (the var) 0)\<rparr>))"
proof (rule env_step_var)
  fix v assume "var = Some v" "v \<noteq> []"
  then show "env_step (otlp_env_apply_timeout var) (timeout_ok v)
      (\<lambda>o1. o1\<lparr>o_connect_timeout_ms := word_of_nat (decimal_value v 0), o_read_timeout_ms := word_of_nat (decimal_value v 0)\<rparr>)"
    by (simp add: env_step_def apply_timeout_value used_simple)
qed (simp add: otlp_env_apply_timeout_def)

text \<open>The base endpoint and the two lists.\<close>

definition base_accepted :: "cstr \<Rightarrow> bool" where
  "base_accepted v \<longleftrightarrow> (case env_base v of None \<Rightarrow> False
     | Some b \<Rightarrow> url_accepted (b @ ascii ''/v1/traces'') \<and> url_accepted (b @ ascii ''/v1/metrics'') \<and> url_accepted (b @ ascii ''/v1/logs''))"

definition set_base :: "cstr \<Rightarrow> create_opts \<Rightarrow> create_opts" where
  "set_base v o1 = (let b = the (env_base v) in
     o1\<lparr>o_endpoint := Some (b @ ascii ''/v1/traces''), o_metrics_endpoint := Some (b @ ascii ''/v1/metrics''),
        o_logs_endpoint := Some (b @ ascii ''/v1/logs'')\<rparr>)"

lemma apply_base_signals:
  assumes "apply_base b ss e = (st, e')" "storage_ok e"
  shows "storage_ok e' \<and> (st = OTLP_OK \<longleftrightarrow> list_all (\<lambda>s. url_accepted (b @ env_path s)) ss)
    \<and> (st = OTLP_OK \<longrightarrow> used_opts e' = fold (\<lambda>s. set_endpoint s (b @ env_path s)) ss (used_opts e))
    \<and> st \<in> {OTLP_OK, OTLP_ERR_INVALID_ARGUMENT, OTLP_ERR_OVERFLOW}"
  using assms
proof (induction ss arbitrary: e)
  case (Cons s ss)
  show ?case
  proof (cases "url_accepted (b @ env_path s)")
    case True
    then have "apply_base b (s # ss) e = apply_base b ss (point_at (P_endpoint s) (put_endpoint s (b @ env_path s) e))"
      by (simp add: url_accepted_def Let_def)
    with Cons.prems Cons.IH [of "point_at (P_endpoint s) (put_endpoint s (b @ env_path s) e)"] True
    show ?thesis by (auto simp: used_endpoint simp del: apply_base.simps)
  next
    case False
    then show ?thesis using Cons.prems by (auto simp: url_accepted_def Let_def split: if_splits)
  qed
qed simp

lemma endpoint_step [env_steps]:
  "env_step (otlp_env_apply_endpoint var) (env_unset var \<or> base_accepted (the var)) (if env_unset var then id else set_base (the var))"
proof (rule env_step_var)
  fix v assume v: "var = Some v" "v \<noteq> []"
  show "env_step (otlp_env_apply_endpoint var) (base_accepted v) (set_base v)"
  proof (rule env_stepI)
    fix e st e' assume e: "storage_ok e" and f: "otlp_env_apply_endpoint var e = (st, e')"
    show "storage_ok e' \<and> (st = OTLP_OK \<longleftrightarrow> base_accepted v) \<and> (st = OTLP_OK \<longrightarrow> used_opts e' = set_base v (used_opts e))
      \<and> st \<in> {OTLP_OK, OTLP_ERR_INVALID_ARGUMENT, OTLP_ERR_OVERFLOW}"
    proof (cases "env_base v")
      case None
      then show ?thesis using e f v by (simp add: otlp_env_apply_endpoint_def env_unset_def base_accepted_def)
    next
      case (Some b)
      then have "apply_base b [SIGNAL_SPAN, SIGNAL_METRIC, SIGNAL_LOG] e = (st, e')"
        using f v by (simp add: otlp_env_apply_endpoint_def env_unset_def)
      from apply_base_signals [OF this e] Some show ?thesis by (auto simp: base_accepted_def set_base_def)
    qed
  qed
qed (simp add: otlp_env_apply_endpoint_def)

definition pairs_accepted :: "cstr \<Rightarrow> bool" where
  "pairs_accepted v \<longleftrightarrow> list_all pair_fits (env_pairs v) \<and> length (env_pairs v) \<le> ENV_PAIRS_MAX"

definition set_attrs :: "cstr \<Rightarrow> create_opts \<Rightarrow> create_opts" where
  "set_attrs v o1 = o1\<lparr>o_resource_attributes := Some (map (\<lambda>p. (Some (fst p), OV_String (Some (snd p)))) (env_pairs v)),
     o_n_resource_attributes := length (env_pairs v)\<rparr>"

definition set_headers :: "cstr \<Rightarrow> create_opts \<Rightarrow> create_opts" where
  "set_headers v o1 = o1\<lparr>o_http_headers := Some (map (\<lambda>p. (Some (fst p), Some (snd p))) (env_pairs v)),
     o_n_http_headers := length (env_pairs v)\<rparr>"

lemma used_attrs:
  "take n xs = ys \<Longrightarrow> used_opts (point_at P_attrs (e\<lparr>en_storage := (en_storage e)\<lparr>es_attrs := xs, es_n_attrs := n\<rparr>,
      en_opts := (en_opts e)\<lparr>o_n_resource_attributes := n\<rparr>\<rparr>)) =
    (used_opts e)\<lparr>o_resource_attributes := Some ys, o_n_resource_attributes := n\<rparr>"
  by (cases "en_opts e") (simp add: used_opts_def env_view_def Let_def point_at_def)

lemma used_headers:
  "take n xs = ys \<Longrightarrow> used_opts (point_at P_headers (e\<lparr>en_storage := (en_storage e)\<lparr>es_http_headers := xs, es_n_http_headers := n\<rparr>,
      en_opts := (en_opts e)\<lparr>o_n_http_headers := n\<rparr>\<rparr>)) =
    (used_opts e)\<lparr>o_http_headers := Some ys, o_n_http_headers := n\<rparr>"
  by (cases "en_opts e") (simp add: used_opts_def env_view_def Let_def point_at_def)

lemma attrs_result:
  assumes "storage_ok e" "v \<noteq> []"
  shows "\<exists>e'. otlp_env_apply_resource_attrs (Some v) e = (if pairs_accepted v then OTLP_OK else OTLP_ERR_OVERFLOW, e') \<and> storage_ok e'
    \<and> (pairs_accepted v \<longrightarrow> used_opts e' = set_attrs v (used_opts e))"
proof -
  obtain st xs n where run: "run_pairs attrs_one (env_pairs v) ((en_storage e)\<lparr>es_n_attrs := 0\<rparr>)
        = (st, ((en_storage e)\<lparr>es_n_attrs := 0\<rparr>)\<lparr>es_attrs := xs, es_n_attrs := n\<rparr>)" and len: "length xs = ENV_PAIRS_MAX"
    and c: "st = OTLP_OK \<and> pairs_accepted v \<and> n = length (env_pairs v) \<and> take n xs = map (\<lambda>p. (Some (fst p), OV_String (Some (snd p)))) (env_pairs v)
        \<or> st = OTLP_ERR_OVERFLOW \<and> \<not> pairs_accepted v"
    using attrs.run_pairs_store [of "(en_storage e)\<lparr>es_n_attrs := 0\<rparr>" "env_pairs v"] assms(1)
    by (auto simp: storage_ok_def pairs_accepted_def)
  note apply_def = otlp_env_apply_resource_attrs_def env_unset_def kv_foreach_pairs
  show ?thesis
  proof (cases "pairs_accepted v")
    case True
    with c have xs: "take n xs = map (\<lambda>p. (Some (fst p), OV_String (Some (snd p)))) (env_pairs v)" and ok: "st = OTLP_OK" "n = length (env_pairs v)" by auto
    have "otlp_env_apply_resource_attrs (Some v) e = (OTLP_OK, point_at P_attrs (e\<lparr>en_storage := (en_storage e)\<lparr>es_attrs := xs, es_n_attrs := n\<rparr>,
        en_opts := (en_opts e)\<lparr>o_n_resource_attributes := n\<rparr>\<rparr>))"
      using assms(2) run ok(1) by (simp add: apply_def)
    then show ?thesis using True used_attrs [OF xs, of e] ok(2) assms(1) len by (simp add: set_attrs_def storage_ok_def point_at_def)
  next
    case False
    then show ?thesis using c run assms len by (auto simp: apply_def storage_ok_def)
  qed
qed

lemma attrs_step [env_steps]:
  "env_step (otlp_env_apply_resource_attrs var) (env_unset var \<or> pairs_accepted (the var)) (if env_unset var then id else set_attrs (the var))"
proof (rule env_step_var)
  fix v assume v: "var = Some v" "v \<noteq> []"
  show "env_step (otlp_env_apply_resource_attrs var) (pairs_accepted v) (set_attrs v)"
  proof (rule env_stepI)
    fix e st e' assume "storage_ok e" "otlp_env_apply_resource_attrs var e = (st, e')"
    with attrs_result [of e v] v show "storage_ok e' \<and> (st = OTLP_OK \<longleftrightarrow> pairs_accepted v)
      \<and> (st = OTLP_OK \<longrightarrow> used_opts e' = set_attrs v (used_opts e)) \<and> st \<in> {OTLP_OK, OTLP_ERR_INVALID_ARGUMENT, OTLP_ERR_OVERFLOW}"
      by auto
  qed
qed (simp add: otlp_env_apply_resource_attrs_def)

lemma headers_result:
  assumes "storage_ok e" "v \<noteq> []"
  shows "\<exists>e'. otlp_env_apply_otlp_headers (Some v) e = (if pairs_accepted v then OTLP_OK else OTLP_ERR_OVERFLOW, e') \<and> storage_ok e'
    \<and> (pairs_accepted v \<longrightarrow> used_opts e' = set_headers v (used_opts e))"
proof -
  obtain st xs n where run: "run_pairs headers_one (env_pairs v) ((en_storage e)\<lparr>es_n_http_headers := 0\<rparr>)
        = (st, ((en_storage e)\<lparr>es_n_http_headers := 0\<rparr>)\<lparr>es_http_headers := xs, es_n_http_headers := n\<rparr>)" and len: "length xs = ENV_PAIRS_MAX"
    and c: "st = OTLP_OK \<and> pairs_accepted v \<and> n = length (env_pairs v) \<and> take n xs = map (\<lambda>p. (Some (fst p), Some (snd p))) (env_pairs v)
        \<or> st = OTLP_ERR_OVERFLOW \<and> \<not> pairs_accepted v"
    using headers.run_pairs_store [of "(en_storage e)\<lparr>es_n_http_headers := 0\<rparr>" "env_pairs v"] assms(1)
    by (auto simp: storage_ok_def pairs_accepted_def)
  note apply_def = otlp_env_apply_otlp_headers_def env_unset_def kv_foreach_pairs
  show ?thesis
  proof (cases "pairs_accepted v")
    case True
    with c have xs: "take n xs = map (\<lambda>p. (Some (fst p), Some (snd p))) (env_pairs v)" and ok: "st = OTLP_OK" "n = length (env_pairs v)" by auto
    have "otlp_env_apply_otlp_headers (Some v) e = (OTLP_OK, point_at P_headers (e\<lparr>en_storage := (en_storage e)\<lparr>es_http_headers := xs, es_n_http_headers := n\<rparr>,
        en_opts := (en_opts e)\<lparr>o_n_http_headers := n\<rparr>\<rparr>))"
      using assms(2) run ok(1) by (simp add: apply_def)
    then show ?thesis using True used_headers [OF xs, of e] ok(2) assms(1) len by (simp add: set_headers_def storage_ok_def point_at_def)
  next
    case False
    then show ?thesis using c run assms len by (auto simp: apply_def storage_ok_def)
  qed
qed

lemma headers_step [env_steps]:
  "env_step (otlp_env_apply_otlp_headers var) (env_unset var \<or> pairs_accepted (the var)) (if env_unset var then id else set_headers (the var))"
proof (rule env_step_var)
  fix v assume v: "var = Some v" "v \<noteq> []"
  show "env_step (otlp_env_apply_otlp_headers var) (pairs_accepted v) (set_headers v)"
  proof (rule env_stepI)
    fix e st e' assume "storage_ok e" "otlp_env_apply_otlp_headers var e = (st, e')"
    with headers_result [of e v] v show "storage_ok e' \<and> (st = OTLP_OK \<longleftrightarrow> pairs_accepted v)
      \<and> (st = OTLP_OK \<longrightarrow> used_opts e' = set_headers v (used_opts e)) \<and> st \<in> {OTLP_OK, OTLP_ERR_INVALID_ARGUMENT, OTLP_ERR_OVERFLOW}"
      by auto
  qed
qed (simp add: otlp_env_apply_otlp_headers_def)

text \<open>The documentation, as one update: a variable that is set wins, the base endpoint only where the signal has none.\<close>

definition env_var :: "(string \<Rightarrow> cstr option) \<Rightarrow> string \<Rightarrow> cstr option" where
  "env_var getenv name = (if env_unset (getenv name) then None else getenv name)"

fun endpoint_var :: "signal \<Rightarrow> string" where
  "endpoint_var SIGNAL_SPAN = ''OTEL_EXPORTER_OTLP_TRACES_ENDPOINT''"
| "endpoint_var SIGNAL_METRIC = ''OTEL_EXPORTER_OTLP_METRICS_ENDPOINT''"
| "endpoint_var SIGNAL_LOG = ''OTEL_EXPORTER_OTLP_LOGS_ENDPOINT''"

definition env_endpoint :: "(string \<Rightarrow> cstr option) \<Rightarrow> signal \<Rightarrow> cstr option \<Rightarrow> cstr option" where
  "env_endpoint getenv s old =
     (case env_var getenv (endpoint_var s) of Some v \<Rightarrow> Some v
      | None \<Rightarrow> (case env_var getenv ''OTEL_EXPORTER_OTLP_ENDPOINT'' of
            Some v \<Rightarrow> Some (the (env_base v) @ env_path s)
          | None \<Rightarrow> old))"

definition env_result :: "(string \<Rightarrow> cstr option) \<Rightarrow> create_opts \<Rightarrow> create_opts" where
  "env_result getenv o1 = o1\<lparr>
     o_connect_timeout_ms := (case env_var getenv ''OTEL_EXPORTER_OTLP_TIMEOUT'' of
         None \<Rightarrow> o_connect_timeout_ms o1 | Some v \<Rightarrow> word_of_nat (decimal_value v 0)),
     o_read_timeout_ms := (case env_var getenv ''OTEL_EXPORTER_OTLP_TIMEOUT'' of
         None \<Rightarrow> o_read_timeout_ms o1 | Some v \<Rightarrow> word_of_nat (decimal_value v 0)),
     o_endpoint := env_endpoint getenv SIGNAL_SPAN (o_endpoint o1),
     o_service_name := (case env_var getenv ''OTEL_SERVICE_NAME'' of None \<Rightarrow> o_service_name o1 | Some v \<Rightarrow> Some v),
     o_metrics_endpoint := env_endpoint getenv SIGNAL_METRIC (o_metrics_endpoint o1),
     o_logs_endpoint := env_endpoint getenv SIGNAL_LOG (o_logs_endpoint o1),
     o_resource_attributes := (case env_var getenv ''OTEL_RESOURCE_ATTRIBUTES'' of None \<Rightarrow> o_resource_attributes o1
       | Some v \<Rightarrow> Some (map (\<lambda>p. (Some (fst p), OV_String (Some (snd p)))) (env_pairs v))),
     o_n_resource_attributes := (case env_var getenv ''OTEL_RESOURCE_ATTRIBUTES'' of None \<Rightarrow> o_n_resource_attributes o1
       | Some v \<Rightarrow> length (env_pairs v)),
     o_http_headers := (case env_var getenv ''OTEL_EXPORTER_OTLP_HEADERS'' of None \<Rightarrow> o_http_headers o1
       | Some v \<Rightarrow> Some (map (\<lambda>p. (Some (fst p), Some (snd p))) (env_pairs v))),
     o_n_http_headers := (case env_var getenv ''OTEL_EXPORTER_OTLP_HEADERS'' of None \<Rightarrow> o_n_http_headers o1
       | Some v \<Rightarrow> length (env_pairs v))\<rparr>"

definition env_accepted :: "(string \<Rightarrow> cstr option) \<Rightarrow> bool" where
  "env_accepted getenv \<longleftrightarrow>
     pred_option (\<lambda>v. v = ascii ''http/protobuf'') (env_var getenv ''OTEL_EXPORTER_OTLP_PROTOCOL'')
     \<and> pred_option base_accepted (env_var getenv ''OTEL_EXPORTER_OTLP_ENDPOINT'')
     \<and> pred_option url_accepted (env_var getenv ''OTEL_EXPORTER_OTLP_TRACES_ENDPOINT'')
     \<and> pred_option url_accepted (env_var getenv ''OTEL_EXPORTER_OTLP_METRICS_ENDPOINT'')
     \<and> pred_option url_accepted (env_var getenv ''OTEL_EXPORTER_OTLP_LOGS_ENDPOINT'')
     \<and> pred_option timeout_ok (env_var getenv ''OTEL_EXPORTER_OTLP_TIMEOUT'')
     \<and> pred_option pairs_accepted (env_var getenv ''OTEL_RESOURCE_ATTRIBUTES'')
     \<and> pred_option pairs_accepted (env_var getenv ''OTEL_EXPORTER_OTLP_HEADERS'')"

lemma pred_env_var: "pred_option P (env_var getenv n) \<longleftrightarrow> env_unset (getenv n) \<or> P (the (getenv n))"
  by (cases "getenv n") (auto simp: env_var_def env_unset_def)

lemma case_env_var: "(case env_var getenv n of None \<Rightarrow> x | Some v \<Rightarrow> f v) = (if env_unset (getenv n) then x else f (the (getenv n)))"
  by (cases "getenv n") (auto simp: env_var_def env_unset_def)

text \<open>The update of a variable, when it is set.\<close>

definition when_set :: "cstr option \<Rightarrow> (cstr \<Rightarrow> create_opts \<Rightarrow> create_opts) \<Rightarrow> create_opts \<Rightarrow> create_opts" where
  "when_set var u = (if env_unset var then id else u (the var))"

lemma env_result_steps:
  "env_result getenv o1 = fold id
     [id, when_set (getenv ''OTEL_SERVICE_NAME'') (\<lambda>v o1. o1\<lparr>o_service_name := Some v\<rparr>), id,
      when_set (getenv ''OTEL_EXPORTER_OTLP_ENDPOINT'') set_base,
      when_set (getenv ''OTEL_EXPORTER_OTLP_TRACES_ENDPOINT'') (set_endpoint SIGNAL_SPAN),
      when_set (getenv ''OTEL_EXPORTER_OTLP_METRICS_ENDPOINT'') (set_endpoint SIGNAL_METRIC),
      when_set (getenv ''OTEL_EXPORTER_OTLP_LOGS_ENDPOINT'') (set_endpoint SIGNAL_LOG),
      when_set (getenv ''OTEL_EXPORTER_OTLP_TIMEOUT'') (\<lambda>v o1. o1\<lparr>o_connect_timeout_ms := word_of_nat (decimal_value v 0),
        o_read_timeout_ms := word_of_nat (decimal_value v 0)\<rparr>),
      when_set (getenv ''OTEL_RESOURCE_ATTRIBUTES'') set_attrs,
      when_set (getenv ''OTEL_EXPORTER_OTLP_HEADERS'') set_headers] o1"
  by (cases o1, rule create_opts.equality)
    (simp_all add: env_result_def env_endpoint_def case_env_var when_set_def set_headers_def set_attrs_def set_base_def Let_def)

lemma env_steps_Cons:
  "env_step f a u \<Longrightarrow> env_step (run_until_error fs) (list_all id as) (fold id us) \<Longrightarrow>
     env_step (run_until_error (f # fs)) (list_all id (a # as)) (fold id (u # us))"
  using env_step_Cons [of f a u fs] by simp

lemma env_steps_Nil: "env_step (run_until_error []) (list_all id []) (fold id [])"
  using env_step_Nil by simp

lemma env_step_eq: "env_step f a u \<Longrightarrow> a = a' \<Longrightarrow> u = u' \<Longrightarrow> env_step f a' u'"
  by simp

lemma env_driver_step:
  "env_step (run_until_error
      [otlp_env_apply_protocol (getenv ''OTEL_EXPORTER_OTLP_PROTOCOL''),
       otlp_env_apply_service_name (getenv ''OTEL_SERVICE_NAME''),
       otlp_env_apply_protocol (getenv ''OTEL_EXPORTER_OTLP_PROTOCOL''),
       otlp_env_apply_endpoint (getenv ''OTEL_EXPORTER_OTLP_ENDPOINT''),
       otlp_env_apply_traces_endpoint (getenv ''OTEL_EXPORTER_OTLP_TRACES_ENDPOINT''),
       otlp_env_apply_signal_endpoint SIGNAL_METRIC (getenv ''OTEL_EXPORTER_OTLP_METRICS_ENDPOINT''),
       otlp_env_apply_signal_endpoint SIGNAL_LOG (getenv ''OTEL_EXPORTER_OTLP_LOGS_ENDPOINT''),
       otlp_env_apply_timeout (getenv ''OTEL_EXPORTER_OTLP_TIMEOUT''),
       otlp_env_apply_resource_attrs (getenv ''OTEL_RESOURCE_ATTRIBUTES''),
       otlp_env_apply_otlp_headers (getenv ''OTEL_EXPORTER_OTLP_HEADERS'')])
    (env_accepted getenv) (env_result getenv)"
  unfolding otlp_env_apply_traces_endpoint_def
  apply (rule env_step_eq)
    apply (rule env_steps_Cons, rule env_steps)+
    apply (rule env_steps_Nil)
   apply (simp only: list.pred_inject id_apply env_accepted_def pred_env_var)
   apply blast
  apply (rule ext, simp only: env_result_steps when_set_def if_cancel)
  done


section \<open>Printing and reading a list\<close>

text \<open>The text of a list of pairs, and the pairs that have one.\<close>

fun pairs_text :: "env_pair list \<Rightarrow> cstr" where
  "pairs_text [] = []"
| "pairs_text [(k, v)] = k @ 0x3D # v"
| "pairs_text ((k, v) # p # ps) = k @ 0x3D # v @ 0x2C # pairs_text (p # ps)"

definition pair_clean :: "env_pair \<Rightarrow> bool" where
  "pair_clean p \<longleftrightarrow> fst p \<noteq> [] \<and> 0x3D \<notin> set (fst p) \<and> 0x2C \<notin> set (fst p) \<and> 0x2C \<notin> set (snd p)"

lemma takeWhile_stop: "d \<notin> set s \<Longrightarrow> takeWhile (\<lambda>c. c \<noteq> d) (s @ d # t) = s"
  by (subst takeWhile_append2) auto

lemma takeWhile_none: "d \<notin> set s \<Longrightarrow> takeWhile (\<lambda>c. c \<noteq> d) s = s"
  by (metis takeWhile_neq_iff)

lemma pair_of_text: "pair_clean (k, v) \<Longrightarrow> pair_of (k @ 0x3D # v) = Some (k, v)"
  by (simp add: pair_of_alt takeWhile_stop pair_clean_def Let_def)

lemma env_pairs_text: "list_all pair_clean ps \<Longrightarrow> env_pairs (pairs_text ps) = ps"
proof (induction ps rule: pairs_text.induct)
  case (2 k v)
  then have "0x2C \<notin> set (k @ 0x3D # v)" by (simp add: pair_clean_def)
  then show ?case using 2 by (subst env_pairs_first) (simp add: takeWhile_none Let_def pair_of_text)
next
  case (3 k v p ps)
  then have "0x2C \<notin> set (k @ 0x3D # v)" by (simp add: pair_clean_def)
  then have "takeWhile (\<lambda>c. c \<noteq> 0x2C) (pairs_text ((k, v) # p # ps)) = k @ 0x3D # v"
    using takeWhile_stop [of "0x2C" "k @ 0x3D # v" "pairs_text (p # ps)"] by simp
  moreover have "drop (length (k @ 0x3D # v) + 1) (pairs_text ((k, v) # p # ps)) = pairs_text (p # ps)" by simp
  ultimately show ?case using 3 by (subst env_pairs_first) (simp only: Let_def, simp add: pair_of_text)
qed simp

lemma pairs_text_nonempty: "ps \<noteq> [] \<Longrightarrow> pairs_text ps \<noteq> []"
  by (cases ps rule: pairs_text.cases) simp_all

text \<open>
  C17. A list of pairs survives the environment: printed as \<^verbatim>\<open>k=v,k=v\<close> and read back, it gives the resource
  attributes, and the header fields, pair by pair, if no key is empty or has one of the two delimiters, no value has a
  comma (equals signs are fine), and the list fits the storage. One pair too many or too long is an overflow.
\<close>

theorem env_list_roundtrip:
  assumes "storage_ok e" and "ps \<noteq> []" and "list_all pair_clean ps"
  shows "if list_all pair_fits ps \<and> length ps \<le> ENV_PAIRS_MAX
    then \<exists>e1 e2. otlp_env_apply_resource_attrs (Some (pairs_text ps)) e = (OTLP_OK, e1)
        \<and> used_opts e1 = (used_opts e)\<lparr>o_resource_attributes := Some (map (\<lambda>(k, v). (Some k, OV_String (Some v))) ps),
            o_n_resource_attributes := length ps\<rparr>
        \<and> otlp_env_apply_otlp_headers (Some (pairs_text ps)) e = (OTLP_OK, e2)
        \<and> used_opts e2 = (used_opts e)\<lparr>o_http_headers := Some (map (\<lambda>(k, v). (Some k, Some v)) ps), o_n_http_headers := length ps\<rparr>
    else fst (otlp_env_apply_resource_attrs (Some (pairs_text ps)) e) = OTLP_ERR_OVERFLOW
        \<and> fst (otlp_env_apply_otlp_headers (Some (pairs_text ps)) e) = OTLP_ERR_OVERFLOW"
proof -
  have v: "env_pairs (pairs_text ps) = ps" "pairs_text ps \<noteq> []" using assms(2,3) by (simp_all add: env_pairs_text pairs_text_nonempty)
  then have acc: "pairs_accepted (pairs_text ps) \<longleftrightarrow> list_all pair_fits ps \<and> length ps \<le> ENV_PAIRS_MAX" by (simp add: pairs_accepted_def)
  show ?thesis
    using attrs_result [OF assms(1) v(2)] headers_result [OF assms(1) v(2)]
    unfolding acc by (auto simp: set_attrs_def set_headers_def v(1) case_prod_unfold)
qed

section \<open>The base endpoint\<close>

lemma scheme_end_first: "scheme_end v = Some k \<Longrightarrow> take 3 (drop k v) = ascii ''://'' \<and> (\<forall>j < k. take 3 (drop j v) \<noteq> ascii ''://'')"
proof (induction v arbitrary: k)
  case (Cons c v)
  show ?case
  proof (cases "take 3 (c # v) = ascii ''://''")
    case True
    with Cons.prems show ?thesis by simp
  next
    case False
    with Cons.prems obtain k' where k': "k = Suc k'" "scheme_end v = Some k'" by auto
    with Cons.IH [OF k'(2)] False show ?thesis by (auto simp: less_Suc_eq_0_disj)
  qed
qed simp

lemma env_base_split:
  assumes "env_base v = Some b"
  obtains rest k where "v = b @ rest" "rest = [] \<or> hd rest = 0x2F" "scheme_end v = Some k" "k + 3 \<le> length b"
    "0x2F \<notin> set (drop (k + 3) b)" "take (k + 3) b = take (k + 3) v"
proof -
  obtain k where k: "scheme_end v = Some k" "b = take (k + 3) v @ takeWhile (\<lambda>c. c \<noteq> 0x2F) (drop (k + 3) v)"
    using assms by (auto simp: env_base_def split: option.splits)
  have "length (take 3 (drop k v)) = 3" using scheme_end_first [OF k(1)] by (simp add: ascii_def)
  then have len: "k + 3 \<le> length v" by simp
  show thesis
  proof
    show "v = b @ dropWhile (\<lambda>c. c \<noteq> 0x2F) (drop (k + 3) v)" by (simp add: k(2))
    show "dropWhile (\<lambda>c. c \<noteq> 0x2F) (drop (k + 3) v) = [] \<or> hd (dropWhile (\<lambda>c. c \<noteq> 0x2F) (drop (k + 3) v)) = 0x2F"
      using hd_dropWhile [of "\<lambda>c. c \<noteq> 0x2F" "drop (k + 3) v"] by auto
    show "0x2F \<notin> set (drop (k + 3) b)" using len by (auto simp: k(2) dest: set_takeWhileD)
  qed (use k(1) len in \<open>simp_all add: k(2)\<close>)
qed

lemma http_prefix: "ascii ''http://'' = [0x68, 0x74, 0x74, 0x70, 0x3A, 0x2F, 0x2F]" "ascii ''://'' = [0x3A, 0x2F, 0x2F]"
  by (simp_all add: ascii_def)

lemma unique_split:
  assumes "a @ p = b @ q" "d \<notin> set a" "d \<notin> set b" "p \<noteq> []" "hd p = d" "q = [] \<or> hd q = d"
  shows "a = b \<and> p = q"
proof -
  have "takeWhile (\<lambda>c. c \<noteq> d) (a @ p) = a" using assms(2,4,5) by (cases p) (auto simp: takeWhile_stop)
  moreover have "takeWhile (\<lambda>c. c \<noteq> d) (b @ q) = b"
    using assms(3,6) by (cases q) (auto simp: takeWhile_stop takeWhile_none)
  ultimately show ?thesis using assms(1) by simp
qed

text \<open>A base that parses with a path behind it is \<^verbatim>\<open>http://\<close>, a host and a port.\<close>

lemma base_parses:
  assumes b: "env_base v = Some b" and p: "otlp_http_parse_url (Some (b @ path)) url_zero = (OTLP_OK, u)"
    and path: "path \<noteq> []" "hd path = 0x2F"
  shows "\<exists>pt. b = ascii ''http://'' @ url_host u @ pt \<and> port_text pt (url_port u) \<and> url_path u = path \<and> url_ok u"
proof -
  obtain rest k where v: "v = b @ rest" and k: "scheme_end v = Some k" "k + 3 \<le> length b" "0x2F \<notin> set (drop (k + 3) b)"
    "take (k + 3) b = take (k + 3) v" by (rule env_base_split [OF b])
  obtain pt qt where ok: "url_ok u" and t: "b @ path = ascii ''http://'' @ url_host u @ pt @ qt" "port_text pt (url_port u)" "path_text qt (url_path u)"
    using parse_url_texts [OF p] by (auto simp: url_text_def)
  have at: "take 3 (drop j v) = take 3 (drop j (b @ path))" if "j \<le> k" for j using that k(2) by (simp add: v)
  have first: "take 3 (drop k v) = ascii ''://''" "\<forall>j < k. take 3 (drop j v) \<noteq> ascii ''://''" using scheme_end_first [OF k(1)] by auto
  have four: "take 3 (drop 4 (b @ path)) = ascii ''://''" by (simp add: t(1) http_prefix)
  have "\<not> 4 < k" using first(2) at [of 4] four by auto
  moreover have "take 3 (drop j (b @ path)) \<noteq> ascii ''://''" if "j = 0 \<or> j = 1 \<or> j = 2 \<or> j = 3" for j
    using that by (auto simp: t(1) http_prefix)
  then have "\<not> (k = 0 \<or> k = 1 \<or> k = 2 \<or> k = 3)" using first(1) at [of k] by fastforce
  ultimately have k4: "k = 4" by linarith
  define host where "host = drop 7 b"
  have "take 7 b = take 7 (b @ path)" using k(2) by (simp add: k4)
  also have "\<dots> = ascii ''http://''" by (simp add: t(1) http_prefix)
  finally have bh: "b = ascii ''http://'' @ host" by (metis host_def append_take_drop_id)
  then have "host @ path = (url_host u @ pt) @ qt" using t(1) by simp
  moreover have "0x2F \<notin> set host" using k(3) by (simp add: k4 host_def)
  moreover have "0x2F \<notin> set (url_host u @ pt)" using ok t(2) digits_no_slash by (auto simp: url_ok_def port_text_def)
  moreover have "qt = [] \<or> hd qt = 0x2F" using t(3) ok by (auto simp: path_text_def url_ok_def)
  ultimately have "host = url_host u @ pt" "path = qt" using unique_split [of host path "url_host u @ pt" qt "0x2F"] path by simp_all
  then show ?thesis using bh t(2,3) ok path(1) by (auto simp: path_text_def)
qed


section \<open>Concrete environments\<close>

definition demo_env_opts :: env_config where
  "demo_env_opts = \<lparr>en_opts = demo_create_opts [], en_points = (\<lambda>_. False),
     en_storage = \<lparr>es_endpoint = (\<lambda>_. []), es_attrs = replicate 32 (None, OV_String None), es_n_attrs = 0,
       es_http_headers = replicate 32 (None, None), es_n_http_headers = 0\<rparr>\<rparr>"

lemma demo_env_opts_ok: "storage_ok demo_env_opts"
  by (simp add: storage_ok_def demo_env_opts_def ENV_PAIRS_MAX_def)

lemma map_prod_Some: "\<exists>st e'. map_prod id Some p = (st, Some e')"
  by (cases p) simp

definition demo_getenv :: "string \<Rightarrow> cstr option" where
  "demo_getenv = [''OTEL_EXPORTER_OTLP_TIMEOUT'' \<mapsto> ascii ''250'', ''OTEL_SERVICE_NAME'' \<mapsto> ascii ''shop'']"

lemma demo_getenv_accepted: "env_accepted demo_getenv"
  by (simp add: env_accepted_def env_var_def env_unset_def demo_getenv_def timeout_ok_def ascii_def is_digit_def)


definition demo_pairs :: "env_pair list" where
  "demo_pairs = [(ascii ''env'', ascii ''a=b''), (ascii ''n'', [])]"

theorem env_list_roundtrip_witness:
  "\<exists>e1. otlp_env_apply_resource_attrs (Some (ascii ''env=a=b,n='')) demo_env_opts = (OTLP_OK, e1)
     \<and> o_n_resource_attributes (used_opts e1) = 2"
proof -
  have ne: "demo_pairs \<noteq> []" by (simp add: demo_pairs_def)
  have clean: "list_all pair_clean demo_pairs" by (simp add: demo_pairs_def pair_clean_def ascii_def)
  have fits: "list_all pair_fits demo_pairs \<and> length demo_pairs \<le> ENV_PAIRS_MAX"
    by (simp add: demo_pairs_def pair_fits_def ENV_KEY_MAX_def ENV_VAL_MAX_def ENV_PAIRS_MAX_def ascii_def)
  have printed: "pairs_text demo_pairs = ascii ''env=a=b,n=''" "length demo_pairs = 2" by (simp_all add: demo_pairs_def ascii_def)
  from env_list_roundtrip [OF demo_env_opts_ok ne clean] fits show ?thesis unfolding printed by auto
qed

lemma demo_base: "env_base (ascii ''http://h/x'') = Some (ascii ''http://h'')"
  by (simp add: env_base_def ascii_def)

lemma demo_base_urls: "url_accepted (ascii ''http://h'' @ default_path s)"
proof -
  have "url_ok (demo_url\<lparr>url_path := default_path s\<rparr>)"
    by (cases s) (simp_all add: url_ok_def demo_url_def ascii_def has_crlf_def OTLP_HTTP_HOST_MAX_def OTLP_HTTP_PATH_MAX_def)
  moreover have "url_text (ascii ''http://h'' @ default_path s) (demo_url\<lparr>url_path := default_path s\<rparr>)"
    by (rule url_textI [where pt = "[]" and qt = "default_path s"]) (simp_all add: demo_url_def port_text_def path_text_def ascii_def)
  ultimately have "otlp_http_parse_url (Some (ascii ''http://h'' @ default_path s)) url_zero = (OTLP_OK, demo_url\<lparr>url_path := default_path s\<rparr>)"
    by (rule url_text_parses)
  then show ?thesis by (cases s) (simp_all add: url_accepted_def ENV_TEXT_MAX_def ascii_def)
qed


text \<open>
  A base endpoint too long for the metrics path, not for the traces path, fails, and yet the traces
  endpoint has changed: the options are not left alone.
\<close>

definition wide_base :: cstr where
  "wide_base = ascii ''http://'' @ replicate 238 0x61"

lemma wide_base_half_applied:
  "\<exists>e'. otlp_env_apply_endpoint (Some wide_base) demo_env_opts = (OTLP_ERR_OVERFLOW, e')
     \<and> o_endpoint (used_opts demo_env_opts) \<noteq> o_endpoint (used_opts e')
     \<and> o_endpoint (used_opts e') = Some (wide_base @ ascii ''/v1/traces'')"
proof -
  define as where "as = replicate 238 (0x61 :: u8)"
  have as1: "set as = {0x61}" "length as = 238" by (simp_all add: as_def)
  have wb: "wide_base = ascii ''http://'' @ as" by (simp add: wide_base_def as_def)
  have tw: "takeWhile (\<lambda>c. c \<noteq> 0x2F) as = as" by (rule takeWhile_none) (simp add: as1)
  have base: "env_base wide_base = Some wide_base" by (simp add: env_base_def wb ascii_def tw)
  define u where "u = \<lparr>url_host = as, url_port = 80, url_path = ascii ''/v1/traces''\<rparr>"
  have "as \<noteq> []" using as1(2) by auto
  then have "url_ok u"
    by (simp add: url_ok_def u_def as1 ascii_def has_crlf_def list_ex_iff OTLP_HTTP_HOST_MAX_def OTLP_HTTP_PATH_MAX_def)
  moreover have "url_text (wide_base @ ascii ''/v1/traces'') u"
    by (rule url_textI [where pt = "[]" and qt = "ascii ''/v1/traces''"]) (simp_all add: u_def wb port_text_def path_text_def)
  ultimately have p: "otlp_http_parse_url (Some (wide_base @ ascii ''/v1/traces'')) url_zero = (OTLP_OK, u)" by (rule url_text_parses)
  have len: "length wide_base = 245" "length (ascii ''/v1/traces'') = 10" "length (ascii ''/v1/metrics'') = 11" "wide_base \<noteq> []"
    by (simp_all add: wb as1 ascii_def)
  define e1 where "e1 = point_at (P_endpoint SIGNAL_SPAN) (put_endpoint SIGNAL_SPAN (wide_base @ ascii ''/v1/traces'') demo_env_opts)"
  have "otlp_env_apply_endpoint (Some wide_base) demo_env_opts = (OTLP_ERR_OVERFLOW, e1)"
    by (simp add: otlp_env_apply_endpoint_def env_unset_def base p len ENV_TEXT_MAX_def Let_def e1_def)
  moreover have "used_opts e1 = set_endpoint SIGNAL_SPAN (wide_base @ ascii ''/v1/traces'') (used_opts demo_env_opts)"
    by (simp only: e1_def used_endpoint)
  moreover have "o_endpoint (used_opts demo_env_opts) = Some (ascii ''http://h'')"
    by (simp add: used_opts_def env_view_def demo_env_opts_def demo_create_opts_def Let_def)
  ultimately show ?thesis using len by (intro exI [of _ e1]) (auto dest: arg_cong [of _ _ length] simp: ascii_def)
qed

end
