(* ===== verification/Platform_Win.thy ===== *)
theory Platform_Win
  imports Exporter_Sync_Props
begin

text \<open>
  The Winsock side of the platform layer (\<^verbatim>\<open>src/platform_win.c\<close>, and the clock of \<^verbatim>\<open>src/platform.c\<close> under
  \<^verbatim>\<open>_WIN32\<close>). It provides the same interface as the POSIX side, so what was proved of the client over any
  \<open>socket_layer\<close> holds here by an interpretation. The world carries the one static variable, whether
  Winsock was started.
\<close>

section \<open>The system calls\<close>

datatype wsa_error = WSAEWOULDBLOCK | WSAEINPROGRESS | WSAEOTHER

text \<open>\<open>ws_so_error\<close> is what \<^verbatim>\<open>getsockopt\<close> yields: \<open>None\<close> when the call itself fails, and then 0 for no error.\<close>

record ('a, 'w) winsock =
  ws_startup :: "'w \<Rightarrow> bool \<times> 'w"
  ws_getaddrinfo :: "cstr \<Rightarrow> cstr \<Rightarrow> 'w \<Rightarrow> 'a list option \<times> 'w"
  ws_socket :: "'a \<Rightarrow> 'w \<Rightarrow> u64 \<times> 'w"
  ws_nonblock :: "u64 \<Rightarrow> 'w \<Rightarrow> 'w"
  ws_connect :: "u64 \<Rightarrow> 'a \<Rightarrow> 'w \<Rightarrow> wsa_error option \<times> 'w"
  ws_so_error :: "u64 \<Rightarrow> 'w \<Rightarrow> wsa_error option option \<times> 'w"
  ws_send :: "u64 \<Rightarrow> u8 list \<Rightarrow> 'w \<Rightarrow> (wsa_error + nat) \<times> 'w"
  ws_recv :: "u64 \<Rightarrow> nat \<Rightarrow> 'w \<Rightarrow> (wsa_error + u8 list) \<times> 'w"
  ws_closesocket :: "u64 \<Rightarrow> 'w \<Rightarrow> 'w"
  ws_frequency :: "'w \<Rightarrow> u64 \<times> 'w"
  ws_counter :: "'w \<Rightarrow> u64 \<times> 'w"
  ws_file_time :: "'w \<Rightarrow> (u32 \<times> u32) \<times> 'w"

definition INVALID_SOCKET :: u64 where "INVALID_SOCKET = 0xFFFFFFFFFFFFFFFF"
definition INT_MAX :: nat where "INT_MAX = 2147483647"

type_synonym 'w win = "bool \<times> 'w"

definition on_win :: "('w \<Rightarrow> 'r \<times> 'w) \<Rightarrow> 'w win \<Rightarrow> 'r \<times> 'w win" where
  "on_win f w = (case f (snd w) of (r, v) \<Rightarrow> (r, (fst w, v)))"

section \<open>The clock\<close>

definition win_now_mono_nano :: "('a, 'w) winsock \<Rightarrow> u64 \<Rightarrow> 'w win \<Rightarrow> status \<times> u64 \<times> 'w win" where
  "win_now_mono_nano W out w =
     (case on_win (ws_frequency W) w of (freq, w1) \<Rightarrow>
        (case on_win (ws_counter W) w1 of (counter, w2) \<Rightarrow>
           if freq = 0 then (OTLP_ERR_NETWORK, out, w2) else (OTLP_OK, counter * 1000000000 div freq, w2)))"

definition win_now_mono_ms :: "('a, 'w) winsock \<Rightarrow> 'w win \<Rightarrow> u64 \<times> 'w win" where
  "win_now_mono_ms W w = (case win_now_mono_nano W 0 w of (st, n, w1) \<Rightarrow> (if st = OTLP_OK then n div 1000000 else 0, w1))"

text \<open>The file time counts 100 ns since 1601, in a low and a high half; the result counts ns since 1970.\<close>

definition win_now_unix_nano :: "('a, 'w) winsock \<Rightarrow> 'w win \<Rightarrow> status \<times> u64 \<times> 'w win" where
  "win_now_unix_nano W w =
     (case on_win (ws_file_time W) w of ((low, high), w1) \<Rightarrow>
        (OTLP_OK, ((push_bit 32 (ucast high) OR ucast low) - 116444736000000000) * 100, w1))"

section \<open>Sockets\<close>

record win_socket =
  sk_s :: u64
  sk_eof :: bool
  sk_connecting :: bool

definition SIZEOF_WIN_SOCKET :: nat where "SIZEOF_WIN_SOCKET = 16"

definition ensure_wsa :: "('a, 'w) winsock \<Rightarrow> 'w win \<Rightarrow> status \<times> 'w win" where
  "ensure_wsa W w =
     (if fst w then (OTLP_OK, w)
      else (case ws_startup W (snd w) of (ok, v) \<Rightarrow> (if ok then OTLP_OK else OTLP_ERR_NETWORK, (True, v))))"

fun win_connect_addrs :: "('a, 'w) winsock \<Rightarrow> 'a list \<Rightarrow> 'w win \<Rightarrow> (u64 \<times> bool) option \<times> 'w win" where
  "win_connect_addrs W [] w = (None, w)"
| "win_connect_addrs W (rp # rps) w =
     (case on_win (ws_socket W rp) w of (s, w1) \<Rightarrow>
       if s = INVALID_SOCKET then win_connect_addrs W rps w1
       else (case on_win (ws_connect W s rp) (fst w1, ws_nonblock W s (snd w1)) of (err, w2) \<Rightarrow>
         if err = None then (Some (s, False), w2)
         else if err = Some WSAEWOULDBLOCK then (Some (s, True), w2)
         else win_connect_addrs W rps (fst w2, ws_closesocket W s (snd w2))))"

definition win_socket_connect ::
  "'w win allocator \<Rightarrow> ('a, 'w) winsock \<Rightarrow> cstr \<Rightarrow> u16 \<Rightarrow> 'w win \<Rightarrow> (status + win_socket) \<times> 'w win" where
  "win_socket_connect A W host port w =
     (case ensure_wsa W w of (st, w1) \<Rightarrow>
       if st \<noteq> OTLP_OK then (Inl st, w1)
       else (case on_win (ws_getaddrinfo W host (decimal (unat port))) w1 of
           (None, w2) \<Rightarrow> (Inl OTLP_ERR_DNS, w2)
         | (Some result, w2) \<Rightarrow> (case win_connect_addrs W result w2 of
               (None, w3) \<Rightarrow> (Inl OTLP_ERR_CONNECT, w3)
             | (Some (s, connecting), w3) \<Rightarrow> (case a_alloc A SIZEOF_WIN_SOCKET w3 of
                   (False, w4) \<Rightarrow> (Inl OTLP_ERR_NOMEM, (fst w4, ws_closesocket W s (snd w4)))
                 | (True, w4) \<Rightarrow> (Inr \<lparr>sk_s = s, sk_eof = False, sk_connecting = connecting\<rparr>, w4)))))"

definition win_socket_finish_connect :: "('a, 'w) winsock \<Rightarrow> win_socket \<Rightarrow> 'w win \<Rightarrow> status \<times> win_socket \<times> 'w win" where
  "win_socket_finish_connect W s w =
     (if sk_s s = INVALID_SOCKET then (OTLP_ERR_NULL, s, w)
      else if \<not> sk_connecting s then (OTLP_OK, s, w)
      else (case on_win (ws_so_error W (sk_s s)) w of
          (None, w1) \<Rightarrow> (OTLP_ERR_CONNECT, s, w1)
        | (Some err, w1) \<Rightarrow>
            if err = Some WSAEINPROGRESS \<or> err = Some WSAEWOULDBLOCK then (OTLP_ERR_WOULDBLOCK, s, w1)
            else if err \<noteq> None then (OTLP_ERR_CONNECT, s, w1)
            else (OTLP_OK, s\<lparr>sk_connecting := False\<rparr>, w1)))"

definition win_socket_write :: "('a, 'w) winsock \<Rightarrow> win_socket \<Rightarrow> u8 list \<Rightarrow> 'w win \<Rightarrow> (status \<times> nat \<times> 'w win) option" where
  "win_socket_write W s data w =
     (if sk_s s = INVALID_SOCKET then Some (OTLP_ERR_WRITE, 0, w)
      else if length data = 0 then Some (OTLP_OK, 0, w)
      else (case on_win (ws_send W (sk_s s) (take INT_MAX data)) w of
          (Inl e, w1) \<Rightarrow> Some (if e = WSAEWOULDBLOCK then OTLP_ERR_WOULDBLOCK else OTLP_ERR_WRITE, 0, w1)
        | (Inr room, w1) \<Rightarrow> Some (OTLP_OK, min room (length (take INT_MAX data)), w1)))"

definition win_socket_read ::
  "('a, 'w) winsock \<Rightarrow> win_socket \<Rightarrow> nat \<Rightarrow> 'w win \<Rightarrow> (status \<times> u8 list \<times> win_socket \<times> 'w win) option" where
  "win_socket_read W s cap w =
     (if sk_s s = INVALID_SOCKET then Some (OTLP_ERR_READ, [], s, w)
      else if cap = 0 then Some (OTLP_OK, [], s, w)
      else (case on_win (ws_recv W (sk_s s) (min cap INT_MAX)) w of
          (Inl e, w1) \<Rightarrow> Some (if e = WSAEWOULDBLOCK then OTLP_ERR_WOULDBLOCK else OTLP_ERR_READ, [], s, w1)
        | (Inr bytes, w1) \<Rightarrow>
            if take (min cap INT_MAX) bytes = [] then Some (OTLP_OK, [], s\<lparr>sk_eof := True\<rparr>, w1)
            else Some (OTLP_OK, take (min cap INT_MAX) bytes, s, w1)))"

definition win_socket_close :: "('a, 'w) winsock \<Rightarrow> win_socket \<Rightarrow> 'w win \<Rightarrow> 'w win" where
  "win_socket_close W s w = (if sk_s s \<noteq> INVALID_SOCKET then (fst w, ws_closesocket W (sk_s s) (snd w)) else w)"

text \<open>The handle cut down to an \<^verbatim>\<open>int\<close>.\<close>

definition win_socket_fd :: "win_socket \<Rightarrow> int" where
  "win_socket_fd s = sint (ucast (sk_s s) :: 32 word)"

definition win_net :: "'w win allocator \<Rightarrow> ('a, 'w) winsock \<Rightarrow> (win_socket, 'w win) net" where
  "win_net A W = \<lparr>nt_connect = win_socket_connect A W, nt_finish = win_socket_finish_connect W,
     nt_write = win_socket_write W, nt_read = win_socket_read W, nt_eof = sk_eof,
     nt_close = win_socket_close W, nt_fd = win_socket_fd, nt_now = win_now_mono_ms W\<rparr>"

interpretation win: socket_layer "win_net A W" for A W
proof
  show "nt_connect (win_net A W) host port w = (Inl st, w') \<Longrightarrow> st \<noteq> OTLP_OK \<and> st \<noteq> OTLP_ERR_WOULDBLOCK" for host port w st w'
    by (auto simp: win_net_def win_socket_connect_def ensure_wsa_def split: prod.splits option.splits bool.splits if_splits)
  show "nt_write (win_net A W) s data w = Some (st, n, w') \<Longrightarrow> n \<le> length data"
    "nt_write (win_net A W) s data w = Some (st, n, w') \<Longrightarrow> st \<in> {OTLP_OK, OTLP_ERR_WOULDBLOCK, OTLP_ERR_WRITE}" for s data w st n w'
    by (auto simp: win_net_def win_socket_write_def split: prod.splits sum.splits if_splits)
  show "nt_read (win_net A W) s cap w = Some (st, bytes, s', w') \<Longrightarrow> length bytes \<le> cap"
    "nt_read (win_net A W) s cap w = Some (st, bytes, s', w') \<Longrightarrow> st \<in> {OTLP_OK, OTLP_ERR_WOULDBLOCK, OTLP_ERR_READ}"
    "nt_read (win_net A W) s cap w = Some (OTLP_OK, [], s', w') \<Longrightarrow> 0 < cap \<Longrightarrow> nt_eof (win_net A W) s'" for s cap w st bytes s' w'
    by (auto simp: win_net_def win_socket_read_def split: prod.splits sum.splits if_splits)
qed

section \<open>The client on Windows\<close>

lemma win_request_invariant:
  assumes "request_started (win_net A W) A r0" "http_reach (win_net A W) A r0 r"
  shows "rq_wire r = take (rq_req_sent r) (rq_req_buf r0) \<and> length (rq_resp_buf r) \<le> rq_resp_cap r
    \<and> rq_resp_cap r \<le> 2 * OTLP_HTTP_RESP_MAX
    \<and> (rq_state r = OTLP_HTTP_REQ_DONE \<longrightarrow> rq_wire r = rq_req_buf r0 \<and> response_parsed r)"
proof -
  have "request_ok r" "rq_req_buf r = rq_req_buf r0" "rq_state r = OTLP_HTTP_REQ_DONE \<longrightarrow> response_parsed r"
    using win.reach_ok [OF assms(2)] started_ok [OF assms(1)] by blast+
  then show ?thesis by (simp add: request_ok_def)
qed

lemma win_flush_ok_delivered:
  assumes "sync_flush fuel (win_net A W) A sleep C (Some e) x w = Some (OTLP_OK, Some e', w')"
    and "\<not> ex_null_transport e" and "item_ok (item_signal x) x" and "url_ok (wc_url C (item_signal x))"
    and "length (ser_msg (batch_msg C (item_signal x) [x])) \<le> SIZE_MAX - HEAD_CAP"
  shows "\<exists>r0 r. let m = batch_msg C (item_signal x) [x] in
    request_started (win_net A W) A r0 \<and> http_reach (win_net A W) A r0 r
    \<and> rq_state r = OTLP_HTTP_REQ_DONE \<and> 200 \<le> rq_http_status r \<and> rq_http_status r < 300 \<and> response_parsed r
    \<and> reads_as (rq_wire r) (request_lines (wc_url C (item_signal x)) (agent_of (wc_user_agent C))
        (headers_of (wc_http_headers C) (wc_n_http_headers C)) (length (ser_msg m))) (ser_msg m)
    \<and> parse_msg (otlp_pb_reader_init (ser_msg m)) = Some m"
proof -
  note run = sync_flush_Some [OF assms(1)]
  note enc = sync_encoder_emits [OF assms(3) conjunct1 [OF run], of A C]
  show ?thesis unfolding Let_def
    by (rule win.flush_item_delivers [OF conjunct2 [OF run] assms(2) conjunct1 [OF enc] conjunct2 [OF enc] assms(5,4)])
qed

section \<open>What the Windows side gets wrong\<close>

text \<open>A failed \<^verbatim>\<open>WSAStartup\<close> is reported once; the next connect goes ahead without it.\<close>

lemma wsa_failure_forgotten:
  assumes "ensure_wsa W (False, v) = (OTLP_ERR_NETWORK, w)"
  shows "ensure_wsa W w = (OTLP_OK, w)"
  using assms by (auto simp: ensure_wsa_def split: prod.splits if_splits)

text \<open>
  While a connect is pending the socket has no error yet, and the code takes that for success; the POSIX side
  polls for writability first.
\<close>

lemma win_pending_connect_reported:
  assumes "sk_s s \<noteq> INVALID_SOCKET" "ws_so_error W (sk_s s) v = (Some None, v')"
  shows "win_socket_finish_connect W s (i, v) = (OTLP_OK, s\<lparr>sk_connecting := False\<rparr>, (if sk_connecting s then (i, v') else (i, v)))"
  using assms by (cases s) (simp add: win_socket_finish_connect_def on_win_def)

lemma win_clock_reads:
  assumes "ws_frequency W v = (freq, v1)" "ws_counter W v1 = (counter, v2)" "freq \<noteq> 0"
  shows "unat (fst (win_now_mono_ms W (i, v))) = unat counter * 10 ^ 9 mod 2 ^ 64 div unat freq div 10 ^ 6"
  using assms by (simp add: win_now_mono_ms_def win_now_mono_nano_def on_win_def unat_div_distrib unat_mult_lem unat_word_ariths)

lemma file_time_halves: "push_bit 32 (ucast (ucast (drop_bit 32 t) :: u32)) OR ucast (ucast t :: u32) = (t :: u64)"
  by (rule bit_word_eqI) (auto simp: bit_simps)

lemma win_wall_clock_reads:
  assumes "ws_file_time W v = ((ucast t, ucast (drop_bit 32 t)), v1)" "unat (t :: u64) = 116444736000000000 + n" "n * 100 < 2 ^ 64"
  shows "\<exists>out. win_now_unix_nano W (i, v) = (OTLP_OK, out, (i, v1)) \<and> unat out = n * 100"
proof -
  have "116444736000000000 \<le> t" using assms(2) by (simp add: word_le_nat_alt)
  then have since: "unat (t - 116444736000000000) = n" using assms(2) by (simp add: unat_sub)
  then have "unat ((t - 116444736000000000) * 100) = unat (t - 116444736000000000) * unat (100 :: u64)"
    using assms(3) by (intro iffD1 [OF unat_mult_lem]) simp
  then have "unat ((t - 116444736000000000) * 100) = n * 100" by (simp only: since) simp
  moreover have "win_now_unix_nano W (i, v) = (OTLP_OK, (t - 116444736000000000) * 100, (i, v1))"
    by (simp only: win_now_unix_nano_def on_win_def assms(1) file_time_halves prod.case fst_conv snd_conv)
  ultimately show ?thesis by blast
qed

text \<open>
  C19. On Windows the millisecond clock wraps. The counter is multiplied by \<open>10^9\<close> in 64 bits before it is divided by
  the frequency; at the usual 10 MHz the reading is exact for the first \<open>1844\<close> seconds only, it never exceeds
  \<open>1844674\<close>, and so a deadline set in the last seconds before it wraps is never reached, whatever the counter does.
\<close>

theorem win_clock_wraps:
  assumes "\<And>v. fst (ws_frequency W v) = 10000000"
  shows "unat (fst (win_now_mono_ms W w)) \<le> 1844674
    \<and> (let counter = fst (ws_counter W (snd (ws_frequency W (snd w)))) in
        unat counter < 18446744074 \<longrightarrow> unat (fst (win_now_mono_ms W w)) = unat counter div 10000)
    \<and> (fst (win_now_mono_ms W w0) > 1844674 - 30000 \<longrightarrow> fst (win_now_mono_ms W w) < fst (win_now_mono_ms W w0) + 30000)"
proof -
  have reads: "unat (fst (win_now_mono_ms W x)) =
      unat (fst (ws_counter W (snd (ws_frequency W (snd x))))) * 10 ^ 9 mod 2 ^ 64 div 10000000 div 10 ^ 6" for x
    using win_clock_reads [of W "snd x" 10000000 "snd (ws_frequency W (snd x))"
        "fst (ws_counter W (snd (ws_frequency W (snd x))))" "snd (ws_counter W (snd (ws_frequency W (snd x))))" "fst x"]
      assms [of "snd x"] by (simp add: prod_eq_iff)
  have le: "unat (fst (win_now_mono_ms W x)) \<le> 1844674" for x
  proof -
    have "n mod 2 ^ 64 div 10000000 div 10 ^ 6 \<le> 1844674" for n :: nat
    proof -
      have "n mod 2 ^ 64 \<le> 18446744073709551615" using mod_less_divisor [of "2 ^ 64" n] by simp
      then have "n mod 2 ^ 64 div 10000000000000 \<le> 18446744073709551615 div 10000000000000" by (rule div_le_mono)
      then show ?thesis by (simp add: div_mult2_eq [symmetric])
    qed
    then show ?thesis unfolding reads .
  qed
  have exact: "unat c * 10 ^ 9 mod 2 ^ 64 div 10000000 div 10 ^ 6 = unat c div 10000" if "unat c < 18446744074" for c :: u64
  proof -
    have "unat c * 10 ^ 9 mod 2 ^ 64 = unat c * 10 ^ 9" using that by (intro mod_less) simp
    then show ?thesis by (simp add: div_mult2_eq [symmetric])
  qed
  have late: "fst (win_now_mono_ms W w) < fst (win_now_mono_ms W w0) + 30000" if "fst (win_now_mono_ms W w0) > 1844674 - 30000"
  proof -
    have "unat (fst (win_now_mono_ms W w0)) > 1814674" using that by (simp add: word_less_nat_alt)
    moreover have "unat (fst (win_now_mono_ms W w0) + 30000) = unat (fst (win_now_mono_ms W w0)) + 30000"
      using le [of w0] by (simp add: unat_plus_if')
    ultimately show ?thesis using le [of w] by (simp add: word_less_nat_alt)
  qed
  show ?thesis using le exact late by (simp add: reads Let_def)
qed

definition demo_winsock :: "(unit, u64) winsock" where
  "demo_winsock = \<lparr>ws_startup = (\<lambda>v. (True, v)), ws_getaddrinfo = (\<lambda>h p v. (None, v)), ws_socket = (\<lambda>a v. (INVALID_SOCKET, v)),
     ws_nonblock = (\<lambda>s v. v), ws_connect = (\<lambda>s a v. (None, v)), ws_so_error = (\<lambda>s v. (Some None, v)),
     ws_send = (\<lambda>s d v. (Inr 0, v)), ws_recv = (\<lambda>s n v. (Inr [], v)), ws_closesocket = (\<lambda>s v. v),
     ws_frequency = (\<lambda>v. (10000000, v)), ws_counter = (\<lambda>v. (v, v + 1)),
     ws_file_time = (\<lambda>v. ((0, 0), v))\<rparr>"

text \<open>One tick of the counter takes the clock from its maximum back to zero.\<close>

theorem win_clock_wraps_witness:
  "fst (win_now_mono_ms demo_winsock (True, 18446744073)) = 1844674 \<and> fst (win_now_mono_ms demo_winsock (True, 18446744074)) = 0
     \<and> (\<forall>w. fst (win_now_mono_ms demo_winsock w) < 1844674 + 30000)"
proof -
  have f: "fst (ws_frequency demo_winsock v) = 10000000" for v by (simp add: demo_winsock_def)
  have r: "fst (win_now_mono_ms demo_winsock (True, 18446744073)) = 1844674" "fst (win_now_mono_ms demo_winsock (True, 18446744074)) = 0"
    by (simp_all add: win_now_mono_ms_def win_now_mono_nano_def on_win_def demo_winsock_def)
  have "fst (win_now_mono_ms demo_winsock w) < fst (win_now_mono_ms demo_winsock (True, 18446744073)) + 30000" for w
    using win_clock_wraps [OF f, of w "(True, 18446744073)"] r(1) by simp
  with r show ?thesis by simp
qed

end
